(* ===== verification/Prelude.thy ===== *)
theory Prelude
  imports Complex_Main "HOL-Library.Multiset"
begin

section \<open>Shared vocabulary of the development\<close>

text \<open>
  What every component theory uses: the JavaScript numbers that come out of
  \<^verbatim>\<open>parseInt\<close> (which may be NaN), decimal printing, JavaScript's insertion-ordered
  \<^verbatim>\<open>Map\<close>, the contract of a keyed store as a locale (interpreted on that \<^verbatim>\<open>Map\<close>),
  the stable sort of \<^verbatim>\<open>Array.prototype.sort\<close>, and the collections of facts the
  component proofs share.
\<close>

named_theorems js_simps \<open>equations of the JavaScript primitives\<close>
named_theorems inv_intros \<open>preservation of component invariants\<close>

subsection \<open>Numbers\<close>

text \<open>
  An integer the program reads from text: \<^verbatim>\<open>parseInt\<close> yields NaN when there are no
  digits. Every comparison with NaN is false and \<^verbatim>\<open>Math.max\<close> propagates it.
\<close>

datatype js_int = NaN | Fin int

fun js_less :: "int \<Rightarrow> js_int \<Rightarrow> bool" where
  "js_less i NaN = False"
| "js_less i (Fin j) = (i < j)"

fun js_geq :: "int \<Rightarrow> js_int \<Rightarrow> bool" where
  "js_geq i NaN = False"
| "js_geq i (Fin j) = (i \<ge> j)"

fun js_max :: "int \<Rightarrow> js_int \<Rightarrow> js_int" where
  "js_max i NaN = NaN"
| "js_max i (Fin j) = Fin (max i j)"

text \<open>\<^verbatim>\<open>Math.round\<close> of a real number: halves round up.\<close>

definition js_round :: "real \<Rightarrow> int" where
  "js_round x = \<lfloor>x + 1 / 2\<rfloor>"

lemma round_mono: "x \<le> y \<Longrightarrow> js_round x \<le> js_round y"
  unfolding js_round_def by (intro floor_mono) simp

lemma round_of_int [simp]: "js_round (of_int n) = n"
  unfolding js_round_def by linarith

text \<open>\<^verbatim>\<open>Math.ceil(a / b)\<close> for integers and \<open>b > 0\<close>.\<close>

definition ceil_div :: "int \<Rightarrow> int \<Rightarrow> int" where
  "ceil_div a b = - ((- a) div b)"

lemma ceil_div_bounds:
  assumes "0 < b"
  shows "a \<le> b * ceil_div a b" "b * ceil_div a b < a + b"
proof -
  have m: "0 \<le> (- a) mod b" "(- a) mod b < b" using assms by simp_all
  have e: "b * ((- a) div b) + (- a) mod b = - a" by simp
  have c: "b * ceil_div a b = - (b * ((- a) div b))" by (simp add: ceil_div_def)
  show "a \<le> b * ceil_div a b" "b * ceil_div a b < a + b" using m e c by linarith+
qed

lemma ceil_div_pos: "0 < a \<Longrightarrow> 0 < b \<Longrightarrow> 1 \<le> ceil_div a b"
  using ceil_div_bounds(1) [of b a] by (smt (verit) mult_nonneg_nonpos)

subsection \<open>Printing a natural number in base ten\<close>

fun show_nat :: "nat \<Rightarrow> string" where
  "show_nat n = (if n < 10 then [char_of (48 + n)] else show_nat (n div 10) @ [char_of (48 + n mod 10)])"

declare show_nat.simps [simp del]

definition read_nat :: "string \<Rightarrow> nat" where
  "read_nat s = foldl (\<lambda>a c. 10 * a + (of_char c - 48)) 0 s"

lemma of_char_digit: "d < 10 \<Longrightarrow> (of_char (char_of (48 + d :: nat)) :: nat) = 48 + d"
  by (simp add: of_char_of)

lemma read_show_nat: "read_nat (show_nat n) = n"
proof (induction n rule: show_nat.induct)
  case (1 n)
  show ?case
  proof (cases "n < 10")
    case True
    then show ?thesis by (simp add: show_nat.simps [of n] read_nat_def of_char_digit)
  next
    case False
    then have ih: "foldl (\<lambda>a c. 10 * a + (of_char c - 48)) 0 (show_nat (n div 10)) = n div 10"
      using 1 by (simp add: read_nat_def)
    from False show ?thesis
      by (simp add: show_nat.simps [of n] read_nat_def ih of_char_digit)
  qed
qed

lemma show_nat_inject [simp]: "show_nat m = show_nat n \<longleftrightarrow> m = n"
  by (metis read_show_nat)

subsection \<open>The contract of a keyed store\<close>

text \<open>
  What the cache, the rate limiter and the counters rely on in a JavaScript \<^verbatim>\<open>Map\<close>:
  lookups after a store and after a removal, and the listing of the keys.
\<close>

locale keyed_store =
  fixes get :: "'s \<Rightarrow> 'k \<Rightarrow> 'v option"
    and put :: "'k \<Rightarrow> 'v \<Rightarrow> 's \<Rightarrow> 's"
    and del :: "'k \<Rightarrow> 's \<Rightarrow> 's"
    and keys :: "'s \<Rightarrow> 'k list"
    and ok :: "'s \<Rightarrow> bool"
  assumes get_put: "ok s \<Longrightarrow> get (put k v s) j = (if j = k then Some v else get s j)"
    and get_del: "ok s \<Longrightarrow> get (del k s) j = (if j = k then None else get s j)"
    and keys_get: "ok s \<Longrightarrow> k \<in> set (keys s) \<longleftrightarrow> get s k \<noteq> None"
    and keys_distinct: "ok s \<Longrightarrow> distinct (keys s)"
    and ok_put: "ok s \<Longrightarrow> ok (put k v s)"
    and ok_del: "ok s \<Longrightarrow> ok (del k s)"
begin

lemma set_keys_put: "ok s \<Longrightarrow> set (keys (put k v s)) = insert k (set (keys s))"
  by (auto simp: keys_get ok_put get_put split: if_splits)

lemma set_keys_del: "ok s \<Longrightarrow> set (keys (del k s)) = set (keys s) - {k}"
  by (auto simp: keys_get ok_del get_del split: if_splits)

lemma length_keys: "ok s \<Longrightarrow> length (keys s) = card (set (keys s))"
  by (simp add: distinct_card keys_distinct)

lemma size_put:
  "ok s \<Longrightarrow> length (keys (put k v s)) = (if get s k = None then Suc (length (keys s)) else length (keys s))"
  by (simp add: length_keys ok_put set_keys_put card_insert_if keys_get)

lemma size_del:
  "ok s \<Longrightarrow> length (keys (del k s)) = (if get s k = None then length (keys s) else length (keys s) - 1)"
  by (simp add: length_keys ok_del set_keys_del card_Diff_singleton_if keys_get)

lemma put_forget: "ok s \<Longrightarrow> get (put k v (put k u s)) = get (put k v s)"
  by (rule ext) (simp add: get_put ok_put)

lemma put_del: "ok s \<Longrightarrow> get (put k v (del k s)) = get (put k v s)"
  by (rule ext) (simp add: get_put get_del ok_put ok_del)

end

subsection \<open>JavaScript's Map: an association list in insertion order\<close>

text \<open>
  \<^verbatim>\<open>set\<close> on a present key keeps the key's position and replaces the value; on an absent
  key it appends. Iteration is in insertion order.
\<close>

type_synonym ('k, 'v) jsmap = "('k \<times> 'v) list"

fun jm_get :: "('k, 'v) jsmap \<Rightarrow> 'k \<Rightarrow> 'v option" where
  "jm_get [] j = None"
| "jm_get ((k, v) # m) j = (if k = j then Some v else jm_get m j)"

fun jm_set :: "'k \<Rightarrow> 'v \<Rightarrow> ('k, 'v) jsmap \<Rightarrow> ('k, 'v) jsmap" where
  "jm_set j w [] = [(j, w)]"
| "jm_set j w ((k, v) # m) = (if k = j then (k, w) # m else (k, v) # jm_set j w m)"

definition jm_delete :: "'k \<Rightarrow> ('k, 'v) jsmap \<Rightarrow> ('k, 'v) jsmap" where
  "jm_delete j m = filter (\<lambda>(k, v). k \<noteq> j) m"

definition jm_keys :: "('k, 'v) jsmap \<Rightarrow> 'k list" where
  "jm_keys m = map fst m"

definition jm_ok :: "('k, 'v) jsmap \<Rightarrow> bool" where
  "jm_ok m = distinct (map fst m)"

lemma jm_get_set: "jm_get (jm_set k v m) j = (if j = k then Some v else jm_get m j)"
  by (induction m) auto

lemma jm_get_delete: "jm_get (jm_delete k m) j = (if j = k then None else jm_get m j)"
  by (induction m) (auto simp: jm_delete_def)

lemma jm_get_keys: "k \<in> fst ` set m \<longleftrightarrow> jm_get m k \<noteq> None"
  by (induction m) auto

lemma keys_jm_set: "set (map fst (jm_set k v m)) = insert k (set (map fst m))"
  by (induction k v m rule: jm_set.induct) (simp_all add: insert_commute)

lemma jm_ok_set: "jm_ok m \<Longrightarrow> jm_ok (jm_set k v m)"
  unfolding jm_ok_def
proof (induction k v m rule: jm_set.induct)
  case (2 j w k v m)
  then show ?case by (cases "k = j") (simp_all add: keys_jm_set del: set_map)
qed simp

lemma jm_ok_delete: "jm_ok m \<Longrightarrow> jm_ok (jm_delete k m)"
  by (simp add: jm_ok_def jm_delete_def distinct_map_filter)

lemma jm_set_absent: "jm_get m k = None \<Longrightarrow> jm_set k v m = m @ [(k, v)]"
  by (induction m) (auto split: if_splits)

lemma jm_set_same: "jm_get m k = Some v \<Longrightarrow> jm_set k v m = m"
  by (induction m) (auto split: if_splits)

lemma jm_delete_absent: "jm_get m k = None \<Longrightarrow> jm_delete k m = m"
  by (induction m) (auto simp: jm_delete_def split: if_splits)

lemma jm_keys_set:
  "jm_keys (jm_set k v m) = (if jm_get m k = None then jm_keys m @ [k] else jm_keys m)"
  by (induction k v m rule: jm_set.induct) (auto simp: jm_keys_def)

lemma jm_keys_delete: "jm_keys (jm_delete k m) = filter (\<lambda>j. j \<noteq> k) (jm_keys m)"
  by (induction m) (auto simp: jm_keys_def jm_delete_def)

interpretation jm: keyed_store jm_get jm_set jm_delete jm_keys jm_ok
  by unfold_locales
    (simp_all add: jm_get_set jm_get_delete jm_keys_def jm_get_keys jm_ok_set jm_ok_delete,
      simp add: jm_ok_def)

subsection \<open>Array.prototype.sort: a stable sort by a comparator\<close>

text \<open>
  ECMAScript sorts stably: elements that the comparator does not separate keep their
  order. \<open>le a b\<close> is \<^verbatim>\<open>cmp(a, b) <= 0\<close>.
\<close>

fun insert_by :: "('a \<Rightarrow> 'a \<Rightarrow> bool) \<Rightarrow> 'a \<Rightarrow> 'a list \<Rightarrow> 'a list" where
  "insert_by le x [] = [x]"
| "insert_by le x (y # ys) = (if le x y then x # y # ys else y # insert_by le x ys)"

fun sort_by :: "('a \<Rightarrow> 'a \<Rightarrow> bool) \<Rightarrow> 'a list \<Rightarrow> 'a list" where
  "sort_by le [] = []"
| "sort_by le (x # xs) = insert_by le x (sort_by le xs)"

lemma mset_insert_by [simp]: "mset (insert_by le x ys) = add_mset x (mset ys)"
  by (induction ys) auto

lemma mset_sort_by [simp]: "mset (sort_by le xs) = mset xs"
  by (induction xs) auto

lemma set_insert_by [simp]: "set (insert_by le x ys) = insert x (set ys)"
  by (induction ys) auto

lemma set_sort_by [simp]: "set (sort_by le xs) = set xs"
  by (induction xs) auto

lemma length_sort_by [simp]: "length (sort_by le xs) = length xs"
  by (metis mset_sort_by size_mset)

lemma distinct_sort_by [simp]: "distinct (sort_by le xs) = distinct xs"
  by (metis mset_eq_imp_distinct_iff mset_sort_by)

lemma insert_by_least: "\<forall>y \<in> set xs. le x y \<Longrightarrow> insert_by le x xs = x # xs"
  by (cases xs) auto

lemma sort_by_sorted: "sorted_wrt le xs \<Longrightarrow> sort_by le xs = xs"
  by (induction xs) (auto simp: insert_by_least)

lemma insert_by_map: "(\<And>x y. le (f x) (f y) = le' x y) \<Longrightarrow> insert_by le (f x) (map f xs) = map f (insert_by le' x xs)"
  by (induction xs) auto

lemma sort_by_map: "(\<And>x y. le (f x) (f y) = le' x y) \<Longrightarrow> sort_by le (map f xs) = map f (sort_by le' xs)"
  by (induction xs) (auto simp: insert_by_map)

text \<open>The contract of a comparator: a total preorder on the elements at hand.\<close>

locale comparator =
  fixes le :: "'a \<Rightarrow> 'a \<Rightarrow> bool" and carrier :: "'a set"
  assumes total: "x \<in> carrier \<Longrightarrow> y \<in> carrier \<Longrightarrow> le x y \<or> le y x"
    and trans: "x \<in> carrier \<Longrightarrow> y \<in> carrier \<Longrightarrow> z \<in> carrier \<Longrightarrow> le x y \<Longrightarrow> le y z \<Longrightarrow> le x z"
begin

lemma sorted_insert_by:
  "x \<in> carrier \<Longrightarrow> set ys \<subseteq> carrier \<Longrightarrow> sorted_wrt le ys \<Longrightarrow> sorted_wrt le (insert_by le x ys)"
proof (induction ys)
  case Nil
  then show ?case by simp
next
  case (Cons y ys)
  have x: "x \<in> carrier" and y: "y \<in> carrier" and ys: "set ys \<subseteq> carrier" using Cons.prems by auto
  show ?case
  proof (cases "le x y")
    case True
    then have "\<forall>z\<in>set ys. le x z" using Cons.prems trans [OF x y] ys by auto
    then show ?thesis using True Cons.prems by simp
  next
    case False
    then have "le y x" using total x y by blast
    then show ?thesis using False Cons x ys by simp
  qed
qed

lemma sorted_sort_by: "set xs \<subseteq> carrier \<Longrightarrow> sorted_wrt le (sort_by le xs)"
  by (induction xs) (simp_all add: sorted_insert_by)

end

lemma comparator_key: "comparator (\<lambda>x y. f x \<le> (f y :: 'b :: linorder)) UNIV"
  by unfold_locales auto

text \<open>
  Without ties a list has one sorted order. A query that sorts by a key returns rows with equal
  keys in any order; where the keys differ, every order of the table gives the same answer.
\<close>

lemma sort_by_key_unique:
  fixes f :: "'a \<Rightarrow> 'b :: linorder"
  assumes "mset xs = mset ys" "distinct (map f ys)"
  shows "sort_by (\<lambda>x y. f x \<le> f y) xs = sort_by (\<lambda>x y. f x \<le> f y) ys"
proof (rule map_sorted_distinct_set_unique [of f])
  let ?s = "sort_by (\<lambda>x y. f x \<le> f y)"
  have srt: "sorted (map f (?s zs))" for zs
    using comparator.sorted_sort_by [OF comparator_key, of zs f] by (simp add: sorted_wrt_map)
  have dst: "distinct (map f (?s zs)) = distinct (map f zs)" for zs by (rule mset_eq_imp_distinct_iff) simp
  have m: "mset (map f xs) = mset (map f ys)" using assms(1) by simp
  show "sorted (map f (?s xs))" "sorted (map f (?s ys))" by (rule srt)+
  show "distinct (map f (?s ys))" using assms(2) by (simp only: dst)
  show "distinct (map f (?s xs))" using assms(2) mset_eq_imp_distinct_iff [OF m] by (simp only: dst)
  show "set (?s xs) = set (?s ys)" using mset_eq_setD [OF assms(1)] by simp
  then show "inj_on f (set (?s xs) \<union> set (?s ys))" using assms(2) by (simp add: distinct_map)
qed

subsection \<open>Systems that run down\<close>

text \<open>
  The contract of a step relation that keeps an invariant and uses up work at every
  step: its runs are bounded, and each can be continued to an end.
\<close>

locale draining =
  fixes step :: "'s \<Rightarrow> 's \<Rightarrow> bool" and inv :: "'s \<Rightarrow> bool" and work :: "'s \<Rightarrow> nat"
  assumes inv_step: "inv s \<Longrightarrow> step s t \<Longrightarrow> inv t"
    and work_step: "inv s \<Longrightarrow> step s t \<Longrightarrow> work t < work s"
begin

lemma inv_run: "(step ^^ n) s t \<Longrightarrow> inv s \<Longrightarrow> inv t"
  by (induction n arbitrary: t) (auto intro: inv_step)

lemma run_bound: "(step ^^ n) s t \<Longrightarrow> inv s \<Longrightarrow> n + work t \<le> work s"
proof (induction n arbitrary: t)
  case (Suc n)
  then obtain u where u: "(step ^^ n) s u" "step u t" by auto
  then have "n + work u \<le> work s" "work t < work u"
    using Suc work_step inv_run by auto
  then show ?case by simp
qed simp

lemma run_end: "inv s \<Longrightarrow> \<exists>n t. (step ^^ n) s t \<and> (\<nexists>u. step t u)"
proof (induction "work s" arbitrary: s rule: less_induct)
  case less
  show ?case
  proof (cases "\<exists>s1. step s s1")
    case True
    then obtain s1 where s1: "step s s1" by blast
    then obtain n t where "(step ^^ n) s1 t" "\<nexists>u. step t u"
      using less work_step inv_step by blast
    then show ?thesis using s1 by (meson relpowp_Suc_I2)
  next
    case False
    then show ?thesis by (metis relpowp_0_I)
  qed
qed

end

subsection \<open>Small list facts\<close>

lemma remove1E:
  assumes "x \<in> set xs"
  obtains r where "remove1 x xs = r" "mset xs = add_mset x (mset r)" "length xs = Suc (length r)" "set r \<subseteq> set xs"
proof -
  have "mset xs = add_mset x (mset (remove1 x xs))" using assms by simp
  moreover from this have "length xs = Suc (length (remove1 x xs))" by (metis size_add_mset size_mset)
  ultimately show ?thesis using that set_remove1_subset by metis
qed

lemma distinct_countI: "\<forall>i. count (mset xs) i \<le> 1 \<Longrightarrow> distinct xs"
proof (induction xs)
  case (Cons x xs)
  have "count (mset xs) x = 0" using Cons.prems [THEN spec, of x] by simp
  moreover have "count (mset xs) i \<le> 1" for i
    using Cons.prems [THEN spec, of i] by (rule order_trans [rotated]) simp
  ultimately show ?case using Cons.IH by simp
qed simp

lemma length_filter_update:
  "n < length xs \<Longrightarrow>
    length (filter P (xs[n := x])) + of_bool (P (xs ! n)) = length (filter P xs) + of_bool (P x)"
proof (induction xs arbitrary: n)
  case (Cons y ys)
  then show ?case by (cases n) (auto simp: less_Suc_eq_0_disj)
qed simp

subsection \<open>Tables: rows with a key column\<close>

text \<open>\<^verbatim>\<open>findUnique({ where: { key } })\<close> and \<^verbatim>\<open>update({ where: { key }, data })\<close>.\<close>

definition find_by :: "('r \<Rightarrow> 'k) \<Rightarrow> 'k \<Rightarrow> 'r list \<Rightarrow> 'r option" where
  "find_by key k rows = find (\<lambda>r. key r = k) rows"

definition upd_by :: "('r \<Rightarrow> 'k) \<Rightarrow> 'k \<Rightarrow> ('r \<Rightarrow> 'r) \<Rightarrow> 'r list \<Rightarrow> 'r list" where
  "upd_by key k f rows = map (\<lambda>r. if key r = k then f r else r) rows"

lemma find_by_simps [simp]:
  "find_by key k [] = None" "find_by key k (r # rs) = (if key r = k then Some r else find_by key k rs)"
  by (simp_all add: find_by_def)

lemma find_by_key: "find_by key k rows = Some r \<Longrightarrow> key r = k"
  by (induction rows) (auto split: if_splits)

lemma find_by_in: "find_by key k rows = Some r \<Longrightarrow> r \<in> set rows"
  by (induction rows) (auto split: if_splits)

lemma find_by_None: "find_by key k rows = None \<longleftrightarrow> k \<notin> key ` set rows"
  by (induction rows) auto

lemma find_by_unique: "distinct (map key rows) \<Longrightarrow> r \<in> set rows \<Longrightarrow> find_by key (key r) rows = Some r"
  by (induction rows) (auto simp: image_iff)

lemma find_by_append: "find_by key k (xs @ ys) = (case find_by key k xs of None \<Rightarrow> find_by key k ys | Some r \<Rightarrow> Some r)"
  by (induction xs) auto

lemma find_by_upd:
  "(\<And>r. key (f r) = key r) \<Longrightarrow>
    find_by key j (upd_by key k f rows) = (if j = k then map_option f (find_by key j rows) else find_by key j rows)"
  by (induction rows) (auto simp: upd_by_def)

lemma keys_upd: "(\<And>r. key (f r) = key r) \<Longrightarrow> map key (upd_by key k f rows) = map key rows"
  by (simp add: upd_by_def)

lemma upd_by_absent: "k \<notin> key ` set rows \<Longrightarrow> upd_by key k f rows = rows"
  by (auto simp: upd_by_def intro!: map_idI)

end
