(* ===== verification/WorkerQueue.thy ===== *)
theory WorkerQueue
  imports Prelude
begin

section \<open>The background worker queue (src/lib/queue.ts)\<close>

text \<open>
  \<^verbatim>\<open>WorkerQueue\<close>: an in-memory FIFO with a concurrency cap, retries with linear
  backoff and a dead-letter list. The fields of the class are the fields of \<open>wq\<close>; two
  more fields hold what the JavaScript runtime keeps for it: \<open>running\<close>, the jobs whose
  \<^verbatim>\<open>run\<close> call is suspended at \<^verbatim>\<open>await handler(...)\<close>, and \<open>timers\<close>, the armed
  \<^verbatim>\<open>setTimeout\<close> callbacks with their delay. Whether a handler resolves or rejects, and the
  order in which suspended calls and timers continue, is the environment's choice: the
  step relation \<open>wq_step\<close>. The lemmas show that every reachable queue keeps the
  bookkeeping invariant \<open>wq_inv\<close>, and that the queue always drains.
\<close>

subsection \<open>State\<close>

record 'p job =
  job_id :: string
  job_type :: string
  job_payload :: 'p
  job_enqueuedAt :: int
  job_attempts :: nat

datatype 'p dead = NoHandler "'p job" | Exhausted string "'p job"

record ('p, 'h) wq =
  queue :: "'p job list"
  handlers :: "(string, 'h) jsmap"
  inflight :: int
  pendingRetries :: int
  nextId :: nat
  processed :: nat
  failed :: nat
  deadLetter :: "'p dead list"
  concurrency :: js_int
  maxAttempts :: js_int
  running :: "'p job list"
  timers :: "(nat \<times> 'p job) list"

text \<open>The constructor: \<^verbatim>\<open>Math.max(1, opts.concurrency ?? 4)\<close> and
  \<^verbatim>\<open>Math.max(1, opts.maxAttempts ?? 3)\<close>; NaN stays NaN.\<close>

definition new_queue :: "js_int option \<Rightarrow> js_int option \<Rightarrow> ('p, 'h) wq" where
  "new_queue conc tries =
     \<lparr>queue = [], handlers = [], inflight = 0, pendingRetries = 0, nextId = 1, processed = 0,
      failed = 0, deadLetter = [],
      concurrency = js_max 1 (case conc of None \<Rightarrow> Fin 4 | Some c \<Rightarrow> c),
      maxAttempts = js_max 1 (case tries of None \<Rightarrow> Fin 3 | Some m \<Rightarrow> m),
      running = [], timers = []\<rparr>"

definition on :: "string \<Rightarrow> 'h \<Rightarrow> ('p, 'h) wq \<Rightarrow> ('p, 'h) wq" where
  "on ty h q = q\<lparr>handlers := jm_set ty h (handlers q)\<rparr>"

subsection \<open>Starting jobs\<close>

text \<open>
  \<^verbatim>\<open>run(job)\<close> up to its first suspension. Without a handler it runs to the end, the
  \<^verbatim>\<open>finally\<close> block included: the slot is given back.
\<close>

definition run_begin :: "'p job \<Rightarrow> ('p, 'h) wq \<Rightarrow> ('p, 'h) wq" where
  "run_begin j q =
     (case jm_get (handlers q) (job_type j) of
        None \<Rightarrow> q\<lparr>failed := failed q + 1, deadLetter := deadLetter q @ [NoHandler j],
                   inflight := inflight q - 1\<rparr>
      | Some h \<Rightarrow> q\<lparr>running := running q @ [j\<lparr>job_attempts := job_attempts j + 1\<rparr>]\<rparr>)"

definition can_start :: "('p, 'h) wq \<Rightarrow> bool" where
  "can_start q \<longleftrightarrow> js_less (inflight q) (concurrency q) \<and> queue q \<noteq> []"

definition start_head :: "('p, 'h) wq \<Rightarrow> ('p, 'h) wq" where
  "start_head q = run_begin (hd (queue q)) (q\<lparr>queue := tl (queue q), inflight := inflight q + 1\<rparr>)"

lemma queue_start_head [simp]: "queue (start_head q) = tl (queue q)"
  by (simp add: start_head_def run_begin_def split: option.split)

lemma start_head_frame [simp]:
  "timers (start_head q) = timers q" "processed (start_head q) = processed q"
  "handlers (start_head q) = handlers q" "nextId (start_head q) = nextId q"
  "concurrency (start_head q) = concurrency q" "maxAttempts (start_head q) = maxAttempts q"
  "pendingRetries (start_head q) = pendingRetries q"
  by (simp_all add: start_head_def run_begin_def split: option.split)

text \<open>
  \<^verbatim>\<open>pump\<close>. The nested \<^verbatim>\<open>pump()\<close> in the \<^verbatim>\<open>finally\<close> of a job without a handler
  is the same loop going on, so one loop models both.
\<close>

function pump :: "('p, 'h) wq \<Rightarrow> ('p, 'h) wq" where
  "pump q = (if can_start q then pump (start_head q) else q)"
  by pat_completeness auto
termination
  by (relation "measure (\<lambda>q. length (queue q))") (auto simp: can_start_def)

declare pump.simps [simp del]

definition enqueue :: "string \<Rightarrow> 'p \<Rightarrow> int \<Rightarrow> ('p, 'h) wq \<Rightarrow> string \<times> ('p, 'h) wq" where
  "enqueue ty p now q =
     (let i = ''j_'' @ show_nat (nextId q);
          j = \<lparr>job_id = i, job_type = ty, job_payload = p, job_enqueuedAt = now, job_attempts = 0\<rparr>
      in (i, pump (q\<lparr>nextId := nextId q + 1, queue := queue q @ [j]\<rparr>)))"

subsection \<open>The rest of run, and the retry timer\<close>

definition settle_ok :: "'p job \<Rightarrow> ('p, 'h) wq \<Rightarrow> ('p, 'h) wq" where
  "settle_ok j q = q\<lparr>running := remove1 j (running q), processed := processed q + 1,
                     inflight := inflight q - 1\<rparr>"

definition run_ok :: "'p job \<Rightarrow> ('p, 'h) wq \<Rightarrow> ('p, 'h) wq" where
  "run_ok j q = pump (settle_ok j q)"

definition run_catch :: "string \<Rightarrow> 'p job \<Rightarrow> ('p, 'h) wq \<Rightarrow> ('p, 'h) wq" where
  "run_catch err j q =
     (if js_less (int (job_attempts j)) (maxAttempts q)
      then q\<lparr>pendingRetries := pendingRetries q + 1, timers := timers q @ [(50 * job_attempts j, j)]\<rparr>
      else q\<lparr>failed := failed q + 1, deadLetter := deadLetter q @ [Exhausted err j]\<rparr>)"

definition settle_err :: "string \<Rightarrow> 'p job \<Rightarrow> ('p, 'h) wq \<Rightarrow> ('p, 'h) wq" where
  "settle_err err j q =
     (let q' = run_catch err j (q\<lparr>running := remove1 j (running q)\<rparr>)
      in q'\<lparr>inflight := inflight q' - 1\<rparr>)"

definition run_err :: "string \<Rightarrow> 'p job \<Rightarrow> ('p, 'h) wq \<Rightarrow> ('p, 'h) wq" where
  "run_err err j q = pump (settle_err err j q)"

definition requeue :: "nat \<times> 'p job \<Rightarrow> ('p, 'h) wq \<Rightarrow> ('p, 'h) wq" where
  "requeue t q = q\<lparr>timers := remove1 t (timers q), queue := queue q @ [snd t],
                   pendingRetries := pendingRetries q - 1\<rparr>"

definition retry_fire :: "nat \<times> 'p job \<Rightarrow> ('p, 'h) wq \<Rightarrow> ('p, 'h) wq" where
  "retry_fire t q = pump (requeue t q)"

text \<open>The condition under which \<^verbatim>\<open>drain\<close> stops waiting.\<close>

definition drained :: "('p, 'h) wq \<Rightarrow> bool" where
  "drained q \<longleftrightarrow> queue q = [] \<and> inflight q \<le> 0 \<and> pendingRetries q \<le> 0"

record wq_stats =
  st_pending :: nat
  st_inflight :: int
  st_processed :: nat
  st_failed :: nat
  st_deadLetterCount :: nat
  st_handlers :: nat
  st_concurrency :: js_int

definition stats :: "('p, 'h) wq \<Rightarrow> wq_stats" where
  "stats q = \<lparr>st_pending = length (queue q), st_inflight = inflight q, st_processed = processed q,
              st_failed = failed q, st_deadLetterCount = length (deadLetter q),
              st_handlers = length (jm_keys (handlers q)), st_concurrency = concurrency q\<rparr>"

subsection \<open>Steps and reachable queues\<close>

inductive wq_step :: "('p, 'h) wq \<Rightarrow> ('p, 'h) wq \<Rightarrow> bool" where
  step_ok: "j \<in> set (running q) \<Longrightarrow> wq_step q (run_ok j q)"
| step_err: "j \<in> set (running q) \<Longrightarrow> wq_step q (run_err err j q)"
| step_retry: "t \<in> set (timers q) \<Longrightarrow> wq_step q (retry_fire t q)"

inductive wq_reach :: "js_int option \<Rightarrow> js_int option \<Rightarrow> ('p, 'h) wq \<Rightarrow> bool" for c m where
  reach_new: "wq_reach c m (new_queue c m)"
| reach_on: "wq_reach c m q \<Longrightarrow> wq_reach c m (on ty h q)"
| reach_enqueue: "wq_reach c m q \<Longrightarrow> wq_reach c m (snd (enqueue ty p now q))"
| reach_step: "wq_reach c m q \<Longrightarrow> wq_step q q' \<Longrightarrow> wq_reach c m q'"

subsection \<open>The bookkeeping invariant\<close>

fun dead_job :: "'p dead \<Rightarrow> 'p job" where
  "dead_job (NoHandler j) = j"
| "dead_job (Exhausted e j) = j"

text \<open>The jobs the queue still has to deal with, and the ids of all jobs it remembers.\<close>

definition live :: "('p, 'h) wq \<Rightarrow> 'p job multiset" where
  "live q = mset (queue q) + mset (running q) + mset (map snd (timers q))"

definition all_ids :: "('p, 'h) wq \<Rightarrow> string multiset" where
  "all_ids q = image_mset job_id (live q) + mset (map (job_id \<circ> dead_job) (deadLetter q))"

fun tries_of :: "js_int \<Rightarrow> nat" where
  "tries_of NaN = 1"
| "tries_of (Fin m) = nat m"

abbreviation max_tries :: "('p, 'h) wq \<Rightarrow> nat" where
  "max_tries q \<equiv> tries_of (maxAttempts q)"

fun cap_ok :: "js_int \<Rightarrow> int \<Rightarrow> bool" where
  "cap_ok NaN i \<longleftrightarrow> i \<le> 0"
| "cap_ok (Fin c) i \<longleftrightarrow> 1 \<le> c \<and> i \<le> c"

lemma cap_mono: "cap_ok c i \<Longrightarrow> k \<le> i \<Longrightarrow> cap_ok c k"
  by (cases c) auto

lemma cap_start: "cap_ok c i \<Longrightarrow> js_less i c \<Longrightarrow> cap_ok c (i + 1)"
  by (cases c) auto

definition counts_ok :: "('p, 'h) wq \<Rightarrow> bool" where
  "counts_ok q \<longleftrightarrow>
     inflight q = int (length (running q)) \<and> pendingRetries q = int (length (timers q)) \<and>
     failed q = length (deadLetter q) \<and>
     nextId q = Suc (size (live q) + processed q + failed q)"

definition capacity_ok :: "('p, 'h) wq \<Rightarrow> bool" where
  "capacity_ok q \<longleftrightarrow> cap_ok (concurrency q) (inflight q)"

definition tries_ok :: "('p, 'h) wq \<Rightarrow> bool" where
  "tries_ok q \<longleftrightarrow> 1 \<le> max_tries q \<and>
     (\<forall>j \<in> set (queue q). job_attempts j < max_tries q) \<and>
     (\<forall>j \<in> set (running q). 1 \<le> job_attempts j \<and> job_attempts j \<le> max_tries q) \<and>
     (\<forall>t \<in> set (timers q). fst t = 50 * job_attempts (snd t) \<and> 1 \<le> job_attempts (snd t) \<and> job_attempts (snd t) < max_tries q) \<and>
     (\<forall>e j. Exhausted e j \<in> set (deadLetter q) \<longrightarrow> job_attempts j = max_tries q)"

definition ids_ok :: "('p, 'h) wq \<Rightarrow> bool" where
  "ids_ok q \<longleftrightarrow> (\<forall>i. count (all_ids q) i \<le> 1) \<and>
     (\<forall>i \<in># all_ids q. \<exists>n. 1 \<le> n \<and> n < nextId q \<and> i = ''j_'' @ show_nat n)"

definition wq_inv :: "('p, 'h) wq \<Rightarrow> bool" where
  "wq_inv q \<longleftrightarrow> counts_ok q \<and> capacity_ok q \<and> tries_ok q \<and> ids_ok q"

lemmas wq_inv_defs = wq_inv_def counts_ok_def capacity_ok_def tries_ok_def

lemma js_less_tries: "1 \<le> a \<Longrightarrow> js_less (int a) (maxAttempts q) \<longleftrightarrow> a < max_tries q"
  by (cases "maxAttempts q") auto

text \<open>Ids: forgetting jobs keeps them distinct, and a fresh id is new.\<close>

lemma ids_ok_mono:
  assumes "ids_ok q" "all_ids q' \<subseteq># all_ids q" "nextId q \<le> nextId q'"
  shows "ids_ok q'"
proof -
  have "count (all_ids q') i \<le> 1" for i
    using assms(1,2) by (meson ids_ok_def mset_subset_eq_count order_trans)
  moreover have "\<exists>n. 1 \<le> n \<and> n < nextId q' \<and> i = ''j_'' @ show_nat n" if "i \<in># all_ids q'" for i
    using assms that by (meson ids_ok_def mset_subset_eqD order_less_le_trans)
  ultimately show ?thesis by (simp add: ids_ok_def)
qed

lemma ids_ok_fresh:
  assumes "ids_ok q" "all_ids q' = add_mset (''j_'' @ show_nat (nextId q)) (all_ids q)"
    "nextId q' = Suc (nextId q)" "1 \<le> nextId q"
  shows "ids_ok q'"
proof -
  let ?i = "''j_'' @ show_nat (nextId q)"
  have "?i \<notin># all_ids q" using assms(1) by (fastforce simp: ids_ok_def)
  then have "count (all_ids q') i \<le> 1" for i
    using assms(1,2) by (auto simp: ids_ok_def not_in_iff)
  moreover have "\<exists>n. 1 \<le> n \<and> n < nextId q' \<and> i = ''j_'' @ show_nat n" if "i \<in># all_ids q'" for i
  proof (cases "i \<in># all_ids q")
    case True
    then obtain n where "1 \<le> n" "n < nextId q" "i = ''j_'' @ show_nat n"
      using assms(1) by (auto simp: ids_ok_def)
    then show ?thesis using assms(3) by (intro exI [of _ n]) simp
  next
    case False
    then have "i = ?i" using that assms(2) by simp
    then show ?thesis using assms(3,4) by (intro exI [of _ "nextId q"]) simp
  qed
  ultimately show ?thesis by (simp add: ids_ok_def)
qed

lemma hd_tl_mset: "xs \<noteq> [] \<Longrightarrow> mset xs = add_mset (hd xs) (mset (tl xs))"
  by (cases xs) auto

lemma wq_inv_start_head:
  assumes "wq_inv q" "can_start q"
  shows "wq_inv (start_head q)"
proof -
  obtain j js where q: "queue q = j # js" using assms(2) by (cases "queue q") (auto simp: can_start_def)
  have "all_ids (start_head q) = all_ids q"
    using q by (simp add: start_head_def run_begin_def all_ids_def live_def split: option.split)
  then have "ids_ok (start_head q)"
    using assms(1) by (rule_tac ids_ok_mono [of q]) (simp_all add: wq_inv_def)
  moreover have "counts_ok (start_head q)"
    using assms q by (auto simp: wq_inv_def counts_ok_def live_def start_head_def run_begin_def split: option.split)
  moreover have "capacity_ok (start_head q)"
    using assms q by (auto simp: wq_inv_def capacity_ok_def can_start_def start_head_def run_begin_def cap_start split: option.split)
  moreover have "tries_ok (start_head q)"
    using assms q by (auto simp: wq_inv_def tries_ok_def start_head_def run_begin_def split: option.split)
  ultimately show ?thesis by (simp add: wq_inv_def)
qed

text \<open>What every started job keeps, the pump keeps.\<close>

lemma pump_keeps:
  assumes "\<And>q. can_start q \<Longrightarrow> P q \<Longrightarrow> P (start_head q)" and "P q"
  shows "P (pump q)"
  using assms(2)
proof (induction q rule: pump.induct)
  case (1 q)
  then show ?case by (cases "can_start q") (simp_all add: pump.simps [of q] assms(1))
qed

lemma wq_inv_pump [inv_intros]: "wq_inv q \<Longrightarrow> wq_inv (pump q)"
  by (rule pump_keeps [of wq_inv]) (simp_all add: wq_inv_start_head)

lemma not_can_start_pump: "\<not> can_start (pump q)"
proof (induction q rule: pump.induct)
  case (1 q)
  then show ?case by (cases "can_start q") (simp_all add: pump.simps [of q])
qed

lemma pump_frame [simp]:
  "timers (pump q) = timers q" "processed (pump q) = processed q" "handlers (pump q) = handlers q"
  "nextId (pump q) = nextId q" "concurrency (pump q) = concurrency q" "maxAttempts (pump q) = maxAttempts q"
  "pendingRetries (pump q) = pendingRetries q"
  by (rule pump_keeps, simp_all)+

lemma wq_inv_new: "wq_inv (new_queue c m)"
proof -
  have "1 \<le> tries_of (js_max 1 x)" for x by (cases x) auto
  moreover have "cap_ok (js_max 1 x) 0" for x by (cases x) auto
  ultimately show ?thesis
    by (simp add: wq_inv_defs ids_ok_def all_ids_def live_def new_queue_def del: One_nat_def)
qed

lemma wq_inv_on: "wq_inv q \<Longrightarrow> wq_inv (on ty h q)"
proof -
  assume inv: "wq_inv q"
  then have "ids_ok (on ty h q)"
    by (rule_tac ids_ok_mono [of q]) (simp_all add: wq_inv_def on_def all_ids_def live_def)
  then show ?thesis using inv by (auto simp: wq_inv_defs on_def live_def)
qed

lemma wq_inv_enqueue: "wq_inv q \<Longrightarrow> wq_inv (snd (enqueue ty p now q))"
proof -
  assume inv: "wq_inv q"
  let ?j = "\<lparr>job_id = ''j_'' @ show_nat (nextId q), job_type = ty, job_payload = p, job_enqueuedAt = now, job_attempts = 0\<rparr>"
  let ?q = "q\<lparr>nextId := nextId q + 1, queue := queue q @ [?j]\<rparr>"
  have "all_ids ?q = add_mset (''j_'' @ show_nat (nextId q)) (all_ids q)"
    by (simp add: all_ids_def live_def)
  moreover have "1 \<le> nextId q" using inv by (simp add: wq_inv_def counts_ok_def)
  ultimately have "ids_ok ?q" using inv by (rule_tac ids_ok_fresh [of q]) (simp_all add: wq_inv_def)
  moreover have "counts_ok ?q" using inv by (simp add: wq_inv_def counts_ok_def live_def)
  moreover have "capacity_ok ?q" using inv by (simp add: wq_inv_def capacity_ok_def)
  moreover have "tries_ok ?q" using inv by (simp add: wq_inv_def tries_ok_def ball_Un)
  ultimately have "wq_inv ?q" by (simp add: wq_inv_def)
  then show ?thesis by (simp add: enqueue_def Let_def wq_inv_pump)
qed

lemma wq_inv_settle_ok:
  assumes inv: "wq_inv q" and j: "j \<in> set (running q)"
  shows "wq_inv (settle_ok j q)"
proof -
  obtain r where r: "remove1 j (running q) = r" "mset (running q) = add_mset j (mset r)"
    "length (running q) = Suc (length r)" "set r \<subseteq> set (running q)"
    using j by (rule remove1E)
  let ?q = "q\<lparr>running := r, processed := processed q + 1, inflight := inflight q - 1\<rparr>"
  have "all_ids ?q \<subseteq># all_ids q" by (simp add: all_ids_def live_def r(2))
  then have "ids_ok ?q" using inv by (rule_tac ids_ok_mono [of q]) (simp_all add: wq_inv_def)
  moreover have "counts_ok ?q" using inv r by (simp add: wq_inv_def counts_ok_def live_def)
  moreover have "capacity_ok ?q"
    using inv by (auto simp: wq_inv_def capacity_ok_def elim: cap_mono)
  moreover have "tries_ok ?q" using inv r(4) by (simp add: wq_inv_def tries_ok_def subset_iff)
  ultimately have "wq_inv ?q" by (simp add: wq_inv_def)
  then show ?thesis by (simp add: settle_ok_def r(1))
qed

lemma wq_inv_settle_err:
  assumes inv: "wq_inv q" and j: "j \<in> set (running q)"
  shows "wq_inv (settle_err err j q)"
proof -
  obtain r where r: "remove1 j (running q) = r" "mset (running q) = add_mset j (mset r)"
    "length (running q) = Suc (length r)" "set r \<subseteq> set (running q)"
    using j by (rule remove1E)
  define q1 where "q1 = run_catch err j (q\<lparr>running := r\<rparr>)"
  let ?q = "q1\<lparr>inflight := inflight q1 - 1\<rparr>"
  have tries: "1 \<le> job_attempts j" "job_attempts j \<le> max_tries q"
    using inv j by (auto simp: wq_inv_def tries_ok_def)
  note c = run_catch_def js_less_tries [OF tries(1)]
  have "all_ids ?q = all_ids q" by (simp add: q1_def c all_ids_def live_def r(2))
  then have "ids_ok ?q" using inv by (rule_tac ids_ok_mono [of q]) (simp_all add: wq_inv_def q1_def c)
  moreover have "counts_ok ?q" using inv r by (simp add: wq_inv_def counts_ok_def live_def q1_def c)
  moreover have "capacity_ok ?q"
    using inv by (auto simp: wq_inv_def capacity_ok_def q1_def c elim: cap_mono)
  moreover have "tries_ok ?q"
    using inv tries r(4) js_less_tries [OF tries(1), of q]
    by (cases "js_less (int (job_attempts j)) (maxAttempts q)")
      (auto simp: wq_inv_def tries_ok_def q1_def run_catch_def)
  ultimately have "wq_inv ?q" by (simp add: wq_inv_def)
  then show ?thesis by (simp add: settle_err_def Let_def r(1) q1_def [symmetric])
qed

lemma wq_inv_requeue:
  assumes inv: "wq_inv q" and t: "t \<in> set (timers q)"
  shows "wq_inv (requeue t q)"
proof -
  obtain r where r: "remove1 t (timers q) = r" "mset (timers q) = add_mset t (mset r)"
    "length (timers q) = Suc (length r)" "set r \<subseteq> set (timers q)"
    using t by (rule remove1E)
  let ?q = "q\<lparr>timers := r, queue := queue q @ [snd t], pendingRetries := pendingRetries q - 1\<rparr>"
  have "all_ids ?q = all_ids q" by (simp add: all_ids_def live_def r(2))
  then have "ids_ok ?q" using inv by (rule_tac ids_ok_mono [of q]) (simp_all add: wq_inv_def)
  moreover have "counts_ok ?q" using inv r by (simp add: wq_inv_def counts_ok_def live_def)
  moreover have "capacity_ok ?q" using inv by (simp add: wq_inv_def capacity_ok_def)
  moreover have "tries_ok ?q" using inv t r(4) by (auto simp: wq_inv_def tries_ok_def)
  ultimately have "wq_inv ?q" by (simp add: wq_inv_def)
  then show ?thesis by (simp add: requeue_def r(1))
qed

lemmas step_defs = run_ok_def run_err_def retry_fire_def

lemmas settle_inv = wq_inv_settle_ok wq_inv_settle_err wq_inv_requeue

lemma wq_inv_step: "wq_step q q' \<Longrightarrow> wq_inv q \<Longrightarrow> wq_inv q'"
  by (induction rule: wq_step.induct) (simp_all add: step_defs settle_inv inv_intros)

lemma wq_reach_inv: "wq_reach c m q \<Longrightarrow> wq_inv q"
  by (induction rule: wq_reach.induct)
    (simp_all add: wq_inv_new wq_inv_on wq_inv_enqueue wq_inv_step)

text \<open>Between steps no slot is free while a job waits.\<close>

lemma not_can_start_step: "wq_step q q' \<Longrightarrow> \<not> can_start q'"
  by (induction rule: wq_step.induct)
    (simp_all add: step_defs not_can_start_pump)

lemma wq_reach_not_can_start: "wq_reach c m q \<Longrightarrow> \<not> can_start q"
proof (induction rule: wq_reach.induct)
  case (reach_enqueue q ty p now)
  then show ?case by (simp add: enqueue_def Let_def not_can_start_pump)
next
  case (reach_step q q')
  then show ?case by (simp add: not_can_start_step)
qed (simp_all add: new_queue_def on_def can_start_def)

subsection \<open>Every job is dealt with\<close>

text \<open>
  The work left: a job that has been tried \<open>a\<close> times weighs \<open>3 * (M - a)\<close> in the queue, one more
  under its timer and two more while it runs. Every step takes weight away, so with no
  new jobs only finitely many steps can happen.
\<close>

definition job_work :: "nat \<Rightarrow> 'p job \<Rightarrow> nat" where
  "job_work m j = 3 * (m - job_attempts j)"

definition work :: "('p, 'h) wq \<Rightarrow> nat" where
  "work q = (\<Sum>j \<in># mset (queue q). job_work (max_tries q) j)
    + (\<Sum>j \<in># mset (running q). job_work (max_tries q) j + 2)
    + (\<Sum>t \<in># mset (timers q). job_work (max_tries q) (snd t) + 1)"

lemma work_start_head:
  assumes "wq_inv q" "can_start q"
  shows "work (start_head q) \<le> work q"
proof -
  obtain j js where q: "queue q = j # js" using assms(2) by (cases "queue q") (auto simp: can_start_def)
  have "job_attempts j < max_tries q" using assms(1) q by (simp add: wq_inv_def tries_ok_def)
  then show ?thesis
    using q by (auto simp: work_def start_head_def run_begin_def job_work_def split: option.split)
qed

lemma work_pump: "wq_inv q \<Longrightarrow> work (pump q) \<le> work q"
proof -
  assume "wq_inv q"
  then have "wq_inv (pump q) \<and> work (pump q) \<le> work q"
    by (intro pump_keeps [where P = "\<lambda>q'. wq_inv q' \<and> work q' \<le> work q"])
      (auto simp: wq_inv_start_head intro: order_trans [OF work_start_head])
  then show ?thesis ..
qed

lemma sum_mset_le_mult: "(\<And>x. x \<in># M \<Longrightarrow> f x \<le> k) \<Longrightarrow> (\<Sum>x\<in>#M. f x) \<le> k * size M" for k :: nat
  by (induction M) (auto simp: add_mono)

lemma work_le:
  assumes "wq_inv q"
  shows "work q \<le> 3 * max_tries q * (length (queue q) + length (running q) + length (timers q))"
proof -
  have "(\<Sum>j \<in># mset (queue q). job_work (max_tries q) j) \<le> 3 * max_tries q * size (mset (queue q))"
    by (rule sum_mset_le_mult) (simp add: job_work_def)
  moreover have "(\<Sum>j \<in># mset (running q). job_work (max_tries q) j + 2) \<le> 3 * max_tries q * size (mset (running q))"
    using assms by (intro sum_mset_le_mult) (fastforce simp: job_work_def wq_inv_def tries_ok_def)
  moreover have "(\<Sum>t \<in># mset (timers q). job_work (max_tries q) (snd t) + 1) \<le> 3 * max_tries q * size (mset (timers q))"
    using assms by (intro sum_mset_le_mult) (fastforce simp: job_work_def wq_inv_def tries_ok_def)
  ultimately show ?thesis by (simp add: work_def add_mult_distrib2)
qed

lemma work_settle_ok:
  assumes "j \<in> set (running q)"
  shows "work (settle_ok j q) < work q"
proof -
  obtain r where "remove1 j (running q) = r" "mset (running q) = add_mset j (mset r)"
    using assms by (rule remove1E)
  then show ?thesis by (simp add: work_def settle_ok_def)
qed

lemma work_settle_err:
  assumes "wq_inv q" "j \<in> set (running q)"
  shows "work (settle_err err j q) < work q"
proof -
  obtain r where "remove1 j (running q) = r" "mset (running q) = add_mset j (mset r)"
    using assms(2) by (rule remove1E)
  then show ?thesis by (simp add: work_def settle_err_def run_catch_def Let_def)
qed

lemma work_requeue:
  assumes "t \<in> set (timers q)"
  shows "work (requeue t q) < work q"
proof -
  obtain r where "remove1 t (timers q) = r" "mset (timers q) = add_mset t (mset r)"
    using assms by (rule remove1E)
  then show ?thesis by (simp add: work_def requeue_def)
qed

lemma work_step: "wq_step q q' \<Longrightarrow> wq_inv q \<Longrightarrow> work q' < work q"
  by (induction rule: wq_step.induct)
    (auto simp: step_defs work_settle_ok work_settle_err work_requeue settle_inv
      intro: order_le_less_trans [OF work_pump])

interpretation wq: draining wq_step wq_inv work
  by unfold_locales (simp_all add: wq_inv_step work_step)

lemma wq_reach_run: "(wq_step ^^ n) q q' \<Longrightarrow> wq_reach c m q \<Longrightarrow> wq_reach c m q'"
  by (induction n arbitrary: q') (auto intro: wq_reach.reach_step)

lemma wq_reach_concurrency:
  "wq_reach c m q \<Longrightarrow> concurrency q = js_max 1 (case c of None \<Rightarrow> Fin 4 | Some c \<Rightarrow> c)"
proof (induction rule: wq_reach.induct)
  case (reach_step q q')
  from reach_step.hyps(2) reach_step.IH show ?case
    by (cases rule: wq_step.cases)
      (simp_all add: step_defs settle_ok_def settle_err_def run_catch_def requeue_def Let_def)
qed (simp_all add: new_queue_def on_def enqueue_def Let_def)

lemma wq_reach_tries:
  "wq_reach c m q \<Longrightarrow> maxAttempts q = js_max 1 (case m of None \<Rightarrow> Fin 3 | Some m \<Rightarrow> m)"
proof (induction rule: wq_reach.induct)
  case (reach_step q q')
  from reach_step.hyps(2) reach_step.IH show ?case
    by (cases rule: wq_step.cases)
      (simp_all add: step_defs settle_ok_def settle_err_def run_catch_def requeue_def Let_def)
qed (simp_all add: new_queue_def on_def enqueue_def Let_def)

lemma stuck_empty: "\<nexists>q'. wq_step q q' \<Longrightarrow> running q = [] \<and> timers q = []"
  by (metis list.set_intros(1) neq_Nil_conv step_ok step_retry)

lemma stuck_drained:
  assumes "wq_reach c m q" "\<nexists>q'. wq_step q q'" "concurrency q = Fin k"
  shows "drained q"
proof -
  have e: "running q = []" "timers q = []" using stuck_empty [OF assms(2)] by auto
  have inv: "wq_inv q" using assms(1) by (rule wq_reach_inv)
  then have "inflight q = 0" "pendingRetries q = 0" using e by (auto simp: wq_inv_def counts_ok_def)
  moreover have "1 \<le> k" using inv assms(3) by (simp add: wq_inv_def capacity_ok_def)
  ultimately show ?thesis
    using wq_reach_not_can_start [OF assms(1)] assms(3) by (auto simp: drained_def can_start_def)
qed

subsection \<open>A cap that is not a number\<close>

text \<open>With a NaN cap no comparison lets a job start.\<close>

lemma pump_nan: "concurrency q = NaN \<Longrightarrow> pump q = q"
  by (simp add: pump.simps [of q] can_start_def)

definition stalled :: "('p, 'h) wq \<Rightarrow> bool" where
  "stalled q \<longleftrightarrow> concurrency q = NaN \<and> running q = [] \<and> timers q = [] \<and> processed q = 0 \<and> failed q = 0"

lemma stalled_no_step: "stalled q \<Longrightarrow> \<not> wq_step q q'"
  by (auto simp: stalled_def elim: wq_step.cases)

lemma wq_reach_stalled: "wq_reach (Some NaN) m q \<Longrightarrow> stalled q"
proof (induction rule: wq_reach.induct)
  case (reach_step q q')
  then show ?case using stalled_no_step by blast
qed (simp_all add: stalled_def new_queue_def on_def enqueue_def Let_def pump_nan)

subsection \<open>Properties\<close>

text \<open>
  C4. Bookkeeping of the worker queue. In every queue that registrations, enqueues,
  settled handlers and fired timers can produce: the in-flight counter is the number of
  suspended runs and never above the cap; no job waits while a slot is free; every id
  handed out belongs to a job that is pending, running, awaiting its retry, processed or
  failed; failures and dead letters agree in number; and no two remembered jobs share an id.
\<close>

theorem queue_bookkeeping:
  assumes "wq_reach (Some (Fin c)) m q"
  shows "inflight q = int (length (running q)) \<and> inflight q \<le> max 1 c \<and>
    (inflight q < max 1 c \<longrightarrow> queue q = []) \<and>
    nextId q - 1 = length (queue q) + length (running q) + length (timers q) + processed q + failed q \<and>
    st_failed (stats q) = st_deadLetterCount (stats q) \<and>
    distinct (map job_id (queue q @ running q @ map snd (timers q) @ map dead_job (deadLetter q)))"
proof -
  have inv: "wq_inv q" and con: "concurrency q = Fin (max 1 c)"
    using wq_reach_inv [OF assms] wq_reach_concurrency [OF assms] by auto
  have idle: "\<not> can_start q" by (rule wq_reach_not_can_start [OF assms])
  have "all_ids q = mset (map job_id (queue q @ running q @ map snd (timers q) @ map dead_job (deadLetter q)))"
    by (simp add: all_ids_def live_def image_mset.compositionality o_def)
  then have "distinct (map job_id (queue q @ running q @ map snd (timers q) @ map dead_job (deadLetter q)))"
    using inv by (intro distinct_countI) (metis wq_inv_def ids_ok_def)
  then show ?thesis
    using inv con idle by (simp add: wq_inv_defs can_start_def stats_def live_def)
qed

text \<open>The queue of the examples: one slot, one registered handler, two jobs.\<close>

definition demo_queue :: "js_int \<Rightarrow> (unit, unit) wq" where
  "demo_queue c = snd (enqueue ''t'' () 7 (snd (enqueue ''t'' () 5 (on ''t'' () (new_queue (Some c) None)))))"

lemma demo_reach: "wq_reach (Some c) None (demo_queue c)"
  unfolding demo_queue_def by (intro wq_reach.intros)

definition demo_queue1 :: "int \<Rightarrow> (unit, unit) wq" where
  "demo_queue1 m = snd (enqueue ''t'' () 5 (on ''t'' () (new_queue None (Some (Fin m)))))"

lemma demo_reach1: "wq_reach None (Some (Fin m)) (demo_queue1 m)"
  unfolding demo_queue1_def by (intro wq_reach.intros)

lemma queue_bookkeeping_witness:
  "inflight (demo_queue (Fin 1)) = 1 \<and> length (queue (demo_queue (Fin 1))) = 1 \<and>
   nextId (demo_queue (Fin 1)) - 1 = 2"
proof -
  have "queue (demo_queue (Fin 1)) \<noteq> [] \<and> length (queue (demo_queue (Fin 1))) = 1"
    by code_simp
  moreover have "nextId (demo_queue (Fin 1)) = 3" by code_simp
  ultimately show ?thesis
    using queue_bookkeeping [OF demo_reach, of 1] by auto
qed

text \<open>
  C5. The retry bound. A handler is called at most \<open>max 1 m\<close> times for a job (\<open>m\<close> is the
  configured number of attempts): a running job is on a call between the first and the
  last, a job waiting for its retry has at least one call left and the linear backoff of
  50 ms per call made, and a job that is given up after errors has used exactly all of them.
\<close>

theorem queue_retry_bound:
  assumes "wq_reach c (Some (Fin m)) q"
  shows "(\<forall>j. j \<in> set (running q) \<longrightarrow> 1 \<le> job_attempts j \<and> int (job_attempts j) \<le> max 1 m) \<and>
    (\<forall>d j. (d, j) \<in> set (timers q) \<longrightarrow> d = 50 * job_attempts j \<and> int (job_attempts j) < max 1 m) \<and>
    (\<forall>e j. Exhausted e j \<in> set (deadLetter q) \<longrightarrow> int (job_attempts j) = max 1 m)"
proof -
  have t: "tries_ok q" using wq_reach_inv [OF assms] by (simp add: wq_inv_def)
  have "max_tries q = nat (max 1 m)" using wq_reach_tries [OF assms] by simp
  then have "int (max_tries q) = max 1 m" by simp
  then show ?thesis using t by (auto simp: tries_ok_def)
qed

lemma queue_retry_bound_witness:
  "\<exists>j. Exhausted ''e'' j \<in> set (deadLetter (run_err ''e'' (hd (running (demo_queue1 1))) (demo_queue1 1))) \<and>
     job_attempts j = 1"
proof -
  let ?q = "demo_queue1 1"
  have r: "running ?q \<noteq> []" by code_simp
  then have reach: "wq_reach None (Some (Fin 1)) (run_err ''e'' (hd (running ?q)) ?q)"
    by (intro wq_reach.reach_step [OF demo_reach1] wq_step.step_err) simp
  have "\<exists>j. Exhausted ''e'' j \<in> set (deadLetter (run_err ''e'' (hd (running ?q)) ?q))"
    by (rule exI [of _ "hd (running ?q)"]) code_simp
  then show ?thesis using queue_retry_bound [OF reach] by force
qed

text \<open>
  C6. The queue drains. No run of handler completions and timer firings is longer than
  three times the allowed attempts for each job still held; every run can be continued until nothing is left to happen; and
  there, with a numeric cap, \<open>drain\<close> returns: nothing is pending, in flight or waiting for
  a retry, and every id ever handed out is counted as processed or as failed.
\<close>

theorem queue_drains:
  assumes "wq_reach (Some (Fin c)) m q"
  shows "(\<forall>n q'. (wq_step ^^ n) q q' \<longrightarrow>
       n \<le> 3 * max_tries q * (length (queue q) + length (running q) + length (timers q))) \<and>
    (\<exists>n q'. (wq_step ^^ n) q q' \<and> (\<nexists>q''. wq_step q' q'')) \<and>
    (\<forall>n q'. (wq_step ^^ n) q q' \<and> (\<nexists>q''. wq_step q' q'') \<longrightarrow>
       drained q' \<and> processed q' + failed q' = nextId q' - 1)"
proof (intro conjI allI impI)
  have inv: "wq_inv q" by (rule wq_reach_inv [OF assms])
  show "n \<le> 3 * max_tries q * (length (queue q) + length (running q) + length (timers q))"
    if "(wq_step ^^ n) q q'" for n q'
    using wq.run_bound [OF that inv] work_le [OF inv] by simp
  show "\<exists>n q'. (wq_step ^^ n) q q' \<and> (\<nexists>q''. wq_step q' q'')" by (rule wq.run_end [OF inv])
  fix n q' assume run: "(wq_step ^^ n) q q' \<and> (\<nexists>q''. wq_step q' q'')"
  then have reach: "wq_reach (Some (Fin c)) m q'" using wq_reach_run assms by blast
  then show d: "drained q'"
    using stuck_drained run wq_reach_concurrency [OF reach] by auto
  have "running q' = []" "timers q' = []" using run stuck_empty by auto
  then show "processed q' + failed q' = nextId q' - 1"
    using wq_reach_inv [OF reach] d by (simp add: wq_inv_def counts_ok_def live_def drained_def)
qed

lemma queue_drains_witness: "\<exists>n q'. (wq_step ^^ n) (demo_queue (Fin 1)) q' \<and> drained q'"
  using queue_drains [OF demo_reach] by blast

text \<open>
  A cap that is not a number stops the queue for good. \<open>QUEUE_CONCURRENCY\<close> is read with
  \<open>parseInt\<close>, and the constructor's \<open>Math.max(1, NaN)\<close> is NaN: then no job ever starts,
  everything enqueued stays pending, no step is ever possible, and \<open>drain\<close> would wait for ever.
\<close>

theorem queue_nan_stalls:
  assumes "wq_reach (Some NaN) m q"
  shows "running q = [] \<and> processed q = 0 \<and> failed q = 0 \<and>
    length (queue q) = nextId q - 1 \<and> (\<nexists>q'. wq_step q q') \<and> (drained q \<longleftrightarrow> nextId q = 1)"
proof -
  have s: "stalled q" and inv: "wq_inv q"
    using wq_reach_stalled [OF assms] wq_reach_inv [OF assms] by auto
  have "length (queue q) = nextId q - 1" "1 \<le> nextId q" "inflight q = 0" "pendingRetries q = 0"
    using s inv by (auto simp: stalled_def wq_inv_def counts_ok_def live_def)
  then show ?thesis
    using s stalled_no_step [OF s] by (auto simp: stalled_def drained_def)
qed

lemma queue_nan_stalls_witness: "length (queue (demo_queue NaN)) = 2 \<and> (\<nexists>q'. wq_step (demo_queue NaN) q')"
proof -
  have "nextId (demo_queue NaN) = 3" by code_simp
  then show ?thesis using queue_nan_stalls [OF demo_reach] by simp
qed

end
