(* ===== verification/TtlCache.thy ===== *)
theory TtlCache
  imports Prelude
begin

section \<open>The in-process cache (src/lib/cache.ts)\<close>

text \<open>
  \<^verbatim>\<open>TTLCache\<close>: a bounded map with a time to live per entry, evicting from the front of
  the \<^verbatim>\<open>Map\<close>'s insertion order, and the single-flight loader \<^verbatim>\<open>remember\<close>. The clock
  (\<^verbatim>\<open>Date.now()\<close>) is an argument \<open>now\<close>. A promise is its number; \<open>loads\<close> are the loader
  calls whose promise chain has not run to its end, which the JavaScript runtime holds.
\<close>

subsection \<open>State and the synchronous operations\<close>

record 'v entry =
  entry_value :: 'v
  expiresAt :: int

datatype phase = Loading | Settled

record load =
  ld_promise :: nat
  ld_key :: string
  ld_ttl :: int
  ld_phase :: phase

record 'v cache =
  store :: "(string, 'v entry) jsmap"
  cache_inflight :: "(string, nat) jsmap"
  hits :: nat
  misses :: nat
  maxEntries :: js_int
  loads :: "load list"
  next_promise :: nat

definition new_cache :: "js_int \<Rightarrow> 'v cache" where
  "new_cache m = \<lparr>store = [], cache_inflight = [], hits = 0, misses = 0, maxEntries = m, loads = [], next_promise = 0\<rparr>"

text \<open>\<^verbatim>\<open>undefined\<close> is \<open>None\<close>. A hit moves its entry to the end of the order.\<close>

definition cache_get :: "string \<Rightarrow> int \<Rightarrow> 'v cache \<Rightarrow> 'v option \<times> 'v cache" where
  "cache_get key now c =
     (case jm_get (store c) key of
        None \<Rightarrow> (None, c\<lparr>misses := misses c + 1\<rparr>)
      | Some e \<Rightarrow>
          if expiresAt e < now
          then (None, c\<lparr>store := jm_delete key (store c), misses := misses c + 1\<rparr>)
          else (Some (entry_value e),
                c\<lparr>store := jm_set key e (jm_delete key (store c)), hits := hits c + 1\<rparr>))"

text \<open>When the map is full and the key is new, the first key of the order goes.\<close>

definition evict :: "(string, 'v entry) jsmap \<Rightarrow> (string, 'v entry) jsmap" where
  "evict m = (case jm_keys m of [] \<Rightarrow> m | k # _ \<Rightarrow> jm_delete k m)"

definition cache_set :: "string \<Rightarrow> 'v \<Rightarrow> int \<Rightarrow> int \<Rightarrow> 'v cache \<Rightarrow> 'v cache" where
  "cache_set key v ttl now c =
     (let m = (if js_geq (int (length (store c))) (maxEntries c) \<and> jm_get (store c) key = None
               then evict (store c) else store c)
      in c\<lparr>store := jm_set key \<lparr>entry_value = v, expiresAt = now + ttl\<rparr> m\<rparr>)"

definition cache_delete :: "string \<Rightarrow> 'v cache \<Rightarrow> 'v cache" where
  "cache_delete key c = c\<lparr>store := jm_delete key (store c)\<rparr>"

definition cache_clear :: "'v cache \<Rightarrow> 'v cache" where
  "cache_clear c = c\<lparr>store := [], cache_inflight := [], hits := 0, misses := 0\<rparr>"

record cache_statistics =
  cs_size :: nat
  cs_maxEntries :: js_int
  cs_hits :: nat
  cs_misses :: nat
  cs_hitRate :: rat
  cs_inflight :: nat

definition cache_stats :: "'v cache \<Rightarrow> cache_statistics" where
  "cache_stats c =
     (let total = hits c + misses c
      in \<lparr>cs_size = length (store c), cs_maxEntries = maxEntries c, cs_hits = hits c, cs_misses = misses c,
          cs_hitRate = (if total = 0 then 0 else of_nat (hits c) / of_nat total),
          cs_inflight = length (cache_inflight c)\<rparr>)"

subsection \<open>remember: the single-flight loader\<close>

text \<open>
  A call of \<^verbatim>\<open>remember\<close> returns a cached value, joins the promise in flight for its key,
  or calls the loader and registers a new promise.
\<close>

datatype 'v answer = Cached 'v | Joined nat | Started nat

definition cache_remember :: "string \<Rightarrow> int \<Rightarrow> int \<Rightarrow> 'v cache \<Rightarrow> 'v answer \<times> 'v cache" where
  "cache_remember key ttl now c =
     (case cache_get key now c of
        (Some v, c') \<Rightarrow> (Cached v, c')
      | (None, c') \<Rightarrow>
          (case jm_get (cache_inflight c') key of
             Some p \<Rightarrow> (Joined p, c')
           | None \<Rightarrow>
               let p = next_promise c'
               in (Started p,
                   c'\<lparr>next_promise := p + 1,
                      loads := loads c' @ [\<lparr>ld_promise = p, ld_key = key, ld_ttl = ttl, ld_phase = Loading\<rparr>],
                      cache_inflight := jm_set key p (cache_inflight c')\<rparr>)))"

definition settle :: "load \<Rightarrow> load list \<Rightarrow> load list" where
  "settle l ls = map (\<lambda>x. if x = l then x\<lparr>ld_phase := Settled\<rparr> else x) ls"

text \<open>The \<^verbatim>\<open>.then\<close> callback of a loader that resolved, and a loader that rejected.\<close>

definition load_resolved :: "load \<Rightarrow> 'v \<Rightarrow> int \<Rightarrow> 'v cache \<Rightarrow> 'v cache" where
  "load_resolved l v now c = (cache_set (ld_key l) v (ld_ttl l) now c)\<lparr>loads := settle l (loads c)\<rparr>"

definition load_rejected :: "load \<Rightarrow> 'v cache \<Rightarrow> 'v cache" where
  "load_rejected l c = c\<lparr>loads := settle l (loads c)\<rparr>"

text \<open>The \<^verbatim>\<open>.finally\<close> callback.\<close>

definition load_finally :: "load \<Rightarrow> 'v cache \<Rightarrow> 'v cache" where
  "load_finally l c = c\<lparr>cache_inflight := jm_delete (ld_key l) (cache_inflight c), loads := remove1 l (loads c)\<rparr>"

subsection \<open>Steps\<close>

inductive cache_step :: "'v cache \<Rightarrow> 'v cache \<Rightarrow> bool" where
  do_get: "cache_step c (snd (cache_get k now c))"
| do_set: "cache_step c (cache_set k v ttl now c)"
| do_delete: "cache_step c (cache_delete k c)"
| do_remember: "cache_step c (snd (cache_remember k ttl now c))"
| do_resolved: "l \<in> set (loads c) \<Longrightarrow> ld_phase l = Loading \<Longrightarrow> cache_step c (load_resolved l v now c)"
| do_rejected: "l \<in> set (loads c) \<Longrightarrow> ld_phase l = Loading \<Longrightarrow> cache_step c (load_rejected l c)"
| do_finally: "l \<in> set (loads c) \<Longrightarrow> ld_phase l = Settled \<Longrightarrow> cache_step c (load_finally l c)"

inductive cache_reach :: "js_int \<Rightarrow> 'v cache \<Rightarrow> bool" for m where
  cache_new: "cache_reach m (new_cache m)"
| cache_next: "cache_reach m c \<Longrightarrow> cache_step c c' \<Longrightarrow> cache_reach m c'"

subsection \<open>The store: well-formed and bounded\<close>

definition bounded :: "js_int \<Rightarrow> nat \<Rightarrow> bool" where
  "bounded m n \<longleftrightarrow> (case m of NaN \<Rightarrow> True | Fin k \<Rightarrow> int n \<le> max 1 k)"

definition store_ok :: "'v cache \<Rightarrow> bool" where
  "store_ok c \<longleftrightarrow> jm_ok (store c) \<and> bounded (maxEntries c) (length (store c))"

lemma length_jm_keys [simp]: "length (jm_keys m) = length m"
  by (simp add: jm_keys_def)

lemmas jm_sizes = jm.size_put [unfolded length_jm_keys] jm.size_del [unfolded length_jm_keys]

lemma evict_ok: "jm_ok m \<Longrightarrow> jm_ok (evict m)"
  by (simp add: evict_def jm_ok_delete split: list.split)

lemma jm_get_hd: "jm_get ((k, v) # m) k = Some v"
  by simp

lemma length_evict: "jm_ok m \<Longrightarrow> length (evict m) = length m - 1"
proof (cases m)
  case (Cons kv m')
  assume "jm_ok m"
  moreover obtain k v where "kv = (k, v)" by (cases kv)
  ultimately show ?thesis using Cons
    by (simp add: evict_def jm_keys_def jm_sizes)
qed (simp add: evict_def jm_keys_def)

lemma jm_get_None_evict: "jm_ok m \<Longrightarrow> jm_get m k = None \<Longrightarrow> jm_get (evict m) k = None"
  by (simp add: evict_def jm_get_delete split: list.split)

lemma store_ok_get: "store_ok c \<Longrightarrow> store_ok (snd (cache_get k now c))"
  by (auto simp: store_ok_def cache_get_def jm_ok_set jm_ok_delete jm_sizes jm_get_delete bounded_def
      split: option.split js_int.split)

lemma store_ok_delete: "store_ok c \<Longrightarrow> store_ok (cache_delete k c)"
  by (auto simp: store_ok_def cache_delete_def jm_ok_delete jm_sizes bounded_def split: js_int.split)

lemma store_ok_set: "store_ok c \<Longrightarrow> store_ok (cache_set k v ttl now c)"
  by (cases "maxEntries c")
    (auto simp: store_ok_def cache_set_def Let_def jm_ok_set evict_ok jm_sizes length_evict
      jm_get_None_evict bounded_def)

subsection \<open>Loads in flight\<close>

definition flights_ok :: "'v cache \<Rightarrow> bool" where
  "flights_ok c \<longleftrightarrow> jm_ok (cache_inflight c) \<and> distinct (map ld_promise (loads c)) \<and>
     (\<forall>l \<in> set (loads c). ld_promise l < next_promise c \<and> jm_get (cache_inflight c) (ld_key l) = Some (ld_promise l)) \<and>
     (\<forall>k p. jm_get (cache_inflight c) k = Some p \<longrightarrow> (\<exists>l \<in> set (loads c). ld_key l = k \<and> ld_promise l = p))"

lemma flights_ok_cong:
  "flights_ok c \<Longrightarrow> cache_inflight c' = cache_inflight c \<Longrightarrow> loads c' = loads c \<Longrightarrow>
    next_promise c' = next_promise c \<Longrightarrow> flights_ok c'"
  by (simp add: flights_ok_def)

lemma flights_frame [simp]:
  "cache_inflight (snd (cache_get k now c)) = cache_inflight c"
  "loads (snd (cache_get k now c)) = loads c"
  "next_promise (snd (cache_get k now c)) = next_promise c"
  "maxEntries (snd (cache_get k now c)) = maxEntries c"
  "cache_inflight (cache_set k v ttl now c) = cache_inflight c"
  "loads (cache_set k v ttl now c) = loads c"
  "next_promise (cache_set k v ttl now c) = next_promise c"
  "maxEntries (cache_set k v ttl now c) = maxEntries c"
  by (simp_all add: cache_get_def cache_set_def Let_def split: option.split)

text \<open>Settling a load changes its phase and nothing else.\<close>

lemma map_settle [simp]:
  "map ld_promise (settle l ls) = map ld_promise ls" "map ld_key (settle l ls) = map ld_key ls"
  by (simp_all add: settle_def)

lemma settle_mem: "x \<in> set (settle l ls) \<Longrightarrow> \<exists>y \<in> set ls. ld_key x = ld_key y \<and> ld_promise x = ld_promise y"
  by (auto simp: settle_def split: if_splits)

lemma mem_settle: "y \<in> set ls \<Longrightarrow> \<exists>x \<in> set (settle l ls). ld_key x = ld_key y \<and> ld_promise x = ld_promise y"
  by (rule bexI [of _ "if y = l then y\<lparr>ld_phase := Settled\<rparr> else y"]) (auto simp: settle_def)

lemma flights_ok_settle:
  assumes "flights_ok c" "cache_inflight c' = cache_inflight c" "loads c' = settle l (loads c)"
    "next_promise c' = next_promise c"
  shows "flights_ok c'"
  using assms unfolding flights_ok_def
  by (metis (no_types, opaque_lifting) map_settle(1) mem_settle settle_mem)

lemma flights_keys_distinct:
  assumes "flights_ok c" shows "distinct (map ld_key (loads c))"
proof -
  have "distinct (map ld_promise (loads c))"
    and look: "\<And>l. l \<in> set (loads c) \<Longrightarrow> jm_get (cache_inflight c) (ld_key l) = Some (ld_promise l)"
    using assms by (auto simp: flights_ok_def)
  moreover have "map ld_promise (loads c) = map (\<lambda>k. the (jm_get (cache_inflight c) k)) (map ld_key (loads c))"
    using look by simp
  ultimately show ?thesis by (metis distinct_map)
qed

lemma flights_ok_finally:
  assumes f: "flights_ok c" and l: "l \<in> set (loads c)"
  shows "flights_ok (load_finally l c)"
proof -
  have dk: "distinct (map ld_key (loads c))" using f by (rule flights_keys_distinct)
  have dp: "distinct (loads c)" using dk by (simp add: distinct_map)
  have inj: "x = l" if "x \<in> set (loads c)" "ld_key x = ld_key l" for x
    using dk that l by (auto simp: distinct_map dest: inj_onD)
  have "distinct (map ld_promise (remove1 l (loads c)))"
    using f by (simp add: flights_ok_def distinct_map inj_on_subset dp set_remove1_subset)
      (meson inj_on_diff)
  moreover have "\<exists>x \<in> set (remove1 l (loads c)). ld_key x = k \<and> ld_promise x = p"
    if kp: "k \<noteq> ld_key l" "jm_get (cache_inflight c) k = Some p" for k p
  proof -
    obtain x where "x \<in> set (loads c)" "ld_key x = k" "ld_promise x = p"
      using f kp(2) unfolding flights_ok_def by blast
    then show ?thesis using kp(1) dp by (intro bexI [of _ x]) auto
  qed
  ultimately show ?thesis
    using f inj dp by (auto simp: flights_ok_def load_finally_def jm_ok_delete jm_get_delete)
qed

lemma flights_ok_remember:
  assumes "flights_ok c" shows "flights_ok (snd (cache_remember k ttl now c))"
proof -
  obtain r c' where g: "cache_get k now c = (r, c')" by (cases "cache_get k now c")
  have c': "cache_inflight c' = cache_inflight c" "loads c' = loads c" "next_promise c' = next_promise c"
    using flights_frame(1-3) [of k now c] by (simp_all add: g)
  then have f: "flights_ok c'" using assms by (rule_tac flights_ok_cong)
  show ?thesis
  proof (cases "r = None \<and> jm_get (cache_inflight c') k = None")
    case True
    then show ?thesis using f
      by (auto simp: cache_remember_def g flights_ok_def Let_def jm_ok_set jm_get_set less_Suc_eq)
  next
    case False
    then show ?thesis using f by (auto simp: cache_remember_def g split: option.split)
  qed
qed

definition cache_inv :: "'v cache \<Rightarrow> bool" where
  "cache_inv c \<longleftrightarrow> store_ok c \<and> flights_ok c"

lemma store_ok_cong: "store_ok c \<Longrightarrow> store c' = store c \<Longrightarrow> maxEntries c' = maxEntries c \<Longrightarrow> store_ok c'"
  by (simp add: store_ok_def)

lemma store_ok_loads [simp]: "store_ok (c\<lparr>loads := ls\<rparr>) = store_ok c"
  by (simp add: store_ok_def)

lemma store_ok_remember: "store_ok c \<Longrightarrow> store_ok (snd (cache_remember k ttl now c))"
proof -
  assume ok: "store_ok c"
  obtain r c' where g: "cache_get k now c = (r, c')" by (cases "cache_get k now c")
  then have "store_ok c'" using store_ok_get [OF ok, of k now] by simp
  then show ?thesis by (simp add: cache_remember_def g Let_def store_ok_def split: option.split)
qed

lemma cache_inv_step: "cache_step c c' \<Longrightarrow> cache_inv c \<Longrightarrow> cache_inv c'"
proof (induction rule: cache_step.induct)
  case (do_resolved l c v now)
  have "flights_ok (load_resolved l v now c)"
    using do_resolved by (auto simp: cache_inv_def load_resolved_def intro: flights_ok_settle)
  moreover have "store_ok (load_resolved l v now c)"
    using do_resolved by (simp add: cache_inv_def load_resolved_def store_ok_set)
  ultimately show ?case by (simp add: cache_inv_def)
next
  case (do_delete c k)
  have "flights_ok (cache_delete k c)"
    using do_delete by (auto simp: cache_inv_def cache_delete_def elim: flights_ok_cong)
  then show ?case using do_delete by (simp add: cache_inv_def store_ok_delete)
next
  case (do_rejected l c)
  then show ?case
    by (auto simp: cache_inv_def load_rejected_def intro: flights_ok_settle elim: store_ok_cong)
next
  case (do_finally l c)
  then show ?case
    by (auto simp: cache_inv_def flights_ok_finally) (auto simp: load_finally_def elim: store_ok_cong)
qed (auto simp: cache_inv_def store_ok_get store_ok_set store_ok_remember flights_ok_remember elim: flights_ok_cong)

lemma cache_inv_new: "cache_inv (new_cache m)"
  by (simp add: cache_inv_def store_ok_def flights_ok_def new_cache_def jm_ok_def bounded_def le_max_iff_disj
      split: js_int.split)

lemma cache_reach_inv: "cache_reach m c \<Longrightarrow> cache_inv c"
  by (induction rule: cache_reach.induct) (auto intro: cache_inv_new cache_inv_step)

lemma cache_reach_max: "cache_reach m c \<Longrightarrow> maxEntries c = m"
proof (induction rule: cache_reach.induct)
  case (cache_next c c')
  from cache_next.hyps(2) cache_next.IH show ?case
    by (cases rule: cache_step.cases)
      (auto simp: cache_delete_def load_resolved_def load_rejected_def load_finally_def cache_remember_def Let_def
        split: prod.split option.split dest: arg_cong [where f = "\<lambda>x. maxEntries (snd x)"])
qed (simp add: new_cache_def)

subsection \<open>Recency order\<close>

text \<open>
  Operation lists with a stamp per key: the number of the last operation that hit the
  key or inserted it as a new one.
\<close>

datatype 'v cache_op = Get string int | Put string 'v int int | Del string

fun run_op :: "'v cache_op \<Rightarrow> 'v cache \<Rightarrow> 'v cache" where
  "run_op (Get k now) c = snd (cache_get k now c)"
| "run_op (Put k v ttl now) c = cache_set k v ttl now c"
| "run_op (Del k) c = cache_delete k c"

fun used :: "'v cache_op \<Rightarrow> 'v cache \<Rightarrow> string option" where
  "used (Get k now) c = (if fst (cache_get k now c) = None then None else Some k)"
| "used (Put k v ttl now) c = (if jm_get (store c) k = None then Some k else None)"
| "used (Del k) c = None"

fun run_ops :: "'v cache_op list \<Rightarrow> nat \<times> (string \<Rightarrow> nat) \<times> 'v cache \<Rightarrow> nat \<times> (string \<Rightarrow> nat) \<times> 'v cache" where
  "run_ops [] s = s"
| "run_ops (a # as) (n, st, c) =
     run_ops as (Suc n, (case used a c of None \<Rightarrow> st | Some k \<Rightarrow> st(k := n)), run_op a c)"

definition stamp_sorted :: "(string \<Rightarrow> nat) \<Rightarrow> string list \<Rightarrow> bool" where
  "stamp_sorted st ks = sorted_wrt (\<lambda>a b. st a < st b) ks"

lemma stamp_sorted_filter: "stamp_sorted st ks \<Longrightarrow> stamp_sorted st (filter P ks)"
  by (simp add: stamp_sorted_def sorted_wrt_filter)

lemma stamp_sorted_tl: "stamp_sorted st ks \<Longrightarrow> stamp_sorted st (tl ks)"
  by (cases ks) (auto simp: stamp_sorted_def)

definition recency_ok :: "nat \<Rightarrow> (string \<Rightarrow> nat) \<Rightarrow> 'v cache \<Rightarrow> bool" where
  "recency_ok n st c \<longleftrightarrow> store_ok c \<and> stamp_sorted st (jm_keys (store c)) \<and>
     (\<forall>k \<in> set (jm_keys (store c)). st k < n)"

lemma recency_append:
  assumes "stamp_sorted st ks" "\<forall>k \<in> set ks. st k < n" "k \<notin> set ks"
  shows "stamp_sorted (st(k := n)) (ks @ [k])"
proof -
  have "sorted_wrt (\<lambda>a b. (st(k := n)) a < (st(k := n)) b) ks"
    using assms(1) unfolding stamp_sorted_def
    by (rule sorted_wrt_mono_rel [rotated]) (use assms(3) in auto)
  then show ?thesis using assms(2,3) by (auto simp: stamp_sorted_def sorted_wrt_append)
qed

lemma in_set_tl: "x \<in> set (tl xs) \<Longrightarrow> x \<in> set xs"
  by (cases xs) auto

lemma jm_keys_evict: "jm_ok m \<Longrightarrow> jm_keys (evict m) = tl (jm_keys m)"
  by (cases "jm_keys m")
    (auto simp: evict_def jm_keys_delete jm_ok_def jm_keys_def [symmetric] intro: filter_True)

lemma recency_run_op:
  assumes "recency_ok n st c"
  shows "recency_ok (Suc n) (case used a c of None \<Rightarrow> st | Some k \<Rightarrow> st(k := n)) (run_op a c)"
proof (cases a)
  case (Get k now)
  let ?ks = "jm_keys (store c)"
  have ok: "store_ok (run_op a c)" using assms by (simp add: Get recency_ok_def store_ok_get)
  have srt: "stamp_sorted st (filter (\<lambda>j. j \<noteq> k) ?ks)"
    "\<forall>j \<in> set (filter (\<lambda>j. j \<noteq> k) ?ks). st j < n"
    using assms by (auto simp: recency_ok_def stamp_sorted_filter)
  have app: "stamp_sorted (st(k := n)) (filter (\<lambda>j. j \<noteq> k) ?ks @ [k])"
    by (rule recency_append [OF srt]) simp
  show ?thesis using assms ok srt app
    by (auto simp: Get recency_ok_def cache_get_def jm_keys_set jm_keys_delete jm_get_delete less_Suc_eq
        split: option.splits)
next
  case (Put k v ttl now)
  have ok: "store_ok (run_op a c)" using assms by (simp add: Put recency_ok_def store_ok_set)
  define m where "m = (if js_geq (int (length (store c))) (maxEntries c) \<and> jm_get (store c) k = None
    then evict (store c) else store c)"
  have jok: "jm_ok (store c)" using assms by (simp add: recency_ok_def store_ok_def)
  have new: "jm_get m k = None" if "jm_get (store c) k = None"
    using that jok by (simp add: m_def jm_get_None_evict)
  have "stamp_sorted st (jm_keys m) \<and> (\<forall>j \<in> set (jm_keys m). st j < n)"
    using assms by (auto simp: m_def recency_ok_def jm_keys_evict jok stamp_sorted_tl dest: in_set_tl)
  then have srt: "stamp_sorted st (jm_keys m)" "\<forall>j \<in> set (jm_keys m). st j < n" by auto
  have st: "store (run_op a c) = jm_set k \<lparr>entry_value = v, expiresAt = now + ttl\<rparr> m"
    by (simp add: Put cache_set_def Let_def m_def)
  show ?thesis
  proof (cases "jm_get (store c) k")
    case None
    have "k \<notin> set (jm_keys m)" using new [OF None] by (simp add: jm_keys_def jm_get_keys)
    then show ?thesis using recency_append [OF srt] ok srt(2) new [OF None] None
      by (auto simp: Put recency_ok_def st [unfolded Put run_op.simps] jm_keys_set less_Suc_eq)
  next
    case (Some e)
    then have "m = store c" by (simp add: m_def)
    then show ?thesis using Some ok srt st [unfolded Put run_op.simps] by (auto simp: Put recency_ok_def jm_keys_set less_Suc_eq)
  qed
next
  case (Del k)
  then show ?thesis using assms
    by (auto simp: recency_ok_def store_ok_delete [unfolded cache_delete_def] cache_delete_def jm_keys_delete stamp_sorted_filter less_Suc_eq)
qed

lemma recency_run_ops:
  "recency_ok n st c \<Longrightarrow> run_ops as (n, st, c) = (n', st', c') \<Longrightarrow> recency_ok n' st' c'"
proof (induction as arbitrary: n st c)
  case (Cons a as)
  then show ?case using recency_run_op [of n st c a] by simp
qed simp

lemma run_op_max: "maxEntries (run_op a c) = maxEntries c"
  by (cases a) (simp_all add: cache_delete_def)

lemma run_ops_max: "run_ops as (n, st, c) = (n', st', c') \<Longrightarrow> maxEntries c' = maxEntries c"
  by (induction as arbitrary: n st c) (auto simp: run_op_max)

subsection \<open>Properties\<close>

text \<open>
  C8. The cache stays within its bound and loads once. In every cache that any interleaving
  of calls and loader callbacks can produce (\<open>clear\<close>, a test helper, aside): the store
  has one entry per key and at most \<open>max 1 m\<close> entries for a numeric bound \<open>m\<close>; there is at
  most one loader call in progress per key; and while one is, \<open>remember\<close> never starts
  another: it returns a cached value or joins that very promise.
\<close>

theorem cache_bounded_single_flight:
  assumes "cache_reach (Fin m) c"
  shows "distinct (jm_keys (store c)) \<and> int (length (store c)) \<le> max 1 m \<and>
    distinct (map ld_key (loads c)) \<and>
    (\<forall>l ttl now. l \<in> set (loads c) \<longrightarrow>
       (case fst (cache_remember (ld_key l) ttl now c) of
          Cached v \<Rightarrow> fst (cache_get (ld_key l) now c) = Some v
        | Joined p \<Rightarrow> p = ld_promise l
        | Started p \<Rightarrow> False))"
proof -
  have inv: "store_ok c" "flights_ok c" using cache_reach_inv [OF assms] by (auto simp: cache_inv_def)
  moreover have "int (length (store c)) \<le> max 1 m"
    using inv(1) cache_reach_max [OF assms] by (simp add: store_ok_def bounded_def)
  moreover have "case fst (cache_remember (ld_key l) ttl now c) of
          Cached v \<Rightarrow> fst (cache_get (ld_key l) now c) = Some v
        | Joined p \<Rightarrow> p = ld_promise l
        | Started p \<Rightarrow> False" if "l \<in> set (loads c)" for l ttl now
  proof -
    obtain r c' where g: "cache_get (ld_key l) now c = (r, c')" by (cases "cache_get (ld_key l) now c")
    then have "cache_inflight c' = cache_inflight c" using flights_frame(1) [of "ld_key l" now c] by simp
    then show ?thesis using inv(2) that by (cases r) (auto simp: cache_remember_def g flights_ok_def)
  qed
  ultimately show ?thesis
    by (auto simp: store_ok_def jm_ok_def jm_keys_def flights_keys_distinct)
qed

definition demo_cache :: "int \<Rightarrow> nat cache" where
  "demo_cache m = snd (cache_remember ''x'' 10 2 (cache_set ''b'' 8 10 1 (cache_set ''a'' 7 10 0 (new_cache (Fin m)))))"

lemma demo_cache_reach: "cache_reach (Fin m) (demo_cache m)"
  unfolding demo_cache_def
  by (rule cache_next [OF cache_next [OF cache_next [OF cache_new do_set] do_set] do_remember])

lemma cache_bounded_single_flight_witness:
  "length (store (demo_cache 2)) \<le> 2 \<and> fst (cache_remember ''x'' 10 3 (demo_cache 2)) = Joined 0"
proof -
  have "fst (cache_remember ''x'' 10 3 (demo_cache 2)) = Joined 0" by code_simp
  then show ?thesis using cache_bounded_single_flight [OF demo_cache_reach, of 2] by auto
qed

text \<open>
  What a read returns after a write. A written value is read back up to and including
  the millisecond its time to live ends, and not after; every other key reads as before,
  except the one key that a write to a full cache evicts, the first of the order.
\<close>

theorem cache_get_after_set:
  assumes "cache_reach m c"
  shows "fst (cache_get j t (cache_set k v ttl now c)) =
    (if j = k then (if now + ttl < t then None else Some v)
     else if js_geq (int (length (store c))) m \<and> jm_get (store c) k = None \<and>
             jm_keys (store c) \<noteq> [] \<and> hd (jm_keys (store c)) = j then None
     else fst (cache_get j t c))"
proof -
  have max: "maxEntries c = m" by (rule cache_reach_max [OF assms])
  have ev: "jm_get (evict (store c)) j = (if jm_keys (store c) \<noteq> [] \<and> hd (jm_keys (store c)) = j then None else jm_get (store c) j)"
    by (auto simp: evict_def jm_get_delete split: list.split)
  show ?thesis
    by (simp add: cache_get_def cache_set_def Let_def jm_get_set max ev split: option.split)
qed

lemma cache_get_after_set_witness:
  "fst (cache_get ''b'' 11 (cache_set ''z'' 9 5 4 (demo_cache 2))) = Some 8 \<and>
   fst (cache_get ''a'' 10 (cache_set ''z'' 9 5 4 (demo_cache 2))) = None"
  unfolding cache_get_after_set [OF demo_cache_reach] by code_simp

text \<open>
  C9. Least recently read. After any list of reads, writes and deletions the keys stand in the
  order of the last operation that hit them with a read or inserted them as new keys. So the
  key that a write to a full cache evicts is the one whose last read hit or insertion lies
  furthest back. A write to a key that is present does not count: it leaves the order as it is, so
  that a key that was just rewritten is still the next to be evicted, whereas the header of
  \<^verbatim>\<open>cache.ts\<close> promises that the least recently used entry goes.
\<close>

theorem cache_evicts_least_recently_read:
  assumes "run_ops as (0, \<lambda>_. 0, new_cache (Fin m)) = (n, st, c)"
    and "m \<le> int (length (store c))" "jm_get (store c) k = None" "store c \<noteq> []"
  shows "sorted_wrt (\<lambda>i j. st i < st j) (jm_keys (store c)) \<and> (\<exists>old ks. jm_keys (store c) = old # ks \<and>
    jm_keys (store (cache_set k v ttl now c)) = ks @ [k] \<and> (\<forall>j \<in> set ks. st old < st j) \<and>
    (\<forall>w ttl'. jm_keys (store (cache_set old w ttl' now c)) = old # ks))"
proof -
  have "recency_ok 0 (\<lambda>_. 0) (new_cache (Fin m))"
    by (simp add: recency_ok_def store_ok_def bounded_def le_max_iff_disj jm_ok_def new_cache_def
        jm_keys_def stamp_sorted_def)
  then have r: "recency_ok n st c" using assms(1) by (rule recency_run_ops)
  then have ok: "jm_ok (store c)" by (simp add: recency_ok_def store_ok_def)
  have max: "maxEntries c = Fin m" using run_ops_max [OF assms(1)] by (simp add: new_cache_def)
  obtain old ks where k: "jm_keys (store c) = old # ks"
    using assms(4) by (cases "jm_keys (store c)") (auto simp: jm_keys_def)
  have "jm_keys (store (cache_set k v ttl now c)) = ks @ [k]"
    using assms(2,3) k ok by (simp add: cache_set_def Let_def max jm_keys_set jm_get_None_evict jm_keys_evict)
  moreover have "jm_get (store c) old \<noteq> None" using k jm_get_keys [of old "store c"] by (force simp: jm_keys_def)
  then have "jm_keys (store (cache_set old w ttl' now c)) = old # ks" for w ttl'
    using k by (auto simp: cache_set_def jm_keys_set)
  ultimately show ?thesis using r k by (auto simp: recency_ok_def stamp_sorted_def)
qed

lemma cache_evicts_least_recently_read_witness:
  "\<exists>old ks. jm_keys (store (cache_set ''z'' 9 5 4 (snd (snd (run_ops
      [Put ''a'' (7::nat) 10 0, Put ''b'' 8 10 1, Get ''a'' 2] (0, \<lambda>_. 0, new_cache (Fin 2))))))) = ks @ [''z''] \<and> old = ''b''"
proof -
  define s where "s = run_ops [Put ''a'' (7::nat) 10 0, Put ''b'' 8 10 1, Get ''a'' 2] (0, \<lambda>_. 0, new_cache (Fin 2))"
  have k: "jm_keys (store (snd (snd s))) = [''b'', ''a'']" unfolding s_def by code_simp
  obtain n st c where s: "s = (n, st, c)" by (cases s)
  note e = trans [OF s_def [symmetric] s]
  have len: "length (store c) = 2" using k s by (metis length_jm_keys length_Cons list.size(3) numeral_2_eq_2 snd_conv)
  moreover have "jm_get (store c) ''z'' = None"
    using k s jm_get_keys [of "''z''" "store c"] by (force simp: jm_keys_def simp flip: set_map)
  ultimately have "sorted_wrt (\<lambda>i j. st i < st j) (jm_keys (store c)) \<and>
    (\<exists>old ks. jm_keys (store c) = old # ks \<and> jm_keys (store (cache_set ''z'' 9 5 4 c)) = ks @ [''z''] \<and>
    (\<forall>j \<in> set ks. st old < st j) \<and> (\<forall>w ttl'. jm_keys (store (cache_set old w ttl' 4 c)) = old # ks))"
    by (rule_tac cache_evicts_least_recently_read [OF e]) auto
  then show ?thesis unfolding s_def [symmetric] using k s by auto
qed

text \<open>
  An invalidation does not reach a load in flight. A loader that was started before
  \<open>delete\<close> still puts its value into the cache when it resolves, and readers are served
  that value until its time to live is over, although the key was invalidated after the
  data was read.
\<close>

theorem cache_delete_misses_inflight:
  assumes "cache_reach m c" "l \<in> set (loads c)" "ld_phase l = Loading" "t \<le> now + ld_ttl l"
  shows "cache_reach m (load_resolved l v now (cache_delete (ld_key l) c)) \<and>
    fst (cache_get (ld_key l) t (load_resolved l v now (cache_delete (ld_key l) c))) = Some v"
proof -
  have "cache_reach m (cache_delete (ld_key l) c)" using assms(1) do_delete by (rule cache_next)
  moreover have "l \<in> set (loads (cache_delete (ld_key l) c))" using assms(2) by (simp add: cache_delete_def)
  ultimately have "cache_reach m (load_resolved l v now (cache_delete (ld_key l) c))"
    using assms(3) by (meson cache_next do_resolved)
  moreover have "fst (cache_get (ld_key l) t (load_resolved l v now (cache_delete (ld_key l) c))) = Some v"
    using assms(4) by (simp add: load_resolved_def cache_get_def cache_set_def Let_def jm_get_set)
  ultimately show ?thesis ..
qed

lemma cache_delete_misses_inflight_witness:
  "fst (cache_get ''x'' 12 (load_resolved (hd (loads (demo_cache 2))) 5 3 (cache_delete ''x'' (demo_cache 2)))) = Some 5"
proof -
  let ?l = "hd (loads (demo_cache 2))"
  have l: "?l = \<lparr>ld_promise = 0, ld_key = ''x'', ld_ttl = 10, ld_phase = Loading\<rparr>" by code_simp
  have "loads (demo_cache 2) \<noteq> []" by code_simp
  then have "?l \<in> set (loads (demo_cache 2))" by simp
  then show ?thesis using cache_delete_misses_inflight [OF demo_cache_reach, of ?l 2 12 3 5] by (simp add: l)
qed

end
