(* ===== verification/CacheInvalidate.thy ===== *)
theory CacheInvalidate
  imports TtlCache
begin

section \<open>Cache invalidation (src/lib/cache-invalidate.ts, src/lib/jobs.ts)\<close>

text \<open>
  The helpers the admin handlers and the \<^verbatim>\<open>cache-bust\<close> job call after a write, and the
  key schemes of the public routes whose entries they mean to drop
  (src/app/api/problems/route.ts, src/app/api/problems/trending/route.ts). The lemmas say
  which keys each helper removes; the properties compare that with the keys in use.
\<close>

subsection \<open>The helpers\<close>

definition delete_all :: "string list \<Rightarrow> 'v cache \<Rightarrow> 'v cache" where
  "delete_all ks c = foldl (\<lambda>c k. cache_delete k c) c ks"

definition prefix_variants :: "string \<Rightarrow> string list" where
  "prefix_variants p = [p, p @ '':'', p @ '':1:50'', p @ '':1:20'']"

definition swept_list_keys :: "string list" where
  "swept_list_keys =
     concat (map (\<lambda>page. map (\<lambda>limit. ''problems:list:::'' @ show_nat page @ '':'' @ show_nat limit) [20, 50]) [1..<11])"

definition deletePrefix :: "string \<Rightarrow> 'v cache \<Rightarrow> 'v cache" where
  "deletePrefix p c =
     (let c1 = delete_all (prefix_variants p) c;
          c2 = (if p = ''problems:list'' then delete_all swept_list_keys c1 else c1)
      in if p = ''trending'' then delete_all (map (\<lambda>l. ''trending:'' @ show_nat l) [10, 20, 30]) c2 else c2)"

definition invalidateProblemsCache :: "'v cache \<Rightarrow> 'v cache" where
  "invalidateProblemsCache c = deletePrefix ''trending'' (deletePrefix ''problems:list'' c)"

definition invalidateContestsCache :: "string option \<Rightarrow> 'v cache \<Rightarrow> 'v cache" where
  "invalidateContestsCache slug c =
     (let c1 = cache_delete ''contests:all'' c
      in case slug of
           None \<Rightarrow> c1
         | Some s \<Rightarrow> if s = [] then c1 else cache_delete (''contests:detail:'' @ s) c1)"

definition invalidateTagsCache :: "'v cache \<Rightarrow> 'v cache" where
  "invalidateTagsCache c = cache_delete ''tags:all'' c"

definition invalidateLeaderboardCache :: "'v cache \<Rightarrow> 'v cache" where
  "invalidateLeaderboardCache c = cache_delete ''leaderboard:top'' c"

text \<open>The handler of the \<^verbatim>\<open>cache-bust\<close> job.\<close>

datatype bust_scope = Problems | Leaderboard | All

definition cache_bust :: "bust_scope \<Rightarrow> 'v cache \<Rightarrow> 'v cache" where
  "cache_bust scope c =
     (let c1 = (if scope = Problems \<or> scope = All then invalidateProblemsCache c else c)
      in if scope = Leaderboard \<or> scope = All then invalidateLeaderboardCache c1 else c1)"

subsection \<open>The keys the routes use\<close>

text \<open>
  \<^verbatim>\<open>cacheKey\<close> of GET /api/problems: the query parameters, absent ones as the empty
  string, then the page and the limit.
\<close>

definition list_cache_key ::
  "string option \<Rightarrow> string option \<Rightarrow> string option \<Rightarrow> string option \<Rightarrow> nat \<Rightarrow> nat \<Rightarrow> string" where
  "list_cache_key difficulty tag topic company page limit =
     (let or_empty = (\<lambda>x. case x of None \<Rightarrow> [] | Some s \<Rightarrow> s)
      in ''problems:list:'' @ or_empty difficulty @ '':'' @ or_empty tag @ '':'' @ or_empty topic @ '':''
         @ or_empty company @ '':'' @ show_nat page @ '':'' @ show_nat limit)"

definition trending_cache_key :: "nat \<Rightarrow> string" where
  "trending_cache_key limit = ''trending:'' @ show_nat limit"

subsection \<open>What is removed\<close>

lemma jm_get_delete_all:
  "jm_get (store (delete_all ks c)) j = (if j \<in> set ks then None else jm_get (store c) j)"
  by (induction ks arbitrary: c) (auto simp: delete_all_def cache_delete_def jm_get_delete)

fun colons :: "string \<Rightarrow> nat" where
  "colons [] = 0"
| "colons (c # s) = (if c = CHR '':'' then Suc (colons s) else colons s)"

lemma colons_append [simp]: "colons (s @ t) = colons s + colons t"
  by (induction s) auto

lemma colons_digit: "d < 10 \<Longrightarrow> char_of (48 + d :: nat) \<noteq> CHR '':''"
proof
  assume d: "d < 10" and e: "char_of (48 + d :: nat) = CHR '':''"
  from e have "of_char (char_of (48 + d :: nat)) = (of_char CHR '':'' :: nat)" by (rule arg_cong)
  then show False using d by (simp add: of_char_digit)
qed

lemma colons_show_nat [simp]: "colons (show_nat n) = 0"
proof (induction n rule: show_nat.induct)
  case (1 n)
  then show ?case
    by (cases "n < 10") (simp_all add: show_nat.simps [of n] colons_digit)
qed

lemma colons_list_key: "7 \<le> colons (list_cache_key d t p c page limit)"
  by (simp add: list_cache_key_def Let_def)

lemma colons_swept: "k \<in> set (prefix_variants ''problems:list'') \<union> set swept_list_keys \<Longrightarrow> colons k \<le> 5"
  by (auto simp: prefix_variants_def swept_list_keys_def)

lemma trending_not_variant: "show_nat n \<noteq> []" "show_nat n \<noteq> ''1:50''" "show_nat n \<noteq> ''1:20''"
proof -
  show "show_nat n \<noteq> []" by (simp add: show_nat.simps [of n])
  have "colons (show_nat n) \<noteq> colons ''1:50''" "colons (show_nat n) \<noteq> colons ''1:20''" by simp_all
  then show "show_nat n \<noteq> ''1:50''" "show_nat n \<noteq> ''1:20''" by metis+
qed

text \<open>
  The invalidation of the problem list misses every page of it. The route's keys have
  six parts after the prefix, the keys the helper deletes have four: whatever the filters,
  the page and the limit, a cached problem list answers after \<open>invalidateProblemsCache\<close>
  exactly as before.
\<close>

theorem problem_list_never_invalidated:
  "fst (cache_get (list_cache_key difficulty tag topic company page limit) now (invalidateProblemsCache c))
   = fst (cache_get (list_cache_key difficulty tag topic company page limit) now c)"
proof -
  let ?k = "list_cache_key difficulty tag topic company page limit"
  have "?k \<notin> set (prefix_variants ''problems:list'') \<union> set swept_list_keys"
    using colons_swept [of ?k] colons_list_key [of difficulty tag topic company page limit] by force
  moreover have "?k \<notin> set (prefix_variants ''trending'')" "?k \<notin> set (map (\<lambda>l. ''trending:'' @ show_nat l) [10, 20, 30])"
    by (auto simp: prefix_variants_def list_cache_key_def Let_def)
  ultimately have "jm_get (store (invalidateProblemsCache c)) ?k = jm_get (store c) ?k"
    by (simp add: invalidateProblemsCache_def deletePrefix_def Let_def jm_get_delete_all)
  then show ?thesis by (simp add: cache_get_def split: option.split)
qed

text \<open>
  What the other invalidations remove. \<open>cache_bust\<close> with scope \<open>All\<close> leaves no entry for
  the top leaderboard and for the trending lists of the three limits it knows; a trending
  list of any other limit is answered as before.
\<close>

theorem cache_bust_all_removes:
  "fst (cache_get ''leaderboard:top'' now (cache_bust All c)) = None \<and>
   fst (cache_get (trending_cache_key limit) now (cache_bust All c)) =
     (if limit \<in> {10, 20, 30} then None else fst (cache_get (trending_cache_key limit) now c))"
proof -
  let ?t = "trending_cache_key limit"
  have "?t \<notin> set (prefix_variants ''problems:list'') \<union> set swept_list_keys \<union> set (prefix_variants ''trending'')"
    using trending_not_variant [of limit] by (auto simp: trending_cache_key_def prefix_variants_def swept_list_keys_def)
  then have "jm_get (store (cache_bust All c)) ?t = (if limit \<in> {10, 20, 30} then None else jm_get (store c) ?t)"
    by (auto simp: cache_bust_def invalidateProblemsCache_def invalidateLeaderboardCache_def deletePrefix_def
        Let_def jm_get_delete_all cache_delete_def jm_get_delete trending_cache_key_def)
  then have "fst (cache_get ?t now (cache_bust All c)) = (if limit \<in> {10, 20, 30} then None else fst (cache_get ?t now c))"
    by (simp add: cache_get_def split: option.split)
  moreover have "jm_get (store (cache_bust All c)) ''leaderboard:top'' = None"
    by (simp add: cache_bust_def invalidateLeaderboardCache_def Let_def cache_delete_def jm_get_delete)
  ultimately show ?thesis by (simp add: cache_get_def)
qed

end
