(* ===== verification/RateLimit.thy ===== *)
theory RateLimit
  imports Prelude
begin

section \<open>The rate limiter (src/lib/rate-limit.ts)\<close>

text \<open>
  \<^verbatim>\<open>memoryCheck\<close>, the fixed-window bucket per key, with the sweep that \<^verbatim>\<open>armGc\<close> runs every
  five minutes; \<^verbatim>\<open>redisCheck\<close>, which reads the reply of a Redis pipeline (Redis and its
  client are not part of the repository: the reply is an argument); and \<^verbatim>\<open>rateLimitAsync\<close>,
  which prefers Redis and falls back to the buckets. The clock is an argument. The lemmas
  lead to a bound on the calls admitted in any stretch of time, and to the harmlessness of
  the sweep.
\<close>

subsection \<open>Buckets\<close>

record window =
  w_count :: int
  w_resetAt :: int

type_synonym buckets = "(string, window) jsmap"

record rl_result =
  allowed :: bool
  remaining :: int
  resetAt :: int
  retryAfter :: "int option"

definition memoryCheck :: "string \<Rightarrow> int \<Rightarrow> int \<Rightarrow> int \<Rightarrow> buckets \<Rightarrow> rl_result \<times> buckets" where
  "memoryCheck key mx windowMs now b =
     (let fresh = \<lparr>w_count = 1, w_resetAt = now + windowMs\<rparr>;
          opened = (\<lparr>allowed = True, remaining = mx - 1, resetAt = w_resetAt fresh, retryAfter = None\<rparr>,
                    jm_set key fresh b)
      in case jm_get b key of
           None \<Rightarrow> opened
         | Some w \<Rightarrow>
             if now > w_resetAt w then opened
             else if w_count w \<ge> mx then
               (\<lparr>allowed = False, remaining = 0, resetAt = w_resetAt w,
                 retryAfter = Some (max 1 (ceil_div (w_resetAt w - now) 1000))\<rparr>, b)
             else
               let w' = w\<lparr>w_count := w_count w + 1\<rparr>
               in (\<lparr>allowed = True, remaining = mx - w_count w', resetAt = w_resetAt w, retryAfter = None\<rparr>,
                   jm_set key w' b))"

definition rateLimit :: "string \<Rightarrow> int \<Rightarrow> int \<Rightarrow> int \<Rightarrow> buckets \<Rightarrow> rl_result \<times> buckets" where
  "rateLimit key mx windowMs now b = memoryCheck key mx windowMs now b"

text \<open>The interval callback that \<^verbatim>\<open>armGc\<close> installs.\<close>

definition gc_sweep :: "int \<Rightarrow> buckets \<Rightarrow> buckets" where
  "gc_sweep now b = filter (\<lambda>(k, w). \<not> now > w_resetAt w) b"

subsection \<open>Redis\<close>

text \<open>
  The reply of \<^verbatim>\<open>pipe.exec()\<close>: null, or an error or a value per command, in the order
  \<^verbatim>\<open>zremrangebyscore\<close>, \<^verbatim>\<open>zadd\<close>, \<^verbatim>\<open>zcard\<close>, \<^verbatim>\<open>pexpire\<close>.
\<close>

type_synonym redis_reply = "(string option \<times> int option) list option"

definition redisCheck :: "redis_reply \<Rightarrow> int \<Rightarrow> int \<Rightarrow> int \<Rightarrow> string + rl_result" where
  "redisCheck res mx windowMs now =
     (case res of
        None \<Rightarrow> Inl ''redis pipeline returned null''
      | Some replies \<Rightarrow>
          if length replies \<le> 2 then Inl ''redis pipeline missing zcard result''
          else
            (case replies ! 2 of
               (Some err, _) \<Rightarrow> Inl err
             | (None, zc) \<Rightarrow>
                 let count = (case zc of None \<Rightarrow> 0 | Some n \<Rightarrow> n)
                 in if count > mx then
                      Inr \<lparr>allowed = False, remaining = 0, resetAt = now + windowMs,
                           retryAfter = Some (max 1 (ceil_div windowMs 1000))\<rparr>
                    else
                      Inr \<lparr>allowed = True, remaining = max 0 (mx - count), resetAt = now + windowMs,
                           retryAfter = None\<rparr>))"

text \<open>
  \<^verbatim>\<open>getRedisClient\<close>: the lazily loaded client. \<open>load\<close> says whether importing and
  constructing the client succeeds.
\<close>

record redis_state =
  redisClient :: bool
  redisLoadAttempted :: bool

definition getRedisClient :: "string option \<Rightarrow> bool \<Rightarrow> redis_state \<Rightarrow> bool \<times> redis_state" where
  "getRedisClient url load s =
     (if redisClient s then (True, s)
      else if redisLoadAttempted s then (False, s)
      else
        let s' = s\<lparr>redisLoadAttempted := True\<rparr>
        in case url of
             None \<Rightarrow> (False, s')
           | Some u \<Rightarrow> if u = [] then (False, s')
                       else if load then (True, s'\<lparr>redisClient := True\<rparr>) else (False, s'))"

definition rateLimitAsync ::
  "bool \<Rightarrow> (string + redis_reply) \<Rightarrow> string \<Rightarrow> int \<Rightarrow> int \<Rightarrow> int \<Rightarrow> buckets \<Rightarrow> rl_result \<times> buckets" where
  "rateLimitAsync client exec key mx windowMs now b =
     (if \<not> client then memoryCheck key mx windowMs now b
      else case (case exec of Inl e \<Rightarrow> Inl e | Inr res \<Rightarrow> redisCheck res mx windowMs now) of
             Inr r \<Rightarrow> (r, b)
           | Inl e \<Rightarrow> memoryCheck key mx windowMs now b)"

subsection \<open>One key at a time\<close>

text \<open>The part of \<^verbatim>\<open>memoryCheck\<close> that concerns the window of its own key.\<close>

definition check_window :: "int \<Rightarrow> int \<Rightarrow> int \<Rightarrow> window option \<Rightarrow> bool \<times> window" where
  "check_window mx windowMs now w =
     (case w of
        None \<Rightarrow> (True, \<lparr>w_count = 1, w_resetAt = now + windowMs\<rparr>)
      | Some w \<Rightarrow>
          if now > w_resetAt w then (True, \<lparr>w_count = 1, w_resetAt = now + windowMs\<rparr>)
          else if w_count w \<ge> mx then (False, w)
          else (True, w\<lparr>w_count := w_count w + 1\<rparr>))"

lemma memoryCheck_window:
  "allowed (fst (memoryCheck key mx windowMs now b)) = fst (check_window mx windowMs now (jm_get b key))"
  "jm_get (snd (memoryCheck key mx windowMs now b)) j =
     (if j = key then Some (snd (check_window mx windowMs now (jm_get b key))) else jm_get b j)"
  by (auto simp: memoryCheck_def check_window_def Let_def jm_get_set split: option.split)

fun admit :: "int \<Rightarrow> int \<Rightarrow> window option \<Rightarrow> int list \<Rightarrow> int list" where
  "admit mx windowMs w [] = []"
| "admit mx windowMs w (t # ts) =
     (let (ok, w') = check_window mx windowMs t w
      in if ok then t # admit mx windowMs (Some w') ts else admit mx windowMs (Some w') ts)"

lemma set_admit: "set (admit mx d w ts) \<subseteq> set ts"
  by (induction ts arbitrary: w) (auto simp: Let_def split: prod.splits)

definition between :: "int \<Rightarrow> int \<Rightarrow> int list \<Rightarrow> nat" where
  "between a x ts = length (filter (\<lambda>t. a \<le> t \<and> t \<le> x) ts)"

lemma between_Cons: "between a x (t # ts) = (if a \<le> t \<and> t \<le> x then Suc (between a x ts) else between a x ts)"
  by (simp add: between_def)

lemma between_above: "\<forall>t \<in> set ts. x < t \<Longrightarrow> between a x ts = 0"
  by (induction ts) (auto simp: between_def)

lemma between_admit_above: "\<forall>t \<in> set ts. x < t \<Longrightarrow> between a x (admit mx d w ts) = 0"
  using set_admit by (intro between_above) blast

text \<open>While a window is open it admits what is left of its budget.\<close>

lemma admit_open:
  assumes "sorted ts" "w_count w \<le> mx" "x \<le> w_resetAt w"
  shows "int (between a x (admit mx d (Some w) ts)) \<le> mx - w_count w"
  using assms
proof (induction ts arbitrary: w)
  case (Cons t ts)
  show ?case
  proof (cases "t \<le> w_resetAt w")
    case True
    show ?thesis
    proof (cases "mx \<le> w_count w")
      case True
      then show ?thesis using Cons.IH [of w] Cons.prems \<open>t \<le> w_resetAt w\<close> by (simp add: check_window_def)
    next
      case False
      then have "int (between a x (admit mx d (Some (w\<lparr>w_count := w_count w + 1\<rparr>)) ts)) \<le> mx - (w_count w + 1)"
        using Cons.prems by (intro order_trans [OF Cons.IH]) auto
      then show ?thesis using False \<open>t \<le> w_resetAt w\<close> by (simp add: check_window_def between_Cons)
    qed
  next
    case False
    then have "\<forall>t' \<in> set (t # ts). x < t'" using Cons.prems by auto
    then have "between a x (admit mx d (Some w) (t # ts)) = 0" by (rule between_admit_above)
    then show ?thesis using Cons.prems by simp
  qed
qed (simp add: between_def)

text \<open>Up to one window length past its end, at most one more window opens.\<close>

lemma admit_next:
  assumes "sorted ts" "1 \<le> mx" "w_count w \<le> mx" "x \<le> w_resetAt w + d"
  shows "int (between a x (admit mx d (Some w) ts)) \<le> (mx - w_count w) + mx"
  using assms
proof (induction ts arbitrary: w)
  case (Cons t ts)
  show ?case
  proof (cases "t \<le> w_resetAt w")
    case True
    show ?thesis
    proof (cases "mx \<le> w_count w")
      case True
      then show ?thesis using Cons.IH [of w] Cons.prems \<open>t \<le> w_resetAt w\<close> by (simp add: check_window_def)
    next
      case False
      then have "int (between a x (admit mx d (Some (w\<lparr>w_count := w_count w + 1\<rparr>)) ts)) \<le> (mx - (w_count w + 1)) + mx"
        using Cons.prems by (intro order_trans [OF Cons.IH]) auto
      then show ?thesis using False \<open>t \<le> w_resetAt w\<close> by (simp add: check_window_def between_Cons)
    qed
  next
    case False
    let ?w = "\<lparr>w_count = 1, w_resetAt = t + d\<rparr>"
    have "int (between a x (admit mx d (Some ?w) ts)) \<le> mx - w_count ?w"
      using Cons.prems False by (intro admit_open) auto
    then show ?thesis using False Cons.prems by (simp add: check_window_def between_Cons)
  qed
qed (simp add: between_def)

definition window_ok :: "int \<Rightarrow> window option \<Rightarrow> bool" where
  "window_ok mx w \<longleftrightarrow> (case w of None \<Rightarrow> True | Some w \<Rightarrow> 1 \<le> w_count w \<and> w_count w \<le> mx)"

lemma window_ok_check: "1 \<le> mx \<Longrightarrow> window_ok mx w \<Longrightarrow> window_ok mx (Some (snd (check_window mx d t w)))"
  by (auto simp: window_ok_def check_window_def split: option.split)

lemma admit_any:
  assumes "sorted ts" "1 \<le> mx" "window_ok mx w"
  shows "int (between a (a + d) (admit mx d w ts)) \<le> 2 * mx - 1"
  using assms
proof (induction ts arbitrary: w)
  case (Cons t ts)
  obtain ok w' where c: "check_window mx d t w = (ok, w')" by (cases "check_window mx d t w")
  then have w': "window_ok mx (Some w')" using window_ok_check [OF Cons.prems(2,3)] by (metis snd_conv)
  show ?case
  proof (cases "t < a")
    case True
    then show ?thesis using Cons.IH [of "Some w'"] Cons.prems w' by (simp add: c between_Cons)
  next
    case False
    show ?thesis
    proof (cases "\<exists>v. w = Some v \<and> t \<le> w_resetAt v")
      case True
      then obtain v where v: "w = Some v" "t \<le> w_resetAt v" by blast
      then have "int (between a (a + d) (admit mx d (Some v) (t # ts))) \<le> (mx - w_count v) + mx"
        using Cons.prems False by (intro admit_next) (auto simp: window_ok_def)
      then show ?thesis using v Cons.prems(3) by (simp add: window_ok_def del: admit.simps)
    next
      case fresh: False
      let ?w = "\<lparr>w_count = 1, w_resetAt = t + d\<rparr>"
      have "check_window mx d t w = (True, ?w)"
        using fresh by (cases w) (auto simp: check_window_def)
      moreover have "int (between a (a + d) (admit mx d (Some ?w) ts)) \<le> mx - w_count ?w"
        using Cons.prems False by (intro admit_open) auto
      ultimately show ?thesis using Cons.prems(2) by (simp add: between_Cons)
    qed
  qed
qed (simp add: between_def)

subsection \<open>Runs: calls for any keys, and sweeps\<close>

datatype rl_event = Call string int int int | Sweep int

fun event_time :: "rl_event \<Rightarrow> int" where
  "event_time (Call k mx d t) = t"
| "event_time (Sweep t) = t"

text \<open>The times at which calls for \<open>key\<close> were allowed.\<close>

fun admitted :: "string \<Rightarrow> rl_event list \<Rightarrow> buckets \<Rightarrow> int list" where
  "admitted key [] b = []"
| "admitted key (Sweep t # es) b = admitted key es (gc_sweep t b)"
| "admitted key (Call k mx d t # es) b =
     (let (r, b') = memoryCheck k mx d t b
      in if k = key \<and> allowed r then t # admitted key es b' else admitted key es b')"

text \<open>
  Two buckets look the same at \<open>now\<close> when the windows still open agree; a sweep changes
  nothing that can be seen from then on.
\<close>

definition open_at :: "int \<Rightarrow> window option \<Rightarrow> window option" where
  "open_at now w = (case w of None \<Rightarrow> None | Some w \<Rightarrow> if now > w_resetAt w then None else Some w)"

lemma check_window_open: "check_window mx d now (open_at now w) = check_window mx d now w"
  by (auto simp: check_window_def open_at_def split: option.split)

lemma open_at_mono: "open_at now w = open_at now v \<Longrightarrow> now \<le> later \<Longrightarrow> open_at later w = open_at later v"
  by (auto simp: open_at_def split: option.splits if_splits)

lemma jm_get_filter: "jm_ok m \<Longrightarrow> jm_get (filter P m) k = (case jm_get m k of None \<Rightarrow> None | Some v \<Rightarrow> if P (k, v) then Some v else None)"
proof (induction m)
  case (Cons kv m)
  obtain j v where [simp]: "kv = (j, v)" by (cases kv)
  have "jm_get m j = None" if "j = k" using Cons.prems that jm_get_keys [of j m] by (auto simp: jm_ok_def)
  then show ?case using Cons by (auto simp: jm_ok_def split: option.split)
qed simp

lemma jm_ok_gc: "jm_ok b \<Longrightarrow> jm_ok (gc_sweep now b)"
  by (simp add: jm_ok_def gc_sweep_def distinct_map_filter)

lemma open_at_gc: "jm_ok b \<Longrightarrow> open_at now (jm_get (gc_sweep now b) k) = open_at now (jm_get b k)"
  by (auto simp: gc_sweep_def jm_get_filter open_at_def split: option.split)

lemma jm_ok_memoryCheck: "jm_ok b \<Longrightarrow> jm_ok (snd (memoryCheck key mx d now b))"
  by (auto simp: memoryCheck_def Let_def jm_ok_set split: option.split)

definition calls_of :: "string \<Rightarrow> rl_event list \<Rightarrow> int list" where
  "calls_of key es = concat (map (\<lambda>e. case e of Call k mx d t \<Rightarrow> if k = key then [t] else [] | Sweep t \<Rightarrow> []) es)"

lemma calls_of_simps [simp]:
  "calls_of key [] = []" "calls_of key (Sweep t # es) = calls_of key es"
  "calls_of key (Call k mx d t # es) = (if k = key then t # calls_of key es else calls_of key es)"
  by (simp_all add: calls_of_def)

text \<open>The calls of one key see only that key's window: sweeps and other keys do not matter.\<close>

lemma admitted_eq_admit:
  assumes "jm_ok b" "sorted (map event_time es)" "\<forall>e \<in> set es. now \<le> event_time e"
    "open_at now (jm_get b key) = open_at now w"
    "\<forall>mx' d' t. Call key mx' d' t \<in> set es \<longrightarrow> mx' = mx \<and> d' = d"
  shows "admitted key es b = admit mx d w (calls_of key es)"
  using assms
proof (induction key es b arbitrary: now w rule: admitted.induct)
  case (2 key t es b)
  have "open_at t (jm_get b key) = open_at t w" using "2.prems"(3) by (intro open_at_mono [OF "2.prems"(4)]) auto
  then have "open_at t (jm_get (gc_sweep t b) key) = open_at t w" using "2.prems"(1) by (simp add: open_at_gc)
  then show ?case
    using "2.IH" [of t w] "2.prems" by (simp add: jm_ok_gc)
next
  case (3 key k mx' d' t es b)
  obtain r b' where m: "memoryCheck k mx' d' t b = (r, b')" by (cases "memoryCheck k mx' d' t b")
  have ok: "jm_ok b'" using jm_ok_memoryCheck [OF "3.prems"(1), of k mx' d' t] by (simp add: m)
  have now: "now \<le> t" "sorted (map event_time es)" "\<forall>e \<in> set es. t \<le> event_time e"
    using "3.prems"(2,3) by auto
  have eq: "open_at t (jm_get b key) = open_at t w" using "3.prems"(4) now(1) by (rule open_at_mono)
  note mc = memoryCheck_window [of k mx' d' t b, unfolded m fst_conv snd_conv]
  show ?case
  proof (cases "k = key")
    case True
    then have [simp]: "mx' = mx" "d' = d" using "3.prems"(5) by auto
    obtain a w' where c: "check_window mx d t w = (a, w')" by (cases "check_window mx d t w")
    have "check_window mx d t (jm_get b key) = (a, w')" using eq c by (metis check_window_open)
    then have ra: "allowed r = a" and jb: "jm_get b' key = Some w'" using mc True by auto
    have same: "\<forall>mx' d' t. Call key mx' d' t \<in> set es \<longrightarrow> mx' = mx \<and> d' = d"
      using "3.prems"(5) by (meson list.set_intros(2))
    have opn: "open_at t (jm_get b' key) = open_at t (Some w')" by (simp only: jb)
    have "admitted key es b' = admit mx d (Some w') (calls_of key es)"
      by (cases "k = key \<and> allowed r")
        (rule "3.IH"(1) [OF m [symmetric] refl _ ok now(2,3) opn same]
          "3.IH"(2) [OF m [symmetric] refl _ ok now(2,3) opn same]; assumption)+
    moreover have "memoryCheck key mx d t b = (r, b')"
      using m True \<open>mx' = mx\<close> \<open>d' = d\<close> by metis
    ultimately show ?thesis using True ra by (simp add: c)
  next
    case False
    then have "jm_get b' key = jm_get b key" using mc by simp
    then have opn: "open_at t (jm_get b' key) = open_at t w" using eq by simp
    have same: "\<forall>mx' d' t. Call key mx' d' t \<in> set es \<longrightarrow> mx' = mx \<and> d' = d"
      using "3.prems"(5) by (meson list.set_intros(2))
    have no: "\<not> (k = key \<and> allowed r)" using False by simp
    have "admitted key es b' = admit mx d w (calls_of key es)"
      by (rule "3.IH"(2) [OF m [symmetric] refl no ok now(2,3) opn same])
    then show ?thesis using False by (simp add: m)
  qed
qed simp

lemma sorted_calls_of: "sorted (map event_time es) \<Longrightarrow> sorted (calls_of key es)"
proof (induction es)
  case (Cons e es)
  have "set (calls_of key es) \<subseteq> event_time ` set es"
    by (force simp: calls_of_def split: rl_event.splits)
  then show ?case using Cons by (cases e) auto
qed simp

subsection \<open>Properties\<close>

text \<open>
  C7. The limiter bounds every stretch of time. Whatever calls for whatever keys and
  whatever sweeps happen, in the order of a clock that does not run backwards, a key that
  is always checked with the budget \<open>mx >= 1\<close> per \<open>d\<close> milliseconds is admitted at most
  \<open>2 * mx - 1\<close> times in any closed stretch of \<open>d\<close> milliseconds; the fixed window allows a
  burst across its edge, and no more.
\<close>

theorem rate_limit_bound:
  assumes "sorted (map event_time es)" "1 \<le> mx"
    "\<forall>mx' d' t. Call key mx' d' t \<in> set es \<longrightarrow> mx' = mx \<and> d' = d"
  shows "int (length (filter (\<lambda>t. a \<le> t \<and> t \<le> a + d) (admitted key es []))) \<le> 2 * mx - 1"
proof (cases es)
  case (Cons e es')
  have "admitted key es [] = admit mx d None (calls_of key es)"
    using assms by (intro admitted_eq_admit [where now = "event_time e"]) (auto simp: Cons jm_ok_def)
  then show ?thesis
    using admit_any [OF sorted_calls_of [OF assms(1), of key] assms(2), of None a d]
    by (simp add: between_def window_ok_def)
qed (use assms(2) in simp)

lemma rate_limit_bound_witness:
  "length (filter (\<lambda>t. 10 \<le> t \<and> t \<le> 10 + 10) (admitted ''u'' [Call ''u'' 2 10 0, Call ''v'' 1 5 3,
     Call ''u'' 2 10 10, Call ''u'' 2 10 10, Sweep 11, Call ''u'' 2 10 11, Call ''u'' 2 10 12, Call ''u'' 2 10 13] [])) = 3 \<and>
   (3::int) \<le> 2 * 2 - 1"
proof -
  let ?es = "[Call ''u'' 2 10 0, Call ''v'' 1 5 3, Call ''u'' 2 10 10, Call ''u'' 2 10 10, Sweep 11,
    Call ''u'' 2 10 11, Call ''u'' 2 10 12, Call ''u'' 2 10 13]"
  have a: "admitted ''u'' ?es [] = [0, 10, 11, 12]" by code_simp
  have "int (length (filter (\<lambda>t. 10 \<le> t \<and> t \<le> 10 + 10) (admitted ''u'' ?es []))) \<le> 2 * 2 - 1"
    by (rule rate_limit_bound [where key = "''u''" and a = 10 and d = 10 and mx = 2]) simp_all
  then show ?thesis unfolding a by simp
qed

text \<open>
  The answer of \<open>memoryCheck\<close> is accurate. With a budget of at least one, over buckets
  that hold at most one window per key with a count between one and the budget (which
  it keeps so): an admitted call reports the budget left after it, a refused one reports none
  and a wait of at least one second that ends no earlier, and less than a second later, than the
  window does; no other key's window is touched.
\<close>

theorem memoryCheck_accurate:
  assumes "1 \<le> mx" "window_ok mx (jm_get b key)"
  shows "let (r, b') = memoryCheck key mx d now b in
    window_ok mx (jm_get b' key) \<and>
    (\<exists>w. jm_get b' key = Some w \<and> resetAt r = w_resetAt w \<and>
       (if allowed r then remaining r = mx - w_count w \<and> 0 \<le> remaining r \<and> retryAfter r = None
        else remaining r = 0 \<and> w_count w = mx \<and> b' = b \<and>
          (\<exists>s. retryAfter r = Some s \<and> 1 \<le> s \<and> resetAt r \<le> now + 1000 * s \<and>
               (1 < s \<longrightarrow> now + 1000 * s < resetAt r + 1000)))) \<and>
    (\<forall>j. j \<noteq> key \<longrightarrow> jm_get b' j = jm_get b j)"
proof -
  have wait: "resets \<le> now + 1000 * max 1 (ceil_div (resets - now) 1000) \<and>
      (1 < max 1 (ceil_div (resets - now) 1000) \<longrightarrow> now + 1000 * max 1 (ceil_div (resets - now) 1000) < resets + 1000)"
    for resets
    using ceil_div_bounds [of 1000 "resets - now"] by (auto simp: max_def)
  show ?thesis
    using assms wait by (auto simp: memoryCheck_def window_ok_def Let_def jm_get_set split: option.splits)
qed

lemma memoryCheck_accurate_witness:
  "let (r, b') = memoryCheck ''k'' 1 2500 700 (snd (memoryCheck ''k'' 1 2500 0 [])) in
     \<not> allowed r \<and> retryAfter r = Some 2 \<and> window_ok 1 (jm_get b' ''k'')"
proof -
  let ?b = "snd (memoryCheck ''k'' 1 2500 0 [])"
  have "window_ok 1 (jm_get ?b ''k'')" by code_simp
  note t = memoryCheck_accurate [OF _ this, of 2500 700]
  have "fst (memoryCheck ''k'' 1 2500 700 ?b) = \<lparr>allowed = False, remaining = 0, resetAt = 2500, retryAfter = Some 2\<rparr>"
    by code_simp
  then show ?thesis using t by (auto simp: Let_def split: prod.splits)
qed

text \<open>
  The distributed limiter fails over, never open. Without a client, when the pipeline
  rejects, when it returns null, when the count is missing and when the count command
  failed, \<open>rateLimitAsync\<close> answers and counts exactly as the in-memory limiter; otherwise it
  leaves the buckets alone and admits the call if and only if the reported cardinality is
  within the budget.
\<close>

theorem rateLimitAsync_failover:
  "rateLimitAsync client exec key mx d now b =
    (case (if client then exec else Inl ''no client'') of
       Inr (Some (c0 # c1 # (None, n) # cs)) \<Rightarrow>
         (let count = (case n of None \<Rightarrow> 0 | Some k \<Rightarrow> k)
          in (\<lparr>allowed = (count \<le> mx), remaining = max 0 (mx - count), resetAt = now + d,
               retryAfter = (if count \<le> mx then None else Some (max 1 (ceil_div d 1000)))\<rparr>, b))
     | _ \<Rightarrow> rateLimit key mx d now b)"
  by (auto simp: rateLimitAsync_def redisCheck_def rateLimit_def Let_def numeral_2_eq_2
      split: sum.split option.split list.split prod.split)

end
