(* ===== verification/JsText.thy ===== *)
theory JsText
  imports Prelude
begin

section \<open>JavaScript strings and the numbers read from them\<close>

text \<open>
  The string methods the sources call (\<^verbatim>\<open>trim\<close>, \<^verbatim>\<open>includes\<close>, \<^verbatim>\<open>startsWith\<close>,
  \<^verbatim>\<open>toLowerCase\<close>, \<^verbatim>\<open>slice\<close>), \<^verbatim>\<open>parseInt(s, 10)\<close>, and the reading of clamped
  query parameters that every listing handler shares. A string is a list of 8-bit
  characters: the model covers Latin-1 texts.
\<close>

subsection \<open>Strings\<close>

definition is_space :: "char \<Rightarrow> bool" where
  "is_space c \<longleftrightarrow> (of_char c :: nat) \<in> {9, 10, 11, 12, 13, 32, 160}"

definition js_trim :: "string \<Rightarrow> string" where
  "js_trim s = rev (dropWhile is_space (rev (dropWhile is_space s)))"

definition starts_with :: "string \<Rightarrow> string \<Rightarrow> bool" where
  "starts_with p s \<longleftrightarrow> take (length p) s = p"

fun str_includes :: "string \<Rightarrow> string \<Rightarrow> bool" where
  "str_includes p [] = (p = [])"
| "str_includes p (c # cs) = (starts_with p (c # cs) \<or> str_includes p cs)"

definition lower_char :: "char \<Rightarrow> char" where
  "lower_char c =
    (let n = (of_char c :: nat)
     in if 65 \<le> n \<and> n \<le> 90 \<or> 192 \<le> n \<and> n \<le> 222 \<and> n \<noteq> 215 then char_of (n + 32) else c)"

text \<open>Truthiness of a string that may be null or undefined.\<close>

definition truthy :: "string option \<Rightarrow> bool" where
  "truthy s \<longleftrightarrow> (case s of None \<Rightarrow> False | Some t \<Rightarrow> t \<noteq> [])"

text \<open>\<^verbatim>\<open>s || null\<close>: the empty string counts as absent.\<close>

definition or_none :: "string option \<Rightarrow> string option" where
  "or_none s = (if truthy s then s else None)"

lemma starts_with_iff: "starts_with p s \<longleftrightarrow> (\<exists>b. s = p @ b)"
  by (metis append_eq_conv_conj append_take_drop_id starts_with_def)

lemma includes_iff: "str_includes p s \<longleftrightarrow> (\<exists>a b. s = a @ p @ b)"
proof (induction s)
  case (Cons c s)
  have "(\<exists>a b. c # s = a @ p @ b) \<longleftrightarrow> (\<exists>b. c # s = p @ b) \<or> (\<exists>a b. s = a @ p @ b)"
  proof
    assume "\<exists>a b. c # s = a @ p @ b"
    then obtain a b where e: "c # s = a @ p @ b" by blast
    then show "(\<exists>b. c # s = p @ b) \<or> (\<exists>a b. s = a @ p @ b)" by (cases a) auto
  next
    assume "(\<exists>b. c # s = p @ b) \<or> (\<exists>a b. s = a @ p @ b)"
    then show "\<exists>a b. c # s = a @ p @ b" by (metis append_Cons append_Nil)
  qed
  then show ?case using Cons by (simp add: starts_with_iff)
qed simp

text \<open>\<^verbatim>\<open>s.split(c)\<close> for a single character, and a parser's checks of a text's length.\<close>

fun split_on :: "char \<Rightarrow> string \<Rightarrow> string list" where
  "split_on c [] = [[]]"
| "split_on c (x # xs) =
    (if x = c then [] # split_on c xs
     else case split_on c xs of [] \<Rightarrow> [[x]] | p # ps \<Rightarrow> (x # p) # ps)"

lemma split_at_char: "c \<notin> set a \<Longrightarrow> c \<notin> set b \<Longrightarrow> a @ c # r = b @ c # s \<Longrightarrow> a = b \<and> r = s"
proof (induction a arbitrary: b)
  case Nil
  then show ?case by (cases b) auto
next
  case (Cons x a)
  then show ?case by (cases b) auto
qed

fun length_in :: "nat \<Rightarrow> nat \<Rightarrow> string \<Rightarrow> string \<Rightarrow> string \<Rightarrow> string list" where
  "length_in lo hi short long s = (if length s < lo then [short] else []) @ (if length s > hi then [long] else [])"

subsection \<open>parseInt(s, 10)\<close>

definition is_digit :: "char \<Rightarrow> bool" where
  "is_digit c \<longleftrightarrow> 48 \<le> (of_char c :: nat) \<and> (of_char c :: nat) \<le> 57"

fun parse_digits :: "string \<Rightarrow> js_int" where
  "parse_digits s = (let ds = takeWhile is_digit s in if ds = [] then NaN else Fin (int (read_nat ds)))"

fun js_neg :: "js_int \<Rightarrow> js_int" where
  "js_neg NaN = NaN"
| "js_neg (Fin i) = Fin (- i)"

definition parse_int :: "string \<Rightarrow> js_int" where
  "parse_int s =
    (case dropWhile is_space s of
       [] \<Rightarrow> NaN
     | c # cs \<Rightarrow>
         if c = CHR ''-'' then js_neg (parse_digits cs)
         else if c = CHR ''+'' then parse_digits cs
         else parse_digits (c # cs))"

text \<open>\<^verbatim>\<open>n || d\<close> on numbers: zero and NaN are falsy.\<close>

fun js_or :: "js_int \<Rightarrow> int \<Rightarrow> int" where
  "js_or NaN d = d"
| "js_or (Fin i) d = (if i = 0 then d else i)"

text \<open>
  The query parameters of the listing handlers:
  \<^verbatim>\<open>Math.max(1, parseInt(p ?? "1", 10) || 1)\<close> and
  \<^verbatim>\<open>Math.min(hi, Math.max(lo, parseInt(p ?? d, 10) || d))\<close>.
\<close>

definition int_param :: "string option \<Rightarrow> int \<Rightarrow> int" where
  "int_param p d = (case p of None \<Rightarrow> d | Some s \<Rightarrow> js_or (parse_int s) d)"

definition page_param :: "string option \<Rightarrow> int" where
  "page_param p = max 1 (int_param p 1)"

definition limit_param :: "int \<Rightarrow> int \<Rightarrow> string option \<Rightarrow> int" where
  "limit_param hi d p = min hi (max 1 (int_param p d))"

lemma limit_param_bounds: "1 \<le> hi \<Longrightarrow> 1 \<le> limit_param hi d p \<and> limit_param hi d p \<le> hi"
  by (simp add: limit_param_def)

lemma page_param_pos: "1 \<le> page_param p"
  by (simp add: page_param_def)

lemma digits_show_nat: "list_all is_digit (show_nat n)"
proof (induction n rule: show_nat.induct)
  case (1 n)
  have d: "is_digit (char_of (48 + m))" if "m < 10" for m :: nat
    using that by (simp add: is_digit_def of_char_digit)
  show ?case
  proof (cases "n < 10")
    case True
    then show ?thesis by (subst show_nat.simps) (simp add: d)
  next
    case False
    then show ?thesis using 1 by (subst show_nat.simps) (simp add: d)
  qed
qed

lemma show_nat_nonempty [simp]: "show_nat n \<noteq> []"
  by (subst show_nat.simps) simp

lemma parse_show_nat: "parse_int (show_nat n) = Fin (int n)"
proof -
  obtain c cs where s: "show_nat n = c # cs" by (cases "show_nat n") auto
  then have c: "is_digit c" "list_all is_digit (c # cs)" using digits_show_nat [of n] by auto
  then have "\<not> is_space c" "c \<noteq> CHR ''-''" "c \<noteq> CHR ''+''" by (auto simp: is_digit_def is_space_def)
  moreover have "takeWhile is_digit (c # cs) = c # cs"
    using c(2) by (simp only: takeWhile_eq_all_conv list_all_iff)
  then have "parse_digits (c # cs) = Fin (int n)"
    using read_show_nat [of n] by (simp only: parse_digits.simps s Let_def) simp
  ultimately show ?thesis by (simp add: parse_int_def s del: parse_digits.simps)
qed

text \<open>\<^verbatim>\<open>String(i)\<close> of an integer, and \<^verbatim>\<open>join\<close>, which \<^verbatim>\<open>split\<close> undoes.\<close>

definition show_int :: "int \<Rightarrow> string" where
  "show_int i = (if i < 0 then CHR ''-'' # show_nat (nat (- i)) else show_nat (nat i))"

fun join_with :: "string \<Rightarrow> string list \<Rightarrow> string" where
  "join_with sep [] = []"
| "join_with sep [x] = x"
| "join_with sep (x # y # xs) = x @ sep @ join_with sep (y # xs)"

lemma parse_show_int: "parse_int (show_int i) = Fin i"
proof (cases "i < 0")
  case True
  have "parse_digits (show_nat n) = Fin (int n)" for n
  proof -
    have t: "takeWhile is_digit (show_nat n) = show_nat n"
      using digits_show_nat [of n] by (simp only: takeWhile_eq_all_conv list_all_iff)
    show ?thesis by (simp only: parse_digits.simps Let_def t) (simp add: read_show_nat)
  qed
  then show ?thesis using True by (simp add: parse_int_def show_int_def is_space_def del: parse_digits.simps)
qed (simp add: show_int_def parse_show_nat)

lemma show_int_plain: "\<not> is_digit c \<Longrightarrow> c \<noteq> CHR ''-'' \<Longrightarrow> c \<notin> set (show_int i)"
  using digits_show_nat by (auto simp: show_int_def list_all_iff)

lemma split_on_free: "c \<notin> set x \<Longrightarrow> split_on c x = [x]"
  by (induction x) auto

lemma split_on_append: "c \<notin> set x \<Longrightarrow> split_on c (x @ c # s) = x # split_on c s"
proof (induction x)
  case (Cons y x)
  then show ?case by auto
qed simp

lemma split_join: "xs \<noteq> [] \<Longrightarrow> \<forall>x \<in> set xs. c \<notin> set x \<Longrightarrow> split_on c (join_with [c] xs) = xs"
  by (induction "[c]" xs rule: join_with.induct) (simp_all add: split_on_free split_on_append)

subsection \<open>Pages of a result\<close>

text \<open>\<^verbatim>\<open>skip\<close> and \<^verbatim>\<open>take\<close> of a query.\<close>

definition page_of :: "int \<Rightarrow> int \<Rightarrow> 'a list \<Rightarrow> 'a list" where
  "page_of page limit xs = take (nat limit) (drop (nat ((page - 1) * limit)) xs)"

lemma length_page_of: "length (page_of p l xs) \<le> nat l"
  by (simp add: page_of_def)

lemma pages_cover:
  assumes "1 \<le> l"
  shows "concat (map (\<lambda>p. page_of (int p + 1) l xs) [0..<n]) = take (n * nat l) xs"
proof (induction n)
  case (Suc n)
  have "nat (int n * l) = n * nat l" using assms by (simp add: nat_mult_distrib)
  then show ?case using Suc by (simp add: page_of_def take_add [symmetric] add.commute)
qed simp

end
