(* ===== verification/Effects.thy ===== *)
theory Effects
  imports JsText
begin

section \<open>Handlers: calls that may fail, exceptions, replies\<close>

text \<open>
  A request handler is a program over the database state of its component. Every awaited
  database call may reject (connection lost, pool exhausted) without an effect: a script of
  booleans says which of the calls, in order, do. \<open>throw\<close> and \<open>catch\<close> are JavaScript's. With the
  empty script every call succeeds. The locale \<open>evolution\<close> is how state properties pass through
  programs: a reflexive, transitive relation between the states before and after.
\<close>

type_synonym 's world = "bool list \<times> 's"
type_synonym ('s, 'e, 'a) prog = "'s world \<Rightarrow> ('e + 'a) \<times> 's world"

definition ret :: "'a \<Rightarrow> ('s, 'e, 'a) prog" where
  "ret x w = (Inr x, w)"

definition throw :: "'e \<Rightarrow> ('s, 'e, 'a) prog" where
  "throw e w = (Inl e, w)"

definition bind :: "('s, 'e, 'a) prog \<Rightarrow> ('a \<Rightarrow> ('s, 'e, 'b) prog) \<Rightarrow> ('s, 'e, 'b) prog" where
  "bind m k w = (case m w of (Inl e, w') \<Rightarrow> (Inl e, w') | (Inr x, w') \<Rightarrow> k x w')"

definition catch :: "('s, 'e, 'a) prog \<Rightarrow> ('e \<Rightarrow> ('s, 'f, 'a) prog) \<Rightarrow> ('s, 'f, 'a) prog" where
  "catch m h w = (case m w of (Inl e, w') \<Rightarrow> h e w' | (Inr x, w') \<Rightarrow> (Inr x, w'))"

text \<open>An awaited call: it rejects with \<open>e\<close> when the script says so, else runs \<open>f\<close>.\<close>

fun call :: "'e \<Rightarrow> ('s \<Rightarrow> ('e + 'a) \<times> 's) \<Rightarrow> ('s, 'e, 'a) prog" where
  "call e f ([], s) = (case f s of (x, s') \<Rightarrow> (x, ([], s')))"
| "call e f (b # bs, s) = (if b then (Inl e, (bs, s)) else case f s of (x, s') \<Rightarrow> (x, (bs, s')))"

definition query :: "'e \<Rightarrow> ('s \<Rightarrow> 'a) \<Rightarrow> ('s, 'e, 'a) prog" where
  "query e f = call e (\<lambda>s. (Inr (f s), s))"

definition update :: "'e \<Rightarrow> ('s \<Rightarrow> 's) \<Rightarrow> ('s, 'e, unit) prog" where
  "update e f = call e (\<lambda>s. (Inr (), f s))"

text \<open>State kept in the process itself (caches, counters): no call, nothing to fail.\<close>

definition state_op :: "('s \<Rightarrow> 'a \<times> 's) \<Rightarrow> ('s, 'e, 'a) prog" where
  "state_op f w = (case f (snd w) of (x, s') \<Rightarrow> (Inr x, (fst w, s')))"

fun for_each :: "'a list \<Rightarrow> ('a \<Rightarrow> ('s, 'e, unit) prog) \<Rightarrow> ('s, 'e, unit) prog" where
  "for_each [] f = ret ()"
| "for_each (x # xs) f = bind (f x) (\<lambda>_. for_each xs f)"

text \<open>The state after a run, and its result.\<close>

definition after :: "('s, 'e, 'a) prog \<Rightarrow> bool list \<Rightarrow> 's \<Rightarrow> 's" where
  "after m fs s = snd (snd (m (fs, s)))"

definition result :: "('s, 'e, 'a) prog \<Rightarrow> bool list \<Rightarrow> 's \<Rightarrow> 'e + 'a" where
  "result m fs s = fst (m (fs, s))"

lemmas prog_defs = ret_def throw_def bind_def catch_def query_def update_def

lemma ret_simps [simp]: "ret x w = (Inr x, w)" "throw e w = (Inl e, w)"
  by (simp_all add: prog_defs)

lemma query_nil [simp]: "query e f ([], s) = (Inr (f s), ([], s))"
  by (simp add: query_def)

lemma update_nil [simp]: "update e f ([], s) = (Inr (), ([], f s))"
  by (simp add: update_def)

lemma query_cons [simp]: "query e f (b # bs, s) = (if b then (Inl e, (bs, s)) else (Inr (f s), (bs, s)))"
  by (simp add: query_def)

lemma update_cons [simp]: "update e f (b # bs, s) = (if b then (Inl e, (bs, s)) else (Inr (), (bs, f s)))"
  by (simp add: update_def)

lemma state_op_pair [simp]: "state_op f (fs, s) = (Inr (fst (f s)), (fs, snd (f s)))"
  by (simp add: state_op_def split: prod.split)

lemma bind_cases:
  "bind m k w = (case m w of (r, w') \<Rightarrow> (case r of Inl e \<Rightarrow> (Inl e, w') | Inr x \<Rightarrow> k x w'))"
  by (simp add: bind_def split: prod.split sum.split)

text \<open>What a completed run says of its parts.\<close>

lemma bind_Inr: "bind m k w = (Inr y, w') \<longleftrightarrow> (\<exists>x w1. m w = (Inr x, w1) \<and> k x w1 = (Inr y, w'))"
  by (auto simp: bind_def split: prod.splits sum.splits)

lemma query_Inr: "query e f w = (Inr x, w') \<Longrightarrow> x = f (snd w) \<and> snd w' = snd w"
  by (cases w; cases "fst w") (auto split: if_splits)

lemma update_Inr: "update e f w = (Inr x, w') \<Longrightarrow> snd w' = f (snd w)"
  by (cases w; cases "fst w") (auto split: if_splits)

lemma query_or: "query e f (fs, s) = (Inr (f s), (tl fs, s)) \<or> query e f (fs, s) = (Inl e, (tl fs, s))"
  by (cases fs) auto

lemma query_hd:
  "query e f (fs, s) = (if fs \<noteq> [] \<and> hd fs then (Inl e, (tl fs, s)) else (Inr (f s), (tl fs, s)))"
  by (cases fs) auto

lemma call_hd:
  "call e f (fs, s) = (if fs \<noteq> [] \<and> hd fs then (Inl e, (tl fs, s)) else (fst (f s), (tl fs, snd (f s))))"
  by (cases fs) (auto split: prod.split)

text \<open>Whether the call at a place of the script fails.\<close>

definition call_fails :: "bool list \<Rightarrow> nat \<Rightarrow> bool" where
  "call_fails fs i \<longleftrightarrow> i < length fs \<and> fs ! i"

lemma hd_fails: "fs \<noteq> [] \<and> hd fs \<longleftrightarrow> call_fails fs 0"
  by (cases fs) (auto simp: call_fails_def)

lemma tl_fails: "call_fails (tl fs) i = call_fails fs (Suc i)"
  by (cases fs) (auto simp: call_fails_def)

lemma call_or:
  "call e f (fs, s) = (fst (f s), (tl fs, snd (f s))) \<or> call e f (fs, s) = (Inl e, (tl fs, s))"
  by (cases fs) (auto split: prod.split)

lemma bind_query_Inr: "bind (query e f) k (fs, s) = (Inr y, w) \<Longrightarrow> k (f s) (tl fs, s) = (Inr y, w)"
  by (auto simp: bind_def query_hd split: if_splits)

lemma after_bind:
  "after (bind m k) fs s =
    (case m (fs, s) of (Inl e, w) \<Rightarrow> snd w | (Inr x, w) \<Rightarrow> after (k x) (fst w) (snd w))"
  by (simp add: after_def bind_def split: prod.split sum.split)

lemma after_catch_ret [simp]: "after (catch m (\<lambda>e. ret (h e))) fs s = after m fs s"
  by (simp add: after_def catch_def split: prod.split sum.split)

lemma after_ret [simp]: "after (ret x) fs s = s" "after (throw e) fs s = s"
  by (simp_all add: after_def)

lemma after_bind_call: "after (bind (call e f) k) fs s =
    (if fs \<noteq> [] \<and> hd fs then s
     else case fst (f s) of Inl e' \<Rightarrow> snd (f s) | Inr x \<Rightarrow> after (k x) (tl fs) (snd (f s)))"
  by (simp add: after_bind call_hd split: sum.split)

lemma after_bind_query: "after (bind (query e f) k) fs s =
    (if fs \<noteq> [] \<and> hd fs then s else after (k (f s)) (tl fs) s)"
  by (simp add: query_def after_bind_call)

lemma after_bind_update: "after (bind (update e f) k) fs s =
    (if fs \<noteq> [] \<and> hd fs then s else after (k ()) (tl fs) (f s))"
  by (simp add: update_def after_bind_call)

lemmas after_steps = after_bind_call after_bind_query after_bind_update

lemma after_catch: "after (catch m h) fs s =
    (case m (fs, s) of (Inl e, w) \<Rightarrow> after (h e) (fst w) (snd w) | (Inr x, w) \<Rightarrow> snd w)"
  by (simp add: after_def catch_def split: prod.split sum.split)

lemma after_query: "after (bind (query e f) k) fs s = s \<or> after (bind (query e f) k) fs s = after (k (f s)) (tl fs) s"
  using query_or [of e f fs s] by (auto simp: after_bind)

lemma after_state_op [simp]: "after (bind (state_op f) k) fs s = after (k (fst (f s))) fs (snd (f s))"
  by (simp add: after_bind)

subsection \<open>What every run does to the state\<close>

definition moves :: "('s \<Rightarrow> 's \<Rightarrow> bool) \<Rightarrow> ('s, 'e, 'a) prog \<Rightarrow> bool" where
  "moves R m \<longleftrightarrow> (\<forall>fs s. R s (after m fs s))"

locale evolution =
  fixes R :: "'s \<Rightarrow> 's \<Rightarrow> bool"
  assumes refl: "R s s" and trans: "R s t \<Longrightarrow> R t u \<Longrightarrow> R s u"
begin

lemma movesD: "moves R m \<Longrightarrow> m (fs, s) = (r, (gs, t)) \<Longrightarrow> R s t"
  by (metis moves_def after_def snd_conv)

lemma movesI: "(\<And>fs s r gs t. m (fs, s) = (r, (gs, t)) \<Longrightarrow> R s t) \<Longrightarrow> moves R m"
  by (metis moves_def after_def prod.collapse)

lemma moves_ret: "moves R (ret x)"
  by (rule movesI) (auto intro: refl)

lemma moves_throw: "moves R (throw e)"
  by (rule movesI) (auto intro: refl)

lemma moves_bind:
  assumes "moves R m" "\<And>x. moves R (k x)"
  shows "moves R (bind m k)"
proof (rule movesI)
  fix fs s r gs t
  assume b: "bind m k (fs, s) = (r, (gs, t))"
  obtain q hs u where m: "m (fs, s) = (q, (hs, u))" by (metis prod.exhaust)
  then have "R s u" using assms(1) by (rule movesD [rotated])
  then show "R s t" using b m assms(2) by (cases q) (auto simp: bind_def dest: movesD intro: trans)
qed

lemma moves_catch:
  assumes "moves R m" "\<And>e. moves R (h e)"
  shows "moves R (catch m h)"
proof (rule movesI)
  fix fs s r gs t
  assume b: "catch m h (fs, s) = (r, (gs, t))"
  obtain q hs u where m: "m (fs, s) = (q, (hs, u))" by (metis prod.exhaust)
  then have "R s u" using assms(1) by (rule movesD [rotated])
  then show "R s t" using b m assms(2) by (cases q) (auto simp: catch_def dest: movesD intro: trans)
qed

lemma moves_call:
  assumes "\<And>s. R s (snd (f s))"
  shows "moves R (call e f)"
proof (rule movesI)
  fix fs s r gs t
  assume c: "call e f (fs, s) = (r, (gs, t))"
  have "t = s \<or> t = snd (f s)"
    using c by (cases fs) (auto split: prod.splits if_splits)
  then show "R s t" using assms refl by auto
qed

lemma moves_query: "moves R (query e f)"
  unfolding query_def by (rule moves_call) (simp add: refl)

lemma moves_update: "(\<And>s. R s (f s)) \<Longrightarrow> moves R (update e f)"
  unfolding update_def by (rule moves_call) simp

lemma moves_state_op:
  assumes "\<And>s. R s (snd (f s))"
  shows "moves R (state_op f)"
  using assms by (intro movesI) auto

lemma moves_for_each: "(\<And>x. moves R (f x)) \<Longrightarrow> moves R (for_each xs f)"
  by (induction xs) (simp_all add: moves_ret moves_bind)

lemma moves_if: "moves R a \<Longrightarrow> moves R b \<Longrightarrow> moves R (if c then a else b)"
  by simp

lemma moves_option: "moves R a \<Longrightarrow> (\<And>x. moves R (b x)) \<Longrightarrow> moves R (case v of None \<Rightarrow> a | Some x \<Rightarrow> b x)"
  by (cases v) simp_all

lemma moves_sum: "(\<And>x. moves R (a x)) \<Longrightarrow> (\<And>x. moves R (b x)) \<Longrightarrow> moves R (case v of Inl x \<Rightarrow> a x | Inr x \<Rightarrow> b x)"
  by (cases v) simp_all

lemma moves_list: "moves R a \<Longrightarrow> (\<And>x xs. moves R (b x xs)) \<Longrightarrow> moves R (case v of [] \<Rightarrow> a | x # xs \<Rightarrow> b x xs)"
  by (cases v) simp_all

lemma moves_prod: "(\<And>x y. moves R (a x y)) \<Longrightarrow> moves R (case v of (x, y) \<Rightarrow> a x y)"
  by (cases v) simp

lemmas moves_rules = moves_ret moves_throw moves_bind moves_catch moves_query moves_update
  moves_for_each moves_if moves_option moves_sum moves_state_op moves_list moves_prod

lemma moves_result: "moves R m \<Longrightarrow> R s (after m fs s)"
  by (simp add: moves_def)

end

text \<open>Programs that only read.\<close>

interpretation reads: evolution "(=)"
  by unfold_locales auto

lemmas reads_rules = reads.moves_ret reads.moves_throw reads.moves_bind reads.moves_catch reads.moves_query
  reads.moves_for_each reads.moves_if reads.moves_option reads.moves_sum

lemma reads_state: "moves (=) m \<Longrightarrow> m w = (r, w') \<Longrightarrow> snd w' = snd w"
  by (metis prod.collapse reads.movesD)

subsection \<open>Replies\<close>

text \<open>What \<^verbatim>\<open>getSession\<close> gives for a valid token.\<close>

record session =
  se_userId :: nat
  se_role :: string

text \<open>A reply is an error with its HTTP status, or a status and a body.\<close>

datatype 'b reply = Failed nat string | Reply nat 'b

fun reply_code :: "'b reply \<Rightarrow> nat" where
  "reply_code (Failed n e) = n"
| "reply_code (Reply n b) = n"

end
