(* ===== verification/Judge.thy ===== *)
theory Judge
  imports Effects
begin

section \<open>Judging a submission\<close>

text \<open>
  The judge client (\<^verbatim>\<open>src/services/judge.ts\<close>) and the queue handler that claims a
  submission, runs it and records the verdict (\<^verbatim>\<open>src/lib/submission-jobs.ts\<close>). The judge
  service is a parameter: a function from requests to what \<^verbatim>\<open>fetch\<close> gives. The handler is
  a program over the submission table; its three database calls are also the steps of
  a transition system in which any number of handlers run interleaved.
\<close>

subsection \<open>The judge client\<close>

record test_result =
  tr_passed :: bool
  tr_input :: string
  tr_expected :: string
  tr_actual :: "string option"
  tr_runtime :: "int option"
  tr_error :: "string option"

text \<open>What a rejected promise carries: an object with optional codes, or any other value.\<close>

datatype js_err =
    ErrObj (err_name: string) (err_message: string) (err_code: "string option") (err_cause: "string option")
  | NotError string

record judge_request =
  jr_code :: string
  jr_language :: string
  jr_tests :: "(string \<times> string) list"

text \<open>
  The answer of \<^verbatim>\<open>fetch\<close>: a response with its status, its text (or a failure to read it)
  and its parsed body (or the failure to parse it), with both fields possibly missing.
\<close>

record response =
  res_ok :: bool
  res_status :: nat
  res_text :: "string option"
  res_json :: "js_err + (test_result list option \<times> string option)"

datatype judge_error = JudgeUnavailable string | Raised js_err

definition isAbortOrNetworkError :: "js_err \<Rightarrow> bool" where
  "isAbortOrNetworkError err =
    (case err of
       NotError s \<Rightarrow> False
     | ErrObj name msg c cause \<Rightarrow>
         name = ''AbortError'' \<or>
         (case (case c of None \<Rightarrow> cause | Some x \<Rightarrow> Some x) of
            None \<Rightarrow> False
          | Some x \<Rightarrow> x \<in> {''ECONNREFUSED'', ''ENOTFOUND'', ''ETIMEDOUT'', ''ECONNRESET'', ''UND_ERR_SOCKET''}))"

fun stringifyError :: "js_err \<Rightarrow> string" where
  "stringifyError (ErrObj name msg c cause) = msg"
| "stringifyError (NotError s) = s"

definition judgeUnavailableError :: "string \<Rightarrow> js_err \<Rightarrow> judge_error" where
  "judgeUnavailableError url cause =
    JudgeUnavailable (''Judge service is unavailable at '' @ url @ '': '' @ stringifyError cause)"

definition plain_error :: "string \<Rightarrow> js_err" where
  "plain_error msg = ErrObj ''Error'' msg None None"

definition executeCode ::
  "string \<Rightarrow> (judge_request \<Rightarrow> js_err + response) \<Rightarrow> judge_request \<Rightarrow> judge_error + (test_result list \<times> string)" where
  "executeCode url judge req =
    (let attempt =
       (case judge req of
          Inl e \<Rightarrow> Inl e
        | Inr res \<Rightarrow>
            if \<not> res_ok res then
              Inl (plain_error (''Judge returned HTTP '' @ show_nat (res_status res) @ '': '' @
                (case res_text res of None \<Rightarrow> ''<no body>'' | Some t \<Rightarrow> t)))
            else (case res_json res of
                Inl e \<Rightarrow> Inl e
              | Inr (rs, st) \<Rightarrow> Inr ((case rs of None \<Rightarrow> [] | Some l \<Rightarrow> l), (case st of None \<Rightarrow> [] | Some s \<Rightarrow> s))))
     in (case attempt of
           Inr r \<Rightarrow> Inr r
         | Inl e \<Rightarrow> if isAbortOrNetworkError e then Inl (judgeUnavailableError url e) else Inl (Raised e)))"

subsection \<open>The verdict\<close>

definition trusted_judge_statuses :: "string list" where
  "trusted_judge_statuses = [''compile_error'', ''memory_limit_exceeded'', ''time_limit_exceeded'', ''security_error'']"

definition isCompileError :: "string \<Rightarrow> bool" where
  "isCompileError msg =
    (if msg = [] then False
     else list_ex (\<lambda>p. str_includes p (map lower_char msg))
       [''syntaxerror'', ''syntax error'', ''unexpected identifier'', ''unexpected token'',
        ''indentationerror'', ''compile error'', ''compilation failed''])"

definition first_error :: "test_result list \<Rightarrow> string option" where
  "first_error rs = (case find (\<lambda>r. truthy (tr_error r)) rs of None \<Rightarrow> None | Some r \<Rightarrow> tr_error r)"

definition classify :: "test_result list \<Rightarrow> string \<Rightarrow> string" where
  "classify rs judgeStatus =
    (let allPassed = list_all tr_passed rs;
         hasError = list_ex (\<lambda>r. truthy (tr_error r)) rs;
         firstError = (case first_error rs of None \<Rightarrow> [] | Some e \<Rightarrow> e)
     in if judgeStatus \<in> set trusted_judge_statuses then judgeStatus
        else if hasError \<and> \<not> allPassed then
          (if isCompileError firstError then ''compile_error''
           else if str_includes ''MemoryError'' firstError \<or> str_includes ''out of memory'' firstError
             then ''memory_limit_exceeded''
           else ''runtime_error'')
        else if allPassed then ''accepted''
        else ''wrong_answer'')"

record terminal_update =
  tu_status :: string
  tu_runtime :: "int option"
  tu_error :: "string option"
  tu_output :: "string option"

text \<open>\<^verbatim>\<open>Math.round(sum / max(1, n))\<close>: halves round up.\<close>

definition avg_runtime :: "test_result list \<Rightarrow> int" where
  "avg_runtime rs =
    (let total = sum_list (map (\<lambda>r. case tr_runtime r of None \<Rightarrow> 0 | Some t \<Rightarrow> t) rs);
         n = int (max 1 (length rs))
     in (2 * total + n) div (2 * n))"

definition first_output :: "test_result list \<Rightarrow> string option" where
  "first_output rs =
    (case find (\<lambda>r. \<not> tr_passed r) rs of
       None \<Rightarrow> None
     | Some r \<Rightarrow> or_none (map_option js_trim (tr_actual r)))"

definition verdict :: "test_result list \<Rightarrow> string \<Rightarrow> terminal_update" where
  "verdict rs judgeStatus =
    (let status = classify rs judgeStatus
     in \<lparr>tu_status = status, tu_runtime = Some (avg_runtime rs), tu_error = first_error rs,
         tu_output = (if status = ''accepted'' then None else first_output rs)\<rparr>)"

definition crash_update :: "js_err \<Rightarrow> terminal_update" where
  "crash_update err =
    \<lparr>tu_status = ''runtime_error'', tu_runtime = None,
     tu_error = Some (case err of ErrObj n m c ca \<Rightarrow> m | NotError s \<Rightarrow> ''Internal judging error''),
     tu_output = None\<rparr>"

subsection \<open>The submission table\<close>

record submission =
  sb_id :: nat
  sb_user :: nat
  sb_problem :: nat
  sb_language :: string
  sb_code :: string
  sb_status :: string
  sb_runtime :: "int option"
  sb_error :: "string option"
  sb_output :: "string option"

record test_case =
  tc_order :: int
  tc_input :: string
  tc_expected :: string

record judge_db =
  submissions :: "submission list"
  tests_of :: "(nat \<times> test_case list) list"

definition sub_find :: "nat \<Rightarrow> submission list \<Rightarrow> submission option" where
  "sub_find i rows = find (\<lambda>r. sb_id r = i) rows"

definition sub_map :: "(submission \<Rightarrow> bool) \<Rightarrow> (submission \<Rightarrow> submission) \<Rightarrow> judge_db \<Rightarrow> judge_db" where
  "sub_map P f db = db\<lparr>submissions := map (\<lambda>r. if P r then f r else r) (submissions db)\<rparr>"

datatype job_error = DbError | RowMissing | Judge judge_error

subsection \<open>The queue handler\<close>

text \<open>\<^verbatim>\<open>testCases: { orderBy: { order: "asc" } }\<close>, ties in the order of the table.\<close>

definition case_le :: "test_case \<Rightarrow> test_case \<Rightarrow> bool" where
  "case_le a b \<longleftrightarrow> tc_order a \<le> tc_order b"

definition ordered_tests :: "judge_db \<Rightarrow> nat \<Rightarrow> test_case list" where
  "ordered_tests db p = sort_by case_le (case jm_get (tests_of db) p of None \<Rightarrow> [] | Some ts \<Rightarrow> ts)"

definition request_of :: "submission \<Rightarrow> test_case list \<Rightarrow> judge_request" where
  "request_of r ts = \<lparr>jr_code = sb_code r, jr_language = sb_language r,
     jr_tests = map (\<lambda>t. (tc_input t, tc_expected t)) ts\<rparr>"

definition load_row :: "nat \<Rightarrow> judge_db \<Rightarrow> (submission \<times> test_case list) option" where
  "load_row i db = (case sub_find i (submissions db) of
     None \<Rightarrow> None | Some r \<Rightarrow> Some (r, ordered_tests db (sb_problem r)))"

text \<open>The claim: one conditional update, which reports how many rows it changed.\<close>

definition claim_row :: "nat \<Rightarrow> judge_db \<Rightarrow> (job_error + nat) \<times> judge_db" where
  "claim_row i db =
    (let P = (\<lambda>r. sb_id r = i \<and> sb_status r = ''queued'')
     in (Inr (length (filter P (submissions db))), sub_map P (\<lambda>r. r\<lparr>sb_status := ''judging''\<rparr>) db))"

definition rollback_row :: "nat \<Rightarrow> judge_db \<Rightarrow> judge_db" where
  "rollback_row i = sub_map (\<lambda>r. sb_id r = i \<and> sb_status r = ''judging'') (\<lambda>r. r\<lparr>sb_status := ''queued''\<rparr>)"

definition write_terminal :: "nat \<Rightarrow> terminal_update \<Rightarrow> judge_db \<Rightarrow> (job_error + unit) \<times> judge_db" where
  "write_terminal i u db =
    (if sub_find i (submissions db) = None then (Inl RowMissing, db)
     else (Inr (), sub_map (\<lambda>r. sb_id r = i)
       (\<lambda>r. r\<lparr>sb_status := tu_status u, sb_runtime := tu_runtime u, sb_error := tu_error u, sb_output := tu_output u\<rparr>) db))"

text \<open>What the handler does once it holds the claim.\<close>

definition conclude ::
  "string \<Rightarrow> (judge_request \<Rightarrow> js_err + response) \<Rightarrow> submission \<Rightarrow> test_case list \<Rightarrow> (judge_db, job_error, unit) prog" where
  "conclude url judge r ts =
    (case executeCode url judge (request_of r ts) of
       Inr (results, judgeStatus) \<Rightarrow> call DbError (write_terminal (sb_id r) (verdict results judgeStatus))
     | Inl (JudgeUnavailable msg) \<Rightarrow>
         bind (update DbError (rollback_row (sb_id r))) (\<lambda>_. throw (Judge (JudgeUnavailable msg)))
     | Inl (Raised err) \<Rightarrow> call DbError (write_terminal (sb_id r) (crash_update err)))"

definition judge_submission ::
  "string \<Rightarrow> (judge_request \<Rightarrow> js_err + response) \<Rightarrow> nat \<Rightarrow> (judge_db, job_error, unit) prog" where
  "judge_submission url judge submissionId =
    bind (query DbError (load_row submissionId)) (\<lambda>row.
      case row of
        None \<Rightarrow> ret ()
      | Some (r, ts) \<Rightarrow>
          if sb_status r \<noteq> ''queued'' then ret ()
          else bind (call DbError (claim_row submissionId)) (\<lambda>hits.
            if hits = 0 then ret () else conclude url judge r ts))"

subsection \<open>Interleaved handlers\<close>

text \<open>
  A worker is a handler between two awaits: about to read, about to claim, or holding a
  claim. A step runs one database call of one worker against the shared table, or loses
  the worker to a rejected call; rows are created by the submission route with a fresh id
  in status \<open>queued\<close>.
\<close>

datatype worker = Reading nat | Claiming submission "test_case list" | Holding submission "test_case list" | Gone

inductive judge_step ::
  "string \<Rightarrow> (judge_request \<Rightarrow> js_err + response) \<Rightarrow> judge_db \<times> worker list \<Rightarrow> judge_db \<times> worker list \<Rightarrow> bool"
  for url judge where
  spawn: "judge_step url judge (db, ws) (db, ws @ [Reading i])"
| create: "sub_find (sb_id r) (submissions db) = None \<Longrightarrow> sb_status r = ''queued'' \<Longrightarrow>
    judge_step url judge (db, ws) (db\<lparr>submissions := submissions db @ [r]\<rparr>, ws)"
| read: "n < length ws \<Longrightarrow> ws ! n = Reading i \<Longrightarrow>
    w = (case load_row i db of None \<Rightarrow> Gone | Some (r, ts) \<Rightarrow>
           if sb_status r \<noteq> ''queued'' then Gone else Claiming r ts) \<Longrightarrow>
    judge_step url judge (db, ws) (db, ws[n := w])"
| claim: "n < length ws \<Longrightarrow> ws ! n = Claiming r ts \<Longrightarrow> claim_row (sb_id r) db = (Inr hits, db') \<Longrightarrow>
    judge_step url judge (db, ws) (db', ws[n := if hits = 0 then Gone else Holding r ts])"
| conclude: "n < length ws \<Longrightarrow> ws ! n = Holding r ts \<Longrightarrow>
    judge_step url judge (db, ws) (after (conclude url judge r ts) fs db, ws[n := Gone])"
| lose: "n < length ws \<Longrightarrow> judge_step url judge (db, ws) (db, ws[n := Gone])"

inductive judge_reach ::
  "string \<Rightarrow> judge_db \<times> worker list \<Rightarrow> judge_db \<times> worker list \<Rightarrow> bool" for url where
  start: "judge_reach url s s"
| more: "judge_reach url s t \<Longrightarrow> judge_step url judge t u \<Longrightarrow> judge_reach url s u"

definition holds :: "nat \<Rightarrow> worker \<Rightarrow> bool" where
  "holds i w = (case w of Holding r ts \<Rightarrow> sb_id r = i | _ \<Rightarrow> False)"

definition holders :: "nat \<Rightarrow> worker list \<Rightarrow> nat" where
  "holders i ws = length (filter (holds i) ws)"

inductive_cases judge_stepE: "judge_step url judge (db, ws) t"

subsection \<open>Tables and workers\<close>

interpretation case_order: comparator case_le UNIV
  by unfold_locales (auto simp: case_le_def)

lemma ordered_tests_sorted: "sorted_wrt case_le (ordered_tests db p)"
  unfolding ordered_tests_def by (rule case_order.sorted_sort_by) simp

definition ids_ok :: "judge_db \<Rightarrow> bool" where
  "ids_ok db \<longleftrightarrow> distinct (map sb_id (submissions db))"

lemma sub_find_Cons [simp]: "sub_find i (r # rs) = (if sb_id r = i then Some r else sub_find i rs)"
  by (simp add: sub_find_def)

lemma sub_find_Nil [simp]: "sub_find i [] = None"
  by (simp add: sub_find_def)

lemma sub_find_append: "sub_find i (rs @ qs) = (case sub_find i rs of None \<Rightarrow> sub_find i qs | Some r \<Rightarrow> Some r)"
  by (induction rs) auto

lemma sub_find_id: "sub_find i rs = Some r \<Longrightarrow> sb_id r = i"
  by (induction rs) (auto split: if_splits)

lemma sub_find_in: "sub_find i rs = Some r \<Longrightarrow> r \<in> set rs"
  by (induction rs) (auto split: if_splits)

lemma sub_find_None: "sub_find i rs = None \<longleftrightarrow> i \<notin> sb_id ` set rs"
  by (induction rs) auto

lemma sub_find_unique: "distinct (map sb_id rs) \<Longrightarrow> r \<in> set rs \<Longrightarrow> sub_find (sb_id r) rs = Some r"
  by (induction rs) (auto simp: image_iff)

lemma sub_find_map:
  assumes "\<And>r. sb_id (f r) = sb_id r"
  shows "sub_find i (submissions (sub_map P f db)) = map_option (\<lambda>r. if P r then f r else r) (sub_find i (submissions db))"
proof -
  have "sub_find i (map (\<lambda>r. if P r then f r else r) rs) = map_option (\<lambda>r. if P r then f r else r) (sub_find i rs)" for rs
    by (induction rs) (auto simp: assms)
  then show ?thesis by (simp add: sub_map_def)
qed

lemma ids_ok_map: "(\<And>r. sb_id (f r) = sb_id r) \<Longrightarrow> ids_ok (sub_map P f db) = ids_ok db"
  by (simp add: ids_ok_def sub_map_def comp_def if_distrib cong: if_cong)

lemma sub_map_none: "(\<And>r. r \<in> set (submissions db) \<Longrightarrow> \<not> P r) \<Longrightarrow> sub_map P f db = db"
  by (cases db) (auto simp: sub_map_def intro: map_idI)

lemma claim_row_hit:
  assumes "ids_ok db" "sub_find i (submissions db) = Some r" "sb_status r = ''queued''"
  shows "claim_row i db = (Inr 1, sub_map (\<lambda>r. sb_id r = i) (\<lambda>r. r\<lparr>sb_status := ''judging''\<rparr>) db)"
proof -
  let ?P = "\<lambda>r. sb_id r = i \<and> sb_status r = ''queued''"
  have P: "?P q \<longleftrightarrow> sb_id q = i" if "q \<in> set (submissions db)" for q
    using that assms sub_find_unique [of "submissions db" q] by (auto simp: ids_ok_def)
  have "length (filter (\<lambda>r. sb_id r = i) rs) = (if sub_find i rs = None then 0 else 1)"
    if "distinct (map sb_id rs)" for rs
    using that by (induction rs) (auto simp: sub_find_None filter_empty_conv image_iff)
  moreover have "filter ?P (submissions db) = filter (\<lambda>r. sb_id r = i) (submissions db)"
    using P by (intro filter_cong) auto
  ultimately have "length (filter ?P (submissions db)) = 1" using assms by (simp add: ids_ok_def)
  moreover have "sub_map ?P f db = sub_map (\<lambda>r. sb_id r = i) f db" for f
    using P by (simp add: sub_map_def)
  ultimately show ?thesis by (simp add: claim_row_def Let_def)
qed

lemma claim_row_miss:
  assumes "ids_ok db" "\<And>r. sub_find i (submissions db) = Some r \<Longrightarrow> sb_status r \<noteq> ''queued''"
  shows "claim_row i db = (Inr 0, db)"
proof -
  have "\<not> (sb_id q = i \<and> sb_status q = ''queued'')" if "q \<in> set (submissions db)" for q
    using that assms sub_find_unique [of "submissions db" q] by (auto simp: ids_ok_def)
  then show ?thesis by (auto simp: claim_row_def Let_def filter_empty_conv intro!: sub_map_none)
qed

text \<open>Concluding touches one row only.\<close>

lemma after_call: "after (call e f) fs s = s \<or> after (call e f) fs s = snd (f s)"
  by (cases fs) (auto simp: after_def split: prod.splits)

lemma conclude_state:
  "\<exists>f. (\<forall>r. sb_id (f r) = sb_id r) \<and>
     after (conclude url judge r ts) fs db = sub_map (\<lambda>q. sb_id q = sb_id r) f db"
proof -
  have keep: "\<exists>f. (\<forall>r. sb_id (f r) = sb_id r) \<and> db = sub_map (\<lambda>q. sb_id q = sb_id r) f db"
    by (rule exI [of _ "\<lambda>r. r"]) (simp add: sub_map_def)
  have wt: "\<exists>f. (\<forall>r. sb_id (f r) = sb_id r) \<and> snd (write_terminal (sb_id r) u db) = sub_map (\<lambda>q. sb_id q = sb_id r) f db" for u
    using keep
    by (cases "sub_find (sb_id r) (submissions db) = None")
      (auto simp: write_terminal_def intro!: exI [of _ "\<lambda>r. r\<lparr>sb_status := tu_status u,
        sb_runtime := tu_runtime u, sb_error := tu_error u, sb_output := tu_output u\<rparr>"])
  have rb: "\<exists>f. (\<forall>r. sb_id (f r) = sb_id r) \<and> rollback_row (sb_id r) db = sub_map (\<lambda>q. sb_id q = sb_id r) f db"
    by (rule exI [of _ "\<lambda>q. if sb_status q = ''judging'' then q\<lparr>sb_status := ''queued''\<rparr> else q"])
      (auto simp: rollback_row_def sub_map_def)
  show ?thesis
  proof (cases "executeCode url judge (request_of r ts)")
    case (Inl e)
    then show ?thesis
    proof (cases e)
      case (JudgeUnavailable m)
      have "after (conclude url judge r ts) fs db = db \<or> after (conclude url judge r ts) fs db = rollback_row (sb_id r) db"
        by (cases fs) (auto simp: conclude_def Inl JudgeUnavailable after_def bind_def)
      then show ?thesis using keep rb by auto
    next
      case (Raised x)
      then show ?thesis
        using after_call [of DbError "write_terminal (sb_id r) (crash_update x)" fs db] keep wt
        by (auto simp: conclude_def Inl)
    qed
  next
    case (Inr p)
    then show ?thesis
      using after_call [of DbError "write_terminal (sb_id r) (verdict (fst p) (snd p))" fs db] keep wt
      by (auto simp: conclude_def Inr split: prod.split)
  qed
qed

text \<open>The invariant: ids are unique, and only a row in status \<open>judging\<close> is held, once.\<close>

definition status_of :: "nat \<Rightarrow> judge_db \<Rightarrow> string option" where
  "status_of i db = map_option sb_status (sub_find i (submissions db))"

definition cap :: "nat \<Rightarrow> judge_db \<Rightarrow> nat" where
  "cap i db = (if status_of i db = Some ''judging'' then 1 else 0)"

definition judge_inv :: "judge_db \<times> worker list \<Rightarrow> bool" where
  "judge_inv s \<longleftrightarrow> ids_ok (fst s) \<and>
     (\<forall>i. holders i (snd s) \<le> cap i (fst s))"

lemma holds_simps [simp]:
  "\<not> holds i (Reading j)" "\<not> holds i (Claiming r ts)" "\<not> holds i Gone" "holds i (Holding r ts) = (sb_id r = i)"
  by (simp_all add: holds_def)

lemma holders_append [simp]: "holders i (ws @ vs) = holders i ws + holders i vs"
  by (simp add: holders_def)

lemma holders_single [simp]: "holders i [w] = (if holds i w then 1 else 0)"
  by (simp add: holders_def)

lemma holders_set:
  "n < length ws \<Longrightarrow>
    holders i (ws[n := w]) + of_bool (holds i (ws ! n)) = holders i ws + of_bool (holds i w)"
  using length_filter_update [of n ws "holds i" w] by (simp add: holders_def)

lemma judge_inv_step:
  assumes "judge_inv s" "judge_step url judge s t"
  shows "judge_inv t"
  using assms(2,1)
proof (induction rule: judge_step.induct)
  case (create r db ws)
  have "status_of j (db\<lparr>submissions := submissions db @ [r]\<rparr>) = (if j = sb_id r then Some ''queued'' else status_of j db)" for j
    using create by (auto simp: status_of_def sub_find_append split: option.split)
  then have "cap j (db\<lparr>submissions := submissions db @ [r]\<rparr>) = (if j = sb_id r then 0 else cap j db)" for j
    by (simp add: cap_def)
  moreover have "holders (sb_id r) ws = 0"
    using create by (auto simp: judge_inv_def status_of_def cap_def dest!: spec [of _ "sb_id r"])
  ultimately show ?case
    using create by (auto simp: judge_inv_def ids_ok_def sub_find_None)
next
  case (read n ws i w db)
  have "\<not> holds j w" for j using read(3) by (auto split: option.split)
  then have "holders j (ws[n := w]) \<le> holders j ws" for j using holders_set [OF read(1), of j w] by simp
  then show ?case using read by (auto simp: judge_inv_def intro: order_trans)
next
  case (claim n ws r ts db hits db')
  show ?case
  proof (cases "status_of (sb_id r) db = Some ''queued''")
    case True
    then obtain q where q: "sub_find (sb_id r) (submissions db) = Some q" "sb_status q = ''queued''"
      by (auto simp: status_of_def)
    then have c: "hits = 1" "db' = sub_map (\<lambda>q. sb_id q = sb_id r) (\<lambda>r. r\<lparr>sb_status := ''judging''\<rparr>) db"
      using claim claim_row_hit [of db "sb_id r" q] by (auto simp: judge_inv_def)
    have "status_of j db' = (if j = sb_id r then Some ''judging'' else status_of j db)" for j
      using q by (auto simp: c status_of_def sub_find_map map_option_case dest: sub_find_id split: option.split)
    moreover have "holders j (ws[n := Holding r ts]) = holders j ws + of_bool (sb_id r = j)" for j
      using holders_set [OF claim(1), of j "Holding r ts"] claim(2) by simp
    moreover have "holders (sb_id r) ws = 0"
      using claim.prems True by (auto simp: judge_inv_def cap_def dest!: spec [of _ "sb_id r"])
    ultimately have "holders j (ws[n := Holding r ts]) \<le> cap j db'" if "holders j ws \<le> cap j db" for j
      using that by (auto simp: cap_def split: if_splits)
    then show ?thesis using claim.prems c by (auto simp: judge_inv_def ids_ok_map)
  next
    case False
    then have "hits = 0 \<and> db' = db"
      using claim claim_row_miss [of db "sb_id r"] by (auto simp: judge_inv_def status_of_def)
    moreover have "holders j (ws[n := Gone]) \<le> holders j ws" for j
      using holders_set [OF claim(1), of j Gone] by simp
    ultimately show ?thesis using claim.prems by (auto simp: judge_inv_def intro: order_trans)
  qed
next
  case (conclude n ws r ts db fs)
  obtain f where f: "\<And>r. sb_id (f r) = sb_id r"
    "after (conclude url judge r ts) fs db = sub_map (\<lambda>q. sb_id q = sb_id r) f db"
    using conclude_state by blast
  have "status_of j (sub_map (\<lambda>q. sb_id q = sb_id r) f db) = status_of j db" if "j \<noteq> sb_id r" for j
    using that by (cases "sub_find j (submissions db)") (auto simp: status_of_def sub_find_map f(1) dest: sub_find_id)
  then have c: "cap j (sub_map (\<lambda>q. sb_id q = sb_id r) f db) = cap j db" if "j \<noteq> sb_id r" for j
    using that by (simp add: cap_def)
  have h: "holders j (ws[n := Gone]) + of_bool (sb_id r = j) = holders j ws" for j
    using holders_set [OF conclude(1), of j Gone] conclude(2) by simp
  have "holders (sb_id r) ws \<le> 1"
    using conclude.prems by (auto simp: judge_inv_def cap_def dest!: spec [of _ "sb_id r"] split: if_splits)
  then have "holders (sb_id r) (ws[n := Gone]) = 0" using h [of "sb_id r"] by simp
  then have "holders j (ws[n := Gone]) \<le> cap j (sub_map (\<lambda>q. sb_id q = sb_id r) f db)"
    if "holders j ws \<le> cap j db" for j
    using that h [of j] c [of j] by (cases "j = sb_id r") auto
  then show ?case using conclude.prems f by (auto simp: judge_inv_def ids_ok_map)
next
  case (lose n ws db)
  have "holders j (ws[n := Gone]) \<le> holders j ws" for j
    using holders_set [OF lose(1), of j Gone] by simp
  then show ?case using lose by (auto simp: judge_inv_def intro: order_trans)
qed (auto simp: judge_inv_def)


lemma judge_inv_reach: "judge_reach url s t \<Longrightarrow> judge_inv s \<Longrightarrow> judge_inv t"
  by (induction rule: judge_reach.induct) (auto intro: judge_inv_step)

text \<open>A row that has left \<open>queued\<close> and that nobody holds is out of every handler's reach.\<close>

definition settled :: "submission \<Rightarrow> judge_db \<times> worker list \<Rightarrow> bool" where
  "settled r s \<longleftrightarrow> sub_find (sb_id r) (submissions (fst s)) = Some r \<and> sb_status r \<noteq> ''queued'' \<and>
     holders (sb_id r) (snd s) = 0"

lemma settled_step:
  assumes "judge_inv s" "settled q s" "judge_step url judge s t"
  shows "settled q t"
  using assms(3,1,2)
proof (induction rule: judge_step.induct)
  case (create r db ws)
  then show ?case by (auto simp: settled_def sub_find_append)
next
  case (read n ws i w db)
  have "\<not> holds j w" for j using read(3) by (auto split: option.split)
  then show ?case using read holders_set [OF read(1), of "sb_id q" w] by (simp add: settled_def)
next
  case (claim n ws r ts db hits db')
  show ?case
  proof (cases "sb_id r = sb_id q")
    case True
    then have "hits = 0 \<and> db' = db"
      using claim claim_row_miss [of db "sb_id r"] by (auto simp: judge_inv_def settled_def)
    then show ?thesis using claim holders_set [OF claim(1), of "sb_id q" Gone] by (simp add: settled_def)
  next
    case False
    have "db' = sub_map (\<lambda>q. sb_id q = sb_id r \<and> sb_status q = ''queued'') (\<lambda>r. r\<lparr>sb_status := ''judging''\<rparr>) db"
      using claim(3) by (simp add: claim_row_def Let_def)
    then have "sub_find (sb_id q) (submissions db') = Some q"
      using False claim.prems by (simp add: sub_find_map settled_def)
    then show ?thesis
      using claim False holders_set [OF claim(1), of "sb_id q" "if hits = 0 then Gone else Holding r ts"]
      by (auto simp: settled_def split: if_splits)
  qed
next
  case (conclude n ws r ts db fs)
  obtain f where f: "\<And>r. sb_id (f r) = sb_id r"
    "after (conclude url judge r ts) fs db = sub_map (\<lambda>q. sb_id q = sb_id r) f db"
    using conclude_state by blast
  have h: "holders (sb_id q) (ws[n := Gone]) + of_bool (sb_id r = sb_id q) = holders (sb_id q) ws"
    using holders_set [OF conclude(1), of "sb_id q" Gone] conclude(2) by simp
  then have "sb_id r \<noteq> sb_id q" using conclude.prems by (auto simp: settled_def)
  then show ?case using conclude.prems h f by (auto simp: settled_def sub_find_map)
next
  case (lose n ws db)
  then show ?case using holders_set [OF lose(1), of "sb_id q" Gone] by (simp add: settled_def)
qed (auto simp: settled_def)

lemma settled_reach: "judge_reach url s t \<Longrightarrow> judge_inv s \<Longrightarrow> settled q s \<Longrightarrow> settled q t"
proof (induction rule: judge_reach.induct)
  case (more s t judge u)
  then show ?case using settled_step judge_inv_reach by metis
qed

subsection \<open>Properties\<close>

text \<open>
  C1. Judging is exclusive. However many handlers are started for whatever submissions,
  however their database calls interleave and whichever of them fail, with whatever answers of
  the judge: at any moment a submission is held by at most one handler, and then its row is
  in status \<open>judging\<close>.
\<close>

theorem judging_exclusive:
  assumes "distinct (map sb_id (submissions db0))" "judge_reach url (db0, []) (db, ws)"
  shows "holders i ws \<le> 1 \<and>
    (holders i ws = 1 \<longrightarrow> (\<exists>r. sub_find i (submissions db) = Some r \<and> sb_status r = ''judging''))"
proof -
  have "judge_inv (db0, [])" using assms(1) by (simp add: judge_inv_def ids_ok_def holders_def)
  then have "holders i ws \<le> cap i db" using judge_inv_reach [OF assms(2)] by (simp add: judge_inv_def)
  then show ?thesis by (auto simp: cap_def status_of_def split: if_splits)
qed

definition sample_row :: submission where
  "sample_row = \<lparr>sb_id = 7, sb_user = 1, sb_problem = 3, sb_language = ''python'', sb_code = ''print(1)'',
     sb_status = ''queued'', sb_runtime = None, sb_error = None, sb_output = None\<rparr>"

definition sample_db :: judge_db where
  "sample_db = \<lparr>submissions = [sample_row], tests_of = [(3, [\<lparr>tc_order = 2, tc_input = ''b'', tc_expected = ''2''\<rparr>,
     \<lparr>tc_order = 1, tc_input = ''a'', tc_expected = ''1''\<rparr>])]\<rparr>"

lemma sample_claimed:
  "judge_reach url (sample_db, [])
    (sub_map (\<lambda>r. sb_id r = 7) (\<lambda>r. r\<lparr>sb_status := ''judging''\<rparr>) sample_db,
     [Holding sample_row (ordered_tests sample_db 3), Gone])"
proof -
  let ?db = "sub_map (\<lambda>r. sb_id r = 7) (\<lambda>r. r\<lparr>sb_status := ''judging''\<rparr>) sample_db"
  let ?j = "\<lambda>_. Inl (plain_error [])" and ?ts = "ordered_tests sample_db 3"
  have load: "load_row 7 sample_db = Some (sample_row, ?ts)"
    by (simp add: load_row_def sample_db_def sample_row_def)
  have s1: "judge_step url ?j (sample_db, []) (sample_db, [Reading 7])"
    using judge_step.spawn [of url ?j sample_db "[]" 7] by simp
  have s2: "judge_step url ?j (sample_db, [Reading 7]) (sample_db, [Reading 7, Reading 7])"
    using judge_step.spawn [of url ?j sample_db "[Reading 7]" 7] by simp
  have s3: "judge_step url ?j (sample_db, [Reading 7, Reading 7]) (sample_db, [Claiming sample_row ?ts, Reading 7])"
    using judge_step.read [of 0 "[Reading 7, Reading 7]" 7 "Claiming sample_row ?ts" sample_db url ?j]
    by (simp add: load sample_row_def)
  have s4: "judge_step url ?j (sample_db, [Claiming sample_row ?ts, Reading 7])
      (sample_db, [Claiming sample_row ?ts, Claiming sample_row ?ts])"
    using judge_step.read [of 1 "[Claiming sample_row ?ts, Reading 7]" 7 "Claiming sample_row ?ts" sample_db url ?j]
    by (simp add: load sample_row_def)
  have c1: "claim_row (sb_id sample_row) sample_db = (Inr 1, ?db)"
    using claim_row_hit [of sample_db 7 sample_row] by (simp add: ids_ok_def sample_db_def sample_row_def)
  have c2: "claim_row (sb_id sample_row) ?db = (Inr 0, ?db)"
    by (rule claim_row_miss) (auto simp: ids_ok_def sample_db_def sample_row_def sub_map_def)
  have s5: "judge_step url ?j (sample_db, [Claiming sample_row ?ts, Claiming sample_row ?ts])
      (?db, [Holding sample_row ?ts, Claiming sample_row ?ts])"
    using judge_step.claim [OF _ _ c1, of 0 "[Claiming sample_row ?ts, Claiming sample_row ?ts]" ?ts url ?j] by simp
  have s6: "judge_step url ?j (?db, [Holding sample_row ?ts, Claiming sample_row ?ts]) (?db, [Holding sample_row ?ts, Gone])"
    using judge_step.claim [OF _ _ c2, of 1 "[Holding sample_row ?ts, Claiming sample_row ?ts]" ?ts url ?j] by simp
  show ?thesis
    by (rule judge_reach.more [OF judge_reach.more [OF judge_reach.more [OF judge_reach.more [OF judge_reach.more
      [OF judge_reach.more [OF judge_reach.start s1] s2] s3] s4] s5] s6])
qed

lemma judging_exclusive_witness:
  "\<exists>db ws. judge_reach ''u'' (sample_db, []) (db, ws) \<and> holders 7 ws = 1 \<and>
     (\<exists>r. sub_find 7 (submissions db) = Some r \<and> sb_status r = ''judging'')"
proof (intro exI conjI)
  show "judge_reach ''u'' (sample_db, [])
    (sub_map (\<lambda>r. sb_id r = 7) (\<lambda>r. r\<lparr>sb_status := ''judging''\<rparr>) sample_db,
     [Holding sample_row (ordered_tests sample_db 3), Gone])" by (rule sample_claimed)
  show h: "holders 7 [Holding sample_row (ordered_tests sample_db 3), Gone] = 1"
    by (simp add: holders_def sample_row_def)
  have "distinct (map sb_id (submissions sample_db))" by (simp add: sample_db_def)
  from judging_exclusive [OF this sample_claimed, of 7] h
  have "\<exists>r. sub_find 7 (submissions (sub_map (\<lambda>r. sb_id r = 7) (\<lambda>r. r\<lparr>sb_status := ''judging''\<rparr>) sample_db)) = Some r \<and>
      sb_status r = ''judging''" by blast
  then show "sub_find 7 (submissions (sub_map (\<lambda>r. sb_id r = 7) (\<lambda>r. r\<lparr>sb_status := ''judging''\<rparr>) sample_db)) =
      Some (sample_row\<lparr>sb_status := ''judging''\<rparr>)"
    by (simp add: sample_db_def sample_row_def sub_map_def)
  show "sb_status (sample_row\<lparr>sb_status := ''judging''\<rparr>) = ''judging''" by simp
qed

text \<open>
  C2. What is settled stays. In any interleaving, once a submission has left \<open>queued\<close> and no
  handler holds it, no later call of any handler changes its row. So a final verdict is never
  overwritten; and a row left in \<open>judging\<close>, because the handler that held it lost its last
  database call, is judged by no retry: it stays \<open>judging\<close>.
\<close>

theorem settled_row_is_final:
  assumes "distinct (map sb_id (submissions db0))" "judge_reach url (db0, []) (db, ws)"
    "sub_find i (submissions db) = Some r" "sb_status r \<noteq> ''queued''" "holders i ws = 0"
    "judge_reach url (db, ws) (db', ws')"
  shows "sub_find i (submissions db') = Some r \<and> holders i ws' = 0"
proof -
  have i: "sb_id r = i" using assms(3) by (rule sub_find_id)
  have "judge_inv (db0, [])" using assms(1) by (simp add: judge_inv_def ids_ok_def holders_def)
  then have "judge_inv (db, ws)" by (rule judge_inv_reach [OF assms(2)])
  moreover have "settled r (db, ws)" using assms i by (simp add: settled_def)
  ultimately have "settled r (db', ws')" using settled_reach [OF assms(6)] by blast
  then show ?thesis using i by (simp add: settled_def)
qed

lemma settled_row_is_final_witness:
  "\<exists>db. judge_reach ''u'' (sample_db, []) (db, [Gone, Gone]) \<and>
     (\<forall>db' ws'. judge_reach ''u'' (db, [Gone, Gone]) (db', ws') \<longrightarrow>
        sub_find 7 (submissions db') = Some (sample_row\<lparr>sb_status := ''judging''\<rparr>))"
proof -
  let ?db = "sub_map (\<lambda>r. sb_id r = 7) (\<lambda>r. r\<lparr>sb_status := ''judging''\<rparr>) sample_db"
  let ?j = "\<lambda>_. Inl (plain_error [])"
  have "judge_step ''u'' ?j (?db, [Holding sample_row (ordered_tests sample_db 3), Gone]) (?db, [Gone, Gone])"
    using judge_step.lose [of 0 "[Holding sample_row (ordered_tests sample_db 3), Gone]" "''u''" ?j ?db] by simp
  with sample_claimed have r: "judge_reach ''u'' (sample_db, []) (?db, [Gone, Gone])" by (rule judge_reach.more)
  have d: "distinct (map sb_id (submissions sample_db))" by (simp add: sample_db_def)
  have f: "sub_find 7 (submissions ?db) = Some (sample_row\<lparr>sb_status := ''judging''\<rparr>)"
    by (simp add: sample_db_def sample_row_def sub_map_def)
  have "sub_find 7 (submissions db') = Some (sample_row\<lparr>sb_status := ''judging''\<rparr>)"
    if "judge_reach ''u'' (?db, [Gone, Gone]) (db', ws')" for db' ws'
    using settled_row_is_final [OF d r f _ _ that] by (simp add: holders_def)
  then show ?thesis using r by blast
qed

definition put_terminal :: "nat \<Rightarrow> terminal_update \<Rightarrow> judge_db \<Rightarrow> judge_db" where
  "put_terminal i u = sub_map (\<lambda>r. sb_id r = i)
     (\<lambda>r. r\<lparr>sb_status := tu_status u, sb_runtime := tu_runtime u, sb_error := tu_error u, sb_output := tu_output u\<rparr>)"

lemma write_after_claim:
  assumes "sub_find i (submissions db) = Some r"
  shows "write_terminal i u (sub_map (\<lambda>r. sb_id r = i) (\<lambda>r. r\<lparr>sb_status := ''judging''\<rparr>) db) =
    (Inr (), put_terminal i u db)"
  using assms by (auto simp: write_terminal_def put_terminal_def sub_find_map) (simp add: sub_map_def)

lemma rollback_after_claim:
  assumes "ids_ok db" "sub_find i (submissions db) = Some r" "sb_status r = ''queued''"
  shows "rollback_row i (sub_map (\<lambda>r. sb_id r = i) (\<lambda>r. r\<lparr>sb_status := ''judging''\<rparr>) db) = db"
proof -
  have "sb_status q = ''queued''" if "q \<in> set (submissions db)" "sb_id q = i" for q
    using that assms sub_find_unique [of "submissions db" q] by (auto simp: ids_ok_def)
  then show ?thesis
    by (cases db) (auto simp: rollback_row_def sub_map_def intro!: map_idI)
qed

lemma judging_run:
  assumes "ids_ok db" "sub_find i (submissions db) = Some r" "sb_status r = ''queued''"
  shows "judge_submission url judge i ([], db) =
    (case executeCode url judge (request_of r (ordered_tests db (sb_problem r))) of
       Inr (results, status) \<Rightarrow> (Inr (), ([], put_terminal i (verdict results status) db))
     | Inl (JudgeUnavailable m) \<Rightarrow> (Inl (Judge (JudgeUnavailable m)), ([], db))
     | Inl (Raised e) \<Rightarrow> (Inr (), ([], put_terminal i (crash_update e) db)))"
  using claim_row_hit [OF assms] write_after_claim [OF assms(2)] rollback_after_claim [OF assms] sub_find_id [OF assms(2)]
  by (simp add: judge_submission_def bind_def load_row_def assms conclude_def split: sum.split judge_error.split prod.split)

lemma judged_run:
  assumes "ids_ok db" "sub_find i (submissions db) = Some r" "sb_status r = ''queued''"
    "executeCode url judge (request_of r (ordered_tests db (sb_problem r))) = Inr (results, status)"
  shows "judge_submission url judge i ([], db) = (Inr (), ([], put_terminal i (verdict results status) db))"
  using judging_run [OF assms(1-3), of url judge] assms(4) by simp

text \<open>
  C3. One run of the handler. On a queued submission, when the database answers: a judged run
  records the verdict of the judge's results and completes the job; an unreachable judge
  leaves every table as it was and fails the job, for the queue to retry; any other failure
  of the judge call completes the job with a \<open>runtime_error\<close> verdict.
\<close>

theorem judge_submission_outcome:
  assumes "distinct (map sb_id (submissions db))" "sub_find i (submissions db) = Some r" "sb_status r = ''queued''"
  shows "(result (judge_submission url judge i) [] db, after (judge_submission url judge i) [] db) =
    (case executeCode url judge (request_of r (ordered_tests db (sb_problem r))) of
       Inr (results, status) \<Rightarrow> (Inr (), put_terminal i (verdict results status) db)
     | Inl (JudgeUnavailable m) \<Rightarrow> (Inl (Judge (JudgeUnavailable m)), db)
     | Inl (Raised e) \<Rightarrow> (Inr (), put_terminal i (crash_update e) db))"
proof -
  have "ids_ok db" using assms(1) by (simp add: ids_ok_def)
  then show ?thesis
    by (simp add: judging_run [OF _ assms(2,3)] result_def after_def split: sum.split judge_error.split prod.split)
qed

lemma judge_submission_outcome_witness:
  "let judge = (\<lambda>_. Inl (ErrObj ''TypeError'' ''fetch failed'' None (Some ''ECONNREFUSED''))) in
   after (judge_submission ''http://j'' judge 7) [] sample_db = sample_db \<and>
   result (judge_submission ''http://j'' judge 7) [] sample_db =
     Inl (Judge (JudgeUnavailable ''Judge service is unavailable at http://j: fetch failed''))"
proof -
  have "sub_find 7 (submissions sample_db) = Some sample_row" "sb_status sample_row = ''queued''"
    "distinct (map sb_id (submissions sample_db))"
    by (simp_all add: sample_db_def sample_row_def)
  note judge_submission_outcome [OF this(3,1,2), of "''http://j''"
      "\<lambda>_. Inl (ErrObj ''TypeError'' ''fetch failed'' None (Some ''ECONNREFUSED''))"]
  then show ?thesis by (simp add: executeCode_def Let_def isAbortOrNetworkError_def judgeUnavailableError_def)
qed

text \<open>
  A judge that refuses the request blames the code. When the judge answers with an HTTP
  error, which is how it reports being saturated (503) or rate limiting its caller (429), the handler
  does not let the queue retry: it completes the job and the submission ends in
  \<open>runtime_error\<close>.
\<close>

theorem judge_refusal_is_runtime_error:
  assumes "distinct (map sb_id (submissions db))" "sub_find i (submissions db) = Some r" "sb_status r = ''queued''"
    "judge (request_of r (ordered_tests db (sb_problem r))) = Inr res" "\<not> res_ok res"
  shows "result (judge_submission url judge i) [] db = Inr () \<and>
    status_of i (after (judge_submission url judge i) [] db) = Some ''runtime_error''"
proof -
  have ok: "ids_ok db" using assms(1) by (simp add: ids_ok_def)
  note i = sub_find_id [OF assms(2)]
  let ?e = "plain_error (''Judge returned HTTP '' @ show_nat (res_status res) @ '': '' @
    (case res_text res of None \<Rightarrow> ''<no body>'' | Some t \<Rightarrow> t))"
  have e: "executeCode url judge (request_of r (ordered_tests db (sb_problem r))) = Inl (Raised ?e)"
    using assms(4,5) by (simp add: executeCode_def isAbortOrNetworkError_def plain_error_def)
  have "after (judge_submission url judge i) [] db = put_terminal i (crash_update ?e) db \<and>
      result (judge_submission url judge i) [] db = Inr ()"
    using claim_row_hit [OF ok assms(2,3)] write_after_claim [OF assms(2)]
    by (simp add: judge_submission_def bind_def load_row_def assms(2,3) conclude_def i result_def after_def e)
  then show ?thesis
    using assms(2) i by (simp add: status_of_def put_terminal_def sub_find_map crash_update_def)
qed

lemma judge_refusal_is_runtime_error_witness:
  "let judge = (\<lambda>_. Inr \<lparr>res_ok = False, res_status = 503, res_text = Some ''busy'', res_json = Inr (None, None)\<rparr>)
   in status_of 7 (after (judge_submission ''http://j'' judge 7) [] sample_db) = Some ''runtime_error''"
proof -
  let ?res = "\<lparr>res_ok = False, res_status = 503, res_text = Some ''busy'', res_json = Inr (None, None)\<rparr>"
  have "sub_find 7 (submissions sample_db) = Some sample_row" "sb_status sample_row = ''queued''"
    "distinct (map sb_id (submissions sample_db))"
    by (simp_all add: sample_db_def sample_row_def)
  from judge_refusal_is_runtime_error [OF this(3,1,2), where judge = "\<lambda>_. Inr ?res" and res = ?res and url = "''http://j''"]
  show ?thesis by simp
qed

text \<open>
  The verdict. A submission is accepted exactly when the judge's own status is not one
  of the four trusted ones and every result passed (so an empty list of results is accepted);
  the status is one of seven; the recorded error is the first non-empty one;
  accepted rows keep no output, others the trimmed, non-empty output of the first failing
  result; and the recorded runtime is a nearest integer to the mean.
\<close>

theorem verdict_sound:
  "let u = verdict rs s; n = int (max 1 (length rs));
       total = sum_list (map (\<lambda>r. case tr_runtime r of None \<Rightarrow> 0 | Some t \<Rightarrow> t) rs)
   in (tu_status u = ''accepted'' \<longleftrightarrow> s \<notin> set trusted_judge_statuses \<and> list_all tr_passed rs) \<and>
      tu_status u \<in> {''accepted'', ''wrong_answer'', ''runtime_error'', ''compile_error'',
        ''memory_limit_exceeded'', ''time_limit_exceeded'', ''security_error''} \<and>
      tu_error u = first_error rs \<and> tu_error u \<noteq> Some [] \<and>
      tu_output u = (if tu_status u = ''accepted'' then None else first_output rs) \<and> tu_output u \<noteq> Some [] \<and>
      (\<exists>t. tu_runtime u = Some t \<and> \<bar>2 * n * t - 2 * total\<bar> \<le> n)"
proof -
  have err: "first_error rs \<noteq> Some []"
    by (auto simp: first_error_def truthy_def find_Some_iff split: option.splits)
  have out: "first_output rs \<noteq> Some []"
    by (auto simp: first_output_def or_none_def truthy_def split: option.splits)
  have near: "\<bar>2 * n * ((2 * t + n) div (2 * n)) - 2 * t\<bar> \<le> n" if "0 < n" for n t :: int
  proof -
    have "2 * n * ((2 * t + n) div (2 * n)) + (2 * t + n) mod (2 * n) = 2 * t + n" by simp
    moreover have "0 \<le> (2 * t + n) mod (2 * n)" "(2 * t + n) mod (2 * n) < 2 * n" using that by simp_all
    ultimately show ?thesis by linarith
  qed
  have st: "(classify rs s = ''accepted'' \<longleftrightarrow> s \<notin> set trusted_judge_statuses \<and> list_all tr_passed rs) \<and>
      classify rs s \<in> {''accepted'', ''wrong_answer'', ''runtime_error'', ''compile_error'',
        ''memory_limit_exceeded'', ''time_limit_exceeded'', ''security_error''}"
    by (auto simp: classify_def Let_def trusted_judge_statuses_def)
  have rt: "\<exists>t. Some (avg_runtime rs) = Some t \<and> \<bar>2 * int (max 1 (length rs)) * t -
      2 * sum_list (map (\<lambda>r. case tr_runtime r of None \<Rightarrow> 0 | Some t \<Rightarrow> t) rs)\<bar> \<le> int (max 1 (length rs))"
    using near [of "int (max 1 (length rs))"] by (simp add: Let_def avg_runtime_def)
  show ?thesis
    unfolding verdict_def Let_def terminal_update.simps
    by (intro conjI rt err refl; use st out in \<open>(simp; fail) | (simp, blast) | blast\<close>)
qed

end
