(* ===== verification/DailyChallenge.thy ===== *)
theory DailyChallenge
  imports Effects
begin

section \<open>Daily challenge and streaks\<close>

text \<open>
  \<^verbatim>\<open>src/lib/daily-challenge.ts\<close> and its two routes. A \<^verbatim>\<open>Date\<close> is its time value, the integer
  milliseconds since the epoch; UTC days are the multiples of 86400000. Accepted solves are
  folded into a streak state; the theorem on it is stated against the set of solved days.
\<close>

subsection \<open>Days\<close>

definition day_ms :: int where
  "day_ms = 24 * 60 * 60 * 1000"

definition toUtcDayStart :: "int \<Rightarrow> int" where
  "toUtcDayStart d = d div day_ms * day_ms"

text \<open>\<^verbatim>\<open>Math.round\<close> of a quotient: halves round up.\<close>

definition round_div :: "int \<Rightarrow> int \<Rightarrow> int" where
  "round_div a b = (2 * a + b) div (2 * b)"

definition daysBetweenUtc :: "int \<Rightarrow> int \<Rightarrow> int" where
  "daysBetweenUtc a b = round_div (toUtcDayStart b - toUtcDayStart a) day_ms"

definition isSameUtcDay :: "int \<Rightarrow> int \<Rightarrow> bool" where
  "isSameUtcDay a b \<longleftrightarrow> daysBetweenUtc a b = 0"

text \<open>The number of a day.\<close>

definition day_of :: "int \<Rightarrow> int" where
  "day_of t = t div day_ms"

lemma day_of_start [simp]: "day_of (toUtcDayStart t) = day_of t"
  by (simp add: day_of_def toUtcDayStart_def day_ms_def)

lemma toUtcDayStart_day: "toUtcDayStart t = day_of t * day_ms"
  by (simp add: day_of_def toUtcDayStart_def)

lemma start_idem [simp]: "toUtcDayStart (toUtcDayStart t) = toUtcDayStart t"
  by (simp add: toUtcDayStart_def day_ms_def)

lemma round_div_exact: "0 < b \<Longrightarrow> round_div (a * b) b = a"
proof -
  assume b: "0 < b"
  have "2 * (a * b) + b = b + a * (2 * b)" by (simp add: algebra_simps)
  moreover have "(b + a * (2 * b)) div (2 * b) = a + b div (2 * b)" using b by (intro div_mult_self1) simp
  moreover have "b div (2 * b) = 0" using b by (simp add: div_pos_pos_trivial)
  ultimately show ?thesis by (simp only: round_div_def)
qed

lemma daysBetweenUtc_days: "daysBetweenUtc a b = day_of b - day_of a"
proof -
  have "toUtcDayStart b - toUtcDayStart a = (day_of b - day_of a) * day_ms"
    by (simp add: toUtcDayStart_day algebra_simps)
  then show ?thesis by (simp only: daysBetweenUtc_def) (simp only: round_div_exact day_ms_def)
qed

lemma day_of_mono: "s \<le> t \<Longrightarrow> day_of s \<le> day_of t"
  by (simp add: day_of_def day_ms_def zdiv_mono1)

subsection \<open>Streaks\<close>

record streak_state =
  currentStreak :: int
  longestStreak :: int
  lastSolvedDate :: "int option"

definition no_streak :: streak_state where
  "no_streak = \<lparr>currentStreak = 0, longestStreak = 0, lastSolvedDate = None\<rparr>"

definition applyDailySolve :: "streak_state \<Rightarrow> int \<Rightarrow> streak_state \<times> bool" where
  "applyDailySolve prev solvedAt =
    (let today = toUtcDayStart solvedAt
     in case lastSolvedDate prev of
          None \<Rightarrow> (\<lparr>currentStreak = 1, longestStreak = max 1 (longestStreak prev), lastSolvedDate = Some today\<rparr>, True)
        | Some l \<Rightarrow>
            (let last = toUtcDayStart l; gap = daysBetweenUtc last today
             in if gap = 0 then (prev\<lparr>lastSolvedDate := Some last\<rparr>, False)
                else if gap < 0 then (prev\<lparr>lastSolvedDate := Some last\<rparr>, False)
                else (let nextStreak = (if gap = 1 then currentStreak prev + 1 else 1)
                      in (\<lparr>currentStreak = nextStreak, longestStreak = max (longestStreak prev) nextStreak,
                           lastSolvedDate = Some today\<rparr>, True))))"

definition isStreakActive :: "streak_state \<Rightarrow> int \<Rightarrow> bool" where
  "isStreakActive state now =
    (case lastSolvedDate state of
       None \<Rightarrow> False
     | Some l \<Rightarrow> if currentStreak state \<le> 0 then False
                else (let gap = daysBetweenUtc l now in gap = 0 \<or> gap = 1))"

definition effectiveCurrentStreak :: "streak_state \<Rightarrow> int \<Rightarrow> int" where
  "effectiveCurrentStreak state now = (if isStreakActive state now then currentStreak state else 0)"

text \<open>
  The meaning of a streak state for a set of solved days: the current streak is the
  length of the unbroken run of days that ends on the last one, and the longest is the
  greatest length of any run.
\<close>

definition streak_of :: "int set \<Rightarrow> streak_state \<Rightarrow> bool" where
  "streak_of D st \<longleftrightarrow>
    (case lastSolvedDate st of
       None \<Rightarrow> D = {} \<and> currentStreak st = 0 \<and> longestStreak st = 0
     | Some l \<Rightarrow>
         day_of l \<in> D \<and> (\<forall>d \<in> D. d \<le> day_of l) \<and> 1 \<le> currentStreak st \<and>
         (\<forall>k. 0 \<le> k \<and> k < currentStreak st \<longrightarrow> day_of l - k \<in> D) \<and> day_of l - currentStreak st \<notin> D \<and>
         (\<exists>d. \<forall>k. 0 \<le> k \<and> k < longestStreak st \<longrightarrow> d - k \<in> D) \<and>
         (\<forall>d n. (\<forall>k. 0 \<le> k \<and> k < n \<longrightarrow> d - k \<in> D) \<longrightarrow> n \<le> longestStreak st))"

lemma streak_current_le: "streak_of D st \<Longrightarrow> lastSolvedDate st = Some l \<Longrightarrow> currentStreak st \<le> longestStreak st"
  by (auto simp: streak_of_def)

text \<open>A run that ends on the newest day is the current one extended.\<close>

lemma streak_of_apply:
  assumes "streak_of D st" "\<forall>d \<in> D. d \<le> day_of t"
  shows "streak_of (insert (day_of t) D) (fst (applyDailySolve st t))"
proof (cases "lastSolvedDate st")
  case None
  have "n \<le> 1" if "\<forall>k. 0 \<le> k \<and> k < n \<longrightarrow> d - k = day_of t" for d n :: int
    using that [THEN spec, of 0] that [THEN spec, of 1] by (cases "n \<le> 1") auto
  moreover have "\<exists>d. \<forall>k. 0 \<le> k \<and> k < (1::int) \<longrightarrow> d - k = day_of t" by (rule exI [of _ "day_of t"]) auto
  ultimately show ?thesis using None assms by (auto simp: streak_of_def applyDailySolve_def Let_def)
next
  case (Some l)
  then have inv: "day_of l \<in> D" "\<forall>d \<in> D. d \<le> day_of l" "1 \<le> currentStreak st"
    "\<And>k. 0 \<le> k \<Longrightarrow> k < currentStreak st \<Longrightarrow> day_of l - k \<in> D" "day_of l - currentStreak st \<notin> D"
    "\<exists>d. \<forall>k. 0 \<le> k \<and> k < longestStreak st \<longrightarrow> d - k \<in> D"
    "\<And>d n. \<forall>k. 0 \<le> k \<and> k < n \<longrightarrow> d - k \<in> D \<Longrightarrow> n \<le> longestStreak st"
    using assms(1) by (auto simp: streak_of_def)
  have le: "day_of l \<le> day_of t" using assms(2) inv(1) by blast
  show ?thesis
  proof (cases "day_of t = day_of l")
    case True
    then have "insert (day_of t) D = D" using inv(1) by auto
    moreover have "fst (applyDailySolve st t) = st\<lparr>lastSolvedDate := Some (toUtcDayStart l)\<rparr>"
      using Some True by (simp add: applyDailySolve_def Let_def daysBetweenUtc_days)
    ultimately show ?thesis using assms(1) Some by (simp add: streak_of_def)
  next
    case False
    define c where "c = (if day_of t = day_of l + 1 then currentStreak st + 1 else 1)"
    have ap: "fst (applyDailySolve st t) =
        \<lparr>currentStreak = c, longestStreak = max (longestStreak st) c, lastSolvedDate = Some (toUtcDayStart t)\<rparr>"
      using Some False le by (auto simp: applyDailySolve_def Let_def daysBetweenUtc_days c_def)
    have new: "day_of l < day_of t" using False le by simp
    have c1: "1 \<le> c" using inv(3) by (simp add: c_def)
    have run: "day_of t - k \<in> insert (day_of t) D" if "0 \<le> k" "k < c" for k
      using that inv(4) [of "k - 1"] by (cases "k = 0") (auto simp: c_def algebra_simps split: if_splits)
    have stop: "day_of t - c \<notin> insert (day_of t) D"
      using inv(2,5) new c1 by (force simp: c_def algebra_simps split: if_splits)
    have bound: "n \<le> max (longestStreak st) c"
      if r: "\<forall>k. 0 \<le> k \<and> k < n \<longrightarrow> d - k \<in> insert (day_of t) D" for d n
    proof (cases "n \<le> 0")
      case True
      then show ?thesis using c1 by linarith
    next
      case pos: False
      show ?thesis
      proof (cases "d = day_of t")
        case True
        then have "n \<le> c" using r stop c1 by (meson linorder_not_le order_trans zero_le_one)
        then show ?thesis by simp
      next
        case d: False
        have "d \<in> D" using r [THEN spec, of 0] pos d by auto
        then have "d - k \<noteq> day_of t" if "0 \<le> k" for k using inv(2) new that by force
        then have "\<forall>k. 0 \<le> k \<and> k < n \<longrightarrow> d - k \<in> D" using r by blast
        then show ?thesis using inv(7) by fastforce
      qed
    qed
    have best: "\<exists>d. \<forall>k. 0 \<le> k \<and> k < max (longestStreak st) c \<longrightarrow> d - k \<in> insert (day_of t) D"
    proof (cases "longestStreak st \<le> c")
      case True
      then show ?thesis using run by (intro exI [of _ "day_of t"]) (auto simp: max_def)
    next
      case False
      then show ?thesis using inv(6) by (auto simp: max_def)
    qed
    show ?thesis
      unfolding streak_of_def ap using inv(2) new c1 run stop bound best by (auto simp: less_imp_le)
  qed
qed

subsection \<open>Recording a solve\<close>

record challenge =
  ch_id :: nat
  ch_date :: int
  ch_problemId :: nat
  ch_completionCount :: int

record tag = tag_id :: nat tag_name :: string tag_slug :: string

record problem_card =
  pc_title :: string
  pc_slug :: string
  pc_difficulty :: string
  pc_tags :: "tag list"

record daily_db =
  challenges :: "challenge list"
  streaks :: "(nat, streak_state) jsmap"
  cards :: "(nat, problem_card) jsmap"

text \<open>\<^verbatim>\<open>dailyChallenge.findUnique({ where: { date } })\<close>: the date column is unique.\<close>

definition challenge_on :: "int \<Rightarrow> daily_db \<Rightarrow> challenge option" where
  "challenge_on date db = find (\<lambda>c. ch_date c = date) (challenges db)"

definition stored_streak :: "nat \<Rightarrow> daily_db \<Rightarrow> streak_state" where
  "stored_streak userId db = (case jm_get (streaks db) userId of None \<Rightarrow> no_streak | Some st \<Rightarrow> st)"

definition upsert_streak :: "nat \<Rightarrow> streak_state \<Rightarrow> daily_db \<Rightarrow> daily_db" where
  "upsert_streak userId st db = db\<lparr>streaks := jm_set userId st (streaks db)\<rparr>"

definition count_completion :: "nat \<Rightarrow> daily_db \<Rightarrow> daily_db" where
  "count_completion i db = db\<lparr>challenges := map (\<lambda>c. if ch_id c = i
     then c\<lparr>ch_completionCount := ch_completionCount c + 1\<rparr> else c) (challenges db)\<rparr>"

record daily_outcome = advanced :: bool matchedDailyChallenge :: bool

text \<open>What is done once the solved problem is the day's problem.\<close>

definition record_matched :: "nat \<Rightarrow> int \<Rightarrow> challenge \<Rightarrow> (daily_db, string, daily_outcome) prog" where
  "record_matched userId today c =
    bind (query ''db'' (stored_streak userId)) (\<lambda>prev.
      let (state, adv) = applyDailySolve prev today in
      bind (update ''db'' (upsert_streak userId
        (state\<lparr>lastSolvedDate := Some (case lastSolvedDate state of None \<Rightarrow> today | Some l \<Rightarrow> l)\<rparr>))) (\<lambda>_.
      bind (if adv then update ''db'' (count_completion (ch_id c)) else ret ()) (\<lambda>_.
      ret \<lparr>advanced = adv, matchedDailyChallenge = True\<rparr>)))"

definition recordDailySolveIfApplicable :: "nat \<Rightarrow> nat \<Rightarrow> int \<Rightarrow> (daily_db, string, daily_outcome) prog" where
  "recordDailySolveIfApplicable userId problemId now =
    (let today = toUtcDayStart now in
     bind (query ''db'' (challenge_on today)) (\<lambda>challenge.
       case challenge of
         None \<Rightarrow> ret \<lparr>advanced = False, matchedDailyChallenge = False\<rparr>
       | Some c \<Rightarrow>
           if ch_problemId c \<noteq> problemId then ret \<lparr>advanced = False, matchedDailyChallenge = False\<rparr>
           else record_matched userId today c))"

subsection \<open>The routes\<close>

record streak_response =
  sr_currentStreak :: int
  sr_longestStreak :: int
  sr_lastSolvedDate :: "int option"
  sr_active :: bool
  sr_solvedToday :: bool

record challenge_view =
  cv_id :: nat
  cv_date :: int
  cv_completionCount :: int
  cv_problemId :: nat
  cv_problem :: "problem_card option"

definition view_challenge :: "daily_db \<Rightarrow> challenge \<Rightarrow> challenge_view" where
  "view_challenge db c = \<lparr>cv_id = ch_id c, cv_date = ch_date c, cv_completionCount = ch_completionCount c,
     cv_problemId = ch_problemId c, cv_problem = jm_get (cards db) (ch_problemId c)\<rparr>"

text \<open>
  \<^verbatim>\<open>GET /api/daily-challenge\<close>: today's challenge, the caller's streak if there is a
  session, and the \<^verbatim>\<open>Cache-Control\<close> header. \<open>session\<close> is what \<^verbatim>\<open>getSession\<close> gave; the clock
  is read twice, at \<open>now1\<close> and \<open>now2\<close>.
\<close>

definition daily_challenge_GET ::
  "nat option \<Rightarrow> int \<Rightarrow> int \<Rightarrow> (daily_db, string, (challenge_view option \<times> streak_response option \<times> string) reply) prog" where
  "daily_challenge_GET session now1 now2 =
    (let today = toUtcDayStart now1 in
     catch
      (bind (query ''db'' (\<lambda>db. map_option (view_challenge db) (challenge_on today db))) (\<lambda>challenge.
       bind (case session of
           None \<Rightarrow> ret None
         | Some userId \<Rightarrow>
             bind (query ''db'' (stored_streak userId)) (\<lambda>state. ret (Some
               \<lparr>sr_currentStreak = effectiveCurrentStreak state now2,
                sr_longestStreak = longestStreak state,
                sr_lastSolvedDate = lastSolvedDate state,
                sr_active = isStreakActive state now2,
                sr_solvedToday = (case lastSolvedDate state of None \<Rightarrow> False | Some l \<Rightarrow> toUtcDayStart l = today)\<rparr>)))
         (\<lambda>streak. ret (Reply 200 (challenge, streak,
           if session \<noteq> None then ''no-store'' else ''public, max-age=60, stale-while-revalidate=300'')))))
      (\<lambda>_. ret (Failed 500 ''Internal server error'')))"

text \<open>\<^verbatim>\<open>GET /api/daily-challenge/history?days=N\<close>, newest first.\<close>

definition history_days :: "string option \<Rightarrow> int" where
  "history_days p =
    (case parse_int (case p of None \<Rightarrow> ''30'' | Some s \<Rightarrow> s) of
       NaN \<Rightarrow> 30
     | Fin raw \<Rightarrow> min 90 (max 1 raw))"

definition newer :: "challenge \<Rightarrow> challenge \<Rightarrow> bool" where
  "newer a b \<longleftrightarrow> ch_date a \<ge> ch_date b"

definition daily_history_GET ::
  "string option \<Rightarrow> int \<Rightarrow> (daily_db, string, (challenge_view list \<times> int) reply) prog" where
  "daily_history_GET p now =
    (let days = history_days p; today = toUtcDayStart now; start = today - (days - 1) * day_ms in
     catch
      (bind (query ''db'' (\<lambda>db. map (view_challenge db)
         (sort_by newer (filter (\<lambda>c. start \<le> ch_date c \<and> ch_date c \<le> today) (challenges db)))))
       (\<lambda>rows. ret (Reply 200 (rows, days))))
      (\<lambda>_. ret (Failed 500 ''Internal server error'')))"

interpretation newest_first: comparator newer UNIV
  by unfold_locales (auto simp: newer_def)

subsection \<open>Properties\<close>

fun solve_all :: "int list \<Rightarrow> streak_state \<Rightarrow> streak_state" where
  "solve_all [] st = st"
| "solve_all (t # ts) st = solve_all ts (fst (applyDailySolve st t))"

lemma streak_of_solves:
  "streak_of D st \<Longrightarrow> \<forall>d \<in> D. \<forall>t \<in> set ts. d \<le> day_of t \<Longrightarrow> sorted ts \<Longrightarrow>
    streak_of (D \<union> day_of ` set ts) (solve_all ts st)"
proof (induction ts arbitrary: D st)
  case (Cons t ts)
  have "streak_of (insert (day_of t) D) (fst (applyDailySolve st t))"
    using Cons.prems by (intro streak_of_apply) auto
  then have "streak_of (insert (day_of t) D \<union> day_of ` set ts) (solve_all ts (fst (applyDailySolve st t)))"
    using Cons.prems by (intro Cons.IH) (auto intro: day_of_mono)
  then show ?case by simp
qed simp

lemma solves_append: "solve_all (ts @ us) st = solve_all us (solve_all ts st)"
  by (induction ts arbitrary: st) simp_all

lemma apply_starts: "lastSolvedDate (fst (applyDailySolve st t)) = Some l \<Longrightarrow> toUtcDayStart l = l"
  by (auto simp: applyDailySolve_def Let_def split: option.splits if_splits)

text \<open>
  C13. Streaks count consecutive days. After any sequence of solves in the order of the
  clock, however many fall on one day, the current streak is the length of the unbroken run of
  solved UTC days that ends on the day of the last solve, and the longest streak is the
  length of the longest run of solved days.
\<close>

theorem streak_counts_consecutive_days:
  assumes "sorted (ts @ [t])"
  defines "st \<equiv> solve_all (ts @ [t]) no_streak" and "D \<equiv> day_of ` set (ts @ [t])"
  shows "lastSolvedDate st = Some (toUtcDayStart t) \<and>
    (\<forall>k. 0 \<le> k \<and> k < currentStreak st \<longrightarrow> day_of t - k \<in> D) \<and> day_of t - currentStreak st \<notin> D \<and>
    (\<exists>d. \<forall>k. 0 \<le> k \<and> k < longestStreak st \<longrightarrow> d - k \<in> D) \<and>
    (\<forall>d n. (\<forall>k. 0 \<le> k \<and> k < n \<longrightarrow> d - k \<in> D) \<longrightarrow> n \<le> longestStreak st)"
proof -
  have "streak_of ({} \<union> day_of ` set (ts @ [t])) st"
    unfolding st_def using assms(1) by (intro streak_of_solves) (simp_all add: streak_of_def no_streak_def)
  then have s: "streak_of D st" by (simp add: D_def)
  moreover have "day_of t \<in> D" by (simp add: D_def)
  ultimately obtain l where l: "lastSolvedDate st = Some l" by (cases "lastSolvedDate st") (auto simp: streak_of_def)
  have mx: "\<forall>d \<in> D. d \<le> day_of t" using assms(1) by (auto simp: D_def sorted_append intro: day_of_mono)
  have dl: "day_of l = day_of t" using s l mx \<open>day_of t \<in> D\<close> by (force simp: streak_of_def)
  have "toUtcDayStart l = l" using l apply_starts [of "solve_all ts no_streak" t]
    by (simp add: st_def solves_append)
  then have "l = toUtcDayStart t" using dl by (simp add: toUtcDayStart_day)
  then show ?thesis using s l dl by (simp add: streak_of_def)
qed

lemma streak_counts_consecutive_days_witness:
  "let st = solve_all [5, 86400007, 86400009, 4 * 86400000, 5 * 86400000, 6 * 86400000] no_streak
   in currentStreak st = 3 \<and> longestStreak st = 3 \<and> lastSolvedDate st = Some (6 * 86400000)"
proof -
  have "sorted ([5, 86400007, 86400009, 4 * 86400000, 5 * 86400000] @ [6 * 86400000 :: int])" by simp
  from streak_counts_consecutive_days [OF this]
  have "lastSolvedDate (solve_all ([5, 86400007, 86400009, 4 * 86400000, 5 * 86400000] @ [6 * 86400000]) no_streak) =
      Some (toUtcDayStart (6 * 86400000))" by blast
  moreover have "currentStreak (solve_all [5, 86400007, 86400009, 4 * 86400000, 5 * 86400000, 6 * 86400000] no_streak) = 3 \<and>
      longestStreak (solve_all [5, 86400007, 86400009, 4 * 86400000, 5 * 86400000, 6 * 86400000] no_streak) = 3"
    by code_simp
  ultimately show ?thesis by (simp add: Let_def toUtcDayStart_def day_ms_def)
qed

lemma apply_some: "\<exists>l. lastSolvedDate (fst (applyDailySolve st t)) = Some l"
  by (auto simp: applyDailySolve_def Let_def split: option.split)

lemma apply_twice:
  "applyDailySolve (fst (applyDailySolve st t)) t = (fst (applyDailySolve st t), False)"
proof (cases "lastSolvedDate st")
  case None
  then show ?thesis by (simp add: applyDailySolve_def Let_def daysBetweenUtc_days)
next
  case (Some l)
  consider "day_of t = day_of l" | "day_of t < day_of l" | "day_of l < day_of t" by linarith
  then show ?thesis
    by cases (simp_all add: applyDailySolve_def Let_def daysBetweenUtc_days Some)
qed

lemma set_last_same: "lastSolvedDate st = Some l \<Longrightarrow>
    st\<lparr>lastSolvedDate := Some (case lastSolvedDate st of None \<Rightarrow> d | Some x \<Rightarrow> x)\<rparr> = st"
  by simp

lemma set_last_some: "lastSolvedDate st = Some l \<Longrightarrow> st\<lparr>lastSolvedDate := Some l\<rparr> = st"
  by simp

lemma challenge_on_count:
  "challenge_on d (count_completion i db) =
    map_option (\<lambda>c. if ch_id c = i then c\<lparr>ch_completionCount := ch_completionCount c + 1\<rparr> else c) (challenge_on d db)"
proof -
  have "find (\<lambda>c. ch_date c = d) (map (\<lambda>c. if ch_id c = i then c\<lparr>ch_completionCount := ch_completionCount c + 1\<rparr> else c) cs) =
    map_option (\<lambda>c. if ch_id c = i then c\<lparr>ch_completionCount := ch_completionCount c + 1\<rparr> else c) (find (\<lambda>c. ch_date c = d) cs)" for cs
    by (induction cs) auto
  then show ?thesis by (simp add: challenge_on_def count_completion_def)
qed

lemma challenge_on_upsert [simp]: "challenge_on d (upsert_streak u st db) = challenge_on d db"
  by (simp add: challenge_on_def upsert_streak_def)

lemma stored_upsert [simp]: "stored_streak v (upsert_streak u st db) = (if v = u then st else stored_streak v db)"
  by (simp add: stored_streak_def upsert_streak_def jm_get_set)

lemma stored_count [simp]: "stored_streak v (count_completion i db) = stored_streak v db"
  by (simp add: stored_streak_def count_completion_def)

lemma upsert_again: "jm_get (streaks db) u = Some st \<Longrightarrow> upsert_streak u st db = db"
  by (simp add: upsert_streak_def jm_set_same)

lemma record_matched_Inr:
  assumes "record_matched u d c w = (Inr out, w')"
  defines "st \<equiv> fst (applyDailySolve (stored_streak u (snd w)) d)"
    and "adv \<equiv> snd (applyDailySolve (stored_streak u (snd w)) d)"
  shows "advanced out = adv \<and>
    snd w' = (if adv then count_completion (ch_id c) (upsert_streak u st (snd w)) else upsert_streak u st (snd w))"
proof -
  obtain l where l: "lastSolvedDate st = Some l" using apply_some st_def by blast
  obtain prev w1 where q: "query ''db'' (stored_streak u) w = (Inr prev, w1)"
    and k: "(let (state, adv) = applyDailySolve prev d in
      bind (update ''db'' (upsert_streak u
        (state\<lparr>lastSolvedDate := Some (case lastSolvedDate state of None \<Rightarrow> d | Some l \<Rightarrow> l)\<rparr>))) (\<lambda>_.
      bind (if adv then update ''db'' (count_completion (ch_id c)) else ret ()) (\<lambda>_.
      ret \<lparr>advanced = adv, matchedDailyChallenge = True\<rparr>))) w1 = (Inr out, w')"
    using assms(1) by (auto simp: record_matched_def bind_Inr)
  have "prev = stored_streak u (snd w)" "snd w1 = snd w" using query_Inr [OF q] by simp_all
  moreover have "applyDailySolve (stored_streak u (snd w)) d = (st, adv)" by (simp add: st_def adv_def)
  ultimately show ?thesis
    using k by (auto simp: bind_Inr set_last_same [OF l] dest!: update_Inr split: if_splits)
qed

text \<open>
  A solve is recorded once a day. When recording a solve of the day's problem has
  completed, whatever happened before it: recording it again on the same UTC day reports no
  advance and changes nothing; no other user's streak was touched; and the completion
  counter of the day's challenge moved by one if the streak advanced and not at all otherwise.
\<close>

theorem daily_solve_recorded_once:
  assumes "recordDailySolveIfApplicable u p now (fs, db) = (Inr out, (gs, db'))" "matchedDailyChallenge out"
    "isSameUtcDay now now'"
  shows "recordDailySolveIfApplicable u p now' ([], db') = (Inr \<lparr>advanced = False, matchedDailyChallenge = True\<rparr>, ([], db')) \<and>
    (\<forall>v. v \<noteq> u \<longrightarrow> stored_streak v db' = stored_streak v db) \<and>
    map_option ch_completionCount (challenge_on (toUtcDayStart now) db') =
      map_option (\<lambda>c. ch_completionCount c + (if advanced out then 1 else 0)) (challenge_on (toUtcDayStart now) db)"
proof -
  let ?d = "toUtcDayStart now"
  have d: "toUtcDayStart now' = ?d"
    using assms(3) by (simp add: isSameUtcDay_def daysBetweenUtc_days toUtcDayStart_day)
  obtain ch w1 where q: "query ''db'' (challenge_on ?d) (fs, db) = (Inr ch, w1)"
    and k: "(case ch of None \<Rightarrow> ret \<lparr>advanced = False, matchedDailyChallenge = False\<rparr>
      | Some c \<Rightarrow> if ch_problemId c \<noteq> p then ret \<lparr>advanced = False, matchedDailyChallenge = False\<rparr>
          else record_matched u ?d c) w1 = (Inr out, (gs, db'))"
    using assms(1) by (auto simp: recordDailySolveIfApplicable_def Let_def bind_Inr)
  have w1: "ch = challenge_on ?d db" "snd w1 = db" using query_Inr [OF q] by simp_all
  obtain c where c: "challenge_on ?d db = Some c" "ch_problemId c = p" and m: "record_matched u ?d c w1 = (Inr out, (gs, db'))"
    using k w1 assms(2) by (auto split: option.splits if_splits)
  let ?st = "fst (applyDailySolve (stored_streak u db) ?d)" and ?adv = "snd (applyDailySolve (stored_streak u db) ?d)"
  obtain l where l: "lastSolvedDate ?st = Some l" using apply_some by blast
  have "advanced out = ?adv \<and> db' = (if ?adv then count_completion (ch_id c) (upsert_streak u ?st db) else upsert_streak u ?st db)"
    using record_matched_Inr [OF m] w1 by simp
  then have out: "advanced out = ?adv" and db': "db' = (if ?adv then count_completion (ch_id c) (upsert_streak u ?st db) else upsert_streak u ?st db)"
    by simp_all
  have stored: "stored_streak u db' = ?st" by (simp add: db')
  have "jm_get (streaks db') u = Some ?st" by (simp add: db' upsert_streak_def count_completion_def jm_get_set)
  then have again: "upsert_streak u ?st db' = db'" by (rule upsert_again)
  obtain c' where c': "challenge_on ?d db' = Some c'" "ch_problemId c' = p"
    "ch_completionCount c' = ch_completionCount c + (if ?adv then 1 else 0)"
    using c by (cases ?adv) (auto simp: db' challenge_on_count)
  have "recordDailySolveIfApplicable u p now' ([], db') = (Inr \<lparr>advanced = False, matchedDailyChallenge = True\<rparr>, ([], db'))"
    using c' l again apply_twice [of "stored_streak u db" ?d]
    by (simp add: recordDailySolveIfApplicable_def record_matched_def bind_def Let_def d stored set_last_some)
  then show ?thesis using c c' out by (simp add: db')
qed

definition sample_daily :: daily_db where
  "sample_daily = \<lparr>challenges = [\<lparr>ch_id = 1, ch_date = 0, ch_problemId = 9, ch_completionCount = 4\<rparr>],
     streaks = [(2, \<lparr>currentStreak = 3, longestStreak = 5, lastSolvedDate = Some (- 86400000)\<rparr>)], cards = []\<rparr>"

lemma daily_solve_recorded_once_witness:
  "let db' = after (recordDailySolveIfApplicable 2 9 50) [] sample_daily in
   currentStreak (stored_streak 2 db') = 4 \<and>
   recordDailySolveIfApplicable 2 9 86399999 ([], db') =
     (Inr \<lparr>advanced = False, matchedDailyChallenge = True\<rparr>, ([], db'))"
proof -
  let ?db = "after (recordDailySolveIfApplicable 2 9 50) [] sample_daily"
  have run: "recordDailySolveIfApplicable 2 9 50 ([], sample_daily) =
      (Inr \<lparr>advanced = True, matchedDailyChallenge = True\<rparr>, ([], ?db))"
    and four: "currentStreak (stored_streak 2 ?db) = 4"
    by (simp_all add: recordDailySolveIfApplicable_def record_matched_def bind_def after_def sample_daily_def challenge_on_def
        toUtcDayStart_def day_ms_def Let_def stored_streak_def applyDailySolve_def daysBetweenUtc_def round_div_def
        upsert_streak_def count_completion_def)
  from daily_solve_recorded_once [OF run, of 86399999] four show ?thesis
    by (simp add: isSameUtcDay_def daysBetweenUtc_def toUtcDayStart_def day_ms_def round_div_def)
qed

end
