(* ===== verification/Achievements.thy ===== *)
theory Achievements
  imports Judge DailyChallenge
begin

section \<open>Achievements\<close>

text \<open>
  The evaluation engine (\<^verbatim>\<open>src/lib/achievements.ts\<close>) and the two routes that list badges
  (\<^verbatim>\<open>src/app/api/achievements/route.ts\<close>, \<^verbatim>\<open>src/app/api/users/[username]/achievements/route.ts\<close>).
  A criterion read from the JSON column that has none of the known types is \<open>Unknown\<close>: the
  evaluator's \<^verbatim>\<open>switch\<close> then returns nothing and destructuring it throws.
\<close>

subsection \<open>Tables\<close>

datatype difficulty = Easy | Medium | Hard

datatype criteria =
    FirstSolution
  | ProblemsSolved int
  | DifficultyMaster difficulty int
  | Polyglot int
  | SpeedDemon int
  | CurrentStreak int
  | LongestStreak int
  | RatingThreshold int
  | ContestParticipated int
  | ContestTopRank int
  | LeaderboardTopN int
  | DiscussionPosted int
  | Unknown

record achievement =
  ac_id :: nat
  ac_slug :: string
  ac_title :: string
  ac_description :: string
  ac_icon :: string
  ac_category :: string
  ac_points :: int
  ac_criteria :: criteria
  ac_isHidden :: bool

record user_achievement =
  ua_earnedAt :: int
  ua_progress :: int

record user_row =
  us_id :: nat
  us_username :: string
  us_rating :: int

record ach_db =
  ad_users :: "user_row list"
  ad_submissions :: "submission list"
  ad_difficulty :: "(nat, string) jsmap"
  ad_streaks :: "(nat, streak_state) jsmap"
  ad_entries :: "(nat \<times> int option) list"
  ad_discussions :: "nat list"
  ad_catalog :: "achievement list"
  ad_earned :: "(nat \<times> nat, user_achievement) jsmap"

record award =
  aw_slug :: string
  aw_title :: string
  aw_icon :: string
  aw_points :: int

record user_stats =
  totalAccepted :: int
  uniqueSolved :: int
  byEasy :: int
  byMedium :: int
  byHard :: int
  uniqueLanguages :: int
  fastestRuntime :: "int option"
  st_currentStreak :: int
  st_longestStreak :: int
  st_rating :: int
  contestEntries :: int
  bestRank :: "int option"
  leaderboardRank :: "int option"
  discussionPosts :: int

subsection \<open>Gathering the counts\<close>

definition accepted_of :: "nat \<Rightarrow> ach_db \<Rightarrow> submission list" where
  "accepted_of userId db = filter (\<lambda>s. sb_user s = userId \<and> sb_status s = ''accepted'') (ad_submissions db)"

text \<open>\<^verbatim>\<open>distinct\<close> keeps one row per value; \<^verbatim>\<open>findFirst\<close> in ascending order gives the least value.\<close>

definition solved_problems :: "nat \<Rightarrow> ach_db \<Rightarrow> nat list" where
  "solved_problems userId db = remdups (map sb_problem (accepted_of userId db))"

definition difficulties :: "nat \<Rightarrow> ach_db \<Rightarrow> string list" where
  "difficulties userId db = map (\<lambda>p. map lower_char (case jm_get (ad_difficulty db) p of None \<Rightarrow> [] | Some d \<Rightarrow> d))
     (solved_problems userId db)"

definition least_of :: "int list \<Rightarrow> int option" where
  "least_of xs = (case xs of [] \<Rightarrow> None | x # ys \<Rightarrow> Some (fold min ys x))"

definition somes :: "'a option list \<Rightarrow> 'a list" where
  "somes xs = map the (filter (\<lambda>x. x \<noteq> None) xs)"

definition count_eq :: "'a \<Rightarrow> 'a list \<Rightarrow> int" where
  "count_eq x xs = int (length (filter (\<lambda>y. y = x) xs))"

definition gatherStats :: "nat \<Rightarrow> (ach_db, string, user_stats option) prog" where
  "gatherStats userId =
    bind (query ''db'' (\<lambda>db. find (\<lambda>u. us_id u = userId) (ad_users db))) (\<lambda>user.
      case user of
        None \<Rightarrow> ret None
      | Some u \<Rightarrow>
          bind (query ''db'' (\<lambda>db. int (length (accepted_of userId db)))) (\<lambda>total.
          bind (query ''db'' (difficulties userId)) (\<lambda>ds.
          bind (query ''db'' (\<lambda>db. int (length (remdups (map sb_language (accepted_of userId db)))))) (\<lambda>langs.
          bind (query ''db'' (\<lambda>db. least_of (somes (map sb_runtime (accepted_of userId db))))) (\<lambda>fastest.
          bind (query ''db'' (\<lambda>db. jm_get (ad_streaks db) userId)) (\<lambda>streak.
          bind (query ''db'' (\<lambda>db. int (length (filter (\<lambda>e. fst e = userId) (ad_entries db))))) (\<lambda>entries.
          bind (query ''db'' (\<lambda>db. least_of (somes (map snd (filter (\<lambda>e. fst e = userId) (ad_entries db)))))) (\<lambda>best.
          bind (query ''db'' (\<lambda>db. int (length (filter (\<lambda>v. us_rating v > us_rating u) (ad_users db))) + 1)) (\<lambda>rank.
          bind (query ''db'' (\<lambda>db. count_eq userId (ad_discussions db))) (\<lambda>posts.
          ret (Some \<lparr>totalAccepted = total, uniqueSolved = int (length ds),
            byEasy = count_eq ''easy'' ds, byMedium = count_eq ''medium'' ds, byHard = count_eq ''hard'' ds,
            uniqueLanguages = langs, fastestRuntime = fastest,
            st_currentStreak = (case streak of None \<Rightarrow> 0 | Some s \<Rightarrow> currentStreak s),
            st_longestStreak = (case streak of None \<Rightarrow> 0 | Some s \<Rightarrow> longestStreak s),
            st_rating = us_rating u, contestEntries = entries, bestRank = best,
            leaderboardRank = Some rank, discussionPosts = posts\<rparr>)))))))))))"

subsection \<open>Criteria\<close>

definition reaches :: "int \<Rightarrow> int \<Rightarrow> bool \<times> int" where
  "reaches n threshold = (n \<ge> threshold, min n threshold)"

definition within_top :: "int option \<Rightarrow> int \<Rightarrow> bool \<times> int" where
  "within_top n bound = (case n of None \<Rightarrow> (False, 0) | Some k \<Rightarrow> (k \<le> bound, k))"

fun evaluateCriteria :: "criteria \<Rightarrow> user_stats \<Rightarrow> (bool \<times> int) option" where
  "evaluateCriteria FirstSolution s = Some (totalAccepted s \<ge> 1, totalAccepted s)"
| "evaluateCriteria (ProblemsSolved t) s = Some (reaches (uniqueSolved s) t)"
| "evaluateCriteria (DifficultyMaster d t) s =
    Some (reaches (case d of Easy \<Rightarrow> byEasy s | Medium \<Rightarrow> byMedium s | Hard \<Rightarrow> byHard s) t)"
| "evaluateCriteria (Polyglot t) s = Some (reaches (uniqueLanguages s) t)"
| "evaluateCriteria (SpeedDemon m) s = Some (within_top (fastestRuntime s) m)"
| "evaluateCriteria (CurrentStreak t) s = Some (reaches (st_currentStreak s) t)"
| "evaluateCriteria (LongestStreak t) s = Some (reaches (st_longestStreak s) t)"
| "evaluateCriteria (RatingThreshold t) s = Some (reaches (st_rating s) t)"
| "evaluateCriteria (ContestParticipated t) s = Some (reaches (contestEntries s) t)"
| "evaluateCriteria (ContestTopRank t) s = Some (within_top (bestRank s) t)"
| "evaluateCriteria (LeaderboardTopN t) s = Some (within_top (leaderboardRank s) t)"
| "evaluateCriteria (DiscussionPosted t) s = Some (reaches (discussionPosts s) t)"
| "evaluateCriteria Unknown s = None"

subsection \<open>Evaluation\<close>

text \<open>\<^verbatim>\<open>userAchievement.upsert\<close>: an update sets the progress only.\<close>

definition upsert_row :: "nat \<Rightarrow> nat \<Rightarrow> int \<Rightarrow> int \<Rightarrow> ach_db \<Rightarrow> ach_db" where
  "upsert_row userId a earnedAt progress db =
    db\<lparr>ad_earned := jm_set (userId, a)
      (case jm_get (ad_earned db) (userId, a) of
         None \<Rightarrow> \<lparr>ua_earnedAt = earnedAt, ua_progress = progress\<rparr>
       | Some r \<Rightarrow> r\<lparr>ua_progress := progress\<rparr>) (ad_earned db)\<rparr>"

definition award_of :: "achievement \<Rightarrow> award" where
  "award_of a = \<lparr>aw_slug = ac_slug a, aw_title = ac_title a, aw_icon = ac_icon a, aw_points = ac_points a\<rparr>"

fun award_loop ::
  "nat \<Rightarrow> int \<Rightarrow> user_stats \<Rightarrow> nat list \<Rightarrow> achievement list \<Rightarrow> award list \<Rightarrow> (ach_db, string, award list) prog" where
  "award_loop userId now stats earnedIds [] newlyAwarded = ret newlyAwarded"
| "award_loop userId now stats earnedIds (a # as) newlyAwarded =
    (case evaluateCriteria (ac_criteria a) stats of
       None \<Rightarrow> throw ''TypeError''
     | Some (earned, progress) \<Rightarrow>
         if earned \<and> ac_id a \<notin> set earnedIds then
           bind (update ''db'' (upsert_row userId (ac_id a) now progress)) (\<lambda>_.
             award_loop userId now stats earnedIds as (newlyAwarded @ [award_of a]))
         else if \<not> earned then
           bind (catch (update ''db'' (upsert_row userId (ac_id a) 0 progress)) (\<lambda>_. ret ())) (\<lambda>_.
             award_loop userId now stats earnedIds as newlyAwarded)
         else award_loop userId now stats earnedIds as newlyAwarded)"

definition rows_of :: "nat \<Rightarrow> ach_db \<Rightarrow> (nat \<times> user_achievement) list" where
  "rows_of userId db = map (\<lambda>((u, a), r). (a, r)) (filter (\<lambda>((u, a), r). u = userId) (ad_earned db))"

definition evaluateAchievements :: "nat \<Rightarrow> int \<Rightarrow> (ach_db, string, award list) prog" where
  "evaluateAchievements userId now =
    catch
      (bind (gatherStats userId) (\<lambda>stats.
        case stats of
          None \<Rightarrow> ret []
        | Some st \<Rightarrow>
            bind (query ''db'' ad_catalog) (\<lambda>allAchievements.
            bind (query ''db'' (rows_of userId)) (\<lambda>alreadyEarned.
            award_loop userId now st (map fst alreadyEarned) allAchievements []))))
      (\<lambda>_. ret [])"

subsection \<open>The routes\<close>

record badge_item =
  bi_achievement :: achievement
  bi_earned :: bool
  bi_earnedAt :: "int option"
  bi_progress :: int

text \<open>\<open>coll\<close> is the database's order of the category column.\<close>

definition catalog_le :: "(string \<Rightarrow> string \<Rightarrow> bool) \<Rightarrow> achievement \<Rightarrow> achievement \<Rightarrow> bool" where
  "catalog_le coll a b \<longleftrightarrow>
    (if coll (ac_category a) (ac_category b) \<and> coll (ac_category b) (ac_category a)
     then ac_points a \<le> ac_points b else coll (ac_category a) (ac_category b))"

definition badge_items :: "achievement list \<Rightarrow> (nat \<times> user_achievement) list \<Rightarrow> badge_item list" where
  "badge_items as userRows =
    (let earnedMap = fold (\<lambda>(a, r). jm_set a
           (if ua_earnedAt r = 0 then None else Some (ua_earnedAt r), ua_progress r)) userRows []
     in map (\<lambda>a. let u = jm_get earnedMap (ac_id a)
               in \<lparr>bi_achievement = a,
                   bi_earned = (case u of None \<Rightarrow> False | Some (e, p) \<Rightarrow> e \<noteq> None),
                   bi_earnedAt = (case u of None \<Rightarrow> None | Some (e, p) \<Rightarrow> e),
                   bi_progress = (case u of None \<Rightarrow> 0 | Some (e, p) \<Rightarrow> p)\<rparr>)
         (filter (\<lambda>a. \<not> ac_isHidden a \<or> jm_get earnedMap (ac_id a) \<noteq> None) as))"

definition achievements_GET ::
  "(string \<Rightarrow> string \<Rightarrow> bool) \<Rightarrow> nat option \<Rightarrow> (ach_db, string, (badge_item list \<times> (int \<times> int) \<times> nat) reply) prog" where
  "achievements_GET coll session =
    catch
      (bind (query ''db'' (\<lambda>db. sort_by (catalog_le coll) (ad_catalog db))) (\<lambda>achievements.
       bind (case session of None \<Rightarrow> ret [] | Some userId \<Rightarrow> query ''db'' (rows_of userId)) (\<lambda>userRows.
       let items = badge_items achievements userRows;
           totals = fold (\<lambda>i (n, p). if bi_earned i then (n + 1, p + ac_points (bi_achievement i)) else (n, p)) items (0, 0)
       in ret (Reply 200 (items, totals, length items)))))
      (\<lambda>_. ret (Failed 500 ''Failed to load achievements''))"

definition latest_first :: "(achievement \<times> user_achievement) \<Rightarrow> (achievement \<times> user_achievement) \<Rightarrow> bool" where
  "latest_first x y \<longleftrightarrow> ua_earnedAt (snd x) \<ge> ua_earnedAt (snd y)"

text \<open>The rows of a user with their achievements, in descending order of \<^verbatim>\<open>earnedAt\<close>.\<close>

definition earned_rows :: "nat \<Rightarrow> ach_db \<Rightarrow> (achievement \<times> user_achievement) list" where
  "earned_rows userId db =
    sort_by latest_first
      (concat (map (\<lambda>(a, r). case find (\<lambda>x. ac_id x = a) (ad_catalog db) of None \<Rightarrow> [] | Some x \<Rightarrow> [(x, r)])
        (filter (\<lambda>(a, r). ua_earnedAt r \<noteq> 0) (rows_of userId db))))"

definition user_achievements_GET ::
  "string \<Rightarrow> (ach_db, string, ((achievement \<times> int) list \<times> nat \<times> int) reply) prog" where
  "user_achievements_GET username =
    catch
      (bind (query ''db'' (\<lambda>db. find (\<lambda>u. us_username u = username) (ad_users db))) (\<lambda>user.
        case user of
          None \<Rightarrow> ret (Failed 404 ''User not found'')
        | Some u \<Rightarrow>
            bind (query ''db'' (earned_rows (us_id u))) (\<lambda>rows.
            let items = map (\<lambda>(a, r). (a, ua_earnedAt r))
                  (filter (\<lambda>(a, r). \<not> ac_isHidden a \<or> ua_earnedAt r \<noteq> 0) rows)
            in ret (Reply 200 (items, length items, sum_list (map (\<lambda>(a, e). ac_points a) items))))))
      (\<lambda>_. ret (Failed 500 ''Failed to load user achievements''))"

interpretation newest_badge: comparator latest_first UNIV
  by unfold_locales (auto simp: latest_first_def)

subsection \<open>How evaluations move the table\<close>

text \<open>
  An evaluation only adds rows for its user and changes the progress of rows: what a row says
  of when the badge was earned never changes, and the other tables stay.
\<close>

definition ach_moves :: "ach_db \<Rightarrow> ach_db \<Rightarrow> bool" where
  "ach_moves s t \<longleftrightarrow>
    (\<exists>m. t = s\<lparr>ad_earned := m\<rparr>) \<and>
    (\<forall>k r. jm_get (ad_earned s) k = Some r \<longrightarrow>
       (\<exists>r'. jm_get (ad_earned t) k = Some r' \<and> ua_earnedAt r' = ua_earnedAt r)) \<and>
    (jm_ok (ad_earned s) \<longrightarrow> jm_ok (ad_earned t))"

interpretation ach: evolution ach_moves
proof
  show "ach_moves s s" for s by (auto simp: ach_moves_def intro: exI [of _ "ad_earned s"])
  show "ach_moves s u" if "ach_moves s t" "ach_moves t u" for s t u
    using that by (fastforce simp: ach_moves_def)
qed

lemma ach_moves_upsert: "ach_moves s (upsert_row u a e p s)"
  by (auto simp: ach_moves_def upsert_row_def jm_get_set jm_ok_set split: option.split)

lemma moves_award_loop: "moves ach_moves (award_loop u now st ids as acc)"
  by (induction as arbitrary: acc)
    (auto intro!: ach.moves_rules ach_moves_upsert split: option.split)

lemma moves_evaluate: "moves ach_moves (evaluateAchievements u now)"
  unfolding evaluateAchievements_def gatherStats_def
  by (intro ach.moves_rules moves_award_loop)

subsection \<open>Runs without failures\<close>

definition meets :: "user_stats \<Rightarrow> achievement \<Rightarrow> bool" where
  "meets st a \<longleftrightarrow> (case evaluateCriteria (ac_criteria a) st of None \<Rightarrow> False | Some (earned, progress) \<Rightarrow> earned)"

definition known :: "achievement list \<Rightarrow> bool" where
  "known as \<longleftrightarrow> list_all (\<lambda>a. ac_criteria a \<noteq> Unknown) as"

lemma known_criteria: "c \<noteq> Unknown \<Longrightarrow> \<exists>e p. evaluateCriteria c st = Some (e, p)"
  by (cases c) (simp_all add: reaches_def)

lemma within_some: "\<exists>e p. within_top n b = (e, p)"
  by (cases "within_top n b") simp

text \<open>The table after the loop, when no call fails.\<close>

fun award_state :: "nat \<Rightarrow> int \<Rightarrow> user_stats \<Rightarrow> nat list \<Rightarrow> achievement list \<Rightarrow> ach_db \<Rightarrow> ach_db" where
  "award_state u now st ids [] s = s"
| "award_state u now st ids (a # as) s =
    award_state u now st ids as
      (case evaluateCriteria (ac_criteria a) st of
         None \<Rightarrow> s
       | Some (e, p) \<Rightarrow>
           if e \<and> ac_id a \<notin> set ids then upsert_row u (ac_id a) now p s
           else if \<not> e then upsert_row u (ac_id a) 0 p s else s)"

lemma award_loop_run:
  "known as \<Longrightarrow>
    award_loop u now st ids as acc ([], s) =
      (Inr (acc @ map award_of (filter (\<lambda>a. meets st a \<and> ac_id a \<notin> set ids) as)), ([], award_state u now st ids as s))"
proof (induction as arbitrary: acc s)
  case (Cons a as)
  then obtain e p where e: "evaluateCriteria (ac_criteria a) st = Some (e, p)"
    using known_criteria [of "ac_criteria a" st] by (auto simp: known_def)
  then show ?case using Cons by (auto simp: bind_def catch_def meets_def known_def)
qed simp

lemma award_state_moves: "ach_moves s (award_state u now st ids as s)"
proof (induction as arbitrary: s)
  case (Cons a as)
  show ?case
    using Cons.IH ach.trans [OF ach_moves_upsert Cons.IH] by (auto split: option.split)
qed (simp add: ach.refl)

lemma ach_moves_row: "ach_moves s t \<Longrightarrow> jm_get (ad_earned s) k \<noteq> None \<Longrightarrow> jm_get (ad_earned t) k \<noteq> None"
  unfolding ach_moves_def by blast

lemma award_state_rows:
  "known as \<Longrightarrow> \<forall>a \<in> set ids. jm_get (ad_earned s) (u, a) \<noteq> None \<Longrightarrow> a \<in> set as \<Longrightarrow>
    jm_get (ad_earned (award_state u now st ids as s)) (u, ac_id a) \<noteq> None"
proof (induction as arbitrary: s)
  case (Cons b as)
  obtain e p where e: "evaluateCriteria (ac_criteria b) st = Some (e, p)"
    using Cons.prems(1) known_criteria [of "ac_criteria b" st] by (auto simp: known_def)
  let ?s = "case evaluateCriteria (ac_criteria b) st of None \<Rightarrow> s
    | Some (e, p) \<Rightarrow> if e \<and> ac_id b \<notin> set ids then upsert_row u (ac_id b) now p s
        else if \<not> e then upsert_row u (ac_id b) 0 p s else s"
  have m: "ach_moves s ?s" using ach.refl ach_moves_upsert by (auto split: option.split)
  have keep: "\<forall>a \<in> set ids. jm_get (ad_earned ?s) (u, a) \<noteq> None"
    using Cons.prems(2) ach_moves_row [OF m] by blast
  have b: "jm_get (ad_earned ?s) (u, ac_id b) \<noteq> None"
    using Cons.prems(2) by (auto simp: e upsert_row_def jm_get_set)
  show ?case
  proof (cases "a = b")
    case True
    then show ?thesis using ach_moves_row [OF award_state_moves b] by simp
  next
    case False
    moreover have "known as" using Cons.prems(1) by (simp add: known_def)
    ultimately show ?thesis using Cons.IH [OF _ keep] Cons.prems(3) by simp
  qed
qed simp

lemma rows_of_keys: "a \<in> set (map fst (rows_of u db)) \<longleftrightarrow> jm_get (ad_earned db) (u, a) \<noteq> None"
proof -
  have "a \<in> set (map fst (rows_of u db)) \<longleftrightarrow> (u, a) \<in> fst ` set (ad_earned db)"
    by (force simp: rows_of_def)
  then show ?thesis by (simp only: jm_get_keys)
qed

lemma gather_keeps: "gatherStats u ([], db) = (Inr x, w) \<Longrightarrow> w = ([], db)"
  by (cases "find (\<lambda>v. us_id v = u) (ad_users db)") (auto simp: gatherStats_def bind_def)

lemma evaluate_run:
  assumes "result (gatherStats u) [] db = Inr (Some st)" "known (ad_catalog db)"
  shows "evaluateAchievements u now ([], db) =
    (Inr (map award_of (filter (\<lambda>a. meets st a \<and> jm_get (ad_earned db) (u, ac_id a) = None) (ad_catalog db))),
     ([], award_state u now st (map fst (rows_of u db)) (ad_catalog db) db))"
proof -
  have g: "gatherStats u ([], db) = (Inr (Some st), ([], db))"
    using assms(1) gather_keeps unfolding result_def by (metis prod.collapse)
  have "(\<lambda>a. meets st a \<and> ac_id a \<notin> set (map fst (rows_of u db))) =
      (\<lambda>a. meets st a \<and> jm_get (ad_earned db) (u, ac_id a) = None)"
    using rows_of_keys by blast
  note run = award_loop_run [OF assms(2), of u now st "map fst (rows_of u db)" "[]" db, unfolded this append_Nil]
  show ?thesis
    by (simp add: evaluateAchievements_def catch_def bind_def g run)
qed

subsection \<open>Properties\<close>

text \<open>
  Evaluation awards what is earned and new. When no call fails and every criterion is
  of a known type, evaluating a user returns exactly the catalog's achievements, in its order,
  whose criterion the gathered counts meet and for which the user has no row yet; and
  afterwards the user has a row for every achievement of the catalog, awarded or not.
\<close>

theorem evaluation_awards:
  assumes "result (gatherStats u) [] db = Inr (Some st)" "list_all (\<lambda>a. ac_criteria a \<noteq> Unknown) (ad_catalog db)"
  shows "result (evaluateAchievements u now) [] db =
      Inr (map award_of (filter (\<lambda>a. meets st a \<and> jm_get (ad_earned db) (u, ac_id a) = None) (ad_catalog db))) \<and>
    (\<forall>a \<in> set (ad_catalog db). jm_get (ad_earned (after (evaluateAchievements u now) [] db)) (u, ac_id a) \<noteq> None)"
proof -
  have k: "known (ad_catalog db)" using assms(2) by (simp add: known_def)
  have ids: "\<forall>a \<in> set (map fst (rows_of u db)). jm_get (ad_earned db) (u, a) \<noteq> None"
    using rows_of_keys by blast
  show ?thesis
    using evaluate_run [OF assms(1) k, of now] award_state_rows [OF k ids, of _ now st]
    by (simp add: result_def after_def)
qed

definition badge :: "nat \<Rightarrow> criteria \<Rightarrow> bool \<Rightarrow> achievement" where
  "badge i c h = \<lparr>ac_id = i, ac_slug = show_nat i, ac_title = [], ac_description = [], ac_icon = [],
     ac_category = [], ac_points = 10, ac_criteria = c, ac_isHidden = h\<rparr>"

definition sample_ach :: ach_db where
  "sample_ach = \<lparr>ad_users = [\<lparr>us_id = 1, us_username = ''ann'', us_rating = 1500\<rparr>],
     ad_submissions = [sample_row\<lparr>sb_status := ''accepted''\<rparr>], ad_difficulty = [(3, ''Easy'')], ad_streaks = [],
     ad_entries = [], ad_discussions = [], ad_catalog = [badge 1 FirstSolution False, badge 2 (ProblemsSolved 2) True],
     ad_earned = []\<rparr>"

definition sample_stats :: user_stats where
  "sample_stats = \<lparr>totalAccepted = 1, uniqueSolved = 1, byEasy = 1, byMedium = 0, byHard = 0, uniqueLanguages = 1,
     fastestRuntime = None, st_currentStreak = 0, st_longestStreak = 0, st_rating = 1500, contestEntries = 0,
     bestRank = None, leaderboardRank = Some 1, discussionPosts = 0\<rparr>"

lemma sample_gather: "result (gatherStats 1) [] sample_ach = Inr (Some sample_stats)"
proof -
  have low: "lower_char CHR ''E'' = CHR ''e''" "lower_char CHR ''a'' = CHR ''a''"
    "lower_char CHR ''s'' = CHR ''s''" "lower_char CHR ''y'' = CHR ''y''" by code_simp+
  show ?thesis
    by (simp add: result_def gatherStats_def bind_def sample_ach_def sample_stats_def accepted_of_def solved_problems_def
      difficulties_def sample_row_def count_eq_def least_of_def somes_def low)
qed

lemma evaluation_awards_witness:
  "result (evaluateAchievements 1 77) [] sample_ach = Inr [award_of (badge 1 FirstSolution False)] \<and>
   jm_get (ad_earned (after (evaluateAchievements 1 77) [] sample_ach)) (1, 2) \<noteq> None"
proof -
  have k: "list_all (\<lambda>a. ac_criteria a \<noteq> Unknown) (ad_catalog sample_ach)"
    by (simp add: sample_ach_def badge_def)
  have f: "filter (\<lambda>a. meets sample_stats a \<and> jm_get (ad_earned sample_ach) (1, ac_id a) = None) (ad_catalog sample_ach) =
      [badge 1 FirstSolution False]"
    by (simp add: sample_ach_def badge_def meets_def sample_stats_def reaches_def)
  have "badge 2 (ProblemsSolved 2) True \<in> set (ad_catalog sample_ach)" by (simp add: sample_ach_def)
  then show ?thesis using evaluation_awards [OF sample_gather k, of 77, unfolded f] by (auto simp: badge_def)
qed

lemma award_loop_result:
  "award_loop u now st ids as acc w = (Inr aws, w') \<Longrightarrow>
    set aws \<subseteq> set acc \<union> award_of ` {a \<in> set as. ac_id a \<notin> set ids}"
proof (induction as arbitrary: acc w)
  case (Cons a as)
  let ?new = "award_of ` {b \<in> set (a # as). ac_id b \<notin> set ids}"
  have sub: "award_of ` {b \<in> set as. ac_id b \<notin> set ids} \<subseteq> ?new" by auto
  obtain e p where e: "evaluateCriteria (ac_criteria a) st = Some (e, p)"
    using Cons.prems by (auto split: option.splits)
  show ?case
  proof (cases "e \<and> ac_id a \<notin> set ids")
    case True
    then obtain w1 where "award_loop u now st ids as (acc @ [award_of a]) w1 = (Inr aws, w')"
      using Cons.prems by (auto simp: e bind_Inr)
    then have "set aws \<subseteq> set (acc @ [award_of a]) \<union> award_of ` {b \<in> set as. ac_id b \<notin> set ids}" by (rule Cons.IH)
    moreover have "award_of a \<in> ?new" using True by auto
    ultimately show ?thesis using sub by auto
  next
    case False
    then obtain w1 where "award_loop u now st ids as acc w1 = (Inr aws, w')"
      using Cons.prems by (auto simp: e bind_Inr split: if_splits)
    then show ?thesis using Cons.IH sub by blast
  qed
qed simp

lemma gather_reads: "moves (=) (gatherStats u)"
  unfolding gatherStats_def by (intro reads_rules)

lemma evaluate_catches: "\<exists>aws. result (evaluateAchievements u now) fs db = Inr aws"
  by (auto simp: evaluateAchievements_def result_def catch_def split: prod.split sum.split)

lemma evaluate_result:
  assumes "result (evaluateAchievements u now) fs db = Inr aws"
  shows "set aws \<subseteq> award_of ` {a \<in> set (ad_catalog db). jm_get (ad_earned db) (u, ac_id a) = None}"
proof -
  let ?body = "bind (gatherStats u) (\<lambda>stats. case stats of None \<Rightarrow> ret []
    | Some st \<Rightarrow> bind (query ''db'' ad_catalog) (\<lambda>cat. bind (query ''db'' (rows_of u)) (\<lambda>rows.
        award_loop u now st (map fst rows) cat [])))"
  show ?thesis
  proof -
    obtain r w where Pair: "?body (fs, db) = (r, w)" by (metis prod.exhaust)
    show ?thesis
    proof (cases r)
      case (Inl e)
      then have "aws = []" using assms Pair by (simp add: evaluateAchievements_def result_def catch_def)
      then show ?thesis by simp
    next
      case (Inr l)
      then have l: "l = aws" using assms Pair by (simp add: evaluateAchievements_def result_def catch_def)
      obtain stats w1 where g: "gatherStats u (fs, db) = (Inr stats, w1)"
        and k: "(case stats of None \<Rightarrow> ret []
          | Some st \<Rightarrow> bind (query ''db'' ad_catalog) (\<lambda>cat. bind (query ''db'' (rows_of u)) (\<lambda>rows.
              award_loop u now st (map fst rows) cat []))) w1 = (Inr aws, w)"
        using Pair by (auto simp: Inr l bind_Inr)
      have w1: "snd w1 = db" using reads_state [OF gather_reads g] by simp
      show ?thesis
      proof (cases stats)
        case None
        then show ?thesis using k by simp
      next
        case (Some st)
        obtain cat w2 rows w3 where q: "query ''db'' ad_catalog w1 = (Inr cat, w2)"
          "query ''db'' (rows_of u) w2 = (Inr rows, w3)" "award_loop u now st (map fst rows) cat [] w3 = (Inr aws, w)"
          using k by (auto simp: Some bind_Inr)
        have "cat = ad_catalog db" "rows = rows_of u db"
          using query_Inr [OF q(1)] query_Inr [OF q(2)] w1 by simp_all
        then show ?thesis using award_loop_result [OF q(3)] rows_of_keys [of _ u db] by auto
      qed
    qed
  qed
qed

text \<open>
  A badge that was not earned when first looked at is never awarded. Once a user has a
  row for an achievement, as an evaluation leaves for every criterion that is not met yet, no
  evaluation of any user, at any time and with any failures, changes what the row says of when
  it was earned, nor reports the achievement to its user.
\<close>

theorem tracked_badge_is_never_awarded:
  assumes "jm_get (ad_earned db) (u, ac_id a) = Some r" "a \<in> set (ad_catalog db)"
    "distinct (map ac_slug (ad_catalog db))"
  shows "(\<exists>aws. result (evaluateAchievements u now) fs db = Inr aws \<and> (\<forall>w \<in> set aws. aw_slug w \<noteq> ac_slug a)) \<and>
    (\<exists>r'. jm_get (ad_earned (after (evaluateAchievements v now) fs db)) (u, ac_id a) = Some r' \<and>
       ua_earnedAt r' = ua_earnedAt r)"
proof
  obtain aws where aws: "result (evaluateAchievements u now) fs db = Inr aws" using evaluate_catches by blast
  have "aw_slug w \<noteq> ac_slug a" if w: "w \<in> set aws" for w
  proof
    assume eq: "aw_slug w = ac_slug a"
    obtain b where b: "w = award_of b" "b \<in> set (ad_catalog db)" "jm_get (ad_earned db) (u, ac_id b) = None"
      using evaluate_result [OF aws] w by auto
    have "b = a" using assms(2,3) b(2) eq by (simp add: b(1) award_of_def distinct_map inj_on_def)
    then show False using b(3) assms(1) by simp
  qed
  then show "\<exists>aws. result (evaluateAchievements u now) fs db = Inr aws \<and> (\<forall>w \<in> set aws. aw_slug w \<noteq> ac_slug a)"
    using aws by blast
  show "\<exists>r'. jm_get (ad_earned (after (evaluateAchievements v now) fs db)) (u, ac_id a) = Some r' \<and>
      ua_earnedAt r' = ua_earnedAt r"
    using ach.moves_result [OF moves_evaluate] assms(1) unfolding ach_moves_def by blast
qed

lemma tracked_badge_is_never_awarded_witness:
  "let db = sample_ach\<lparr>ad_submissions := [sample_row\<lparr>sb_status := ''accepted''\<rparr>, sample_row\<lparr>sb_id := 8, sb_problem := 4, sb_status := ''accepted''\<rparr>],
       ad_earned := [((1, 2), \<lparr>ua_earnedAt = 0, ua_progress = 1\<rparr>)]\<rparr> in
   \<exists>aws. result (evaluateAchievements 1 99) [] db = Inr aws \<and> (\<forall>w \<in> set aws. aw_slug w \<noteq> ''2'')"
proof -
  let ?db = "sample_ach\<lparr>ad_submissions := [sample_row\<lparr>sb_status := ''accepted''\<rparr>, sample_row\<lparr>sb_id := 8, sb_problem := 4, sb_status := ''accepted''\<rparr>],
       ad_earned := [((1, 2), \<lparr>ua_earnedAt = 0, ua_progress = 1\<rparr>)]\<rparr>"
  let ?b = "badge 2 (ProblemsSolved 2) True"
  have two: "ac_slug ?b = ''2''" by code_simp
  have "jm_get (ad_earned ?db) (1, ac_id ?b) = Some \<lparr>ua_earnedAt = 0, ua_progress = 1\<rparr>" by (simp add: badge_def)
  moreover have "?b \<in> set (ad_catalog ?db)" by (simp add: sample_ach_def)
  moreover have "distinct (map ac_slug (ad_catalog ?db))" by (simp add: sample_ach_def badge_def)
  ultimately show ?thesis using tracked_badge_is_never_awarded [of ?db 1 ?b] two by (simp add: Let_def)
qed

lemma earned_map_keys:
  "jm_get (fold (\<lambda>(a, r). jm_set a (f r)) rows m) a \<noteq> None \<longleftrightarrow> jm_get m a \<noteq> None \<or> a \<in> set (map fst rows)"
  by (induction rows arbitrary: m) (auto simp: jm_get_set)

lemma badge_items_all:
  assumes "\<forall>a \<in> set as. ac_id a \<in> set (map fst rows)"
  shows "map bi_achievement (badge_items as rows) = as"
proof -
  let ?f = "\<lambda>r. (if ua_earnedAt r = 0 then None else Some (ua_earnedAt r), ua_progress r)"
  have "jm_get (fold (\<lambda>(a, r). jm_set a (?f r)) rows []) (ac_id a) \<noteq> None" if "a \<in> set as" for a
    using assms that by (subst earned_map_keys) blast
  then show ?thesis by (simp add: badge_items_def Let_def comp_def)
qed

text \<open>
  Evaluation reveals the hidden badges. After an evaluation of a user in which nothing
  fails, the list the user is served contains every achievement of the catalog, the hidden ones
  that are not earned included.
\<close>

theorem evaluation_reveals_hidden:
  assumes "result (gatherStats u) [] db = Inr (Some st)" "list_all (\<lambda>a. ac_criteria a \<noteq> Unknown) (ad_catalog db)"
  shows "\<exists>items totals. result (achievements_GET coll (Some u)) [] (after (evaluateAchievements u now) [] db) =
      Inr (Reply 200 (items, totals, length items)) \<and>
    map bi_achievement items = sort_by (catalog_le coll) (ad_catalog db)"
proof -
  let ?t = "after (evaluateAchievements u now) [] db"
  have k: "known (ad_catalog db)" using assms(2) by (simp add: known_def)
  have ids: "\<forall>a \<in> set (map fst (rows_of u db)). jm_get (ad_earned db) (u, a) \<noteq> None"
    using rows_of_keys by blast
  have t: "?t = award_state u now st (map fst (rows_of u db)) (ad_catalog db) db"
    using evaluate_run [OF assms(1) k, of now] by (simp add: after_def)
  have cat: "ad_catalog ?t = ad_catalog db"
    using ach.moves_result [OF moves_evaluate, of db u now "[]"] by (auto simp: ach_moves_def)
  have "jm_get (ad_earned ?t) (u, ac_id a) \<noteq> None" if "a \<in> set (ad_catalog db)" for a
    unfolding t by (rule award_state_rows [OF k ids that])
  then have "\<forall>a \<in> set (sort_by (catalog_le coll) (ad_catalog db)). ac_id a \<in> set (map fst (rows_of u ?t))"
    using rows_of_keys [of _ u ?t] by auto
  then have "map bi_achievement (badge_items (sort_by (catalog_le coll) (ad_catalog ?t)) (rows_of u ?t)) =
      sort_by (catalog_le coll) (ad_catalog db)"
    unfolding cat by (rule badge_items_all)
  then show ?thesis
    by (simp add: achievements_GET_def result_def catch_def bind_def Let_def)
qed

lemma evaluation_reveals_hidden_witness:
  "\<exists>items totals. result (achievements_GET (\<lambda>a b. True) (Some 1)) [] (after (evaluateAchievements 1 77) [] sample_ach) =
      Inr (Reply 200 (items, totals, length items)) \<and>
    list_ex (\<lambda>i. ac_isHidden (bi_achievement i)) items"
proof -
  have k: "list_all (\<lambda>a. ac_criteria a \<noteq> Unknown) (ad_catalog sample_ach)"
    by (simp add: sample_ach_def badge_def)
  obtain items totals where i: "result (achievements_GET (\<lambda>a b. True) (Some 1)) [] (after (evaluateAchievements 1 77) [] sample_ach) =
      Inr (Reply 200 (items, totals, length items))"
    "map bi_achievement items = sort_by (catalog_le (\<lambda>a b. True)) (ad_catalog sample_ach)"
    using evaluation_reveals_hidden [OF sample_gather k, of "\<lambda>a b. True" 77] by blast
  have "list_ex ac_isHidden (map bi_achievement items)"
    unfolding i(2) by (simp add: sample_ach_def badge_def catalog_le_def)
  then show ?thesis using i(1) by (auto simp: list_ex_iff)
qed

end
