(* ===== verification/AcceptanceRate.thy ===== *)
theory AcceptanceRate
  imports Effects
begin

section \<open>Acceptance rates\<close>

text \<open>
  \<^verbatim>\<open>src/lib/acceptance-rate.ts\<close>: the stored rate of a problem is recomputed from its
  submissions grouped by status, and written only when it moved by more than a tolerance.
  Rates are real numbers here (doubles in the source).
\<close>

record rate_problem =
  rp_id :: nat
  rp_order :: int
  rp_rate :: "real option"

record rate_db =
  rd_problems :: "rate_problem list"
  rd_subs :: "(nat \<times> string) list"

record snapshot =
  sn_problemId :: nat
  sn_total :: nat
  sn_accepted :: nat
  sn_rate :: "real option"

definition EPSILON :: real where
  "EPSILON = 1 / 10000"

definition equalRates :: "real option \<Rightarrow> real option \<Rightarrow> bool" where
  "equalRates a b =
    (case (a, b) of
       (None, None) \<Rightarrow> True
     | (Some x, Some y) \<Rightarrow> \<bar>x - y\<bar> \<le> EPSILON
     | _ \<Rightarrow> False)"

definition accepted_status :: "string \<Rightarrow> bool" where
  "accepted_status s \<longleftrightarrow> map lower_char s = ''accepted''"

text \<open>\<^verbatim>\<open>groupBy({ by: ["status"] })\<close> with counts: one row per status.\<close>

definition group_statuses :: "nat \<Rightarrow> rate_db \<Rightarrow> (string \<times> nat) list" where
  "group_statuses p db =
    (let sts = map snd (filter (\<lambda>s. fst s = p) (rd_subs db))
     in map (\<lambda>st. (st, length (filter (\<lambda>x. x = st) sts))) (remdups sts))"

definition snapshot_of :: "nat \<Rightarrow> (string \<times> nat) list \<Rightarrow> snapshot" where
  "snapshot_of p grouped =
    (let (total, accepted) = fold (\<lambda>(st, n) (t, a). (t + n, if accepted_status st then a + n else a)) grouped (0, 0)
     in \<lparr>sn_problemId = p, sn_total = total, sn_accepted = accepted,
         sn_rate = (if total > 0 then Some (real accepted / real total) else None)\<rparr>)"

definition computeAcceptanceRate :: "nat \<Rightarrow> (rate_db, string, snapshot) prog" where
  "computeAcceptanceRate p = bind (query ''db'' (group_statuses p)) (\<lambda>grouped. ret (snapshot_of p grouped))"

definition stored_rate :: "nat \<Rightarrow> rate_db \<Rightarrow> real option" where
  "stored_rate p db = (case find_by rp_id p (rd_problems db) of None \<Rightarrow> None | Some r \<Rightarrow> rp_rate r)"

text \<open>\<^verbatim>\<open>problem.update\<close>: rejects when the row is gone.\<close>

definition write_rate :: "nat \<Rightarrow> real option \<Rightarrow> rate_db \<Rightarrow> (string + unit) \<times> rate_db" where
  "write_rate p r db =
    (if find_by rp_id p (rd_problems db) = None then (Inl ''P2025'', db)
     else (Inr (), db\<lparr>rd_problems := upd_by rp_id p (\<lambda>q. q\<lparr>rp_rate := r\<rparr>) (rd_problems db)\<rparr>))"

definition refreshAcceptanceRate :: "nat \<Rightarrow> (rate_db, string, snapshot) prog" where
  "refreshAcceptanceRate p =
    bind (computeAcceptanceRate p) (\<lambda>snap.
    bind (query ''db'' (stored_rate p)) (\<lambda>previous.
    let next = sn_rate snap in
    bind (if \<not> equalRates previous next then call ''db'' (write_rate p next) else ret ()) (\<lambda>_.
    ret snap)))"

fun refresh_loop :: "nat list \<Rightarrow> nat \<times> nat \<Rightarrow> (rate_db, string, nat \<times> nat) prog" where
  "refresh_loop [] acc = ret acc"
| "refresh_loop (p # ps) (scanned, updated) =
    bind (catch
      (bind (query ''db'' (stored_rate p)) (\<lambda>before.
       bind (refreshAcceptanceRate p) (\<lambda>snap.
       ret (scanned + 1, if \<not> equalRates before (sn_rate snap) then updated + 1 else updated))))
      (\<lambda>_. ret (scanned, updated))) (refresh_loop ps)"

definition problem_order :: "rate_problem \<Rightarrow> rate_problem \<Rightarrow> bool" where
  "problem_order a b \<longleftrightarrow> rp_order a \<le> rp_order b"

definition refreshAllAcceptanceRates :: "(rate_db, string, nat \<times> nat) prog" where
  "refreshAllAcceptanceRates =
    bind (query ''db'' (\<lambda>db. map rp_id (sort_by problem_order (rd_problems db)))) (\<lambda>problems. refresh_loop problems (0, 0))"

interpretation by_order: comparator problem_order UNIV
  by unfold_locales (auto simp: problem_order_def)

subsection \<open>The rate a problem should have\<close>

definition rate_spec :: "nat \<Rightarrow> rate_db \<Rightarrow> real option" where
  "rate_spec p db =
    (let sts = map snd (filter (\<lambda>s. fst s = p) (rd_subs db))
     in if sts = [] then None
        else Some (real (length (filter accepted_status sts)) / real (length sts)))"

lemma grouped_sum:
  "fold (\<lambda>(st, n) (t, a). (t + n, if accepted_status st then a + n else a)) g (t0, a0) =
    (t0 + sum_list (map snd g), a0 + sum_list (map snd (filter (\<lambda>x. accepted_status (fst x)) g)))"
  for g :: "(string \<times> nat) list"
  by (induction g arbitrary: t0 a0) auto

lemma sum_counts: "sum_list (map (\<lambda>s. length (filter (\<lambda>x. x = s) xs)) (filter P (remdups xs))) = length (filter P xs)"
proof -
  have "sum_list (map (\<lambda>s. length (filter (\<lambda>x. x = s) xs)) (filter P (remdups xs))) =
      (\<Sum>s \<in> set (filter P (remdups xs)). length (filter (\<lambda>x. x = s) xs))"
    by (rule sum_list_distinct_conv_sum_set) simp
  also have "\<dots> = (\<Sum>s \<in> set (filter P xs). length (filter (\<lambda>x. x = s) (filter P xs)))"
    by (intro sum.cong) (auto simp: intro!: arg_cong [where f = length] filter_cong)
  also have "\<dots> = length (filter P xs)"
    using sum_count_set [of "filter P xs" "set (filter P xs)"]
    by (simp add: count_list_eq_length_filter eq_commute)
  finally show ?thesis .
qed

lemma snapshot_rate: "sn_rate (snapshot_of p (group_statuses p db)) = rate_spec p db"
proof -
  let ?sts = "map snd (filter (\<lambda>s. fst s = p) (rd_subs db))"
  have "sum_list (map snd (group_statuses p db)) = length ?sts"
    using sum_counts [of ?sts "\<lambda>_. True"] by (simp add: group_statuses_def Let_def comp_def)
  moreover have "sum_list (map snd (filter (\<lambda>x. accepted_status (fst x)) (group_statuses p db))) = length (filter accepted_status ?sts)"
    using sum_counts [of ?sts accepted_status] by (simp add: group_statuses_def Let_def comp_def filter_map)
  ultimately show ?thesis
    by (auto simp: snapshot_of_def rate_spec_def grouped_sum Let_def)
qed

lemma rate_spec_range: "rate_spec p db = Some r \<Longrightarrow> 0 \<le> r \<and> r \<le> 1"
proof -
  have "real (length (filter accepted_status xs)) / real (length xs) \<le> 1" if "xs \<noteq> []" for xs
    using that by (simp add: divide_le_eq)
  then show "rate_spec p db = Some r \<Longrightarrow> 0 \<le> r \<and> r \<le> 1"
    unfolding rate_spec_def Let_def by (metis divide_nonneg_nonneg of_nat_0_le_iff option.discI option.sel)
qed

subsection \<open>One refresh\<close>

definition put_rate :: "nat \<Rightarrow> real option \<Rightarrow> rate_db \<Rightarrow> rate_db" where
  "put_rate p r db = db\<lparr>rd_problems := upd_by rp_id p (\<lambda>q. q\<lparr>rp_rate := r\<rparr>) (rd_problems db)\<rparr>"

definition has_problem :: "nat \<Rightarrow> rate_db \<Rightarrow> bool" where
  "has_problem p db \<longleftrightarrow> find_by rp_id p (rd_problems db) \<noteq> None"

lemma stored_put: "stored_rate j (put_rate p r db) = (if j = p \<and> has_problem p db then r else stored_rate j db)"
  by (auto simp: stored_rate_def has_problem_def put_rate_def find_by_upd split: option.split)

lemma spec_put [simp]: "rate_spec j (put_rate p r db) = rate_spec j db"
  by (simp add: rate_spec_def put_rate_def)

lemma ids_put [simp]: "map rp_id (rd_problems (put_rate p r db)) = map rp_id (rd_problems db)"
  by (simp add: put_rate_def keys_upd)

definition refreshed :: "nat \<Rightarrow> rate_db \<Rightarrow> rate_db" where
  "refreshed p db = (if equalRates (stored_rate p db) (rate_spec p db) then db else put_rate p (rate_spec p db) db)"

lemma refresh_run:
  "has_problem p db \<Longrightarrow>
    refreshAcceptanceRate p ([], db) = (Inr (snapshot_of p (group_statuses p db)), ([], refreshed p db))"
  by (auto simp: refreshAcceptanceRate_def computeAcceptanceRate_def bind_def Let_def write_rate_def refreshed_def
      has_problem_def put_rate_def snapshot_rate)

lemma refresh_any: "after (refreshAcceptanceRate p) fs db = db \<or> after (refreshAcceptanceRate p) fs db = refreshed p db"
proof -
  have q1: "computeAcceptanceRate p (fs, db) = (Inr (snapshot_of p (group_statuses p db)), (tl fs, db)) \<or>
      computeAcceptanceRate p (fs, db) = (Inl ''db'', (tl fs, db))"
    using query_or [of "''db''" "group_statuses p" fs db] by (auto simp: computeAcceptanceRate_def bind_def)
  have w: "snd (write_rate p (rate_spec p db) db) = db \<or> snd (write_rate p (rate_spec p db) db) = put_rate p (rate_spec p db) db"
    by (simp add: write_rate_def put_rate_def)
  show ?thesis
    using q1 query_or [of "''db''" "stored_rate p" "tl fs" db]
      call_or [of "''db''" "write_rate p (rate_spec p db)" "tl (tl fs)" db] w
    by (cases "fst (write_rate p (rate_spec p db) db)")
      (auto simp: refreshAcceptanceRate_def bind_def Let_def snapshot_rate refreshed_def after_def)
qed

lemma equal_refl [simp]: "equalRates a a"
  by (simp add: equalRates_def EPSILON_def split: option.split)

lemma refreshed_simps:
  "stored_rate j (refreshed p db) = (if j = p \<and> has_problem p db \<and> \<not> equalRates (stored_rate p db) (rate_spec p db)
     then rate_spec p db else stored_rate j db)"
  "rate_spec j (refreshed p db) = rate_spec j db"
  "map rp_id (rd_problems (refreshed p db)) = map rp_id (rd_problems db)"
  by (auto simp: refreshed_def stored_put)

lemma has_problem_ids: "has_problem p db \<longleftrightarrow> p \<in> set (map rp_id (rd_problems db))"
  by (simp add: has_problem_def find_by_None)

lemma has_refreshed [simp]: "has_problem j (refreshed p db) = has_problem j db"
  by (simp only: has_problem_ids refreshed_simps)

subsection \<open>The sweep\<close>

text \<open>Every refresh keeps the other tables and moves a rate only to the exact one.\<close>

definition rate_moves :: "rate_db \<Rightarrow> rate_db \<Rightarrow> bool" where
  "rate_moves s t \<longleftrightarrow> map rp_id (rd_problems t) = map rp_id (rd_problems s) \<and>
     (\<forall>j. rate_spec j t = rate_spec j s \<and> (stored_rate j t = stored_rate j s \<or> stored_rate j t = rate_spec j s))"

interpretation rates: evolution rate_moves
  by unfold_locales (auto simp: rate_moves_def, metis+)

lemma rate_moves_refreshed: "rate_moves db (refreshed p db)"
  by (auto simp: rate_moves_def refreshed_simps)

lemma moves_refresh: "moves rate_moves (refreshAcceptanceRate p)"
proof (rule rates.movesI)
  fix fs s r gs t
  assume "refreshAcceptanceRate p (fs, s) = (r, (gs, t))"
  then have "t = s \<or> t = refreshed p s" using refresh_any [of p fs s] by (simp add: after_def)
  then show "rate_moves s t" using rates.refl rate_moves_refreshed by auto
qed

lemma moves_sweep: "moves rate_moves refreshAllAcceptanceRates"
proof -
  have "moves rate_moves (refresh_loop ps acc)" for ps acc
  proof (induction ps arbitrary: acc)
    case (Cons p ps)
    obtain a b where "acc = (a, b)" by (cases acc)
    then show ?case using Cons by (auto intro!: rates.moves_rules moves_refresh)
  qed (simp add: rates.moves_ret)
  then show ?thesis unfolding refreshAllAcceptanceRates_def by (intro rates.moves_rules)
qed

fun sweep :: "nat list \<Rightarrow> rate_db \<Rightarrow> rate_db" where
  "sweep [] db = db"
| "sweep (p # ps) db = sweep ps (refreshed p db)"

lemma refresh_loop_run:
  "\<forall>p \<in> set ps. has_problem p db \<Longrightarrow> distinct ps \<Longrightarrow>
    refresh_loop ps (n, k) ([], db) =
      (Inr (n + length ps, k + length (filter (\<lambda>p. \<not> equalRates (stored_rate p db) (rate_spec p db)) ps)), ([], sweep ps db))"
proof (induction ps arbitrary: n k db)
  case (Cons p ps)
  have "stored_rate q (refreshed p db) = stored_rate q db" if "q \<in> set ps" for q
    using that Cons.prems(2) by (auto simp: refreshed_simps)
  then have "filter (\<lambda>q. \<not> equalRates (stored_rate q (refreshed p db)) (rate_spec q (refreshed p db))) ps =
      filter (\<lambda>q. \<not> equalRates (stored_rate q db) (rate_spec q db)) ps"
    by (intro filter_cong) (auto simp: refreshed_simps)
  then show ?case
    using Cons.prems by (simp add: bind_def catch_def refresh_run snapshot_rate Cons.IH)
qed simp

lemma sweep_rates:
  "\<forall>p \<in> set ps. has_problem p db \<Longrightarrow> p \<in> set ps \<or> equalRates (stored_rate p db) (rate_spec p db) \<Longrightarrow>
    equalRates (stored_rate p (sweep ps db)) (rate_spec p db)"
proof (induction ps arbitrary: db)
  case (Cons q ps)
  then have "p \<in> set ps \<or> equalRates (stored_rate p (refreshed q db)) (rate_spec p (refreshed q db))"
    by (auto simp: refreshed_simps)
  then have "equalRates (stored_rate p (sweep ps (refreshed q db))) (rate_spec p (refreshed q db))"
    using Cons.prems(1) by (intro Cons.IH) auto
  then show ?case by (simp add: refreshed_simps)
qed simp

lemma sweep_idle: "\<forall>p \<in> set ps. equalRates (stored_rate p db) (rate_spec p db) \<Longrightarrow> sweep ps db = db"
  by (induction ps) (auto simp: refreshed_def)

subsection \<open>Property\<close>

text \<open>
  The sweep makes the rates right. Whatever calls fail, each problem's stored rate is
  afterwards the one it had or the exact share of its submissions that are accepted
  (null without submissions), and nothing else changes. When no call fails, every
  rate is within the tolerance of the exact share, the reported counts are the number of problems
  and the number of rates that were off, and a second sweep updates nothing.
\<close>

theorem refresh_all_correct:
  assumes "distinct (map rp_id (rd_problems db))"
  defines "db' \<equiv> after refreshAllAcceptanceRates [] db"
  shows "(\<forall>fs p. stored_rate p (after refreshAllAcceptanceRates fs db) \<in> {stored_rate p db, rate_spec p db} \<and>
      map rp_id (rd_problems (after refreshAllAcceptanceRates fs db)) = map rp_id (rd_problems db)) \<and>
    result refreshAllAcceptanceRates [] db = Inr (length (rd_problems db),
      card {p \<in> rp_id ` set (rd_problems db). \<not> equalRates (stored_rate p db) (rate_spec p db)}) \<and>
    (\<forall>p \<in> rp_id ` set (rd_problems db). equalRates (stored_rate p db') (rate_spec p db)) \<and>
    after refreshAllAcceptanceRates [] db' = db' \<and> result refreshAllAcceptanceRates [] db' = Inr (length (rd_problems db), 0)"
proof -
  let ?ids = "\<lambda>db. map rp_id (sort_by problem_order (rd_problems db))"
  have m: "rate_moves db (after refreshAllAcceptanceRates fs db)" for fs
    by (rule rates.moves_result [OF moves_sweep])
  have run: "refreshAllAcceptanceRates ([], d) = (Inr (length (rd_problems d),
      length (filter (\<lambda>p. \<not> equalRates (stored_rate p d) (rate_spec p d)) (?ids d))), ([], sweep (?ids d) d))"
    if "distinct (map rp_id (rd_problems d))" for d
  proof -
    have "distinct (?ids d)" "\<forall>p \<in> set (?ids d). has_problem p d"
      using that by (auto simp: has_problem_ids distinct_map)
    then show ?thesis by (simp add: refreshAllAcceptanceRates_def bind_def refresh_loop_run)
  qed
  have db': "db' = sweep (?ids db) db" by (simp add: db'_def after_def run [OF assms(1)])
  have md: "rate_moves db db'" unfolding db'_def by (rule m)
  have eq: "equalRates (stored_rate p db') (rate_spec p db)" if "p \<in> rp_id ` set (rd_problems db)" for p
    unfolding db' using that by (intro sweep_rates) (auto simp: has_problem_ids)
  have d': "distinct (map rp_id (rd_problems db'))" using md assms(1) by (simp add: rate_moves_def)
  have ids': "rp_id ` set (rd_problems db') = rp_id ` set (rd_problems db)" "length (rd_problems db') = length (rd_problems db)"
    using md unfolding rate_moves_def by (metis set_map, metis length_map)
  have eq': "\<forall>p \<in> set (?ids db'). equalRates (stored_rate p db') (rate_spec p db')"
    using eq md ids'(1) by (simp add: rate_moves_def)
  have "length (filter P (?ids db)) = card {p \<in> rp_id ` set (rd_problems db). P p}" for P
    using assms(1) distinct_card [of "filter P (?ids db)"] by (simp add: distinct_map)
  then have r: "result refreshAllAcceptanceRates [] db = Inr (length (rd_problems db),
      card {p \<in> rp_id ` set (rd_problems db). \<not> equalRates (stored_rate p db) (rate_spec p db)})"
    by (simp add: result_def run [OF assms(1)])
  have "after refreshAllAcceptanceRates [] db' = db'"
    using sweep_idle [OF eq'] by (simp add: after_def run [OF d'])
  moreover have "filter (\<lambda>p. \<not> equalRates (stored_rate p db') (rate_spec p db')) (?ids db') = []"
    using eq' by (simp add: filter_empty_conv)
  then have "result refreshAllAcceptanceRates [] db' = Inr (length (rd_problems db), 0)"
    using run [OF d'] ids'(2) by (simp add: result_def)
  ultimately show ?thesis using m r eq by (auto simp: rate_moves_def)
qed

lemma refresh_all_correct_witness:
  "let db = \<lparr>rd_problems = [\<lparr>rp_id = 1, rp_order = 2, rp_rate = Some (1/2)\<rparr>, \<lparr>rp_id = 2, rp_order = 1, rp_rate = None\<rparr>],
     rd_subs = [(1, ''accepted''), (1, ''wrong_answer''), (2, ''Accepted'')]\<rparr>
   in stored_rate 2 (after refreshAllAcceptanceRates [] db) = Some 1 \<and>
      stored_rate 1 (after refreshAllAcceptanceRates [] db) = Some (1/2)"
proof -
  let ?db = "\<lparr>rd_problems = [\<lparr>rp_id = 1, rp_order = 2, rp_rate = Some (1/2)\<rparr>, \<lparr>rp_id = 2, rp_order = 1, rp_rate = None\<rparr>],
     rd_subs = [(1, ''accepted''), (1, ''wrong_answer''), (2, ''Accepted'')]\<rparr> :: rate_db"
  have acc: "accepted_status ''accepted''" "\<not> accepted_status ''wrong_answer''" "accepted_status ''Accepted''"
    by code_simp+
  have spec: "rate_spec 1 ?db = Some (1/2)" "rate_spec 2 ?db = Some 1"
    and old: "stored_rate 1 ?db = Some (1/2)" "stored_rate 2 ?db = None"
    by (simp_all add: rate_spec_def stored_rate_def acc)
  have d: "distinct (map rp_id (rd_problems ?db))" by simp
  note t = refresh_all_correct [OF d]
  have "stored_rate 1 (after refreshAllAcceptanceRates [] ?db) \<in> {stored_rate 1 ?db, rate_spec 1 ?db}"
    "stored_rate 2 (after refreshAllAcceptanceRates [] ?db) \<in> {stored_rate 2 ?db, rate_spec 2 ?db}"
    "equalRates (stored_rate 2 (after refreshAllAcceptanceRates [] ?db)) (rate_spec 2 ?db)"
    using t by (blast, blast, simp)
  then show ?thesis unfolding spec old by (auto simp: equalRates_def)
qed

end
