(* ===== verification/Recommendations.thy ===== *)
theory Recommendations
  imports Achievements "HOL-Library.List_Lexorder" "HOL-Library.Char_ord"
begin

section \<open>Problem recommendations\<close>

text \<open>
  The scorer and the ranking (\<^verbatim>\<open>src/lib/recommendations.ts\<close>) and the builders of the route
  (\<^verbatim>\<open>src/app/api/recommendations/route.ts\<close>). Acceptance rates are reals; times are
  milliseconds. \<open>loc a b\<close> stands for \<^verbatim>\<open>a.localeCompare(b) <= 0\<close>, which the environment
  provides.
\<close>

subsection \<open>The scorer\<close>

record scored_problem =
  sp_id :: string
  sp_difficulty :: difficulty
  sp_acceptanceRate :: "real option"
  sp_tagSlugs :: "string list"
  sp_createdAt :: int

record solve_summary =
  so_problemId :: string
  so_difficulty :: difficulty
  so_tagSlugs :: "string list"
  so_solvedAt :: int

record history =
  solvedProblemIds :: "string list"
  recentSolves :: "solve_summary list"
  recentlyShownIds :: "string list"

fun difficulty_rank :: "difficulty \<Rightarrow> int" where
  "difficulty_rank Easy = 0"
| "difficulty_rank Medium = 1"
| "difficulty_rank Hard = 2"

definition normaliseDifficulty :: "string option \<Rightarrow> difficulty" where
  "normaliseDifficulty input =
    (if \<not> truthy input then Medium
     else (let v = map lower_char (the input)
           in if v = ''easy'' then Easy else if v = ''medium'' then Medium else if v = ''hard'' then Hard else Medium))"

definition medianDifficulty :: "solve_summary list \<Rightarrow> difficulty" where
  "medianDifficulty sols =
    (if sols = [] then Easy
     else (let ranks = sort_by (\<le>) (map (\<lambda>s. difficulty_rank (so_difficulty s)) sols);
               mid = length ranks div 2;
               r = (if even (length ranks) then (ranks ! (mid - 1) + ranks ! mid + 1) div 2 else ranks ! mid)
           in if r = 0 then Easy else if r = 1 then Medium else Hard))"

record score_weights =
  w_base :: int
  w_sameDifficulty :: int
  w_oneStepUp :: int
  w_twoStepUp :: int
  w_oneStepDown :: int
  w_tagOverlapPer :: int
  w_tagOverlapMax :: int
  w_acceptanceSweetSpot :: int
  w_acceptanceTooHard :: int
  w_freshnessRecent :: int
  w_recentlyShown :: int

definition default_weights :: score_weights where
  "default_weights = \<lparr>w_base = 50, w_sameDifficulty = 15, w_oneStepUp = 20, w_twoStepUp = - 25, w_oneStepDown = 5,
     w_tagOverlapPer = 7, w_tagOverlapMax = 21, w_acceptanceSweetSpot = 8, w_acceptanceTooHard = - 6,
     w_freshnessRecent = 5, w_recentlyShown = - 15\<rparr>"

definition freshness_window :: int where
  "freshness_window = 30 * 24 * 60 * 60 * 1000"

definition recent_tags :: "history \<Rightarrow> string list" where
  "recent_tags h = concat (map so_tagSlugs (take 10 (recentSolves h)))"

definition difficulty_part :: "scored_problem \<Rightarrow> history \<Rightarrow> score_weights \<Rightarrow> int" where
  "difficulty_part p h w =
    (if recentSolves h = [] then 0
     else (let delta = difficulty_rank (sp_difficulty p) - difficulty_rank (medianDifficulty (recentSolves h))
           in if delta = 0 then w_sameDifficulty w else if delta = 1 then w_oneStepUp w
              else if delta = 2 then w_twoStepUp w else if delta = - 1 then w_oneStepDown w else 0))"

definition overlap_part :: "scored_problem \<Rightarrow> history \<Rightarrow> score_weights \<Rightarrow> int" where
  "overlap_part p h w =
    (if recentSolves h = [] \<or> sp_tagSlugs p = [] then 0
     else min (w_tagOverlapMax w)
       (int (length (filter (\<lambda>t. t \<in> set (recent_tags h)) (sp_tagSlugs p))) * w_tagOverlapPer w))"

definition acceptance_part :: "scored_problem \<Rightarrow> score_weights \<Rightarrow> int" where
  "acceptance_part p w =
    (case sp_acceptanceRate p of
       None \<Rightarrow> 0
     | Some ar \<Rightarrow> if ar \<ge> 4 / 10 \<and> ar \<le> 7 / 10 then w_acceptanceSweetSpot w
                 else if ar < 2 / 10 then w_acceptanceTooHard w else 0)"

definition scoreProblem :: "scored_problem \<Rightarrow> history \<Rightarrow> int \<Rightarrow> score_weights \<Rightarrow> int" where
  "scoreProblem p h now w =
    (if sp_id p \<in> set (solvedProblemIds h) then 0
     else max 0 (min 100
       (w_base w + difficulty_part p h w + overlap_part p h w + acceptance_part p w +
        (if now - sp_createdAt p < freshness_window then w_freshnessRecent w else 0) +
        (if sp_id p \<in> set (recentlyShownIds h) then w_recentlyShown w else 0))))"

subsection \<open>The ranking\<close>

datatype reason = Same_topic string | Next_step_up | Freshness | Trending | General

definition rate_or_zero :: "scored_problem \<Rightarrow> real" where
  "rate_or_zero p = (case sp_acceptanceRate p of None \<Rightarrow> 0 | Some r \<Rightarrow> r)"

text \<open>\<^verbatim>\<open>sort\<close>'s comparator: its result is at most zero.\<close>

definition rank_le :: "(string \<Rightarrow> string \<Rightarrow> bool) \<Rightarrow> scored_problem \<times> int \<Rightarrow> scored_problem \<times> int \<Rightarrow> bool" where
  "rank_le loc a b =
    (if snd b \<noteq> snd a then snd b - snd a \<le> 0
     else if rate_or_zero (fst b) \<noteq> rate_or_zero (fst a) then rate_or_zero (fst b) - rate_or_zero (fst a) \<le> 0
     else loc (sp_id (fst a)) (sp_id (fst b)))"

definition reason_for :: "history \<Rightarrow> int \<Rightarrow> scored_problem \<Rightarrow> reason" where
  "reason_for h now p =
    (case find (\<lambda>t. t \<in> set (recent_tags h)) (sp_tagSlugs p) of
       Some t \<Rightarrow> if t \<noteq> [] then Same_topic t else
         (if recentSolves h \<noteq> [] \<and> difficulty_rank (sp_difficulty p) = difficulty_rank (medianDifficulty (recentSolves h)) + 1
          then Next_step_up
          else if now - sp_createdAt p < freshness_window then Freshness
          else if recentSolves h = [] then Trending else General)
     | None \<Rightarrow>
         if recentSolves h \<noteq> [] \<and> difficulty_rank (sp_difficulty p) = difficulty_rank (medianDifficulty (recentSolves h)) + 1
         then Next_step_up
         else if now - sp_createdAt p < freshness_window then Freshness
         else if recentSolves h = [] then Trending else General)"

definition scored_of :: "history \<Rightarrow> int \<Rightarrow> scored_problem list \<Rightarrow> (scored_problem \<times> int) list" where
  "scored_of h now candidates =
    filter (\<lambda>s. snd s > 0)
      (map (\<lambda>p. (p, scoreProblem p h now default_weights))
        (filter (\<lambda>p. sp_id p \<notin> set (solvedProblemIds h)) candidates))"

definition rankRecommendations ::
  "(string \<Rightarrow> string \<Rightarrow> bool) \<Rightarrow> scored_problem list \<Rightarrow> history \<Rightarrow> nat \<Rightarrow> int \<Rightarrow> (scored_problem \<times> int \<times> reason) list" where
  "rankRecommendations loc candidates h limit now =
    map (\<lambda>(p, score). (p, score, reason_for h now p))
      (take limit (sort_by (rank_le loc) (scored_of h now candidates)))"

subsection \<open>The builders of the route\<close>

record rec_problem =
  rq_id :: string
  rq_title :: string
  rq_slug :: string
  rq_difficulty :: string
  rq_acceptanceRate :: "real option"
  rq_tags :: "string list"
  rq_createdAt :: int

record rec_sub =
  rs_user :: nat
  rs_problem :: string
  rs_status :: string
  rs_createdAt :: int

record rec_db =
  rc_problems :: "rec_problem list"
  rc_subs :: "rec_sub list"

record api_rec =
  ar_id :: string
  ar_title :: string
  ar_slug :: string
  ar_difficulty :: string
  ar_reason :: reason

definition newest_problem :: "rec_problem \<Rightarrow> rec_problem \<Rightarrow> bool" where
  "newest_problem a b \<longleftrightarrow> rq_createdAt a \<ge> rq_createdAt b"

definition newest_sub :: "rec_sub \<Rightarrow> rec_sub \<Rightarrow> bool" where
  "newest_sub a b \<longleftrightarrow> rs_createdAt a \<ge> rs_createdAt b"

definition loadCandidates :: "rec_db \<Rightarrow> scored_problem list" where
  "loadCandidates db =
    map (\<lambda>r. \<lparr>sp_id = rq_id r, sp_difficulty = normaliseDifficulty (Some (rq_difficulty r)),
       sp_acceptanceRate = rq_acceptanceRate r, sp_tagSlugs = rq_tags r, sp_createdAt = rq_createdAt r\<rparr>)
      (take 200 (sort_by newest_problem (rc_problems db)))"

definition loadUserHistory :: "nat \<Rightarrow> rec_db \<Rightarrow> history" where
  "loadUserHistory userId db =
    (let subs = take 50 (sort_by newest_sub
           (filter (\<lambda>s. rs_user s = userId \<and> rs_status s = ''accepted'') (rc_subs db)))
     in \<lparr>solvedProblemIds = map rs_problem subs,
         recentSolves = map (\<lambda>s.
           let problem = find_by rq_id (rs_problem s) (rc_problems db)
           in \<lparr>so_problemId = rs_problem s,
               so_difficulty = normaliseDifficulty (map_option rq_difficulty problem),
               so_tagSlugs = (case problem of None \<Rightarrow> [] | Some p \<Rightarrow> rq_tags p),
               so_solvedAt = rs_createdAt s\<rparr>) subs,
         recentlyShownIds = []\<rparr>)"

definition meta_of :: "rec_problem list \<Rightarrow> string \<times> reason \<Rightarrow> api_rec list" where
  "meta_of meta r =
    (case find_by rq_id (fst r) meta of
       None \<Rightarrow> []
     | Some m \<Rightarrow> [\<lparr>ar_id = rq_id m, ar_title = rq_title m, ar_slug = rq_slug m,
         ar_difficulty = rq_difficulty m, ar_reason = snd r\<rparr>])"

definition attachMeta :: "(string \<times> reason) list \<Rightarrow> (rec_db, string, api_rec list) prog" where
  "attachMeta ranked =
    (if ranked = [] then ret []
     else bind (query ''db'' (\<lambda>db. filter (\<lambda>p. rq_id p \<in> set (map fst ranked)) (rc_problems db))) (\<lambda>meta.
       ret (concat (map (meta_of meta) ranked))))"

text \<open>\<^verbatim>\<open>groupBy(problemId)\<close> by descending count; ties in the order of first appearance.\<close>

definition popular :: "rec_db \<Rightarrow> string list" where
  "popular db =
    (let n = (\<lambda>p. length (filter (\<lambda>s. rs_problem s = p) (rc_subs db)))
     in take 5 (sort_by (\<lambda>p q. n p \<ge> n q) (remdups (map rs_problem (rc_subs db)))))"

definition buildAnon :: "(rec_db, string, api_rec list) prog" where
  "buildAnon =
    bind (query ''db'' popular) (\<lambda>groups.
      if groups = [] then
        bind (query ''db'' (\<lambda>db. take 5 (sort_by newest_problem (rc_problems db)))) (\<lambda>fresh.
          ret (map (\<lambda>p. \<lparr>ar_id = rq_id p, ar_title = rq_title p, ar_slug = rq_slug p,
            ar_difficulty = rq_difficulty p, ar_reason = Trending\<rparr>) fresh))
      else attachMeta (map (\<lambda>p. (p, Trending)) groups))"

definition buildAuthed :: "(string \<Rightarrow> string \<Rightarrow> bool) \<Rightarrow> nat \<Rightarrow> int \<Rightarrow> (rec_db, string, api_rec list) prog" where
  "buildAuthed loc userId now =
    bind (query ''db'' (loadUserHistory userId)) (\<lambda>history.
    bind (query ''db'' loadCandidates) (\<lambda>candidates.
    let ranked = rankRecommendations loc candidates history 5 now
    in if ranked = [] then buildAnon
       else attachMeta (map (\<lambda>(p, score, reason). (sp_id p, reason)) ranked)))"

definition recs_cache_key :: "nat option \<Rightarrow> string" where
  "recs_cache_key session = (case session of Some u \<Rightarrow> ''recs:user:'' @ show_nat u | None \<Rightarrow> ''recs:anon'')"

subsection \<open>Facts on the score and the order\<close>

lemma score_range: "0 \<le> scoreProblem p h now w \<and> scoreProblem p h now w \<le> 100"
  by (simp add: scoreProblem_def)

lemma difficulty_part_ge: "- 25 \<le> difficulty_part p h default_weights"
  by (simp add: difficulty_part_def default_weights_def Let_def)

lemma overlap_part_ge: "0 \<le> overlap_part p h default_weights"
  by (simp add: overlap_part_def default_weights_def)

lemma acceptance_part_ge: "- 6 \<le> acceptance_part p default_weights"
  by (simp add: acceptance_part_def default_weights_def split: option.split)

lemma score_pos: "sp_id p \<notin> set (solvedProblemIds h) \<Longrightarrow> 4 \<le> scoreProblem p h now default_weights"
  using difficulty_part_ge [of p h] overlap_part_ge [of p h] acceptance_part_ge [of p]
  by (simp add: scoreProblem_def) (simp add: default_weights_def)

text \<open>The order of the ranking is total when \<open>loc\<close> is.\<close>

definition total_order :: "('a \<Rightarrow> 'a \<Rightarrow> bool) \<Rightarrow> bool" where
  "total_order le \<longleftrightarrow> (\<forall>x y. le x y \<or> le y x) \<and> (\<forall>x y z. le x y \<longrightarrow> le y z \<longrightarrow> le x z) \<and>
     (\<forall>x y. le x y \<longrightarrow> le y x \<longrightarrow> x = y)"

lemma rank_le_total: "total_order loc \<Longrightarrow> rank_le loc a b \<or> rank_le loc b a"
  by (auto simp: rank_le_def total_order_def)

lemma rank_le_trans: "total_order loc \<Longrightarrow> rank_le loc a b \<Longrightarrow> rank_le loc b c \<Longrightarrow> rank_le loc a c"
  unfolding rank_le_def total_order_def by (smt (verit))

lemma rank_comparator: "total_order loc \<Longrightarrow> comparator (rank_le loc) UNIV"
  by unfold_locales (auto intro: rank_le_trans dest: rank_le_total)

lemma rank_le_antisym:
  "total_order loc \<Longrightarrow> rank_le loc a b \<Longrightarrow> rank_le loc b a \<Longrightarrow> sp_id (fst a) = sp_id (fst b)"
  unfolding rank_le_def total_order_def by (smt (verit))

lemma sorted_wrt_unique:
  assumes "\<And>x y. x \<in> set xs \<Longrightarrow> y \<in> set xs \<Longrightarrow> le x y \<Longrightarrow> le y x \<Longrightarrow> x = y"
    "sorted_wrt le xs" "sorted_wrt le ys" "mset xs = mset ys"
  shows "xs = ys"
  using assms
proof (induction xs arbitrary: ys)
  case (Cons x xs)
  then obtain y ys' where ys: "ys = y # ys'" by (cases ys) auto
  have "x = y"
  proof (rule ccontr)
    assume ne: "x \<noteq> y"
    have sets: "set (x # xs) = set ys" using Cons.prems(4) by (metis set_mset_mset)
    have "y \<in> set xs" "x \<in> set ys'" using sets ne ys by auto
    then have "le x y" "le y x" using Cons.prems(2,3) ys by auto
    then show False using Cons.prems(1) ne \<open>y \<in> set xs\<close> by auto
  qed
  moreover have "xs = ys'" using Cons.prems ys \<open>x = y\<close> by (intro Cons.IH) auto
  ultimately show ?case using ys by simp
qed simp

lemma scored_of_eq: "scored_of h now cs = map (\<lambda>p. (p, scoreProblem p h now default_weights))
    (filter (\<lambda>p. sp_id p \<notin> set (solvedProblemIds h)) cs)"
proof -
  have "0 < snd s" if "s \<in> set (map (\<lambda>p. (p, scoreProblem p h now default_weights)) (filter (\<lambda>p. sp_id p \<notin> set (solvedProblemIds h)) cs))" for s
    using that score_pos [of "fst s" h now] by auto
  then show ?thesis unfolding scored_of_def by (intro filter_True) blast
qed

lemma scored_of_in: "s \<in> set (scored_of h now cs) \<longleftrightarrow>
    fst s \<in> set cs \<and> sp_id (fst s) \<notin> set (solvedProblemIds h) \<and> snd s = scoreProblem (fst s) h now default_weights"
  by (cases s) (auto simp: scored_of_eq)

subsection \<open>Properties\<close>

text \<open>
  The ranking is the start of one fixed order of the candidates. It shows only unsolved
  candidates with a score between 4 and 100, at most \<open>limit\<close> of them, and as many as there are
  if they are fewer; each comes before, in score, then acceptance rate, then id, every one shown later
  and every unsolved candidate that is not shown; and when ids are unique it does not depend
  on the order in which the candidates were loaded.
\<close>

theorem ranking_is_canonical:
  assumes "total_order loc" "distinct (map sp_id cs)"
  shows "(\<forall>(p, score, reason) \<in> set (rankRecommendations loc cs h limit now).
      p \<in> set cs \<and> sp_id p \<notin> set (solvedProblemIds h) \<and> score = scoreProblem p h now default_weights \<and>
      4 \<le> score \<and> score \<le> 100) \<and>
    length (rankRecommendations loc cs h limit now) =
      min limit (length (filter (\<lambda>p. sp_id p \<notin> set (solvedProblemIds h)) cs)) \<and>
    sorted_wrt (\<lambda>(p, s, _) (q, t, _). rank_le loc (p, s) (q, t)) (rankRecommendations loc cs h limit now) \<and>
    (\<forall>(p, s, _) \<in> set (rankRecommendations loc cs h limit now). \<forall>q \<in> set cs.
      sp_id q \<notin> set (solvedProblemIds h) \<longrightarrow> q \<notin> fst ` set (rankRecommendations loc cs h limit now) \<longrightarrow>
      rank_le loc (p, s) (q, scoreProblem q h now default_weights)) \<and>
    (\<forall>cs'. mset cs' = mset cs \<longrightarrow> rankRecommendations loc cs' h limit now = rankRecommendations loc cs h limit now)"
proof (intro conjI)
  let ?sc = "sort_by (rank_le loc) (scored_of h now cs)"
  let ?out = "rankRecommendations loc cs h limit now"
  have sorted: "sorted_wrt (rank_le loc) (sort_by (rank_le loc) xs)" for xs
    by (rule comparator.sorted_sort_by [OF rank_comparator [OF assms(1)]]) simp
  have out: "?out = map (\<lambda>(p, s). (p, s, reason_for h now p)) (take limit ?sc)"
    by (simp add: rankRecommendations_def)
  have mem: "s \<in> set ?sc \<longleftrightarrow> s \<in> set (scored_of h now cs)" for s by simp
  show "\<forall>(p, score, reason) \<in> set ?out. p \<in> set cs \<and> sp_id p \<notin> set (solvedProblemIds h) \<and>
      score = scoreProblem p h now default_weights \<and> 4 \<le> score \<and> score \<le> 100"
    unfolding out using score_pos score_range
    by (auto dest!: in_set_takeD simp: scored_of_in)
  show "length ?out = min limit (length (filter (\<lambda>p. sp_id p \<notin> set (solvedProblemIds h)) cs))"
    by (simp add: out scored_of_eq min.commute)
  show "sorted_wrt (\<lambda>(p, s, _) (q, t, _). rank_le loc (p, s) (q, t)) ?out"
    unfolding out sorted_wrt_map using sorted_wrt_take [OF sorted] by (rule sorted_wrt_mono_rel [rotated]) auto
  show "\<forall>(p, s, _) \<in> set ?out. \<forall>q \<in> set cs. sp_id q \<notin> set (solvedProblemIds h) \<longrightarrow> q \<notin> fst ` set ?out \<longrightarrow>
      rank_le loc (p, s) (q, scoreProblem q h now default_weights)"
  proof (clarify)
    fix p s r q
    assume p: "(p, s, r) \<in> set ?out" and q: "q \<in> set cs" "sp_id q \<notin> set (solvedProblemIds h)" "q \<notin> fst ` set ?out"
    have ps: "(p, s) \<in> set (take limit ?sc)" using p unfolding out by auto
    let ?q = "(q, scoreProblem q h now default_weights)"
    have "?q \<in> set ?sc" using q by (simp add: scored_of_in)
    moreover have "?q \<notin> set (take limit ?sc)" using q(3) unfolding out by force
    ultimately have qd: "?q \<in> set (drop limit ?sc)" by (metis Un_iff append_take_drop_id set_append)
    show "rank_le loc (p, s) ?q"
      using sorted [of "scored_of h now cs"] ps qd by (metis append_take_drop_id sorted_wrt_append)
  qed
  show "\<forall>cs'. mset cs' = mset cs \<longrightarrow> rankRecommendations loc cs' h limit now = ?out"
  proof (intro allI impI)
    fix cs' :: "scored_problem list"
    assume m: "mset cs' = mset cs"
    have anti: "x = y" if "x \<in> set (scored_of h now cs)" "y \<in> set (scored_of h now cs)" "rank_le loc x y" "rank_le loc y x" for x y
    proof -
      have "sp_id (fst x) = sp_id (fst y)" using rank_le_antisym [OF assms(1)] that(3,4) .
      then have "fst x = fst y" using that(1,2) assms(2) by (auto simp: scored_of_in distinct_map inj_on_def)
      then show ?thesis using that(1,2) by (auto simp: scored_of_in prod_eq_iff)
    qed
    have "mset (scored_of h now cs') = mset (scored_of h now cs)" using m by (simp add: scored_of_def)
    then have "sort_by (rank_le loc) (scored_of h now cs) = sort_by (rank_le loc) (scored_of h now cs')"
      by (intro sorted_wrt_unique [of _ "rank_le loc"] sorted anti) simp_all
    then show "rankRecommendations loc cs' h limit now = ?out" by (simp add: rankRecommendations_def)
  qed
qed

definition plain_problem :: "string \<Rightarrow> difficulty \<Rightarrow> scored_problem" where
  "plain_problem i d = \<lparr>sp_id = i, sp_difficulty = d, sp_acceptanceRate = Some (1/2), sp_tagSlugs = [], sp_createdAt = 0\<rparr>"

lemma string_order: "total_order ((\<le>) :: string \<Rightarrow> string \<Rightarrow> bool)"
  by (auto simp: total_order_def)

lemma ranking_is_canonical_witness:
  "let h = \<lparr>solvedProblemIds = [''c''], recentSolves = [], recentlyShownIds = []\<rparr>;
       a = plain_problem ''a'' Easy; b = plain_problem ''b'' Hard; c = plain_problem ''c'' Easy
   in rankRecommendations (\<le>) [a, b, c] h 5 7 = rankRecommendations (\<le>) [c, b, a] h 5 7 \<and>
      length (rankRecommendations (\<le>) [a, b, c] h 5 7) = 2"
proof -
  let ?h = "\<lparr>solvedProblemIds = [''c''], recentSolves = [], recentlyShownIds = []\<rparr>"
  let ?a = "plain_problem ''a'' Easy" and ?b = "plain_problem ''b'' Hard" and ?c = "plain_problem ''c'' Easy"
  have d: "distinct (map sp_id [?a, ?b, ?c])" by (simp add: plain_problem_def)
  note t = ranking_is_canonical [OF string_order d, of ?h 5 7]
  have all: "\<forall>cs'. mset cs' = mset [?a, ?b, ?c] \<longrightarrow>
      rankRecommendations (\<le>) cs' ?h 5 7 = rankRecommendations (\<le>) [?a, ?b, ?c] ?h 5 7" using t by (elim conjE)
  have "mset [?c, ?b, ?a] = mset [?a, ?b, ?c]" by simp
  with all have same: "rankRecommendations (\<le>) [?c, ?b, ?a] ?h 5 7 = rankRecommendations (\<le>) [?a, ?b, ?c] ?h 5 7" by blast
  have "length (rankRecommendations (\<le>) [?a, ?b, ?c] ?h 5 7) =
      min 5 (length (filter (\<lambda>p. sp_id p \<notin> set (solvedProblemIds ?h)) [?a, ?b, ?c]))" using t by (elim conjE)
  also have "\<dots> = 2" by (simp add: plain_problem_def)
  finally show ?thesis unfolding Let_def same by (intro conjI refl)
qed

lemma attachMeta_in:
  assumes "distinct (map rq_id (rc_problems db))" "p \<in> set (rc_problems db)" "(rq_id p, r) \<in> set ranked"
  shows "\<exists>recs. attachMeta ranked ([], db) = (Inr recs, ([], db)) \<and> rq_id p \<in> ar_id ` set recs"
proof -
  let ?meta = "filter (\<lambda>p. rq_id p \<in> set (map fst ranked)) (rc_problems db)"
  let ?recs = "concat (map (meta_of ?meta) ranked)"
  have "rq_id p \<in> set (map fst ranked)" using assms(3) by force
  then have "p \<in> set ?meta" using assms(2) by simp
  moreover have "distinct (map rq_id ?meta)" using assms(1) by (simp add: distinct_map_filter)
  ultimately have "find_by rq_id (rq_id p) ?meta = Some p" by (rule find_by_unique [rotated])
  then have "rq_id p \<in> ar_id ` set (meta_of ?meta (rq_id p, r))" by (simp add: meta_of_def)
  moreover have "set (meta_of ?meta (rq_id p, r)) \<subseteq> set ?recs"
    using assms(3) unfolding set_concat set_map by blast
  ultimately have "rq_id p \<in> ar_id ` set ?recs" by blast
  moreover have "attachMeta ranked ([], db) = (Inr ?recs, ([], db))"
    using assms(3) by (auto simp: attachMeta_def bind_def)
  ultimately show ?thesis by blast
qed

text \<open>
  A problem solved long ago is recommended again. The history takes its set of solved
  problems from the latest 50 accepted submissions only: a problem of the catalog that the
  user has solved, but not in those, is not excluded; with at most five problems in all
  the user is served it.
\<close>

theorem old_solve_is_recommended:
  assumes "distinct (map rq_id (rc_problems db))" "length (rc_problems db) \<le> 5" "p \<in> set (rc_problems db)"
    "\<exists>s \<in> set (rc_subs db). rs_user s = u \<and> rs_status s = ''accepted'' \<and> rs_problem s = rq_id p"
    "rq_id p \<notin> rs_problem ` set (take 50 (sort_by newest_sub
       (filter (\<lambda>s. rs_user s = u \<and> rs_status s = ''accepted'') (rc_subs db))))"
  shows "\<exists>recs. result (buildAuthed loc u now) [] db = Inr recs \<and> rq_id p \<in> ar_id ` set recs"
proof -
  let ?h = "loadUserHistory u db" and ?cs = "loadCandidates db"
  let ?sc = "scored_of ?h now ?cs"
  have cs: "length ?cs \<le> 5" using assms(2) by (simp add: loadCandidates_def)
  have sc: "length ?sc \<le> 5" unfolding scored_of_eq using cs length_filter_le le_trans by (metis length_map)
  obtain q where q: "q \<in> set ?cs" "sp_id q = rq_id p"
    using assms(2,3) by (force simp: loadCandidates_def)
  have "sp_id q \<notin> set (solvedProblemIds ?h)" using assms(5) q by (simp add: loadUserHistory_def Let_def)
  then have "(q, scoreProblem q ?h now default_weights) \<in> set ?sc" using q by (simp add: scored_of_in)
  moreover have ranked: "rankRecommendations loc ?cs ?h 5 now = map (\<lambda>(p, score). (p, score, reason_for ?h now p)) (sort_by (rank_le loc) ?sc)"
    using sc by (simp add: rankRecommendations_def)
  ultimately have r: "(q, scoreProblem q ?h now default_weights, reason_for ?h now q) \<in> set (rankRecommendations loc ?cs ?h 5 now)"
    by force
  let ?ids = "map (\<lambda>(p, score, reason). (sp_id p, reason)) (rankRecommendations loc ?cs ?h 5 now)"
  have i: "(rq_id p, reason_for ?h now q) \<in> set ?ids" using r q(2) by force
  have ne: "rankRecommendations loc ?cs ?h 5 now \<noteq> []" using r by auto
  obtain recs where "attachMeta ?ids ([], db) = (Inr recs, ([], db))" "rq_id p \<in> ar_id ` set recs"
    using attachMeta_in [OF assms(1,3) i] by blast
  then show ?thesis
    using ne by (simp add: buildAuthed_def result_def bind_def Let_def)
qed

definition old_sub :: "string \<Rightarrow> int \<Rightarrow> rec_sub" where
  "old_sub p t = \<lparr>rs_user = 1, rs_problem = p, rs_status = ''accepted'', rs_createdAt = t\<rparr>"

definition old_solves_db :: rec_db where
  "old_solves_db = \<lparr>rc_problems = map (\<lambda>i. \<lparr>rq_id = i, rq_title = i, rq_slug = i, rq_difficulty = ''easy'',
       rq_acceptanceRate = None, rq_tags = [], rq_createdAt = 0\<rparr>) [''old'', ''new''],
     rc_subs = old_sub ''old'' 1 # replicate 50 (old_sub ''new'' 2)\<rparr>"

lemma old_solve_is_recommended_witness:
  "\<exists>recs. result (buildAuthed (\<le>) 1 0) [] old_solves_db = Inr recs \<and> ''old'' \<in> ar_id ` set recs"
proof -
  let ?p = "\<lparr>rq_id = ''old'', rq_title = ''old'', rq_slug = ''old'', rq_difficulty = ''easy'',
       rq_acceptanceRate = None, rq_tags = [], rq_createdAt = 0\<rparr> :: rec_problem"
  have "set (map rs_problem (take 50 (sort_by newest_sub (filter (\<lambda>s. rs_user s = 1 \<and> rs_status s = ''accepted'')
      (rc_subs old_solves_db))))) = {''new''}"
    by code_simp
  then have "rq_id ?p \<notin> rs_problem ` set (take 50 (sort_by newest_sub (filter (\<lambda>s. rs_user s = 1 \<and> rs_status s = ''accepted'')
      (rc_subs old_solves_db))))"
    unfolding set_map by simp
  then have "\<exists>recs. result (buildAuthed (\<le>) 1 0) [] old_solves_db = Inr recs \<and> rq_id ?p \<in> ar_id ` set recs"
    by (intro old_solve_is_recommended) (simp_all add: old_solves_db_def old_sub_def)
  then show ?thesis by simp
qed

end
