(* ===== verification/CodePlayback.thy ===== *)
theory CodePlayback
  imports Effects
begin

section \<open>Code playback\<close>

text \<open>
  Recorded editor events (\<^verbatim>\<open>src/lib/code-playback.ts\<close>) and the two routes that store and
  serve them (\<^verbatim>\<open>submissions/[id]/events\<close> and \<^verbatim>\<open>submissions/[id]/playback\<close>). Numbers inside
  a payload are finite; a timestamp may be non-finite (\<open>None\<close>). A missing or mistyped field
  of a payload is \<open>None\<close>.
\<close>

subsection \<open>Events\<close>

datatype event_type = Keystroke | Paste | Select | Snapshot

record raw_range =
  rr_startLine :: real
  rr_startColumn :: real
  rr_endLine :: real
  rr_endColumn :: real

record raw_payload =
  rp_range :: "raw_range option"
  rp_text :: "string option"
  rp_rangeLength :: "real option"
  rp_selection :: "raw_range option"
  rp_code :: "string option"

record raw_event =
  re_type :: string
  re_ts :: "real option"
  re_payload :: "raw_payload option"

record play_range =
  startLine :: int
  startColumn :: int
  endLine :: int
  endColumn :: int

datatype payload = Edit play_range string int | Selection play_range | Code string

record event =
  ev_type :: event_type
  ev_ts :: int
  ev_payload :: payload

definition isPlaybackEventType :: "string \<Rightarrow> event_type option" where
  "isPlaybackEventType t =
    (if t = ''keystroke'' then Some Keystroke else if t = ''paste'' then Some Paste
     else if t = ''select'' then Some Select else if t = ''snapshot'' then Some Snapshot else None)"

definition type_name :: "event_type \<Rightarrow> string" where
  "type_name t = (case t of Keystroke \<Rightarrow> ''keystroke'' | Paste \<Rightarrow> ''paste'' | Select \<Rightarrow> ''select'' | Snapshot \<Rightarrow> ''snapshot'')"

subsection \<open>Serialization\<close>

definition canonicalRange :: "raw_range \<Rightarrow> play_range" where
  "canonicalRange r =
    \<lparr>startLine = max 1 \<lfloor>rr_startLine r\<rfloor>, startColumn = max 1 \<lfloor>rr_startColumn r\<rfloor>,
     endLine = max 1 \<lfloor>rr_endLine r\<rfloor>, endColumn = max 1 \<lfloor>rr_endColumn r\<rfloor>\<rparr>"

definition canonicalPayload :: "event_type \<Rightarrow> raw_payload \<Rightarrow> string + payload" where
  "canonicalPayload type p =
    (case type of
       Select \<Rightarrow> (case rp_selection p of
           None \<Rightarrow> Inl ''select payload missing selection''
         | Some r \<Rightarrow> Inr (Selection (canonicalRange r)))
     | Snapshot \<Rightarrow> (case rp_code p of
           None \<Rightarrow> Inl ''snapshot payload missing code''
         | Some c \<Rightarrow> Inr (Code c))
     | _ \<Rightarrow> (case (rp_range p, rp_text p) of
           (Some r, Some t) \<Rightarrow> Inr (Edit (canonicalRange r) t
             (max 0 \<lfloor>case rp_rangeLength p of None \<Rightarrow> 0 | Some n \<Rightarrow> n\<rfloor>))
         | _ \<Rightarrow> Inl (type_name type @ '' payload missing range or text'')))"

definition no_payload :: raw_payload where
  "no_payload = \<lparr>rp_range = None, rp_text = None, rp_rangeLength = None, rp_selection = None, rp_code = None\<rparr>"

text \<open>Reading a field of a null payload throws a TypeError; other non-objects have no such field.\<close>

definition serializeEvent :: "raw_event \<Rightarrow> string + event" where
  "serializeEvent ev =
    (case isPlaybackEventType (re_type ev) of
       None \<Rightarrow> Inl (''unknown playback event type: '' @ re_type ev)
     | Some ty \<Rightarrow>
         (case re_ts ev of
            None \<Rightarrow> Inl ''playback event ts must be a non-negative number''
          | Some ts \<Rightarrow>
              if ts < 0 then Inl ''playback event ts must be a non-negative number''
              else (case re_payload ev of
                 None \<Rightarrow> Inl ''TypeError''
               | Some p \<Rightarrow>
                   (case canonicalPayload ty p of
                      Inl e \<Rightarrow> Inl e
                    | Inr pl \<Rightarrow> Inr \<lparr>ev_type = ty, ev_ts = max 0 \<lfloor>ts\<rfloor>, ev_payload = pl\<rparr>))))"

definition max_events_per_flush :: nat where
  "max_events_per_flush = 5000"

fun map_result :: "('a \<Rightarrow> 'e + 'b) \<Rightarrow> 'a list \<Rightarrow> 'e + 'b list" where
  "map_result f [] = Inr []"
| "map_result f (x # xs) =
    (case f x of Inl e \<Rightarrow> Inl e | Inr y \<Rightarrow> (case map_result f xs of Inl e \<Rightarrow> Inl e | Inr ys \<Rightarrow> Inr (y # ys)))"

definition serializeEvents :: "raw_event list \<Rightarrow> string + event list" where
  "serializeEvents events =
    (if length events > max_events_per_flush
     then Inl ''playback flush exceeds MAX_EVENTS_PER_FLUSH (5000)''
     else map_result serializeEvent events)"

record event_row =
  er_submission :: nat
  er_type :: string
  er_ts :: int
  er_payload :: "raw_payload option"

definition ts_le :: "event \<Rightarrow> event \<Rightarrow> bool" where
  "ts_le a b \<longleftrightarrow> ev_ts a - ev_ts b \<le> 0"

definition deserialize_row :: "event_row \<Rightarrow> event list" where
  "deserialize_row row =
    (case isPlaybackEventType (er_type row) of
       None \<Rightarrow> []
     | Some ty \<Rightarrow>
         (case er_payload row of
            None \<Rightarrow> []
          | Some p \<Rightarrow>
              (case canonicalPayload ty p of
                 Inl e \<Rightarrow> []
               | Inr pl \<Rightarrow> [\<lparr>ev_type = ty, ev_ts = max 0 (er_ts row), ev_payload = pl\<rparr>])))"

definition deserializeEvents :: "event_row list \<Rightarrow> event list" where
  "deserializeEvents rows = sort_by ts_le (concat (map deserialize_row rows))"

text \<open>A canonical payload as the JSON object that is stored.\<close>

definition raw_of_range :: "play_range \<Rightarrow> raw_range" where
  "raw_of_range r = \<lparr>rr_startLine = of_int (startLine r), rr_startColumn = of_int (startColumn r),
     rr_endLine = of_int (endLine r), rr_endColumn = of_int (endColumn r)\<rparr>"

definition payload_json :: "payload \<Rightarrow> raw_payload" where
  "payload_json p =
    (case p of
       Edit r t n \<Rightarrow> no_payload\<lparr>rp_range := Some (raw_of_range r), rp_text := Some t, rp_rangeLength := Some (of_int n)\<rparr>
     | Selection r \<Rightarrow> no_payload\<lparr>rp_selection := Some (raw_of_range r)\<rparr>
     | Code c \<Rightarrow> no_payload\<lparr>rp_code := Some c\<rparr>)"

definition row_of :: "nat \<Rightarrow> event \<Rightarrow> event_row" where
  "row_of i ev = \<lparr>er_submission = i, er_type = type_name (ev_type ev), er_ts = ev_ts ev,
     er_payload = Some (payload_json (ev_payload ev))\<rparr>"

subsection \<open>Debounce\<close>

fun debounce_loop :: "int \<Rightarrow> event list \<Rightarrow> event list \<Rightarrow> event option \<Rightarrow> event list" where
  "debounce_loop windowMs [] out lastKept = out"
| "debounce_loop windowMs (ev # evs) out lastKept =
    (case lastKept of
       Some k \<Rightarrow>
         if ev_type k = Keystroke \<and> ev_type ev = Keystroke \<and> ev_ts ev - ev_ts k < windowMs
         then debounce_loop windowMs evs (out[length out - 1 := ev]) (Some ev)
         else debounce_loop windowMs evs (out @ [ev]) (Some ev)
     | None \<Rightarrow> debounce_loop windowMs evs (out @ [ev]) (Some ev))"

definition debounceEvents :: "int \<Rightarrow> event list \<Rightarrow> event list" where
  "debounceEvents windowMs events =
    (if windowMs \<le> 0 \<or> length events \<le> 1 then events else debounce_loop windowMs events [] None)"

subsection \<open>Playback\<close>

definition newline :: char where
  "newline = CHR 0x0A"

text \<open>\<^verbatim>\<open>code.indexOf(c, from)\<close>, \<open>None\<close> for -1.\<close>

definition index_from :: "char \<Rightarrow> string \<Rightarrow> nat \<Rightarrow> nat option" where
  "index_from c s from =
    (let k = length (takeWhile (\<lambda>x. x \<noteq> c) (drop from s))
     in if from + k < length s then Some (from + k) else None)"

function seek_line :: "string \<Rightarrow> int \<Rightarrow> nat \<Rightarrow> int \<Rightarrow> nat" where
  "seek_line code line offset l =
    (if l < line \<and> offset < length code then
       (case index_from newline code offset of
          None \<Rightarrow> length code
        | Some nl \<Rightarrow> seek_line code line (nl + 1) (l + 1))
     else offset)"
  by auto
termination
  by (relation "measure (\<lambda>(code, line, offset, l). length code - offset)")
    (auto simp: index_from_def Let_def split: if_splits)

declare seek_line.simps [simp del]

definition offsetForPosition :: "string \<Rightarrow> int \<Rightarrow> int \<Rightarrow> nat" where
  "offsetForPosition code line column =
    (if line \<le> 1 then nat (max 0 (min (int (length code)) (column - 1)))
     else nat (max 0 (min (int (length code)) (int (seek_line code line 0 1) + (column - 1)))))"

definition applyEdit :: "string \<Rightarrow> play_range \<Rightarrow> string \<Rightarrow> string" where
  "applyEdit code rng text =
    (let start = offsetForPosition code (startLine rng) (startColumn rng);
         ending = offsetForPosition code (endLine rng) (endColumn rng)
     in if start > ending then code else take start code @ text @ drop ending code)"

text \<open>\<^verbatim>\<open>text.split("\n")\<close>.\<close>

fun split_lines :: "string \<Rightarrow> string list" where
  "split_lines [] = [[]]"
| "split_lines (c # cs) =
    (if c = newline then [] # split_lines cs
     else (case split_lines cs of [] \<Rightarrow> [[c]] | l # ls \<Rightarrow> (c # l) # ls))"

definition collapsedAfter :: "play_range \<Rightarrow> string \<Rightarrow> play_range" where
  "collapsedAfter rng text =
    (let lines = split_lines text;
         lineDelta = int (length lines) - 1;
         eline = startLine rng + lineDelta;
         ecolumn = (if lineDelta = 0 then startColumn rng + int (length (hd lines))
                    else int (length (last lines)) + 1)
     in \<lparr>startLine = eline, startColumn = ecolumn, endLine = eline, endColumn = ecolumn\<rparr>)"

record frame =
  fr_ts :: int
  fr_code :: string
  fr_selection :: play_range
  fr_eventIndex :: nat

definition play_event :: "event \<Rightarrow> string \<times> play_range \<Rightarrow> string \<times> play_range" where
  "play_event ev s =
    (case ev_payload ev of
       Code c \<Rightarrow> (c, snd s)
     | Selection r \<Rightarrow> (fst s, r)
     | Edit r t n \<Rightarrow> (applyEdit (fst s) r t, collapsedAfter r t))"

fun play_frames :: "real \<Rightarrow> event list \<Rightarrow> string \<times> play_range \<Rightarrow> nat \<Rightarrow> frame list" where
  "play_frames speed [] s i = []"
| "play_frames speed (ev # evs) s i =
    (let s' = play_event ev s
     in \<lparr>fr_ts = \<lfloor>of_int (ev_ts ev) / speed\<rfloor>, fr_code = fst s', fr_selection = snd s', fr_eventIndex = i\<rparr>
        # play_frames speed evs s' (i + 1))"

definition default_selection :: play_range where
  "default_selection = \<lparr>startLine = 1, startColumn = 1, endLine = 1, endColumn = 1\<rparr>"

definition playback :: "event list \<Rightarrow> real option \<Rightarrow> string option \<Rightarrow> frame list" where
  "playback events speed initialCode =
    (let sp = (case speed of None \<Rightarrow> 1 | Some x \<Rightarrow> if x > 0 then x else 1)
     in play_frames sp events ((case initialCode of None \<Rightarrow> [] | Some c \<Rightarrow> c), default_selection) 0)"

definition playbackToArray :: "event list \<Rightarrow> real option \<Rightarrow> string option \<Rightarrow> frame list" where
  "playbackToArray events speed initialCode = take 10000 (playback events speed initialCode)"

definition durationMs :: "event list \<Rightarrow> int" where
  "durationMs events = (if events = [] then 0 else max 0 (ev_ts (last events)))"

subsection \<open>The routes\<close>

record play_db =
  pd_submissions :: "(nat \<times> nat) list"
  pd_events :: "event_row list"

text \<open>What the zod schema of a flush accepts.\<close>

definition event_schema :: "raw_event \<Rightarrow> bool" where
  "event_schema ev \<longleftrightarrow> isPlaybackEventType (re_type ev) \<noteq> None \<and>
    (case re_ts ev of None \<Rightarrow> False | Some ts \<Rightarrow> ts = of_int \<lfloor>ts\<rfloor> \<and> 0 \<le> ts)"

definition flush_schema :: "raw_event list option \<Rightarrow> bool" where
  "flush_schema body \<longleftrightarrow>
    (case body of None \<Rightarrow> False | Some evs \<Rightarrow> list_all event_schema evs \<and> length evs \<le> max_events_per_flush)"

definition events_POST ::
  "bool \<Rightarrow> session option \<Rightarrow> nat \<Rightarrow> raw_event list option \<Rightarrow> (play_db, string, nat reply) prog" where
  "events_POST enabled session i body =
    (if \<not> enabled then ret (Failed 404 ''Not found'')
     else catch
      (case session of
         None \<Rightarrow> ret (Failed 401 ''Unauthorized'')
       | Some se \<Rightarrow>
           bind (query ''db'' (\<lambda>db. jm_get (pd_submissions db) i)) (\<lambda>owner.
             case owner of
               None \<Rightarrow> ret (Failed 404 ''Submission not found'')
             | Some u \<Rightarrow>
                 if u \<noteq> se_userId se then ret (Failed 403 ''Forbidden'')
                 else if \<not> flush_schema body then ret (Failed 400 ''Invalid request'')
                 else (case serializeEvents (the body) of
                     Inl e \<Rightarrow> ret (Failed 400 e)
                   | Inr canonical \<Rightarrow>
                       if canonical = [] then ret (Reply 200 0)
                       else bind (update ''db'' (\<lambda>db. db\<lparr>pd_events := pd_events db @ map (row_of i) canonical\<rparr>)) (\<lambda>_.
                         ret (Reply 200 (length canonical))))))
      (\<lambda>_. ret (Failed 500 ''Internal server error'')))"

text \<open>
  The rows are read \<^verbatim>\<open>orderBy: { ts: "asc" }\<close>; the list of the table is the order in which the database
  returns rows with equal times, which need not be the order of their insertion.
\<close>

definition row_ts_le :: "event_row \<Rightarrow> event_row \<Rightarrow> bool" where
  "row_ts_le a b \<longleftrightarrow> er_ts a \<le> er_ts b"

definition playback_GET ::
  "bool \<Rightarrow> session option \<Rightarrow> nat \<Rightarrow> (play_db, string, (event list \<times> nat \<times> int) reply) prog" where
  "playback_GET enabled session i =
    (if \<not> enabled then ret (Failed 404 ''Not found'')
     else catch
      (case session of
         None \<Rightarrow> ret (Failed 401 ''Unauthorized'')
       | Some se \<Rightarrow>
           bind (query ''db'' (\<lambda>db. jm_get (pd_submissions db) i)) (\<lambda>owner.
             case owner of
               None \<Rightarrow> ret (Failed 404 ''Submission not found'')
             | Some u \<Rightarrow>
                 if u \<noteq> se_userId se \<and> se_role se \<noteq> ''admin'' then ret (Failed 403 ''Forbidden'')
                 else bind (query ''db'' (\<lambda>db. sort_by row_ts_le (filter (\<lambda>r. er_submission r = i) (pd_events db)))) (\<lambda>rows.
                   let events = deserializeEvents rows
                   in ret (Reply 200 (events, length events, durationMs events)))))
      (\<lambda>_. ret (Failed 500 ''Internal server error'')))"

interpretation by_ts: comparator ts_le UNIV
  by unfold_locales (auto simp: ts_le_def)

interpretation by_row_ts: comparator row_ts_le UNIV
  by unfold_locales (auto simp: row_ts_le_def)

subsection \<open>Positions\<close>

text \<open>The line and the column, from 1, at which a text ends.\<close>

definition newlines :: "string \<Rightarrow> nat" where
  "newlines s = length (filter (\<lambda>c. c = newline) s)"

definition trail :: "string \<Rightarrow> nat" where
  "trail s = length (takeWhile (\<lambda>c. c \<noteq> newline) (rev s))"

definition end_line :: "string \<Rightarrow> int" where
  "end_line s = 1 + int (newlines s)"

definition end_column :: "string \<Rightarrow> int" where
  "end_column s = 1 + int (trail s)"

lemma newlines_append [simp]: "newlines (a @ b) = newlines a + newlines b"
  by (simp add: newlines_def)

lemma newlines_zero: "newlines s = 0 \<longleftrightarrow> newline \<notin> set s"
  by (auto simp: newlines_def filter_empty_conv)

lemma trail_none: "newline \<notin> set s \<Longrightarrow> trail s = length s"
proof -
  assume "newline \<notin> set s"
  then have "\<forall>c \<in> set (rev s). c \<noteq> newline" by auto
  then have "takeWhile (\<lambda>c. c \<noteq> newline) (rev s) = rev s" by (simp only: takeWhile_eq_all_conv)
  then show "trail s = length s" by (simp only: trail_def length_rev)
qed

lemma trail_append: "trail (a @ b) = (if newline \<in> set b then trail b else trail a + length b)"
proof (cases "newline \<in> set b")
  case True
  then show ?thesis by (simp add: trail_def takeWhile_append1)
next
  case False
  then have "takeWhile (\<lambda>c. c \<noteq> newline) (rev b @ rev a) = rev b @ takeWhile (\<lambda>c. c \<noteq> newline) (rev a)"
    by (intro takeWhile_append2) auto
  then show ?thesis using False by (simp add: trail_def)
qed

lemma trail_le: "trail s \<le> length s"
  using length_takeWhile_le [of "\<lambda>c. c \<noteq> newline" "rev s"] by (simp add: trail_def)

lemma seek_line_end:
  "seek_line (a @ b @ post) (l + int (newlines b)) (length a) l = length a + length b - trail b"
proof (induction "length b" arbitrary: a b l rule: less_induct)
  case less
  show ?case
  proof (cases "newline \<in> set b")
    case False
    then show ?thesis
      by (subst seek_line.simps) (simp add: trail_none newlines_zero [THEN iffD2])
  next
    case True
    then obtain b1 b2 where b: "b = b1 @ newline # b2" "newline \<notin> set b1" by (metis split_list_first)
    then have "b \<noteq> []" by simp
    have i: "index_from newline (a @ b @ post) (length a) = Some (length a + length b1)"
      using b by (auto simp: index_from_def Let_def takeWhile_append)
    have n: "newlines b = Suc (newlines b2)" using b by (simp add: newlines_def newlines_zero [unfolded newlines_def, THEN iffD2])
    have "seek_line (a @ b @ post) (l + int (newlines b)) (length a) l =
        seek_line (a @ b @ post) (l + 1 + int (newlines b2)) (length (a @ b1 @ [newline])) (l + 1)"
      using \<open>b \<noteq> []\<close> by (subst seek_line.simps) (simp add: i n algebra_simps)
    also have "\<dots> = length (a @ b1 @ [newline]) + length b2 - trail b2"
    proof -
      have "a @ b @ post = (a @ b1 @ [newline]) @ b2 @ post" by (simp add: b)
      moreover have "length b2 < length b" by (simp add: b)
      ultimately show ?thesis using less [of b2 "a @ b1 @ [newline]" "l + 1"] by (simp only:)
    qed
    also have "\<dots> = length a + length b - trail b"
    proof -
      have "trail b = trail b2" using trail_append [of "b1 @ [newline]" b2] trail_append [of b1 "[newline]"] trail_none [of b2]
        by (auto simp: b trail_def)
      then show ?thesis by (simp add: b)
    qed
    finally show ?thesis .
  qed
qed

lemma offset_of_end: "offsetForPosition (pre @ post) (end_line pre) (end_column pre) = length pre"
proof (cases "newlines pre = 0")
  case True
  then show ?thesis by (simp add: offsetForPosition_def end_line_def end_column_def trail_none newlines_zero)
next
  case False
  have "seek_line (pre @ post) (end_line pre) 0 1 = length pre - trail pre"
    using seek_line_end [of "[]" pre post 1] by (simp add: end_line_def)
  then show ?thesis using False trail_le [of pre]
    by (simp add: offsetForPosition_def end_line_def end_column_def)
qed

lemma split_lines_shape:
  "split_lines s \<noteq> [] \<and> length (split_lines s) = newlines s + 1 \<and> length (last (split_lines s)) = trail s \<and>
    (newline \<notin> set s \<longrightarrow> split_lines s = [s])"
proof (induction s)
  case (Cons c s)
  have t: "trail (c # s) = (if newline \<in> set s then trail s else if c = newline then length s else Suc (length s))"
    using trail_append [of "[c]" s] by (simp add: trail_def)
  obtain l ls where s: "split_lines s = l # ls" using Cons by (cases "split_lines s") auto
  show ?case
  proof (cases "newline \<in> set s")
    case True
    then have "ls \<noteq> []" using Cons s by (auto simp: newlines_def filter_empty_conv)
    then show ?thesis using Cons s t True by (auto simp: newlines_def)
  next
    case False
    then show ?thesis using Cons s t by (auto simp: newlines_def trail_none)
  qed
qed (simp add: newlines_def trail_def)

subsection \<open>Canonical events\<close>

definition canonical_range :: "play_range \<Rightarrow> bool" where
  "canonical_range r \<longleftrightarrow> 1 \<le> startLine r \<and> 1 \<le> startColumn r \<and> 1 \<le> endLine r \<and> 1 \<le> endColumn r"

definition canonical :: "event \<Rightarrow> bool" where
  "canonical ev \<longleftrightarrow> 0 \<le> ev_ts ev \<and>
    (case ev_payload ev of
       Edit r t n \<Rightarrow> ev_type ev \<in> {Keystroke, Paste} \<and> canonical_range r \<and> 0 \<le> n
     | Selection r \<Rightarrow> ev_type ev = Select \<and> canonical_range r
     | Code c \<Rightarrow> ev_type ev = Snapshot)"

lemma canonicalRange_ok: "canonical_range (canonicalRange r)"
  by (simp add: canonical_range_def canonicalRange_def)

lemma serializeEvent_canonical: "serializeEvent raw = Inr ev \<Longrightarrow> canonical ev"
  by (auto simp: serializeEvent_def canonicalPayload_def canonical_def canonicalRange_ok
      split: option.splits event_type.splits if_splits sum.splits)

lemma map_result_all: "map_result f xs = Inr ys \<Longrightarrow> (\<And>x y. f x = Inr y \<Longrightarrow> P y) \<Longrightarrow> list_all P ys"
  by (induction xs arbitrary: ys) (auto split: sum.splits)

lemma serializeEvents_canonical: "serializeEvents raws = Inr evs \<Longrightarrow> list_all canonical evs"
  unfolding serializeEvents_def by (auto split: if_splits intro: map_result_all serializeEvent_canonical)

lemma range_back: "canonical_range r \<Longrightarrow> canonicalRange (raw_of_range r) = r"
  by (simp add: canonical_range_def canonicalRange_def raw_of_range_def)

lemma type_back [simp]: "isPlaybackEventType (type_name t) = Some t"
  by (cases t) (simp_all add: isPlaybackEventType_def type_name_def)

lemma row_back: "canonical ev \<Longrightarrow> deserialize_row (row_of i ev) = [ev]"
  by (cases ev; cases "ev_payload ev"; cases "ev_type ev")
    (auto simp: deserialize_row_def row_of_def payload_json_def canonicalPayload_def no_payload_def canonical_def range_back)

lemma rows_back: "list_all canonical evs \<Longrightarrow> concat (map (deserialize_row \<circ> row_of i) evs) = evs"
  by (induction evs) (simp_all add: row_back)

subsection \<open>Properties\<close>

text \<open>
  An edit replaces exactly the text it names. When a range's start is the line and column
  at which \<open>pre\<close> ends and its end is the line and column at which \<open>pre @ mid\<close> ends,
  applying the edit to \<open>pre @ mid @ post\<close> gives \<open>pre @ text @ post\<close>, and the cursor
  lands where \<open>pre @ text\<close> ends, however many lines the three pieces span.
\<close>

theorem edit_is_splice:
  assumes "startLine r = end_line pre" "startColumn r = end_column pre"
    "endLine r = end_line (pre @ mid)" "endColumn r = end_column (pre @ mid)"
  shows "applyEdit (pre @ mid @ post) r text = pre @ text @ post \<and>
    collapsedAfter r text = \<lparr>startLine = end_line (pre @ text), startColumn = end_column (pre @ text),
      endLine = end_line (pre @ text), endColumn = end_column (pre @ text)\<rparr>"
proof
  have "offsetForPosition (pre @ mid @ post) (startLine r) (startColumn r) = length pre"
    using offset_of_end [of pre "mid @ post"] assms by simp
  moreover have "offsetForPosition (pre @ mid @ post) (endLine r) (endColumn r) = length (pre @ mid)"
    using offset_of_end [of "pre @ mid" post] assms by simp
  ultimately show "applyEdit (pre @ mid @ post) r text = pre @ text @ post"
    by (simp add: applyEdit_def)
  have sl: "length (split_lines text) = newlines text + 1" "length (last (split_lines text)) = trail text"
    "newline \<notin> set text \<Longrightarrow> split_lines text = [text]"
    using split_lines_shape [of "text"] by auto
  show "collapsedAfter r text = \<lparr>startLine = end_line (pre @ text), startColumn = end_column (pre @ text),
      endLine = end_line (pre @ text), endColumn = end_column (pre @ text)\<rparr>"
  proof (cases "newline \<in> set text")
    case True
    then have "newlines text \<noteq> 0" by (simp add: newlines_zero)
    then show ?thesis using True sl assms
      by (simp add: collapsedAfter_def Let_def end_line_def end_column_def trail_append)
  next
    case False
    then have "newlines text = 0" by (simp add: newlines_zero)
    then show ?thesis using False sl assms
      by (simp add: collapsedAfter_def Let_def end_line_def end_column_def trail_append)
  qed
qed

lemma edit_is_splice_witness:
  "let r = \<lparr>startLine = 2, startColumn = 2, endLine = 3, endColumn = 1\<rparr>; nl = [newline] in
   applyEdit (''ab'' @ nl @ ''cd'' @ nl @ ''ef'') r (''x'' @ nl) = ''ab'' @ nl @ ''cx'' @ nl @ ''ef'' \<and>
   startLine (collapsedAfter r (''x'' @ nl)) = 3"
proof -
  let ?r = "\<lparr>startLine = 2, startColumn = 2, endLine = 3, endColumn = 1\<rparr> :: play_range"
  let ?pre = "''ab'' @ [newline] @ ''c''" and ?mid = "''d'' @ [newline]"
  have p: "startLine ?r = end_line ?pre" "startColumn ?r = end_column ?pre"
    "endLine ?r = end_line (?pre @ ?mid)" "endColumn ?r = end_column (?pre @ ?mid)"
    "end_line (?pre @ ''x'' @ [newline]) = 3"
    by (simp_all add: end_line_def end_column_def newlines_def trail_def newline_def)
  show ?thesis using edit_is_splice [OF p(1) p(2) p(3) p(4), of "''ef''" "''x'' @ [newline]"] p(5)
    by (simp add: Let_def)
qed

lemma stored_events_come_back:
  assumes "jm_get (pd_submissions db) i = Some (se_userId se)" "\<forall>r \<in> set (pd_events db). er_submission r \<noteq> i"
    "list_all event_schema raws" "serializeEvents raws = Inr evs"
  shows "result (playback_GET True (Some se) i) [] (after (events_POST True (Some se) i (Some raws)) [] db) =
    Inr (Reply 200 (sort_by ts_le evs, length evs, durationMs (sort_by ts_le evs)))"
proof -
  have len: "length raws \<le> max_events_per_flush" using assms(4) by (auto simp: serializeEvents_def split: if_splits)
  have none: "filter (\<lambda>r. er_submission r = i) (pd_events db) = []" using assms(2) by (simp add: filter_empty_conv)
  have can: "list_all canonical evs" by (rule serializeEvents_canonical [OF assms(4)])
  have "after (events_POST True (Some se) i (Some raws)) [] db =
      (if evs = [] then db else db\<lparr>pd_events := pd_events db @ map (row_of i) evs\<rparr>)"
    using assms len by (simp add: events_POST_def after_def catch_def bind_def flush_schema_def)
  moreover have "filter (\<lambda>r. er_submission r = i) (map (row_of i) evs) = map (row_of i) evs"
    by (simp add: row_of_def filter_map comp_def)
  ultimately have rows: "filter (\<lambda>r. er_submission r = i) (pd_events (after (events_POST True (Some se) i (Some raws)) [] db)) =
      map (row_of i) evs" and subs: "pd_submissions (after (events_POST True (Some se) i (Some raws)) [] db) = pd_submissions db"
    using none by auto
  have "sort_by row_ts_le (map (row_of i) evs) = map (row_of i) (sort_by ts_le evs)"
    by (rule sort_by_map) (simp add: row_ts_le_def ts_le_def row_of_def)
  moreover have "list_all canonical (sort_by ts_le evs)" using can by (simp add: list_all_iff)
  then have "concat (map deserialize_row (map (row_of i) (sort_by ts_le evs))) = sort_by ts_le evs"
    using rows_back [of "sort_by ts_le evs" i] by simp
  moreover have "sort_by ts_le (sort_by ts_le evs) = sort_by ts_le evs"
    by (intro sort_by_sorted by_ts.sorted_sort_by) simp
  ultimately have "deserializeEvents (sort_by row_ts_le (map (row_of i) evs)) = sort_by ts_le evs"
    by (simp only: deserializeEvents_def)
  then show ?thesis
    using assms(1) by (simp add: playback_GET_def result_def catch_def bind_def rows subs Let_def)
qed

text \<open>When all times differ, the order in which the database holds the rows does not matter.\<close>

lemma stored_events_come_back_reordered:
  fixes db :: play_db and raws :: "raw_event list" and se :: session and i :: nat
  defines "t \<equiv> after (events_POST True (Some se) i (Some raws)) [] db"
  assumes "jm_get (pd_submissions db) i = Some (se_userId se)" "\<forall>r \<in> set (pd_events db). er_submission r \<noteq> i"
    "list_all event_schema raws" "serializeEvents raws = Inr evs" "distinct (map ev_ts evs)" "mset rows = mset (pd_events t)"
  shows "result (playback_GET True (Some se) i) [] (t\<lparr>pd_events := rows\<rparr>) =
    Inr (Reply 200 (sort_by ts_le evs, length evs, durationMs (sort_by ts_le evs)))"
proof -
  let ?own = "filter (\<lambda>r. er_submission r = i)"
  have len: "length raws \<le> max_events_per_flush" using assms(5) by (auto simp: serializeEvents_def split: if_splits)
  have "t = (if evs = [] then db else db\<lparr>pd_events := pd_events db @ map (row_of i) evs\<rparr>)"
    using assms(2,4,5) len by (simp add: t_def events_POST_def after_def catch_def bind_def flush_schema_def)
  moreover have "?own (pd_events db) = []" using assms(3) by (simp add: filter_empty_conv)
  moreover have "?own (map (row_of i) evs) = map (row_of i) evs" by (simp add: row_of_def filter_map comp_def)
  ultimately have own: "?own (pd_events t) = map (row_of i) evs" by auto
  have "mset (?own rows) = mset (?own (pd_events t))" using assms(7) by simp
  moreover have "distinct (map er_ts (?own (pd_events t)))" using assms(6) by (simp add: own row_of_def o_def)
  ultimately have "sort_by row_ts_le (?own rows) = sort_by row_ts_le (?own (pd_events t))"
    unfolding row_ts_le_def [abs_def] by (rule sort_by_key_unique)
  then have "result (playback_GET True (Some se) i) [] (t\<lparr>pd_events := rows\<rparr>) = result (playback_GET True (Some se) i) [] t"
    by (simp add: playback_GET_def result_def catch_def bind_def Let_def split: option.split)
  then show ?thesis using stored_events_come_back [OF assms(2-5)] by (simp add: t_def)
qed

text \<open>
  What is recorded is what is replayed. A batch that the events route accepts from the
  author of a submission without events is served to the author by the playback route as the
  canonical events of the batch, in a stable order of time, with their number.
\<close>

theorem playback_roundtrip:
  assumes "jm_get (pd_submissions db) i = Some (se_userId se)" "\<forall>r \<in> set (pd_events db). er_submission r \<noteq> i"
    "list_all event_schema raws" "serializeEvents raws = Inr evs"
  shows "result (playback_GET True (Some se) i) [] (after (events_POST True (Some se) i (Some raws)) [] db) =
    Inr (Reply 200 (sort_by ts_le evs, length evs, durationMs (sort_by ts_le evs)))"
  using assms by (rule stored_events_come_back)

definition sample_raw :: "real \<Rightarrow> string \<Rightarrow> raw_event" where
  "sample_raw t c = \<lparr>re_type = ''snapshot'', re_ts = Some t, re_payload = Some (no_payload\<lparr>rp_code := Some c\<rparr>)\<rparr>"

lemma playback_roundtrip_witness:
  "let db = \<lparr>pd_submissions = [(5, 1)], pd_events = []\<rparr>; se = \<lparr>se_userId = 1, se_role = ''user''\<rparr> in
   result (playback_GET True (Some se) 5) [] (after (events_POST True (Some se) 5 (Some [sample_raw 9 ''b'', sample_raw 4 ''a''])) [] db) =
     Inr (Reply 200 ([\<lparr>ev_type = Snapshot, ev_ts = 4, ev_payload = Code ''a''\<rparr>,
       \<lparr>ev_type = Snapshot, ev_ts = 9, ev_payload = Code ''b''\<rparr>], 2, 9))"
proof -
  let ?db = "\<lparr>pd_submissions = [(5, 1)], pd_events = []\<rparr>" and ?se = "\<lparr>se_userId = 1, se_role = ''user''\<rparr>"
  have p: "jm_get (pd_submissions ?db) 5 = Some (se_userId ?se)" "\<forall>r \<in> set (pd_events ?db). er_submission r \<noteq> 5"
    "list_all event_schema [sample_raw 9 ''b'', sample_raw 4 ''a'']"
    "serializeEvents [sample_raw 9 ''b'', sample_raw 4 ''a''] =
      Inr [\<lparr>ev_type = Snapshot, ev_ts = 9, ev_payload = Code ''b''\<rparr>, \<lparr>ev_type = Snapshot, ev_ts = 4, ev_payload = Code ''a''\<rparr>]"
    by (simp_all add: sample_raw_def event_schema_def isPlaybackEventType_def serializeEvents_def max_events_per_flush_def
        serializeEvent_def canonicalPayload_def no_payload_def)
  show ?thesis using playback_roundtrip [OF p] by (simp add: ts_le_def durationMs_def Let_def)
qed

text \<open>
  Recordings are private. Whatever database calls fail: the playback route serves events
  only when the feature is on, to the author of the submission or an admin; and the events route
  changes nothing unless the feature is on and the caller is the author, and then it appends
  exactly the canonical events of a valid batch.
\<close>

theorem playback_access:
  "(result (playback_GET enabled session i) fs db = Inr (Reply n b) \<longrightarrow>
      enabled \<and> n = 200 \<and> (\<exists>se u. session = Some se \<and> jm_get (pd_submissions db) i = Some u \<and>
        (u = se_userId se \<or> se_role se = ''admin''))) \<and>
   (after (events_POST enabled session i body) fs db \<noteq> db \<longrightarrow>
      enabled \<and> (\<exists>se raws evs. session = Some se \<and> jm_get (pd_submissions db) i = Some (se_userId se) \<and>
        body = Some raws \<and> list_all event_schema raws \<and> serializeEvents raws = Inr evs \<and>
        after (events_POST enabled session i body) fs db = db\<lparr>pd_events := pd_events db @ map (row_of i) evs\<rparr>))"
proof
  let ?q = "query ''db'' (\<lambda>db. jm_get (pd_submissions db) i)"
  have q: "?q (fs, db) = (Inr (jm_get (pd_submissions db) i), (tl fs, db)) \<or> ?q (fs, db) = (Inl ''db'', (tl fs, db))"
    by (rule query_or)
  show "result (playback_GET enabled session i) fs db = Inr (Reply n b) \<longrightarrow>
      enabled \<and> n = 200 \<and> (\<exists>se u. session = Some se \<and> jm_get (pd_submissions db) i = Some u \<and>
        (u = se_userId se \<or> se_role se = ''admin''))"
    using q query_or [of "''db''" "\<lambda>db. sort_by row_ts_le (filter (\<lambda>r. er_submission r = i) (pd_events db))" "tl fs" db]
    by (cases session; cases "jm_get (pd_submissions db) i")
      (auto simp: playback_GET_def result_def catch_def bind_def Let_def split: if_splits)
  show "after (events_POST enabled session i body) fs db \<noteq> db \<longrightarrow>
      enabled \<and> (\<exists>se raws evs. session = Some se \<and> jm_get (pd_submissions db) i = Some (se_userId se) \<and>
        body = Some raws \<and> list_all event_schema raws \<and> serializeEvents raws = Inr evs \<and>
        after (events_POST enabled session i body) fs db = db\<lparr>pd_events := pd_events db @ map (row_of i) evs\<rparr>)"
  proof (cases "enabled \<and> session \<noteq> None \<and> jm_get (pd_submissions db) i = map_option se_userId session \<and> flush_schema body")
    case False
    then have "after (events_POST enabled session i body) fs db = db"
      using q by (cases session; cases "jm_get (pd_submissions db) i")
        (auto simp: events_POST_def after_def catch_def bind_def split: if_splits)
    then show ?thesis by simp
  next
    case True
    then obtain se raws where s: "session = Some se" "body = Some raws" "list_all event_schema raws"
      by (cases session; cases body) (auto simp: flush_schema_def)
    show ?thesis
    proof (cases "serializeEvents raws")
      case (Inl e)
      then have "after (events_POST enabled session i body) fs db = db"
        using q True s by (auto simp: events_POST_def after_def catch_def bind_def)
      then show ?thesis by simp
    next
      case (Inr evs)
      have "after (events_POST enabled session i body) fs db = db \<or>
          after (events_POST enabled session i body) fs db = db\<lparr>pd_events := pd_events db @ map (row_of i) evs\<rparr>"
        using q True s call_or [of "''db''" "\<lambda>db. (Inr (), db\<lparr>pd_events := pd_events db @ map (row_of i) evs\<rparr>)" "tl fs" db]
        by (auto simp: events_POST_def after_def catch_def bind_def Inr update_def)
      then show ?thesis using True s Inr by auto
    qed
  qed
qed

lemma playback_access_witness:
  "let db = \<lparr>pd_submissions = [(5, 1)], pd_events = []\<rparr>; body = Some [sample_raw 9 ''b''];
       new = after (events_POST True (Some \<lparr>se_userId = 1, se_role = ''user''\<rparr>) 5 body) [] db in
   new \<noteq> db \<and> (\<exists>evs. serializeEvents [sample_raw 9 ''b''] = Inr evs \<and> new = db\<lparr>pd_events := map (row_of 5) evs\<rparr>)"
proof -
  let ?db = "\<lparr>pd_submissions = [(5, 1)], pd_events = []\<rparr>" and ?se = "\<lparr>se_userId = 1, se_role = ''user''\<rparr>"
  have ne: "after (events_POST True (Some ?se) 5 (Some [sample_raw 9 ''b''])) [] ?db \<noteq> ?db"
    by (simp add: sample_raw_def event_schema_def isPlaybackEventType_def serializeEvents_def max_events_per_flush_def
        serializeEvent_def canonicalPayload_def no_payload_def events_POST_def after_def catch_def bind_def flush_schema_def)
  then show ?thesis
    using playback_access [of True "Some ?se" 5 "[]" ?db _ _ "Some [sample_raw 9 ''b'']"] by (auto simp: Let_def)
qed

definition typed :: "int \<Rightarrow> int \<Rightarrow> char \<Rightarrow> event" where
  "typed ts column c = \<lparr>ev_type = Keystroke, ev_ts = ts,
     ev_payload = Edit \<lparr>startLine = 1, startColumn = column, endLine = 1, endColumn = column\<rparr> [c] 0\<rparr>"

text \<open>
  Debouncing loses what was typed. The recorder debounces its events before it sends them,
  and a keystroke event carries an edit, not the text: of two keystrokes closer than the
  window only the second is kept, so that the replay of two characters typed into an empty
  editor shows the second alone, out of the place where it was typed.
\<close>

theorem debounce_loses_edits:
  assumes "t2 - t1 < window"
    and "0 < window"
  shows "map fr_code (playback [typed t1 1 a, typed t2 2 b] None None) = [[a], [a, b]] \<and>
    map fr_code (playback (debounceEvents window [typed t1 1 a, typed t2 2 b]) None None) = [[b]]"
  using assms by (simp add: playback_def debounceEvents_def typed_def Let_def play_event_def applyEdit_def
      offsetForPosition_def)

lemma debounce_loses_edits_witness:
  "map fr_code (playback (debounceEvents 500 [typed 0 1 CHR ''i'', typed 120 2 CHR ''f'']) None None) = [''f'']"
  using debounce_loses_edits [of 120 0 500 "CHR ''i''" "CHR ''f''"] by simp

end
