(* ===== verification/Glicko2.thy ===== *)
theory Glicko2
  imports Prelude
begin

section \<open>The rating engine\<close>

text \<open>
  \<^verbatim>\<open>src/lib/rating/glicko2.ts\<close> over the real numbers (doubles in the source). The search
  for a bracket is a partial function, so that its termination is a statement;
  the root finder has the source's bound of 100 steps. The values it keeps at the two ends never
  have the same strict sign, so that its denominator is zero only for \<open>0 / 0\<close>: there NaN makes
  every comparison of the source false, the loop ends and \<open>A\<close> is kept, which the model writes out.
\<close>

subsection \<open>Scales\<close>

definition RATING_SCALE :: real where "RATING_SCALE = 1737178 / 10000"
definition RATING_BASE :: real where "RATING_BASE = 1500"
definition SYSTEM_TAU :: real where "SYSTEM_TAU = 1 / 2"
definition CONVERGENCE_EPSILON :: real where "CONVERGENCE_EPSILON = 1 / 1000000"
definition DEFAULT_RD :: real where "DEFAULT_RD = 350"

definition toMu :: "real \<Rightarrow> real" where "toMu rating = (rating - RATING_BASE) / RATING_SCALE"
definition toPhi :: "real \<Rightarrow> real" where "toPhi rd = rd / RATING_SCALE"
definition fromMu :: "real \<Rightarrow> real" where "fromMu mu = mu * RATING_SCALE + RATING_BASE"
definition fromPhi :: "real \<Rightarrow> real" where "fromPhi phi = phi * RATING_SCALE"

definition gPhi :: "real \<Rightarrow> real" where
  "gPhi phi = 1 / sqrt (1 + (3 * phi * phi) / (pi * pi))"

definition expectedScore :: "real \<Rightarrow> real \<Rightarrow> real \<Rightarrow> real" where
  "expectedScore mu muJ phiJ = 1 / (1 + exp (- gPhi phiJ * (mu - muJ)))"

subsection \<open>Volatility\<close>

definition vol_f :: "real \<Rightarrow> real \<Rightarrow> real \<Rightarrow> real \<Rightarrow> real \<Rightarrow> real \<Rightarrow> real" where
  "vol_f phi v delta a tau x =
    (let ex = exp x;
         num = ex * (delta * delta - phi * phi - v - ex);
         den = 2 * (phi * phi + v + ex) ^ 2
     in num / den - (x - a) / (tau * tau))"

text \<open>\<^verbatim>\<open>while (f(a - k * tau) < 0) k += 1\<close>\<close>

partial_function (option) find_k :: "(real \<Rightarrow> real) \<Rightarrow> real \<Rightarrow> real \<Rightarrow> nat \<Rightarrow> nat option" where
  "find_k f a tau k = (if f (a - real k * tau) < 0 then find_k f a tau (k + 1) else Some k)"

text \<open>The Illinois loop, with the number of steps left; it gives the final \<open>A\<close> and \<open>B\<close>.\<close>

fun illinois :: "(real \<Rightarrow> real) \<Rightarrow> real \<Rightarrow> nat \<Rightarrow> real \<Rightarrow> real \<Rightarrow> real \<Rightarrow> real \<Rightarrow> real \<times> real" where
  "illinois f eps 0 A B fA fB = (A, B)"
| "illinois f eps (Suc n) A B fA fB =
    (if \<bar>B - A\<bar> > eps then
       (if fB - fA = 0 then (A, B)
        else (let C = A + ((A - B) * fA) / (fB - fA); fC = f C
              in if fC * fB \<le> 0 then illinois f eps n B C fB fC
                 else illinois f eps n A C (fA / 2) fC))
     else (A, B))"

definition bracket :: "real \<Rightarrow> real \<Rightarrow> real \<Rightarrow> real \<Rightarrow> real \<Rightarrow> real option" where
  "bracket phi v delta a tau =
    (if delta * delta > phi * phi + v then Some (ln (delta * delta - phi * phi - v))
     else map_option (\<lambda>k. a - real k * tau) (find_k (vol_f phi v delta a tau) a tau 1))"

text \<open>
  For a volatility of 0 the source takes the logarithm of 0, which is \<^verbatim>\<open>-Infinity\<close> there and 0 here:
  that input is outside of what the definition models.
\<close>

definition newVolatility :: "real \<Rightarrow> real \<Rightarrow> real \<Rightarrow> real \<Rightarrow> real \<Rightarrow> real \<Rightarrow> real option" where
  "newVolatility phi v delta sigma tau eps =
    (let a = ln (sigma * sigma); f = vol_f phi v delta a tau
     in map_option (\<lambda>B. exp (fst (illinois f eps 100 a B (f a) (f B)) / 2)) (bracket phi v delta a tau))"

subsection \<open>One rating period\<close>

definition scoreFromRanks :: "nat \<Rightarrow> nat \<Rightarrow> real" where
  "scoreFromRanks rankI rankJ = (if rankI < rankJ then 1 else if rankI > rankJ then 0 else 1 / 2)"

record opponent =
  muJ :: real
  phiJ :: real
  score :: real

definition v_inverse :: "real \<Rightarrow> opponent list \<Rightarrow> real" where
  "v_inverse mu opponents = sum_list (map (\<lambda>o'.
     let g = gPhi (phiJ o'); e = expectedScore mu (muJ o') (phiJ o') in g * g * e * (1 - e)) opponents)"

definition delta_sum :: "real \<Rightarrow> opponent list \<Rightarrow> real" where
  "delta_sum mu opponents = sum_list (map (\<lambda>o'.
     let g = gPhi (phiJ o'); e = expectedScore mu (muJ o') (phiJ o') in g * (score o' - e)) opponents)"

definition updateOne :: "real \<Rightarrow> real \<Rightarrow> real \<Rightarrow> opponent list \<Rightarrow> real \<Rightarrow> (real \<times> real \<times> real) option" where
  "updateOne mu phi sigma opponents tau =
    (if opponents = [] then Some (mu, sqrt (phi * phi + sigma * sigma), sigma)
     else (let v = 1 / v_inverse mu opponents; deltaSum = delta_sum mu opponents; delta = v * deltaSum
           in map_option (\<lambda>sigmaPrime.
               let phiStar = sqrt (phi * phi + sigmaPrime * sigmaPrime);
                   phiPrime = 1 / sqrt (1 / (phiStar * phiStar) + 1 / v)
               in (mu + phiPrime * phiPrime * deltaSum, phiPrime, sigmaPrime))
             (newVolatility phi v delta sigma tau CONVERGENCE_EPSILON)))"

record participant =
  pa_userId :: nat
  pa_rating :: real
  pa_rd :: real
  pa_volatility :: real
  pa_rank :: nat

record rating_change =
  rc_userId :: nat
  beforeRating :: real
  afterRating :: real
  rc_delta :: real
  beforeRd :: real
  afterRd :: real
  beforeVolatility :: real
  afterVolatility :: real
  rc_rank :: nat

definition unchanged_rating :: "participant \<Rightarrow> rating_change" where
  "unchanged_rating p = \<lparr>rc_userId = pa_userId p, beforeRating = pa_rating p, afterRating = pa_rating p, rc_delta = 0,
     beforeRd = pa_rd p, afterRd = pa_rd p, beforeVolatility = pa_volatility p, afterVolatility = pa_volatility p,
     rc_rank = pa_rank p\<rparr>"

text \<open>The opponents of the participant at position \<open>i\<close>: everybody at another position.\<close>

definition opponents_of :: "participant list \<Rightarrow> nat \<Rightarrow> opponent list" where
  "opponents_of ps i =
    map (\<lambda>j. \<lparr>muJ = toMu (pa_rating (ps ! j)), phiJ = toPhi (pa_rd (ps ! j)),
             score = scoreFromRanks (pa_rank (ps ! i)) (pa_rank (ps ! j))\<rparr>)
      (filter (\<lambda>j. j \<noteq> i) [0..<length ps])"

definition change_of :: "real \<Rightarrow> participant list \<Rightarrow> nat \<Rightarrow> rating_change option" where
  "change_of tau ps i =
    (let me = ps ! i
     in map_option (\<lambda>(mu, phi, sigma).
         let newRating = of_int (js_round (fromMu mu)); newRd = of_int (max 30 (js_round (fromPhi phi)))
         in \<lparr>rc_userId = pa_userId me, beforeRating = pa_rating me, afterRating = newRating,
             rc_delta = newRating - pa_rating me, beforeRd = pa_rd me, afterRd = newRd,
             beforeVolatility = pa_volatility me, afterVolatility = sigma, rc_rank = pa_rank me\<rparr>)
       (updateOne (toMu (pa_rating me)) (toPhi (pa_rd me)) (pa_volatility me) (opponents_of ps i) tau))"

fun all_some :: "'a option list \<Rightarrow> 'a list option" where
  "all_some [] = Some []"
| "all_some (x # xs) = (case x of None \<Rightarrow> None | Some y \<Rightarrow> map_option ((#) y) (all_some xs))"

definition calculateRatingChanges :: "real \<Rightarrow> participant list \<Rightarrow> rating_change list option" where
  "calculateRatingChanges tau ps =
    (if length ps < 2 then Some (map unchanged_rating ps)
     else all_some (map (change_of tau ps) [0..<length ps]))"

definition inflateInactivity :: "participant \<Rightarrow> participant" where
  "inflateInactivity st =
    (let phi = toPhi (pa_rd st); phiStar = sqrt (phi * phi + pa_volatility st * pa_volatility st)
     in st\<lparr>pa_rd := min DEFAULT_RD (of_int (js_round (fromPhi phiStar)))\<rparr>)"

datatype division = Div1 | Div2 | Div3

definition isEligibleForDivision :: "real \<Rightarrow> division option \<Rightarrow> bool" where
  "isEligibleForDivision rating d =
    (case d of
       None \<Rightarrow> True
     | Some Div1 \<Rightarrow> rating \<ge> 1900
     | Some Div2 \<Rightarrow> rating \<ge> 1600 \<and> rating < 1900
     | Some Div3 \<Rightarrow> rating < 1600)"

definition divisionLabel :: "division option \<Rightarrow> string" where
  "divisionLabel d =
    (case d of None \<Rightarrow> ''Open'' | Some Div1 \<Rightarrow> ''Div. 1'' | Some Div2 \<Rightarrow> ''Div. 2'' | Some Div3 \<Rightarrow> ''Div. 3'')"

subsection \<open>Signs and bounds\<close>

lemma gPhi_pos: "0 < gPhi phi"
  by (simp add: gPhi_def add_pos_nonneg)

lemma expected_range: "0 < expectedScore mu m p" "expectedScore mu m p < 1"
  by (simp_all add: expectedScore_def add_pos_pos)

lemma v_term_pos: "0 < (let g = gPhi p; e = expectedScore mu m p in g * g * e * (1 - e))"
  using gPhi_pos expected_range by (simp add: Let_def)

lemma sum_list_pos: "xs \<noteq> [] \<Longrightarrow> (\<And>x. x \<in> set xs \<Longrightarrow> 0 < f x) \<Longrightarrow> 0 < sum_list (map f xs)" for f :: "'a \<Rightarrow> real"
proof (induction xs)
  case (Cons x xs)
  then show ?case by (cases "xs = []") (auto intro: add_pos_pos)
qed simp

lemma v_inverse_pos: "os \<noteq> [] \<Longrightarrow> 0 < v_inverse mu os"
  unfolding v_inverse_def by (rule sum_list_pos) (auto intro: v_term_pos)

text \<open>The first part of \<open>vol_f\<close> never goes below minus one half.\<close>

lemma vol_part_ge:
  fixes ex p d :: real
  assumes "0 < ex" "0 \<le> p" "0 \<le> d"
  shows "- 1 / 2 \<le> ex * (d - p - ex) / (2 * (p + ex) ^ 2)"
proof -
  have pos: "0 < (p + ex)^2" using assms by (simp add: add_nonneg_pos)
  have "- ((p + ex)^2) \<le> - (ex * (p + ex))" using assms by (simp add: power2_eq_square mult_right_mono)
  also have "\<dots> \<le> ex * (d - p - ex)" using assms by (simp add: algebra_simps)
  finally have "- ((p + ex)^2) \<le> ex * (d - p - ex)" .
  then have "- ((p + ex)^2) / (2 * (p + ex)^2) \<le> ex * (d - p - ex) / (2 * (p + ex) ^ 2)"
    using pos by (intro divide_right_mono) auto
  then show ?thesis using pos by simp
qed

lemma vol_f_below:
  assumes "0 < tau" "0 \<le> phi * phi + v"
  shows "real k / tau - 1 / 2 \<le> vol_f phi v delta a tau (a - real k * tau)"
proof -
  have "- 1 / 2 \<le> exp (a - real k * tau) * (delta * delta - (phi * phi + v) - exp (a - real k * tau)) /
      (2 * (phi * phi + v + exp (a - real k * tau)) ^ 2)"
    using assms(2) by (intro vol_part_ge) simp_all
  moreover have "(a - real k * tau - a) / (tau * tau) = - (real k / tau)" using assms(1) by simp
  ultimately show ?thesis by (simp add: vol_f_def Let_def algebra_simps)
qed

lemma find_k_returns:
  assumes "f (a - real m * tau) \<ge> 0" "k \<le> m"
  shows "\<exists>j. find_k f a tau k = Some j \<and> k \<le> j \<and> j \<le> m \<and> f (a - real j * tau) \<ge> 0"
  using assms(2)
proof (induction "m - k" arbitrary: k)
  case 0
  then show ?case using assms(1) by (auto simp: find_k.simps [of f a tau k])
next
  case (Suc n)
  show ?case
  proof (cases "f (a - real k * tau) < 0")
    case True
    have n: "n = m - (k + 1)" "k + 1 \<le> m" using Suc.hyps(2) by arith+
    obtain j where "find_k f a tau (k + 1) = Some j" "k + 1 \<le> j" "j \<le> m" "f (a - real j * tau) \<ge> 0"
      using Suc.hyps(1) [OF n] by auto
    then show ?thesis using True by (auto simp: find_k.simps [of f a tau k])
  next
    case False
    then show ?thesis using Suc.prems by (auto simp: find_k.simps [of f a tau k])
  qed
qed

lemma bracket_sign:
  fixes phi v delta a tau :: real
  assumes "0 < tau" "0 \<le> phi * phi + v"
  defines "f \<equiv> vol_f phi v delta a tau"
  shows "\<exists>B. bracket phi v delta a tau = Some B \<and> f a * f B \<le> 0"
proof (cases "delta * delta > phi * phi + v")
  case True
  let ?d = "delta * delta - phi * phi - v" and ?B = "ln (delta * delta - phi * phi - v)"
  have d: "0 < ?d" using True by simp
  have fB: "f ?B = - (?B - a) / (tau * tau)" using d by (simp add: f_def vol_f_def Let_def diff_divide_distrib)
  have fa: "f a = exp a * (?d - exp a) / (2 * (phi * phi + v + exp a) ^ 2)"
    by (simp add: f_def vol_f_def Let_def)
  have "f a * f ?B \<le> 0"
  proof (cases "a \<le> ?B")
    case True
    then have "exp a \<le> ?d" using d by (metis exp_le_cancel_iff exp_ln)
    then have "0 \<le> f a" unfolding fa by (intro divide_nonneg_nonneg mult_nonneg_nonneg) auto
    moreover have "f ?B \<le> 0" unfolding fB using True assms(1) by (intro divide_nonpos_nonneg) auto
    ultimately show ?thesis by (rule mult_nonneg_nonpos)
  next
    case False
    then have "?d \<le> exp a" using d by (metis exp_le_cancel_iff exp_ln linear)
    then have "f a \<le> 0" unfolding fa by (intro divide_nonpos_nonneg mult_nonneg_nonpos) auto
    moreover have "0 \<le> f ?B" unfolding fB using False assms(1) by (intro divide_nonneg_nonneg) auto
    ultimately show ?thesis by (rule mult_nonpos_nonneg)
  qed
  then show ?thesis using True by (simp add: bracket_def)
next
  case False
  define m where "m = nat \<lceil>tau / 2\<rceil> + 1"
  have "tau / 2 \<le> real m" unfolding m_def using assms(1) by linarith
  then have "1 / 2 \<le> real m / tau" using assms(1) by (simp add: field_simps)
  then have "0 \<le> f (a - real m * tau)"
    using vol_f_below [OF assms(1,2), of m delta a] unfolding f_def by linarith
  moreover have "1 \<le> m" by (simp add: m_def)
  ultimately obtain k where k: "find_k f a tau 1 = Some k" "0 \<le> f (a - real k * tau)"
    using find_k_returns [of f a m tau 1] by blast
  have "f a = exp a * (delta * delta - phi * phi - v - exp a) / (2 * (phi * phi + v + exp a) ^ 2)"
    by (simp add: f_def vol_f_def Let_def)
  moreover have "delta * delta - phi * phi - v - exp a \<le> 0" using False exp_gt_zero [of a] by linarith
  ultimately have "f a \<le> 0" by (simp add: divide_nonpos_nonneg mult_nonneg_nonpos)
  then have "f a * f (a - real k * tau) \<le> 0" using k(2) by (rule mult_nonpos_nonneg)
  then show ?thesis using False k(1) by (simp add: bracket_def f_def)
qed

text \<open>The false position lies between its ends when the values there have opposite signs.\<close>

lemma secant_between:
  fixes A B p q :: real
  assumes "p * q \<le> 0" "q - p \<noteq> 0"
  shows "min A B \<le> A + ((A - B) * p) / (q - p) \<and> A + ((A - B) * p) / (q - p) \<le> max A B"
proof -
  define t where "t = - p / (q - p)"
  have t: "0 \<le> t" "t \<le> 1"
    using assms unfolding t_def by (auto simp: field_simps mult_le_0_iff divide_le_eq zero_le_divide_iff)
  have e: "A + ((A - B) * p) / (q - p) = (1 - t) * A + t * B"
  proof -
    have "t * (A - B) = - (((A - B) * p) / (q - p))" by (simp add: t_def)
    then show ?thesis by (simp add: algebra_simps)
  qed
  have "(1 - t) * min A B + t * min A B \<le> (1 - t) * A + t * B"
    using t by (intro add_mono mult_left_mono) auto
  moreover have "(1 - t) * A + t * B \<le> (1 - t) * max A B + t * max A B"
    using t by (intro add_mono mult_left_mono) auto
  ultimately show ?thesis unfolding e by (simp add: algebra_simps)
qed

lemma scaled_sign: "0 < c \<Longrightarrow> c * x * y \<le> 0 \<longleftrightarrow> x * y \<le> 0" for c x y :: real
  by (simp add: mult.assoc mult_le_0_iff)

lemma illinois_bracket:
  assumes "0 < c" "fA = c * f A" "fB = f B" "fA * fB \<le> 0"
    "illinois f eps n A B fA fB = (A', B')"
  shows "f A' * f B' \<le> 0 \<and> min A B \<le> min A' B' \<and> max A' B' \<le> max A B"
  using assms
proof (induction n arbitrary: A B fA fB c)
  case 0
  then show ?case by (simp add: scaled_sign)
next
  case (Suc n)
  have base: "f A * f B \<le> 0" using Suc.prems(1-4) by (simp add: scaled_sign)
  show ?case
  proof (cases "\<bar>B - A\<bar> > eps \<and> fB - fA \<noteq> 0")
    case False
    then have "A' = A" "B' = B" using Suc.prems(5) by (auto split: if_splits)
    then show ?thesis using base by simp
  next
    case True
    let ?C = "A + ((A - B) * fA) / (fB - fA)"
    have C: "min A B \<le> ?C" "?C \<le> max A B" using secant_between [of fA fB A B] Suc.prems(4) True by auto
    show ?thesis
    proof (cases "f ?C * fB \<le> 0")
      case left: True
      have r: "illinois f eps n B ?C fB (f ?C) = (A', B')" using Suc.prems(5) True left by (simp add: Let_def)
      have "fB * f ?C \<le> 0" using left by (simp add: mult.commute)
      then have "f A' * f B' \<le> 0 \<and> min B ?C \<le> min A' B' \<and> max A' B' \<le> max B ?C"
        using Suc.IH [of 1 fB B "f ?C" ?C] Suc.prems(3) r by simp
      then show ?thesis using C by auto
    next
      case right: False
      have r: "illinois f eps n A ?C (fA / 2) (f ?C) = (A', B')" using Suc.prems(5) True right by (simp add: Let_def)
      have "fA / 2 * f ?C \<le> 0" using Suc.prems(4) right by (auto simp: mult_le_0_iff not_le zero_less_mult_iff)
      then have "f A' * f B' \<le> 0 \<and> min A ?C \<le> min A' B' \<and> max A' B' \<le> max A ?C"
        using Suc.IH [of "c / 2" "fA / 2" A "f ?C" ?C] Suc.prems(1,2) r by simp
      then show ?thesis using C by auto
    qed
  qed
qed

lemma root_between:
  fixes f :: "real \<Rightarrow> real"
  assumes "\<And>x. isCont f x" "f A * f B \<le> 0"
  shows "\<exists>x. f x = 0 \<and> min A B \<le> x \<and> x \<le> max A B"
proof -
  have *: "\<exists>x. f x = 0 \<and> a \<le> x \<and> x \<le> b" if "a \<le> b" "f a * f b \<le> 0" for a b
  proof (cases "f a \<le> 0")
    case True
    show ?thesis
    proof (cases "0 \<le> f b")
      case b: True
      then show ?thesis using IVT [of f a 0 b] True that(1) assms(1) by auto
    next
      case False
      then have "f a = 0" using True that(2) by (auto simp: mult_le_0_iff)
      then show ?thesis using that(1) by auto
    qed
  next
    case False
    then have "f b \<le> 0" using that(2) by (auto simp: mult_le_0_iff)
    then show ?thesis using IVT2 [of f b 0 a] False that(1) assms(1) by auto
  qed
  show ?thesis
  proof (cases "A \<le> B")
    case True
    then show ?thesis using * [of A B] assms(2) by (simp add: min_def max_def)
  next
    case False
    then show ?thesis using * [of B A] assms(2) by (simp add: min_def max_def mult.commute)
  qed
qed

lemma vol_f_cont: "0 \<le> phi * phi + v \<Longrightarrow> 0 < tau \<Longrightarrow> isCont (vol_f phi v delta a tau) x"
proof -
  assume a: "0 \<le> phi * phi + v" "0 < tau"
  then have "phi * phi + v + exp x \<noteq> 0" using exp_gt_zero [of x] by linarith
  then show ?thesis unfolding vol_f_def Let_def using a(2) by (intro continuous_intros) auto
qed

subsection \<open>Properties\<close>

text \<open>
  C11. The new volatility is always found and is bracketed by a root. For a positive system
  constant and a positive variance, the search for a bracket ends, at once for the constant the
  program uses; and the result is \<open>exp (A / 2)\<close> for an \<open>A\<close> such that a zero of Glickman's
  function lies between \<open>A\<close> and the last \<open>B\<close>, both inside the initial bracket.
\<close>

theorem volatility_is_bracketed:
  fixes phi v delta sigma tau eps :: real
  assumes "0 < tau" "0 < v"
  defines "a \<equiv> ln (sigma * sigma)"
  defines "f \<equiv> vol_f phi v delta a tau"
  shows "\<exists>B0 A B x. bracket phi v delta a tau = Some B0 \<and>
    newVolatility phi v delta sigma tau eps = Some (exp (A / 2)) \<and>
    f x = 0 \<and> min A B \<le> x \<and> x \<le> max A B \<and> min a B0 \<le> min A B \<and> max A B \<le> max a B0 \<and>
    (tau = SYSTEM_TAU \<and> delta * delta \<le> phi * phi + v \<longrightarrow> B0 = a - tau)"
proof -
  have p: "0 \<le> phi * phi + v" using assms(2) by (simp add: add_nonneg_nonneg)
  obtain B0 where B0: "bracket phi v delta a tau = Some B0" "f a * f B0 \<le> 0"
    using bracket_sign [OF assms(1) p] unfolding f_def by blast
  obtain A B where AB: "illinois f eps 100 a B0 (f a) (f B0) = (A, B)" by fastforce
  then have i: "f A * f B \<le> 0" "min a B0 \<le> min A B" "max A B \<le> max a B0"
    using illinois_bracket [of 1 "f a" f a "f B0" B0 eps 100 A B] B0(2) by auto
  obtain x where x: "f x = 0" "min A B \<le> x" "x \<le> max A B"
    using root_between [of f A B] i(1) vol_f_cont [OF p assms(1)] unfolding f_def by blast
  have nv: "newVolatility phi v delta sigma tau eps = Some (exp (A / 2))"
    using B0(1) AB by (simp add: newVolatility_def Let_def a_def [symmetric] f_def [symmetric])
  have "B0 = a - tau" if "tau = SYSTEM_TAU" "delta * delta \<le> phi * phi + v"
  proof -
    have "1 / tau = 2" unfolding that(1) SYSTEM_TAU_def by simp
    then have "0 \<le> f (a - real 1 * tau)"
      using vol_f_below [OF assms(1) p, of 1 delta a] unfolding f_def by simp
    then have "find_k f a tau 1 = Some 1" by (simp add: find_k.simps [of f a tau "Suc 0"])
    then show ?thesis using B0(1) that(2) by (simp add: bracket_def f_def)
  qed
  then show ?thesis using B0(1) nv x i by blast
qed

lemma volatility_is_bracketed_witness:
  "\<exists>s. newVolatility 2 (177/100) (-48/100) (6/100) SYSTEM_TAU CONVERGENCE_EPSILON = Some s \<and>
     bracket 2 (177/100) (-48/100) (ln (6/100 * (6/100))) SYSTEM_TAU = Some (ln (6/100 * (6/100)) - SYSTEM_TAU)"
proof -
  have "0 < SYSTEM_TAU" by (simp add: SYSTEM_TAU_def)
  from volatility_is_bracketed [OF this, of "177/100" 2 "-48/100" "6/100" CONVERGENCE_EPSILON]
  show ?thesis by auto
qed

subsection \<open>Winners and losers\<close>

lemma bracket_total: "0 < tau \<Longrightarrow> 0 < v \<Longrightarrow> \<exists>s. newVolatility phi v delta sigma tau eps = Some s"
  using bracket_sign [of tau phi v delta "ln (sigma * sigma)"] by (auto simp: newVolatility_def Let_def)

lemma updateOne_total:
  assumes "0 < tau" "os \<noteq> []"
  shows "\<exists>phi' sigma' w. updateOne mu phi sigma os tau = Some (mu + w * delta_sum mu os, phi', sigma') \<and> 0 \<le> w"
proof -
  have "0 < 1 / v_inverse mu os" using v_inverse_pos [OF assms(2)] by simp
  then obtain s where s: "newVolatility phi (1 / v_inverse mu os) (1 / v_inverse mu os * delta_sum mu os) sigma tau CONVERGENCE_EPSILON = Some s"
    using bracket_total [OF assms(1)] by blast
  let ?star = "sqrt (phi * phi + s * s)"
  let ?p = "1 / sqrt (1 / (?star * ?star) + 1 / (1 / v_inverse mu os))"
  have "updateOne mu phi sigma os tau = Some (mu + ?p * ?p * delta_sum mu os, ?p, s)"
    using assms(2) s by (simp add: updateOne_def Let_def)
  moreover have "0 \<le> ?p * ?p" by (rule zero_le_square)
  ultimately show ?thesis by blast
qed

lemma g_scored: "score o' = 1 \<Longrightarrow> 0 \<le> (let g = gPhi (phiJ o'); e = expectedScore mu (muJ o') (phiJ o') in g * (score o' - e))"
  "score o' = 0 \<Longrightarrow> (let g = gPhi (phiJ o'); e = expectedScore mu (muJ o') (phiJ o') in g * (score o' - e)) \<le> 0"
  using gPhi_pos [of "phiJ o'"] expected_range [of mu "muJ o'" "phiJ o'"]
  by (simp_all add: Let_def mult_nonneg_nonpos)

lemma delta_sum_all:
  "\<forall>o' \<in> set os. score o' = 1 \<Longrightarrow> 0 \<le> delta_sum mu os"
  "\<forall>o' \<in> set os. score o' = 0 \<Longrightarrow> delta_sum mu os \<le> 0"
proof -
  have cons: "delta_sum mu (x # xs) = (let g = gPhi (phiJ x); e = expectedScore mu (muJ x) (phiJ x) in g * (score x - e)) + delta_sum mu xs" for x xs
    by (simp add: delta_sum_def)
  have nil: "delta_sum mu [] = 0" by (simp add: delta_sum_def)
  show "\<forall>o' \<in> set os. score o' = 1 \<Longrightarrow> 0 \<le> delta_sum mu os"
  proof (induction os)
    case (Cons x xs)
    then show ?case unfolding cons by (intro add_nonneg_nonneg g_scored(1)) simp_all
  qed (simp add: nil)
  show "\<forall>o' \<in> set os. score o' = 0 \<Longrightarrow> delta_sum mu os \<le> 0"
  proof (induction os)
    case (Cons x xs)
    then show ?case unfolding cons by (intro add_nonpos_nonpos g_scored(2)) simp_all
  qed (simp add: nil)
qed

lemma fromMu_toMu: "fromMu (toMu r) = r"
proof -
  have "RATING_SCALE \<noteq> 0" by (simp add: RATING_SCALE_def)
  then show ?thesis by (simp add: fromMu_def toMu_def)
qed

lemma all_some_map: "(\<And>x. x \<in> set xs \<Longrightarrow> f x = Some (g x)) \<Longrightarrow> all_some (map f xs) = Some (map g xs)"
  by (induction xs) auto

lemma opponents_ne: "2 \<le> length ps \<Longrightarrow> i < length ps \<Longrightarrow> opponents_of ps i \<noteq> []"
proof -
  assume a: "2 \<le> length ps" "i < length ps"
  have "(if i = 0 then 1 else 0) \<in> set (filter (\<lambda>j. j \<noteq> i) [0..<length ps])" using a by auto
  then have "filter (\<lambda>j. j \<noteq> i) [0..<length ps] \<noteq> []" by (rule list.set_cases) simp_all
  then show "opponents_of ps i \<noteq> []" unfolding opponents_of_def by simp
qed

lemma change_of_total:
  assumes "0 < tau" "2 \<le> length ps" "i < length ps"
  shows "\<exists>w phi' sigma'. 0 \<le> w \<and> change_of tau ps i = Some
    \<lparr>rc_userId = pa_userId (ps ! i), beforeRating = pa_rating (ps ! i),
     afterRating = of_int (js_round (fromMu (toMu (pa_rating (ps ! i)) + w * delta_sum (toMu (pa_rating (ps ! i))) (opponents_of ps i)))),
     rc_delta = of_int (js_round (fromMu (toMu (pa_rating (ps ! i)) + w * delta_sum (toMu (pa_rating (ps ! i))) (opponents_of ps i)))) - pa_rating (ps ! i),
     beforeRd = pa_rd (ps ! i), afterRd = of_int (max 30 (js_round (fromPhi phi'))),
     beforeVolatility = pa_volatility (ps ! i), afterVolatility = sigma', rc_rank = pa_rank (ps ! i)\<rparr>"
  using updateOne_total [OF assms(1) opponents_ne [OF assms(2,3)], of "toMu (pa_rating (ps ! i))" "toPhi (pa_rd (ps ! i))" "pa_volatility (ps ! i)"]
  by (force simp: change_of_def Let_def)

lemma changes_total:
  assumes "0 < tau" "2 \<le> length ps"
  shows "calculateRatingChanges tau ps = Some (map (\<lambda>i. the (change_of tau ps i)) [0..<length ps])"
proof -
  have "change_of tau ps i = Some (the (change_of tau ps i))" if "i \<in> set [0..<length ps]" for i
    using change_of_total [OF assms, of i] that by auto
  then show ?thesis using assms(2) all_some_map [of "[0..<length ps]" "change_of tau ps"] by (simp add: calculateRatingChanges_def)
qed

text \<open>
  C12. A contest never punishes its winner. For two participants or more the update is defined
  and gives one change per participant, in order, with their own identity, rank and former
  values, a change that is the difference of the ratings, and a deviation of at least 30;
  whoever is strictly ahead of all others does not lose rating, and whoever is strictly behind
  all others does not gain any (ratings are whole numbers, as the program stores them).
\<close>

theorem rating_changes_fair:
  assumes "0 < tau" "2 \<le> length ps" "\<forall>p \<in> set ps. \<exists>n. pa_rating p = of_int n"
  shows "\<exists>cs. calculateRatingChanges tau ps = Some cs \<and> length cs = length ps \<and>
    (\<forall>i < length ps. rc_userId (cs ! i) = pa_userId (ps ! i) \<and> rc_rank (cs ! i) = pa_rank (ps ! i) \<and>
      beforeRating (cs ! i) = pa_rating (ps ! i) \<and> beforeRd (cs ! i) = pa_rd (ps ! i) \<and>
      rc_delta (cs ! i) = afterRating (cs ! i) - beforeRating (cs ! i) \<and> 30 \<le> afterRd (cs ! i) \<and>
      ((\<forall>j < length ps. j \<noteq> i \<longrightarrow> pa_rank (ps ! i) < pa_rank (ps ! j)) \<longrightarrow> beforeRating (cs ! i) \<le> afterRating (cs ! i)) \<and>
      ((\<forall>j < length ps. j \<noteq> i \<longrightarrow> pa_rank (ps ! j) < pa_rank (ps ! i)) \<longrightarrow> afterRating (cs ! i) \<le> beforeRating (cs ! i)))"
proof (intro exI conjI allI impI)
  let ?cs = "map (\<lambda>i. the (change_of tau ps i)) [0..<length ps]"
  show "calculateRatingChanges tau ps = Some ?cs" by (rule changes_total [OF assms(1,2)])
  show "length ?cs = length ps" by simp
  fix i assume i: "i < length ps"
  let ?mu = "toMu (pa_rating (ps ! i))" and ?os = "opponents_of ps i"
  obtain w phi' sigma' where w: "0 \<le> w" and c: "?cs ! i =
    \<lparr>rc_userId = pa_userId (ps ! i), beforeRating = pa_rating (ps ! i),
     afterRating = of_int (js_round (fromMu (?mu + w * delta_sum ?mu ?os))),
     rc_delta = of_int (js_round (fromMu (?mu + w * delta_sum ?mu ?os))) - pa_rating (ps ! i),
     beforeRd = pa_rd (ps ! i), afterRd = of_int (max 30 (js_round (fromPhi phi'))),
     beforeVolatility = pa_volatility (ps ! i), afterVolatility = sigma', rc_rank = pa_rank (ps ! i)\<rparr>"
    using change_of_total [OF assms(1,2) i] i by force
  show "rc_userId (?cs ! i) = pa_userId (ps ! i)" "rc_rank (?cs ! i) = pa_rank (ps ! i)"
    "beforeRating (?cs ! i) = pa_rating (ps ! i)" "beforeRd (?cs ! i) = pa_rd (ps ! i)"
    "rc_delta (?cs ! i) = afterRating (?cs ! i) - beforeRating (?cs ! i)" "30 \<le> afterRd (?cs ! i)"
    unfolding c by (simp_all add: le_max_iff_disj)
  obtain n where n: "pa_rating (ps ! i) = of_int n" using assms(3) i by (meson nth_mem)
  have old: "js_round (fromMu ?mu) = n" by (simp add: fromMu_toMu n)
  have mono: "fromMu x \<le> fromMu y" if "x \<le> y" for x y using that by (simp add: fromMu_def RATING_SCALE_def)
  show "beforeRating (?cs ! i) \<le> afterRating (?cs ! i)"
    if "\<forall>j < length ps. j \<noteq> i \<longrightarrow> pa_rank (ps ! i) < pa_rank (ps ! j)"
  proof -
    have "\<forall>o' \<in> set ?os. score o' = 1" using that by (auto simp: opponents_of_def scoreFromRanks_def)
    then have "?mu \<le> ?mu + w * delta_sum ?mu ?os" using delta_sum_all(1) w by simp
    then have "n \<le> js_round (fromMu (?mu + w * delta_sum ?mu ?os))" using round_mono [OF mono] old by metis
    then show ?thesis unfolding c by (simp add: n)
  qed
  show "afterRating (?cs ! i) \<le> beforeRating (?cs ! i)"
    if "\<forall>j < length ps. j \<noteq> i \<longrightarrow> pa_rank (ps ! j) < pa_rank (ps ! i)"
  proof -
    have "\<forall>o' \<in> set ?os. score o' = 0" using that by (force simp: opponents_of_def scoreFromRanks_def)
    then have "?mu + w * delta_sum ?mu ?os \<le> ?mu" using delta_sum_all(2) w by (simp add: mult_nonneg_nonpos)
    then have "js_round (fromMu (?mu + w * delta_sum ?mu ?os)) \<le> n" using round_mono [OF mono] old by metis
    then show ?thesis unfolding c by (simp add: n)
  qed
qed

lemma rating_changes_fair_witness:
  "let ps = [\<lparr>pa_userId = 1, pa_rating = 1500, pa_rd = 200, pa_volatility = 6/100, pa_rank = 1\<rparr>,
             \<lparr>pa_userId = 2, pa_rating = 1900, pa_rd = 100, pa_volatility = 6/100, pa_rank = 2\<rparr>] in
   \<exists>cs. calculateRatingChanges SYSTEM_TAU ps = Some cs \<and> 1500 \<le> afterRating (cs ! 0) \<and> afterRating (cs ! 1) \<le> 1900"
proof -
  let ?ps = "[\<lparr>pa_userId = 1, pa_rating = 1500, pa_rd = 200, pa_volatility = 6/100, pa_rank = 1\<rparr>,
             \<lparr>pa_userId = 2, pa_rating = 1900, pa_rd = 100, pa_volatility = 6/100, pa_rank = 2\<rparr>] :: participant list"
  have "\<exists>n. (1500 :: real) = of_int n" "\<exists>n. (1900 :: real) = of_int n"
    by (rule exI [of _ 1500], simp) (rule exI [of _ 1900], simp)
  then have i: "\<forall>p \<in> set ?ps. \<exists>n. pa_rating p = of_int n" by simp
  have t: "0 < SYSTEM_TAU" "2 \<le> length ?ps" by (simp_all add: SYSTEM_TAU_def)
  obtain cs where cs: "calculateRatingChanges SYSTEM_TAU ?ps = Some cs"
    "\<forall>i < length ?ps. beforeRating (cs ! i) = pa_rating (?ps ! i) \<and>
      ((\<forall>j < length ?ps. j \<noteq> i \<longrightarrow> pa_rank (?ps ! i) < pa_rank (?ps ! j)) \<longrightarrow> beforeRating (cs ! i) \<le> afterRating (cs ! i)) \<and>
      ((\<forall>j < length ?ps. j \<noteq> i \<longrightarrow> pa_rank (?ps ! j) < pa_rank (?ps ! i)) \<longrightarrow> afterRating (cs ! i) \<le> beforeRating (cs ! i))"
    using rating_changes_fair [OF t i] by blast
  have "1500 \<le> afterRating (cs ! 0)" using cs(2) [rule_format, of 0] by (auto simp: less_Suc_eq)
  moreover have "afterRating (cs ! 1) \<le> 1900" using cs(2) [rule_format, of 1] by (auto simp: less_Suc_eq)
  ultimately show ?thesis using cs(1) by auto
qed

end
