(* ===== verification/Contests.thy ===== *)
theory Contests
  imports Effects RateLimit TtlCache Glicko2
begin

section \<open>Contests\<close>

text \<open>
  Joining, leaving, standings and the finalisation of ratings
  (\<^verbatim>\<open>src/app/api/contests/**\<close>) with the admin guard (\<^verbatim>\<open>src/lib/admin-guard.ts\<close>). The
  state is the contest tables together with what the process keeps: the rate limiter's buckets
  and the cache. A transaction is one call: all of it or nothing.
\<close>

subsection \<open>Tables\<close>

record contest_row =
  co_id :: nat
  co_slug :: string
  co_status :: string
  co_startTime :: int
  co_endTime :: int
  co_division :: "division option"

record entry_row =
  en_id :: nat
  en_contest :: nat
  en_user :: nat
  en_score :: int
  en_rank :: "nat option"
  en_joinedAt :: int

record con_user =
  cu_id :: nat
  cu_username :: string
  cu_rating :: int
  cu_maxRating :: int
  cu_rd :: int
  cu_volatility :: real

record rating_row =
  rr_user :: nat
  rr_contest :: nat
  rr_before :: int
  rr_after :: int
  rr_delta :: int
  rr_rank :: nat

record con_db =
  cn_contests :: "contest_row list"
  cn_entries :: "entry_row list"
  cn_users :: "con_user list"
  cn_ratings :: "rating_row list"
  cn_limiter :: buckets
  cn_cache :: "string cache"

definition contest_by_slug :: "string \<Rightarrow> con_db \<Rightarrow> contest_row option" where
  "contest_by_slug slug db = find_by co_slug slug (cn_contests db)"

definition entry_of :: "nat \<Rightarrow> nat \<Rightarrow> con_db \<Rightarrow> entry_row option" where
  "entry_of c u db = find_by (\<lambda>e. (en_contest e, en_user e)) (c, u) (cn_entries db)"

definition limited :: "string \<Rightarrow> int \<Rightarrow> int \<Rightarrow> int \<Rightarrow> con_db \<Rightarrow> rl_result \<times> con_db" where
  "limited key mx windowMs now db =
    (case rateLimit key mx windowMs now (cn_limiter db) of (r, b) \<Rightarrow> (r, db\<lparr>cn_limiter := b\<rparr>))"

subsection \<open>Joining and leaving\<close>

definition slug_ok :: "string \<Rightarrow> bool" where
  "slug_ok s \<longleftrightarrow> 1 \<le> length s \<and> length s \<le> 200 \<and>
    list_all (\<lambda>c. (97 \<le> (of_char c :: nat) \<and> (of_char c :: nat) \<le> 122) \<or> is_digit c \<or> c = CHR ''-'') s"

text \<open>\<^verbatim>\<open>contestEntry.create\<close>: rejected by the unique (contest, user).\<close>

definition create_entry :: "nat \<Rightarrow> nat \<Rightarrow> nat \<Rightarrow> int \<Rightarrow> con_db \<Rightarrow> (string + entry_row) \<times> con_db" where
  "create_entry i c u now db =
    (if entry_of c u db \<noteq> None then (Inl ''P2002'', db)
     else (let e = \<lparr>en_id = i, en_contest = c, en_user = u, en_score = 0, en_rank = None, en_joinedAt = now\<rparr>
           in (Inr e, db\<lparr>cn_entries := cn_entries db @ [e]\<rparr>)))"

definition join_POST ::
  "session option \<Rightarrow> string \<Rightarrow> nat \<Rightarrow> int \<Rightarrow> (con_db, string, (entry_row \<times> bool) reply) prog" where
  "join_POST session slug newId now =
    catch
      (case session of
         None \<Rightarrow> ret (Failed 401 ''Unauthorized'')
       | Some se \<Rightarrow>
           bind (state_op (limited (''contest-join:'' @ show_nat (se_userId se)) 10 60000 now)) (\<lambda>limit.
           if \<not> allowed limit then ret (Failed 429 ''Too many join requests. Slow down.'')
           else if \<not> slug_ok slug then ret (Failed 400 ''Invalid request'')
           else bind (query ''db'' (contest_by_slug slug)) (\<lambda>contest.
             case contest of
               None \<Rightarrow> ret (Failed 404 ''Contest not found'')
             | Some c \<Rightarrow>
                 if co_status c = ''ended'' then ret (Failed 409 ''Contest has ended'')
                 else bind (query ''db'' (entry_of (co_id c) (se_userId se))) (\<lambda>existing.
                   case existing of
                     Some e \<Rightarrow> ret (Reply 200 (e, True))
                   | None \<Rightarrow>
                       bind (call ''db'' (create_entry newId (co_id c) (se_userId se) now)) (\<lambda>entry.
                       ret (Reply 201 (entry, False)))))))
      (\<lambda>_. ret (Failed 500 ''Internal server error''))"

definition leave_DELETE :: "session option \<Rightarrow> string \<Rightarrow> (con_db, string, unit reply) prog" where
  "leave_DELETE session slug =
    catch
      (case session of
         None \<Rightarrow> ret (Failed 401 ''Unauthorized'')
       | Some se \<Rightarrow>
           bind (query ''db'' (contest_by_slug slug)) (\<lambda>contest.
             case contest of
               None \<Rightarrow> ret (Failed 404 ''Contest not found'')
             | Some c \<Rightarrow>
                 if co_status c = ''ended''
                 then ret (Failed 409 ''Cannot leave an ended contest - entries are part of the record'')
                 else bind (query ''db'' (entry_of (co_id c) (se_userId se))) (\<lambda>existing.
                   case existing of
                     None \<Rightarrow> ret (Failed 404 ''Not joined'')
                   | Some e \<Rightarrow>
                       bind (update ''db'' (\<lambda>db. db\<lparr>cn_entries := filter (\<lambda>x. en_id x \<noteq> en_id e) (cn_entries db)\<rparr>)) (\<lambda>_.
                       ret (Reply 200 ())))))
      (\<lambda>_. ret (Failed 500 ''Internal server error''))"

subsection \<open>Standings\<close>

text \<open>\<^verbatim>\<open>orderBy: [{ score: "desc" }, { joinedAt: "asc" }]\<close>\<close>

definition standing_le :: "entry_row \<Rightarrow> entry_row \<Rightarrow> bool" where
  "standing_le a b \<longleftrightarrow> (if en_score a = en_score b then en_joinedAt a \<le> en_joinedAt b else en_score a > en_score b)"

definition standings :: "nat \<Rightarrow> con_db \<Rightarrow> entry_row list" where
  "standings c db = sort_by standing_le (filter (\<lambda>e. en_contest e = c) (cn_entries db))"

text \<open>The joined user; the foreign key guarantees the row, so that the second case is not reached.\<close>

definition user_of :: "con_db \<Rightarrow> entry_row \<Rightarrow> con_user" where
  "user_of db e = (case find_by cu_id (en_user e) (cn_users db) of
     Some u \<Rightarrow> u
   | None \<Rightarrow> \<lparr>cu_id = en_user e, cu_username = [], cu_rating = 1500, cu_maxRating = 1500, cu_rd = 350, cu_volatility = 6 / 100\<rparr>)"

record leader_line =
  ll_rank :: nat
  ll_score :: int
  ll_user :: nat
  ll_username :: string
  ll_rating :: int
  ll_delta :: "int option"

definition leader_line_of :: "con_user \<Rightarrow> entry_row \<Rightarrow> nat \<Rightarrow> rating_row option \<Rightarrow> leader_line" where
  "leader_line_of u e i rc =
    \<lparr>ll_rank = i + 1, ll_score = en_score e, ll_user = cu_id u, ll_username = cu_username u,
     ll_rating = (case rc of None \<Rightarrow> cu_rating u | Some r \<Rightarrow> rr_after r),
     ll_delta = map_option rr_delta rc\<rparr>"

definition leaderboard_GET :: "string \<Rightarrow> string option \<Rightarrow> (con_db, string, (string \<times> leader_line list) reply) prog" where
  "leaderboard_GET slug limitParam =
    catch
      (bind (query ''db'' (contest_by_slug slug)) (\<lambda>contest.
        case contest of
          None \<Rightarrow> ret (Failed 404 ''Contest not found'')
        | Some c \<Rightarrow>
            bind (query ''db'' (\<lambda>db. map (\<lambda>e. (e, user_of db e))
              (take (nat (limit_param 200 50 limitParam)) (standings (co_id c) db)))) (\<lambda>entries.
            bind (if entries = [] then ret []
                  else query ''db'' (\<lambda>db. filter (\<lambda>r. rr_contest r = co_id c \<and> rr_user r \<in> set (map (cu_id \<circ> snd) entries)) (cn_ratings db)))
              (\<lambda>ratingChanges.
            ret (Reply 200 (co_status c,
              map (\<lambda>(i, e, u). leader_line_of u e i (find_by rr_user (cu_id u) (rev ratingChanges))) (enumerate 0 entries)))))))
      (\<lambda>_. ret (Failed 500 ''Internal server error''))"

definition me_GET :: "string \<Rightarrow> session option \<Rightarrow> (con_db, string, (bool \<times> entry_row option) reply) prog" where
  "me_GET slug session =
    catch
      (bind (query ''db'' (contest_by_slug slug)) (\<lambda>contest.
        case contest of
          None \<Rightarrow> ret (Failed 404 ''Contest not found'')
        | Some c \<Rightarrow>
            (case session of
               None \<Rightarrow> ret (Reply 200 (False, None))
             | Some se \<Rightarrow>
                 bind (query ''db'' (entry_of (co_id c) (se_userId se))) (\<lambda>entry.
                 ret (Reply 200 (entry \<noteq> None, entry))))))
      (\<lambda>_. ret (Failed 500 ''Internal server error''))"

definition joined_le :: "entry_row \<Rightarrow> entry_row \<Rightarrow> bool" where
  "joined_le a b \<longleftrightarrow> en_joinedAt a \<le> en_joinedAt b"

definition entries_GET :: "string \<Rightarrow> string option \<Rightarrow> (con_db, string, ((entry_row \<times> con_user) list \<times> nat) reply) prog" where
  "entries_GET slug limitParam =
    catch
      (bind (query ''db'' (contest_by_slug slug)) (\<lambda>contest.
        case contest of
          None \<Rightarrow> ret (Failed 404 ''Contest not found'')
        | Some c \<Rightarrow>
            bind (query ''db'' (\<lambda>db. map (\<lambda>e. (e, user_of db e)) (take (nat (limit_param 500 100 limitParam))
              (sort_by joined_le (filter (\<lambda>e. en_contest e = co_id c) (cn_entries db)))))) (\<lambda>entries.
            bind (query ''db'' (\<lambda>db. length (filter (\<lambda>e. en_contest e = co_id c) (cn_entries db)))) (\<lambda>total.
            ret (Reply 200 (entries, total))))))
      (\<lambda>_. ret (Failed 500 ''Internal server error''))"

subsection \<open>The admin guard\<close>

definition requireAdmin :: "session option \<Rightarrow> int \<Rightarrow> (con_db, string, (nat \<times> string) option) prog" where
  "requireAdmin session now =
    (case session of
       None \<Rightarrow> ret (Some (401, ''Unauthorized''))
     | Some se \<Rightarrow>
         if se_role se \<noteq> ''admin'' then ret (Some (403, ''Forbidden''))
         else bind (state_op (limited (''admin:'' @ show_nat (se_userId se)) 60 60000 now)) (\<lambda>limit.
           if \<not> allowed limit then ret (Some (429, ''Too many admin actions. Slow down.''))
           else ret None))"

subsection \<open>Finalising the ratings\<close>

text \<open>Standard competition ranking over the standings.\<close>

fun competition_ranks :: "int option \<Rightarrow> nat \<Rightarrow> nat \<Rightarrow> entry_row list \<Rightarrow> nat list" where
  "competition_ranks prevScore prevRank idx [] = []"
| "competition_ranks prevScore prevRank idx (e # es) =
    (let rank = (if Some (en_score e) = prevScore then prevRank else idx + 1)
     in rank # competition_ranks (Some (en_score e)) rank (idx + 1) es)"

definition participant_of :: "con_user \<Rightarrow> nat \<Rightarrow> participant" where
  "participant_of u rank = \<lparr>pa_userId = cu_id u, pa_rating = of_int (cu_rating u), pa_rd = of_int (cu_rd u),
     pa_volatility = cu_volatility u, pa_rank = rank\<rparr>"

definition rating_row_of :: "nat \<Rightarrow> rating_change \<Rightarrow> rating_row" where
  "rating_row_of c ch = \<lparr>rr_user = rc_userId ch, rr_contest = c, rr_before = \<lfloor>beforeRating ch\<rfloor>, rr_after = \<lfloor>afterRating ch\<rfloor>,
     rr_delta = \<lfloor>rc_delta ch\<rfloor>, rr_rank = rc_rank ch\<rparr>"

definition rate_user :: "con_user \<Rightarrow> rating_change \<Rightarrow> con_user list \<Rightarrow> con_user list" where
  "rate_user before ch = upd_by cu_id (rc_userId ch) (\<lambda>u. u\<lparr>cu_rating := \<lfloor>afterRating ch\<rfloor>,
     cu_maxRating := max (cu_maxRating before) \<lfloor>afterRating ch\<rfloor>, cu_rd := \<lfloor>afterRd ch\<rfloor>, cu_volatility := afterVolatility ch\<rparr>)"

text \<open>The transaction: rejected as a whole when a user is gone or a snapshot exists.\<close>

definition rating_transaction ::
  "nat \<Rightarrow> (con_user \<times> rating_change) list \<Rightarrow> con_db \<Rightarrow> (string + unit) \<times> con_db" where
  "rating_transaction c changes db =
    (if list_ex (\<lambda>(u, ch). find_by cu_id (rc_userId ch) (cn_users db) = None) changes
        \<or> list_ex (\<lambda>(u, ch). list_ex (\<lambda>r. rr_contest r = c \<and> rr_user r = rc_userId ch) (cn_ratings db)) changes
        \<or> \<not> distinct (map (rc_userId \<circ> snd) changes)
     then (Inl ''transaction'', db)
     else (Inr (), db\<lparr>cn_users := fold (\<lambda>(u, ch). rate_user u ch) changes (cn_users db),
       cn_ratings := cn_ratings db @ map (rating_row_of c \<circ> snd) changes,
       cn_contests := upd_by co_id c (\<lambda>r. r\<lparr>co_status := ''ended''\<rparr>) (cn_contests db)\<rparr>))"

definition backfill_rank :: "nat \<Rightarrow> rating_change \<Rightarrow> con_db \<Rightarrow> con_db" where
  "backfill_rank c ch db = db\<lparr>cn_entries := map (\<lambda>e. if en_contest e = c \<and> en_user e = rc_userId ch
     then e\<lparr>en_rank := Some (rc_rank ch)\<rparr> else e) (cn_entries db)\<rparr>"

definition bust_contest :: "string \<Rightarrow> con_db \<Rightarrow> con_db" where
  "bust_contest slug db = db\<lparr>cn_cache := cache_delete ''contests:all'' (cache_delete (''contests:detail:'' @ slug) (cn_cache db))\<rparr>"

text \<open>After the guard. The rating engine always returns (theory Glicko2).\<close>

definition finalize_entries ::
  "string \<Rightarrow> contest_row \<Rightarrow> (entry_row \<times> con_user) list \<Rightarrow> (con_db, string, (rating_change list) reply) prog" where
  "finalize_entries slug c entries =
    (if length entries < 2 then ret (Failed 422 ''Need at least two participants to finalise rating'')
     else (let ranks = competition_ranks None 0 0 (map fst entries);
               participants = map (\<lambda>((e, u), rank). participant_of u rank) (zip entries ranks)
           in case calculateRatingChanges SYSTEM_TAU participants of
                None \<Rightarrow> throw ''unreachable''
              | Some changes \<Rightarrow>
                  bind (call ''db'' (rating_transaction (co_id c) (zip (map snd entries) changes))) (\<lambda>_.
                  bind (for_each changes (\<lambda>ch. update ''db'' (backfill_rank (co_id c) ch))) (\<lambda>_.
                  bind (state_op (\<lambda>db. ((), bust_contest slug db))) (\<lambda>_.
                  ret (Reply 200 changes))))))"

definition finalize_POST ::
  "session option \<Rightarrow> string \<Rightarrow> int \<Rightarrow> (con_db, string, (rating_change list) reply) prog" where
  "finalize_POST session slug now =
    catch
      (bind (requireAdmin session now) (\<lambda>gate.
        case gate of
          Some (n, e) \<Rightarrow> ret (Failed n e)
        | None \<Rightarrow>
            bind (query ''db'' (contest_by_slug slug)) (\<lambda>contest.
              case contest of
                None \<Rightarrow> ret (Failed 404 ''Contest not found'')
              | Some c \<Rightarrow>
                  if \<not> (co_status c = ''ended'' \<or> co_endTime c \<le> now)
                  then ret (Failed 409 ''Contest is not finished yet'')
                  else bind (query ''db'' (\<lambda>db. length (filter (\<lambda>r. rr_contest r = co_id c) (cn_ratings db)))) (\<lambda>existing.
                    if existing > 0 then ret (Failed 409 ''Rating already finalised for this contest'')
                    else bind (query ''db'' (\<lambda>db. map (\<lambda>e. (e, user_of db e)) (standings (co_id c) db)))
                      (finalize_entries slug c)))))
      (\<lambda>_. ret (Failed 500 ''Internal server error''))"

interpretation by_standing: comparator standing_le UNIV
  by unfold_locales (auto simp: standing_le_def split: if_splits)

interpretation by_joined: comparator joined_le UNIV
  by unfold_locales (auto simp: joined_le_def)

subsection \<open>Ranks\<close>

definition ahead_of :: "entry_row \<Rightarrow> entry_row list \<Rightarrow> nat" where
  "ahead_of e es = length (filter (\<lambda>x. en_score x > en_score e) es)"

lemma length_competition_ranks [simp]: "length (competition_ranks s r i es) = length es"
  by (induction es arbitrary: s r i) (simp_all add: Let_def)

lemma competition_ranks_nth:
  assumes "sorted_wrt (\<lambda>a b. en_score a \<ge> en_score b) (done @ es)" "idx = length done" "i < length es"
    "done \<noteq> [] \<Longrightarrow> s = Some (en_score (last done)) \<and> r = 1 + ahead_of (last done) done"
    "done = [] \<Longrightarrow> s = None"
  shows "competition_ranks s r idx es ! i = 1 + ahead_of (es ! i) (done @ es)"
  using assms
proof (induction es arbitrary: "done" s r idx i)
  case (Cons e es)
  have le: "en_score e \<le> en_score x" if "x \<in> set done" for x
    using Cons.prems(1) that by (auto simp: sorted_wrt_append)
  have ge: "en_score x \<le> en_score e" if "x \<in> set es" for x
    using Cons.prems(1) that by (auto simp: sorted_wrt_append)
  let ?rank = "if Some (en_score e) = s then r else idx + 1"
  have tail: "filter (\<lambda>x. en_score x > en_score e) (e # es) = []"
    using ge by (force simp: filter_empty_conv)
  have rank: "?rank = 1 + ahead_of e done"
  proof (cases "Some (en_score e) = s")
    case True
    then have "done \<noteq> []" using Cons.prems(5) by auto
    then show ?thesis using True Cons.prems(4) by (simp add: ahead_of_def)
  next
    case False
    have "en_score e < en_score x" if "x \<in> set done" for x
    proof -
      have "done \<noteq> []" using that by auto
      then have "en_score e \<noteq> en_score (last done)" "en_score e \<le> en_score (last done)"
        using False Cons.prems(4) le by auto
      moreover have "en_score (last done) \<le> en_score x"
        using Cons.prems(1) that \<open>done \<noteq> []\<close>
        by (cases "done" rule: rev_cases) (auto simp: sorted_wrt_append)
      ultimately show ?thesis by simp
    qed
    then have "filter (\<lambda>x. en_score x > en_score e) done = done" by simp
    then show ?thesis using False Cons.prems(2) by (simp add: ahead_of_def)
  qed
  have all: "ahead_of e (done @ e # es) = ahead_of e done"
    using tail by (simp add: ahead_of_def)
  show ?case
  proof (cases i)
    case 0
    then show ?thesis using rank all by (simp add: Let_def)
  next
    case (Suc j)
    have "competition_ranks (Some (en_score e)) ?rank (idx + 1) es ! j = 1 + ahead_of (es ! j) ((done @ [e]) @ es)"
      using Cons.prems Suc rank by (intro Cons.IH) (auto simp: ahead_of_def)
    then show ?thesis using Suc by (simp add: Let_def)
  qed
qed simp

lemma standings_sorted: "sorted_wrt (\<lambda>a b. en_score a \<ge> en_score b) (standings c db)"
proof -
  have "sorted_wrt standing_le (standings c db)" unfolding standings_def by (rule by_standing.sorted_sort_by) simp
  then show ?thesis by (rule sorted_wrt_mono_rel [rotated]) (auto simp: standing_le_def split: if_splits)
qed

subsection \<open>What finalising touches\<close>

definition keeps_ratings :: "con_db \<Rightarrow> con_db \<Rightarrow> bool" where
  "keeps_ratings s t \<longleftrightarrow> cn_ratings t = cn_ratings s \<and> cn_users t = cn_users s"

interpretation keeping: evolution keeps_ratings
  by unfold_locales (auto simp: keeps_ratings_def)

lemma keeps_limited: "keeps_ratings s (snd (limited k m w now s))"
  by (simp add: keeps_ratings_def limited_def split: prod.split)

lemma finalize_entries_after:
  "keeps_ratings db (after (finalize_entries slug c entries) fs db) \<or>
   (\<exists>changes. calculateRatingChanges SYSTEM_TAU (map (\<lambda>((e, u), rank). participant_of u rank)
        (zip entries (competition_ranks None 0 0 (map fst entries)))) = Some changes \<and>
      rating_transaction (co_id c) (zip (map snd entries) changes) db = (Inr (), snd (rating_transaction (co_id c) (zip (map snd entries) changes) db)) \<and>
      keeps_ratings (snd (rating_transaction (co_id c) (zip (map snd entries) changes) db)) (after (finalize_entries slug c entries) fs db))"
proof (cases "length entries < 2")
  case True
  then show ?thesis by (simp add: finalize_entries_def keeping.refl)
next
  case False
  let ?ps = "map (\<lambda>((e, u), rank). participant_of u rank) (zip entries (competition_ranks None 0 0 (map fst entries)))"
  show ?thesis
  proof (cases "calculateRatingChanges SYSTEM_TAU ?ps")
    case None
    then show ?thesis using False by (simp add: finalize_entries_def Let_def keeping.refl)
  next
    case (Some changes)
    let ?tx = "rating_transaction (co_id c) (zip (map snd entries) changes)"
    let ?rest = "\<lambda>_::unit. bind (for_each changes (\<lambda>ch. update ''db'' (backfill_rank (co_id c) ch))) (\<lambda>_.
      bind (state_op (\<lambda>db. ((), bust_contest slug db))) (\<lambda>_. ret (Reply 200 changes)))"
    have rest: "moves keeps_ratings (?rest u)" for u
      by (intro keeping.moves_rules) (simp_all add: keeps_ratings_def backfill_rank_def bust_contest_def)
    have eq: "after (finalize_entries slug c entries) fs db = after (bind (call ''db'' ?tx) ?rest) fs db"
      using False by (simp add: finalize_entries_def Let_def Some)
    show ?thesis
    proof (cases "call ''db'' ?tx (fs, db) = (Inl ''db'', (tl fs, db)) \<or> (\<exists>e. ?tx db = (Inl e, db))")
      case True
      then have "after (finalize_entries slug c entries) fs db = db"
        unfolding eq using call_or [of "''db''" ?tx fs db] by (auto simp: after_bind)
      then show ?thesis by (simp add: keeping.refl)
    next
      case False
      then have tx: "?tx db = (Inr (), snd (?tx db))"
        by (auto simp: rating_transaction_def split: if_splits)
      then have "call ''db'' ?tx (fs, db) = (Inr (), (tl fs, snd (?tx db)))"
        using False call_or [of "''db''" ?tx fs db] by (metis fst_conv)
      then have "after (finalize_entries slug c entries) fs db = after (?rest ()) (tl fs) (snd (?tx db))"
        unfolding eq by (simp add: after_bind)
      then have "keeps_ratings (snd (?tx db)) (after (finalize_entries slug c entries) fs db)"
        using keeping.moves_result [OF rest] by metis
      then show ?thesis using Some tx by blast
    qed
  qed
qed

lemma find_rate_user:
  "find_by cu_id j (rate_user b ch us) = map_option (\<lambda>u. if j = rc_userId ch then u\<lparr>cu_rating := \<lfloor>afterRating ch\<rfloor>,
     cu_maxRating := max (cu_maxRating b) \<lfloor>afterRating ch\<rfloor>, cu_rd := \<lfloor>afterRd ch\<rfloor>, cu_volatility := afterVolatility ch\<rparr> else u)
     (find_by cu_id j us)"
  by (simp add: rate_user_def find_by_upd option.map_ident)

lemma fold_rate_other:
  "j \<notin> set (map (rc_userId \<circ> snd) chs) \<Longrightarrow>
    find_by cu_id j (fold (\<lambda>(u, ch). rate_user u ch) chs us) = find_by cu_id j us"
  by (induction chs arbitrary: us) (auto simp: find_rate_user option.map_ident)

lemma fold_rate_user:
  "distinct (map (rc_userId \<circ> snd) chs) \<Longrightarrow> (b, ch) \<in> set chs \<Longrightarrow> find_by cu_id (rc_userId ch) us \<noteq> None \<Longrightarrow>
    \<exists>u. find_by cu_id (rc_userId ch) (fold (\<lambda>(u, ch). rate_user u ch) chs us) = Some u \<and> cu_rating u = \<lfloor>afterRating ch\<rfloor>"
proof (induction chs arbitrary: us)
  case (Cons x chs)
  obtain b' ch' where x: "x = (b', ch')" by (cases x)
  show ?case
  proof (cases "x = (b, ch)")
    case True
    then have "rc_userId ch \<notin> set (map (rc_userId \<circ> snd) chs)" using Cons.prems(1) by simp
    then show ?thesis using True Cons.prems(3) by (auto simp: fold_rate_other find_rate_user)
  next
    case False
    have "find_by cu_id (rc_userId ch) (rate_user b' ch' us) \<noteq> None" using Cons.prems(3) by (simp add: find_rate_user)
    then show ?thesis using False Cons x by auto
  qed
qed simp

lemma transaction_ok:
  assumes "rating_transaction c z db = (Inr (), t)"
  shows "(\<forall>ch \<in> set (map snd z). find_by cu_id (rc_userId ch) (cn_users db) \<noteq> None) \<and> distinct (map (rc_userId \<circ> snd) z) \<and>
    cn_users t = fold (\<lambda>(u, ch). rate_user u ch) z (cn_users db) \<and>
    cn_ratings t = cn_ratings db @ map (rating_row_of c \<circ> snd) z"
  using assms by (force simp: rating_transaction_def list_ex_iff split: if_splits)

lemma changes_shape:
  assumes "calculateRatingChanges SYSTEM_TAU ps = Some chs"
  shows "length chs = length ps \<and> map rc_userId chs = map pa_userId ps"
proof (cases "length ps < 2")
  case True
  then have "chs = map unchanged_rating ps" using assms by (simp add: calculateRatingChanges_def)
  then show ?thesis by (simp add: unchanged_rating_def)
next
  case False
  then have l: "2 \<le> length ps" by simp
  have t: "0 < SYSTEM_TAU" by (simp add: SYSTEM_TAU_def)
  have c: "chs = map (\<lambda>i. the (change_of SYSTEM_TAU ps i)) [0..<length ps]"
    using changes_total [OF t l] assms by simp
  have "rc_userId (the (change_of SYSTEM_TAU ps i)) = pa_userId (ps ! i)" if "i < length ps" for i
    using change_of_total [OF t l that] by auto
  then show ?thesis unfolding c by (auto intro!: nth_equalityI)
qed

subsection \<open>Properties\<close>

text \<open>
  Ranks are standard competition ranks. In the standings of a contest the rank given to
  each entry is one more than the number of entries with a higher score, so equal scores share a
  rank and the next one is skipped accordingly.
\<close>

theorem ranks_are_competition_ranks:
  assumes "i < length (standings c db)"
  shows "competition_ranks None 0 0 (standings c db) ! i =
    1 + length (filter (\<lambda>x. en_score x > en_score (standings c db ! i)) (standings c db))"
  using competition_ranks_nth [of "[]" "standings c db" 0 i None 0] standings_sorted [of c db] assms
  by (simp add: ahead_of_def)

definition plain_entry :: "nat \<Rightarrow> nat \<Rightarrow> int \<Rightarrow> entry_row" where
  "plain_entry i c s = \<lparr>en_id = i, en_contest = c, en_user = i, en_score = s, en_rank = None, en_joinedAt = int i\<rparr>"

definition sample_contests :: con_db where
  "sample_contests = \<lparr>cn_contests = [\<lparr>co_id = 4, co_slug = ''cup'', co_status = ''active'', co_startTime = 0, co_endTime = 50, co_division = Some Div1\<rparr>],
     cn_entries = [plain_entry 1 4 10, plain_entry 2 4 30, plain_entry 3 4 10],
     cn_users = [], cn_ratings = [\<lparr>rr_user = 9, rr_contest = 4, rr_before = 1500, rr_after = 1510, rr_delta = 10, rr_rank = 1\<rparr>],
     cn_limiter = [], cn_cache = new_cache (Fin 10)\<rparr>"

lemma ranks_are_competition_ranks_witness:
  "competition_ranks None 0 0 (standings 4 sample_contests) ! 2 = 2"
proof -
  have s: "standings 4 sample_contests = [plain_entry 2 4 30, plain_entry 1 4 10, plain_entry 3 4 10]"
    by (simp add: standings_def sample_contests_def plain_entry_def standing_le_def)
  then have "2 < length (standings 4 sample_contests)" by simp
  from ranks_are_competition_ranks [OF this] show ?thesis by (simp add: s plain_entry_def)
qed

text \<open>
  C10. Ratings are finalised once, by an admin, as a whole. Whatever database calls fail, a call
  of the finalisation changes neither ratings nor snapshots, or: the caller is an admin,
  the contest is over, has two entries or more and had no snapshot, and the call added exactly one
  snapshot for each entry, in the order of the standings, and gave each user the rating of the
  snapshot. So a contest with snapshots is never rated again.
\<close>

theorem finalize_once:
  "let db' = after (finalize_POST session slug now) fs db in
    (cn_ratings db' = cn_ratings db \<and> cn_users db' = cn_users db) \<or>
    (\<exists>se c changes. session = Some se \<and> se_role se = ''admin'' \<and> contest_by_slug slug db = Some c \<and>
      (co_status c = ''ended'' \<or> co_endTime c \<le> now) \<and> 2 \<le> length (standings (co_id c) db) \<and>
      (\<forall>r \<in> set (cn_ratings db). rr_contest r \<noteq> co_id c) \<and>
      map rc_userId changes = map (\<lambda>e. cu_id (user_of db e)) (standings (co_id c) db) \<and>
      cn_ratings db' = cn_ratings db @ map (rating_row_of (co_id c)) changes \<and>
      (\<forall>ch \<in> set changes. \<exists>u. find_by cu_id (rc_userId ch) (cn_users db') = Some u \<and> cu_rating u = \<lfloor>afterRating ch\<rfloor>))"
proof (cases "\<exists>se. session = Some se \<and> se_role se = ''admin'' \<and>
    allowed (fst (limited (''admin:'' @ show_nat (se_userId se)) 60 60000 now db))")
  case False
  then have "keeps_ratings db (after (finalize_POST session slug now) fs db)"
    by (cases session) (auto simp: finalize_POST_def requireAdmin_def after_bind bind_def keeps_limited keeping.refl)
  then show ?thesis by (simp add: keeps_ratings_def Let_def)
next
  case True
  then obtain se where se: "session = Some se" "se_role se = ''admin''"
    and al: "allowed (fst (limited (''admin:'' @ show_nat (se_userId se)) 60 60000 now db))" by blast
  define d where "d = snd (limited (''admin:'' @ show_nat (se_userId se)) 60 60000 now db)"
  have d: "cn_ratings d = cn_ratings db" "cn_users d = cn_users db" "cn_contests d = cn_contests db" "cn_entries d = cn_entries db"
    by (simp_all add: d_def limited_def split: prod.split)
  have same: "contest_by_slug slug d = contest_by_slug slug db" "standings c d = standings c db" "user_of d e = user_of db e" for c e
    by (simp_all add: contest_by_slug_def standings_def user_of_def d)
  let ?after = "after (finalize_POST session slug now) fs db"
  let ?k3 = "\<lambda>c entries. finalize_entries slug c entries"
  let ?k2 = "\<lambda>c existing. if 0 < existing then ret (Failed 409 ''Rating already finalised for this contest'')
    else bind (query ''db'' (\<lambda>db. map (\<lambda>e. (e, user_of db e)) (standings (co_id c) db))) (?k3 c)"
  let ?k1 = "\<lambda>contest. case contest of None \<Rightarrow> ret (Failed 404 ''Contest not found'')
    | Some c \<Rightarrow> if co_status c \<noteq> ''ended'' \<and> \<not> co_endTime c \<le> now then ret (Failed 409 ''Contest is not finished yet'')
      else bind (query ''db'' (\<lambda>db. length (filter (\<lambda>r. rr_contest r = co_id c) (cn_ratings db)))) (?k2 c)"
  have start: "?after = after (bind (query ''db'' (contest_by_slug slug)) ?k1) fs d"
    using al by (simp add: finalize_POST_def requireAdmin_def se after_bind bind_def d_def)
  have quiet: ?thesis if "?after = d" using that d by simp
  consider "?after = d" | c gs where "contest_by_slug slug db = Some c" "co_status c = ''ended'' \<or> co_endTime c \<le> now"
      "?after = after (bind (query ''db'' (\<lambda>db. length (filter (\<lambda>r. rr_contest r = co_id c) (cn_ratings db)))) (?k2 c)) gs d"
    unfolding start using after_query [of "''db''" "contest_by_slug slug" ?k1 fs d] same(1)
    by (cases "contest_by_slug slug db") (auto split: if_splits)
  then show ?thesis
  proof cases
    case 1
    then show ?thesis by (rule quiet)
  next
    case (2 c gs)
    consider "?after = d" | hs where "\<forall>r \<in> set (cn_ratings db). rr_contest r \<noteq> co_id c"
        "?after = after (bind (query ''db'' (\<lambda>db. map (\<lambda>e. (e, user_of db e)) (standings (co_id c) db))) (?k3 c)) hs d"
      unfolding 2(3) using after_query [of "''db''" "\<lambda>db. length (filter (\<lambda>r. rr_contest r = co_id c) (cn_ratings db))" "?k2 c" gs d] d(1)
      by (auto simp: filter_empty_conv split: if_splits)
    then show ?thesis
    proof cases
      case 1
      then show ?thesis by (rule quiet)
    next
      case none: (2 hs)
      let ?entries = "map (\<lambda>e. (e, user_of db e)) (standings (co_id c) db)"
      consider "?after = d" | ks where "?after = after (finalize_entries slug c ?entries) ks d"
        unfolding none(2) using after_query [of "''db''" "\<lambda>db. map (\<lambda>e. (e, user_of db e)) (standings (co_id c) db)" "?k3 c" hs d] same
        by auto
      then show ?thesis
      proof cases
        case 1
        then show ?thesis by (rule quiet)
      next
        case fin: (2 ks)
        show ?thesis
        proof (cases "keeps_ratings d ?after")
          case True
          then show ?thesis using d by (simp add: keeps_ratings_def Let_def)
        next
          case rated: False
          let ?ps = "map (\<lambda>((e, u), rank). participant_of u rank)
            (zip ?entries (competition_ranks None 0 0 (map fst ?entries)))"
          obtain changes where ch: "calculateRatingChanges SYSTEM_TAU ?ps = Some changes"
            and tx: "rating_transaction (co_id c) (zip (map snd ?entries) changes) d =
              (Inr (), snd (rating_transaction (co_id c) (zip (map snd ?entries) changes) d))"
            and keep: "keeps_ratings (snd (rating_transaction (co_id c) (zip (map snd ?entries) changes) d)) ?after"
            using finalize_entries_after [of d slug c ?entries ks] rated unfolding fin by blast
          have two: "2 \<le> length (standings (co_id c) db)"
          proof (rule ccontr)
            assume "\<not> 2 \<le> length (standings (co_id c) db)"
            then have "?after = d" unfolding fin by (simp add: finalize_entries_def)
            then show False using rated keeping.refl by simp
          qed
          have shape: "length changes = length ?entries" "map rc_userId changes = map pa_userId ?ps"
            using changes_shape [OF ch] by simp_all
          have ids: "map rc_userId changes = map (\<lambda>e. cu_id (user_of db e)) (standings (co_id c) db)"
            unfolding shape(2) by (intro nth_equalityI) (auto simp: participant_of_def)
          let ?z = "zip (map snd ?entries) changes"
          have snds: "map snd ?z = changes" using shape(1) by simp
          have conds: "\<forall>ch \<in> set changes. find_by cu_id (rc_userId ch) (cn_users d) \<noteq> None" "distinct (map (rc_userId \<circ> snd) ?z)"
            and val: "cn_users ?after = fold (\<lambda>(u, ch). rate_user u ch) ?z (cn_users d)"
              "cn_ratings ?after = cn_ratings d @ map (rating_row_of (co_id c) \<circ> snd) ?z"
            using transaction_ok [OF tx] keep unfolding snds keeps_ratings_def by auto
          have "cn_ratings ?after = cn_ratings db @ map (rating_row_of (co_id c)) changes"
            using val(2) snds d(1) by (metis map_map)
          moreover have "\<exists>u. find_by cu_id (rc_userId ch) (cn_users ?after) = Some u \<and> cu_rating u = \<lfloor>afterRating ch\<rfloor>"
            if "ch \<in> set changes" for ch
          proof -
            have "ch \<in> set (map snd ?z)" using that snds by simp
            then obtain b where "(b, ch) \<in> set ?z" by force
            then show ?thesis unfolding val(1) using fold_rate_user conds that by blast
          qed
          ultimately show ?thesis using se 2(1,2) none(1) two ids by (simp add: Let_def) blast
        qed
      qed
    qed
  qed
qed

lemma finalize_once_witness:
  "cn_ratings (after (finalize_POST (Some \<lparr>se_userId = 1, se_role = ''admin''\<rparr>) ''cup'' 60) [] sample_contests) =
    cn_ratings sample_contests"
proof -
  have "contest_by_slug ''cup'' sample_contests = Some \<lparr>co_id = 4, co_slug = ''cup'', co_status = ''active'',
      co_startTime = 0, co_endTime = 50, co_division = Some Div1\<rparr>"
    "\<exists>r \<in> set (cn_ratings sample_contests). rr_contest r = 4"
    by (simp_all add: contest_by_slug_def sample_contests_def)
  then show ?thesis
    using finalize_once [of "Some \<lparr>se_userId = 1, se_role = ''admin''\<rparr>" "''cup''" 60 "[]" sample_contests]
    by (auto simp: Let_def)
qed

definition regrade :: "(contest_row \<Rightarrow> division option) \<Rightarrow> (con_user \<Rightarrow> int) \<Rightarrow> con_db \<Rightarrow> con_db" where
  "regrade d r db = db\<lparr>cn_contests := map (\<lambda>c. c\<lparr>co_division := d c\<rparr>) (cn_contests db),
     cn_users := map (\<lambda>u. u\<lparr>cu_rating := r u\<rparr>) (cn_users db)\<rparr>"

lemma contest_regrade:
  "contest_by_slug slug (regrade d r db) = map_option (\<lambda>c. c\<lparr>co_division := d c\<rparr>) (contest_by_slug slug db)"
proof -
  have "find_by co_slug slug (map (\<lambda>c. c\<lparr>co_division := d c\<rparr>) cs) = map_option (\<lambda>c. c\<lparr>co_division := d c\<rparr>) (find_by co_slug slug cs)" for cs
    by (induction cs) auto
  then show ?thesis by (simp add: contest_by_slug_def regrade_def)
qed

lemma entry_regrade [simp]: "entry_of c u (regrade d r db) = entry_of c u db"
  by (simp add: entry_of_def regrade_def)

lemma limited_regrade: "limited k m w now (regrade d r db) =
    (fst (limited k m w now db), regrade d r (snd (limited k m w now db)))"
  by (simp add: limited_def regrade_def split: prod.split)

lemma create_regrade: "fst (create_entry i c u now (regrade d r db)) = fst (create_entry i c u now db)"
  by (simp add: create_entry_def Let_def)

text \<open>
  Divisions are not enforced. Whether and how a user joins a contest depends neither on
  the division of the contest nor on any rating: with any divisions and ratings in
  place of the stored ones, the reply to a join is the same.
\<close>

theorem join_ignores_division:
  "result (join_POST session slug newId now) fs (regrade d r db) = result (join_POST session slug newId now) fs db"
  by (cases session; cases "contest_by_slug slug (snd (limited (''contest-join:'' @ show_nat (se_userId (the session))) 10 60000 now db))")
    (auto simp: join_POST_def result_def catch_def bind_def query_hd call_hd limited_regrade contest_regrade
      split: option.split sum.split prod.split simp: create_regrade)

end
