(* ===== verification/Solutions.thy ===== *)
theory Solutions
  imports Effects RateLimit
begin

section \<open>Shared solutions\<close>

text \<open>
  \<^verbatim>\<open>src/lib/solutions.ts\<close>, \<^verbatim>\<open>src/app/api/problems/[slug]/solutions/route.ts\<close>,
  \<^verbatim>\<open>src/app/api/solutions/[id]/route.ts\<close> and \<^verbatim>\<open>.../vote/route.ts\<close>. The tables have the keys
  of the migration: unique ids, one solution per submission, one vote per user and solution,
  votes deleted with their solution. Where the source builds a random id, the new id is an
  argument; a request body is \<open>None\<close> when it is not JSON, and its fields are \<open>None\<close> when absent.
\<close>

subsection \<open>Tables\<close>

record solution =
  so_id :: nat
  so_problem :: nat
  so_user :: nat
  so_submission :: string
  so_title :: string
  so_writeup :: string
  so_language :: string
  so_voteCount :: int
  so_createdAt :: int
  so_updatedAt :: int

record vote =
  vt_user :: nat
  vt_solution :: nat
  vt_value :: int

record author =
  au_id :: nat
  au_username :: string
  au_avatar :: "string option"

record shared_submission =
  ss_id :: string
  ss_user :: nat
  ss_problem :: nat
  ss_status :: string
  ss_language :: string

record sol_db =
  sd_solutions :: "solution list"
  sd_votes :: "vote list"
  sd_users :: "author list"
  sd_problems :: "(string, nat) jsmap"
  sd_submissions :: "shared_submission list"
  sd_limiter :: buckets

definition vote_key :: "vote \<Rightarrow> nat \<times> nat" where
  "vote_key v = (vt_user v, vt_solution v)"

definition vote_of :: "nat \<Rightarrow> nat \<Rightarrow> sol_db \<Rightarrow> int option" where
  "vote_of u i db = map_option vt_value (find_by vote_key (u, i) (sd_votes db))"

subsection \<open>Data access\<close>

definition findSolutionRowById :: "nat \<Rightarrow> sol_db \<Rightarrow> solution option" where
  "findSolutionRowById i db = find_by so_id i (sd_solutions db)"

text \<open>The join with the author: a row without its user is not found.\<close>

definition with_author :: "sol_db \<Rightarrow> solution \<Rightarrow> (solution \<times> author) list" where
  "with_author db s = (case find_by au_id (so_user s) (sd_users db) of None \<Rightarrow> [] | Some a \<Rightarrow> [(s, a)])"

definition findSolutionById :: "nat \<Rightarrow> sol_db \<Rightarrow> (solution \<times> author) option" where
  "findSolutionById i db =
    (case findSolutionRowById i db of
       None \<Rightarrow> None
     | Some s \<Rightarrow> (case with_author db s of [] \<Rightarrow> None | r # _ \<Rightarrow> Some r))"

text \<open>\<^verbatim>\<open>ORDER BY\<close>, for the two sorts; rows that tie keep the order of the table.\<close>

datatype sol_sort = Top | New

definition sol_le :: "sol_sort \<Rightarrow> solution \<times> author \<Rightarrow> solution \<times> author \<Rightarrow> bool" where
  "sol_le srt a b =
    (case srt of
       Top \<Rightarrow> so_voteCount (fst b) < so_voteCount (fst a) \<or>
              so_voteCount (fst a) = so_voteCount (fst b) \<and> so_createdAt (fst b) \<le> so_createdAt (fst a)
     | New \<Rightarrow> so_createdAt (fst b) \<le> so_createdAt (fst a))"

definition listSolutions :: "nat \<Rightarrow> sol_sort \<Rightarrow> int \<Rightarrow> int \<Rightarrow> (sol_db, string, (solution \<times> author) list \<times> nat) prog" where
  "listSolutions problemId srt page limit =
    bind (query ''db'' (\<lambda>db. page_of page limit (sort_by (sol_le srt)
        (concat (map (with_author db) (filter (\<lambda>s. so_problem s = problemId) (sd_solutions db))))))) (\<lambda>items.
    bind (query ''db'' (\<lambda>db. length (filter (\<lambda>s. so_problem s = problemId) (sd_solutions db)))) (\<lambda>total.
    ret (items, total)))"

definition createSolution ::
  "nat \<Rightarrow> nat \<Rightarrow> nat \<Rightarrow> string \<Rightarrow> string \<Rightarrow> string \<Rightarrow> string \<Rightarrow> int \<Rightarrow> sol_db \<Rightarrow> (string + solution) \<times> sol_db" where
  "createSolution newId problemId userId submissionId title writeup language now db =
    (if newId \<in> so_id ` set (sd_solutions db) \<or> submissionId \<in> so_submission ` set (sd_solutions db)
     then (Inl ''Raw query failed. Code: 23505'', db)
     else (let s = \<lparr>so_id = newId, so_problem = problemId, so_user = userId, so_submission = submissionId,
                    so_title = title, so_writeup = writeup, so_language = language, so_voteCount = 0,
                    so_createdAt = now, so_updatedAt = now\<rparr>
           in (Inr s, db\<lparr>sd_solutions := sd_solutions db @ [s]\<rparr>)))"

definition patch_row :: "string option \<Rightarrow> string option \<Rightarrow> int \<Rightarrow> solution \<Rightarrow> solution" where
  "patch_row title writeup now s =
    s\<lparr>so_title := (case title of None \<Rightarrow> so_title s | Some t \<Rightarrow> t),
      so_writeup := (case writeup of None \<Rightarrow> so_writeup s | Some w \<Rightarrow> w), so_updatedAt := now\<rparr>"

definition updateSolution ::
  "nat \<Rightarrow> string option \<Rightarrow> string option \<Rightarrow> int \<Rightarrow> (sol_db, string, solution option) prog" where
  "updateSolution i title writeup now =
    (if title = None \<and> writeup = None then query ''db'' (findSolutionRowById i)
     else call ''db'' (\<lambda>db.
       let db' = db\<lparr>sd_solutions := upd_by so_id i (patch_row title writeup now) (sd_solutions db)\<rparr>
       in (Inr (findSolutionRowById i db'), db')))"

definition deleteSolution :: "nat \<Rightarrow> (sol_db, string, bool) prog" where
  "deleteSolution i =
    call ''db'' (\<lambda>db. (Inr (i \<in> so_id ` set (sd_solutions db)),
      db\<lparr>sd_solutions := filter (\<lambda>s. so_id s \<noteq> i) (sd_solutions db),
         sd_votes := filter (\<lambda>v. vt_solution v \<noteq> i) (sd_votes db)\<rparr>))"

subsection \<open>Validation\<close>

text \<open>The messages of a failed parse, in the order of the schema; no message is a success.\<close>

record create_body =
  cb_submissionId :: "string option"
  cb_title :: "string option"
  cb_writeup :: "string option"

definition createSharedSolutionSchema :: "create_body \<Rightarrow> string list" where
  "createSharedSolutionSchema b =
    (case cb_submissionId b of None \<Rightarrow> [''Required''] | Some s \<Rightarrow> if length s < 1 then [''Submission ID is required''] else []) @
    (case cb_title b of None \<Rightarrow> [''Required'']
     | Some t \<Rightarrow> length_in 3 200 ''Title must be at least 3 characters'' ''Title too long'' t) @
    (case cb_writeup b of None \<Rightarrow> [''Required'']
     | Some w \<Rightarrow> length_in 100 20000 ''Writeup must be at least 100 characters'' ''Writeup too long'' w)"

definition updateSharedSolutionSchema :: "string option \<Rightarrow> string option \<Rightarrow> string list" where
  "updateSharedSolutionSchema title writeup =
    (case title of None \<Rightarrow> []
     | Some t \<Rightarrow> length_in 3 200 ''String must contain at least 3 character(s)'' ''String must contain at most 200 character(s)'' t) @
    (case writeup of None \<Rightarrow> []
     | Some w \<Rightarrow> length_in 100 20000 ''String must contain at least 100 character(s)'' ''String must contain at most 20000 character(s)'' w)"

definition voteSchema :: "int option \<Rightarrow> string list" where
  "voteSchema v = (if v = Some 1 \<or> v = Some (-1) then [] else [''Invalid input''])"

subsection \<open>Routes\<close>

definition parseSort :: "string option \<Rightarrow> sol_sort" where
  "parseSort raw = (if raw = Some ''new'' then New else Top)"

definition solutions_GET ::
  "bool \<Rightarrow> string \<Rightarrow> string option \<Rightarrow> string option \<Rightarrow> string option \<Rightarrow>
   (sol_db, string, ((solution \<times> author) list \<times> nat \<times> int \<times> int \<times> sol_sort) reply) prog" where
  "solutions_GET flag slug rawSort rawPage rawLimit =
    (if \<not> flag then ret (Failed 404 ''Not found'')
     else catch
      (bind (query ''db'' (\<lambda>db. jm_get (sd_problems db) slug)) (\<lambda>problem.
        case problem of
          None \<Rightarrow> ret (Failed 404 ''Problem not found'')
        | Some p \<Rightarrow>
            (let srt = parseSort rawSort; page = page_param rawPage; limit = limit_param 50 20 rawLimit
             in bind (listSolutions p srt page limit) (\<lambda>(items, total).
                ret (Reply 200 (items, total, page, limit, srt))))))
      (\<lambda>_. ret (Failed 500 ''Internal server error'')))"

definition limited_create ::
  "bool \<Rightarrow> (string + redis_reply) \<Rightarrow> nat \<Rightarrow> int \<Rightarrow> sol_db \<Rightarrow> rl_result \<times> sol_db" where
  "limited_create client exec u now db =
    (case rateLimitAsync client exec (''solution-create:'' @ show_nat u) 3 3600000 now (sd_limiter db) of
       (r, b) \<Rightarrow> (r, db\<lparr>sd_limiter := b\<rparr>))"

definition share_error :: "string \<Rightarrow> (sol_db, string, solution reply) prog" where
  "share_error msg =
    (if str_includes ''23505'' msg \<or> str_includes ''unique constraint'' (map lower_char msg)
     then ret (Failed 409 ''This submission has already been shared.'')
     else throw msg)"

definition share :: "nat \<Rightarrow> nat \<Rightarrow> nat \<Rightarrow> shared_submission \<Rightarrow> create_body \<Rightarrow> int \<Rightarrow> (sol_db, string, solution reply) prog" where
  "share newId p u su b now =
    catch
      (bind (call ''db'' (createSolution newId p u (ss_id su) (the (cb_title b)) (the (cb_writeup b)) (ss_language su) now)) (\<lambda>created.
       ret (Reply 201 created)))
      share_error"

definition solutions_POST ::
  "bool \<Rightarrow> bool \<Rightarrow> (string + redis_reply) \<Rightarrow> session option \<Rightarrow> string \<Rightarrow> create_body option \<Rightarrow> nat \<Rightarrow> int \<Rightarrow>
   (sol_db, string, solution reply) prog" where
  "solutions_POST flag client exec session slug body newId now =
    (if \<not> flag then ret (Failed 404 ''Not found'')
     else catch
      (case session of
         None \<Rightarrow> ret (Failed 401 ''Unauthorized'')
       | Some se \<Rightarrow>
           bind (state_op (limited_create client exec (se_userId se) now)) (\<lambda>limit.
           if \<not> allowed limit then ret (Failed 429 ''Too many solutions posted. Try again later.'')
           else bind (query ''db'' (\<lambda>db. jm_get (sd_problems db) slug)) (\<lambda>problem.
             case problem of
               None \<Rightarrow> ret (Failed 404 ''Problem not found'')
             | Some p \<Rightarrow>
                 (case body of
                    None \<Rightarrow> ret (Failed 400 ''Invalid JSON body'')
                  | Some b \<Rightarrow>
                      (case createSharedSolutionSchema b of
                         msg # _ \<Rightarrow> ret (Failed 400 msg)
                       | [] \<Rightarrow>
                           bind (query ''db'' (\<lambda>db. find_by ss_id (the (cb_submissionId b)) (sd_submissions db))) (\<lambda>submission.
                             case submission of
                               None \<Rightarrow> ret (Failed 404 ''Submission not found'')
                             | Some su \<Rightarrow>
                                 if ss_problem su \<noteq> p then ret (Failed 404 ''Submission not found'')
                                 else if ss_user su \<noteq> se_userId se then ret (Failed 403 ''Forbidden'')
                                 else if ss_status su \<noteq> ''accepted''
                                 then ret (Failed 400 ''Only accepted submissions can be shared as solutions.'')
                                 else share newId p (se_userId se) su b now))))))
      (\<lambda>_. ret (Failed 500 ''Internal server error'')))"

definition solution_GET ::
  "bool \<Rightarrow> session option \<Rightarrow> nat \<Rightarrow> (sol_db, string, (solution \<times> author \<times> int) reply) prog" where
  "solution_GET flag session i =
    (if \<not> flag then ret (Failed 404 ''Not found'')
     else catch
      (bind (query ''db'' (findSolutionById i)) (\<lambda>solution.
        case solution of
          None \<Rightarrow> ret (Failed 404 ''Solution not found'')
        | Some (s, a) \<Rightarrow>
            bind (case session of
                    None \<Rightarrow> ret 0
                  | Some se \<Rightarrow> bind (query ''db'' (vote_of (se_userId se) i)) (\<lambda>v.
                      ret (case v of None \<Rightarrow> 0 | Some x \<Rightarrow> x))) (\<lambda>userVote.
            ret (Reply 200 (s, a, userVote)))))
      (\<lambda>_. ret (Failed 500 ''Internal server error'')))"

definition solution_PATCH ::
  "bool \<Rightarrow> session option \<Rightarrow> nat \<Rightarrow> (string option \<times> string option) option \<Rightarrow> int \<Rightarrow>
   (sol_db, string, solution option reply) prog" where
  "solution_PATCH flag session i body now =
    (if \<not> flag then ret (Failed 404 ''Not found'')
     else catch
      (case session of
         None \<Rightarrow> ret (Failed 401 ''Unauthorized'')
       | Some se \<Rightarrow>
           bind (query ''db'' (findSolutionRowById i)) (\<lambda>existing.
             case existing of
               None \<Rightarrow> ret (Failed 404 ''Solution not found'')
             | Some s \<Rightarrow>
                 if so_user s \<noteq> se_userId se then ret (Failed 403 ''Forbidden'')
                 else (case body of
                    None \<Rightarrow> ret (Failed 400 ''Invalid JSON body'')
                  | Some (title, writeup) \<Rightarrow>
                      (case updateSharedSolutionSchema title writeup of
                         msg # _ \<Rightarrow> ret (Failed 400 msg)
                       | [] \<Rightarrow> bind (updateSolution i title writeup now) (\<lambda>updated. ret (Reply 200 updated))))))
      (\<lambda>_. ret (Failed 500 ''Internal server error'')))"

definition solution_DELETE :: "bool \<Rightarrow> session option \<Rightarrow> nat \<Rightarrow> (sol_db, string, unit reply) prog" where
  "solution_DELETE flag session i =
    (if \<not> flag then ret (Failed 404 ''Not found'')
     else catch
      (case session of
         None \<Rightarrow> ret (Failed 401 ''Unauthorized'')
       | Some se \<Rightarrow>
           bind (query ''db'' (findSolutionRowById i)) (\<lambda>existing.
             case existing of
               None \<Rightarrow> ret (Failed 404 ''Solution not found'')
             | Some s \<Rightarrow>
                 if so_user s \<noteq> se_userId se \<and> se_role se \<noteq> ''admin'' then ret (Failed 403 ''Forbidden'')
                 else bind (deleteSolution i) (\<lambda>_. ret (Reply 200 ()))))
      (\<lambda>_. ret (Failed 500 ''Internal server error'')))"

subsection \<open>Voting\<close>

definition vote_sum :: "nat \<Rightarrow> sol_db \<Rightarrow> int" where
  "vote_sum i db = sum_list (map vt_value (filter (\<lambda>v. vt_solution v = i) (sd_votes db)))"

definition set_count :: "nat \<Rightarrow> int \<Rightarrow> sol_db \<Rightarrow> sol_db" where
  "set_count i n db = db\<lparr>sd_solutions := upd_by so_id i (\<lambda>s. s\<lparr>so_voteCount := n\<rparr>) (sd_solutions db)\<rparr>"

definition recomputeVoteCount :: "nat \<Rightarrow> (sol_db, string, int) prog" where
  "recomputeVoteCount i =
    bind (query ''db'' (vote_sum i)) (\<lambda>sum.
    bind (update ''db'' (set_count i sum)) (\<lambda>_. ret sum))"

definition insert_vote :: "nat \<Rightarrow> nat \<Rightarrow> int \<Rightarrow> sol_db \<Rightarrow> (string + unit) \<times> sol_db" where
  "insert_vote u i v db =
    (if vote_of u i db \<noteq> None then (Inl ''Raw query failed. Code: 23505'', db)
     else (Inr (), db\<lparr>sd_votes := sd_votes db @ [\<lparr>vt_user = u, vt_solution = i, vt_value = v\<rparr>]\<rparr>))"

definition delete_vote :: "nat \<Rightarrow> nat \<Rightarrow> sol_db \<Rightarrow> sol_db" where
  "delete_vote u i db = db\<lparr>sd_votes := filter (\<lambda>v. vote_key v \<noteq> (u, i)) (sd_votes db)\<rparr>"

definition update_vote :: "nat \<Rightarrow> nat \<Rightarrow> int \<Rightarrow> sol_db \<Rightarrow> sol_db" where
  "update_vote u i x db = db\<lparr>sd_votes := upd_by vote_key (u, i) (\<lambda>v. v\<lparr>vt_value := x\<rparr>) (sd_votes db)\<rparr>"

definition write_vote :: "nat \<Rightarrow> nat \<Rightarrow> int \<Rightarrow> int option \<Rightarrow> (sol_db, string, int) prog" where
  "write_vote u i x existing =
    (case existing of
       None \<Rightarrow> bind (call ''db'' (insert_vote u i x)) (\<lambda>_. ret x)
     | Some v \<Rightarrow>
         if v = x then bind (update ''db'' (delete_vote u i)) (\<lambda>_. ret 0)
         else bind (update ''db'' (update_vote u i x)) (\<lambda>_. ret x))"

definition vote_POST ::
  "bool \<Rightarrow> session option \<Rightarrow> nat \<Rightarrow> int option option \<Rightarrow> (sol_db, string, (int \<times> int) reply) prog" where
  "vote_POST flag session i body =
    (if \<not> flag then ret (Failed 404 ''Not found'')
     else catch
      (case session of
         None \<Rightarrow> ret (Failed 401 ''Unauthorized'')
       | Some se \<Rightarrow>
           (case body of
              None \<Rightarrow> ret (Failed 400 ''Invalid JSON body'')
            | Some value \<Rightarrow>
                (case voteSchema value of
                   msg # _ \<Rightarrow> ret (Failed 400 msg)
                 | [] \<Rightarrow>
                     bind (query ''db'' (findSolutionRowById i)) (\<lambda>solution.
                       case solution of
                         None \<Rightarrow> ret (Failed 404 ''Solution not found'')
                       | Some s \<Rightarrow>
                           bind (query ''db'' (vote_of (se_userId se) i)) (\<lambda>existing.
                           bind (write_vote (se_userId se) i (the value) existing) (\<lambda>userVote.
                           bind (recomputeVoteCount i) (\<lambda>score.
                           ret (Reply 200 (score, userVote)))))))))
      (\<lambda>_. ret (Failed 500 ''Internal server error'')))"

subsection \<open>What the vote writes do\<close>

definition num :: "int option \<Rightarrow> int" where
  "num v = (case v of None \<Rightarrow> 0 | Some x \<Rightarrow> x)"

lemma num_simps [simp]: "num None = 0" "num (Some x) = x"
  by (simp_all add: num_def)

lemma vote_key_simps [simp]:
  "vote_key (v\<lparr>vt_value := x\<rparr>) = vote_key v" "vote_key \<lparr>vt_user = u, vt_solution = i, vt_value = x\<rparr> = (u, i)"
  by (simp_all add: vote_key_def)

abbreviation tally :: "nat \<Rightarrow> vote list \<Rightarrow> int" where
  "tally i vs \<equiv> sum_list (map vt_value (filter (\<lambda>v. vt_solution v = i) vs))"

lemma tally_delete:
  "distinct (map vote_key vs) \<Longrightarrow>
    tally i (filter (\<lambda>v. vote_key v \<noteq> (u, i)) vs) = tally i vs - num (map_option vt_value (find_by vote_key (u, i) vs))"
proof (induction vs)
  case (Cons v vs)
  show ?case
  proof (cases "vote_key v = (u, i)")
    case True
    then have "filter (\<lambda>w. vote_key w \<noteq> (u, i)) vs = vs" using Cons.prems by (force simp: filter_id_conv)
    then show ?thesis using True by (simp add: vote_key_def)
  next
    case False
    then show ?thesis using Cons by simp
  qed
qed simp

lemma tally_update:
  "distinct (map vote_key vs) \<Longrightarrow> find_by vote_key (u, i) vs = Some w \<Longrightarrow>
    tally i (upd_by vote_key (u, i) (\<lambda>v. v\<lparr>vt_value := x\<rparr>) vs) = tally i vs - vt_value w + x"
proof (induction vs)
  case (Cons v vs)
  show ?case
  proof (cases "vote_key v = (u, i)")
    case True
    then have "upd_by vote_key (u, i) (\<lambda>v. v\<lparr>vt_value := x\<rparr>) vs = vs"
      using Cons.prems(1) by (intro upd_by_absent) (metis distinct.simps(2) image_set list.simps(9))
    moreover have "w = v" using True Cons.prems(2) by simp
    ultimately show ?thesis using True by (simp add: vote_key_def upd_by_def)
  next
    case False
    then show ?thesis using Cons by (simp add: upd_by_def)
  qed
qed simp

lemma find_delete:
  "find_by vote_key k (filter (\<lambda>v. vote_key v \<noteq> l) vs) = (if k = l then None else find_by vote_key k vs)"
  by (induction vs) auto

lemma vote_of_writes:
  "vote_of w j (delete_vote u i db) = (if (w, j) = (u, i) then None else vote_of w j db)"
  "vote_of w j (update_vote u i x db) = (if (w, j) = (u, i) then map_option (\<lambda>_. x) (vote_of u i db) else vote_of w j db)"
  "vote_of u i db = None \<Longrightarrow> vote_of w j (snd (insert_vote u i x db)) = (if (w, j) = (u, i) then Some x else vote_of w j db)"
  "vote_of w j (set_count k n db) = vote_of w j db"
  by (auto simp: vote_of_def delete_vote_def update_vote_def insert_vote_def set_count_def find_delete find_by_upd
      find_by_append option.map_comp comp_def split: option.split)

lemma vote_sum_writes:
  assumes "distinct (map vote_key (sd_votes db))"
  shows "vote_sum i (delete_vote u i db) = vote_sum i db - num (vote_of u i db)"
    "vote_of u i db = Some v \<Longrightarrow> vote_sum i (update_vote u i x db) = vote_sum i db - v + x"
    "vote_of u i db = None \<Longrightarrow> vote_sum i (snd (insert_vote u i x db)) = vote_sum i db + x"
    "vote_sum i (set_count k n db) = vote_sum i db"
  using assms tally_delete [of "sd_votes db" i u] tally_update [of "sd_votes db" u i]
  by (auto simp: vote_sum_def vote_of_def delete_vote_def update_vote_def insert_vote_def set_count_def)

lemma rows_writes:
  "sd_solutions (delete_vote u i db) = sd_solutions db" "sd_solutions (update_vote u i x db) = sd_solutions db"
  "sd_solutions (snd (insert_vote u i x db)) = sd_solutions db"
  by (simp_all add: delete_vote_def update_vote_def insert_vote_def)

text \<open>The state after the vote has been written, before the count is.\<close>

definition voted :: "nat \<Rightarrow> nat \<Rightarrow> int \<Rightarrow> sol_db \<Rightarrow> sol_db" where
  "voted u i x db =
    (case vote_of u i db of None \<Rightarrow> snd (insert_vote u i x db)
     | Some v \<Rightarrow> if v = x then delete_vote u i db else update_vote u i x db)"

lemma voted_simps:
  "vote_of w j (voted u i x db) =
    (if (w, j) = (u, i) then (if vote_of u i db = Some x then None else Some x) else vote_of w j db)"
  "sd_solutions (voted u i x db) = sd_solutions db"
  "distinct (map vote_key (sd_votes db)) \<Longrightarrow>
    vote_sum i (voted u i x db) = vote_sum i db - num (vote_of u i db) + (if vote_of u i db = Some x then 0 else x)"
  by (auto simp: voted_def vote_of_writes vote_sum_writes rows_writes split: option.split)

lemma write_vote_run:
  "write_vote u i x (vote_of u i db) (fs, db) =
    (if fs \<noteq> [] \<and> hd fs then (Inl ''db'', (tl fs, db))
     else (Inr (if vote_of u i db = Some x then 0 else x), (tl fs, voted u i x db)))"
  by (simp add: write_vote_def voted_def bind_def call_hd update_def insert_vote_def split: option.split)

lemma vote_POST_run:
  assumes "findSolutionRowById i db = Some s" "x = 1 \<or> x = -1"
  shows "vote_POST True (Some se) i (Some (Some x)) ([], db) =
    (let db1 = voted (se_userId se) i x db; n = vote_sum i db1
     in (Inr (Reply 200 (n, if vote_of (se_userId se) i db = Some x then 0 else x)), ([], set_count i n db1)))"
  using assms
  by (auto simp: vote_POST_def voteSchema_def catch_def bind_def write_vote_run recomputeVoteCount_def Let_def)

lemma vote_POST_after:
  assumes "findSolutionRowById i db = Some s" "x = 1 \<or> x = -1"
  shows "result (vote_POST True (Some se) i (Some (Some x))) [] db =
      Inr (Reply 200 (vote_sum i (voted (se_userId se) i x db), if vote_of (se_userId se) i db = Some x then 0 else x))"
    "after (vote_POST True (Some se) i (Some (Some x))) [] db =
      set_count i (vote_sum i (voted (se_userId se) i x db)) (voted (se_userId se) i x db)"
  using vote_POST_run [OF assms] by (simp_all add: result_def after_def Let_def)

text \<open>The call that reads the sum, the fourth, fails.\<close>

lemma vote_POST_cut:
  assumes "findSolutionRowById i db = Some s" "x = 1 \<or> x = -1"
  shows "vote_POST True (Some se) i (Some (Some x)) ([False, False, False, True], db) =
    (Inr (Failed 500 ''Internal server error''), ([], voted (se_userId se) i x db))"
proof -
  have "voteSchema (Some x) = []" using assms(2) by (auto simp: voteSchema_def)
  then show ?thesis
    using assms(1) by (simp add: vote_POST_def catch_def bind_def write_vote_run recomputeVoteCount_def)
qed

subsection \<open>Who changes solutions\<close>

lemma after_share_error [simp]: "after (share_error m) fs db = db"
  by (simp add: share_error_def)

lemma share_after:
  "after (share newId p u su b now) fs db = db \<or>
   (\<exists>new. after (share newId p u su b now) fs db = db\<lparr>sd_solutions := sd_solutions db @ [new]\<rparr> \<and>
      so_user new = u \<and> so_problem new = p \<and> so_submission new = ss_id su \<and> so_voteCount new = 0 \<and>
      so_id new \<notin> so_id ` set (sd_solutions db) \<and> ss_id su \<notin> so_submission ` set (sd_solutions db))"
  by (auto simp: share_def after_catch bind_def call_hd createSolution_def Let_def)

lemma limited_create_keeps:
  "sd_solutions (snd (limited_create c e u now db)) = sd_solutions db"
  "sd_problems (snd (limited_create c e u now db)) = sd_problems db"
  "sd_submissions (snd (limited_create c e u now db)) = sd_submissions db"
  by (simp_all add: limited_create_def split: prod.split)

lemma post_owned:
  "sd_solutions (after (solutions_POST flag client exec session slug body newId now) fs db) = sd_solutions db \<or>
    (\<exists>se su p new. session = Some se \<and> su \<in> set (sd_submissions db) \<and> jm_get (sd_problems db) slug = Some p \<and>
      ss_user su = se_userId se \<and> ss_status su = ''accepted'' \<and> ss_problem su = p \<and>
      sd_solutions (after (solutions_POST flag client exec session slug body newId now) fs db) = sd_solutions db @ [new] \<and>
      so_user new = se_userId se \<and> so_problem new = p \<and> so_submission new = ss_id su \<and> so_voteCount new = 0 \<and>
      so_id new \<notin> so_id ` set (sd_solutions db) \<and> ss_id su \<notin> so_submission ` set (sd_solutions db))"
proof (cases "flag \<and> session \<noteq> None \<and> body \<noteq> None")
  case False
  then show ?thesis
    by (auto simp: solutions_POST_def after_bind_query limited_create_keeps split: option.split)
next
  case True
  then obtain se b where sb: "flag" "session = Some se" "body = Some b" by auto
  let ?db = "snd (limited_create client exec (se_userId se) now db)"
  let ?P = "solutions_POST flag client exec session slug body newId now"
  have "after ?P fs db = ?db \<or>
    (\<exists>p su gs. jm_get (sd_problems db) slug = Some p \<and> find_by ss_id (the (cb_submissionId b)) (sd_submissions db) = Some su \<and>
      ss_problem su = p \<and> ss_user su = se_userId se \<and> ss_status su = ''accepted'' \<and>
      after ?P fs db = after (share newId p (se_userId se) su b now) gs ?db)"
    by (simp add: solutions_POST_def sb after_bind_query limited_create_keeps split: option.split list.split) blast
  then show ?thesis
  proof (elim disjE exE conjE)
    assume "after ?P fs db = ?db"
    then show ?thesis by (simp add: limited_create_keeps)
  next
    fix p su gs
    assume h: "jm_get (sd_problems db) slug = Some p" "find_by ss_id (the (cb_submissionId b)) (sd_submissions db) = Some su"
      "ss_problem su = p" "ss_user su = se_userId se" "ss_status su = ''accepted''"
      "after ?P fs db = after (share newId p (se_userId se) su b now) gs ?db"
    from h(2) have "su \<in> set (sd_submissions db)" by (rule find_by_in)
    then show ?thesis
      using share_after [of newId p "se_userId se" su b now gs ?db] h sb by (auto simp: limited_create_keeps)
  qed
qed

lemma patch_owned:
  "sd_solutions (after (solution_PATCH flag session i edit now) fs db) = sd_solutions db \<or>
    (\<exists>se s t w. session = Some se \<and> findSolutionRowById i db = Some s \<and> so_user s = se_userId se \<and>
      sd_solutions (after (solution_PATCH flag session i edit now) fs db) = upd_by so_id i (patch_row t w now) (sd_solutions db))"
  by (auto simp: solution_PATCH_def updateSolution_def after_steps Let_def split: option.split list.split)

lemma delete_owned:
  "sd_solutions (after (solution_DELETE flag session i) fs db) = sd_solutions db \<or>
    (\<exists>se s. session = Some se \<and> findSolutionRowById i db = Some s \<and> (so_user s = se_userId se \<or> se_role se = ''admin'') \<and>
      sd_solutions (after (solution_DELETE flag session i) fs db) = filter (\<lambda>s. so_id s \<noteq> i) (sd_solutions db))"
  by (auto simp: solution_DELETE_def deleteSolution_def after_steps split: option.split)

definition sample_solutions :: sol_db where
  "sample_solutions = \<lparr>sd_solutions = [\<lparr>so_id = 1, so_problem = 1, so_user = 10, so_submission = ''s1'', so_title = ''two sum'',
       so_writeup = replicate 100 CHR ''w'', so_language = ''python'', so_voteCount = 1, so_createdAt = 0, so_updatedAt = 0\<rparr>],
     sd_votes = [\<lparr>vt_user = 20, vt_solution = 1, vt_value = 1\<rparr>],
     sd_users = [\<lparr>au_id = 10, au_username = ''ann'', au_avatar = None\<rparr>], sd_problems = [(''two-sum'', 1)],
     sd_submissions = [\<lparr>ss_id = ''s1'', ss_user = 10, ss_problem = 1, ss_status = ''accepted'', ss_language = ''python''\<rparr>,
       \<lparr>ss_id = ''s2'', ss_user = 30, ss_problem = 1, ss_status = ''accepted'', ss_language = ''go''\<rparr>], sd_limiter = []\<rparr>"

lemma sample_facts:
  "distinct (map vote_key (sd_votes sample_solutions))"
  "findSolutionRowById 1 sample_solutions = Some (hd (sd_solutions sample_solutions))"
  "vote_of 30 1 sample_solutions = None"
  by (simp_all add: sample_solutions_def findSolutionRowById_def vote_of_def vote_key_def)

subsection \<open>Properties\<close>

text \<open>
  C15. A vote toggles and the count follows. When no call fails, a vote on a solution sets the
  user's vote to the requested one, or clears it if it was that already, and changes no other
  vote; the solution's count becomes the sum of its votes, which has moved by the difference of
  the user's votes; no other solution changes; and the reply is that count and that vote.
\<close>

theorem vote_toggles_and_counts:
  fixes se :: session
  assumes "distinct (map vote_key (sd_votes db))" "findSolutionRowById i db = Some s" "x = 1 \<or> x = -1"
  defines "P \<equiv> vote_POST True (Some se) i (Some (Some x))"
  defines "old \<equiv> vote_of (se_userId se) i db"
  defines "new \<equiv> if old = Some x then None else Some x"
  shows "result P [] db = Inr (Reply 200 (vote_sum i (after P [] db), num new)) \<and>
    vote_sum i (after P [] db) = vote_sum i db - num old + num new \<and>
    (\<forall>w j. vote_of w j (after P [] db) = (if w = se_userId se \<and> j = i then new else vote_of w j db)) \<and>
    (\<forall>j. findSolutionRowById j (after P [] db) =
      (if j = i then Some (s\<lparr>so_voteCount := vote_sum i (after P [] db)\<rparr>) else findSolutionRowById j db))"
proof -
  let ?v = "voted (se_userId se) i x db"
  have d: "after P [] db = set_count i (vote_sum i ?v) ?v" and r: "result P [] db = Inr (Reply 200 (vote_sum i ?v, num new))"
    using vote_POST_after [OF assms(2,3), of se] unfolding P_def new_def old_def by simp_all
  have sum: "vote_sum i (set_count i n ?v) = vote_sum i ?v" for n by (simp add: vote_sum_def set_count_def)
  have rows: "findSolutionRowById j (set_count i n ?v) = (if j = i then Some (s\<lparr>so_voteCount := n\<rparr>) else findSolutionRowById j db)" for j n
    using assms(2) by (simp add: findSolutionRowById_def set_count_def find_by_upd voted_simps(2))
  show ?thesis unfolding d sum
    using r assms(1) by (auto simp: voted_simps vote_of_writes rows new_def old_def)
qed

lemma vote_toggles_and_counts_witness:
  "result (vote_POST True (Some \<lparr>se_userId = 30, se_role = ''user''\<rparr>) 1 (Some (Some (-1)))) [] sample_solutions =
    Inr (Reply 200 (0, -1))"
  using vote_toggles_and_counts [OF sample_facts(1,2), of "-1" "\<lparr>se_userId = 30, se_role = ''user''\<rparr>"] sample_facts(3)
  by (simp add: vote_sum_def sample_solutions_def)

text \<open>
  A failed vote that is retried is lost. The vote and the count are written by separate
  calls: when the one that sums the votes fails, the user is told that the vote failed although
  it is stored, and the count of the solution is the old one; when the user then sends the same
  vote again and nothing fails, the vote is removed, and the reply says that there is none.
\<close>

theorem retried_vote_is_lost:
  fixes se :: session
  assumes "distinct (map vote_key (sd_votes db))" "findSolutionRowById i db = Some s" "x = 1 \<or> x = -1"
    "vote_of (se_userId se) i db = None"
  defines "P \<equiv> vote_POST True (Some se) i (Some (Some x))"
  defines "db1 \<equiv> after P [False, False, False, True] db"
  shows "result P [False, False, False, True] db = Inr (Failed 500 ''Internal server error'') \<and>
    vote_of (se_userId se) i db1 = Some x \<and> vote_sum i db1 = vote_sum i db + x \<and> sd_solutions db1 = sd_solutions db \<and>
    result P [] db1 = Inr (Reply 200 (vote_sum i db, 0)) \<and> vote_of (se_userId se) i (after P [] db1) = None"
proof -
  have c: "db1 = voted (se_userId se) i x db" "result P [False, False, False, True] db = Inr (Failed 500 ''Internal server error'')"
    using vote_POST_cut [OF assms(2,3), of se] unfolding P_def db1_def by (simp_all add: result_def after_def)
  then have f: "findSolutionRowById i db1 = Some s" and v: "vote_of (se_userId se) i db1 = Some x"
    using assms(2,4) by (simp_all add: findSolutionRowById_def voted_simps)
  have keys: "distinct (map vote_key (sd_votes db1))"
  proof -
    have "(se_userId se, i) \<notin> vote_key ` set (sd_votes db)"
      using assms(4) by (simp add: vote_of_def find_by_None)
    moreover have "sd_votes db1 = sd_votes db @ [\<lparr>vt_user = se_userId se, vt_solution = i, vt_value = x\<rparr>]"
      using assms(4) by (simp add: c(1) voted_def insert_vote_def)
    ultimately show ?thesis using assms(1) by simp
  qed
  have s1: "vote_sum i db1 = vote_sum i db + x" using assms(1,4) c(1) by (simp add: voted_simps)
  have "vote_sum i (voted (se_userId se) i x db1) = vote_sum i db" using voted_simps(3) [OF keys] s1 v by simp
  then show ?thesis using vote_POST_after [OF f assms(3), of se] c s1 v
    by (simp add: P_def vote_of_writes voted_simps)
qed

lemma retried_vote_is_lost_witness:
  "vote_of 30 1 (after (vote_POST True (Some \<lparr>se_userId = 30, se_role = ''user''\<rparr>) 1 (Some (Some 1))) []
     (after (vote_POST True (Some \<lparr>se_userId = 30, se_role = ''user''\<rparr>) 1 (Some (Some 1)))
       [False, False, False, True] sample_solutions)) = None"
  using retried_vote_is_lost [OF sample_facts(1,2), of 1 "\<lparr>se_userId = 30, se_role = ''user''\<rparr>"] sample_facts(3)
  by simp

text \<open>
  Solutions belong to their authors. Whatever calls fail: posting adds nothing or one
  solution, by the caller, for an accepted submission of theirs on that very problem which was
  not shared before, under a new id; an edit leaves the table as it is unless the caller wrote the solution, and
  then changes only its title, text and date; a deletion removes it only for its author or an
  admin.
\<close>

theorem solutions_are_owned:
  "(sd_solutions (after (solutions_POST flag client exec session slug body newId now) fs db) = sd_solutions db \<or>
      (\<exists>se su p new. session = Some se \<and> su \<in> set (sd_submissions db) \<and> jm_get (sd_problems db) slug = Some p \<and>
        ss_user su = se_userId se \<and> ss_status su = ''accepted'' \<and> ss_problem su = p \<and>
        sd_solutions (after (solutions_POST flag client exec session slug body newId now) fs db) = sd_solutions db @ [new] \<and>
        so_user new = se_userId se \<and> so_problem new = p \<and> so_submission new = ss_id su \<and> so_voteCount new = 0 \<and>
        so_id new \<notin> so_id ` set (sd_solutions db) \<and> ss_id su \<notin> so_submission ` set (sd_solutions db))) \<and>
   (sd_solutions (after (solution_PATCH flag session i edit now) fs db) = sd_solutions db \<or>
      (\<exists>se s t w. session = Some se \<and> findSolutionRowById i db = Some s \<and> so_user s = se_userId se \<and>
        sd_solutions (after (solution_PATCH flag session i edit now) fs db) = upd_by so_id i (patch_row t w now) (sd_solutions db))) \<and>
   (sd_solutions (after (solution_DELETE flag session i) fs db) = sd_solutions db \<or>
      (\<exists>se s. session = Some se \<and> findSolutionRowById i db = Some s \<and> (so_user s = se_userId se \<or> se_role se = ''admin'') \<and>
        sd_solutions (after (solution_DELETE flag session i) fs db) = filter (\<lambda>s. so_id s \<noteq> i) (sd_solutions db)))"
  using post_owned [of flag client exec session slug body newId now fs db] patch_owned [of flag session i edit now fs db]
    delete_owned [of flag session i fs db]
  by blast

end
