(* ===== verification/Discussions.thy ===== *)
theory Discussions
  imports Solutions
begin

section \<open>Discussions\<close>

text \<open>
  \<^verbatim>\<open>src/app/api/discussions/route.ts\<close> and the handlers below \<^verbatim>\<open>discussions/[id]/\<close>: threads with
  nested comments, votes and the older upvote counter. Comments refer to their parent, and the
  database deletes replies with what they reply to. The author a query joins to a row is the
  user whose id the row carries; the reply types keep the id. Times are milliseconds; ranks are
  real numbers.
\<close>

subsection \<open>Tables\<close>

record discussion =
  di_id :: nat
  di_problem :: nat
  di_user :: nat
  di_title :: string
  di_body :: string
  di_upvotes :: int
  di_createdAt :: int
  di_updatedAt :: int

record comment =
  cm_id :: nat
  cm_discussion :: nat
  cm_user :: nat
  cm_parent :: "nat option"
  cm_body :: string
  cm_createdAt :: int

record thread_vote =
  tv_id :: nat
  tv_discussion :: nat
  tv_user :: nat
  tv_value :: int

record forum =
  fo_problems :: "nat list"
  fo_discussions :: "discussion list"
  fo_comments :: "comment list"
  fo_votes :: "thread_vote list"
  fo_limiter :: buckets

definition forum_limited :: "string \<Rightarrow> int \<Rightarrow> int \<Rightarrow> forum \<Rightarrow> rl_result \<times> forum" where
  "forum_limited key mx now db =
    (case rateLimit key mx 60000 now (fo_limiter db) of (r, b) \<Rightarrow> (r, db\<lparr>fo_limiter := b\<rparr>))"

definition discussion_of :: "nat \<Rightarrow> forum \<Rightarrow> discussion option" where
  "discussion_of i db = find_by di_id i (fo_discussions db)"

definition comment_of :: "nat \<Rightarrow> forum \<Rightarrow> comment option" where
  "comment_of i db = find_by cm_id i (fo_comments db)"

text \<open>Foreign keys with \<^verbatim>\<open>onDelete: Cascade\<close>: replies go with the comment they reply to.\<close>

function prune :: "comment list \<Rightarrow> comment list" where
  "prune rows =
    (let rows' = filter (\<lambda>c. case cm_parent c of None \<Rightarrow> True | Some p \<Rightarrow> p \<in> cm_id ` set rows) rows
     in if length rows' < length rows then prune rows' else rows)"
  by pat_completeness auto
termination
  by (relation "measure length") auto

definition delete_comment :: "nat \<Rightarrow> forum \<Rightarrow> forum" where
  "delete_comment i db = db\<lparr>fo_comments := prune (filter (\<lambda>c. cm_id c \<noteq> i) (fo_comments db))\<rparr>"

definition delete_discussion :: "nat \<Rightarrow> forum \<Rightarrow> forum" where
  "delete_discussion i db = db\<lparr>fo_discussions := filter (\<lambda>d. di_id d \<noteq> i) (fo_discussions db),
     fo_comments := prune (filter (\<lambda>c. cm_discussion c \<noteq> i) (fo_comments db)),
     fo_votes := filter (\<lambda>v. tv_discussion v \<noteq> i) (fo_votes db)\<rparr>"

subsection \<open>Comment trees\<close>

datatype comment_node = Node comment "comment_node list"

text \<open>
  \<^verbatim>\<open>buildCommentTree\<close>: the map \<open>byId\<close> holds the mutable nodes, each with the ids of the
  replies pushed to it so far; \<open>roots\<close> are ids too. What the handler serialises is \<open>tree_of\<close>, with
  as many levels as there are nodes.
\<close>

type_synonym node_map = "(nat, comment \<times> nat list) jsmap"

definition all_nodes :: "comment list \<Rightarrow> node_map" where
  "all_nodes rows = fold (\<lambda>r m. jm_set (cm_id r) (r, []) m) rows []"

fun attach :: "node_map \<times> nat list \<Rightarrow> comment \<Rightarrow> node_map \<times> nat list" where
  "attach (byId, roots) r =
    (case cm_parent r of
       None \<Rightarrow> (byId, roots @ [cm_id r])
     | Some p \<Rightarrow> (case jm_get byId p of
         None \<Rightarrow> (byId, roots @ [cm_id r])
       | Some (row, kids) \<Rightarrow> (jm_set p (row, kids @ [cm_id r]) byId, roots)))"

fun tree_of :: "nat \<Rightarrow> node_map \<Rightarrow> nat \<Rightarrow> comment_node list" where
  "tree_of 0 byId i = []"
| "tree_of (Suc n) byId i =
    (case jm_get byId i of None \<Rightarrow> [] | Some (row, kids) \<Rightarrow> [Node row (concat (map (tree_of n byId) kids))])"

definition buildCommentTree :: "comment list \<Rightarrow> comment_node list" where
  "buildCommentTree rows =
    (case foldl attach (all_nodes rows, []) rows of
       (byId, roots) \<Rightarrow> concat (map (tree_of (length rows) byId) roots))"

subsection \<open>Listing\<close>

datatype sort_mode = Hot | Newest | TopVoted

definition parse_mode :: "string option \<Rightarrow> sort_mode" where
  "parse_mode raw = (if raw = Some ''new'' then Newest else if raw = Some ''top'' then TopVoted else Hot)"

definition hotRank :: "int \<Rightarrow> int \<Rightarrow> int \<Rightarrow> real" where
  "hotRank now scr createdAt = log 10 (max (real_of_int scr) 1) - ((real_of_int (now - createdAt)) / 3600000) / 12"

definition listed_le :: "sort_mode \<Rightarrow> discussion \<Rightarrow> discussion \<Rightarrow> bool" where
  "listed_le mode a b =
    (case mode of
       TopVoted \<Rightarrow> di_upvotes b < di_upvotes a \<or> di_upvotes a = di_upvotes b \<and> di_createdAt b \<le> di_createdAt a
     | _ \<Rightarrow> di_createdAt b \<le> di_createdAt a)"

definition thread_score :: "forum \<Rightarrow> nat \<Rightarrow> int" where
  "thread_score db i = sum_list (map tv_value (filter (\<lambda>v. tv_discussion v = i) (fo_votes db)))"

definition skip_take :: "int \<Rightarrow> int \<Rightarrow> 'a list \<Rightarrow> 'a list" where
  "skip_take s t xs = take (nat t) (drop (nat s) xs)"

definition fetch_threads :: "nat \<Rightarrow> sort_mode \<Rightarrow> int \<Rightarrow> int \<Rightarrow> forum \<Rightarrow> discussion list" where
  "fetch_threads problem mode page limit db =
    skip_take (if mode = Hot then 0 else (page - 1) * limit) (if mode = Hot then page * limit else limit)
      (sort_by (listed_le mode) (filter (\<lambda>d. di_problem d = problem) (fo_discussions db)))"

definition hot_le :: "int \<Rightarrow> discussion \<times> int \<Rightarrow> discussion \<times> int \<Rightarrow> bool" where
  "hot_le now a b \<longleftrightarrow> hotRank now (snd b) (di_createdAt (fst b)) - hotRank now (snd a) (di_createdAt (fst a)) \<le> 0"

definition discussions_GET ::
  "nat option \<Rightarrow> string option \<Rightarrow> string option \<Rightarrow> string option \<Rightarrow> int \<Rightarrow>
   (forum, string, ((discussion \<times> int option) list \<times> nat \<times> int \<times> int \<times> sort_mode) reply) prog" where
  "discussions_GET problemId rawPage rawLimit rawSort now =
    catch
      (case problemId of
         None \<Rightarrow> ret (Failed 400 ''Problem ID is required.'')
       | Some p \<Rightarrow>
           (let page = page_param rawPage; limit = limit_param 50 20 rawLimit; mode = parse_mode rawSort
            in bind (query ''db'' (fetch_threads p mode page limit)) (\<lambda>rows.
               bind (query ''db'' (\<lambda>db. length (filter (\<lambda>d. di_problem d = p) (fo_discussions db)))) (\<lambda>total.
               if mode = Hot then
                 bind (if rows = [] then ret (\<lambda>_. 0) else query ''db'' thread_score) (\<lambda>scoreById.
                 (let ranked = sort_by (hot_le now) (map (\<lambda>d. (d, scoreById (di_id d))) rows)
                  in ret (Reply 200 (map (\<lambda>(d, s). (d, Some s)) (skip_take ((page - 1) * limit) limit ranked),
                       total, page, limit, mode))))
               else ret (Reply 200 (map (\<lambda>d. (d, None)) rows, total, page, limit, mode))))))
      (\<lambda>_. ret (Failed 500 ''Internal server error''))"

subsection \<open>Threads\<close>

record thread_body =
  tb_problemId :: "nat option"
  tb_title :: "string option"
  tb_body :: "string option"

definition createDiscussionSchema :: "thread_body \<Rightarrow> string list" where
  "createDiscussionSchema b =
    (case tb_problemId b of None \<Rightarrow> [''Required''] | Some _ \<Rightarrow> []) @
    (case tb_title b of None \<Rightarrow> [''Required'']
     | Some t \<Rightarrow> length_in 3 200 ''Title must be at least 3 characters'' ''Title too long'' t) @
    (case tb_body b of None \<Rightarrow> [''Required''] | Some t \<Rightarrow> length_in 1 10000 ''Body is required'' ''Body too long'' t)"

definition create_discussion :: "nat \<Rightarrow> nat \<Rightarrow> nat \<Rightarrow> string \<Rightarrow> string \<Rightarrow> int \<Rightarrow> forum \<Rightarrow> (string + discussion) \<times> forum" where
  "create_discussion newId p u title body now db =
    (if newId \<in> di_id ` set (fo_discussions db) then (Inl ''P2002'', db)
     else (let d = \<lparr>di_id = newId, di_problem = p, di_user = u, di_title = title, di_body = body, di_upvotes = 0,
                    di_createdAt = now, di_updatedAt = now\<rparr>
           in (Inr d, db\<lparr>fo_discussions := fo_discussions db @ [d]\<rparr>)))"

definition discussions_POST ::
  "session option \<Rightarrow> thread_body option \<Rightarrow> nat \<Rightarrow> int \<Rightarrow> (forum, string, discussion reply) prog" where
  "discussions_POST session body newId now =
    catch
      (case session of
         None \<Rightarrow> ret (Failed 401 ''Unauthorized'')
       | Some se \<Rightarrow>
           bind (state_op (forum_limited (''discussion-create:'' @ show_nat (se_userId se)) 5 now)) (\<lambda>limit.
           if \<not> allowed limit then ret (Failed 429 ''Too many discussions created. Slow down.'')
           else (case body of
             None \<Rightarrow> ret (Failed 400 ''Invalid JSON body'')
           | Some b \<Rightarrow>
               (case createDiscussionSchema b of
                  msg # _ \<Rightarrow> ret (Failed 400 msg)
                | [] \<Rightarrow>
                    bind (query ''db'' (\<lambda>db. the (tb_problemId b) \<in> set (fo_problems db))) (\<lambda>problem.
                    if \<not> problem then ret (Failed 404 ''Problem not found'')
                    else bind (call ''db'' (create_discussion newId (the (tb_problemId b)) (se_userId se)
                        (the (tb_title b)) (the (tb_body b)) now)) (\<lambda>d.
                      ret (Reply 201 d)))))))
      (\<lambda>_. ret (Failed 500 ''Internal server error''))"

definition discussion_GET :: "nat \<Rightarrow> (forum, string, (discussion \<times> int \<times> comment_node list) reply) prog" where
  "discussion_GET i =
    catch
      (bind (query ''db'' (\<lambda>db. map_option (\<lambda>d. (d, sort_by (\<lambda>a b. cm_createdAt a \<le> cm_createdAt b)
           (filter (\<lambda>c. cm_discussion c = i) (fo_comments db)))) (discussion_of i db))) (\<lambda>found.
        case found of
          None \<Rightarrow> ret (Failed 404 ''Discussion not found'')
        | Some (d, comments) \<Rightarrow>
            bind (query ''db'' (\<lambda>db. thread_score db i)) (\<lambda>scr.
            ret (Reply 200 (d, scr, buildCommentTree comments)))))
      (\<lambda>_. ret (Failed 500 ''Internal server error''))"

definition discussion_DELETE :: "session option \<Rightarrow> nat \<Rightarrow> (forum, string, unit reply) prog" where
  "discussion_DELETE session i =
    catch
      (case session of
         None \<Rightarrow> ret (Failed 401 ''Unauthorized'')
       | Some se \<Rightarrow>
           bind (query ''db'' (discussion_of i)) (\<lambda>found.
             case found of
               None \<Rightarrow> ret (Failed 404 ''Discussion not found'')
             | Some d \<Rightarrow>
                 if di_user d \<noteq> se_userId se \<and> se_role se \<noteq> ''admin'' then ret (Failed 403 ''Forbidden'')
                 else bind (update ''db'' (delete_discussion i)) (\<lambda>_. ret (Reply 200 ()))))
      (\<lambda>_. ret (Failed 500 ''Internal server error''))"

text \<open>The edit handler; \<open>None\<close> for a body without the field.\<close>

definition editSchema :: "string option \<Rightarrow> string list" where
  "editSchema b = (case b of None \<Rightarrow> [''Required'']
    | Some t \<Rightarrow> length_in 1 10000 ''Body is required'' ''String must contain at most 10000 character(s)'' t)"

definition edit_PATCH ::
  "session option \<Rightarrow> nat \<Rightarrow> string option option \<Rightarrow> int \<Rightarrow> (forum, string, unit reply) prog" where
  "edit_PATCH session i body now =
    catch
      (case session of
         None \<Rightarrow> ret (Failed 401 ''Unauthorized'')
       | Some se \<Rightarrow>
           bind (state_op (forum_limited (''discussion-edit:'' @ show_nat (se_userId se)) 10 now)) (\<lambda>limit.
           if \<not> allowed limit then ret (Failed 429 ''Too many edits. Slow down.'')
           else bind (query ''db'' (discussion_of i)) (\<lambda>found.
             case found of
               None \<Rightarrow> ret (Failed 404 ''Discussion not found'')
             | Some d \<Rightarrow>
                 if di_user d \<noteq> se_userId se then ret (Failed 403 ''Forbidden'')
                 else (case body of
                   None \<Rightarrow> ret (Failed 400 ''Invalid JSON body'')
                 | Some b \<Rightarrow>
                     (case editSchema b of
                        msg # _ \<Rightarrow> ret (Failed 400 msg)
                      | [] \<Rightarrow>
                          bind (update ''db'' (\<lambda>db. db\<lparr>fo_discussions := upd_by di_id i
                            (\<lambda>d. d\<lparr>di_body := the b, di_updatedAt := now\<rparr>) (fo_discussions db)\<rparr>)) (\<lambda>_.
                          ret (Reply 200 ())))))))
      (\<lambda>_. ret (Failed 500 ''Internal server error''))"

subsection \<open>Votes\<close>

definition thread_vote_key :: "thread_vote \<Rightarrow> nat \<times> nat" where
  "thread_vote_key v = (tv_discussion v, tv_user v)"

definition create_thread_vote :: "nat \<Rightarrow> nat \<Rightarrow> nat \<Rightarrow> int \<Rightarrow> forum \<Rightarrow> (string + unit) \<times> forum" where
  "create_thread_vote newId i u x db =
    (if (i, u) \<in> thread_vote_key ` set (fo_votes db) then (Inl ''P2002'', db)
     else (Inr (), db\<lparr>fo_votes := fo_votes db @ [\<lparr>tv_id = newId, tv_discussion = i, tv_user = u, tv_value = x\<rparr>]\<rparr>))"

definition thread_vote_POST ::
  "session option \<Rightarrow> nat \<Rightarrow> int option option \<Rightarrow> nat \<Rightarrow> int \<Rightarrow> (forum, string, (int \<times> int) reply) prog" where
  "thread_vote_POST session i body newId now =
    catch
      (case session of
         None \<Rightarrow> ret (Failed 401 ''Unauthorized'')
       | Some se \<Rightarrow>
           bind (state_op (forum_limited (''discussion-vote:'' @ show_nat (se_userId se)) 30 now)) (\<lambda>limit.
           if \<not> allowed limit then ret (Failed 429 ''Too many votes. Slow down.'')
           else (case body of
             None \<Rightarrow> ret (Failed 400 ''Invalid JSON body'')
           | Some value \<Rightarrow>
               (case voteSchema value of
                  msg # _ \<Rightarrow> ret (Failed 400 msg)
                | [] \<Rightarrow>
                    bind (query ''db'' (discussion_of i)) (\<lambda>found.
                    if found = None then ret (Failed 404 ''Discussion not found'')
                    else bind (query ''db'' (\<lambda>db. find_by thread_vote_key (i, se_userId se) (fo_votes db))) (\<lambda>existing.
                      bind (case existing of
                          None \<Rightarrow> bind (call ''db'' (create_thread_vote newId i (se_userId se) (the value))) (\<lambda>_. ret (the value))
                        | Some v \<Rightarrow>
                            if tv_value v = the value then
                              bind (update ''db'' (\<lambda>db. db\<lparr>fo_votes := filter (\<lambda>w. tv_id w \<noteq> tv_id v) (fo_votes db)\<rparr>)) (\<lambda>_. ret 0)
                            else bind (update ''db'' (\<lambda>db. db\<lparr>fo_votes := upd_by tv_id (tv_id v) (\<lambda>w. w\<lparr>tv_value := the value\<rparr>) (fo_votes db)\<rparr>))
                              (\<lambda>_. ret (the value))) (\<lambda>userVote.
                      bind (query ''db'' (\<lambda>db. thread_score db i)) (\<lambda>scr.
                      ret (Reply 200 (scr, userVote))))))))))
      (\<lambda>_. ret (Failed 500 ''Internal server error''))"

text \<open>The older counter; \<open>missing\<close> is the message of an update that finds no row.\<close>

definition upvote_POST :: "string \<Rightarrow> session option \<Rightarrow> nat \<Rightarrow> int \<Rightarrow> (forum, string, int reply) prog" where
  "upvote_POST missing session i now =
    catch
      (case session of
         None \<Rightarrow> ret (Failed 401 ''Unauthorized'')
       | Some se \<Rightarrow>
           bind (state_op (forum_limited (''upvote:'' @ show_nat (se_userId se) @ '':'' @ show_nat i) 5 now)) (\<lambda>limit.
           if \<not> allowed limit then ret (Failed 429 ''Too many upvotes. Slow down.'')
           else bind (call ''db'' (\<lambda>db. case discussion_of i db of
                  None \<Rightarrow> (Inl missing, db)
                | Some d \<Rightarrow> (Inr (di_upvotes d + 1),
                    db\<lparr>fo_discussions := upd_by di_id i (\<lambda>d. d\<lparr>di_upvotes := di_upvotes d + 1\<rparr>) (fo_discussions db)\<rparr>))) (\<lambda>n.
                ret (Reply 200 n))))
      (\<lambda>e. if str_includes ''Record to update not found'' e then ret (Failed 404 ''Discussion not found'')
           else ret (Failed 500 ''Internal server error''))"

subsection \<open>Comments\<close>

definition MAX_REPLY_DEPTH :: nat where "MAX_REPLY_DEPTH = 3"

text \<open>The walk from the parent of the parent to the root, counting from \<open>depth\<close>.\<close>

function reply_depth :: "nat \<Rightarrow> nat option \<Rightarrow> (forum, string, nat) prog" where
  "reply_depth depth cursor =
    (case cursor of
       None \<Rightarrow> ret depth
     | Some c \<Rightarrow>
         if depth < MAX_REPLY_DEPTH then
           bind (query ''db'' (comment_of c)) (\<lambda>nxt.
             case nxt of None \<Rightarrow> ret (depth + 1) | Some r \<Rightarrow> reply_depth (depth + 1) (cm_parent r))
         else ret depth)"
  by pat_completeness auto
termination
  by (relation "measure (\<lambda>(d, _). MAX_REPLY_DEPTH - d)") auto

declare reply_depth.simps [simp del]

record comment_body =
  mb_body :: "string option"
  mb_parentId :: "nat option"

definition createCommentSchema :: "comment_body \<Rightarrow> string list" where
  "createCommentSchema b =
    (case mb_body b of None \<Rightarrow> [''Required''] | Some t \<Rightarrow> length_in 1 5000 ''Body is required'' ''Body too long'' t)"

definition create_comment :: "comment \<Rightarrow> forum \<Rightarrow> (string + comment) \<times> forum" where
  "create_comment c db =
    (if cm_id c \<in> cm_id ` set (fo_comments db) then (Inl ''P2002'', db)
     else if discussion_of (cm_discussion c) db = None \<or> (case cm_parent c of None \<Rightarrow> False | Some p \<Rightarrow> comment_of p db = None)
     then (Inl ''P2003'', db)
     else (Inr c, db\<lparr>fo_comments := fo_comments db @ [c]\<rparr>))"

text \<open>The check of the parent: the status and message of a refusal, if any.\<close>

definition check_parent :: "nat \<Rightarrow> nat option \<Rightarrow> (forum, string, (nat \<times> string) option) prog" where
  "check_parent i parentId =
    (case parentId of
       None \<Rightarrow> ret None
     | Some p \<Rightarrow>
         bind (query ''db'' (comment_of p)) (\<lambda>parent.
           case parent of
             None \<Rightarrow> ret (Some (404, ''Parent comment not found''))
           | Some q \<Rightarrow>
               if cm_discussion q \<noteq> i then ret (Some (404, ''Parent comment not found''))
               else bind (reply_depth 1 (cm_parent q)) (\<lambda>depth.
                 if depth \<ge> MAX_REPLY_DEPTH then ret (Some (400, ''Replies are limited to 3 levels deep.''))
                 else ret None)))"

definition comment_POST ::
  "session option \<Rightarrow> nat \<Rightarrow> comment_body option \<Rightarrow> nat \<Rightarrow> int \<Rightarrow> (forum, string, comment reply) prog" where
  "comment_POST session i body newId now =
    catch
      (case session of
         None \<Rightarrow> ret (Failed 401 ''Unauthorized'')
       | Some se \<Rightarrow>
           bind (state_op (forum_limited (''comment:'' @ show_nat (se_userId se)) 10 now)) (\<lambda>limit.
           if \<not> allowed limit then ret (Failed 429 ''Too many comments. Slow down.'')
           else (case body of
             None \<Rightarrow> ret (Failed 400 ''Invalid JSON body'')
           | Some b \<Rightarrow>
               (case createCommentSchema b of
                  msg # _ \<Rightarrow> ret (Failed 400 msg)
                | [] \<Rightarrow>
                    bind (query ''db'' (discussion_of i)) (\<lambda>found.
                    if found = None then ret (Failed 404 ''Discussion not found'')
                    else bind (check_parent i (mb_parentId b)) (\<lambda>refused.
                      case refused of
                        Some (n, e) \<Rightarrow> ret (Failed n e)
                      | None \<Rightarrow>
                          bind (call ''db'' (create_comment \<lparr>cm_id = newId, cm_discussion = i, cm_user = se_userId se,
                              cm_parent = mb_parentId b, cm_body = the (mb_body b), cm_createdAt = now\<rparr>)) (\<lambda>c.
                          ret (Reply 201 c))))))))
      (\<lambda>_. ret (Failed 500 ''Internal server error''))"

definition comment_DELETE :: "session option \<Rightarrow> nat \<Rightarrow> nat \<Rightarrow> (forum, string, unit reply) prog" where
  "comment_DELETE session i commentId =
    catch
      (case session of
         None \<Rightarrow> ret (Failed 401 ''Unauthorized'')
       | Some se \<Rightarrow>
           bind (query ''db'' (comment_of commentId)) (\<lambda>found.
             case found of
               None \<Rightarrow> ret (Failed 404 ''Comment not found'')
             | Some c \<Rightarrow>
                 if cm_discussion c \<noteq> i then ret (Failed 403 ''Forbidden'')
                 else if cm_user c \<noteq> se_userId se \<and> se_role se \<noteq> ''admin'' then ret (Failed 403 ''Forbidden'')
                 else bind (update ''db'' (delete_comment commentId)) (\<lambda>_. ret (Reply 200 ()))))
      (\<lambda>_. ret (Failed 500 ''Internal server error''))"

subsection \<open>Levels\<close>

inductive level :: "comment list \<Rightarrow> comment \<Rightarrow> nat \<Rightarrow> bool" for rows where
  level_root: "cm_parent c = None \<Longrightarrow> level rows c 1"
| level_reply: "cm_parent c = Some p \<Longrightarrow> find_by cm_id p rows = Some q \<Longrightarrow> cm_discussion q = cm_discussion c \<Longrightarrow>
    level rows q n \<Longrightarrow> level rows c (Suc n)"

inductive_cases levelE: "level rows c n"

definition thread_ok :: "forum \<Rightarrow> bool" where
  "thread_ok db \<longleftrightarrow> distinct (map cm_id (fo_comments db)) \<and>
    (\<forall>c \<in> set (fo_comments db). \<exists>n. level (fo_comments db) c n \<and> n \<le> MAX_REPLY_DEPTH)"

lemma level_unique: "level rows c n \<Longrightarrow> level rows c m \<Longrightarrow> n = m"
proof (induction arbitrary: m rule: level.induct)
  case (level_root c)
  then show ?case by (auto elim: levelE)
next
  case (level_reply c p q n)
  from level_reply.prems level_reply.hyps obtain m' where "m = Suc m'" "level rows q m'" by (auto elim: levelE)
  then show ?case using level_reply.IH by simp
qed

lemma level_pos: "level rows c n \<Longrightarrow> 0 < n"
  by (induction rule: level.induct) auto

text \<open>A sub-table that keeps the parents keeps the levels.\<close>

lemma level_sub:
  assumes "level rows c n" "distinct (map cm_id sub)" "\<And>x p q. x \<in> set sub \<Longrightarrow> cm_parent x = Some p \<Longrightarrow>
    find_by cm_id p rows = Some q \<Longrightarrow> cm_discussion q = cm_discussion x \<Longrightarrow> q \<in> set sub" "c \<in> set sub"
  shows "level sub c n"
  using assms(1,4)
proof (induction rule: level.induct)
  case (level_reply c p q n)
  then have q: "q \<in> set sub" using assms(3) by blast
  moreover have "cm_id q = p" using level_reply.hyps(2) by (rule find_by_key)
  ultimately have "find_by cm_id p sub = Some q" using find_by_unique [OF assms(2) q] by simp
  then show ?case using level_reply q by (intro level.level_reply) auto
qed (rule level.level_root)

lemma level_append: "level rows c n \<Longrightarrow> level (rows @ xs) c n"
proof (induction rule: level.induct)
  case (level_reply c p q n)
  then show ?case by (intro level.level_reply [of c p _ q]) (simp_all add: find_by_append)
qed (rule level.level_root)

declare prune.simps [simp del]

lemma prune_sub: "set (prune rows) \<subseteq> set rows \<and> (distinct (map cm_id rows) \<longrightarrow> distinct (map cm_id (prune rows)))"
proof (induction rows rule: prune.induct)
  case (1 rows)
  then show ?case by (subst (1 2) prune.simps) (auto simp: Let_def distinct_map_filter)
qed

lemma prune_closed: "x \<in> set (prune rows) \<Longrightarrow> cm_parent x = Some p \<Longrightarrow> p \<in> cm_id ` set (prune rows)"
proof (induction rows rule: prune.induct)
  case (1 rows)
  let ?f = "filter (\<lambda>c. case cm_parent c of None \<Rightarrow> True | Some p \<Rightarrow> p \<in> cm_id ` set rows) rows"
  show ?case
  proof (cases "length ?f < length rows")
    case True
    then have "prune rows = prune ?f" by (subst prune.simps) (simp only: Let_def if_True)
    then show ?thesis using 1 True by simp
  next
    case False
    then have r: "prune rows = rows" by (subst prune.simps) (simp only: Let_def if_False)
    have "?f = rows" using False by (metis (no_types, lifting) length_filter_less nat_neq_iff filter_True length_filter_le linorder_not_less le_neq_implies_less)
    then have "x \<in> set ?f" using 1(2) r by simp
    then show ?thesis using 1(3) r by simp
  qed
qed

lemma prune_ok:
  assumes "thread_ok db" "set rows \<subseteq> set (fo_comments db)" "distinct (map cm_id rows)"
  shows "thread_ok (db\<lparr>fo_comments := prune rows\<rparr>)"
proof -
  let ?p = "prune rows"
  have sub: "set ?p \<subseteq> set (fo_comments db)" and d: "distinct (map cm_id ?p)" using prune_sub [of rows] assms(2,3) by auto
  have keep: "q \<in> set ?p" if x: "x \<in> set ?p" "cm_parent x = Some p" and q: "find_by cm_id p (fo_comments db) = Some q" for x p q
  proof -
    obtain y where y: "y \<in> set ?p" "cm_id y = p" using prune_closed [OF x] by auto
    have "find_by cm_id (cm_id y) (fo_comments db) = Some y"
      using assms(1) sub y(1) unfolding thread_ok_def by (intro find_by_unique) auto
    then show ?thesis using q y by simp
  qed
  have "\<exists>n. level ?p c n \<and> n \<le> MAX_REPLY_DEPTH" if c: "c \<in> set ?p" for c
  proof -
    obtain n where "level (fo_comments db) c n" "n \<le> MAX_REPLY_DEPTH" using assms(1) sub c unfolding thread_ok_def by blast
    then show ?thesis using level_sub [OF _ d _ c] keep by blast
  qed
  then show ?thesis using d by (simp add: thread_ok_def)
qed

lemma delete_comment_ok: "thread_ok db \<Longrightarrow> thread_ok (delete_comment i db)"
  unfolding delete_comment_def by (rule prune_ok) (auto simp: thread_ok_def distinct_map_filter)

lemma delete_discussion_ok: "thread_ok db \<Longrightarrow> thread_ok (delete_discussion i db)"
  using prune_ok [of db "filter (\<lambda>c. cm_discussion c \<noteq> i) (fo_comments db)"]
  by (auto simp: delete_discussion_def thread_ok_def distinct_map_filter)

text \<open>What the walk finds: the level of the parent, capped.\<close>

lemma reply_depth_level:
  assumes "level (fo_comments db) q n" "d \<le> MAX_REPLY_DEPTH" "reply_depth d (cm_parent q) (fs, db) = (r, (gs, t))"
  shows "t = db \<and> (\<forall>x. r = Inr x \<longrightarrow> x = min (d + n - 1) MAX_REPLY_DEPTH)"
  using assms
proof (induction arbitrary: d fs rule: level.induct)
  case (level_root c)
  then show ?case by (auto simp: reply_depth.simps)
next
  case (level_reply c p q n)
  note pos = level_pos [OF level_reply.hyps(4)]
  show ?case
  proof (cases "d < MAX_REPLY_DEPTH")
    case True
    have f: "comment_of p db = Some q" using level_reply.hyps(2) by (simp add: comment_of_def)
    show ?thesis
    proof (cases "fs \<noteq> [] \<and> hd fs")
      case True
      then show ?thesis using level_reply.prems level_reply.hyps(1) \<open>d < MAX_REPLY_DEPTH\<close>
        by (auto simp: reply_depth.simps [of d] bind_def query_hd)
    next
      case False
      then have "reply_depth (d + 1) (cm_parent q) (tl fs, db) = (r, (gs, t))"
        using level_reply.prems level_reply.hyps(1) True f by (auto simp: reply_depth.simps [of d] bind_def query_hd)
      then show ?thesis using level_reply.IH [of "d + 1"] True pos by auto
    qed
  next
    case False
    then show ?thesis using level_reply.prems level_reply.hyps(1) pos
      by (auto simp: reply_depth.simps [of d] reply_depth.simps [of MAX_REPLY_DEPTH])
  qed
qed

subsection \<open>Requests\<close>

text \<open>The requests that write, and the table after a list of them, each with its failing calls.\<close>

datatype forum_request =
    CreateThread "session option" "thread_body option" nat int
  | DeleteThread "session option" nat
  | EditThread "session option" nat "string option option" int
  | VoteThread "session option" nat "int option option" nat int
  | UpvoteThread string "session option" nat int
  | PostComment "session option" nat "comment_body option" nat int
  | DeleteComment "session option" nat nat

fun serve :: "forum_request \<times> bool list \<Rightarrow> forum \<Rightarrow> forum" where
  "serve (CreateThread se b i t, fs) db = after (discussions_POST se b i t) fs db"
| "serve (DeleteThread se i, fs) db = after (discussion_DELETE se i) fs db"
| "serve (EditThread se i b t, fs) db = after (edit_PATCH se i b t) fs db"
| "serve (VoteThread se i b j t, fs) db = after (thread_vote_POST se i b j t) fs db"
| "serve (UpvoteThread m se i t, fs) db = after (upvote_POST m se i t) fs db"
| "serve (PostComment se i b j t, fs) db = after (comment_POST se i b j t) fs db"
| "serve (DeleteComment se i c, fs) db = after (comment_DELETE se i c) fs db"

definition keeps_threads :: "forum \<Rightarrow> forum \<Rightarrow> bool" where
  "keeps_threads s t \<longleftrightarrow> thread_ok s \<longrightarrow> thread_ok t"

interpretation threads: evolution keeps_threads
  by unfold_locales (auto simp: keeps_threads_def)

lemma same_comments: "fo_comments t = fo_comments s \<Longrightarrow> keeps_threads s t"
  by (simp add: keeps_threads_def thread_ok_def)

lemma keeps_forum_limited: "keeps_threads s (snd (forum_limited k m now s))"
  by (rule same_comments) (simp add: forum_limited_def split: prod.split)

lemmas threads_rules = threads.moves_rules threads.moves_call

lemma keeps_writes:
  "keeps_threads s (delete_comment i s)" "keeps_threads s (delete_discussion i s)"
  "keeps_threads s (snd (create_discussion j p u ti bo now s))" "keeps_threads s (snd (create_thread_vote j i u x s))"
  "keeps_threads s (s\<lparr>fo_votes := vs\<rparr>)" "keeps_threads s (s\<lparr>fo_discussions := ds\<rparr>)"
  by (auto simp: keeps_threads_def delete_comment_ok delete_discussion_ok)
    (auto simp: thread_ok_def create_discussion_def create_thread_vote_def Let_def)

lemmas handler_rules = threads.moves_rules threads.moves_call keeps_forum_limited keeps_writes

lemma moves_create_thread: "moves keeps_threads (discussions_POST se b i t)"
  unfolding discussions_POST_def by (intro handler_rules)

lemma moves_delete_thread: "moves keeps_threads (discussion_DELETE se i)"
  unfolding discussion_DELETE_def by (intro handler_rules)

lemma moves_edit_thread: "moves keeps_threads (edit_PATCH se i b t)"
  unfolding edit_PATCH_def by (intro handler_rules)

lemma moves_vote_thread: "moves keeps_threads (thread_vote_POST se i v j t)"
  unfolding thread_vote_POST_def by (intro handler_rules)

lemma moves_upvote_thread: "moves keeps_threads (upvote_POST m se i t)"
  unfolding upvote_POST_def
  by (intro handler_rules) (auto split: option.split intro: threads.refl keeps_writes)

lemma moves_delete_comment: "moves keeps_threads (comment_DELETE se i c)"
  unfolding comment_DELETE_def by (intro handler_rules)

text \<open>A comment is only added below a parent on a level under the cap.\<close>

lemma check_parent_reads: "moves (=) (check_parent i p)"
proof -
  have "moves (=) (reply_depth d c)" for d c
  proof (induction d c rule: reply_depth.induct)
    case (1 d c)
    show ?case
    proof (cases "c = None \<or> \<not> d < MAX_REPLY_DEPTH")
      case True
      then have "reply_depth d c = ret d" by (subst reply_depth.simps) (auto split: option.split)
      then show ?thesis by (simp only: reads.moves_ret)
    next
      case False
      then show ?thesis by (subst reply_depth.simps) (auto intro!: reads_rules 1)
    qed
  qed
  then show ?thesis unfolding check_parent_def by (intro reads_rules)
qed

lemma check_parent_level:
  assumes "thread_ok db" "check_parent i p (fs, db) = (Inr None, (gs, t))"
  shows "t = db \<and> (\<forall>j. p = Some j \<longrightarrow> (\<exists>q n. comment_of j db = Some q \<and> cm_discussion q = i \<and>
    level (fo_comments db) q n \<and> n < MAX_REPLY_DEPTH))"
proof (cases p)
  case None
  then show ?thesis using assms(2) by (simp add: check_parent_def)
next
  case (Some j)
  have t: "t = db" using reads_state [OF check_parent_reads assms(2)] by simp
  let ?k = "\<lambda>q. bind (reply_depth 1 (cm_parent q)) (\<lambda>depth. if depth \<ge> MAX_REPLY_DEPTH
       then ret (Some (400 :: nat, ''Replies are limited to 3 levels deep.'')) else ret None)"
  let ?hs = "tl fs"
  have "(case comment_of j db of None \<Rightarrow> ret (Some (404 :: nat, ''Parent comment not found''))
      | Some q \<Rightarrow> if cm_discussion q \<noteq> i then ret (Some (404, ''Parent comment not found'')) else ?k q) (?hs, db) = (Inr None, (gs, t))"
    using bind_query_Inr [OF assms(2) [unfolded check_parent_def Some option.case]] .
  then obtain q where q: "comment_of j db = Some q" "cm_discussion q = i" "?k q (?hs, db) = (Inr None, (gs, t))"
    by (auto split: option.splits if_splits)
  from q(1) have "q \<in> set (fo_comments db)" unfolding comment_of_def by (rule find_by_in)
  then obtain n where n: "level (fo_comments db) q n" "n \<le> MAX_REPLY_DEPTH"
    using assms(1) unfolding thread_ok_def by blast
  obtain d w where d: "reply_depth 1 (cm_parent q) (?hs, db) = (Inr d, w)" "d < MAX_REPLY_DEPTH"
    using q(3) by (auto simp: bind_Inr split: if_splits)
  moreover obtain w1 w2 where "w = (w1, w2)" by (cases w)
  ultimately have "d = min (1 + n - 1) MAX_REPLY_DEPTH"
    using reply_depth_level [OF n(1), of 1 ?hs "Inr d" w1 w2] by (simp add: MAX_REPLY_DEPTH_def)
  then show ?thesis using Some t q(1,2) n d(2) by auto
qed

lemma create_comment_ok:
  assumes "thread_ok db" "\<forall>j. cm_parent c = Some j \<longrightarrow> (\<exists>q n. comment_of j db = Some q \<and> cm_discussion q = cm_discussion c \<and>
    level (fo_comments db) q n \<and> n < MAX_REPLY_DEPTH)"
  shows "thread_ok (snd (create_comment c db))"
proof (cases "snd (create_comment c db) = db")
  case False
  let ?rows = "fo_comments db"
  have new: "cm_id c \<notin> cm_id ` set ?rows" and t: "fo_comments (snd (create_comment c db)) = ?rows @ [c]"
    using False by (auto simp: create_comment_def split: if_splits)
  have "\<exists>n. level (?rows @ [c]) c n \<and> n \<le> MAX_REPLY_DEPTH"
  proof (cases "cm_parent c")
    case None
    then have "level (?rows @ [c]) c 1" by (rule level.level_root)
    then show ?thesis by (auto simp: MAX_REPLY_DEPTH_def)
  next
    case (Some j)
    then obtain q n where "comment_of j db = Some q" "cm_discussion q = cm_discussion c" "level ?rows q n" "n < MAX_REPLY_DEPTH"
      using assms(2) by blast
    then have "level (?rows @ [c]) c (Suc n)" "Suc n \<le> MAX_REPLY_DEPTH"
      using Some by (auto intro!: level.level_reply level_append simp: comment_of_def find_by_append)
    then show ?thesis by blast
  qed
  moreover have "\<forall>x \<in> set ?rows. \<exists>n. level (?rows @ [c]) x n \<and> n \<le> MAX_REPLY_DEPTH"
    using assms(1) unfolding thread_ok_def by (blast intro: level_append)
  ultimately show ?thesis using assms(1) new unfolding thread_ok_def t by simp
qed (simp add: assms(1))

lemma moves_post_comment: "moves keeps_threads (comment_POST se i b j t)"
proof -
  have core: "moves keeps_threads (bind (check_parent i p) (\<lambda>refused. case refused of Some (n, e) \<Rightarrow> ret (Failed n e)
      | None \<Rightarrow> bind (call ''db'' (create_comment \<lparr>cm_id = j, cm_discussion = i, cm_user = u, cm_parent = p, cm_body = m, cm_createdAt = t\<rparr>))
          (\<lambda>c. ret (Reply 201 c))))" (is "moves _ ?P") for p u m
  proof (rule threads.movesI)
    fix fs s r gs s'
    assume r: "?P (fs, s) = (r, (gs, s'))"
    let ?c = "\<lparr>cm_id = j, cm_discussion = i, cm_user = u, cm_parent = p, cm_body = m, cm_createdAt = t\<rparr>"
    obtain x hs s1 where x: "check_parent i p (fs, s) = (x, (hs, s1))" by (metis prod.exhaust)
    then have s1: "s1 = s" using reads_state [OF check_parent_reads x] by simp
    have "s' = s \<or> x = Inr None \<and> s' = snd (create_comment ?c s)"
      using r x s1 by (auto simp: bind_def call_hd split: sum.splits option.splits if_splits)
    then show "keeps_threads s s'"
      using check_parent_level [of s i p fs hs s1] create_comment_ok [of s ?c] x by (auto simp: keeps_threads_def)
  qed
  show ?thesis unfolding comment_POST_def by (intro handler_rules core)
qed

lemma serve_keeps: "thread_ok db \<Longrightarrow> thread_ok (serve r db)"
proof -
  assume a: "thread_ok db"
  have "keeps_threads db (serve r db)"
  proof (cases r)
    case (Pair q fs)
    then show ?thesis
      by (cases q) (auto intro: threads.moves_result moves_create_thread moves_delete_thread moves_edit_thread
        moves_vote_thread moves_upvote_thread moves_post_comment moves_delete_comment)
  qed
  then show ?thesis using a by (simp add: keeps_threads_def)
qed

definition empty_forum :: "nat list \<Rightarrow> forum" where
  "empty_forum ps = \<lparr>fo_problems = ps, fo_discussions = [], fo_comments = [], fo_votes = [], fo_limiter = []\<rparr>"

lemma served_ok: "thread_ok (fold serve rs (empty_forum ps))"
proof -
  have "thread_ok db \<Longrightarrow> thread_ok (fold serve rs db)" for db
    by (induction rs arbitrary: db) (simp_all add: serve_keeps)
  then show ?thesis by (simp add: empty_forum_def thread_ok_def)
qed

lemma reply_depth_runs:
  assumes "level (fo_comments db) q n" "d \<le> MAX_REPLY_DEPTH"
  shows "reply_depth d (cm_parent q) ([], db) = (Inr (min (d + n - 1) MAX_REPLY_DEPTH), ([], db))"
proof -
  have "\<exists>x t. reply_depth d (cm_parent q) ([], db) = (Inr x, ([], t))"
    using assms
  proof (induction arbitrary: d rule: level.induct)
    case (level_reply c p q n)
    then show ?case by (cases "d < MAX_REPLY_DEPTH") (auto simp: reply_depth.simps [of d]
        reply_depth.simps [of MAX_REPLY_DEPTH] comment_of_def bind_def)
  qed (simp add: reply_depth.simps)
  then show ?thesis using reply_depth_level [OF assms] by fastforce
qed

subsection \<open>The tree of a thread\<close>

text \<open>The specification: the replies of a comment are the rows that name it, in their order.\<close>

fun forest_from :: "nat \<Rightarrow> comment list \<Rightarrow> nat option \<Rightarrow> comment_node list" where
  "forest_from 0 rows p = []"
| "forest_from (Suc k) rows p =
    map (\<lambda>r. Node r (forest_from k rows (Some (cm_id r)))) (filter (\<lambda>r. cm_parent r = p) rows)"

fun flatten :: "comment_node \<Rightarrow> comment list" where
  "flatten (Node r ks) = r # concat (map flatten ks)"

lemma all_nodes_get:
  "distinct (map cm_id rows) \<Longrightarrow> jm_get (all_nodes rows) i = map_option (\<lambda>r. (r, [])) (find_by cm_id i rows)"
proof -
  have "distinct (map cm_id rows) \<Longrightarrow> jm_get (fold (\<lambda>r m. jm_set (cm_id r) (r, []) m) rows m) i =
      (case find_by cm_id i rows of None \<Rightarrow> jm_get m i | Some r \<Rightarrow> Some (r, []))" for m :: node_map
  proof (induction rows arbitrary: m)
    case (Cons x xs)
    then show ?case
    proof (cases "cm_id x = i")
      case True
      then have "find_by cm_id i xs = None" using Cons.prems by (auto simp: find_by_None)
      then show ?thesis using Cons True by (simp add: jm_get_set)
    qed (simp add: jm_get_set split: option.split)
  qed simp
  then show "distinct (map cm_id rows) \<Longrightarrow> ?thesis"
    by (simp add: all_nodes_def split: option.split)
qed

lemma attach_all:
  assumes "distinct (map cm_id rows)" "\<forall>r \<in> set rows. \<forall>p. cm_parent r = Some p \<longrightarrow> p \<in> cm_id ` set rows" "set done \<subseteq> set rows"
  shows "\<exists>byId. foldl attach (all_nodes rows, []) done =
      (byId, map cm_id (filter (\<lambda>r. cm_parent r = None) done)) \<and>
    (\<forall>i. jm_get byId i = map_option (\<lambda>r. (r, map cm_id (filter (\<lambda>x. cm_parent x = Some i) done))) (find_by cm_id i rows))"
  using assms(3)
proof (induction "done" rule: rev_induct)
  case Nil
  then show ?case using all_nodes_get [OF assms(1)] by simp
next
  case (snoc x "done")
  then obtain byId where b: "foldl attach (all_nodes rows, []) done = (byId, map cm_id (filter (\<lambda>r. cm_parent r = None) done))"
    "\<And>i. jm_get byId i = map_option (\<lambda>r. (r, map cm_id (filter (\<lambda>x. cm_parent x = Some i) done))) (find_by cm_id i rows)"
    by auto
  show ?case
  proof (cases "cm_parent x")
    case None
    then show ?thesis using b by simp
  next
    case (Some p)
    then have "p \<in> cm_id ` set rows" using assms(2) snoc.prems by auto
    then obtain q where "find_by cm_id p rows = Some q" by (cases "find_by cm_id p rows") (auto simp: find_by_None)
    then show ?thesis using b Some by (auto simp: jm_get_set)
  qed
qed

lemma tree_of_spec:
  assumes "distinct (map cm_id rows)"
    "\<And>i. jm_get byId i = map_option (\<lambda>r. (r, map cm_id (filter (\<lambda>x. cm_parent x = Some i) rows))) (find_by cm_id i rows)"
    "\<forall>c \<in> set rows. \<exists>n. level rows c n \<and> n \<le> M"
    "r \<in> set rows" "level rows r n" "M < m + n" "M < Suc k + n"
  shows "tree_of m byId (cm_id r) = [Node r (forest_from k rows (Some (cm_id r)))]"
  using assms(4-)
proof (induction m arbitrary: r n k)
  case 0
  then show ?case using assms(3) level_unique by fastforce
next
  case (Suc m)
  have f: "find_by cm_id (cm_id r) rows = Some r" using assms(1) Suc.prems(1) by (rule find_by_unique)
  have n: "n \<le> M" using assms(3) Suc.prems(1,2) level_unique by blast
  have kid: "tree_of m byId (cm_id c) = [Node c (forest_from (k - 1) rows (Some (cm_id c)))] \<and> 0 < k"
    if c: "c \<in> set rows" "cm_parent c = Some (cm_id r)" for c
  proof -
    obtain j where j: "level rows c j" "j \<le> M" using assms(3) c(1) by blast
    then obtain j' where "j = Suc j'" "level rows r j'" using c(2) f by (auto elim: levelE)
    then have "j = Suc n" using level_unique Suc.prems(2) by blast
    then show ?thesis using Suc.IH [OF c(1) j(1), of "k - 1"] Suc.prems(3,4) j(2) by auto
  qed
  have "concat (map (tree_of m byId) (map cm_id (filter (\<lambda>x. cm_parent x = Some (cm_id r)) rows))) =
      forest_from k rows (Some (cm_id r))"
  proof (cases k)
    case 0
    then have "filter (\<lambda>x. cm_parent x = Some (cm_id r)) rows = []" using kid by (auto simp: filter_empty_conv)
    then show ?thesis using 0 by simp
  next
    case (Suc k')
    have eq: "map (tree_of m byId) (map cm_id (filter (\<lambda>x. cm_parent x = Some (cm_id r)) rows)) =
        map (\<lambda>c. [Node c (forest_from k' rows (Some (cm_id c)))]) (filter (\<lambda>x. cm_parent x = Some (cm_id r)) rows)"
      using kid Suc by auto
    show ?thesis unfolding Suc eq by (simp only: forest_from.simps concat_map_singleton)
  qed
  then show ?case using f by (simp add: assms(2))
qed

text \<open>Every comment hangs in the forest once: level by level.\<close>

abbreviation on_level :: "comment list \<Rightarrow> nat \<Rightarrow> comment set" where
  "on_level rows n \<equiv> {c \<in> set rows. level rows c n}"

abbreviation below :: "nat \<Rightarrow> comment list \<Rightarrow> nat option \<Rightarrow> comment multiset" where
  "below k rows p \<equiv> mset (concat (map flatten (forest_from k rows p)))"

lemma below_Suc:
  assumes "distinct rows"
  shows "below (Suc k) rows p = (\<Sum>c | c \<in> set rows \<and> cm_parent c = p. {#c#} + below k rows (Some (cm_id c)))"
proof -
  have "below (Suc k) rows p = sum_list (map (\<lambda>c. {#c#} + below k rows (Some (cm_id c))) (filter (\<lambda>c. cm_parent c = p) rows))"
    by (induction rows) (simp_all add: mset_concat comp_def)
  also have "\<dots> = (\<Sum>c \<in> set (filter (\<lambda>c. cm_parent c = p) rows). {#c#} + below k rows (Some (cm_id c)))"
    using assms by (intro sum_list_distinct_conv_sum_set) simp
  finally show ?thesis by simp
qed

lemma level_children:
  assumes "distinct (map cm_id rows)" "\<forall>c \<in> set rows. \<exists>n. level rows c n"
  shows "(\<Sum>r \<in> on_level rows n. \<Sum>c | c \<in> set rows \<and> cm_parent c = Some (cm_id r). g c) =
    (\<Sum>c \<in> on_level rows (Suc n) - {c. cm_parent c = None}. g c)"
proof -
  let ?kids = "\<lambda>r. {c \<in> set rows. cm_parent c = Some (cm_id r)}"
  have inj: "inj_on cm_id (set rows)" using assms(1) by (simp add: distinct_map)
  have "(\<Union>r \<in> on_level rows n. ?kids r) = on_level rows (Suc n) - {c. cm_parent c = None}"
  proof (intro equalityI subsetI)
    fix c assume "c \<in> (\<Union>r \<in> on_level rows n. ?kids r)"
    then obtain r where r: "r \<in> set rows" "level rows r n" "c \<in> set rows" "cm_parent c = Some (cm_id r)" by auto
    have f: "find_by cm_id (cm_id r) rows = Some r" using assms(1) r(1) by (rule find_by_unique)
    obtain j where j: "level rows c j" using assms(2) r(3) by blast
    then obtain j' where "j = Suc j'" "level rows r j'" using r(4) f by (auto elim: levelE)
    then show "c \<in> on_level rows (Suc n) - {c. cm_parent c = None}" using level_unique r j by auto
  next
    fix c assume c: "c \<in> on_level rows (Suc n) - {c. cm_parent c = None}"
    then have "level rows c (Suc n)" by simp
    then obtain p q where "cm_parent c = Some p" "find_by cm_id p rows = Some q" "level rows q n"
      using c by (cases rule: level.cases) auto
    then show "c \<in> (\<Union>r \<in> on_level rows n. ?kids r)" using c find_by_in find_by_key by fastforce
  qed
  moreover have "sum g (\<Union>r \<in> on_level rows n. ?kids r) = (\<Sum>r \<in> on_level rows n. sum g (?kids r))"
    using inj by (intro sum.UNION_disjoint) (auto simp: inj_on_def)
  ultimately show ?thesis by simp
qed

lemma sum_below:
  assumes "distinct (map cm_id rows)" "\<forall>c \<in> set rows. \<exists>n. level rows c n" "0 < n"
  shows "(\<Sum>r \<in> on_level rows n. below k rows (Some (cm_id r))) = mset_set {c \<in> set rows. \<exists>j. level rows c j \<and> n < j \<and> j \<le> n + k}"
  using assms(3)
proof (induction k arbitrary: n)
  case 0
  have "{c \<in> set rows. \<exists>j. level rows c j \<and> n < j \<and> j \<le> n + 0} = {}" by auto
  then show ?case by (simp only:) simp
next
  case (Suc k)
  have d: "distinct rows" using assms(1) by (simp add: distinct_map)
  have nr: "on_level rows (Suc n) - {c. cm_parent c = None} = on_level rows (Suc n)"
    using Suc.prems by (auto elim: levelE)
  have split: "{c \<in> set rows. \<exists>j. level rows c j \<and> n < j \<and> j \<le> n + Suc k} =
      on_level rows (Suc n) \<union> {c \<in> set rows. \<exists>j. level rows c j \<and> Suc n < j \<and> j \<le> Suc n + k}"
    by (auto simp: less_eq_Suc_le) (metis le_neq_implies_less Suc_leI)
  have disj: "on_level rows (Suc n) \<inter> {c \<in> set rows. \<exists>j. level rows c j \<and> Suc n < j \<and> j \<le> Suc n + k} = {}"
    using level_unique by fastforce
  have "(\<Sum>r \<in> on_level rows n. below (Suc k) rows (Some (cm_id r))) =
      (\<Sum>c \<in> on_level rows (Suc n). {#c#} + below k rows (Some (cm_id c)))"
    using level_children [OF assms(1,2), of "\<lambda>c. {#c#} + below k rows (Some (cm_id c))" n]
    by (simp only: below_Suc [OF d] nr)
  also have "\<dots> = (\<Sum>c \<in> on_level rows (Suc n). {#c#}) + (\<Sum>c \<in> on_level rows (Suc n). below k rows (Some (cm_id c)))"
    by (rule sum.distrib)
  also have "\<dots> = mset_set (on_level rows (Suc n)) + mset_set {c \<in> set rows. \<exists>j. level rows c j \<and> Suc n < j \<and> j \<le> Suc n + k}"
    using Suc.IH [of "Suc n"] by (simp only: sum_multiset_singleton)
  also have "\<dots> = mset_set {c \<in> set rows. \<exists>j. level rows c j \<and> n < j \<and> j \<le> n + Suc k}"
    unfolding split using disj by (intro mset_set_Union [symmetric]) auto
  finally show ?case .
qed

lemma forest_once:
  assumes "distinct (map cm_id rows)" "\<forall>c \<in> set rows. \<exists>n. level rows c n \<and> n \<le> k"
  shows "below k rows None = mset rows"
proof (cases k)
  case 0
  then have "rows = []" using assms(2) level_pos by (cases rows) fastforce+
  then show ?thesis using 0 by simp
next
  case (Suc k')
  have d: "distinct rows" using assms(1) by (simp add: distinct_map)
  have a: "\<forall>c \<in> set rows. \<exists>n. level rows c n" using assms(2) by blast
  have roots: "{c \<in> set rows. cm_parent c = None} = on_level rows 1"
    using level.level_root by (auto simp only: One_nat_def elim: levelE dest: level_pos)
  have split: "set rows = on_level rows 1 \<union> {c \<in> set rows. \<exists>j. level rows c j \<and> 1 < j \<and> j \<le> 1 + k'}"
    using assms(2) level_pos Suc by (fastforce simp: less_eq_Suc_le dest: le_neq_implies_less)
  have disj: "on_level rows 1 \<inter> {c \<in> set rows. \<exists>j. level rows c j \<and> 1 < j \<and> j \<le> 1 + k'} = {}"
    using level_unique by fastforce
  have "below k rows None = (\<Sum>c \<in> on_level rows 1. {#c#}) + (\<Sum>c \<in> on_level rows 1. below k' rows (Some (cm_id c)))"
    unfolding Suc below_Suc [OF d] roots by (rule sum.distrib)
  also have "\<dots> = mset_set (on_level rows 1) + mset_set {c \<in> set rows. \<exists>j. level rows c j \<and> 1 < j \<and> j \<le> 1 + k'}"
    using sum_below [OF assms(1) a, of 1 k'] by (simp only: sum_multiset_singleton)
  also have "\<dots> = mset_set (set rows)"
    by (subst (3) split) (use disj in \<open>intro mset_set_Union [symmetric]; auto\<close>)
  finally show ?thesis using d by (simp add: mset_set_set)
qed

lemma thread_rows_ok:
  fixes i :: nat
  assumes "thread_ok db"
  defines "rows \<equiv> sort_by (\<lambda>a b. cm_createdAt a \<le> cm_createdAt b) (filter (\<lambda>c. cm_discussion c = i) (fo_comments db))"
  shows "distinct (map cm_id rows)" "\<forall>c \<in> set rows. \<exists>n. level rows c n \<and> n \<le> MAX_REPLY_DEPTH"
proof -
  have set: "set rows = {c \<in> set (fo_comments db). cm_discussion c = i}" by (simp add: rows_def)
  have "mset (map cm_id rows) = mset (map cm_id (filter (\<lambda>c. cm_discussion c = i) (fo_comments db)))"
    by (simp add: rows_def)
  moreover have "distinct (map cm_id (filter (\<lambda>c. cm_discussion c = i) (fo_comments db)))"
    using assms(1) by (simp add: thread_ok_def distinct_map_filter)
  ultimately show d: "distinct (map cm_id rows)" using mset_eq_imp_distinct_iff by blast
  show "\<forall>c \<in> set rows. \<exists>n. level rows c n \<and> n \<le> MAX_REPLY_DEPTH"
  proof
    fix c assume c: "c \<in> set rows"
    then obtain n where "level (fo_comments db) c n" "n \<le> MAX_REPLY_DEPTH" using assms(1) set unfolding thread_ok_def by auto
    moreover have "q \<in> set rows" if "x \<in> set rows" "find_by cm_id p (fo_comments db) = Some q" "cm_discussion q = cm_discussion x" for x p q
      using that find_by_in set by fastforce
    ultimately show "\<exists>n. level rows c n \<and> n \<le> MAX_REPLY_DEPTH" using level_sub [OF _ d _ c] by blast
  qed
qed

lemma levels_bound_length:
  assumes "distinct (map cm_id rows)" "c \<in> set rows" "level rows c n"
  shows "n \<le> length rows"
proof -
  have "\<forall>j. 1 \<le> j \<and> j \<le> n \<longrightarrow> (\<exists>x \<in> set rows. level rows x j)"
    using assms(3,2)
  proof (induction rule: level.induct)
    case (level_root c)
    then show ?case using level.level_root by (metis le_antisym)
  next
    case (level_reply c p q n)
    then have "level rows c (Suc n)" by (intro level.level_reply)
    moreover have "q \<in> set rows" using level_reply.hyps(2) by (rule find_by_in)
    ultimately show ?case using level_reply by (metis le_Suc_eq)
  qed
  then have "\<forall>j \<in> {1..n}. \<exists>x. x \<in> set rows \<and> level rows x j" by auto
  then obtain f where f: "\<And>j. j \<in> {1..n} \<Longrightarrow> f j \<in> set rows \<and> level rows (f j) j" by metis
  then have "inj_on f {1..n}" using level_unique unfolding inj_on_def by metis
  then have "card {1..n} \<le> card (set rows)" using f by (intro card_inj_on_le) auto
  then show ?thesis using card_length [of rows] by simp
qed

lemma tree_is_forest:
  assumes "distinct (map cm_id rows)" "\<forall>c \<in> set rows. \<exists>n. level rows c n \<and> n \<le> MAX_REPLY_DEPTH"
  shows "buildCommentTree rows = forest_from MAX_REPLY_DEPTH rows None"
proof -
  let ?M = "min MAX_REPLY_DEPTH (length rows)"
  have lv: "\<forall>c \<in> set rows. \<exists>n. level rows c n \<and> n \<le> ?M" using assms levels_bound_length by fastforce
  have parents: "\<forall>r \<in> set rows. \<forall>p. cm_parent r = Some p \<longrightarrow> p \<in> cm_id ` set rows"
  proof (intro ballI allI impI)
    fix r p assume r: "r \<in> set rows" "cm_parent r = Some p"
    then obtain n where "level rows r n" using assms(2) by blast
    then obtain q where "find_by cm_id p rows = Some q" using r(2) by (auto elim: levelE)
    then show "p \<in> cm_id ` set rows" using find_by_in find_by_key by fastforce
  qed
  obtain byId where b: "foldl attach (all_nodes rows, []) rows = (byId, map cm_id (filter (\<lambda>r. cm_parent r = None) rows))"
    "\<And>i. jm_get byId i = map_option (\<lambda>r. (r, map cm_id (filter (\<lambda>x. cm_parent x = Some i) rows))) (find_by cm_id i rows)"
    using attach_all [OF assms(1) parents order.refl] by auto
  have root: "tree_of (length rows) byId (cm_id r) = [Node r (forest_from 2 rows (Some (cm_id r)))]"
    if "r \<in> set rows" "cm_parent r = None" for r
    using tree_of_spec [OF assms(1) b(2) lv that(1) level.level_root [OF that(2)]] by (simp add: MAX_REPLY_DEPTH_def)
  have "map (tree_of (length rows) byId) (map cm_id (filter (\<lambda>r. cm_parent r = None) rows)) =
      map (\<lambda>r. [Node r (forest_from 2 rows (Some (cm_id r)))]) (filter (\<lambda>r. cm_parent r = None) rows)"
    using root by auto
  then have eq: "buildCommentTree rows = concat (map (\<lambda>r. [Node r (forest_from 2 rows (Some (cm_id r)))]) (filter (\<lambda>r. cm_parent r = None) rows))"
    by (simp only: buildCommentTree_def b(1) prod.case)
  have three: "MAX_REPLY_DEPTH = Suc 2" by (simp add: MAX_REPLY_DEPTH_def)
  show ?thesis unfolding eq three by (simp only: forest_from.simps concat_map_singleton)
qed

lemma forum_limited_same:
  "fo_comments (snd (forum_limited k m now db)) = fo_comments db"
  "fo_discussions (snd (forum_limited k m now db)) = fo_discussions db"
  "comment_of j (snd (forum_limited k m now db)) = comment_of j db"
  "discussion_of j (snd (forum_limited k m now db)) = discussion_of j db"
  by (simp_all add: forum_limited_def comment_of_def discussion_of_def split: prod.split)

lemma reply_accepted:
  assumes "level (fo_comments db) q n" "n \<le> MAX_REPLY_DEPTH" "comment_of p db = Some q" "cm_discussion q = i"
    "discussion_of i db \<noteq> None" "createCommentSchema b = []" "mb_parentId b = Some p"
    "allowed (fst (forum_limited (''comment:'' @ show_nat (se_userId se)) 10 now db))"
    "newId \<notin> cm_id ` set (fo_comments db)"
  shows "result (comment_POST (Some se) i (Some b) newId now) [] db =
    Inr (if n < MAX_REPLY_DEPTH
         then Reply 201 \<lparr>cm_id = newId, cm_discussion = i, cm_user = se_userId se, cm_parent = Some p,
                cm_body = the (mb_body b), cm_createdAt = now\<rparr>
         else Failed 400 ''Replies are limited to 3 levels deep.'')"
proof -
  let ?db = "snd (forum_limited (''comment:'' @ show_nat (se_userId se)) 10 now db)"
  have "reply_depth 1 (cm_parent q) ([], ?db) = (Inr n, ([], ?db))"
    using reply_depth_runs [of ?db q n 1] assms(1,2) level_pos [OF assms(1)] by (simp add: forum_limited_same MAX_REPLY_DEPTH_def)
  then show ?thesis
    using assms(2-)
    by (auto simp: comment_POST_def result_def catch_def bind_def check_parent_def forum_limited_same create_comment_def)
qed

text \<open>The first page of the hot list.\<close>

lemma hot_page:
  fixes db :: forum and p :: nat
  defines "newest \<equiv> sort_by (\<lambda>a b. di_createdAt b \<le> di_createdAt a) (filter (\<lambda>d. di_problem d = p) (fo_discussions db))"
  shows "\<exists>listed. result (discussions_GET (Some p) None rawLimit None now) [] db =
      Inr (Reply 200 (listed, length (filter (\<lambda>d. di_problem d = p) (fo_discussions db)), 1, limit_param 50 20 rawLimit, Hot)) \<and>
    mset (map fst listed) = mset (take (nat (limit_param 50 20 rawLimit)) newest)"
proof -
  let ?l = "limit_param 50 20 rawLimit"
  have pg: "page_param None = 1" "parse_mode None = Hot" by (simp_all add: page_param_def int_param_def parse_mode_def)
  have "listed_le Hot = (\<lambda>a b. di_createdAt b \<le> di_createdAt a)" by (auto simp: listed_le_def fun_eq_iff)
  then have rows: "fetch_threads p Hot 1 ?l db = take (nat ?l) newest"
    by (simp add: fetch_threads_def skip_take_def newest_def)
  define ranked where "ranked f = sort_by (hot_le now) (map (\<lambda>d. (d, f (di_id d))) (take (nat ?l) newest))" for f
  have len: "skip_take 0 ?l (ranked f) = ranked f" for f by (simp add: skip_take_def ranked_def)
  have m: "mset (map fst (map (\<lambda>(d, s). (d, Some s)) (ranked f))) = mset (take (nat ?l) newest)" for f
  proof -
    have "map fst (map (\<lambda>(d, s). (d, Some s)) (ranked f)) = map fst (ranked f)" by auto
    then have "mset (map fst (map (\<lambda>(d, s). (d, Some s)) (ranked f))) = image_mset fst (mset (ranked f))"
      by (simp only: mset_map)
    also have "mset (ranked f) = mset (map (\<lambda>d. (d, f (di_id d))) (take (nat ?l) newest))" by (simp add: ranked_def)
    also have "image_mset fst \<dots> = mset (map fst (map (\<lambda>d. (d, f (di_id d))) (take (nat ?l) newest)))"
      by (simp only: mset_map)
    also have "map fst (map (\<lambda>d. (d, f (di_id d))) (take (nat ?l) newest)) = take (nat ?l) newest"
      by (simp add: comp_def)
    finally show ?thesis .
  qed
  have "\<exists>f. result (discussions_GET (Some p) None rawLimit None now) [] db =
      Inr (Reply 200 (map (\<lambda>(d, s). (d, Some s)) (skip_take 0 ?l (ranked f)),
        length (filter (\<lambda>d. di_problem d = p) (fo_discussions db)), 1, ?l, Hot))"
    by (rule exI [of _ "if take (nat ?l) newest = [] then (\<lambda>_. 0) else thread_score db"])
      (simp add: discussions_GET_def result_def catch_def bind_def pg rows ranked_def Let_def)
  then show ?thesis using m unfolding len by blast
qed

text \<open>A vote writes no thread.\<close>

definition keeps_rows :: "forum \<Rightarrow> forum \<Rightarrow> bool" where
  "keeps_rows s t \<longleftrightarrow> fo_discussions t = fo_discussions s"

interpretation rows: evolution keeps_rows
  by unfold_locales (auto simp: keeps_rows_def)

lemma vote_keeps_rows: "moves keeps_rows (thread_vote_POST se i b j t)"
proof -
  have "keeps_rows s (snd (forum_limited k m now s))" "keeps_rows s (snd (create_thread_vote j i u x s))"
    "keeps_rows s (s\<lparr>fo_votes := vs\<rparr>)" for s k m now u x vs
    by (auto simp: keeps_rows_def forum_limited_same create_thread_vote_def)
  note keep = this
  show ?thesis unfolding thread_vote_POST_def by (intro rows.moves_rules rows.moves_call keep)
qed

definition sample_requests :: "(forum_request \<times> bool list) list" where
  "sample_requests =
    (let ann = Some \<lparr>se_userId = 10, se_role = ''user''\<rparr>; say = \<lambda>p. Some \<lparr>mb_body = Some ''hi'', mb_parentId = p\<rparr>
     in [(CreateThread ann (Some \<lparr>tb_problemId = Some 1, tb_title = Some ''help'', tb_body = Some ''?''\<rparr>) 7 0, []),
         (PostComment ann 7 (say None) 1 1, []), (PostComment ann 7 (say (Some 1)) 2 2, []),
         (PostComment ann 7 (say (Some 2)) 3 3, []), (PostComment ann 7 (say (Some 3)) 4 4, [])])"

lemma fold_serve_Cons: "fold serve (r # rs) db = fold serve rs (serve r db)"
  by simp

subsection \<open>Properties\<close>

text \<open>
  C16. Replies nest three levels deep. In the forum that any requests produce, whichever of their
  calls fail, every comment is on a level from one to three; and a valid reply to a comment of the
  thread by a signed-in user within the limit is stored when that comment is above the last
  level, and refused with status 400 when it is on it.
\<close>

theorem replies_nest_three_levels:
  fixes se :: session
  assumes "comment_of p (fold serve rs (empty_forum ps)) = Some q"
  shows "\<exists>n. level (fo_comments (fold serve rs (empty_forum ps))) q n \<and> 1 \<le> n \<and> n \<le> 3 \<and>
    (discussion_of (cm_discussion q) (fold serve rs (empty_forum ps)) \<noteq> None \<and>
     createCommentSchema b = [] \<and> mb_parentId b = Some p \<and>
     allowed (fst (forum_limited (''comment:'' @ show_nat (se_userId se)) 10 now (fold serve rs (empty_forum ps)))) \<and>
     newId \<notin> cm_id ` set (fo_comments (fold serve rs (empty_forum ps))) \<longrightarrow>
     result (comment_POST (Some se) (cm_discussion q) (Some b) newId now) [] (fold serve rs (empty_forum ps)) =
       Inr (if n < 3
            then Reply 201 \<lparr>cm_id = newId, cm_discussion = cm_discussion q, cm_user = se_userId se, cm_parent = Some p,
                   cm_body = the (mb_body b), cm_createdAt = now\<rparr>
            else Failed 400 ''Replies are limited to 3 levels deep.''))"
proof -
  let ?db = "fold serve rs (empty_forum ps)"
  have "q \<in> set (fo_comments ?db)" using assms unfolding comment_of_def by (rule find_by_in)
  then obtain n where n: "level (fo_comments ?db) q n" "n \<le> MAX_REPLY_DEPTH"
    using served_ok unfolding thread_ok_def by blast
  then have "1 \<le> n" "n \<le> 3" using level_pos [of _ q n] by (auto simp: MAX_REPLY_DEPTH_def Suc_le_eq)
  then show ?thesis
    using n reply_accepted [OF n assms refl] by (auto simp: MAX_REPLY_DEPTH_def)
qed

lemma sample_served:
  "fo_comments (fold serve sample_requests (empty_forum [1])) =
    map (\<lambda>n. \<lparr>cm_id = n, cm_discussion = 7, cm_user = 10, cm_parent = (if n = 1 then None else Some (n - 1)),
      cm_body = ''hi'', cm_createdAt = int n\<rparr>) [1, 2, 3]"
  by code_simp

lemma replies_nest_three_levels_witness:
  "\<exists>n. level (fo_comments (fold serve sample_requests (empty_forum [1])))
     \<lparr>cm_id = 3, cm_discussion = 7, cm_user = 10, cm_parent = Some 2, cm_body = ''hi'', cm_createdAt = 3\<rparr> n \<and> 1 \<le> n \<and> n \<le> 3"
proof -
  have "comment_of 3 (fold serve sample_requests (empty_forum [1])) =
      Some \<lparr>cm_id = 3, cm_discussion = 7, cm_user = 10, cm_parent = Some 2, cm_body = ''hi'', cm_createdAt = 3\<rparr>"
    unfolding comment_of_def sample_served by simp
  from replies_nest_three_levels [OF this] show ?thesis by blast
qed

text \<open>
  A thread is shown whole. In the forum that any requests produce, whichever of their calls
  fail, the page of a thread shows the score, and the comments as the forest in which the replies
  of each comment are the thread's comments that name it, in the order of their time; and every
  comment of the thread is in that forest, once.
\<close>

theorem thread_is_shown_whole:
  assumes "discussion_of i (fold serve rs (empty_forum ps)) = Some d"
  shows "\<exists>rows forest.
    rows = sort_by (\<lambda>a b. cm_createdAt a \<le> cm_createdAt b)
      (filter (\<lambda>c. cm_discussion c = i) (fo_comments (fold serve rs (empty_forum ps)))) \<and>
    result (discussion_GET i) [] (fold serve rs (empty_forum ps)) =
      Inr (Reply 200 (d, thread_score (fold serve rs (empty_forum ps)) i, forest)) \<and>
    forest = forest_from 3 rows None \<and> mset (concat (map flatten forest)) = mset rows"
proof -
  let ?db = "fold serve rs (empty_forum ps)"
  let ?rows = "sort_by (\<lambda>a b. cm_createdAt a \<le> cm_createdAt b) (filter (\<lambda>c. cm_discussion c = i) (fo_comments ?db))"
  note ok = thread_rows_ok [OF served_ok, of i rs ps]
  have t: "buildCommentTree ?rows = forest_from 3 ?rows None"
    using tree_is_forest [OF ok] by (simp add: MAX_REPLY_DEPTH_def)
  have "mset (concat (map flatten (forest_from 3 ?rows None))) = mset ?rows"
    using forest_once [OF ok] by (simp add: MAX_REPLY_DEPTH_def)
  moreover have "result (discussion_GET i) [] ?db = Inr (Reply 200 (d, thread_score ?db i, buildCommentTree ?rows))"
    using assms by (simp add: discussion_GET_def result_def catch_def bind_def)
  ultimately show ?thesis unfolding t by blast
qed

lemma thread_is_shown_whole_witness:
  "\<exists>d forest. result (discussion_GET 7) [] (fold serve sample_requests (empty_forum [1])) = Inr (Reply 200 (d, 0, forest)) \<and>
    length (concat (map flatten forest)) = 3"
proof -
  have d: "discussion_of 7 (fold serve sample_requests (empty_forum [1])) =
      Some \<lparr>di_id = 7, di_problem = 1, di_user = 10, di_title = ''help'', di_body = ''?'', di_upvotes = 0, di_createdAt = 0, di_updatedAt = 0\<rparr>"
    by code_simp
  have s: "thread_score (fold serve sample_requests (empty_forum [1])) 7 = 0" by code_simp
  have "length (filter (\<lambda>c. cm_discussion c = 7) (fo_comments (fold serve sample_requests (empty_forum [1])))) = 3"
    unfolding sample_served by simp
  then show ?thesis using thread_is_shown_whole [OF d] s by (metis mset_sort_by size_mset)
qed

text \<open>
  The popular threads of a problem are not found. The first page of the hot list shows the
  newest threads, as many as the limit, whatever the votes; and no vote on a thread changes the
  list that is sorted by votes.
\<close>

theorem hot_and_top_ignore_votes:
  "\<exists>listed.
    result (discussions_GET (Some p) None rawLimit None now) [] db =
      Inr (Reply 200 (listed, length (filter (\<lambda>d. di_problem d = p) (fo_discussions db)), 1, limit_param 50 20 rawLimit, Hot)) \<and>
    mset (map fst listed) = mset (take (nat (limit_param 50 20 rawLimit))
      (sort_by (\<lambda>a b. di_createdAt b \<le> di_createdAt a) (filter (\<lambda>d. di_problem d = p) (fo_discussions db)))) \<and>
    fetch_threads p TopVoted page limit (after (thread_vote_POST session i body newId now) fs db) =
      fetch_threads p TopVoted page limit db"
  using hot_page [of p rawLimit now db] rows.moves_result [OF vote_keeps_rows, of db session i body newId now fs]
  by (simp add: keeps_rows_def fetch_threads_def)

end
