(* ===== verification/Submissions.thy ===== *)
theory Submissions
  imports WorkerQueue RateLimit Achievements
begin

section \<open>Submitting code\<close>

text \<open>
  \<^verbatim>\<open>src/app/api/submissions/route.ts\<close>, \<^verbatim>\<open>submissions/[id]/route.ts\<close> and
  \<^verbatim>\<open>src/app/api/run-code/route.ts\<close>. The submission handler is where the components meet: it
  creates the row, calls the judge or hands the row to the worker queue, and, when it judges itself,
  records the daily solve and evaluates the achievements. The state is one database seen by each
  component through its own tables: the submissions are those of the achievements' tables, the
  streaks those of the daily challenge. \<open>zoom\<close> runs a component's program on its view.
\<close>

subsection \<open>The whole site\<close>

record site =
  si_daily :: daily_db
  si_ach :: ach_db
  si_tests :: "(nat \<times> test_case list) list"
  si_problems :: "nat list"
  si_queue :: "(nat, unit) wq"
  si_limiter :: buckets

definition zoom :: "('s \<Rightarrow> 't) \<Rightarrow> ('t \<Rightarrow> 's \<Rightarrow> 's) \<Rightarrow> ('t, 'e, 'a) prog \<Rightarrow> ('s, 'e, 'a) prog" where
  "zoom view put m w = (case m (fst w, view (snd w)) of (r, (fs, t)) \<Rightarrow> (r, (fs, put t (snd w))))"

definition rows :: "site \<Rightarrow> submission list" where
  "rows s = ad_submissions (si_ach s)"

definition judge_view :: "site \<Rightarrow> judge_db" where
  "judge_view s = \<lparr>submissions = rows s, tests_of = si_tests s\<rparr>"

definition put_rows :: "submission list \<Rightarrow> site \<Rightarrow> site" where
  "put_rows rs s = s\<lparr>si_ach := (si_ach s)\<lparr>ad_submissions := rs\<rparr>\<rparr>"

definition ach_view :: "site \<Rightarrow> ach_db" where
  "ach_view s = (si_ach s)\<lparr>ad_streaks := streaks (si_daily s)\<rparr>"

definition judge_job :: "string \<Rightarrow> (judge_request \<Rightarrow> js_err + response) \<Rightarrow> nat \<Rightarrow> (site, job_error, unit) prog" where
  "judge_job url judge i = zoom judge_view (\<lambda>t. put_rows (submissions t)) (judge_submission url judge i)"

definition record_solve :: "nat \<Rightarrow> nat \<Rightarrow> int \<Rightarrow> (site, string, daily_outcome) prog" where
  "record_solve u p now = zoom si_daily (\<lambda>t s. s\<lparr>si_daily := t\<rparr>) (recordDailySolveIfApplicable u p now)"

definition evaluate_user :: "nat \<Rightarrow> int \<Rightarrow> (site, string, award list) prog" where
  "evaluate_user u now = zoom ach_view (\<lambda>t s. s\<lparr>si_ach := t\<rparr>) (evaluateAchievements u now)"

text \<open>\<^verbatim>\<open>enqueueJudgeSubmission\<close>\<close>

definition enqueueJudgeSubmission :: "nat \<Rightarrow> int \<Rightarrow> site \<Rightarrow> string \<times> site" where
  "enqueueJudgeSubmission i now s =
    (case enqueue ''judge-submission'' i now (si_queue s) of (j, q) \<Rightarrow> (j, s\<lparr>si_queue := q\<rparr>))"

subsection \<open>Validation\<close>

definition LANGUAGE_IDS :: "string list" where
  "LANGUAGE_IDS = [''python'', ''javascript'', ''typescript'', ''ruby'', ''php'', ''bash'', ''lua'', ''perl'', ''elixir'',
     ''go'', ''rust'', ''c'', ''cpp'', ''csharp'', ''d'', ''pascal'', ''fortran'',
     ''java'', ''kotlin'', ''scala'', ''groovy'', ''clojure'',
     ''haskell'', ''ocaml'', ''racket'', ''sbcl'', ''erlang'', ''fsharp'', ''sql'', ''r'', ''tcl'', ''awk'']"

text \<open>An issue is a field and its message; the message for a language that is not listed is a parameter.\<close>

definition languageEnum :: "string \<Rightarrow> string option \<Rightarrow> (string \<times> string) list" where
  "languageEnum msg l =
    (case l of None \<Rightarrow> [(''language'', ''Required'')]
     | Some x \<Rightarrow> if x \<in> set LANGUAGE_IDS then [] else [(''language'', msg)])"

record submit_body =
  su_code :: "string option"
  su_language :: "string option"
  su_problemId :: "nat option"

definition submitCodeSchema :: "string \<Rightarrow> submit_body \<Rightarrow> (string \<times> string) list" where
  "submitCodeSchema enumMsg b =
    (case su_code b of None \<Rightarrow> [(''code'', ''Required'')] | Some c \<Rightarrow> if c = [] then [(''code'', ''Code is required'')] else []) @
    languageEnum enumMsg (su_language b) @
    (case su_problemId b of None \<Rightarrow> [(''problemId'', ''Required'')] | Some p \<Rightarrow> [])"

definition issue_text :: "string \<times> string \<Rightarrow> string" where
  "issue_text i = (if str_includes (fst i) (snd i) then snd i else fst i @ '': '' @ snd i)"

subsection \<open>POST /api/submissions\<close>

definition syncFallbackEnabled :: "string option \<Rightarrow> string option \<Rightarrow> bool" where
  "syncFallbackEnabled explicit nodeEnv =
    (if explicit = Some ''true'' then True else if explicit = Some ''false'' then False else nodeEnv = Some ''test'')"

datatype site_error = DbFailed | JudgeFailed judge_error

definition sync_status :: "test_result list \<Rightarrow> string" where
  "sync_status rs =
    (let allPassed = list_all tr_passed rs; hasError = list_ex (\<lambda>r. truthy (tr_error r)) rs
     in if hasError \<and> \<not> allPassed then ''runtime_error''
        else if allPassed then ''accepted''
        else ''wrong_answer'')"

definition sync_row :: "nat \<Rightarrow> nat \<Rightarrow> nat \<Rightarrow> string \<Rightarrow> string \<Rightarrow> test_result list \<Rightarrow> submission" where
  "sync_row i u p language code rs =
    (let status = sync_status rs
     in \<lparr>sb_id = i, sb_user = u, sb_problem = p, sb_language = language, sb_code = code, sb_status = status,
         sb_runtime = Some (avg_runtime rs), sb_error = first_error rs,
         sb_output = (if status = ''accepted'' then None else first_output rs)\<rparr>)"

definition queued_row :: "nat \<Rightarrow> nat \<Rightarrow> nat \<Rightarrow> string \<Rightarrow> string \<Rightarrow> submission" where
  "queued_row i u p language code =
    \<lparr>sb_id = i, sb_user = u, sb_problem = p, sb_language = language, sb_code = code, sb_status = ''queued'',
     sb_runtime = None, sb_error = None, sb_output = None\<rparr>"

definition create_submission :: "submission \<Rightarrow> site \<Rightarrow> (site_error + submission) \<times> site" where
  "create_submission r s =
    (if sb_id r \<in> sb_id ` set (rows s) then (Inl DbFailed, s) else (Inr r, put_rows (rows s @ [r]) s))"

definition settle_accepted :: "nat \<Rightarrow> nat \<Rightarrow> int \<Rightarrow> (site, site_error, award list) prog" where
  "settle_accepted u p now =
    bind (catch (bind (record_solve u p now) (\<lambda>_. ret ())) (\<lambda>_. ret ())) (\<lambda>_.
    catch (evaluate_user u now) (\<lambda>_. ret []))"

type_synonym submit_reply = "(submission \<times> test_result list option \<times> award list) reply"

definition submit_sync ::
  "string \<Rightarrow> (judge_request \<Rightarrow> js_err + response) \<Rightarrow> nat \<Rightarrow> nat \<Rightarrow> string \<Rightarrow> string \<Rightarrow> test_case list \<Rightarrow> nat \<Rightarrow> int \<Rightarrow>
   (site, site_error, submit_reply) prog" where
  "submit_sync url judge u p language code tests newId now =
    (case executeCode url judge \<lparr>jr_code = code, jr_language = language,
        jr_tests = map (\<lambda>t. (tc_input t, tc_expected t)) tests\<rparr> of
       Inl e \<Rightarrow> throw (JudgeFailed e)
     | Inr (results, judgeStatus) \<Rightarrow>
         bind (call DbFailed (create_submission (sync_row newId u p language code results))) (\<lambda>submission.
         if sb_status submission = ''accepted'' then
           bind (settle_accepted u p now) (\<lambda>awarded. ret (Reply 201 (submission, Some results, awarded)))
         else ret (Reply 201 (submission, Some results, []))))"

definition submit_async ::
  "nat \<Rightarrow> nat \<Rightarrow> string \<Rightarrow> string \<Rightarrow> nat \<Rightarrow> int \<Rightarrow> (site, site_error, submit_reply) prog" where
  "submit_async u p language code newId now =
    bind (call DbFailed (create_submission (queued_row newId u p language code))) (\<lambda>submission.
    bind (state_op (enqueueJudgeSubmission (sb_id submission) now)) (\<lambda>_.
    ret (Reply 202 (submission, None, []))))"

definition submissions_POST ::
  "bool \<Rightarrow> string \<Rightarrow> string \<Rightarrow> (judge_request \<Rightarrow> js_err + response) \<Rightarrow> session option \<Rightarrow> submit_body option \<Rightarrow>
   nat \<Rightarrow> int \<Rightarrow> (site, site_error, submit_reply) prog" where
  "submissions_POST sync enumMsg url judge session body newId now =
    catch
      (case session of
         None \<Rightarrow> ret (Failed 401 ''Unauthorized'')
       | Some se \<Rightarrow>
           (case body of
              None \<Rightarrow> ret (Failed 400 ''Invalid JSON body'')
            | Some b \<Rightarrow>
                (case submitCodeSchema enumMsg b of
                   i # _ \<Rightarrow> ret (Failed 400 (issue_text i))
                 | [] \<Rightarrow>
                     (let p = the (su_problemId b); language = the (su_language b); code = the (su_code b)
                      in bind (query DbFailed (\<lambda>s. if p \<in> set (si_problems s) then Some (ordered_tests (judge_view s) p) else None)) (\<lambda>problem.
                         case problem of
                           None \<Rightarrow> ret (Failed 404 ''Problem not found'')
                         | Some tests \<Rightarrow>
                             if sync then submit_sync url judge (se_userId se) p language code tests newId now
                             else submit_async (se_userId se) p language code newId now)))))
      (\<lambda>e. case e of
         JudgeFailed (JudgeUnavailable msg) \<Rightarrow> ret (Failed 503 msg)
       | _ \<Rightarrow> ret (Failed 500 ''Internal server error''))"

subsection \<open>Reading submissions\<close>

text \<open>The columns of the list; the table is in the order of creation, the list in the reverse.\<close>

record listed_submission =
  ls_id :: nat
  ls_user :: nat
  ls_problem :: nat
  ls_language :: string
  ls_status :: string
  ls_runtime :: "int option"

definition listed_of :: "submission \<Rightarrow> listed_submission" where
  "listed_of r = \<lparr>ls_id = sb_id r, ls_user = sb_user r, ls_problem = sb_problem r, ls_language = sb_language r,
     ls_status = sb_status r, ls_runtime = sb_runtime r\<rparr>"

definition own_rows :: "nat \<Rightarrow> nat option \<Rightarrow> site \<Rightarrow> submission list" where
  "own_rows u problemId s =
    filter (\<lambda>r. sb_user r = u \<and> (case problemId of None \<Rightarrow> True | Some p \<Rightarrow> sb_problem r = p)) (rows s)"

definition submissions_GET ::
  "session option \<Rightarrow> nat option \<Rightarrow> string option \<Rightarrow> string option \<Rightarrow>
   (site, string, (listed_submission list \<times> nat \<times> int \<times> int) reply) prog" where
  "submissions_GET session problemId rawPage rawLimit =
    catch
      (case session of
         None \<Rightarrow> ret (Failed 401 ''Unauthorized'')
       | Some se \<Rightarrow>
           (let page = page_param rawPage; limit = limit_param 100 20 rawLimit
            in bind (query ''db'' (\<lambda>s. page_of page limit (map listed_of (rev (own_rows (se_userId se) problemId s))))) (\<lambda>items.
               bind (query ''db'' (\<lambda>s. length (own_rows (se_userId se) problemId s))) (\<lambda>total.
               ret (Reply 200 (items, total, page, limit))))))
      (\<lambda>_. ret (Failed 500 ''Internal server error''))"

definition submission_GET :: "session option \<Rightarrow> nat \<Rightarrow> (site, string, submission reply) prog" where
  "submission_GET session i =
    catch
      (case session of
         None \<Rightarrow> ret (Failed 401 ''Unauthorized'')
       | Some se \<Rightarrow>
           bind (query ''db'' (\<lambda>s. sub_find i (rows s))) (\<lambda>found.
             case found of
               None \<Rightarrow> ret (Failed 404 ''Submission not found'')
             | Some r \<Rightarrow>
                 if sb_user r \<noteq> se_userId se \<and> se_role se \<noteq> ''admin'' then ret (Failed 403 ''Forbidden'')
                 else ret (Reply 200 r)))
      (\<lambda>_. ret (Failed 500 ''Internal server error''))"

subsection \<open>POST /api/run-code\<close>

record run_body =
  rb_code :: "string option"
  rb_language :: "string option"
  rb_testCases :: "(string \<times> string) list option"

definition runCodeSchema :: "string \<Rightarrow> run_body \<Rightarrow> (string \<times> string) list" where
  "runCodeSchema enumMsg b =
    (case rb_code b of None \<Rightarrow> [(''code'', ''Required'')] | Some c \<Rightarrow> if c = [] then [(''code'', ''code is required'')] else []) @
    languageEnum enumMsg (rb_language b)"

definition run_limited :: "nat \<Rightarrow> int \<Rightarrow> site \<Rightarrow> rl_result \<times> site" where
  "run_limited u now s =
    (case rateLimit (''run-code:'' @ show_nat u) 10 60000 now (si_limiter s) of (r, b) \<Rightarrow> (r, s\<lparr>si_limiter := b\<rparr>))"

definition run_code_POST ::
  "string \<Rightarrow> string \<Rightarrow> (judge_request \<Rightarrow> js_err + response) \<Rightarrow> session option \<Rightarrow> run_body option \<Rightarrow> int \<Rightarrow>
   (site, string, test_result list reply) prog" where
  "run_code_POST enumMsg url judge session body now =
    (case session of
       None \<Rightarrow> ret (Failed 401 ''Unauthorized'')
     | Some se \<Rightarrow>
         bind (state_op (run_limited (se_userId se) now)) (\<lambda>limit.
         if \<not> allowed limit then ret (Failed 429 ''Rate limit exceeded. Slow down.'')
         else (case body of
           None \<Rightarrow> ret (Failed 400 ''Invalid JSON body'')
         | Some b \<Rightarrow>
             (case runCodeSchema enumMsg b of
                i # _ \<Rightarrow> ret (Failed 400 (issue_text i))
              | [] \<Rightarrow>
                  (let cases = (case rb_testCases b of None \<Rightarrow> [([], [])] | Some [] \<Rightarrow> [([], [])] | Some ts \<Rightarrow> ts)
                   in case executeCode url judge \<lparr>jr_code = the (rb_code b), jr_language = the (rb_language b), jr_tests = cases\<rparr> of
                        Inr (results, st) \<Rightarrow> ret (Reply 200 results)
                      | Inl (JudgeUnavailable msg) \<Rightarrow> ret (Failed 503 msg)
                      | Inl (Raised e) \<Rightarrow> ret (Failed 500 ''Internal server error''))))))"

subsection \<open>Views\<close>

lemma zoom_run: "m (fs, view s) = (r, (gs, t)) \<Longrightarrow> zoom view put m (fs, s) = (r, (gs, put t s))"
  by (simp add: zoom_def)

lemma moves_zoom:
  assumes "moves R m" "\<And>s t. R (view s) t \<Longrightarrow> Q s (put t s)"
  shows "moves Q (zoom view put m)"
  unfolding moves_def
proof (intro allI)
  fix fs s
  have "R (view s) (after m fs (view s))" using assms(1) by (simp add: moves_def)
  moreover have "after (zoom view put m) fs s = put (after m fs (view s)) s"
    by (simp add: after_def zoom_def split: prod.split)
  ultimately show "Q s (after (zoom view put m) fs s)" using assms(2) by simp
qed

lemma rows_put [simp]: "rows (put_rows rs s) = rs" "si_daily (put_rows rs s) = si_daily s"
  "ad_earned (si_ach (put_rows rs s)) = ad_earned (si_ach s)" "si_tests (put_rows rs s) = si_tests s"
  "si_problems (put_rows rs s) = si_problems s"
  by (simp_all add: rows_def put_rows_def)

definition same_rows :: "site \<Rightarrow> site \<Rightarrow> bool" where
  "same_rows s t \<longleftrightarrow> rows t = rows s"

interpretation keep_rows: evolution same_rows
  by unfold_locales (auto simp: same_rows_def)

lemma settle_keeps_rows: "moves same_rows (settle_accepted u p now)"
proof -
  have "moves (\<lambda>_ _. True) m" for m :: "(daily_db, string, daily_outcome) prog" by (simp add: moves_def)
  then have d: "moves same_rows (record_solve u p now)"
    unfolding record_solve_def by (rule moves_zoom) (simp add: same_rows_def rows_def)
  have e: "moves same_rows (evaluate_user u now)"
    unfolding evaluate_user_def
    by (rule moves_zoom [OF moves_evaluate]) (auto simp: same_rows_def rows_def ach_view_def ach_moves_def)
  show ?thesis unfolding settle_accepted_def by (intro keep_rows.moves_rules d e)
qed

lemma settle_total: "\<exists>aw gs t. settle_accepted u p now (fs, s) = (Inr aw, (gs, t)) \<and> rows t = rows s"
proof -
  obtain r gs t where r: "settle_accepted u p now (fs, s) = (r, (gs, t))" by (metis prod.exhaust)
  have "same_rows s t" using settle_keeps_rows r by (rule keep_rows.movesD)
  moreover have "\<exists>aw. r = Inr aw"
    using r by (auto simp: settle_accepted_def bind_def catch_def split: prod.splits sum.splits)
  ultimately show ?thesis using r by (auto simp: same_rows_def)
qed

lemma enqueue_rows [simp]: "rows (snd (enqueueJudgeSubmission i now s)) = rows s"
  "si_daily (snd (enqueueJudgeSubmission i now s)) = si_daily s"
  "si_ach (snd (enqueueJudgeSubmission i now s)) = si_ach s"
  "si_tests (snd (enqueueJudgeSubmission i now s)) = si_tests s"
  by (simp_all add: enqueueJudgeSubmission_def rows_def split: prod.split)

lemma create_submission_run:
  "call DbFailed (create_submission r) (fs, s) = (Inl DbFailed, (tl fs, s)) \<or>
   sb_id r \<notin> sb_id ` set (rows s) \<and> call DbFailed (create_submission r) (fs, s) = (Inr r, (tl fs, put_rows (rows s @ [r]) s))"
  by (auto simp: call_hd create_submission_def)

lemma submit_sync_run:
  "(\<exists>e gs. submit_sync url judge u p l c ts i now (fs, s) = (Inl e, (gs, s))) \<or>
   (\<exists>rs st aw gs t. executeCode url judge \<lparr>jr_code = c, jr_language = l, jr_tests = map (\<lambda>t. (tc_input t, tc_expected t)) ts\<rparr> = Inr (rs, st) \<and>
      i \<notin> sb_id ` set (rows s) \<and>
      submit_sync url judge u p l c ts i now (fs, s) = (Inr (Reply 201 (sync_row i u p l c rs, Some rs, aw)), (gs, t)) \<and>
      rows t = rows s @ [sync_row i u p l c rs])"
proof (cases "executeCode url judge \<lparr>jr_code = c, jr_language = l, jr_tests = map (\<lambda>t. (tc_input t, tc_expected t)) ts\<rparr>")
  case (Inl e)
  then show ?thesis by (simp add: submit_sync_def)
next
  case (Inr x)
  obtain rs st where x: "x = (rs, st)" by (cases x)
  let ?r = "sync_row i u p l c rs" and ?s = "put_rows (rows s @ [sync_row i u p l c rs]) s"
  have "sb_id ?r = i" by (simp add: sync_row_def Let_def)
  then consider (no) "call DbFailed (create_submission ?r) (fs, s) = (Inl DbFailed, (tl fs, s))"
    | (yes) "i \<notin> sb_id ` set (rows s)" "call DbFailed (create_submission ?r) (fs, s) = (Inr ?r, (tl fs, ?s))"
    using create_submission_run [of ?r fs s] by auto
  then show ?thesis
  proof cases
    case no
    then show ?thesis using Inr x by (simp add: submit_sync_def bind_def)
  next
    case yes
    obtain aw gs t where "settle_accepted u p now (tl fs, ?s) = (Inr aw, (gs, t))" "rows t = rows ?s"
      using settle_total by blast
    then show ?thesis using Inr x yes by (simp add: submit_sync_def bind_def)
  qed
qed

lemma submit_async_run:
  "(\<exists>e gs. submit_async u p l c i now (fs, s) = (Inl e, (gs, s))) \<or>
   (\<exists>gs. i \<notin> sb_id ` set (rows s) \<and> submit_async u p l c i now (fs, s) =
      (Inr (Reply 202 (queued_row i u p l c, None, [])),
       (gs, snd (enqueueJudgeSubmission i now (put_rows (rows s @ [queued_row i u p l c]) s)))))"
  using create_submission_run [of "queued_row i u p l c" fs s]
  by (auto simp: submit_async_def bind_def queued_row_def)

text \<open>The part of the handler after validation, once the problem is found.\<close>

definition submit_core where
  "submit_core sync url judge u b tests newId now =
    (if sync then submit_sync url judge u (the (su_problemId b)) (the (su_language b)) (the (su_code b)) tests newId now
     else submit_async u (the (su_problemId b)) (the (su_language b)) (the (su_code b)) newId now)"

definition submit_failure :: "site_error \<Rightarrow> submit_reply" where
  "submit_failure e = (case e of JudgeFailed (JudgeUnavailable msg) \<Rightarrow> Failed 503 msg | _ \<Rightarrow> Failed 500 ''Internal server error'')"

lemma submissions_POST_run:
  "(\<exists>n e gs. submissions_POST sync m url judge session body newId now (fs, s) = (Inr (Failed n e), (gs, s))) \<or>
   (\<exists>se b. session = Some se \<and> body = Some b \<and> submitCodeSchema m b = [] \<and> the (su_problemId b) \<in> set (si_problems s) \<and>
     submissions_POST sync m url judge session body newId now (fs, s) =
       (case submit_core sync url judge (se_userId se) b (ordered_tests (judge_view s) (the (su_problemId b))) newId now (tl fs, s) of
          (Inl e, w) \<Rightarrow> (Inr (submit_failure e), w) | (Inr r, w) \<Rightarrow> (Inr r, w)))"
proof (cases "session = None \<or> body = None \<or> submitCodeSchema m (the body) \<noteq> []")
  case True
  then show ?thesis
    by (auto simp: submissions_POST_def catch_def neq_Nil_conv split: option.split)
next
  case False
  then obtain se b where sb: "session = Some se" "body = Some b" "submitCodeSchema m b = []" by auto
  have h: "(case e of JudgeFailed (JudgeUnavailable msg) \<Rightarrow> ret (Failed 503 msg) | _ \<Rightarrow> ret (Failed 500 ''Internal server error'')) w =
      (Inr (submit_failure e), w)" for e and w :: "site world"
    by (simp add: submit_failure_def split: site_error.split judge_error.split)
  show ?thesis
    by (simp add: submissions_POST_def sb catch_def bind_def query_hd Let_def submit_core_def h split: sum.split prod.split)
qed

lemma submit_core_run:
  assumes "su_code b = Some c" "su_language b = Some l" "su_problemId b = Some p"
  shows "(\<exists>e gs. submit_core sync url judge u b ts i now (fs, s) = (Inl e, (gs, s))) \<or>
    (\<exists>row rs aw gs t. i \<notin> sb_id ` set (rows s) \<and> rows t = rows s @ [row] \<and>
      submit_core sync url judge u b ts i now (fs, s) =
        (Inr (if sync then Reply 201 (row, Some rs, aw) else Reply 202 (row, None, [])), (gs, t)) \<and>
      (if sync then (\<exists>st. executeCode url judge \<lparr>jr_code = c, jr_language = l, jr_tests = map (\<lambda>t. (tc_input t, tc_expected t)) ts\<rparr> = Inr (rs, st)) \<and>
           row = sync_row i u p l c rs
       else row = queued_row i u p l c))"
proof (cases sync)
  case True
  then show ?thesis
    using submit_sync_run [of url judge u p l c ts i now fs s] unfolding submit_core_def assms option.sel
    by (elim disjE exE conjE) (simp, fastforce)
next
  case False
  then show ?thesis
    using submit_async_run [of u p l c i now fs s] unfolding submit_core_def assms option.sel
    by (elim disjE exE conjE) (simp, fastforce)
qed

lemma failure_failed: "\<exists>n e'. submit_failure e = Failed n e'"
  by (simp add: submit_failure_def split: site_error.split judge_error.split)

lemma schema_fields:
  "submitCodeSchema m b = [] \<Longrightarrow> \<exists>c l p. su_code b = Some c \<and> su_language b = Some l \<and> su_problemId b = Some p"
  by (auto simp: submitCodeSchema_def languageEnum_def split: option.splits)

text \<open>The failure-free runs of the pieces.\<close>

lemma record_quiet: "fst (snd (recordDailySolveIfApplicable u p now ([], db))) = []"
  by (simp add: recordDailySolveIfApplicable_def record_matched_def bind_def Let_def split: option.split prod.split)

lemma settle_after:
  "after (settle_accepted u p now) [] s =
    (let s1 = s\<lparr>si_daily := after (recordDailySolveIfApplicable u p now) [] (si_daily s)\<rparr>
     in s1\<lparr>si_ach := after (evaluateAchievements u now) [] (ach_view s1)\<rparr>)"
proof -
  obtain r t where r: "recordDailySolveIfApplicable u p now ([], si_daily s) = (r, ([], t))"
    using record_quiet [of u p now "si_daily s"] by (metis prod.collapse)
  let ?s1 = "s\<lparr>si_daily := t\<rparr>"
  have rec: "record_solve u p now ([], s) = (r, ([], ?s1))" by (simp add: record_solve_def zoom_def r)
  obtain q gs t2 where q: "evaluateAchievements u now ([], ach_view ?s1) = (q, (gs, t2))" by (metis prod.exhaust)
  have ev: "evaluate_user u now ([], ?s1) = (q, (gs, ?s1\<lparr>si_ach := t2\<rparr>))" by (simp add: evaluate_user_def zoom_def q)
  show ?thesis
    by (cases r; cases q) (simp_all add: settle_accepted_def after_def bind_def catch_def rec ev r q)
qed

lemma accepted_rows:
  assumes "list_all tr_passed rs" "st \<notin> set trusted_judge_statuses"
  shows "sb_status (sync_row i u p l c rs) = ''accepted''" "tu_status (verdict rs st) = ''accepted''"
    "(queued_row i u p l c)\<lparr>sb_status := tu_status (verdict rs st), sb_runtime := tu_runtime (verdict rs st),
       sb_error := tu_error (verdict rs st), sb_output := tu_output (verdict rs st)\<rparr> = sync_row i u p l c rs"
  using assms by (simp_all add: sync_row_def queued_row_def sync_status_def verdict_def classify_def Let_def)

lemma put_terminal_last:
  assumes "i \<notin> sb_id ` set rs" "sb_id r = i"
  shows "submissions (put_terminal i v \<lparr>submissions = rs @ [r], tests_of = ts\<rparr>) =
    rs @ [r\<lparr>sb_status := tu_status v, sb_runtime := tu_runtime v, sb_error := tu_error v, sb_output := tu_output v\<rparr>]"
proof -
  have "map (\<lambda>x. if sb_id x = i then f x else x) rs = rs" for f :: "submission \<Rightarrow> submission"
    using assms(1) by (intro map_idI) auto
  then show ?thesis using assms(2) by (simp add: put_terminal_def sub_map_def)
qed

definition sample_site :: site where
  "sample_site = \<lparr>si_daily = \<lparr>challenges = [\<lparr>ch_id = 1, ch_date = 0, ch_problemId = 3, ch_completionCount = 4\<rparr>], streaks = [], cards = []\<rparr>,
     si_ach = sample_ach\<lparr>ad_submissions := []\<rparr>, si_tests = [], si_problems = [3], si_queue = new_queue None None, si_limiter = []\<rparr>"

definition sample_judge :: "judge_request \<Rightarrow> js_err + response" where
  "sample_judge r = Inr \<lparr>res_ok = True, res_status = 200, res_text = Some [], res_json = Inr (Some [], Some ''ok'')\<rparr>"

definition sample_submit :: submit_body where
  "sample_submit = \<lparr>su_code = Some ''print(1)'', su_language = Some ''python'', su_problemId = Some 3\<rparr>"

subsection \<open>Properties\<close>

text \<open>
  C14. A submission is stored once, or the caller is told. Whatever calls fail and whatever the
  judge answers: either no row is added and the reply is an error; or exactly one is, by the
  signed-in user, for the problem, language and code they sent, under a new id, and the reply
  carries it: with status 202 the row is queued, with status 201 it carries what the judge's
  results say. No other row is touched.
\<close>

theorem submission_is_stored_once:
  fixes s :: site
  shows "(rows (after (submissions_POST sync m url judge session body newId now) fs s) = rows s \<and>
      (\<exists>n e. result (submissions_POST sync m url judge session body newId now) fs s = Inr (Failed n e))) \<or>
    (\<exists>se b c l p row rs aw. session = Some se \<and> body = Some b \<and>
      su_code b = Some c \<and> su_language b = Some l \<and> l \<in> set LANGUAGE_IDS \<and> su_problemId b = Some p \<and> p \<in> set (si_problems s) \<and>
      newId \<notin> sb_id ` set (rows s) \<and>
      rows (after (submissions_POST sync m url judge session body newId now) fs s) = rows s @ [row] \<and>
      (if sync
       then (\<exists>st. executeCode url judge \<lparr>jr_code = c, jr_language = l,
             jr_tests = map (\<lambda>t. (tc_input t, tc_expected t)) (ordered_tests (judge_view s) p)\<rparr> = Inr (rs, st)) \<and>
           row = sync_row newId (se_userId se) p l c rs \<and>
           result (submissions_POST sync m url judge session body newId now) fs s = Inr (Reply 201 (row, Some rs, aw))
       else row = queued_row newId (se_userId se) p l c \<and>
           result (submissions_POST sync m url judge session body newId now) fs s = Inr (Reply 202 (row, None, []))))"
    (is "?fail \<or> ?stored")
proof -
  let ?P = "submissions_POST sync m url judge session body newId now"
  consider (refused) n e gs where "?P (fs, s) = (Inr (Failed n e), (gs, s))"
    | (core) se b where "session = Some se" "body = Some b" "submitCodeSchema m b = []" "the (su_problemId b) \<in> set (si_problems s)"
      "?P (fs, s) = (case submit_core sync url judge (se_userId se) b (ordered_tests (judge_view s) (the (su_problemId b))) newId now (tl fs, s) of
          (Inl e, w) \<Rightarrow> (Inr (submit_failure e), w) | (Inr r, w) \<Rightarrow> (Inr r, w))"
    using submissions_POST_run [of sync m url judge session body newId now fs s] by blast
  then show ?thesis
  proof cases
    case refused
    then have ?fail by (simp add: after_def result_def)
    then show ?thesis by (rule disjI1)
  next
    case core
    obtain c l p where f: "su_code b = Some c" "su_language b = Some l" "su_problemId b = Some p"
      using schema_fields [OF core(3)] by blast
    have lang: "l \<in> set LANGUAGE_IDS"
      using core(3) f(2) by (auto simp: submitCodeSchema_def languageEnum_def split: if_splits)
    note run = core(5) [unfolded f(3) option.sel]
    note fields = core(1,2) f lang core(4) [unfolded f(3) option.sel]
    let ?core = "submit_core sync url judge (se_userId se) b (ordered_tests (judge_view s) p) newId now (tl fs, s)"
    from submit_core_run [OF f, of sync url judge "se_userId se" "ordered_tests (judge_view s) p" newId now "tl fs" s]
    show ?thesis
    proof (elim disjE exE conjE)
      fix e gs assume "?core = (Inl e, (gs, s))"
      then have ?fail using run failure_failed [of e] by (simp add: after_def result_def)
      then show ?thesis by (rule disjI1)
    next
      fix row rs aw gs t
      assume h: "newId \<notin> sb_id ` set (rows s)" "rows t = rows s @ [row]"
        "?core = (Inr (if sync then Reply 201 (row, Some rs, aw) else Reply 202 (row, None, [])), (gs, t))"
        "if sync then (\<exists>st. executeCode url judge \<lparr>jr_code = c, jr_language = l,
             jr_tests = map (\<lambda>t. (tc_input t, tc_expected t)) (ordered_tests (judge_view s) p)\<rparr> = Inr (rs, st)) \<and>
           row = sync_row newId (se_userId se) p l c rs else row = queued_row newId (se_userId se) p l c"
      have "after ?P fs s = t" "result ?P fs s = Inr (if sync then Reply 201 (row, Some rs, aw) else Reply 202 (row, None, []))"
        using run h(3) by (simp_all add: after_def result_def)
      then show ?thesis using fields h(1,2,4) by (intro disjI2) (cases sync; simp; blast)
    qed
  qed
qed

text \<open>Failure-free runs of the two modes, and of the job.\<close>

lemma post_async_after:
  assumes "submitCodeSchema m b = []" "su_code b = Some c" "su_language b = Some l" "su_problemId b = Some p" "p \<in> set (si_problems s)"
    "newId \<notin> sb_id ` set (rows s)"
  shows "after (submissions_POST False m url judge (Some se) (Some b) newId now) [] s =
    snd (enqueueJudgeSubmission newId now (put_rows (rows s @ [queued_row newId (se_userId se) p l c]) s))"
  using assms
  by (simp add: submissions_POST_def after_def catch_def bind_def submit_async_def call_hd create_submission_def Let_def queued_row_def)

lemma post_sync_after:
  assumes "submitCodeSchema m b = []" "su_code b = Some c" "su_language b = Some l" "su_problemId b = Some p" "p \<in> set (si_problems s)"
    "newId \<notin> sb_id ` set (rows s)"
    "executeCode url judge \<lparr>jr_code = c, jr_language = l,
       jr_tests = map (\<lambda>t. (tc_input t, tc_expected t)) (ordered_tests (judge_view s) p)\<rparr> = Inr (rs, st)"
    "list_all tr_passed rs" "st \<notin> set trusted_judge_statuses"
  shows "after (submissions_POST True m url judge (Some se) (Some b) newId now) [] s =
    after (settle_accepted (se_userId se) p now) [] (put_rows (rows s @ [sync_row newId (se_userId se) p l c rs]) s)"
proof -
  let ?row = "sync_row newId (se_userId se) p l c rs"
  have i: "sb_id ?row = newId" by (simp add: sync_row_def Let_def)
  obtain aw gs t where t: "settle_accepted (se_userId se) p now ([], put_rows (rows s @ [?row]) s) = (Inr aw, (gs, t))"
    using settle_total by blast
  show ?thesis
    using assms(1-7) accepted_rows(1) [OF assms(8,9)] i t
    by (simp add: submissions_POST_def after_def catch_def bind_def submit_sync_def call_hd create_submission_def Let_def)
qed

lemma job_after:
  fixes u p :: nat and l c :: string and now :: int
  assumes "distinct (map sb_id (rows s))" "newId \<notin> sb_id ` set (rows s)"
    "executeCode url judge \<lparr>jr_code = c, jr_language = l,
       jr_tests = map (\<lambda>t. (tc_input t, tc_expected t)) (ordered_tests (judge_view s) p)\<rparr> = Inr (rs, st)"
    "list_all tr_passed rs" "st \<notin> set trusted_judge_statuses"
  defines "q \<equiv> snd (enqueueJudgeSubmission newId now (put_rows (rows s @ [queued_row newId u p l c]) s))"
  shows "rows (after (judge_job url judge newId) [] q) = rows s @ [sync_row newId u p l c rs] \<and>
    si_daily (after (judge_job url judge newId) [] q) = si_daily s \<and>
    ad_earned (si_ach (after (judge_job url judge newId) [] q)) = ad_earned (si_ach s)"
proof -
  let ?q = "queued_row newId u p l c"
  have view: "judge_view q = \<lparr>submissions = rows s @ [?q], tests_of = si_tests s\<rparr>"
    by (simp add: q_def judge_view_def)
  have id: "sb_id ?q = newId" "sb_status ?q = ''queued''" "sb_problem ?q = p" by (simp_all add: queued_row_def)
  have ok: "ids_ok (judge_view q)" using assms(1,2) id by (simp add: ids_ok_def view)
  have f: "sub_find newId (submissions (judge_view q)) = Some ?q"
    using assms(2) id by (simp add: view sub_find_append sub_find_None [THEN iffD2])
  have req: "request_of ?q (ordered_tests (judge_view q) (sb_problem ?q)) = \<lparr>jr_code = c, jr_language = l,
       jr_tests = map (\<lambda>t. (tc_input t, tc_expected t)) (ordered_tests (judge_view s) p)\<rparr>"
    by (simp add: request_of_def id view judge_view_def ordered_tests_def) (simp add: queued_row_def q_def)
  have run: "judge_submission url judge newId ([], judge_view q) = (Inr (), ([], put_terminal newId (verdict rs st) (judge_view q)))"
    using judged_run [OF ok f id(2), of url judge rs st] assms(3) by (simp add: req)
  have last: "submissions (put_terminal newId (verdict rs st) (judge_view q)) = rows s @ [sync_row newId u p l c rs]"
    unfolding view put_terminal_last [OF assms(2) id(1)] using accepted_rows(3) [OF assms(4,5)] by simp
  have "after (judge_job url judge newId) [] q = put_rows (rows s @ [sync_row newId u p l c rs]) q"
    by (simp add: after_def judge_job_def zoom_def run last)
  then show ?thesis by (simp add: q_def)
qed

text \<open>
  What the queue judges counts for nothing. For a submission that the judge passes, the two
  modes end in the same accepted row; but only the synchronous one, which is not the default,
  records the daily solve and evaluates the achievements. After the queued submission has been
  judged, the streaks, the challenge and the badges are what they were before it was sent.
\<close>

theorem queued_solve_counts_for_nothing:
  fixes se :: session and now :: int
  assumes "submitCodeSchema m b = []" "su_code b = Some c" "su_language b = Some l" "su_problemId b = Some p" "p \<in> set (si_problems s)"
    "distinct (map sb_id (rows s))" "newId \<notin> sb_id ` set (rows s)"
    "executeCode url judge \<lparr>jr_code = c, jr_language = l,
       jr_tests = map (\<lambda>t. (tc_input t, tc_expected t)) (ordered_tests (judge_view s) p)\<rparr> = Inr (rs, st)"
    "list_all tr_passed rs" "st \<notin> set trusted_judge_statuses"
  defines "row \<equiv> sync_row newId (se_userId se) p l c rs"
  defines "queued \<equiv> after (submissions_POST False m url judge (Some se) (Some b) newId now) [] s"
  defines "judged \<equiv> after (judge_job url judge newId) [] queued"
  defines "direct \<equiv> after (submissions_POST True m url judge (Some se) (Some b) newId now) [] s"
  shows "sb_status row = ''accepted'' \<and> rows judged = rows s @ [row] \<and> rows direct = rows s @ [row] \<and>
    si_daily judged = si_daily s \<and> ad_earned (si_ach judged) = ad_earned (si_ach s) \<and>
    si_daily direct = after (recordDailySolveIfApplicable (se_userId se) p now) [] (si_daily s) \<and>
    si_ach direct = after (evaluateAchievements (se_userId se) now) []
      ((si_ach s)\<lparr>ad_submissions := rows s @ [row], ad_streaks := streaks (si_daily direct)\<rparr>)"
proof -
  have acc: "sb_status row = ''accepted''" unfolding row_def using assms(9,10) by (rule accepted_rows)
  have q: "queued = snd (enqueueJudgeSubmission newId now (put_rows (rows s @ [queued_row newId (se_userId se) p l c]) s))"
    unfolding queued_def using assms(1-5,7) by (rule post_async_after)
  have j: "rows judged = rows s @ [row] \<and> si_daily judged = si_daily s \<and> ad_earned (si_ach judged) = ad_earned (si_ach s)"
    using job_after [OF assms(6-10), where u = "se_userId se" and now = now] unfolding judged_def q row_def by simp
  have d: "direct = after (settle_accepted (se_userId se) p now) [] (put_rows (rows s @ [row]) s)"
    unfolding direct_def row_def using assms(1-5,7-10) by (rule post_sync_after)
  have "rows direct = rows s @ [row]"
    using keep_rows.moves_result [OF settle_keeps_rows, of _ "se_userId se" p now "[]"] unfolding d by (simp add: same_rows_def)
  then show ?thesis using acc j unfolding d settle_after by (simp add: Let_def ach_view_def put_rows_def)
qed

lemma queued_solve_counts_for_nothing_witness:
  "let s = after (judge_job ''u'' sample_judge 7) []
     (after (submissions_POST False [] ''u'' sample_judge (Some \<lparr>se_userId = 1, se_role = ''user''\<rparr>) (Some sample_submit) 7 50) [] sample_site)
   in map sb_status (rows s) = [''accepted''] \<and> streaks (si_daily s) = [] \<and> ad_earned (si_ach s) = []"
proof -
  have v: "submitCodeSchema [] sample_submit = []" "su_code sample_submit = Some ''print(1)''"
    "su_language sample_submit = Some ''python''" "su_problemId sample_submit = Some 3"
    by (simp_all add: sample_submit_def submitCodeSchema_def languageEnum_def LANGUAGE_IDS_def)
  have r: "rows sample_site = []" "3 \<in> set (si_problems sample_site)" "ad_earned (si_ach sample_site) = []"
    "streaks (si_daily sample_site) = []" by (simp_all add: sample_site_def rows_def sample_ach_def)
  have e: "executeCode ''u'' sample_judge x = Inr ([], ''ok'')" for x by (simp add: executeCode_def sample_judge_def Let_def)
  have "''ok'' \<notin> set trusted_judge_statuses" by (simp add: trusted_judge_statuses_def)
  from queued_solve_counts_for_nothing [OF v r(2) _ _ e _ this, of 7 "\<lparr>se_userId = 1, se_role = ''user''\<rparr>" 50] r
  show ?thesis by (simp add: Let_def)
qed

end
