(* ===== verification/CachedRoutes.thy ===== *)
theory CachedRoutes
  imports TtlCache Effects
begin

section \<open>Loaders behind the cache\<close>

text \<open>
  \<^verbatim>\<open>cache.remember(key, ttl, loader)\<close> as the routes use it: a request that finds a live entry
  answers with it, another runs the loader, whose calls may fail, and stores what it returns. The
  request is seen alone here; requests that join a loader in flight are the steps of TtlCache,
  and the last lemma says that the two agree. \<open>view\<close> and \<open>put\<close> give the cache its place in the
  state of a component.
\<close>

definition remember ::
  "('s \<Rightarrow> 'v cache) \<Rightarrow> ('v cache \<Rightarrow> 's \<Rightarrow> 's) \<Rightarrow> string \<Rightarrow> int \<Rightarrow> int \<Rightarrow> ('s, 'e, 'v) prog \<Rightarrow> ('s, 'e, 'v) prog" where
  "remember view put key ttl now loader =
    bind (state_op (\<lambda>s. case cache_get key now (view s) of (v, c) \<Rightarrow> (v, put c s))) (\<lambda>cached.
    case cached of
      Some v \<Rightarrow> ret v
    | None \<Rightarrow> bind loader (\<lambda>v. bind (state_op (\<lambda>s. ((), put (cache_set key v ttl now (view s)) s))) (\<lambda>_. ret v)))"

lemma get_after_set: "0 \<le> ttl \<Longrightarrow> now \<le> t \<Longrightarrow> t \<le> now + ttl \<Longrightarrow> fst (cache_get k t (cache_set k v ttl now c)) = Some v"
  by (simp add: cache_get_def cache_set_def Let_def jm_get_set)

lemma get_hit_again:
  assumes "fst (cache_get k t c) = Some v" "t \<le> t'" "fst (cache_get k t' c) \<noteq> None"
  shows "fst (cache_get k t' (snd (cache_get k t c))) = Some v"
  using assms by (auto simp: cache_get_def jm_get_set jm_get_delete split: option.splits if_splits)

text \<open>The contract of a view: reading back what was put.\<close>

locale cached_part =
  fixes view :: "'s \<Rightarrow> 'v cache" and put :: "'v cache \<Rightarrow> 's \<Rightarrow> 's"
  assumes view_put: "view (put c s) = c"
begin

lemma remember_hit:
  assumes "fst (cache_get key now (view s)) = Some v"
  shows "remember view put key ttl now loader (fs, s) = (Inr v, (fs, put (snd (cache_get key now (view s))) s))"
  using assms by (cases "cache_get key now (view s)") (simp add: remember_def bind_def)

lemma remember_miss:
  assumes "fst (cache_get key now (view s)) = None"
  shows "remember view put key ttl now loader (fs, s) =
    (case loader (fs, put (snd (cache_get key now (view s))) s) of
       (Inl e, w) \<Rightarrow> (Inl e, w)
     | (Inr v, (gs, t)) \<Rightarrow> (Inr v, (gs, put (cache_set key v ttl now (view t)) t)))"
  using assms by (cases "cache_get key now (view s)") (simp add: remember_def bind_def split: prod.split sum.split)

text \<open>A failed loader stores nothing, and what a loader returned is served until its time is over.\<close>

lemma served_for_ttl:
  assumes "fst (cache_get key now (view s)) = None" "remember view put key ttl now loader (fs, s) = (Inr v, (gs, t))"
    and "0 \<le> ttl" "now \<le> later" "later \<le> now + ttl"
  shows "fst (remember view put key ttl' later loader' (gs', t)) = Inr v"
proof -
  obtain w where "view t = cache_set key v ttl now (view w)"
    using assms(2) unfolding remember_miss [OF assms(1)] by (auto simp: view_put split: sum.splits prod.splits)
  then have "fst (cache_get key later (view t)) = Some v" using assms(3-5) by (simp add: get_after_set)
  then show ?thesis by (simp add: remember_hit)
qed

text \<open>A loader that is one query.\<close>

lemma remember_query:
  assumes "remember view put key ttl now (query e f) (fs, s) = (r, (gs, t))"
    and "\<And>c. f (put c s) = f s" "\<And>c c'. put c (put c' s) = put c s"
  defines "c \<equiv> snd (cache_get key now (view s))"
  shows "(\<exists>v. r = Inr v \<and> fst (cache_get key now (view s)) = Some v \<and> t = put c s) \<or> (r = Inl e \<and> t = put c s) \<or>
    (r = Inr (f s) \<and> t = put (cache_set key (f s) ttl now c) s)"
proof (cases "fst (cache_get key now (view s))")
  case None
  then show ?thesis
    using assms(1) unfolding remember_miss [OF None] c_def by (auto simp: query_hd assms(2,3) view_put split: if_splits)
qed (use assms(1) in \<open>auto simp: remember_hit c_def\<close>)

lemma remember_fails:
  "remember view put key ttl now loader (fs, s) = (Inl e, w) \<Longrightarrow>
    \<exists>c. loader (fs, put c s) = (Inl e, w)"
  unfolding remember_def bind_def
  by (auto split: prod.splits sum.splits option.splits)

end

text \<open>
  The request of this theory is a call of \<^verbatim>\<open>remember\<close> of TtlCache that starts its loader,
  followed at once by the two callbacks of the loader's promise.
\<close>

lemma remember_is_start_and_settle:
  assumes "cache_remember key ttl now c = (Started p, c1)" "l = last (loads c1)" "cache_inflight c = []" "loads c = []"
  shows "load_finally (l\<lparr>ld_phase := Settled\<rparr>) (load_resolved l v now c1) =
    (cache_set key v ttl now (snd (cache_get key now c)))\<lparr>next_promise := next_promise c + 1\<rparr>"
proof -
  obtain c0 where g: "cache_get key now c = (None, c0)"
    using assms(1) by (cases "cache_get key now c"; cases "fst (cache_get key now c)") (auto simp: cache_remember_def)
  have f: "cache_inflight c0 = []" "loads c0 = []" "next_promise c0 = next_promise c"
    using g assms(3,4) by (auto simp: cache_get_def split: option.splits if_splits)
  have c1: "c1 = c0\<lparr>next_promise := next_promise c0 + 1,
      loads := [\<lparr>ld_promise = next_promise c0, ld_key = key, ld_ttl = ttl, ld_phase = Loading\<rparr>],
      cache_inflight := [(key, next_promise c0)]\<rparr>"
    using assms(1) f by (auto simp: cache_remember_def g Let_def)
  show ?thesis
    using assms(2) f
    by (simp add: c1 g load_finally_def load_resolved_def cache_set_def settle_def jm_delete_def Let_def)
qed


text \<open>What all entries of a cache have in common survives its operations.\<close>

definition entries_all :: "(string \<Rightarrow> 'v entry \<Rightarrow> bool) \<Rightarrow> 'v cache \<Rightarrow> bool" where
  "entries_all P c \<longleftrightarrow> (\<forall>k e. jm_get (store c) k = Some e \<longrightarrow> P k e)"

lemma entries_all_new [simp]: "entries_all P (new_cache m)"
  by (simp add: entries_all_def new_cache_def)

lemma entries_all_get: "entries_all P c \<Longrightarrow> entries_all P (snd (cache_get k now c))"
  by (auto simp: entries_all_def cache_get_def jm_get_set jm_get_delete split: option.split)

lemma entries_all_hit:
  assumes "entries_all P c" "fst (cache_get k now c) = Some v"
  shows "\<exists>e. P k e \<and> entry_value e = v \<and> now \<le> expiresAt e"
proof -
  obtain e where e: "jm_get (store c) k = Some e"
    using assms(2) by (cases "jm_get (store c) k") (simp_all add: cache_get_def)
  then have "entry_value e = v \<and> now \<le> expiresAt e"
    using assms(2) by (cases "expiresAt e < now") (simp_all add: cache_get_def)
  moreover have "P k e" using assms(1) e by (simp add: entries_all_def)
  ultimately show ?thesis by blast
qed

lemma get_evict: "jm_get (evict m) j = Some e \<Longrightarrow> jm_get m j = Some e"
  by (cases "jm_keys m") (simp_all add: evict_def jm_get_delete split: if_splits)

lemma entries_all_set:
  assumes "entries_all P c" "P k \<lparr>entry_value = v, expiresAt = now + ttl\<rparr>"
  shows "entries_all P (cache_set k v ttl now c)"
  unfolding entries_all_def
proof (intro allI impI)
  fix j e
  assume "jm_get (store (cache_set k v ttl now c)) j = Some e"
  then have "(if j = k then e = \<lparr>entry_value = v, expiresAt = now + ttl\<rparr> else jm_get (store c) j = Some e)"
    by (cases "j = k") (auto simp: cache_set_def Let_def jm_get_set dest: get_evict split: if_splits)
  then show "P j e" using assms by (cases "j = k") (simp_all add: entries_all_def)
qed

lemma entries_all_delete:
  assumes "entries_all P c" "\<And>j e. P j e \<Longrightarrow> j \<noteq> k \<Longrightarrow> Q j e"
  shows "entries_all Q (cache_delete k c)"
  using assms by (auto simp: entries_all_def cache_delete_def jm_get_delete split: if_splits)

lemma entries_all_mono: "entries_all P c \<Longrightarrow> (\<And>k e. P k e \<Longrightarrow> Q k e) \<Longrightarrow> entries_all Q c"
  by (auto simp: entries_all_def)

end
