(* ===== verification/Guards.thy ===== *)
theory Guards
  imports RateLimit CachedRoutes
begin

section \<open>Guards in front of the handlers\<close>

text \<open>
  What the routes put before their work: the in-memory rate limiter on its place in the state of a
  component, and \<^verbatim>\<open>requireAdmin\<close> of \<^verbatim>\<open>src/lib/admin-guard.ts\<close>. \<open>view\<close> and \<open>put\<close> say where a
  component keeps the buckets; the locale is their contract.
\<close>

definition limited_in ::
  "('s \<Rightarrow> buckets) \<Rightarrow> (buckets \<Rightarrow> 's \<Rightarrow> 's) \<Rightarrow> string \<Rightarrow> int \<Rightarrow> int \<Rightarrow> int \<Rightarrow> ('s, 'e, rl_result) prog" where
  "limited_in view put key mx windowMs now =
    state_op (\<lambda>s. case rateLimit key mx windowMs now (view s) of (r, b) \<Rightarrow> (r, put b s))"

text \<open>The gate gives the status and the message of a refusal, or the session.\<close>

definition admin_gate ::
  "('s \<Rightarrow> buckets) \<Rightarrow> (buckets \<Rightarrow> 's \<Rightarrow> 's) \<Rightarrow> session option \<Rightarrow> int \<Rightarrow> ('s, 'e, (nat \<times> string) + session) prog" where
  "admin_gate view put session now =
    (case session of
       None \<Rightarrow> ret (Inl (401, ''Unauthorized''))
     | Some se \<Rightarrow>
         if se_role se \<noteq> ''admin'' then ret (Inl (403, ''Forbidden''))
         else bind (limited_in view put (''admin:'' @ show_nat (se_userId se)) 60 60000 now) (\<lambda>limit.
           if \<not> allowed limit then ret (Inl (429, ''Too many admin actions. Slow down.''))
           else ret (Inr se)))"

definition guarded ::
  "('s \<Rightarrow> buckets) \<Rightarrow> (buckets \<Rightarrow> 's \<Rightarrow> 's) \<Rightarrow> session option \<Rightarrow> int \<Rightarrow>
   (session \<Rightarrow> ('s, 'e, 'b reply) prog) \<Rightarrow> ('s, 'e, 'b reply) prog" where
  "guarded view put session now k =
    bind (admin_gate view put session now) (\<lambda>gate.
    case gate of Inl (n, msg) \<Rightarrow> ret (Failed n msg) | Inr se \<Rightarrow> k se)"

locale limiter_part =
  fixes view :: "'s \<Rightarrow> buckets" and put :: "buckets \<Rightarrow> 's \<Rightarrow> 's"
  assumes view_put: "view (put b s) = b"
begin

lemma limited_run: "limited_in view put key mx d now (fs, s) =
    (Inr (fst (memoryCheck key mx d now (view s))), (fs, put (snd (memoryCheck key mx d now (view s))) s))"
  by (simp add: limited_in_def rateLimit_def split: prod.split)

lemma after_limited: "after (bind (limited_in view put key mx d now) k) fs s =
    after (k (fst (memoryCheck key mx d now (view s)))) fs (put (snd (memoryCheck key mx d now (view s))) s)"
  by (simp add: after_bind limited_run)

text \<open>Behind the gate stands an admin; whoever is refused is told so and changes only the buckets.\<close>

lemma guarded_run:
  "(\<exists>n msg. guarded view put session now k (fs, s) = (Inr (Failed n msg), (fs, s)) \<and> n \<in> {401, 403}) \<or>
   (\<exists>msg b. guarded view put session now k (fs, s) = (Inr (Failed 429 msg), (fs, put b s))) \<or>
   (\<exists>se b. session = Some se \<and> se_role se = ''admin'' \<and>
      guarded view put session now k (fs, s) = k se (fs, put b s))"
proof (cases session)
  case None
  then show ?thesis by (auto simp: guarded_def admin_gate_def bind_def)
next
  case (Some se)
  show ?thesis
  proof (cases "se_role se = ''admin''")
    case True
    then show ?thesis
      by (cases "allowed (fst (memoryCheck (''admin:'' @ show_nat (se_userId se)) 60 60000 now (view s)))")
        (auto simp: guarded_def admin_gate_def bind_def limited_run Some)
  qed (auto simp: guarded_def admin_gate_def bind_def Some)
qed

text \<open>What the gate lets through moves the state as what stands behind it does for an admin.\<close>

lemma guarded_moves:
  assumes "evolution R" "\<And>b s. R s (put b s)"
    and "\<And>se. session = Some se \<Longrightarrow> se_role se = ''admin'' \<Longrightarrow> moves R (k se)"
  shows "moves R (guarded view put session now k)"
proof (rule evolution.movesI [OF assms(1)])
  fix fs s r gs t
  assume g: "guarded view put session now k (fs, s) = (r, (gs, t))"
  have "R s s" using assms(1) by (rule evolution.refl)
  moreover have "R s t" if "session = Some se" "se_role se = ''admin''" "k se (fs, put b s) = (r, (gs, t))" for se b
    using evolution.trans [OF assms(1,2)] evolution.movesD [OF assms(1) assms(3) [OF that(1,2)] that(3)] .
  ultimately show "R s t"
    using guarded_run [of session now k fs s] g assms(2) by auto
qed

lemma guarded_refused:
  assumes "\<not> (\<exists>se. session = Some se \<and> se_role se = ''admin'')"
  shows "\<exists>b. after (guarded view put session now k) fs s \<in> {s, put b s}"
  using guarded_run [of session now k fs s] assms by (auto simp: after_def)

lemma guarded_admits:
  assumes "se_role se = ''admin''" "allowed (fst (memoryCheck (''admin:'' @ show_nat (se_userId se)) 60 60000 now (view s)))"
  shows "guarded view put (Some se) now k (fs, s) =
    k se (fs, put (snd (memoryCheck (''admin:'' @ show_nat (se_userId se)) 60 60000 now (view s))) s)"
  using assms by (simp add: guarded_def admin_gate_def bind_def limited_run)

end

end
