(* ===== verification/Analytics.thy ===== *)
theory Analytics
  imports CachedRoutes Judge
begin

section \<open>Runtime statistics\<close>

text \<open>
  \<^verbatim>\<open>src/lib/analytics-helpers.ts\<close> and its route \<^verbatim>\<open>submissions/[id]/percentile/route.ts\<close>: the share
  of runtimes a submission beats, the histogram of the runtimes and the bar that is highlighted in
  it. A JavaScript number is a real number or one that is not finite.
\<close>

datatype js_number = Finite real | NonFinite

fun usable :: "js_number \<Rightarrow> bool" where
  "usable (Finite x) = (0 \<le> x)"
| "usable NonFinite = False"

fun real_of_number :: "js_number \<Rightarrow> real" where
  "real_of_number (Finite x) = x"
| "real_of_number NonFinite = 0"

subsection \<open>The percentile\<close>

fun count_beaten :: "real \<Rightarrow> js_number list \<Rightarrow> nat \<times> nat \<Rightarrow> nat \<times> nat" where
  "count_beaten x [] (beaten, n) = (beaten, n)"
| "count_beaten x (r # rs) (beaten, n) =
    (if usable r then count_beaten x rs (if real_of_number r > x then beaten + 1 else beaten, n + 1)
     else count_beaten x rs (beaten, n))"

definition computePercentile :: "js_number \<Rightarrow> js_number list \<Rightarrow> real" where
  "computePercentile runtime allRuntimes =
    (if allRuntimes = [] then 0
     else if \<not> usable runtime then 0
     else case count_beaten (real_of_number runtime) allRuntimes (0, 0) of (beaten, n) \<Rightarrow>
       if n = 0 then 0
       else let pct = real beaten / real n * 100 in of_int (js_round (pct * 10)) / 10)"

subsection \<open>The histogram\<close>

record bucket =
  bk_min :: real
  bk_max :: real
  bk_bucket :: nat
  bk_count :: nat

definition valid_runtimes :: "js_number list \<Rightarrow> real list" where
  "valid_runtimes rs = map real_of_number (filter usable rs)"

definition bucket_of :: "real \<Rightarrow> real \<Rightarrow> nat \<Rightarrow> real \<Rightarrow> nat" where
  "bucket_of mn width n r =
    (let idx = \<lfloor>(r - mn) / width\<rfloor>;
         idx = (if idx \<ge> int n then int n - 1 else idx);
         idx = (if idx < 0 then 0 else idx)
     in nat idx)"

fun count_buckets :: "(real \<Rightarrow> nat) \<Rightarrow> real list \<Rightarrow> nat list \<Rightarrow> nat list" where
  "count_buckets f [] counts = counts"
| "count_buckets f (r # rs) counts = count_buckets f rs (counts[f r := counts ! f r + 1])"

definition runtimeDistribution :: "js_number list \<Rightarrow> real \<Rightarrow> bucket list" where
  "runtimeDistribution runtimes buckets =
    (let n = nat (max 1 \<lfloor>buckets\<rfloor>);
         valid = valid_runtimes runtimes
     in if valid = [] then map (\<lambda>i. \<lparr>bk_min = 0, bk_max = 0, bk_bucket = i, bk_count = 0\<rparr>) [0..<n]
        else let mn = Min (set valid); mx = Max (set valid)
        in if mn = mx then
             map (\<lambda>i. \<lparr>bk_min = mn, bk_max = mx, bk_bucket = i, bk_count = (if i = 0 then length valid else 0)\<rparr>) [0..<n]
           else let width = (mx - mn) / real n;
                    counts = count_buckets (bucket_of mn width n) valid (replicate n 0)
           in map (\<lambda>i. \<lparr>bk_min = mn + width * real i,
                bk_max = (if i = n - 1 then mx else mn + width * real (i + 1)),
                bk_bucket = i, bk_count = counts ! i\<rparr>) [0..<n])"

fun find_bucket :: "real \<Rightarrow> nat \<Rightarrow> bucket list \<Rightarrow> int" where
  "find_bucket x i [] = - 1"
| "find_bucket x i (b # bs) =
    (if x \<ge> bk_min b \<and> (if bs = [] then x \<le> bk_max b else x < bk_max b) then int i
     else find_bucket x (i + 1) bs)"

definition bucketIndexFor :: "js_number \<Rightarrow> bucket list \<Rightarrow> int" where
  "bucketIndexFor runtime distribution =
    (if \<not> usable runtime then - 1
     else if distribution = [] then - 1
     else find_bucket (real_of_number runtime) 0 distribution)"

subsection \<open>The route\<close>

text \<open>
  The statistics of an accepted submission against its peers: the accepted submissions to the same
  problem in the same language, by ascending runtime, at most \<open>MAX_POPULATION\<close> of them. The answer
  is cached for a minute under the submission's id. The column \<^verbatim>\<open>runtime\<close> is an integer or null.
\<close>

definition TTL_MS :: int where "TTL_MS = 60000"
definition MAX_BUCKETS :: real where "MAX_BUCKETS = 20"
definition MAX_POPULATION :: nat where "MAX_POPULATION = 5000"

record percentile_payload =
  pp_percentile :: real
  pp_runtime :: int
  pp_language :: string
  pp_totalSubmissions :: nat
  pp_runtimes :: "js_number list"
  pp_distribution :: "bucket list"

record stats_db =
  st_subs :: "submission list"
  st_cache :: "percentile_payload cache"

definition peers_of :: "nat \<Rightarrow> string \<Rightarrow> stats_db \<Rightarrow> int list" where
  "peers_of p language db =
    take MAX_POPULATION (sort_by (\<le>) (map (the \<circ> sb_runtime)
      (filter (\<lambda>r. sb_problem r = p \<and> sb_language r = language \<and> sb_status r = ''accepted'' \<and> sb_runtime r \<noteq> None)
        (st_subs db))))"

definition payload_of :: "submission \<Rightarrow> int \<Rightarrow> int list \<Rightarrow> percentile_payload" where
  "payload_of sub runtime peers =
    (let runtimes = map (\<lambda>r. Finite (of_int r)) peers
     in \<lparr>pp_percentile = computePercentile (Finite (of_int runtime)) runtimes, pp_runtime = runtime,
         pp_language = sb_language sub, pp_totalSubmissions = length runtimes, pp_runtimes = runtimes,
         pp_distribution = runtimeDistribution runtimes MAX_BUCKETS\<rparr>)"

definition percentile_key :: "nat \<Rightarrow> string" where
  "percentile_key i = ''submission:percentile:'' @ show_nat i"

definition percentile_GET :: "session option \<Rightarrow> nat \<Rightarrow> int \<Rightarrow> (stats_db, string, percentile_payload reply) prog" where
  "percentile_GET session i now =
    catch
      (case session of
         None \<Rightarrow> ret (Failed 401 ''Unauthorized'')
       | Some se \<Rightarrow>
           bind (query ''db'' (\<lambda>db. sub_find i (st_subs db))) (\<lambda>submission.
             case submission of
               None \<Rightarrow> ret (Failed 404 ''Submission not found'')
             | Some sub \<Rightarrow>
                 if sb_user sub \<noteq> se_userId se \<and> se_role se \<noteq> ''admin'' then ret (Failed 403 ''Forbidden'')
                 else if sb_status sub \<noteq> ''accepted'' \<or> sb_runtime sub = None then
                   ret (Failed 422 ''Percentile is only available for accepted submissions with a recorded runtime.'')
                 else
                   bind (remember st_cache (\<lambda>c db. db\<lparr>st_cache := c\<rparr>) (percentile_key (sb_id sub)) TTL_MS now
                     (bind (query ''db'' (peers_of (sb_problem sub) (sb_language sub))) (\<lambda>peers.
                      ret (payload_of sub (the (sb_runtime sub)) peers)))) (\<lambda>payload.
                   ret (Reply 200 payload))))
      (\<lambda>_. ret (Failed 500 ''Internal server error''))"

interpretation stats_cache: cached_part st_cache "\<lambda>c db. db\<lparr>st_cache := c\<rparr>"
  by unfold_locales simp

subsection \<open>Percentiles are shares\<close>

lemma count_beaten_eq:
  "count_beaten x rs (b, n) =
    (b + length (filter (\<lambda>r. usable r \<and> x < real_of_number r) rs), n + length (filter usable rs))"
  by (induction rs arbitrary: b n) auto

lemma percentile_eq:
  "computePercentile (Finite x) rs =
    (let beaten = length (filter (\<lambda>r. usable r \<and> x < real_of_number r) rs); n = length (filter usable rs)
     in if x < 0 \<or> n = 0 then 0 else of_int (js_round (real beaten / real n * 100 * 10)) / 10)"
  by (auto simp: computePercentile_def count_beaten_eq Let_def)

lemma js_round_error: "\<bar>of_int (js_round x) - x\<bar> \<le> 1 / 2"
  unfolding js_round_def by linarith

lemma length_filter_mono: "(\<And>x. P x \<Longrightarrow> Q x) \<Longrightarrow> length (filter P xs) \<le> length (filter Q xs)"
  by (induction xs) (auto intro: le_SucI)

text \<open>
  Beat X percent. For any population of runtimes, the percentile of a runtime is the share, in
  percent and to one decimal, of the usable runtimes that are strictly slower; it lies between 0
  and 100, it never grows when the runtime does, and it is 0 when nothing can be compared.
\<close>

theorem percentile_is_share_beaten:
  fixes x :: real and rs :: "js_number list"
  defines "beaten \<equiv> length (filter (\<lambda>r. usable r \<and> x < real_of_number r) rs)"
    and "n \<equiv> length (filter usable rs)" and "p \<equiv> computePercentile (Finite x) rs"
  shows "computePercentile NonFinite rs = 0 \<and>
    (if x < 0 \<or> n = 0 then p = 0
     else 0 \<le> p \<and> p \<le> 100 \<and> \<bar>p - 100 * real beaten / real n\<bar> \<le> 1 / 20 \<and>
       (\<forall>y \<ge> x. computePercentile (Finite y) rs \<le> p))"
proof -
  have z: "computePercentile NonFinite rs = 0" by (simp add: computePercentile_def)
  show ?thesis
  proof (cases "x < 0 \<or> n = 0")
    case True
    then show ?thesis using z by (simp add: p_def n_def percentile_eq Let_def)
  next
    case False
    let ?pct = "\<lambda>b. real b / real n * 100 * 10"
    have n: "0 < n" and x: "0 \<le> x" using False by auto
    have p: "p = of_int (js_round (?pct beaten)) / 10"
      using False by (simp add: p_def beaten_def n_def percentile_eq Let_def)
    have le: "beaten \<le> n" unfolding beaten_def n_def by (rule length_filter_mono) simp
    have "of_int 0 \<le> ?pct beaten" "?pct beaten \<le> of_int 1000"
      using le n by (simp_all add: field_simps)
    from this [THEN round_mono] have "0 \<le> js_round (?pct beaten)" "js_round (?pct beaten) \<le> 1000"
      by (simp_all only: round_of_int)
    then have b: "0 \<le> p" "p \<le> 100" unfolding p by simp_all
    have e: "\<bar>p - 100 * real beaten / real n\<bar> \<le> 1 / 20"
      using js_round_error [of "?pct beaten"] unfolding p by (simp add: field_simps)
    have "computePercentile (Finite y) rs \<le> p" if y: "x \<le> y" for y
    proof -
      let ?b = "length (filter (\<lambda>r. usable r \<and> y < real_of_number r) rs)"
      have "?b \<le> beaten" unfolding beaten_def by (rule length_filter_mono) (use y in auto)
      then have "?pct ?b \<le> ?pct beaten" using n by (simp add: field_simps)
      then have "js_round (?pct ?b) \<le> js_round (?pct beaten)" by (rule round_mono)
      then show ?thesis using x y n unfolding p by (simp add: n_def percentile_eq Let_def)
    qed
    then show ?thesis using z b e False by simp
  qed
qed

lemma percentile_is_share_beaten_witness:
  "computePercentile (Finite 30) [Finite 10, Finite 20, Finite 30, Finite 40] \<le>
   computePercentile (Finite 10) [Finite 10, Finite 20, Finite 30, Finite 40]"
  using percentile_is_share_beaten [of "[Finite 10, Finite 20, Finite 30, Finite 40]" 10] by simp

subsection \<open>The histogram counts every runtime once\<close>

lemma length_count_buckets [simp]: "length (count_buckets f rs cs) = length cs"
  by (induction rs arbitrary: cs) simp_all

lemma count_buckets_nth:
  "(\<And>r. r \<in> set rs \<Longrightarrow> f r < length cs) \<Longrightarrow> i < length cs \<Longrightarrow>
    count_buckets f rs cs ! i = cs ! i + length (filter (\<lambda>r. f r = i) rs)"
  by (induction rs arbitrary: cs) (auto simp: nth_list_update)

lemma sum_count_buckets:
  "(\<And>r. r \<in> set rs \<Longrightarrow> f r < length cs) \<Longrightarrow> sum_list (count_buckets f rs cs) = sum_list cs + length rs"
proof (induction rs arbitrary: cs)
  case (Cons r rs)
  have "sum_list (cs[f r := cs ! f r + 1]) = sum_list cs + 1"
    using Cons.prems [of r] member_le_sum_list [of "cs ! f r" cs] by (simp add: sum_list_update)
  then show ?case using Cons by simp
qed simp

lemma bucket_of_range:
  assumes "mn \<le> r" "r \<le> mx" "mn < mx" "0 < n" "width = (mx - mn) / real n"
  defines "i \<equiv> bucket_of mn width n r"
  shows "i < n" "mn + width * real i \<le> r" "if i = n - 1 then r \<le> mx else r < mn + width * real (i + 1)"
proof -
  have w: "0 < width" "width * real n = mx - mn" using assms(3-5) by simp_all
  let ?q = "(r - mn) / width"
  have q: "0 \<le> ?q" "?q * width = r - mn" using w(1) assms(1) by simp_all
  then have f0: "0 \<le> \<lfloor>?q\<rfloor>" by simp
  have fl: "of_int \<lfloor>?q\<rfloor> * width \<le> r - mn" "r - mn < (of_int \<lfloor>?q\<rfloor> + 1) * width"
    using w(1) q(2) mult_right_mono [of "of_int \<lfloor>?q\<rfloor>" ?q width] mult_strict_right_mono [of ?q "of_int \<lfloor>?q\<rfloor> + 1" width]
    by (simp_all only: of_int_floor_le floor_correct less_imp_le) auto
  have "i < n \<and> mn + width * real i \<le> r \<and> (if i = n - 1 then r \<le> mx else r < mn + width * real (i + 1))"
  proof (cases "\<lfloor>?q\<rfloor> \<ge> int n")
    case True
    then have i: "i = n - 1" using assms(4) by (simp add: i_def bucket_of_def Let_def nat_diff_distrib)
    have "width * real (n - 1) \<le> of_int \<lfloor>?q\<rfloor> * width"
      using True w(1) assms(4) by (simp add: mult.commute)
    then show ?thesis using i fl(1) assms(2,4) by simp
  next
    case False
    then have i: "int i = \<lfloor>?q\<rfloor>" using f0 by (simp add: i_def bucket_of_def Let_def)
    have ri: "of_int \<lfloor>?q\<rfloor> = real i" using i by (metis of_int_of_nat_eq)
    have "i < n" using i False by linarith
    moreover have "mn + width * real i \<le> r" using fl(1) unfolding ri by (simp add: mult.commute)
    moreover have "r < mn + width * real (i + 1)" using fl(2) unfolding ri by (simp add: algebra_simps)
    ultimately show ?thesis using assms(2) by simp
  qed
  then show "i < n" "mn + width * real i \<le> r" "if i = n - 1 then r \<le> mx else r < mn + width * real (i + 1)"
    by blast+
qed

lemma find_bucket_first:
  assumes "j < length ds" "bk_min (ds ! j) \<le> x"
    "if j = length ds - 1 then x \<le> bk_max (ds ! j) else x < bk_max (ds ! j)"
    "\<And>i. i < j \<Longrightarrow> bk_max (ds ! i) \<le> x"
  shows "find_bucket x k ds = int (k + j)"
  using assms
proof (induction ds arbitrary: j k)
  case (Cons b bs)
  show ?case
  proof (cases j)
    case 0
    then show ?thesis using Cons.prems by (auto split: if_splits)
  next
    case (Suc m)
    have m: "m < length bs" "(b # bs) ! j = bs ! m" "j = length (b # bs) - 1 \<longleftrightarrow> m = length bs - 1"
      using Cons.prems(1) Suc by auto
    have before: "bk_max (bs ! i) \<le> x" if "i < m" for i using Cons.prems(4) [of "Suc i"] that Suc by simp
    have "find_bucket x (k + 1) bs = int (k + 1 + m)"
      by (rule Cons.IH [OF m(1)]) (use Cons.prems(2,3) m before in \<open>simp_all split: if_splits\<close>)
    moreover have "bk_max b \<le> x" "bs \<noteq> []" using Cons.prems(4) [of 0] m(1) Suc by auto
    ultimately show ?thesis using Suc by simp
  qed
qed simp

text \<open>The histogram of runtimes that are not all equal.\<close>

definition spread :: "js_number list \<Rightarrow> bool" where
  "spread rs \<longleftrightarrow> (\<exists>x \<in> set (valid_runtimes rs). \<exists>y \<in> set (valid_runtimes rs). x < y)"

lemma spread_iff:
  assumes "valid_runtimes rs \<noteq> []"
  shows "spread rs \<longleftrightarrow> Min (set (valid_runtimes rs)) < Max (set (valid_runtimes rs))" (is "_ \<longleftrightarrow> ?mn < ?mx")
proof
  assume "spread rs"
  then obtain x y where "x \<in> set (valid_runtimes rs)" "y \<in> set (valid_runtimes rs)" "x < y" by (auto simp: spread_def)
  then have "?mn \<le> x" "y \<le> ?mx" by simp_all
  then show "?mn < ?mx" using \<open>x < y\<close> by linarith
next
  assume "?mn < ?mx"
  moreover have "?mn \<in> set (valid_runtimes rs)" "?mx \<in> set (valid_runtimes rs)" using assms by simp_all
  ultimately show "spread rs" unfolding spread_def by blast
qed

lemma valid_filter: "length (filter P (valid_runtimes rs)) = length (filter (\<lambda>r. usable r \<and> P (real_of_number r)) rs)"
  by (simp add: valid_runtimes_def filter_map o_def conj_commute)

lemma not_spread:
  assumes "valid_runtimes rs \<noteq> []" "\<not> spread rs"
  shows "Min (set (valid_runtimes rs)) = Max (set (valid_runtimes rs))"
proof -
  have "Min (set (valid_runtimes rs)) \<le> Max (set (valid_runtimes rs))" using assms(1) by (intro Max_ge) simp_all
  then show ?thesis using spread_iff [OF assms(1)] assms(2) by linarith
qed

lemma spread_shape:
  fixes buckets :: real
  assumes "spread rs"
  defines "v \<equiv> valid_runtimes rs" and "n \<equiv> nat (max 1 \<lfloor>buckets\<rfloor>)" and "d \<equiv> runtimeDistribution rs buckets"
  defines "f \<equiv> bucket_of (Min (set v)) ((Max (set v) - Min (set v)) / real n) n"
  shows "length d = n \<and> map bk_bucket d = [0..<n] \<and> map bk_count d = count_buckets f v (replicate n 0) \<and>
    (\<forall>r \<in> set v. f r < n \<and> find_bucket r 0 d = int (f r))"
proof -
  have v: "v \<noteq> []" using assms(1) by (auto simp: spread_def v_def)
  then have lt: "Min (set v) < Max (set v)" using assms(1) spread_iff unfolding v_def by blast
  have n: "0 < n" by (simp add: n_def)
  define w where "w = (Max (set v) - Min (set v)) / real n"
  have wpos: "0 < w" using lt n by (simp add: w_def)
  have d: "d = map (\<lambda>i. \<lparr>bk_min = Min (set v) + w * real i,
      bk_max = (if i = n - 1 then Max (set v) else Min (set v) + w * real (i + 1)),
      bk_bucket = i, bk_count = count_buckets f v (replicate n 0) ! i\<rparr>) [0..<n]"
    using v lt unfolding d_def runtimeDistribution_def Let_def n_def v_def f_def w_def by simp
  have len: "length d = n" by (simp add: d)
  moreover have "map bk_bucket d = [0..<n]" by (simp add: d o_def)
  moreover have "map bk_count d = count_buckets f v (replicate n 0)"
    by (rule nth_equalityI) (simp_all add: d)
  moreover have "f r < n \<and> find_bucket r 0 d = int (f r)" if r: "r \<in> set v" for r
  proof -
    have mm: "Min (set v) \<le> r" "r \<le> Max (set v)" using r by simp_all
    note b = bucket_of_range [OF mm lt n w_def, folded w_def f_def [folded w_def]]
    have fr: "f r < n" using b(1) .
    have "find_bucket r 0 d = int (0 + f r)"
    proof (rule find_bucket_first)
      show "f r < length d" using fr len by simp
      show "bk_min (d ! f r) \<le> r" using b(2) fr by (simp add: d)
      show "if f r = length d - 1 then r \<le> bk_max (d ! f r) else r < bk_max (d ! f r)"
        using b(3) fr by (cases "f r = n - 1") (simp_all add: d algebra_simps)
      fix i assume i: "i < f r"
      have "w * real (i + 1) \<le> w * real (f r)" using i wpos by (intro mult_left_mono) auto
      then show "bk_max (d ! i) \<le> r" using b(2) i fr by (auto simp: d)
    qed
    then show ?thesis using fr by simp
  qed
  ultimately show ?thesis by blast
qed

lemma flat_shape:
  fixes buckets :: real
  assumes "valid_runtimes rs \<noteq> []" "\<not> spread rs"
  defines "v \<equiv> valid_runtimes rs" and "n \<equiv> nat (max 1 \<lfloor>buckets\<rfloor>)"
  shows "runtimeDistribution rs buckets = map (\<lambda>i. \<lparr>bk_min = hd v, bk_max = hd v, bk_bucket = i,
      bk_count = (if i = 0 then length v else 0)\<rparr>) [0..<n] \<and> (\<forall>r \<in> set v. r = hd v)"
proof -
  have m: "Min (set v) = Max (set v)" unfolding v_def using assms(1,2) by (rule not_spread)
  have all: "r = Min (set v)" if "r \<in> set v" for r
  proof -
    have "Min (set v) \<le> r" "r \<le> Max (set v)" using that by simp_all
    then show ?thesis using m by linarith
  qed
  have "hd v \<in> set v" using assms(1) by (simp add: v_def)
  then have h: "hd v = Min (set v)" by (rule all)
  have "\<forall>r \<in> set v. r = hd v" unfolding h using all by blast
  moreover have e: "Min (set v) = hd v" "Max (set v) = hd v" using h m by simp_all
  moreover have "runtimeDistribution rs buckets = map (\<lambda>i. \<lparr>bk_min = hd v, bk_max = hd v, bk_bucket = i,
      bk_count = (if i = 0 then length v else 0)\<rparr>) [0..<n]"
    unfolding runtimeDistribution_def Let_def n_def v_def e [unfolded v_def] using assms(1) by simp
  ultimately show ?thesis by blast
qed

lemma distribution_length: "length (runtimeDistribution rs buckets) = nat (max 1 \<lfloor>buckets\<rfloor>)"
  by (simp add: runtimeDistribution_def Let_def)

text \<open>
  The histogram counts every runtime once, in the bar it is highlighted in. For any runtimes and
  any number of bars asked for, the histogram has that number of bars, at least one, numbered from
  0, and the counts add up to the number of usable runtimes. When the runtimes are not all equal,
  the count of a bar is the number of runtimes for which \<open>bucketIndexFor\<close> names that bar.
\<close>

theorem histogram_counts_highlighted:
  fixes rs :: "js_number list" and buckets :: real
  defines "d \<equiv> runtimeDistribution rs buckets"
  shows "length d = nat (max 1 \<lfloor>buckets\<rfloor>) \<and> map bk_bucket d = [0..<length d] \<and>
    sum_list (map bk_count d) = length (filter usable rs) \<and>
    (spread rs \<longrightarrow> map bk_count d = map (\<lambda>i. length (filter (\<lambda>r. bucketIndexFor r d = int i) rs)) [0..<length d])"
proof (cases "spread rs")
  case True
  define n where "n = nat (max 1 \<lfloor>buckets\<rfloor>)"
  let ?v = "valid_runtimes rs"
  from spread_shape [OF True, of buckets, folded d_def n_def] obtain f where
    s: "length d = n" "map bk_bucket d = [0..<n]" "map bk_count d = count_buckets f ?v (replicate n 0)"
      "\<And>r. r \<in> set ?v \<Longrightarrow> f r < n" "\<And>r. r \<in> set ?v \<Longrightarrow> find_bucket r 0 d = int (f r)"
    by blast
  have "sum_list (map bk_count d) = length ?v" unfolding s(3) by (subst sum_count_buckets) (simp_all add: s(4))
  moreover have "map bk_count d = map (\<lambda>i. length (filter (\<lambda>r. bucketIndexFor r d = int i) rs)) [0..<length d]"
  proof (rule nth_equalityI)
    show "length (map bk_count d) = length (map (\<lambda>i. length (filter (\<lambda>r. bucketIndexFor r d = int i) rs)) [0..<length d])"
      by simp
    fix i assume "i < length (map bk_count d)"
    then have i: "i < length d" by simp
    have "bucketIndexFor r d = int i \<longleftrightarrow> usable r \<and> f (real_of_number r) = i" if "r \<in> set rs" for r
      using s(1) s(5) [of "real_of_number r"] that i by (auto simp: bucketIndexFor_def valid_runtimes_def)
    then have e: "filter (\<lambda>r. bucketIndexFor r d = int i) rs = filter (\<lambda>r. usable r \<and> f (real_of_number r) = i) rs"
      by (auto intro: filter_cong)
    have "map bk_count d ! i = length (filter (\<lambda>r. f r = i) ?v)"
      unfolding s(3) using i s(1) by (subst count_buckets_nth) (simp_all add: s(4))
    then show "map bk_count d ! i = map (\<lambda>i. length (filter (\<lambda>r. bucketIndexFor r d = int i) rs)) [0..<length d] ! i"
      using i by (simp add: e valid_filter)
  qed
  ultimately show ?thesis using s(1,2) by (simp add: valid_runtimes_def n_def)
next
  case False
  show ?thesis
  proof (cases "valid_runtimes rs = []")
    case True
    then have "filter usable rs = []" by (simp add: valid_runtimes_def)
    then show ?thesis using False True by (simp add: d_def runtimeDistribution_def o_def)
  next
    case ne: False
    have "0 < nat (max 1 \<lfloor>buckets\<rfloor>)" by simp
    then have u: "[0..<nat (max 1 \<lfloor>buckets\<rfloor>)] = 0 # [Suc 0..<nat (max 1 \<lfloor>buckets\<rfloor>)]" by (rule upt_conv_Cons)
    have "sum_list (map (\<lambda>i. if i = 0 then k else (0 :: nat)) [Suc 0..<m]) = 0" for k m
      by (simp add: sum_list_eq_0_iff)
    then show ?thesis using False flat_shape [OF ne False, of buckets]
      by (simp add: d_def o_def u valid_runtimes_def)
  qed
qed

lemma histogram_counts_highlighted_witness:
  "let rs = [Finite 10, Finite 20, NonFinite, Finite 30, Finite 30]; d = runtimeDistribution rs 2
   in map bk_count d = map (\<lambda>i. length (filter (\<lambda>r. bucketIndexFor r d = int i) rs)) [0..<length d]"
  using histogram_counts_highlighted [of "[Finite 10, Finite 20, NonFinite, Finite 30, Finite 30]" 2]
  by (simp add: Let_def spread_def valid_runtimes_def)

text \<open>
  When all runtimes are equal the wrong bar is highlighted. If every usable runtime is the same
  and at least two bars are asked for, all runtimes are counted in the first bar, but
  \<open>bucketIndexFor\<close> names the last bar, which is empty.
\<close>

theorem equal_runtimes_highlight_empty_bar:
  fixes rs :: "js_number list" and buckets :: real and x :: real
  assumes "Finite x \<in> set rs" "0 \<le> x" "\<forall>r \<in> set rs. usable r \<longrightarrow> r = Finite x" "2 \<le> buckets"
  defines "d \<equiv> runtimeDistribution rs buckets"
  shows "bucketIndexFor (Finite x) d = int (length d) - 1 \<and> bk_count (last d) = 0 \<and>
    bk_count (hd d) = length (filter usable rs)"
proof -
  let ?n = "nat (max 1 \<lfloor>buckets\<rfloor>)" and ?v = "valid_runtimes rs"
  have n: "2 \<le> ?n" using assms(4) by linarith
  have x: "x \<in> set ?v" using assms(1,2) by (force simp: valid_runtimes_def)
  then have ne: "?v \<noteq> []" by auto
  have all: "\<forall>y \<in> set ?v. y = x" using assms(3) by (auto simp: valid_runtimes_def)
  then have "\<not> spread rs" unfolding spread_def by (metis less_irrefl)
  note flat = flat_shape [OF ne this, of buckets]
  have hx: "hd ?v = x" using all ne by simp
  have d: "d = map (\<lambda>i. \<lparr>bk_min = x, bk_max = x, bk_bucket = i, bk_count = (if i = 0 then length ?v else 0)\<rparr>) [0..<?n]"
    using flat by (simp add: d_def hx)
  have "find_bucket x 0 d = int (0 + (?n - 1))"
    by (rule find_bucket_first) (use n in \<open>simp_all add: d\<close>)
  then have "bucketIndexFor (Finite x) d = int (length d) - 1"
    using n assms(2) by (simp add: bucketIndexFor_def d of_nat_diff)
  moreover have "bk_count (last d) = 0" using n by (simp add: d last_map)
  moreover have "bk_count (hd d) = length ?v" using n by (simp add: d hd_map)
  ultimately show ?thesis by (simp add: valid_runtimes_def)
qed

lemma equal_runtimes_highlight_empty_bar_witness:
  "bucketIndexFor (Finite 12) (runtimeDistribution [Finite 12, Finite 12] 20) = 19 \<and>
   bk_count (last (runtimeDistribution [Finite 12, Finite 12] 20)) = 0"
  using equal_runtimes_highlight_empty_bar [of 12 "[Finite 12, Finite 12]" 20] distribution_length [of "[Finite 12, Finite 12]" 20] by simp

subsection \<open>The population is the fastest part\<close>

interpretation ascending: comparator "(\<le>) :: int \<Rightarrow> int \<Rightarrow> bool" UNIV
  by unfold_locales auto

lemma sorted_filter_prefix:
  fixes ys :: "int list"
  shows "sorted_wrt (\<le>) ys \<Longrightarrow> filter (\<lambda>y. y \<le> x) ys = takeWhile (\<lambda>y. y \<le> x) ys"
proof (induction ys)
  case (Cons a ys)
  show ?case
  proof (cases "a \<le> x")
    case False
    then have "filter (\<lambda>y. y \<le> x) ys = []" using Cons.prems by (auto simp: filter_empty_conv)
    then show ?thesis using False by simp
  qed (use Cons in simp)
qed simp

lemma in_take_append: "y \<in> set (take k (as @ bs)) \<Longrightarrow> k \<le> length as \<Longrightarrow> y \<in> set as"
  by (auto dest: in_set_takeD)

lemma take_sorted_le:
  fixes ys :: "int list"
  assumes "k \<le> length (filter (\<lambda>y. y \<le> x) ys)" "y \<in> set (take k (sort_by (\<le>) ys))"
  shows "y \<le> x"
proof -
  let ?s = "sort_by (\<le>) ys"
  have "mset (filter (\<lambda>y. y \<le> x) ?s) = mset (filter (\<lambda>y. y \<le> x) ys)" by (simp add: mset_filter)
  moreover have "filter (\<lambda>y. y \<le> x) ?s = takeWhile (\<lambda>y. y \<le> x) ?s"
    by (intro sorted_filter_prefix ascending.sorted_sort_by) simp
  ultimately have k: "k \<le> length (takeWhile (\<lambda>y. y \<le> x) ?s)"
    using assms(1) by (metis size_mset)
  have "y \<in> set (take k (takeWhile (\<lambda>y. y \<le> x) ?s @ dropWhile (\<lambda>y. y \<le> x) ?s))"
    using assms(2) by (simp only: takeWhile_dropWhile_id)
  then show ?thesis using in_take_append [OF _ k] by (blast dest: set_takeWhileD)
qed

lemma nobody_beaten:
  assumes "\<And>y. y \<in> set ys \<Longrightarrow> y \<le> x"
  shows "computePercentile (Finite (of_int x)) (map (\<lambda>r. Finite (of_int r)) ys) = 0"
proof -
  have "filter (\<lambda>r. usable r \<and> of_int x < real_of_number r) (map (\<lambda>r. Finite (of_int r)) ys) = []"
    using assms by (fastforce simp: filter_empty_conv)
  then show ?thesis unfolding percentile_eq Let_def by (simp add: js_round_def)
qed

lemma percentile_GET_run:
  assumes "sub_find i (st_subs db) = Some sub" "sb_user sub = se_userId se \<or> se_role se = ''admin''"
    "sb_status sub = ''accepted''" "sb_runtime sub = Some x"
    "fst (cache_get (percentile_key (sb_id sub)) now (st_cache db)) = None"
  shows "result (percentile_GET (Some se) i now) [] db = Inr (Reply 200 (payload_of sub x (peers_of (sb_problem sub) (sb_language sub) db)))"
proof -
  have "\<not> (sb_user sub \<noteq> se_userId se \<and> se_role se \<noteq> ''admin'')" using assms(2) by blast
  then show ?thesis
    using assms(1,3,4) stats_cache.remember_miss [where s = db, OF assms(5)]
    by (simp add: result_def percentile_GET_def catch_def bind_def stats_cache.remember_miss [where s = db, OF assms(5)] peers_of_def)
qed

text \<open>
  Against a large population the slow are told that they beat nobody. The population is cut to
  the 5000 fastest runtimes. So when 5000 accepted submissions were at least as fast as the
  caller's, a request that is not answered from the cache reports 0 percent, however many of the
  submissions are slower.
\<close>

theorem late_runtime_beats_nobody:
  assumes "sub_find i (st_subs db) = Some sub" "sb_user sub = se_userId se \<or> se_role se = ''admin''"
    "sb_status sub = ''accepted''" "sb_runtime sub = Some x"
    "fst (cache_get (percentile_key (sb_id sub)) now (st_cache db)) = None"
    "5000 \<le> length (filter (\<lambda>r. sb_problem r = sb_problem sub \<and> sb_language r = sb_language sub \<and>
       sb_status r = ''accepted'' \<and> (\<exists>y \<le> x. sb_runtime r = Some y)) (st_subs db))"
  shows "\<exists>payload. result (percentile_GET (Some se) i now) [] db = Inr (Reply 200 payload) \<and>
    pp_runtime payload = x \<and> pp_totalSubmissions payload = 5000 \<and> pp_percentile payload = 0"
proof -
  let ?peer = "\<lambda>r. sb_problem r = sb_problem sub \<and> sb_language r = sb_language sub \<and> sb_status r = ''accepted'' \<and> sb_runtime r \<noteq> None"
  let ?ys = "map (the \<circ> sb_runtime) (filter ?peer (st_subs db))"
  let ?peers = "peers_of (sb_problem sub) (sb_language sub) db"
  have "length (filter (\<lambda>y. y \<le> x) ?ys) =
    length (filter (\<lambda>r. ?peer r \<and> the (sb_runtime r) \<le> x) (st_subs db))"
    by (simp add: filter_map o_def conj_commute)
  moreover have "length (filter (\<lambda>r. sb_problem r = sb_problem sub \<and> sb_language r = sb_language sub \<and>
       sb_status r = ''accepted'' \<and> (\<exists>y \<le> x. sb_runtime r = Some y)) (st_subs db)) \<le>
    length (filter (\<lambda>r. ?peer r \<and> the (sb_runtime r) \<le> x) (st_subs db))"
    by (rule length_filter_mono) auto
  ultimately have many: "5000 \<le> length (filter (\<lambda>y. y \<le> x) ?ys)" using assms(6) by linarith
  have p: "?peers = take 5000 (sort_by (\<le>) ?ys)" by (simp add: peers_of_def MAX_POPULATION_def)
  have "y \<le> x" if "y \<in> set ?peers" for y using take_sorted_le [OF many] that unfolding p by blast
  then have "pp_percentile (payload_of sub x ?peers) = 0" by (simp add: payload_of_def Let_def nobody_beaten)
  moreover have "length ?peers = 5000"
    using many length_filter_le [of "\<lambda>y. y \<le> x" ?ys] unfolding p by (simp add: min_def)
  ultimately show ?thesis using percentile_GET_run [OF assms(1-5)] by (simp add: payload_of_def Let_def)
qed

definition sample_accepted :: "nat \<Rightarrow> int \<Rightarrow> submission" where
  "sample_accepted i t = \<lparr>sb_id = i, sb_user = 1, sb_problem = 3, sb_language = ''python'', sb_code = '''',
     sb_status = ''accepted'', sb_runtime = Some t, sb_error = None, sb_output = None\<rparr>"

lemma late_runtime_beats_nobody_witness:
  "\<exists>payload. result (percentile_GET (Some \<lparr>se_userId = 1, se_role = ''user''\<rparr>) 7 0) []
      \<lparr>st_subs = sample_accepted 7 30 # replicate 5000 (sample_accepted 8 20) @ replicate 900 (sample_accepted 9 40),
        st_cache = new_cache (Fin 10)\<rparr> = Inr (Reply 200 payload) \<and>
    pp_runtime payload = 30 \<and> pp_totalSubmissions payload = 5000 \<and> pp_percentile payload = 0"
  by (rule late_runtime_beats_nobody [of 7 _ "sample_accepted 7 30"])
    (simp_all add: sample_accepted_def sub_find_def cache_get_def new_cache_def)

end
