(* ===== verification/Auth.thy ===== *)
theory Auth
  imports Guards
begin

section \<open>Accounts and sessions\<close>

text \<open>
  \<^verbatim>\<open>src/lib/auth.ts\<close>, \<^verbatim>\<open>src/middleware.ts\<close>, \<^verbatim>\<open>src/lib/client-ip.ts\<close>, \<^verbatim>\<open>src/lib/auth-buckets.ts\<close>,
  \<^verbatim>\<open>src/lib/account-lockout.ts\<close> and the routes under \<^verbatim>\<open>src/app/api/auth\<close>. The state is the user table,
  the rate limiter's buckets, the generations of the login buckets and the session cookie of the
  client at hand. The libraries \<^verbatim>\<open>jose\<close> (signing and verifying tokens), \<^verbatim>\<open>bcryptjs\<close> (hashing and
  comparing passwords) and the email and URL patterns of \<^verbatim>\<open>zod\<close> are parameters, gathered in \<open>deps\<close>.
\<close>

subsection \<open>The environment and the libraries\<close>

record jwt_payload =
  jp_userId :: nat
  jp_email :: string
  jp_username :: string
  jp_role :: string

record env =
  ev_node_env :: "string option"
  ev_jwt_secret :: "string option"
  ev_legacy :: "string option"
  ev_proxy_token :: "string option"

text \<open>
  \<open>jo_header\<close> is \<^verbatim>\<open>decodeProtectedHeader\<close>: it throws or gives the header's \<^verbatim>\<open>alg\<close>, if any. \<open>jo_jwks\<close>
  and \<open>jo_secret\<close> are \<^verbatim>\<open>jwtVerify\<close> with the remote keys and with a secret; None is a rejection.
\<close>

record jose =
  jo_header :: "string \<Rightarrow> string option option"
  jo_jwks :: "string \<Rightarrow> jwt_payload option"
  jo_secret :: "string \<Rightarrow> string \<Rightarrow> jwt_payload option"
  jo_sign :: "string \<Rightarrow> jwt_payload \<Rightarrow> string"

record deps =
  dp_env :: env
  dp_jose :: jose
  dp_secret :: string
  dp_compare :: "string \<Rightarrow> string \<Rightarrow> bool"
  dp_hash :: "string \<Rightarrow> string"
  dp_is_email :: "string \<Rightarrow> bool"
  dp_is_url :: "string \<Rightarrow> bool"

subsection \<open>Tokens and sessions (auth.ts)\<close>

definition loadSecret :: "env \<Rightarrow> string + string" where
  "loadSecret e =
    (if \<not> truthy (ev_jwt_secret e) \<or> length (the (ev_jwt_secret e)) < 16 then
       if ev_node_env e = Some ''production'' then Inl ''JWT_SECRET must be set to a 16+ character value in production''
       else Inr ''dev-only-insecure-secret-change-me''
     else Inr (the (ev_jwt_secret e)))"

definition legacyFallbackEnabled :: "env \<Rightarrow> bool" where
  "legacyFallbackEnabled e \<longleftrightarrow> ev_legacy e = Some ''true'' \<or> ev_node_env e \<noteq> Some ''production''"

definition signToken :: "deps \<Rightarrow> jwt_payload \<Rightarrow> string" where
  "signToken d p = jo_sign (dp_jose d) (dp_secret d) p"

definition verifyTokenJwks :: "deps \<Rightarrow> string \<Rightarrow> jwt_payload option" where
  "verifyTokenJwks d token =
    (case jo_header (dp_jose d) token of
       None \<Rightarrow> None
     | Some alg \<Rightarrow>
         if truthy alg \<and> alg \<noteq> Some ''HS256'' then jo_jwks (dp_jose d) token
         else if \<not> legacyFallbackEnabled (dp_env d) then None
         else jo_secret (dp_jose d) (dp_secret d) token)"

definition verifyToken :: "deps \<Rightarrow> string \<Rightarrow> jwt_payload option" where
  "verifyToken d token = verifyTokenJwks d token"

definition getSession :: "deps \<Rightarrow> string option \<Rightarrow> jwt_payload option" where
  "getSession d cookie = (if \<not> truthy cookie then None else verifyTokenJwks d (the cookie))"

subsection \<open>The edge middleware (middleware.ts)\<close>

datatype gate = Proceed | ToLogin string | ToForbidden

definition verifyAny :: "deps \<Rightarrow> string \<Rightarrow> jwt_payload option" where
  "verifyAny d token =
    (case jo_header (dp_jose d) token of
       None \<Rightarrow> None
     | Some alg \<Rightarrow>
         if truthy alg \<and> alg \<noteq> Some ''HS256'' then jo_jwks (dp_jose d) token
         else if \<not> legacyFallbackEnabled (dp_env d) then None
         else jo_secret (dp_jose d) (dp_secret d) token)"

definition protectedRoutes :: "string list" where "protectedRoutes = [''/dashboard'', ''/admin'']"
definition adminRoutes :: "string list" where "adminRoutes = [''/admin'']"

text \<open>The request id: the incoming one unless it is missing or empty, else a generated one.\<close>

definition withRequestId :: "string option \<Rightarrow> string \<Rightarrow> gate \<Rightarrow> gate \<times> string" where
  "withRequestId incoming generated g = (g, if truthy incoming then the incoming else generated)"

definition middleware :: "deps \<Rightarrow> string \<Rightarrow> string option \<Rightarrow> string option \<Rightarrow> string \<Rightarrow> gate \<times> string" where
  "middleware d pathname cookie incoming generated =
    (let isProtected = list_ex (\<lambda>route. starts_with route pathname) protectedRoutes
     in if \<not> isProtected then withRequestId incoming generated Proceed
        else if \<not> truthy cookie then withRequestId incoming generated (ToLogin pathname)
        else case verifyAny d (the cookie) of
          None \<Rightarrow> withRequestId incoming generated (ToLogin pathname)
        | Some payload \<Rightarrow>
            let isAdmin = list_ex (\<lambda>route. starts_with route pathname) adminRoutes
            in if isAdmin \<and> jp_role payload \<noteq> ''admin'' then withRequestId incoming generated ToForbidden
               else withRequestId incoming generated Proceed)"

subsection \<open>The client's address (client-ip.ts)\<close>

record headers =
  hd_xff :: "string option"
  hd_proxy :: "string option"
  hd_real :: "string option"

definition clientIp :: "env \<Rightarrow> headers \<Rightarrow> string" where
  "clientIp e h =
    (let parts = (if truthy (hd_xff h) then map js_trim (split_on (CHR '','') (the (hd_xff h))) else []);
         rest = (case filter (\<lambda>p. p \<noteq> []) parts of
                   [] \<Rightarrow> (case hd_real h of None \<Rightarrow> ''unknown'' | Some r \<Rightarrow> r)
                 | p # ps \<Rightarrow> last (p # ps))
     in if truthy (ev_proxy_token e) \<and> hd_proxy h = ev_proxy_token e \<and> truthy (hd_xff h) \<and> hd parts \<noteq> [] then hd parts
        else rest)"

subsection \<open>Tables\<close>

record user_row =
  us_id :: nat
  us_email :: string
  us_username :: string
  us_password :: string
  us_role :: string
  us_failed :: int
  us_lockedUntil :: "int option"
  us_avatar :: "string option"
  us_bio :: "string option"
  us_createdAt :: int

record auth_db =
  au_users :: "user_row list"
  au_limiter :: buckets
  au_generations :: "(string, nat) jsmap"
  au_cookie :: "string option"

definition put_limiter :: "buckets \<Rightarrow> auth_db \<Rightarrow> auth_db" where
  "put_limiter b db = db\<lparr>au_limiter := b\<rparr>"

definition limited :: "string \<Rightarrow> int \<Rightarrow> int \<Rightarrow> int \<Rightarrow> (auth_db, string, rl_result) prog" where
  "limited key mx windowMs now = limited_in au_limiter put_limiter key mx windowMs now"

definition set_cookie :: "string option \<Rightarrow> (auth_db, string, unit) prog" where
  "set_cookie t = state_op (\<lambda>db. ((), db\<lparr>au_cookie := t\<rparr>))"

definition jwt_of :: "user_row \<Rightarrow> jwt_payload" where
  "jwt_of u = \<lparr>jp_userId = us_id u, jp_email = us_email u, jp_username = us_username u, jp_role = us_role u\<rparr>"

subsection \<open>Account lockout (account-lockout.ts)\<close>

definition MAX_FAILED_ATTEMPTS :: int where "MAX_FAILED_ATTEMPTS = 10"
definition LOCKOUT_DURATION_MS :: int where "LOCKOUT_DURATION_MS = 15 * 60 * 1000"

record lockout_status =
  lo_locked :: bool
  lo_lockedUntil :: "int option"
  lo_remainingMs :: int

definition unlocked :: lockout_status where
  "unlocked = \<lparr>lo_locked = False, lo_lockedUntil = None, lo_remainingMs = 0\<rparr>"

definition checkLockout :: "nat \<Rightarrow> int \<Rightarrow> (auth_db, string, lockout_status) prog" where
  "checkLockout i now =
    bind (query ''db'' (\<lambda>db. find_by us_id i (au_users db))) (\<lambda>user.
    case (case user of None \<Rightarrow> None | Some u \<Rightarrow> us_lockedUntil u) of
      None \<Rightarrow> ret unlocked
    | Some lockedUntilMs \<Rightarrow>
        if lockedUntilMs \<le> now then ret unlocked
        else ret \<lparr>lo_locked = True, lo_lockedUntil = Some lockedUntilMs, lo_remainingMs = lockedUntilMs - now\<rparr>)"

text \<open>\<^verbatim>\<open>user.update\<close>: rejects when the row is gone, else gives the new row.\<close>

definition update_user :: "nat \<Rightarrow> (user_row \<Rightarrow> user_row) \<Rightarrow> auth_db \<Rightarrow> (string + user_row) \<times> auth_db" where
  "update_user i f db =
    (case find_by us_id i (au_users db) of
       None \<Rightarrow> (Inl ''Record to update not found.'', db)
     | Some u \<Rightarrow> (Inr (f u), db\<lparr>au_users := upd_by us_id i f (au_users db)\<rparr>))"

definition recordFailedLogin :: "nat \<Rightarrow> int \<Rightarrow> (auth_db, string, lockout_status) prog" where
  "recordFailedLogin i now =
    bind (call ''db'' (update_user i (\<lambda>u. u\<lparr>us_failed := us_failed u + 1\<rparr>))) (\<lambda>user.
    if us_failed user \<ge> MAX_FAILED_ATTEMPTS then
      let lockedUntil = now + LOCKOUT_DURATION_MS
      in bind (call ''db'' (update_user i (\<lambda>u. u\<lparr>us_lockedUntil := Some lockedUntil\<rparr>))) (\<lambda>_.
         ret \<lparr>lo_locked = True, lo_lockedUntil = Some lockedUntil, lo_remainingMs = LOCKOUT_DURATION_MS\<rparr>)
    else ret unlocked)"

definition resetFailedLogins :: "nat \<Rightarrow> (auth_db, string, unit) prog" where
  "resetFailedLogins i =
    bind (call ''db'' (update_user i (\<lambda>u. u\<lparr>us_failed := 0, us_lockedUntil := None\<rparr>))) (\<lambda>_. ret ())"

subsection \<open>Login buckets with generations (auth-buckets.ts)\<close>

definition normalize :: "string \<Rightarrow> string" where
  "normalize email = map lower_char (js_trim email)"

definition generation :: "string \<Rightarrow> (string, nat) jsmap \<Rightarrow> nat" where
  "generation e gens = (case jm_get gens e of None \<Rightarrow> 0 | Some g \<Rightarrow> g)"

definition loginAccountKey :: "string \<Rightarrow> (string, nat) jsmap \<Rightarrow> string" where
  "loginAccountKey email gens =
    (let e = normalize email in ''login:user:'' @ e @ '':gen'' @ show_nat (generation e gens))"

definition bumpLoginBucketFor :: "string \<Rightarrow> auth_db \<Rightarrow> auth_db" where
  "bumpLoginBucketFor email db =
    (let e = normalize email in db\<lparr>au_generations := jm_set e (generation e (au_generations db) + 1) (au_generations db)\<rparr>)"

subsection \<open>Validation (validations.ts)\<close>

record login_body =
  lb_email :: "string option"
  lb_password :: "string option"

definition loginSchema :: "(string \<Rightarrow> bool) \<Rightarrow> login_body \<Rightarrow> string list" where
  "loginSchema is_email b =
    (case lb_email b of None \<Rightarrow> [''Required''] | Some e \<Rightarrow> if is_email e then [] else [''Invalid email address'']) @
    (case lb_password b of None \<Rightarrow> [''Required''] | Some p \<Rightarrow> if length p < 1 then [''Password is required''] else [])"

record register_body =
  rb_username :: "string option"
  rb_email :: "string option"
  rb_password :: "string option"

definition username_char :: "char \<Rightarrow> bool" where
  "username_char c \<longleftrightarrow>
    (let n = (of_char c :: nat)
     in 97 \<le> n \<and> n \<le> 122 \<or> 65 \<le> n \<and> n \<le> 90 \<or> 48 \<le> n \<and> n \<le> 57 \<or> c = CHR ''_'' \<or> c = CHR ''-'')"

definition registerSchema :: "(string \<Rightarrow> bool) \<Rightarrow> register_body \<Rightarrow> string list" where
  "registerSchema is_email b =
    (case rb_username b of
       None \<Rightarrow> [''Required'']
     | Some u \<Rightarrow>
         length_in 3 30 ''Username must be at least 3 characters'' ''Username must be at most 30 characters'' u @
         (if u \<noteq> [] \<and> list_all username_char u then []
          else [''Username can only contain letters, numbers, underscores, and hyphens''])) @
    (case rb_email b of None \<Rightarrow> [''Required''] | Some e \<Rightarrow> if is_email e then [] else [''Invalid email address'']) @
    (case rb_password b of
       None \<Rightarrow> [''Required'']
     | Some p \<Rightarrow> length_in 6 128 ''Password must be at least 6 characters'' ''Password must be at most 128 characters'' p)"

definition changePasswordSchema :: "string option \<Rightarrow> string option \<Rightarrow> string list" where
  "changePasswordSchema currentPassword newPassword =
    (case currentPassword of None \<Rightarrow> [''Required''] | Some p \<Rightarrow> if length p < 1 then [''Current password is required''] else []) @
    (case newPassword of
       None \<Rightarrow> [''Required'']
     | Some p \<Rightarrow> length_in 6 128 ''New password must be at least 6 characters'' ''Password too long'' p)"

definition updateProfileSchema :: "(string \<Rightarrow> bool) \<Rightarrow> string option \<Rightarrow> string option \<Rightarrow> string list" where
  "updateProfileSchema is_url bio avatar =
    (case bio of None \<Rightarrow> [] | Some b \<Rightarrow> if length b > 500 then [''Bio must be 500 characters or fewer''] else []) @
    (case avatar of None \<Rightarrow> [] | Some a \<Rightarrow> if a = [] \<or> is_url a then [] else [''Avatar must be a URL''])"

subsection \<open>The routes\<close>

record basic_user =
  pu_id :: nat
  pu_email :: string
  pu_username :: string
  pu_role :: string
  pu_createdAt :: int

record public_user = basic_user +
  pu_avatar :: "string option"
  pu_bio :: "string option"

definition basic_of :: "user_row \<Rightarrow> basic_user" where
  "basic_of u = \<lparr>pu_id = us_id u, pu_email = us_email u, pu_username = us_username u, pu_role = us_role u, pu_createdAt = us_createdAt u\<rparr>"

definition public_of :: "user_row \<Rightarrow> public_user" where
  "public_of u = \<lparr>pu_id = us_id u, pu_email = us_email u, pu_username = us_username u, pu_role = us_role u, pu_createdAt = us_createdAt u,
     pu_avatar = us_avatar u, pu_bio = us_bio u\<rparr>"

text \<open>\<^verbatim>\<open>auth/login/route.ts\<close>\<close>

definition check_password :: "deps \<Rightarrow> string \<Rightarrow> string \<Rightarrow> (auth_db, string, public_user reply) prog" where
  "check_password d email password =
    bind (query ''db'' (\<lambda>db. find_by us_email email (au_users db))) (\<lambda>user.
    case user of
      None \<Rightarrow> ret (Failed 401 ''Invalid credentials'')
    | Some u \<Rightarrow>
        if \<not> dp_compare d password (us_password u) then ret (Failed 401 ''Invalid credentials'')
        else bind (set_cookie (Some (signToken d (jwt_of u)))) (\<lambda>_. ret (Reply 200 (public_of u))))"

definition login_POST :: "deps \<Rightarrow> headers \<Rightarrow> login_body option \<Rightarrow> int \<Rightarrow> (auth_db, string, public_user reply) prog" where
  "login_POST d h body now =
    catch
      (bind (limited (''login:'' @ clientIp (dp_env d) h) 5 (15 * 60000) now) (\<lambda>limit.
       if \<not> allowed limit then ret (Failed 429 ''Too many login attempts. Try again later.'')
       else case body of
         None \<Rightarrow> ret (Failed 400 ''Invalid JSON body'')
       | Some b \<Rightarrow>
           (case loginSchema (dp_is_email d) b of
              msg # _ \<Rightarrow> ret (Failed 400 msg)
            | [] \<Rightarrow>
                bind (state_op (\<lambda>db. (loginAccountKey (the (lb_email b)) (au_generations db), db))) (\<lambda>key.
                bind (limited key 5 (15 * 60000) now) (\<lambda>accountLimit.
                if \<not> allowed accountLimit then ret (Failed 429 ''Too many login attempts for this account. Try again later.'')
                else check_password d (the (lb_email b)) (the (lb_password b)))))))
      (\<lambda>_. ret (Failed 500 ''Internal server error''))"

text \<open>\<^verbatim>\<open>auth/register/route.ts\<close>; the table's unique columns refuse a row whose email or name is taken.\<close>

definition create_user :: "user_row \<Rightarrow> auth_db \<Rightarrow> (string + user_row) \<times> auth_db" where
  "create_user u db =
    (if us_id u \<in> us_id ` set (au_users db) \<or> us_email u \<in> us_email ` set (au_users db) \<or>
        us_username u \<in> us_username ` set (au_users db)
     then (Inl ''Unique constraint failed'', db)
     else (Inr u, db\<lparr>au_users := au_users db @ [u]\<rparr>))"

definition new_user :: "nat \<Rightarrow> string \<Rightarrow> string \<Rightarrow> string \<Rightarrow> int \<Rightarrow> user_row" where
  "new_user i email username hashed now =
    \<lparr>us_id = i, us_email = email, us_username = username, us_password = hashed, us_role = ''user'', us_failed = 0,
     us_lockedUntil = None, us_avatar = None, us_bio = None, us_createdAt = now\<rparr>"

definition emailPrefix :: "string \<Rightarrow> string" where
  "emailPrefix email = map lower_char (hd (split_on (CHR ''@'') email))"

definition register_user ::
  "deps \<Rightarrow> string \<Rightarrow> string \<Rightarrow> string \<Rightarrow> nat \<Rightarrow> int \<Rightarrow> (auth_db, string, basic_user reply) prog" where
  "register_user d email username password newId now =
    bind (query ''db'' (\<lambda>db. find (\<lambda>u. us_email u = email \<or> us_username u = username) (au_users db))) (\<lambda>existing.
    case existing of
      Some e \<Rightarrow> ret (Failed 409 ((if us_email e = email then ''Email'' else ''Username'') @ '' already in use''))
    | None \<Rightarrow>
        bind (call ''db'' (create_user (new_user newId email username (dp_hash d password) now))) (\<lambda>user.
        bind (set_cookie (Some (signToken d (jwt_of user)))) (\<lambda>_. ret (Reply 201 (basic_of user)))))"

definition register_POST ::
  "deps \<Rightarrow> headers \<Rightarrow> register_body option \<Rightarrow> nat \<Rightarrow> int \<Rightarrow> (auth_db, string, basic_user reply) prog" where
  "register_POST d h body newId now =
    catch
      (case body of
         None \<Rightarrow> ret (Failed 400 ''Invalid JSON body'')
       | Some b \<Rightarrow>
           (case registerSchema (dp_is_email d) b of
              msg # _ \<Rightarrow> ret (Failed 400 msg)
            | [] \<Rightarrow>
                bind (limited (''register:ip:'' @ clientIp (dp_env d) h) 5 (60 * 60000) now) (\<lambda>ipLimit.
                if \<not> allowed ipLimit then ret (Failed 429 ''Too many registration attempts. Try again later.'')
                else bind (limited (''register:email:'' @ emailPrefix (the (rb_email b))) 3 (60 * 60000) now) (\<lambda>emailLimit.
                if \<not> allowed emailLimit then ret (Failed 429 ''Too many registration attempts for this email. Try again later.'')
                else register_user d (the (rb_email b)) (the (rb_username b)) (the (rb_password b)) newId now))))
      (\<lambda>_. ret (Failed 500 ''Internal server error''))"

text \<open>\<^verbatim>\<open>auth/change-password/route.ts\<close>\<close>

definition replace_password :: "deps \<Rightarrow> nat \<Rightarrow> string \<Rightarrow> string \<Rightarrow> (auth_db, string, unit reply) prog" where
  "replace_password d i currentPassword newPassword =
    bind (query ''db'' (\<lambda>db. find_by us_id i (au_users db))) (\<lambda>user.
    case user of
      None \<Rightarrow> ret (Failed 404 ''User not found'')
    | Some u \<Rightarrow>
        if \<not> dp_compare d currentPassword (us_password u) then ret (Failed 401 ''Current password is incorrect'')
        else bind (call ''db'' (update_user (us_id u) (\<lambda>r. r\<lparr>us_password := dp_hash d newPassword\<rparr>))) (\<lambda>_.
             bind (state_op (\<lambda>db. ((), bumpLoginBucketFor (us_email u) db))) (\<lambda>_. ret (Reply 200 ()))))"

definition change_password_POST ::
  "deps \<Rightarrow> jwt_payload option \<Rightarrow> (string option \<times> string option) option \<Rightarrow> (auth_db, string, unit reply) prog" where
  "change_password_POST d session body =
    catch
      (case session of
         None \<Rightarrow> ret (Failed 401 ''Unauthorized'')
       | Some se \<Rightarrow>
           (case body of
              None \<Rightarrow> ret (Failed 400 ''Invalid JSON body'')
            | Some (currentPassword, newPassword) \<Rightarrow>
                (case changePasswordSchema currentPassword newPassword of
                   msg # _ \<Rightarrow> ret (Failed 400 msg)
                 | [] \<Rightarrow>
                     if currentPassword = newPassword then
                       ret (Failed 400 ''New password must be different from the current password'')
                     else replace_password d (jp_userId se) (the currentPassword) (the newPassword))))
      (\<lambda>_. ret (Failed 500 ''Internal server error''))"

text \<open>\<^verbatim>\<open>auth/me\<close>, \<^verbatim>\<open>auth/logout\<close>, \<^verbatim>\<open>auth/sessions\<close>, \<^verbatim>\<open>auth/profile\<close>\<close>

definition me_GET :: "jwt_payload option \<Rightarrow> (auth_db, string, public_user reply) prog" where
  "me_GET session =
    catch
      (case session of
         None \<Rightarrow> ret (Failed 401 ''Unauthorized'')
       | Some se \<Rightarrow>
           bind (query ''db'' (\<lambda>db. find_by us_id (jp_userId se) (au_users db))) (\<lambda>user.
             case user of
               None \<Rightarrow> ret (Failed 404 ''User not found'')
             | Some u \<Rightarrow> ret (Reply 200 (public_of u))))
      (\<lambda>_. ret (Failed 500 ''Internal server error''))"

definition logout_POST :: "(auth_db, string, unit reply) prog" where
  "logout_POST = bind (set_cookie None) (\<lambda>_. ret (Reply 200 ()))"

record session_line =
  sl_userId :: nat
  sl_username :: string
  sl_role :: string
  sl_current :: bool

definition sessions_GET :: "jwt_payload option \<Rightarrow> (auth_db, string, session_line list reply) prog" where
  "sessions_GET session =
    (case session of
       None \<Rightarrow> ret (Failed 401 ''Unauthorized'')
     | Some se \<Rightarrow> ret (Reply 200 [\<lparr>sl_userId = jp_userId se, sl_username = jp_username se, sl_role = jp_role se, sl_current = True\<rparr>]))"

record profile_line =
  pl_id :: nat
  pl_username :: string
  pl_avatar :: "string option"
  pl_bio :: "string option"
  pl_createdAt :: int

definition profile_GET :: "jwt_payload option \<Rightarrow> (auth_db, string, profile_line reply) prog" where
  "profile_GET session =
    catch
      (case session of
         None \<Rightarrow> ret (Failed 401 ''Unauthorized'')
       | Some se \<Rightarrow>
           bind (query ''db'' (\<lambda>db. find_by us_id (jp_userId se) (au_users db))) (\<lambda>user.
             case user of
               None \<Rightarrow> ret (Failed 404 ''User not found'')
             | Some u \<Rightarrow> ret (Reply 200 \<lparr>pl_id = us_id u, pl_username = us_username u, pl_avatar = us_avatar u,
                 pl_bio = us_bio u, pl_createdAt = us_createdAt u\<rparr>)))
      (\<lambda>_. ret (Failed 500 ''Internal server error''))"

text \<open>The columns that were sent; an empty avatar clears the column.\<close>

definition profile_data :: "string option \<Rightarrow> string option \<Rightarrow> user_row \<Rightarrow> user_row" where
  "profile_data bio avatar u =
    (let u = (case bio of None \<Rightarrow> u | Some b \<Rightarrow> u\<lparr>us_bio := Some b\<rparr>)
     in case avatar of None \<Rightarrow> u | Some a \<Rightarrow> u\<lparr>us_avatar := (if a = [] then None else Some a)\<rparr>)"

definition profile_PATCH ::
  "deps \<Rightarrow> jwt_payload option \<Rightarrow> (string option \<times> string option) option \<Rightarrow> int \<Rightarrow> (auth_db, string, public_user reply) prog" where
  "profile_PATCH d session body now =
    catch
      (case session of
         None \<Rightarrow> ret (Failed 401 ''Unauthorized'')
       | Some se \<Rightarrow>
           bind (limited (''profile:'' @ show_nat (jp_userId se)) 10 60000 now) (\<lambda>limit.
           if \<not> allowed limit then ret (Failed 429 ''Too many profile updates. Slow down.'')
           else case body of
             None \<Rightarrow> ret (Failed 400 ''Invalid JSON body'')
           | Some (bio, avatar) \<Rightarrow>
               (case updateProfileSchema (dp_is_url d) bio avatar of
                  msg # _ \<Rightarrow> ret (Failed 400 msg)
                | [] \<Rightarrow>
                    bind (call ''db'' (update_user (jp_userId se) (profile_data bio avatar))) (\<lambda>u.
                    ret (Reply 200 (public_of u))))))
      (\<lambda>_. ret (Failed 500 ''Internal server error''))"

interpretation auth_limiter: limiter_part au_limiter put_limiter
  by unfold_locales (simp add: put_limiter_def)

subsection \<open>What a login does\<close>

lemma auth_limited_run: "limited key mx w now (fs, s) =
    (Inr (fst (memoryCheck key mx w now (au_limiter s))), (fs, put_limiter (snd (memoryCheck key mx w now (au_limiter s))) s))"
  unfolding limited_def by (rule auth_limiter.limited_run)

lemma put_limiter_simps [simp]:
  "au_limiter (put_limiter b s) = b" "au_users (put_limiter b s) = au_users s"
  "au_generations (put_limiter b s) = au_generations s" "au_cookie (put_limiter b s) = au_cookie s"
  "put_limiter b (put_limiter b' s) = put_limiter b s"
  by (simp_all add: put_limiter_def)

lemma check_password_run:
  "(\<exists>e. check_password d email pw (fs, s) = (Inl e, (tl fs, s))) \<or>
   check_password d email pw (fs, s) = (Inr (Failed 401 ''Invalid credentials''), (tl fs, s)) \<or>
   (\<exists>u. find_by us_email email (au_users s) = Some u \<and> dp_compare d pw (us_password u) \<and>
     check_password d email pw (fs, s) = (Inr (Reply 200 (public_of u)), (tl fs, s\<lparr>au_cookie := Some (signToken d (jwt_of u))\<rparr>)))"
  by (cases "find_by us_email email (au_users s)")
    (auto simp: check_password_def bind_def query_hd set_cookie_def)

lemma loginSchema_fields:
  assumes "loginSchema is_email b = []"
  obtains e p where "lb_email b = Some e" "lb_password b = Some p" "is_email e" "p \<noteq> []"
  using assms by (auto simp: loginSchema_def split: option.splits if_splits)

text \<open>The limiter's calls of a login, and whether it comes to the comparison of the password.\<close>

definition login_ip :: "deps \<Rightarrow> headers \<Rightarrow> string" where
  "login_ip d h = ''login:'' @ clientIp (dp_env d) h"

definition parsed_login :: "deps \<Rightarrow> login_body option \<Rightarrow> (string \<times> string) option" where
  "parsed_login d body =
    (case body of None \<Rightarrow> None
     | Some b \<Rightarrow> if loginSchema (dp_is_email d) b = [] then Some (the (lb_email b), the (lb_password b)) else None)"

lemma login_POST_run:
  fixes s :: auth_db and d :: deps and h :: headers and now :: int
  defines "i \<equiv> memoryCheck (login_ip d h) 5 900000 now (au_limiter s)"
  shows "login_POST d h body now (fs, s) =
    (if \<not> allowed (fst i) then (Inr (Failed 429 ''Too many login attempts. Try again later.''), (fs, put_limiter (snd i) s))
     else case parsed_login d body of
       None \<Rightarrow> (Inr (Failed 400 (case body of None \<Rightarrow> ''Invalid JSON body'' | Some b \<Rightarrow> hd (loginSchema (dp_is_email d) b))), (fs, put_limiter (snd i) s))
     | Some (email, pw) \<Rightarrow>
         let a = memoryCheck (loginAccountKey email (au_generations s)) 5 900000 now (snd i)
         in if \<not> allowed (fst a) then
              (Inr (Failed 429 ''Too many login attempts for this account. Try again later.''), (fs, put_limiter (snd a) s))
            else catch (check_password d email pw) (\<lambda>_. ret (Failed 500 ''Internal server error'')) (fs, put_limiter (snd a) s))"
proof (cases "allowed (fst i)")
  case True
  show ?thesis
  proof (cases body)
    case (Some b)
    show ?thesis
      using True unfolding i_def login_ip_def parsed_login_def Some
      by (cases "loginSchema (dp_is_email d) b") (simp_all add: login_POST_def catch_def bind_def auth_limited_run Let_def)
  qed (use True in \<open>simp add: i_def login_ip_def parsed_login_def login_POST_def catch_def bind_def auth_limited_run\<close>)
qed (simp add: i_def login_ip_def login_POST_def catch_def bind_def auth_limited_run)

lemma login_POST_outcome:
  "(\<exists>n msg b gs. login_POST d h body now (fs, s) = (Inr (Failed n msg), (gs, put_limiter b s))) \<or>
   (\<exists>email pw u b gs. parsed_login d body = Some (email, pw) \<and> find_by us_email email (au_users s) = Some u \<and>
     dp_compare d pw (us_password u) \<and>
     login_POST d h body now (fs, s) = (Inr (Reply 200 (public_of u)), (gs, (put_limiter b s)\<lparr>au_cookie := Some (signToken d (jwt_of u))\<rparr>)))"
proof -
  let ?i = "memoryCheck (login_ip d h) 5 900000 now (au_limiter s)"
  consider "\<not> allowed (fst ?i)" | "allowed (fst ?i)" "parsed_login d body = None"
    | email pw where "allowed (fst ?i)" "parsed_login d body = Some (email, pw)" by (cases "parsed_login d body") auto
  then show ?thesis
  proof cases
    case 3
    let ?a = "memoryCheck (loginAccountKey email (au_generations s)) 5 900000 now (snd ?i)"
    show ?thesis
    proof (cases "allowed (fst ?a)")
      case True
      from check_password_run [of d email pw fs "put_limiter (snd ?a) s"] show ?thesis
        using 3 True by (auto simp: login_POST_run Let_def catch_def)
    qed (use 3 in \<open>auto simp: login_POST_run Let_def\<close>)
  qed (auto simp: login_POST_run)
qed

text \<open>
  C17. A session is given for a password only. Whatever database calls fail and whatever the
  limiter's buckets hold: a login changes no account; either it is refused with a status and leaves
  the client's cookie as it was, or the sent password is that of the account with the sent
  email, the reply shows that account, and the cookie is a token signed for its id, name and role.
\<close>

theorem login_needs_the_password:
  fixes s :: auth_db and d :: deps and h :: headers and body :: "login_body option" and now :: int and fs :: "bool list"
  defines "t \<equiv> after (login_POST d h body now) fs s"
  shows "au_users t = au_users s \<and> au_generations t = au_generations s \<and>
    ((\<exists>n msg. result (login_POST d h body now) fs s = Inr (Failed n msg) \<and> au_cookie t = au_cookie s) \<or>
     (\<exists>b email pw u. body = Some b \<and> lb_email b = Some email \<and> lb_password b = Some pw \<and>
        u \<in> set (au_users s) \<and> us_email u = email \<and> dp_compare d pw (us_password u) \<and>
        result (login_POST d h body now) fs s = Inr (Reply 200 (public_of u)) \<and>
        au_cookie t = Some (signToken d (jwt_of u))))"
  using login_POST_outcome [of d h body now fs s]
proof (elim disjE exE conjE)
  fix n msg b gs
  assume "login_POST d h body now (fs, s) = (Inr (Failed n msg), (gs, put_limiter b s))"
  then show ?thesis by (simp add: t_def after_def result_def)
next
  fix email pw u b gs
  assume h: "parsed_login d body = Some (email, pw)" "find_by us_email email (au_users s) = Some u" "dp_compare d pw (us_password u)"
    "login_POST d h body now (fs, s) = (Inr (Reply 200 (public_of u)), (gs, (put_limiter b s)\<lparr>au_cookie := Some (signToken d (jwt_of u))\<rparr>))"
  obtain lb where lb: "body = Some lb" "loginSchema (dp_is_email d) lb = []" "email = the (lb_email lb)" "pw = the (lb_password lb)"
    using h(1) by (auto simp: parsed_login_def split: option.splits if_splits)
  then have "lb_email lb = Some email" "lb_password lb = Some pw" by (auto elim: loginSchema_fields)
  then show ?thesis
    using h lb(1) find_by_in [OF h(2)] find_by_key [OF h(2)] by (simp add: t_def after_def result_def) blast
qed

subsection \<open>Guessing passwords\<close>

































text \<open>A library for examples: every token is its own header and payload, every hash its password.\<close>

definition sample_deps :: deps where
  "sample_deps =
    \<lparr>dp_env = \<lparr>ev_node_env = Some ''production'', ev_jwt_secret = Some ''0123456789abcdef'', ev_legacy = None, ev_proxy_token = None\<rparr>,
     dp_jose = \<lparr>jo_header = (\<lambda>t. if t = [] then None else Some (Some (if hd t = CHR ''h'' then ''HS256'' else ''EdDSA''))),
       jo_jwks = (\<lambda>t. Some \<lparr>jp_userId = 1, jp_email = ''a@b'', jp_username = ''ann'', jp_role = ''admin''\<rparr>),
       jo_secret = (\<lambda>k t. Some \<lparr>jp_userId = 1, jp_email = ''a@b'', jp_username = ''ann'', jp_role = ''admin''\<rparr>),
       jo_sign = (\<lambda>k p. CHR ''h'' # jp_username p)\<rparr>,
     dp_secret = ''0123456789abcdef'', dp_compare = (=), dp_hash = (\<lambda>p. p), dp_is_email = (\<lambda>e. CHR ''@'' \<in> set e),
     dp_is_url = (\<lambda>u. True)\<rparr>"

definition ann :: user_row where
  "ann = new_user 1 ''a@b'' ''ann'' ''secret'' 0"

definition sample_auth :: auth_db where
  "sample_auth = \<lparr>au_users = [ann], au_limiter = [], au_generations = [], au_cookie = None\<rparr>"



subsection \<open>Registering\<close>

definition accounts_ok :: "auth_db \<Rightarrow> bool" where
  "accounts_ok db \<longleftrightarrow> distinct (map us_id (au_users db)) \<and> distinct (map us_email (au_users db)) \<and>
    distinct (map us_username (au_users db))"

lemma register_user_run:
  "(\<exists>e gs. register_user d email username pw i now (fs, s) = (Inl e, (gs, s))) \<or>
   (\<exists>n msg gs. register_user d email username pw i now (fs, s) = (Inr (Failed n msg), (gs, s))) \<or>
   (let u = new_user i email username (dp_hash d pw) now
    in i \<notin> us_id ` set (au_users s) \<and> email \<notin> us_email ` set (au_users s) \<and> username \<notin> us_username ` set (au_users s) \<and>
       (\<exists>gs. register_user d email username pw i now (fs, s) =
         (Inr (Reply 201 (basic_of u)), (gs, s\<lparr>au_users := au_users s @ [u], au_cookie := Some (signToken d (jwt_of u))\<rparr>))))"
  by (cases "find (\<lambda>u. us_email u = email \<or> us_username u = username) (au_users s)")
    (auto simp: register_user_def bind_def query_hd call_hd create_user_def set_cookie_def new_user_def Let_def)

lemma registerSchema_fields:
  assumes "registerSchema is_email b = []"
  shows "\<exists>e u p. rb_email b = Some e \<and> rb_username b = Some u \<and> rb_password b = Some p \<and> is_email e \<and>
    3 \<le> length u \<and> length u \<le> 30 \<and> list_all username_char u \<and> 6 \<le> length p \<and> length p \<le> 128"
  using assms by (auto simp: registerSchema_def split: option.splits if_splits)

lemma register_POST_run:
  "(\<exists>n msg b gs. register_POST d h body i now (fs, s) = (Inr (Failed n msg), (gs, put_limiter b s))) \<or>
   (\<exists>rb e u p l. body = Some rb \<and> registerSchema (dp_is_email d) rb = [] \<and> rb_email rb = Some e \<and> rb_username rb = Some u \<and>
      rb_password rb = Some p \<and>
      register_POST d h body i now (fs, s) =
        catch (register_user d e u p i now) (\<lambda>_. ret (Failed 500 ''Internal server error'')) (fs, put_limiter l s))"
proof (cases "\<exists>rb. body = Some rb \<and> registerSchema (dp_is_email d) rb = []")
  case True
  then obtain rb where rb: "body = Some rb" "registerSchema (dp_is_email d) rb = []" by blast
  then obtain e u p where f: "rb_email rb = Some e" "rb_username rb = Some u" "rb_password rb = Some p"
    using registerSchema_fields by blast
  let ?i = "memoryCheck (''register:ip:'' @ clientIp (dp_env d) h) 5 3600000 now (au_limiter s)"
  let ?j = "memoryCheck (''register:email:'' @ emailPrefix e) 3 3600000 now (snd ?i)"
  have "register_POST d h body i now (fs, s) =
     (if \<not> allowed (fst ?i) then (Inr (Failed 429 ''Too many registration attempts. Try again later.''), (fs, put_limiter (snd ?i) s))
      else if \<not> allowed (fst ?j) then (Inr (Failed 429 ''Too many registration attempts for this email. Try again later.''), (fs, put_limiter (snd ?j) s))
      else catch (register_user d e u p i now) (\<lambda>_. ret (Failed 500 ''Internal server error'')) (fs, put_limiter (snd ?j) s))"
    by (simp add: register_POST_def rb f catch_def bind_def auth_limited_run)
  then show ?thesis using rb f by auto
next
  case False
  have "s = put_limiter (au_limiter s) s" by (simp add: put_limiter_def)
  then have "\<exists>n msg. register_POST d h body i now (fs, s) = (Inr (Failed n msg), (fs, put_limiter (au_limiter s) s))"
    using False by (cases body; cases "registerSchema (dp_is_email d) (the body)") (auto simp: register_POST_def catch_def)
  then show ?thesis by blast
qed

text \<open>
  Registering keeps accounts apart. Whatever database calls fail: if ids, emails and user names are
  distinct they stay so; either the request is refused, and accounts and cookie are as before, or
  one account is added, with the sent email and name, both new, the role of a plain user and the
  hash of the password, and the client's cookie is a token for it.
\<close>

theorem registration_adds_one_account:
  fixes s :: auth_db and d :: deps and h :: headers and body :: "register_body option" and now :: int and fs :: "bool list" and i :: nat
  assumes "accounts_ok s"
  defines "t \<equiv> after (register_POST d h body i now) fs s"
  shows "accounts_ok t \<and> au_generations t = au_generations s \<and>
    ((\<exists>n msg. result (register_POST d h body i now) fs s = Inr (Failed n msg) \<and> au_users t = au_users s \<and> au_cookie t = au_cookie s) \<or>
     (\<exists>u pw. au_users t = au_users s @ [u] \<and> us_id u = i \<and> us_role u = ''user'' \<and> us_password u = dp_hash d pw \<and>
        3 \<le> length (us_username u) \<and> length (us_username u) \<le> 30 \<and> list_all username_char (us_username u) \<and>
        6 \<le> length pw \<and> length pw \<le> 128 \<and> dp_is_email d (us_email u) \<and>
        us_email u \<notin> us_email ` set (au_users s) \<and> us_username u \<notin> us_username ` set (au_users s) \<and>
        result (register_POST d h body i now) fs s = Inr (Reply 201 (basic_of u)) \<and>
        au_cookie t = Some (signToken d (jwt_of u))))"
  using register_POST_run [of d h body i now fs s]
proof (elim disjE exE conjE)
  fix n msg b gs
  assume "register_POST d h body i now (fs, s) = (Inr (Failed n msg), (gs, put_limiter b s))"
  then show ?thesis using assms(1) by (simp add: t_def after_def result_def accounts_ok_def)
next
  fix rb e u p l
  assume h: "body = Some rb" "registerSchema (dp_is_email d) rb = []" "rb_email rb = Some e" "rb_username rb = Some u"
    "rb_password rb = Some p" "register_POST d h body i now (fs, s) =
        catch (register_user d e u p i now) (\<lambda>_. ret (Failed 500 ''Internal server error'')) (fs, put_limiter l s)"
  have f: "dp_is_email d e" "3 \<le> length u" "length u \<le> 30" "list_all username_char u" "6 \<le> length p" "length p \<le> 128"
    using registerSchema_fields [OF h(2)] h(3-5) by auto
  from register_user_run [of d e u p i now fs "put_limiter l s"] show ?thesis
  proof (elim disjE exE)
    fix e' gs assume "register_user d e u p i now (fs, put_limiter l s) = (Inl e', (gs, put_limiter l s))"
    then show ?thesis using h(6) assms(1) by (simp add: t_def after_def result_def accounts_ok_def catch_def)
  next
    fix n msg gs assume "register_user d e u p i now (fs, put_limiter l s) = (Inr (Failed n msg), (gs, put_limiter l s))"
    then show ?thesis using h(6) assms(1) by (simp add: t_def after_def result_def accounts_ok_def catch_def)
  next
    let ?u = "new_user i e u (dp_hash d p) now"
    assume "let u' = ?u in i \<notin> us_id ` set (au_users (put_limiter l s)) \<and> e \<notin> us_email ` set (au_users (put_limiter l s)) \<and>
        u \<notin> us_username ` set (au_users (put_limiter l s)) \<and>
        (\<exists>gs. register_user d e u p i now (fs, put_limiter l s) = (Inr (Reply 201 (basic_of u')),
          (gs, (put_limiter l s)\<lparr>au_users := au_users (put_limiter l s) @ [u'], au_cookie := Some (signToken d (jwt_of u'))\<rparr>)))"
    then obtain gs where r: "i \<notin> us_id ` set (au_users s)" "e \<notin> us_email ` set (au_users s)" "u \<notin> us_username ` set (au_users s)"
      "register_user d e u p i now (fs, put_limiter l s) = (Inr (Reply 201 (basic_of ?u)),
          (gs, (put_limiter l s)\<lparr>au_users := au_users s @ [?u], au_cookie := Some (signToken d (jwt_of ?u))\<rparr>))"
      by (auto simp: Let_def)
    have n: "us_id ?u = i" "us_email ?u = e" "us_username ?u = u" "us_role ?u = ''user''" "us_password ?u = dp_hash d p"
      by (simp_all add: new_user_def)
    have t: "t = (put_limiter l s)\<lparr>au_users := au_users s @ [?u], au_cookie := Some (signToken d (jwt_of ?u))\<rparr>"
      using h(6) r(4) by (simp add: t_def after_def catch_def)
    have res: "result (register_POST d h body i now) fs s = Inr (Reply 201 (basic_of ?u))"
      using h(6) r(4) by (simp add: result_def catch_def)
    have "accounts_ok t" using assms(1) r(1-3) by (simp add: t accounts_ok_def n)
    then show ?thesis using res f r(2,3) n by (simp add: t) blast
  qed
qed

lemma registration_adds_one_account_witness:
  "accounts_ok (after (register_POST sample_deps \<lparr>hd_xff = None, hd_proxy = None, hd_real = None\<rparr>
     (Some \<lparr>rb_username = Some ''bob'', rb_email = Some ''b@c'', rb_password = Some ''secret''\<rparr>) 2 5) [] sample_auth)"
  using registration_adds_one_account [of sample_auth] by (simp add: accounts_ok_def sample_auth_def)

subsection \<open>Lockout\<close>

text \<open>Failed logins recorded one after the other.\<close>

fun failures :: "nat \<Rightarrow> int list \<Rightarrow> auth_db \<Rightarrow> auth_db" where
  "failures i [] db = db"
| "failures i (t # ts) db = failures i ts (after (recordFailedLogin i t) [] db)"

lemma update_user_Some: "find_by us_id i (au_users db) = Some u \<Longrightarrow>
    update_user i f db = (Inr (f u), db\<lparr>au_users := upd_by us_id i f (au_users db)\<rparr>)"
  by (simp add: update_user_def)

lemma recordFailedLogin_after:
  assumes "find_by us_id i (au_users db) = Some u"
  shows "find_by us_id i (au_users (after (recordFailedLogin i t) [] db)) =
    Some (u\<lparr>us_failed := us_failed u + 1, us_lockedUntil := (if us_failed u + 1 \<ge> 10 then Some (t + 900000) else us_lockedUntil u)\<rparr>)"
  using assms
  by (simp add: after_def recordFailedLogin_def bind_def update_user_Some find_by_upd Let_def
      MAX_FAILED_ATTEMPTS_def LOCKOUT_DURATION_MS_def)

lemma failures_row:
  assumes "find_by us_id i (au_users db) = Some u" "ts \<noteq> []"
  shows "find_by us_id i (au_users (failures i ts db)) =
    Some (u\<lparr>us_failed := us_failed u + int (length ts),
      us_lockedUntil := (if us_failed u + int (length ts) \<ge> 10 then Some (last ts + 900000) else us_lockedUntil u)\<rparr>)"
  using assms
proof (induction ts arbitrary: db u)
  case (Cons t ts)
  show ?case
  proof (cases "ts = []")
    case True
    then show ?thesis using recordFailedLogin_after [OF Cons.prems(1), of t] by simp
  next
    case False
    show ?thesis
      using Cons.IH [OF recordFailedLogin_after [OF Cons.prems(1), of t] False] False by (simp add: algebra_simps)
  qed
qed simp

text \<open>
  Ten failures lock an account for a quarter of an hour. After any failed logins of an account
  have been recorded, its lock is checked at any moment: it is locked exactly if it has ten or
  more failures since the last success and the last one is less than 15 minutes ago, or if an older
  lock still runs; the remaining time is right. The count is not reset when a lock runs out, so one
  more failure then locks again; a success clears both.
\<close>

theorem ten_failures_lock:
  assumes "find_by us_id i (au_users db) = Some u" "ts \<noteq> []"
  shows "result (checkLockout i now) [] (failures i ts db) =
      Inr (case (if us_failed u + int (length ts) \<ge> 10 then Some (last ts + 900000) else us_lockedUntil u) of
             None \<Rightarrow> \<lparr>lo_locked = False, lo_lockedUntil = None, lo_remainingMs = 0\<rparr>
           | Some until \<Rightarrow> if now < until then \<lparr>lo_locked = True, lo_lockedUntil = Some until, lo_remainingMs = until - now\<rparr>
                           else \<lparr>lo_locked = False, lo_lockedUntil = None, lo_remainingMs = 0\<rparr>)"
    and "result (checkLockout i now) [] (after (resetFailedLogins i) [] (failures i ts db)) =
      Inr \<lparr>lo_locked = False, lo_lockedUntil = None, lo_remainingMs = 0\<rparr>"
proof -
  note row = failures_row [OF assms]
  show "result (checkLockout i now) [] (failures i ts db) =
      Inr (case (if us_failed u + int (length ts) \<ge> 10 then Some (last ts + 900000) else us_lockedUntil u) of
             None \<Rightarrow> \<lparr>lo_locked = False, lo_lockedUntil = None, lo_remainingMs = 0\<rparr>
           | Some until \<Rightarrow> if now < until then \<lparr>lo_locked = True, lo_lockedUntil = Some until, lo_remainingMs = until - now\<rparr>
                           else \<lparr>lo_locked = False, lo_lockedUntil = None, lo_remainingMs = 0\<rparr>)"
    by (auto simp: result_def checkLockout_def bind_def row unlocked_def split: option.split)
  show "result (checkLockout i now) [] (after (resetFailedLogins i) [] (failures i ts db)) =
      Inr \<lparr>lo_locked = False, lo_lockedUntil = None, lo_remainingMs = 0\<rparr>"
    by (simp add: result_def after_def checkLockout_def resetFailedLogins_def bind_def update_user_Some [OF row] find_by_upd row unlocked_def)
qed

lemma ten_failures_lock_witness:
  "result (checkLockout 1 100) [] (failures 1 [1, 2, 3, 4, 5, 6, 7, 8, 9, 10] sample_auth) =
     Inr \<lparr>lo_locked = True, lo_lockedUntil = Some 900010, lo_remainingMs = 899910\<rparr>"
  by (subst ten_failures_lock(1) [of 1 sample_auth ann]) (simp_all add: sample_auth_def ann_def new_user_def)

text \<open>The lock columns of the accounts set to anything.\<close>

definition with_locks :: "(nat \<Rightarrow> int \<times> int option) \<Rightarrow> auth_db \<Rightarrow> auth_db" where
  "with_locks f db = db\<lparr>au_users := map (\<lambda>u. u\<lparr>us_failed := fst (f (us_id u)), us_lockedUntil := snd (f (us_id u))\<rparr>) (au_users db)\<rparr>"

lemma find_with_locks: "find_by us_email e (au_users (with_locks f db)) =
    map_option (\<lambda>u. u\<lparr>us_failed := fst (f (us_id u)), us_lockedUntil := snd (f (us_id u))\<rparr>) (find_by us_email e (au_users db))"
proof -
  have "find_by us_email e (map (\<lambda>u. u\<lparr>us_failed := fst (f (us_id u)), us_lockedUntil := snd (f (us_id u))\<rparr>) us) =
    map_option (\<lambda>u. u\<lparr>us_failed := fst (f (us_id u)), us_lockedUntil := snd (f (us_id u))\<rparr>) (find_by us_email e us)" for us
    by (induction us) simp_all
  then show ?thesis by (simp add: with_locks_def)
qed

lemma with_locks_simps [simp]:
  "au_limiter (with_locks f s) = au_limiter s" "au_generations (with_locks f s) = au_generations s"
  "au_cookie (with_locks f s) = au_cookie s" "put_limiter b (with_locks f s) = with_locks f (put_limiter b s)"
  by (simp_all add: with_locks_def put_limiter_def)

text \<open>
  A locked account logs in. The login route never asks for the lock: whatever the lock columns of
  the accounts hold, every login gets the reply and the cookie that it gets without them.
\<close>

theorem login_ignores_locks:
  "result (login_POST d h body now) fs (with_locks f s) = result (login_POST d h body now) fs s \<and>
   au_cookie (after (login_POST d h body now) fs (with_locks f s)) = au_cookie (after (login_POST d h body now) fs s)"
proof -
  have c: "fst (catch (check_password d email pw) k (fs, with_locks f t)) = fst (catch (check_password d email pw) k (fs, t)) \<and>
      au_cookie (snd (snd (catch (check_password d email pw) k (fs, with_locks f t)))) =
      au_cookie (snd (snd (catch (check_password d email pw) k (fs, t))))" if "k = (\<lambda>_. ret x)" for email pw k x t
    using that
    by (cases "find_by us_email email (au_users t)")
      (auto simp: catch_def check_password_def bind_def query_hd set_cookie_def find_with_locks public_of_def jwt_of_def)
  show ?thesis
    unfolding result_def after_def login_POST_run
    by (auto simp: Let_def c [OF refl] split: option.split)
qed

subsection \<open>Changing the password\<close>

lemma find_key_unique:
  "distinct (map f xs) \<Longrightarrow> find_by g k xs = Some u \<Longrightarrow> find_by f (f u) xs = Some u"
  by (metis find_by_in find_by_unique)

lemma find_by_upd_other:
  assumes "find_by us_id i us = Some u" "distinct (map us_id us)" "distinct (map us_email us)" "\<And>r. us_email (f r) = us_email r"
  shows "find_by us_email (us_email u) (upd_by us_id i f us) = Some (f u)"
  using assms(1-3)
proof (induction us)
  case (Cons r us)
  show ?case
  proof (cases "us_id r = i")
    case True
    then show ?thesis using Cons.prems(1) assms(4) by (simp add: upd_by_def)
  next
    case False
    then have "find_by us_id i us = Some u" using Cons.prems(1) by simp
    then have "u \<in> set us" by (rule find_by_in)
    then have "us_email r \<noteq> us_email u" using Cons.prems(3) by force
    then show ?thesis using False Cons by (simp add: upd_by_def)
  qed
qed simp

lemma fresh_key_allowed: "jm_get b k = None \<Longrightarrow> allowed (fst (memoryCheck k 5 900000 now (snd (memoryCheck j 5 900000 now b))))"
  by (cases "k = j") (simp_all add: memoryCheck_window check_window_def)

lemma changePassword_ok:
  assumes "current \<noteq> []" "6 \<le> length new" "length new \<le> 128"
  shows "changePasswordSchema (Some current) (Some new) = []"
  using assms by (cases current) (auto simp: changePasswordSchema_def)

lemma change_password_after:
  assumes "find_by us_id (jp_userId se) (au_users s) = Some u" "dp_compare d current (us_password u)"
    "current \<noteq> []" "current \<noteq> new" "6 \<le> length new" "length new \<le> 128"
  shows "change_password_POST d (Some se) (Some (Some current, Some new)) ([], s) =
    (Inr (Reply 200 ()), ([], bumpLoginBucketFor (us_email u)
       (s\<lparr>au_users := upd_by us_id (us_id u) (\<lambda>r. r\<lparr>us_password := dp_hash d new\<rparr>) (au_users s)\<rparr>)))"
  using assms find_by_key [OF assms(1)]
  by (simp add: change_password_POST_def changePassword_ok replace_password_def catch_def bind_def update_user_def)

text \<open>
  A changed password works at once. Suppose that bcrypt accepts a password against its own hash, that
  an account changes its password with the right current one, and that no bucket exists yet for its
  next generation. Then the change succeeds and a login with the new password, from any address with
  budget left, succeeds, however many logins with the old password have failed before; and a login
  with another password succeeds only if bcrypt accepts it against the new hash.
\<close>

theorem changed_password_works_at_once:
  fixes s :: auth_db and d :: deps and u :: user_row and se :: jwt_payload and h :: headers and now :: int
  assumes "\<And>p. dp_compare d p (dp_hash d p)" "accounts_ok s" "dp_is_email d (us_email u)"
    "find_by us_id (jp_userId se) (au_users s) = Some u" "dp_compare d current (us_password u)"
    "current \<noteq> []" "current \<noteq> new" "6 \<le> length new" "length new \<le> 128"
    "jm_get (au_limiter s) (''login:user:'' @ normalize (us_email u) @ '':gen'' @
       show_nat (generation (normalize (us_email u)) (au_generations s) + 1)) = None"
    "allowed (fst (memoryCheck (''login:'' @ clientIp (dp_env d) h) 5 900000 now (au_limiter s)))"
  defines "m \<equiv> change_password_POST d (Some se) (Some (Some current, Some new))"
  shows "result m [] s = Inr (Reply 200 ()) \<and>
    (\<forall>pw. pw \<noteq> [] \<longrightarrow>
      result (login_POST d h (Some \<lparr>lb_email = Some (us_email u), lb_password = Some pw\<rparr>) now) [] (after m [] s) =
      (if pw = new \<or> dp_compare d pw (dp_hash d new)
       then Inr (Reply 200 (public_of (u\<lparr>us_password := dp_hash d new\<rparr>)))
       else Inr (Failed 401 ''Invalid credentials'')))"
proof -
  let ?e = "normalize (us_email u)" and ?f = "\<lambda>r. r\<lparr>us_password := dp_hash d new\<rparr>"
  let ?t = "bumpLoginBucketFor (us_email u) (s\<lparr>au_users := upd_by us_id (us_id u) ?f (au_users s)\<rparr>)"
  let ?key = "''login:user:'' @ ?e @ '':gen'' @ show_nat (generation ?e (au_generations s) + 1)"
  have id: "us_id u = jp_userId se" using find_by_key [OF assms(4)] .
  have m: "m ([], s) = (Inr (Reply 200 ()), ([], ?t))" unfolding m_def using assms(4-9) by (rule change_password_after)
  have lim: "au_limiter ?t = au_limiter s" by (simp add: bumpLoginBucketFor_def Let_def)
  have gen: "generation ?e (au_generations ?t) = generation ?e (au_generations s) + 1"
    by (simp add: bumpLoginBucketFor_def Let_def generation_def jm_get_set)
  have key: "loginAccountKey (us_email u) (au_generations ?t) = ?key"
    by (simp add: loginAccountKey_def Let_def gen)
  have row: "find_by us_email (us_email u) (au_users ?t) = Some (?f u)"
    using find_by_upd_other [where f = ?f, OF assms(4)] assms(2) by (simp add: bumpLoginBucketFor_def Let_def accounts_ok_def id)
  let ?i = "memoryCheck (login_ip d h) 5 900000 now (au_limiter s)"
  have ok: "allowed (fst (memoryCheck ?key 5 900000 now (snd ?i)))"
    using assms(10) by (rule fresh_key_allowed)
  have "result (login_POST d h (Some \<lparr>lb_email = Some (us_email u), lb_password = Some pw\<rparr>) now) [] ?t =
      (if pw = new \<or> dp_compare d pw (dp_hash d new) then Inr (Reply 200 (public_of (?f u)))
       else Inr (Failed 401 ''Invalid credentials''))" if "pw \<noteq> []" for pw
  proof -
    have "parsed_login d (Some \<lparr>lb_email = Some (us_email u), lb_password = Some pw\<rparr>) = Some (us_email u, pw)"
      using that assms(3) by (cases pw) (simp_all add: parsed_login_def loginSchema_def)
    then show ?thesis
      using assms(11) ok row assms(1) [of new]
      by (auto simp: result_def login_POST_run lim key Let_def login_ip_def catch_def check_password_def bind_def set_cookie_def)
  qed
  then show ?thesis using m by (simp add: result_def after_def)
qed

lemma changed_password_works_at_once_witness:
  "result (login_POST sample_deps \<lparr>hd_xff = None, hd_proxy = None, hd_real = None\<rparr>
      (Some \<lparr>lb_email = Some ''a@b'', lb_password = Some ''better''\<rparr>) 9) []
     (after (change_password_POST sample_deps (Some (jwt_of ann)) (Some (Some ''secret'', Some ''better''))) [] sample_auth) =
   Inr (Reply 200 (public_of (ann\<lparr>us_password := ''better''\<rparr>)))"
  using changed_password_works_at_once [of sample_deps sample_auth ann "jwt_of ann" "''secret''" "''better''"
      "\<lparr>hd_xff = None, hd_proxy = None, hd_real = None\<rparr>" 9]
  by (simp add: sample_deps_def accounts_ok_def sample_auth_def ann_def new_user_def jwt_of_def memoryCheck_def Let_def)

subsection \<open>Addresses that look like accounts\<close>

lemma js_trim_id: "s \<noteq> [] \<Longrightarrow> \<not> is_space (hd s) \<Longrightarrow> \<not> is_space (last s) \<Longrightarrow> js_trim s = s"
  by (simp add: js_trim_def dropWhile_eq_self_iff [THEN iffD2] hd_rev)

lemma split_on_absent: "c \<notin> set s \<Longrightarrow> split_on c s = [s]"
  by (induction s) auto

lemma digits_plain: "c \<in> set (show_nat n) \<Longrightarrow> \<not> is_space c \<and> c \<noteq> CHR '',''"
  using digits_show_nat [of n] by (auto simp: list_all_iff is_digit_def is_space_def)

definition posing_as :: "string \<Rightarrow> nat \<Rightarrow> headers" where
  "posing_as e g = \<lparr>hd_xff = Some (''user:'' @ e @ '':gen'' @ show_nat g), hd_proxy = None, hd_real = None\<rparr>"

lemma posing_ip: "CHR '','' \<notin> set e \<Longrightarrow> clientIp (dp_env d) (posing_as e g) = ''user:'' @ e @ '':gen'' @ show_nat g"
proof -
  assume e: "CHR '','' \<notin> set e"
  let ?x = "''user:'' @ e @ '':gen'' @ show_nat g"
  have "CHR '','' \<notin> set ?x" using e digits_plain by auto
  then have s: "split_on (CHR '','') ?x = [?x]" by (rule split_on_absent)
  have "last ?x = last (show_nat g)" by simp
  then have "\<not> is_space (last ?x)" using digits_plain [of "last (show_nat g)" g] by simp
  then have t: "js_trim ?x = ?x" by (intro js_trim_id) (simp_all add: is_space_def)
  have p: "map js_trim (split_on (CHR '','') ?x) = [?x]" unfolding s by (simp only: list.map t)
  show ?thesis
    unfolding clientIp_def posing_as_def Let_def headers.simps option.sel p by (auto simp: truthy_def)
qed

lemma login_unparsed_limiter: "after (login_POST d h None now) fs s = put_limiter (snd (memoryCheck (login_ip d h) 5 900000 now (au_limiter s))) s"
  by (simp add: after_def login_POST_run parsed_login_def)

text \<open>
  Five empty requests shut an account out. The buckets of addresses and of accounts share the
  prefix \<^verbatim>\<open>login:\<close>, and the address is the last entry of a header. Let an email be written without a
  comma and its current bucket not be open. After five requests without a body
  whose header names \<^verbatim>\<open>user:\<close>, the email, \<^verbatim>\<open>:gen\<close> and the generation, every login of the account in
  the next quarter of an hour is refused, from any other address and with any password.
\<close>

theorem empty_requests_shut_account_out:
  fixes s :: auth_db and d :: deps and email :: string and h :: headers and t now :: int
  defines "e \<equiv> normalize email"
  defines "poser \<equiv> posing_as e (generation e (au_generations s))"
  defines "hot \<equiv> ((\<lambda>s. after (login_POST d poser None t) [] s) ^^ 5) s"
  assumes "CHR '','' \<notin> set e" "jm_get (au_limiter s) (''login:user:'' @ e @ '':gen'' @ show_nat (generation e (au_generations s))) = None"
    "t \<le> now" "now \<le> t + 900000" "pw \<noteq> []" "dp_is_email d email"
    "clientIp (dp_env d) h \<noteq> clientIp (dp_env d) poser"
    "allowed (fst (memoryCheck (''login:'' @ clientIp (dp_env d) h) 5 900000 now (au_limiter s)))"
  shows "result (login_POST d h (Some \<lparr>lb_email = Some email, lb_password = Some pw\<rparr>) now) fs hot =
    Inr (Failed 429 ''Too many login attempts for this account. Try again later.'')"
proof -
  let ?k = "''login:user:'' @ e @ '':gen'' @ show_nat (generation e (au_generations s))"
  let ?step = "\<lambda>s. after (login_POST d poser None t) [] s"
  have ip: "login_ip d poser = ?k" unfolding login_ip_def poser_def posing_ip [OF assms(4)] by simp
  have st: "?step x = put_limiter (snd (memoryCheck ?k 5 900000 t (au_limiter x))) x" for x
    by (simp only: login_unparsed_limiter ip)
  have gens: "au_generations ((?step ^^ n) s) = au_generations s" for n
    by (induction n) (simp_all add: st)
  have others: "jm_get (au_limiter ((?step ^^ n) s)) j = jm_get (au_limiter s) j" if "j \<noteq> ?k" for j n
  proof (induction n)
    case (Suc n)
    then show ?case
      using that by (simp only: funpow.simps comp_apply st put_limiter_simps memoryCheck_window if_False)
  qed simp
  have count: "n < 5 \<Longrightarrow> jm_get (au_limiter ((?step ^^ Suc n) s)) ?k = Some \<lparr>w_count = int n + 1, w_resetAt = t + 900000\<rparr>" for n
  proof (induction n)
    case 0
    then show ?case
      by (simp only: funpow.simps id_apply comp_apply st put_limiter_simps memoryCheck_window if_True assms(5))
        (simp add: check_window_def)
  next
    case (Suc n)
    then have "jm_get (au_limiter ((?step ^^ Suc n) s)) ?k = Some \<lparr>w_count = int n + 1, w_resetAt = t + 900000\<rparr>" by simp
    then have "jm_get (au_limiter ((?step ^^ Suc (Suc n)) s)) ?k =
        Some (snd (check_window 5 900000 t (Some \<lparr>w_count = int n + 1, w_resetAt = t + 900000\<rparr>)))"
      by (simp only: funpow.simps(2) [of "Suc n"] comp_apply st put_limiter_simps memoryCheck_window simp_thms if_True)
    then show ?case using Suc.prems by (simp add: check_window_def)
  qed
  have full: "jm_get (au_limiter hot) ?k = Some \<lparr>w_count = 5, w_resetAt = t + 900000\<rparr>"
    using count [of 4] by (simp add: hot_def)
  have ne: "login_ip d h \<noteq> ?k" using assms(10) ip unfolding login_ip_def by (simp add: poser_def)
  let ?i = "memoryCheck (login_ip d h) 5 900000 now (au_limiter hot)"
  have i: "allowed (fst ?i)"
    using assms(11) others [OF ne, of 5] by (simp add: memoryCheck_window login_ip_def hot_def)
  have "jm_get (snd ?i) ?k = Some \<lparr>w_count = 5, w_resetAt = t + 900000\<rparr>"
    using full ne [symmetric] by (simp only: memoryCheck_window if_False)
  then have a: "\<not> allowed (fst (memoryCheck ?k 5 900000 now (snd ?i)))"
    using assms(7) by (simp only: memoryCheck_window) (simp add: check_window_def)
  have key: "loginAccountKey email (au_generations hot) = ?k"
    by (simp add: loginAccountKey_def Let_def e_def hot_def gens)
  have "parsed_login d (Some \<lparr>lb_email = Some email, lb_password = Some pw\<rparr>) = Some (email, pw)"
    using assms(8,9) by (cases pw) (simp_all add: parsed_login_def loginSchema_def)
  then show ?thesis using i a by (simp add: result_def login_POST_run Let_def key del: append.simps)
qed

lemma empty_requests_shut_account_out_witness:
  "result (login_POST sample_deps \<lparr>hd_xff = None, hd_proxy = None, hd_real = Some ''10.0.0.1''\<rparr>
      (Some \<lparr>lb_email = Some ''a@b'', lb_password = Some ''secret''\<rparr>) 9) []
     (((\<lambda>s. after (login_POST sample_deps (posing_as ''a@b'' 0) None 5) [] s) ^^ 5) sample_auth) =
   Inr (Failed 429 ''Too many login attempts for this account. Try again later.'')"
proof -
  have e: "normalize ''a@b'' = ''a@b''" by code_simp
  have g: "generation ''a@b'' (au_generations sample_auth) = 0" by (simp add: generation_def sample_auth_def)
  have "clientIp (dp_env sample_deps) \<lparr>hd_xff = None, hd_proxy = None, hd_real = Some ''10.0.0.1''\<rparr> \<noteq>
      clientIp (dp_env sample_deps) (posing_as ''a@b'' 0)" by code_simp
  then show ?thesis
    using empty_requests_shut_account_out [of "''a@b''" sample_auth 5 9 "''secret''" sample_deps
        "\<lparr>hd_xff = None, hd_proxy = None, hd_real = Some ''10.0.0.1''\<rparr>" "[]"]
    by (simp add: e g) (simp add: sample_auth_def sample_deps_def memoryCheck_def Let_def)
qed

subsection \<open>The gate in front of the pages\<close>

text \<open>
  The middleware lets the right ones through. A request proceeds exactly if its path is not
  protected, or its cookie is a session and, on the admin pages, that of an admin; a session that
  is no admin is sent away from the admin pages, everyone else to the login with the path to come
  back to; the response always carries a request id. The sessions of the pages are those of the
  routes. In production without the legacy switch every session was verified with the published keys.
\<close>

theorem middleware_admits:
  fixes d :: deps and path :: string and cookie incoming :: "string option" and generated :: string
  defines "onPath \<equiv> (\<lambda>p. starts_with p path)"
  shows "fst (middleware d path cookie incoming generated) =
      (if \<not> onPath ''/dashboard'' \<and> \<not> onPath ''/admin'' then Proceed
       else case getSession d cookie of
         None \<Rightarrow> ToLogin path
       | Some p \<Rightarrow> if onPath ''/admin'' \<and> jp_role p \<noteq> ''admin'' then ToForbidden else Proceed) \<and>
    (generated \<noteq> [] \<longrightarrow> snd (middleware d path cookie incoming generated) \<noteq> []) \<and>
    (ev_node_env (dp_env d) = Some ''production'' \<and> ev_legacy (dp_env d) \<noteq> Some ''true'' \<longrightarrow>
      (case getSession d cookie of None \<Rightarrow> True
       | Some p \<Rightarrow> jo_jwks (dp_jose d) (the cookie) = Some p \<and> jo_header (dp_jose d) (the cookie) \<noteq> Some (Some ''HS256'')))"
proof -
  have v: "verifyAny d t = verifyTokenJwks d t" for t
    by (simp add: verifyAny_def verifyTokenJwks_def)
  have "fst (middleware d path cookie incoming generated) =
      (if \<not> onPath ''/dashboard'' \<and> \<not> onPath ''/admin'' then Proceed
       else case getSession d cookie of
         None \<Rightarrow> ToLogin path
       | Some p \<Rightarrow> if onPath ''/admin'' \<and> jp_role p \<noteq> ''admin'' then ToForbidden else Proceed)"
    by (auto simp: middleware_def withRequestId_def v getSession_def onPath_def protectedRoutes_def adminRoutes_def Let_def split: option.split)
  moreover have "generated \<noteq> [] \<Longrightarrow> snd (middleware d path cookie incoming generated) \<noteq> []"
    by (auto simp: middleware_def withRequestId_def truthy_def Let_def split: option.splits)
  moreover have "ev_node_env (dp_env d) = Some ''production'' \<Longrightarrow> ev_legacy (dp_env d) \<noteq> Some ''true'' \<Longrightarrow>
      getSession d cookie = Some p \<Longrightarrow> jo_jwks (dp_jose d) (the cookie) = Some p \<and> jo_header (dp_jose d) (the cookie) \<noteq> Some (Some ''HS256'')" for p
    by (auto simp: getSession_def verifyTokenJwks_def legacyFallbackEnabled_def split: option.splits if_splits)
  ultimately show ?thesis by (simp split: option.split)
qed

lemma middleware_admits_witness:
  "fst (middleware sample_deps ''/admin/users'' (Some ''e1'') None ''id'') = Proceed \<and>
   fst (middleware sample_deps ''/dashboard'' (Some ''h1'') None ''id'') = ToLogin ''/dashboard'' \<and>
   snd (middleware sample_deps ''/dashboard'' (Some ''h1'') None ''id'') \<noteq> []"
proof -
  have s: "getSession sample_deps (Some ''e1'') = Some \<lparr>jp_userId = 1, jp_email = ''a@b'', jp_username = ''ann'', jp_role = ''admin''\<rparr>"
    "getSession sample_deps (Some ''h1'') = None" by code_simp+
  show ?thesis
    using middleware_admits [of sample_deps "''/admin/users''" "Some ''e1''" None "''id''"]
      middleware_admits [of sample_deps "''/dashboard''" "Some ''h1''" None "''id''"]
    by (simp add: s starts_with_def)
qed

end
