(* ===== verification/Problems.thy ===== *)
theory Problems
  imports Guards CacheInvalidate
begin

section \<open>The problem catalogue\<close>

text \<open>
  The public pages of the catalogue: \<^verbatim>\<open>src/app/api/problems\<close> with its sub-routes,
  \<^verbatim>\<open>src/app/api/tags\<close>, \<^verbatim>\<open>src/app/api/search\<close>, and the unlocking of editorials and hints
  (\<^verbatim>\<open>src/lib/editorial.ts\<close>). The tables are lists in the order the database returns rows
  by default; the process's one cache is seen through the kinds of values its keys hold.
\<close>

subsection \<open>Tables\<close>

record problem_row =
  pm_id :: nat
  pm_title :: string
  pm_slug :: string
  pm_description :: string
  pm_difficulty :: string
  pm_hints :: "string option"
  pm_editorial :: "string option"
  pm_constraints :: "string option"
  pm_starterCode :: "string option"
  pm_order :: int
  pm_createdAt :: int

record tag_row =
  tg_id :: nat
  tg_name :: string
  tg_slug :: string
  tg_category :: string

record problem_test =
  pt_id :: nat
  pt_problem :: nat
  pt_input :: string
  pt_expected :: string
  pt_hidden :: bool
  pt_order :: int

record sent_row =
  sr_user :: nat
  sr_problem :: nat
  sr_language :: string
  sr_status :: string
  sr_createdAt :: int

record contest_line =
  cl_id :: nat
  cl_title :: string
  cl_slug :: string
  cl_status :: string
  cl_startTime :: int

record tag_line =
  tl_id :: nat
  tl_name :: string
  tl_slug :: string

record problem_line =
  pr_id :: nat
  pr_title :: string
  pr_slug :: string
  pr_difficulty :: string

record listed_problem = problem_line +
  pr_tags :: "tag_line list"
  pr_submissionCount :: nat

record list_result =
  ls_problems :: "listed_problem list"
  ls_total :: nat
  ls_page :: int
  ls_limit :: int

record trending_problem = problem_line +
  pr_recentAccepted :: nat

record cat_db =
  ct_problems :: "problem_row list"
  ct_tags :: "tag_row list"
  ct_ptags :: "(nat \<times> nat) list"
  ct_tests :: "problem_test list"
  ct_subs :: "sent_row list"
  ct_contests :: "contest_line list"
  ct_limiter :: buckets
  ct_lists :: "list_result cache"
  ct_trending :: "trending_problem list cache"
  ct_tagcache :: "tag_row list cache"

definition problem_by_slug :: "string \<Rightarrow> cat_db \<Rightarrow> problem_row option" where
  "problem_by_slug slug db = find_by pm_slug slug (ct_problems db)"

definition line_of :: "problem_row \<Rightarrow> problem_line" where
  "line_of p = \<lparr>pr_id = pm_id p, pr_title = pm_title p, pr_slug = pm_slug p, pr_difficulty = pm_difficulty p\<rparr>"

definition tag_line_of :: "tag_row \<Rightarrow> tag_line" where
  "tag_line_of t = \<lparr>tl_id = tg_id t, tl_name = tg_name t, tl_slug = tg_slug t\<rparr>"

definition tags_of :: "nat \<Rightarrow> cat_db \<Rightarrow> tag_row list" where
  "tags_of p db =
    List.map_filter (\<lambda>(q, t). if q = p then find_by tg_id t (ct_tags db) else None) (ct_ptags db)"

definition by_order :: "problem_row \<Rightarrow> problem_row \<Rightarrow> bool" where
  "by_order p q \<longleftrightarrow> pm_order p \<le> pm_order q"

text \<open>\<^verbatim>\<open>contains\<close> with \<^verbatim>\<open>mode: "insensitive"\<close>.\<close>

definition contains_ci :: "string \<Rightarrow> string \<Rightarrow> bool" where
  "contains_ci q s = str_includes (map lower_char q) (map lower_char s)"

definition limit_problems :: "string \<Rightarrow> int \<Rightarrow> int \<Rightarrow> int \<Rightarrow> (cat_db, string, rl_result) prog" where
  "limit_problems key mx windowMs now = limited_in ct_limiter (\<lambda>b db. db\<lparr>ct_limiter := b\<rparr>) key mx windowMs now"

subsection \<open>Shared pagination helpers (pagination.ts)\<close>

text \<open>\<^verbatim>\<open>options.max\<close> and \<^verbatim>\<open>options.fallback\<close> may be absent.\<close>

definition parseLimit :: "string option \<Rightarrow> int option \<Rightarrow> int option \<Rightarrow> int" where
  "parseLimit raw omax ofallback =
    (let mx = (case omax of None \<Rightarrow> 50 | Some m \<Rightarrow> m);
         fallback = (case ofallback of None \<Rightarrow> min 50 mx | Some f \<Rightarrow> f);
         parsed = (case raw of None \<Rightarrow> Fin fallback | Some s \<Rightarrow> parse_int s)
     in case parsed of
          NaN \<Rightarrow> min (max 1 fallback) mx
        | Fin n \<Rightarrow> if n \<le> 0 then min (max 1 fallback) mx else min mx (max 1 n))"

definition parsePage :: "string option \<Rightarrow> int" where
  "parsePage raw =
    (case parse_int (case raw of None \<Rightarrow> ''1'' | Some s \<Rightarrow> s) of NaN \<Rightarrow> 1 | Fin n \<Rightarrow> if n < 1 then 1 else n)"

subsection \<open>The problem list (problems/route.ts)\<close>

record list_query =
  lq_difficulty :: "string option"
  lq_tag :: "string option"
  lq_topic :: "string option"
  lq_company :: "string option"
  lq_search :: "string option"
  lq_page :: "string option"
  lq_limit :: "string option"

definition has_tag :: "(tag_row \<Rightarrow> bool) \<Rightarrow> cat_db \<Rightarrow> problem_row \<Rightarrow> bool" where
  "has_tag P db p \<longleftrightarrow> list_ex P (tags_of (pm_id p) db)"

definition where_clause :: "list_query \<Rightarrow> cat_db \<Rightarrow> problem_row \<Rightarrow> bool" where
  "where_clause q db p \<longleftrightarrow>
    (truthy (lq_difficulty q) \<longrightarrow> pm_difficulty p = the (lq_difficulty q)) \<and>
    (truthy (lq_search q) \<longrightarrow> contains_ci (the (lq_search q)) (pm_title p)) \<and>
    (truthy (lq_tag q) \<longrightarrow> has_tag (\<lambda>t. tg_slug t = the (lq_tag q)) db p) \<and>
    (truthy (lq_topic q) \<longrightarrow> has_tag (\<lambda>t. tg_slug t = the (lq_topic q) \<and> tg_category t = ''topic'') db p) \<and>
    (truthy (lq_company q) \<longrightarrow> has_tag (\<lambda>t. tg_slug t = the (lq_company q) \<and> tg_category t = ''company'') db p)"

definition matching :: "list_query \<Rightarrow> cat_db \<Rightarrow> problem_row list" where
  "matching q db = filter (where_clause q db) (ct_problems db)"

definition listed_problem_of :: "cat_db \<Rightarrow> problem_row \<Rightarrow> listed_problem" where
  "listed_problem_of db p =
    \<lparr>pr_id = pm_id p, pr_title = pm_title p, pr_slug = pm_slug p, pr_difficulty = pm_difficulty p,
     pr_tags = map tag_line_of (tags_of (pm_id p) db),
     pr_submissionCount = length (filter (\<lambda>s. sr_problem s = pm_id p) (ct_subs db))\<rparr>"

text \<open>
  The query sorts by \<^verbatim>\<open>order\<close>, which is not unique. A stable sort of the table stands for it: the
  table's list is then the order in which the database happens to return rows of the same
  \<^verbatim>\<open>order\<close>, and what must hold for every such order is stated for every order of that list.
\<close>

definition compute_list :: "list_query \<Rightarrow> int \<Rightarrow> int \<Rightarrow> (cat_db, string, list_result) prog" where
  "compute_list q page limit =
    bind (query ''db'' (\<lambda>db. map (listed_problem_of db) (page_of page limit (sort_by by_order (matching q db))))) (\<lambda>problems.
    bind (query ''db'' (\<lambda>db. length (matching q db))) (\<lambda>total.
    ret \<lparr>ls_problems = problems, ls_total = total, ls_page = page, ls_limit = limit\<rparr>))"

definition problems_GET :: "list_query \<Rightarrow> int \<Rightarrow> (cat_db, string, list_result reply) prog" where
  "problems_GET q now =
    catch
      (let page = page_param (lq_page q); limit = limit_param 50 50 (lq_limit q);
           cacheable = (\<not> truthy (lq_search q));
           cacheKey = list_cache_key (lq_difficulty q) (lq_tag q) (lq_topic q) (lq_company q) (nat page) (nat limit)
       in bind (if cacheable
                then remember ct_lists (\<lambda>c db. db\<lparr>ct_lists := c\<rparr>) cacheKey 60000 now (compute_list q page limit)
                else compute_list q page limit)
            (\<lambda>data. ret (Reply 200 data)))
      (\<lambda>_. ret (Failed 500 ''Internal server error''))"

subsection \<open>One problem (problems/[slug]/route.ts and stats)\<close>

record shown_test =
  sh_id :: nat
  sh_input :: string
  sh_expected :: string
  sh_isHidden :: bool
  sh_order :: int

record shown_problem = problem_line +
  pr_description :: string
  pr_hints :: "string option"
  pr_editorial :: "string option"
  pr_constraints :: "string option"
  pr_starterCode :: "string option"
  pr_topicTags :: "tag_line list"
  pr_testCases :: "shown_test list"

definition test_le :: "problem_test \<Rightarrow> problem_test \<Rightarrow> bool" where
  "test_le a b \<longleftrightarrow> pt_order a \<le> pt_order b"

definition shown_test_of :: "problem_test \<Rightarrow> shown_test" where
  "shown_test_of t = \<lparr>sh_id = pt_id t, sh_input = pt_input t, sh_expected = pt_expected t, sh_isHidden = pt_hidden t, sh_order = pt_order t\<rparr>"

definition shown_of :: "cat_db \<Rightarrow> problem_row \<Rightarrow> shown_problem" where
  "shown_of db p =
    \<lparr>pr_id = pm_id p, pr_title = pm_title p, pr_slug = pm_slug p, pr_difficulty = pm_difficulty p,
     pr_description = pm_description p, pr_hints = pm_hints p, pr_editorial = pm_editorial p,
     pr_constraints = pm_constraints p, pr_starterCode = pm_starterCode p,
     pr_topicTags = map tag_line_of (tags_of (pm_id p) db),
     pr_testCases = map shown_test_of (sort_by test_le (filter (\<lambda>t. pt_problem t = pm_id p \<and> \<not> pt_hidden t) (ct_tests db)))\<rparr>"

definition problem_GET :: "string \<Rightarrow> (cat_db, string, shown_problem reply) prog" where
  "problem_GET slug =
    catch
      (bind (query ''db'' (\<lambda>db. map_option (shown_of db) (problem_by_slug slug db))) (\<lambda>problem.
       case problem of
         None \<Rightarrow> ret (Failed 404 ''Problem not found'')
       | Some p \<Rightarrow> ret (Reply 200 p)))
      (\<lambda>_. ret (Failed 500 ''Internal server error''))"

record problem_stats =
  ps_problem :: problem_line
  ps_total :: nat
  ps_accepted :: nat
  ps_acceptanceRate :: rat
  ps_byLanguage :: "(string, nat) jsmap"

definition group_count :: "('a \<Rightarrow> 'k) \<Rightarrow> 'a list \<Rightarrow> ('k \<times> nat) list" where
  "group_count key xs = map (\<lambda>k. (k, length (filter (\<lambda>x. key x = k) xs))) (remdups (map key xs))"

definition stats_of :: "problem_row \<Rightarrow> nat \<Rightarrow> nat \<Rightarrow> (string \<times> nat) list \<Rightarrow> problem_stats" where
  "stats_of p n acc perLanguage =
    \<lparr>ps_problem = line_of p, ps_total = n, ps_accepted = acc,
     ps_acceptanceRate = (if n = 0 then 0 else of_int \<lfloor>(of_nat acc / of_nat n) * 1000 + 1 / 2 :: rat\<rfloor> / 10),
     ps_byLanguage = foldl (\<lambda>m (l, c). jm_set l c m) [] perLanguage\<rparr>"

definition problem_stats_GET :: "string \<Rightarrow> (cat_db, string, problem_stats reply) prog" where
  "problem_stats_GET slug =
    catch
      (bind (query ''db'' (problem_by_slug slug)) (\<lambda>problem.
       case problem of
         None \<Rightarrow> ret (Failed 404 ''Problem not found'')
       | Some p \<Rightarrow>
           bind (query ''db'' (\<lambda>db. length (filter (\<lambda>s. sr_problem s = pm_id p) (ct_subs db)))) (\<lambda>n.
           bind (query ''db'' (\<lambda>db. length (filter (\<lambda>s. sr_problem s = pm_id p \<and> sr_status s = ''accepted'') (ct_subs db)))) (\<lambda>acc.
           bind (query ''db'' (\<lambda>db. group_count sr_language (filter (\<lambda>s. sr_problem s = pm_id p \<and> sr_status s = ''accepted'') (ct_subs db)))) (\<lambda>perLanguage.
           ret (Reply 200 (stats_of p n acc perLanguage)))))))
      (\<lambda>_. ret (Failed 500 ''Internal server error''))"

subsection \<open>Trending, random, by tag\<close>

definition most_first :: "'a \<times> nat \<Rightarrow> 'a \<times> nat \<Rightarrow> bool" where
  "most_first a b \<longleftrightarrow> snd a \<ge> snd b"

text \<open>Groups with the same count stay in the order of their first rows.\<close>

definition trending_groups :: "int \<Rightarrow> nat \<Rightarrow> cat_db \<Rightarrow> (nat \<times> nat) list" where
  "trending_groups since limit db =
    take limit (sort_by most_first (group_count sr_problem
      (filter (\<lambda>s. sr_status s = ''accepted'' \<and> sr_createdAt s \<ge> since) (ct_subs db))))"

definition trending_of :: "problem_row list \<Rightarrow> nat \<times> nat \<Rightarrow> trending_problem option" where
  "trending_of problems g =
    map_option (\<lambda>p. \<lparr>pr_id = pm_id p, pr_title = pm_title p, pr_slug = pm_slug p, pr_difficulty = pm_difficulty p,
      pr_recentAccepted = snd g\<rparr>) (find_by pm_id (fst g) problems)"

definition computeTrending :: "nat \<Rightarrow> int \<Rightarrow> (cat_db, string, trending_problem list) prog" where
  "computeTrending limit now =
    (let since = now - 7 * 24 * 60 * 60 * 1000
     in bind (query ''db'' (trending_groups since limit)) (\<lambda>groups.
        if groups = [] then ret []
        else bind (query ''db'' (\<lambda>db. filter (\<lambda>p. pm_id p \<in> set (map fst groups)) (ct_problems db))) (\<lambda>problems.
          ret (List.map_filter (trending_of problems) groups))))"

definition trending_GET :: "string option \<Rightarrow> int \<Rightarrow> (cat_db, string, trending_problem list reply) prog" where
  "trending_GET rawLimit now =
    catch
      (let limit = nat (limit_param 30 10 rawLimit)
       in bind (remember ct_trending (\<lambda>c db. db\<lparr>ct_trending := c\<rparr>) (trending_cache_key limit) (5 * 60000) now (computeTrending limit now))
            (\<lambda>ranked. ret (Reply 200 ranked)))
      (\<lambda>_. ret (Failed 500 ''Internal server error''))"

text \<open>\<^verbatim>\<open>Math.random()\<close> is the argument \<open>rnd\<close>, at least 0 and below 1; an empty page gives no problem.\<close>

definition random_GET :: "string option \<Rightarrow> rat \<Rightarrow> (cat_db, string, problem_line option reply) prog" where
  "random_GET difficulty rnd =
    catch
      (let cond = (\<lambda>p. truthy difficulty \<longrightarrow> pm_difficulty p = the difficulty)
       in bind (query ''db'' (\<lambda>db. length (filter cond (ct_problems db)))) (\<lambda>n.
          if n = 0 then ret (Failed 404 ''No problems available'')
          else
            let skip = nat \<lfloor>rnd * of_nat n\<rfloor>
            in bind (query ''db'' (\<lambda>db. take 1 (drop skip (filter cond (ct_problems db))))) (\<lambda>found.
               ret (Reply 200 (case found of [] \<Rightarrow> None | p # _ \<Rightarrow> Some (line_of p))))))
      (\<lambda>_. ret (Failed 500 ''Internal server error''))"

definition by_tag_GET :: "string option \<Rightarrow> string option \<Rightarrow> (cat_db, string, problem_line list reply) prog" where
  "by_tag_GET tagSlug rawLimit =
    catch
      (if \<not> truthy tagSlug then ret (Failed 400 ''Tag query parameter is required.'')
       else
         let limit = nat (limit_param 100 20 rawLimit)
         in bind (query ''db'' (\<lambda>db. take limit (sort_by by_order
              (filter (has_tag (\<lambda>t. tg_slug t = the tagSlug) db) (ct_problems db))))) (\<lambda>problems.
            ret (Reply 200 (map line_of problems))))
      (\<lambda>_. ret (Failed 500 ''Internal server error''))"

subsection \<open>Tags (tags/route.ts, tags/[slug]/route.ts)\<close>

text \<open>The database's order of names is the argument \<open>name_le\<close>.\<close>

definition tag_by_name :: "(string \<Rightarrow> string \<Rightarrow> bool) \<Rightarrow> tag_row \<Rightarrow> tag_row \<Rightarrow> bool" where
  "tag_by_name name_le a b \<longleftrightarrow> name_le (tg_name a) (tg_name b)"

definition tags_cache_key :: "string option \<Rightarrow> string" where
  "tags_cache_key category = ''tags:all:'' @ (case category of None \<Rightarrow> ''*'' | Some c \<Rightarrow> c)"

definition tags_GET :: "(string \<Rightarrow> string \<Rightarrow> bool) \<Rightarrow> string option \<Rightarrow> int \<Rightarrow> (cat_db, string, tag_row list reply) prog" where
  "tags_GET name_le rawCategory now =
    catch
      (let category = (if truthy rawCategory \<and> the rawCategory \<in> {''topic'', ''company'', ''skill''} then rawCategory else None)
       in bind (remember ct_tagcache (\<lambda>c db. db\<lparr>ct_tagcache := c\<rparr>) (tags_cache_key category) (5 * 60000) now
            (query ''db'' (\<lambda>db. take 200 (sort_by (tag_by_name name_le)
              (filter (\<lambda>t. case category of None \<Rightarrow> True | Some c \<Rightarrow> tg_category t = c) (ct_tags db))))))
            (\<lambda>tags. ret (Reply 200 tags)))
      (\<lambda>_. ret (Reply 200 []))"

record tag_page =
  tp_tag :: tag_line
  tp_problems :: "(problem_line \<times> nat) list"
  tp_total :: nat
  tp_page :: int
  tp_limit :: int

definition tag_GET :: "string \<Rightarrow> string option \<Rightarrow> string option \<Rightarrow> (cat_db, string, tag_page reply) prog" where
  "tag_GET slug rawPage rawLimit =
    catch
      (bind (query ''db'' (\<lambda>db. find_by tg_slug slug (ct_tags db))) (\<lambda>tag.
       case tag of
         None \<Rightarrow> ret (Failed 404 ''Tag not found'')
       | Some t \<Rightarrow>
           let page = page_param rawPage; limit = limit_param 100 50 rawLimit;
               tagged = (\<lambda>db. filter (\<lambda>p. (pm_id p, tg_id t) \<in> set (ct_ptags db)) (ct_problems db))
           in bind (query ''db'' (\<lambda>db. map (\<lambda>p. (line_of p, length (filter (\<lambda>s. sr_problem s = pm_id p) (ct_subs db))))
                (page_of page limit (sort_by by_order (tagged db))))) (\<lambda>problems.
              bind (query ''db'' (\<lambda>db. length (tagged db))) (\<lambda>n.
              ret (Reply 200 \<lparr>tp_tag = tag_line_of t, tp_problems = problems, tp_total = n, tp_page = page, tp_limit = limit\<rparr>)))))
      (\<lambda>_. ret (Failed 500 ''Internal server error''))"

subsection \<open>Search (search/route.ts)\<close>

text \<open>The route has an address function of its own, which trusts the first entry.\<close>

definition search_ip :: "string option \<Rightarrow> string option \<Rightarrow> string" where
  "search_ip xff realIp =
    (case xff of
       Some x \<Rightarrow> js_trim (hd (split_on (CHR '','') x))
     | None \<Rightarrow> (case realIp of Some r \<Rightarrow> r | None \<Rightarrow> ''unknown''))"

record search_result =
  sx_query :: string
  sx_problems :: "problem_line list"
  sx_contests :: "contest_line list"
  sx_tags :: "tag_line list"

definition latest_contest :: "contest_line \<Rightarrow> contest_line \<Rightarrow> bool" where
  "latest_contest a b \<longleftrightarrow> cl_startTime a \<ge> cl_startTime b"

definition search_GET ::
  "string option \<Rightarrow> string option \<Rightarrow> string option \<Rightarrow> string option \<Rightarrow> int \<Rightarrow> (cat_db, string, search_result reply) prog" where
  "search_GET xff realIp q rawLimit now =
    catch
      (bind (limit_problems (''search:'' @ search_ip xff realIp) 30 60000 now) (\<lambda>limit.
       if \<not> allowed limit then ret (Failed 429 ''Too many search requests. Slow down.'')
       else
         let search = js_trim (case q of None \<Rightarrow> [] | Some s \<Rightarrow> s); lim = nat (limit_param 50 20 rawLimit)
         in if length search < 2 then ret (Reply 200 \<lparr>sx_query = search, sx_problems = [], sx_contests = [], sx_tags = []\<rparr>)
            else
              bind (query ''db'' (\<lambda>db. map line_of (take lim (sort_by by_order (filter (\<lambda>p. contains_ci search (pm_title p)) (ct_problems db)))))) (\<lambda>problems.
              bind (query ''db'' (\<lambda>db. take lim (sort_by latest_contest (filter (\<lambda>c. contains_ci search (cl_title c)) (ct_contests db))))) (\<lambda>contests.
              bind (query ''db'' (\<lambda>db. map tag_line_of (take lim (filter (\<lambda>t. contains_ci search (tg_name t)) (ct_tags db))))) (\<lambda>tags.
              ret (Reply 200 \<lparr>sx_query = search, sx_problems = problems, sx_contests = contests, sx_tags = tags\<rparr>))))))
      (\<lambda>_. ret (Failed 500 ''Internal server error''))"

subsection \<open>Editorials and hints (editorial.ts and its routes)\<close>

definition EDITORIAL_GRACE_DAYS :: int where "EDITORIAL_GRACE_DAYS = 7"
definition HINT_REVEAL_PENALTY_PERCENT :: nat where "HINT_REVEAL_PENALTY_PERCENT = 5"

datatype gate_reason = Submitted | GraceElapsed | Locked

record editorial_gate =
  eg_unlocked :: bool
  eg_unlocksAt :: int
  eg_countdownSeconds :: int
  eg_reason :: gate_reason

definition evaluateEditorialGate :: "int \<Rightarrow> bool \<Rightarrow> int \<Rightarrow> editorial_gate" where
  "evaluateEditorialGate problemCreatedAt hasSubmitted now =
    (let unlocksAt = problemCreatedAt + EDITORIAL_GRACE_DAYS * 86400000
     in if hasSubmitted then \<lparr>eg_unlocked = True, eg_unlocksAt = unlocksAt, eg_countdownSeconds = 0, eg_reason = Submitted\<rparr>
        else if now \<ge> unlocksAt then \<lparr>eg_unlocked = True, eg_unlocksAt = unlocksAt, eg_countdownSeconds = 0, eg_reason = GraceElapsed\<rparr>
        else \<lparr>eg_unlocked = False, eg_unlocksAt = unlocksAt, eg_countdownSeconds = max 0 (ceil_div (unlocksAt - now) 1000),
              eg_reason = Locked\<rparr>)"

text \<open>The reply: the gate, and the text if it is open.\<close>

definition editorial_GET :: "session option \<Rightarrow> string \<Rightarrow> int \<Rightarrow> (cat_db, string, (editorial_gate \<times> string option option) reply) prog" where
  "editorial_GET session slug now =
    catch
      (case session of
         None \<Rightarrow> ret (Failed 401 ''Unauthorized'')
       | Some se \<Rightarrow>
           bind (query ''db'' (problem_by_slug slug)) (\<lambda>problem.
           case problem of
             None \<Rightarrow> ret (Failed 404 ''Problem not found'')
           | Some p \<Rightarrow>
               bind (query ''db'' (\<lambda>db. length (filter (\<lambda>s. sr_user s = se_userId se \<and> sr_problem s = pm_id p) (ct_subs db)))) (\<lambda>submissionCount.
               let gate = evaluateEditorialGate (pm_createdAt p) (submissionCount > 0) now
               in if \<not> eg_unlocked gate then ret (Reply 200 (gate, None))
                  else ret (Reply 200 (gate, Some (pm_editorial p))))))
      (\<lambda>_. ret (Failed 500 ''Internal server error''))"

text \<open>What \<^verbatim>\<open>JSON.parse\<close> makes of a text: an array of some length, another value, or an exception (None).\<close>

datatype json_shape = JsonArray nat | JsonOther

definition hint_count :: "(string \<Rightarrow> json_shape option) \<Rightarrow> string option \<Rightarrow> nat" where
  "hint_count parse hints =
    (if \<not> truthy hints then 0
     else case parse (the hints) of
       Some (JsonArray n) \<Rightarrow> n
     | Some JsonOther \<Rightarrow> 1
     | None \<Rightarrow> 1)"

record hint_ack =
  ha_slug :: string
  ha_hintIndex :: nat
  ha_penaltyPercent :: nat

text \<open>The body: None when it is not JSON, else the messages of its schema, none for a valid one.\<close>

definition hint_unlock_POST ::
  "(string \<Rightarrow> json_shape option) \<Rightarrow> session option \<Rightarrow> string \<Rightarrow> string \<Rightarrow> string list option \<Rightarrow> int \<Rightarrow>
   (cat_db, string, hint_ack reply) prog" where
  "hint_unlock_POST parse session slug index body now =
    catch
      (case session of
         None \<Rightarrow> ret (Failed 401 ''Unauthorized'')
       | Some se \<Rightarrow>
           if index = [] \<or> \<not> list_all is_digit index then ret (Failed 400 ''hint index must be a non-negative integer'')
           else
             let hintIndex = read_nat index
             in bind (limit_problems (''hint-unlock:'' @ show_nat (se_userId se)) 30 60000 now) (\<lambda>limit.
                if \<not> allowed limit then ret (Failed 429 ''Too many hint reveals. Slow down.'')
                else case body of
                  None \<Rightarrow> ret (Failed 400 ''Invalid JSON body'')
                | Some (msg # _) \<Rightarrow> ret (Failed 400 msg)
                | Some [] \<Rightarrow>
                    bind (query ''db'' (problem_by_slug slug)) (\<lambda>problem.
                    case problem of
                      None \<Rightarrow> ret (Failed 404 ''Problem not found'')
                    | Some p \<Rightarrow>
                        if hintIndex \<ge> hint_count parse (pm_hints p) then ret (Failed 400 ''Hint index out of range'')
                        else ret (Reply 200 \<lparr>ha_slug = slug, ha_hintIndex = hintIndex, ha_penaltyPercent = HINT_REVEAL_PENALTY_PERCENT\<rparr>))))
      (\<lambda>_. ret (Failed 500 ''Internal server error''))"

subsection \<open>Pages of the list\<close>

interpretation lists_cache: cached_part ct_lists "\<lambda>c db. db\<lparr>ct_lists := c\<rparr>"
  by unfold_locales simp

interpretation trending_cache: cached_part ct_trending "\<lambda>c db. db\<lparr>ct_trending := c\<rparr>"
  by unfold_locales simp

interpretation tag_cache: cached_part ct_tagcache "\<lambda>c db. db\<lparr>ct_tagcache := c\<rparr>"
  by unfold_locales simp

interpretation cat_limiter: limiter_part ct_limiter "\<lambda>b db. db\<lparr>ct_limiter := b\<rparr>"
  by unfold_locales simp

definition list_of :: "list_query \<Rightarrow> int \<Rightarrow> int \<Rightarrow> cat_db \<Rightarrow> list_result" where
  "list_of q page limit db =
    \<lparr>ls_problems = map (listed_problem_of db) (page_of page limit (sort_by by_order (matching q db))),
     ls_total = length (matching q db), ls_page = page, ls_limit = limit\<rparr>"

lemma compute_list_run [simp]: "compute_list q page limit ([], db) = (Inr (list_of q page limit db), ([], db))"
  by (simp add: compute_list_def bind_def list_of_def)

lemma list_of_caches [simp]: "list_of q page limit (db\<lparr>ct_lists := c\<rparr>) = list_of q page limit db"
proof -
  have t: "tags_of p (db\<lparr>ct_lists := c\<rparr>) = tags_of p db" for p by (simp add: tags_of_def cong: if_cong)
  have w: "where_clause q (db\<lparr>ct_lists := c\<rparr>) = where_clause q db" by (rule ext) (simp add: where_clause_def has_tag_def t)
  have m: "matching q (db\<lparr>ct_lists := c\<rparr>) = matching q db" by (simp add: matching_def w)
  have l: "listed_problem_of (db\<lparr>ct_lists := c\<rparr>) = listed_problem_of db" by (rule ext) (simp add: listed_problem_of_def t)
  show ?thesis by (simp add: list_of_def m l)
qed

text \<open>The key of a request's page, and the page it computes.\<close>

definition query_key :: "list_query \<Rightarrow> string" where
  "query_key q = list_cache_key (lq_difficulty q) (lq_tag q) (lq_topic q) (lq_company q)
     (nat (page_param (lq_page q))) (nat (limit_param 50 50 (lq_limit q)))"

definition answer_of :: "list_query \<Rightarrow> cat_db \<Rightarrow> list_result" where
  "answer_of q db = list_of q (page_param (lq_page q)) (limit_param 50 50 (lq_limit q)) db"

lemma problems_GET_cold:
  assumes "truthy (lq_search q) \<or> fst (cache_get (query_key q) now (ct_lists db)) = None"
  shows "result (problems_GET q now) [] db = Inr (Reply 200 (answer_of q db))"
proof (cases "truthy (lq_search q)")
  case True
  then show ?thesis by (simp add: result_def problems_GET_def Let_def catch_def bind_def answer_of_def)
next
  case False
  then have "fst (cache_get (query_key q) now (ct_lists db)) = None" using assms by simp
  note m = lists_cache.remember_miss [where s = db, OF this]
  show ?thesis
    using False by (simp add: result_def problems_GET_def Let_def catch_def bind_def m [unfolded query_key_def] answer_of_def)
qed

definition at_page :: "nat \<Rightarrow> nat \<Rightarrow> list_query \<Rightarrow> list_query" where
  "at_page p l q = q\<lparr>lq_page := Some (show_nat (p + 1)), lq_limit := Some (show_nat l)\<rparr>"

lemma at_page_answer:
  assumes "1 \<le> l" "l \<le> 50"
  shows "answer_of (at_page p l q) db = list_of q (int p + 1) (int l) db"
proof -
  have "where_clause (at_page p l q) db = where_clause q db" by (rule ext) (simp add: where_clause_def at_page_def)
  then have m: "matching (at_page p l q) db = matching q db" by (simp add: matching_def)
  have "page_param (lq_page (at_page p l q)) = int p + 1" "limit_param 50 50 (lq_limit (at_page p l q)) = int l"
    using assms by (simp_all add: at_page_def page_param_def limit_param_def int_param_def parse_show_nat)
  then show ?thesis by (simp add: answer_of_def list_of_def m)
qed

interpretation by_position: comparator by_order UNIV
  by unfold_locales (auto simp: by_order_def)

text \<open>
  The query of a page sorts by \<^verbatim>\<open>order\<close> alone, a column that is not unique and defaults to 0. The
  table's list says in which order the database returns rows that the query does not separate;
  a second query may see the same rows in another order.
\<close>

lemma reordered_rows [simp]:
  "where_clause q (db\<lparr>ct_problems := r\<rparr>) = where_clause q db"
  "listed_problem_of (db\<lparr>ct_problems := r\<rparr>) = listed_problem_of db"
proof -
  have t: "tags_of p (db\<lparr>ct_problems := r\<rparr>) = tags_of p db" for p by (simp add: tags_of_def cong: if_cong)
  show "where_clause q (db\<lparr>ct_problems := r\<rparr>) = where_clause q db" by (rule ext) (simp add: where_clause_def has_tag_def t)
  show "listed_problem_of (db\<lparr>ct_problems := r\<rparr>) = listed_problem_of db" by (rule ext) (simp add: listed_problem_of_def t)
qed

lemma sort_by_order_unique:
  "mset ps = mset qs \<Longrightarrow> distinct (map pm_order qs) \<Longrightarrow> sort_by by_order ps = sort_by by_order qs"
  unfolding by_order_def [abs_def] by (rule sort_by_key_unique)

text \<open>
  C19. Turning the pages shows every match once. Take any filters and search text, any page size
  from 1 to 50, and \<open>n\<close> requests for the pages 1 to \<open>n\<close> against the same rows, which every
  request may see in an order of its own, with a cache that holds none of these pages. Every page
  reports the number of all matches and holds at most the page size. If no two matches have the same
  \<open>order\<close> and \<open>n\<close> pages are enough, the pages put together show each match exactly once, sorted
  by \<open>order\<close>, and nothing else.
\<close>

theorem pages_show_every_match_once:
  fixes db :: cat_db and q :: list_query and l n :: nat and now :: int and rows :: "nat \<Rightarrow> problem_row list"
  assumes "1 \<le> l" "l \<le> 50" "\<forall>p < n. truthy (lq_search q) \<or> fst (cache_get (query_key (at_page p l q)) now (ct_lists db)) = None"
    and "\<forall>p < n. mset (rows p) = mset (ct_problems db)"
  defines "page \<equiv> (\<lambda>p. case result (problems_GET (at_page p l q) now) [] (db\<lparr>ct_problems := rows p\<rparr>) of
      Inr (Reply c r) \<Rightarrow> r | _ \<Rightarrow> \<lparr>ls_problems = [], ls_total = 0, ls_page = 0, ls_limit = 0\<rparr>)"
    and "found \<equiv> filter (where_clause q db) (ct_problems db)"
  shows "(\<forall>p < n. ls_total (page p) = length found \<and> length (ls_problems (page p)) \<le> l) \<and>
    (length found \<le> n * l \<and> distinct (map pm_order found) \<longrightarrow>
      (\<exists>ms. concat (map (\<lambda>p. ls_problems (page p)) [0..<n]) = map (listed_problem_of db) ms \<and>
         mset ms = mset found \<and> sorted_wrt (\<lambda>a b. pm_order a < pm_order b) ms))"
proof -
  let ?m = "\<lambda>p. filter (where_clause q db) (rows p)"
  have pg: "page p = \<lparr>ls_problems = map (listed_problem_of db) (page_of (int p + 1) (int l) (sort_by by_order (?m p))),
      ls_total = length (?m p), ls_page = int p + 1, ls_limit = int l\<rparr>" if "p < n" for p
  proof -
    have "truthy (lq_search (at_page p l q)) \<or>
        fst (cache_get (query_key (at_page p l q)) now (ct_lists (db\<lparr>ct_problems := rows p\<rparr>))) = None"
      using assms(3) that by (simp add: at_page_def)
    then show ?thesis by (simp add: page_def problems_GET_cold at_page_answer [OF assms(1,2)] list_of_def matching_def)
  qed
  have m: "mset (?m p) = mset found" if "p < n" for p using assms(4) that by (simp add: found_def)
  have len: "length (?m p) = length found" if "p < n" for p using m [OF that] by (metis size_mset)
  have "ls_total (page p) = length found \<and> length (ls_problems (page p)) \<le> l" if "p < n" for p
    using length_page_of [of "int p + 1" "int l" "sort_by by_order (?m p)"] by (simp add: pg [OF that] len [OF that])
  moreover have "\<exists>ms. concat (map (\<lambda>p. ls_problems (page p)) [0..<n]) = map (listed_problem_of db) ms \<and>
      mset ms = mset found \<and> sorted_wrt (\<lambda>a b. pm_order a < pm_order b) ms"
    if enough: "length found \<le> n * l" and d: "distinct (map pm_order found)"
  proof (intro exI conjI)
    let ?all = "sort_by by_order found"
    have e: "map (\<lambda>p. ls_problems (page p)) [0..<n] = map (\<lambda>p. map (listed_problem_of db) (page_of (int p + 1) (int l) ?all)) [0..<n]"
      by (rule map_cong) (simp_all add: pg sort_by_order_unique [OF m d])
    then have "concat (map (\<lambda>p. ls_problems (page p)) [0..<n]) =
        map (listed_problem_of db) (concat (map (\<lambda>p. page_of (int p + 1) (int l) ?all) [0..<n]))"
      unfolding e by (simp add: map_concat o_def)
    then show "concat (map (\<lambda>p. ls_problems (page p)) [0..<n]) = map (listed_problem_of db) ?all"
      using assms(1) enough by (simp add: pages_cover)
    show "mset ?all = mset found" by simp
    have "distinct (map pm_order ?all)" using d mset_eq_imp_distinct_iff [of "map pm_order ?all" "map pm_order found"] by simp
    moreover have "sorted (map pm_order ?all)"
      using by_position.sorted_sort_by [of found] by (simp add: sorted_wrt_map by_order_def [abs_def])
    ultimately show "sorted_wrt (\<lambda>a b. pm_order a < pm_order b) ?all"
      by (simp add: strict_sorted_iff flip: sorted_wrt_map)
  qed
  ultimately show ?thesis by blast
qed

definition sample_problem :: "nat \<Rightarrow> string \<Rightarrow> problem_row" where
  "sample_problem i slug = \<lparr>pm_id = i, pm_title = ''Two Sum'', pm_slug = slug, pm_description = '''', pm_difficulty = ''easy'',
     pm_hints = None, pm_editorial = Some ''Use a map.'', pm_constraints = None, pm_starterCode = None, pm_order = int i, pm_createdAt = 0\<rparr>"

definition sample_catalogue :: cat_db where
  "sample_catalogue = \<lparr>ct_problems = [sample_problem 2 ''b'', sample_problem 1 ''a'', sample_problem 3 ''c''], ct_tags = [], ct_ptags = [],
     ct_tests = [], ct_subs = [], ct_contests = [], ct_limiter = [], ct_lists = new_cache (Fin 9), ct_trending = new_cache (Fin 9),
     ct_tagcache = new_cache (Fin 9)\<rparr>"

definition sample_query :: list_query where
  "sample_query = \<lparr>lq_difficulty = Some ''easy'', lq_tag = None, lq_topic = None, lq_company = None, lq_search = None, lq_page = None, lq_limit = None\<rparr>"

lemma pages_show_every_match_once_witness:
  "\<exists>ms. concat (map (\<lambda>p. ls_problems (case result (problems_GET (at_page p 2 sample_query) 5) []
         (sample_catalogue\<lparr>ct_problems := (if p = 0 then ct_problems sample_catalogue else rev (ct_problems sample_catalogue))\<rparr>) of
       Inr (Reply c r) \<Rightarrow> r | _ \<Rightarrow> \<lparr>ls_problems = [], ls_total = 0, ls_page = 0, ls_limit = 0\<rparr>)) [0..<2]) =
      map (listed_problem_of sample_catalogue) ms \<and> mset ms = mset (ct_problems sample_catalogue) \<and>
      sorted_wrt (\<lambda>a b. pm_order a < pm_order b) ms"
proof -
  have all: "filter (where_clause sample_query sample_catalogue) (ct_problems sample_catalogue) = ct_problems sample_catalogue"
    by (simp add: sample_catalogue_def where_clause_def sample_query_def sample_problem_def truthy_def)
  have n: "length (ct_problems sample_catalogue) = 3" "distinct (map pm_order (ct_problems sample_catalogue))"
    by (simp_all add: sample_catalogue_def sample_problem_def)
  have c: "\<forall>p < 2. truthy (lq_search sample_query) \<or> fst (cache_get (query_key (at_page p 2 sample_query)) 5 (ct_lists sample_catalogue)) = None"
    by (simp add: sample_catalogue_def new_cache_def cache_get_def)
  have m: "\<forall>p < 2. mset (if p = (0::nat) then ct_problems sample_catalogue else rev (ct_problems sample_catalogue)) =
      mset (ct_problems sample_catalogue)" by simp
  from pages_show_every_match_once [OF _ _ c m] show ?thesis by (simp add: all n)
qed

text \<open>
  Ties break the pages: with two problems of the same order, two requests may answer with the
  same problem on page 1 and on page 2, and never show the other.
\<close>

lemma tied_problems_may_repeat:
  fixes a b :: problem_row and now :: int
  defines "a \<equiv> sample_problem 1 ''a''" and "b \<equiv> (sample_problem 2 ''b'')\<lparr>pm_order := 1\<rparr>"
  shows "result (problems_GET (at_page 0 1 sample_query) now) [] (sample_catalogue\<lparr>ct_problems := [a, b]\<rparr>) =
      Inr (Reply 200 \<lparr>ls_problems = [listed_problem_of sample_catalogue a], ls_total = 2, ls_page = 1, ls_limit = 1\<rparr>)"
    and "result (problems_GET (at_page 1 1 sample_query) now) [] (sample_catalogue\<lparr>ct_problems := [b, a]\<rparr>) =
      Inr (Reply 200 \<lparr>ls_problems = [listed_problem_of sample_catalogue a], ls_total = 2, ls_page = 2, ls_limit = 1\<rparr>)"
proof -
  have c: "fst (cache_get k t (ct_lists sample_catalogue)) = None" for k t
    by (simp add: sample_catalogue_def new_cache_def cache_get_def)
  have m: "where_clause sample_query sample_catalogue a" "where_clause sample_query sample_catalogue b"
    by (simp_all add: a_def b_def where_clause_def sample_query_def sample_problem_def truthy_def)
  have o: "by_order a b" "by_order b a" by (simp_all add: a_def b_def by_order_def sample_problem_def)
  show "result (problems_GET (at_page 0 1 sample_query) now) [] (sample_catalogue\<lparr>ct_problems := [a, b]\<rparr>) =
      Inr (Reply 200 \<lparr>ls_problems = [listed_problem_of sample_catalogue a], ls_total = 2, ls_page = 1, ls_limit = 1\<rparr>)"
    using m o by (simp add: problems_GET_cold c at_page_answer [where l = 1, simplified] list_of_def matching_def page_of_def)
  show "result (problems_GET (at_page 1 1 sample_query) now) [] (sample_catalogue\<lparr>ct_problems := [b, a]\<rparr>) =
      Inr (Reply 200 \<lparr>ls_problems = [listed_problem_of sample_catalogue a], ls_total = 2, ls_page = 2, ls_limit = 1\<rparr>)"
    using m o by (simp add: problems_GET_cold c at_page_answer [where l = 1, simplified] list_of_def matching_def page_of_def)
qed

subsection \<open>Keys of the list\<close>

definition colon_free :: "string option \<Rightarrow> bool" where
  "colon_free x \<longleftrightarrow> (case x of None \<Rightarrow> True | Some s \<Rightarrow> CHR '':'' \<notin> set s)"

lemma show_nat_colon_free: "CHR '':'' \<notin> set (show_nat n)"
  using digits_show_nat [of n] by (auto simp: list_all_iff is_digit_def)

lemma list_key_inject:
  assumes "list_cache_key d t p c page limit = list_cache_key d' t' p' c' page' limit'"
    and "\<forall>x \<in> {d, t, p, c, d', t', p', c'}. colon_free x"
  shows "(case d of None \<Rightarrow> [] | Some s \<Rightarrow> s) = (case d' of None \<Rightarrow> [] | Some s \<Rightarrow> s) \<and>
    (case t of None \<Rightarrow> [] | Some s \<Rightarrow> s) = (case t' of None \<Rightarrow> [] | Some s \<Rightarrow> s) \<and>
    (case p of None \<Rightarrow> [] | Some s \<Rightarrow> s) = (case p' of None \<Rightarrow> [] | Some s \<Rightarrow> s) \<and>
    (case c of None \<Rightarrow> [] | Some s \<Rightarrow> s) = (case c' of None \<Rightarrow> [] | Some s \<Rightarrow> s) \<and> page = page' \<and> limit = limit'"
proof -
  let ?o = "\<lambda>x. case x of None \<Rightarrow> [] | Some s \<Rightarrow> s"
  have f: "CHR '':'' \<notin> set (?o x)" if "colon_free x" for x using that by (simp add: colon_free_def split: option.splits)
  have free: "CHR '':'' \<notin> set (?o d)" "CHR '':'' \<notin> set (?o t)" "CHR '':'' \<notin> set (?o p)" "CHR '':'' \<notin> set (?o c)"
    "CHR '':'' \<notin> set (?o d')" "CHR '':'' \<notin> set (?o t')" "CHR '':'' \<notin> set (?o p')" "CHR '':'' \<notin> set (?o c')"
    by (rule f, use assms(2) in blast)+
  have e: "?o d @ CHR '':'' # ?o t @ CHR '':'' # ?o p @ CHR '':'' # ?o c @ CHR '':'' # show_nat page @ CHR '':'' # show_nat limit =
      ?o d' @ CHR '':'' # ?o t' @ CHR '':'' # ?o p' @ CHR '':'' # ?o c' @ CHR '':'' # show_nat page' @ CHR '':'' # show_nat limit'"
    using assms(1) by (simp add: list_cache_key_def Let_def)
  note e1 = split_at_char [OF free(1,5) e]
  note e2 = split_at_char [OF free(2,6) conjunct2 [OF e1]]
  note e3 = split_at_char [OF free(3,7) conjunct2 [OF e2]]
  note e4 = split_at_char [OF free(4,8) conjunct2 [OF e3]]
  note e5 = split_at_char [OF show_nat_colon_free show_nat_colon_free conjunct2 [OF e4]]
  show ?thesis using e1 e2 e3 e4 e5 by simp
qed

definition plain_query :: "list_query \<Rightarrow> bool" where
  "plain_query q \<longleftrightarrow> \<not> truthy (lq_search q) \<and>
    colon_free (lq_difficulty q) \<and> colon_free (lq_tag q) \<and> colon_free (lq_topic q) \<and> colon_free (lq_company q)"

lemma truthy_same: "(case x of None \<Rightarrow> [] | Some s \<Rightarrow> s) = (case y of None \<Rightarrow> [] | Some s \<Rightarrow> s) \<Longrightarrow>
    truthy x = truthy y \<and> (truthy x \<longrightarrow> the x = the y)"
  by (auto simp: truthy_def split: option.splits)

lemma same_key_same_answer:
  assumes "query_key q = query_key q'" "plain_query q" "plain_query q'"
  shows "answer_of q db = answer_of q' db"
proof -
  have pos: "1 \<le> page_param x" "1 \<le> limit_param 50 50 x" for x
    using page_param_pos limit_param_bounds [of 50 50 x] by auto
  have k: "(case lq_difficulty q of None \<Rightarrow> [] | Some s \<Rightarrow> s) = (case lq_difficulty q' of None \<Rightarrow> [] | Some s \<Rightarrow> s)"
    "(case lq_tag q of None \<Rightarrow> [] | Some s \<Rightarrow> s) = (case lq_tag q' of None \<Rightarrow> [] | Some s \<Rightarrow> s)"
    "(case lq_topic q of None \<Rightarrow> [] | Some s \<Rightarrow> s) = (case lq_topic q' of None \<Rightarrow> [] | Some s \<Rightarrow> s)"
    "(case lq_company q of None \<Rightarrow> [] | Some s \<Rightarrow> s) = (case lq_company q' of None \<Rightarrow> [] | Some s \<Rightarrow> s)"
    "nat (page_param (lq_page q)) = nat (page_param (lq_page q'))" "nat (limit_param 50 50 (lq_limit q)) = nat (limit_param 50 50 (lq_limit q'))"
    using list_key_inject [OF assms(1) [unfolded query_key_def]] assms(2,3) by (simp_all add: plain_query_def)
  then have n: "page_param (lq_page q) = page_param (lq_page q')" "limit_param 50 50 (lq_limit q) = limit_param 50 50 (lq_limit q')"
    using pos(1) [of "lq_page q"] pos(1) [of "lq_page q'"] pos(2) [of "lq_limit q"] pos(2) [of "lq_limit q'"] by linarith+
  have w: "where_clause q db = where_clause q' db"
    using k(1-4) [THEN truthy_same] assms(2,3) by (auto simp: where_clause_def plain_query_def fun_eq_iff)
  show ?thesis by (simp add: answer_of_def list_of_def matching_def n w)
qed

text \<open>
  The cache never mixes up two lists. Let a request fill the cache. For the next minute every
  request without a search text, whose filters (and those of the first) hold no colon, is answered
  with the list computed for the first exactly when it falls on the same key, and then its filters,
  page and page size are the same: it gets what it would have computed itself from the tables at
  the time of the first.
\<close>

theorem cached_list_is_own_list:
  assumes "plain_query q" "plain_query q'" "fst (cache_get (query_key q) now (ct_lists db)) = None"
    "query_key q' = query_key q" "now \<le> later" "later \<le> now + 60000"
  shows "result (problems_GET q' later) gs (after (problems_GET q now) [] db) = Inr (Reply 200 (answer_of q' db))"
proof -
  let ?c = "\<lambda>v. cache_set (query_key q) v 60000 now (snd (cache_get (query_key q) now (ct_lists db)))"
  have q: "\<not> truthy (lq_search q)" "\<not> truthy (lq_search q')" using assms(1,2) by (simp_all add: plain_query_def)
  note m = lists_cache.remember_miss [where s = db, OF assms(3)]
  have a: "after (problems_GET q now) [] db = db\<lparr>ct_lists := ?c (answer_of q db)\<rparr>"
    using q(1) by (simp add: after_def problems_GET_def Let_def catch_def bind_def m [unfolded query_key_def] answer_of_def query_key_def)
  have "fst (cache_get (query_key q') later (?c (answer_of q db))) = Some (answer_of q' db)"
    using assms(5,6) same_key_same_answer [OF assms(4) assms(2,1), of db] by (simp add: assms(4) get_after_set)
  then have h: "fst (cache_get (query_key q') later (ct_lists (db\<lparr>ct_lists := ?c (answer_of q db)\<rparr>))) = Some (answer_of q' db)" by simp
  show ?thesis
    unfolding a using q(2)
    by (simp add: result_def problems_GET_def Let_def catch_def bind_def lists_cache.remember_hit [OF h [unfolded query_key_def [of q']]])
qed

lemma cached_list_is_own_list_witness:
  "result (problems_GET sample_query 100) [True] (after (problems_GET sample_query 7) [] sample_catalogue) =
    Inr (Reply 200 (answer_of sample_query sample_catalogue))"
  by (rule cached_list_is_own_list)
    (simp_all add: sample_query_def plain_query_def colon_free_def truthy_def sample_catalogue_def new_cache_def cache_get_def)

subsection \<open>What the public pages show\<close>

interpretation by_test_order: comparator test_le UNIV
  by unfold_locales (auto simp: test_le_def)

text \<open>
  Hidden tests stay hidden. The page of a problem depends on the tests only through those that are
  not hidden: if two databases agree on everything else, no sequence of failing calls tells them
  apart; and every test on the page is marked as not hidden and stands in the table, in the order of
  the tests.
\<close>

theorem hidden_tests_stay_hidden:
  fixes db :: cat_db and tests :: "problem_test list"
  shows "(filter (\<lambda>t. \<not> pt_hidden t) tests = filter (\<lambda>t. \<not> pt_hidden t) (ct_tests db) \<longrightarrow>
      result (problem_GET slug) fs (db\<lparr>ct_tests := tests\<rparr>) = result (problem_GET slug) fs db) \<and>
    (\<forall>c p. result (problem_GET slug) fs db = Inr (Reply c p) \<longrightarrow>
      list_all (\<lambda>t. \<not> sh_isHidden t) (pr_testCases p) \<and> sorted_wrt (\<lambda>a b. sh_order a \<le> sh_order b) (pr_testCases p) \<and>
      set (pr_testCases p) \<subseteq> shown_test_of ` set (ct_tests db))"
proof -
  have r: "result (problem_GET slug) fs d =
      (if fs \<noteq> [] \<and> hd fs then Inr (Failed 500 ''Internal server error'')
       else case problem_by_slug slug d of None \<Rightarrow> Inr (Failed 404 ''Problem not found'') | Some p \<Rightarrow> Inr (Reply 200 (shown_of d p)))" for d
    by (auto simp: result_def problem_GET_def catch_def bind_def query_hd split: option.split)
  let ?open = "\<lambda>p d. filter (\<lambda>t. pt_problem t = pm_id p \<and> \<not> pt_hidden t) (ct_tests d)"
  have e: "?open p d = filter (\<lambda>t. pt_problem t = pm_id p) (filter (\<lambda>t. \<not> pt_hidden t) (ct_tests d))" for p d
    by (simp add: conj_commute)
  have same: "shown_of (db\<lparr>ct_tests := tests\<rparr>) p = shown_of db p"
    if "filter (\<lambda>t. \<not> pt_hidden t) tests = filter (\<lambda>t. \<not> pt_hidden t) (ct_tests db)" for p
  proof -
    have "?open p (db\<lparr>ct_tests := tests\<rparr>) = ?open p db" unfolding e using that by simp
    moreover have "tags_of (pm_id p) (db\<lparr>ct_tests := tests\<rparr>) = tags_of (pm_id p) db" by (simp add: tags_of_def cong: if_cong)
    ultimately show ?thesis unfolding shown_of_def by metis
  qed
  have shown: "list_all (\<lambda>t. \<not> sh_isHidden t) (pr_testCases (shown_of db p)) \<and>
      sorted_wrt (\<lambda>a b. sh_order a \<le> sh_order b) (pr_testCases (shown_of db p)) \<and>
      set (pr_testCases (shown_of db p)) \<subseteq> shown_test_of ` set (ct_tests db)" for p
  proof -
    have "sorted_wrt test_le (sort_by test_le (?open p db))" by (rule by_test_order.sorted_sort_by) simp
    then have "sorted_wrt (\<lambda>a b. sh_order a \<le> sh_order b) (map shown_test_of (sort_by test_le (?open p db)))"
      unfolding sorted_wrt_map by (rule sorted_wrt_mono_rel [rotated]) (simp add: test_le_def shown_test_of_def)
    moreover have "pr_testCases (shown_of db p) = map shown_test_of (sort_by test_le (?open p db))" by (simp add: shown_of_def)
    ultimately show ?thesis by (auto simp: list_all_iff shown_test_of_def)
  qed
  have "problem_by_slug slug (db\<lparr>ct_tests := tests\<rparr>) = problem_by_slug slug db" by (simp add: problem_by_slug_def)
  then show ?thesis using same shown by (auto simp: r split: option.splits)
qed

lemma hidden_tests_stay_hidden_witness:
  "result (problem_GET ''a'') [] (sample_catalogue\<lparr>ct_tests :=
      [\<lparr>pt_id = 1, pt_problem = 1, pt_input = ''1'', pt_expected = ''2'', pt_hidden = True, pt_order = 0\<rparr>]\<rparr>) =
   result (problem_GET ''a'') [] sample_catalogue"
  using hidden_tests_stay_hidden [of "[\<lparr>pt_id = 1, pt_problem = 1, pt_input = ''1'', pt_expected = ''2'', pt_hidden = True, pt_order = 0\<rparr>]"
      sample_catalogue "''a''" "[]"]
  by (simp add: sample_catalogue_def)

text \<open>
  The editorial of a problem is public. The editorial route holds it back for a week from users who
  have not tried the problem, but the page of the problem gives it to everyone.
\<close>

theorem locked_editorial_is_public:
  assumes "problem_by_slug slug db = Some p" "now < pm_createdAt p + 7 * 86400000"
    "\<forall>s \<in> set (ct_subs db). \<not> (sr_user s = se_userId se \<and> sr_problem s = pm_id p)"
  shows "\<exists>gate shown. result (editorial_GET (Some se) slug now) [] db = Inr (Reply 200 (gate, None)) \<and> eg_reason gate = Locked \<and>
      result (problem_GET slug) [] db = Inr (Reply 200 shown) \<and> pr_editorial shown = pm_editorial p"
proof -
  have "filter (\<lambda>s. sr_user s = se_userId se \<and> sr_problem s = pm_id p) (ct_subs db) = []"
    using assms(3) by (simp add: filter_empty_conv)
  then show ?thesis
    using assms(1,2)
    by (simp add: result_def editorial_GET_def problem_GET_def catch_def bind_def evaluateEditorialGate_def EDITORIAL_GRACE_DAYS_def
        Let_def shown_of_def)
qed

subsection \<open>Trending\<close>

interpretation by_count: comparator most_first UNIV
  by unfold_locales (auto simp: most_first_def)

lemma group_count_mem: "(k, n) \<in> set (group_count key xs) \<longleftrightarrow> k \<in> key ` set xs \<and> n = length (filter (\<lambda>x. key x = k) xs)"
  by (auto simp: group_count_def)

lemma distinct_groups: "distinct (map fst (group_count key xs))"
  by (simp add: group_count_def o_def)

lemma trending_count: "trending_of ps g = Some t \<Longrightarrow> pr_recentAccepted t = snd g"
  by (auto simp: trending_of_def)

lemma find_by_filter: "(\<And>r. key r = k \<Longrightarrow> P r) \<Longrightarrow> find_by key k (filter P rows) = find_by key k rows"
  by (induction rows) auto

lemma in_take_or_below:
  assumes "sorted_wrt R xs" "x \<in> set xs" "y \<in> set (take n xs)" "x \<notin> set (take n xs)"
  shows "R y x"
proof -
  have "x \<in> set (drop n xs)" using assms(2,4) by (metis Un_iff append_take_drop_id set_append)
  moreover have "sorted_wrt R (take n xs @ drop n xs)" using assms(1) by simp
  ultimately show ?thesis using assms(3) unfolding sorted_wrt_append by blast
qed

text \<open>
  The trending list is the top of the week. When no call fails and nothing is cached: the list has
  at most \<open>limit\<close> problems, by falling numbers; each is an existing problem with the number of its
  submissions accepted within the last seven days, which is not zero; and no problem left out has
  more of them than one that is shown.
\<close>

theorem trending_is_top_of_week:
  fixes db :: cat_db and raw :: "string option" and now :: int
  defines "limit \<equiv> nat (limit_param 30 10 raw)"
  defines "week \<equiv> (\<lambda>i. length (filter (\<lambda>s. sr_problem s = i \<and> sr_status s = ''accepted'' \<and> now - 604800000 \<le> sr_createdAt s) (ct_subs db)))"
  assumes "fst (cache_get (trending_cache_key limit) now (ct_trending db)) = None"
  shows "\<exists>ts. result (trending_GET raw now) [] db = Inr (Reply 200 ts) \<and> length ts \<le> limit \<and>
    sorted_wrt (\<lambda>a b. pr_recentAccepted a \<ge> pr_recentAccepted b) ts \<and>
    (\<forall>t \<in> set ts. pr_id t \<in> pm_id ` set (ct_problems db) \<and> pr_recentAccepted t = week (pr_id t) \<and> 0 < week (pr_id t)) \<and>
    (\<forall>t \<in> set ts. \<forall>p \<in> set (ct_problems db). pm_id p \<notin> pr_id ` set ts \<longrightarrow> week (pm_id p) \<le> pr_recentAccepted t)"
proof -
  let ?recent = "filter (\<lambda>s. sr_status s = ''accepted'' \<and> sr_createdAt s \<ge> now - 604800000) (ct_subs db)"
  let ?all = "sort_by most_first (group_count sr_problem ?recent)" and ?gs = "trending_groups (now - 604800000) limit db"
  let ?ps = "filter (\<lambda>p. pm_id p \<in> set (map fst ?gs)) (ct_problems db)"
  let ?ts = "List.map_filter (trending_of ?ps) ?gs"
  have gs: "?gs = take limit ?all" by (simp add: trending_groups_def)
  have week: "week i = length (filter (\<lambda>s. sr_problem s = i) ?recent)" for i
    unfolding week_def filter_filter by (metis (mono_tags, lifting))
  have sorted: "sorted_wrt most_first ?all" by (rule by_count.sorted_sort_by) simp
  have mem: "(i, n) \<in> set ?all \<longleftrightarrow> n = week i \<and> i \<in> sr_problem ` set ?recent" for i n
    by (auto simp: group_count_mem week)
  have pos: "i \<in> sr_problem ` set ?recent \<longleftrightarrow> 0 < week i" for i
    unfolding week by (auto simp: length_greater_0_conv filter_empty_conv)
  have sub: "g \<in> set ?all" if "g \<in> set ?gs" for g using that unfolding gs by (rule in_set_takeD)
  have find: "find_by pm_id (fst g) ?ps = find_by pm_id (fst g) (ct_problems db)" if "g \<in> set ?gs" for g
    by (rule find_by_filter) (use that in auto)
  have f: "pr_id t = fst g \<and> pr_recentAccepted t = snd g \<and> fst g \<in> pm_id ` set (ct_problems db)"
    if g: "g \<in> set ?gs" and t: "trending_of ?ps g = Some t" for g t
  proof -
    obtain z where z: "find_by pm_id (fst g) (ct_problems db) = Some z"
        "t = \<lparr>pr_id = pm_id z, pr_title = pm_title z, pr_slug = pm_slug z, pr_difficulty = pm_difficulty z, pr_recentAccepted = snd g\<rparr>"
      using t find [OF g] by (auto simp: trending_of_def)
    then show ?thesis using find_by_key [OF z(1)] imageI [OF find_by_in [OF z(1)], of pm_id] by simp
  qed
  have ts: "?ts = map (the \<circ> trending_of ?ps) (filter (\<lambda>g. trending_of ?ps g \<noteq> None) ?gs)" by (simp add: List.map_filter_def)
  have in_ts: "t \<in> set ?ts \<longleftrightarrow> (\<exists>g \<in> set ?gs. trending_of ?ps g = Some t)" for t
    unfolding ts by force
  have res: "result (trending_GET raw now) [] db = Inr (Reply 200 ?ts)"
  proof -
    have c: "computeTrending limit now ([], db\<lparr>ct_trending := c\<rparr>) = (Inr ?ts, ([], db\<lparr>ct_trending := c\<rparr>))" for c
      by (simp add: computeTrending_def Let_def bind_def trending_groups_def List.map_filter_def)
    show ?thesis
      by (simp add: result_def trending_GET_def Let_def catch_def bind_def limit_def [symmetric]
          trending_cache.remember_miss [where s = db, OF assms(3)] c)
  qed
  have "length ?ts \<le> length ?gs" unfolding ts length_map by (rule length_filter_le)
  then have "length ?ts \<le> limit" by (simp add: gs)
  moreover have "sorted_wrt (\<lambda>a b. pr_recentAccepted a \<ge> pr_recentAccepted b) ?ts"
  proof -
    have "sorted_wrt most_first ?gs" unfolding gs using sorted by (rule sorted_wrt_take)
    then have "sorted_wrt most_first (filter (\<lambda>g. trending_of ?ps g \<noteq> None) ?gs)" by (rule sorted_wrt_filter)
    then show ?thesis unfolding ts sorted_wrt_map by (rule sorted_wrt_mono_rel [rotated]) (auto simp: most_first_def trending_count)
  qed
  moreover have "pr_id t \<in> pm_id ` set (ct_problems db) \<and> pr_recentAccepted t = week (pr_id t) \<and> 0 < week (pr_id t)" if "t \<in> set ?ts" for t
  proof -
    obtain g where g: "g \<in> set ?gs" "trending_of ?ps g = Some t" using \<open>t \<in> set ?ts\<close> in_ts by blast
    then have "(fst g, snd g) \<in> set ?all" using sub by simp
    then have "snd g = week (fst g)" "0 < week (fst g)" using mem pos by blast+
    then show ?thesis using f [OF g] by simp
  qed
  moreover have "week (pm_id p) \<le> pr_recentAccepted t"
    if t: "t \<in> set ?ts" and p: "p \<in> set (ct_problems db)" "pm_id p \<notin> pr_id ` set ?ts" for t p
  proof (cases "week (pm_id p) = 0")
    case False
    obtain g where g: "g \<in> set ?gs" "trending_of ?ps g = Some t" using t in_ts by blast
    have m: "(pm_id p, week (pm_id p)) \<in> set ?all" using False pos mem by blast
    have "(pm_id p, week (pm_id p)) \<notin> set ?gs"
    proof
      assume i: "(pm_id p, week (pm_id p)) \<in> set ?gs"
      obtain r where "find_by pm_id (pm_id p) (ct_problems db) = Some r"
        using p(1) find_by_None [of pm_id "pm_id p" "ct_problems db"] by (cases "find_by pm_id (pm_id p) (ct_problems db)") auto
      then obtain t' where t': "trending_of ?ps (pm_id p, week (pm_id p)) = Some t'" using find [OF i] by (simp add: trending_of_def)
      then have "t' \<in> set ?ts" "pr_id t' = pm_id p" using in_ts i f [OF i t'] by auto
      then show False using p(2) by force
    qed
    then have "most_first g (pm_id p, week (pm_id p))" using in_take_or_below [OF sorted m] g(1) unfolding gs by blast
    then show ?thesis using f [OF g] by (simp add: most_first_def)
  qed simp
  ultimately show ?thesis using res by blast
qed

lemma trending_is_top_of_week_witness:
  "\<exists>ts. result (trending_GET None 700000000) []
      (sample_catalogue\<lparr>ct_subs := [\<lparr>sr_user = 1, sr_problem = 2, sr_language = ''c'', sr_status = ''accepted'', sr_createdAt = 600000000\<rparr>]\<rparr>) =
    Inr (Reply 200 ts) \<and> length ts \<le> 10"
  using trending_is_top_of_week [of None 700000000
      "sample_catalogue\<lparr>ct_subs := [\<lparr>sr_user = 1, sr_problem = 2, sr_language = ''c'', sr_status = ''accepted'', sr_createdAt = 600000000\<rparr>]\<rparr>"]
  by (auto simp: sample_catalogue_def new_cache_def cache_get_def limit_param_def int_param_def)

end
