(* ===== verification/Learning.thy ===== *)
theory Learning
  imports Problems Judge
begin

section \<open>Bookmarks and study plans\<close>

text \<open>
  \<^verbatim>\<open>src/app/api/bookmarks/route.ts\<close> and the routes under \<^verbatim>\<open>src/app/api/study-plans\<close>: the
  per-user rows with a composite key, and the progress that is computed from the submissions.
\<close>

subsection \<open>Tables\<close>

record bookmark =
  bm_id :: nat
  bm_user :: nat
  bm_problem :: nat
  bm_createdAt :: int

record plan =
  pn_id :: nat
  pn_slug :: string
  pn_title :: string
  pn_description :: string
  pn_difficulty :: string
  pn_estimatedHours :: int
  pn_coverImage :: "string option"
  pn_isOfficial :: bool
  pn_createdAt :: int

record plan_problem =
  pp_plan :: nat
  pp_problem :: nat
  pp_order :: int
  pp_dayNumber :: int

record enrollment =
  er_user :: nat
  er_plan :: nat
  er_startedAt :: int
  er_completedAt :: "int option"
  er_lastActivityAt :: int

record plan_row =
  pw_plan :: plan
  pw_problemCount :: nat

record plan_item =
  pi_problem :: problem_line
  pi_acceptanceRate :: "real option"
  pi_order :: int
  pi_dayNumber :: int

record plan_detail =
  pd_plan :: plan
  pd_problems :: "plan_item list"

record learn_db =
  ln_problems :: "(problem_line \<times> real option) list"
  ln_subs :: "sent_row list"
  ln_bookmarks :: "bookmark list"
  ln_plans :: "plan list"
  ln_planProblems :: "plan_problem list"
  ln_enrolled :: "enrollment list"
  ln_limiter :: buckets
  ln_all :: "plan_row list cache"
  ln_details :: "plan_detail option cache"

definition limit_learner :: "string \<Rightarrow> int \<Rightarrow> int \<Rightarrow> int \<Rightarrow> (learn_db, string, rl_result) prog" where
  "limit_learner key mx windowMs now = limited_in ln_limiter (\<lambda>b db. db\<lparr>ln_limiter := b\<rparr>) key mx windowMs now"

definition problem_of :: "nat \<Rightarrow> learn_db \<Rightarrow> (problem_line \<times> real option) option" where
  "problem_of p db = find (\<lambda>x. pr_id (fst x) = p) (ln_problems db)"

subsection \<open>Bookmarks (bookmarks/route.ts)\<close>

definition bookmark_key :: "bookmark \<Rightarrow> nat \<times> nat" where
  "bookmark_key b = (bm_user b, bm_problem b)"

definition bookmark_of :: "nat \<Rightarrow> nat \<Rightarrow> learn_db \<Rightarrow> bookmark option" where
  "bookmark_of u p db = find_by bookmark_key (u, p) (ln_bookmarks db)"

definition newest_bookmark :: "bookmark \<Rightarrow> bookmark \<Rightarrow> bool" where
  "newest_bookmark a b \<longleftrightarrow> bm_createdAt a \<ge> bm_createdAt b"

datatype bookmarks_reply = Single bool | Full "(bookmark \<times> problem_line option) list"

text \<open>\<open>problemId\<close> is None when the query parameter is missing or empty.\<close>

definition bookmarks_GET :: "session option \<Rightarrow> nat option \<Rightarrow> (learn_db, string, bookmarks_reply reply) prog" where
  "bookmarks_GET session problemId =
    catch
      (case session of
         None \<Rightarrow> ret (Failed 401 ''Unauthorized'')
       | Some se \<Rightarrow>
           (case problemId of
              Some p \<Rightarrow> bind (query ''db'' (bookmark_of (se_userId se) p)) (\<lambda>bm. ret (Reply 200 (Single (bm \<noteq> None))))
            | None \<Rightarrow>
                bind (query ''db'' (\<lambda>db. map (\<lambda>b. (b, map_option fst (problem_of (bm_problem b) db)))
                  (sort_by newest_bookmark (filter (\<lambda>b. bm_user b = se_userId se) (ln_bookmarks db))))) (\<lambda>bookmarks.
                ret (Reply 200 (Full bookmarks)))))
      (\<lambda>_. ret (Failed 500 ''Internal server error''))"

definition delete_bookmark :: "nat \<Rightarrow> learn_db \<Rightarrow> (string + unit) \<times> learn_db" where
  "delete_bookmark i db =
    (if i \<notin> bm_id ` set (ln_bookmarks db) then (Inl ''Record to delete does not exist.'', db)
     else (Inr (), db\<lparr>ln_bookmarks := filter (\<lambda>b. bm_id b \<noteq> i) (ln_bookmarks db)\<rparr>))"

definition create_bookmark :: "nat \<Rightarrow> nat \<Rightarrow> nat \<Rightarrow> int \<Rightarrow> learn_db \<Rightarrow> (string + unit) \<times> learn_db" where
  "create_bookmark i u p now db =
    (if bookmark_of u p db \<noteq> None \<or> i \<in> bm_id ` set (ln_bookmarks db) then (Inl ''Unique constraint failed'', db)
     else (Inr (), db\<lparr>ln_bookmarks := ln_bookmarks db @ [\<lparr>bm_id = i, bm_user = u, bm_problem = p, bm_createdAt = now\<rparr>]\<rparr>))"

text \<open>The messages of the body's schema; the problem id of a valid body.\<close>

definition toggleSchema :: "nat option \<Rightarrow> string list" where
  "toggleSchema problemId = (if problemId = None then [''Required''] else [])"

definition toggle :: "nat \<Rightarrow> nat \<Rightarrow> nat \<Rightarrow> int \<Rightarrow> (learn_db, string, bool reply) prog" where
  "toggle u p newId now =
    bind (query ''db'' (bookmark_of u p)) (\<lambda>existing.
    case existing of
      Some b \<Rightarrow> bind (call ''db'' (delete_bookmark (bm_id b))) (\<lambda>_. ret (Reply 200 False))
    | None \<Rightarrow>
        bind (query ''db'' (problem_of p)) (\<lambda>problem.
        case problem of
          None \<Rightarrow> ret (Failed 404 ''Problem not found'')
        | Some _ \<Rightarrow> bind (call ''db'' (create_bookmark newId u p now)) (\<lambda>_. ret (Reply 200 True))))"

definition bookmarks_POST ::
  "session option \<Rightarrow> nat option option \<Rightarrow> nat \<Rightarrow> int \<Rightarrow> (learn_db, string, bool reply) prog" where
  "bookmarks_POST session body newId now =
    catch
      (case session of
         None \<Rightarrow> ret (Failed 401 ''Unauthorized'')
       | Some se \<Rightarrow>
           bind (limit_learner (''bookmark:'' @ show_nat (se_userId se)) 30 60000 now) (\<lambda>limit.
           if \<not> allowed limit then ret (Failed 429 ''Too many bookmark toggles. Slow down.'')
           else case body of
             None \<Rightarrow> ret (Failed 400 ''Invalid JSON body'')
           | Some problemId \<Rightarrow>
               (case toggleSchema problemId of
                  msg # _ \<Rightarrow> ret (Failed 400 msg)
                | [] \<Rightarrow> toggle (se_userId se) (the problemId) newId now)))
      (\<lambda>_. ret (Failed 500 ''Internal server error''))"

definition bookmarks_DELETE :: "session option \<Rightarrow> nat option \<Rightarrow> int \<Rightarrow> (learn_db, string, bool reply) prog" where
  "bookmarks_DELETE session problemId now =
    catch
      (case session of
         None \<Rightarrow> ret (Failed 401 ''Unauthorized'')
       | Some se \<Rightarrow>
           bind (limit_learner (''bookmark:'' @ show_nat (se_userId se)) 30 60000 now) (\<lambda>limit.
           if \<not> allowed limit then ret (Failed 429 ''Too many bookmark toggles. Slow down.'')
           else case problemId of
             None \<Rightarrow> ret (Failed 400 ''Problem ID is required.'')
           | Some p \<Rightarrow>
               bind (query ''db'' (bookmark_of (se_userId se) p)) (\<lambda>existing.
               case existing of
                 None \<Rightarrow> ret (Reply 200 False)
               | Some b \<Rightarrow> bind (call ''db'' (delete_bookmark (bm_id b))) (\<lambda>_. ret (Reply 200 False)))))
      (\<lambda>_. ret (Failed 500 ''Internal server error''))"

subsection \<open>Study plans (study-plans and its sub-routes)\<close>

definition plan_slug_ok :: "string \<Rightarrow> bool" where
  "plan_slug_ok s \<longleftrightarrow> 1 \<le> length s \<and> length s \<le> 200 \<and>
    list_all (\<lambda>c. (let n = (of_char c :: nat) in 97 \<le> n \<and> n \<le> 122 \<or> 48 \<le> n \<and> n \<le> 57) \<or> c = CHR ''-'') s"

definition plan_by_slug :: "string \<Rightarrow> learn_db \<Rightarrow> plan option" where
  "plan_by_slug slug db = find_by pn_slug slug (ln_plans db)"

definition official_first :: "plan \<Rightarrow> plan \<Rightarrow> bool" where
  "official_first a b \<longleftrightarrow> pn_isOfficial a \<and> \<not> pn_isOfficial b \<or>
    pn_isOfficial a = pn_isOfficial b \<and> pn_createdAt a \<le> pn_createdAt b"

definition plan_rows :: "learn_db \<Rightarrow> plan_row list" where
  "plan_rows db = map (\<lambda>p. \<lparr>pw_plan = p, pw_problemCount = length (filter (\<lambda>x. pp_plan x = pn_id p) (ln_planProblems db))\<rparr>)
    (sort_by official_first (ln_plans db))"

text \<open>\<^verbatim>\<open>submission.findMany({ where: { status: "Accepted", ... }, distinct: ["problemId"] })\<close>\<close>

definition accepted_problems :: "nat \<Rightarrow> nat list \<Rightarrow> learn_db \<Rightarrow> nat list" where
  "accepted_problems u ids db =
    remdups (map sr_problem (filter (\<lambda>s. sr_user s = u \<and> sr_status s = ''Accepted'' \<and> sr_problem s \<in> set ids) (ln_subs db)))"

record plan_progress =
  pg_startedAt :: int
  pg_completedAt :: "int option"
  pg_solved :: nat

fun solved_by_plan :: "nat set \<Rightarrow> plan_problem list \<Rightarrow> (nat, nat) jsmap \<Rightarrow> (nat, nat) jsmap" where
  "solved_by_plan solved [] m = m"
| "solved_by_plan solved (x # xs) m =
    solved_by_plan solved xs
      (if pp_problem x \<in> solved
       then jm_set (pp_plan x) ((case jm_get m (pp_plan x) of None \<Rightarrow> 0 | Some n \<Rightarrow> n) + 1) m else m)"

definition progress_of :: "nat \<Rightarrow> (learn_db, string, (nat \<times> plan_progress) list) prog" where
  "progress_of u =
    bind (query ''db'' (\<lambda>db. filter (\<lambda>e. er_user e = u) (ln_enrolled db))) (\<lambda>enrollments.
    if enrollments = [] then ret []
    else
      bind (query ''db'' (\<lambda>db. filter (\<lambda>x. pp_plan x \<in> er_plan ` set enrollments) (ln_planProblems db))) (\<lambda>planProblems.
      bind (query ''db'' (accepted_problems u (remdups (map pp_problem planProblems)))) (\<lambda>accepted.
      let solvedByPlan = solved_by_plan (set accepted) planProblems []
      in ret (map (\<lambda>e. (er_plan e, \<lparr>pg_startedAt = er_startedAt e, pg_completedAt = er_completedAt e,
           pg_solved = (case jm_get solvedByPlan (er_plan e) of None \<Rightarrow> 0 | Some n \<Rightarrow> n)\<rparr>)) enrollments))))"

definition study_plans_GET ::
  "session option \<Rightarrow> int \<Rightarrow> (learn_db, string, (plan_row list \<times> (nat \<times> plan_progress) list) reply) prog" where
  "study_plans_GET session now =
    catch
      (bind (remember ln_all (\<lambda>c db. db\<lparr>ln_all := c\<rparr>) ''study-plans:all'' 60000 now (query ''db'' plan_rows)) (\<lambda>plans.
       bind (case session of None \<Rightarrow> ret [] | Some se \<Rightarrow> progress_of (se_userId se)) (\<lambda>progress.
       ret (Reply 200 (plans, progress)))))
      (\<lambda>_. ret (Failed 500 ''Internal server error''))"

definition plan_position :: "plan_problem \<Rightarrow> plan_problem \<Rightarrow> bool" where
  "plan_position a b \<longleftrightarrow> pp_order a \<le> pp_order b"

definition detail_of :: "string \<Rightarrow> learn_db \<Rightarrow> plan_detail option" where
  "detail_of slug db =
    (case plan_by_slug slug db of
       None \<Rightarrow> None
     | Some p \<Rightarrow> Some \<lparr>pd_plan = p,
         pd_problems = List.map_filter (\<lambda>x. map_option (\<lambda>(l, r). \<lparr>pi_problem = l, pi_acceptanceRate = r, pi_order = pp_order x,
             pi_dayNumber = pp_dayNumber x\<rparr>) (problem_of (pp_problem x) db))
           (sort_by plan_position (filter (\<lambda>x. pp_plan x = pn_id p) (ln_planProblems db)))\<rparr>)"

record plan_page =
  pq_detail :: plan_detail
  pq_solvedProblemIds :: "nat list"
  pq_enrollment :: "enrollment option"

definition enrollment_key :: "enrollment \<Rightarrow> nat \<times> nat" where
  "enrollment_key e = (er_user e, er_plan e)"

definition study_plan_GET :: "session option \<Rightarrow> string \<Rightarrow> int \<Rightarrow> (learn_db, string, plan_page reply) prog" where
  "study_plan_GET session slug now =
    catch
      (if \<not> plan_slug_ok slug then ret (Failed 400 ''Invalid request'')
       else
         bind (remember ln_details (\<lambda>c db. db\<lparr>ln_details := c\<rparr>) (''study-plans:detail:'' @ slug) 60000 now (query ''db'' (detail_of slug))) (\<lambda>detail.
         case detail of
           None \<Rightarrow> ret (Failed 404 ''Study plan not found'')
         | Some d \<Rightarrow>
             (case session of
                None \<Rightarrow> ret (Reply 200 \<lparr>pq_detail = d, pq_solvedProblemIds = [], pq_enrollment = None\<rparr>)
              | Some se \<Rightarrow>
                  let problemIds = map (\<lambda>i. pr_id (pi_problem i)) (pd_problems d)
                  in bind (if problemIds \<noteq> [] then query ''db'' (accepted_problems (se_userId se) problemIds) else ret []) (\<lambda>solved.
                     bind (query ''db'' (\<lambda>db. find_by enrollment_key (se_userId se, pn_id (pd_plan d)) (ln_enrolled db))) (\<lambda>usp.
                     ret (Reply 200 \<lparr>pq_detail = d, pq_solvedProblemIds = solved, pq_enrollment = usp\<rparr>))))))
      (\<lambda>_. ret (Failed 500 ''Internal server error''))"

text \<open>\<^verbatim>\<open>userStudyPlan.upsert\<close>; a new row starts at the database's clock \<open>dbNow\<close>.\<close>

definition upsert_enrollment :: "nat \<Rightarrow> nat \<Rightarrow> int \<Rightarrow> int \<Rightarrow> learn_db \<Rightarrow> enrollment \<times> learn_db" where
  "upsert_enrollment u p now dbNow db =
    (case find_by enrollment_key (u, p) (ln_enrolled db) of
       None \<Rightarrow>
         let e = \<lparr>er_user = u, er_plan = p, er_startedAt = dbNow, er_completedAt = None, er_lastActivityAt = now\<rparr>
         in (e, db\<lparr>ln_enrolled := ln_enrolled db @ [e]\<rparr>)
     | Some e \<Rightarrow>
         (e\<lparr>er_lastActivityAt := now\<rparr>,
          db\<lparr>ln_enrolled := upd_by enrollment_key (u, p) (\<lambda>e. e\<lparr>er_lastActivityAt := now\<rparr>) (ln_enrolled db)\<rparr>))"

definition start_POST ::
  "session option \<Rightarrow> string \<Rightarrow> int \<Rightarrow> int \<Rightarrow> (learn_db, string, (enrollment \<times> bool) reply) prog" where
  "start_POST session slug now dbNow =
    catch
      (case session of
         None \<Rightarrow> ret (Failed 401 ''Unauthorized'')
       | Some se \<Rightarrow>
           bind (limit_learner (''study-plan-start:'' @ show_nat (se_userId se)) 10 60000 now) (\<lambda>limit.
           if \<not> allowed limit then ret (Failed 429 ''Too many requests. Slow down.'')
           else if \<not> plan_slug_ok slug then ret (Failed 400 ''Invalid request'')
           else
             bind (query ''db'' (plan_by_slug slug)) (\<lambda>found.
             case found of
               None \<Rightarrow> ret (Failed 404 ''Study plan not found'')
             | Some p \<Rightarrow>
                 bind (call ''db'' (\<lambda>db. case upsert_enrollment (se_userId se) (pn_id p) now dbNow db of (e, db') \<Rightarrow> (Inr e, db'))) (\<lambda>e.
                 bind (state_op (\<lambda>db. ((), db\<lparr>ln_all := cache_delete ''study-plans:all'' (ln_all db)\<rparr>))) (\<lambda>_.
                 let alreadyStarted = er_startedAt e < now - 1000
                 in ret (Reply (if alreadyStarted then 200 else 201) (e, alreadyStarted)))))))
      (\<lambda>_. ret (Failed 500 ''Internal server error''))"

definition abandon_DELETE :: "session option \<Rightarrow> string \<Rightarrow> int \<Rightarrow> (learn_db, string, bool reply) prog" where
  "abandon_DELETE session slug now =
    catch
      (case session of
         None \<Rightarrow> ret (Failed 401 ''Unauthorized'')
       | Some se \<Rightarrow>
           bind (limit_learner (''study-plan-abandon:'' @ show_nat (se_userId se)) 10 60000 now) (\<lambda>limit.
           if \<not> allowed limit then ret (Failed 429 ''Too many requests. Slow down.'')
           else if \<not> plan_slug_ok slug then ret (Failed 400 ''Invalid request'')
           else
             bind (query ''db'' (plan_by_slug slug)) (\<lambda>found.
             case found of
               None \<Rightarrow> ret (Failed 404 ''Study plan not found'')
             | Some p \<Rightarrow>
                 bind (call ''db'' (\<lambda>db. (Inr (length (filter (\<lambda>e. enrollment_key e = (se_userId se, pn_id p)) (ln_enrolled db))),
                   db\<lparr>ln_enrolled := filter (\<lambda>e. enrollment_key e \<noteq> (se_userId se, pn_id p)) (ln_enrolled db)\<rparr>))) (\<lambda>count.
                 bind (state_op (\<lambda>db. ((), db\<lparr>ln_all := cache_delete ''study-plans:all'' (ln_all db)\<rparr>))) (\<lambda>_.
                 ret (Reply (if count > 0 then 200 else 404) (count > 0)))))))
      (\<lambda>_. ret (Failed 500 ''Internal server error''))"

subsection \<open>What the requests keep\<close>

interpretation learn_limiter: limiter_part ln_limiter "\<lambda>b db. db\<lparr>ln_limiter := b\<rparr>"
  by unfold_locales simp

interpretation plans_cache: cached_part ln_all "\<lambda>c db. db\<lparr>ln_all := c\<rparr>"
  by unfold_locales simp

interpretation details_cache: cached_part ln_details "\<lambda>c db. db\<lparr>ln_details := c\<rparr>"
  by unfold_locales simp

text \<open>The requests of these routes, and the tables after a list of them, each with its failing calls.\<close>

datatype learn_request =
    ListBookmarks "session option" "nat option"
  | ToggleBookmark "session option" "nat option option" nat int
  | RemoveBookmark "session option" "nat option" int
  | ListPlans "session option" int
  | OpenPlan "session option" string int
  | StartPlan "session option" string int int
  | AbandonPlan "session option" string int

fun learn_serve :: "learn_request \<times> bool list \<Rightarrow> learn_db \<Rightarrow> learn_db" where
  "learn_serve (ListBookmarks se p, fs) db = after (bookmarks_GET se p) fs db"
| "learn_serve (ToggleBookmark se b i t, fs) db = after (bookmarks_POST se b i t) fs db"
| "learn_serve (RemoveBookmark se p t, fs) db = after (bookmarks_DELETE se p t) fs db"
| "learn_serve (ListPlans se t, fs) db = after (study_plans_GET se t) fs db"
| "learn_serve (OpenPlan se slug t, fs) db = after (study_plan_GET se slug t) fs db"
| "learn_serve (StartPlan se slug t d, fs) db = after (start_POST se slug t d) fs db"
| "learn_serve (AbandonPlan se slug t, fs) db = after (abandon_DELETE se slug t) fs db"

fun sender :: "learn_request \<Rightarrow> session option" where
  "sender (ListBookmarks se p) = se"
| "sender (ToggleBookmark se b i t) = se"
| "sender (RemoveBookmark se p t) = se"
| "sender (ListPlans se t) = se"
| "sender (OpenPlan se slug t) = se"
| "sender (StartPlan se slug t d) = se"
| "sender (AbandonPlan se slug t) = se"

text \<open>The catalogue is only read; the rows of the users in \<open>U\<close> stay as they are; the keys stay unique.\<close>

definition learn_ok :: "learn_db \<Rightarrow> bool" where
  "learn_ok db \<longleftrightarrow> distinct (map bm_id (ln_bookmarks db)) \<and> distinct (map bookmark_key (ln_bookmarks db)) \<and>
    distinct (map enrollment_key (ln_enrolled db)) \<and>
    (\<forall>b \<in> set (ln_bookmarks db). problem_of (bm_problem b) db \<noteq> None) \<and>
    (\<forall>e \<in> set (ln_enrolled db). er_plan e \<in> pn_id ` set (ln_plans db))"

definition learn_moves :: "nat set \<Rightarrow> learn_db \<Rightarrow> learn_db \<Rightarrow> bool" where
  "learn_moves U s t \<longleftrightarrow> (learn_ok s \<longrightarrow> learn_ok t \<and>
    ln_problems t = ln_problems s \<and> ln_subs t = ln_subs s \<and> ln_plans t = ln_plans s \<and> ln_planProblems t = ln_planProblems s \<and>
    filter (\<lambda>b. bm_user b \<in> U) (ln_bookmarks t) = filter (\<lambda>b. bm_user b \<in> U) (ln_bookmarks s) \<and>
    filter (\<lambda>e. er_user e \<in> U) (ln_enrolled t) = filter (\<lambda>e. er_user e \<in> U) (ln_enrolled s))"

interpretation learns: evolution "learn_moves U"
  by unfold_locales (auto simp: learn_moves_def)

lemma learn_moves_limiter: "learn_moves U s (s\<lparr>ln_limiter := b\<rparr>)"
  and learn_moves_all: "learn_moves U s (s\<lparr>ln_all := a\<rparr>)"
  and learn_moves_details: "learn_moves U s (s\<lparr>ln_details := d\<rparr>)"
  by (simp_all add: learn_moves_def learn_ok_def problem_of_def)

lemma moves_limit_learner: "moves (learn_moves U) (limit_learner key mx d now)"
  unfolding limit_learner_def limited_in_def
  by (rule learns.moves_state_op) (simp add: learn_moves_limiter split: prod.split)

lemma moves_remember_all: "moves (learn_moves U) (remember ln_all (\<lambda>c db. db\<lparr>ln_all := c\<rparr>) key ttl now (query e f))"
  unfolding remember_def
  by (intro learns.moves_rules) (simp_all add: learn_moves_all split: prod.split)

lemma moves_remember_details:
  "moves (learn_moves U) (remember ln_details (\<lambda>c db. db\<lparr>ln_details := c\<rparr>) key ttl now (query e f))"
  unfolding remember_def
  by (intro learns.moves_rules) (simp_all add: learn_moves_details split: prod.split)

lemma moves_forget_all: "moves (learn_moves U) (state_op (\<lambda>db. ((), db\<lparr>ln_all := f db\<rparr>)))"
  by (rule learns.moves_state_op) (simp add: learn_moves_all)

lemmas learn_rules = learns.moves_rules moves_limit_learner moves_remember_all moves_remember_details moves_forget_all

text \<open>The calls that write, in the state their key was looked up in.\<close>

lemma delete_bookmark_moves:
  assumes "bookmark_of u p db = Some b" "u \<notin> U"
  shows "learn_moves U db (snd (delete_bookmark (bm_id b) db))"
  unfolding learn_moves_def
proof (rule impI)
  assume ok: "learn_ok db"
  have b: "bm_user b = u" "b \<in> set (ln_bookmarks db)"
    using find_by_key [OF assms(1) [unfolded bookmark_of_def]] find_by_in [OF assms(1) [unfolded bookmark_of_def]]
    by (simp_all add: bookmark_key_def)
  have "bm_id c \<noteq> bm_id b" if "c \<in> set (ln_bookmarks db)" "bm_user c \<in> U" for c
    using ok that b assms(2) by (metis learn_ok_def distinct_map inj_onD)
  then have "filter (\<lambda>c. bm_user c \<in> U \<and> bm_id c \<noteq> bm_id b) (ln_bookmarks db) = filter (\<lambda>c. bm_user c \<in> U) (ln_bookmarks db)"
    by (intro filter_cong) auto
  then show "learn_ok (snd (delete_bookmark (bm_id b) db)) \<and>
      ln_problems (snd (delete_bookmark (bm_id b) db)) = ln_problems db \<and> ln_subs (snd (delete_bookmark (bm_id b) db)) = ln_subs db \<and>
      ln_plans (snd (delete_bookmark (bm_id b) db)) = ln_plans db \<and>
      ln_planProblems (snd (delete_bookmark (bm_id b) db)) = ln_planProblems db \<and>
      filter (\<lambda>b. bm_user b \<in> U) (ln_bookmarks (snd (delete_bookmark (bm_id b) db))) = filter (\<lambda>b. bm_user b \<in> U) (ln_bookmarks db) \<and>
      filter (\<lambda>e. er_user e \<in> U) (ln_enrolled (snd (delete_bookmark (bm_id b) db))) = filter (\<lambda>e. er_user e \<in> U) (ln_enrolled db)"
    using ok by (auto simp: delete_bookmark_def learn_ok_def problem_of_def distinct_map conj_commute intro: inj_on_subset)
qed

lemma create_bookmark_moves:
  assumes "problem_of p db \<noteq> None" "u \<notin> U"
  shows "learn_moves U db (snd (create_bookmark i u p now db))"
  using assms
  by (auto simp: learn_moves_def create_bookmark_def learn_ok_def problem_of_def bookmark_of_def find_by_None bookmark_key_def)

lemma upsert_moves:
  assumes "plan_by_slug slug db = Some p" "u \<notin> U"
  shows "learn_moves U db (snd (upsert_enrollment u (pn_id p) now dbNow db))"
proof (cases "find_by enrollment_key (u, pn_id p) (ln_enrolled db)")
  case None
  let ?e = "\<lparr>er_user = u, er_plan = pn_id p, er_startedAt = dbNow, er_completedAt = None, er_lastActivityAt = now\<rparr>"
  have "snd (upsert_enrollment u (pn_id p) now dbNow db) = db\<lparr>ln_enrolled := ln_enrolled db @ [?e]\<rparr>"
    using None by (simp add: upsert_enrollment_def Let_def)
  moreover have "pn_id p \<in> pn_id ` set (ln_plans db)" using find_by_in [OF assms(1) [unfolded plan_by_slug_def]] by simp
  moreover have "(u, pn_id p) \<notin> enrollment_key ` set (ln_enrolled db)" using None by (simp add: find_by_None)
  ultimately show ?thesis
    using assms(2) by (simp add: learn_moves_def learn_ok_def problem_of_def enrollment_key_def)
next
  case (Some e)
  let ?es = "upd_by enrollment_key (u, pn_id p) (\<lambda>e. e\<lparr>er_lastActivityAt := now\<rparr>) (ln_enrolled db)"
  have k: "enrollment_key (e\<lparr>er_lastActivityAt := now\<rparr>) = enrollment_key e" for e by (simp add: enrollment_key_def)
  have "filter (\<lambda>e. er_user e \<in> U) (upd_by enrollment_key (u, q) f es) = filter (\<lambda>e. er_user e \<in> U) es"
    if "\<And>e. er_user (f e) = er_user e" for q f es
    using assms(2) that by (induction es) (auto simp: upd_by_def enrollment_key_def)
  then have "filter (\<lambda>e. er_user e \<in> U) ?es = filter (\<lambda>e. er_user e \<in> U) (ln_enrolled db)" by simp
  moreover have "map enrollment_key ?es = map enrollment_key (ln_enrolled db)" by (rule keys_upd) (rule k)
  moreover have "(\<forall>e \<in> set (upd_by enrollment_key x f es). er_plan e \<in> A) \<longleftrightarrow> (\<forall>e \<in> set es. er_plan e \<in> A)"
    if "\<And>e. er_plan (f e) = er_plan e" for x f es A
    using that by (induction es) (simp_all add: upd_by_def)
  moreover have "snd (upsert_enrollment u (pn_id p) now dbNow db) = db\<lparr>ln_enrolled := ?es\<rparr>"
    using Some by (simp add: upsert_enrollment_def)
  ultimately show ?thesis
    by (simp add: learn_moves_def learn_ok_def problem_of_def)
qed

lemma toggle_moves: "u \<notin> U \<Longrightarrow> moves (learn_moves U) (toggle u p i now)"
  by (auto simp: moves_def toggle_def after_steps learns.refl delete_bookmark_moves create_bookmark_moves
      split: option.split sum.split)

lemma remove_moves:
  assumes "u \<notin> U"
  shows "moves (learn_moves U) (bind (query e (bookmark_of u p)) (\<lambda>existing.
     case existing of None \<Rightarrow> ret r | Some b \<Rightarrow> bind (call e (delete_bookmark (bm_id b))) (\<lambda>_. ret r)))"
  using assms by (auto simp: moves_def after_steps learns.refl delete_bookmark_moves split: option.split sum.split)

lemma moves_toggle_body: "u \<notin> U \<Longrightarrow> moves (learn_moves U) (case xs of msg # _ \<Rightarrow> ret (f msg) | [] \<Rightarrow> toggle u p i now)"
  by (cases xs) (simp_all add: toggle_moves learns.moves_ret)

lemma start_moves:
  assumes "u \<notin> U"
  shows "moves (learn_moves U) (bind (query e (plan_by_slug slug)) (\<lambda>found.
     case found of None \<Rightarrow> ret r
     | Some p \<Rightarrow> bind (call e (\<lambda>db. case upsert_enrollment u (pn_id p) now dbNow db of (x, db') \<Rightarrow> (Inr x, db'))) (\<lambda>x.
         bind (state_op (\<lambda>db. ((), db\<lparr>ln_all := cache_delete k (ln_all db)\<rparr>))) (\<lambda>_. ret (g x)))))"
  using assms
  by (auto simp: moves_def after_steps learns.refl case_prod_beta split: option.split
      intro: learns.trans [OF upsert_moves learn_moves_all])

lemma abandon_moves:
  assumes "u \<notin> U"
  shows "learn_moves U db (db\<lparr>ln_enrolled := filter (\<lambda>e. enrollment_key e \<noteq> (u, p)) (ln_enrolled db)\<rparr>)"
proof -
  have "filter (\<lambda>e. er_user e \<in> U \<and> enrollment_key e \<noteq> (u, p)) es = filter (\<lambda>e. er_user e \<in> U) es" for es
    by (rule filter_cong) (use assms in \<open>auto simp: enrollment_key_def\<close>)
  then show ?thesis
    by (auto simp: learn_moves_def learn_ok_def problem_of_def distinct_map conj_commute intro: inj_on_subset)
qed

text \<open>Every request moves only rows of its sender.\<close>

lemma learn_serve_moves:
  assumes "\<And>se. sender r = Some se \<Longrightarrow> se_userId se \<notin> U"
  shows "learn_moves U db (learn_serve (r, fs) db)"
proof -
  have lim: "moves (learn_moves U) (bind (limit_learner key mx d now) k)" if "\<And>l. moves (learn_moves U) (k l)"
    for key mx d now and k :: "rl_result \<Rightarrow> (learn_db, string, 'a) prog"
    by (rule learns.moves_bind [OF moves_limit_learner that])
  have p: "moves (learn_moves U) (progress_of u)" for u
    unfolding progress_of_def Let_def by (intro learn_rules)
  show ?thesis
  proof (cases r)
    case (ListBookmarks se p)
    have "moves (learn_moves U) (bookmarks_GET se p)" unfolding bookmarks_GET_def by (intro learn_rules)
    then show ?thesis using ListBookmarks by (simp add: learns.moves_result)
  next
    case (ToggleBookmark se b i t)
    have "moves (learn_moves U) (bookmarks_POST se b i t)"
      unfolding bookmarks_POST_def using assms ToggleBookmark
      by (cases se) (auto intro!: learns.moves_catch learns.moves_ret lim learns.moves_if moves_toggle_body split: option.split)
    then show ?thesis using ToggleBookmark by (simp add: learns.moves_result)
  next
    case (RemoveBookmark se p t)
    have "moves (learn_moves U) (bookmarks_DELETE se p t)"
      unfolding bookmarks_DELETE_def using assms RemoveBookmark
      by (cases se) (auto intro!: learns.moves_catch learns.moves_ret lim learns.moves_if remove_moves split: option.split)
    then show ?thesis using RemoveBookmark by (simp add: learns.moves_result)
  next
    case (ListPlans se t)
    have "moves (learn_moves U) (study_plans_GET se t)" unfolding study_plans_GET_def by (intro learn_rules p)
    then show ?thesis using ListPlans by (simp add: learns.moves_result)
  next
    case (OpenPlan se slug t)
    have "moves (learn_moves U) (study_plan_GET se slug t)" unfolding study_plan_GET_def Let_def by (intro learn_rules)
    then show ?thesis using OpenPlan by (simp add: learns.moves_result)
  next
    case (StartPlan se slug t d)
    have "moves (learn_moves U) (start_POST se slug t d)"
      unfolding start_POST_def Let_def using assms StartPlan
      by (cases se) (auto intro!: learns.moves_catch learns.moves_ret lim learns.moves_if start_moves)
    then show ?thesis using StartPlan by (simp add: learns.moves_result)
  next
    case (AbandonPlan se slug t)
    have c: "moves (learn_moves U) (call e (\<lambda>db. (Inr (f db), db\<lparr>ln_enrolled := filter (\<lambda>e. enrollment_key e \<noteq> (u, q)) (ln_enrolled db)\<rparr>)))"
      if "u \<notin> U" for e f u q
      by (rule learns.moves_call) (simp add: abandon_moves [OF that])
    have "moves (learn_moves U) (abandon_DELETE se slug t)"
      unfolding abandon_DELETE_def using assms AbandonPlan
      by (cases se) (auto intro!: learn_rules c)
    then show ?thesis using AbandonPlan by (simp add: learns.moves_result)
  qed
qed

lemma served_moves:
  assumes "\<forall>(r, fs) \<in> set rs. \<forall>se. sender r = Some se \<longrightarrow> se_userId se \<notin> U"
  shows "learn_moves U db (fold learn_serve rs db)"
  using assms
proof (induction rs arbitrary: db)
  case (Cons x rs)
  obtain r fs where x: "x = (r, fs)" by (cases x)
  have "learn_moves U db (learn_serve x db)" unfolding x by (rule learn_serve_moves) (use Cons.prems x in auto)
  then show ?case using Cons by (auto intro: learns.trans)
qed (simp add: learns.refl)

subsection \<open>What a reply says is what is stored\<close>

lemma bookmark_of_limiter [simp]: "bookmark_of u p (db\<lparr>ln_limiter := b\<rparr>) = bookmark_of u p db"
  by (simp add: bookmark_of_def)

lemma problem_of_limiter [simp]: "problem_of p (db\<lparr>ln_limiter := b\<rparr>) = problem_of p db"
  by (simp add: problem_of_def)

lemma learn_ok_limiter [simp]: "learn_ok (db\<lparr>ln_limiter := b\<rparr>) = learn_ok db"
  by (simp add: learn_ok_def)

text \<open>\<open>toggled\<close>: the table \<open>t\<close> is \<open>s\<close> but for the bookmark of one user and problem, which is there if \<open>x\<close>.\<close>

definition toggled :: "nat \<Rightarrow> nat \<Rightarrow> bool \<Rightarrow> learn_db \<Rightarrow> learn_db \<Rightarrow> bool" where
  "toggled u p x s t \<longleftrightarrow> (bookmark_of u p t \<noteq> None) = x \<and>
    (\<forall>v q. (v, q) \<noteq> (u, p) \<longrightarrow> bookmark_of v q t = bookmark_of v q s)"

lemma delete_toggles:
  assumes "learn_ok s" "bookmark_of u p s = Some b"
  shows "fst (delete_bookmark (bm_id b) s) = Inr () \<and> toggled u p False s (snd (delete_bookmark (bm_id b) s))"
proof -
  have b: "bookmark_key b = (u, p)" "b \<in> set (ln_bookmarks s)"
    using find_by_key [OF assms(2) [unfolded bookmark_of_def]] find_by_in [OF assms(2) [unfolded bookmark_of_def]] by simp_all
  have id: "bm_id c = bm_id b \<longleftrightarrow> bookmark_key c = (u, p)" if "c \<in> set (ln_bookmarks s)" for c
    using assms(1) that b unfolding learn_ok_def distinct_map by (metis inj_onD)
  then have f: "filter (\<lambda>c. bm_id c \<noteq> bm_id b) (ln_bookmarks s) = filter (\<lambda>c. bookmark_key c \<noteq> (u, p)) (ln_bookmarks s)"
    by (intro filter_cong) auto
  have "find_by bookmark_key (u, p) (filter (\<lambda>c. bookmark_key c \<noteq> (u, p)) xs) = None" for xs
    by (auto simp: find_by_None)
  moreover have "find_by bookmark_key k (filter (\<lambda>c. bookmark_key c \<noteq> (u, p)) xs) = find_by bookmark_key k xs" if "k \<noteq> (u, p)" for k xs
    by (rule find_by_filter) (use that in auto)
  ultimately show ?thesis
    using b by (simp add: delete_bookmark_def toggled_def bookmark_of_def f)
qed

lemma create_toggles:
  assumes "bookmark_of u p s = None"
  shows "create_bookmark i u p now s =
      (if i \<in> bm_id ` set (ln_bookmarks s) then (Inl ''Unique constraint failed'', s)
       else (Inr (), s\<lparr>ln_bookmarks := ln_bookmarks s @ [\<lparr>bm_id = i, bm_user = u, bm_problem = p, bm_createdAt = now\<rparr>]\<rparr>))"
    "toggled u p True s (s\<lparr>ln_bookmarks := ln_bookmarks s @ [\<lparr>bm_id = i, bm_user = u, bm_problem = p, bm_createdAt = now\<rparr>]\<rparr>)"
  using assms by (auto simp: create_bookmark_def toggled_def bookmark_of_def find_by_append bookmark_key_def split: option.split)

text \<open>What a handler's reply says of the tables before and after.\<close>

definition honest :: "nat \<Rightarrow> nat \<Rightarrow> learn_db \<Rightarrow> (string + bool reply) \<Rightarrow> learn_db \<Rightarrow> bool" where
  "honest u p s r t =
    (case r of Inr (Reply c x) \<Rightarrow> c = 200 \<and> toggled u p x s t | _ \<Rightarrow> ln_bookmarks t = ln_bookmarks s)"

lemma honest_limiter [simp]: "honest u p (s\<lparr>ln_limiter := b\<rparr>) r t = honest u p s r t"
  by (simp add: honest_def toggled_def cong: sum.case_cong reply.case_cong)

lemma honest_caught: "honest u p s r t \<Longrightarrow> honest u p s (case r of Inl e \<Rightarrow> Inr (Failed 500 m) | Inr x \<Rightarrow> Inr x) t"
  by (cases r) (simp_all add: honest_def)

lemma toggle_honest:
  assumes "learn_ok s"
  shows "honest u p s (result (toggle u p i now) fs s) (after (toggle u p i now) fs s) \<and>
    (\<forall>c x. result (toggle u p i now) fs s = Inr (Reply c x) \<longrightarrow> x = (bookmark_of u p s = None))"
proof (cases "bookmark_of u p s")
  case None
  show ?thesis
    by (auto simp: toggle_def result_def after_def bind_def query_hd call_hd None create_toggles honest_def split: option.split)
next
  case (Some b)
  note d = delete_toggles [OF assms Some]
  show ?thesis
    using d by (auto simp: toggle_def result_def after_def bind_def query_hd call_hd Some honest_def split: sum.split)
qed

lemma result_catch_ret:
  "result (catch m (\<lambda>e. ret (h e))) fs s = (case result m fs s of Inl e \<Rightarrow> Inr (h e) | Inr x \<Rightarrow> Inr x)"
  by (simp add: result_def catch_def split: prod.split sum.split)

lemma after_limit_learner: "after (bind (limit_learner key mx d now) k) fs s =
    after (k (fst (memoryCheck key mx d now (ln_limiter s)))) fs (s\<lparr>ln_limiter := snd (memoryCheck key mx d now (ln_limiter s))\<rparr>)"
  by (simp add: limit_learner_def learn_limiter.after_limited)

lemma result_limit_learner: "result (bind (limit_learner key mx d now) k) fs s =
    result (k (fst (memoryCheck key mx d now (ln_limiter s)))) fs (s\<lparr>ln_limiter := snd (memoryCheck key mx d now (ln_limiter s))\<rparr>)"
  by (simp add: limit_learner_def result_def bind_def learn_limiter.limited_run)

lemma POST_honest:
  assumes "learn_ok s"
  shows "honest (se_userId se) p s (result (bookmarks_POST (Some se) (Some (Some p)) i now) fs s)
      (after (bookmarks_POST (Some se) (Some (Some p)) i now) fs s) \<and>
    (\<forall>c x. result (bookmarks_POST (Some se) (Some (Some p)) i now) fs s = Inr (Reply c x) \<longrightarrow> x = (bookmark_of (se_userId se) p s = None))"
proof -
  define c where "c = memoryCheck (''bookmark:'' @ show_nat (se_userId se)) 30 60000 now (ln_limiter s)"
  let ?s = "s\<lparr>ln_limiter := snd c\<rparr>" and ?m = "toggle (se_userId se) p i now"
  have "learn_ok ?s" using assms by simp
  note t = toggle_honest [OF this, of "se_userId se" p i now fs]
  have r: "result (bookmarks_POST (Some se) (Some (Some p)) i now) fs s =
      (case (if allowed (fst c) then result ?m fs ?s else Inr (Failed 429 ''Too many bookmark toggles. Slow down.'')) of
         Inl e \<Rightarrow> Inr (Failed 500 ''Internal server error'') | Inr x \<Rightarrow> Inr x)"
    unfolding bookmarks_POST_def result_catch_ret option.case result_limit_learner c_def [symmetric]
    by (simp add: toggleSchema_def) (simp add: result_def)
  have a: "after (bookmarks_POST (Some se) (Some (Some p)) i now) fs s = (if allowed (fst c) then after ?m fs ?s else ?s)"
    unfolding bookmarks_POST_def after_catch_ret option.case after_limit_learner c_def [symmetric]
    by (simp add: toggleSchema_def)
  show ?thesis
  proof (cases "allowed (fst c)")
    case True
    have "honest (se_userId se) p s (result ?m fs ?s) (after ?m fs ?s)" using t by simp
    from honest_caught [OF this] show ?thesis using t unfolding r a by (auto simp: True split: sum.splits)
  next
    case False
    then show ?thesis unfolding r a by (simp add: honest_def)
  qed
qed

lemma remove_honest:
  fixes u p :: nat
  assumes "learn_ok s"
  defines "m \<equiv> (bind (query ''db'' (bookmark_of u p)) (\<lambda>existing.
     case existing of None \<Rightarrow> ret (Reply 200 False) | Some b \<Rightarrow> bind (call ''db'' (delete_bookmark (bm_id b))) (\<lambda>_. ret (Reply 200 False))))"
  shows "honest u p s (result m fs s) (after m fs s) \<and> (\<forall>c x. result m fs s = Inr (Reply c x) \<longrightarrow> \<not> x)"
proof (cases "bookmark_of u p s")
  case None
  then show ?thesis by (auto simp: m_def result_def after_def bind_def query_hd honest_def toggled_def)
next
  case (Some b)
  then show ?thesis
    using delete_toggles [OF assms(1) Some] by (auto simp: m_def result_def after_def bind_def query_hd call_hd honest_def split: sum.split)
qed

lemma DELETE_honest:
  assumes "learn_ok s"
  shows "honest (se_userId se) p s (result (bookmarks_DELETE (Some se) (Some p) now) fs s)
      (after (bookmarks_DELETE (Some se) (Some p) now) fs s) \<and>
    (\<forall>c x. result (bookmarks_DELETE (Some se) (Some p) now) fs s = Inr (Reply c x) \<longrightarrow> \<not> x)"
proof -
  define c where "c = memoryCheck (''bookmark:'' @ show_nat (se_userId se)) 30 60000 now (ln_limiter s)"
  let ?s = "s\<lparr>ln_limiter := snd c\<rparr>"
  have "learn_ok ?s" using assms by simp
  note t = remove_honest [OF this, of "se_userId se" p fs]
  let ?m = "bind (query ''db'' (bookmark_of (se_userId se) p)) (\<lambda>existing.
     case existing of None \<Rightarrow> ret (Reply 200 False) | Some b \<Rightarrow> bind (call ''db'' (delete_bookmark (bm_id b))) (\<lambda>_. ret (Reply 200 False)))"
  have r: "result (bookmarks_DELETE (Some se) (Some p) now) fs s =
      (case (if allowed (fst c) then result ?m fs ?s else Inr (Failed 429 ''Too many bookmark toggles. Slow down.'')) of
         Inl e \<Rightarrow> Inr (Failed 500 ''Internal server error'') | Inr x \<Rightarrow> Inr x)"
    unfolding bookmarks_DELETE_def result_catch_ret option.case result_limit_learner c_def [symmetric]
    by simp (simp add: result_def)
  have a: "after (bookmarks_DELETE (Some se) (Some p) now) fs s = (if allowed (fst c) then after ?m fs ?s else ?s)"
    unfolding bookmarks_DELETE_def after_catch_ret option.case after_limit_learner c_def [symmetric] by simp
  show ?thesis
  proof (cases "allowed (fst c)")
    case True
    have "honest (se_userId se) p s (result ?m fs ?s) (after ?m fs ?s)" using t by simp
    from honest_caught [OF this] show ?thesis using t unfolding r a by (auto simp: True split: sum.splits)
  next
    case False
    then show ?thesis unfolding r a by (simp add: honest_def)
  qed
qed

text \<open>
  The bookmark button tells the truth. After any requests, whichever of their calls failed, and
  whichever calls of this one fail: when toggling (or removing) answers \<open>bookmarked: x\<close>, the
  bookmark of that user and problem is stored if and only if \<open>x\<close>, \<open>x\<close> is the opposite of what was
  stored before (or false), and every other bookmark is as before; when it answers an error, all
  bookmarks are as before.
\<close>

theorem bookmark_replies_are_true:
  fixes se :: session and db :: learn_db and rs :: "(learn_request \<times> bool list) list"
  assumes "ln_bookmarks db = []" "ln_enrolled db = []"
  defines "s \<equiv> fold learn_serve rs db" and "u \<equiv> se_userId se"
  shows "(case result (bookmarks_POST (Some se) (Some (Some p)) i now) fs s of
      Inr (Reply c x) \<Rightarrow> c = 200 \<and> x = (bookmark_of u p s = None) \<and>
        toggled u p x s (after (bookmarks_POST (Some se) (Some (Some p)) i now) fs s)
    | _ \<Rightarrow> ln_bookmarks (after (bookmarks_POST (Some se) (Some (Some p)) i now) fs s) = ln_bookmarks s) \<and>
    (case result (bookmarks_DELETE (Some se) (Some p) now) fs s of
      Inr (Reply c x) \<Rightarrow> c = 200 \<and> \<not> x \<and> toggled u p False s (after (bookmarks_DELETE (Some se) (Some p) now) fs s)
    | _ \<Rightarrow> ln_bookmarks (after (bookmarks_DELETE (Some se) (Some p) now) fs s) = ln_bookmarks s)"
proof -
  have "learn_ok db" using assms by (simp add: learn_ok_def)
  moreover have "learn_moves {} db s" unfolding s_def by (rule served_moves) simp
  ultimately have ok: "learn_ok s" by (simp add: learn_moves_def)
  show ?thesis
    using POST_honest [OF ok, of se p i now fs] DELETE_honest [OF ok, of se p now fs]
    unfolding honest_def u_def by (auto split: sum.splits reply.splits)
qed

definition sample_learners :: learn_db where
  "sample_learners = \<lparr>ln_problems = [(\<lparr>pr_id = 1, pr_title = ''Two Sum'', pr_slug = ''two-sum'', pr_difficulty = ''easy''\<rparr>, None)],
     ln_subs = [\<lparr>sr_user = 7, sr_problem = 1, sr_language = ''c'', sr_status = ''accepted'', sr_createdAt = 0\<rparr>],
     ln_bookmarks = [],
     ln_plans = [\<lparr>pn_id = 1, pn_slug = ''start'', pn_title = ''Start'', pn_description = [], pn_difficulty = ''easy'',
       pn_estimatedHours = 1, pn_coverImage = None, pn_isOfficial = True, pn_createdAt = 0\<rparr>],
     ln_planProblems = [\<lparr>pp_plan = 1, pp_problem = 1, pp_order = 0, pp_dayNumber = 1\<rparr>],
     ln_enrolled = [], ln_limiter = [], ln_all = new_cache (Fin 500), ln_details = new_cache (Fin 500)\<rparr>"

lemma bookmark_replies_are_true_witness:
  "toggled 7 1 True sample_learners
     (after (bookmarks_POST (Some \<lparr>se_userId = 7, se_role = ''user''\<rparr>) (Some (Some 1)) 9 5) [] sample_learners)"
proof -
  have r: "result (bookmarks_POST (Some \<lparr>se_userId = 7, se_role = ''user''\<rparr>) (Some (Some 1)) 9 5) [] sample_learners =
      Inr (Reply 200 True)"
    by code_simp
  have e: "ln_bookmarks sample_learners = []" "ln_enrolled sample_learners = []" by (simp_all add: sample_learners_def)
  show ?thesis
    using bookmark_replies_are_true [OF e, where rs = "[]" and se = "\<lparr>se_userId = 7, se_role = ''user''\<rparr>" and p = 1 and i = 9 and now = 5 and fs = "[]"] r
    by (simp split: sum.splits reply.splits)
qed

text \<open>
  Rows stay one's own. From empty tables, after any requests with whichever calls failing: at
  most one bookmark per user and problem, of an existing problem, and at most one enrolment per user
  and plan, of an existing plan; and no request of other users, nor an anonymous one, adds, changes,
  removes or reorders a bookmark or an enrolment of a user.
\<close>

theorem learning_rows_stay_ones_own:
  fixes u :: nat and db :: learn_db and rs others :: "(learn_request \<times> bool list) list"
  assumes "ln_bookmarks db = []" "ln_enrolled db = []"
    and "\<forall>(r, fs) \<in> set others. \<forall>se. sender r = Some se \<longrightarrow> se_userId se \<noteq> u"
  defines "s \<equiv> fold learn_serve rs db"
  defines "t \<equiv> fold learn_serve others s"
  shows "distinct (map (\<lambda>b. (bm_user b, bm_problem b)) (ln_bookmarks s)) \<and>
    distinct (map (\<lambda>e. (er_user e, er_plan e)) (ln_enrolled s)) \<and>
    (\<forall>b \<in> set (ln_bookmarks s). \<exists>(l, r) \<in> set (ln_problems db). pr_id l = bm_problem b) \<and>
    (\<forall>e \<in> set (ln_enrolled s). \<exists>p \<in> set (ln_plans db). pn_id p = er_plan e) \<and>
    filter (\<lambda>b. bm_user b = u) (ln_bookmarks t) = filter (\<lambda>b. bm_user b = u) (ln_bookmarks s) \<and>
    filter (\<lambda>e. er_user e = u) (ln_enrolled t) = filter (\<lambda>e. er_user e = u) (ln_enrolled s)"
proof -
  have "learn_ok db" using assms by (simp add: learn_ok_def)
  moreover have m: "learn_moves {} db s" unfolding s_def by (rule served_moves) simp
  ultimately have ok: "learn_ok s" and p: "ln_problems s = ln_problems db" "ln_plans s = ln_plans db" by (simp_all add: learn_moves_def)
  have "learn_moves {u} s t" unfolding t_def by (rule served_moves) (use assms(3) in auto)
  moreover have "\<exists>(l, r) \<in> set (ln_problems db). pr_id l = bm_problem b" if "b \<in> set (ln_bookmarks s)" for b
    using ok that p by (force simp: learn_ok_def problem_of_def find_None_iff)
  moreover have "\<exists>p \<in> set (ln_plans db). pn_id p = er_plan e" if "e \<in> set (ln_enrolled s)" for e
    using ok that p by (fastforce simp: learn_ok_def)
  ultimately show ?thesis
    using ok by (auto simp: learn_moves_def learn_ok_def bookmark_key_def [abs_def] enrollment_key_def [abs_def])
qed

lemma learning_rows_stay_ones_own_witness:
  "filter (\<lambda>e. er_user e = 7) (ln_enrolled (fold learn_serve
      [(StartPlan (Some \<lparr>se_userId = 7, se_role = ''user''\<rparr>) ''start'' 5 5, []),
       (AbandonPlan (Some \<lparr>se_userId = 8, se_role = ''user''\<rparr>) ''start'' 9, [])] sample_learners)) =
    [\<lparr>er_user = 7, er_plan = 1, er_startedAt = 5, er_completedAt = None, er_lastActivityAt = 5\<rparr>]"
proof -
  have e: "ln_bookmarks sample_learners = []" "ln_enrolled sample_learners = []"
      "\<forall>(r, fs) \<in> set [(AbandonPlan (Some \<lparr>se_userId = 8, se_role = ''user''\<rparr>) ''start'' 9, [] :: bool list)].
        \<forall>se. sender r = Some se \<longrightarrow> se_userId se \<noteq> 7"
    by (simp_all add: sample_learners_def)
  have "ln_enrolled (fold learn_serve [(StartPlan (Some \<lparr>se_userId = 7, se_role = ''user''\<rparr>) ''start'' 5 5, [])] sample_learners) =
      [\<lparr>er_user = 7, er_plan = 1, er_startedAt = 5, er_completedAt = None, er_lastActivityAt = 5\<rparr>]"
    by code_simp
  then show ?thesis
    using learning_rows_stay_ones_own [OF e, where rs = "[(StartPlan (Some \<lparr>se_userId = 7, se_role = ''user''\<rparr>) ''start'' 5 5, [])]"] by simp
qed

subsection \<open>Progress\<close>

lemma verdict_not_capital: "tu_status (verdict rs st) \<noteq> ''Accepted''"
  by (auto simp: verdict_def Let_def classify_def trusted_judge_statuses_def)

lemma solved_by_plan_none: "solved_by_plan {} xs m = m"
  by (induction xs) auto

lemma none_accepted:
  assumes "\<forall>s \<in> set (ln_subs db). sr_status s \<in> {''queued'', ''judging''} \<or> (\<exists>rs st. sr_status s = tu_status (verdict rs st))"
  shows "accepted_problems u ids db = []"
proof -
  have "sr_status s \<noteq> ''Accepted''" if "s \<in> set (ln_subs db)" for s
    using assms that by (force simp: verdict_not_capital [symmetric] verdict_not_capital)
  then show ?thesis by (auto simp: accepted_problems_def filter_empty_conv)
qed

text \<open>
  No solved problem ever counts for a study plan. Let every submission be in the states the
  program gives it: waiting, being judged, or with a verdict. Then the list of plans shows
  every enrolment of a user with no problem solved, whatever was solved, and the page of a plan
  lists no solved problem: both routes look for a status that no verdict has.
\<close>

theorem study_plans_never_progress:
  assumes "\<forall>s \<in> set (ln_subs db). sr_status s \<in> {''queued'', ''judging''} \<or> (\<exists>rs st. sr_status s = tu_status (verdict rs st))"
  shows "(\<exists>plans. result (study_plans_GET (Some se) now) [] db = Inr (Reply 200 (plans,
      map (\<lambda>e. (er_plan e, \<lparr>pg_startedAt = er_startedAt e, pg_completedAt = er_completedAt e, pg_solved = 0\<rparr>))
        (filter (\<lambda>e. er_user e = se_userId se) (ln_enrolled db))))) \<and>
    (\<forall>c page. result (study_plan_GET (Some se) slug now) [] db = Inr (Reply c page) \<longrightarrow> pq_solvedProblemIds page = [])"
proof -
  have a: "accepted_problems u ids (db\<lparr>ln_all := c\<rparr>) = []" "accepted_problems u ids (db\<lparr>ln_details := d\<rparr>) = []" for u ids c d
    using none_accepted [OF assms] by (simp_all add: accepted_problems_def)
  obtain plans c where r: "remember ln_all (\<lambda>c db. db\<lparr>ln_all := c\<rparr>) ''study-plans:all'' 60000 now (query ''db'' plan_rows) ([], db) =
      (Inr plans, ([], db\<lparr>ln_all := c\<rparr>))"
    by (cases "fst (cache_get ''study-plans:all'' now (ln_all db))") (auto simp: plans_cache.remember_miss plans_cache.remember_hit)
  have "progress_of (se_userId se) ([], db\<lparr>ln_all := c\<rparr>) =
      (Inr (map (\<lambda>e. (er_plan e, \<lparr>pg_startedAt = er_startedAt e, pg_completedAt = er_completedAt e, pg_solved = 0\<rparr>))
        (filter (\<lambda>e. er_user e = se_userId se) (ln_enrolled db))), ([], db\<lparr>ln_all := c\<rparr>))"
    by (simp add: progress_of_def bind_def a solved_by_plan_none)
  then have "result (study_plans_GET (Some se) now) [] db = Inr (Reply 200 (plans,
      map (\<lambda>e. (er_plan e, \<lparr>pg_startedAt = er_startedAt e, pg_completedAt = er_completedAt e, pg_solved = 0\<rparr>))
        (filter (\<lambda>e. er_user e = se_userId se) (ln_enrolled db))))"
    by (simp add: result_def study_plans_GET_def catch_def bind_def r)
  moreover have "pq_solvedProblemIds page = []"
    if g: "result (study_plan_GET (Some se) slug now) [] db = Inr (Reply c page)" for c page
  proof -
    obtain v d where v: "remember ln_details (\<lambda>c db. db\<lparr>ln_details := c\<rparr>) (''study-plans:detail:'' @ slug) 60000 now (query ''db'' (detail_of slug)) ([], db) =
        (Inr v, ([], db\<lparr>ln_details := d\<rparr>))"
      by (cases "fst (cache_get (''study-plans:detail:'' @ slug) now (ln_details db))")
        (auto simp: details_cache.remember_miss details_cache.remember_hit)
    show ?thesis
      using g by (auto simp: result_def study_plan_GET_def catch_def bind_def v [unfolded append_Cons append_Nil] a Let_def split: if_splits option.splits)
  qed
  ultimately show ?thesis by blast
qed

lemma study_plans_never_progress_witness:
  "\<exists>plans. result (study_plans_GET (Some \<lparr>se_userId = 7, se_role = ''user''\<rparr>) 9) []
      (sample_learners\<lparr>ln_enrolled := [\<lparr>er_user = 7, er_plan = 1, er_startedAt = 5, er_completedAt = None, er_lastActivityAt = 5\<rparr>]\<rparr>) =
    Inr (Reply 200 (plans, [(1, \<lparr>pg_startedAt = 5, pg_completedAt = None, pg_solved = 0\<rparr>)]))"
proof -
  have v: "''accepted'' = tu_status (verdict [] [])" by code_simp
  show ?thesis
    using study_plans_never_progress [of "sample_learners\<lparr>ln_enrolled := [\<lparr>er_user = 7, er_plan = 1, er_startedAt = 5,
        er_completedAt = None, er_lastActivityAt = 5\<rparr>]\<rparr>" "\<lparr>se_userId = 7, se_role = ''user''\<rparr>" 9]
    using v by (simp add: sample_learners_def) metis
qed

end
