(* ===== verification/AdminProblems.thy ===== *)
theory AdminProblems
  imports Problems
begin

section \<open>Administration of the catalogue\<close>

text \<open>
  \<^verbatim>\<open>src/app/api/admin/problems/route.ts\<close> and \<^verbatim>\<open>src/app/api/admin/problems/[id]/route.ts\<close>, over the
  tables of the catalogue (theory Problems). Writing a problem with its tests and tags is one
  statement of the database: it takes place as a whole or not at all.
\<close>

subsection \<open>The bodies and their schemas (validations.ts)\<close>

text \<open>A missing field is None; numbers are those without a fraction.\<close>

record new_test =
  nt_input :: "string option"
  nt_expected :: "string option"
  nt_isHidden :: "bool option"
  nt_order :: "int option"

record new_problem =
  np_title :: "string option"
  np_slug :: "string option"
  np_description :: "string option"
  np_difficulty :: "string option"
  np_constraints :: "string option"
  np_hints :: "string option"
  np_editorial :: "string option"
  np_starterCode :: "string option"
  np_order :: "int option"
  np_tags :: "nat list option"
  np_tests :: "new_test list option"

definition slugRegex :: "string \<Rightarrow> bool" where
  "slugRegex s \<longleftrightarrow> s \<noteq> [] \<and>
    list_all (\<lambda>c. (let n = (of_char c :: nat) in 97 \<le> n \<and> n \<le> 122 \<or> 48 \<le> n \<and> n \<le> 57) \<or> c = CHR ''-'') s"

definition difficultyEnum :: "string \<Rightarrow> bool" where
  "difficultyEnum d \<longleftrightarrow> d \<in> {''easy'', ''medium'', ''hard''}"

definition nonnegative :: "int option \<Rightarrow> string list" where
  "nonnegative n = (case n of None \<Rightarrow> [] | Some k \<Rightarrow> if k < 0 then [''Number must be greater than or equal to 0''] else [])"

definition testCaseSchema :: "new_test \<Rightarrow> string list" where
  "testCaseSchema t =
    (if nt_input t = None then [''Required''] else []) @ (if nt_expected t = None then [''Required''] else []) @ nonnegative (nt_order t)"

definition titleSchema :: "string \<Rightarrow> string \<Rightarrow> string list" where
  "titleSchema short t = length_in 1 200 short ''String must contain at most 200 character(s)'' t"

definition createProblemSchema :: "new_problem \<Rightarrow> string list" where
  "createProblemSchema b =
    (case np_title b of None \<Rightarrow> [''Required''] | Some t \<Rightarrow> titleSchema ''Title is required'' t) @
    (case np_slug b of None \<Rightarrow> [''Required'']
     | Some s \<Rightarrow> titleSchema ''Slug is required'' s @ (if slugRegex s then [] else [''Slug must be lowercase with hyphens''])) @
    (case np_description b of None \<Rightarrow> [''Required''] | Some d \<Rightarrow> if d = [] then [''Description is required''] else []) @
    (case np_difficulty b of None \<Rightarrow> [''Required''] | Some d \<Rightarrow> if difficultyEnum d then [] else [''Invalid enum value'']) @
    nonnegative (np_order b) @
    concat (map testCaseSchema (case np_tests b of None \<Rightarrow> [] | Some ts \<Rightarrow> ts))"

definition updateProblemSchema :: "new_problem \<Rightarrow> string list" where
  "updateProblemSchema b =
    (case np_title b of None \<Rightarrow> [] | Some t \<Rightarrow> titleSchema ''String must contain at least 1 character(s)'' t) @
    (case np_slug b of None \<Rightarrow> []
     | Some s \<Rightarrow> titleSchema ''String must contain at least 1 character(s)'' s @ (if slugRegex s then [] else [''Invalid''])) @
    (case np_description b of None \<Rightarrow> [] | Some d \<Rightarrow> if d = [] then [''String must contain at least 1 character(s)''] else []) @
    (case np_difficulty b of None \<Rightarrow> [] | Some d \<Rightarrow> if difficultyEnum d then [] else [''Invalid enum value'']) @
    nonnegative (np_order b)"

subsection \<open>The statements\<close>

text \<open>\<^verbatim>\<open>data.hints || undefined\<close> on a field with the default \<^verbatim>\<open>""\<close>.\<close>

definition or_undefined :: "string option \<Rightarrow> string option" where
  "or_undefined x = (if truthy x then x else None)"

definition or_default :: "'a \<Rightarrow> 'a option \<Rightarrow> 'a" where
  "or_default d x = (case x of None \<Rightarrow> d | Some v \<Rightarrow> v)"

definition new_row :: "nat \<Rightarrow> new_problem \<Rightarrow> int \<Rightarrow> problem_row" where
  "new_row i b now =
    \<lparr>pm_id = i, pm_title = the (np_title b), pm_slug = the (np_slug b), pm_description = the (np_description b),
     pm_difficulty = the (np_difficulty b), pm_hints = or_undefined (np_hints b), pm_editorial = or_undefined (np_editorial b),
     pm_constraints = or_undefined (np_constraints b), pm_starterCode = or_undefined (np_starterCode b),
     pm_order = or_default 0 (np_order b), pm_createdAt = now\<rparr>"

text \<open>The database names the \<open>k\<close>th new test \<open>tid k\<close>.\<close>

definition new_tests :: "(nat \<Rightarrow> nat) \<Rightarrow> nat \<Rightarrow> new_test list \<Rightarrow> problem_test list" where
  "new_tests tid i ts =
    map (\<lambda>(k, t). \<lparr>pt_id = tid k, pt_problem = i, pt_input = the (nt_input t), pt_expected = the (nt_expected t),
      pt_hidden = or_default False (nt_isHidden t), pt_order = or_default 0 (nt_order t)\<rparr>) (List.enumerate 0 ts)"

definition created_of :: "nat \<Rightarrow> cat_db \<Rightarrow> (problem_row \<times> tag_row list \<times> problem_test list) option" where
  "created_of i db =
    map_option (\<lambda>p. (p, tags_of i db, filter (\<lambda>t. pt_problem t = i) (ct_tests db))) (find_by pm_id i (ct_problems db))"

definition create_problem ::
  "nat \<Rightarrow> (nat \<Rightarrow> nat) \<Rightarrow> new_problem \<Rightarrow> int \<Rightarrow> cat_db \<Rightarrow> (string + (problem_row \<times> tag_row list \<times> problem_test list)) \<times> cat_db" where
  "create_problem i tid b now db =
    (let tags = or_default [] (np_tags b); tests = new_tests tid i (or_default [] (np_tests b)) in
     if i \<in> pm_id ` set (ct_problems db) \<or> the (np_slug b) \<in> pm_slug ` set (ct_problems db) \<or> \<not> distinct tags \<or>
        \<not> distinct (map pt_id tests) \<or> pt_id ` set tests \<inter> pt_id ` set (ct_tests db) \<noteq> {}
     then (Inl ''Unique constraint failed'', db)
     else if \<not> set tags \<subseteq> tg_id ` set (ct_tags db) then (Inl ''No Tag record was found for a nested connect'', db)
     else
       let db' = db\<lparr>ct_problems := ct_problems db @ [new_row i b now],
                    ct_ptags := ct_ptags db @ map (Pair i) tags, ct_tests := ct_tests db @ tests\<rparr>
       in (Inr (the (created_of i db')), db'))"

definition changed_row :: "new_problem \<Rightarrow> problem_row \<Rightarrow> problem_row" where
  "changed_row b p =
    p\<lparr>pm_title := or_default (pm_title p) (np_title b), pm_slug := or_default (pm_slug p) (np_slug b),
      pm_description := or_default (pm_description p) (np_description b), pm_difficulty := or_default (pm_difficulty p) (np_difficulty b),
      pm_constraints := (case np_constraints b of None \<Rightarrow> pm_constraints p | c \<Rightarrow> c),
      pm_hints := (case np_hints b of None \<Rightarrow> pm_hints p | h \<Rightarrow> h),
      pm_editorial := (case np_editorial b of None \<Rightarrow> pm_editorial p | e \<Rightarrow> e),
      pm_starterCode := (case np_starterCode b of None \<Rightarrow> pm_starterCode p | c \<Rightarrow> c),
      pm_order := or_default (pm_order p) (np_order b)\<rparr>"

definition update_problem :: "nat \<Rightarrow> new_problem \<Rightarrow> cat_db \<Rightarrow> (string + problem_row) \<times> cat_db" where
  "update_problem i b db =
    (case find_by pm_id i (ct_problems db) of
       None \<Rightarrow> (Inl ''Record to update not found.'', db)
     | Some p \<Rightarrow>
         if np_slug b \<noteq> None \<and> list_ex (\<lambda>q. pm_id q \<noteq> i \<and> pm_slug q = the (np_slug b)) (ct_problems db)
         then (Inl ''Unique constraint failed'', db)
         else (Inr (changed_row b p), db\<lparr>ct_problems := upd_by pm_id i (changed_row b) (ct_problems db)\<rparr>))"

text \<open>The rows that refer to the problem go with it.\<close>

definition delete_problem :: "nat \<Rightarrow> cat_db \<Rightarrow> (string + unit) \<times> cat_db" where
  "delete_problem i db =
    (if i \<notin> pm_id ` set (ct_problems db) then (Inl ''Record to delete does not exist.'', db)
     else (Inr (), db\<lparr>ct_problems := filter (\<lambda>p. pm_id p \<noteq> i) (ct_problems db),
       ct_ptags := filter (\<lambda>(p, t). p \<noteq> i) (ct_ptags db), ct_tests := filter (\<lambda>t. pt_problem t \<noteq> i) (ct_tests db),
       ct_subs := filter (\<lambda>s. sr_problem s \<noteq> i) (ct_subs db)\<rparr>))"

definition forget_lists :: "(cat_db, string, unit) prog" where
  "forget_lists = state_op (\<lambda>db. ((), db\<lparr>ct_lists := invalidateProblemsCache (ct_lists db),
     ct_trending := invalidateProblemsCache (ct_trending db)\<rparr>))"

subsection \<open>The routes\<close>

definition by_admin :: "session option \<Rightarrow> int \<Rightarrow> (session \<Rightarrow> (cat_db, string, 'b reply) prog) \<Rightarrow> (cat_db, string, 'b reply) prog" where
  "by_admin session now k = guarded ct_limiter (\<lambda>b db. db\<lparr>ct_limiter := b\<rparr>) session now k"

record admin_line =
  al_problem :: problem_row
  al_tags :: "tag_row list"
  al_submissions :: nat
  al_testCases :: nat

definition admin_line_of :: "cat_db \<Rightarrow> problem_row \<Rightarrow> admin_line" where
  "admin_line_of db p =
    \<lparr>al_problem = p, al_tags = tags_of (pm_id p) db,
     al_submissions = length (filter (\<lambda>s. sr_problem s = pm_id p) (ct_subs db)),
     al_testCases = length (filter (\<lambda>t. pt_problem t = pm_id p) (ct_tests db))\<rparr>"

definition admin_problems_GET ::
  "session option \<Rightarrow> string option \<Rightarrow> string option \<Rightarrow> int \<Rightarrow> (cat_db, string, admin_line list reply) prog" where
  "admin_problems_GET session difficulty search now =
    catch
      (by_admin session now (\<lambda>se.
         let cond = (\<lambda>p. (truthy difficulty \<longrightarrow> pm_difficulty p = the difficulty) \<and>
                         (truthy search \<longrightarrow> contains_ci (the search) (pm_title p)))
         in bind (query ''db'' (\<lambda>db. map (admin_line_of db) (sort_by by_order (filter cond (ct_problems db))))) (\<lambda>problems.
            ret (Reply 200 problems))))
      (\<lambda>_. ret (Failed 500 ''Internal server error''))"

definition admin_problems_POST ::
  "session option \<Rightarrow> new_problem option \<Rightarrow> nat \<Rightarrow> (nat \<Rightarrow> nat) \<Rightarrow> int \<Rightarrow>
   (cat_db, string, (problem_row \<times> tag_row list \<times> problem_test list) reply) prog" where
  "admin_problems_POST session body newId tid now =
    catch
      (by_admin session now (\<lambda>se.
         case body of
           None \<Rightarrow> ret (Failed 400 ''Invalid JSON body'')
         | Some b \<Rightarrow>
             (case createProblemSchema b of
                msg # _ \<Rightarrow> ret (Failed 400 msg)
              | [] \<Rightarrow>
                  bind (call ''db'' (create_problem newId tid b now)) (\<lambda>problem.
                  bind forget_lists (\<lambda>_.
                  ret (Reply 201 problem))))))
      (\<lambda>_. ret (Failed 500 ''Internal server error''))"

definition admin_problem_PUT ::
  "session option \<Rightarrow> nat \<Rightarrow> new_problem option \<Rightarrow> int \<Rightarrow> (cat_db, string, problem_row reply) prog" where
  "admin_problem_PUT session i body now =
    catch
      (by_admin session now (\<lambda>se.
         case body of
           None \<Rightarrow> ret (Failed 400 ''Invalid JSON body'')
         | Some b \<Rightarrow>
             (case updateProblemSchema b of
                msg # _ \<Rightarrow> ret (Failed 400 msg)
              | [] \<Rightarrow>
                  bind (call ''db'' (update_problem i b)) (\<lambda>problem.
                  bind forget_lists (\<lambda>_.
                  ret (Reply 200 problem))))))
      (\<lambda>_. ret (Failed 500 ''Internal server error''))"

definition admin_problem_DELETE :: "session option \<Rightarrow> nat \<Rightarrow> int \<Rightarrow> (cat_db, string, unit reply) prog" where
  "admin_problem_DELETE session i now =
    catch
      (by_admin session now (\<lambda>se.
         bind (call ''db'' (delete_problem i)) (\<lambda>_.
         bind forget_lists (\<lambda>_.
         ret (Reply 200 ())))))
      (\<lambda>_. ret (Failed 500 ''Internal server error''))"

subsection \<open>Well-formed catalogues\<close>

text \<open>A row as the schemas let it in, and a catalogue with unique keys and no dangling reference.\<close>

definition row_ok :: "problem_row \<Rightarrow> bool" where
  "row_ok p \<longleftrightarrow> pm_title p \<noteq> [] \<and> length (pm_title p) \<le> 200 \<and> slugRegex (pm_slug p) \<and> length (pm_slug p) \<le> 200 \<and>
    pm_description p \<noteq> [] \<and> difficultyEnum (pm_difficulty p) \<and> 0 \<le> pm_order p"

definition cat_ok :: "cat_db \<Rightarrow> bool" where
  "cat_ok db \<longleftrightarrow> distinct (map pm_id (ct_problems db)) \<and> distinct (map pm_slug (ct_problems db)) \<and> list_all row_ok (ct_problems db) \<and>
    distinct (ct_ptags db) \<and> distinct (map pt_id (ct_tests db)) \<and>
    (\<forall>(p, t) \<in> set (ct_ptags db). p \<in> pm_id ` set (ct_problems db) \<and> t \<in> tg_id ` set (ct_tags db)) \<and>
    (\<forall>t \<in> set (ct_tests db). pt_problem t \<in> pm_id ` set (ct_problems db) \<and> 0 \<le> pt_order t) \<and>
    (\<forall>s \<in> set (ct_subs db). sr_problem s \<in> pm_id ` set (ct_problems db))"

definition cat_tables :: "cat_db \<Rightarrow> problem_row list \<times> tag_row list \<times> (nat \<times> nat) list \<times> problem_test list \<times> sent_row list" where
  "cat_tables db = (ct_problems db, ct_tags db, ct_ptags db, ct_tests db, ct_subs db)"

lemma cat_ok_tables: "cat_tables s = cat_tables t \<Longrightarrow> cat_ok s = cat_ok t"
  by (simp add: cat_tables_def cat_ok_def)

lemma created_row_ok: "createProblemSchema b = [] \<Longrightarrow> row_ok (new_row i b now)"
  by (auto simp: createProblemSchema_def row_ok_def new_row_def titleSchema_def nonnegative_def or_default_def
      split: option.splits if_splits)

lemma changed_row_ok: "updateProblemSchema b = [] \<Longrightarrow> row_ok p \<Longrightarrow> row_ok (changed_row b p)"
  by (auto simp: updateProblemSchema_def row_ok_def changed_row_def titleSchema_def nonnegative_def or_default_def
      split: option.splits if_splits)

lemma new_tests_problem: "t \<in> set (new_tests tid i ts) \<Longrightarrow> pt_problem t = i"
  by (auto simp: new_tests_def)

lemma new_tests_order:
  assumes "createProblemSchema b = []" "t \<in> set (new_tests tid i (or_default [] (np_tests b)))"
  shows "0 \<le> pt_order t"
proof -
  have "testCaseSchema x = []" if "x \<in> set (or_default [] (np_tests b))" for x
    using assms(1) that by (auto simp: createProblemSchema_def or_default_def split: option.splits)
  then have "0 \<le> or_default 0 (nt_order x)" if "x \<in> set (or_default [] (np_tests b))" for x
    using that by (force simp: testCaseSchema_def nonnegative_def or_default_def split: option.splits if_splits)
  then show ?thesis using assms(2) by (auto simp: new_tests_def in_set_enumerate_eq)
qed

lemma create_problem_ok:
  assumes "cat_ok db" "createProblemSchema b = []"
  shows "cat_ok (snd (create_problem i tid b now db))"
proof (cases "snd (create_problem i tid b now db) = db")
  case False
  let ?tags = "or_default [] (np_tags b)" and ?tests = "new_tests tid i (or_default [] (np_tests b))"
  have new: "i \<notin> pm_id ` set (ct_problems db)" "the (np_slug b) \<notin> pm_slug ` set (ct_problems db)" "distinct ?tags"
      "distinct (map pt_id ?tests)" "pt_id ` set ?tests \<inter> pt_id ` set (ct_tests db) = {}" "set ?tags \<subseteq> tg_id ` set (ct_tags db)"
    and s: "snd (create_problem i tid b now db) = db\<lparr>ct_problems := ct_problems db @ [new_row i b now],
        ct_ptags := ct_ptags db @ map (Pair i) ?tags, ct_tests := ct_tests db @ ?tests\<rparr>"
    using False unfolding create_problem_def Let_def by (auto split: if_splits)
  have r: "pm_id (new_row i b now) = i" "pm_slug (new_row i b now) = the (np_slug b)" by (simp_all add: new_row_def)
  have "distinct (map (Pair i) ?tags)" using new(3) by (simp add: distinct_map inj_on_def)
  moreover have "set (map (Pair i) ?tags) \<inter> set (ct_ptags db) = {}" using assms(1) new(1) by (auto simp: cat_ok_def)
  ultimately show ?thesis
    unfolding s using assms(1) new r created_row_ok [OF assms(2), of i now] new_tests_problem [of _ tid i]
      new_tests_order [OF assms(2), of _ tid i]
    by (auto simp: cat_ok_def)
qed (simp add: assms(1))

lemma update_problem_ok:
  assumes "cat_ok db" "updateProblemSchema b = []"
  shows "cat_ok (snd (update_problem i b db))"
proof (cases "snd (update_problem i b db) = db")
  case False
  have id: "pm_id (changed_row b p) = pm_id p" for p by (simp add: changed_row_def)
  have s: "snd (update_problem i b db) = db\<lparr>ct_problems := upd_by pm_id i (changed_row b) (ct_problems db)\<rparr>"
    and free: "np_slug b \<noteq> None \<longrightarrow> (\<forall>q \<in> set (ct_problems db). pm_id q \<noteq> i \<longrightarrow> pm_slug q \<noteq> the (np_slug b))"
    using False unfolding update_problem_def by (auto split: option.splits if_splits simp: list_ex_iff)
  let ?ps = "upd_by pm_id i (changed_row b) (ct_problems db)"
  have k: "map pm_id ?ps = map pm_id (ct_problems db)" by (rule keys_upd) (rule id)
  then have "pm_id ` set ?ps = pm_id ` set (ct_problems db)" by (metis list.set_map)
  moreover have "distinct (map pm_slug ?ps)"
  proof -
    have "inj_on (\<lambda>p. pm_slug (if pm_id p = i then changed_row b p else p)) (set (ct_problems db))"
    proof (rule inj_onI)
      fix p q
      assume p: "p \<in> set (ct_problems db)" and q: "q \<in> set (ct_problems db)"
        and e: "pm_slug (if pm_id p = i then changed_row b p else p) = pm_slug (if pm_id q = i then changed_row b q else q)"
      have "p = q" if "pm_id p = pm_id q \<or> pm_slug p = pm_slug q"
        using that p q assms(1) by (auto simp: cat_ok_def distinct_map inj_on_def)
      moreover have "pm_slug (changed_row b p) = or_default (pm_slug p) (np_slug b)" for p by (simp add: changed_row_def)
      ultimately show "p = q" using e free p q by (auto simp: or_default_def split: if_splits option.splits)
    qed
    then show ?thesis using assms(1) by (simp add: upd_by_def distinct_map cat_ok_def o_def inj_on_def) 
  qed
  moreover have "list_all row_ok ?ps"
    using assms(1) changed_row_ok [OF assms(2)] by (auto simp: cat_ok_def list_all_iff upd_by_def)
  ultimately show ?thesis unfolding s using assms(1) k by (simp add: cat_ok_def)
qed (simp add: assms(1))

lemma delete_problem_ok: "cat_ok db \<Longrightarrow> cat_ok (snd (delete_problem i db))"
  by (auto simp: delete_problem_def cat_ok_def distinct_map list_all_iff intro: inj_on_subset)

subsection \<open>What the requests keep\<close>

datatype admin_request =
    ListProblems "session option" "string option" "string option" int
  | CreateProblem "session option" "new_problem option" nat "nat \<Rightarrow> nat" int
  | ChangeProblem "session option" nat "new_problem option" int
  | RemoveProblem "session option" nat int

fun admin_serve :: "admin_request \<times> bool list \<Rightarrow> cat_db \<Rightarrow> cat_db" where
  "admin_serve (ListProblems se d q t, fs) db = after (admin_problems_GET se d q t) fs db"
| "admin_serve (CreateProblem se b i tid t, fs) db = after (admin_problems_POST se b i tid t) fs db"
| "admin_serve (ChangeProblem se i b t, fs) db = after (admin_problem_PUT se i b t) fs db"
| "admin_serve (RemoveProblem se i t, fs) db = after (admin_problem_DELETE se i t) fs db"

fun requester :: "admin_request \<Rightarrow> session option" where
  "requester (ListProblems se d q t) = se"
| "requester (CreateProblem se b i tid t) = se"
| "requester (ChangeProblem se i b t) = se"
| "requester (RemoveProblem se i t) = se"

definition cat_moves :: "cat_db \<Rightarrow> cat_db \<Rightarrow> bool" where
  "cat_moves s t \<longleftrightarrow> (cat_ok s \<longrightarrow> cat_ok t)"

interpretation cats: evolution cat_moves
  by unfold_locales (auto simp: cat_moves_def)

text \<open>Behind the gate a program runs on the same tables; before it nothing but the buckets changes.\<close>

lemma by_admin_moves:
  assumes "\<And>se. session = Some se \<Longrightarrow> se_role se = ''admin'' \<Longrightarrow> moves cat_moves (k se)"
  shows "moves cat_moves (by_admin session now k)"
  unfolding by_admin_def
  by (rule cat_limiter.guarded_moves [OF cats.evolution_axioms]) (simp_all add: assms cat_moves_def cat_ok_def)

lemma by_admin_refused:
  assumes "\<not> (\<exists>se. session = Some se \<and> se_role se = ''admin'')"
  shows "cat_tables (after (by_admin session now k) fs s) = cat_tables s"
  using cat_limiter.guarded_refused [OF assms, of now k fs s]
  by (auto simp: by_admin_def cat_tables_def)

lemma moves_forget_lists: "moves cat_moves forget_lists"
  unfolding forget_lists_def by (rule cats.moves_state_op) (simp add: cat_moves_def cat_ok_def)

lemma moves_create: "createProblemSchema b = [] \<Longrightarrow> moves cat_moves (call e (create_problem i tid b now))"
  by (rule cats.moves_call) (simp add: cat_moves_def create_problem_ok)

lemma moves_change: "updateProblemSchema b = [] \<Longrightarrow> moves cat_moves (call e (update_problem i b))"
  by (rule cats.moves_call) (simp add: cat_moves_def update_problem_ok)

lemma moves_remove: "moves cat_moves (call e (delete_problem i))"
  by (rule cats.moves_call) (simp add: cat_moves_def delete_problem_ok)

lemma admin_serve_moves: "cat_moves db (admin_serve (r, fs) db)"
proof (cases r)
  case (ListProblems se d q t)
  have "moves cat_moves (admin_problems_GET se d q t)"
    unfolding admin_problems_GET_def Let_def by (intro cats.moves_rules by_admin_moves)
  then show ?thesis using ListProblems by (simp add: cats.moves_result)
next
  case (CreateProblem se b i tid t)
  have "moves cat_moves (admin_problems_POST se b i tid t)"
    unfolding admin_problems_POST_def
    by (intro cats.moves_catch cats.moves_ret by_admin_moves)
      (auto split: option.split list.split intro!: cats.moves_ret cats.moves_bind moves_create moves_forget_lists)
  then show ?thesis using CreateProblem by (simp add: cats.moves_result)
next
  case (ChangeProblem se i b t)
  have "moves cat_moves (admin_problem_PUT se i b t)"
    unfolding admin_problem_PUT_def
    by (intro cats.moves_catch cats.moves_ret by_admin_moves)
      (auto split: option.split list.split intro!: cats.moves_ret cats.moves_bind moves_change moves_forget_lists)
  then show ?thesis using ChangeProblem by (simp add: cats.moves_result)
next
  case (RemoveProblem se i t)
  have "moves cat_moves (admin_problem_DELETE se i t)"
    unfolding admin_problem_DELETE_def by (intro cats.moves_rules by_admin_moves moves_remove moves_forget_lists)
  then show ?thesis using RemoveProblem by (simp add: cats.moves_result)
qed

lemma admin_serve_refused:
  assumes "\<And>se. requester r = Some se \<Longrightarrow> se_role se \<noteq> ''admin''"
  shows "cat_tables (admin_serve (r, fs) db) = cat_tables db"
proof -
  have "\<not> (\<exists>se. requester r = Some se \<and> se_role se = ''admin'')" using assms by blast
  then show ?thesis
    by (cases r) (simp_all add: admin_problems_GET_def admin_problems_POST_def admin_problem_PUT_def admin_problem_DELETE_def by_admin_refused)
qed

text \<open>
  C20. The catalogue stays well formed. Whatever requests reach the administration of problems, and
  whichever of their calls fail: if every problem had a title, slug, description, difficulty and
  position as the schemas ask, ids, slugs and tags of a problem were unique, and every test, tag and
  submission belonged to a problem, then so it is afterwards. Requests of anybody but an admin leave
  all tables as they are.
\<close>

theorem catalogue_stays_well_formed:
  assumes "cat_ok db"
  shows "cat_ok (fold admin_serve rs db) \<and>
    ((\<forall>(r, fs) \<in> set rs. \<forall>se. requester r = Some se \<longrightarrow> se_role se \<noteq> ''admin'') \<longrightarrow>
      cat_tables (fold admin_serve rs db) = cat_tables db)"
proof -
  have "cat_moves s (fold admin_serve rs s)" for s
  proof (induction rs arbitrary: s)
    case (Cons x rs)
    then show ?case using admin_serve_moves [of s "fst x" "snd x"] by (auto intro: cats.trans)
  qed (simp add: cats.refl)
  moreover have "cat_tables (fold admin_serve rs s) = cat_tables s"
    if "\<forall>(r, fs) \<in> set rs. \<forall>se. requester r = Some se \<longrightarrow> se_role se \<noteq> ''admin''" for s
    using that
  proof (induction rs arbitrary: s)
    case (Cons x rs)
    have "cat_tables (admin_serve (fst x, snd x) s) = cat_tables s"
      by (rule admin_serve_refused) (use Cons.prems in \<open>auto simp: case_prod_beta\<close>)
    then show ?case using Cons by simp
  qed simp
  ultimately show ?thesis using assms by (auto simp: cat_moves_def)
qed

definition sample_body :: new_problem where
  "sample_body = \<lparr>np_title = Some ''Three Sum'', np_slug = Some ''three-sum'', np_description = Some ''Find three.'',
     np_difficulty = Some ''medium'', np_constraints = None, np_hints = None, np_editorial = None, np_starterCode = None,
     np_order = Some 3, np_tags = Some [1],
     np_tests = Some [\<lparr>nt_input = Some ''1'', nt_expected = Some ''2'', nt_isHidden = Some True, nt_order = None\<rparr>,
       \<lparr>nt_input = Some ''3'', nt_expected = Some ''4'', nt_isHidden = None, nt_order = Some 1\<rparr>]\<rparr>"

definition empty_catalogue :: cat_db where
  "empty_catalogue = sample_catalogue\<lparr>ct_problems := [], ct_tags := [\<lparr>tg_id = 1, tg_name = ''Array'', tg_slug = ''array'', tg_category = ''topic''\<rparr>]\<rparr>"

lemma catalogue_stays_well_formed_witness:
  "cat_ok (fold admin_serve [(CreateProblem (Some \<lparr>se_userId = 1, se_role = ''admin''\<rparr>) (Some sample_body) 5 id 0, []),
      (ChangeProblem (Some \<lparr>se_userId = 1, se_role = ''admin''\<rparr>) 5 (Some sample_body) 9, [True])] empty_catalogue)"
proof -
  have "cat_ok empty_catalogue" by (simp add: cat_ok_def empty_catalogue_def sample_catalogue_def)
  from catalogue_stays_well_formed [OF this] show ?thesis by blast
qed

subsection \<open>A new problem is published\<close>

lemma tags_of_new:
  assumes "\<forall>(p, t) \<in> set old. p \<noteq> i" "set tags \<subseteq> tg_id ` set (ct_tags db)"
  shows "map tg_id (tags_of i (db\<lparr>ct_ptags := old @ map (Pair i) tags\<rparr>)) = tags"
proof -
  let ?f = "\<lambda>(q, t). if q = i then find_by tg_id t (ct_tags db) else None"
  have "List.map_filter ?f old = []" using assms(1) by (induction old) (auto simp: List.map_filter_simps)
  moreover have "map tg_id (List.map_filter ?f (map (Pair i) tags)) = tags" using assms(2)
  proof (induction tags)
    case (Cons t tags)
    then obtain r where r: "find_by tg_id t (ct_tags db) = Some r"
      using find_by_None [of tg_id t "ct_tags db"] by (cases "find_by tg_id t (ct_tags db)") auto
    then show ?case using Cons find_by_key [OF r] by (simp add: List.map_filter_simps)
  qed (simp add: List.map_filter_simps)
  moreover have "List.map_filter ?f (xs @ ys) = List.map_filter ?f xs @ List.map_filter ?f ys" for xs ys
    by (simp add: List.map_filter_def)
  ultimately show ?thesis by (simp add: tags_of_def cong: if_cong)
qed

definition open_test :: "new_test \<Rightarrow> bool" where
  "open_test n \<longleftrightarrow> nt_isHidden n \<noteq> Some True"

lemma new_tests_shown:
  "map (\<lambda>x. (sh_input x, sh_expected x, sh_order x)) (map shown_test_of (sort_by test_le (filter (\<lambda>x. \<not> pt_hidden x) (new_tests tid i ts)))) =
    map (\<lambda>n. (the (nt_input n), the (nt_expected n), or_default 0 (nt_order n)))
      (sort_by (\<lambda>m n. or_default 0 (nt_order m) \<le> or_default 0 (nt_order n)) (filter open_test ts))"
proof -
  define g :: "nat \<times> new_test \<Rightarrow> problem_test" where "g = (\<lambda>(k, t). \<lparr>pt_id = tid k, pt_problem = i, pt_input = the (nt_input t), pt_expected = the (nt_expected t),
    pt_hidden = or_default False (nt_isHidden t), pt_order = or_default 0 (nt_order t)\<rparr>)"
  let ?le = "\<lambda>m n. or_default 0 (nt_order m) \<le> or_default 0 (nt_order n)" and ?F = "filter (open_test \<circ> snd) (List.enumerate 0 ts)"
  have open': "(\<not> pt_hidden (g e)) = (open_test \<circ> snd) e" for e
    by (cases e) (auto simp: g_def open_test_def or_default_def split: option.split)
  have "filter (\<lambda>x. \<not> pt_hidden x) (new_tests tid i ts) = map g ?F"
    by (simp add: new_tests_def g_def [symmetric] filter_map open' o_def)
  moreover have "sort_by test_le (map g ?F) = map g (sort_by (\<lambda>a b. ?le (snd a) (snd b)) ?F)"
    by (rule sort_by_map) (simp add: g_def test_le_def case_prod_beta)
  moreover have "sort_by ?le (map snd ?F) = map snd (sort_by (\<lambda>a b. ?le (snd a) (snd b)) ?F)"
    by (rule sort_by_map) simp
  moreover have "map snd ?F = filter open_test ts"
    by (metis filter_map map_snd_enumerate)
  ultimately show ?thesis by (simp add: g_def shown_test_of_def o_def case_prod_beta)
qed

text \<open>
  A new problem is published as it was written. Let an admin send a valid body with a new slug,
  known tags, each once, and let no call fail. The answer is 201, and from then on the page of that
  slug shows the posted texts, the posted tags in order, and exactly the posted tests that are not
  hidden, in the order of their positions; the page of every other slug is as before.
\<close>

theorem created_problem_is_published:
  fixes db :: cat_db and b :: new_problem
  assumes "cat_ok db" "se_role se = ''admin''"
    "allowed (fst (memoryCheck (''admin:'' @ show_nat (se_userId se)) 60 60000 now (ct_limiter db)))"
    and "createProblemSchema b = []" "np_slug b = Some slug" "slug \<notin> pm_slug ` set (ct_problems db)"
    and "i \<notin> pm_id ` set (ct_problems db)" "inj tid" "\<forall>n. tid n \<notin> pt_id ` set (ct_tests db)"
    and "distinct (or_default [] (np_tags b))" "set (or_default [] (np_tags b)) \<subseteq> tg_id ` set (ct_tags db)"
  defines "t \<equiv> after (admin_problems_POST (Some se) (Some b) i tid now) [] db"
  shows "\<exists>created shown. result (admin_problems_POST (Some se) (Some b) i tid now) [] db = Inr (Reply 201 created) \<and>
    result (problem_GET slug) [] t = Inr (Reply 200 shown) \<and>
    Some (pr_title shown) = np_title b \<and> Some (pr_description shown) = np_description b \<and> Some (pr_difficulty shown) = np_difficulty b \<and>
    map tl_id (pr_topicTags shown) = or_default [] (np_tags b) \<and>
    map (\<lambda>x. (sh_input x, sh_expected x, sh_order x)) (pr_testCases shown) =
      map (\<lambda>n. (the (nt_input n), the (nt_expected n), or_default 0 (nt_order n)))
        (sort_by (\<lambda>m n. or_default 0 (nt_order m) \<le> or_default 0 (nt_order n)) (filter open_test (or_default [] (np_tests b)))) \<and>
    (\<forall>other. other \<noteq> slug \<longrightarrow> result (problem_GET other) [] t = result (problem_GET other) [] db)"
proof -
  let ?tags = "or_default [] (np_tags b)" and ?tests = "new_tests tid i (or_default [] (np_tests b))" and ?row = "new_row i b now"
  define bs where "bs = snd (memoryCheck (''admin:'' @ show_nat (se_userId se)) 60 60000 now (ct_limiter db))"
  let ?db = "db\<lparr>ct_limiter := bs\<rparr>"
  let ?new = "?db\<lparr>ct_problems := ct_problems db @ [?row], ct_ptags := ct_ptags db @ map (Pair i) ?tags, ct_tests := ct_tests db @ ?tests\<rparr>"
  have slug: "pm_slug ?row = slug" "pm_id ?row = i" using assms(5) by (simp_all add: new_row_def)
  have tests: "distinct (map pt_id ?tests)" "pt_id ` set ?tests \<inter> pt_id ` set (ct_tests db) = {}"
  proof -
    have "map pt_id ?tests = map tid [0..<length (or_default [] (np_tests b))]"
      by (rule nth_equalityI) (simp_all add: new_tests_def nth_enumerate_eq)
    then show "distinct (map pt_id ?tests)" using assms(8) by (simp add: distinct_map inj_on_def)
    have "pt_id ` set ?tests \<subseteq> range tid" by (auto simp: new_tests_def)
    then show "pt_id ` set ?tests \<inter> pt_id ` set (ct_tests db) = {}" using assms(9) by fastforce
  qed
  have c: "create_problem i tid b now ?db = (Inr (the (created_of i ?new)), ?new)"
    using assms(5,6,7,10,11) tests by (simp add: create_problem_def Let_def)
  have run: "admin_problems_POST (Some se) (Some b) i tid now ([], db) = (Inr (Reply 201 (the (created_of i ?new))), ([],
      ?new\<lparr>ct_lists := invalidateProblemsCache (ct_lists db), ct_trending := invalidateProblemsCache (ct_trending db)\<rparr>))"
    using assms(4) by (simp add: admin_problems_POST_def catch_def by_admin_def
        cat_limiter.guarded_admits [where s = db, OF assms(2,3), folded bs_def] bind_def c forget_lists_def)
  let ?t = "?new\<lparr>ct_lists := invalidateProblemsCache (ct_lists db), ct_trending := invalidateProblemsCache (ct_trending db)\<rparr>"
  have t: "t = ?t" using run by (simp add: t_def after_def)
  have page: "result (problem_GET s) [] d = (case problem_by_slug s d of None \<Rightarrow> Inr (Failed 404 ''Problem not found'')
      | Some p \<Rightarrow> Inr (Reply 200 (shown_of d p)))" for s d
    by (simp add: result_def problem_GET_def catch_def bind_def split: option.split)
  have old: "\<forall>(p, q) \<in> set (ct_ptags db). p \<noteq> i" "\<forall>x \<in> set (ct_tests db). pt_problem x \<noteq> i"
    using assms(1,7) by (auto simp: cat_ok_def)
  have "problem_by_slug slug ?t = Some ?row"
    using assms(6) slug by (simp add: problem_by_slug_def find_by_append find_by_None [THEN iffD2])
  then have "result (problem_GET slug) [] ?t = Inr (Reply 200 (shown_of ?t ?row))" by (simp add: page)
  moreover have "result (admin_problems_POST (Some se) (Some b) i tid now) [] db = Inr (Reply 201 (the (created_of i ?new)))"
    by (simp add: result_def run)
  moreover have "map tl_id (pr_topicTags (shown_of ?t ?row)) = ?tags"
    using tags_of_new [OF old(1) assms(11)] slug
    by (simp add: shown_of_def tags_of_def tag_line_of_def o_def cong: if_cong)
  moreover have "map (\<lambda>x. (sh_input x, sh_expected x, sh_order x)) (pr_testCases (shown_of ?t ?row)) =
      map (\<lambda>n. (the (nt_input n), the (nt_expected n), or_default 0 (nt_order n)))
        (sort_by (\<lambda>m n. or_default 0 (nt_order m) \<le> or_default 0 (nt_order n)) (filter open_test (or_default [] (np_tests b))))"
  proof -
    have "filter (\<lambda>x. pt_problem x = i \<and> \<not> pt_hidden x) (ct_tests db) = []" using old(2) by (auto simp: filter_empty_conv)
    moreover have "filter (\<lambda>x. pt_problem x = i \<and> \<not> pt_hidden x) ?tests = filter (\<lambda>x. \<not> pt_hidden x) ?tests"
      by (rule filter_cong) (auto dest: new_tests_problem)
    ultimately show ?thesis using slug by (simp add: shown_of_def new_tests_shown del: map_map)
  qed
  moreover have "result (problem_GET other) [] ?t = result (problem_GET other) [] db" if "other \<noteq> slug" for other
  proof -
    have s: "problem_by_slug other ?t = problem_by_slug other db"
      using that slug by (simp add: problem_by_slug_def find_by_append split: option.split)
    have "shown_of ?t p = shown_of db p" if p: "problem_by_slug other db = Some p" for p
    proof -
      have i: "pm_id p \<noteq> i" using find_by_in [OF p [unfolded problem_by_slug_def]] assms(7) by auto
      have "filter (\<lambda>x. pt_problem x = pm_id p \<and> \<not> pt_hidden x) ?tests = []"
        using i by (auto simp: filter_empty_conv dest: new_tests_problem)
      moreover have "tags_of (pm_id p) ?t = tags_of (pm_id p) db"
        using i by (simp add: tags_of_def List.map_filter_def filter_empty_conv o_def cong: if_cong)
      ultimately show ?thesis by (simp add: shown_of_def)
    qed
    then show ?thesis by (simp add: page s split: option.split)
  qed
  moreover have "Some (pr_title (shown_of ?t ?row)) = np_title b" "Some (pr_description (shown_of ?t ?row)) = np_description b"
      "Some (pr_difficulty (shown_of ?t ?row)) = np_difficulty b"
    using assms(4) by (auto simp: shown_of_def new_row_def createProblemSchema_def split: option.splits)
  ultimately show ?thesis unfolding t by blast
qed

lemma created_problem_is_published_witness:
  "\<exists>shown. result (problem_GET ''three-sum'') [] (after (admin_problems_POST (Some \<lparr>se_userId = 1, se_role = ''admin''\<rparr>) (Some sample_body) 5 (\<lambda>n. n) 0)
      [] empty_catalogue) = Inr (Reply 200 shown) \<and> pr_title shown = ''Three Sum'' \<and> map tl_id (pr_topicTags shown) = [1]"
proof -
  have h: "cat_ok empty_catalogue" "createProblemSchema sample_body = []" "np_slug sample_body = Some ''three-sum''"
      "''three-sum'' \<notin> pm_slug ` set (ct_problems empty_catalogue)" "5 \<notin> pm_id ` set (ct_problems empty_catalogue)"
      "\<forall>n. (\<lambda>n. n) n \<notin> pt_id ` set (ct_tests empty_catalogue)" "distinct (or_default [] (np_tags sample_body))"
      "set (or_default [] (np_tags sample_body)) \<subseteq> tg_id ` set (ct_tags empty_catalogue)"
    by (simp_all add: cat_ok_def empty_catalogue_def sample_catalogue_def sample_body_def createProblemSchema_def titleSchema_def
        slugRegex_def difficultyEnum_def nonnegative_def testCaseSchema_def or_default_def)
  have a: "se_role \<lparr>se_userId = 1, se_role = ''admin''\<rparr> = ''admin''"
      "allowed (fst (memoryCheck (''admin:'' @ show_nat (se_userId \<lparr>se_userId = 1, se_role = ''admin''\<rparr>)) 60 60000 0 (ct_limiter empty_catalogue)))"
    by (simp, code_simp)
  have r: "np_title sample_body = Some ''Three Sum''" "or_default [] (np_tags sample_body) = [1]"
    by (simp_all add: sample_body_def or_default_def)
  show ?thesis
    using created_problem_is_published [OF h(1) a h(2-5) inj_on_id2 h(6-8)] r by auto
qed

end
