(* ===== verification/AdminUsers.thy ===== *)
theory AdminUsers
  imports Problems
begin

section \<open>Administration of users, moderation, and the numbers of the dashboard\<close>

text \<open>
  \<^verbatim>\<open>src/app/api/admin/users\<close> with its sub-routes, \<^verbatim>\<open>admin/discussions/[id]\<close>, \<^verbatim>\<open>admin/stats\<close>,
  \<^verbatim>\<open>admin/analytics\<close> with \<^verbatim>\<open>src/lib/admin-analytics.ts\<close>, and
  \<^verbatim>\<open>src/lib/audit-log.ts\<close>. The role in a session is the one its token was signed with; the role in
  the table may have changed since.
\<close>

subsection \<open>Tables\<close>

record member =
  mb_id :: nat
  mb_email :: string
  mb_username :: string
  mb_role :: string
  mb_avatar :: "string option"
  mb_createdAt :: int

text \<open>The audit log, its actions being free texts of a fixed list.\<close>

record audit_event =
  ae_actorId :: "nat option"
  ae_action :: string
  ae_targetType :: "string option"
  ae_targetId :: "string option"
  ae_metadata :: "string option"
  ae_ip :: "string option"
  ae_userAgent :: "string option"

record time_bucket =
  tk_start :: int
  tk_count :: nat

record category_bucket =
  kb_label :: string
  kb_count :: nat

record analytics_payload =
  ap_userGrowth :: "time_bucket list"
  ap_submissionVolume :: "time_bucket list"
  ap_problemDifficulty :: "category_bucket list"
  ap_topLanguages :: "category_bucket list"
  ap_generatedAt :: int

text \<open>A thread is seen as its id and its author, a problem as its id and difficulty, a contest as its id and status.\<close>

record staff_db =
  sf_users :: "member list"
  sf_subs :: "sent_row list"
  sf_threads :: "(nat \<times> nat) list"
  sf_problems :: "(nat \<times> string) list"
  sf_contests :: "(nat \<times> string) list"
  sf_audit :: "audit_event list"
  sf_limiter :: buckets
  sf_analytics :: "analytics_payload cache"

definition staff_only :: "session option \<Rightarrow> int \<Rightarrow> (session \<Rightarrow> (staff_db, string, 'b reply) prog) \<Rightarrow> (staff_db, string, 'b reply) prog" where
  "staff_only session now k = guarded sf_limiter (\<lambda>b db. db\<lparr>sf_limiter := b\<rparr>) session now k"

subsection \<open>Users (admin/users)\<close>

record member_line =
  ml_member :: member
  ml_submissions :: nat

definition youngest_first :: "member \<Rightarrow> member \<Rightarrow> bool" where
  "youngest_first a b \<longleftrightarrow> mb_createdAt a \<ge> mb_createdAt b"

definition admin_users_GET :: "session option \<Rightarrow> int \<Rightarrow> (staff_db, string, member_line list reply) prog" where
  "admin_users_GET session now =
    catch
      (staff_only session now (\<lambda>se.
         bind (query ''db'' (\<lambda>db. map (\<lambda>u. \<lparr>ml_member = u, ml_submissions = length (filter (\<lambda>s. sr_user s = mb_id u) (sf_subs db))\<rparr>)
           (sort_by youngest_first (sf_users db)))) (\<lambda>users.
         ret (Reply 200 users))))
      (\<lambda>_. ret (Failed 500 ''Internal server error''))"

text \<open>Deleting a user deletes what refers to the user; the log keeps its entries without an actor.\<close>

definition delete_member :: "nat \<Rightarrow> staff_db \<Rightarrow> (string + unit) \<times> staff_db" where
  "delete_member i db =
    (if i \<notin> mb_id ` set (sf_users db) then (Inl ''Record to delete does not exist.'', db)
     else (Inr (), db\<lparr>sf_users := filter (\<lambda>u. mb_id u \<noteq> i) (sf_users db), sf_subs := filter (\<lambda>s. sr_user s \<noteq> i) (sf_subs db),
       sf_threads := filter (\<lambda>(t, u). u \<noteq> i) (sf_threads db),
       sf_audit := map (\<lambda>a. if ae_actorId a = Some i then a\<lparr>ae_actorId := None\<rparr> else a) (sf_audit db)\<rparr>))"

definition admin_user_DELETE :: "session option \<Rightarrow> nat \<Rightarrow> int \<Rightarrow> (staff_db, string, unit reply) prog" where
  "admin_user_DELETE session i now =
    catch
      (staff_only session now (\<lambda>se.
         if i = se_userId se then ret (Failed 409 ''Cannot delete your own account from the admin panel'')
         else
           catch (bind (call ''db'' (delete_member i)) (\<lambda>_. ret (Reply 200 ())))
             (\<lambda>msg. if str_includes ''Record to delete does not exist'' msg then ret (Failed 404 ''User not found'') else throw msg)))
      (\<lambda>_. ret (Failed 500 ''Internal server error''))"

definition roleSchema :: "string option \<Rightarrow> string list" where
  "roleSchema r = (case r of None \<Rightarrow> [''Required''] | Some x \<Rightarrow> if x \<in> {''user'', ''admin''} then [] else [''Invalid enum value''])"

definition change_role :: "nat \<Rightarrow> string \<Rightarrow> staff_db \<Rightarrow> (string + member) \<times> staff_db" where
  "change_role i role db =
    (case find_by mb_id i (sf_users db) of
       None \<Rightarrow> (Inl ''Record to update not found.'', db)
     | Some u \<Rightarrow> (Inr (u\<lparr>mb_role := role\<rparr>), db\<lparr>sf_users := upd_by mb_id i (\<lambda>u. u\<lparr>mb_role := role\<rparr>) (sf_users db)\<rparr>))"

definition admin_role_PATCH :: "session option \<Rightarrow> nat \<Rightarrow> string option option \<Rightarrow> int \<Rightarrow> (staff_db, string, member reply) prog" where
  "admin_role_PATCH session i body now =
    catch
      (staff_only session now (\<lambda>se.
         if i = se_userId se then ret (Failed 409 ''Cannot change your own role'')
         else case body of
           None \<Rightarrow> ret (Failed 400 ''Invalid JSON body'')
         | Some role \<Rightarrow>
             (case roleSchema role of
                msg # _ \<Rightarrow> ret (Failed 400 msg)
              | [] \<Rightarrow> bind (call ''db'' (change_role i (the role))) (\<lambda>user. ret (Reply 200 user)))))
      (\<lambda>msg. if str_includes ''Record to update not found'' msg then ret (Failed 404 ''User not found'')
             else ret (Failed 500 ''Internal server error''))"

subsection \<open>Moderation (admin/discussions/[id]) and counters (admin/stats)\<close>

definition delete_thread :: "nat \<Rightarrow> staff_db \<Rightarrow> (string + unit) \<times> staff_db" where
  "delete_thread i db =
    (if i \<notin> fst ` set (sf_threads db) then (Inl ''Record to delete does not exist.'', db)
     else (Inr (), db\<lparr>sf_threads := filter (\<lambda>(t, u). t \<noteq> i) (sf_threads db)\<rparr>))"

definition admin_discussion_DELETE :: "session option \<Rightarrow> nat \<Rightarrow> int \<Rightarrow> (staff_db, string, unit reply) prog" where
  "admin_discussion_DELETE session i now =
    catch
      (staff_only session now (\<lambda>se.
         catch (bind (call ''db'' (delete_thread i)) (\<lambda>_. ret (Reply 200 ())))
           (\<lambda>msg. if str_includes ''Record to delete does not exist'' msg then ret (Failed 404 ''Discussion not found'') else throw msg)))
      (\<lambda>_. ret (Failed 500 ''Internal server error''))"

record site_stats =
  ss_problems :: nat
  ss_contests :: nat
  ss_activeContests :: nat
  ss_users :: nat
  ss_adminUsers :: nat
  ss_submissions :: nat
  ss_acceptedSubmissions :: nat
  ss_discussions :: nat

definition admin_stats_GET :: "session option \<Rightarrow> int \<Rightarrow> (staff_db, string, site_stats reply) prog" where
  "admin_stats_GET session now =
    catch
      (staff_only session now (\<lambda>se.
         bind (query ''db'' (\<lambda>db. length (sf_problems db))) (\<lambda>problems.
         bind (query ''db'' (\<lambda>db. length (sf_contests db))) (\<lambda>contests.
         bind (query ''db'' (\<lambda>db. length (sf_users db))) (\<lambda>users.
         bind (query ''db'' (\<lambda>db. length (sf_subs db))) (\<lambda>submissions.
         bind (query ''db'' (\<lambda>db. length (filter (\<lambda>s. sr_status s = ''accepted'') (sf_subs db)))) (\<lambda>acceptedSubmissions.
         bind (query ''db'' (\<lambda>db. length (sf_threads db))) (\<lambda>discussions.
         bind (query ''db'' (\<lambda>db. length (filter (\<lambda>c. snd c = ''active'') (sf_contests db)))) (\<lambda>activeContests.
         bind (query ''db'' (\<lambda>db. length (filter (\<lambda>u. mb_role u = ''admin'') (sf_users db)))) (\<lambda>adminUsers.
         ret (Reply 200 \<lparr>ss_problems = problems, ss_contests = contests, ss_activeContests = activeContests, ss_users = users,
           ss_adminUsers = adminUsers, ss_submissions = submissions, ss_acceptedSubmissions = acceptedSubmissions,
           ss_discussions = discussions\<rparr>)))))))))))
      (\<lambda>_. ret (Failed 500 ''Internal server error''))"

subsection \<open>The log of actions (audit-log.ts)\<close>

definition recordAuditEvent :: "audit_event \<Rightarrow> (staff_db, string, unit) prog" where
  "recordAuditEvent event =
    catch (update ''db'' (\<lambda>db. db\<lparr>sf_audit := sf_audit db @ [event]\<rparr>)) (\<lambda>_. ret ())"

subsection \<open>Charts (admin-analytics.ts)\<close>

text \<open>
  \<^verbatim>\<open>GROUP BY date_trunc(...) ORDER BY 1\<close>: \<open>trunc\<close> is the database's truncation of a time to
  the start of its month or day, \<open>since\<close> the start of the window.
\<close>

definition grouped :: "(int \<Rightarrow> int) \<Rightarrow> int \<Rightarrow> int list \<Rightarrow> time_bucket list" where
  "grouped trunc since ts =
    map (\<lambda>(k, n). \<lparr>tk_start = k, tk_count = n\<rparr>)
      (sort_by (\<lambda>a b. fst a \<le> fst b) (group_count trunc (filter (\<lambda>t. t \<ge> since) ts)))"

definition userGrowthLast12Months :: "(int \<Rightarrow> int) \<Rightarrow> int \<Rightarrow> staff_db \<Rightarrow> time_bucket list" where
  "userGrowthLast12Months month yearAgo db = grouped month yearAgo (map mb_createdAt (sf_users db))"

definition submissionVolumeLast30Days :: "(int \<Rightarrow> int) \<Rightarrow> int \<Rightarrow> staff_db \<Rightarrow> time_bucket list" where
  "submissionVolumeLast30Days day now db = grouped day (now - 30 * 86400000) (map sr_createdAt (sf_subs db))"

definition difficulty_rank :: "string \<Rightarrow> nat" where
  "difficulty_rank d = (if d = ''easy'' then 0 else if d = ''medium'' then 1 else if d = ''hard'' then 2 else 99)"

text \<open>\<open>locale_le\<close> is the order of \<^verbatim>\<open>localeCompare\<close>.\<close>

definition difficulty_le :: "(string \<Rightarrow> string \<Rightarrow> bool) \<Rightarrow> category_bucket \<Rightarrow> category_bucket \<Rightarrow> bool" where
  "difficulty_le locale_le a b \<longleftrightarrow>
    difficulty_rank (kb_label a) < difficulty_rank (kb_label b) \<or>
    difficulty_rank (kb_label a) = difficulty_rank (kb_label b) \<and> locale_le (kb_label a) (kb_label b)"

definition problemsByDifficulty :: "(string \<Rightarrow> string \<Rightarrow> bool) \<Rightarrow> staff_db \<Rightarrow> category_bucket list" where
  "problemsByDifficulty locale_le db =
    sort_by (difficulty_le locale_le) (map (\<lambda>(k, n). \<lparr>kb_label = k, kb_count = n\<rparr>) (group_count snd (sf_problems db)))"

definition topLanguagesBySubmissions :: "nat \<Rightarrow> staff_db \<Rightarrow> category_bucket list" where
  "topLanguagesBySubmissions limit db =
    map (\<lambda>(k, n). \<lparr>kb_label = k, kb_count = n\<rparr>) (take limit (sort_by most_first (group_count sr_language (sf_subs db))))"

definition loadAnalytics ::
  "(int \<Rightarrow> int) \<Rightarrow> (int \<Rightarrow> int) \<Rightarrow> (string \<Rightarrow> string \<Rightarrow> bool) \<Rightarrow> int \<Rightarrow> int \<Rightarrow> (staff_db, string, analytics_payload) prog" where
  "loadAnalytics month day locale_le yearAgo now =
    remember sf_analytics (\<lambda>c db. db\<lparr>sf_analytics := c\<rparr>) ''admin:analytics:v1'' (5 * 60 * 1000) now
      (bind (query ''db'' (userGrowthLast12Months month yearAgo)) (\<lambda>userGrowth.
       bind (query ''db'' (submissionVolumeLast30Days day now)) (\<lambda>submissionVolume.
       bind (query ''db'' (problemsByDifficulty locale_le)) (\<lambda>problemDifficulty.
       bind (query ''db'' (topLanguagesBySubmissions 10)) (\<lambda>topLanguages.
       ret \<lparr>ap_userGrowth = userGrowth, ap_submissionVolume = submissionVolume, ap_problemDifficulty = problemDifficulty,
         ap_topLanguages = topLanguages, ap_generatedAt = now\<rparr>)))))"

definition admin_analytics_GET ::
  "(int \<Rightarrow> int) \<Rightarrow> (int \<Rightarrow> int) \<Rightarrow> (string \<Rightarrow> string \<Rightarrow> bool) \<Rightarrow> session option \<Rightarrow> int \<Rightarrow> int \<Rightarrow> (staff_db, string, analytics_payload reply) prog" where
  "admin_analytics_GET month day locale_le session yearAgo now =
    staff_only session now (\<lambda>se.
      catch (bind (loadAnalytics month day locale_le yearAgo now) (\<lambda>data. ret (Reply 200 data)))
        (\<lambda>_. ret (Failed 500 ''Internal server error'')))"

subsection \<open>An admin remains\<close>

interpretation staff_limiter: limiter_part sf_limiter "\<lambda>b db. db\<lparr>sf_limiter := b\<rparr>"
  by unfold_locales simp

interpretation analytics_cache: cached_part sf_analytics "\<lambda>c db. db\<lparr>sf_analytics := c\<rparr>"
  by unfold_locales simp

datatype staff_request =
    RemoveUser "session option" nat int
  | ChangeRole "session option" nat "string option option" int
  | RemoveThread "session option" nat int
  | LogAction audit_event

fun staff_serve :: "staff_request \<times> bool list \<Rightarrow> staff_db \<Rightarrow> staff_db" where
  "staff_serve (RemoveUser se i t, fs) db = after (admin_user_DELETE se i t) fs db"
| "staff_serve (ChangeRole se i b t, fs) db = after (admin_role_PATCH se i b t) fs db"
| "staff_serve (RemoveThread se i t, fs) db = after (admin_discussion_DELETE se i t) fs db"
| "staff_serve (LogAction e, fs) db = after (recordAuditEvent e) fs db"

fun asker :: "staff_request \<Rightarrow> session option" where
  "asker (RemoveUser se i t) = se"
| "asker (ChangeRole se i b t) = se"
| "asker (RemoveThread se i t) = se"
| "asker (LogAction e) = None"

text \<open>A session is fresh when its user is in the table with its role.\<close>

definition fresh :: "session option \<Rightarrow> staff_db \<Rightarrow> bool" where
  "fresh session db \<longleftrightarrow> (case session of None \<Rightarrow> True
     | Some se \<Rightarrow> list_ex (\<lambda>u. mb_id u = se_userId se \<and> mb_role u = se_role se) (sf_users db))"

fun all_fresh :: "(staff_request \<times> bool list) list \<Rightarrow> staff_db \<Rightarrow> bool" where
  "all_fresh [] db = True"
| "all_fresh (x # xs) db = (fresh (asker (fst x)) db \<and> all_fresh xs (staff_serve x db))"

definition has_admin :: "staff_db \<Rightarrow> bool" where
  "has_admin db \<longleftrightarrow> list_ex (\<lambda>u. mb_role u = ''admin'') (sf_users db)"

text \<open>The rows of a user, kept by whatever is asked of other users.\<close>

definition keeps_user :: "nat \<Rightarrow> staff_db \<Rightarrow> staff_db \<Rightarrow> bool" where
  "keeps_user i s t \<longleftrightarrow> filter (\<lambda>u. mb_id u = i) (sf_users t) = filter (\<lambda>u. mb_id u = i) (sf_users s)"

interpretation keeps: evolution "keeps_user i"
  by unfold_locales (auto simp: keeps_user_def)

lemma keeps_limiter: "keeps_user i s (s\<lparr>sf_limiter := b\<rparr>)"
  by (simp add: keeps_user_def)

lemma keeps_delete: "i \<noteq> j \<Longrightarrow> keeps_user i db (snd (delete_member j db))"
  by (auto simp: keeps_user_def delete_member_def intro!: filter_cong)

lemma keeps_role: "i \<noteq> j \<Longrightarrow> keeps_user i db (snd (change_role j r db))"
proof -
  assume n: "i \<noteq> j"
  have "filter (\<lambda>u. mb_id u = i) (upd_by mb_id j (\<lambda>u. u\<lparr>mb_role := r\<rparr>) us) = filter (\<lambda>u. mb_id u = i) us" for us
    using n by (induction us) (auto simp: upd_by_def)
  then show ?thesis by (auto simp: keeps_user_def change_role_def split: option.split)
qed

lemma keeps_thread: "keeps_user i db (snd (delete_thread j db))"
  by (auto simp: keeps_user_def delete_thread_def)

text \<open>Whoever asks keeps the own row; who is no admin changes no row at all.\<close>

lemma serve_keeps_asker:
  assumes "\<And>se. asker r = Some se \<Longrightarrow> se_role se = ''admin'' \<Longrightarrow> se_userId se = i"
  shows "keeps_user i db (staff_serve (r, fs) db)"
proof (cases r)
  case (RemoveUser se j t)
  have "moves (keeps_user i) (admin_user_DELETE se j t)"
    unfolding admin_user_DELETE_def staff_only_def
    by (intro keeps.moves_catch keeps.moves_ret staff_limiter.guarded_moves [OF keeps.evolution_axioms] keeps_limiter)
      (use assms RemoveUser in \<open>auto intro!: keeps.moves_ret keeps.moves_throw keeps.moves_catch keeps.moves_bind keeps.moves_call keeps_delete
        split: if_split option.split list.split\<close>)
  then show ?thesis using RemoveUser by (simp add: keeps.moves_result)
next
  case (ChangeRole se j b t)
  have "moves (keeps_user i) (admin_role_PATCH se j b t)"
    unfolding admin_role_PATCH_def staff_only_def
    by (intro keeps.moves_catch keeps.moves_ret staff_limiter.guarded_moves [OF keeps.evolution_axioms] keeps_limiter)
      (use assms ChangeRole in \<open>auto intro!: keeps.moves_ret keeps.moves_throw keeps.moves_catch keeps.moves_bind keeps.moves_call keeps_role
        split: if_split option.split list.split\<close>)
  then show ?thesis using ChangeRole by (simp add: keeps.moves_result)
next
  case (RemoveThread se j t)
  have "moves (keeps_user i) (admin_discussion_DELETE se j t)"
    unfolding admin_discussion_DELETE_def staff_only_def
    by (intro keeps.moves_rules staff_limiter.guarded_moves [OF keeps.evolution_axioms] keeps_limiter keeps.moves_call keeps_thread)
  then show ?thesis using RemoveThread by (simp add: keeps.moves_result)
next
  case (LogAction e)
  have "moves (keeps_user i) (recordAuditEvent e)"
    unfolding recordAuditEvent_def by (intro keeps.moves_rules) (simp add: keeps_user_def)
  then show ?thesis using LogAction by (simp add: keeps.moves_result)
qed

lemma keeps_member: "keeps_user (mb_id u) s t \<Longrightarrow> u \<in> set (sf_users s) \<Longrightarrow> u \<in> set (sf_users t)"
  unfolding keeps_user_def by (metis (mono_tags, lifting) mem_Collect_eq set_filter)

lemma serve_keeps_admin:
  assumes "fresh (asker r) db" "has_admin db"
  shows "has_admin (staff_serve (r, fs) db)"
proof (cases "\<exists>se. asker r = Some se \<and> se_role se = ''admin''")
  case True
  then obtain se u where u: "asker r = Some se" "u \<in> set (sf_users db)" "mb_id u = se_userId se" "mb_role u = ''admin''"
    using assms(1) by (auto simp: fresh_def list_ex_iff)
  have "keeps_user (mb_id u) db (staff_serve (r, fs) db)" by (rule serve_keeps_asker) (use u in simp)
  from keeps_member [OF this u(2)] show ?thesis using u(4) by (auto simp: has_admin_def list_ex_iff)
next
  case False
  obtain u where u: "u \<in> set (sf_users db)" "mb_role u = ''admin''" using assms(2) by (auto simp: has_admin_def list_ex_iff)
  have "keeps_user (mb_id u) db (staff_serve (r, fs) db)" by (rule serve_keeps_asker) (use False in blast)
  from keeps_member [OF this u(1)] show ?thesis using u(2) by (auto simp: has_admin_def list_ex_iff)
qed

text \<open>
  C21. An admin remains, as long as sessions are current. Let there be an admin, and let requests to
  delete users, change roles, remove threads or log actions arrive in any order, with any failing
  calls. If each session carries the role its user has at that moment, an admin remains at the end;
  and whatever the sessions say, the row of a user who is the only admin asking is never touched.
\<close>

theorem an_admin_remains:
  assumes "list_ex (\<lambda>u. mb_role u = ''admin'') (sf_users db)"
  shows "(all_fresh rs db \<longrightarrow> list_ex (\<lambda>u. mb_role u = ''admin'') (sf_users (fold staff_serve rs db))) \<and>
    ((\<forall>(r, fs) \<in> set rs. \<forall>se. asker r = Some se \<and> se_role se = ''admin'' \<longrightarrow> se_userId se = i) \<longrightarrow>
      filter (\<lambda>u. mb_id u = i) (sf_users (fold staff_serve rs db)) = filter (\<lambda>u. mb_id u = i) (sf_users db))"
proof -
  have "has_admin (fold staff_serve rs s)" if "all_fresh rs s" "has_admin s" for s
    using that
  proof (induction rs arbitrary: s)
    case (Cons x rs)
    then have "has_admin (staff_serve (fst x, snd x) s)" by (intro serve_keeps_admin) simp_all
    then show ?case using Cons by simp
  qed simp
  moreover have "keeps_user i s (fold staff_serve rs s)"
    if "\<forall>(r, fs) \<in> set rs. \<forall>se. asker r = Some se \<and> se_role se = ''admin'' \<longrightarrow> se_userId se = i" for s
    using that
  proof (induction rs arbitrary: s)
    case (Cons x rs)
    have "keeps_user i s (staff_serve (fst x, snd x) s)"
      by (rule serve_keeps_asker) (use Cons.prems in \<open>auto simp: case_prod_beta\<close>)
    then show ?case using Cons by (auto intro: keeps.trans)
  qed (simp add: keeps.refl)
  ultimately show ?thesis using assms by (auto simp: has_admin_def keeps_user_def)
qed

definition sample_staff :: staff_db where
  "sample_staff = \<lparr>sf_users = map (\<lambda>i. \<lparr>mb_id = i, mb_email = '''', mb_username = '''', mb_role = ''admin'', mb_avatar = None, mb_createdAt = 0\<rparr>) [1, 2],
     sf_subs = [], sf_threads = [], sf_problems = [], sf_contests = [], sf_audit = [], sf_limiter = [], sf_analytics = new_cache (Fin 9)\<rparr>"

lemma an_admin_remains_witness:
  "list_ex (\<lambda>u. mb_role u = ''admin'') (sf_users (fold staff_serve
      [(ChangeRole (Some \<lparr>se_userId = 1, se_role = ''admin''\<rparr>) 2 (Some (Some ''user'')) 0, []),
       (RemoveUser (Some \<lparr>se_userId = 2, se_role = ''user''\<rparr>) 1 0, [])] sample_staff))"
proof -
  have "all_fresh [(ChangeRole (Some \<lparr>se_userId = 1, se_role = ''admin''\<rparr>) 2 (Some (Some ''user'')) 0, []),
      (RemoveUser (Some \<lparr>se_userId = 2, se_role = ''user''\<rparr>) 1 0, [])] sample_staff"
    by code_simp
  moreover have "list_ex (\<lambda>u. mb_role u = ''admin'') (sf_users sample_staff)" by (simp add: sample_staff_def)
  ultimately show ?thesis using an_admin_remains by blast
qed

text \<open>
  With the sessions as they are, which live on for days after a change of role, two admins can
  leave the site without any: each takes the role of the other.
\<close>

theorem old_sessions_leave_no_admin:
  assumes "a \<noteq> b" "{a, b} \<subseteq> mb_id ` set (sf_users db)"
    "\<forall>u \<in> set (sf_users db). mb_role u = ''admin'' \<longrightarrow> mb_id u \<in> {a, b}"
    "allowed (fst (memoryCheck (''admin:'' @ show_nat a) 60 60000 now (sf_limiter db)))"
    "allowed (fst (memoryCheck (''admin:'' @ show_nat b) 60 60000 now (snd (memoryCheck (''admin:'' @ show_nat a) 60 60000 now (sf_limiter db)))))"
  shows "\<not> list_ex (\<lambda>u. mb_role u = ''admin'') (sf_users (fold staff_serve
    [(ChangeRole (Some \<lparr>se_userId = a, se_role = ''admin''\<rparr>) b (Some (Some ''user'')) now, []),
     (ChangeRole (Some \<lparr>se_userId = b, se_role = ''admin''\<rparr>) a (Some (Some ''user'')) now, [])] db))"
proof -
  let ?set = "\<lambda>i us. upd_by mb_id i (\<lambda>u. u\<lparr>mb_role := ''user''\<rparr>) us"
  have run: "after (admin_role_PATCH (Some \<lparr>se_userId = i, se_role = ''admin''\<rparr>) j (Some (Some ''user'')) now) [] s =
      s\<lparr>sf_limiter := snd (memoryCheck (''admin:'' @ show_nat i) 60 60000 now (sf_limiter s)), sf_users := ?set j (sf_users s)\<rparr>"
    if h: "i \<noteq> j" "j \<in> mb_id ` set (sf_users s)" "allowed (fst (memoryCheck (''admin:'' @ show_nat i) 60 60000 now (sf_limiter s)))" for i j s
  proof -
    obtain u where u: "find_by mb_id j (sf_users s) = Some u"
      using h(2) find_by_None [of mb_id j "sf_users s"] by (cases "find_by mb_id j (sf_users s)") auto
    show ?thesis
      using h(1,3) u
      by (simp add: admin_role_PATCH_def staff_only_def after_def catch_def bind_def roleSchema_def change_role_def
          staff_limiter.guarded_admits [where se = "\<lparr>se_userId = i, se_role = ''admin''\<rparr>" and s = s, simplified])
  qed
  have ids: "mb_id ` set (?set i us) = mb_id ` set us" for i us
  proof -
    have "map mb_id (?set i us) = map mb_id us" by (rule keys_upd) simp
    then show ?thesis by (metis list.set_map)
  qed
  have none: "mb_role u \<noteq> ''admin''" if u: "u \<in> set (?set a (?set b (sf_users db)))" for u
  proof -
    obtain v where v: "v \<in> set (sf_users db)" "mb_role u = ''user'' \<or> u = v \<and> mb_id v \<notin> {a, b}"
      using u unfolding upd_by_def set_map by (elim imageE) (simp split: if_splits)
    then show ?thesis using assms(3) by auto
  qed
  show ?thesis
    using assms(1,2,4,5) none by (simp add: run ids list_ex_iff)
qed

subsection \<open>Charts count everything once\<close>

lemma sum_over_keys:
  "finite A \<Longrightarrow> key ` set xs \<subseteq> A \<Longrightarrow> (\<Sum>k \<in> A. length (filter (\<lambda>x. key x = k) xs)) = length xs"
proof (induction xs)
  case (Cons x xs)
  have "(\<Sum>k \<in> A. length (filter (\<lambda>y. key y = k) (x # xs))) = (\<Sum>k \<in> A. (if key x = k then 1 else 0) + length (filter (\<lambda>y. key y = k) xs))"
    by (rule sum.cong) auto
  also have "\<dots> = 1 + length xs" using Cons by (simp add: sum.distrib)
  finally show ?case by simp
qed simp

lemma group_count_total: "sum_list (map snd (group_count key xs)) = length xs"
proof -
  have "sum_list (map snd (group_count key xs)) = (\<Sum>k \<in> key ` set xs. length (filter (\<lambda>x. key x = k) xs))"
    by (simp add: group_count_def o_def sum_list_distinct_conv_sum_set)
  then show ?thesis by (simp add: sum_over_keys)
qed

lemma sum_list_sort_by: "sum_list (map f (sort_by le xs)) = sum_list (map f (xs :: 'a list) :: nat list)"
  by (metis mset_map mset_sort_by sum_mset_sum_list)

interpretation by_start: comparator "\<lambda>a b :: int \<times> nat. fst a \<le> fst b" UNIV
  by unfold_locales auto

lemma buckets_sum: "sum_list (map tk_count (grouped trunc since ts)) = length (filter (\<lambda>t. t \<ge> since) ts)"
proof -
  have "map tk_count (grouped trunc since ts) = map snd (sort_by (\<lambda>a b. fst a \<le> fst b) (group_count trunc (filter (\<lambda>t. t \<ge> since) ts)))"
    by (simp add: grouped_def case_prod_beta)
  then show ?thesis by (simp add: sum_list_sort_by group_count_total)
qed

lemma grouped_ascending: "sorted_wrt (\<lambda>a b. tk_start a < tk_start b) (grouped trunc since ts)"
proof -
  let ?gs = "sort_by (\<lambda>a b. fst a \<le> fst b) (group_count trunc (filter (\<lambda>t. t \<ge> since) ts))"
  have "sorted (map fst ?gs)" using by_start.sorted_sort_by [of "group_count trunc (filter (\<lambda>t. t \<ge> since) ts)"] by (simp add: sorted_wrt_map)
  moreover have "distinct (map fst ?gs)"
    using distinct_groups [of trunc "filter (\<lambda>t. t \<ge> since) ts"] by (metis mset_eq_imp_distinct_iff mset_map mset_sort_by)
  ultimately have "sorted_wrt (<) (map fst ?gs)" by (simp add: strict_sorted_iff)
  then show ?thesis by (simp add: grouped_def sorted_wrt_map case_prod_beta)
qed

lemma grouped_count:
  "b \<in> set (grouped trunc since ts) \<Longrightarrow> tk_count b = length (filter (\<lambda>t. t \<ge> since \<and> trunc t = tk_start b) ts) \<and> 0 < tk_count b"
  by (auto simp: grouped_def group_count_mem conj_commute filter_empty_conv)

text \<open>
  The charts count everything once. For any truncation of times to months and to days: the bars
  of the user and submission charts stand in strictly ascending order, each is the number of rows of
  its month or day in the window and is not empty, and together they count every row of the window;
  the bars of the difficulties count every problem, each label once; of the languages at most ten
  are shown, each with its number of submissions, and none left out has more.
\<close>

theorem charts_count_everything:
  fixes db :: staff_db and month day :: "int \<Rightarrow> int" and yearAgo now :: int and locale_le :: "string \<Rightarrow> string \<Rightarrow> bool"
  defines "growth \<equiv> userGrowthLast12Months month yearAgo db" and "volume \<equiv> submissionVolumeLast30Days day now db"
    and "levels \<equiv> problemsByDifficulty locale_le db" and "langs \<equiv> topLanguagesBySubmissions 10 db"
    and "sent \<equiv> (\<lambda>l. length (filter (\<lambda>s. sr_language s = l) (sf_subs db)))"
  shows "sorted_wrt (\<lambda>a b. tk_start a < tk_start b) growth \<and> sorted_wrt (\<lambda>a b. tk_start a < tk_start b) volume \<and>
    (\<forall>b \<in> set volume. tk_count b = length (filter (\<lambda>s. now - 2592000000 \<le> sr_createdAt s \<and> day (sr_createdAt s) = tk_start b) (sf_subs db)) \<and> 0 < tk_count b) \<and>
    (\<forall>b \<in> set growth. tk_count b = length (filter (\<lambda>u. yearAgo \<le> mb_createdAt u \<and> month (mb_createdAt u) = tk_start b) (sf_users db)) \<and> 0 < tk_count b) \<and>
    sum_list (map tk_count volume) = length (filter (\<lambda>s. now - 2592000000 \<le> sr_createdAt s) (sf_subs db)) \<and>
    sum_list (map tk_count growth) = length (filter (\<lambda>u. yearAgo \<le> mb_createdAt u) (sf_users db)) \<and>
    distinct (map kb_label levels) \<and> sum_list (map kb_count levels) = length (sf_problems db) \<and>
    length langs \<le> 10 \<and> (\<forall>l \<in> set langs. kb_count l = sent (kb_label l)) \<and>
    (\<forall>l \<in> set langs. \<forall>other. other \<notin> kb_label ` set langs \<longrightarrow> sent other \<le> kb_count l)"
proof -
  let ?byLevel = "group_count snd (sf_problems db)"
  have "mset (map kb_label levels) = mset (map fst ?byLevel)"
    by (simp add: levels_def problemsByDifficulty_def image_mset.compositionality o_def case_prod_beta)
  then have "distinct (map kb_label levels)" using distinct_groups [of snd "sf_problems db"] mset_eq_imp_distinct_iff by blast
  moreover have "sum_list (map kb_count levels) = length (sf_problems db)"
    using group_count_total [of snd "sf_problems db"]
    by (simp add: levels_def problemsByDifficulty_def sum_list_sort_by o_def case_prod_beta)
  moreover have "sent other \<le> kb_count l" if l: "l \<in> set langs" and o: "other \<notin> kb_label ` set langs" for l other
  proof -
    let ?all = "sort_by most_first (group_count sr_language (sf_subs db))"
    have top: "langs = map (\<lambda>(k, n). \<lparr>kb_label = k, kb_count = n\<rparr>) (take 10 ?all)"
      by (simp add: langs_def topLanguagesBySubmissions_def)
    obtain g where g: "g \<in> set (take 10 ?all)" "kb_count l = snd g" using l by (auto simp: top)
    have out: "(other, sent other) \<notin> set (take 10 ?all)" using o by (force simp: top)
    show ?thesis
    proof (cases "sent other = 0")
      case False
      then have "(other, sent other) \<in> set ?all" by (auto simp: group_count_mem sent_def filter_empty_conv)
      moreover have "sorted_wrt most_first ?all" by (rule by_count.sorted_sort_by) simp
      ultimately have "most_first g (other, sent other)" using in_take_or_below [OF _ _ g(1) out] by blast
      then show ?thesis using g(2) by (simp add: most_first_def)
    qed simp
  qed
  moreover have "kb_count l = sent (kb_label l)" if "l \<in> set langs" for l
    using that by (auto simp: langs_def topLanguagesBySubmissions_def sent_def group_count_mem dest!: in_set_takeD)
  moreover have "length langs \<le> 10" by (simp add: langs_def topLanguagesBySubmissions_def)
  moreover have "tk_count b = length (filter (\<lambda>s. now - 2592000000 \<le> sr_createdAt s \<and> day (sr_createdAt s) = tk_start b) (sf_subs db)) \<and> 0 < tk_count b"
    if "b \<in> set volume" for b
    using grouped_count [OF that [unfolded volume_def submissionVolumeLast30Days_def]] by (simp add: filter_map o_def del: length_greater_0_conv)
  moreover have "tk_count b = length (filter (\<lambda>u. yearAgo \<le> mb_createdAt u \<and> month (mb_createdAt u) = tk_start b) (sf_users db)) \<and> 0 < tk_count b"
    if "b \<in> set growth" for b
    using grouped_count [OF that [unfolded growth_def userGrowthLast12Months_def]] by (simp add: filter_map o_def del: length_greater_0_conv)
  moreover have "sum_list (map tk_count volume) = length (filter (\<lambda>s. now - 2592000000 \<le> sr_createdAt s) (sf_subs db))"
    "sum_list (map tk_count growth) = length (filter (\<lambda>u. yearAgo \<le> mb_createdAt u) (sf_users db))"
    by (simp_all add: volume_def growth_def submissionVolumeLast30Days_def userGrowthLast12Months_def buckets_sum filter_map o_def)
  moreover have "sorted_wrt (\<lambda>a b. tk_start a < tk_start b) growth" "sorted_wrt (\<lambda>a b. tk_start a < tk_start b) volume"
    by (simp_all add: volume_def growth_def submissionVolumeLast30Days_def userGrowthLast12Months_def grouped_ascending)
  ultimately show ?thesis by blast
qed


lemma charts_count_everything_witness:
  "let db = sample_staff\<lparr>sf_subs := [\<lparr>sr_user = 1, sr_problem = 1, sr_language = ''python'', sr_status = ''accepted'', sr_createdAt = 5\<rparr>]\<rparr> in
   sum_list (map tk_count (submissionVolumeLast30Days (\<lambda>t. t div 86400000) 100 db)) = 1 \<and>
   map kb_label (topLanguagesBySubmissions 10 db) = [''python'']"
proof -
  let ?db = "sample_staff\<lparr>sf_subs := [\<lparr>sr_user = 1, sr_problem = 1, sr_language = ''python'', sr_status = ''accepted'', sr_createdAt = 5\<rparr>]\<rparr>"
  have "sum_list (map tk_count (submissionVolumeLast30Days (\<lambda>t. t div 86400000) 100 ?db)) = 1"
    using charts_count_everything [of "\<lambda>t. t" 0 ?db "\<lambda>t. t div 86400000" 100] by (simp add: sample_staff_def)
  moreover have "map kb_label (topLanguagesBySubmissions 10 ?db) = [''python'']"
    by code_simp
  ultimately show ?thesis by simp
qed

end
