(* ===== verification/Profiles.thy ===== *)
theory Profiles
  imports Problems DailyChallenge
begin

section \<open>Leaderboard and public profiles\<close>

text \<open>
  \<^verbatim>\<open>src/app/api/leaderboard\<close> and \<^verbatim>\<open>src/app/api/users\<close> with their sub-routes (the achievements
  of a profile are in theory Achievements). Everything here only reads; the rows of a group come in
  the order of the database.
\<close>

subsection \<open>Tables\<close>

record person =
  pe_id :: nat
  pe_username :: string
  pe_avatar :: "string option"
  pe_bio :: "string option"
  pe_createdAt :: int
  pe_rating :: int
  pe_maxRating :: int

record sub_line =
  sl_id :: nat
  sl_user :: nat
  sl_problem :: nat
  sl_status :: string
  sl_language :: string
  sl_runtime :: "int option"
  sl_createdAt :: int

record rating_line =
  rl_user :: nat
  rl_contest :: nat
  rl_slug :: string
  rl_title :: string
  rl_after :: int
  rl_delta :: int
  rl_rank :: nat
  rl_createdAt :: int

record thread_line =
  th_id :: nat
  th_user :: nat
  th_problem :: nat
  th_title :: string
  th_createdAt :: int

record mark_line =
  mk_user :: nat
  mk_problem :: nat
  mk_createdAt :: int

record top_entry =
  te_rank :: nat
  te_user :: person
  te_solved :: nat

record profile_db =
  pf_users :: "person list"
  pf_problems :: "problem_line list"
  pf_subs :: "sub_line list"
  pf_ratings :: "rating_line list"
  pf_marks :: "mark_line list"
  pf_threads :: "thread_line list"
  pf_comments :: "nat list"
  pf_top :: "top_entry list cache"

definition person_by_name :: "string \<Rightarrow> profile_db \<Rightarrow> person option" where
  "person_by_name name db = find_by pe_username name (pf_users db)"

definition line_by_id :: "nat \<Rightarrow> profile_db \<Rightarrow> problem_line option" where
  "line_by_id p db = find_by pr_id p (pf_problems db)"

subsection \<open>Counting in a map\<close>

fun count_by :: "'k list \<Rightarrow> ('k, nat) jsmap \<Rightarrow> ('k, nat) jsmap" where
  "count_by [] m = m"
| "count_by (k # ks) m = count_by ks (jm_set k ((case jm_get m k of None \<Rightarrow> 0 | Some n \<Rightarrow> n) + 1) m)"

subsection \<open>The leaderboard (leaderboard/route.ts, leaderboard/top/route.ts)\<close>

text \<open>
  \<^verbatim>\<open>groupBy({ by: ["userId", "problemId"], where: { status: "accepted" } })\<close>: each pair once. The query
  has no \<^verbatim>\<open>orderBy\<close>; the order of the table's list stands for the one in which the database returns
  the groups, and every order of the groups comes from some order of that list.
\<close>

definition accepted_pairs :: "profile_db \<Rightarrow> (nat \<times> nat) list" where
  "accepted_pairs db = remdups (map (\<lambda>s. (sl_user s, sl_problem s)) (filter (\<lambda>s. sl_status s = ''accepted'') (pf_subs db)))"

definition solvedByUser :: "(nat \<times> nat) list \<Rightarrow> (nat, nat) jsmap" where
  "solvedByUser rows = count_by (map fst rows) []"

definition solved_in :: "(nat, nat) jsmap \<Rightarrow> nat \<Rightarrow> nat" where
  "solved_in m u = (case jm_get m u of None \<Rightarrow> 0 | Some n \<Rightarrow> n)"

definition sortedUserIds :: "(nat, nat) jsmap \<Rightarrow> nat list" where
  "sortedUserIds m = map fst (sort_by most_first m)"

record board_entry =
  be_rank :: nat
  be_user :: person
  be_username :: string
  be_solved :: nat
  be_score :: nat

definition board_entries :: "person list \<Rightarrow> (nat, nat) jsmap \<Rightarrow> nat \<Rightarrow> nat list \<Rightarrow> board_entry list" where
  "board_entries users m start ids =
    List.map_filter (\<lambda>(i, u). map_option (\<lambda>p. \<lparr>be_rank = start + i + 1, be_user = p, be_username = pe_username p,
      be_solved = solved_in m u, be_score = solved_in m u * 100\<rparr>) (find_by pe_id u users)) (List.enumerate 0 ids)"

definition users_in :: "nat list \<Rightarrow> profile_db \<Rightarrow> person list" where
  "users_in ids db = filter (\<lambda>u. pe_id u \<in> set ids) (pf_users db)"

definition leaderboard_GET ::
  "string option \<Rightarrow> string option \<Rightarrow> (profile_db, string, (board_entry list \<times> nat \<times> int \<times> int) reply) prog" where
  "leaderboard_GET rawPage rawLimit =
    catch
      (let page = parsePage rawPage; limit = parseLimit rawLimit None None
       in bind (query ''db'' accepted_pairs) (\<lambda>accepted.
          let solved = solvedByUser accepted; ids = sortedUserIds solved; start = nat ((page - 1) * limit);
              pageIds = page_of page limit ids
          in bind (if pageIds \<noteq> [] then query ''db'' (users_in pageIds) else ret []) (\<lambda>users.
             ret (Reply 200 (board_entries users solved start pageIds, length ids, page, limit)))))
      (\<lambda>_. ret (Failed 500 ''Internal server error''))"

definition TOP_N :: nat where "TOP_N = 10"

definition top_entries :: "person list \<Rightarrow> (nat, nat) jsmap \<Rightarrow> nat list \<Rightarrow> top_entry list" where
  "top_entries users m ids =
    List.map_filter (\<lambda>(i, u). map_option (\<lambda>p. \<lparr>te_rank = i + 1, te_user = p, te_solved = solved_in m u\<rparr>) (find_by pe_id u users))
      (List.enumerate 0 ids)"

definition computeTop :: "(profile_db, string, top_entry list) prog" where
  "computeTop =
    bind (query ''db'' accepted_pairs) (\<lambda>accepted.
    let solved = solvedByUser accepted; ids = take TOP_N (sortedUserIds solved)
    in if ids = [] then ret []
       else bind (query ''db'' (users_in ids)) (\<lambda>users. ret (top_entries users solved ids)))"

definition top_GET :: "int \<Rightarrow> (profile_db, string, top_entry list reply) prog" where
  "top_GET now =
    catch
      (bind (remember pf_top (\<lambda>c db. db\<lparr>pf_top := c\<rparr>) ''leaderboard:top'' 60000 now computeTop) (\<lambda>top. ret (Reply 200 top)))
      (\<lambda>_. ret (Failed 500 ''Internal server error''))"

subsection \<open>The directory of users (users/route.ts)\<close>

definition newest_person :: "person \<Rightarrow> person \<Rightarrow> bool" where
  "newest_person a b \<longleftrightarrow> pe_createdAt a \<ge> pe_createdAt b"

definition users_GET ::
  "string option \<Rightarrow> string option \<Rightarrow> string option \<Rightarrow> (profile_db, string, (person list \<times> nat \<times> int \<times> int) reply) prog" where
  "users_GET rawSearch rawPage rawLimit =
    catch
      (let search = js_trim (case rawSearch of None \<Rightarrow> [] | Some s \<Rightarrow> s); page = page_param rawPage; limit = limit_param 100 30 rawLimit;
           found = (\<lambda>db. filter (\<lambda>u. search \<noteq> [] \<longrightarrow> contains_ci search (pe_username u)) (pf_users db))
       in bind (query ''db'' (\<lambda>db. page_of page limit (sort_by newest_person (found db)))) (\<lambda>users.
          bind (query ''db'' (\<lambda>db. length (found db))) (\<lambda>n.
          ret (Reply 200 (users, n, page, limit)))))
      (\<lambda>_. ret (Failed 500 ''Internal server error''))"

subsection \<open>A profile (users/[username] and its sub-routes)\<close>

definition newest_sub :: "sub_line \<Rightarrow> sub_line \<Rightarrow> bool" where
  "newest_sub a b \<longleftrightarrow> sl_createdAt a \<ge> sl_createdAt b"

record difficulty_counts =
  dc_easy :: nat
  dc_medium :: nat
  dc_hard :: nat

fun byDifficulty :: "string list \<Rightarrow> difficulty_counts \<Rightarrow> difficulty_counts" where
  "byDifficulty [] c = c"
| "byDifficulty (d # ds) c =
    byDifficulty ds
      (let diff = map lower_char d
       in if diff = ''easy'' then c\<lparr>dc_easy := dc_easy c + 1\<rparr>
          else if diff = ''medium'' then c\<lparr>dc_medium := dc_medium c + 1\<rparr>
          else if diff = ''hard'' then c\<lparr>dc_hard := dc_hard c + 1\<rparr> else c)"

definition solved_problems :: "nat \<Rightarrow> profile_db \<Rightarrow> nat list" where
  "solved_problems u db = remdups (map sl_problem (filter (\<lambda>s. sl_user s = u \<and> sl_status s = ''accepted'') (pf_subs db)))"

definition difficulty_of :: "nat \<Rightarrow> profile_db \<Rightarrow> string" where
  "difficulty_of p db = (case line_by_id p db of None \<Rightarrow> [] | Some l \<Rightarrow> pr_difficulty l)"

definition oldest_rating :: "rating_line \<Rightarrow> rating_line \<Rightarrow> bool" where
  "oldest_rating a b \<longleftrightarrow> rl_createdAt a \<le> rl_createdAt b"

record profile_page =
  pp_user :: person
  pp_total :: nat
  pp_accepted :: nat
  pp_solved :: nat
  pp_byDifficulty :: difficulty_counts
  pp_recent :: "(sub_line \<times> problem_line option) list"
  pp_ratings :: "rating_line list"

definition profile_GET :: "string \<Rightarrow> (profile_db, string, profile_page reply) prog" where
  "profile_GET username =
    catch
      (bind (query ''db'' (person_by_name username)) (\<lambda>user.
       case user of
         None \<Rightarrow> ret (Failed 404 ''User not found'')
       | Some u \<Rightarrow>
           bind (query ''db'' (\<lambda>db. length (filter (\<lambda>s. sl_user s = pe_id u) (pf_subs db)))) (\<lambda>totalSubmissions.
           bind (query ''db'' (\<lambda>db. length (filter (\<lambda>s. sl_user s = pe_id u \<and> sl_status s = ''accepted'') (pf_subs db)))) (\<lambda>accepted.
           bind (query ''db'' (\<lambda>db. map (\<lambda>p. difficulty_of p db) (solved_problems (pe_id u) db))) (\<lambda>acceptedRows.
           bind (query ''db'' (\<lambda>db. map (\<lambda>s. (s, line_by_id (sl_problem s) db))
             (take 10 (sort_by newest_sub (filter (\<lambda>s. sl_user s = pe_id u) (pf_subs db)))))) (\<lambda>recent.
           bind (query ''db'' (\<lambda>db. take 50 (sort_by oldest_rating (filter (\<lambda>r. rl_user r = pe_id u) (pf_ratings db))))) (\<lambda>history.
           ret (Reply 200 \<lparr>pp_user = u, pp_total = totalSubmissions, pp_accepted = accepted, pp_solved = length acceptedRows,
             pp_byDifficulty = byDifficulty acceptedRows \<lparr>dc_easy = 0, dc_medium = 0, dc_hard = 0\<rparr>,
             pp_recent = recent, pp_ratings = history\<rparr>))))))))
      (\<lambda>_. ret (Failed 500 ''Internal server error''))"

text \<open>The heat map; a day is its number, its name in the reply being the first ten characters of the ISO time.\<close>

definition stats_GET :: "string \<Rightarrow> int \<Rightarrow> (profile_db, string, (nat \<times> (int, nat) jsmap) reply) prog" where
  "stats_GET username now =
    catch
      (bind (query ''db'' (person_by_name username)) (\<lambda>user.
       case user of
         None \<Rightarrow> ret (Failed 404 ''User not found'')
       | Some u \<Rightarrow>
           let since = now - 30 * 24 * 60 * 60 * 1000
           in bind (query ''db'' (\<lambda>db. sort_by (\<le>) (map sl_createdAt
                (filter (\<lambda>s. sl_user s = pe_id u \<and> sl_status s = ''accepted'' \<and> sl_createdAt s \<ge> since) (pf_subs db))))) (\<lambda>times.
              ret (Reply 200 (length times, count_by (map day_of times) [])))))
      (\<lambda>_. ret (Failed 500 ''Internal server error''))"

definition user_submissions_GET ::
  "string \<Rightarrow> string option \<Rightarrow> string option \<Rightarrow> string option \<Rightarrow>
   (profile_db, string, ((sub_line \<times> problem_line option) list \<times> nat \<times> int \<times> int) reply) prog" where
  "user_submissions_GET username status rawPage rawLimit =
    catch
      (bind (query ''db'' (person_by_name username)) (\<lambda>user.
       case user of
         None \<Rightarrow> ret (Failed 404 ''User not found'')
       | Some u \<Rightarrow>
           let page = page_param rawPage; limit = limit_param 50 20 rawLimit;
               found = (\<lambda>db. filter (\<lambda>s. sl_user s = pe_id u \<and> (truthy status \<longrightarrow> sl_status s = the status)) (pf_subs db))
           in bind (query ''db'' (\<lambda>db. map (\<lambda>s. (s, line_by_id (sl_problem s) db)) (page_of page limit (sort_by newest_sub (found db))))) (\<lambda>submissions.
              bind (query ''db'' (\<lambda>db. length (found db))) (\<lambda>n.
              ret (Reply 200 (submissions, n, page, limit))))))
      (\<lambda>_. ret (Failed 500 ''Internal server error''))"

definition user_bookmarks_GET :: "string \<Rightarrow> string option \<Rightarrow> (profile_db, string, problem_line option list reply) prog" where
  "user_bookmarks_GET username rawLimit =
    catch
      (bind (query ''db'' (person_by_name username)) (\<lambda>user.
       case user of
         None \<Rightarrow> ret (Failed 404 ''User not found'')
       | Some u \<Rightarrow>
           let limit = limit_param 50 20 rawLimit
           in bind (query ''db'' (\<lambda>db. map (\<lambda>b. line_by_id (mk_problem b) db)
                (take (nat limit) (sort_by (\<lambda>a b. mk_createdAt a \<ge> mk_createdAt b) (filter (\<lambda>b. mk_user b = pe_id u) (pf_marks db)))))) (\<lambda>marks.
              ret (Reply 200 marks))))
      (\<lambda>_. ret (Failed 500 ''Internal server error''))"

definition user_discussions_GET ::
  "string \<Rightarrow> string option \<Rightarrow> string option \<Rightarrow>
   (profile_db, string, ((thread_line \<times> problem_line option \<times> nat) list \<times> nat \<times> int \<times> int) reply) prog" where
  "user_discussions_GET username rawPage rawLimit =
    catch
      (bind (query ''db'' (person_by_name username)) (\<lambda>user.
       case user of
         None \<Rightarrow> ret (Failed 404 ''User not found'')
       | Some u \<Rightarrow>
           let page = page_param rawPage; limit = limit_param 50 20 rawLimit;
               found = (\<lambda>db. filter (\<lambda>t. th_user t = pe_id u) (pf_threads db))
           in bind (query ''db'' (\<lambda>db. map (\<lambda>t. (t, line_by_id (th_problem t) db, length (filter (\<lambda>c. c = th_id t) (pf_comments db))))
                (page_of page limit (sort_by (\<lambda>a b. th_createdAt a \<ge> th_createdAt b) (found db))))) (\<lambda>threads.
              bind (query ''db'' (\<lambda>db. length (found db))) (\<lambda>n.
              ret (Reply 200 (threads, n, page, limit))))))
      (\<lambda>_. ret (Failed 500 ''Internal server error''))"

subsection \<open>What the counts are\<close>

interpretation top_cache: cached_part pf_top "\<lambda>c db. db\<lparr>pf_top := c\<rparr>"
  by unfold_locales simp

lemma count_by_get:
  "jm_get (count_by ks m) k =
    (if k \<in> set ks \<or> jm_get m k \<noteq> None then Some ((case jm_get m k of None \<Rightarrow> 0 | Some n \<Rightarrow> n) + count_list ks k) else None)"
  by (induction ks arbitrary: m) (auto simp: jm_get_set split: option.splits)

lemma jm_get_mem: "jm_ok m \<Longrightarrow> (k, n) \<in> set m \<Longrightarrow> jm_get m k = Some n"
  by (induction m) (force simp: jm_ok_def)+

lemma count_by_ok: "jm_ok m \<Longrightarrow> jm_ok (count_by ks m)"
  by (induction ks arbitrary: m) (simp_all add: jm_ok_set)

lemma sum_jm_set: "jm_ok m \<Longrightarrow> sum_list (map snd (jm_set k (v :: nat) m)) + (case jm_get m k of None \<Rightarrow> 0 | Some n \<Rightarrow> n) = sum_list (map snd m) + v"
  by (induction k v m rule: jm_set.induct) (auto simp: jm_ok_def)

lemma count_by_sum: "jm_ok m \<Longrightarrow> sum_list (map snd (count_by ks m)) = sum_list (map snd m) + length ks"
proof (induction ks arbitrary: m)
  case (Cons k ks)
  let ?m = "jm_set k ((case jm_get m k of None \<Rightarrow> 0 | Some n \<Rightarrow> n) + 1) m"
  have "sum_list (map snd ?m) = sum_list (map snd m) + 1"
    using sum_jm_set [OF Cons.prems, of k "(case jm_get m k of None \<Rightarrow> 0 | Some n \<Rightarrow> n) + 1"] by simp
  then show ?case using Cons.IH [of ?m] Cons.prems by (simp add: jm_ok_set)
qed simp

definition solved_count :: "profile_db \<Rightarrow> nat \<Rightarrow> nat" where
  "solved_count db u = card {p. \<exists>s \<in> set (pf_subs db). sl_user s = u \<and> sl_problem s = p \<and> sl_status s = ''accepted''}"

lemma count_list_fst: "distinct xs \<Longrightarrow> count_list (map fst xs) u = card {p. (u, p) \<in> set xs}"
proof -
  assume d: "distinct xs"
  have "count_list (map fst xs) u = length (filter (\<lambda>x. fst x = u) xs)" by (induction xs) auto
  also have "\<dots> = card (set (filter (\<lambda>x. fst x = u) xs))" using distinct_card [OF distinct_filter [OF d]] by metis
  also have "\<dots> = card (snd ` set (filter (\<lambda>x. fst x = u) xs))" by (rule card_image [symmetric]) (auto simp: inj_on_def)
  also have "snd ` set (filter (\<lambda>x. fst x = u) xs) = {p. (u, p) \<in> set xs}" by force
  finally show ?thesis .
qed

lemma count_pairs: "count_list (map fst (accepted_pairs db)) u = solved_count db u"
  unfolding solved_count_def by (subst count_list_fst) (auto simp: accepted_pairs_def intro!: arg_cong [of _ _ card])

lemma solved_get: "jm_get (solvedByUser (accepted_pairs db)) u = (if 0 < solved_count db u then Some (solved_count db u) else None)"
proof -
  have "u \<in> set (map fst (accepted_pairs db)) \<longleftrightarrow> 0 < solved_count db u"
    unfolding count_pairs [symmetric] by (metis count_list_0_iff gr0I less_numeral_extra(3))
  then show ?thesis by (simp add: solvedByUser_def count_by_get count_pairs [symmetric] del: set_map)
qed

lemma solved_in_count: "solved_in (solvedByUser (accepted_pairs db)) u = solved_count db u"
  by (simp add: solved_in_def solved_get)

lemma ranked_users:
  fixes db :: profile_db
  defines "m \<equiv> solvedByUser (accepted_pairs db)"
  shows "distinct (sortedUserIds m)" "set (sortedUserIds m) = {u. 0 < solved_count db u}"
    "sorted_wrt (\<lambda>a b. solved_count db a \<ge> solved_count db b) (sortedUserIds m)"
proof -
  have ok: "jm_ok m" unfolding m_def solvedByUser_def by (rule count_by_ok) (simp add: jm_ok_def)
  have "mset (sortedUserIds m) = mset (map fst m)" by (simp add: sortedUserIds_def)
  then show "distinct (sortedUserIds m)" using ok mset_eq_imp_distinct_iff unfolding jm_ok_def by blast
  show "set (sortedUserIds m) = {u. 0 < solved_count db u}"
  proof -
    have "u \<in> fst ` set m \<longleftrightarrow> 0 < solved_count db u" for u by (simp add: jm_get_keys m_def solved_get)
    then show ?thesis by (auto simp: sortedUserIds_def)
  qed
  have g: "solved_count db k = n" if "(k, n) \<in> set m" for k n
  proof -
    have "jm_get m k = Some n" using ok that by (rule jm_get_mem)
    then show ?thesis by (simp add: m_def solved_get split: if_splits)
  qed
  have "sorted_wrt most_first (sort_by most_first m)" by (rule by_count.sorted_sort_by) simp
  then show "sorted_wrt (\<lambda>a b. solved_count db a \<ge> solved_count db b) (sortedUserIds m)"
    unfolding sortedUserIds_def sorted_wrt_map
    by (rule sorted_wrt_mono_rel [rotated]) (use g in \<open>force simp: most_first_def\<close>)
qed

lemma enumerate_map: "List.enumerate 0 xs = map (\<lambda>i. (i, xs ! i)) [0..<length xs]"
  by (rule nth_equalityI) (simp_all add: nth_enumerate_eq)

lemma map_filter_total: "(\<And>x. x \<in> set xs \<Longrightarrow> f x \<noteq> None) \<Longrightarrow> List.map_filter f xs = map (the \<circ> f) xs"
  by (induction xs) (auto simp: List.map_filter_simps split: option.split)

lemma found_user:
  assumes "\<forall>s \<in> set (pf_subs db). sl_user s \<in> pe_id ` set (pf_users db)" "0 < solved_count db u" "u \<in> set ids"
  shows "\<exists>p. find_by pe_id u (users_in ids db) = Some p \<and> pe_id p = u"
proof -
  have "{p. \<exists>s \<in> set (pf_subs db). sl_user s = u \<and> sl_problem s = p \<and> sl_status s = ''accepted''} \<noteq> {}"
    using assms(2) unfolding solved_count_def by (metis card.empty less_numeral_extra(3))
  then have "u \<in> pe_id ` set (pf_users db)" using assms(1) by auto
  moreover have "find_by pe_id u (users_in ids db) = find_by pe_id u (pf_users db)"
    unfolding users_in_def by (rule find_by_filter) (use assms(3) in simp)
  ultimately show ?thesis
    using find_by_None [of pe_id u "pf_users db"] find_by_key [of pe_id u] by (cases "find_by pe_id u (pf_users db)") auto
qed

lemma board_entries_are:
  assumes "\<And>u. u \<in> set ids \<Longrightarrow> \<exists>p. find_by pe_id u users = Some p \<and> pe_id p = u"
  shows "map (\<lambda>e. (be_rank e, pe_id (be_user e), be_solved e, be_score e)) (board_entries users m start ids) =
    map (\<lambda>i. (start + i + 1, ids ! i, solved_in m (ids ! i), solved_in m (ids ! i) * 100)) [0..<length ids]"
proof -
  let ?f = "\<lambda>(i, u). map_option (\<lambda>p. \<lparr>be_rank = start + i + 1, be_user = p, be_username = pe_username p,
      be_solved = solved_in m u, be_score = solved_in m u * 100\<rparr>) (find_by pe_id u users)"
  have "?f x \<noteq> None" if "x \<in> set (List.enumerate 0 ids)" for x
  proof -
    obtain i u where x: "x = (i, u)" by (cases x)
    then have "u \<in> set ids" using that by (auto simp: enumerate_map)
    then show ?thesis using assms [of u] x by auto
  qed
  then have e: "board_entries users m start ids = map (the \<circ> ?f) (List.enumerate 0 ids)"
    unfolding board_entries_def by (rule map_filter_total)
  obtain g where g: "g = (\<lambda>i. the (find_by pe_id (ids ! i) users))" by simp
  have "find_by pe_id (ids ! i) users = Some (g i) \<and> pe_id (g i) = ids ! i" if "i < length ids" for i
    using assms [OF nth_mem [OF that]] by (auto simp: g)
  then show ?thesis by (simp add: e enumerate_map)
qed

lemma top_entries_are:
  assumes "\<And>u. u \<in> set ids \<Longrightarrow> \<exists>p. find_by pe_id u users = Some p \<and> pe_id p = u"
  shows "map (\<lambda>t. (te_rank t, pe_id (te_user t), te_solved t)) (top_entries users m ids) =
    map (\<lambda>i. (i + 1, ids ! i, solved_in m (ids ! i))) [0..<length ids]"
proof -
  let ?f = "\<lambda>(i, u). map_option (\<lambda>p. \<lparr>te_rank = i + 1, te_user = p, te_solved = solved_in m u\<rparr>) (find_by pe_id u users)"
  have "?f x \<noteq> None" if "x \<in> set (List.enumerate 0 ids)" for x
  proof -
    obtain i u where x: "x = (i, u)" by (cases x)
    then have "u \<in> set ids" using that by (auto simp: enumerate_map)
    then show ?thesis using assms [of u] x by auto
  qed
  then have e: "top_entries users m ids = map (the \<circ> ?f) (List.enumerate 0 ids)"
    unfolding top_entries_def by (rule map_filter_total)
  obtain g where g: "g = (\<lambda>i. the (find_by pe_id (ids ! i) users))" by simp
  have "find_by pe_id (ids ! i) users = Some (g i) \<and> pe_id (g i) = ids ! i" if "i < length ids" for i
    using assms [OF nth_mem [OF that]] by (auto simp: g)
  then show ?thesis by (simp add: e enumerate_map)
qed

text \<open>A page of the ranking, by positions.\<close>

lemma page_positions:
  "map (\<lambda>i. f (s + i) (page ! i)) [0..<length page] = map (\<lambda>i. f i (xs ! i)) [s..<min (s + l) (length xs)]"
  if "page = take l (drop s xs)"
  using that by (intro nth_equalityI) (auto simp: add.commute)

lemma byDifficulty_sum:
  "dc_easy (byDifficulty ds c) + dc_medium (byDifficulty ds c) + dc_hard (byDifficulty ds c) =
    dc_easy c + dc_medium c + dc_hard c + length (filter (\<lambda>d. map lower_char d \<in> {''easy'', ''medium'', ''hard''}) ds)"
  by (induction ds arbitrary: c) (auto simp: Let_def)

lemma solved_problems_count: "length (solved_problems u db) = solved_count db u"
proof -
  have "length (solved_problems u db) = card (set (solved_problems u db))"
    by (rule distinct_card [symmetric]) (simp add: solved_problems_def)
  moreover have "set (solved_problems u db) = {p. \<exists>s \<in> set (pf_subs db). sl_user s = u \<and> sl_problem s = p \<and> sl_status s = ''accepted''}"
    by (auto simp: solved_problems_def)
  ultimately show ?thesis by (simp add: solved_count_def)
qed

lemma leaderboard_pages:
  fixes db :: profile_db
  assumes "\<forall>s \<in> set (pf_subs db). sl_user s \<in> pe_id ` set (pf_users db)"
    and "fst (cache_get ''leaderboard:top'' now (pf_top db)) = None"
  defines "solved \<equiv> \<lambda>u. card {p. \<exists>s \<in> set (pf_subs db). sl_user s = u \<and> sl_problem s = p \<and> sl_status s = ''accepted''}"
    and "order \<equiv> sortedUserIds (solvedByUser (accepted_pairs db))"
  shows "(let page = parsePage rawPage; limit = parseLimit rawLimit None None; start = nat ((page - 1) * limit) in
      \<exists>entries. result (leaderboard_GET rawPage rawLimit) [] db = Inr (Reply 200 (entries, length order, page, limit)) \<and>
        map (\<lambda>e. (be_rank e, pe_id (be_user e), be_solved e, be_score e)) entries =
          map (\<lambda>i. (i + 1, order ! i, solved (order ! i), solved (order ! i) * 100)) [start..<min (start + nat limit) (length order)])"
    and "\<exists>top. result (top_GET now) [] db = Inr (Reply 200 top) \<and>
        map (\<lambda>t. (te_rank t, pe_id (te_user t), te_solved t)) top = map (\<lambda>i. (i + 1, order ! i, solved (order ! i))) [0..<min 10 (length order)]"
proof -
  let ?m = "solvedByUser (accepted_pairs db)" and ?order = "sortedUserIds (solvedByUser (accepted_pairs db))"
  have s: "solved u = solved_count db u" for u by (simp add: solved_def solved_count_def)
  have found: "\<exists>p. find_by pe_id u (users_in ids db) = Some p \<and> pe_id p = u" if "set ids \<subseteq> set ?order" "u \<in> set ids" for u ids
  proof -
    have "0 < solved_count db u" using ranked_users(2) [of db] that by auto
    then show ?thesis using that(2) by (rule found_user [OF assms(1)])
  qed
  have page: "\<exists>entries. result (leaderboard_GET rawPage rawLimit) [] db =
        Inr (Reply 200 (entries, length ?order, parsePage rawPage, parseLimit rawLimit None None)) \<and>
      map (\<lambda>e. (be_rank e, pe_id (be_user e), be_solved e, be_score e)) entries =
        map (\<lambda>i. (i + 1, ?order ! i, solved (?order ! i), solved (?order ! i) * 100))
          [nat ((parsePage rawPage - 1) * parseLimit rawLimit None None)..<
           min (nat ((parsePage rawPage - 1) * parseLimit rawLimit None None) + nat (parseLimit rawLimit None None)) (length ?order)]" for rawPage rawLimit
  proof -
    let ?ids = "page_of (parsePage rawPage) (parseLimit rawLimit None None) ?order"
    let ?start = "nat ((parsePage rawPage - 1) * parseLimit rawLimit None None)"
    have sub: "set ?ids \<subseteq> set ?order" by (auto simp: page_of_def dest: in_set_takeD in_set_dropD)
    have fu: "\<And>u. u \<in> set ?ids \<Longrightarrow> \<exists>p. find_by pe_id u (users_in ?ids db) = Some p \<and> pe_id p = u" using sub by (rule found)
    have b: "board_entries [] ?m n [] = []" for n by (simp add: board_entries_def List.map_filter_simps)
    have "result (leaderboard_GET rawPage rawLimit) [] db = Inr (Reply 200 (board_entries (users_in ?ids db) ?m ?start ?ids,
        length ?order, parsePage rawPage, parseLimit rawLimit None None))"
      by (simp add: result_def leaderboard_GET_def Let_def catch_def bind_def board_entries_def List.map_filter_simps)
    moreover have "map (\<lambda>e. (be_rank e, pe_id (be_user e), be_solved e, be_score e)) (board_entries (users_in ?ids db) ?m ?start ?ids) =
        map (\<lambda>i. (?start + i + 1, ?ids ! i, solved (?ids ! i), solved (?ids ! i) * 100)) [0..<length ?ids]"
      using board_entries_are [OF fu, of ?ids ?m ?start] by (simp add: solved_in_count s)
    moreover have "map (\<lambda>i. (?start + i + 1, ?ids ! i, solved (?ids ! i), solved (?ids ! i) * 100)) [0..<length ?ids] =
        map (\<lambda>i. (i + 1, ?order ! i, solved (?order ! i), solved (?order ! i) * 100)) [?start..<min (?start + nat (parseLimit rawLimit None None)) (length ?order)]"
      by (rule page_positions [where f = "\<lambda>i u. (i + 1, u, solved u, solved u * 100)"]) (simp add: page_of_def)
    ultimately show ?thesis by metis
  qed
  have top: "\<exists>top. result (top_GET now) [] db = Inr (Reply 200 top) \<and>
      map (\<lambda>t. (te_rank t, pe_id (te_user t), te_solved t)) top = map (\<lambda>i. (i + 1, ?order ! i, solved (?order ! i))) [0..<min 10 (length ?order)]"
  proof -
    let ?ids = "take TOP_N ?order"
    have sub: "set ?ids \<subseteq> set ?order" by (auto dest: in_set_takeD)
    have fu: "\<And>u. u \<in> set ?ids \<Longrightarrow> \<exists>p. find_by pe_id u (users_in ?ids db) = Some p \<and> pe_id p = u" using sub by (rule found)
    have "computeTop ([], db\<lparr>pf_top := c\<rparr>) = (Inr (top_entries (users_in ?ids db) ?m ?ids), ([], db\<lparr>pf_top := c\<rparr>))" for c
      by (simp add: computeTop_def Let_def bind_def accepted_pairs_def users_in_def top_entries_def List.map_filter_simps)
    then have "result (top_GET now) [] db = Inr (Reply 200 (top_entries (users_in ?ids db) ?m ?ids))"
      by (simp add: result_def top_GET_def catch_def bind_def top_cache.remember_miss [where s = db, OF assms(2)])
    moreover have "map (\<lambda>t. (te_rank t, pe_id (te_user t), te_solved t)) (top_entries (users_in ?ids db) ?m ?ids) =
        map (\<lambda>i. (i + 1, ?ids ! i, solved (?ids ! i))) [0..<length ?ids]"
      using top_entries_are [OF fu, of ?ids ?m] by (simp add: solved_in_count s)
    moreover have "\<dots> = map (\<lambda>i. (i + 1, ?order ! i, solved (?order ! i))) [0..<min 10 (length ?order)]"
      by (rule map_cong) (auto simp: TOP_N_def min.commute)
    ultimately show ?thesis by metis
  qed
  show "(let page = parsePage rawPage; limit = parseLimit rawLimit None None; start = nat ((page - 1) * limit) in
      \<exists>entries. result (leaderboard_GET rawPage rawLimit) [] db = Inr (Reply 200 (entries, length order, page, limit)) \<and>
        map (\<lambda>e. (be_rank e, pe_id (be_user e), be_solved e, be_score e)) entries =
          map (\<lambda>i. (i + 1, order ! i, solved (order ! i), solved (order ! i) * 100)) [start..<min (start + nat limit) (length order)])"
    unfolding order_def Let_def using page .
  show "\<exists>top. result (top_GET now) [] db = Inr (Reply 200 top) \<and>
        map (\<lambda>t. (te_rank t, pe_id (te_user t), te_solved t)) top = map (\<lambda>i. (i + 1, order ! i, solved (order ! i))) [0..<min 10 (length order)]"
    unfolding order_def using top .
qed

lemma falling_numbers_unique:
  fixes f :: "'a \<Rightarrow> nat"
  assumes "sorted_wrt (\<lambda>a b. f a \<ge> f b) xs" "sorted_wrt (\<lambda>a b. f a \<ge> f b) ys" "mset xs = mset ys"
  shows "map f xs = map f ys"
proof -
  have s: "sorted (rev (map f zs)) \<longleftrightarrow> sorted_wrt (\<lambda>a b. f a \<ge> f b) zs" for zs
    by (simp add: sorted_wrt_rev sorted_wrt_map)
  have "rev (map f xs) = sort (rev (map f ys))"
    by (rule properties_for_sort [symmetric]) (use assms in \<open>simp_all add: s\<close>)
  moreover have "sort (rev (map f ys)) = rev (map f ys)" using assms(2) by (intro sorted_sort_id) (simp add: s)
  ultimately show ?thesis by simp
qed

text \<open>
  C22. The leaderboard ranks by distinct problems solved. Let every submission belong to a user, let no
  call fail and the cached top list be absent. Take any requests against the same rows, each of which
  may get them from the database in an order of its own. There is one falling list of numbers, the
  distinct problems solved by each user with an accepted submission, so that every request
  answers by a ranking with these numbers: it holds each of those users once; the page, for any page and
  limit parameters, is the stretch of the ranking it asks for, with consecutive ranks, the number of
  problems solved and a hundred points for each, and reports the length of the ranking; and the top
  list of the home page is its first ten. If no two of the users have solved equally many problems, all
  requests have the same ranking.
\<close>

theorem leaderboard_ranks_solvers:
  fixes db :: profile_db
  assumes "\<forall>s \<in> set (pf_subs db). sl_user s \<in> pe_id ` set (pf_users db)"
    and "fst (cache_get ''leaderboard:top'' now (pf_top db)) = None"
  defines "solved \<equiv> \<lambda>u. card {p. \<exists>s \<in> set (pf_subs db). sl_user s = u \<and> sl_problem s = p \<and> sl_status s = ''accepted''}"
  shows "\<exists>numbers ranking. sorted_wrt (\<ge>) numbers \<and> (\<forall>rows. mset rows = mset (pf_subs db) \<longrightarrow>
    (\<exists>order. distinct order \<and> set order = {u. 0 < solved u} \<and> map solved order = numbers \<and>
      (inj_on solved {u. 0 < solved u} \<longrightarrow> order = ranking) \<and>
      (\<forall>rawPage rawLimit. let page = parsePage rawPage; limit = parseLimit rawLimit None None; start = nat ((page - 1) * limit) in
        \<exists>entries. result (leaderboard_GET rawPage rawLimit) [] (db\<lparr>pf_subs := rows\<rparr>) = Inr (Reply 200 (entries, length order, page, limit)) \<and>
          map (\<lambda>e. (be_rank e, pe_id (be_user e), be_solved e, be_score e)) entries =
            map (\<lambda>i. (i + 1, order ! i, solved (order ! i), solved (order ! i) * 100)) [start..<min (start + nat limit) (length order)]) \<and>
      (\<exists>top. result (top_GET now) [] (db\<lparr>pf_subs := rows\<rparr>) = Inr (Reply 200 top) \<and>
        map (\<lambda>t. (te_rank t, pe_id (te_user t), te_solved t)) top = map (\<lambda>i. (i + 1, order ! i, solved (order ! i))) [0..<min 10 (length order)])))"
proof -
  define order where "order rows = sortedUserIds (solvedByUser (accepted_pairs (db\<lparr>pf_subs := rows\<rparr>)))" for rows
  have same: "solved_count (db\<lparr>pf_subs := rows\<rparr>) = solved" if "mset rows = mset (pf_subs db)" for rows
    using mset_eq_setD [OF that] by (intro ext) (simp add: solved_def solved_count_def)
  have rk: "distinct (order rows)" "set (order rows) = {u. 0 < solved u}" "sorted_wrt (\<lambda>a b. solved a \<ge> solved b) (order rows)"
    if "mset rows = mset (pf_subs db)" for rows
    using ranked_users [of "db\<lparr>pf_subs := rows\<rparr>"] unfolding order_def same [OF that] by blast+
  let ?ranking = "order (pf_subs db)"
  have numbers: "map solved (order rows) = map solved ?ranking" if "mset rows = mset (pf_subs db)" for rows
    using rk [OF that] rk [OF refl] by (intro falling_numbers_unique) (simp_all add: set_eq_iff_mset_eq_distinct [symmetric])
  have one: "order rows = ?ranking" if "mset rows = mset (pf_subs db)" "inj_on solved {u. 0 < solved u}" for rows
    by (rule map_inj_on [OF numbers [OF that(1)]]) (simp add: rk(2) [OF that(1)] rk(2) [OF refl] that(2))
  have falling: "sorted_wrt (\<ge>) (map solved ?ranking)" using rk(3) [OF refl] by (simp add: sorted_wrt_map)
  show ?thesis
  proof (rule exI [of _ "map solved ?ranking"], rule exI [of _ ?ranking], rule conjI, rule falling, intro allI impI)
    fix rows assume m: "mset rows = mset (pf_subs db)"
    have u: "\<forall>s \<in> set (pf_subs (db\<lparr>pf_subs := rows\<rparr>)). sl_user s \<in> pe_id ` set (pf_users (db\<lparr>pf_subs := rows\<rparr>))"
      using assms(1) mset_eq_setD [OF m] by simp
    have c: "fst (cache_get ''leaderboard:top'' now (pf_top (db\<lparr>pf_subs := rows\<rparr>))) = None" using assms(2) by simp
    note pages = leaderboard_pages [OF u c, folded solved_count_def order_def, unfolded same [OF m]]
    show "\<exists>order. distinct order \<and> set order = {u. 0 < solved u} \<and> map solved order = map solved ?ranking \<and>
      (inj_on solved {u. 0 < solved u} \<longrightarrow> order = ?ranking) \<and>
      (\<forall>rawPage rawLimit. let page = parsePage rawPage; limit = parseLimit rawLimit None None; start = nat ((page - 1) * limit) in
        \<exists>entries. result (leaderboard_GET rawPage rawLimit) [] (db\<lparr>pf_subs := rows\<rparr>) = Inr (Reply 200 (entries, length order, page, limit)) \<and>
          map (\<lambda>e. (be_rank e, pe_id (be_user e), be_solved e, be_score e)) entries =
            map (\<lambda>i. (i + 1, order ! i, solved (order ! i), solved (order ! i) * 100)) [start..<min (start + nat limit) (length order)]) \<and>
      (\<exists>top. result (top_GET now) [] (db\<lparr>pf_subs := rows\<rparr>) = Inr (Reply 200 top) \<and>
        map (\<lambda>t. (te_rank t, pe_id (te_user t), te_solved t)) top = map (\<lambda>i. (i + 1, order ! i, solved (order ! i))) [0..<min 10 (length order)])"
      by (intro exI [of _ "order rows"] conjI impI allI rk [OF m] numbers [OF m] one [OF m])
        (assumption, rule pages(1), rule pages(2))
  qed
qed

definition sample_person :: "nat \<Rightarrow> person" where
  "sample_person i = \<lparr>pe_id = i, pe_username = ''ada'', pe_avatar = None, pe_bio = None, pe_createdAt = 0, pe_rating = 1500, pe_maxRating = 1500\<rparr>"

definition sample_sub :: "nat \<Rightarrow> nat \<Rightarrow> nat \<Rightarrow> string \<Rightarrow> sub_line" where
  "sample_sub i u p st = \<lparr>sl_id = i, sl_user = u, sl_problem = p, sl_status = st, sl_language = ''python'', sl_runtime = None, sl_createdAt = 0\<rparr>"

definition sample_profiles :: profile_db where
  "sample_profiles = \<lparr>pf_users = [sample_person 1, sample_person 2], pf_problems = [],
     pf_subs = [sample_sub 1 1 7 ''accepted'', sample_sub 2 2 7 ''accepted'', sample_sub 3 2 8 ''accepted'', sample_sub 4 1 7 ''accepted'', sample_sub 5 1 9 ''wrong_answer''],
     pf_ratings = [], pf_marks = [], pf_threads = [], pf_comments = [], pf_top = new_cache (Fin 9)\<rparr>"

lemma leaderboard_ranks_solvers_witness:
  "\<exists>order entries. distinct order \<and>
    result (leaderboard_GET None None) [] (sample_profiles\<lparr>pf_subs := rev (pf_subs sample_profiles)\<rparr>) =
      Inr (Reply 200 (entries, length order, 1, 50)) \<and> {1, 2 :: nat} \<subseteq> set order"
proof -
  have users: "\<forall>s \<in> set (pf_subs sample_profiles). sl_user s \<in> pe_id ` set (pf_users sample_profiles)"
    by (simp add: sample_profiles_def sample_sub_def sample_person_def)
  have cold: "fst (cache_get ''leaderboard:top'' 0 (pf_top sample_profiles)) = None" by code_simp
  have p: "parsePage None = 1" "parseLimit None None None = 50" by code_simp+
  have pos: "solved_count sample_profiles 1 = 1" "solved_count sample_profiles 2 = 2"
    unfolding count_pairs [symmetric] by code_simp+
  have m: "mset (rev (pf_subs sample_profiles)) = mset (pf_subs sample_profiles)" by simp
  note claim = leaderboard_ranks_solvers [OF users cold, folded solved_count_def]
  have "\<exists>order. distinct order \<and> set order = {u. 0 < solved_count sample_profiles u} \<and>
      (\<forall>rawPage rawLimit. let page = parsePage rawPage; limit = parseLimit rawLimit None None; start = nat ((page - 1) * limit) in
      \<exists>entries. result (leaderboard_GET rawPage rawLimit) [] (sample_profiles\<lparr>pf_subs := rev (pf_subs sample_profiles)\<rparr>) =
          Inr (Reply 200 (entries, length order, page, limit)) \<and>
        map (\<lambda>e. (be_rank e, pe_id (be_user e), be_solved e, be_score e)) entries =
          map (\<lambda>i. (i + 1, order ! i, solved_count sample_profiles (order ! i), solved_count sample_profiles (order ! i) * 100))
            [start..<min (start + nat limit) (length order)])"
    using claim by (elim exE conjE) (drule spec, drule mp, rule m, elim exE conjE, intro exI conjI, assumption+)
  then obtain order where order: "distinct order" "set order = {u. 0 < solved_count sample_profiles u}"
    and page: "\<forall>rawPage rawLimit. let page = parsePage rawPage; limit = parseLimit rawLimit None None; start = nat ((page - 1) * limit) in
      \<exists>entries. result (leaderboard_GET rawPage rawLimit) [] (sample_profiles\<lparr>pf_subs := rev (pf_subs sample_profiles)\<rparr>) =
          Inr (Reply 200 (entries, length order, page, limit)) \<and>
        map (\<lambda>e. (be_rank e, pe_id (be_user e), be_solved e, be_score e)) entries =
          map (\<lambda>i. (i + 1, order ! i, solved_count sample_profiles (order ! i), solved_count sample_profiles (order ! i) * 100))
            [start..<min (start + nat limit) (length order)]"
    by (elim exE conjE)
  obtain entries where "result (leaderboard_GET None None) [] (sample_profiles\<lparr>pf_subs := rev (pf_subs sample_profiles)\<rparr>) =
      Inr (Reply 200 (entries, length order, 1, 50))"
    using spec [OF spec [OF page, of None], of None] unfolding p Let_def by blast
  moreover have "{1, 2} \<subseteq> set order" using order(2) pos by simp
  ultimately show ?thesis using order(1) by blast
qed

text \<open>
  The numbers of a profile agree with each other and with the ranking. For a user there is, the
  profile counts exactly the user's submissions and accepted submissions; the number of problems
  solved is the one the leaderboard ranks by, is at most the number of accepted submissions, and is at
  least the sum of the solved problems by difficulty, with equality when every solved problem is rated
  easy, medium or hard; at most the ten latest submissions are shown; and the bars of the heat map, one a
  day, add up to its own total, the accepted submissions of the last thirty days.
\<close>

theorem profile_numbers_agree:
  fixes db :: profile_db and u :: person and name :: string and now :: int
  assumes "person_by_name name db = Some u"
  defines "mine \<equiv> filter (\<lambda>s. sl_user s = pe_id u) (pf_subs db)"
    and "rated \<equiv> (\<lambda>p. map lower_char (difficulty_of p db) \<in> {''easy'', ''medium'', ''hard''})"
  shows "\<exists>page heat. result (profile_GET name) [] db = Inr (Reply 200 page) \<and> pp_user page = u \<and>
    pp_total page = length mine \<and> pp_accepted page = length (filter (\<lambda>s. sl_status s = ''accepted'') mine) \<and>
    pp_solved page = solved_in (solvedByUser (accepted_pairs db)) (pe_id u) \<and>
    pp_solved page \<le> pp_accepted page \<and> pp_accepted page \<le> pp_total page \<and>
    dc_easy (pp_byDifficulty page) + dc_medium (pp_byDifficulty page) + dc_hard (pp_byDifficulty page) \<le> pp_solved page \<and>
    ((\<forall>s \<in> set mine. sl_status s = ''accepted'' \<longrightarrow> rated (sl_problem s)) \<longrightarrow>
      dc_easy (pp_byDifficulty page) + dc_medium (pp_byDifficulty page) + dc_hard (pp_byDifficulty page) = pp_solved page) \<and>
    length (pp_recent page) = min 10 (pp_total page) \<and>
    result (stats_GET name now) [] db = Inr (Reply 200 heat) \<and> distinct (map fst (snd heat)) \<and> sum_list (map snd (snd heat)) = fst heat \<and>
    fst heat = length (filter (\<lambda>s. sl_status s = ''accepted'' \<and> now - 2592000000 \<le> sl_createdAt s) mine)"
proof -
  let ?ds = "map (\<lambda>p. difficulty_of p db) (solved_problems (pe_id u) db)"
  let ?page = "\<lparr>pp_user = u, pp_total = length mine, pp_accepted = length (filter (\<lambda>s. sl_status s = ''accepted'') mine),
    pp_solved = length ?ds, pp_byDifficulty = byDifficulty ?ds \<lparr>dc_easy = 0, dc_medium = 0, dc_hard = 0\<rparr>,
    pp_recent = map (\<lambda>s. (s, line_by_id (sl_problem s) db)) (take 10 (sort_by newest_sub mine)),
    pp_ratings = take 50 (sort_by oldest_rating (filter (\<lambda>r. rl_user r = pe_id u) (pf_ratings db)))\<rparr>"
  let ?times = "sort_by (\<le>) (map sl_createdAt (filter (\<lambda>s. sl_user s = pe_id u \<and> sl_status s = ''accepted'' \<and> sl_createdAt s \<ge> now - 2592000000) (pf_subs db)))"
  let ?heat = "(length ?times, count_by (map day_of ?times) [])"
  have acc: "filter (\<lambda>s. sl_user s = pe_id u \<and> sl_status s = ''accepted'') (pf_subs db) = filter (\<lambda>s. sl_status s = ''accepted'') mine"
    by (simp add: mine_def conj_commute)
  have solved: "solved_problems (pe_id u) db = remdups (map sl_problem (filter (\<lambda>s. sl_status s = ''accepted'') mine))"
    by (simp add: solved_problems_def acc)
  have page: "result (profile_GET name) [] db = Inr (Reply 200 ?page)"
    by (simp add: result_def profile_GET_def catch_def bind_def assms(1) acc) (simp add: mine_def)
  have heat: "result (stats_GET name now) [] db = Inr (Reply 200 ?heat)"
    by (simp add: result_def stats_GET_def catch_def bind_def assms(1) Let_def)
  have sum: "dc_easy (pp_byDifficulty ?page) + dc_medium (pp_byDifficulty ?page) + dc_hard (pp_byDifficulty ?page) =
      length (filter rated (solved_problems (pe_id u) db))"
    by (simp add: byDifficulty_sum filter_map o_def rated_def)
  have few: "length ?ds \<le> length (filter (\<lambda>s. sl_status s = ''accepted'') mine)"
    unfolding solved using length_remdups_leq [of "map sl_problem (filter (\<lambda>s. sl_status s = ''accepted'') mine)"] by simp
  have all: "filter rated (solved_problems (pe_id u) db) = solved_problems (pe_id u) db"
    if h: "\<forall>s \<in> set mine. sl_status s = ''accepted'' \<longrightarrow> rated (sl_problem s)"
    using h by (simp add: filter_id_conv solved)
  have ok: "jm_ok []" by (simp add: jm_ok_def)
  have bars: "distinct (map fst (snd ?heat))" "sum_list (map snd (snd ?heat)) = fst ?heat"
    using count_by_ok [OF ok, of "map day_of ?times"] count_by_sum [OF ok, of "map day_of ?times"] by (simp_all add: jm_ok_def)
  have n: "fst ?heat = length (filter (\<lambda>s. sl_status s = ''accepted'' \<and> now - 2592000000 \<le> sl_createdAt s) mine)"
    by (simp add: mine_def conj_commute conj_left_commute)
  show ?thesis
    by (intro exI [of _ ?page] exI [of _ ?heat] conjI page heat bars n)
      (use sum few all length_filter_le [of rated "solved_problems (pe_id u) db"] in \<open>simp_all add: solved_in_count solved_problems_count length_filter_le\<close>)
qed

lemma profile_numbers_agree_witness:
  "\<exists>page. result (profile_GET ''ada'') [] sample_profiles = Inr (Reply 200 page) \<and> pp_solved page \<le> 2 \<and> pp_total page = 3"
proof -
  have "person_by_name ''ada'' sample_profiles = Some (sample_person 1)" by code_simp
  note p = profile_numbers_agree [OF this, of 0]
  have "length (filter (\<lambda>s. sl_user s = pe_id (sample_person 1)) (pf_subs sample_profiles)) = 3"
    "length (filter (\<lambda>s. sl_status s = ''accepted'') (filter (\<lambda>s. sl_user s = pe_id (sample_person 1)) (pf_subs sample_profiles))) = 2"
    by code_simp+
  with p show ?thesis by auto
qed

end
