(* ===== verification/ContestPages.thy ===== *)
theory ContestPages
  imports Problems AdminProblems
begin

section \<open>The pages of the contests and their administration\<close>

text \<open>
  \<^verbatim>\<open>src/app/api/contests/route.ts\<close>, \<^verbatim>\<open>contests/[slug]/route.ts\<close>, \<^verbatim>\<open>contests/active\<close>,
  \<^verbatim>\<open>contests/upcoming\<close>, \<^verbatim>\<open>admin/contests/route.ts\<close> and \<^verbatim>\<open>admin/contests/[id]/status/route.ts\<close>
  (taking part and rating are in theory Contests). The list and the pages stand behind the cache; the
  properties say that what is served is what the tables say.
\<close>

subsection \<open>Tables\<close>

record contest_info =
  ci_id :: nat
  ci_title :: string
  ci_slug :: string
  ci_description :: "string option"
  ci_startTime :: int
  ci_endTime :: int
  ci_status :: string
  ci_createdAt :: int

record contest_problem =
  cp_contest :: nat
  cp_problem :: nat
  cp_order :: int
  cp_points :: int

record paged_problem =
  gp_problem :: problem_line
  gp_points :: int
  gp_order :: int
  gp_tags :: "tag_line list"

record contest_page =
  cg_id :: nat
  cg_title :: string
  cg_slug :: string
  cg_description :: "string option"
  cg_startTime :: int
  cg_endTime :: int
  cg_status :: string
  cg_problems :: "paged_problem list"

text \<open>The entries are seen as the ids of their contests.\<close>

record pages_db =
  cd_contests :: "contest_info list"
  cd_problems :: "contest_problem list"
  cd_entries :: "nat list"
  cd_catalogue :: cat_db
  cd_limiter :: buckets
  cd_list :: "contest_info list cache"
  cd_detail :: "contest_page option cache"

subsection \<open>The public list and pages\<close>

definition latest_start :: "contest_info \<Rightarrow> contest_info \<Rightarrow> bool" where
  "latest_start a b \<longleftrightarrow> ci_startTime a \<ge> ci_startTime b"

definition next_start :: "contest_info \<Rightarrow> contest_info \<Rightarrow> bool" where
  "next_start a b \<longleftrightarrow> ci_startTime a \<le> ci_startTime b"

definition contest_list :: "pages_db \<Rightarrow> contest_info list" where
  "contest_list db = take 100 (sort_by latest_start (cd_contests db))"

definition contests_GET :: "int \<Rightarrow> (pages_db, string, contest_info list reply) prog" where
  "contests_GET now =
    catch
      (bind (remember cd_list (\<lambda>c db. db\<lparr>cd_list := c\<rparr>) ''contests:all'' 60000 now (query ''db'' contest_list)) (\<lambda>contests.
       ret (Reply 200 contests)))
      (\<lambda>_. ret (Failed 500 ''Internal server error''))"

definition info_by_slug :: "string \<Rightarrow> pages_db \<Rightarrow> contest_info option" where
  "info_by_slug slug db = find_by ci_slug slug (cd_contests db)"

definition in_order :: "contest_problem \<Rightarrow> contest_problem \<Rightarrow> bool" where
  "in_order a b \<longleftrightarrow> cp_order a \<le> cp_order b"

definition paged_problems :: "nat \<Rightarrow> pages_db \<Rightarrow> paged_problem list" where
  "paged_problems c db =
    List.map_filter (\<lambda>cp. map_option (\<lambda>p. \<lparr>gp_problem = line_of p, gp_points = cp_points cp, gp_order = cp_order cp,
        gp_tags = map tag_line_of (tags_of (pm_id p) (cd_catalogue db))\<rparr>)
        (find_by pm_id (cp_problem cp) (ct_problems (cd_catalogue db))))
      (sort_by in_order (filter (\<lambda>cp. cp_contest cp = c) (cd_problems db)))"

definition page_for :: "string \<Rightarrow> pages_db \<Rightarrow> contest_page option" where
  "page_for slug db =
    map_option (\<lambda>c. \<lparr>cg_id = ci_id c, cg_title = ci_title c, cg_slug = ci_slug c, cg_description = ci_description c,
      cg_startTime = ci_startTime c, cg_endTime = ci_endTime c, cg_status = ci_status c,
      cg_problems = paged_problems (ci_id c) db\<rparr>) (info_by_slug slug db)"

definition detail_key :: "string \<Rightarrow> string" where
  "detail_key slug = ''contests:detail:'' @ slug"

text \<open>\<^verbatim>\<open>null\<close> is stored like any other answer.\<close>

definition contest_GET :: "string \<Rightarrow> int \<Rightarrow> (pages_db, string, contest_page reply) prog" where
  "contest_GET slug now =
    catch
      (bind (remember cd_detail (\<lambda>c db. db\<lparr>cd_detail := c\<rparr>) (detail_key slug) 60000 now (query ''db'' (page_for slug))) (\<lambda>payload.
       case payload of
         None \<Rightarrow> ret (Failed 404 ''Contest not found'')
       | Some page \<Rightarrow> ret (Reply 200 page)))
      (\<lambda>_. ret (Failed 500 ''Internal server error''))"

definition entries_count :: "contest_info \<Rightarrow> pages_db \<Rightarrow> nat" where
  "entries_count c db = length (filter (\<lambda>e. e = ci_id c) (cd_entries db))"

definition problems_count :: "contest_info \<Rightarrow> pages_db \<Rightarrow> nat" where
  "problems_count c db = length (filter (\<lambda>cp. cp_contest cp = ci_id c) (cd_problems db))"

definition active_GET :: "(pages_db, string, (contest_info \<times> nat \<times> nat) list reply) prog" where
  "active_GET =
    catch
      (bind (query ''db'' (\<lambda>db. map (\<lambda>c. (c, entries_count c db, problems_count c db))
         (sort_by next_start (filter (\<lambda>c. ci_status c = ''active'') (cd_contests db))))) (\<lambda>contests.
       ret (Reply 200 contests)))
      (\<lambda>_. ret (Failed 500 ''Internal server error''))"

definition upcoming_GET :: "string option \<Rightarrow> (pages_db, string, (contest_info \<times> nat) list reply) prog" where
  "upcoming_GET rawLimit =
    catch
      (let limit = limit_param 50 20 rawLimit
       in bind (query ''db'' (\<lambda>db. map (\<lambda>c. (c, problems_count c db))
            (take (nat limit) (sort_by next_start (filter (\<lambda>c. ci_status c = ''upcoming'') (cd_contests db)))))) (\<lambda>contests.
          ret (Reply 200 contests)))
      (\<lambda>_. ret (Failed 500 ''Internal server error''))"

subsection \<open>Administration\<close>

text \<open>A missing field is None.\<close>

record new_contest =
  nc_title :: "string option"
  nc_slug :: "string option"
  nc_description :: "string option"
  nc_startTime :: "string option"
  nc_endTime :: "string option"
  nc_status :: "string option"

definition statusEnum :: "string \<Rightarrow> bool" where
  "statusEnum s \<longleftrightarrow> s \<in> {''upcoming'', ''active'', ''ended''}"

text \<open>
  \<open>parse_iso\<close> reads a time: None for a text that \<^verbatim>\<open>z.string().datetime()\<close> refuses, else the
  milliseconds of \<^verbatim>\<open>new Date\<close>. The refinement comes after the fields.
\<close>

definition datetimeSchema :: "(string \<Rightarrow> int option) \<Rightarrow> string \<Rightarrow> string option \<Rightarrow> string list" where
  "datetimeSchema parse_iso msg x = (case x of None \<Rightarrow> [''Required''] | Some s \<Rightarrow> if parse_iso s = None then [msg] else [])"

definition createContestSchema :: "(string \<Rightarrow> int option) \<Rightarrow> new_contest \<Rightarrow> string list" where
  "createContestSchema parse_iso b =
    (let fields =
       (case nc_title b of None \<Rightarrow> [''Required''] | Some t \<Rightarrow> titleSchema ''Title is required'' t) @
       (case nc_slug b of None \<Rightarrow> [''Required'']
        | Some s \<Rightarrow> titleSchema ''String must contain at least 1 character(s)'' s @ (if slugRegex s then [] else [''Slug must be lowercase with hyphens''])) @
       datetimeSchema parse_iso ''startTime must be ISO 8601'' (nc_startTime b) @
       datetimeSchema parse_iso ''endTime must be ISO 8601'' (nc_endTime b) @
       (case nc_status b of None \<Rightarrow> [] | Some s \<Rightarrow> if statusEnum s then [] else [''Invalid enum value''])
     in if fields \<noteq> [] then fields
        else if the (parse_iso (the (nc_endTime b))) > the (parse_iso (the (nc_startTime b))) then []
        else [''endTime must be after startTime''])"

definition staffed :: "session option \<Rightarrow> int \<Rightarrow> (session \<Rightarrow> (pages_db, string, 'b reply) prog) \<Rightarrow> (pages_db, string, 'b reply) prog" where
  "staffed session now k = guarded cd_limiter (\<lambda>b db. db\<lparr>cd_limiter := b\<rparr>) session now k"

definition admin_contests_GET :: "session option \<Rightarrow> int \<Rightarrow> (pages_db, string, (contest_info \<times> nat \<times> nat) list reply) prog" where
  "admin_contests_GET session now =
    catch
      (staffed session now (\<lambda>se.
         bind (query ''db'' (\<lambda>db. map (\<lambda>c. (c, problems_count c db, entries_count c db)) (sort_by latest_start (cd_contests db)))) (\<lambda>contests.
         ret (Reply 200 contests))))
      (\<lambda>_. ret (Failed 500 ''Internal server error''))"

definition new_info :: "(string \<Rightarrow> int option) \<Rightarrow> nat \<Rightarrow> new_contest \<Rightarrow> int \<Rightarrow> contest_info" where
  "new_info parse_iso i b now =
    \<lparr>ci_id = i, ci_title = the (nc_title b), ci_slug = the (nc_slug b), ci_description = Some (or_default [] (nc_description b)),
     ci_startTime = the (parse_iso (the (nc_startTime b))), ci_endTime = the (parse_iso (the (nc_endTime b))),
     ci_status = or_default ''upcoming'' (nc_status b), ci_createdAt = now\<rparr>"

definition create_contest :: "contest_info \<Rightarrow> pages_db \<Rightarrow> (string + contest_info) \<times> pages_db" where
  "create_contest c db =
    (if ci_slug c \<in> ci_slug ` set (cd_contests db) \<or> ci_id c \<in> ci_id ` set (cd_contests db)
     then (Inl ''Unique constraint failed'', db)
     else (Inr c, db\<lparr>cd_contests := cd_contests db @ [c]\<rparr>))"

definition admin_contests_POST ::
  "(string \<Rightarrow> int option) \<Rightarrow> session option \<Rightarrow> new_contest option \<Rightarrow> nat \<Rightarrow> int \<Rightarrow> (pages_db, string, contest_info reply) prog" where
  "admin_contests_POST parse_iso session body i now =
    catch
      (staffed session now (\<lambda>se.
         case body of
           None \<Rightarrow> ret (Failed 400 ''Invalid JSON body'')
         | Some b \<Rightarrow>
             (case createContestSchema parse_iso b of
                msg # _ \<Rightarrow> ret (Failed 400 msg)
              | [] \<Rightarrow>
                  bind (call ''db'' (create_contest (new_info parse_iso i b now))) (\<lambda>contest.
                  bind (state_op (\<lambda>db. ((), db\<lparr>cd_list := cache_delete ''contests:all'' (cd_list db),
                    cd_detail := cache_delete ''contests:all'' (cd_detail db)\<rparr>))) (\<lambda>_.
                  ret (Reply 201 contest))))))
      (\<lambda>_. ret (Failed 500 ''Internal server error''))"

definition statusSchema :: "string option \<Rightarrow> string list" where
  "statusSchema s = (case s of None \<Rightarrow> [''Required''] | Some x \<Rightarrow> if statusEnum x then [] else [''Invalid enum value''])"

definition set_status :: "nat \<Rightarrow> string \<Rightarrow> pages_db \<Rightarrow> (string + contest_info) \<times> pages_db" where
  "set_status i st db =
    (case find_by ci_id i (cd_contests db) of
       None \<Rightarrow> (Inl ''Record to update not found.'', db)
     | Some c \<Rightarrow> (Inr (c\<lparr>ci_status := st\<rparr>), db\<lparr>cd_contests := upd_by ci_id i (\<lambda>c. c\<lparr>ci_status := st\<rparr>) (cd_contests db)\<rparr>))"

definition forget_contest :: "string \<Rightarrow> pages_db \<Rightarrow> pages_db" where
  "forget_contest slug db =
    db\<lparr>cd_list := invalidateContestsCache (Some slug) (cd_list db), cd_detail := invalidateContestsCache (Some slug) (cd_detail db)\<rparr>"

definition status_POST :: "session option \<Rightarrow> nat \<Rightarrow> string option option \<Rightarrow> int \<Rightarrow> (pages_db, string, contest_info reply) prog" where
  "status_POST session i body now =
    catch
      (staffed session now (\<lambda>se.
         case body of
           None \<Rightarrow> ret (Failed 400 ''Invalid JSON body'')
         | Some status \<Rightarrow>
             (case statusSchema status of
                msg # _ \<Rightarrow> ret (Failed 400 msg)
              | [] \<Rightarrow>
                  catch
                    (bind (call ''db'' (set_status i (the status))) (\<lambda>contest.
                     bind (state_op (\<lambda>db. ((), forget_contest (ci_slug contest) db))) (\<lambda>_.
                     ret (Reply 200 contest))))
                    (\<lambda>msg. if str_includes ''Record to update not found'' msg then ret (Failed 404 ''Contest not found'') else throw msg))))
      (\<lambda>_. ret (Failed 500 ''Internal server error''))"


subsection \<open>What is cached is what the tables say\<close>

interpretation list_cache: cached_part cd_list "\<lambda>c db. db\<lparr>cd_list := c\<rparr>"
  by unfold_locales simp

interpretation detail_cache: cached_part cd_detail "\<lambda>c db. db\<lparr>cd_detail := c\<rparr>"
  by unfold_locales simp

interpretation pages_limiter: limiter_part cd_limiter "\<lambda>b db. db\<lparr>cd_limiter := b\<rparr>"
  by unfold_locales simp

definition contests_ok :: "pages_db \<Rightarrow> bool" where
  "contests_ok db \<longleftrightarrow> distinct (map ci_id (cd_contests db)) \<and> distinct (map ci_slug (cd_contests db)) \<and> [] \<notin> ci_slug ` set (cd_contests db)"

definition list_entry_ok :: "pages_db \<Rightarrow> string \<Rightarrow> contest_info list entry \<Rightarrow> bool" where
  "list_entry_ok db k e \<longleftrightarrow> k = ''contests:all'' \<and> entry_value e = contest_list db"

text \<open>
  A stored page always has the head of the contest; the problems on it agree with the tables unless
  they may have been stored before \<open>E\<close>, a time after the last change of a problem. A stored
  absence is outlived by a contest by at most the minute that was left to it at the creation.
\<close>

definition header_of :: "contest_page \<Rightarrow> contest_page" where
  "header_of page = page\<lparr>cg_problems := []\<rparr>"

definition detail_entry_ok :: "int \<Rightarrow> int \<Rightarrow> pages_db \<Rightarrow> string \<Rightarrow> contest_page option entry \<Rightarrow> bool" where
  "detail_entry_ok E clock db k e \<longleftrightarrow> (\<exists>slug. k = detail_key slug \<and> expiresAt e \<le> clock + 60000 \<and>
    (case entry_value e of
       Some page \<Rightarrow> map_option header_of (page_for slug db) = Some (header_of page) \<and>
         (E + 60000 < expiresAt e \<longrightarrow> page_for slug db = Some page)
     | None \<Rightarrow> (case info_by_slug slug db of None \<Rightarrow> True | Some c \<Rightarrow> expiresAt e \<le> ci_createdAt c + 60000)))"

definition coherent :: "int \<Rightarrow> int \<Rightarrow> pages_db \<Rightarrow> bool" where
  "coherent E clock db \<longleftrightarrow> contests_ok db \<and> entries_all (list_entry_ok db) (cd_list db) \<and> entries_all (detail_entry_ok E clock db) (cd_detail db)"

lemma detail_key_eq [simp]: "detail_key a = detail_key b \<longleftrightarrow> a = b"
  by (simp add: detail_key_def)

lemma coherent_later: "coherent E clock db \<Longrightarrow> clock \<le> now \<Longrightarrow> coherent E now db"
  unfolding coherent_def by (auto elim!: entries_all_mono simp: detail_entry_ok_def)

lemma page_for_depends: "cd_contests t = cd_contests s \<Longrightarrow> cd_problems t = cd_problems s \<Longrightarrow> cd_catalogue t = cd_catalogue s \<Longrightarrow>
    page_for slug t = page_for slug s \<and> info_by_slug slug t = info_by_slug slug s \<and> contest_list t = contest_list s"
  by (simp add: page_for_def info_by_slug_def paged_problems_def contest_list_def)

lemma tables_under_caches [simp]:
  "page_for slug (s\<lparr>cd_detail := d\<rparr>) = page_for slug s" "contest_list (s\<lparr>cd_list := l\<rparr>) = contest_list s"
  by (simp_all add: page_for_def info_by_slug_def paged_problems_def contest_list_def)

lemma coherent_same_tables:
  assumes "cd_contests t = cd_contests s" "cd_problems t = cd_problems s" "cd_catalogue t = cd_catalogue s"
  shows "coherent E clock t \<longleftrightarrow> contests_ok s \<and> entries_all (list_entry_ok s) (cd_list t) \<and> entries_all (detail_entry_ok E clock s) (cd_detail t)"
proof -
  have "list_entry_ok t = list_entry_ok s" "detail_entry_ok E clock t = detail_entry_ok E clock s"
    by (simp_all add: list_entry_ok_def detail_entry_ok_def fun_eq_iff page_for_depends [OF assms] cong: option.case_cong)
  then show ?thesis using assms(1) by (simp add: coherent_def contests_ok_def)
qed

definition stays_coherent :: "int \<Rightarrow> int \<Rightarrow> pages_db \<Rightarrow> pages_db \<Rightarrow> bool" where
  "stays_coherent E clock s t \<longleftrightarrow> (coherent E clock s \<longrightarrow> coherent E clock t)"

interpretation coherence: evolution "stays_coherent E clock"
  by unfold_locales (auto simp: stays_coherent_def)

text \<open>The two cached reads: the state stays coherent, and an answer agrees with the tables.\<close>

lemma remember_list:
  assumes "remember cd_list (\<lambda>c db. db\<lparr>cd_list := c\<rparr>) ''contests:all'' 60000 now (query ''db'' contest_list) (fs, s) = (r, (gs, t))"
    and "coherent E now s"
  shows "coherent E now t \<and> (r = Inl ''db'' \<or> r = Inr (contest_list s))"
proof -
  let ?c = "snd (cache_get ''contests:all'' now (cd_list s))"
  have ok: "entries_all (list_entry_ok s) (cd_list s)" using assms(2) by (simp add: coherent_def)
  then have get: "entries_all (list_entry_ok s) ?c" by (rule entries_all_get)
  have same: "coherent E now (s\<lparr>cd_list := c\<rparr>)" if "entries_all (list_entry_ok s) c" for c
    using that assms(2) by (subst coherent_same_tables [of _ s]) (simp_all add: coherent_def)
  have set: "entries_all (list_entry_ok s) (cache_set ''contests:all'' (contest_list s) 60000 now ?c)"
    using get by (rule entries_all_set) (simp add: list_entry_ok_def)
  have "(\<exists>v. r = Inr v \<and> fst (cache_get ''contests:all'' now (cd_list s)) = Some v \<and> t = s\<lparr>cd_list := ?c\<rparr>) \<or>
      (r = Inl ''db'' \<and> t = s\<lparr>cd_list := ?c\<rparr>) \<or>
      (r = Inr (contest_list s) \<and> t = s\<lparr>cd_list := cache_set ''contests:all'' (contest_list s) 60000 now ?c\<rparr>)"
    by (rule list_cache.remember_query [OF assms(1)]) simp_all
  then consider v where "r = Inr v" "fst (cache_get ''contests:all'' now (cd_list s)) = Some v" "t = s\<lparr>cd_list := ?c\<rparr>"
    | "r = Inl ''db''" "t = s\<lparr>cd_list := ?c\<rparr>"
    | "r = Inr (contest_list s)" "t = s\<lparr>cd_list := cache_set ''contests:all'' (contest_list s) 60000 now ?c\<rparr>"
    by blast
  then show ?thesis
  proof cases
    case 1
    then have "v = contest_list s" using entries_all_hit [OF ok 1(2)] by (auto simp: list_entry_ok_def)
    then show ?thesis using 1 same [OF get] by simp
  qed (use same get set in simp_all)
qed

lemma remember_detail:
  assumes "remember cd_detail (\<lambda>c db. db\<lparr>cd_detail := c\<rparr>) (detail_key slug) 60000 now (query ''db'' (page_for slug)) (fs, s) = (r, (gs, t))"
    and "coherent E now s"
  shows "coherent E now t \<and> (r = Inl ''db'' \<or>
    (\<exists>page. r = Inr (Some page) \<and> map_option header_of (page_for slug s) = Some (header_of page) \<and>
       (E + 60000 < now \<longrightarrow> page_for slug s = Some page)) \<or>
    (r = Inr None \<and> (\<forall>c. info_by_slug slug s = Some c \<longrightarrow> now \<le> ci_createdAt c + 60000)))"
proof -
  let ?c = "snd (cache_get (detail_key slug) now (cd_detail s))"
  have ok: "entries_all (detail_entry_ok E now s) (cd_detail s)" using assms(2) by (simp add: coherent_def)
  then have get: "entries_all (detail_entry_ok E now s) ?c" by (rule entries_all_get)
  have same: "coherent E now (s\<lparr>cd_detail := c\<rparr>)" if "entries_all (detail_entry_ok E now s) c" for c
    using that assms(2) by (subst coherent_same_tables [of _ s]) (simp_all add: coherent_def)
  have set: "entries_all (detail_entry_ok E now s) (cache_set (detail_key slug) (page_for slug s) 60000 now ?c)"
    using get by (rule entries_all_set) (cases "info_by_slug slug s", simp_all add: detail_entry_ok_def page_for_def)
  have "(\<exists>v. r = Inr v \<and> fst (cache_get (detail_key slug) now (cd_detail s)) = Some v \<and> t = s\<lparr>cd_detail := ?c\<rparr>) \<or>
      (r = Inl ''db'' \<and> t = s\<lparr>cd_detail := ?c\<rparr>) \<or>
      (r = Inr (page_for slug s) \<and> t = s\<lparr>cd_detail := cache_set (detail_key slug) (page_for slug s) 60000 now ?c\<rparr>)"
    by (rule detail_cache.remember_query [OF assms(1)]) simp_all
  then consider v where "r = Inr v" "fst (cache_get (detail_key slug) now (cd_detail s)) = Some v" "t = s\<lparr>cd_detail := ?c\<rparr>"
    | "r = Inl ''db''" "t = s\<lparr>cd_detail := ?c\<rparr>"
    | "r = Inr (page_for slug s)" "t = s\<lparr>cd_detail := cache_set (detail_key slug) (page_for slug s) 60000 now ?c\<rparr>"
    by blast
  then show ?thesis
  proof cases
    case 1
    obtain e where e: "detail_entry_ok E now s (detail_key slug) e" "entry_value e = v" "now \<le> expiresAt e"
      using entries_all_hit [OF ok 1(2)] by blast
    have "(\<exists>page. r = Inr (Some page) \<and> map_option header_of (page_for slug s) = Some (header_of page) \<and>
         (E + 60000 < now \<longrightarrow> page_for slug s = Some page)) \<or>
        (r = Inr None \<and> (\<forall>c. info_by_slug slug s = Some c \<longrightarrow> now \<le> ci_createdAt c + 60000))"
      using e 1(1) by (cases v) (auto simp: detail_entry_ok_def)
    then show ?thesis using 1 same [OF get] by blast
  next
    case 3
    then show ?thesis using same [OF set] by (cases "page_for slug s") (auto simp: page_for_def)
  qed (use same get in simp_all)
qed


text \<open>The two writes, each with the keys it removes.\<close>

lemma coherent_created:
  assumes "coherent E now s" "create_contest c s = (Inr x, t)" "ci_slug c \<noteq> []" "ci_createdAt c = now"
  shows "coherent E now (t\<lparr>cd_list := cache_delete ''contests:all'' (cd_list t), cd_detail := cache_delete ''contests:all'' (cd_detail t)\<rparr>)"
proof -
  have new: "ci_slug c \<notin> ci_slug ` set (cd_contests s)" "ci_id c \<notin> ci_id ` set (cd_contests s)" "t = s\<lparr>cd_contests := cd_contests s @ [c]\<rparr>"
    using assms(2) by (auto simp: create_contest_def split: if_splits)
  have ok: "contests_ok t" using assms(1,3) new by (auto simp: coherent_def contests_ok_def)
  have l: "entries_all (list_entry_ok t) (cache_delete ''contests:all'' (cd_list t))"
    using assms(1) unfolding coherent_def new(3) by (auto elim!: entries_all_delete simp: list_entry_ok_def)
  have info: "info_by_slug slug t = (case info_by_slug slug s of None \<Rightarrow> if slug = ci_slug c then Some c else None | Some r \<Rightarrow> Some r)" for slug
    by (simp add: info_by_slug_def new(3) find_by_append split: option.split)
  have pp: "paged_problems i t = paged_problems i s" for i by (simp add: paged_problems_def new(3))
  have d: "entries_all (detail_entry_ok E now t) (cache_delete ''contests:all'' (cd_detail t))"
  proof (rule entries_all_delete)
    show "entries_all (detail_entry_ok E now s) (cd_detail t)" using assms(1) by (simp add: coherent_def new(3))
  next
    fix j e
    assume "detail_entry_ok E now s j e"
    then obtain slug where e: "j = detail_key slug" "expiresAt e \<le> now + 60000"
      "case entry_value e of Some page \<Rightarrow> map_option header_of (page_for slug s) = Some (header_of page) \<and>
           (E + 60000 < expiresAt e \<longrightarrow> page_for slug s = Some page)
       | None \<Rightarrow> (case info_by_slug slug s of None \<Rightarrow> True | Some c \<Rightarrow> expiresAt e \<le> ci_createdAt c + 60000)"
      by (auto simp: detail_entry_ok_def)
    then show "detail_entry_ok E now t j e"
      using assms(4) by (auto simp: detail_entry_ok_def info page_for_def pp split: option.splits)
  qed
  show ?thesis using ok l d by (subst coherent_same_tables [of _ t]) simp_all
qed

lemma find_slug_upd:
  "(\<And>c. ci_slug (f c) = ci_slug c) \<Longrightarrow> (\<And>c. c \<in> set rows \<Longrightarrow> ci_id c = i \<Longrightarrow> ci_slug c \<noteq> slug) \<Longrightarrow>
    find_by ci_slug slug (upd_by ci_id i f rows) = find_by ci_slug slug rows"
  by (induction rows) (auto simp: upd_by_def)

lemma coherent_status:
  assumes "coherent E now s" "set_status i st s = (Inr x, t)"
  shows "coherent E now (forget_contest (ci_slug x) t)"
proof -
  let ?f = "\<lambda>c. c\<lparr>ci_status := st\<rparr>"
  obtain r where r: "find_by ci_id i (cd_contests s) = Some r" "x = ?f r" "t = s\<lparr>cd_contests := upd_by ci_id i ?f (cd_contests s)\<rparr>"
    using assms(2) by (auto simp: set_status_def split: option.splits)
  have in_s: "r \<in> set (cd_contests s)" "ci_id r = i" using find_by_in [OF r(1)] find_by_key [OF r(1)] by simp_all
  have ok: "contests_ok s" using assms(1) by (simp add: coherent_def)
  then have slug: "ci_slug x \<noteq> []" using in_s by (force simp: r(2) contests_ok_def)
  have only: "c = r" if "c \<in> set (cd_contests s)" "ci_id c = i" for c
    using ok that in_s by (auto simp: contests_ok_def distinct_map inj_on_def)
  have keys: "map ci_id (cd_contests t) = map ci_id (cd_contests s)" by (simp add: r(3) keys_upd)
  have slugs: "map ci_slug (cd_contests t) = map ci_slug (cd_contests s)" by (simp add: r(3) upd_by_def)
  have ok': "contests_ok t" using ok unfolding contests_ok_def keys slugs by (metis list.set_map slugs)
  have info: "info_by_slug sl t = info_by_slug sl s" if "sl \<noteq> ci_slug x" for sl
  proof -
    have "find_by ci_slug sl (upd_by ci_id i ?f (cd_contests s)) = find_by ci_slug sl (cd_contests s)"
      by (rule find_slug_upd) (use only that in \<open>auto simp: r(2)\<close>)
    then show ?thesis by (simp add: info_by_slug_def r(3))
  qed
  have pp: "paged_problems j t = paged_problems j s" for j by (simp add: paged_problems_def r(3))
  have l: "entries_all (list_entry_ok t) (invalidateContestsCache (Some (ci_slug x)) (cd_list t))"
  proof -
    have "entries_all (list_entry_ok t) (cache_delete ''contests:all'' (cd_list t))"
      using assms(1) unfolding coherent_def r(3) by (auto elim!: entries_all_delete simp: list_entry_ok_def)
    then show ?thesis using slug by (auto simp: invalidateContestsCache_def elim!: entries_all_delete)
  qed
  have d: "entries_all (detail_entry_ok E now t) (invalidateContestsCache (Some (ci_slug x)) (cd_detail t))"
  proof -
    have "entries_all (detail_entry_ok E now s) (cache_delete ''contests:all'' (cd_detail t))"
      using assms(1) by (auto simp: coherent_def r(3) elim!: entries_all_delete)
    then have "entries_all (detail_entry_ok E now t) (cache_delete (detail_key (ci_slug x)) (cache_delete ''contests:all'' (cd_detail t)))"
    proof (rule entries_all_delete)
      fix j e
      assume "detail_entry_ok E now s j e" "j \<noteq> detail_key (ci_slug x)"
      then obtain sl where "j = detail_key sl" "sl \<noteq> ci_slug x" "expiresAt e \<le> now + 60000"
        "case entry_value e of Some page \<Rightarrow> map_option header_of (page_for sl s) = Some (header_of page) \<and>
             (E + 60000 < expiresAt e \<longrightarrow> page_for sl s = Some page)
         | None \<Rightarrow> (case info_by_slug sl s of None \<Rightarrow> True | Some c \<Rightarrow> expiresAt e \<le> ci_createdAt c + 60000)"
        by (auto simp: detail_entry_ok_def)
      then show "detail_entry_ok E now t j e" by (simp add: detail_entry_ok_def page_for_def info pp cong: option.case_cong)
    qed
    then show ?thesis using slug by (simp add: invalidateContestsCache_def detail_key_def)
  qed
  show ?thesis using ok' l d by (subst coherent_same_tables [of _ t]) (simp_all add: forget_contest_def)
qed


subsection \<open>A server of these routes\<close>

datatype pages_request =
  AskList
| AskContest string
| AskActive
| AskUpcoming "string option"
| AskAll "session option"
| NewContest "session option" "new_contest option" nat
| NewStatus "session option" nat "string option option"
| AddProblem "session option" "new_problem option" nat "nat \<Rightarrow> nat"
| EditProblem "session option" nat "new_problem option"
| DropProblem "session option" nat

text \<open>The problem routes of the admins work on the catalogue; the problem goes from the contests with its row.\<close>

definition on_catalogue :: "(cat_db \<Rightarrow> cat_db) \<Rightarrow> pages_db \<Rightarrow> pages_db" where
  "on_catalogue f db =
    (let cat = f (cd_catalogue db)
     in db\<lparr>cd_catalogue := cat, cd_problems := filter (\<lambda>cp. cp_problem cp \<in> pm_id ` set (ct_problems cat)) (cd_problems db)\<rparr>)"

fun edits :: "pages_request \<Rightarrow> bool" where
  "edits (AddProblem se b i tid) = True"
| "edits (EditProblem se i b) = True"
| "edits (DropProblem se i) = True"
| "edits _ = False"

text \<open>A request, its time, and the fates of its calls.\<close>

fun pages_serve :: "(string \<Rightarrow> int option) \<Rightarrow> pages_request \<times> int \<times> bool list \<Rightarrow> pages_db \<Rightarrow> pages_db" where
  "pages_serve parse_iso (AskList, now, fs) db = after (contests_GET now) fs db"
| "pages_serve parse_iso (AskContest slug, now, fs) db = after (contest_GET slug now) fs db"
| "pages_serve parse_iso (AskActive, now, fs) db = after active_GET fs db"
| "pages_serve parse_iso (AskUpcoming l, now, fs) db = after (upcoming_GET l) fs db"
| "pages_serve parse_iso (AskAll se, now, fs) db = after (admin_contests_GET se now) fs db"
| "pages_serve parse_iso (NewContest se b i, now, fs) db = after (admin_contests_POST parse_iso se b i now) fs db"
| "pages_serve parse_iso (NewStatus se i st, now, fs) db = after (status_POST se i st now) fs db"
| "pages_serve parse_iso (AddProblem se b i tid, now, fs) db = on_catalogue (after (admin_problems_POST se b i tid now) fs) db"
| "pages_serve parse_iso (EditProblem se i b, now, fs) db = on_catalogue (after (admin_problem_PUT se i b now) fs) db"
| "pages_serve parse_iso (DropProblem se i, now, fs) db = on_catalogue (after (admin_problem_DELETE se i now) fs) db"

lemma coherent_edit:
  assumes "coherent E now s" "now \<le> E"
  shows "coherent E now (on_catalogue f s)"
proof -
  have h: "map_option header_of (page_for slug (on_catalogue f s)) = map_option header_of (page_for slug s)"
    "info_by_slug slug (on_catalogue f s) = info_by_slug slug s" for slug
    by (simp_all add: page_for_def info_by_slug_def on_catalogue_def Let_def header_of_def option.map_comp o_def)
  have "detail_entry_ok E now s k e \<Longrightarrow> detail_entry_ok E now (on_catalogue f s) k e" for k e
    using assms(2) by (auto simp: detail_entry_ok_def h split: option.splits)
  then have "entries_all (detail_entry_ok E now (on_catalogue f s)) (cd_detail s)"
    using assms(1) unfolding coherent_def by (auto elim: entries_all_mono)
  moreover have "cd_contests (on_catalogue f s) = cd_contests s" "cd_list (on_catalogue f s) = cd_list s" "cd_detail (on_catalogue f s) = cd_detail s"
    by (simp_all add: on_catalogue_def Let_def)
  ultimately show ?thesis
    using assms(1) by (simp add: coherent_def contests_ok_def list_entry_ok_def [abs_def] contest_list_def)
qed

lemma moves_staffed: "(\<And>se. moves (stays_coherent E now) (k se)) \<Longrightarrow> moves (stays_coherent E now) (staffed session now k)"
proof -
  have "stays_coherent E now s (s\<lparr>cd_limiter := b\<rparr>)" for s b
    unfolding stays_coherent_def by (subst coherent_same_tables [of _ s]) (simp_all add: coherent_def)
  then show "(\<And>se. moves (stays_coherent E now) (k se)) \<Longrightarrow> ?thesis"
    unfolding staffed_def by (intro pages_limiter.guarded_moves coherence.evolution_axioms) auto
qed

lemma moves_reads: "moves (=) m \<Longrightarrow> moves (stays_coherent E now) m"
  by (simp add: moves_def stays_coherent_def)

lemma moves_new_contest: "createContestSchema parse_iso b = [] \<Longrightarrow> moves (stays_coherent E now)
    (bind (call e (create_contest (new_info parse_iso i b now))) (\<lambda>contest.
     bind (state_op (\<lambda>db. ((), db\<lparr>cd_list := cache_delete ''contests:all'' (cd_list db), cd_detail := cache_delete ''contests:all'' (cd_detail db)\<rparr>))) (\<lambda>_.
     ret (r contest))))"
proof (rule coherence.movesI)
  fix fs s q gs t
  assume ok: "createContestSchema parse_iso b = []"
    and run: "bind (call e (create_contest (new_info parse_iso i b now))) (\<lambda>contest.
     bind (state_op (\<lambda>db. ((), db\<lparr>cd_list := cache_delete ''contests:all'' (cd_list db), cd_detail := cache_delete ''contests:all'' (cd_detail db)\<rparr>))) (\<lambda>_.
     ret (r contest))) (fs, s) = (q, (gs, t))"
  have slug: "ci_slug (new_info parse_iso i b now) \<noteq> []" "ci_createdAt (new_info parse_iso i b now) = now"
    using ok by (auto simp: createContestSchema_def Let_def new_info_def titleSchema_def split: option.splits if_splits)
  have same: "snd (create_contest (new_info parse_iso i b now) s) = s" if "fst (create_contest (new_info parse_iso i b now) s) = Inl m" for m
    using that by (auto simp: create_contest_def split: if_splits)
  show "stays_coherent E now s t"
    using run coherent_created [OF _ _ slug, of E s] same
    by (cases "create_contest (new_info parse_iso i b now) s"; cases "fst (create_contest (new_info parse_iso i b now) s)")
      (auto simp: bind_def call_hd stays_coherent_def split: if_splits)
qed

lemma moves_status: "moves (stays_coherent E now)
    (bind (call e (set_status i st)) (\<lambda>contest. bind (state_op (\<lambda>db. ((), forget_contest (ci_slug contest) db))) (\<lambda>_. ret (r contest))))"
proof (rule coherence.movesI)
  fix fs s q gs t
  assume run: "bind (call e (set_status i st)) (\<lambda>contest. bind (state_op (\<lambda>db. ((), forget_contest (ci_slug contest) db))) (\<lambda>_. ret (r contest)))
    (fs, s) = (q, (gs, t))"
  have same: "snd (set_status i st s) = s" if "fst (set_status i st s) = Inl m" for m
    using that by (simp add: set_status_def split: option.splits)
  show "stays_coherent E now s t"
    using run coherent_status [of E now s i st] same
    by (cases "set_status i st s"; cases "fst (set_status i st s)") (auto simp: bind_def call_hd stays_coherent_def split: if_splits)
qed

lemma moves_cached:
  "moves (stays_coherent E now) (remember cd_list (\<lambda>c db. db\<lparr>cd_list := c\<rparr>) ''contests:all'' 60000 now (query ''db'' contest_list))"
  "moves (stays_coherent E now) (remember cd_detail (\<lambda>c db. db\<lparr>cd_detail := c\<rparr>) (detail_key slug) 60000 now (query ''db'' (page_for slug)))"
  by (auto intro!: coherence.movesI simp: stays_coherent_def dest: remember_list remember_detail)

lemma serve_coherent: "coherent E now db \<Longrightarrow> (edits req \<longrightarrow> now \<le> E) \<Longrightarrow> coherent E now (pages_serve parse_iso (req, now, fs) db)"
proof -
  have "moves (stays_coherent E now) (admin_contests_POST parse_iso se b i now)" for se b i
    unfolding admin_contests_POST_def
    by (intro coherence.moves_catch moves_staffed coherence.moves_option coherence.moves_ret)
      (split list.split, intro conjI impI allI coherence.moves_ret moves_new_contest)
  moreover have "moves (stays_coherent E now) (status_POST se i st now)" for se i st
    unfolding status_POST_def
    by (intro coherence.moves_catch moves_staffed coherence.moves_option coherence.moves_list moves_status coherence.moves_ret coherence.moves_if
      coherence.moves_throw)
  moreover have "moves (stays_coherent E now) (admin_contests_GET se now)" for se
    unfolding admin_contests_GET_def by (intro coherence.moves_catch moves_staffed coherence.moves_bind coherence.moves_query coherence.moves_ret)
  moreover have "moves (stays_coherent E now) (contests_GET now)"
    unfolding contests_GET_def by (intro coherence.moves_catch coherence.moves_bind moves_cached coherence.moves_ret)
  moreover have "moves (stays_coherent E now) (contest_GET slug now)" for slug
    unfolding contest_GET_def by (intro coherence.moves_catch coherence.moves_bind moves_cached coherence.moves_ret coherence.moves_option)
  moreover have "moves (stays_coherent E now) active_GET" "moves (stays_coherent E now) (upcoming_GET l)" for l
    unfolding active_GET_def upcoming_GET_def Let_def
    by (intro coherence.moves_catch coherence.moves_bind coherence.moves_query coherence.moves_ret)+
  ultimately show "coherent E now db \<Longrightarrow> (edits req \<longrightarrow> now \<le> E) \<Longrightarrow> ?thesis"
    by (cases req) (simp_all add: moves_def stays_coherent_def coherent_edit)
qed

text \<open>Requests come in the order of time.\<close>

lemma fold_coherent:
  "coherent E clock db \<Longrightarrow> sorted (clock # map (fst \<circ> snd) reqs) \<Longrightarrow>
    \<forall>r \<in> set reqs. fst (snd r) \<le> now \<and> (edits (fst r) \<longrightarrow> fst (snd r) \<le> E) \<Longrightarrow> clock \<le> now \<Longrightarrow>
    coherent E now (fold (pages_serve parse_iso) reqs db)"
proof (induction reqs arbitrary: clock db)
  case (Cons r reqs)
  obtain q t fs where r: "r = (q, t, fs)" by (cases r)
  have "coherent E t (pages_serve parse_iso r db)"
    using serve_coherent [OF coherent_later [OF Cons.prems(1)], of t q parse_iso fs] Cons.prems(2,3) by (simp add: r)
  then show ?case using Cons.IH [of t "pages_serve parse_iso r db"] Cons.prems by (simp add: r)
qed (simp add: coherent_later)


subsection \<open>What visitors see\<close>

text \<open>
  C23. The contest pages show what the tables say. Start with distinct ids and slugs and cold caches, and
  let any requests arrive in the order of time, with any of their calls failing: the public routes that
  list and show contests, the ones by which admins list contests, create them and set their status,
  and the ones by which admins add, change and delete problems. Then, whatever fails of the next request: a list
  that is served is the list the table gives now; a page that is served has the contest's present
  title, times and status, and it is the page the tables give now unless a problem was added,
  changed or deleted in the last minute; and a contest is said not to exist only when it does not,
  or was created at most a minute before.
\<close>

theorem contest_pages_are_current:
  fixes db :: pages_db and parse_iso :: "string \<Rightarrow> int option"
  assumes "contests_ok db" "cd_list db = new_cache m" "cd_detail db = new_cache n"
    and "sorted (map (fst \<circ> snd) reqs)" "\<forall>r \<in> set reqs. fst (snd r) \<le> now"
  defines "t \<equiv> fold (pages_serve parse_iso) reqs db"
  shows "(\<forall>contests. result (contests_GET now) fs t = Inr (Reply 200 contests) \<longrightarrow>
      contests = take 100 (sort_by latest_start (cd_contests t))) \<and>
    (\<forall>page. result (contest_GET slug now) fs t = Inr (Reply 200 page) \<longrightarrow>
      map_option header_of (page_for slug t) = Some (header_of page) \<and>
      ((\<forall>r \<in> set reqs. edits (fst r) \<longrightarrow> fst (snd r) + 60000 < now) \<longrightarrow> page_for slug t = Some page)) \<and>
    (\<forall>msg. result (contest_GET slug now) fs t = Inr (Failed 404 msg) \<longrightarrow>
      (\<forall>c \<in> set (cd_contests t). ci_slug c = slug \<longrightarrow> now \<le> ci_createdAt c + 60000))"
proof -
  have ok: "coherent E now t" if "\<forall>r \<in> set reqs. edits (fst r) \<longrightarrow> fst (snd r) \<le> E" for E
  proof (cases reqs)
    case Nil
    then show ?thesis using assms(1-3) by (simp add: t_def coherent_def)
  next
    case (Cons r rs)
    have "coherent E (fst (snd r)) db" using assms(1-3) by (simp add: coherent_def)
    then show ?thesis unfolding t_def by (rule fold_coherent) (use assms(4,5) Cons that in auto)
  qed
  have any: "coherent now now t" using assms(5) by (intro ok) blast
  obtain r gs u where l: "remember cd_list (\<lambda>c db. db\<lparr>cd_list := c\<rparr>) ''contests:all'' 60000 now (query ''db'' contest_list) (fs, t) = (r, (gs, u))"
    by (metis prod.exhaust)
  obtain q hs v where d: "remember cd_detail (\<lambda>c db. db\<lparr>cd_detail := c\<rparr>) (detail_key slug) 60000 now (query ''db'' (page_for slug)) (fs, t) = (q, (hs, v))"
    by (metis prod.exhaust)
  have info: "info_by_slug slug t = Some c" if "c \<in> set (cd_contests t)" "ci_slug c = slug" for c
    using any that find_by_unique [of ci_slug "cd_contests t" c] by (simp add: coherent_def contests_ok_def info_by_slug_def)
  have new: "now \<le> ci_createdAt c + 60000" if "c \<in> set (cd_contests t)" "ci_slug c = slug" "q = Inr None" for c
    using remember_detail [OF d any] info [OF that(1,2)] that(3) by auto
  have page: "map_option header_of (page_for slug t) = Some (header_of page)" if "q = Inr (Some page)" for page
    using remember_detail [OF d any] that by auto
  have fresh: "page_for slug t = Some page"
    if "q = Inr (Some page)" "\<forall>r \<in> set reqs. edits (fst r) \<longrightarrow> fst (snd r) + 60000 < now" for page
  proof -
    have "coherent (now - 60001) now t" using that(2) by (intro ok) force
    from remember_detail [OF d this] show ?thesis using that(1) by auto
  qed
  have list: "\<forall>contests. result (contests_GET now) fs t = Inr (Reply 200 contests) \<longrightarrow>
      contests = take 100 (sort_by latest_start (cd_contests t))"
    using remember_list [OF l any] by (auto simp: result_def contests_GET_def catch_def bind_def l contest_list_def split: sum.splits)
  have got: "q = Inr (Some page)" if "result (contest_GET slug now) fs t = Inr (Reply 200 page)" for page
    using that by (auto simp: result_def contest_GET_def catch_def bind_def d split: sum.splits option.splits)
  have none: "q = Inr None" if "result (contest_GET slug now) fs t = Inr (Failed 404 msg)" for msg
    using that by (auto simp: result_def contest_GET_def catch_def bind_def d split: sum.splits option.splits)
  show ?thesis using list page fresh new got none by blast
qed

definition sample_pages :: pages_db where
  "sample_pages = \<lparr>cd_contests = [\<lparr>ci_id = 1, ci_title = ''Round 1'', ci_slug = ''round-1'', ci_description = None, ci_startTime = 0,
      ci_endTime = 9, ci_status = ''upcoming'', ci_createdAt = 0\<rparr>], cd_problems = [], cd_entries = [], cd_catalogue = empty_catalogue, cd_limiter = [],
     cd_list = new_cache (Fin 9), cd_detail = new_cache (Fin 9)\<rparr>"

lemma sample_pages_ok: "contests_ok sample_pages"
  by (simp add: contests_ok_def sample_pages_def)

lemma contest_pages_are_current_witness:
  "let t = fold (pages_serve (\<lambda>_. None)) [(DropProblem (Some \<lparr>se_userId = 1, se_role = ''admin''\<rparr>) 4, 2, []), (AskContest ''round-1'', 5, []),
       (NewStatus (Some \<lparr>se_userId = 1, se_role = ''admin''\<rparr>) 1 (Some (Some ''active'')) , 6, [])] sample_pages
   in \<forall>page. result (contest_GET ''round-1'' 60007) [] t = Inr (Reply 200 page) \<longrightarrow> page_for ''round-1'' t = Some page"
proof -
  have "cd_list sample_pages = new_cache (Fin 9)" "cd_detail sample_pages = new_cache (Fin 9)" by (simp_all add: sample_pages_def)
  from contest_pages_are_current [OF sample_pages_ok this, where reqs = "[(DropProblem (Some \<lparr>se_userId = 1, se_role = ''admin''\<rparr>) 4, 2, []),
    (AskContest ''round-1'', 5, []), (NewStatus (Some \<lparr>se_userId = 1, se_role = ''admin''\<rparr>) 1 (Some (Some ''active'')) , 6, [])]"
    and now = 60007 and parse_iso = "\<lambda>_. None" and fs = "[]" and slug = "''round-1''"]
  show ?thesis by (simp add: Let_def)
qed

text \<open>
  A changed problem stays as it was on a page that is cached: no route of the admins forgets the pages of the
  contests a problem belongs to.
\<close>

lemma changed_problem_is_stale_on_contest_page:
  assumes "fst (cache_get (detail_key slug) now (cd_detail db)) = Some (Some page)"
  shows "result (contest_GET slug now) fs (on_catalogue f db) = Inr (Reply 200 page)"
proof -
  have "cd_detail (on_catalogue f db) = cd_detail db" by (simp add: on_catalogue_def Let_def)
  then show ?thesis
    using assms by (simp add: result_def contest_GET_def catch_def bind_def detail_cache.remember_hit [where v = "Some page"])
qed

text \<open>
  A change of status shows at once. Whatever is cached, after an admin has set the status of a
  contest with no call failing, its page, every row of the list about it, and the pages of the active
  and of the upcoming contests show the new status.
\<close>

theorem status_change_shows_at_once:
  fixes db :: pages_db and se :: session and st slug :: string and i :: nat and now :: int
  assumes "contests_ok db" "c \<in> set (cd_contests db)" "ci_id c = i" "ci_slug c = slug" "se_role se = ''admin''" "statusEnum st"
    and "allowed (fst (memoryCheck (''admin:'' @ show_nat (se_userId se)) 60 60000 now (cd_limiter db)))"
  defines "t \<equiv> after (status_POST (Some se) i (Some (Some st)) now) [] db"
  shows "result (status_POST (Some se) i (Some (Some st)) now) [] db = Inr (Reply 200 (c\<lparr>ci_status := st\<rparr>)) \<and>
    (\<exists>page. result (contest_GET slug now) [] t = Inr (Reply 200 page) \<and> cg_id page = i \<and> cg_status page = st) \<and>
    (\<exists>contests. result (contests_GET now) [] t = Inr (Reply 200 contests) \<and> (\<forall>x \<in> set contests. ci_id x = i \<longrightarrow> ci_status x = st)) \<and>
    (\<exists>active. result active_GET [] t = Inr (Reply 200 active) \<and> (i \<in> set (map (ci_id \<circ> fst) active) \<longleftrightarrow> st = ''active'')) \<and>
    (\<forall>l. \<exists>upcoming. result (upcoming_GET l) [] t = Inr (Reply 200 upcoming) \<and> (i \<in> set (map (ci_id \<circ> fst) upcoming) \<longrightarrow> st = ''upcoming''))"
proof -
  let ?f = "\<lambda>c. c\<lparr>ci_status := st\<rparr>"
  define b where "b = snd (memoryCheck (''admin:'' @ show_nat (se_userId se)) 60 60000 now (cd_limiter db))"
  have pass: "staffed (Some se) now k ([], db) = k se ([], db\<lparr>cd_limiter := b\<rparr>)" for k :: "session \<Rightarrow> (pages_db, string, 'x reply) prog"
    unfolding staffed_def b_def by (rule pages_limiter.guarded_admits [where s = db, OF assms(5,7)])
  let ?rows = "upd_by ci_id i ?f (cd_contests db)"
  let ?t = "forget_contest slug (db\<lparr>cd_limiter := b, cd_contests := ?rows\<rparr>)"
  have row: "find_by ci_id i (cd_contests db) = Some c" using assms(1-3) find_by_unique by (fastforce simp: contests_ok_def)
  have run: "status_POST (Some se) i (Some (Some st)) now ([], db) = (Inr (Reply 200 (?f c)), ([], ?t))"
    using assms(4,6) by (simp add: status_POST_def catch_def pass statusSchema_def bind_def set_status_def row)
  have t: "t = ?t" by (simp add: t_def after_def run)
  have slug: "slug \<noteq> []" using assms(1,2,4) unfolding contests_ok_def by (metis image_eqI)
  have gone: "fst (cache_get (detail_key slug) now (cd_detail ?t)) = None" "fst (cache_get ''contests:all'' now (cd_list ?t)) = None"
    using slug by (simp_all add: forget_contest_def invalidateContestsCache_def cache_get_def cache_delete_def jm_get_delete detail_key_def)
  have keys: "map ci_id ?rows = map ci_id (cd_contests db)" by (simp add: keys_upd)
  have slugs: "map ci_slug ?rows = map ci_slug (cd_contests db)" by (simp add: upd_by_def)
  have d: "distinct (map ci_slug ?rows)" using assms(1) unfolding slugs by (simp add: contests_ok_def)
  have mem: "?f c \<in> set ?rows" using assms(2,3) by (auto simp: upd_by_def)
  then have "find_by ci_slug slug ?rows = Some (?f c)" using find_by_unique [OF d mem] assms(4) by simp
  then have info: "info_by_slug slug ?t = Some (?f c)" by (simp add: info_by_slug_def forget_contest_def)
  have st: "ci_status x = st" if h: "x \<in> set ?rows" "ci_id x = i" for x
  proof -
    obtain y where y: "x = (if ci_id y = i then ?f y else y)" using h(1) unfolding upd_by_def set_map image_iff by blast
    then show ?thesis using h(2) by (cases "ci_id y = i") simp_all
  qed
  have rows: "cd_contests ?t = ?rows" by (simp add: forget_contest_def)
  obtain page where page: "page_for slug ?t = Some page" "cg_id page = i" "cg_status page = st"
    using info assms(3) by (simp add: page_for_def)
  have 1: "result (contest_GET slug now) [] ?t = Inr (Reply 200 page)"
    using page(1) by (simp add: result_def contest_GET_def catch_def bind_def detail_cache.remember_miss [OF gone(1)])
  have 2: "result (contests_GET now) [] ?t = Inr (Reply 200 (contest_list ?t))"
    by (simp add: result_def contests_GET_def catch_def bind_def list_cache.remember_miss [OF gone(2)])
  have 3: "ci_status x = st" if "x \<in> set (contest_list ?t)" "ci_id x = i" for x
    using that st by (auto simp: contest_list_def rows dest: in_set_takeD)
  let ?active = "map (\<lambda>c. (c, entries_count c ?t, problems_count c ?t)) (sort_by next_start (filter (\<lambda>c. ci_status c = ''active'') ?rows))"
  have 4: "result active_GET [] ?t = Inr (Reply 200 ?active)" by (simp add: result_def active_GET_def catch_def bind_def rows)
  have 5: "i \<in> set (map (ci_id \<circ> fst) ?active) \<longleftrightarrow> st = ''active''"
    using mem assms(3) st by (auto simp: image_iff)
  let ?up = "\<lambda>l. map (\<lambda>c. (c, problems_count c ?t)) (take (nat (limit_param 50 20 l)) (sort_by next_start (filter (\<lambda>c. ci_status c = ''upcoming'') ?rows)))"
  have 6: "result (upcoming_GET l) [] ?t = Inr (Reply 200 (?up l))" for l
    by (simp add: result_def upcoming_GET_def Let_def catch_def bind_def rows)
  have 7: "st = ''upcoming''" if "i \<in> set (map (ci_id \<circ> fst) (?up l))" for l
    using that st by (auto dest!: in_set_takeD)
  have 0: "result (status_POST (Some se) i (Some (Some st)) now) [] db = Inr (Reply 200 (?f c))" by (simp add: result_def run)
  show ?thesis
    unfolding t
    by (intro conjI allI exI [of _ page] exI [of _ "contest_list ?t"] exI [of _ ?active] exI [of _ "?up l" for l])
      (use page 0 1 2 3 4 5 6 7 in blast)+
qed

lemma status_change_shows_at_once_witness:
  "\<exists>page. result (contest_GET ''round-1'' 7) [] (after (status_POST (Some \<lparr>se_userId = 1, se_role = ''admin''\<rparr>) 1 (Some (Some ''active'')) 7) []
      (after (contest_GET ''round-1'' 5) [] sample_pages)) = Inr (Reply 200 page) \<and> cg_status page = ''active''"
proof -
  let ?db = "after (contest_GET ''round-1'' 5) [] sample_pages" and ?se = "\<lparr>se_userId = 1, se_role = ''admin''\<rparr>"
  have c: "cd_contests ?db = cd_contests sample_pages" by code_simp
  then have "contests_ok ?db" using sample_pages_ok by (simp add: contests_ok_def)
  moreover have "hd (cd_contests ?db) \<in> set (cd_contests ?db)" "ci_id (hd (cd_contests ?db)) = 1" "ci_slug (hd (cd_contests ?db)) = ''round-1''"
    unfolding c by (simp_all add: sample_pages_def)
  moreover have "se_role ?se = ''admin''" "statusEnum ''active''" by (simp_all add: statusEnum_def)
  moreover have "allowed (fst (memoryCheck (''admin:'' @ show_nat (se_userId ?se)) 60 60000 7 (cd_limiter ?db)))" by code_simp
  ultimately show ?thesis using status_change_shows_at_once [of ?db "hd (cd_contests ?db)" 1 "''round-1''" ?se "''active''" 7] by blast
qed

end
