(* ===== verification/SubmissionStream.thy ===== *)
theory SubmissionStream
  imports Judge Problems
begin

section \<open>The event stream of a submission\<close>

text \<open>
  \<^verbatim>\<open>src/app/api/submissions/[id]/stream/route.ts\<close>: the checks in front of the stream, the frames it
  opens with, its two timers, and the poll of the row, whose query may still be on its way when the next
  tick or a disconnect comes. A step is one callback that runs to its next await.
\<close>

subsection \<open>Frames and the state of a stream\<close>

definition MAX_DURATION_MS :: int where "MAX_DURATION_MS = 60000"

text \<open>The first status frame has neither runtime nor error.\<close>

datatype frame = Status string "(int option \<times> string option) option" | Progress nat nat | Ping | Done

record stream =
  sm_open :: bool
  sm_heartbeat :: bool
  sm_poll :: bool
  sm_queries :: nat
  sm_status :: string
  sm_progress :: nat
  sm_frames :: "frame list"

definition stopTimers :: "stream \<Rightarrow> stream" where
  "stopTimers s = s\<lparr>sm_heartbeat := False, sm_poll := False\<rparr>"

text \<open>Writing to a closed stream throws, and the catch stops the timers.\<close>

definition send_frame :: "frame \<Rightarrow> stream \<Rightarrow> stream" where
  "send_frame f s = (if sm_open s then s\<lparr>sm_frames := sm_frames s @ [f]\<rparr> else stopTimers s)"

definition close_stream :: "stream \<Rightarrow> stream" where
  "close_stream s = s\<lparr>sm_open := False\<rparr>"

definition opened :: "string \<Rightarrow> nat \<Rightarrow> stream" where
  "opened status totalTests =
    (let s = send_frame (Progress 0 totalTests) (send_frame (Status status None)
       \<lparr>sm_open = True, sm_heartbeat = False, sm_poll = False, sm_queries = 0, sm_status = status, sm_progress = 0, sm_frames = []\<rparr>)
     in s\<lparr>sm_heartbeat := True, sm_poll := True\<rparr>)"

text \<open>What the poll does when its query answers: with the row, or with nothing.\<close>

definition poll_answered :: "nat \<Rightarrow> int \<Rightarrow> int \<Rightarrow> submission option \<Rightarrow> stream \<Rightarrow> stream" where
  "poll_answered totalTests startedAt now fresh s =
    (case fresh of
       None \<Rightarrow> s
     | Some r \<Rightarrow>
         (let s1 = (if sb_status r \<noteq> sm_status s
                    then send_frame (Status (sb_status r) (Some (sb_runtime r, sb_error r))) (s\<lparr>sm_status := sb_status r\<rparr>)
                    else s);
              s2 = (if sb_status r \<noteq> ''pending'' \<and> sm_progress s1 < totalTests
                    then send_frame (Progress totalTests totalTests) (s1\<lparr>sm_progress := totalTests\<rparr>)
                    else s1)
          in if sb_status r \<noteq> ''pending'' \<or> now - startedAt > MAX_DURATION_MS
             then close_stream (send_frame Done (stopTimers s2))
             else s2))"

definition disconnected :: "stream \<Rightarrow> stream" where
  "disconnected s = close_stream (stopTimers s)"

subsection \<open>The handler\<close>

definition test_count :: "nat \<Rightarrow> judge_db \<Rightarrow> nat" where
  "test_count p db = length (ordered_tests db p)"

text \<open>There is no catch: a rejected call is a rejected handler.\<close>

definition stream_GET :: "session option \<Rightarrow> nat \<Rightarrow> (judge_db, string, (nat \<times> stream) reply) prog" where
  "stream_GET session i =
    (case session of
       None \<Rightarrow> ret (Failed 401 ''Unauthorized'')
     | Some se \<Rightarrow>
         bind (query ''db'' (\<lambda>db. sub_find i (submissions db))) (\<lambda>found.
         case found of
           None \<Rightarrow> ret (Failed 404 ''Submission not found'')
         | Some r \<Rightarrow>
             if sb_user r \<noteq> se_userId se \<and> se_role se \<noteq> ''admin'' then ret (Failed 403 ''Forbidden'')
             else bind (query ''db'' (test_count (sb_problem r))) (\<lambda>totalTests.
                  ret (Reply 200 (totalTests, opened (sb_status r) totalTests)))))"

subsection \<open>Steps\<close>

inductive stream_step :: "nat \<Rightarrow> int \<Rightarrow> stream \<Rightarrow> stream \<Rightarrow> bool" for totalTests startedAt where
  tick: "sm_poll s \<Longrightarrow> stream_step totalTests startedAt s (s\<lparr>sm_queries := sm_queries s + 1\<rparr>)"
| answer: "0 < sm_queries s \<Longrightarrow>
    stream_step totalTests startedAt s (poll_answered totalTests startedAt now fresh (s\<lparr>sm_queries := sm_queries s - 1\<rparr>))"
| reject: "0 < sm_queries s \<Longrightarrow> stream_step totalTests startedAt s (s\<lparr>sm_queries := sm_queries s - 1\<rparr>)"
| beat: "sm_heartbeat s \<Longrightarrow> stream_step totalTests startedAt s (send_frame Ping s)"
| abort: "stream_step totalTests startedAt s (disconnected s)"
| cancel: "sm_open s \<Longrightarrow> stream_step totalTests startedAt s (disconnected s)"

inductive stream_reach :: "nat \<Rightarrow> int \<Rightarrow> stream \<Rightarrow> stream \<Rightarrow> bool" for totalTests startedAt s where
  opened_stream: "stream_reach totalTests startedAt s s"
| more_stream: "stream_reach totalTests startedAt s t \<Longrightarrow> stream_step totalTests startedAt t u \<Longrightarrow> stream_reach totalTests startedAt s u"

subsection \<open>The public feed (submissions/recent/route.ts)\<close>

text \<open>Rows are seen with their creation time and the names the reply shows; the code is not among the fields.\<close>

record feed_line =
  fl_id :: nat
  fl_language :: string
  fl_status :: string
  fl_runtime :: "int option"
  fl_createdAt :: int
  fl_problem :: problem_line
  fl_user :: "nat \<times> string \<times> string option"

definition newest_feed :: "feed_line \<Rightarrow> feed_line \<Rightarrow> bool" where
  "newest_feed a b \<longleftrightarrow> fl_createdAt a \<ge> fl_createdAt b"

definition recent_GET :: "string option \<Rightarrow> (feed_line list, string, feed_line list reply) prog" where
  "recent_GET rawLimit =
    catch
      (let limit = limit_param 100 20 rawLimit
       in bind (query ''db'' (\<lambda>rows. take (nat limit) (sort_by newest_feed (filter (\<lambda>r. fl_status r = ''accepted'') rows)))) (\<lambda>submissions.
          ret (Reply 200 submissions)))
      (\<lambda>_. ret (Failed 500 ''Internal server error''))"

subsection \<open>What a stream can say\<close>

text \<open>The frames without the heartbeat, and the shape they keep.\<close>

definition spoken :: "stream \<Rightarrow> frame list" where
  "spoken s = filter (\<lambda>f. f \<noteq> Ping) (sm_frames s)"

fun statuses :: "frame list \<Rightarrow> string list" where
  "statuses [] = []"
| "statuses (Status st _ # fs) = st # statuses fs"
| "statuses (_ # fs) = statuses fs"

fun progresses :: "frame list \<Rightarrow> (nat \<times> nat) list" where
  "progresses [] = []"
| "progresses (Progress k n # fs) = (k, n) # progresses fs"
| "progresses (_ # fs) = progresses fs"

lemma statuses_append [simp]: "statuses (fs @ gs) = statuses fs @ statuses gs"
  by (induction fs rule: statuses.induct) auto

lemma progresses_append [simp]: "progresses (fs @ gs) = progresses fs @ progresses gs"
  by (induction fs rule: progresses.induct) auto

definition stream_ok :: "nat \<Rightarrow> stream \<Rightarrow> bool" where
  "stream_ok totalTests s \<longleftrightarrow>
    (sm_open s \<longrightarrow> Done \<notin> set (sm_frames s) \<and> statuses (sm_frames s) \<noteq> [] \<and> last (statuses (sm_frames s)) = sm_status s \<and>
       sm_progress s \<in> {0, totalTests} \<and> progresses (sm_frames s) = (if sm_progress s = 0 then [(0, totalTests)] else [(0, totalTests), (totalTests, totalTests)])) \<and>
    (\<not> sm_open s \<longrightarrow> \<not> sm_heartbeat s \<and> \<not> sm_poll s) \<and>
    distinct_adj (statuses (sm_frames s)) \<and>
    (progresses (sm_frames s) = [(0, totalTests)] \<or> 0 < totalTests \<and> progresses (sm_frames s) = [(0, totalTests), (totalTests, totalTests)]) \<and>
    Done \<notin> set (butlast (sm_frames s))"

lemma stream_ok_opened: "stream_ok totalTests (opened st totalTests)"
  by (simp add: stream_ok_def opened_def send_frame_def Let_def)

lemma stream_ok_frame: "stream_ok totalTests s \<Longrightarrow> stream_ok totalTests (s\<lparr>sm_queries := n\<rparr>)"
  by (simp add: stream_ok_def)

lemma stream_ok_closed:
  assumes "stream_ok totalTests s"
  shows "stream_ok totalTests (disconnected s)"
  using assms by (simp add: stream_ok_def disconnected_def close_stream_def stopTimers_def)

lemma closed_is_silent:
  assumes "\<not> sm_open s"
  shows "sm_frames (send_frame f s) = sm_frames s" "\<not> sm_open (send_frame f s)"
  using assms by (simp_all add: send_frame_def stopTimers_def)

lemma closed_answer:
  assumes "\<not> sm_open s"
  shows "sm_frames (poll_answered totalTests startedAt now fresh s) = sm_frames s \<and> \<not> sm_open (poll_answered totalTests startedAt now fresh s) \<and>
    (\<not> sm_heartbeat s \<and> \<not> sm_poll s \<longrightarrow> \<not> sm_heartbeat (poll_answered totalTests startedAt now fresh s) \<and> \<not> sm_poll (poll_answered totalTests startedAt now fresh s))"
  using assms by (cases fresh) (auto simp: poll_answered_def send_frame_def stopTimers_def close_stream_def Let_def)

lemma stream_ok_answer_open:
  assumes "stream_ok totalTests s" "sm_open s"
  shows "stream_ok totalTests (poll_answered totalTests startedAt now (Some r) s)"
  using assms
  by (auto simp: stream_ok_def poll_answered_def send_frame_def stopTimers_def close_stream_def Let_def distinct_adj_append_iff butlast_append split: if_splits)


lemma stream_ok_answer:
  assumes "stream_ok totalTests s"
  shows "stream_ok totalTests (poll_answered totalTests startedAt now fresh s)"
proof (cases "sm_open s")
  case True
  then show ?thesis
    using stream_ok_answer_open [OF assms] assms by (cases fresh) (simp_all add: poll_answered_def)
next
  case False
  then show ?thesis using closed_answer [OF False, of totalTests startedAt now fresh] assms by (auto simp: stream_ok_def)
qed

lemma stream_ok_step: "stream_step totalTests startedAt s t \<Longrightarrow> stream_ok totalTests s \<Longrightarrow> stream_ok totalTests t"
proof (induction rule: stream_step.induct)
  case (beat s)
  then show ?case by (auto simp: stream_ok_def send_frame_def stopTimers_def butlast_append)
qed (simp_all add: stream_ok_frame stream_ok_answer stream_ok_closed)

lemma stream_ok_reach: "stream_reach totalTests startedAt s t \<Longrightarrow> stream_ok totalTests s \<Longrightarrow> stream_ok totalTests t"
  by (induction rule: stream_reach.induct) (auto intro: stream_ok_step)

text \<open>Frames are only ever added, and none after the end.\<close>

definition speaks_on :: "stream \<Rightarrow> stream \<Rightarrow> bool" where
  "speaks_on s t \<longleftrightarrow> (\<exists>more. sm_frames t = sm_frames s @ more \<and> (\<not> sm_open s \<longrightarrow> more = [] \<and> \<not> sm_open t))"

lemma speaks_on_trans: "speaks_on s t \<Longrightarrow> speaks_on t u \<Longrightarrow> speaks_on s u"
  by (auto simp: speaks_on_def)

lemma speaks_on_send: "speaks_on s (send_frame f s)"
  by (simp add: speaks_on_def send_frame_def stopTimers_def)

lemma speaks_on_same: "sm_frames t = sm_frames s \<Longrightarrow> (sm_open t \<Longrightarrow> sm_open s) \<Longrightarrow> speaks_on s t"
  by (auto simp: speaks_on_def)

lemma speaks_on_answer: "speaks_on s (poll_answered totalTests startedAt now fresh s)"
proof (cases "sm_open s \<and> fresh \<noteq> None")
  case True
  then show ?thesis
    by (cases fresh) (auto simp: speaks_on_def poll_answered_def send_frame_def stopTimers_def close_stream_def Let_def)
next
  case False
  then show ?thesis
    using closed_answer [of s totalTests startedAt now fresh] by (cases fresh) (auto simp: speaks_on_def poll_answered_def)
qed

lemma speaks_on_step: "stream_step totalTests startedAt s t \<Longrightarrow> speaks_on s t"
proof (induction rule: stream_step.induct)
  case (answer s now fresh)
  have "speaks_on s (s\<lparr>sm_queries := sm_queries s - 1\<rparr>)" by (rule speaks_on_same) simp_all
  then show ?case by (rule speaks_on_trans) (rule speaks_on_answer)
qed (auto intro: speaks_on_send speaks_on_same simp: disconnected_def close_stream_def stopTimers_def)

lemma speaks_on_reach: "stream_reach totalTests startedAt s t \<Longrightarrow> speaks_on s t"
proof (induction rule: stream_reach.induct)
  case opened_stream
  then show ?case by (simp add: speaks_on_same)
next
  case (more_stream t u)
  then show ?case using speaks_on_trans speaks_on_step by blast
qed

lemma stream_GET_opens:
  assumes "result (stream_GET session i) fs db = Inr (Reply 200 (n, s))"
  obtains se r where "session = Some se" "sub_find i (submissions db) = Some r" "sb_user r = se_userId se \<or> se_role se = ''admin''"
    "n = test_count (sb_problem r) db" "s = opened (sb_status r) n"
proof -
  obtain se where se: "session = Some se"
    using assms by (cases session) (simp_all add: result_def stream_GET_def)
  obtain r where r: "sub_find i (submissions db) = Some r"
    using assms by (cases "sub_find i (submissions db)") (auto simp: result_def stream_GET_def se bind_def query_hd split: if_splits)
  show thesis
    by (rule that [OF se r]) (use assms in \<open>auto simp: result_def stream_GET_def se r bind_def query_hd split: if_splits\<close>)
qed

text \<open>
  Streams are opened for those who may read, and are well formed. Whatever fails, a stream is opened
  only for the author of the submission or an admin. However ticks, answers, failed queries, heartbeats
  and disconnects follow each other, even with several queries on their way at once: the frames begin with
  the status of the row and the progress 0 of all; the only further progress is that of all tests, at most
  once; no status is told twice in a row; the end is told at most once and last; a closed stream keeps
  no timer; and what was sent is never taken back or added to after the end.
\<close>

theorem stream_is_well_formed:
  fixes db :: judge_db and s u :: stream
  assumes "result (stream_GET session i) fs db = Inr (Reply 200 (n, s0))"
    and "stream_reach n startedAt s0 s" "stream_reach n startedAt s u"
  shows "\<exists>se r rest more. session = Some se \<and> sub_find i (submissions db) = Some r \<and> (sb_user r = se_userId se \<or> se_role se = ''admin'') \<and>
    sm_frames s = Status (sb_status r) None # Progress 0 n # rest \<and>
    progresses rest \<in> {[], [(n, n)]} \<and> distinct_adj (statuses (sm_frames s)) \<and> Done \<notin> set (butlast rest) \<and>
    (Done \<in> set rest \<longrightarrow> \<not> sm_open s) \<and> (\<not> sm_open s \<longrightarrow> \<not> sm_heartbeat s \<and> \<not> sm_poll s) \<and>
    sm_frames u = sm_frames s @ more \<and> (\<not> sm_open s \<longrightarrow> more = [])"
proof -
  obtain se r where g: "session = Some se" "sub_find i (submissions db) = Some r" "sb_user r = se_userId se \<or> se_role se = ''admin''"
      "s0 = opened (sb_status r) n"
    by (rule stream_GET_opens [OF assms(1)])
  have ok: "stream_ok n s" using assms(2) stream_ok_opened unfolding g(4) by (rule stream_ok_reach)
  obtain rest where rest: "sm_frames s = Status (sb_status r) None # Progress 0 n # rest"
    using speaks_on_reach [OF assms(2)] by (auto simp: speaks_on_def g(4) opened_def send_frame_def Let_def)
  obtain more where more: "sm_frames u = sm_frames s @ more" "\<not> sm_open s \<longrightarrow> more = []"
    using speaks_on_reach [OF assms(3)] by (auto simp: speaks_on_def)
  have "progresses rest \<in> {[], [(n, n)]}" "Done \<notin> set (butlast rest)" "Done \<in> set rest \<longrightarrow> \<not> sm_open s"
    "\<not> sm_open s \<longrightarrow> \<not> sm_heartbeat s \<and> \<not> sm_poll s" "distinct_adj (statuses (sm_frames s))"
    using ok by (auto simp: stream_ok_def rest split: if_splits)
  then show ?thesis using g rest more by blast
qed

text \<open>
  A stream that waits: ticks, heartbeats, queries that fail or find no row, and queries that
  find the row pending, in any order and with any number of queries on their way at once.
\<close>

inductive stream_waits :: "nat \<Rightarrow> int \<Rightarrow> string \<Rightarrow> stream \<Rightarrow> stream \<Rightarrow> bool" for totalTests startedAt st s where
  wait_opened: "stream_waits totalTests startedAt st s s"
| wait_tick: "stream_waits totalTests startedAt st s t \<Longrightarrow> sm_poll t \<Longrightarrow> stream_waits totalTests startedAt st s (t\<lparr>sm_queries := sm_queries t + 1\<rparr>)"
| wait_beat: "stream_waits totalTests startedAt st s t \<Longrightarrow> sm_heartbeat t \<Longrightarrow> stream_waits totalTests startedAt st s (send_frame Ping t)"
| wait_reject: "stream_waits totalTests startedAt st s t \<Longrightarrow> 0 < sm_queries t \<Longrightarrow> stream_waits totalTests startedAt st s (t\<lparr>sm_queries := sm_queries t - 1\<rparr>)"
| wait_answer: "stream_waits totalTests startedAt st s t \<Longrightarrow> 0 < sm_queries t \<Longrightarrow>
    (case fresh of None \<Rightarrow> True | Some q \<Rightarrow> sb_status q = ''pending'' \<and> st = ''pending'' \<and> now - startedAt \<le> 60000) \<Longrightarrow>
    stream_waits totalTests startedAt st s (poll_answered totalTests startedAt now fresh (t\<lparr>sm_queries := sm_queries t - 1\<rparr>))"

lemma waits_is_reach: "stream_waits n startedAt st s t \<Longrightarrow> stream_reach n startedAt s t"
  by (induction rule: stream_waits.induct) (blast intro: stream_reach.intros stream_step.intros)+

lemma waiting_says_nothing:
  assumes "stream_waits n startedAt st (opened st n) t"
  shows "spoken t = [Status st None, Progress 0 n] \<and> sm_open t \<and> sm_status t = st \<and> sm_progress t = 0"
  using assms
proof (induction rule: stream_waits.induct)
  case (wait_answer t fresh now)
  then show ?case
    by (cases fresh) (auto simp: poll_answered_def spoken_def MAX_DURATION_MS_def Let_def)
qed (auto simp: spoken_def opened_def send_frame_def Let_def)

text \<open>
  C24. The first answer that is not pending ends the stream. Let a stream be opened on a row and wait: any
  ticks, heartbeats, failing queries and queries that find no row, and, if the row was pending,
  queries that find it pending within the minute, in any interleaving. When then a query finds the row
  in another status than pending, what the stream has sent, heartbeats aside, is exactly the opening
  frames, the status it found with the runtime and error (if it is new), the full progress (if there
  are tests) and the end. Then, and after any answer with a row past the minute, the end
  is the last frame, the stream is closed with its timers off, and nothing is sent any more whatever
  happens. The status need not be a verdict: a row that is queued or judging ends its stream
  just so.
\<close>

theorem stream_ends_at_first_answer:
  fixes db :: judge_db and startedAt now :: int and r :: submission
  assumes "result (stream_GET session i) fs db = Inr (Reply 200 (n, s0))" "sub_find i (submissions db) = Some r0"
    and "stream_waits n startedAt (sb_status r0) s0 s"
  defines "t \<equiv> poll_answered n startedAt now (Some r) (s\<lparr>sm_queries := sm_queries s - 1\<rparr>)"
  shows "(sb_status r \<noteq> ''pending'' \<longrightarrow>
      spoken t = [Status (sb_status r0) None, Progress 0 n] @
        (if sb_status r = sb_status r0 then [] else [Status (sb_status r) (Some (sb_runtime r, sb_error r))]) @
        (if n = 0 then [] else [Progress n n]) @ [Done]) \<and>
    (sb_status r \<noteq> ''pending'' \<or> 60000 < now - startedAt \<longrightarrow>
      last (sm_frames t) = Done \<and> \<not> sm_open t \<and> \<not> sm_poll t \<and> \<not> sm_heartbeat t \<and>
      (\<forall>u. stream_reach n startedAt t u \<longrightarrow> sm_frames u = sm_frames t))"
proof -
  have s0: "s0 = opened (sb_status r0) n" by (rule stream_GET_opens [OF assms(1)]) (use assms(2) in simp)
  have w: "spoken s = [Status (sb_status r0) None, Progress 0 n]" "sm_open s" "sm_status s = sb_status r0" "sm_progress s = 0"
    using waiting_says_nothing [OF assms(3) [unfolded s0]] by blast+
  have silent: "sm_frames u = sm_frames t" if "stream_reach n startedAt t u" "\<not> sm_open t" for u
    using speaks_on_reach [OF that(1)] that(2) by (auto simp: speaks_on_def)
  have "spoken t = [Status (sb_status r0) None, Progress 0 n] @
        (if sb_status r = sb_status r0 then [] else [Status (sb_status r) (Some (sb_runtime r, sb_error r))]) @
        (if n = 0 then [] else [Progress n n]) @ [Done]" if "sb_status r \<noteq> ''pending''"
    using w that by (auto simp: t_def poll_answered_def send_frame_def stopTimers_def close_stream_def spoken_def Let_def)
  moreover have "last (sm_frames t) = Done \<and> \<not> sm_open t \<and> \<not> sm_poll t \<and> \<not> sm_heartbeat t"
    if "sb_status r \<noteq> ''pending'' \<or> 60000 < now - startedAt"
    using w that by (auto simp: t_def poll_answered_def send_frame_def stopTimers_def close_stream_def MAX_DURATION_MS_def Let_def)
  ultimately show ?thesis using silent by blast
qed

definition streamed :: "string \<Rightarrow> submission" where
  "streamed st = \<lparr>sb_id = 1, sb_user = 7, sb_problem = 3, sb_language = ''python'', sb_code = ''pass'', sb_status = st, sb_runtime = None, sb_error = None, sb_output = None\<rparr>"

definition sample_judge_db :: "string \<Rightarrow> judge_db" where
  "sample_judge_db st = \<lparr>submissions = [streamed st], tests_of = [(3, [\<lparr>tc_order = 0, tc_input = ''1'', tc_expected = ''2''\<rparr>])]\<rparr>"

lemma sample_stream: "result (stream_GET (Some \<lparr>se_userId = 7, se_role = ''user''\<rparr>) 1) [] (sample_judge_db st) = Inr (Reply 200 (1, opened st 1))"
  by (simp add: result_def stream_GET_def bind_def sample_judge_db_def streamed_def test_count_def ordered_tests_def)

lemma stream_is_well_formed_witness:
  "\<exists>rest. sm_frames (disconnected (opened ''pending'' 1)) = Status ''pending'' None # Progress 0 1 # rest \<and> Done \<notin> set (butlast rest)"
proof -
  have "stream_reach 1 0 (opened ''pending'' 1) (disconnected (opened ''pending'' 1))"
    by (rule more_stream [OF opened_stream abort])
  from stream_is_well_formed [OF sample_stream this opened_stream]
  show ?thesis by (simp add: sample_judge_db_def streamed_def) blast
qed

lemma stream_ends_at_first_answer_witness:
  "spoken (poll_answered 1 0 9 (Some (streamed ''accepted'')) (send_frame Ping (opened ''pending'' 1)\<lparr>sm_queries := 0\<rparr>)) =
    [Status ''pending'' None, Progress 0 1, Status ''accepted'' (Some (None, None)), Progress 1 1, Done]"
proof -
  have "sub_find 1 (submissions (sample_judge_db ''pending'')) = Some (streamed ''pending'')" by (simp add: sample_judge_db_def streamed_def)
  moreover have "sm_heartbeat (opened ''pending'' 1)" by (simp add: opened_def Let_def)
  then have "stream_waits 1 0 (sb_status (streamed ''pending'')) (opened ''pending'' 1) (send_frame Ping (opened ''pending'' 1))"
    by (simp add: streamed_def wait_beat wait_opened)
  ultimately have "spoken (poll_answered 1 0 9 (Some (streamed ''accepted''))
      (send_frame Ping (opened ''pending'' 1)\<lparr>sm_queries := sm_queries (send_frame Ping (opened ''pending'' 1)) - 1\<rparr>)) =
    [Status (sb_status (streamed ''pending'')) None, Progress 0 1] @
    (if sb_status (streamed ''accepted'') = sb_status (streamed ''pending'') then [] else
      [Status (sb_status (streamed ''accepted'')) (Some (sb_runtime (streamed ''accepted''), sb_error (streamed ''accepted'')))]) @
    (if (1 :: nat) = 0 then [] else [Progress 1 1]) @ [Done]"
    using stream_ends_at_first_answer [OF sample_stream, of "''pending''" "streamed ''pending''" 0 "send_frame Ping (opened ''pending'' 1)" "streamed ''accepted''" 9]
    by (simp add: streamed_def)
  moreover have "sm_queries (send_frame Ping (opened ''pending'' 1)) - 1 = 0" by (simp add: send_frame_def opened_def stopTimers_def Let_def)
  ultimately show ?thesis by (simp add: streamed_def)
qed

text \<open>
  The rows of the queue are never pending: on a queued submission the first poll says that all tests are
  done and ends the stream before anything was judged.
\<close>

theorem queued_stream_ends_unjudged:
  fixes db :: judge_db
  assumes "result (stream_GET session i) fs db = Inr (Reply 200 (n, s0))" "sub_find i (submissions db) = Some r" "sb_status r = ''queued''"
  shows "sm_frames (poll_answered n startedAt now (Some r) s0) =
    [Status ''queued'' None, Progress 0 n] @ (if n = 0 then [] else [Progress n n]) @ [Done]"
proof -
  have "s0 = opened (sb_status r) n" by (rule stream_GET_opens [OF assms(1)]) (use assms(2) in simp)
  then show ?thesis
    using assms(3) by (simp add: poll_answered_def opened_def send_frame_def stopTimers_def close_stream_def Let_def)
qed

text \<open>A stream whose row is gone, or whose lookups fail, is not ended by its minute.\<close>

lemma unanswered_stream_stays_open: "fold (\<lambda>t. poll_answered n startedAt t None) ts s = s"
  by (induction ts) (simp_all add: poll_answered_def)

end
