(* ===== verification/ApiServer.thy ===== *)
theory ApiServer
  imports Problems Profiles ContestPages
begin

section \<open>The stand-alone API server\<close>

text \<open>
  \<^verbatim>\<open>apps/api/src\<close>: a second HTTP server over the same tables, which says of each of its routes that it
  mirrors one of the web application. It keeps no cache. The reading of its environment, the decision on
  origins, the table of its routes and their handlers; its counters are in theory ApiMetrics.
\<close>

subsection \<open>Environment (env.ts)\<close>

text \<open>A variable that is not set is None; \<open>url_ok\<close> is zod's check of a URL, \<open>to_port\<close> its coercion of a number.\<close>

record process_env =
  pe_DATABASE_URL :: "string option"
  pe_API_PORT :: "string option"
  pe_CORS :: "string option"
  pe_NODE_ENV :: "string option"
  pe_JWT_SECRET :: "string option"

record api_env =
  ae_port :: int
  ae_cors :: string
  ae_node_env :: string
  ae_jwt_secret :: string

definition dev_secret :: string where
  "dev_secret = ''dev-only-insecure-jwt-secret-do-not-use-in-production''"

definition envSchema :: "(string \<Rightarrow> bool) \<Rightarrow> (string \<Rightarrow> int option) \<Rightarrow> process_env \<Rightarrow> string list" where
  "envSchema url_ok to_port e =
    (let fields =
       (case pe_DATABASE_URL e of None \<Rightarrow> [''Required''] | Some u \<Rightarrow> if url_ok u then [] else [''DATABASE_URL must be a valid URL'']) @
       (case pe_API_PORT e of None \<Rightarrow> []
        | Some p \<Rightarrow> (case to_port p of None \<Rightarrow> [''Expected number, received nan'']
                    | Some n \<Rightarrow> if 0 < n then [] else [''Number must be greater than 0''])) @
       (case pe_NODE_ENV e of None \<Rightarrow> [] | Some m \<Rightarrow> if m \<in> {''development'', ''production'', ''test''} then [] else [''Invalid enum value''])
     in if fields \<noteq> [] then fields
        else if pe_NODE_ENV e = Some ''production'' \<and> \<not> truthy (pe_JWT_SECRET e) then [''JWT_SECRET is required in production''] else [])"

text \<open>None is the exit of the process with code 1.\<close>

definition parseEnv :: "(string \<Rightarrow> bool) \<Rightarrow> (string \<Rightarrow> int option) \<Rightarrow> process_env \<Rightarrow> api_env option" where
  "parseEnv url_ok to_port e =
    (if envSchema url_ok to_port e \<noteq> [] then None
     else let mode = (case pe_NODE_ENV e of None \<Rightarrow> ''development'' | Some m \<Rightarrow> m)
          in Some \<lparr>ae_port = (case pe_API_PORT e of None \<Rightarrow> 4000 | Some p \<Rightarrow> the (to_port p)),
               ae_cors = (case pe_CORS e of None \<Rightarrow> [] | Some s \<Rightarrow> s), ae_node_env = mode,
               ae_jwt_secret = (if mode \<noteq> ''production'' \<and> \<not> truthy (pe_JWT_SECRET e) then dev_secret
                 else (case pe_JWT_SECRET e of None \<Rightarrow> [] | Some s \<Rightarrow> s))\<rparr>)"

subsection \<open>Origins (server.ts)\<close>

definition allowedOrigins :: "api_env \<Rightarrow> string list" where
  "allowedOrigins e = filter (\<lambda>s. s \<noteq> []) (map js_trim (split_on (CHR '','') (ae_cors e)))"

definition strip_prefix :: "string \<Rightarrow> string \<Rightarrow> string option" where
  "strip_prefix p s = (if starts_with p s then Some (drop (length p) s) else None)"

text \<open>The rest of \<^verbatim>\<open>/^https?:\/\/(localhost|127\.0\.0\.1)(:\d+)?$/\<close> after the scheme, and after the host.\<close>

definition port_suffix :: "string \<Rightarrow> bool" where
  "port_suffix s \<longleftrightarrow> (case s of [] \<Rightarrow> True | c # ds \<Rightarrow> c = CHR '':'' \<and> ds \<noteq> [] \<and> list_all is_digit ds)"

definition local_host :: "string \<Rightarrow> bool" where
  "local_host s \<longleftrightarrow> list_ex (\<lambda>h. case strip_prefix h s of None \<Rightarrow> False | Some r \<Rightarrow> port_suffix r) [''localhost'', ''127.0.0.1'']"

definition local_origin :: "string \<Rightarrow> bool" where
  "local_origin s \<longleftrightarrow> list_ex (\<lambda>h. case strip_prefix h s of None \<Rightarrow> False | Some r \<Rightarrow> local_host r) [''http://'', ''https://'']"

definition cors_origin :: "api_env \<Rightarrow> string \<Rightarrow> string option" where
  "cors_origin e origin =
    (if origin = [] then None
     else if allowedOrigins e \<noteq> [] then (if origin \<in> set (allowedOrigins e) then Some origin else None)
     else if ae_node_env e = ''production'' then None
     else if local_origin origin then Some origin
     else None)"

subsection \<open>Routes\<close>

text \<open>A path is its list of segments; routes are tried in the order of their registration, a parameter takes any segment.\<close>

datatype segment = Literal string | Param

datatype endpoint = Root | Health | Liveness | Metrics | Stats | LeaderboardTop | Tags | TagDetail | AllContests | ContestsActive
  | ContestsUpcoming | ContestDetail | ProblemList | Trending | Random | ProblemDetail

definition api_routes :: "(segment list \<times> endpoint) list" where
  "api_routes =
    [([], Root),
     ([Literal ''health''], Health), ([Literal ''healthz''], Liveness), ([Literal ''readyz''], Health), ([Literal ''metrics''], Metrics),
     ([Literal ''stats''], Stats), ([Literal ''leaderboard'', Literal ''top''], LeaderboardTop),
     ([Literal ''tags''], Tags), ([Literal ''tags'', Param], TagDetail),
     ([Literal ''contests''], AllContests), ([Literal ''contests'', Literal ''active''], ContestsActive),
     ([Literal ''contests'', Literal ''upcoming''], ContestsUpcoming), ([Literal ''contests'', Param], ContestDetail),
     ([Literal ''problems''], ProblemList), ([Literal ''problems'', Literal ''trending''], Trending),
     ([Literal ''problems'', Literal ''random''], Random), ([Literal ''problems'', Param], ProblemDetail)]"

fun segment_matches :: "segment \<Rightarrow> string \<Rightarrow> bool" where
  "segment_matches (Literal l) s = (l = s)"
| "segment_matches Param s = True"

definition route_of :: "string list \<Rightarrow> endpoint option" where
  "route_of path = map_option snd (find (\<lambda>(pat, _). list_all2 segment_matches pat path) api_routes)"

subsection \<open>Problems (routes/problems.ts, routes/trending.ts)\<close>

text \<open>\<^verbatim>\<open>contains\<close> without a mode distinguishes upper and lower case.\<close>

definition api_where :: "string option \<Rightarrow> string option \<Rightarrow> string option \<Rightarrow> cat_db \<Rightarrow> problem_row \<Rightarrow> bool" where
  "api_where difficulty tag search db p \<longleftrightarrow>
    (truthy difficulty \<longrightarrow> pm_difficulty p = the difficulty) \<and>
    (truthy search \<longrightarrow> str_includes (the search) (pm_title p)) \<and>
    (truthy tag \<longrightarrow> has_tag (\<lambda>t. tg_slug t = the tag) db p)"

definition problemsListHandler ::
  "string option \<Rightarrow> string option \<Rightarrow> string option \<Rightarrow> string option \<Rightarrow> string option \<Rightarrow> (cat_db, string, list_result reply) prog" where
  "problemsListHandler difficulty tag search rawPage rawLimit =
    catch
      (let page = page_param rawPage; limit = limit_param 50 50 rawLimit;
           found = (\<lambda>db. filter (api_where difficulty tag search db) (ct_problems db))
       in bind (query ''db'' (\<lambda>db. map (listed_problem_of db) (page_of page limit (sort_by by_order (found db))))) (\<lambda>problems.
          bind (query ''db'' (\<lambda>db. length (found db))) (\<lambda>n.
          ret (Reply 200 \<lparr>ls_problems = problems, ls_total = n, ls_page = page, ls_limit = limit\<rparr>))))
      (\<lambda>_. ret (Failed 500 ''Internal server error''))"

text \<open>The page of a problem; its tests are whole rows.\<close>

record api_problem =
  ap_row :: problem_row
  ap_tags :: "tag_line list"
  ap_testCases :: "problem_test list"

definition problemDetailHandler :: "string \<Rightarrow> (cat_db, string, api_problem reply) prog" where
  "problemDetailHandler slug =
    catch
      (if slug = [] then ret (Failed 400 ''Slug required'')
       else bind (query ''db'' (\<lambda>db. map_option (\<lambda>p. \<lparr>ap_row = p, ap_tags = map tag_line_of (tags_of (pm_id p) db),
              ap_testCases = sort_by test_le (filter (\<lambda>t. pt_problem t = pm_id p \<and> \<not> pt_hidden t) (ct_tests db))\<rparr>) (problem_by_slug slug db))) (\<lambda>problem.
            case problem of
              None \<Rightarrow> ret (Failed 404 ''Problem not found'')
            | Some p \<Rightarrow> ret (Reply 200 p)))
      (\<lambda>_. ret (Failed 500 ''Internal server error''))"

definition trendingHandler :: "string option \<Rightarrow> int \<Rightarrow> (cat_db, string, trending_problem list reply) prog" where
  "trendingHandler rawLimit now =
    catch
      (let limit = nat (limit_param 30 10 rawLimit); since = now - 7 * 24 * 60 * 60 * 1000
       in bind (query ''db'' (trending_groups since limit)) (\<lambda>groups.
          if groups = [] then ret (Reply 200 [])
          else bind (query ''db'' (\<lambda>db. filter (\<lambda>p. pm_id p \<in> set (map fst groups)) (ct_problems db))) (\<lambda>problems.
            ret (Reply 200 (List.map_filter (trending_of problems) groups)))))
      (\<lambda>_. ret (Failed 500 ''Internal server error''))"

definition randomHandler :: "string option \<Rightarrow> rat \<Rightarrow> (cat_db, string, problem_line reply) prog" where
  "randomHandler difficulty rnd =
    catch
      (let cond = (\<lambda>p. truthy difficulty \<longrightarrow> pm_difficulty p = the difficulty)
       in bind (query ''db'' (\<lambda>db. length (filter cond (ct_problems db)))) (\<lambda>n.
          if n = 0 then ret (Failed 404 ''No problems available'')
          else
            let skip = nat \<lfloor>rnd * of_nat n\<rfloor>
            in bind (query ''db'' (\<lambda>db. take 1 (drop skip (filter cond (ct_problems db))))) (\<lambda>found.
               case found of [] \<Rightarrow> ret (Failed 404 ''No problems available'') | p # _ \<Rightarrow> ret (Reply 200 (line_of p)))))
      (\<lambda>_. ret (Failed 500 ''Internal server error''))"

subsection \<open>Leaderboard, tags, contests, counters\<close>

definition api_computeTop :: "(profile_db, string, top_entry list) prog" where
  "api_computeTop =
    bind (query ''db'' accepted_pairs) (\<lambda>accepted.
    let solved = solvedByUser accepted; ids = take TOP_N (sortedUserIds solved)
    in if ids = [] then ret []
       else bind (query ''db'' (users_in ids)) (\<lambda>users. ret (top_entries users solved ids)))"

definition leaderboardTopHandler :: "(profile_db, string, top_entry list reply) prog" where
  "leaderboardTopHandler =
    catch (bind api_computeTop (\<lambda>leaderboard. ret (Reply 200 leaderboard))) (\<lambda>_. ret (Failed 500 ''Internal server error''))"

definition tagsHandler :: "(string \<Rightarrow> string \<Rightarrow> bool) \<Rightarrow> (cat_db, string, tag_row list reply) prog" where
  "tagsHandler name_le =
    catch (bind (query ''db'' (\<lambda>db. sort_by (tag_by_name name_le) (ct_tags db))) (\<lambda>tags. ret (Reply 200 tags))) (\<lambda>_. ret (Reply 200 []))"

record api_tag_page =
  at_tag :: tag_line
  at_problems :: "(problem_line \<times> tag_line list) list"
  at_total :: nat
  at_page :: int
  at_limit :: int

definition tagDetailHandler :: "string \<Rightarrow> string option \<Rightarrow> string option \<Rightarrow> (cat_db, string, api_tag_page reply) prog" where
  "tagDetailHandler slug rawPage rawLimit =
    catch
      (if slug = [] then ret (Failed 400 ''Slug required'')
       else bind (query ''db'' (\<lambda>db. find_by tg_slug slug (ct_tags db))) (\<lambda>tag.
       case tag of
         None \<Rightarrow> ret (Failed 404 ''Tag not found'')
       | Some t \<Rightarrow>
           let page = page_param rawPage; limit = limit_param 100 50 rawLimit;
               tagged = (\<lambda>db. filter (\<lambda>p. (pm_id p, tg_id t) \<in> set (ct_ptags db)) (ct_problems db))
           in bind (query ''db'' (\<lambda>db. map (\<lambda>p. (line_of p, map tag_line_of (tags_of (pm_id p) db)))
                (page_of page limit (sort_by by_order (tagged db))))) (\<lambda>problems.
              bind (query ''db'' (\<lambda>db. length (tagged db))) (\<lambda>n.
              ret (Reply 200 \<lparr>at_tag = tag_line_of t, at_problems = problems, at_total = n, at_page = page, at_limit = limit\<rparr>)))))
      (\<lambda>_. ret (Failed 500 ''Internal server error''))"

definition contestsHandler :: "(pages_db, string, contest_info list reply) prog" where
  "contestsHandler =
    catch (bind (query ''db'' (\<lambda>db. sort_by latest_start (cd_contests db))) (\<lambda>contests. ret (Reply 200 contests)))
      (\<lambda>_. ret (Failed 500 ''Internal server error''))"

definition contestsActiveHandler :: "(pages_db, string, (contest_info \<times> nat \<times> nat) list reply) prog" where
  "contestsActiveHandler =
    catch
      (bind (query ''db'' (\<lambda>db. map (\<lambda>c. (c, entries_count c db, problems_count c db))
         (sort_by next_start (filter (\<lambda>c. ci_status c = ''active'') (cd_contests db))))) (\<lambda>contests.
       ret (Reply 200 contests)))
      (\<lambda>_. ret (Failed 500 ''Internal server error''))"

definition contestsUpcomingHandler :: "string option \<Rightarrow> (pages_db, string, (contest_info \<times> nat) list reply) prog" where
  "contestsUpcomingHandler rawLimit =
    catch
      (let limit = limit_param 50 20 rawLimit
       in bind (query ''db'' (\<lambda>db. map (\<lambda>c. (c, problems_count c db))
            (take (nat limit) (sort_by next_start (filter (\<lambda>c. ci_status c = ''upcoming'') (cd_contests db)))))) (\<lambda>contests.
          ret (Reply 200 contests)))
      (\<lambda>_. ret (Failed 500 ''Internal server error''))"

definition contestDetailHandler :: "string \<Rightarrow> (pages_db, string, contest_page reply) prog" where
  "contestDetailHandler slug =
    catch
      (if slug = [] then ret (Failed 400 ''Slug required'')
       else bind (query ''db'' (page_for slug)) (\<lambda>contest.
         case contest of
           None \<Rightarrow> ret (Failed 404 ''Contest not found'')
         | Some page \<Rightarrow> ret (Reply 200 page)))
      (\<lambda>_. ret (Failed 500 ''Internal server error''))"

text \<open>The counters, of the web's route \<^verbatim>\<open>stats/route.ts\<close> too; the tables are seen as their lengths and the statuses.\<close>

record count_db =
  cn_problems :: nat
  cn_contests :: nat
  cn_users :: nat
  cn_statuses :: "string list"

definition stats_handler :: "(count_db, string, (nat \<times> nat \<times> nat \<times> nat) reply) prog" where
  "stats_handler =
    catch
      (bind (query ''db'' cn_problems) (\<lambda>problems.
       bind (query ''db'' cn_contests) (\<lambda>contests.
       bind (query ''db'' cn_users) (\<lambda>users.
       bind (query ''db'' (\<lambda>db. length (filter (\<lambda>s. s = ''accepted'') (cn_statuses db)))) (\<lambda>accepted.
       ret (Reply 200 (problems, contests, users, accepted)))))))
      (\<lambda>_. ret (Failed 500 ''Internal server error''))"

text \<open>The probe: the answer of the database within two seconds, or the message of its failure.\<close>

record health_body =
  hb_status :: string
  hb_latencyMs :: "int option"
  hb_error :: "string option"

definition healthHandler :: "string + int \<Rightarrow> health_body reply" where
  "healthHandler probe =
    (case probe of
       Inr latency \<Rightarrow> Reply 200 \<lparr>hb_status = ''ok'', hb_latencyMs = Some latency, hb_error = None\<rparr>
     | Inl err \<Rightarrow> Reply 503 \<lparr>hb_status = ''down'', hb_latencyMs = None, hb_error = Some err\<rparr>)"


subsection \<open>Static paths come before parameters\<close>

lemma static_before_parameter:
  "route_of [''problems'', s] = Some (if s = ''trending'' then Trending else if s = ''random'' then Random else ProblemDetail)"
  "route_of [''contests'', s] = Some (if s = ''active'' then ContestsActive else if s = ''upcoming'' then ContestsUpcoming else ContestDetail)"
  "route_of [''tags'', s] = Some TagDetail"
  by (simp_all add: route_of_def api_routes_def)

subsection \<open>Which origins are admitted\<close>

lemma strip_prefix_Some: "strip_prefix p s = Some r \<longleftrightarrow> s = p @ r"
  by (auto simp: strip_prefix_def starts_with_iff)

lemma list_ex_strip:
  "list_ex (\<lambda>h. case strip_prefix h s of None \<Rightarrow> False | Some r \<Rightarrow> P r) hs \<longleftrightarrow> (\<exists>h \<in> set hs. \<exists>r. s = h @ r \<and> P r)"
proof -
  have "(case strip_prefix h s of None \<Rightarrow> False | Some r \<Rightarrow> P r) \<longleftrightarrow> (\<exists>r. s = h @ r \<and> P r)" for h
    by (cases "strip_prefix h s") (auto simp: strip_prefix_Some [symmetric])
  then show ?thesis by (simp add: list_ex_iff)
qed

lemma port_suffix_iff: "port_suffix s \<longleftrightarrow> s = [] \<or> (\<exists>ds. s = CHR '':'' # ds \<and> ds \<noteq> [] \<and> list_all is_digit ds)"
  by (cases s) (auto simp: port_suffix_def)

lemma scheme_host_port:
  "(\<exists>h \<in> S. \<exists>r. s = h @ r \<and> (\<exists>k \<in> H. \<exists>q. r = k @ q \<and> P q)) \<longleftrightarrow> (\<exists>h \<in> S. \<exists>k \<in> H. \<exists>q. s = h @ k @ q \<and> P q)"
  by blast

text \<open>
  What the environment of the API admits. A server that starts in production has been given a secret of
  its own, and lets through only origins that its list names, character by character, however the list is
  empty or not. Outside production an empty list admits exactly the origins of the local
  machine: http or https, then localhost or 127.0.0.1, then nothing or a colon and digits.
\<close>

theorem production_is_closed:
  assumes "parseEnv url_ok to_port raw = Some e"
  shows "(ae_node_env e = ''production'' \<longrightarrow>
      (\<exists>secret. pe_JWT_SECRET raw = Some secret \<and> secret \<noteq> [] \<and> ae_jwt_secret e = secret) \<and>
      (\<forall>origin x. cors_origin e origin = Some x \<longrightarrow>
        x = origin \<and> origin \<noteq> [] \<and> origin \<in> js_trim ` set (split_on (CHR '','') (ae_cors e)))) \<and>
    (ae_node_env e \<noteq> ''production'' \<and> allowedOrigins e = [] \<longrightarrow>
      (\<forall>origin. cors_origin e origin \<noteq> None \<longleftrightarrow>
        (\<exists>scheme \<in> {''http://'', ''https://''}. \<exists>host \<in> {''localhost'', ''127.0.0.1''}. \<exists>port.
          origin = scheme @ host @ port \<and> (port = [] \<or> (\<exists>ds. port = CHR '':'' # ds \<and> ds \<noteq> [] \<and> list_all is_digit ds)))))"
proof (intro conjI impI allI)
  assume prod: "ae_node_env e = ''production''"
  have parsed: "envSchema url_ok to_port raw = []" by (rule ccontr) (use assms in \<open>simp add: parseEnv_def\<close>)
  have e: "e = (the (parseEnv url_ok to_port raw))" using assms by simp
  have "(case pe_NODE_ENV raw of None \<Rightarrow> ''development'' | Some m \<Rightarrow> m) = ''production''"
    using prod unfolding e by (simp add: parseEnv_def parsed Let_def)
  then have mode: "pe_NODE_ENV raw = Some ''production''" by (cases "pe_NODE_ENV raw") simp_all
  have "truthy (pe_JWT_SECRET raw)"
  proof (rule ccontr)
    assume "\<not> truthy (pe_JWT_SECRET raw)"
    then have "envSchema url_ok to_port raw \<noteq> []" unfolding envSchema_def Let_def mode by simp
    then show False using parsed by simp
  qed
  then obtain secret where secret: "pe_JWT_SECRET raw = Some secret" "secret \<noteq> []"
    by (cases "pe_JWT_SECRET raw") (simp_all add: truthy_def)
  have "ae_jwt_secret e = secret" unfolding e by (simp add: parseEnv_def parsed Let_def mode secret)
  then show "\<exists>secret. pe_JWT_SECRET raw = Some secret \<and> secret \<noteq> [] \<and> ae_jwt_secret e = secret" using secret by simp
  fix origin x
  assume "cors_origin e origin = Some x"
  then show "x = origin" "origin \<noteq> []" "origin \<in> js_trim ` set (split_on (CHR '','') (ae_cors e))"
    using prod by (auto simp: cors_origin_def allowedOrigins_def split: if_splits)
next
  fix origin
  assume dev: "ae_node_env e \<noteq> ''production'' \<and> allowedOrigins e = []"
  have "\<not> local_origin []" by (simp add: local_origin_def strip_prefix_def starts_with_def)
  then have "cors_origin e origin \<noteq> None \<longleftrightarrow> local_origin origin" using dev by (auto simp: cors_origin_def)
  also have "\<dots> \<longleftrightarrow> (\<exists>scheme \<in> {''http://'', ''https://''}. \<exists>host \<in> {''localhost'', ''127.0.0.1''}. \<exists>port.
      origin = scheme @ host @ port \<and> port_suffix port)"
    unfolding local_origin_def local_host_def list_ex_strip list.set by (rule scheme_host_port)
  finally show "cors_origin e origin \<noteq> None \<longleftrightarrow>
      (\<exists>scheme \<in> {''http://'', ''https://''}. \<exists>host \<in> {''localhost'', ''127.0.0.1''}. \<exists>port.
        origin = scheme @ host @ port \<and> (port = [] \<or> (\<exists>ds. port = CHR '':'' # ds \<and> ds \<noteq> [] \<and> list_all is_digit ds)))"
    unfolding port_suffix_iff .
qed

definition sample_env :: "string \<Rightarrow> process_env" where
  "sample_env mode = \<lparr>pe_DATABASE_URL = Some ''postgres://db'', pe_API_PORT = None, pe_CORS = Some ''https://leetrank.dev, '',
    pe_NODE_ENV = Some mode, pe_JWT_SECRET = Some ''s3cret''\<rparr>"

lemma production_is_closed_witness:
  "\<exists>e. parseEnv (\<lambda>_. True) (\<lambda>_. None) (sample_env ''production'') = Some e \<and> cors_origin e ''https://leetrank.dev'' = Some ''https://leetrank.dev'' \<and>
    (\<forall>x. cors_origin e ''http://localhost:3000'' \<noteq> Some x)"
proof -
  obtain e where e: "parseEnv (\<lambda>_. True) (\<lambda>_. None) (sample_env ''production'') = Some e" "ae_node_env e = ''production''"
      "ae_cors e = ''https://leetrank.dev, ''"
    by (simp add: parseEnv_def envSchema_def sample_env_def Let_def truthy_def)
  have "js_trim ` set (split_on (CHR '','') ''https://leetrank.dev, '') = {''https://leetrank.dev'', []}" by code_simp
  then have "cors_origin e ''http://localhost:3000'' \<noteq> Some x" for x
    using production_is_closed [OF e(1)] e(2,3) by auto
  moreover have "allowedOrigins e = [''https://leetrank.dev'']" unfolding allowedOrigins_def e(3) by code_simp
  ultimately show ?thesis using e(1) by (auto simp: cors_origin_def)
qed


subsection \<open>The routes mirror the web's\<close>

text \<open>The web's query with the three parameters that the API reads.\<close>

definition plain_of :: "string option \<Rightarrow> string option \<Rightarrow> string option \<Rightarrow> string option \<Rightarrow> string option \<Rightarrow> list_query" where
  "plain_of difficulty tag search rawPage rawLimit =
    \<lparr>lq_difficulty = difficulty, lq_tag = tag, lq_topic = None, lq_company = None, lq_search = search, lq_page = rawPage, lq_limit = rawLimit\<rparr>"

lemma includes_ci: "str_includes q s \<Longrightarrow> contains_ci q s"
  by (auto simp: contains_ci_def includes_iff) blast

lemma api_where_web: "\<not> truthy search \<Longrightarrow> api_where difficulty tag search db = where_clause (plain_of difficulty tag search rawPage rawLimit) db"
  by (rule ext) (auto simp: api_where_def where_clause_def plain_of_def truthy_def)

lemma list_mirrors:
  assumes "\<not> truthy search"
  shows "result (problemsListHandler difficulty tag search rawPage rawLimit) [] db =
    Inr (Reply 200 (answer_of (plain_of difficulty tag search rawPage rawLimit) db))"
  by (simp add: result_def problemsListHandler_def Let_def catch_def bind_def answer_of_def list_of_def matching_def
      api_where_web [OF assms, of difficulty tag db rawPage rawLimit]) (simp add: plain_of_def)

lemma search_finds_fewer:
  "length (filter (api_where difficulty tag search db) ps) \<le> length (filter (where_clause (plain_of difficulty tag search rawPage rawLimit) db) ps)"
proof -
  have "where_clause (plain_of difficulty tag search rawPage rawLimit) db p" if "api_where difficulty tag search db p" for p
    using that includes_ci by (auto simp: api_where_def where_clause_def plain_of_def truthy_def)
  then show ?thesis by (induction ps) auto
qed

lemma top_mirrors:
  assumes "fst (cache_get ''leaderboard:top'' now (pf_top db)) = None"
  shows "result leaderboardTopHandler [] db = result (top_GET now) [] db"
proof -
  have same: "api_computeTop = computeTop" by (simp add: api_computeTop_def computeTop_def)
  let ?m = "solvedByUser (accepted_pairs db)" and ?ids = "take TOP_N (sortedUserIds (solvedByUser (accepted_pairs db)))"
  define v where "v = top_entries (users_in ?ids db) ?m ?ids"
  have v: "computeTop ([], db\<lparr>pf_top := c\<rparr>) = (Inr v, ([], db\<lparr>pf_top := c\<rparr>))" for c
    by (simp add: v_def computeTop_def Let_def bind_def accepted_pairs_def users_in_def top_entries_def List.map_filter_simps)
  have "db\<lparr>pf_top := pf_top db\<rparr> = db" by simp
  then have "computeTop ([], db) = (Inr v, ([], db))" using v [of "pf_top db"] by simp
  then show ?thesis
    by (simp add: result_def leaderboardTopHandler_def top_GET_def catch_def bind_def same v top_cache.remember_miss [where s = db, OF assms])
qed

lemma trending_mirrors:
  assumes "fst (cache_get (trending_cache_key (nat (limit_param 30 10 rawLimit))) now (ct_trending db)) = None"
  shows "result (trendingHandler rawLimit now) [] db = result (trending_GET rawLimit now) [] db"
proof -
  let ?g = "trending_groups (now - 7 * 24 * 60 * 60 * 1000) (nat (limit_param 30 10 rawLimit)) db"
  have groups: "trending_groups since limit (db\<lparr>ct_trending := c\<rparr>) = trending_groups since limit db" for since limit c
    by (simp add: trending_groups_def)
  note m = trending_cache.remember_miss [where s = db, OF assms]
  show ?thesis
    by (cases "?g = []")
      (simp_all add: result_def trendingHandler_def trending_GET_def computeTrending_def Let_def catch_def bind_def m groups)
qed

text \<open>
  C25. The API answers like the web application. Take the same tables, in the same order of rows, the
  web's caches cold and no call failing, and a slug that is not empty. Without a search text, and
  without the topic and company filters that the API does not have, a list is answered alike, fields
  and order included; with a search text, where the API distinguishes upper and lower case, it finds
  no more than the web. The trending problems, the top of the leaderboard, the page of a contest and the
  active and upcoming contests are answered alike; every field of the web's page of a problem is what the
  API sends under its name, and a page is denied by both or by none; the web's lists of contests and of
  tags are the first 100 and 200 of the API's.
\<close>

theorem api_mirrors_web:
  fixes db :: cat_db and pdb :: profile_db and cdb :: pages_db and now :: int and slug :: string
  assumes "\<And>k. fst (cache_get k now (ct_lists db)) = None" "\<And>k. fst (cache_get k now (ct_trending db)) = None"
    "\<And>k. fst (cache_get k now (ct_tagcache db)) = None" "\<And>k. fst (cache_get k now (pf_top pdb)) = None"
    "\<And>k. fst (cache_get k now (cd_list cdb)) = None" "\<And>k. fst (cache_get k now (cd_detail cdb)) = None" and "slug \<noteq> []"
  shows "(\<not> truthy search \<longrightarrow>
      result (problemsListHandler difficulty tag search rawPage rawLimit) [] db =
      result (problems_GET (plain_of difficulty tag search rawPage rawLimit) now) [] db) \<and>
    (\<exists>few many. result (problemsListHandler difficulty tag search rawPage rawLimit) [] db = Inr (Reply 200 few) \<and>
      result (problems_GET (plain_of difficulty tag search rawPage rawLimit) now) [] db = Inr (Reply 200 many) \<and> ls_total few \<le> ls_total many) \<and>
    result (trendingHandler rawLimit now) [] db = result (trending_GET rawLimit now) [] db \<and>
    (case result (problemDetailHandler slug) [] db of
       Inr (Reply n p) \<Rightarrow> (\<exists>q. result (problem_GET slug) [] db = Inr (Reply n q) \<and>
         pr_id q = pm_id (ap_row p) \<and> pr_title q = pm_title (ap_row p) \<and> pr_slug q = pm_slug (ap_row p) \<and>
         pr_difficulty q = pm_difficulty (ap_row p) \<and> pr_description q = pm_description (ap_row p) \<and> pr_hints q = pm_hints (ap_row p) \<and>
         pr_editorial q = pm_editorial (ap_row p) \<and> pr_constraints q = pm_constraints (ap_row p) \<and>
         pr_starterCode q = pm_starterCode (ap_row p) \<and> pr_topicTags q = ap_tags p \<and> pr_testCases q = map shown_test_of (ap_testCases p))
     | Inr (Failed n msg) \<Rightarrow> result (problem_GET slug) [] db = Inr (Failed n msg)
     | Inl e \<Rightarrow> False) \<and>
    result leaderboardTopHandler [] pdb = result (top_GET now) [] pdb \<and>
    result (contestDetailHandler slug) [] cdb = result (contest_GET slug now) [] cdb \<and>
    result contestsActiveHandler [] cdb = result active_GET [] cdb \<and>
    result (contestsUpcomingHandler rawLimit) [] cdb = result (upcoming_GET rawLimit) [] cdb \<and>
    (\<exists>contests. result contestsHandler [] cdb = Inr (Reply 200 contests) \<and> result (contests_GET now) [] cdb = Inr (Reply 200 (take 100 contests))) \<and>
    (\<exists>tags. result (tagsHandler name_le) [] db = Inr (Reply 200 tags) \<and> result (tags_GET name_le None now) [] db = Inr (Reply 200 (take 200 tags)))"
proof -
  let ?q = "plain_of difficulty tag search rawPage rawLimit"
  have web: "result (problems_GET ?q now) [] db = Inr (Reply 200 (answer_of ?q db))"
    by (rule problems_GET_cold) (simp add: assms(1))
  have 1: "\<exists>few many. result (problemsListHandler difficulty tag search rawPage rawLimit) [] db = Inr (Reply 200 few) \<and>
      result (problems_GET ?q now) [] db = Inr (Reply 200 many) \<and> ls_total few \<le> ls_total many"
    using search_finds_fewer [of difficulty tag search db "ct_problems db" rawPage rawLimit] unfolding web
    by (simp add: result_def problemsListHandler_def Let_def catch_def bind_def answer_of_def list_of_def matching_def)
  have 2: "case result (problemDetailHandler slug) [] db of
       Inr (Reply n p) \<Rightarrow> (\<exists>q. result (problem_GET slug) [] db = Inr (Reply n q) \<and>
         pr_id q = pm_id (ap_row p) \<and> pr_title q = pm_title (ap_row p) \<and> pr_slug q = pm_slug (ap_row p) \<and>
         pr_difficulty q = pm_difficulty (ap_row p) \<and> pr_description q = pm_description (ap_row p) \<and> pr_hints q = pm_hints (ap_row p) \<and>
         pr_editorial q = pm_editorial (ap_row p) \<and> pr_constraints q = pm_constraints (ap_row p) \<and>
         pr_starterCode q = pm_starterCode (ap_row p) \<and> pr_topicTags q = ap_tags p \<and> pr_testCases q = map shown_test_of (ap_testCases p))
     | Inr (Failed n msg) \<Rightarrow> result (problem_GET slug) [] db = Inr (Failed n msg)
     | Inl e \<Rightarrow> False"
    using assms(7) by (cases "problem_by_slug slug db") (simp_all add: result_def problemDetailHandler_def problem_GET_def catch_def bind_def shown_of_def)
  have 3: "result (contestDetailHandler slug) [] cdb = result (contest_GET slug now) [] cdb"
    using assms(7) by (cases "page_for slug cdb")
      (simp_all add: result_def contestDetailHandler_def contest_GET_def catch_def bind_def detail_cache.remember_miss [where s = cdb, OF assms(6)])
  have 4: "result (contests_GET now) [] cdb = Inr (Reply 200 (take 100 (sort_by latest_start (cd_contests cdb))))"
    by (simp add: result_def contests_GET_def catch_def bind_def list_cache.remember_miss [where s = cdb, OF assms(5)] contest_list_def)
  have 5: "result (tags_GET name_le None now) [] db = Inr (Reply 200 (take 200 (sort_by (tag_by_name name_le) (ct_tags db))))"
    by (simp add: result_def tags_GET_def truthy_def Let_def catch_def bind_def tag_cache.remember_miss [where s = db, OF assms(3)])
  show ?thesis
    using list_mirrors web 1 2 3 4 5 top_mirrors [OF assms(4)] trending_mirrors [OF assms(2)]
    by (intro conjI impI) (simp_all add: contestsActiveHandler_def active_GET_def contestsUpcomingHandler_def upcoming_GET_def
        contestsHandler_def tagsHandler_def result_def catch_def bind_def)
qed


lemma api_mirrors_web_witness:
  "result leaderboardTopHandler [] sample_profiles = result (top_GET 0) [] sample_profiles \<and>
   result (contestDetailHandler ''round-1'') [] sample_pages = result (contest_GET ''round-1'' 0) [] sample_pages \<and>
   result (trendingHandler None 0) [] empty_catalogue = result (trending_GET None 0) [] empty_catalogue"
proof -
  have cold: "fst (cache_get k 0 (new_cache m)) = None" for k m by (simp add: cache_get_def new_cache_def)
  have caches: "\<exists>m. ct_lists empty_catalogue = new_cache m" "\<exists>m. ct_trending empty_catalogue = new_cache m" "\<exists>m. ct_tagcache empty_catalogue = new_cache m"
    "\<exists>m. pf_top sample_profiles = new_cache m" "\<exists>m. cd_list sample_pages = new_cache m" "\<exists>m. cd_detail sample_pages = new_cache m"
    by (auto simp: empty_catalogue_def sample_catalogue_def sample_profiles_def sample_pages_def)
  have c: "fst (cache_get k 0 (ct_lists empty_catalogue)) = None" "fst (cache_get k 0 (ct_trending empty_catalogue)) = None"
    "fst (cache_get k 0 (ct_tagcache empty_catalogue)) = None" "fst (cache_get k 0 (pf_top sample_profiles)) = None"
    "fst (cache_get k 0 (cd_list sample_pages)) = None" "fst (cache_get k 0 (cd_detail sample_pages)) = None" for k
    using caches cold by metis+
  show ?thesis
    using api_mirrors_web [OF c, of "''round-1''" None None None None None "\<lambda>_ _. True"] by simp
qed

end
