(* ===== verification/ApiMetrics.thy ===== *)
theory ApiMetrics
  imports JsText
begin

section \<open>The counters of the stand-alone API server\<close>

text \<open>
  \<^verbatim>\<open>apps/api/src/metrics.ts\<close> and the middleware \<^verbatim>\<open>request-context.ts\<close> that drives it: a counter and a
  histogram per label set, the number of requests in flight, and the text that \<^verbatim>\<open>GET /metrics\<close> serves.
  Durations are whole milliseconds, as \<^verbatim>\<open>Date.now()\<close> measures them; seconds are rational numbers, and
  \<open>num_text\<close> prints them.
\<close>

subsection \<open>The store\<close>

type_synonym label_set = "(string \<times> string) list"

record counter_entry =
  ce_labels :: label_set
  ce_value :: nat

record histogram_entry =
  he_labels :: label_set
  he_buckets :: "(rat, nat) jsmap"
  he_count :: nat
  he_sum :: rat

record metrics =
  mt_requestsTotal :: "(string, counter_entry) jsmap"
  mt_requestDuration :: "(string, histogram_entry) jsmap"
  mt_inFlight :: nat

definition no_metrics :: metrics where
  "no_metrics = \<lparr>mt_requestsTotal = [], mt_requestDuration = [], mt_inFlight = 0\<rparr>"

definition DURATION_BUCKETS :: "rat list" where
  "DURATION_BUCKETS = [5/1000, 1/100, 25/1000, 5/100, 1/10, 25/100, 5/10, 1, 25/10, 5, 10]"

text \<open>The names of labels are lower-case words, on which \<^verbatim>\<open>localeCompare\<close> is the alphabetical order.\<close>

fun name_le :: "string \<Rightarrow> string \<Rightarrow> bool" where
  "name_le [] t = True"
| "name_le (c # s) [] = False"
| "name_le (c # s) (d # t) = ((of_char c :: nat) < of_char d \<or> c = d \<and> name_le s t)"

definition pair_text :: "string \<times> string \<Rightarrow> string" where
  "pair_text l = fst l @ ''=\"'' @ snd l @ ''\"''"

definition labelKey :: "label_set \<Rightarrow> string" where
  "labelKey labels = join_with '','' (map pair_text (sort_by (\<lambda>a b. name_le (fst a) (fst b)) labels))"

definition request_labels :: "string \<Rightarrow> string \<Rightarrow> nat \<Rightarrow> label_set" where
  "request_labels verb path status = [(''method'', verb), (''path'', path), (''status'', show_nat status)]"

definition duration_labels :: "string \<Rightarrow> string \<Rightarrow> label_set" where
  "duration_labels verb path = [(''method'', verb), (''path'', path)]"

definition incRequestsTotal :: "string \<Rightarrow> string \<Rightarrow> nat \<Rightarrow> metrics \<Rightarrow> metrics" where
  "incRequestsTotal verb path status m =
    (let labels = request_labels verb path status; key = labelKey labels
     in m\<lparr>mt_requestsTotal :=
          (case jm_get (mt_requestsTotal m) key of
             Some e \<Rightarrow> jm_set key (e\<lparr>ce_value := ce_value e + 1\<rparr>) (mt_requestsTotal m)
           | None \<Rightarrow> jm_set key \<lparr>ce_labels = labels, ce_value = 1\<rparr> (mt_requestsTotal m))\<rparr>)"

definition fresh_histogram :: "label_set \<Rightarrow> histogram_entry" where
  "fresh_histogram labels = \<lparr>he_labels = labels, he_buckets = foldl (\<lambda>b le. jm_set le 0 b) [] DURATION_BUCKETS, he_count = 0, he_sum = 0\<rparr>"

definition bump_bucket :: "rat \<Rightarrow> rat \<Rightarrow> (rat, nat) jsmap \<Rightarrow> (rat, nat) jsmap" where
  "bump_bucket d le b = (if d \<le> le then jm_set le ((case jm_get b le of None \<Rightarrow> 0 | Some n \<Rightarrow> n) + 1) b else b)"

definition record_duration :: "rat \<Rightarrow> histogram_entry \<Rightarrow> histogram_entry" where
  "record_duration d e =
    e\<lparr>he_count := he_count e + 1, he_sum := he_sum e + d,
      he_buckets := foldl (\<lambda>b le. bump_bucket d le b) (he_buckets e) DURATION_BUCKETS\<rparr>"

definition observeRequestDuration :: "string \<Rightarrow> string \<Rightarrow> rat \<Rightarrow> metrics \<Rightarrow> metrics" where
  "observeRequestDuration verb path d m =
    (let labels = duration_labels verb path; key = labelKey labels;
         e = (case jm_get (mt_requestDuration m) key of Some e \<Rightarrow> e | None \<Rightarrow> fresh_histogram labels)
     in m\<lparr>mt_requestDuration := jm_set key (record_duration d e) (mt_requestDuration m)\<rparr>)"

definition incInFlight :: "metrics \<Rightarrow> metrics" where
  "incInFlight m = m\<lparr>mt_inFlight := mt_inFlight m + 1\<rparr>"

text \<open>\<^verbatim>\<open>Math.max(0, n - 1)\<close>\<close>

definition decInFlight :: "metrics \<Rightarrow> metrics" where
  "decInFlight m = m\<lparr>mt_inFlight := mt_inFlight m - 1\<rparr>"

subsection \<open>The text\<close>

definition fmtLabels :: "label_set \<Rightarrow> string" where
  "fmtLabels labels = (let pairs = join_with '','' (map pair_text labels) in if pairs \<noteq> [] then ''{'' @ pairs @ ''}'' else [])"

text \<open>The running sum of the loop over the buckets.\<close>

fun cumulate :: "nat \<Rightarrow> nat list \<Rightarrow> nat list" where
  "cumulate c [] = []"
| "cumulate c (n # ns) = (c + n) # cumulate (c + n) ns"

definition rendered_buckets :: "histogram_entry \<Rightarrow> nat list" where
  "rendered_buckets e = cumulate 0 (map (\<lambda>le. case jm_get (he_buckets e) le of None \<Rightarrow> 0 | Some n \<Rightarrow> n) DURATION_BUCKETS)"

definition counter_lines :: "metrics \<Rightarrow> string list" where
  "counter_lines m =
    map (\<lambda>(k, e). ''leetrank_api_http_requests_total'' @ fmtLabels (ce_labels e) @ '' '' @ show_nat (ce_value e)) (mt_requestsTotal m)"

definition histogram_lines :: "(rat \<Rightarrow> string) \<Rightarrow> histogram_entry \<Rightarrow> string list" where
  "histogram_lines num_text e =
    (let name = ''leetrank_api_http_request_duration_seconds''
     in map (\<lambda>(le, n). name @ ''_bucket'' @ fmtLabels (he_labels e @ [(''le'', num_text le)]) @ '' '' @ show_nat n)
          (zip DURATION_BUCKETS (rendered_buckets e)) @
        [name @ ''_bucket'' @ fmtLabels (he_labels e @ [(''le'', ''+Inf'')]) @ '' '' @ show_nat (he_count e),
         name @ ''_count'' @ fmtLabels (he_labels e) @ '' '' @ show_nat (he_count e),
         name @ ''_sum'' @ fmtLabels (he_labels e) @ '' '' @ num_text (he_sum e)])"

definition renderPrometheus :: "(rat \<Rightarrow> string) \<Rightarrow> rat \<Rightarrow> metrics \<Rightarrow> string" where
  "renderPrometheus num_text uptime m =
    join_with [CHR 0x0A]
      ([''# HELP leetrank_api_http_requests_total Total HTTP requests'', ''# TYPE leetrank_api_http_requests_total counter''] @
       counter_lines m @
       [''# HELP leetrank_api_http_request_duration_seconds HTTP request latency'', ''# TYPE leetrank_api_http_request_duration_seconds histogram''] @
       concat (map (\<lambda>(k, e). histogram_lines num_text e) (mt_requestDuration m)) @
       [''# HELP leetrank_api_http_requests_in_flight Current in-flight requests'', ''# TYPE leetrank_api_http_requests_in_flight gauge'',
        ''leetrank_api_http_requests_in_flight '' @ show_nat (mt_inFlight m),
        ''# HELP leetrank_api_process_uptime_seconds Process uptime in seconds'', ''# TYPE leetrank_api_process_uptime_seconds gauge'',
        ''leetrank_api_process_uptime_seconds '' @ num_text uptime, []])"

subsection \<open>Requests (request-context.ts)\<close>

text \<open>A request comes in, and ends, by return or by exception, with its method, route pattern, status and milliseconds.\<close>

datatype api_event = Came | Ended string string nat nat

fun request_event :: "api_event \<Rightarrow> metrics \<Rightarrow> metrics" where
  "request_event Came m = incInFlight m"
| "request_event (Ended verb path status ms) m =
    observeRequestDuration verb path (of_nat ms / 1000) (incRequestsTotal verb path status (decInFlight m))"


subsection \<open>What the counters say\<close>

definition ends :: "(string \<Rightarrow> string \<Rightarrow> nat \<Rightarrow> nat \<Rightarrow> bool) \<Rightarrow> api_event list \<Rightarrow> api_event list" where
  "ends P evs = filter (\<lambda>e. case e of Came \<Rightarrow> False | Ended v p s ms \<Rightarrow> P v p s ms) evs"

definition took :: "api_event \<Rightarrow> rat" where
  "took e = (case e of Came \<Rightarrow> 0 | Ended v p s ms \<Rightarrow> of_nat ms / 1000)"

definition counted :: "string \<Rightarrow> metrics \<Rightarrow> nat" where
  "counted key m = (case jm_get (mt_requestsTotal m) key of None \<Rightarrow> 0 | Some e \<Rightarrow> ce_value e)"

definition bucket :: "rat \<Rightarrow> histogram_entry \<Rightarrow> nat" where
  "bucket le e = (case jm_get (he_buckets e) le of None \<Rightarrow> 0 | Some n \<Rightarrow> n)"

definition histogram :: "string \<Rightarrow> metrics \<Rightarrow> histogram_entry option" where
  "histogram key m = jm_get (mt_requestDuration m) key"

lemma counted_inc: "counted key (incRequestsTotal v p s m) = counted key m + (if labelKey (request_labels v p s) = key then 1 else 0)"
  by (auto simp: counted_def incRequestsTotal_def Let_def jm_get_set split: option.split)

lemma counted_other [simp]: "counted key (observeRequestDuration v p d m) = counted key m" "counted key (incInFlight m) = counted key m"
  "counted key (decInFlight m) = counted key m"
  by (simp_all add: counted_def observeRequestDuration_def Let_def incInFlight_def decInFlight_def)

lemma histogram_other [simp]: "histogram key (incRequestsTotal v p s m) = histogram key m" "histogram key (incInFlight m) = histogram key m"
  "histogram key (decInFlight m) = histogram key m"
  by (simp_all add: histogram_def incRequestsTotal_def Let_def incInFlight_def decInFlight_def)

lemma histogram_observe: "histogram key (observeRequestDuration v p d m) =
    (if labelKey (duration_labels v p) = key
     then Some (record_duration d (case histogram key m of Some e \<Rightarrow> e | None \<Rightarrow> fresh_histogram (duration_labels v p)))
     else histogram key m)"
  by (simp add: histogram_def observeRequestDuration_def Let_def jm_get_set)

lemma bump_buckets: "(case jm_get (foldl (\<lambda>b le. bump_bucket d le b) b les) le of None \<Rightarrow> 0 | Some n \<Rightarrow> n) =
    (case jm_get b le of None \<Rightarrow> 0 | Some n \<Rightarrow> n) + (if d \<le> le then count_list les le else 0)"
proof (induction les arbitrary: b)
  case (Cons a les)
  have "(case jm_get (bump_bucket d a b) le of None \<Rightarrow> 0 | Some n \<Rightarrow> n) =
      (case jm_get b le of None \<Rightarrow> 0 | Some n \<Rightarrow> n) + (if d \<le> le \<and> a = le then 1 else (0 :: nat))"
    by (auto simp: bump_bucket_def jm_get_set)
  then show ?case using Cons [of "bump_bucket d a b"] by simp
qed simp

lemma distinct_count_one: "distinct xs \<Longrightarrow> x \<in> set xs \<Longrightarrow> count_list xs x = 1"
  by (induction xs) auto

lemma bucket_record: "le \<in> set DURATION_BUCKETS \<Longrightarrow> bucket le (record_duration d e) = bucket le e + (if d \<le> le then 1 else 0)"
proof -
  assume "le \<in> set DURATION_BUCKETS"
  moreover have "distinct DURATION_BUCKETS" by (simp add: DURATION_BUCKETS_def)
  ultimately have "count_list DURATION_BUCKETS le = 1" using distinct_count_one [of DURATION_BUCKETS le] by simp
  then show ?thesis by (simp add: bucket_def record_duration_def bump_buckets)
qed


definition quote_free :: "string \<Rightarrow> bool" where
  "quote_free s \<longleftrightarrow> CHR ''\"'' \<notin> set s"

lemma sorted_labels: "sort_by (\<lambda>a b. name_le (fst a) (fst b)) (request_labels v p s) = request_labels v p s"
  "sort_by (\<lambda>a b. name_le (fst a) (fst b)) (duration_labels v p) = duration_labels v p"
  by (simp_all add: request_labels_def duration_labels_def)

lemma request_key_inject:
  assumes "quote_free v" "quote_free p" "quote_free v'" "quote_free p'" "labelKey (request_labels v p s) = labelKey (request_labels v' p' s')"
  shows "v = v' \<and> p = p' \<and> s = s'"
proof -
  have digits: "quote_free (show_nat n)" for n
    using digits_show_nat [of n] by (auto simp: quote_free_def list_all_iff is_digit_def)
  have e: "v @ CHR ''\"'' # '',path=\"'' @ p @ CHR ''\"'' # '',status=\"'' @ show_nat s @ CHR ''\"'' # [] =
      v' @ CHR ''\"'' # '',path=\"'' @ p' @ CHR ''\"'' # '',status=\"'' @ show_nat s' @ CHR ''\"'' # []"
    using assms(5) by (simp add: labelKey_def sorted_labels) (simp add: request_labels_def pair_text_def)
  have 1: "v = v'" "p @ CHR ''\"'' # '',status=\"'' @ show_nat s @ CHR ''\"'' # [] = p' @ CHR ''\"'' # '',status=\"'' @ show_nat s' @ CHR ''\"'' # []"
    using split_at_char [OF assms(1,3) [unfolded quote_free_def] e] by simp_all
  have 2: "p = p'" "show_nat s @ CHR ''\"'' # [] = show_nat s' @ CHR ''\"'' # []"
    using split_at_char [OF assms(2,4) [unfolded quote_free_def] 1(2)] by simp_all
  then show ?thesis using 1 by simp
qed

lemma duration_key_inject:
  assumes "quote_free v" "quote_free p" "quote_free v'" "quote_free p'" "labelKey (duration_labels v p) = labelKey (duration_labels v' p')"
  shows "v = v' \<and> p = p'"
proof -
  have e: "v @ CHR ''\"'' # '',path=\"'' @ p @ CHR ''\"'' # [] = v' @ CHR ''\"'' # '',path=\"'' @ p' @ CHR ''\"'' # []"
    using assms(5) by (simp add: labelKey_def sorted_labels) (simp add: duration_labels_def pair_text_def)
  have 1: "v = v'" "p @ CHR ''\"'' # [] = p' @ CHR ''\"'' # []"
    using split_at_char [OF assms(1,3) [unfolded quote_free_def] e] by simp_all
  then show ?thesis by simp
qed

lemma ends_simps [simp]: "ends P [] = []" "ends P (Came # evs) = ends P evs"
  "ends P (Ended v p s ms # evs) = (if P v p s ms then Ended v p s ms # ends P evs else ends P evs)"
  "ends P (evs @ evs') = ends P evs @ ends P evs'"
  by (simp_all add: ends_def)

text \<open>The values of the labels hold no quotation mark.\<close>

definition plain_event :: "api_event \<Rightarrow> bool" where
  "plain_event e \<longleftrightarrow> (case e of Came \<Rightarrow> True | Ended v p s ms \<Rightarrow> quote_free v \<and> quote_free p)"

definition histogram_ok :: "api_event list \<Rightarrow> histogram_entry option \<Rightarrow> bool" where
  "histogram_ok es h \<longleftrightarrow>
    (case h of
       None \<Rightarrow> es = []
     | Some e \<Rightarrow> es \<noteq> [] \<and> he_count e = length es \<and> he_sum e = sum_list (map took es) \<and>
         (\<forall>le \<in> set DURATION_BUCKETS. bucket le e = length (filter (\<lambda>x. took x \<le> le) es)))"

lemma zero_buckets: "(case jm_get b le of None \<Rightarrow> 0 | Some n \<Rightarrow> n) = (0 :: nat) \<Longrightarrow>
    (case jm_get (foldl (\<lambda>b le. jm_set le 0 b) b les) le of None \<Rightarrow> 0 | Some n \<Rightarrow> n) = 0"
  by (induction les arbitrary: b) (simp_all add: jm_get_set)

lemma fresh_bucket: "bucket le (fresh_histogram l) = 0"
  by (simp add: bucket_def fresh_histogram_def zero_buckets)

lemma histogram_ok_snoc:
  assumes "histogram_ok es h" "took x = d"
  shows "histogram_ok (es @ [x]) (Some (record_duration d (case h of Some e \<Rightarrow> e | None \<Rightarrow> fresh_histogram l)))"
proof (cases h)
  case None
  then show ?thesis
    using assms by (auto simp: histogram_ok_def bucket_record fresh_bucket) (simp_all add: record_duration_def fresh_histogram_def)
next
  case (Some e)
  then show ?thesis
    using assms by (auto simp: histogram_ok_def bucket_record) (simp_all add: record_duration_def)
qed

definition running :: "api_event list \<Rightarrow> int" where
  "running evs = int (count_list evs Came) - int (length (ends (\<lambda>v p s ms. True) evs))"

lemma after_requests:
  assumes "list_all plain_event evs"
  defines "m \<equiv> fold request_event evs no_metrics"
  shows "(quote_free v \<and> quote_free p \<longrightarrow> counted (labelKey (request_labels v p s)) m = length (ends (\<lambda>v' p' s' ms. v' = v \<and> p' = p \<and> s' = s) evs)) \<and>
    (quote_free v \<and> quote_free p \<longrightarrow> histogram_ok (ends (\<lambda>v' p' s' ms. v' = v \<and> p' = p) evs) (histogram (labelKey (duration_labels v p)) m))"
  using assms(1) unfolding m_def
proof (induction evs rule: rev_induct)
  case Nil
  then show ?case by (simp add: counted_def histogram_def histogram_ok_def no_metrics_def)
next
  case (snoc x evs)
  show ?case
  proof (cases x)
    case Came
    then show ?thesis using snoc by simp
  next
    case (Ended v' p' s' ms)
    have ok: "quote_free v'" "quote_free p'" using snoc.prems Ended by (simp_all add: plain_event_def)
    have r: "labelKey (request_labels v' p' s') = labelKey (request_labels v p s) \<longleftrightarrow> v' = v \<and> p' = p \<and> s' = s" if "quote_free v" "quote_free p"
      using request_key_inject [OF ok that] by blast
    have d: "labelKey (duration_labels v' p') = labelKey (duration_labels v p) \<longleftrightarrow> v' = v \<and> p' = p" if "quote_free v" "quote_free p"
      using duration_key_inject [OF ok that] by blast
    have t: "took x = of_nat ms / 1000" by (simp add: Ended took_def)
    show ?thesis
      using snoc histogram_ok_snoc [OF _ t] r d by (auto simp: Ended counted_inc histogram_observe)
  qed
qed


lemma in_flight:
  "\<forall>k. 0 \<le> running (take k evs) \<Longrightarrow> int (mt_inFlight (fold request_event evs no_metrics)) = running evs"
proof (induction evs rule: rev_induct)
  case Nil
  then show ?case by (simp add: running_def no_metrics_def)
next
  case (snoc x evs)
  have "0 \<le> running (take k evs)" for k
    using snoc.prems [rule_format, of "min k (length evs)"] by (simp add: min_def split: if_splits)
  then have ih: "int (mt_inFlight (fold request_event evs no_metrics)) = running evs" using snoc.IH by blast
  have "0 \<le> running (evs @ [x])" using snoc.prems [rule_format, of "Suc (length evs)"] by simp
  then show ?case
    using ih by (cases x) (auto simp: running_def incInFlight_def decInFlight_def observeRequestDuration_def incRequestsTotal_def Let_def)
qed

text \<open>
  C26. The counters count the requests. Let requests come and end in any order and number, none ending before
  one came, their methods and routes without quotation marks. Then the gauge is the number of requests that
  came and have not ended; the counter of a method, route and status is the number of requests that ended
  so; and the histogram of a method and route, if any ended, holds their number, the sum of their
  durations, and for each bound the number of them that took no longer.
\<close>

theorem metrics_count_requests:
  fixes evs :: "api_event list"
  assumes "list_all plain_event evs" "quote_free v" "quote_free p" "\<forall>k. 0 \<le> running (take k evs)"
  defines "m \<equiv> fold request_event evs no_metrics" and "here \<equiv> ends (\<lambda>v' p' s' ms. v' = v \<and> p' = p) evs"
  shows "int (mt_inFlight m) = int (count_list evs Came) - int (length (ends (\<lambda>v p s ms. True) evs)) \<and>
    (case jm_get (mt_requestsTotal m) (labelKey (request_labels v p s)) of None \<Rightarrow> 0 | Some e \<Rightarrow> ce_value e) =
      length (ends (\<lambda>v' p' s' ms. v' = v \<and> p' = p \<and> s' = s) evs) \<and>
    (case jm_get (mt_requestDuration m) (labelKey (duration_labels v p)) of
       None \<Rightarrow> here = []
     | Some h \<Rightarrow> he_count h = length here \<and> he_sum h = sum_list (map took here) \<and>
         (\<forall>le \<in> set DURATION_BUCKETS. (case jm_get (he_buckets h) le of None \<Rightarrow> 0 | Some n \<Rightarrow> n) = length (filter (\<lambda>x. took x \<le> le) here)))"
proof -
  have a: "counted (labelKey (request_labels v p s)) m = length (ends (\<lambda>v' p' s' ms. v' = v \<and> p' = p \<and> s' = s) evs)"
    "histogram_ok here (histogram (labelKey (duration_labels v p)) m)"
    using after_requests [OF assms(1), of v p s] assms(2,3) by (simp_all add: m_def here_def)
  have b: "int (mt_inFlight m) = running evs" unfolding m_def using assms(4) by (rule in_flight)
  show ?thesis
    using a b by (cases "jm_get (mt_requestDuration m) (labelKey (duration_labels v p))")
      (simp_all add: counted_def histogram_def histogram_ok_def running_def bucket_def)
qed

lemma metrics_count_requests_witness:
  "mt_inFlight (fold request_event [Came, Came, Ended ''GET'' ''/tags'' 200 7] no_metrics) = 1"
proof -
  let ?evs = "[Came, Came, Ended ''GET'' ''/tags'' 200 7]"
  have p: "list_all plain_event ?evs" "quote_free ''GET''" "quote_free ''/tags''" by (simp_all add: plain_event_def quote_free_def)
  have "\<forall>k. 0 \<le> running (take k ?evs)"
    by (simp add: running_def take_Cons' ends_def)
  from metrics_count_requests [OF p this, of 200] show ?thesis by simp
qed

text \<open>
  The buckets count cumulatively, and the text sums them once more: what is served for a bound is the sum over
  all smaller bounds, more than the number of requests.
\<close>

lemma cumulate_nth: "k < length ns \<Longrightarrow> cumulate c ns ! k = c + sum_list (take (Suc k) ns)"
proof (induction ns arbitrary: c k)
  case (Cons n ns)
  then show ?case by (cases k) simp_all
qed simp

lemma served_bucket: "k < length DURATION_BUCKETS \<Longrightarrow>
    rendered_buckets e ! k = sum_list (map (\<lambda>le. bucket le e) (take (Suc k) DURATION_BUCKETS))"
  by (simp add: rendered_buckets_def cumulate_nth take_map bucket_def)

theorem one_request_fills_eleven:
  "map rendered_buckets (map snd (mt_requestDuration (fold request_event [Came, Ended ''GET'' ''/tags'' 200 1] no_metrics))) =
     [[1, 2, 3, 4, 5, 6, 7, 8, 9, 10, 11]] \<and>
   map he_count (map snd (mt_requestDuration (fold request_event [Came, Ended ''GET'' ''/tags'' 200 1] no_metrics))) = [1]"
  by code_simp

end
