(* ===== verification/Tokens.thy ===== *)
theory Tokens
  imports Effects "HOL-Library.Word"
begin

unbundle bit_operations_syntax

section \<open>Tokens, signatures and the checks of forged requests\<close>

text \<open>
  The package \<^verbatim>\<open>packages/auth-verify\<close> (verification of a JWT and the two middlewares over it),
  \<^verbatim>\<open>src/lib/csrf.ts\<close> and \<^verbatim>\<open>src/lib/signed-fetch.ts\<close>. What jose, \<^verbatim>\<open>createHmac\<close>, \<^verbatim>\<open>new URL\<close> and
  \<^verbatim>\<open>decodeURIComponent\<close> answer is a parameter.
\<close>

subsection \<open>Verification (verify.ts)\<close>

datatype key_source = Hs256 string | Jwks string

record verify_options =
  vo_key :: key_source
  vo_audience :: "string list option"
  vo_issuer :: "string option"

text \<open>The claims jose returns: those that are no string, or no number, are None.\<close>

record claims =
  cl_sub :: "string option"
  cl_exp :: "int option"
  cl_role :: "string option"

record verified =
  vd_sub :: string
  vd_exp :: int
  vd_role :: "string option"
  vd_expiresAt :: int

text \<open>What jose throws, as far as the code distinguishes it.\<close>

datatype jose_error = JWTExpired string | ClaimFailed string string | OtherError string | NoError

datatype token_error = TokenInvalid string | TokenExpired string | TokenAudience string | TokenIssuer string

datatype auth_exn = Token token_error | UriError | Downstream string

text \<open>The state of a request: who was verified, and the key sets the process has fetchers for.\<close>

record auth_ctx =
  cx_auth :: "verified option"
  cx_jwks :: "string list"

type_synonym jose = "key_source \<Rightarrow> string list option \<Rightarrow> string option \<Rightarrow> string \<Rightarrow> jose_error + claims"

definition getJWKS :: "string \<Rightarrow> auth_ctx \<Rightarrow> auth_ctx" where
  "getJWKS url s = (if url \<in> set (cx_jwks s) then s else s\<lparr>cx_jwks := cx_jwks s @ [url]\<rparr>)"

definition token_error_of :: "jose_error \<Rightarrow> token_error" where
  "token_error_of err =
    (case err of
       JWTExpired msg \<Rightarrow> TokenExpired msg
     | ClaimFailed claim msg \<Rightarrow>
         if claim = ''aud'' then TokenAudience msg else if claim = ''iss'' then TokenIssuer msg else TokenInvalid msg
     | OtherError msg \<Rightarrow> TokenInvalid msg
     | NoError \<Rightarrow> TokenInvalid ''Token verification failed'')"

definition verifyToken :: "jose \<Rightarrow> string \<Rightarrow> verify_options \<Rightarrow> (auth_ctx, auth_exn, verified) prog" where
  "verifyToken jose token opts =
    (if token = [] then throw (Token (TokenInvalid ''Empty token''))
     else bind (state_op (\<lambda>s. ((), case vo_key opts of Hs256 k \<Rightarrow> s | Jwks url \<Rightarrow> getJWKS url s))) (\<lambda>_.
       case jose (vo_key opts) (vo_audience opts) (vo_issuer opts) token of
         Inl err \<Rightarrow> throw (Token (token_error_of err))
       | Inr c \<Rightarrow>
           (case cl_sub c of
              None \<Rightarrow> throw (Token (TokenInvalid ''Token missing sub claim''))
            | Some sub \<Rightarrow>
                if sub = [] then throw (Token (TokenInvalid ''Token missing sub claim''))
                else (case cl_exp c of
                        None \<Rightarrow> throw (Token (TokenInvalid ''Token missing exp claim''))
                      | Some e \<Rightarrow> ret \<lparr>vd_sub = sub, vd_exp = e, vd_role = cl_role c, vd_expiresAt = e * 1000\<rparr>))))"

subsection \<open>The middlewares (middleware.ts)\<close>

definition DEFAULT_COOKIE_NAME :: string where "DEFAULT_COOKIE_NAME = ''leetrank_session''"

text \<open>\<^verbatim>\<open>/^Bearer\s+(.+)$/i\<close> on a trimmed text: after the word and the white space the rest, on one line.\<close>

definition bearer :: "string \<Rightarrow> string option" where
  "bearer s =
    (let rest = drop 6 s; token = dropWhile is_space rest
     in if map lower_char (take 6 s) = ''bearer'' \<and> rest \<noteq> [] \<and> is_space (hd rest) \<and> token \<noteq> [] \<and>
           list_all (\<lambda>c. c \<noteq> CHR 0x0A \<and> c \<noteq> CHR 0x0D) token
        then Some (js_trim token) else None)"

text \<open>The first \<^verbatim>\<open>=\<close> of a part separates its name from its value.\<close>

definition name_value :: "string \<Rightarrow> (string \<times> string) option" where
  "name_value part =
    (let trimmed = js_trim part
     in if CHR ''='' \<in> set trimmed
        then Some (js_trim (takeWhile (\<lambda>c. c \<noteq> CHR ''='') trimmed), js_trim (tl (dropWhile (\<lambda>c. c \<noteq> CHR ''='') trimmed)))
        else None)"

text \<open>Of the parts the first with the name decides; \<open>decode\<close> may throw.\<close>

fun cookie_token :: "(string \<Rightarrow> string option) \<Rightarrow> string \<Rightarrow> string list \<Rightarrow> auth_exn + string option" where
  "cookie_token decode name [] = Inr None"
| "cookie_token decode name (p # ps) =
    (case name_value p of
       None \<Rightarrow> cookie_token decode name ps
     | Some (n, v) \<Rightarrow>
         if n = name
         then (if v \<noteq> [] then (case decode v of None \<Rightarrow> Inl UriError | Some t \<Rightarrow> Inr (Some t)) else Inr None)
         else cookie_token decode name ps)"

definition readToken :: "(string \<Rightarrow> string option) \<Rightarrow> string option \<Rightarrow> string option \<Rightarrow> string \<Rightarrow> auth_exn + string option" where
  "readToken decode auth cookie cookieName =
    (case (if truthy auth then bearer (js_trim (the auth)) else None) of
       Some t \<Rightarrow> Inr (Some t)
     | None \<Rightarrow> if truthy cookie then cookie_token decode cookieName (split_on (CHR '';'') (the cookie)) else Inr None)"

definition classifyError :: "auth_exn \<Rightarrow> nat" where
  "classifyError err = (case err of Token (TokenAudience m) \<Rightarrow> 403 | Token (TokenIssuer m) \<Rightarrow> 403 | _ \<Rightarrow> 401)"

definition reason_of :: "auth_exn \<Rightarrow> string" where
  "reason_of err =
    (case err of
       Token (TokenExpired m) \<Rightarrow> ''Token expired''
     | Token (TokenAudience m) \<Rightarrow> ''Forbidden''
     | Token (TokenIssuer m) \<Rightarrow> ''Forbidden''
     | _ \<Rightarrow> ''Unauthorized'')"

definition lift_sum :: "'e + 'a \<Rightarrow> ('s, 'e, 'a) prog" where
  "lift_sum x = (case x of Inl e \<Rightarrow> throw e | Inr a \<Rightarrow> ret a)"

definition set_auth :: "verified \<Rightarrow> (auth_ctx, auth_exn, unit) prog" where
  "set_auth v = state_op (\<lambda>s. ((), s\<lparr>cx_auth := Some v\<rparr>))"

definition requireAuth ::
  "jose \<Rightarrow> (string \<Rightarrow> string option) \<Rightarrow> verify_options \<Rightarrow> string option \<Rightarrow> string option \<Rightarrow> string option \<Rightarrow>
   (auth_ctx, auth_exn, 'b reply) prog \<Rightarrow> (auth_ctx, auth_exn, 'b reply) prog" where
  "requireAuth jose decode opts cookieName auth cookie next_handler =
    bind (lift_sum (readToken decode auth cookie (case cookieName of None \<Rightarrow> DEFAULT_COOKIE_NAME | Some n \<Rightarrow> n))) (\<lambda>token.
    if \<not> truthy token then ret (Failed 401 ''Unauthorized'')
    else catch (bind (verifyToken jose (the token) opts) (\<lambda>v. bind (set_auth v) (\<lambda>_. next_handler)))
           (\<lambda>err. ret (Failed (classifyError err) (reason_of err))))"

definition optionalAuth ::
  "jose \<Rightarrow> (string \<Rightarrow> string option) \<Rightarrow> verify_options \<Rightarrow> string option \<Rightarrow> string option \<Rightarrow> string option \<Rightarrow>
   (auth_ctx, auth_exn, 'b reply) prog \<Rightarrow> (auth_ctx, auth_exn, 'b reply) prog" where
  "optionalAuth jose decode opts cookieName auth cookie next_handler =
    bind (lift_sum (readToken decode auth cookie (case cookieName of None \<Rightarrow> DEFAULT_COOKIE_NAME | Some n \<Rightarrow> n))) (\<lambda>token.
    bind (if truthy token then catch (bind (verifyToken jose (the token) opts) set_auth) (\<lambda>_. ret ()) else ret ()) (\<lambda>_.
    next_handler))"

subsection \<open>Forged requests (csrf.ts)\<close>

definition upper_char :: "char \<Rightarrow> char" where
  "upper_char c = (let n = (of_char c :: nat) in if 97 \<le> n \<and> n \<le> 122 then char_of (n - 32) else c)"

definition isCsrfSafeMethod :: "string \<Rightarrow> bool" where
  "isCsrfSafeMethod verb \<longleftrightarrow> map upper_char verb \<in> {''GET'', ''HEAD'', ''OPTIONS''}"

text \<open>\<^verbatim>\<open>Buffer.from(s)\<close>: UTF-8, here of characters below 256.\<close>

definition utf8_char :: "char \<Rightarrow> 8 word list" where
  "utf8_char c = (let n = (of_char c :: nat) in if n < 128 then [of_nat n] else [of_nat (192 + n div 64), of_nat (128 + n mod 64)])"

definition buffer_from :: "string \<Rightarrow> 8 word list" where
  "buffer_from s = concat (map utf8_char s)"

text \<open>\<^verbatim>\<open>timingSafeEqual\<close> throws on buffers of different lengths; the catch makes this false.\<close>

definition verifyCsrfDoubleSubmit :: "string option \<Rightarrow> string option \<Rightarrow> bool" where
  "verifyCsrfDoubleSubmit headerToken cookieToken =
    (if \<not> truthy headerToken \<or> \<not> truthy cookieToken then False
     else if length (the headerToken) \<noteq> length (the cookieToken) then False
     else length (buffer_from (the headerToken)) = length (buffer_from (the cookieToken)) \<and>
       buffer_from (the headerToken) = buffer_from (the cookieToken))"

text \<open>\<open>url\<close> gives the origin and the host of a URL, or throws.\<close>

definition verifyOrigin :: "(string \<Rightarrow> (string \<times> string) option) \<Rightarrow> string option \<Rightarrow> string option \<Rightarrow> string list \<Rightarrow> bool" where
  "verifyOrigin url origin host allowed =
    (if \<not> truthy origin then False
     else case url (the origin) of
            None \<Rightarrow> False
          | Some (o', h') \<Rightarrow> o' \<in> set allowed \<or> truthy host \<and> h' = the host)"

subsection \<open>Signatures (signed-fetch.ts)\<close>

text \<open>\<^verbatim>\<open>result |= a[i] ^ b[i]\<close> over the bytes.\<close>

fun or_of_xors :: "8 word \<Rightarrow> 8 word list \<Rightarrow> 8 word list \<Rightarrow> 8 word" where
  "or_of_xors r (x # xs) (y # ys) = or_of_xors (r OR (x XOR y)) xs ys"
| "or_of_xors r xs ys = r"

definition verifySignature :: "(string \<Rightarrow> string \<Rightarrow> string) \<Rightarrow> string \<Rightarrow> string \<Rightarrow> string \<Rightarrow> bool" where
  "verifySignature hmac rawBody signature secret =
    (if signature = [] \<or> secret = [] then False
     else let expected = hmac secret rawBody
          in if length expected \<noteq> length signature then False
             else let a = buffer_from expected; b = buffer_from signature
                  in if length a \<noteq> length b then False else or_of_xors 0 a b = 0)"

record signed_request =
  sq_url :: string
  sq_body :: string
  sq_headers :: "(string \<times> string) list"

text \<open>Later headers replace earlier ones of the same name; without a secret nothing is sent.\<close>

definition signedFetch ::
  "(string \<Rightarrow> string \<Rightarrow> string) \<Rightarrow> string \<Rightarrow> string \<Rightarrow> string \<Rightarrow> (string \<times> string) list \<Rightarrow> string + signed_request" where
  "signedFetch hmac url rawBody secret headers =
    (if secret = [] then Inl ''signed-fetch: secret is required (fail-closed)''
     else Inr \<lparr>sq_url = url, sq_body = rawBody,
       sq_headers = foldl (\<lambda>m (k, v). jm_set k v m)
         [(''Content-Type'', ''application/json''), (''X-Signature-SHA256'', hmac secret rawBody)] headers\<rparr>)"

subsection \<open>What the checks establish\<close>

lemma or_of_xors_zero: "length a = length b \<Longrightarrow> or_of_xors r a b = 0 \<longleftrightarrow> r = 0 \<and> a = b"
proof (induction a b arbitrary: r rule: list_induct2)
  case Nil
  then show ?case by simp
next
  case (Cons x xs y ys)
  have "r OR (x XOR y) = 0 \<longleftrightarrow> r = 0 \<and> x XOR y = 0" by (auto simp: bit_eq_iff bit_or_iff)
  also have "x XOR y = 0 \<longleftrightarrow> x = y" by (auto simp: bit_eq_iff bit_xor_iff)
  finally have "r OR (x XOR y) = 0 \<longleftrightarrow> r = 0 \<and> x = y" .
  then show ?case using Cons.IH by auto
qed

lemma small_word_eq: "m < 256 \<Longrightarrow> n < 256 \<Longrightarrow> (of_nat m :: 8 word) = of_nat n \<longleftrightarrow> m = n"
  by (auto simp: word_unat_eq_iff unsigned_of_nat take_bit_nat_eq_self)

lemma utf8_nat_prefix_free:
  fixes m n :: nat
  defines "enc \<equiv> \<lambda>n. if n < 128 then [of_nat n] else [of_nat (192 + n div 64), of_nat (128 + n mod 64) :: 8 word]"
  assumes b: "m < 256" "n < 256" and eq: "enc m @ xs = enc n @ ys"
  shows "m = n \<and> xs = ys"
proof -
  have q: "m div 64 < 4" "n div 64 < 4" using b by linarith+
  have r: "m mod 64 < 64" "n mod 64 < 64" by simp_all
  have small: "(of_nat i :: 8 word) \<noteq> of_nat (192 + j)" if "i < 128" "j < 4" for i j
    using that small_word_eq [of i "192 + j"] by linarith
  show ?thesis
  proof (cases "m < 128")
    case True
    then show ?thesis
      using eq b small [of m "n div 64"] q by (cases "n < 128") (simp_all add: enc_def small_word_eq del: of_nat_add)
  next
    case False
    then have "\<not> n < 128" using eq small [of n "m div 64"] q by (auto simp: enc_def simp del: of_nat_add)
    with False eq have e: "(of_nat (192 + m div 64) :: 8 word) = of_nat (192 + n div 64)"
        "(of_nat (128 + m mod 64) :: 8 word) = of_nat (128 + n mod 64)" "xs = ys"
      by (simp_all add: enc_def del: of_nat_add)
    have "m div 64 = n div 64" using e(1) q small_word_eq [of "192 + m div 64" "192 + n div 64"] by linarith
    moreover have "m mod 64 = n mod 64" using e(2) r small_word_eq [of "128 + m mod 64" "128 + n mod 64"] by linarith
    ultimately show ?thesis using e(3) by (metis div_mult_mod_eq)
  qed
qed

lemma utf8_prefix_free: "utf8_char c @ xs = utf8_char d @ ys \<Longrightarrow> c = d \<and> xs = ys"
  using utf8_nat_prefix_free [of "of_char c" "of_char d" xs ys]
  unfolding utf8_char_def Let_def by (metis nat_of_char_less_256 char_of_char)

lemma buffer_from_inj: "buffer_from s = buffer_from t \<longleftrightarrow> s = t"
proof (induction s arbitrary: t)
  case Nil
  then show ?case by (cases t) (auto simp: buffer_from_def utf8_char_def Let_def)
next
  case (Cons c s)
  show ?case
  proof (cases t)
    case Nil
    then show ?thesis by (auto simp: buffer_from_def utf8_char_def Let_def)
  next
    case (Cons d u)
    then show ?thesis using Cons.IH [of u] utf8_prefix_free [of c _ d] by (auto simp: buffer_from_def)
  qed
qed

lemma same_bytes: "or_of_xors 0 (buffer_from s) (buffer_from t) = 0 \<longleftrightarrow> s = t"
  if "length (buffer_from s) = length (buffer_from t)"
  using that by (simp add: or_of_xors_zero buffer_from_inj)

text \<open>
  The two comparisons written to take the same time whatever the tokens hold decide equality
  and nothing else. The double submit passes exactly when the header and the cookie carry the same
  non-empty token; a signature passes exactly when neither it nor the secret is empty and it is the
  keyed hash of the body under that secret.
\<close>

theorem constant_time_compare_is_equality:
  "(verifyCsrfDoubleSubmit h c \<longleftrightarrow> (\<exists>t. t \<noteq> [] \<and> h = Some t \<and> c = Some t)) \<and>
   (verifySignature hmac body s k \<longleftrightarrow> s \<noteq> [] \<and> k \<noteq> [] \<and> s = hmac k body)"
proof
  show "verifyCsrfDoubleSubmit h c \<longleftrightarrow> (\<exists>t. t \<noteq> [] \<and> h = Some t \<and> c = Some t)"
    by (cases h; cases c) (auto simp: verifyCsrfDoubleSubmit_def truthy_def buffer_from_inj)
  show "verifySignature hmac body s k \<longleftrightarrow> s \<noteq> [] \<and> k \<noteq> [] \<and> s = hmac k body"
    by (auto simp: verifySignature_def Let_def same_bytes)
qed

text \<open>When the provider accepts a token, and as whom.\<close>

definition accepts :: "jose \<Rightarrow> verify_options \<Rightarrow> string \<Rightarrow> verified \<Rightarrow> bool" where
  "accepts jose opts token v \<longleftrightarrow> token \<noteq> [] \<and>
    (case jose (vo_key opts) (vo_audience opts) (vo_issuer opts) token of
       Inl err \<Rightarrow> False
     | Inr c \<Rightarrow> cl_sub c = Some (vd_sub v) \<and> vd_sub v \<noteq> [] \<and> cl_exp c = Some (vd_exp v) \<and>
         vd_role v = cl_role c \<and> vd_expiresAt v = 1000 * vd_exp v)"

definition fetchers :: "verify_options \<Rightarrow> auth_ctx \<Rightarrow> auth_ctx" where
  "fetchers opts s = (case vo_key opts of Hs256 k \<Rightarrow> s | Jwks url \<Rightarrow> getJWKS url s)"

lemma verifyToken_accepts:
  "accepts jose opts token v \<Longrightarrow> verifyToken jose token opts (fs, s) = (Inr v, (fs, fetchers opts s))"
  by (auto simp: accepts_def verifyToken_def bind_def fetchers_def split: sum.splits)

lemma verifyToken_rejects:
  assumes "\<And>v. \<not> accepts jose opts token v"
  shows "\<exists>e s'. verifyToken jose token opts (fs, s) = (Inl (Token e), (fs, s')) \<and> cx_auth s' = cx_auth s"
proof -
  have f: "cx_auth (fetchers opts s) = cx_auth s" by (simp add: fetchers_def getJWKS_def split: key_source.split)
  show ?thesis
  proof (cases "token = []")
    case True
    then show ?thesis by (simp add: verifyToken_def)
  next
    case ne: False
    show ?thesis
    proof (cases "jose (vo_key opts) (vo_audience opts) (vo_issuer opts) token")
      case (Inl e)
      then show ?thesis using ne f by (simp add: verifyToken_def bind_def fetchers_def [symmetric])
    next
      case (Inr c)
      have "\<not> (\<exists>sub e. cl_sub c = Some sub \<and> sub \<noteq> [] \<and> cl_exp c = Some e)"
      proof
        assume "\<exists>sub e. cl_sub c = Some sub \<and> sub \<noteq> [] \<and> cl_exp c = Some e"
        then obtain sub e where h: "cl_sub c = Some sub" "sub \<noteq> []" "cl_exp c = Some e" by blast
        then show False
          using assms [of "\<lparr>vd_sub = sub, vd_exp = e, vd_role = cl_role c, vd_expiresAt = 1000 * e\<rparr>"] ne Inr
          by (simp add: accepts_def)
      qed
      then show ?thesis using ne Inr f
        by (auto simp: verifyToken_def bind_def fetchers_def [symmetric] split: option.split)
    qed
  qed
qed

lemma no_fetcher_twice: "distinct (cx_jwks s) \<Longrightarrow> distinct (cx_jwks (fetchers opts s))"
  by (auto simp: fetchers_def getJWKS_def split: key_source.split)

lemma classified: "classifyError err = 401 \<or> classifyError err = 403"
  by (auto simp: classifyError_def split: auth_exn.split token_error.split)

lemma readable_token_decides:
  fixes jose opts cookieName
  defines "name \<equiv> (case cookieName of None \<Rightarrow> DEFAULT_COOKIE_NAME | Some n \<Rightarrow> n)"
  assumes token: "readToken decode auth cookie name = Inr token" and once: "distinct (cx_jwks s)"
  shows "(\<forall>v. truthy token \<and> accepts jose opts (the token) v \<longrightarrow>
           (\<exists>s'. distinct (cx_jwks s') \<and> cx_auth s' = Some v \<and>
             (\<forall>handler. requireAuth jose decode opts cookieName auth cookie handler (fs, s) =
                catch handler (\<lambda>err. ret (Failed (classifyError err) (reason_of err))) (fs, s') \<and>
              optionalAuth jose decode opts cookieName auth cookie handler (fs, s) = handler (fs, s')))) \<and>
         (\<not> (truthy token \<and> (\<exists>v. accepts jose opts (the token) v)) \<longrightarrow>
           (\<exists>code reason s'. (code = 401 \<or> code = 403) \<and> cx_auth s' = cx_auth s \<and>
             (\<forall>handler. requireAuth jose decode opts cookieName auth cookie handler (fs, s) =
                (Inr (Failed code reason), (fs, s')) \<and>
              optionalAuth jose decode opts cookieName auth cookie handler (fs, s) = handler (fs, s'))))"
proof (intro conjI allI impI)
  have start: "lift_sum (readToken decode auth cookie (case cookieName of None \<Rightarrow> DEFAULT_COOKIE_NAME | Some n \<Rightarrow> n)) w =
      (Inr token, w)" for w :: "auth_ctx world"
    using token by (simp add: name_def lift_sum_def)
  {
    fix v assume ok: "truthy token \<and> accepts jose opts (the token) v"
    then have v: "verifyToken jose (the token) opts (fs, s) = (Inr v, (fs, fetchers opts s))"
      by (simp add: verifyToken_accepts)
    show "\<exists>s'. distinct (cx_jwks s') \<and> cx_auth s' = Some v \<and>
             (\<forall>handler. requireAuth jose decode opts cookieName auth cookie handler (fs, s) =
                catch handler (\<lambda>err. ret (Failed (classifyError err) (reason_of err))) (fs, s') \<and>
              optionalAuth jose decode opts cookieName auth cookie handler (fs, s) = handler (fs, s'))"
      using ok v once
      by (intro exI [of _ "(fetchers opts s)\<lparr>cx_auth := Some v\<rparr>"])
        (simp add: requireAuth_def optionalAuth_def bind_def start set_auth_def catch_def no_fetcher_twice)
  }
  assume no: "\<not> (truthy token \<and> (\<exists>v. accepts jose opts (the token) v))"
  show "\<exists>code reason s'. (code = 401 \<or> code = 403) \<and> cx_auth s' = cx_auth s \<and>
             (\<forall>handler. requireAuth jose decode opts cookieName auth cookie handler (fs, s) =
                (Inr (Failed code reason), (fs, s')) \<and>
              optionalAuth jose decode opts cookieName auth cookie handler (fs, s) = handler (fs, s'))"
  proof (cases "truthy token")
    case False
    then show ?thesis
      by (intro exI [of _ 401] exI [of _ "''Unauthorized''"] exI [of _ s])
        (simp add: requireAuth_def optionalAuth_def bind_def start)
  next
    case True
    then obtain e s' where r: "verifyToken jose (the token) opts (fs, s) = (Inl (Token e), (fs, s'))"
        and k: "cx_auth s' = cx_auth s"
      using no verifyToken_rejects [of jose opts "the token" fs s] by blast
    show ?thesis using True r k classified [of "Token e"]
      by (intro exI [of _ "classifyError (Token e)"] exI [of _ "reason_of (Token e)"] exI [of _ s'])
        (simp add: requireAuth_def optionalAuth_def bind_def start catch_def)
  qed
qed

text \<open>
  C27. Behind \<^verbatim>\<open>requireAuth\<close> a handler runs for a request whose token the provider accepts, under the
  configured key, audience and issuer and with a subject and an expiry, and it then finds exactly
  that identity in the context. Without such a token the handler has no influence: the reply is 401
  or 403 and no identity is left behind. \<^verbatim>\<open>optionalAuth\<close> runs the handler in both cases, and attaches
  an identity only in the first. Neither asks twice for the same key set. When the token cannot even be
  read, because the cookie is no percent encoding, either middleware lets the error through
  before anything else happens: there is no 401, and under \<^verbatim>\<open>optionalAuth\<close> no run of the handler.
\<close>

theorem only_verified_requests_pass:
  fixes jose opts cookieName
  defines "name \<equiv> (case cookieName of None \<Rightarrow> DEFAULT_COOKIE_NAME | Some n \<Rightarrow> n)"
  assumes "distinct (cx_jwks s)"
  shows "case readToken decode auth cookie name of
      Inl e \<Rightarrow> (\<forall>handler. requireAuth jose decode opts cookieName auth cookie handler (fs, s) = (Inl e, (fs, s)) \<and>
         optionalAuth jose decode opts cookieName auth cookie handler (fs, s) = (Inl e, (fs, s)))
    | Inr token \<Rightarrow>
        (\<forall>v. truthy token \<and> accepts jose opts (the token) v \<longrightarrow>
           (\<exists>s'. distinct (cx_jwks s') \<and> cx_auth s' = Some v \<and>
             (\<forall>handler. requireAuth jose decode opts cookieName auth cookie handler (fs, s) =
                catch handler (\<lambda>err. ret (Failed (classifyError err) (reason_of err))) (fs, s') \<and>
              optionalAuth jose decode opts cookieName auth cookie handler (fs, s) = handler (fs, s')))) \<and>
        (\<not> (truthy token \<and> (\<exists>v. accepts jose opts (the token) v)) \<longrightarrow>
           (\<exists>code reason s'. (code = 401 \<or> code = 403) \<and> cx_auth s' = cx_auth s \<and>
             (\<forall>handler. requireAuth jose decode opts cookieName auth cookie handler (fs, s) =
                (Inr (Failed code reason), (fs, s')) \<and>
              optionalAuth jose decode opts cookieName auth cookie handler (fs, s) = handler (fs, s'))))"
proof (cases "readToken decode auth cookie name")
  case (Inl e)
  then show ?thesis by (simp add: name_def requireAuth_def optionalAuth_def bind_def lift_sum_def)
next
  case (Inr token)
  from readable_token_decides [OF this [unfolded name_def] assms(2), of jose opts fs] show ?thesis by (simp only: Inr sum.case)
qed

text \<open>A provider that knows one token of one audience.\<close>

definition sample_jose :: jose where
  "sample_jose k aud iss t =
    (if t \<noteq> ''t1'' then Inl (OtherError ''bad'')
     else if aud = None \<or> ''web'' \<in> set (the aud)
     then Inr \<lparr>cl_sub = Some ''u7'', cl_exp = Some 90, cl_role = None\<rparr>
     else Inl (ClaimFailed ''aud'' ''unexpected''))"

definition sample_options :: verify_options where
  "sample_options = \<lparr>vo_key = Jwks ''https://auth/jwks'', vo_audience = Some [''web''], vo_issuer = None\<rparr>"

lemma only_verified_requests_pass_witness:
  "\<exists>s'. cx_auth s' = Some \<lparr>vd_sub = ''u7'', vd_exp = 90, vd_role = None, vd_expiresAt = 90000\<rparr> \<and>
    optionalAuth sample_jose Some sample_options None (Some ''Bearer  t1'') None (ret (Reply 200 True)) ([], \<lparr>cx_auth = None, cx_jwks = []\<rparr>) =
      (Inr (Reply 200 True), ([], s'))"
proof -
  have r: "readToken Some (Some ''Bearer  t1'') None (case None of None \<Rightarrow> DEFAULT_COOKIE_NAME | Some n \<Rightarrow> n) = Inr (Some ''t1'')"
    by code_simp
  have a: "truthy (Some ''t1'') \<and> accepts sample_jose sample_options (the (Some ''t1''))
      \<lparr>vd_sub = ''u7'', vd_exp = 90, vd_role = None, vd_expiresAt = 90000\<rparr>"
    by (simp add: accepts_def sample_jose_def sample_options_def truthy_def)
  have d: "distinct (cx_jwks \<lparr>cx_auth = None, cx_jwks = []\<rparr>)" by simp
  note claim = only_verified_requests_pass [OF d, where decode = Some and auth = "Some ''Bearer  t1''" and cookie = None and cookieName = None, unfolded r sum.case]
  from conjunct1 [OF claim, THEN spec, THEN mp, OF a]
  obtain s' where "cx_auth s' = Some \<lparr>vd_sub = ''u7'', vd_exp = 90, vd_role = None, vd_expiresAt = 90000\<rparr>"
    and "\<And>handler. optionalAuth sample_jose Some sample_options None (Some ''Bearer  t1'') None handler
        ([], \<lparr>cx_auth = None, cx_jwks = []\<rparr>) = (handler ([], s') :: (auth_exn + bool reply) \<times> auth_ctx world)"
    by blast
  then show ?thesis by (intro exI [of _ s']) simp
qed

text \<open>
  A cookie whose value is no percent encoding: \<^verbatim>\<open>decodeURIComponent\<close> throws before the try of either
  middleware, so that the request ends in an error and not in a 401, and under \<^verbatim>\<open>optionalAuth\<close> too.
\<close>

lemma broken_cookie_escapes:
  "readToken (\<lambda>v. None) None (Some ''leetrank_session=%'') DEFAULT_COOKIE_NAME = Inl UriError"
  by code_simp

lemma broken_cookie_ends_both:
  assumes "readToken decode auth cookie DEFAULT_COOKIE_NAME = Inl UriError"
  shows "requireAuth jose decode opts None auth cookie handler w = (Inl UriError, w)"
    and "optionalAuth jose decode opts None auth cookie handler w = (Inl UriError, w)"
  using assms by (simp_all add: requireAuth_def optionalAuth_def bind_def lift_sum_def)

text \<open>A caller of \<^verbatim>\<open>signedFetch\<close> that passes headers replaces the signature by one of its own.\<close>

lemma headers_replace_signature:
  "signedFetch hmac url body ''k'' [(''X-Signature-SHA256'', x)] =
    Inr \<lparr>sq_url = url, sq_body = body,
         sq_headers = [(''Content-Type'', ''application/json''), (''X-Signature-SHA256'', x)]\<rparr>"
  by (simp add: signedFetch_def)

end
