(* ===== verification/Observability.thy ===== *)
theory Observability
  imports Guards ApiMetrics
begin

section \<open>Counters, probes and the operations console\<close>

text \<open>
  What tells the operators how the application does: the counters of \<^verbatim>\<open>src/lib/metrics.ts\<close> and the
  wrapper of \<^verbatim>\<open>src/lib/server-timing.ts\<close> that keeps them, the routes \<^verbatim>\<open>/api/metrics\<close>, \<^verbatim>\<open>/api/status\<close>,
  \<^verbatim>\<open>/api/health\<close> and \<^verbatim>\<open>/api/judge/health\<close>, and \<^verbatim>\<open>src/lib/devops/aggregator.ts\<close> with the two admin
  routes. The network is a parameter: what each URL answers and after how long, and how a body is read.
\<close>

subsection \<open>The counters (metrics.ts)\<close>

record http_counters =
  hc_total :: nat
  hc_byStatus :: "(nat, nat) jsmap"
  hc_slowQueries :: nat
  hc_missingRequestId :: nat

definition no_http_counters :: http_counters where
  "no_http_counters = \<lparr>hc_total = 0, hc_byStatus = [], hc_slowQueries = 0, hc_missingRequestId = 0\<rparr>"

definition recordHttp :: "nat \<Rightarrow> http_counters \<Rightarrow> http_counters" where
  "recordHttp status c =
    c\<lparr>hc_total := hc_total c + 1,
      hc_byStatus := jm_set status ((case jm_get (hc_byStatus c) status of None \<Rightarrow> 0 | Some n \<Rightarrow> n) + 1) (hc_byStatus c)\<rparr>"

definition recordSlowQuery :: "http_counters \<Rightarrow> http_counters" where
  "recordSlowQuery c = c\<lparr>hc_slowQueries := hc_slowQueries c + 1\<rparr>"

definition recordMissingRequestId :: "http_counters \<Rightarrow> http_counters" where
  "recordMissingRequestId c = c\<lparr>hc_missingRequestId := hc_missingRequestId c + 1\<rparr>"

text \<open>An object lists keys that are whole numbers in ascending order.\<close>

definition snapshotHttp :: "http_counters \<Rightarrow> nat \<times> (nat \<times> nat) list" where
  "snapshotHttp c = (hc_total c, sort_key fst (hc_byStatus c))"

text \<open>The query event of db.ts.\<close>

definition query_event :: "int \<Rightarrow> int \<Rightarrow> http_counters \<Rightarrow> http_counters" where
  "query_event SLOW_QUERY_MS duration c = (if duration \<ge> SLOW_QUERY_MS then recordSlowQuery c else c)"

subsection \<open>The state, replies and the wrapper (server-timing.ts)\<close>

record ops_db =
  od_http :: http_counters
  od_users :: nat
  od_problems :: nat
  od_subs :: "(string \<times> int) list"
  od_lockouts :: "int list option"
  od_limits :: buckets
  od_cache :: "unit cache"

text \<open>Header names are written in lower case, as \<^verbatim>\<open>Headers\<close> compares them.\<close>

record 'b response =
  rp_status :: nat
  rp_headers :: "(string, string) jsmap"
  rp_body :: 'b

definition http_op :: "(http_counters \<Rightarrow> http_counters) \<Rightarrow> (ops_db, string, unit) prog" where
  "http_op f = state_op (\<lambda>s. ((), s\<lparr>od_http := f (od_http s)\<rparr>))"

definition timing_headers :: "string \<Rightarrow> nat \<Rightarrow> (string, string) jsmap \<Rightarrow> (string, string) jsmap" where
  "timing_headers label elapsed headers =
    (let h = jm_set ''x-response-time'' (show_nat elapsed @ ''ms'') headers;
         existing = jm_get h ''server-timing'';
         this = label @ '';dur='' @ show_nat elapsed
     in jm_set ''server-timing'' (if truthy existing then the existing @ '', '' @ this else this) h)"

text \<open>\<open>request\<close> is None for a call without a request, else its \<^verbatim>\<open>x-request-id\<close>.\<close>

definition withTiming ::
  "string \<Rightarrow> string option option \<Rightarrow> nat \<Rightarrow> (ops_db, string, 'b response) prog \<Rightarrow> (ops_db, string, 'b response) prog" where
  "withTiming label request elapsed handler =
    bind (case request of None \<Rightarrow> ret ()
          | Some id' \<Rightarrow> if \<not> truthy id' then http_op recordMissingRequestId else ret ()) (\<lambda>_.
    bind handler (\<lambda>response.
    bind (http_op (recordHttp (rp_status response))) (\<lambda>_.
    ret (response\<lparr>rp_headers := timing_headers label elapsed (rp_headers response)\<rparr>))))"

subsection \<open>The text of the scrape (api/metrics)\<close>

definition fmt :: "string \<Rightarrow> string \<Rightarrow> string \<Rightarrow> string list \<Rightarrow> string" where
  "fmt name help kind samples =
    ''# HELP '' @ name @ '' '' @ help @ [CHR 0x0A] @ ''# TYPE '' @ name @ '' '' @ kind @ [CHR 0x0A] @
    join_with [CHR 0x0A] samples @ [CHR 0x0A]"

definition status_label :: "string \<Rightarrow> string" where
  "status_label s = ''{status='' @ [CHR 0x22] @ s @ [CHR 0x22] @ ''} ''"

definition scrape_text :: "nat \<Rightarrow> nat \<Rightarrow> nat \<Rightarrow> nat \<Rightarrow> nat \<Rightarrow> http_counters \<Rightarrow> string" where
  "scrape_text uptimeSeconds userCount problemCount submissionTotal submissionAccepted c =
    join_with [CHR 0x0A]
      [fmt ''leetrank_uptime_seconds'' ''Process uptime in seconds'' ''gauge''
         [''leetrank_uptime_seconds '' @ show_nat uptimeSeconds],
       fmt ''leetrank_users_total'' ''Total registered users'' ''gauge''
         [''leetrank_users_total '' @ show_nat userCount],
       fmt ''leetrank_problems_total'' ''Total problems published'' ''gauge''
         [''leetrank_problems_total '' @ show_nat problemCount],
       fmt ''leetrank_submissions_total'' ''All-time submission count'' ''counter''
         [''leetrank_submissions_total'' @ status_label ''all'' @ show_nat submissionTotal,
          ''leetrank_submissions_total'' @ status_label ''accepted'' @ show_nat submissionAccepted],
       fmt ''leetrank_http_requests_total'' ''HTTP requests served by this process'' ''counter''
         ((''leetrank_http_requests_total '' @ show_nat (fst (snapshotHttp c))) #
          map (\<lambda>(status, n). ''leetrank_http_requests_total'' @ status_label (show_nat status) @ show_nat n)
            (snd (snapshotHttp c))),
       fmt ''leetrank_db_slow_queries_total'' ''Prisma queries exceeding SLOW_QUERY_MS'' ''counter''
         [''leetrank_db_slow_queries_total '' @ show_nat (hc_slowQueries c)],
       fmt ''leetrank_http_requests_missing_request_id_total''
         ''Requests served without an X-Request-Id header (middleware not run)'' ''counter''
         [''leetrank_http_requests_missing_request_id_total '' @ show_nat (hc_missingRequestId c)]]"

definition counts_of_db :: "(ops_db, string, nat \<times> nat \<times> nat \<times> nat) prog" where
  "counts_of_db =
    bind (query ''db'' od_users) (\<lambda>users.
    bind (query ''db'' od_problems) (\<lambda>problems.
    bind (query ''db'' (\<lambda>s. length (od_subs s))) (\<lambda>total.
    bind (query ''db'' (\<lambda>s. length (filter (\<lambda>x. fst x = ''accepted'') (od_subs s)))) (\<lambda>accepted.
    ret (users, problems, total, accepted)))))"

definition metrics_handler :: "nat \<Rightarrow> (ops_db, string, string response) prog" where
  "metrics_handler uptimeMs =
    bind (state_op (\<lambda>s. (od_http s, s))) (\<lambda>http.
    bind (catch counts_of_db (\<lambda>_. ret (0, 0, 0, 0))) (\<lambda>(users, problems, total, accepted).
    ret \<lparr>rp_status = 200, rp_headers = [(''content-type'', ''text/plain; version=0.0.4; charset=utf-8'')],
         rp_body = scrape_text (uptimeMs div 1000) users problems total accepted http\<rparr>))"

definition metrics_GET :: "string option option \<Rightarrow> nat \<Rightarrow> nat \<Rightarrow> (ops_db, string, string response) prog" where
  "metrics_GET request elapsed uptimeMs = withTiming ''metrics'' request elapsed (metrics_handler uptimeMs)"

subsection \<open>Probes, and the public status (api/status, api/health, api/judge/health)\<close>

text \<open>
  A request to a URL with headers ends in an error or in a status and a body; \<open>nt_took\<close> is how long
  a probe of it took, \<open>nt_ping\<close> a query of the database.
\<close>

record net =
  nt_env :: "string \<Rightarrow> string option"
  nt_fetch :: "string \<Rightarrow> (string \<times> string) list \<Rightarrow> string + nat \<times> string"
  nt_took :: "string \<Rightarrow> nat"
  nt_ping :: nat
  nt_iso :: string

definition res_ok :: "nat \<Rightarrow> bool" where
  "res_ok status \<longleftrightarrow> 200 \<le> status \<and> status < 300"

datatype service_health = Operational | Degraded | Down

record service_tile =
  st_id :: string
  st_name :: string
  st_status :: service_health
  st_latencyMs :: nat

definition probeHttp :: "net \<Rightarrow> string \<Rightarrow> bool \<times> nat" where
  "probeHttp n url = ((case nt_fetch n url [] of Inl err \<Rightarrow> False | Inr (status, body) \<Rightarrow> res_ok status), nt_took n url)"

text \<open>\<^verbatim>\<open>process.env.X ?? d\<close> keeps an empty value, \<^verbatim>\<open>envOr\<close> does not.\<close>

definition env_or_default :: "net \<Rightarrow> string \<Rightarrow> string \<Rightarrow> string" where
  "env_or_default n name d = (case nt_env n name of None \<Rightarrow> d | Some v \<Rightarrow> v)"

definition envOr :: "net \<Rightarrow> string \<Rightarrow> string \<Rightarrow> string" where
  "envOr n name d = (if truthy (nt_env n name) then the (nt_env n name) else d)"

definition checkWeb :: "net \<Rightarrow> (ops_db, string, service_tile) prog" where
  "checkWeb n =
    (let tile = (\<lambda>h. \<lparr>st_id = ''web'', st_name = ''Next.js Web'', st_status = h, st_latencyMs = nt_ping n\<rparr>)
     in catch (bind (query ''db'' (\<lambda>_. ())) (\<lambda>_. ret (tile Operational))) (\<lambda>_. ret (tile Down)))"

definition checkApi :: "net \<Rightarrow> service_tile" where
  "checkApi n =
    (let API_URL = env_or_default n ''API_INTERNAL_URL'' ''http://api:4000'';
         (alive, l1) = probeHttp n (API_URL @ ''/healthz'');
         (ready, l2) = probeHttp n (API_URL @ ''/readyz'')
     in \<lparr>st_id = ''api'', st_name = ''API (Hono)'',
         st_status = (if \<not> alive then Down else if \<not> ready then Degraded else Operational),
         st_latencyMs = max l1 l2\<rparr>)"

definition tile_of :: "string \<Rightarrow> string \<Rightarrow> bool \<times> nat \<Rightarrow> service_tile" where
  "tile_of i name r = \<lparr>st_id = i, st_name = name, st_status = (if fst r then Operational else Down), st_latencyMs = snd r\<rparr>"

definition checkAuth :: "net \<Rightarrow> service_tile" where
  "checkAuth n = tile_of ''identity'' ''Identity Service''
    (probeHttp n (env_or_default n ''AUTH_INTERNAL_URL'' ''http://identity:4011'' @ ''/healthz''))"

definition status_checkJudge :: "net \<Rightarrow> service_tile" where
  "status_checkJudge n = tile_of ''judge'' ''Judge Service''
    (probeHttp n (env_or_default n ''JUDGE_INTERNAL_URL'' ''http://judge:9090'' @ ''/health''))"

definition overall_health :: "service_tile list \<Rightarrow> service_health" where
  "overall_health tiles =
    (if list_ex (\<lambda>s. st_status s = Down) tiles then Down
     else if list_ex (\<lambda>s. st_status s = Degraded) tiles then Degraded else Operational)"

record health_snapshot =
  hs_overall :: service_health
  hs_services :: "service_tile list"
  hs_checkedAt :: string

definition no_store :: "(string, string) jsmap" where
  "no_store = [(''cache-control'', ''no-store'')]"

definition status_GET :: "net \<Rightarrow> string option option \<Rightarrow> nat \<Rightarrow> (ops_db, string, health_snapshot response) prog" where
  "status_GET n request elapsed =
    withTiming ''status'' request elapsed
      (bind (checkWeb n) (\<lambda>web.
       let services = [web, checkApi n, checkAuth n, status_checkJudge n]
       in ret \<lparr>rp_status = 200, rp_headers = no_store,
            rp_body = \<lparr>hs_overall = overall_health services, hs_services = services, hs_checkedAt = nt_iso n\<rparr>\<rparr>))"

datatype service_state = Ok nat | Degrades nat string | IsDown string

definition checkDb :: "net \<Rightarrow> (ops_db, string, service_state) prog" where
  "checkDb n = catch (bind (query ''db'' (\<lambda>_. ())) (\<lambda>_. ret (Ok (nt_ping n)))) (\<lambda>err. ret (IsDown err))"

definition health_checkJudge :: "net \<Rightarrow> service_state" where
  "health_checkJudge n =
    (let url = envOr n ''JUDGE_SERVICE_URL'' ''http://localhost:9090'' @ ''/health''
     in case nt_fetch n url [] of
          Inl err \<Rightarrow> IsDown err
        | Inr (status, body) \<Rightarrow>
            if \<not> res_ok status then Degrades (nt_took n url) (''HTTP '' @ show_nat status) else Ok (nt_took n url))"

record health_report =
  hr_ok :: bool
  hr_uptimeSeconds :: nat
  hr_database :: service_state
  hr_judge :: service_state

fun is_ok :: "service_state \<Rightarrow> bool" where
  "is_ok (Ok l) = True"
| "is_ok _ = False"

fun is_down :: "service_state \<Rightarrow> bool" where
  "is_down (IsDown e) = True"
| "is_down _ = False"

definition health_GET :: "net \<Rightarrow> string option option \<Rightarrow> nat \<Rightarrow> nat \<Rightarrow> (ops_db, string, health_report response) prog" where
  "health_GET n request elapsed uptimeMs =
    withTiming ''health'' request elapsed
      (bind (checkDb n) (\<lambda>db.
       let judge = health_checkJudge n
       in ret \<lparr>rp_status = (if is_down db then 503 else 200), rp_headers = [],
            rp_body = \<lparr>hr_ok = (is_ok db \<and> is_ok judge), hr_uptimeSeconds = uptimeMs div 1000,
                       hr_database = db, hr_judge = judge\<rparr>\<rparr>))"

text \<open>\<open>read\<close> gives the status and the scheduler text of the judge's body, where they are, or throws.\<close>

datatype judge_health = JudgeDegraded nat | JudgeUp string "string option" | JudgeDown string

definition judge_health_GET :: "net \<Rightarrow> (string \<Rightarrow> string + string option \<times> string option) \<Rightarrow> nat \<times> judge_health" where
  "judge_health_GET n read =
    (case nt_fetch n (envOr n ''JUDGE_SERVICE_URL'' ''http://localhost:9090'' @ ''/health'') [] of
       Inl err \<Rightarrow> (503, JudgeDown err)
     | Inr (status, body) \<Rightarrow>
         if \<not> res_ok status then (502, JudgeDegraded status)
         else case read body of
                Inl err \<Rightarrow> (503, JudgeDown err)
              | Inr (st, sched) \<Rightarrow> (200, JudgeUp (case st of None \<Rightarrow> ''ok'' | Some t \<Rightarrow> t) sched))"

subsection \<open>The operations console (devops/aggregator.ts)\<close>

text \<open>\<^verbatim>\<open>Result\<close>: the data, or the error of its tile.\<close>

type_synonym 'a tile = "string + 'a"

definition SERVICES :: "(string \<times> string \<times> string \<times> string \<times> string) list" where
  "SERVICES =
    [(''web'', ''Next.js Web'', '''', '''', ''''),
     (''api'', ''API (Hono)'', ''API_INTERNAL_URL'', ''http://api:4000'', ''/healthz''),
     (''auth'', ''Auth (Go)'', ''AUTH_INTERNAL_URL'', ''http://identity:4011'', ''/healthz''),
     (''problems'', ''Problems (Go)'', ''PROBLEMS_INTERNAL_URL'', ''http://problems:4012'', ''/healthz''),
     (''submissions'', ''Submissions (Go)'', ''SUBMISSIONS_INTERNAL_URL'', ''http://submissions:4013'', ''/healthz''),
     (''realtime'', ''Realtime (Go)'', ''REALTIME_INTERNAL_URL'', ''http://realtime:4014'', ''/healthz''),
     (''leaderboard'', ''Leaderboard (Rust)'', ''LEADERBOARD_INTERNAL_URL'', ''http://leaderboard:4015'', ''/healthz''),
     (''notifications'', ''Notifications (Ruby)'', ''NOTIFICATIONS_INTERNAL_URL'', ''http://notifications:4016'', ''/healthz''),
     (''analytics'', ''Analytics (Python)'', ''ANALYTICS_INTERNAL_URL'', ''http://analytics:4017'', ''/healthz''),
     (''judge'', ''Judge'', ''JUDGE_INTERNAL_URL'', ''http://judge:9090'', ''/health'')]"

text \<open>The tiles, one after the other; only that of the application itself asks the database.\<close>

fun service_tiles :: "net \<Rightarrow> (string \<times> string \<times> string \<times> string \<times> string) list \<Rightarrow> (ops_db, string, service_tile list) prog" where
  "service_tiles n [] = ret []"
| "service_tiles n ((i, name, var, d, path) # svcs) =
    bind (if i = ''web'' then checkWeb n else ret (tile_of i name (probeHttp n (envOr n var d @ path)))) (\<lambda>t.
    bind (service_tiles n svcs) (\<lambda>ts. ret (t # ts)))"

definition getServiceHealth :: "net \<Rightarrow> (ops_db, string, health_snapshot tile) prog" where
  "getServiceHealth n =
    catch (bind (service_tiles n SERVICES) (\<lambda>tiles.
             ret (Inr \<lparr>hs_overall = overall_health tiles, hs_services = tiles, hs_checkedAt = nt_iso n\<rparr>)))
      (\<lambda>err. ret (Inl err))"

text \<open>
  The workflow runs as GitHub lists them: a field that is missing is None; \<open>gr_conclusion\<close> tells
  a missing field from null, \<open>gr_id\<close> is what \<^verbatim>\<open>Number\<close> reads.
\<close>

record github_run =
  gr_id :: js_int
  gr_name :: "string option"
  gr_display_title :: "string option"
  gr_status :: "string option"
  gr_conclusion :: "string option option"
  gr_html_url :: "string option"
  gr_head_branch :: "string option"
  gr_head_sha :: "string option"
  gr_created_at :: "string option"

record ci_run =
  ci_id :: js_int
  ci_name :: string
  ci_status :: string
  ci_conclusion :: "string option"
  ci_htmlUrl :: string
  ci_headBranch :: string
  ci_headSha :: string
  ci_createdAt :: string

definition or_text :: "string option \<Rightarrow> string \<Rightarrow> string" where
  "or_text x d = (case x of None \<Rightarrow> d | Some t \<Rightarrow> t)"

definition ci_run_of :: "net \<Rightarrow> github_run \<Rightarrow> ci_run" where
  "ci_run_of n r =
    \<lparr>ci_id = gr_id r,
     ci_name = or_text (gr_name r) (or_text (gr_display_title r) ''workflow''),
     ci_status = or_text (gr_status r) ''unknown'',
     ci_conclusion = (case gr_conclusion r of None \<Rightarrow> Some ''undefined'' | Some c \<Rightarrow> c),
     ci_htmlUrl = or_text (gr_html_url r) [], ci_headBranch = or_text (gr_head_branch r) [],
     ci_headSha = take 7 (or_text (gr_head_sha r) []), ci_createdAt = or_text (gr_created_at r) (nt_iso n)\<rparr>"

datatype ci_outcome = CiRuns "ci_run list" string | CiError string | TokenMissing

definition getCiRuns :: "net \<Rightarrow> (string \<Rightarrow> string + github_run list option) \<Rightarrow> nat \<Rightarrow> ci_outcome" where
  "getCiRuns n read limit =
    (let token = nt_env n ''GH_DEVOPS_TOKEN''; repo = envOr n ''GH_DEVOPS_REPO'' ''JasonTM17/LeetRank_Project''
     in if \<not> truthy token then TokenMissing
        else case nt_fetch n (''https://api.github.com/repos/'' @ repo @ ''/actions/runs?per_page='' @ show_nat limit)
                    [(''accept'', ''application/vnd.github+json''), (''authorization'', ''Bearer '' @ the token),
                     (''x-github-api-version'', ''2022-11-28'')] of
               Inl err \<Rightarrow> CiError err
             | Inr (status, body) \<Rightarrow>
                 if \<not> res_ok status then CiError (''GitHub API '' @ show_nat status)
                 else case read body of
                        Inl err \<Rightarrow> CiError err
                      | Inr runs \<Rightarrow> CiRuns (map (ci_run_of n) (take limit (case runs of None \<Rightarrow> [] | Some rs \<Rightarrow> rs))) repo)"

definition in_last_hour :: "int \<Rightarrow> int \<Rightarrow> bool" where
  "in_last_hour now t \<longleftrightarrow> now - 60 * 60 * 1000 \<le> t"

definition getSubmissionRate :: "int \<Rightarrow> (ops_db, string, nat tile) prog" where
  "getSubmissionRate now =
    catch (bind (query ''db'' (\<lambda>s. length (filter (\<lambda>x. in_last_hour now (snd x)) (od_subs s)))) (\<lambda>lastHour. ret (Inr lastHour)))
      (\<lambda>err. ret (Inl err))"

text \<open>The client of this schema has no \<^verbatim>\<open>accountLockout\<close>: then \<open>od_lockouts\<close> is None.\<close>

definition getLockoutCount :: "int \<Rightarrow> (ops_db, string, nat tile) prog" where
  "getLockoutCount now =
    bind (state_op (\<lambda>s. (od_lockouts s, s))) (\<lambda>model.
    case model of
      None \<Rightarrow> ret (Inr 0)
    | Some rows \<Rightarrow>
        catch (bind (query ''db'' (\<lambda>s. case od_lockouts s of None \<Rightarrow> 0 | Some ts \<Rightarrow> length (filter (in_last_hour now) ts)))
                (\<lambda>count. ret (Inr count)))
          (\<lambda>err. ret (Inl err)))"

definition getSandboxEscapes :: "nat tile" where "getSandboxEscapes = Inr 0"

text \<open>
  \<^verbatim>\<open>/^submissions_queue_depth\s+([0-9.]+)/m\<close>: the first line that starts with the name, white space
  and a number; \<^verbatim>\<open>Number\<close> of it is NaN with two points or with no digit.
\<close>

definition number_char :: "char \<Rightarrow> bool" where
  "number_char c \<longleftrightarrow> is_digit c \<or> c = CHR ''.''"

definition depth_at :: "string \<Rightarrow> string option" where
  "depth_at t =
    (let rest = drop (length ''submissions_queue_depth'') t; number = takeWhile number_char (dropWhile is_space rest)
     in if starts_with ''submissions_queue_depth'' t \<and> rest \<noteq> [] \<and> is_space (hd rest) \<and> number \<noteq> [] then Some number else None)"

fun depth_match :: "bool \<Rightarrow> string \<Rightarrow> string option" where
  "depth_match line_start [] = None"
| "depth_match line_start (c # cs) =
    (case (if line_start then depth_at (c # cs) else None) of
       Some number \<Rightarrow> Some number
     | None \<Rightarrow> depth_match (c = CHR 0x0A \<or> c = CHR 0x0D) cs)"

definition floor_number :: "string \<Rightarrow> js_int" where
  "floor_number s =
    (if length (filter (\<lambda>c. c = CHR ''.'') s) > 1 \<or> \<not> list_ex is_digit s then NaN
     else Fin (int (read_nat (takeWhile is_digit s))))"

record queue_depth =
  qd_depth :: "js_int option"
  qd_prometheus :: bool

definition getQueueDepth :: "net \<Rightarrow> queue_depth tile" where
  "getQueueDepth n =
    (let placeholder = \<lparr>qd_depth = None, qd_prometheus = False\<rparr>
     in case nt_fetch n (envOr n ''SUBMISSIONS_INTERNAL_URL'' ''http://submissions:4013'' @ ''/metrics'') [] of
          Inl err \<Rightarrow> Inr placeholder
        | Inr (status, text') \<Rightarrow>
            if \<not> res_ok status then Inr placeholder
            else let depth = map_option floor_number (depth_match True text')
                 in Inr \<lparr>qd_depth = depth, qd_prometheus = (depth \<noteq> None)\<rparr>)"

record security_events =
  sv_sandboxEscapes :: nat
  sv_lockoutsLastHour :: nat

definition getSecurityEvents :: "int \<Rightarrow> (ops_db, string, security_events tile) prog" where
  "getSecurityEvents now =
    bind (getLockoutCount now) (\<lambda>lockouts.
    let escapes = getSandboxEscapes
    in ret (Inr \<lparr>sv_sandboxEscapes = (case escapes of Inl e \<Rightarrow> 0 | Inr k \<Rightarrow> k),
                 sv_lockoutsLastHour = (case lockouts of Inl e \<Rightarrow> 0 | Inr k \<Rightarrow> k)\<rparr>))"

record devops_snapshot =
  ds_serviceHealth :: "health_snapshot tile"
  ds_ciRuns :: ci_outcome
  ds_submissionRate :: "nat tile"
  ds_queueDepth :: "queue_depth tile"
  ds_securityEvents :: "security_events tile"
  ds_generatedAt :: string

definition buildSnapshot :: "net \<Rightarrow> (string \<Rightarrow> string + github_run list option) \<Rightarrow> int \<Rightarrow> (ops_db, string, devops_snapshot) prog" where
  "buildSnapshot n read now =
    bind (getServiceHealth n) (\<lambda>serviceHealth.
    bind (getSubmissionRate now) (\<lambda>submissionRate.
    bind (getSecurityEvents now) (\<lambda>securityEvents.
    ret \<lparr>ds_serviceHealth = serviceHealth, ds_ciRuns = getCiRuns n read 5, ds_submissionRate = submissionRate,
         ds_queueDepth = getQueueDepth n, ds_securityEvents = securityEvents, ds_generatedAt = nt_iso n\<rparr>)))"

definition ops_guarded :: "session option \<Rightarrow> int \<Rightarrow> (session \<Rightarrow> (ops_db, string, 'b reply) prog) \<Rightarrow> (ops_db, string, 'b reply) prog" where
  "ops_guarded = guarded od_limits (\<lambda>b s. s\<lparr>od_limits := b\<rparr>)"

definition snapshot_GET ::
  "net \<Rightarrow> (string \<Rightarrow> string + github_run list option) \<Rightarrow> session option \<Rightarrow> int \<Rightarrow> (ops_db, string, devops_snapshot reply) prog" where
  "snapshot_GET n read session now =
    ops_guarded session now (\<lambda>se. bind (buildSnapshot n read now) (\<lambda>snapshot. ret (Reply 200 snapshot)))"

text \<open>\<^verbatim>\<open>Math.round(hitRate * 1000) / 10\<close>\<close>

definition hit_rate_percent :: "rat \<Rightarrow> rat" where
  "hit_rate_percent r = of_int \<lfloor>r * 1000 + 1 / 2\<rfloor> / 10"

definition cache_stats_GET :: "session option \<Rightarrow> int \<Rightarrow> (ops_db, string, (cache_statistics \<times> rat) reply) prog" where
  "cache_stats_GET session now =
    ops_guarded session now (\<lambda>se.
      bind (state_op (\<lambda>s. (cache_stats (od_cache s), s))) (\<lambda>stats.
      ret (Reply 200 (stats, hit_rate_percent (cs_hitRate stats)))))"

interpretation ops: limiter_part od_limits "\<lambda>b s. s\<lparr>od_limits := b\<rparr>"
  by unfold_locales simp

subsection \<open>The counters count\<close>

type_synonym 'b timed_request = "string \<times> string option option \<times> nat \<times> (ops_db, string, 'b response) prog \<times> bool list"

fun serve :: "'b timed_request list \<Rightarrow> ops_db \<Rightarrow> (string + 'b response) list \<times> ops_db" where
  "serve [] s = ([], s)"
| "serve ((label, request, elapsed, handler, fs) # qs) s =
    (let run = withTiming label request elapsed handler (fs, s); rest = serve qs (snd (snd run))
     in (fst run # fst rest, snd rest))"

text \<open>A handler that keeps no counters itself.\<close>

definition leaves_counters :: "(ops_db, string, 'b) prog \<Rightarrow> bool" where
  "leaves_counters m \<longleftrightarrow> moves (\<lambda>s t. od_http t = od_http s) m"

definition with_status :: "nat \<Rightarrow> (string + 'b response) list \<Rightarrow> nat" where
  "with_status st rs = length (filter (\<lambda>r. case r of Inl e \<Rightarrow> False | Inr x \<Rightarrow> rp_status x = st) rs)"

definition answered :: "(string + 'b response) list \<Rightarrow> nat" where
  "answered rs = length (filter (\<lambda>r. case r of Inl e \<Rightarrow> False | Inr x \<Rightarrow> True) rs)"

definition without_id :: "'b timed_request list \<Rightarrow> nat" where
  "without_id qs = length (filter (\<lambda>q. case fst (snd q) of None \<Rightarrow> False | Some id' \<Rightarrow> \<not> truthy id') qs)"

definition count_at :: "nat \<Rightarrow> http_counters \<Rightarrow> nat" where
  "count_at st c = (case jm_get (hc_byStatus c) st of None \<Rightarrow> 0 | Some n \<Rightarrow> n)"

lemma bumped_sum:
  "sum_list (map snd (jm_set k (Suc (case jm_get m k of None \<Rightarrow> 0 | Some n \<Rightarrow> n)) m)) = Suc (sum_list (map snd m))"
  by (induction m) auto

lemma recordHttp_simps [simp]:
  "hc_total (recordHttp st c) = hc_total c + 1"
  "count_at j (recordHttp st c) = count_at j c + (if j = st then 1 else 0)"
  "hc_missingRequestId (recordHttp st c) = hc_missingRequestId c"
  "sum_list (map snd (hc_byStatus (recordHttp st c))) = sum_list (map snd (hc_byStatus c)) + 1"
  "jm_ok (hc_byStatus c) \<Longrightarrow> jm_ok (hc_byStatus (recordHttp st c))"
  by (simp_all add: recordHttp_def count_at_def jm_get_set bumped_sum jm_ok_set)

lemma missing_simps [simp]:
  "hc_total (recordMissingRequestId c) = hc_total c"
  "hc_byStatus (recordMissingRequestId c) = hc_byStatus c"
  "count_at j (recordMissingRequestId c) = count_at j c"
  "hc_missingRequestId (recordMissingRequestId c) = hc_missingRequestId c + 1"
  by (simp_all add: recordMissingRequestId_def count_at_def)

definition unnamed :: "string option option \<Rightarrow> http_counters \<Rightarrow> http_counters" where
  "unnamed request c =
    (case request of None \<Rightarrow> c | Some id' \<Rightarrow> if \<not> truthy id' then recordMissingRequestId c else c)"

lemma withTiming_counts:
  assumes "leaves_counters handler" "withTiming label request elapsed handler (fs, s) = (r, w)"
  shows "od_http (snd w) =
    (case r of Inl e \<Rightarrow> unnamed request (od_http s) | Inr x \<Rightarrow> recordHttp (rp_status x) (unnamed request (od_http s)))"
proof -
  obtain s1 where s1: "(case request of None \<Rightarrow> ret ()
          | Some id' \<Rightarrow> if \<not> truthy id' then http_op recordMissingRequestId else ret ()) (fs, s) = (Inr (), (fs, s1))"
      and c1: "od_http s1 = unnamed request (od_http s)"
    by (rule that [of "case request of None \<Rightarrow> s | Some id' \<Rightarrow>
          if \<not> truthy id' then s\<lparr>od_http := recordMissingRequestId (od_http s)\<rparr> else s"])
      (simp_all add: http_op_def unnamed_def split: option.split)
  obtain q gs s2 where h: "handler (fs, s1) = (q, (gs, s2))" by (metis prod.exhaust)
  have c2: "od_http s2 = od_http s1"
    using assms(1) h unfolding leaves_counters_def moves_def after_def by (metis snd_conv)
  show ?thesis
    using assms(2) by (cases q) (auto simp: withTiming_def bind_def s1 h http_op_def c1 c2)
qed

lemma unnamed_simps [simp]:
  "hc_total (unnamed request c) = hc_total c"
  "hc_byStatus (unnamed request c) = hc_byStatus c"
  "count_at j (unnamed request c) = count_at j c"
  "hc_missingRequestId (unnamed request c) =
    hc_missingRequestId c + (case request of None \<Rightarrow> 0 | Some id' \<Rightarrow> if \<not> truthy id' then 1 else 0)"
  by (simp_all add: unnamed_def split: option.split)

lemma serve_counts:
  assumes "\<forall>q \<in> set qs. leaves_counters (fst (snd (snd (snd q))))" "jm_ok (hc_byStatus (od_http s))"
  shows "(let c = od_http s; d = od_http (snd (serve qs s)); rs = fst (serve qs s)
          in hc_total d = hc_total c + answered rs \<and> (\<forall>st. count_at st d = count_at st c + with_status st rs) \<and>
             hc_missingRequestId d = hc_missingRequestId c + without_id qs \<and> jm_ok (hc_byStatus d) \<and>
             sum_list (map snd (hc_byStatus d)) = sum_list (map snd (hc_byStatus c)) + answered rs)"
  using assms
proof (induction qs arbitrary: s)
  case Nil
  then show ?case by (simp add: answered_def with_status_def without_id_def)
next
  case (Cons q qs)
  obtain label request elapsed handler fs where q: "q = (label, request, elapsed, handler, fs)" by (metis prod.exhaust)
  obtain r gs t where run: "withTiming label request elapsed handler (fs, s) = (r, (gs, t))" by (metis prod.exhaust)
  have c: "od_http t = (case r of Inl e \<Rightarrow> unnamed request (od_http s)
      | Inr x \<Rightarrow> recordHttp (rp_status x) (unnamed request (od_http s)))"
    using withTiming_counts [OF _ run] Cons.prems(1) q by simp
  have "jm_ok (hc_byStatus (od_http t))" using Cons.prems(2) c by (simp split: sum.split)
  moreover have "\<forall>q \<in> set qs. leaves_counters (fst (snd (snd (snd q))))" using Cons.prems(1) by simp
  ultimately show ?case
    using Cons.IH [of t] c
    by (cases r) (auto simp: q run Let_def answered_def with_status_def without_id_def split: option.split)
qed

lemma reads_leave: "moves (=) m \<Longrightarrow> leaves_counters m"
  by (simp add: leaves_counters_def moves_def)

lemma metrics_handler_reads: "moves (=) (metrics_handler u)"
  unfolding metrics_handler_def counts_of_db_def
  by (intro reads_rules reads.moves_state_op reads.moves_prod) auto

lemma checks_read: "moves (=) (checkWeb n)" "moves (=) (checkDb n)"
  unfolding checkWeb_def checkDb_def Let_def by (intro reads_rules)+

lemma jm_entry: "jm_ok m \<Longrightarrow> (k, v) \<in> set m \<longleftrightarrow> jm_get m k = Some v"
proof (induction m)
  case Nil
  then show ?case by simp
next
  case (Cons a m)
  then show ?case by (cases a) (force simp: jm_ok_def)
qed

text \<open>
  After any requests through \<^verbatim>\<open>withTiming\<close>, whose handlers answer or throw, the counters are those
  of the replies: the sum is the number of requests that were answered, the counter of a status the
  number of replies with it, the counter of missing ids the number of requests without one, answered
  or not. The scrape lists every status once, in ascending order, and its counters add up to the sum.
  A request whose handler throws is in none of them.
\<close>

theorem http_counters_agree:
  assumes handlers: "\<forall>q \<in> set qs. leaves_counters (fst (snd (snd (snd q))))"
    and start: "od_http s = no_http_counters" and run: "serve qs s = (rs, t)"
    and snap: "snapshotHttp (od_http t) = (requests, by_status)"
  shows "requests = answered rs \<and> sum_list (map snd by_status) = requests \<and>
    sorted (map fst by_status) \<and> distinct (map fst by_status) \<and>
    (\<forall>st. with_status st rs = (case map_of by_status st of None \<Rightarrow> 0 | Some n \<Rightarrow> n)) \<and>
    hc_missingRequestId (od_http t) = without_id qs"
proof -
  let ?m = "hc_byStatus (od_http t)"
  have ok: "jm_ok ?m" and sum: "sum_list (map snd ?m) = answered rs" and all: "hc_total (od_http t) = answered rs"
    and st: "\<And>st. count_at st (od_http t) = with_status st rs"
    and miss: "hc_missingRequestId (od_http t) = without_id qs"
    using serve_counts [OF handlers, of s] start run
    by (simp_all add: no_http_counters_def jm_ok_def count_at_def Let_def)
  have b: "by_status = sort_key fst ?m" and requests: "requests = answered rs" using snap all by (simp_all add: snapshotHttp_def)
  have d: "distinct (map fst by_status)"
    using ok unfolding b jm_ok_def by (metis distinct_map mset_eq_setD mset_sort distinct_sort)
  have "map_of by_status k = jm_get ?m k" for k
    using d jm_entry [OF ok, of k] by (cases "jm_get ?m k") (auto simp: b map_of_eq_None_iff map_of_eq_Some_iff)
  then have "with_status k rs = (case map_of by_status k of None \<Rightarrow> 0 | Some n \<Rightarrow> n)" for k
    using st [of k] by (simp add: count_at_def)
  moreover have "sum_list (map snd by_status) = answered rs"
    unfolding b using sum by (metis mset_map mset_sort sum_mset_sum_list)
  ultimately show ?thesis using requests miss d by (simp add: b)
qed

definition sample_ops :: ops_db where
  "sample_ops = \<lparr>od_http = no_http_counters, od_users = 3, od_problems = 2, od_subs = [(''accepted'', 50), (''wrong_answer'', 60)],
     od_lockouts = None, od_limits = [], od_cache = new_cache (Fin 10)\<rparr>"

definition sample_requests :: "string timed_request list" where
  "sample_requests =
    [(''metrics'', Some None, 4, metrics_handler 2500, [True]),
     (''x'', None, 1, throw ''boom'', []),
     (''metrics'', Some (Some ''r1''), 2, metrics_handler 2600, [])]"

lemma http_counters_agree_witness:
  "answered (fst (serve sample_requests sample_ops)) = 2 \<and> with_status 200 (fst (serve sample_requests sample_ops)) = 2 \<and>
   hc_missingRequestId (od_http (snd (serve sample_requests sample_ops))) = 1"
proof -
  have h: "\<forall>q \<in> set sample_requests. leaves_counters (fst (snd (snd (snd q))))"
    by (simp add: sample_requests_def reads_leave metrics_handler_reads reads.moves_throw)
  have o: "od_http sample_ops = no_http_counters" by (simp add: sample_ops_def)
  have r: "serve sample_requests sample_ops = (fst (serve sample_requests sample_ops), snd (serve sample_requests sample_ops))" by simp
  have n: "snapshotHttp (od_http (snd (serve sample_requests sample_ops))) = (2, [(200, 2)])" by code_simp
  have w: "without_id sample_requests = 1" by (simp add: without_id_def sample_requests_def truthy_def)
  from http_counters_agree [OF h o r n] have a: "answered (fst (serve sample_requests sample_ops)) = 2"
    and st: "\<forall>st. with_status st (fst (serve sample_requests sample_ops)) = (case map_of [(200, 2)] st of None \<Rightarrow> 0 | Some n \<Rightarrow> n)"
    and m: "hc_missingRequestId (od_http (snd (serve sample_requests sample_ops))) = 1"
    using w by simp_all
  show ?thesis using a m spec [OF st, of 200] by simp
qed

text \<open>A hiccup of the database sends every count of the scrape to zero, also those typed as counters.\<close>

lemma scrape_falls_to_zero:
  "result (metrics_handler 1000) [False, False, False, True] s =
    Inr \<lparr>rp_status = 200, rp_headers = [(''content-type'', ''text/plain; version=0.0.4; charset=utf-8'')],
         rp_body = scrape_text 1 0 0 0 0 (od_http s)\<rparr>"
  by (simp add: result_def metrics_handler_def counts_of_db_def bind_def catch_def)

subsection \<open>The console reports every failure\<close>

definition url_answers :: "net \<Rightarrow> string \<Rightarrow> bool" where
  "url_answers n url \<longleftrightarrow> (case nt_fetch n url [] of Inl err \<Rightarrow> False | Inr (status, body) \<Rightarrow> res_ok status)"

definition is_up :: "net \<Rightarrow> bool list \<Rightarrow> string \<times> string \<times> string \<times> string \<times> string \<Rightarrow> bool" where
  "is_up n fs svc = (case svc of (i, name, var, d, path) \<Rightarrow>
     if i = ''web'' then \<not> call_fails fs 0 else url_answers n (envOr n var d @ path))"

definition up_tile :: "net \<Rightarrow> bool list \<Rightarrow> string \<times> string \<times> string \<times> string \<times> string \<Rightarrow> service_tile" where
  "up_tile n fs svc = (case svc of (i, name, var, d, path) \<Rightarrow>
     \<lparr>st_id = i, st_name = name, st_status = (if is_up n fs svc then Operational else Down),
      st_latencyMs = (if i = ''web'' then nt_ping n else nt_took n (envOr n var d @ path))\<rparr>)"

lemma checkWeb_run: "checkWeb n (fs, s) = (Inr \<lparr>st_id = ''web'', st_name = ''Next.js Web'',
    st_status = (if call_fails fs 0 then Down else Operational), st_latencyMs = nt_ping n\<rparr>, (tl fs, s))"
  by (simp add: checkWeb_def catch_def bind_def query_hd hd_fails Let_def)

lemma other_tiles:
  "\<forall>svc \<in> set svcs. fst svc \<noteq> ''web'' \<Longrightarrow> service_tiles n svcs w = (Inr (map (up_tile n fs) svcs), w)"
proof (induction svcs)
  case Nil
  then show ?case by simp
next
  case (Cons svc svcs)
  then show ?case
    by (cases svc) (auto simp: bind_def tile_of_def up_tile_def is_up_def url_answers_def probeHttp_def)
qed

lemma service_tiles_run: "service_tiles n SERVICES (fs, s) = (Inr (map (up_tile n fs) SERVICES), (tl fs, s))"
proof -
  obtain d rest where S: "SERVICES = (''web'', ''Next.js Web'', d) # rest" and r: "\<forall>svc \<in> set rest. fst svc \<noteq> ''web''"
    by (simp add: SERVICES_def)
  show ?thesis
    unfolding S using other_tiles [OF r, of n "(tl fs, s)" fs]
    by (cases d) (auto simp: bind_def checkWeb_run up_tile_def is_up_def)
qed

lemma overall_of_tiles: "overall_health (map (up_tile n fs) svcs) = (if \<forall>svc \<in> set svcs. is_up n fs svc then Operational else Down)"
  by (auto simp: overall_health_def up_tile_def list_ex_iff split: prod.splits)

lemma getServiceHealth_run:
  "getServiceHealth n (fs, s) =
    (Inr (Inr \<lparr>hs_overall = (if \<forall>svc \<in> set SERVICES. is_up n fs svc then Operational else Down),
               hs_services = map (up_tile n fs) SERVICES, hs_checkedAt = nt_iso n\<rparr>), (tl fs, s))"
  by (simp add: getServiceHealth_def catch_def bind_def service_tiles_run overall_of_tiles)

lemma getSubmissionRate_run:
  "getSubmissionRate now (fs, s) =
    (Inr (if call_fails fs 0 then Inl ''db'' else Inr (length (filter (\<lambda>x. in_last_hour now (snd x)) (od_subs s)))), (tl fs, s))"
  by (simp add: getSubmissionRate_def catch_def bind_def query_hd hd_fails)

lemma getSecurityEvents_run:
  "\<exists>gs. getSecurityEvents now (fs, s) =
    (Inr (Inr \<lparr>sv_sandboxEscapes = 0, sv_lockoutsLastHour =
       (case od_lockouts s of None \<Rightarrow> 0 | Some ts \<Rightarrow> if call_fails fs 0 then 0 else length (filter (in_last_hour now) ts))\<rparr>), (gs, s))"
  by (cases "od_lockouts s")
    (simp_all add: getSecurityEvents_def getLockoutCount_def getSandboxEscapes_def Let_def catch_def bind_def query_hd hd_fails)

text \<open>
  C28. Whatever calls and services fail, an admin within the limit gets a snapshot, and nothing but the
  limiter changes. Every service of the inventory has its tile, in order, operational exactly when it
  answered, or when the database did for the application itself; the whole is operational exactly when
  every service is, and otherwise down. The submissions of the last hour are counted exactly, or their
  tile carries the error. The lockouts of the last hour are counted exactly when the client has
  their table and the query succeeds; without the table, and when the query fails, the tile shows the
  number 0 as if it were a count. The queue tile is never an error: it has a depth or says that there is none. The tile of the
  workflow runs shows at most five.
\<close>

theorem console_survives_failures:
  assumes admin: "se_role se = ''admin''"
    and within: "allowed (fst (memoryCheck (''admin:'' @ show_nat (se_userId se)) 60 60000 now (od_limits s)))"
  shows "\<exists>snapshot gs b. snapshot_GET n read (Some se) now (fs, s) = (Inr (Reply 200 snapshot), (gs, s\<lparr>od_limits := b\<rparr>)) \<and>
    (\<exists>h. ds_serviceHealth snapshot = Inr h \<and>
       map (\<lambda>t. (st_id t, st_status t)) (hs_services h) =
         map (\<lambda>svc. (fst svc, if is_up n fs svc then Operational else Down)) SERVICES \<and>
       hs_overall h = (if list_all (is_up n fs) SERVICES then Operational else Down)) \<and>
    ds_submissionRate snapshot =
      (if call_fails fs 1 then Inl ''db'' else Inr (length (filter (\<lambda>x. in_last_hour now (snd x)) (od_subs s)))) \<and>
    (\<exists>k. ds_securityEvents snapshot = Inr \<lparr>sv_sandboxEscapes = 0, sv_lockoutsLastHour = k\<rparr> \<and>
       (\<forall>ts. od_lockouts s = Some ts \<and> \<not> call_fails fs 2 \<longrightarrow> k = length (filter (in_last_hour now) ts)) \<and>
       (od_lockouts s = None \<or> call_fails fs 2 \<longrightarrow> k = 0)) \<and>
    (\<exists>q. ds_queueDepth snapshot = Inr q \<and> (qd_prometheus q \<longleftrightarrow> qd_depth q \<noteq> None)) \<and>
    (\<forall>runs repo. ds_ciRuns snapshot = CiRuns runs repo \<longrightarrow> length runs \<le> 5)"
proof -
  define b where "b = snd (memoryCheck (''admin:'' @ show_nat (se_userId se)) 60 60000 now (od_limits s))"
  let ?s = "s\<lparr>od_limits := b\<rparr>"
  have two: "call_fails (tl (tl fs)) 0 = call_fails fs 2" unfolding tl_fails by (simp only: numeral_2_eq_2)
  obtain gs where ev: "getSecurityEvents now (tl (tl fs), ?s) =
    (Inr (Inr \<lparr>sv_sandboxEscapes = 0, sv_lockoutsLastHour =
       (case od_lockouts s of None \<Rightarrow> 0 | Some ts \<Rightarrow> if call_fails fs 2 then 0 else length (filter (in_last_hour now) ts))\<rparr>), (gs, ?s))"
    using getSecurityEvents_run [of now "tl (tl fs)" ?s] unfolding two by auto
  have q: "\<exists>q. getQueueDepth n = Inr q \<and> (qd_prometheus q \<longleftrightarrow> qd_depth q \<noteq> None)"
    by (auto simp: getQueueDepth_def Let_def split: sum.split prod.split)
  have ci: "length runs \<le> 5" if "getCiRuns n read 5 = CiRuns runs repo" for runs repo
    using that by (auto simp: getCiRuns_def Let_def split: if_splits sum.splits prod.splits)
  have tiles: "map (\<lambda>t. (st_id t, st_status t)) (map (up_tile n fs) SERVICES) =
      map (\<lambda>svc. (fst svc, if is_up n fs svc then Operational else Down)) SERVICES"
    by (auto simp: up_tile_def)
  define snapshot where "snapshot = \<lparr>ds_serviceHealth = Inr \<lparr>hs_overall = (if \<forall>svc \<in> set SERVICES. is_up n fs svc then Operational else Down),
         hs_services = map (up_tile n fs) SERVICES, hs_checkedAt = nt_iso n\<rparr>,
       ds_ciRuns = getCiRuns n read 5,
       ds_submissionRate = (if call_fails (tl fs) 0 then Inl ''db'' else Inr (length (filter (\<lambda>x. in_last_hour now (snd x)) (od_subs s)))),
       ds_queueDepth = getQueueDepth n,
       ds_securityEvents = Inr \<lparr>sv_sandboxEscapes = 0, sv_lockoutsLastHour =
         (case od_lockouts s of None \<Rightarrow> 0 | Some ts \<Rightarrow> if call_fails fs 2 then 0 else length (filter (in_last_hour now) ts))\<rparr>,
       ds_generatedAt = nt_iso n\<rparr>"
  have run: "snapshot_GET n read (Some se) now (fs, s) = (Inr (Reply 200 snapshot), (gs, ?s))"
    unfolding snapshot_GET_def ops_guarded_def ops.guarded_admits [OF admin within] b_def [symmetric]
    by (simp add: buildSnapshot_def bind_def getServiceHealth_run getSubmissionRate_run ev snapshot_def)
  show ?thesis
    by (rule exI [of _ snapshot], rule exI [of _ gs], rule exI [of _ b])
      (use q ci tiles in \<open>simp add: run snapshot_def tl_fails list_all_iff split: option.split\<close>)
qed

definition sample_net :: net where
  "sample_net = \<lparr>nt_env = (\<lambda>_. None),
     nt_fetch = (\<lambda>url hs. if url = ''http://judge:9090/health'' then Inl ''refused'' else Inr (200, ''submissions_queue_depth 7.5'')),
     nt_took = (\<lambda>_. 3), nt_ping = 1, nt_iso = ''now''\<rparr>"

lemma console_survives_failures_witness:
  "\<exists>snapshot gs b h. snapshot_GET sample_net (\<lambda>_. Inl ''?'') (Some \<lparr>se_userId = 1, se_role = ''admin''\<rparr>) 70 ([False, True], sample_ops) =
      (Inr (Reply 200 snapshot), (gs, sample_ops\<lparr>od_limits := b\<rparr>)) \<and>
    ds_serviceHealth snapshot = Inr h \<and> hs_overall h = Down \<and> ds_submissionRate snapshot = Inl ''db''"
proof -
  have a: "se_role \<lparr>se_userId = 1, se_role = ''admin''\<rparr> = ''admin''" by simp
  have w: "allowed (fst (memoryCheck (''admin:'' @ show_nat (se_userId \<lparr>se_userId = 1, se_role = ''admin''\<rparr>)) 60 60000 70 (od_limits sample_ops)))"
    by code_simp
  have u: "\<not> list_all (is_up sample_net [False, True]) SERVICES" by code_simp
  have f: "call_fails [False, True] 1" by (simp add: call_fails_def)
  from console_survives_failures [OF a w, of sample_net "\<lambda>_. Inl ''?''" "[False, True]"] u f
  show ?thesis by (auto simp del: One_nat_def)
qed

text \<open>What the queue tile reads: a whole part, or no number at all, which JSON shows as null.\<close>

lemma queue_depth_examples:
  "getQueueDepth sample_net = Inr \<lparr>qd_depth = Some (Fin 7), qd_prometheus = True\<rparr>"
  "getQueueDepth (sample_net\<lparr>nt_fetch := \<lambda>url hs. Inr (200, ''submissions_queue_depth ..'')\<rparr>) =
    Inr \<lparr>qd_depth = Some NaN, qd_prometheus = True\<rparr>"
  "getQueueDepth (sample_net\<lparr>nt_fetch := \<lambda>url hs. Inr (200, ''submissions_queue_depth_max 9'')\<rparr>) =
    Inr \<lparr>qd_depth = None, qd_prometheus = False\<rparr>"
  by code_simp+

text \<open>The public status: degraded only when the API is alive and not ready, and all else is up.\<close>

lemma status_degraded_iff:
  assumes "status_GET n request elapsed (fs, s) = (Inr r, w)"
  shows "hs_overall (rp_body r) = Degraded \<longleftrightarrow>
    \<not> call_fails fs 0 \<and> st_status (checkApi n) = Degraded \<and> st_status (checkAuth n) = Operational \<and>
    st_status (status_checkJudge n) = Operational"
proof -
  have two: "st_status (checkAuth n) \<noteq> Degraded" "st_status (status_checkJudge n) \<noteq> Degraded"
    by (simp_all add: checkAuth_def status_checkJudge_def tile_of_def)
  define s1 where "s1 = (case request of None \<Rightarrow> s | Some id' \<Rightarrow>
          if \<not> truthy id' then s\<lparr>od_http := recordMissingRequestId (od_http s)\<rparr> else s)"
  have s1: "(case request of None \<Rightarrow> ret ()
          | Some id' \<Rightarrow> if \<not> truthy id' then http_op recordMissingRequestId else ret ()) (fs, s) = (Inr (), (fs, s1))"
    by (simp add: s1_def http_op_def split: option.split)
  have "hs_overall (rp_body r) = overall_health [\<lparr>st_id = ''web'', st_name = ''Next.js Web'',
      st_status = (if call_fails fs 0 then Down else Operational), st_latencyMs = nt_ping n\<rparr>, checkApi n, checkAuth n, status_checkJudge n]"
    using assms by (auto simp: status_GET_def withTiming_def bind_def s1 checkWeb_run http_op_def Let_def)
  then show ?thesis
    using two by (cases "st_status (checkAuth n)"; cases "st_status (status_checkJudge n)"; cases "st_status (checkApi n)")
      (simp_all add: overall_health_def)
qed

end
