(* ===== verification/Chat.thy ===== *)
theory Chat
  imports Guards
begin

section \<open>The assistant\<close>

text \<open>
  \<^verbatim>\<open>src/app/api/chat/route.ts\<close> and the hook \<^verbatim>\<open>components/chat/use-chat.ts\<close>. A message is a list of
  UTF-16 code units, because the keywords and replies are not all Latin-1. \<^verbatim>\<open>toLowerCase\<close>, the
  workflow service behind the webhook and the keyed hash are parameters.
\<close>

subsection \<open>Text\<close>

type_synonym text16 = "nat list"

definition u :: "string \<Rightarrow> text16" where
  "u s = map of_char s"

definition is_space16 :: "nat \<Rightarrow> bool" where
  "is_space16 c \<longleftrightarrow> c \<in> {9, 10, 11, 12, 13, 32, 160, 0x1680, 0x2028, 0x2029, 0x202F, 0x205F, 0x3000, 0xFEFF} \<or> 0x2000 \<le> c \<and> c \<le> 0x200A"

definition trim16 :: "text16 \<Rightarrow> text16" where
  "trim16 s = rev (dropWhile is_space16 (rev (dropWhile is_space16 s)))"

definition begins :: "text16 \<Rightarrow> text16 \<Rightarrow> bool" where
  "begins p s \<longleftrightarrow> take (length p) s = p"

fun occurs :: "text16 \<Rightarrow> text16 \<Rightarrow> bool" where
  "occurs p [] \<longleftrightarrow> p = []"
| "occurs p (c # cs) \<longleftrightarrow> begins p (c # cs) \<or> occurs p cs"

subsection \<open>Long code blocks\<close>

definition fence :: text16 where "fence = [0x60, 0x60, 0x60]"

text \<open>The text before the first fence, and the text after it.\<close>

fun until_fence :: "text16 \<Rightarrow> (text16 \<times> text16) option" where
  "until_fence [] = None"
| "until_fence (c # cs) =
    (if begins fence (c # cs) then Some ([], drop 3 (c # cs))
     else map_option (\<lambda>(a, b). (c # a, b)) (until_fence cs))"

lemma until_fence_length: "until_fence t = Some (a, b) \<Longrightarrow> length b < length t"
proof (induction t arbitrary: a)
  case (Cons c t)
  then show ?case by (auto split: if_splits)
qed simp

definition line_count :: "text16 \<Rightarrow> nat" where
  "line_count t = length (filter (\<lambda>c. c = 10) t) + 1"

definition truncated_block :: text16 where
  "truncated_block = fence @ [10] @ u ''<truncated>'' @ [10] @ fence"

definition redact_block :: "text16 \<Rightarrow> text16" where
  "redact_block m = (if line_count m > 200 then truncated_block else m)"

text \<open>\<^verbatim>\<open>/```[\s\S]*?```/g\<close>: from the left, the shortest match at each place.\<close>

function redactLongCodeBlocks :: "text16 \<Rightarrow> text16" where
  "redactLongCodeBlocks [] = []"
| "redactLongCodeBlocks (c # cs) =
    (case (if begins fence (c # cs) then until_fence (drop 3 (c # cs)) else None) of
       Some (body, rest) \<Rightarrow> redact_block (fence @ body @ fence) @ redactLongCodeBlocks rest
     | None \<Rightarrow> c # redactLongCodeBlocks cs)"
  by pat_completeness auto
termination
  by (relation "measure length") (auto split: if_splits dest: until_fence_length)

subsection \<open>The local reply\<close>

definition reply_hello :: text16 where
  "reply_hello = u ''Hi! I'm the LeetRank assistant. Ask me about a problem (paste the prompt or share your approach) and I'll help you reason through it.''"

definition reply_hint_problem :: text16 where
  "reply_hint_problem = u ''Try walking through the problem on a small example first. What's the input shape, and what should the output look like? Share your current approach and I'll suggest where to focus.''"

definition reply_hint :: text16 where
  "reply_hint = u ''Pick a problem and I'll guide you. Common starting points: identify the input pattern, think about brute force first, then optimize with a data structure (hash, heap, two pointers).''"

definition reply_slow :: text16 where
  "reply_slow = u ''TLE usually means your algorithm is one complexity class too high. Look at nested loops '' @ [0x2014] @
     u '' can you replace one with a hashmap lookup? Sort once and binary-search? Sliding window?''"

definition reply_wrong :: text16 where
  "reply_wrong = u ''Wrong answer often comes from edge cases: empty input, single element, duplicates, negatives, integer overflow. Try the smallest possible test case manually and compare your output to the expected.''"

definition reply_complexity :: text16 where
  "reply_complexity = u ''Count your nested loops and the size of any data structures you build. O(n) is one pass; O(n log n) is sort or balanced tree; O(n'' @ [0xB2] @
     u '') is double loop. The constraints in the problem usually tell you what's required.''"

definition reply_thanks :: text16 where
  "reply_thanks = u ''Glad to help! Keep practicing '' @ [0x2014] @ u '' consistency beats intensity.''"

definition reply_default :: text16 where
  "reply_default = u ''I hear you. Could you share more context '' @ [0x2014] @
     u '' the problem statement, your current approach, or the specific test case that's failing? The more concrete you are, the more useful my hints can be.''"

definition hello_words :: "text16 list" where
  "hello_words = [u ''hi'', u ''hello'', u ''hey'', u ''ch'' @ [0xE0] @ u ''o'', u ''xin ch'' @ [0xE0] @ u ''o'']"

definition hint_words :: "text16 list" where
  "hint_words = [u ''hint'', u ''g'' @ [0x1EE3] @ u ''i '' @ [0xFD], u ''help'', u ''stuck'', u ''kh'' @ [0xF4] @ u ''ng bi'' @ [0x1EBF] @ u ''t'']"

definition slow_words :: "text16 list" where
  "slow_words = [u ''time'', u ''timeout'', u ''tle'', u ''too slow'', u ''ch'' @ [0x1EAD] @ u ''m'']"

definition wrong_words :: "text16 list" where
  "wrong_words = [u ''wrong'', u ''wa'', u ''fail'', u ''sai'']"

definition complexity_words :: "text16 list" where
  "complexity_words = [u ''complexity'', u ''big-o'', u ''o('',
     [0x111, 0x1ED9] @ u '' ph'' @ [0x1EE9] @ u ''c t'' @ [0x1EA1] @ u ''p'']"

definition thanks_words :: "text16 list" where
  "thanks_words = [u ''thank'', u ''thanks'', u ''c'' @ [0x1EA3] @ u ''m '' @ [0x1A1] @ u ''n'']"

definition generateLocalReply :: "(text16 \<Rightarrow> text16) \<Rightarrow> text16 \<Rightarrow> string option \<Rightarrow> text16" where
  "generateLocalReply lowered message problemId =
    (let l = trim16 (lowered message); has = (\<lambda>words. list_ex (\<lambda>w. occurs w l) words)
     in if list_ex (\<lambda>w. begins w l) hello_words then reply_hello
        else if has hint_words then (if truthy problemId then reply_hint_problem else reply_hint)
        else if has slow_words then reply_slow
        else if has wrong_words then reply_wrong
        else if has complexity_words then reply_complexity
        else if has thanks_words then reply_thanks
        else reply_default)"

subsection \<open>Messages, the body and the webhook\<close>

record chat_row =
  ct_id :: nat
  ct_user :: nat
  ct_problem :: "string option"
  ct_contest :: "string option"
  ct_role :: string
  ct_content :: text16
  ct_createdAt :: int

text \<open>A field of the body is missing, of another JSON type, or a string.\<close>

datatype 'a field = Missing | OfType string | Text 'a

datatype chat_json = NotJson | NotObject string | ChatBody "text16 field" "string field" "string field"

fun optional_issue :: "'a field \<Rightarrow> string list" where
  "optional_issue (OfType t) = [''Expected string, received '' @ t]"
| "optional_issue _ = []"

fun field_value :: "'a field \<Rightarrow> 'a option" where
  "field_value (Text x) = Some x"
| "field_value _ = None"

fun message_issue :: "text16 field \<Rightarrow> string list" where
  "message_issue Missing = [''Required'']"
| "message_issue (OfType t) = [''Expected string, received '' @ t]"
| "message_issue (Text m) =
    (if length m < 1 then [''String must contain at least 1 character(s)'']
     else if length m > 4000 then [''String must contain at most 4000 character(s)''] else [])"

fun chatBodySchema :: "chat_json \<Rightarrow> string list" where
  "chatBodySchema (ChatBody m p c) = message_issue m @ optional_issue p @ optional_issue c"
| "chatBodySchema (NotObject t) = [''Expected object, received '' @ t]"
| "chatBodySchema NotJson = []"

record chat_payload =
  cp_userId :: nat
  cp_problemId :: "string option"
  cp_contestId :: "string option"
  cp_message :: text16
  cp_history :: "(string \<times> text16) list"

record chat_db =
  ch_rows :: "chat_row list"
  ch_next :: nat
  ch_limits :: buckets
  ch_warned :: bool
  ch_sent :: "(string \<times> chat_payload \<times> string option) list"

text \<open>
  \<open>ce_sign\<close> is the hash of a payload under a secret. The service answers with an error, or with a
  status and a body that may not be JSON, may lack a reply, or has one.
\<close>

record chat_env =
  ce_webhook :: "string option"
  ce_secret :: "string option"
  ce_production :: bool
  ce_sign :: "string \<Rightarrow> chat_payload \<Rightarrow> string"
  ce_service :: "chat_payload \<Rightarrow> string option \<Rightarrow> string + nat \<times> (string + text16 option)"
  ce_lower :: "text16 \<Rightarrow> text16"

definition n8nHmacSecret :: "chat_env \<Rightarrow> (chat_db, string, string option) prog" where
  "n8nHmacSecret env =
    (let v = ce_secret env
     in if truthy v \<and> length (the v) \<ge> 16 then ret v
        else if ce_production env then throw ''N8N_HMAC_SECRET must be set (16+ chars) in production''
        else bind (state_op (\<lambda>s. ((), s\<lparr>ch_warned := True\<rparr>))) (\<lambda>_. ret None))"

definition ask_service :: "chat_env \<Rightarrow> string \<Rightarrow> chat_payload \<Rightarrow> (chat_db, string, text16 option) prog" where
  "ask_service env webhookUrl payload =
    bind (n8nHmacSecret env) (\<lambda>secret.
    let signature = map_option (\<lambda>k. ce_sign env k payload) secret
    in bind (state_op (\<lambda>s. ((), s\<lparr>ch_sent := ch_sent s @ [(webhookUrl, payload, signature)]\<rparr>))) (\<lambda>_.
       case ce_service env payload signature of
         Inl err \<Rightarrow> throw err
       | Inr (status, body) \<Rightarrow>
           if \<not> (200 \<le> status \<and> status < 300) then ret None
           else case body of Inl err \<Rightarrow> throw err | Inr reply \<Rightarrow> ret reply))"

subsection \<open>The routes\<close>

text \<open>A row of the user, and of the problem where one is named.\<close>

definition chat_match :: "nat \<Rightarrow> string option \<Rightarrow> chat_row \<Rightarrow> bool" where
  "chat_match usr problemId r \<longleftrightarrow> ct_user r = usr \<and> (truthy problemId \<longrightarrow> ct_problem r = problemId)"

definition chat_create :: "nat \<Rightarrow> string option \<Rightarrow> string option \<Rightarrow> string \<Rightarrow> text16 \<Rightarrow> int \<Rightarrow> (chat_db, string, chat_row) prog" where
  "chat_create usr problemId contestId role content now =
    call ''db'' (\<lambda>s.
      let row = \<lparr>ct_id = ch_next s, ct_user = usr, ct_problem = problemId, ct_contest = contestId,
                 ct_role = role, ct_content = content, ct_createdAt = now\<rparr>
      in (Inr row, s\<lparr>ch_rows := ch_rows s @ [row], ch_next := ch_next s + 1\<rparr>))"

definition recent_history :: "nat \<Rightarrow> string option \<Rightarrow> nat \<Rightarrow> chat_db \<Rightarrow> (string \<times> text16) list" where
  "recent_history usr problemId this s =
    map (\<lambda>r. (ct_role r, ct_content r))
      (take 10 (sort_key (\<lambda>r. - ct_createdAt r) (filter (\<lambda>r. chat_match usr problemId r \<and> ct_id r \<noteq> this) (ch_rows s))))"

definition or_omit :: "string option \<Rightarrow> string option" where
  "or_omit x = (if truthy x then x else None)"

definition chat_reply ::
  "chat_env \<Rightarrow> nat \<Rightarrow> string option \<Rightarrow> string option \<Rightarrow> text16 \<Rightarrow> (string \<times> text16) list \<Rightarrow> (chat_db, string, text16) prog" where
  "chat_reply env usr problemId contestId message history =
    (let redacted = redactLongCodeBlocks message; fallback = generateLocalReply (ce_lower env) redacted problemId
     in if \<not> truthy (ce_webhook env) then ret fallback
        else catch
          (bind (ask_service env (the (ce_webhook env))
             \<lparr>cp_userId = usr, cp_problemId = or_omit problemId, cp_contestId = or_omit contestId,
              cp_message = redacted, cp_history = rev history\<rparr>) (\<lambda>r.
           ret (case r of None \<Rightarrow> fallback | Some reply \<Rightarrow> reply)))
          (\<lambda>_. ret fallback))"

text \<open>\<open>now\<close> is when the request comes and its message is stored, \<open>later\<close> when the reply is.\<close>

definition chat_POST ::
  "chat_env \<Rightarrow> session option \<Rightarrow> chat_json \<Rightarrow> int \<Rightarrow> int \<Rightarrow> (chat_db, string, (text16 \<times> nat) reply) prog" where
  "chat_POST env session body now later =
    (case session of
       None \<Rightarrow> ret (Failed 401 ''Unauthorized'')
     | Some se \<Rightarrow>
         bind (limited_in ch_limits (\<lambda>b s. s\<lparr>ch_limits := b\<rparr>) (''chat:'' @ show_nat (se_userId se)) 10 60000 now) (\<lambda>limit.
         if \<not> allowed limit then ret (Failed 429 ''Rate limit exceeded. Try again in a moment.'')
         else if body = NotJson then ret (Failed 400 ''Invalid JSON body'')
         else case chatBodySchema body of
                msg # _ \<Rightarrow> ret (Failed 400 msg)
              | [] \<Rightarrow>
                  (case body of
                     ChatBody m p c \<Rightarrow>
                       (let message = the (field_value m); problemId = field_value p; contestId = field_value c; usr = se_userId se
                        in bind (chat_create usr problemId contestId ''user'' message now) (\<lambda>userMessage.
                           bind (query ''db'' (recent_history usr problemId (ct_id userMessage))) (\<lambda>history.
                           bind (chat_reply env usr problemId contestId message history) (\<lambda>reply.
                           bind (chat_create usr problemId contestId ''assistant'' reply later) (\<lambda>assistantMessage.
                           ret (Reply 200 (reply, ct_id assistantMessage)))))))
                   | _ \<Rightarrow> ret (Failed 400 ''Invalid input''))))"

record chat_line =
  cl_id :: nat
  cl_role :: string
  cl_content :: text16
  cl_createdAt :: int

definition chat_GET :: "session option \<Rightarrow> string option \<Rightarrow> (chat_db, string, chat_line list reply) prog" where
  "chat_GET session problemId =
    (case session of
       None \<Rightarrow> ret (Failed 401 ''Unauthorized'')
     | Some se \<Rightarrow>
         bind (query ''db'' (\<lambda>s.
           map (\<lambda>r. \<lparr>cl_id = ct_id r, cl_role = ct_role r, cl_content = ct_content r, cl_createdAt = ct_createdAt r\<rparr>)
             (take 50 (sort_key ct_createdAt (filter (chat_match (se_userId se) problemId) (ch_rows s)))))) (\<lambda>messages.
         ret (Reply 200 messages)))"

subsection \<open>The hook of the page (use-chat.ts)\<close>

datatype message_id = Optimistic int | Stored nat

record chat_view =
  cv_messages :: "(message_id \<times> string \<times> text16) list"
  cv_sending :: bool
  cv_error :: "string option"

definition send_begin :: "int \<Rightarrow> text16 \<Rightarrow> chat_view \<Rightarrow> chat_view" where
  "send_begin t message v =
    v\<lparr>cv_error := None, cv_sending := True, cv_messages := cv_messages v @ [(Optimistic t, ''user'', message)]\<rparr>"

definition send_answered :: "nat \<Rightarrow> text16 \<Rightarrow> chat_view \<Rightarrow> chat_view" where
  "send_answered messageId reply v =
    v\<lparr>cv_messages := cv_messages v @ [(Stored messageId, ''assistant'', reply)], cv_sending := False\<rparr>"

definition send_failed :: "int \<Rightarrow> string \<Rightarrow> chat_view \<Rightarrow> chat_view" where
  "send_failed t err v =
    v\<lparr>cv_error := Some err, cv_messages := filter (\<lambda>m. fst m \<noteq> Optimistic t) (cv_messages v), cv_sending := False\<rparr>"

text \<open>The body that the page sends, and one turn: the page, the route and the page again. A reply that
  is no JSON, as of a request that ended in an exception, gives the error \<open>broken\<close>.\<close>

definition send_body :: "text16 \<Rightarrow> string option \<Rightarrow> string option \<Rightarrow> chat_json" where
  "send_body message problemId contestId =
    ChatBody (Text message) (if truthy problemId then Text (the problemId) else Missing)
      (if truthy contestId then Text (the contestId) else Missing)"

definition chat_turn ::
  "chat_env \<Rightarrow> string \<Rightarrow> session option \<Rightarrow> text16 \<Rightarrow> string option \<Rightarrow> string option \<Rightarrow> int \<Rightarrow> int \<Rightarrow> int \<Rightarrow>
   bool list \<Rightarrow> chat_view \<times> chat_db \<Rightarrow> chat_view \<times> chat_db" where
  "chat_turn env broken session message problemId contestId t now later fs vs =
    (let v = send_begin t message (fst vs); run = chat_POST env session (send_body message problemId contestId) now later (fs, snd vs)
     in ((case fst run of
            Inr (Reply n (reply, messageId)) \<Rightarrow> send_answered messageId reply v
          | Inr (Failed n err) \<Rightarrow> send_failed t err v
          | Inl err \<Rightarrow> send_failed t broken v), snd (snd run)))"

definition history_loaded :: "chat_line list \<Rightarrow> chat_view \<Rightarrow> chat_view" where
  "history_loaded ls v = v\<lparr>cv_error := None, cv_messages := map (\<lambda>l. (Stored (cl_id l), cl_role l, cl_content l)) ls\<rparr>"

definition history_failed :: "string \<Rightarrow> chat_view \<Rightarrow> chat_view" where
  "history_failed err v = v\<lparr>cv_error := Some err\<rparr>"

subsection \<open>Redaction\<close>

function code_blocks :: "text16 \<Rightarrow> text16 list" where
  "code_blocks [] = []"
| "code_blocks (c # cs) =
    (case (if begins fence (c # cs) then until_fence (drop 3 (c # cs)) else None) of
       Some (body, rest) \<Rightarrow> (fence @ body @ fence) # code_blocks rest
     | None \<Rightarrow> code_blocks cs)"
  by pat_completeness auto
termination
  by (relation "measure length") (auto split: if_splits dest: until_fence_length)

lemma fence_length [simp]: "length fence = 3"
  by (simp add: fence_def)

lemma begins_append: "length p \<le> length s \<Longrightarrow> begins p (s @ t) = begins p s"
  by (simp add: begins_def)

lemma begins_fence_iff: "begins fence t \<longleftrightarrow> (\<exists>r. t = fence @ r)"
  unfolding begins_def by (metis append_eq_conv_conj append_take_drop_id)

lemma until_fence_sound: "until_fence t = Some (b, r) \<Longrightarrow> t = b @ fence @ r"
proof (induction t arbitrary: b)
  case (Cons c t)
  show ?case
  proof (cases "begins fence (c # t)")
    case True
    then obtain x where "c # t = fence @ x" by (auto simp: begins_fence_iff)
    then show ?thesis using Cons.prems True by (auto simp: fence_def)
  next
    case False
    then show ?thesis using Cons by auto
  qed
qed simp

lemma until_fence_prefix: "until_fence (b @ fence @ r) = Some (b, r) \<Longrightarrow> until_fence (b @ fence @ y) = Some (b, y)"
proof (induction b)
  case Nil
  then show ?case by (simp add: fence_def begins_def)
next
  case (Cons c b)
  have "begins fence ((c # b @ fence) @ z) = begins fence (c # b @ fence)" for z
    by (rule begins_append) (simp add: fence_def)
  then have e: "begins fence (c # b @ fence @ z) = begins fence (c # b @ fence)" for z by simp
  show ?case using Cons by (auto simp: e split: if_splits)
qed

lemma until_fence_drop: "until_fence t = None \<Longrightarrow> until_fence (drop n t) = None"
proof (induction t arbitrary: n)
  case (Cons c t)
  then show ?case by (cases n) (auto split: if_splits)
qed simp

lemma redact_unclosed: "until_fence (drop 2 t) = None \<Longrightarrow> redactLongCodeBlocks t = t"
proof (induction t)
  case (Cons c t)
  have "until_fence (drop 2 t) = None" using until_fence_drop [OF Cons.prems, of 1] by (simp add: numeral_2_eq_2)
  moreover have "drop 3 (c # t) = drop 2 t" by (simp add: numeral_3_eq_3 numeral_2_eq_2)
  ultimately show ?case using Cons.IH by (simp del: drop_Suc_Cons)
qed simp

definition short_body :: "text16 \<Rightarrow> text16" where
  "short_body b = (if line_count (fence @ b @ fence) > 200 then [10] @ u ''<truncated>'' @ [10] else b)"

lemma redact_block_body: "redact_block (fence @ b @ fence) = fence @ short_body b @ fence"
  by (simp add: redact_block_def short_body_def truncated_block_def)

lemma redact_take: "k \<le> 3 \<Longrightarrow> take k (redactLongCodeBlocks t) = take k t"
proof (induction t arbitrary: k rule: redactLongCodeBlocks.induct)
  case 1
  then show ?case by simp
next
  case (2 c cs)
  show ?case
  proof (cases "if begins fence (c # cs) then until_fence (drop 3 (c # cs)) else None")
    case None
    then show ?thesis using "2.IH"(1) [OF None] "2.prems" by (cases k) auto
  next
    case (Some br)
    obtain b r where br: "br = (b, r)" by fastforce
    obtain x where x: "c # cs = fence @ x" using Some by (auto simp: begins_fence_iff split: if_splits)
    obtain y where y: "redactLongCodeBlocks (c # cs) = fence @ y"
      using Some br redact_block_body [of b] by auto
    have "take k (fence @ z) = take k fence" for z using "2.prems" by simp
    then show ?thesis using x y by metis
  qed
qed

lemma until_fence_short:
  assumes "until_fence (b @ fence @ r) = Some (b, r)"
  shows "until_fence (short_body b @ fence @ y) = Some (short_body b, y)"
proof (cases "line_count (fence @ b @ fence) > 200")
  case True
  then show ?thesis by (simp add: short_body_def u_def fence_def begins_def)
next
  case False
  then show ?thesis using until_fence_prefix [OF assms] by (simp add: short_body_def)
qed

lemma blocks_of_redacted: "code_blocks (redactLongCodeBlocks t) = map redact_block (code_blocks t)"
proof (induction t rule: redactLongCodeBlocks.induct)
  case 1
  then show ?case by simp
next
  case (2 c cs)
  show ?case
  proof (cases "if begins fence (c # cs) then until_fence (drop 3 (c # cs)) else None")
    case None
    have IH: "code_blocks (redactLongCodeBlocks cs) = map redact_block (code_blocks cs)" using "2.IH"(1) [OF None] .
    show ?thesis
    proof (cases "begins fence (c # cs)")
      case True
      then have "until_fence (drop 2 cs) = None" using None by (simp add: numeral_3_eq_3 numeral_2_eq_2)
      then have "redactLongCodeBlocks cs = cs" by (rule redact_unclosed)
      then show ?thesis using None IH by simp
    next
      case False
      then have "\<not> begins fence (c # redactLongCodeBlocks cs)"
        using redact_take [of 2 cs] by (simp add: begins_def fence_def numeral_2_eq_2)
      then show ?thesis using None IH by simp
    qed
  next
    case (Some br)
    obtain b r where br: "br = (b, r)" by fastforce
    have IH: "code_blocks (redactLongCodeBlocks r) = map redact_block (code_blocks r)" using "2.IH"(2) [OF Some br [symmetric]] .
    have u: "until_fence (drop 3 (c # cs)) = Some (b, r)" using Some br by (simp split: if_splits)
    then have "until_fence (b @ fence @ r) = Some (b, r)" using until_fence_sound by metis
    then have s: "until_fence (short_body b @ fence @ redactLongCodeBlocks r) = Some (short_body b, redactLongCodeBlocks r)"
      by (rule until_fence_short)
    have red: "redactLongCodeBlocks (c # cs) = fence @ short_body b @ fence @ redactLongCodeBlocks r"
      using Some br redact_block_body [of b] by simp
    have "code_blocks (fence @ short_body b @ fence @ redactLongCodeBlocks r) =
        (fence @ short_body b @ fence) # code_blocks (redactLongCodeBlocks r)"
      using s by (simp add: fence_def begins_def)
    then show ?thesis using Some br IH red redact_block_body [of b] by simp
  qed
qed

lemma redacted_blocks_short: "list_all (\<lambda>b. line_count b \<le> 200) (code_blocks (redactLongCodeBlocks t))"
proof -
  have "line_count truncated_block \<le> 200" by code_simp
  then show ?thesis by (auto simp: blocks_of_redacted list_all_iff redact_block_def)
qed

lemma short_blocks_untouched: "list_all (\<lambda>b. line_count b \<le> 200) (code_blocks t) \<Longrightarrow> redactLongCodeBlocks t = t"
proof (induction t rule: redactLongCodeBlocks.induct)
  case 1
  then show ?case by simp
next
  case (2 c cs)
  show ?case
  proof (cases "if begins fence (c # cs) then until_fence (drop 3 (c # cs)) else None")
    case None
    then show ?thesis using 2 by simp
  next
    case (Some br)
    obtain b r where br: "br = (b, r)" by fastforce
    have u: "begins fence (c # cs)" "until_fence (drop 3 (c # cs)) = Some (b, r)" using Some br by (simp_all split: if_splits)
    then have "c # cs = fence @ b @ fence @ r"
      using until_fence_sound [OF u(2)] by (metis append_eq_conv_conj begins_fence_iff fence_def length_Cons list.size(3) numeral_3_eq_3)
    moreover have "redactLongCodeBlocks r = r" using 2 Some br by simp
    moreover have "redact_block (fence @ b @ fence) = fence @ b @ fence" using 2 Some br by (simp add: redact_block_def)
    moreover have "redactLongCodeBlocks (c # cs) = redact_block (fence @ b @ fence) @ redactLongCodeBlocks r" using Some br by simp
    ultimately show ?thesis by simp
  qed
qed

subsection \<open>A turn\<close>

interpretation chat: limiter_part ch_limits "\<lambda>b s. s\<lparr>ch_limits := b\<rparr>"
  by unfold_locales simp

text \<open>What one request may send: at most one payload, signed when there is a secret.\<close>

definition sent_ok :: "chat_env \<Rightarrow> chat_payload \<Rightarrow> (string \<times> chat_payload \<times> string option) list \<Rightarrow> bool" where
  "sent_ok env payload sent \<longleftrightarrow> sent = [] \<or>
    (\<exists>url sg. sent = [(url, payload, sg)] \<and> ce_webhook env = Some url \<and>
       (case sg of None \<Rightarrow> \<not> ce_production env
        | Some g \<Rightarrow> \<exists>k. ce_secret env = Some k \<and> 16 \<le> length k \<and> g = ce_sign env k payload))"

lemma service_answer:
  "\<exists>r. (case x of Inl err \<Rightarrow> throw err
       | Inr (status, body) \<Rightarrow>
           if \<not> (200 \<le> status \<and> status < (300::nat)) then ret None
           else case body of Inl err \<Rightarrow> throw err | Inr reply \<Rightarrow> ret reply) w = (r, w)"
  by (auto split: sum.split prod.split)

lemma ask_service_run:
  assumes "truthy (ce_webhook env)"
  shows "\<exists>r s' sent. ask_service env (the (ce_webhook env)) payload (fs, s) = (r, (fs, s')) \<and>
    ch_rows s' = ch_rows s \<and> ch_next s' = ch_next s \<and> ch_limits s' = ch_limits s \<and>
    ch_sent s' = ch_sent s @ sent \<and> sent_ok env payload sent"
proof -
  obtain url where url: "ce_webhook env = Some url" using assms by (auto simp: truthy_def split: option.splits)
  consider (signed) k where "ce_secret env = Some k" "16 \<le> length k"
    | (refused) "\<not> (truthy (ce_secret env) \<and> length (the (ce_secret env)) \<ge> 16)" "ce_production env"
    | (unsigned) "\<not> (truthy (ce_secret env) \<and> length (the (ce_secret env)) \<ge> 16)" "\<not> ce_production env"
    by (cases "ce_secret env"; cases "ce_production env"; cases "16 \<le> length (the (ce_secret env))") (auto simp: truthy_def)
  then show ?thesis
  proof cases
    case signed
    then have "n8nHmacSecret env w = (Inr (Some k), w)" for w by (auto simp: n8nHmacSecret_def truthy_def)
    then show ?thesis
      using signed url service_answer [of "ce_service env payload (Some (ce_sign env k payload))"
        "(fs, s\<lparr>ch_sent := ch_sent s @ [(url, payload, Some (ce_sign env k payload))]\<rparr>)"]
      by (auto simp: ask_service_def bind_def sent_ok_def Let_def)
  next
    case refused
    then have "n8nHmacSecret env w = (Inl ''N8N_HMAC_SECRET must be set (16+ chars) in production'', w)" for w
      by (auto simp: n8nHmacSecret_def Let_def)
    then show ?thesis by (simp add: ask_service_def bind_def sent_ok_def)
  next
    case unsigned
    then have "n8nHmacSecret env (gs, x) = (Inr None, (gs, x\<lparr>ch_warned := True\<rparr>))" for gs x
      by (auto simp: n8nHmacSecret_def bind_def Let_def)
    then show ?thesis
      using unsigned url service_answer [of "ce_service env payload None"
        "(fs, s\<lparr>ch_warned := True, ch_sent := ch_sent s @ [(url, payload, None)]\<rparr>)"]
      by (auto simp: ask_service_def bind_def sent_ok_def Let_def)
  qed
qed

definition payload_of :: "nat \<Rightarrow> string option \<Rightarrow> string option \<Rightarrow> text16 \<Rightarrow> (string \<times> text16) list \<Rightarrow> chat_payload" where
  "payload_of usr problemId contestId message history =
    \<lparr>cp_userId = usr, cp_problemId = or_omit problemId, cp_contestId = or_omit contestId,
     cp_message = redactLongCodeBlocks message, cp_history = rev history\<rparr>"

lemma chat_reply_run:
  "\<exists>reply s' sent. chat_reply env usr problemId contestId message history (fs, s) = (Inr reply, (fs, s')) \<and>
    ch_rows s' = ch_rows s \<and> ch_next s' = ch_next s \<and> ch_limits s' = ch_limits s \<and>
    ch_sent s' = ch_sent s @ sent \<and> sent_ok env (payload_of usr problemId contestId message history) sent"
proof (cases "truthy (ce_webhook env)")
  case True
  let ?p = "payload_of usr problemId contestId message history"
  obtain r s' sent where a: "ask_service env (the (ce_webhook env)) ?p (fs, s) = (r, (fs, s'))"
    and k: "ch_rows s' = ch_rows s" "ch_next s' = ch_next s" "ch_limits s' = ch_limits s" "ch_sent s' = ch_sent s @ sent" "sent_ok env ?p sent"
    using ask_service_run [OF True] by metis
  show ?thesis
  proof (cases r)
    case (Inl e)
    then show ?thesis using True a k by (simp add: chat_reply_def Let_def catch_def bind_def payload_of_def)
  next
    case (Inr x)
    then show ?thesis using True a k by (cases x) (simp_all add: chat_reply_def Let_def catch_def bind_def payload_of_def)
  qed
next
  case False
  then show ?thesis by (simp add: chat_reply_def Let_def sent_ok_def)
qed

text \<open>The rows and the payload of a request, by what fails.\<close>

definition new_row :: "nat \<Rightarrow> string option \<Rightarrow> string option \<Rightarrow> string \<Rightarrow> text16 \<Rightarrow> int \<Rightarrow> nat \<Rightarrow> chat_row" where
  "new_row usr p c role content now i =
    \<lparr>ct_id = i, ct_user = usr, ct_problem = p, ct_contest = c, ct_role = role, ct_content = content, ct_createdAt = now\<rparr>"

lemma chat_create_run:
  "chat_create usr p c role content now (fs, s) =
    (if call_fails fs 0 then (Inl ''db'', (tl fs, s))
     else (Inr (new_row usr p c role content now (ch_next s)),
           (tl fs, s\<lparr>ch_rows := ch_rows s @ [new_row usr p c role content now (ch_next s)], ch_next := ch_next s + 1\<rparr>)))"
  by (simp add: chat_create_def call_hd hd_fails new_row_def Let_def)

definition valid_body :: "chat_json \<Rightarrow> bool" where
  "valid_body body \<longleftrightarrow> body \<noteq> NotJson \<and> chatBodySchema body = []"

lemma valid_body_cases:
  assumes "valid_body body"
  obtains m p c where "body = ChatBody (Text m) p c" "m \<noteq> []" "length m \<le> 4000"
  using assms
  by (cases body rule: chatBodySchema.cases)
    (auto simp: valid_body_def split: if_splits elim!: message_issue.elims)

lemma chat_POST_refuses:
  assumes "\<not> (\<exists>se. session = Some se \<and> valid_body body \<and>
      allowed (fst (memoryCheck (''chat:'' @ show_nat (se_userId se)) 10 60000 now (ch_limits s))))"
  shows "\<exists>n msg b. chat_POST env session body now later (fs, s) = (Inr (Failed n msg), (fs, s\<lparr>ch_limits := b\<rparr>))"
proof (cases session)
  case None
  then show ?thesis by (intro exI [of _ 401] exI exI [of _ "ch_limits s"]) (simp add: chat_POST_def)
next
  case (Some se)
  define key where "key = ''chat:'' @ show_nat (se_userId se)"
  have w: "\<not> (valid_body body \<and> allowed (fst (memoryCheck key 10 60000 now (ch_limits s))))"
    using assms Some by (simp add: key_def)
  then show ?thesis
    unfolding chat_POST_def Some option.case key_def [symmetric]
    by (cases "chatBodySchema body") (auto simp: bind_def chat.limited_run valid_body_def)
qed

text \<open>An admitted request, whatever fails: it stores its message first, then the reply.\<close>

lemma chat_POST_admitted:
  assumes "allowed (fst (memoryCheck (''chat:'' @ show_nat (se_userId se)) 10 60000 now (ch_limits s)))"
    and m: "m \<noteq> []" "length m \<le> 4000" and o: "optional_issue p = []" "optional_issue c = []"
  defines "urow \<equiv> new_row (se_userId se) (field_value p) (field_value c) ''user'' m now (ch_next s)"
  shows "\<exists>r gs t sent reply. chat_POST env (Some se) (ChatBody (Text m) p c) now later (fs, s) = (r, (gs, t)) \<and>
    ch_sent t = ch_sent s @ sent \<and>
    sent_ok env (payload_of (se_userId se) (field_value p) (field_value c) m
      (recent_history (se_userId se) (field_value p) (ch_next s) (s\<lparr>ch_rows := ch_rows s @ [urow]\<rparr>))) sent \<and>
    (if call_fails fs 0 then r = Inl ''db'' \<and> ch_rows t = ch_rows s
     else if call_fails fs 1 \<or> call_fails fs 2 then r = Inl ''db'' \<and> ch_rows t = ch_rows s @ [urow]
     else r = Inr (Reply 200 (reply, ch_next s + 1)) \<and>
       ch_rows t = ch_rows s @ [urow, new_row (se_userId se) (field_value p) (field_value c) ''assistant'' reply later (ch_next s + 1)])"
proof -
  define key where "key = ''chat:'' @ show_nat (se_userId se)"
  define s0 where "s0 = s\<lparr>ch_limits := snd (memoryCheck key 10 60000 now (ch_limits s))\<rparr>"
  have issues: "chatBodySchema (ChatBody (Text m) p c) = []" using m o by simp
  have one: "call_fails (tl fs) 0 = call_fails fs 1" "call_fails (tl (tl fs)) 0 = call_fails fs 2"
    unfolding tl_fails by (simp_all only: One_nat_def numeral_2_eq_2)
  let ?usr = "se_userId se" and ?p = "field_value p" and ?c = "field_value c"
  define s1 where "s1 = s0\<lparr>ch_rows := ch_rows s @ [urow], ch_next := ch_next s + 1\<rparr>"
  have s0: "ch_rows s0 = ch_rows s" "ch_sent s0 = ch_sent s" by (simp_all add: s0_def)
  have s1: "ch_rows s1 = ch_rows s @ [urow]" "ch_sent s1 = ch_sent s" by (simp_all add: s1_def s0_def)
  define hist where "hist = recent_history ?usr ?p (ch_next s) s1"
  have hist: "hist = recent_history ?usr ?p (ch_next s) (s\<lparr>ch_rows := ch_rows s @ [urow]\<rparr>)"
    by (simp add: hist_def recent_history_def s1_def)
  obtain reply s2 sent where rep: "chat_reply env ?usr ?p ?c m hist (tl (tl fs), s1) = (Inr reply, (tl (tl fs), s2))"
    and k: "ch_rows s2 = ch_rows s1" "ch_next s2 = ch_next s1" "ch_sent s2 = ch_sent s1 @ sent"
      "sent_ok env (payload_of ?usr ?p ?c m hist) sent"
    using chat_reply_run by metis
  have run: "chat_POST env (Some se) (ChatBody (Text m) p c) now later (fs, s) =
    (bind (chat_create ?usr ?p ?c ''user'' m now) (\<lambda>userMessage.
       bind (query ''db'' (recent_history ?usr ?p (ct_id userMessage))) (\<lambda>history.
       bind (chat_reply env ?usr ?p ?c m history) (\<lambda>reply.
       bind (chat_create ?usr ?p ?c ''assistant'' reply later) (\<lambda>assistantMessage.
       ret (Reply 200 (reply, ct_id assistantMessage))))))) (fs, s0)"
    using assms(1) issues unfolding chat_POST_def option.case key_def [symmetric] s0_def
    by (simp add: bind_def [of "limited_in _ _ _ _ _ _"] chat.limited_run Let_def)
  have c1: "chat_create ?usr ?p ?c ''user'' m now (fs, s0) =
      (if call_fails fs 0 then (Inl ''db'', (tl fs, s0)) else (Inr urow, (tl fs, s1)))"
    by (simp add: chat_create_run s0_def s1_def urow_def)
  have id': "ct_id urow = ch_next s" by (simp add: urow_def new_row_def)
  have q: "query ''db'' (recent_history ?usr ?p (ct_id urow)) (tl fs, s1) =
      (if call_fails fs 1 then (Inl ''db'', (tl (tl fs), s1)) else (Inr hist, (tl (tl fs), s1)))"
    by (simp add: query_hd hd_fails one id' hist_def)
  have c2: "chat_create ?usr ?p ?c ''assistant'' reply later (tl (tl fs), s2) =
      (if call_fails fs 2 then (Inl ''db'', (tl (tl (tl fs)), s2))
       else (Inr (new_row ?usr ?p ?c ''assistant'' reply later (ch_next s + 1)),
             (tl (tl (tl fs)), s2\<lparr>ch_rows := ch_rows s @ [urow, new_row ?usr ?p ?c ''assistant'' reply later (ch_next s + 1)], ch_next := ch_next s + 2\<rparr>)))"
    by (simp add: chat_create_run one k s1_def)
  have no: "sent_ok env payload []" for payload by (simp add: sent_ok_def)
  consider "call_fails fs 0" | "\<not> call_fails fs 0" "call_fails fs 1" | "\<not> call_fails fs 0" "\<not> call_fails fs 1" by blast
  then show ?thesis
  proof cases
    case 1
    then show ?thesis
      by (intro exI [of _ "Inl ''db''"] exI [of _ "tl fs"] exI [of _ s0] exI [of _ "[]"]) (simp add: run bind_def c1 no s0)
  next
    case 2
    then show ?thesis
      by (intro exI [of _ "Inl ''db''"] exI [of _ "tl (tl fs)"] exI [of _ s1] exI [of _ "[]"])
        (simp add: run bind_def c1 q no s1)
  next
    case 3
    have sent: "ch_sent s2 = ch_sent s @ sent" "ch_rows s2 = ch_rows s @ [urow]" using k by (simp_all add: s1_def s0_def)
    show ?thesis
    proof (cases "call_fails fs 2")
      case True
      then show ?thesis using 3 k(4) sent
        by (intro exI [of _ "Inl ''db''"] exI [of _ "tl (tl (tl fs))"] exI [of _ s2] exI [of _ sent])
          (simp add: run bind_def c1 q rep c2 hist [symmetric])
    next
      case False
      then show ?thesis using 3 k(4) sent
        by (intro exI [of _ "Inr (Reply 200 (reply, ch_next s + 1))"] exI [of _ "tl (tl (tl fs))"]
            exI [of _ "s2\<lparr>ch_rows := ch_rows s @ [urow, new_row ?usr ?p ?c ''assistant'' reply later (ch_next s + 1)], ch_next := ch_next s + 2\<rparr>"]
            exI [of _ sent] exI [of _ reply])
          (simp add: run bind_def c1 q rep c2 hist [symmetric] new_row_def)
    qed
  qed
qed

lemma recent_own:
  assumes "x \<in> set (recent_history usr p (ch_next s) (s\<lparr>ch_rows := ch_rows s @ [new_row usr p c role m now (ch_next s)]\<rparr>))"
  shows "\<exists>r \<in> set (ch_rows s). ct_user r = usr \<and> (truthy p \<longrightarrow> ct_problem r = p) \<and> x = (ct_role r, ct_content r)"
  using assms by (auto simp: recent_history_def new_row_def chat_match_def dest!: in_set_takeD)

lemma recent_at_most_ten: "length (recent_history usr p i s) \<le> 10"
  by (simp add: recent_history_def)

text \<open>
  What leaves the server. A request sends at most one payload, to the configured webhook, and only
  for a session: it names that user, its message has no code block of more than 200 lines, its history
  is at most ten messages of that very user, and of that problem where one is named. A signature is the
  hash of the payload under a secret of 16 characters or more, and in production nothing goes unsigned.
\<close>

theorem chat_sends_own_messages:
  assumes "chat_POST env session body now later (fs, s) = (r, (gs, t))"
  shows "\<exists>sent. ch_sent t = ch_sent s @ sent \<and> length sent \<le> 1 \<and>
    (\<forall>(url, payload, signature) \<in> set sent.
       ce_webhook env = Some url \<and> (\<exists>se. session = Some se \<and> cp_userId payload = se_userId se) \<and>
       list_all (\<lambda>b. line_count b \<le> 200) (code_blocks (cp_message payload)) \<and>
       length (cp_history payload) \<le> 10 \<and>
       (\<forall>x \<in> set (cp_history payload). \<exists>row \<in> set (ch_rows s).
          ct_user row = cp_userId payload \<and> x = (ct_role row, ct_content row) \<and>
          (cp_problemId payload \<noteq> None \<longrightarrow> ct_problem row = cp_problemId payload)) \<and>
       (case signature of None \<Rightarrow> \<not> ce_production env
        | Some g \<Rightarrow> \<exists>k. ce_secret env = Some k \<and> 16 \<le> length k \<and> g = ce_sign env k payload))"
proof (cases "\<exists>se. session = Some se \<and> valid_body body \<and>
      allowed (fst (memoryCheck (''chat:'' @ show_nat (se_userId se)) 10 60000 now (ch_limits s)))")
  case False
  from chat_POST_refuses [OF this, of env later fs] assms have "ch_sent t = ch_sent s" by auto
  then show ?thesis by (intro exI [of _ "[]"]) simp
next
  case True
  then obtain se where se: "session = Some se" "valid_body body"
      and al: "allowed (fst (memoryCheck (''chat:'' @ show_nat (se_userId se)) 10 60000 now (ch_limits s)))" by blast
  from se(2) obtain m p c where b: "body = ChatBody (Text m) p c" "m \<noteq> []" "length m \<le> 4000" by (rule valid_body_cases)
  have o: "optional_issue p = []" "optional_issue c = []" using se(2) b by (auto simp: valid_body_def)
  define h where "h = recent_history (se_userId se) (field_value p) (ch_next s)
      (s\<lparr>ch_rows := ch_rows s @ [new_row (se_userId se) (field_value p) (field_value c) ''user'' m now (ch_next s)]\<rparr>)"
  from chat_POST_admitted [OF al b(2,3) o, of env later fs] obtain sent where
    sent: "ch_sent t = ch_sent s @ sent" "sent_ok env (payload_of (se_userId se) (field_value p) (field_value c) m h) sent"
    using assms unfolding se(1) b(1) h_def by auto
  have own: "\<exists>row \<in> set (ch_rows s). ct_user row = se_userId se \<and> x = (ct_role row, ct_content row) \<and>
      (truthy (field_value p) \<longrightarrow> ct_problem row = field_value p)" if "x \<in> set h" for x
    using recent_own that unfolding h_def by blast
  define pl where "pl = payload_of (se_userId se) (field_value p) (field_value c) m h"
  have pl: "cp_userId pl = se_userId se" "cp_history pl = rev h" "length h \<le> 10"
      "list_all (\<lambda>b. line_count b \<le> 200) (code_blocks (cp_message pl))"
      "cp_problemId pl \<noteq> None \<longrightarrow> truthy (field_value p) \<and> cp_problemId pl = field_value p"
    using redacted_blocks_short [of m] recent_at_most_ten by (simp_all add: pl_def payload_of_def or_omit_def h_def)
  have history: "\<forall>x \<in> set (cp_history pl). \<exists>row \<in> set (ch_rows s).
          ct_user row = cp_userId pl \<and> x = (ct_role row, ct_content row) \<and>
          (cp_problemId pl \<noteq> None \<longrightarrow> ct_problem row = cp_problemId pl)"
    using own pl(1,2,5) by (metis set_rev)
  from sent(2) consider "sent = []" | url sg where "sent = [(url, pl, sg)]" "ce_webhook env = Some url"
      "case sg of None \<Rightarrow> \<not> ce_production env
        | Some g \<Rightarrow> \<exists>k. ce_secret env = Some k \<and> 16 \<le> length k \<and> g = ce_sign env k pl"
    unfolding sent_ok_def pl_def by blast
  then show ?thesis
  proof cases
    case 1
    then show ?thesis using sent(1) by simp
  next
    case 2
    then show ?thesis using sent(1) pl history se(1) by (intro exI [of _ sent]) simp
  qed
qed

lemma send_body_valid:
  assumes "valid_body (send_body message p c)"
  obtains p' c' where "send_body message p c = ChatBody (Text message) p' c'" "message \<noteq> []" "length message \<le> 4000"
    "optional_issue p' = []" "optional_issue c' = []" "field_value p' = or_omit p" "field_value c' = or_omit c"
proof
  show "send_body message p c = ChatBody (Text message) (if truthy p then Text (the p) else Missing) (if truthy c then Text (the c) else Missing)"
    by (simp add: send_body_def)
qed (use assms in \<open>auto simp: valid_body_def send_body_def or_omit_def truthy_def split: if_splits option.splits\<close>)

lemma drop_optimistic:
  "Optimistic t \<notin> fst ` set ms \<Longrightarrow> filter (\<lambda>m. fst m \<noteq> Optimistic t) (ms @ [(Optimistic t, x)]) = ms"
  by (induction ms) auto

text \<open>
  C29. One turn of a conversation, from the page through the route and back, whatever fails. Either the
  page shows the message and the reply, and exactly these two rows were stored, for this user, in this
  order; or the page shows an error and its messages are those of before. Then nothing was stored, but
  for one case: the history or the second insertion failed, and the message that the page took back is
  in the database without a reply.
\<close>

theorem chat_turn_shows_what_is_stored:
  assumes fresh: "Optimistic i \<notin> fst ` set (cv_messages v)"
    and turn: "chat_turn env broken session message p c i now later fs (v, s) = (v', s')"
  shows "\<not> cv_sending v' \<and>
    ((\<exists>se reply. session = Some se \<and> cv_error v' = None \<and>
        cv_messages v' = cv_messages v @ [(Optimistic i, ''user'', message), (Stored (ch_next s + 1), ''assistant'', reply)] \<and>
        ch_rows s' = ch_rows s @
          [new_row (se_userId se) (or_omit p) (or_omit c) ''user'' message now (ch_next s),
           new_row (se_userId se) (or_omit p) (or_omit c) ''assistant'' reply later (ch_next s + 1)]) \<or>
     (cv_error v' \<noteq> None \<and> cv_messages v' = cv_messages v \<and>
        (ch_rows s' = ch_rows s \<or>
         (\<exists>se. session = Some se \<and> (call_fails fs 1 \<or> call_fails fs 2) \<and>
           ch_rows s' = ch_rows s @ [new_row (se_userId se) (or_omit p) (or_omit c) ''user'' message now (ch_next s)]))))"
proof -
  let ?v = "send_begin i message v"
  let ?run = "chat_POST env session (send_body message p c) now later (fs, s)"
  have v: "cv_messages (send_failed i e ?v) = cv_messages v" "cv_error (send_failed i e ?v) = Some e"
      "\<not> cv_sending (send_failed i e ?v)" for e
    using drop_optimistic [OF fresh] by (simp_all add: send_failed_def send_begin_def)
  have w: "cv_messages (send_answered j r ?v) = cv_messages v @ [(Optimistic i, ''user'', message), (Stored j, ''assistant'', r)]"
      "cv_error (send_answered j r ?v) = None" "\<not> cv_sending (send_answered j r ?v)" for j r
    by (simp_all add: send_answered_def send_begin_def)
  show ?thesis
  proof (cases "\<exists>se. session = Some se \<and> valid_body (send_body message p c) \<and>
      allowed (fst (memoryCheck (''chat:'' @ show_nat (se_userId se)) 10 60000 now (ch_limits s)))")
    case False
    then obtain n msg b where r: "?run = (Inr (Failed n msg), (fs, s\<lparr>ch_limits := b\<rparr>))"
      using chat_POST_refuses by blast
    have "v' = send_failed i msg ?v \<and> s' = s\<lparr>ch_limits := b\<rparr>" using turn unfolding chat_turn_def Let_def fst_conv snd_conv r by simp
    then show ?thesis using v by simp
  next
    case True
    then obtain se where se: "session = Some se" "valid_body (send_body message p c)"
      and al: "allowed (fst (memoryCheck (''chat:'' @ show_nat (se_userId se)) 10 60000 now (ch_limits s)))" by blast
    from se(2) obtain p' c' where b: "send_body message p c = ChatBody (Text message) p' c'" "message \<noteq> []" "length message \<le> 4000"
      and o: "optional_issue p' = []" "optional_issue c' = []" and f: "field_value p' = or_omit p" "field_value c' = or_omit c"
      by (rule send_body_valid)
    define urow where "urow = new_row (se_userId se) (or_omit p) (or_omit c) ''user'' message now (ch_next s)"
    from chat_POST_admitted [OF al b(2,3) o, of env later fs] obtain r gs x reply where
      run: "?run = (r, (gs, x))" and
      out: "if call_fails fs 0 then r = Inl ''db'' \<and> ch_rows x = ch_rows s
         else if call_fails fs 1 \<or> call_fails fs 2 then r = Inl ''db'' \<and> ch_rows x = ch_rows s @ [urow]
         else r = Inr (Reply 200 (reply, ch_next s + 1)) \<and>
           ch_rows x = ch_rows s @ [urow, new_row (se_userId se) (or_omit p) (or_omit c) ''assistant'' reply later (ch_next s + 1)]"
      unfolding se(1) b(1) f urow_def by blast
    have s': "s' = x" and v': "v' = (case r of Inr (Reply n (reply, j)) \<Rightarrow> send_answered j reply ?v
          | Inr (Failed n err) \<Rightarrow> send_failed i err ?v | Inl err \<Rightarrow> send_failed i broken ?v)"
      using turn unfolding chat_turn_def Let_def fst_conv snd_conv run by simp_all
    show ?thesis using out v w unfolding s' v' by (simp add: se(1) urow_def split: if_splits)
  qed
qed

definition sample_env :: chat_env where
  "sample_env = \<lparr>ce_webhook = Some ''http://n8n'', ce_secret = Some ''0123456789abcdef'', ce_production = True,
     ce_sign = (\<lambda>k p. k), ce_service = (\<lambda>p sg. Inr (200, Inr (Some (u ''ok'')))), ce_lower = (\<lambda>t. t)\<rparr>"

definition sample_chat :: chat_db where
  "sample_chat = \<lparr>ch_rows = [new_row 7 (Some ''p'') None ''user'' (u ''old'') 10 1, new_row 8 (Some ''p'') None ''user'' (u ''other'') 20 2],
     ch_next = 3, ch_limits = [], ch_warned = False, ch_sent = []\<rparr>"

definition sample_view :: chat_view where
  "sample_view = \<lparr>cv_messages = [(Stored 1, ''user'', u ''old'')], cv_sending = False, cv_error = None\<rparr>"

lemma u_simps [simp]: "length (u s) = length s" "u s = [] \<longleftrightarrow> s = []"
  by (simp_all add: u_def)

lemmas run_simps = chat_POST_def bind_def catch_def limited_in_def rateLimit_def memoryCheck_def sample_env_def sample_chat_def
  chat_create_def chat_reply_def ask_service_def n8nHmacSecret_def truthy_def Let_def

lemma chat_sends_own_messages_witness:
  "\<exists>payload. ch_sent (snd (snd (chat_POST sample_env (Some \<lparr>se_userId = 7, se_role = ''user''\<rparr>)
      (ChatBody (Text (u ''hint'')) (Text ''p'') Missing) 30 40 ([], sample_chat)))) =
      [(''http://n8n'', payload, Some ''0123456789abcdef'')] \<and>
    cp_userId payload = 7 \<and> cp_history payload = [(''user'', u ''old'')] \<and> length (cp_history payload) \<le> 10"
proof -
  let ?p = "\<lparr>cp_userId = 7, cp_problemId = Some ''p'', cp_contestId = None, cp_message = u ''hint'', cp_history = [(''user'', u ''old'')]\<rparr>"
  have red: "redactLongCodeBlocks (u ''hint'') = u ''hint''" by (simp add: u_def begins_def fence_def)
  define run where "run = chat_POST sample_env (Some \<lparr>se_userId = 7, se_role = ''user''\<rparr>)
      (ChatBody (Text (u ''hint'')) (Text ''p'') Missing) 30 40 ([], sample_chat)"
  have sent: "ch_sent (snd (snd run)) = [(''http://n8n'', ?p, Some ''0123456789abcdef'')]" unfolding run_def
    using red by (simp add: run_simps recent_history_def chat_match_def new_row_def or_omit_def)
  have "chat_POST sample_env (Some \<lparr>se_userId = 7, se_role = ''user''\<rparr>)
      (ChatBody (Text (u ''hint'')) (Text ''p'') Missing) 30 40 ([], sample_chat) = (fst run, (fst (snd run), snd (snd run)))"
    by (simp add: run_def)
  from chat_sends_own_messages [OF this] sent have "length (cp_history ?p) \<le> 10" by (auto simp: sample_chat_def)
  then show ?thesis using sent unfolding run_def by auto
qed

lemma chat_turn_shows_what_is_stored_witness:
  "\<not> cv_sending (fst (chat_turn sample_env ''?'' (Some \<lparr>se_userId = 7, se_role = ''user''\<rparr>) (u ''hi'') None None 5 30 40 [False, False, True]
      (sample_view, sample_chat)))"
proof -
  have f: "Optimistic 5 \<notin> fst ` set (cv_messages sample_view)" by (simp add: sample_view_def)
  show ?thesis
    using chat_turn_shows_what_is_stored [OF f prod.collapse [symmetric], of sample_env "''?''" "Some \<lparr>se_userId = 7, se_role = ''user''\<rparr>" "u ''hi''" None None 30 40
        "[False, False, True]" sample_chat] by (rule conjunct1)
qed

text \<open>The message that the page took back is stored.\<close>

lemma taken_back_message_is_stored:
  "let (v, s) = chat_turn sample_env ''?'' (Some \<lparr>se_userId = 7, se_role = ''user''\<rparr>) (u ''hi'') None None 5 30 40 [False, False, True]
       (sample_view, sample_chat)
   in cv_messages v = cv_messages sample_view \<and> ch_rows s = ch_rows sample_chat @ [new_row 7 None None ''user'' (u ''hi'') 30 3]"
  by (simp add: chat_turn_def send_body_def send_begin_def send_failed_def sample_view_def run_simps new_row_def)

text \<open>
  Only the message itself is redacted: what the same user wrote before goes out as it was stored. A
  block that is not closed goes out whole.
\<close>

lemma history_is_not_redacted:
  assumes "ch_rows s = [r, r']" "ct_user r = usr" "ct_id r \<noteq> ct_id r'"
  shows "recent_history usr None (ct_id r') s = [(ct_role r, ct_content r)]"
  using assms by (simp add: recent_history_def chat_match_def truthy_def)

lemma open_block_is_not_redacted: "until_fence t = None \<Longrightarrow> redactLongCodeBlocks (fence @ t) = fence @ t"
proof -
  assume u: "until_fence t = None"
  have n: "\<not> begins fence t" using u by (cases t) (auto simp: fence_def begins_def split: if_splits)
  have r: "redactLongCodeBlocks t = t" using until_fence_drop [OF u] by (rule redact_unclosed)
  have one: "until_fence (drop 1 t) = None" "until_fence (drop 2 t) = None" using until_fence_drop [OF u] by blast+
  show ?thesis using u r one by (simp add: fence_def numeral_3_eq_3 numeral_2_eq_2 begins_def)
qed

text \<open>A keyword is found inside a word: asking how to swap two nodes gets the advice for a wrong answer.\<close>

lemma swap_is_taken_for_wrong_answer: "generateLocalReply (\<lambda>t. t) (u ''how do I swap two nodes?'') None = reply_wrong"
  by (simp add: generateLocalReply_def hello_words_def hint_words_def slow_words_def wrong_words_def u_def begins_def trim16_def is_space16_def)

text \<open>The page loads the first fifty messages of a conversation, not the latest.\<close>

lemma history_stops_at_fifty:
  assumes "50 \<le> length rows" "\<forall>r \<in> set rows. chat_match usr p r" "sorted (map ct_createdAt (rows @ rest))"
    and "se_userId se = usr" "ch_rows s = rows @ rest" "\<forall>r \<in> set rest. chat_match usr p r"
  shows "\<exists>ls. chat_GET (Some se) p ([], s) = (Inr (Reply 200 ls), ([], s)) \<and> map cl_id ls = map ct_id (take 50 rows)"
proof -
  have "sort_key ct_createdAt (filter (chat_match usr p) (ch_rows s)) = rows @ rest"
    using assms by (simp add: sort_key_id_if_sorted filter_True)
  then show ?thesis using assms by (simp add: chat_GET_def bind_def)
qed

end
