(* ===== verification/Recorder.thy ===== *)
theory Recorder
  imports CodePlayback
begin

section \<open>The recorder of the editor\<close>

text \<open>
  \<^verbatim>\<open>src/components/editor/playback-recorder.tsx\<close>: the buffer of events of one editor, from the
  subscription to the flush, together with the routes and the replay of \<^verbatim>\<open>CodePlayback\<close>. The times are
  those of \<^verbatim>\<open>Date.now()\<close>. The editor (Monaco) is not part of the repository: what the recorder relies
  on is that each reported change names, by lines and columns, the stretch of the text that it replaced.
\<close>

subsection \<open>State and steps\<close>

record change =
  ch_range :: play_range
  ch_text :: string
  ch_rangeLength :: int

record recorder =
  rc_buffer :: "event list"
  rc_startedAt :: int

definition new_recorder :: recorder where
  "new_recorder = \<lparr>rc_buffer = [], rc_startedAt = 0\<rparr>"

text \<open>The effect that subscribes; the model of the editor may be null.\<close>

definition subscribe :: "int \<Rightarrow> string option \<Rightarrow> recorder \<Rightarrow> recorder" where
  "subscribe now model r =
    (if rc_startedAt r = 0 then
       (let r' = r\<lparr>rc_startedAt := now\<rparr>
        in case model of
             None \<Rightarrow> r'
           | Some code \<Rightarrow> r'\<lparr>rc_buffer := rc_buffer r' @ [\<lparr>ev_type = Snapshot, ev_ts = 0, ev_payload = Code code\<rparr>]\<rparr>)
     else r)"

definition is_paste :: "change list \<Rightarrow> bool" where
  "is_paste changes \<longleftrightarrow> length changes > 1 \<or> list_ex (\<lambda>c. length (ch_text c) > 32) changes"

fun push_changes :: "event_type \<Rightarrow> int \<Rightarrow> change list \<Rightarrow> event list \<Rightarrow> event list" where
  "push_changes ty ts [] buffer = buffer"
| "push_changes ty ts (c # cs) buffer =
    (if length buffer \<ge> max_events_per_flush then buffer
     else push_changes ty ts cs
       (buffer @ [\<lparr>ev_type = ty, ev_ts = ts, ev_payload = Edit (ch_range c) (ch_text c) (ch_rangeLength c)\<rparr>]))"

definition on_content :: "int \<Rightarrow> change list \<Rightarrow> recorder \<Rightarrow> recorder" where
  "on_content now changes r =
    r\<lparr>rc_buffer := push_changes (if is_paste changes then Paste else Keystroke) (now - rc_startedAt r) changes (rc_buffer r)\<rparr>"

definition on_selection :: "int \<Rightarrow> play_range \<Rightarrow> recorder \<Rightarrow> recorder" where
  "on_selection now sel r =
    (if length (rc_buffer r) \<ge> max_events_per_flush then r
     else r\<lparr>rc_buffer := rc_buffer r @ [\<lparr>ev_type = Select, ev_ts = now - rc_startedAt r, ev_payload = Selection sel\<rparr>]\<rparr>)"

definition recorder_reset :: "recorder \<Rightarrow> recorder" where
  "recorder_reset r = r\<lparr>rc_buffer := [], rc_startedAt := 0\<rparr>"

text \<open>An event as the object that is serialized and sent.\<close>

definition event_json :: "event \<Rightarrow> raw_event" where
  "event_json ev = \<lparr>re_type = type_name (ev_type ev), re_ts = Some (of_int (ev_ts ev)), re_payload = Some (payload_json (ev_payload ev))\<rparr>"

text \<open>\<^verbatim>\<open>events.slice(-n)\<close>\<close>

definition last_events :: "nat \<Rightarrow> event list \<Rightarrow> event list" where
  "last_events n evs = drop (length evs - n) evs"

text \<open>What a flush sends, if anything; the answer of the route is not looked at.\<close>

definition recorder_flush :: "int \<Rightarrow> recorder \<Rightarrow> raw_event list option \<times> recorder" where
  "recorder_flush debounceMs r =
    (let events = debounceEvents debounceMs (rc_buffer r)
     in if events = [] then (None, r)
        else (case serializeEvents (map event_json (last_events max_events_per_flush events)) of
                Inl err \<Rightarrow> (None, r\<lparr>rc_buffer := []\<rparr>)
              | Inr serialized \<Rightarrow> (Some (map event_json serialized), r\<lparr>rc_buffer := []\<rparr>)))"

subsection \<open>The editor and its recorder\<close>

datatype editor_event = Changed int "change list" | Selected int play_range


fun recorder_step :: "editor_event \<Rightarrow> recorder \<Rightarrow> recorder" where
  "recorder_step (Changed t cs) r = on_content t cs r"
| "recorder_step (Selected t sel) r = on_selection t sel r"



text \<open>What the viewer makes of the same events.\<close>

fun replay_step :: "editor_event \<Rightarrow> string \<Rightarrow> string" where
  "replay_step (Changed t cs) code = foldl (\<lambda>s c. applyEdit s (ch_range c) (ch_text c)) code cs"
| "replay_step (Selected t sel) code = code"





subsection \<open>What is recorded\<close>

text \<open>The text of a replay, as the viewer folds it.\<close>

definition replay_text :: "event list \<Rightarrow> string" where
  "replay_text evs = fst (fold play_event evs ([], default_selection))"











subsection \<open>The way to the server and back\<close>










definition sample_edit :: "int \<Rightarrow> int \<Rightarrow> string \<Rightarrow> editor_event" where
  "sample_edit t col s = Changed t [\<lparr>ch_range = \<lparr>startLine = 1, startColumn = col, endLine = 1, endColumn = col\<rparr>, ch_text = s, ch_rangeLength = 0\<rparr>]"




text \<open>
  After a flush the buffer is empty and nothing takes a new snapshot: what is recorded for the next
  submission plays back from the empty text.
\<close>

lemma second_flush_has_no_start:
  "let r = subscribe 100 (Some ''a'') new_recorder; r' = snd (recorder_flush 0 r); r'' = recorder_step (sample_edit 130 2 ''b'') (subscribe 125 (Some ''a'') r')
   in replay_text (rc_buffer r'') = ''b'' \<and> replay_step (sample_edit 130 2 ''b'') ''a'' = ''ab''"
  by (simp add: sample_edit_def subscribe_def new_recorder_def recorder_flush_def debounceEvents_def last_events_def
      max_events_per_flush_def serializeEvents_def event_json_def serializeEvent_def canonicalPayload_def payload_json_def type_name_def
      isPlaybackEventType_def no_payload_def on_content_def is_paste_def replay_text_def play_event_def applyEdit_def offsetForPosition_def Let_def)

text \<open>
  A reset leaves the editor subscribed and the start at 0: until the effect runs again, which it does
  only for another editor, the recorded times are milliseconds since 1970 and not since the start, more
  than the 32 bits of the column hold.
\<close>

lemma times_after_reset:
  "rc_buffer (recorder_step (Selected now sel) (recorder_reset r)) = [\<lparr>ev_type = Select, ev_ts = now, ev_payload = Selection sel\<rparr>]"
  by (simp add: recorder_reset_def on_selection_def max_events_per_flush_def)

text \<open>What is recorded beyond the cap is dropped, the newest first.\<close>

lemma full_buffer_drops_new: "length (rc_buffer r) = max_events_per_flush \<Longrightarrow> recorder_step e r = r"
proof -
  assume full: "length (rc_buffer r) = max_events_per_flush"
  then have "push_changes ty ts cs (rc_buffer r) = rc_buffer r" for ty ts cs by (cases cs) simp_all
  then show "recorder_step e r = r" using full by (cases e) (simp_all add: on_content_def on_selection_def)
qed

end
