(* ===== verification/ServiceWorker.thy ===== *)
theory ServiceWorker
  imports JsText
begin

section \<open>The service worker\<close>

text \<open>
  \<^verbatim>\<open>public/sw.js\<close>: what the worker answers to the requests of the pages, and what it keeps in the
  browser's caches. Requests, the answers of the network and the life cycle are events in any order:
  a request that the worker takes on is in flight until the network answers or fails. Within the site
  a request is known by its path and query; a cache that matches by \<^verbatim>\<open>Vary\<close> as well is not modelled.
  \<open>parse_date\<close> is \<^verbatim>\<open>Date.parse\<close>, None for NaN.
\<close>

subsection \<open>Requests and responses\<close>

record sw_response =
  sr_status :: nat
  sr_date :: "string option"
  sr_body :: string

record sw_request =
  rq_method :: string
  rq_same_origin :: bool
  rq_navigate :: bool
  rq_path :: string
  rq_search :: string

definition rq_url :: "sw_request \<Rightarrow> string" where
  "rq_url rq = rq_path rq @ rq_search rq"

definition sr_ok :: "sw_response \<Rightarrow> bool" where
  "sr_ok r \<longleftrightarrow> 200 \<le> sr_status r \<and> sr_status r < 300"

definition SHELL_CACHE :: string where "SHELL_CACHE = ''leetrank-shell-v1''"
definition RUNTIME_CACHE :: string where "RUNTIME_CACHE = ''leetrank-runtime-v1''"

definition SHELL_URLS :: "string list" where
  "SHELL_URLS = [''/'', ''/problems'', ''/contests'', ''/leaderboard'', ''/login'', ''/offline'']"

definition RUNTIME_TTL_MS :: int where "RUNTIME_TTL_MS = 24 * 60 * 60 * 1000"

text \<open>\<^verbatim>\<open>/^base(\/|$|\?)/\<close>\<close>

definition under :: "string \<Rightarrow> string \<Rightarrow> bool" where
  "under base path \<longleftrightarrow> starts_with base path \<and>
    (let rest = drop (length base) path in rest = [] \<or> hd rest = CHR ''/'' \<or> hd rest = CHR ''?'')"

definition isRuntimeApi :: "string \<Rightarrow> bool" where
  "isRuntimeApi path \<longleftrightarrow> under ''/api/problems'' path \<or> under ''/api/tags'' path"

definition never_cached :: "string \<Rightarrow> bool" where
  "never_cached path \<longleftrightarrow> under ''/api/submissions'' path"

definition network_first_path :: "string \<Rightarrow> bool" where
  "network_first_path path \<longleftrightarrow> starts_with ''/api/auth/'' path"

datatype sw_route = Untouched | Navigation | NetworkFirst | Revalidate

text \<open>The fetch listener; \<open>Untouched\<close> leaves the request to the browser.\<close>

definition sw_route_of :: "sw_request \<Rightarrow> sw_route" where
  "sw_route_of rq =
    (if rq_method rq \<noteq> ''GET'' then Untouched
     else if \<not> rq_same_origin rq then Untouched
     else if rq_navigate rq then Navigation
     else if never_cached (rq_path rq) then Untouched
     else if network_first_path (rq_path rq) then NetworkFirst
     else if isRuntimeApi (rq_path rq) then Revalidate
     else Untouched)"

subsection \<open>The state\<close>

record sw_flight =
  fl_id :: nat
  fl_route :: sw_route
  fl_url :: string
  fl_cached :: "sw_response option"
  fl_answered :: bool

text \<open>
  \<open>sw_log\<close> are the replies so far, with their requests; \<open>sw_network\<close> what the network answered so
  far, to the worker or at the installation.
\<close>

type_synonym browser_cache = "(string, sw_response) jsmap"

record sw =
  sw_caches :: "(string, browser_cache) jsmap"
  sw_flights :: "sw_flight list"
  sw_next :: nat
  sw_log :: "(sw_route \<times> string \<times> sw_response) list"
  sw_network :: "(string \<times> sw_response) list"

definition open_cache :: "string \<Rightarrow> sw \<Rightarrow> browser_cache" where
  "open_cache name s = (case jm_get (sw_caches s) name of None \<Rightarrow> [] | Some c \<Rightarrow> c)"

definition cache_put :: "string \<Rightarrow> string \<Rightarrow> sw_response \<Rightarrow> sw \<Rightarrow> sw" where
  "cache_put name url r s = s\<lparr>sw_caches := jm_set name (jm_set url r (open_cache name s)) (sw_caches s)\<rparr>"

definition sw_reply :: "sw_route \<Rightarrow> string \<Rightarrow> sw_response \<Rightarrow> sw \<Rightarrow> sw" where
  "sw_reply route url r s = s\<lparr>sw_log := sw_log s @ [(route, url, r)]\<rparr>"

definition gateway_timeout :: sw_response where
  "gateway_timeout = \<lparr>sr_status = 504, sr_date = None, sr_body = []\<rparr>"

definition offline_json :: sw_response where
  "offline_json = \<lparr>sr_status = 503, sr_date = None, sr_body = [CHR ''{'', CHR 0x22] @ ''error'' @ [CHR 0x22, CHR '':'', CHR 0x22] @ ''offline'' @ [CHR 0x22, CHR ''}'']\<rparr>"

definition offline_text :: sw_response where
  "offline_text = \<lparr>sr_status = 503, sr_date = None, sr_body = ''Offline''\<rparr>"

subsection \<open>The handlers\<close>

definition is_fresh :: "(string \<Rightarrow> int option) \<Rightarrow> int \<Rightarrow> sw_response \<Rightarrow> bool" where
  "is_fresh parse_date now r =
    (case (if truthy (sr_date r) then parse_date (the (sr_date r)) else Some 0) of
       None \<Rightarrow> False
     | Some fetchedAt \<Rightarrow> now - fetchedAt < RUNTIME_TTL_MS)"

definition add_flight :: "sw_route \<Rightarrow> string \<Rightarrow> sw_response option \<Rightarrow> bool \<Rightarrow> sw \<Rightarrow> sw" where
  "add_flight route url cached answered s =
    s\<lparr>sw_flights := sw_flights s @ [\<lparr>fl_id = sw_next s, fl_route = route, fl_url = url, fl_cached = cached, fl_answered = answered\<rparr>],
      sw_next := sw_next s + 1\<rparr>"

text \<open>Up to its first await on the network each handler runs at the request.\<close>

definition sw_request_step :: "(string \<Rightarrow> int option) \<Rightarrow> sw_request \<Rightarrow> int \<Rightarrow> sw \<Rightarrow> sw" where
  "sw_request_step parse_date rq now s =
    (let url = rq_url rq
     in case sw_route_of rq of
          Untouched \<Rightarrow> s
        | Navigation \<Rightarrow> add_flight Navigation url None False s
        | NetworkFirst \<Rightarrow> add_flight NetworkFirst url None False s
        | Revalidate \<Rightarrow>
            (let cached = jm_get (open_cache RUNTIME_CACHE s) url
             in case cached of
                  Some r \<Rightarrow>
                    if is_fresh parse_date now r then add_flight Revalidate url cached True (sw_reply Revalidate url r s)
                    else add_flight Revalidate url cached False s
                | None \<Rightarrow> add_flight Revalidate url None False s))"

definition navigationHandler :: "string \<Rightarrow> sw_response option \<Rightarrow> sw \<Rightarrow> sw" where
  "navigationHandler url net s =
    (case net of
       Some res \<Rightarrow> sw_reply Navigation url res s
     | None \<Rightarrow>
         (case jm_get (open_cache SHELL_CACHE s) ''/offline'' of
            Some offline \<Rightarrow> sw_reply Navigation url offline s
          | None \<Rightarrow> sw_reply Navigation url offline_text s))"

text \<open>\<open>stored\<close> says whether \<^verbatim>\<open>cache.put\<close> succeeds; where it throws, the catch takes over.\<close>

definition networkFirst :: "string \<Rightarrow> sw_response option \<Rightarrow> bool \<Rightarrow> sw \<Rightarrow> sw" where
  "networkFirst url net stored s =
    (let failed = (case jm_get (open_cache RUNTIME_CACHE s) url of
                     Some cached \<Rightarrow> sw_reply NetworkFirst url cached s
                   | None \<Rightarrow> sw_reply NetworkFirst url offline_json s)
     in case net of
          None \<Rightarrow> failed
        | Some res \<Rightarrow>
            if sr_ok res then (if stored then sw_reply NetworkFirst url res (cache_put RUNTIME_CACHE url res s) else failed)
            else sw_reply NetworkFirst url res s)"

definition staleWhileRevalidate :: "sw_flight \<Rightarrow> sw_response option \<Rightarrow> bool \<Rightarrow> sw \<Rightarrow> sw" where
  "staleWhileRevalidate f net stored s =
    (let (network, s') =
       (case net of
          None \<Rightarrow> (None, s)
        | Some res \<Rightarrow>
            if sr_ok res then (if stored then (Some res, cache_put RUNTIME_CACHE (fl_url f) res s) else (None, s))
            else (Some res, s))
     in if fl_answered f then s'
        else sw_reply Revalidate (fl_url f)
               (case network of Some res \<Rightarrow> res
                | None \<Rightarrow> (case fl_cached f of Some r \<Rightarrow> r | None \<Rightarrow> gateway_timeout)) s')"

definition note_network :: "string \<Rightarrow> sw_response option \<Rightarrow> sw \<Rightarrow> sw" where
  "note_network url net s =
    (case net of None \<Rightarrow> s | Some res \<Rightarrow> s\<lparr>sw_network := sw_network s @ [(url, res)]\<rparr>)"

definition sw_answer_step :: "nat \<Rightarrow> sw_response option \<Rightarrow> bool \<Rightarrow> sw \<Rightarrow> sw" where
  "sw_answer_step i net stored s =
    (case find (\<lambda>f. fl_id f = i) (sw_flights s) of
       None \<Rightarrow> s
     | Some f \<Rightarrow>
         (let s' = note_network (fl_url f) net (s\<lparr>sw_flights := filter (\<lambda>g. fl_id g \<noteq> i) (sw_flights s)\<rparr>)
          in case fl_route f of
               Navigation \<Rightarrow> navigationHandler (fl_url f) net s'
             | NetworkFirst \<Rightarrow> networkFirst (fl_url f) net stored s'
             | Revalidate \<Rightarrow> staleWhileRevalidate f net stored s'
             | Untouched \<Rightarrow> s'))"

text \<open>The installation; a page that cannot be fetched or stored is left out.\<close>

fun sw_install :: "(string \<Rightarrow> sw_response option) \<Rightarrow> (string \<Rightarrow> bool) \<Rightarrow> string list \<Rightarrow> sw \<Rightarrow> sw" where
  "sw_install net stored [] s = s"
| "sw_install net stored (url # urls) s =
    (let s' = note_network url (net url) s
     in sw_install net stored urls
          (case net url of
             Some res \<Rightarrow> if sr_ok res \<and> stored url then cache_put SHELL_CACHE url res s' else s'
           | None \<Rightarrow> s'))"

definition sw_activate :: "sw \<Rightarrow> sw" where
  "sw_activate s = s\<lparr>sw_caches := filter (\<lambda>(k, c). \<not> (k \<noteq> SHELL_CACHE \<and> k \<noteq> RUNTIME_CACHE)) (sw_caches s)\<rparr>"

datatype sw_event =
    Request sw_request int
  | Answer nat "sw_response option" bool
  | Install "string \<Rightarrow> sw_response option" "string \<Rightarrow> bool"
  | Activate

fun sw_step :: "(string \<Rightarrow> int option) \<Rightarrow> sw_event \<Rightarrow> sw \<Rightarrow> sw" where
  "sw_step pd (Request rq now) s = sw_request_step pd rq now s"
| "sw_step pd (Answer i net stored) s = sw_answer_step i net stored s"
| "sw_step pd (Install net stored) s = sw_install net stored SHELL_URLS s"
| "sw_step pd Activate s = sw_activate s"

subsection \<open>What can be stored and replied\<close>

lemma jm_get_kept: "jm_get (filter (\<lambda>(k, v). P k) m) j = (if P j then jm_get m j else None)"
  by (induction m) auto

lemma open_cache_put [simp]:
  "open_cache n (cache_put m u r s) = (if n = m then jm_set u r (open_cache m s) else open_cache n s)"
  by (simp add: open_cache_def cache_put_def jm_get_set)

lemma caches_differ [simp]: "SHELL_CACHE \<noteq> RUNTIME_CACHE" "RUNTIME_CACHE \<noteq> SHELL_CACHE"
  by (simp_all add: SHELL_CACHE_def RUNTIME_CACHE_def)

lemma parts_of_updates [simp]:
  "open_cache n (sw_reply rt u r s) = open_cache n s" "sw_flights (sw_reply rt u r s) = sw_flights s"
  "sw_network (sw_reply rt u r s) = sw_network s" "sw_log (sw_reply rt u r s) = sw_log s @ [(rt, u, r)]"
  "sw_flights (cache_put n u r s) = sw_flights s" "sw_network (cache_put n u r s) = sw_network s"
  "sw_log (cache_put n u r s) = sw_log s"
  "open_cache n (add_flight rt u c a s) = open_cache n s" "sw_network (add_flight rt u c a s) = sw_network s"
  "sw_log (add_flight rt u c a s) = sw_log s"
  "open_cache n (note_network u net s) = open_cache n s" "sw_flights (note_network u net s) = sw_flights s"
  "sw_log (note_network u net s) = sw_log s"
  "sw_network (note_network u net s) = sw_network s @ (case net of None \<Rightarrow> [] | Some r \<Rightarrow> [(u, r)])"
  by (simp_all add: sw_reply_def cache_put_def add_flight_def note_network_def open_cache_def split: option.split)

definition api_url :: "string \<Rightarrow> bool" where
  "api_url url \<longleftrightarrow> starts_with ''/api/auth/'' url \<or> starts_with ''/api/problems'' url \<or> starts_with ''/api/tags'' url"

lemma starts_with_more: "starts_with p s \<Longrightarrow> starts_with p (s @ t)"
  by (auto simp: starts_with_iff)

lemma route_api: "sw_route_of rq = NetworkFirst \<or> sw_route_of rq = Revalidate \<Longrightarrow> api_url (rq_url rq)"
  by (auto simp: sw_route_of_def api_url_def rq_url_def isRuntimeApi_def under_def network_first_path_def
      intro: starts_with_more split: if_splits)

text \<open>Where a reply may come from.\<close>

definition reply_ok :: "(string \<times> sw_response) list \<Rightarrow> sw_route \<times> string \<times> sw_response \<Rightarrow> bool" where
  "reply_ok net x = (case x of (route, url, r) \<Rightarrow>
     (case route of
        Untouched \<Rightarrow> False
      | Navigation \<Rightarrow> (url, r) \<in> set net \<or> (''/offline'', r) \<in> set net \<or> r = offline_text
      | NetworkFirst \<Rightarrow> api_url url \<and> ((url, r) \<in> set net \<or> r = offline_json)
      | Revalidate \<Rightarrow> api_url url \<and> ((url, r) \<in> set net \<or> r = gateway_timeout)))"

lemma reply_ok_more: "reply_ok net x \<Longrightarrow> reply_ok (net @ extra) x"
  by (auto simp: reply_ok_def split: prod.splits sw_route.splits)

definition entries_from :: "(string \<Rightarrow> bool) \<Rightarrow> (string \<times> sw_response) list \<Rightarrow> browser_cache \<Rightarrow> bool" where
  "entries_from P net c \<longleftrightarrow> (\<forall>url r. jm_get c url = Some r \<longrightarrow> P url \<and> sr_ok r \<and> (url, r) \<in> set net)"

lemma entries_more: "entries_from P net c \<Longrightarrow> entries_from P (net @ extra) c"
  by (auto simp: entries_from_def)

lemma entries_set: "entries_from P net c \<Longrightarrow> P url \<Longrightarrow> sr_ok r \<Longrightarrow> (url, r) \<in> set net \<Longrightarrow> entries_from P net (jm_set url r c)"
  by (auto simp: entries_from_def jm_get_set)

definition flight_ok :: "(string \<times> sw_response) list \<Rightarrow> sw_flight \<Rightarrow> bool" where
  "flight_ok net f \<longleftrightarrow> (\<forall>r. fl_cached f = Some r \<longrightarrow> (fl_url f, r) \<in> set net) \<and>
    (fl_route f = NetworkFirst \<or> fl_route f = Revalidate \<longrightarrow> api_url (fl_url f))"

definition sw_ok :: "sw \<Rightarrow> bool" where
  "sw_ok s \<longleftrightarrow> entries_from api_url (sw_network s) (open_cache RUNTIME_CACHE s) \<and>
    entries_from (\<lambda>u. u \<in> set SHELL_URLS) (sw_network s) (open_cache SHELL_CACHE s) \<and>
    list_all (flight_ok (sw_network s)) (sw_flights s) \<and> list_all (reply_ok (sw_network s)) (sw_log s)"

lemma sw_ok_note: "sw_ok s \<Longrightarrow> sw_ok (note_network u net s)"
  by (auto simp: sw_ok_def list_all_iff flight_ok_def intro: entries_more reply_ok_more)

lemma sw_ok_reply: "sw_ok s \<Longrightarrow> reply_ok (sw_network s) (rt, u, r) \<Longrightarrow> sw_ok (sw_reply rt u r s)"
  by (simp add: sw_ok_def)

lemma sw_ok_put: "sw_ok s \<Longrightarrow> api_url u \<Longrightarrow> sr_ok r \<Longrightarrow> (u, r) \<in> set (sw_network s) \<Longrightarrow> sw_ok (cache_put RUNTIME_CACHE u r s)"
  by (simp add: sw_ok_def entries_set)

lemma sw_ok_flight:
  "sw_ok s \<Longrightarrow> (\<And>r. c = Some r \<Longrightarrow> (u, r) \<in> set (sw_network s)) \<Longrightarrow> (rt = NetworkFirst \<or> rt = Revalidate \<Longrightarrow> api_url u) \<Longrightarrow>
    sw_ok (add_flight rt u c a s)"
  by (simp add: sw_ok_def flight_ok_def) (simp add: add_flight_def flight_ok_def)

lemma runtime_entry: "sw_ok s \<Longrightarrow> jm_get (open_cache RUNTIME_CACHE s) u = Some r \<Longrightarrow> (u, r) \<in> set (sw_network s)"
  by (auto simp: sw_ok_def entries_from_def)

lemma shell_entry: "sw_ok s \<Longrightarrow> jm_get (open_cache SHELL_CACHE s) u = Some r \<Longrightarrow> (u, r) \<in> set (sw_network s)"
  by (auto simp: sw_ok_def entries_from_def)

lemma request_ok: "sw_ok s \<Longrightarrow> sw_ok (sw_request_step pd rq now s)"
proof -
  assume s: "sw_ok s"
  show ?thesis
  proof (cases "sw_route_of rq")
    case Revalidate
    have a: "api_url (rq_url rq)" using route_api Revalidate by blast
    show ?thesis
    proof (cases "jm_get (open_cache RUNTIME_CACHE s) (rq_url rq)")
      case None
      then show ?thesis using s a Revalidate by (auto simp: sw_request_step_def intro!: sw_ok_flight)
    next
      case (Some r)
      then have n: "(rq_url rq, r) \<in> set (sw_network s)" using runtime_entry s by blast
      then have "sw_ok (sw_reply Revalidate (rq_url rq) r s)" using s a by (intro sw_ok_reply) (simp_all add: reply_ok_def)
      then show ?thesis using s a n Some Revalidate by (auto simp: sw_request_step_def Let_def intro!: sw_ok_flight)
    qed
  next
    case NetworkFirst
    then show ?thesis using s route_api by (auto simp: sw_request_step_def intro!: sw_ok_flight)
  qed (use s in \<open>auto simp: sw_request_step_def intro!: sw_ok_flight\<close>)
qed

lemma answer_ok: "sw_ok s \<Longrightarrow> sw_ok (sw_answer_step i net stored s)"
proof -
  assume s: "sw_ok s"
  show ?thesis
  proof (cases "find (\<lambda>f. fl_id f = i) (sw_flights s)")
    case None
    then show ?thesis using s by (simp add: sw_answer_step_def)
  next
    case (Some f)
    then have f: "f \<in> set (sw_flights s)" by (auto simp: find_Some_iff in_set_conv_nth)
    define s0 where "s0 = s\<lparr>sw_flights := filter (\<lambda>g. fl_id g \<noteq> i) (sw_flights s)\<rparr>"
    define s' where "s' = note_network (fl_url f) net s0"
    have "sw_ok s0" using s by (auto simp: sw_ok_def s0_def open_cache_def list_all_iff)
    then have ok: "sw_ok s'" unfolding s'_def by (rule sw_ok_note)
    have step: "sw_answer_step i net stored s = (case fl_route f of
               Navigation \<Rightarrow> navigationHandler (fl_url f) net s'
             | NetworkFirst \<Rightarrow> networkFirst (fl_url f) net stored s'
             | Revalidate \<Rightarrow> staleWhileRevalidate f net stored s'
             | Untouched \<Rightarrow> s')"
      unfolding s'_def s0_def sw_answer_step_def Let_def Some by simp
    have fo: "flight_ok (sw_network s) f" using s f by (auto simp: sw_ok_def list_all_iff)
    have now: "(fl_url f, r) \<in> set (sw_network s')" if "net = Some r" for r using that by (simp add: s'_def)
    have old: "(fl_url f, r) \<in> set (sw_network s')" if "fl_cached f = Some r" for r
      using that fo by (auto simp: s'_def s0_def flight_ok_def)
    show ?thesis
    proof (cases "fl_route f")
      case Untouched
      then show ?thesis using step ok by simp
    next
      case Navigation
      then show ?thesis using step ok now shell_entry [OF ok]
        by (auto simp: navigationHandler_def reply_ok_def intro!: sw_ok_reply split: option.split)
    next
      case NetworkFirst
      then have a: "api_url (fl_url f)" using fo by (simp add: flight_ok_def)
      have put: "sw_ok (cache_put RUNTIME_CACHE (fl_url f) r s')" if "net = Some r" "sr_ok r" for r
        using ok a that now by (intro sw_ok_put) simp_all
      show ?thesis using step ok now a runtime_entry [OF ok] put NetworkFirst
        by (auto simp: networkFirst_def reply_ok_def Let_def intro!: sw_ok_reply split: option.split)
    next
      case Revalidate
      then have a: "api_url (fl_url f)" using fo by (simp add: flight_ok_def)
      have put: "sw_ok (cache_put RUNTIME_CACHE (fl_url f) r s')" if "net = Some r" "sr_ok r" for r
        using ok a that now by (intro sw_ok_put) simp_all
      show ?thesis using step ok now old a put Revalidate
        by (auto simp: staleWhileRevalidate_def reply_ok_def Let_def intro!: sw_ok_reply split: option.split)
    qed
  qed
qed

lemma install_ok: "sw_ok s \<Longrightarrow> set urls \<subseteq> set SHELL_URLS \<Longrightarrow> sw_ok (sw_install net stored urls s)"
proof (induction urls arbitrary: s)
  case (Cons url urls)
  have n: "sw_ok (note_network url (net url) s)" using Cons.prems(1) by (rule sw_ok_note)
  moreover have "sw_ok (cache_put SHELL_CACHE url r (note_network url (net url) s))" if "net url = Some r" "sr_ok r" for r
    using n that Cons.prems(2) by (auto simp: sw_ok_def intro!: entries_set)
  ultimately show ?case using Cons by (auto simp: Let_def split: option.split)
qed simp

lemma activate_ok: "sw_ok s \<Longrightarrow> sw_ok (sw_activate s)"
  by (simp add: sw_ok_def sw_activate_def open_cache_def jm_get_kept)

lemma sw_step_ok: "sw_ok s \<Longrightarrow> sw_ok (sw_step pd e s)"
  by (cases e) (simp_all add: request_ok answer_ok install_ok activate_ok)

lemma sw_steps_ok: "sw_ok s \<Longrightarrow> sw_ok (fold (sw_step pd) es s)"
  by (induction es arbitrary: s) (simp_all add: sw_step_ok)

text \<open>A browser in which the worker has stored and replied nothing yet; other caches may exist.\<close>

definition sw_start :: "sw \<Rightarrow> bool" where
  "sw_start s \<longleftrightarrow> open_cache RUNTIME_CACHE s = [] \<and> open_cache SHELL_CACHE s = [] \<and> sw_flights s = [] \<and> sw_log s = []"

lemma sw_start_ok: "sw_start s \<Longrightarrow> sw_ok s"
  by (simp add: sw_start_def sw_ok_def entries_from_def)

lemma api_url_not_submissions: "api_url url \<Longrightarrow> \<not> starts_with ''/api/submissions'' url"
  by (auto simp: api_url_def starts_with_iff)

text \<open>
  C31. Whatever the pages request, the network answers or fails to, and however the life cycle runs: a
  reply of the worker is what the network gave for that very URL, now or before, or for a navigation
  the stored offline page, or one of three error replies. Navigations aside, it never answers for a path
  under \<^verbatim>\<open>/api/submissions\<close>; a navigation goes to the network whatever its path, and one that fails gets
  the offline page or the offline text there too. It stores nothing of these paths: what it stores are
  successful answers of the network, of catalogue and session paths in one cache, and of the six shell
  pages in the other.
\<close>

theorem worker_replies_are_genuine:
  fixes parse_date es
  assumes "sw_start s0"
  defines "t \<equiv> fold (sw_step parse_date) es s0"
  shows "(\<forall>(route, url, r) \<in> set (sw_log t).
           (url, r) \<in> set (sw_network t) \<or> route = Navigation \<and> (''/offline'', r) \<in> set (sw_network t) \<or>
           r \<in> {gateway_timeout, offline_json, offline_text}) \<and>
         (\<forall>(route, url, r) \<in> set (sw_log t). route \<noteq> Navigation \<longrightarrow> \<not> starts_with ''/api/submissions'' url) \<and>
         (\<forall>url r. jm_get (open_cache RUNTIME_CACHE t) url = Some r \<longrightarrow>
           sr_ok r \<and> (url, r) \<in> set (sw_network t) \<and> api_url url \<and> \<not> starts_with ''/api/submissions'' url) \<and>
         (\<forall>url r. jm_get (open_cache SHELL_CACHE t) url = Some r \<longrightarrow>
           sr_ok r \<and> (url, r) \<in> set (sw_network t) \<and> url \<in> set SHELL_URLS)"
proof -
  have ok: "sw_ok t" unfolding t_def using sw_steps_ok sw_start_ok assms(1) by blast
  have log: "reply_ok (sw_network t) x" if "x \<in> set (sw_log t)" for x
    using that ok by (simp add: sw_ok_def list_all_iff)
  have "(url, r) \<in> set (sw_network t) \<or> route = Navigation \<and> (''/offline'', r) \<in> set (sw_network t) \<or>
      r \<in> {gateway_timeout, offline_json, offline_text}" if "(route, url, r) \<in> set (sw_log t)" for route url r
    using log [OF that] by (cases route) (auto simp: reply_ok_def)
  moreover have "\<not> starts_with ''/api/submissions'' url" if "(route, url, r) \<in> set (sw_log t)" "route \<noteq> Navigation" for route url r
    using log [OF that(1)] that(2) api_url_not_submissions by (cases route) (auto simp: reply_ok_def)
  ultimately show ?thesis using ok api_url_not_submissions unfolding sw_ok_def entries_from_def by auto
qed

definition browser :: sw where
  "browser = \<lparr>sw_caches = [(''leetrank-shell-v0'', [])], sw_flights = [], sw_next = 0, sw_log = [], sw_network = []\<rparr>"

definition get_request :: "string \<Rightarrow> sw_request" where
  "get_request path = \<lparr>rq_method = ''GET'', rq_same_origin = True, rq_navigate = False, rq_path = path, rq_search = []\<rparr>"

definition page_reply :: "nat \<Rightarrow> string \<Rightarrow> sw_response" where
  "page_reply status body = \<lparr>sr_status = status, sr_date = Some ''d'', sr_body = body\<rparr>"

lemma worker_replies_are_genuine_witness:
  "let t = fold (sw_step (\<lambda>_. Some 5)) [Request (get_request ''/api/tags'') 10, Answer 0 (Some (page_reply 200 ''a'')) True,
      Request (get_request ''/api/tags'') 20, Answer 1 None True] browser
   in length (sw_log t) = 2 \<and> list_all (\<lambda>(route, url, r). \<not> starts_with ''/api/submissions'' url) (filter (\<lambda>x. fst x \<noteq> Navigation) (sw_log t))"
proof -
  have s: "sw_start browser" by code_simp
  have l: "length (sw_log (fold (sw_step (\<lambda>_. Some 5)) [Request (get_request ''/api/tags'') 10, Answer 0 (Some (page_reply 200 ''a'')) True,
      Request (get_request ''/api/tags'') 20, Answer 1 None True] browser)) = 2" by code_simp
  show ?thesis
    using conjunct1 [OF conjunct2 [OF worker_replies_are_genuine [OF s, of "\<lambda>_. Some 5"
      "[Request (get_request ''/api/tags'') 10, Answer 0 (Some (page_reply 200 ''a'')) True, Request (get_request ''/api/tags'') 20, Answer 1 None True]"]]] l
    unfolding Let_def list_all_iff by fastforce
qed

text \<open>The order of the tests in the listener: a navigation is answered before the path is looked at.\<close>

lemma navigation_to_submission_is_answered:
  "sw_log (fold (sw_step pd) [Request ((get_request ''/api/submissions/1'')\<lparr>rq_navigate := True\<rparr>) 10, Answer 0 None True] browser) =
    [(Navigation, ''/api/submissions/1'', offline_text)]"
  by (simp add: sw_request_step_def sw_route_of_def get_request_def rq_url_def browser_def add_flight_def sw_answer_step_def
      navigationHandler_def note_network_def open_cache_def sw_reply_def SHELL_CACHE_def Let_def)

text \<open>
  Which reply is chosen for the catalogue: a stored one at once exactly when it is younger than a day;
  else the network's, with the stored one, however old, only when there is none from the network.
\<close>

lemma fresh_replies_at_once:
  assumes "sw_route_of rq = Revalidate"
  shows "sw_log (sw_request_step pd rq now s) =
    sw_log s @ (case jm_get (open_cache RUNTIME_CACHE s) (rq_url rq) of
      Some r \<Rightarrow> if is_fresh pd now r then [(Revalidate, rq_url rq, r)] else [] | None \<Rightarrow> [])"
  using assms by (simp add: sw_request_step_def Let_def split: option.split)

lemma stale_reply_only_without_network:
  assumes "find (\<lambda>f. fl_id f = i) (sw_flights s) = Some f" "fl_route f = Revalidate" "\<not> fl_answered f"
  shows "sw_log (sw_answer_step i net stored s) = sw_log s @ [(Revalidate, fl_url f,
    case net of
      Some res \<Rightarrow> if sr_ok res \<and> \<not> stored then (case fl_cached f of Some r \<Rightarrow> r | None \<Rightarrow> gateway_timeout) else res
    | None \<Rightarrow> (case fl_cached f of Some r \<Rightarrow> r | None \<Rightarrow> gateway_timeout))]"
  using assms by (simp add: sw_answer_step_def staleWhileRevalidate_def Let_def split: option.split)

text \<open>A reply without a date is never young: the code stamps none, though its comment says so.\<close>

lemma undated_reply_is_never_fresh: "RUNTIME_TTL_MS \<le> now \<Longrightarrow> \<not> truthy (sr_date r) \<Longrightarrow> \<not> is_fresh pd now r"
  by (simp add: is_fresh_def)

text \<open>
  The worker does not look at \<^verbatim>\<open>Cache-Control\<close>: the editorial that the server sends to one user as
  private and not to be stored is the immediate reply to whoever uses the browser within a day, though
  the network refuses it to them.
\<close>

lemma private_reply_is_served_again:
  "map (\<lambda>(route, url, r). sr_body r)
     (sw_log (fold (sw_step (\<lambda>_. Some 5))
       [Request (get_request ''/api/problems/two-sum/editorial'') 10, Answer 0 (Some (page_reply 200 ''secret'')) True,
        Request (get_request ''/api/problems/two-sum/editorial'') 900, Answer 1 (Some (page_reply 403 ''Forbidden'')) True,
        Request (get_request ''/api/problems/two-sum/editorial'') 950] browser)) = [''secret'', ''secret'', ''secret'']"
  by code_simp

text \<open>When the browser cannot store a reply, a reply that did arrive is withheld.\<close>

lemma full_disk_hides_replies:
  "map (\<lambda>(route, url, r). sr_status r)
     (sw_log (fold (sw_step (\<lambda>_. Some 5))
       [Request (get_request ''/api/tags'') 10, Answer 0 (Some (page_reply 200 ''tags'')) False,
        Request (get_request ''/api/auth/me'') 20, Answer 1 (Some (page_reply 200 ''me'')) False] browser)) = [504, 503]"
  by code_simp

end
