(* ===== verification/ProblemPage.thy ===== *)
theory ProblemPage
  imports Submissions
begin

section \<open>The page of a problem\<close>

text \<open>
  \<^verbatim>\<open>app/problems/[slug]/page.tsx\<close>, \<^verbatim>\<open>lib/languages.ts\<close>, \<^verbatim>\<open>hooks/useAuth.ts\<close> and the banner of
  \<^verbatim>\<open>components/problem/test-results-panel.tsx\<close>: loading the problem, editing, running, and submitting
  with the loop that polls for the verdict. The page is a record, and what happens to it are events:
  the user's, answers of the server, and timers. Messages are named by the keys of their texts.
  The clock is assumed not to be set back while a page polls.
\<close>

subsection \<open>Languages\<close>

datatype lang_category = Scripting | Compiled | Jvm | Functional | Data | Esoteric

record language_def =
  ld_id :: string
  ld_label :: string
  ld_extension :: string
  ld_monacoLanguage :: string
  ld_category :: lang_category

definition lang :: "string \<Rightarrow> string \<Rightarrow> string \<Rightarrow> string \<Rightarrow> lang_category \<Rightarrow> language_def" where
  "lang i label ext monaco c =
    \<lparr>ld_id = i, ld_label = label, ld_extension = ext, ld_monacoLanguage = monaco, ld_category = c\<rparr>"

definition LANGUAGES :: "language_def list" where
  "LANGUAGES = [
     lang ''python'' ''Python 3'' ''.py'' ''python'' Scripting,
     lang ''javascript'' ''JavaScript (Node)'' ''.js'' ''javascript'' Scripting,
     lang ''typescript'' ''TypeScript'' ''.ts'' ''typescript'' Scripting,
     lang ''ruby'' ''Ruby'' ''.rb'' ''ruby'' Scripting,
     lang ''php'' ''PHP'' ''.php'' ''php'' Scripting,
     lang ''bash'' ''Bash'' ''.sh'' ''shell'' Scripting,
     lang ''lua'' ''Lua'' ''.lua'' ''lua'' Scripting,
     lang ''perl'' ''Perl'' ''.pl'' ''perl'' Scripting,
     lang ''elixir'' ''Elixir'' ''.ex'' ''elixir'' Scripting,
     lang ''go'' ''Go'' ''.go'' ''go'' Compiled,
     lang ''rust'' ''Rust'' ''.rs'' ''rust'' Compiled,
     lang ''c'' ''C (gcc)'' ''.c'' ''c'' Compiled,
     lang ''cpp'' ''C++ (g++)'' ''.cpp'' ''cpp'' Compiled,
     lang ''csharp'' ''C# (Mono)'' ''.cs'' ''csharp'' Compiled,
     lang ''d'' ''D (gdc)'' ''.d'' ''d'' Compiled,
     lang ''pascal'' ''Pascal (fpc)'' ''.pas'' ''pascal'' Compiled,
     lang ''fortran'' ''Fortran (gfortran)'' ''.f90'' ''fortran'' Compiled,
     lang ''java'' ''Java'' ''.java'' ''java'' Jvm,
     lang ''kotlin'' ''Kotlin'' ''.kt'' ''kotlin'' Jvm,
     lang ''scala'' ''Scala'' ''.scala'' ''scala'' Jvm,
     lang ''groovy'' ''Groovy'' ''.groovy'' ''groovy'' Jvm,
     lang ''clojure'' ''Clojure'' ''.clj'' ''clojure'' Jvm,
     lang ''haskell'' ''Haskell'' ''.hs'' ''haskell'' Functional,
     lang ''ocaml'' ''OCaml'' ''.ml'' ''ocaml'' Functional,
     lang ''racket'' ''Racket'' ''.rkt'' ''racket'' Functional,
     lang ''sbcl'' ''Common Lisp (SBCL)'' ''.lisp'' ''lisp'' Functional,
     lang ''erlang'' ''Erlang'' ''.erl'' ''erlang'' Functional,
     lang ''fsharp'' ''F# (Mono)'' ''.fsx'' ''fsharp'' Functional,
     lang ''sql'' ''SQL (sqlite)'' ''.sql'' ''sql'' Data,
     lang ''r'' ''R'' ''.r'' ''r'' Data,
     lang ''tcl'' ''Tcl'' ''.tcl'' ''tcl'' Esoteric,
     lang ''awk'' ''AWK (gawk)'' ''.awk'' ''plaintext'' Esoteric]"

definition languageLabel :: "string \<Rightarrow> string" where
  "languageLabel i = (case find (\<lambda>l. ld_id l = i) LANGUAGES of Some l \<Rightarrow> ld_label l | None \<Rightarrow> i)"

definition monacoLanguageFor :: "string \<Rightarrow> string" where
  "monacoLanguageFor i = (case find (\<lambda>l. ld_id l = i) LANGUAGES of Some l \<Rightarrow> ld_monacoLanguage l | None \<Rightarrow> ''plaintext'')"

definition CATEGORY_ORDER :: "lang_category list" where
  "CATEGORY_ORDER = [Scripting, Compiled, Jvm, Functional, Data, Esoteric]"

text \<open>The menu of the language picker: a category without languages is left out.\<close>

definition language_menu :: "(lang_category \<times> language_def list) list" where
  "language_menu =
    filter (\<lambda>(c, ls). ls \<noteq> []) (map (\<lambda>c. (c, filter (\<lambda>l. ld_category l = c) LANGUAGES)) CATEGORY_ORDER)"

lemma menu_offers_every_language:
  "map ld_id (concat (map snd language_menu)) = LANGUAGE_IDS" "map ld_id LANGUAGES = LANGUAGE_IDS"
  "distinct LANGUAGE_IDS"
  by code_simp+

subsection \<open>The state of the page\<close>

record auth_store =
  au_user :: "nat option"
  au_isLoading :: bool
  au_isAuthenticated :: bool

definition setUser :: "nat option \<Rightarrow> auth_store \<Rightarrow> auth_store" where
  "setUser u a = a\<lparr>au_user := u, au_isLoading := False, au_isAuthenticated := u \<noteq> None\<rparr>"

definition logged_out :: "auth_store \<Rightarrow> auth_store" where
  "logged_out a = a\<lparr>au_user := None, au_isAuthenticated := False\<rparr>"

record page_problem =
  pb_id :: nat
  pb_starterCode :: "string option"
  pb_tests :: "(string \<times> string \<times> bool) list"

datatype toast_kind = ToastSuccess | ToastWarning | ToastError
datatype toast_text = Key string | Literal string | RequestFailed nat

text \<open>Where \<^verbatim>\<open>handleSubmit\<close> is: waiting for the POST, asleep since a time, or waiting for a GET.\<close>

datatype submit_phase = Idle | Posting | Asleep nat int int | Fetching nat int int

datatype page_request = PostSubmission submit_body | GetSubmission nat | PostRun run_body

record problem_page =
  pp_problem :: "page_problem option"
  pp_loading :: bool
  pp_code :: string
  pp_language :: string
  pp_starters :: "(string, string) jsmap"
  pp_running :: bool
  pp_submitting :: bool
  pp_results :: "test_result list"
  pp_status :: "string option"
  pp_promptOpen :: bool
  pp_promptExpired :: bool
  pp_auth :: auth_store
  pp_toasts :: "(toast_kind \<times> string \<times> toast_text) list"
  pp_submitRef :: "unit option"
  pp_phase :: submit_phase
  pp_sent :: "page_request list"

definition new_page :: "auth_store \<Rightarrow> problem_page" where
  "new_page a =
    \<lparr>pp_problem = None, pp_loading = True, pp_code = [], pp_language = ''python'', pp_starters = [], pp_running = False,
     pp_submitting = False, pp_results = [], pp_status = None, pp_promptOpen = False, pp_promptExpired = False,
     pp_auth = a, pp_toasts = [], pp_submitRef = None, pp_phase = Idle, pp_sent = []\<rparr>"

subsection \<open>Loading and editing\<close>

text \<open>
  \<open>parse\<close> is \<^verbatim>\<open>JSON.parse\<close> with the fields of the object it gives; None where it throws or gives null.
  An answer without a problem, and a failed one, leave none.
\<close>

definition problem_loaded :: "(string \<Rightarrow> (string, string) jsmap option) \<Rightarrow> page_problem option \<Rightarrow> problem_page \<Rightarrow> problem_page" where
  "problem_loaded parse answer p =
    (let p = p\<lparr>pp_problem := answer, pp_loading := False\<rparr>
     in case answer of
          None \<Rightarrow> p
        | Some d \<Rightarrow>
            if truthy (pb_starterCode d) then
              (case parse (the (pb_starterCode d)) of
                 Some starters \<Rightarrow>
                   p\<lparr>pp_starters := starters,
                     pp_code := (case jm_get starters (pp_language p) of Some c \<Rightarrow> c
                                 | None \<Rightarrow> (case jm_get starters ''python'' of Some c \<Rightarrow> c | None \<Rightarrow> []))\<rparr>
               | None \<Rightarrow> p\<lparr>pp_code := the (pb_starterCode d)\<rparr>)
            else p)"

definition restore_starter :: "problem_page \<Rightarrow> problem_page" where
  "restore_starter p = (case jm_get (pp_starters p) (pp_language p) of Some c \<Rightarrow> p\<lparr>pp_code := c\<rparr> | None \<Rightarrow> p)"

definition handleLanguageChange :: "string \<Rightarrow> problem_page \<Rightarrow> problem_page" where
  "handleLanguageChange l p = restore_starter (p\<lparr>pp_language := l\<rparr>)"

definition handleReset :: "problem_page \<Rightarrow> problem_page" where
  "handleReset p = restore_starter p"

definition edited :: "string option \<Rightarrow> problem_page \<Rightarrow> problem_page" where
  "edited v p = p\<lparr>pp_code := (case v of Some c \<Rightarrow> c | None \<Rightarrow> [])\<rparr>"

subsection \<open>Running\<close>

definition run_request :: "page_problem \<Rightarrow> problem_page \<Rightarrow> run_body" where
  "run_request d p =
    \<lparr>rb_code = Some (pp_code p), rb_language = Some (pp_language p),
     rb_testCases = Some (map (\<lambda>(i, e, h). (i, e)) (filter (\<lambda>(i, e, h). \<not> h) (pb_tests d)))\<rparr>"

definition handleRun :: "problem_page \<Rightarrow> problem_page" where
  "handleRun p =
    (case pp_problem p of
       None \<Rightarrow> p
     | Some d \<Rightarrow> p\<lparr>pp_running := True, pp_results := [], pp_status := None, pp_sent := pp_sent p @ [PostRun (run_request d p)]\<rparr>)"

text \<open>None where the request or the reading of its body fails; an error reply has no results.\<close>

definition run_answered :: "test_result list option option \<Rightarrow> problem_page \<Rightarrow> problem_page" where
  "run_answered answer p =
    p\<lparr>pp_results := (case answer of Some (Some rs) \<Rightarrow> rs | _ \<Rightarrow> []), pp_running := False\<rparr>"

subsection \<open>Submitting\<close>

definition submit_request :: "page_problem \<Rightarrow> problem_page \<Rightarrow> submit_body" where
  "submit_request d p = \<lparr>su_code = Some (pp_code p), su_language = Some (pp_language p), su_problemId = Some (pb_id d)\<rparr>"

definition add_toast :: "toast_kind \<Rightarrow> string \<Rightarrow> toast_text \<Rightarrow> problem_page \<Rightarrow> problem_page" where
  "add_toast k title body p = p\<lparr>pp_toasts := pp_toasts p @ [(k, title, body)]\<rparr>"

text \<open>The \<^verbatim>\<open>finally\<close> of \<^verbatim>\<open>handleSubmit\<close>.\<close>

definition submit_over :: "problem_page \<Rightarrow> problem_page" where
  "submit_over p = p\<lparr>pp_submitting := False, pp_phase := Idle\<rparr>"

definition handleSubmit :: "problem_page \<Rightarrow> problem_page" where
  "handleSubmit p =
    (case pp_problem p of
       None \<Rightarrow> p
     | Some d \<Rightarrow>
         if \<not> au_isLoading (pp_auth p) \<and> \<not> au_isAuthenticated (pp_auth p) then
           p\<lparr>pp_promptExpired := False, pp_promptOpen := True\<rparr>
         else p\<lparr>pp_submitting := True, pp_status := Some ''submitting'', pp_results := [], pp_phase := Posting,
                pp_sent := pp_sent p @ [PostSubmission (submit_request d p)]\<rparr>)"

text \<open>The answer to the POST; \<open>NoAnswer\<close> also where a success has no JSON body.\<close>

datatype post_answer =
    NoAnswer
  | Refused nat "string option"
  | Taken "nat option" "string option" "test_result list option"

definition post_refused :: "nat \<Rightarrow> string option \<Rightarrow> problem_page \<Rightarrow> problem_page" where
  "post_refused status msg p =
    (if status = 401 then
       p\<lparr>pp_auth := setUser None (pp_auth p), pp_promptExpired := True, pp_promptOpen := True, pp_status := None\<rparr>
     else (if status = 403 then add_toast ToastError ''toastPermissionDenied'' (Key ''toastPermissionDeniedBody'')
           else if status = 429 then add_toast ToastWarning ''toastTooMany'' (Key ''toastTooManyBody'')
           else if status \<ge> 500 then add_toast ToastError ''toastJudgeUnavailable'' (Key ''toastJudgeUnavailableBody'')
           else add_toast ToastError ''toastSubmitFailed'' (if truthy msg then Literal (the msg) else RequestFailed status))
          (p\<lparr>pp_status := Some ''error''\<rparr>))"

definition post_taken :: "nat option \<Rightarrow> string option \<Rightarrow> test_result list option \<Rightarrow> int \<Rightarrow> problem_page \<Rightarrow> problem_page" where
  "post_taken i status rs now p =
    (let p = p\<lparr>pp_status := (if truthy status then status else Some ''queued'')\<rparr>;
         p = (case rs of Some x \<Rightarrow> p\<lparr>pp_results := x\<rparr> | None \<Rightarrow> p)
     in case i of
          Some k \<Rightarrow> if rs = None \<or> status = Some ''queued'' \<or> status = Some ''judging'' then p\<lparr>pp_phase := Asleep k now now\<rparr>
                    else submit_over p
        | None \<Rightarrow> submit_over p)"

definition post_answered :: "post_answer \<Rightarrow> int \<Rightarrow> problem_page \<Rightarrow> problem_page" where
  "post_answered answer now p =
    (case answer of
       NoAnswer \<Rightarrow> submit_over (add_toast ToastError ''toastJudgeUnavailable'' (Key ''toastNetworkBody'') (p\<lparr>pp_status := Some ''error''\<rparr>))
     | Refused status msg \<Rightarrow> submit_over (post_refused status msg p)
     | Taken i status rs \<Rightarrow> post_taken i status rs now p)"

definition TERMINAL :: "string list" where
  "TERMINAL = [''accepted'', ''wrong_answer'', ''runtime_error'', ''compile_error'', ''memory_limit_exceeded'',
     ''time_limit_exceeded'', ''security_error'']"

record polled =
  pl_status :: string
  pl_output :: "string option"
  pl_runtime :: "int option"
  pl_error :: "string option"

definition coalesce :: "'a option \<Rightarrow> 'a \<Rightarrow> 'a" where
  "coalesce x d = (case x of Some v \<Rightarrow> v | None \<Rightarrow> d)"

definition verdict_result :: "polled \<Rightarrow> test_result" where
  "verdict_result sub =
    \<lparr>tr_passed = (pl_status sub = ''accepted''), tr_input = [], tr_expected = [],
     tr_actual = Some (coalesce (pl_output sub) []),
     tr_runtime = Some (coalesce (pl_runtime sub) 0), tr_error = pl_error sub\<rparr>"

definition verdict_toast :: "polled \<Rightarrow> problem_page \<Rightarrow> problem_page" where
  "verdict_toast sub p =
    (let s = pl_status sub
     in if s = ''accepted'' then add_toast ToastSuccess ''toastAccepted'' (Key ''toastAcceptedBody'') p
        else if s = ''compile_error'' then add_toast ToastError ''toastCompileError'' (Key ''toastCompileErrorBody'') p
        else if s = ''wrong_answer'' then add_toast ToastWarning ''toastWrongAnswer'' (Key ''toastWrongAnswerBody'') p
        else if s = ''time_limit_exceeded'' then add_toast ToastWarning ''toastTLE'' (Key ''toastTLEBody'') p
        else if s = ''memory_limit_exceeded'' then add_toast ToastWarning ''toastMLE'' (Key ''toastMLEBody'') p
        else if s = ''runtime_error'' then add_toast ToastError ''toastRuntimeError'' (Key ''toastRuntimeErrorBody'') p
        else p)"

text \<open>The head of the loop, at time \<open>now\<close>.\<close>

definition poll_again :: "nat \<Rightarrow> int \<Rightarrow> int \<Rightarrow> problem_page \<Rightarrow> problem_page" where
  "poll_again i start now p = (if now - start < 60000 then p\<lparr>pp_phase := Asleep i start now\<rparr> else submit_over p)"

text \<open>None for a request that fails, an error reply, or a body without a submission.\<close>

definition poll_answered :: "polled option \<Rightarrow> int \<Rightarrow> problem_page \<Rightarrow> problem_page" where
  "poll_answered answer now p =
    (case pp_phase p of
       Fetching i start sent \<Rightarrow>
         (case answer of
            None \<Rightarrow> poll_again i start now p
          | Some sub \<Rightarrow>
              (let p = p\<lparr>pp_status := Some (pl_status sub)\<rparr>
               in if pl_status sub \<in> set TERMINAL
                  then submit_over (verdict_toast sub (p\<lparr>pp_results := [verdict_result sub]\<rparr>))
                  else poll_again i start now p))
     | _ \<Rightarrow> p)"

definition poll_timer :: "int \<Rightarrow> problem_page \<Rightarrow> problem_page" where
  "poll_timer now p =
    (case pp_phase p of
       Asleep i start since \<Rightarrow> p\<lparr>pp_phase := Fetching i start now, pp_sent := pp_sent p @ [GetSubmission i]\<rparr>
     | _ \<Rightarrow> p)"

text \<open>The key binding calls what the reference holds.\<close>

definition submit_shortcut :: "problem_page \<Rightarrow> problem_page" where
  "submit_shortcut p = (case pp_submitRef p of None \<Rightarrow> p | Some _ \<Rightarrow> handleSubmit p)"

subsection \<open>What happens to a page\<close>

text \<open>
  The steps of a submission under way, and those of the user, of the session and of the other answers.
  The editor and the buttons are on the screen once a problem is loaded; a button is disabled while its
  own request is under way.
\<close>

inductive submit_step :: "problem_page \<Rightarrow> problem_page \<Rightarrow> bool" where
  posted: "pp_phase p = Posting \<Longrightarrow> submit_step p (post_answered a now p)"
| woken: "pp_phase p = Asleep i start since \<Longrightarrow> since + 1000 \<le> now \<Longrightarrow> submit_step p (poll_timer now p)"
| answered: "pp_phase p = Fetching i start sent \<Longrightarrow> sent \<le> now \<Longrightarrow> submit_step p (poll_answered a now p)"

inductive page_step :: "(string \<Rightarrow> (string, string) jsmap option) \<Rightarrow> problem_page \<Rightarrow> problem_page \<Rightarrow> bool" for parse where
  submission: "submit_step p q \<Longrightarrow> page_step parse p q"
| load: "pp_loading p \<Longrightarrow> page_step parse p (problem_loaded parse d p)"
| type: "pp_problem p \<noteq> None \<Longrightarrow> page_step parse p (edited v p)"
| language: "pp_problem p \<noteq> None \<Longrightarrow> page_step parse p (handleLanguageChange l p)"
| reset: "pp_problem p \<noteq> None \<Longrightarrow> page_step parse p (handleReset p)"
| run: "pp_problem p \<noteq> None \<Longrightarrow> \<not> pp_running p \<Longrightarrow> page_step parse p (handleRun p)"
| ran: "pp_running p \<Longrightarrow> page_step parse p (run_answered a p)"
| submit: "pp_problem p \<noteq> None \<Longrightarrow> \<not> pp_submitting p \<Longrightarrow> page_step parse p (handleSubmit p)"
| shortcut: "pp_problem p \<noteq> None \<Longrightarrow> page_step parse p (submit_shortcut p)"
| prompt: "page_step parse p (p\<lparr>pp_promptOpen := False\<rparr>)"
| signed: "page_step parse p (p\<lparr>pp_auth := setUser u (pp_auth p)\<rparr>)"
| signed_out: "page_step parse p (p\<lparr>pp_auth := logged_out (pp_auth p)\<rparr>)"

fun is_post :: "page_request \<Rightarrow> bool" where
  "is_post (PostSubmission b) = True" | "is_post r = False"

fun is_get :: "page_request \<Rightarrow> bool" where
  "is_get (GetSubmission i) = True" | "is_get r = False"

definition posts :: "problem_page \<Rightarrow> nat" where "posts p = length (filter is_post (pp_sent p))"
definition gets :: "problem_page \<Rightarrow> nat" where "gets p = length (filter is_get (pp_sent p))"

text \<open>The polls of the submission under way are those beyond sixty for each earlier one.\<close>

definition polls_ok :: "problem_page \<Rightarrow> bool" where
  "polls_ok p =
    (let k = int (gets p) + 60 - 60 * int (posts p)
     in case pp_phase p of
          Idle \<Rightarrow> k \<le> 60
        | Posting \<Rightarrow> k \<le> 0
        | Asleep i start since \<Rightarrow> 1000 * k \<le> since - start \<and> 0 \<le> since - start \<and> since - start < 60000
        | Fetching i start sent \<Rightarrow> 1000 * k \<le> sent - start \<and> 0 \<le> sent - start \<and> k \<le> 60)"

definition page_ok :: "problem_page \<Rightarrow> bool" where
  "page_ok p \<longleftrightarrow> pp_submitting p = (pp_phase p \<noteq> Idle) \<and> pp_submitRef p = None \<and> polls_ok p"

definition submit_work :: "problem_page \<Rightarrow> nat" where
  "submit_work p =
    (case pp_phase p of
       Idle \<Rightarrow> 0
     | Posting \<Rightarrow> 121
     | Asleep i start since \<Rightarrow> nat (2 * (60 - (since - start) div 1000))
     | Fetching i start sent \<Rightarrow> nat (2 * (60 - (sent - start) div 1000)) + 1)"

lemma toast_parts [simp]:
  "pp_phase (add_toast k t b p) = pp_phase p" "pp_submitting (add_toast k t b p) = pp_submitting p"
  "pp_sent (add_toast k t b p) = pp_sent p" "pp_submitRef (add_toast k t b p) = pp_submitRef p"
  "pp_status (add_toast k t b p) = pp_status p" "pp_results (add_toast k t b p) = pp_results p"
  by (simp_all add: add_toast_def)

lemma verdict_toast_parts [simp]:
  "pp_phase (verdict_toast u p) = pp_phase p" "pp_submitting (verdict_toast u p) = pp_submitting p"
  "pp_sent (verdict_toast u p) = pp_sent p" "pp_submitRef (verdict_toast u p) = pp_submitRef p"
  "pp_status (verdict_toast u p) = pp_status p" "pp_results (verdict_toast u p) = pp_results p"
  by (simp_all add: verdict_toast_def Let_def)

lemma refused_parts [simp]:
  "pp_sent (post_refused n m p) = pp_sent p" "pp_submitRef (post_refused n m p) = pp_submitRef p"
  by (simp_all add: post_refused_def)

lemma over_parts [simp]:
  "pp_phase (submit_over p) = Idle" "\<not> pp_submitting (submit_over p)" "pp_sent (submit_over p) = pp_sent p"
  "pp_submitRef (submit_over p) = pp_submitRef p" "pp_status (submit_over p) = pp_status p" "pp_results (submit_over p) = pp_results p"
  by (simp_all add: submit_over_def)

lemma restore_parts [simp]:
  "pp_phase (restore_starter p) = pp_phase p" "pp_submitting (restore_starter p) = pp_submitting p"
  "pp_sent (restore_starter p) = pp_sent p" "pp_submitRef (restore_starter p) = pp_submitRef p"
  by (simp_all add: restore_starter_def split: option.split)

lemma page_okI:
  "page_ok p \<Longrightarrow> pp_phase q = pp_phase p \<Longrightarrow> pp_submitting q = pp_submitting p \<Longrightarrow> pp_submitRef q = pp_submitRef p \<Longrightarrow>
    gets q = gets p \<Longrightarrow> posts q = posts p \<Longrightarrow> page_ok q"
  by (simp add: page_ok_def polls_ok_def)

lemma page_ok_over: "page_ok p \<Longrightarrow> pp_submitRef q = pp_submitRef p \<Longrightarrow> pp_sent q = pp_sent p \<Longrightarrow> page_ok (submit_over q)"
  by (auto simp: page_ok_def polls_ok_def Let_def gets_def posts_def split: submit_phase.splits)

lemma submit_step_ok: "submit_step p q \<Longrightarrow> page_ok p \<Longrightarrow> page_ok q \<and> submit_work q < submit_work p"
proof (induction rule: submit_step.induct)
  case (posted p a now)
  then show ?case
  proof (cases a)
    case (Taken i status rs)
    have "page_ok (post_taken i status rs now p) \<and> submit_work (post_taken i status rs now p) < submit_work p"
      using posted page_ok_over [OF posted(2)]
      by (auto simp: post_taken_def Let_def submit_work_def page_ok_def polls_ok_def gets_def posts_def split: option.splits)
    then show ?thesis using Taken by (simp add: post_answered_def)
  qed (use posted page_ok_over [OF posted(2)] in \<open>simp_all add: post_answered_def submit_work_def\<close>)
next
  case (woken p i start since now)
  have "gets (poll_timer now p) = Suc (gets p)" "posts (poll_timer now p) = posts p"
    using woken by (simp_all add: poll_timer_def gets_def posts_def)
  moreover have "pp_phase (poll_timer now p) = Fetching i start now" "pp_submitting (poll_timer now p) = pp_submitting p"
    "pp_submitRef (poll_timer now p) = pp_submitRef p"
    using woken by (simp_all add: poll_timer_def)
  moreover have "(since - start) div 1000 + 1 \<le> (now - start) div 1000"
    using woken(2) zdiv_mono1 [of "since - start + 1000" "now - start" 1000] by simp
  moreover have "(since - start) div 1000 < 60"
  proof -
    have "since - start < 60000" using woken by (simp add: page_ok_def polls_ok_def Let_def)
    then show ?thesis using zdiv_mono1 [of "since - start" 59999 1000] by simp
  qed
  moreover have "Suc (nat (120 - 2 * b)) < nat (120 - 2 * a)" if "a + 1 \<le> b" "a < 60" for a b :: int
    using that by arith
  ultimately show ?case
    using woken by (auto simp: page_ok_def polls_ok_def submit_work_def Let_def)
next
  case (answered p i start sent now a)
  have d: "(sent - start) div 1000 \<le> (now - start) div 1000" using answered(2) by (intro zdiv_mono1) simp_all
  have again: "page_ok (poll_again i start now q) \<and> submit_work (poll_again i start now q) < submit_work p"
    if "pp_submitRef q = pp_submitRef p" "pp_sent q = pp_sent p" "pp_submitting q = pp_submitting p" for q
    using that answered d page_ok_over [OF answered(3)]
    by (auto simp: poll_again_def page_ok_def polls_ok_def submit_work_def Let_def gets_def posts_def)
  show ?case
    using answered again page_ok_over [OF answered(3)]
    by (auto simp: poll_answered_def Let_def submit_work_def split: option.split)
qed

interpretation polling: draining submit_step page_ok submit_work
  by unfold_locales (blast dest: submit_step_ok)+

lemma page_step_ok: "page_step parse p q \<Longrightarrow> page_ok p \<Longrightarrow> page_ok q"
proof (induction rule: page_step.induct)
  case (load p d)
  have "pp_phase (problem_loaded parse d p) = pp_phase p \<and> pp_submitting (problem_loaded parse d p) = pp_submitting p \<and>
      pp_submitRef (problem_loaded parse d p) = pp_submitRef p \<and> pp_sent (problem_loaded parse d p) = pp_sent p"
    by (simp add: problem_loaded_def Let_def split: option.split)
  then show ?case by (intro page_okI [OF load(2)]) (simp_all add: gets_def posts_def)
next
  case (submit p)
  then obtain d where "pp_problem p = Some d" by blast
  then show ?case using submit
    by (auto simp: handleSubmit_def page_ok_def polls_ok_def Let_def gets_def posts_def)
next
  case (run p)
  then obtain d where "pp_problem p = Some d" by blast
  then show ?case using run by (intro page_okI [OF run(3)]) (simp_all add: handleRun_def gets_def posts_def)
next
  case (submission p q)
  then show ?case using submit_step_ok by blast
qed (auto simp: edited_def handleLanguageChange_def handleReset_def run_answered_def submit_shortcut_def page_ok_def gets_def posts_def
    polls_ok_def split: option.split)

lemma new_page_ok: "page_ok (new_page a)"
  by (simp add: new_page_def page_ok_def polls_ok_def gets_def posts_def)

lemma page_reachable_ok: "(page_step parse)\<^sup>*\<^sup>* (new_page a) p \<Longrightarrow> page_ok p"
  by (induction rule: rtranclp_induct) (auto intro: new_page_ok page_step_ok)

lemma submitting_can_move: "page_ok p \<Longrightarrow> pp_submitting p \<Longrightarrow> \<exists>q. submit_step p q"
  by (cases "pp_phase p") (auto simp: page_ok_def intro: submit_step.intros posted woken [OF _ order_refl] answered [OF _ order_refl])

subsection \<open>The page and the server\<close>

text \<open>What the page sees of the replies of the routes.\<close>

definition post_answer_of :: "'e + submit_reply \<Rightarrow> post_answer" where
  "post_answer_of r =
    (case r of
       Inl _ \<Rightarrow> NoAnswer
     | Inr (Failed status msg) \<Rightarrow> Refused status (Some msg)
     | Inr (Reply status (row, rs, awarded)) \<Rightarrow> Taken (Some (sb_id row)) (Some (sb_status row)) rs)"

definition polled_of :: "'e + submission reply \<Rightarrow> polled option" where
  "polled_of r =
    (case r of
       Inr (Reply status row) \<Rightarrow>
         Some \<lparr>pl_status = sb_status row, pl_output = sb_output row, pl_runtime = sb_runtime row, pl_error = sb_error row\<rparr>
     | _ \<Rightarrow> None)"

text \<open>
  One submission as the user sees it: the click, the POST, the job, and the first poll after it, at the
  times of the answer, of the timer and of the answer to the poll.
\<close>

definition submit_turn where
  "submit_turn m url judge se newId now t0 t1 t2 p s =
    (let p1 = handleSubmit p;
         body = (case pp_problem p of Some d \<Rightarrow> Some (submit_request d p) | None \<Rightarrow> None);
         post = submissions_POST False m url judge (Some se) body newId now;
         p2 = post_answered (post_answer_of (result post [] s)) t0 p1;
         s2 = after (judge_job url judge newId) [] (after post [] s);
         p3 = poll_timer t1 p2
     in (poll_answered (polled_of (result (submission_GET (Some se) newId) [] s2)) t2 p3, s2))"

definition settled_row :: "terminal_update \<Rightarrow> submission \<Rightarrow> submission" where
  "settled_row v r = r\<lparr>sb_status := tu_status v, sb_runtime := tu_runtime v, sb_error := tu_error v, sb_output := tu_output v\<rparr>"

definition judged_row :: "judge_error + (test_result list \<times> string) \<Rightarrow> submission \<Rightarrow> submission" where
  "judged_row outcome r =
    (case outcome of
       Inr (rs, st) \<Rightarrow> settled_row (verdict rs st) r
     | Inl (JudgeUnavailable m) \<Rightarrow> r
     | Inl (Raised e) \<Rightarrow> settled_row (crash_update e) r)"

lemma job_rows:
  fixes u pb :: nat and l c :: string and now :: int
  assumes "distinct (map sb_id (rows s))" "i \<notin> sb_id ` set (rows s)"
  defines "q \<equiv> snd (enqueueJudgeSubmission i now (put_rows (rows s @ [queued_row i u pb l c]) s))"
  shows "rows (after (judge_job url judge i) [] q) = rows s @ [judged_row (executeCode url judge \<lparr>jr_code = c, jr_language = l,
       jr_tests = map (\<lambda>t. (tc_input t, tc_expected t)) (ordered_tests (judge_view s) pb)\<rparr>) (queued_row i u pb l c)]"
proof -
  let ?q = "queued_row i u pb l c"
  have view: "judge_view q = \<lparr>submissions = rows s @ [?q], tests_of = si_tests s\<rparr>"
    by (simp add: q_def judge_view_def)
  have id: "sb_id ?q = i" "sb_status ?q = ''queued''" "sb_problem ?q = pb" by (simp_all add: queued_row_def)
  have ok: "ids_ok (judge_view q)" using assms(1,2) id by (simp add: ids_ok_def view)
  have f: "sub_find i (submissions (judge_view q)) = Some ?q"
    using assms(2) id by (simp add: view sub_find_append sub_find_None [THEN iffD2])
  have req: "request_of ?q (ordered_tests (judge_view q) (sb_problem ?q)) = \<lparr>jr_code = c, jr_language = l,
       jr_tests = map (\<lambda>t. (tc_input t, tc_expected t)) (ordered_tests (judge_view s) pb)\<rparr>"
    by (simp add: request_of_def id view judge_view_def ordered_tests_def) (simp add: queued_row_def q_def)
  have last: "submissions (put_terminal i v (judge_view q)) = rows s @ [settled_row v ?q]" for v
    unfolding view put_terminal_last [OF assms(2) id(1)] settled_row_def by simp
  show ?thesis
    unfolding judge_job_def after_def zoom_def fst_conv snd_conv judging_run [OF ok f id(2)] req
    by (simp add: judged_row_def last [unfolded view] view split: sum.split judge_error.split prod.split)
qed

lemma verdict_is_terminal: "tu_status (verdict rs st) \<in> set TERMINAL" "tu_status (crash_update e) \<in> set TERMINAL"
  by (auto simp: verdict_def classify_def crash_update_def TERMINAL_def trusted_judge_statuses_def Let_def)

lemma post_queued:
  assumes "submitCodeSchema m b = []" "su_code b = Some c" "su_language b = Some l" "su_problemId b = Some pb"
    "pb \<in> set (si_problems s)" "i \<notin> sb_id ` set (rows s)"
  shows "result (submissions_POST False m url judge (Some se) (Some b) i now) [] s =
    Inr (Reply 202 (queued_row i (se_userId se) pb l c, None, []))"
  using assms
  by (simp add: submissions_POST_def result_def catch_def bind_def submit_async_def call_hd create_submission_def Let_def queued_row_def)

lemma own_submission_read:
  assumes "rows s = rs @ [r]" "sb_id r = i" "sb_user r = se_userId se" "i \<notin> sb_id ` set rs"
  shows "result (submission_GET (Some se) i) [] s = Inr (Reply 200 r)"
  using assms by (simp add: submission_GET_def result_def catch_def bind_def sub_find_append sub_find_None [THEN iffD2])

text \<open>
  C32. From the button to the verdict, through the page, the route, the table and the judge. When no
  call fails, the row that a submission leaves is the code of the editor in the chosen language, by the
  signed-in user; after the first poll that follows the job the page shows exactly the status of that
  row. Every verdict of the judge ends the submission on the page, with the row's output, runtime and
  error as its result; only while the judge is unreachable the page goes on polling, for a minute.
\<close>

theorem page_shows_the_verdict:
  fixes p :: problem_page and d :: page_problem and s :: site and se :: session and m url :: string and newId :: nat
    and judge :: "judge_request \<Rightarrow> js_err + response" and t0 t1 t2 now :: int
  assumes "pp_problem p = Some d" "au_isAuthenticated (pp_auth p)" "pp_code p \<noteq> []" "pp_language p \<in> set LANGUAGE_IDS"
    "pb_id d \<in> set (si_problems s)" "distinct (map sb_id (rows s))" "newId \<notin> sb_id ` set (rows s)"
  defines "outcome \<equiv> executeCode url judge \<lparr>jr_code = pp_code p, jr_language = pp_language p,
      jr_tests = map (\<lambda>t. (tc_input t, tc_expected t)) (ordered_tests (judge_view s) (pb_id d))\<rparr>"
  defines "row \<equiv> judged_row outcome (queued_row newId (se_userId se) (pb_id d) (pp_language p) (pp_code p))"
  defines "turn \<equiv> submit_turn m url judge se newId now t0 t1 t2 p s"
  shows "rows (snd turn) = rows s @ [row] \<and> pp_status (fst turn) = Some (sb_status row) \<and>
    (if \<exists>msg. outcome = Inl (JudgeUnavailable msg)
     then sb_status row = ''queued'' \<and> pp_results (fst turn) = [] \<and> pp_submitting (fst turn) = (t2 - t0 < 60000)
     else sb_status row \<in> set TERMINAL \<and> \<not> pp_submitting (fst turn) \<and>
       pp_results (fst turn) = [\<lparr>tr_passed = (sb_status row = ''accepted''), tr_input = [], tr_expected = [],
         tr_actual = Some (coalesce (sb_output row) []), tr_runtime = Some (coalesce (sb_runtime row) 0), tr_error = sb_error row\<rparr>])"
proof -
  let ?r = "queued_row newId (se_userId se) (pb_id d) (pp_language p) (pp_code p)"
  have v: "submitCodeSchema m (submit_request d p) = []"
    using assms(3,4) by (simp add: submitCodeSchema_def submit_request_def languageEnum_def)
  have b: "su_code (submit_request d p) = Some (pp_code p)" "su_language (submit_request d p) = Some (pp_language p)"
    "su_problemId (submit_request d p) = Some (pb_id d)" by (simp_all add: submit_request_def)
  note posted = post_queued [OF v b assms(5,7)] post_async_after [OF v b assms(5,7)]
  let ?s2 = "after (judge_job url judge newId) [] (snd (enqueueJudgeSubmission newId now (put_rows (rows s @ [?r]) s)))"
  have rows: "rows ?s2 = rows s @ [row]" unfolding row_def outcome_def using assms(6,7) by (rule job_rows)
  have own: "sb_id row = newId" "sb_user row = se_userId se"
    by (auto simp: row_def judged_row_def settled_row_def queued_row_def split: sum.split judge_error.split)
  have read: "result (submission_GET (Some se) newId) [] ?s2 = Inr (Reply 200 row)"
    using rows own assms(7) by (rule own_submission_read)
  have fields: "sb_id ?r = newId" "sb_status ?r = ''queued''" by (simp_all add: queued_row_def)
  have turn: "turn = (poll_answered (Some \<lparr>pl_status = sb_status row, pl_output = sb_output row, pl_runtime = sb_runtime row,
      pl_error = sb_error row\<rparr>) t2 (poll_timer t1 (post_answered (Taken (Some newId) (Some ''queued'') None) t0 (handleSubmit p))), ?s2)"
    by (simp add: turn_def submit_turn_def Let_def assms(1) posted read post_answer_of_def polled_of_def fields)
  have page: "pp_phase (poll_timer t1 (post_answered (Taken (Some newId) (Some ''queued'') None) t0 (handleSubmit p))) = Fetching newId t0 t1"
    "pp_results (poll_timer t1 (post_answered (Taken (Some newId) (Some ''queued'') None) t0 (handleSubmit p))) = []"
    "pp_submitting (poll_timer t1 (post_answered (Taken (Some newId) (Some ''queued'') None) t0 (handleSubmit p)))"
    using assms(1,2) by (simp_all add: handleSubmit_def post_answered_def post_taken_def poll_timer_def Let_def)
  have status: "if \<exists>msg. outcome = Inl (JudgeUnavailable msg) then sb_status row = ''queued'' else sb_status row \<in> set TERMINAL"
    using verdict_is_terminal fields
    by (auto simp: row_def judged_row_def settled_row_def split: sum.split judge_error.split)
  have queued: "''queued'' \<notin> set TERMINAL" by (simp add: TERMINAL_def)
  show ?thesis
    using rows status page queued unfolding turn
    by (auto simp: poll_answered_def poll_again_def verdict_result_def coalesce_def Let_def split: if_splits option.splits)
qed

definition signed_in :: auth_store where
  "signed_in = \<lparr>au_user = Some 1, au_isLoading = False, au_isAuthenticated = True\<rparr>"

definition sample_problem :: page_problem where
  "sample_problem = \<lparr>pb_id = 3, pb_starterCode = Some ''S'', pb_tests = [(''1'', ''2'', False), (''3'', ''4'', True)]\<rparr>"

definition sample_page :: problem_page where
  "sample_page = edited (Some ''print(1)'') (problem_loaded (\<lambda>x. Some [(''python'', ''pass''), (''go'', ''package main'')]) (Some sample_problem) (new_page signed_in))"

lemma sample_page_facts:
  "pp_problem sample_page = Some sample_problem" "au_isAuthenticated (pp_auth sample_page)" "pp_code sample_page = ''print(1)''"
  "pp_language sample_page = ''python''" "pp_starters sample_page = [(''python'', ''pass''), (''go'', ''package main'')]"
  by (simp_all add: sample_page_def new_page_def signed_in_def edited_def problem_loaded_def sample_problem_def truthy_def Let_def)

lemma page_shows_the_verdict_witness:
  "let turn = submit_turn [] ''u'' sample_judge \<lparr>se_userId = 1, se_role = ''user''\<rparr> 7 50 1000 2000 2040 sample_page sample_site
   in pp_status (fst turn) = Some ''accepted'' \<and> \<not> pp_submitting (fst turn) \<and> map sb_code (rows (snd turn)) = [''print(1)'']"
proof -
  have r: "rows sample_site = []" "pb_id sample_problem \<in> set (si_problems sample_site)"
    by (simp_all add: sample_site_def rows_def sample_ach_def sample_problem_def)
  have e: "executeCode ''u'' sample_judge x = Inr ([], ''ok'')" for x by (simp add: executeCode_def sample_judge_def Let_def)
  have l: "pp_code sample_page \<noteq> []" "pp_language sample_page \<in> set LANGUAGE_IDS" by (simp_all add: sample_page_facts LANGUAGE_IDS_def)
  have v: "tu_status (verdict [] ''ok'') = ''accepted''" by (simp add: verdict_def classify_def trusted_judge_statuses_def)
  note shown = page_shows_the_verdict [OF sample_page_facts(1,2) l r(2), where newId = 7 and url = "''u''" and judge = sample_judge
      and se = "\<lparr>se_userId = 1, se_role = ''user''\<rparr>" and m = "[]" and now = 50 and ?t0.0 = 1000 and ?t1.0 = 2000 and ?t2.0 = 2040]
  from shown
  show ?thesis by (simp add: r(1) e judged_row_def settled_row_def queued_row_def v sample_page_facts Let_def)
qed

lemma submit_work_le:
  assumes ok: "page_ok p"
  shows "submit_work p \<le> 121"
proof -
  have le: "nat (2 * (60 - x div 1000)) \<le> 120" if "0 \<le> x" for x :: int
    using that pos_imp_zdiv_nonneg_iff [of 1000 x] by simp
  show ?thesis
  proof (cases "pp_phase p")
    case (Asleep i start since)
    then show ?thesis using ok le [of "since - start"] by (simp add: submit_work_def page_ok_def polls_ok_def Let_def)
  next
    case (Fetching i start sent)
    then show ?thesis using ok le [of "sent - start"] by (simp add: submit_work_def page_ok_def polls_ok_def Let_def)
  qed (simp_all add: submit_work_def)
qed

text \<open>
  C33. Submitting ends. Whatever the user does, whatever the server answers and however requests fail,
  a page sends at most sixty polls for each submission, its button is disabled exactly while one is
  under way, at most 121 answers and timers later it is enabled again, and until then one is due.
\<close>

theorem submitting_comes_to_an_end:
  assumes "(page_step parse)\<^sup>*\<^sup>* (new_page a) p"
  shows "gets p \<le> 60 * posts p \<and> (pp_submitting p \<longleftrightarrow> pp_phase p \<noteq> Idle) \<and>
    (\<forall>n q. (submit_step ^^ n) p q \<longrightarrow> n \<le> 121 \<and> (pp_submitting q \<longrightarrow> (\<exists>r. submit_step q r))) \<and>
    (\<exists>n q. (submit_step ^^ n) p q \<and> \<not> pp_submitting q)"
proof -
  have ok: "page_ok p" using assms by (rule page_reachable_ok)
  have "gets p \<le> 60 * posts p"
    using ok by (auto simp: page_ok_def polls_ok_def Let_def split: submit_phase.splits)
  moreover have "n \<le> 121 \<and> (pp_submitting q \<longrightarrow> (\<exists>r. submit_step q r))" if "(submit_step ^^ n) p q" for n q
    using polling.run_bound [OF that ok] submit_work_le [OF ok] submitting_can_move polling.inv_run [OF that ok] by fastforce
  moreover have "\<exists>n q. (submit_step ^^ n) p q \<and> \<not> pp_submitting q"
    using polling.run_end [OF ok] polling.inv_run [OF _ ok] submitting_can_move by meson
  ultimately show ?thesis using ok by (simp add: page_ok_def)
qed

lemma submitting_comes_to_an_end_witness:
  "\<exists>p n q. (page_step (\<lambda>_. None))\<^sup>*\<^sup>* (new_page signed_in) p \<and> pp_submitting p \<and> (submit_step ^^ n) p q \<and> \<not> pp_submitting q"
proof -
  let ?p = "handleSubmit (problem_loaded (\<lambda>_. None) (Some sample_problem) (new_page signed_in))"
  have "pp_loading (new_page signed_in)" by (simp add: new_page_def)
  then have "page_step (\<lambda>_. None) (new_page signed_in) (problem_loaded (\<lambda>_. None) (Some sample_problem) (new_page signed_in))"
    by (rule page_step.load)
  moreover have "page_step (\<lambda>_. None) (problem_loaded (\<lambda>_. None) (Some sample_problem) (new_page signed_in)) ?p"
    by (rule page_step.submit) (simp_all add: problem_loaded_def new_page_def sample_problem_def Let_def)
  ultimately have r: "(page_step (\<lambda>_. None))\<^sup>*\<^sup>* (new_page signed_in) ?p" by simp
  moreover have "pp_submitting ?p" by (simp add: problem_loaded_def new_page_def sample_problem_def Let_def handleSubmit_def signed_in_def)
  ultimately show ?thesis using submitting_comes_to_an_end [OF r] by blast
qed

subsection \<open>What surprises\<close>

text \<open>The reference behind the key binding is never set: the documented shortcut does nothing, ever.\<close>

lemma shortcut_does_nothing: "(page_step parse)\<^sup>*\<^sup>* (new_page a) p \<Longrightarrow> submit_shortcut p = p"
  using page_reachable_ok by (fastforce simp: submit_shortcut_def page_ok_def)

text \<open>Choosing another language, or the same one again, discards what was typed.\<close>

lemma language_change_discards_code:
  "pp_code sample_page = ''print(1)''" "pp_code (handleLanguageChange ''go'' sample_page) = ''package main''"
  "pp_code (handleLanguageChange ''python'' (handleLanguageChange ''go'' sample_page)) = ''pass''"
  by (simp_all add: handleLanguageChange_def restore_starter_def sample_page_facts)

text \<open>A run that the server refuses, for its rate or an unreachable judge, shows nothing at all.\<close>

lemma refused_run_is_silent:
  "pp_results (run_answered (Some None) p) = []" "pp_toasts (run_answered (Some None) p) = pp_toasts p"
  "pp_status (run_answered (Some None) p) = pp_status p"
  by (simp_all add: run_answered_def)

text \<open>Running is possible while a submission is judged: the late results of the run stand under its verdict.\<close>

lemma late_run_replaces_verdict:
  assumes "pp_phase p = Fetching i start sent" "pl_status sub = ''accepted''"
  shows "pp_status (run_answered (Some (Some rs)) (poll_answered (Some sub) now p)) = Some ''accepted''"
    "pp_results (run_answered (Some (Some rs)) (poll_answered (Some sub) now p)) = rs"
  using assms by (simp_all add: run_answered_def poll_answered_def TERMINAL_def Let_def)

text \<open>The banner over the results.\<close>

definition statusLabel :: "string \<Rightarrow> string" where
  "statusLabel s =
    (if s = ''submitting'' then ''Submitting...''
     else if s = ''queued'' then ''Queued - waiting for judge...''
     else if s = ''judging'' then ''Judging...''
     else if s = ''accepted'' then ''accepted''
     else if s = ''wrong_answer'' then ''wrongAnswer''
     else if s = ''runtime_error'' then ''runtimeError''
     else if s = ''time_limit_exceeded'' then ''timeLimitExceeded''
     else if s = ''compile_error'' then ''Compilation Error''
     else if s = ''memory_limit_exceeded'' then ''Memory Limit Exceeded''
     else if s = ''security_error'' then ''Security Violation''
     else ''submissionError'')"

definition statusColor :: "string \<Rightarrow> string" where
  "statusColor s =
    (if s \<in> {''submitting'', ''queued'', ''judging''} then ''bg-blue-500/10 text-blue-500 animate-pulse''
     else if s = ''accepted'' then ''bg-green-500/10 text-green-500''
     else if s = ''wrong_answer'' then ''bg-red-500/10 text-red-500''
     else if s = ''compile_error'' then ''bg-purple-500/10 text-purple-500''
     else if s = ''runtime_error'' then ''bg-red-500/10 text-red-500''
     else if s = ''time_limit_exceeded'' then ''bg-orange-500/10 text-orange-500''
     else if s = ''memory_limit_exceeded'' then ''bg-orange-500/10 text-orange-600''
     else if s = ''security_error'' then ''bg-red-700/10 text-red-700''
     else ''bg-muted/30 text-muted-foreground'')"

lemma every_verdict_has_its_label:
  "distinct (map statusLabel (''submitting'' # ''queued'' # ''judging'' # ''error'' # TERMINAL))"
  by code_simp

end
