(* ===== verification/ThreadPage.thy ===== *)
theory ThreadPage
  imports Discussions
begin

section \<open>The page of a discussion\<close>

text \<open>
  \<^verbatim>\<open>app/discussions/[id]/page.tsx\<close>: what the page keeps, which requests its handlers send and what it makes
  of their answers. A handler is a part before its request, which may send none, and a part for each
  kind of answer. Composed with the routes of theory Discussions it shows what is stored.
\<close>

subsection \<open>State\<close>

record shown_thread =
  st_thread :: discussion
  st_score :: int
  st_comments :: "comment_node list"

datatype thread_toast = CouldNotVote string | CouldNotPost string | CommentPosted | ReplyPosted | DiscussionDeleted | CouldNotDelete

record thread_page =
  tp_thread :: "shown_thread option"
  tp_loading :: bool
  tp_notFound :: bool
  tp_comment :: string
  tp_submitting :: bool
  tp_deleting :: bool
  tp_voting :: bool
  tp_userVote :: int
  tp_replyTo :: "nat option"
  tp_replyBody :: string
  tp_replySubmitting :: bool
  tp_toasts :: "thread_toast list"
  tp_left :: bool

definition new_thread_page :: thread_page where
  "new_thread_page =
    \<lparr>tp_thread = None, tp_loading = True, tp_notFound = False, tp_comment = [], tp_submitting = False, tp_deleting = False,
     tp_voting = False, tp_userVote = 0, tp_replyTo = None, tp_replyBody = [], tp_replySubmitting = False, tp_toasts = [],
     tp_left = False\<rparr>"

definition page_toast :: "thread_toast \<Rightarrow> thread_page \<Rightarrow> thread_page" where
  "page_toast x p = p\<lparr>tp_toasts := tp_toasts p @ [x]\<rparr>"

subsection \<open>Loading\<close>

text \<open>The answers to the GET: 404, another error or no answer, the thread.\<close>

datatype load_answer = Missing | Broken | Loaded shown_thread

definition load_begin :: "thread_page \<Rightarrow> thread_page" where
  "load_begin p = p\<lparr>tp_loading := True\<rparr>"

definition load_answered :: "load_answer \<Rightarrow> thread_page \<Rightarrow> thread_page" where
  "load_answered a p =
    (case a of
       Missing \<Rightarrow> p\<lparr>tp_notFound := True\<rparr>
     | Broken \<Rightarrow> p\<lparr>tp_thread := None\<rparr>
     | Loaded t \<Rightarrow> p\<lparr>tp_thread := Some t\<rparr>)\<lparr>tp_loading := False\<rparr>"

datatype screen = Skeleton | NotFound | Thread shown_thread

definition screen_of :: "thread_page \<Rightarrow> screen" where
  "screen_of p =
    (if tp_loading p then Skeleton
     else if tp_notFound p then NotFound
     else case tp_thread p of None \<Rightarrow> NotFound | Some t \<Rightarrow> Thread t)"

subsection \<open>The comments on the screen\<close>

fun count_node :: "comment_node \<Rightarrow> nat" where
  "count_node (Node c replies) = 1 + sum_list (map count_node replies)"

definition countComments :: "comment_node list \<Rightarrow> nat" where
  "countComments nodes = sum_list (map count_node nodes)"

text \<open>The comments from top to bottom, each with the depth it is drawn at.\<close>

fun drawn_node :: "nat \<Rightarrow> comment_node \<Rightarrow> (comment \<times> nat) list" where
  "drawn_node depth (Node c replies) = (c, depth) # concat (map (drawn_node (depth + 1)) replies)"

definition drawn :: "comment_node list \<Rightarrow> (comment \<times> nat) list" where
  "drawn nodes = concat (map (drawn_node 1) nodes)"

definition PAGE_REPLY_DEPTH :: nat where "PAGE_REPLY_DEPTH = 3"

definition canReply :: "nat option \<Rightarrow> nat \<Rightarrow> bool" where
  "canReply usr depth \<longleftrightarrow> usr \<noteq> None \<and> depth < PAGE_REPLY_DEPTH"

definition isReplying :: "nat \<Rightarrow> thread_page \<Rightarrow> bool" where
  "isReplying i p \<longleftrightarrow> tp_replyTo p = Some i"

definition reply_clicked :: "nat \<Rightarrow> thread_page \<Rightarrow> thread_page" where
  "reply_clicked i p = p\<lparr>tp_replyTo := (if isReplying i p then None else Some i), tp_replyBody := []\<rparr>"

definition typed_comment :: "string \<Rightarrow> thread_page \<Rightarrow> thread_page" where
  "typed_comment x p = p\<lparr>tp_comment := x\<rparr>"

definition typed_reply :: "string \<Rightarrow> thread_page \<Rightarrow> thread_page" where
  "typed_reply x p = p\<lparr>tp_replyBody := x\<rparr>"

text \<open>\<^verbatim>\<open>lib/utils.ts\<close>: the age beside a comment; \<open>formatDate\<close> is the browser's.\<close>

definition formatRelativeTime :: "(int \<Rightarrow> string) \<Rightarrow> int \<Rightarrow> int \<Rightarrow> string" where
  "formatRelativeTime formatDate now d =
    (let diff = now - d; minutes = diff div 60000; hours = diff div 3600000; days = diff div 86400000
     in if minutes < 1 then ''just now''
        else if minutes < 60 then show_nat (nat minutes) @ ''m ago''
        else if hours < 24 then show_nat (nat hours) @ ''h ago''
        else if days < 30 then show_nat (nat days) @ ''d ago''
        else formatDate d)"

lemma relative_time_units:
  "now - d < 60000 \<Longrightarrow> formatRelativeTime fd now d = ''just now''"
  "60000 \<le> now - d \<Longrightarrow> now - d < 3600000 \<Longrightarrow> formatRelativeTime fd now d = show_nat (nat ((now - d) div 60000)) @ ''m ago''"
  "3600000 \<le> now - d \<Longrightarrow> now - d < 86400000 \<Longrightarrow> formatRelativeTime fd now d = show_nat (nat ((now - d) div 3600000)) @ ''h ago''"
  "86400000 \<le> now - d \<Longrightarrow> now - d < 30 * 86400000 \<Longrightarrow> formatRelativeTime fd now d = show_nat (nat ((now - d) div 86400000)) @ ''d ago''"
  "30 * 86400000 \<le> now - d \<Longrightarrow> formatRelativeTime fd now d = fd d"
proof -
  have m: "(now - d) div 60000 < k \<longleftrightarrow> now - d < 60000 * k" "(now - d) div 3600000 < k \<longleftrightarrow> now - d < 3600000 * k"
    "(now - d) div 86400000 < k \<longleftrightarrow> now - d < 86400000 * k" for k
    by linarith+
  note by_units = formatRelativeTime_def Let_def m
  show "now - d < 60000 \<Longrightarrow> formatRelativeTime fd now d = ''just now''" by (simp add: by_units)
  show "60000 \<le> now - d \<Longrightarrow> now - d < 3600000 \<Longrightarrow> formatRelativeTime fd now d = show_nat (nat ((now - d) div 60000)) @ ''m ago''"
    by (simp add: by_units)
  show "3600000 \<le> now - d \<Longrightarrow> now - d < 86400000 \<Longrightarrow> formatRelativeTime fd now d = show_nat (nat ((now - d) div 3600000)) @ ''h ago''"
    by (simp add: by_units)
  show "86400000 \<le> now - d \<Longrightarrow> now - d < 30 * 86400000 \<Longrightarrow> formatRelativeTime fd now d = show_nat (nat ((now - d) div 86400000)) @ ''d ago''"
    by (simp add: by_units)
  show "30 * 86400000 \<le> now - d \<Longrightarrow> formatRelativeTime fd now d = fd d" by (simp add: by_units)
qed

subsection \<open>Posting\<close>

text \<open>\<open>Unanswered\<close>: the request fails, which no handler of the page catches.\<close>

datatype 'a sent_answer = Unanswered | Declined "string option" | Granted 'a

definition message_or :: "string \<Rightarrow> string option \<Rightarrow> string" where
  "message_or d m = (case m of Some x \<Rightarrow> x | None \<Rightarrow> d)"

definition post_body :: "string \<Rightarrow> nat option \<Rightarrow> comment_body" where
  "post_body body parentId = \<lparr>mb_body = Some body, mb_parentId = parentId\<rparr>"

definition handleComment :: "thread_page \<Rightarrow> thread_page \<times> comment_body option" where
  "handleComment p =
    (let trimmed = js_trim (tp_comment p)
     in if trimmed = [] then (p, None) else (p\<lparr>tp_submitting := True\<rparr>, Some (post_body trimmed None)))"

definition comment_answered :: "unit sent_answer \<Rightarrow> thread_page \<Rightarrow> thread_page" where
  "comment_answered a p =
    (case a of
       Granted _ \<Rightarrow> load_begin ((page_toast CommentPosted p)\<lparr>tp_comment := []\<rparr>)
     | Declined m \<Rightarrow> page_toast (CouldNotPost (message_or ''Try again later.'' m)) p
     | Unanswered \<Rightarrow> p)\<lparr>tp_submitting := False\<rparr>"

definition handleReplySubmit :: "nat \<Rightarrow> thread_page \<Rightarrow> thread_page \<times> comment_body option" where
  "handleReplySubmit parentId p =
    (let trimmed = js_trim (tp_replyBody p)
     in if trimmed = [] then (p, None) else (p\<lparr>tp_replySubmitting := True\<rparr>, Some (post_body trimmed (Some parentId))))"

definition reply_answered :: "unit sent_answer \<Rightarrow> thread_page \<Rightarrow> thread_page" where
  "reply_answered a p =
    (case a of
       Granted _ \<Rightarrow> load_begin ((page_toast ReplyPosted p)\<lparr>tp_replyBody := [], tp_replyTo := None\<rparr>)
     | Declined m \<Rightarrow> page_toast (CouldNotPost (message_or ''Try again later.'' m)) p
     | Unanswered \<Rightarrow> p)\<lparr>tp_replySubmitting := False\<rparr>"

subsection \<open>Voting and deleting\<close>

definition handleVote :: "nat option \<Rightarrow> int \<Rightarrow> thread_page \<Rightarrow> thread_page \<times> int option" where
  "handleVote usr value p =
    (if usr = None \<or> tp_voting p then (p, None) else (p\<lparr>tp_voting := True\<rparr>, Some value))"

definition vote_answered :: "(int \<times> int) sent_answer \<Rightarrow> thread_page \<Rightarrow> thread_page" where
  "vote_answered a p =
    (case a of
       Granted (scr, userVote) \<Rightarrow>
         p\<lparr>tp_userVote := userVote, tp_thread := map_option (\<lambda>t. t\<lparr>st_score := scr\<rparr>) (tp_thread p)\<rparr>
     | Declined m \<Rightarrow> page_toast (CouldNotVote (message_or ''Try again later.'' m)) p
     | Unanswered \<Rightarrow> p)\<lparr>tp_voting := False\<rparr>"

definition canDelete :: "session option \<Rightarrow> shown_thread \<Rightarrow> bool" where
  "canDelete usr t \<longleftrightarrow> (case usr of None \<Rightarrow> False | Some se \<Rightarrow> se_userId se = di_user (st_thread t) \<or> se_role se = ''admin'')"

definition handleDelete :: "bool \<Rightarrow> thread_page \<Rightarrow> thread_page \<times> bool" where
  "handleDelete confirmed p = (if \<not> confirmed then (p, False) else (p\<lparr>tp_deleting := True\<rparr>, True))"

definition delete_answered :: "unit sent_answer \<Rightarrow> thread_page \<Rightarrow> thread_page" where
  "delete_answered a p =
    (case a of
       Granted _ \<Rightarrow> (let p = page_toast DiscussionDeleted p in if tp_thread p \<noteq> None then p\<lparr>tp_left := True\<rparr> else p)
     | Declined _ \<Rightarrow> page_toast CouldNotDelete p
     | Unanswered \<Rightarrow> p)\<lparr>tp_deleting := False\<rparr>"

subsection \<open>What the page sees of the routes\<close>

definition load_answer_of :: "'e + (discussion \<times> int \<times> comment_node list) reply \<Rightarrow> load_answer" where
  "load_answer_of r =
    (case r of
       Inr (Reply status (d, scr, forest)) \<Rightarrow> Loaded \<lparr>st_thread = d, st_score = scr, st_comments = forest\<rparr>
     | Inr (Failed status msg) \<Rightarrow> if status = 404 then Missing else Broken
     | Inl _ \<Rightarrow> Broken)"

definition sent_answer_of :: "'e + 'a reply \<Rightarrow> 'a sent_answer" where
  "sent_answer_of r =
    (case r of Inr (Reply status x) \<Rightarrow> Granted x | Inr (Failed status msg) \<Rightarrow> Declined (Some msg) | Inl _ \<Rightarrow> Unanswered)"

subsection \<open>Depths are levels\<close>

lemma count_flatten: "count_node n = length (flatten n)"
  by (induction n) (simp add: length_concat comp_def cong: map_cong)

lemma map_count: "map count_node ns = map (\<lambda>n. length (flatten n)) ns"
  by (simp add: count_flatten)

lemma map_fst_drawn: "map fst (drawn_node d n) = flatten n"
proof (induction n arbitrary: d)
  case (Node c replies)
  then show ?case by (simp add: map_concat comp_def cong: map_cong)
qed

lemma drawn_levels:
  assumes "distinct (map cm_id rows)" "\<forall>c \<in> set rows. cm_discussion c = i"
    "case q of None \<Rightarrow> d = 1 | Some r \<Rightarrow> r \<in> set rows \<and> d = Suc n \<and> level rows r n"
    "x \<in> set (forest_from k rows (map_option cm_id q))" "(c, e) \<in> set (drawn_node d x)"
  shows "c \<in> set rows \<and> level rows c e"
  using assms(3-)
proof (induction k arbitrary: q d n x)
  case (Suc k)
  from Suc.prems(2) obtain r where r: "r \<in> set rows" "cm_parent r = map_option cm_id q"
    "x = Node r (forest_from k rows (Some (cm_id r)))" by auto
  have l: "level rows r d"
  proof (cases q)
    case None
    then show ?thesis using r(2) Suc.prems(1) level.level_root [of r rows] by simp
  next
    case (Some s)
    then have s: "s \<in> set rows" "d = Suc n" "level rows s n" using Suc.prems(1) by simp_all
    have "find_by cm_id (cm_id s) rows = Some s" using assms(1) s(1) by (rule find_by_unique)
    then show ?thesis using r Some s assms(2) by (auto intro!: level.level_reply [of r "cm_id s" rows s n])
  qed
  show ?case
  proof (cases "c = r \<and> e = d")
    case True
    then show ?thesis using r(1) l by simp
  next
    case False
    then obtain y where y: "y \<in> set (forest_from k rows (Some (cm_id r)))" "(c, e) \<in> set (drawn_node (d + 1) y)"
      using Suc.prems(3) r(3) by auto
    show ?thesis using Suc.IH [where q = "Some r" and d = "d + 1" and n = d and x = y] r(1) l y by simp
  qed
qed simp

text \<open>A level within the thread is one in the whole table.\<close>

lemma level_super:
  assumes "level rows c n" "set rows \<subseteq> set full" "distinct (map cm_id full)"
  shows "level full c n"
  using assms(1)
proof (induction rule: level.induct)
  case (level_reply c p q n)
  have "q \<in> set full" using find_by_in [OF level_reply.hyps(2)] assms(2) by blast
  moreover have "cm_id q = p" using level_reply.hyps(2) by (rule find_by_key)
  ultimately have "find_by cm_id p full = Some q" using find_by_unique [OF assms(3)] by blast
  then show ?case using level_reply by (intro level.level_reply)
qed (rule level.level_root)

lemma loaded_thread:
  assumes "thread_ok db" "discussion_of i db = Some d"
  defines "rows \<equiv> sort_by (\<lambda>a b. cm_createdAt a \<le> cm_createdAt b) (filter (\<lambda>c. cm_discussion c = i) (fo_comments db))"
  defines "forest \<equiv> forest_from MAX_REPLY_DEPTH rows None"
  shows "load_answer_of (result (discussion_GET i) [] db) = Loaded \<lparr>st_thread = d, st_score = thread_score db i, st_comments = forest\<rparr>"
    "mset (map fst (drawn forest)) = mset rows" "countComments forest = length rows"
    "\<And>c e. (c, e) \<in> set (drawn forest) \<Longrightarrow> c \<in> set (fo_comments db) \<and> cm_discussion c = i \<and> level (fo_comments db) c e \<and> e \<le> MAX_REPLY_DEPTH"
proof -
  note ok = thread_rows_ok [OF assms(1), of i, folded rows_def]
  have t: "buildCommentTree rows = forest" unfolding forest_def by (rule tree_is_forest [OF ok])
  show "load_answer_of (result (discussion_GET i) [] db) = Loaded \<lparr>st_thread = d, st_score = thread_score db i, st_comments = forest\<rparr>"
    using assms(2) t by (simp add: discussion_GET_def result_def catch_def bind_def load_answer_of_def rows_def)
  have f: "map fst (drawn forest) = concat (map flatten forest)"
    by (simp add: drawn_def map_concat comp_def map_fst_drawn)
  show m: "mset (map fst (drawn forest)) = mset rows"
    unfolding f using forest_once [OF ok] by (simp add: forest_def)
  have "countComments forest = length (concat (map flatten forest))"
    by (simp add: countComments_def map_count length_concat comp_def)
  then show "countComments forest = length rows" using m f by (metis size_mset)
  fix c e assume ce: "(c, e) \<in> set (drawn forest)"
  have i: "\<forall>c \<in> set rows. cm_discussion c = i" by (simp add: rows_def)
  from ce obtain x where "x \<in> set forest" "(c, e) \<in> set (drawn_node 1 x)" by (auto simp: drawn_def)
  then have l: "c \<in> set rows \<and> level rows c e"
    using drawn_levels [OF ok(1) i, where q = None and d = 1 and n = 0 and x = x and k = MAX_REPLY_DEPTH and c = c and e = e] by (simp add: forest_def)
  then have "e \<le> MAX_REPLY_DEPTH" using ok(2) level_unique by blast
  moreover have "set rows \<subseteq> set (fo_comments db)" by (auto simp: rows_def)
  ultimately show "c \<in> set (fo_comments db) \<and> cm_discussion c = i \<and> level (fo_comments db) c e \<and> e \<le> MAX_REPLY_DEPTH"
    using l i level_super assms(1) unfolding thread_ok_def by blast
qed

subsection \<open>Votes\<close>

definition vote_in :: "nat \<Rightarrow> nat \<Rightarrow> forum \<Rightarrow> int" where
  "vote_in i u db = (case find_by thread_vote_key (i, u) (fo_votes db) of None \<Rightarrow> 0 | Some v \<Rightarrow> tv_value v)"

definition votes_ok :: "forum \<Rightarrow> bool" where
  "votes_ok db \<longleftrightarrow> distinct (map tv_id (fo_votes db)) \<and> distinct (map thread_vote_key (fo_votes db))"

lemma find_after_removal:
  assumes "distinct (map tv_id vs)" "distinct (map thread_vote_key vs)" "find_by thread_vote_key k vs = Some v"
  shows "find_by thread_vote_key k (filter (\<lambda>w. tv_id w \<noteq> tv_id v) vs) = None"
proof -
  have v: "v \<in> set vs" "thread_vote_key v = k" using assms(3) find_by_in find_by_key by fastforce+
  have "w = v" if "w \<in> set vs" "thread_vote_key w = k" for w
    using that v assms(2) by (metis find_by_unique option.inject)
  then show ?thesis by (auto simp: find_by_None)
qed

lemma find_after_change:
  assumes "find_by thread_vote_key k vs = Some v" "distinct (map tv_id vs)"
  shows "\<exists>w. find_by thread_vote_key k (upd_by tv_id (tv_id v) (\<lambda>w. w\<lparr>tv_value := x\<rparr>) vs) = Some w \<and> tv_value w = x"
  using assms
proof (induction vs)
  case (Cons a vs)
  then show ?case
  proof (cases "thread_vote_key a = k")
    case True
    then show ?thesis using Cons by (simp add: upd_by_def thread_vote_key_def)
  next
    case False
    then have "find_by thread_vote_key k vs = Some v" using Cons.prems by simp
    then show ?thesis using Cons False by (auto simp: upd_by_def thread_vote_key_def)
  qed
qed simp

text \<open>A vote that is answered with success is the one stored, and the score counts it.\<close>

lemma vote_written:
  assumes "votes_ok s"
    "(case find_by thread_vote_key (i, u) (fo_votes s) of
        None \<Rightarrow> bind (call ''db'' (create_thread_vote newId i u x)) (\<lambda>_. ret x)
      | Some v \<Rightarrow>
          if tv_value v = x then
            bind (update ''db'' (\<lambda>db. db\<lparr>fo_votes := filter (\<lambda>w. tv_id w \<noteq> tv_id v) (fo_votes db)\<rparr>)) (\<lambda>_. ret 0)
          else bind (update ''db'' (\<lambda>db. db\<lparr>fo_votes := upd_by tv_id (tv_id v) (\<lambda>w. w\<lparr>tv_value := x\<rparr>) (fo_votes db)\<rparr>))
            (\<lambda>_. ret x)) (fs, s) = (Inr y, w)"
  shows "y = vote_in i u (snd w)"
proof (cases "find_by thread_vote_key (i, u) (fo_votes s)")
  case None
  then show ?thesis using assms(2)
    by (auto simp: bind_def call_hd create_thread_vote_def vote_in_def find_by_append thread_vote_key_def split: if_splits)
next
  case (Some v)
  have d: "distinct (map tv_id (fo_votes s))" "distinct (map thread_vote_key (fo_votes s))" using assms(1) by (simp_all add: votes_ok_def)
  show ?thesis
  proof (cases "tv_value v = x")
    case True
    then show ?thesis using assms(2) Some find_after_removal [OF d Some]
      by (auto simp: bind_def update_def call_hd vote_in_def split: if_splits)
  next
    case False
    obtain w' where w: "find_by thread_vote_key (i, u) (upd_by tv_id (tv_id v) (\<lambda>w. w\<lparr>tv_value := x\<rparr>) (fo_votes s)) = Some w'" "tv_value w' = x"
      using find_after_change [OF Some d(1)] by blast
    then show ?thesis using assms(2) Some False
      by (auto simp: bind_def update_def call_hd vote_in_def split: if_splits)
  qed
qed

lemma vote_reply_true:
  assumes "votes_ok s" "thread_vote_POST (Some se) i body newId now (fs, s) = (Inr (Reply c (scr, v)), w)"
  shows "scr = thread_score (snd w) i \<and> v = vote_in i (se_userId se) (snd w)"
proof -
  let ?s = "snd (forum_limited (''discussion-vote:'' @ show_nat (se_userId se)) 30 now s)"
  have ok: "votes_ok ?s" using assms(1) by (simp add: votes_ok_def forum_limited_def split: prod.split)
  obtain x where x: "body = Some (Some x)" "voteSchema (Some x) = []"
    using assms(2) by (auto simp: thread_vote_POST_def catch_def bind_def voteSchema_def split: option.splits if_splits)
  define s' where "s' = ?s"
  let ?put_vote = "\<lambda>existing. case existing of
        None \<Rightarrow> bind (call ''db'' (create_thread_vote newId i (se_userId se) x)) (\<lambda>_. ret x)
      | Some v \<Rightarrow>
          if tv_value v = x then
            bind (update ''db'' (\<lambda>db. db\<lparr>fo_votes := filter (\<lambda>w. tv_id w \<noteq> tv_id v) (fo_votes db)\<rparr>)) (\<lambda>_. ret 0)
          else bind (update ''db'' (\<lambda>db. db\<lparr>fo_votes := upd_by tv_id (tv_id v) (\<lambda>w. w\<lparr>tv_value := x\<rparr>) (fo_votes db)\<rparr>))
            (\<lambda>_. ret x)"
  have "\<exists>w0 w1 w2 existing. query ''db'' (\<lambda>db. find_by thread_vote_key (i, se_userId se) (fo_votes db)) w0 = (Inr existing, w1) \<and>
      snd w0 = s' \<and> ?put_vote existing w1 = (Inr v, w2) \<and> query ''db'' (\<lambda>db. thread_score db i) w2 = (Inr scr, w)"
    using assms(2) unfolding thread_vote_POST_def x option.case option.sel catch_def s'_def [symmetric]
    by (auto simp: bind_Inr x(2) s'_def split: if_splits sum.splits prod.splits dest!: query_Inr [where f = "discussion_of i"]) blast+
  then obtain w0 w1 w2 existing where run: "query ''db'' (\<lambda>db. find_by thread_vote_key (i, se_userId se) (fo_votes db)) w0 = (Inr existing, w1)"
    "snd w0 = s'" "?put_vote existing w1 = (Inr v, w2)" "query ''db'' (\<lambda>db. thread_score db i) w2 = (Inr scr, w)" by blast
  have e: "existing = find_by thread_vote_key (i, se_userId se) (fo_votes s')" "snd w1 = s'"
    using query_Inr [OF run(1)] run(2) by simp_all
  then obtain fs1 where w1: "w1 = (fs1, s')" by (cases w1) auto
  have "v = vote_in i (se_userId se) (snd w2)"
    using run(3) unfolding e(1) w1 by (rule vote_written [OF ok [folded s'_def]])
  then show ?thesis using query_Inr [OF run(4)] by simp
qed

lemma reply_button:
  assumes "thread_ok db" "discussion_of i db = Some d" "createCommentSchema (post_body body None) = []"
    "allowed (fst (forum_limited (''comment:'' @ show_nat (se_userId se)) 10 now db))" "newId \<notin> cm_id ` set (fo_comments db)"
    "c \<in> set (fo_comments db)" "cm_discussion c = i" "level (fo_comments db) c e" "e \<le> MAX_REPLY_DEPTH"
  shows "canReply (Some u) e \<longleftrightarrow>
    (\<exists>x. result (comment_POST (Some se) i (Some (post_body body (Some (cm_id c)))) newId now) [] db = Inr (Reply 201 x))"
proof -
  have f: "comment_of (cm_id c) db = Some c"
    using assms(1,6) unfolding comment_of_def thread_ok_def by (intro find_by_unique) simp_all
  have "createCommentSchema (post_body body (Some (cm_id c))) = []"
    using assms(3) by (simp add: createCommentSchema_def post_body_def)
  from reply_accepted [OF assms(8,9) f assms(7) _ this _ assms(4,5)] show ?thesis
    using assms(2) by (auto simp: post_body_def canReply_def PAGE_REPLY_DEPTH_def MAX_REPLY_DEPTH_def)
qed

subsection \<open>Properties\<close>

text \<open>
  C34. The page shows the thread as it is stored and offers what the server accepts. In the forum that
  any requests produce, whichever of their calls fail: a page that has loaded a thread shows its score
  and the number of its comments, draws every comment of the thread exactly once, and has a reply
  button for a signed-in user under exactly those comments to which the server takes a reply.
\<close>

theorem thread_page_shows_the_thread:
  fixes rs :: "(forum_request \<times> bool list) list" and ps :: "nat list" and se :: session and now :: int and u newId :: nat
    and i :: nat and d :: discussion and p :: thread_page and body :: string
  defines "db \<equiv> fold serve rs (empty_forum ps)"
  assumes "discussion_of i db = Some d" "\<not> tp_notFound p" "createCommentSchema (post_body body None) = []"
    "allowed (fst (forum_limited (''comment:'' @ show_nat (se_userId se)) 10 now db))" "newId \<notin> cm_id ` set (fo_comments db)"
  shows "\<exists>t. screen_of (load_answered (load_answer_of (result (discussion_GET i) [] db)) p) = Thread t \<and>
    st_thread t = d \<and> st_score t = thread_score db i \<and>
    countComments (st_comments t) = length (filter (\<lambda>c. cm_discussion c = i) (fo_comments db)) \<and>
    mset (map fst (drawn (st_comments t))) = mset (filter (\<lambda>c. cm_discussion c = i) (fo_comments db)) \<and>
    (\<forall>(c, depth) \<in> set (drawn (st_comments t)). canReply (Some u) depth \<longleftrightarrow>
      (\<exists>x. result (comment_POST (Some se) i (Some (post_body body (Some (cm_id c)))) newId now) [] db = Inr (Reply 201 x)))"
proof -
  have ok: "thread_ok db" unfolding db_def by (rule served_ok)
  note l = loaded_thread [OF ok assms(2)]
  have "canReply (Some u) e \<longleftrightarrow>
      (\<exists>x. result (comment_POST (Some se) i (Some (post_body body (Some (cm_id c)))) newId now) [] db = Inr (Reply 201 x))"
    if "(c, e) \<in> set (drawn (forest_from MAX_REPLY_DEPTH (sort_by (\<lambda>a b. cm_createdAt a \<le> cm_createdAt b)
        (filter (\<lambda>c. cm_discussion c = i) (fo_comments db))) None))" for c e
    using reply_button [OF ok assms(2,4-6)] l(4) [OF that] by blast
  then show ?thesis
    using l(1-3) assms(3) by (auto simp: load_answered_def screen_of_def)
qed

lemma thread_page_shows_the_thread_witness:
  "\<exists>t. screen_of (load_answered (load_answer_of (result (discussion_GET 7) [] (fold serve sample_requests (empty_forum [1])))) new_thread_page) =
      Thread t \<and> countComments (st_comments t) = 3"
proof -
  have d: "discussion_of 7 (fold serve sample_requests (empty_forum [1])) =
      Some \<lparr>di_id = 7, di_problem = 1, di_user = 10, di_title = ''help'', di_body = ''?'', di_upvotes = 0, di_createdAt = 0, di_updatedAt = 0\<rparr>"
    by code_simp
  have n: "\<not> tp_notFound new_thread_page" by (simp add: new_thread_page_def)
  have b: "createCommentSchema (post_body ''yes'' None) = []" by code_simp
  have a: "allowed (fst (forum_limited (''comment:'' @ show_nat (se_userId \<lparr>se_userId = 11, se_role = ''user''\<rparr>)) 10 9
      (fold serve sample_requests (empty_forum [1]))))" by code_simp
  have f: "9 \<notin> cm_id ` set (fo_comments (fold serve sample_requests (empty_forum [1])))" unfolding sample_served by auto
  have "length (filter (\<lambda>c. cm_discussion c = 7) (fo_comments (fold serve sample_requests (empty_forum [1])))) = 3"
    unfolding sample_served by simp
  then show ?thesis using thread_page_shows_the_thread [OF d n b a f, of 11] by auto
qed

text \<open>
  Voting, whichever calls fail: after a success the rail shows the stored vote of the user and the score
  that counts it; after anything else it shows what it showed.
\<close>

lemma vote_rail_shows_the_vote:
  fixes s :: forum and se :: session and body :: "int option option" and i newId :: nat and now :: int and fs :: "bool list" and p :: thread_page
  assumes "votes_ok s" "tp_thread p = Some t"
  defines "r \<equiv> thread_vote_POST (Some se) i body newId now"
  defines "q \<equiv> vote_answered (sent_answer_of (result r fs s)) p"
  shows "\<not> tp_voting q \<and>
    (case result r fs s of
       Inr (Reply c x) \<Rightarrow> tp_userVote q = vote_in i (se_userId se) (after r fs s) \<and>
         tp_thread q = Some (t\<lparr>st_score := thread_score (after r fs s) i\<rparr>)
     | _ \<Rightarrow> tp_userVote q = tp_userVote p \<and> tp_thread q = tp_thread p)"
proof -
  obtain x w where Pair: "r (fs, s) = (x, w)" by (metis prod.exhaust)
  have true: "scr = thread_score (snd w) i \<and> v = vote_in i (se_userId se) (snd w)" if "x = Inr (Reply c (scr, v))" for c scr v
    using vote_reply_true [OF assms(1)] Pair that unfolding r_def by blast
  show ?thesis
  proof (cases x)
    case (Inl e)
    then show ?thesis using Pair by (simp add: q_def result_def vote_answered_def sent_answer_of_def)
  next
    case (Inr y)
    then show ?thesis using Pair true assms(2)
      by (cases y) (auto simp: q_def result_def after_def vote_answered_def sent_answer_of_def page_toast_def)
  qed
qed

subsection \<open>What surprises\<close>

text \<open>One's own vote is not shown on a fresh page: no answer of the GET changes the arrow.\<close>

lemma loading_shows_no_vote: "tp_userVote (load_answered a new_thread_page) = 0"
  by (simp add: load_answered_def new_thread_page_def split: load_answer.split)

text \<open>A comment that was stored but could not be read back turns the thread into one that is not found.\<close>

lemma broken_reload_hides_thread: "screen_of (load_answered Broken (comment_answered (Granted ()) p)) = NotFound"
  by (simp add: load_answered_def screen_of_def)

text \<open>A request without an answer is told to nobody.\<close>

lemma unanswered_is_silent:
  "tp_toasts (comment_answered Unanswered p) = tp_toasts p" "tp_toasts (reply_answered Unanswered p) = tp_toasts p"
  "tp_toasts (vote_answered Unanswered p) = tp_toasts p" "tp_toasts (delete_answered Unanswered p) = tp_toasts p"
  by (simp_all add: comment_answered_def reply_answered_def vote_answered_def delete_answered_def)

text \<open>
  While a reply is under way another one can be begun; the answer to the first closes and empties it.
\<close>

lemma answered_reply_discards_another:
  "tp_replyTo (reply_answered (Granted ()) (typed_reply x (reply_clicked j (fst (handleReplySubmit i p))))) = None"
  "tp_replyBody (reply_answered (Granted ()) (typed_reply x (reply_clicked j (fst (handleReplySubmit i p))))) = []"
  by (simp_all add: reply_answered_def load_begin_def page_toast_def)

text \<open>Two clicks on an arrow before the first answer send one request.\<close>

lemma one_vote_at_a_time: "snd (handleVote usr x (fst (handleVote (Some u) y p))) = None"
  by (simp add: handleVote_def)

end
