(* ===== verification/Widgets.thy ===== *)
theory Widgets
  imports Learning
begin

section \<open>Parts of the pages with a state of their own\<close>

text \<open>
  The bookmark button (\<^verbatim>\<open>components/problem/bookmark-button.tsx\<close>), the hints
  (\<^verbatim>\<open>components/problem/hints-progressive.tsx\<close>), the toasts (\<^verbatim>\<open>hooks/useToast.ts\<close>) and the editor's
  preferences (\<^verbatim>\<open>lib/editor-prefs.ts\<close>, \<^verbatim>\<open>hooks/useEditorPrefs.ts\<close>). What \<^verbatim>\<open>localStorage\<close> holds is a map
  from keys to texts; \<^verbatim>\<open>JSON.parse\<close> and \<^verbatim>\<open>JSON.stringify\<close> are parameters.
\<close>

subsection \<open>The bookmark button\<close>

datatype bookmark_toast = SignIn | Bookmarked | BookmarkRemoved | CouldNotUpdate

record bookmark_button =
  bb_bookmarked :: bool
  bb_loading :: bool
  bb_pending :: bool
  bb_toasts :: "bookmark_toast list"

definition new_button :: bookmark_button where
  "new_button = \<lparr>bb_bookmarked = False, bb_loading = True, bb_pending = False, bb_toasts = []\<rparr>"

text \<open>The effect: None is a request that fails; an error reply counts as not bookmarked.\<close>

definition button_mounted :: "bool \<Rightarrow> bookmark_button \<Rightarrow> bookmark_button \<times> bool" where
  "button_mounted isAuthenticated b = (if \<not> isAuthenticated then (b\<lparr>bb_loading := False\<rparr>, False) else (b, True))"

definition button_loaded :: "bool option \<Rightarrow> bookmark_button \<Rightarrow> bookmark_button" where
  "button_loaded answer b = b\<lparr>bb_bookmarked := (case answer of Some x \<Rightarrow> x | None \<Rightarrow> False), bb_loading := False\<rparr>"

definition handleToggle :: "bool \<Rightarrow> bookmark_button \<Rightarrow> bookmark_button \<times> bool option" where
  "handleToggle isAuthenticated b =
    (if \<not> isAuthenticated then (b\<lparr>bb_toasts := bb_toasts b @ [SignIn]\<rparr>, None)
     else (b\<lparr>bb_pending := True, bb_bookmarked := \<not> bb_bookmarked b\<rparr>, Some (bb_bookmarked b)))"

text \<open>The answer, with the value before the click; None for an error reply or none.\<close>

definition toggle_answered :: "bool \<Rightarrow> bool option \<Rightarrow> bookmark_button \<Rightarrow> bookmark_button" where
  "toggle_answered previous answer b =
    (case answer of
       Some x \<Rightarrow> b\<lparr>bb_bookmarked := x, bb_toasts := bb_toasts b @ [if x then Bookmarked else BookmarkRemoved]\<rparr>
     | None \<Rightarrow> b\<lparr>bb_bookmarked := previous, bb_toasts := bb_toasts b @ [CouldNotUpdate]\<rparr>)\<lparr>bb_pending := False\<rparr>"

definition granted :: "'e + 'a reply \<Rightarrow> 'a option" where
  "granted r = (case r of Inr (Reply status x) \<Rightarrow> Some x | _ \<Rightarrow> None)"

text \<open>A click, from the button through the route and back; ids, time and failing calls of the request.\<close>

definition click_turn :: "session \<Rightarrow> nat \<Rightarrow> nat \<times> int \<times> bool list \<Rightarrow> bookmark_button \<times> learn_db \<Rightarrow> bookmark_button \<times> learn_db" where
  "click_turn se p c x =
    (case (c, x) of ((newId, now, fs), (b, s)) \<Rightarrow>
       (let post = bookmarks_POST (Some se) (Some (Some p)) newId now
        in case handleToggle True b of
             (b', Some previous) \<Rightarrow> (toggle_answered previous (granted (result post fs s)) b', after post fs s)
           | (b', None) \<Rightarrow> (b', s)))"

definition load_turn :: "session \<Rightarrow> nat \<Rightarrow> bool list \<Rightarrow> learn_db \<Rightarrow> bookmark_button" where
  "load_turn se p fs s =
    button_loaded (map_option (\<lambda>r. case r of Single x \<Rightarrow> x | Full _ \<Rightarrow> False) (granted (result (bookmarks_GET (Some se) (Some p)) fs s)))
      new_button"

definition button_shows :: "nat \<Rightarrow> nat \<Rightarrow> bookmark_button \<times> learn_db \<Rightarrow> bool" where
  "button_shows u p x \<longleftrightarrow> learn_ok (snd x) \<and> \<not> bb_pending (fst x) \<and> \<not> bb_loading (fst x) \<and>
    bb_bookmarked (fst x) = (bookmark_of u p (snd x) \<noteq> None)"

lemma post_keeps_ok: "learn_ok s \<Longrightarrow> learn_ok (after (bookmarks_POST (Some se) b i now) fs s)"
  using served_moves [of "[(ToggleBookmark (Some se) b i now, fs)]" "{}" s] by (simp add: learn_moves_def)

lemma same_bookmarks: "ln_bookmarks t = ln_bookmarks s \<Longrightarrow> bookmark_of u p t = bookmark_of u p s"
  by (simp add: bookmark_of_def)

lemma click_shows:
  assumes "button_shows (se_userId se) p x"
  shows "button_shows (se_userId se) p (click_turn se p c x)"
proof -
  obtain newId now fs b s where x: "c = (newId, now, fs)" "x = (b, s)" by (metis prod.exhaust)
  have ok: "learn_ok s" using assms x by (simp add: button_shows_def)
  define post where "post = bookmarks_POST (Some se) (Some (Some p)) newId now"
  have h: "honest (se_userId se) p s (result post fs s) (after post fs s)" "learn_ok (after post fs s)"
    using POST_honest [OF ok] post_keeps_ok [OF ok] unfolding post_def by blast+
  show ?thesis
  proof (cases "granted (result post fs s)")
    case None
    then have "ln_bookmarks (after post fs s) = ln_bookmarks s"
      using h(1) by (auto simp: honest_def granted_def split: sum.splits reply.splits)
    then have "bookmark_of (se_userId se) p (after post fs s) = bookmark_of (se_userId se) p s" by (rule same_bookmarks)
    then show ?thesis
      using assms None h(2)
      by (simp add: x click_turn_def post_def [symmetric] handleToggle_def toggle_answered_def button_shows_def)
  next
    case (Some v)
    then have "(bookmark_of (se_userId se) p (after post fs s) \<noteq> None) = v"
      using h(1) by (auto simp: honest_def granted_def toggled_def split: sum.splits reply.splits)
    then show ?thesis
      using assms Some h(2)
      by (auto simp: x click_turn_def post_def [symmetric] handleToggle_def toggle_answered_def button_shows_def)
  qed
qed

text \<open>
  C35. The bookmark button shows what is stored. Once it has loaded, after any clicks and whichever calls
  of their requests fail, the button is enabled and shows exactly whether the bookmark is stored.
\<close>

theorem bookmark_button_in_step:
  fixes se :: session and db :: learn_db and rs :: "(learn_request \<times> bool list) list" and cs :: "(nat \<times> int \<times> bool list) list" and p :: nat
  assumes "ln_bookmarks db = []" "ln_enrolled db = []"
  defines "s \<equiv> fold learn_serve rs db"
  defines "t \<equiv> fold (click_turn se p) cs (load_turn se p [] s, s)"
  shows "\<not> bb_pending (fst t) \<and> \<not> bb_loading (fst t) \<and> bb_bookmarked (fst t) = (bookmark_of (se_userId se) p (snd t) \<noteq> None)"
proof -
  have "learn_ok db" using assms by (simp add: learn_ok_def)
  moreover have "learn_moves {} db s" unfolding s_def by (rule served_moves) simp
  ultimately have ok: "learn_ok s" by (simp add: learn_moves_def)
  have "button_shows (se_userId se) p (load_turn se p [] s, s)"
    using ok by (simp add: button_shows_def load_turn_def bookmarks_GET_def result_def catch_def bind_def granted_def
        button_loaded_def new_button_def)
  then have "button_shows (se_userId se) p (fold (click_turn se p) cs (load_turn se p [] s, s))"
    by (induction cs rule: rev_induct) (simp_all add: click_shows)
  then show ?thesis unfolding t_def by (simp add: button_shows_def)
qed

lemma bookmark_button_in_step_witness:
  "let s = sample_learners; se = \<lparr>se_userId = 7, se_role = ''user''\<rparr>;
       t = fold (click_turn se 1) [(9, 5, []), (10, 6, [False, True])] (load_turn se 1 [] s, s)
   in bb_bookmarked (fst t) \<and> bookmark_of 7 1 (snd t) \<noteq> None"
proof -
  have e: "ln_bookmarks sample_learners = []" "ln_enrolled sample_learners = []" by (simp_all add: sample_learners_def)
  have b: "bb_bookmarked (fst (fold (click_turn \<lparr>se_userId = 7, se_role = ''user''\<rparr> 1) [(9, 5, []), (10, 6, [False, True])]
      (load_turn \<lparr>se_userId = 7, se_role = ''user''\<rparr> 1 [] sample_learners, sample_learners)))"
    by code_simp
  show ?thesis
    using bookmark_button_in_step [OF e, where rs = "[]" and se = "\<lparr>se_userId = 7, se_role = ''user''\<rparr>" and p = 1
        and cs = "[(9, 5, []), (10, 6, [False, True])]"] b
    by (simp del: fold_simps add: Let_def)
qed

text \<open>When the first request fails, the button offers to save what is saved, and the click removes it.\<close>

lemma failed_load_inverts_click:
  assumes "learn_ok s" "bookmark_of (se_userId se) p s \<noteq> None"
    "result (bookmarks_POST (Some se) (Some (Some p)) i now) [] s = Inr (Reply 200 v)"
  shows "\<not> bb_bookmarked (load_turn se p [True] s)" "bb_bookmarked (fst (handleToggle True (load_turn se p [True] s)))"
    "\<not> bb_bookmarked (fst (click_turn se p (i, now, []) (load_turn se p [True] s, s)))"
proof -
  have l: "\<not> bb_bookmarked (load_turn se p [True] s)"
    by (simp add: load_turn_def bookmarks_GET_def result_def catch_def bind_def granted_def button_loaded_def)
  then show "\<not> bb_bookmarked (load_turn se p [True] s)" "bb_bookmarked (fst (handleToggle True (load_turn se p [True] s)))"
    by (simp_all add: handleToggle_def)
  have "\<not> v" using POST_honest [OF assms(1), of se p i now "[]"] assms(2,3) by simp
  then show "\<not> bb_bookmarked (fst (click_turn se p (i, now, []) (load_turn se p [True] s, s)))"
    using assms(3) by (simp add: click_turn_def handleToggle_def granted_def toggle_answered_def)
qed

subsection \<open>Progressive hints\<close>

text \<open>
  A set of JavaScript is the list of its elements in the order of insertion. What was stored may hold
  any integers; other elements of the stored array are dropped.
\<close>

type_synonym local_storage = "(string, string) jsmap"

definition STORAGE_PREFIX :: string where "STORAGE_PREFIX = ''leetrank.hints.revealed.''"

definition set_add :: "int \<Rightarrow> int list \<Rightarrow> int list" where
  "set_add i xs = (if i \<in> set xs then xs else xs @ [i])"

text \<open>\<open>parse\<close> gives the integers of an array, None for another value or text that does not parse.\<close>

definition loadRevealed :: "(string \<Rightarrow> int list option) \<Rightarrow> string \<Rightarrow> local_storage \<Rightarrow> int list" where
  "loadRevealed parse slug disk =
    (case jm_get disk (STORAGE_PREFIX @ slug) of
       None \<Rightarrow> []
     | Some raw \<Rightarrow> if raw = [] then [] else (case parse raw of None \<Rightarrow> [] | Some xs \<Rightarrow> fold set_add xs []))"

text \<open>\<open>writable\<close> says whether \<^verbatim>\<open>setItem\<close> succeeds.\<close>

definition saveRevealed :: "(int list \<Rightarrow> string) \<Rightarrow> string \<Rightarrow> int list \<Rightarrow> bool \<Rightarrow> local_storage \<Rightarrow> local_storage" where
  "saveRevealed stringify slug revealed writable disk =
    (if writable then jm_set (STORAGE_PREFIX @ slug) (stringify (sort revealed)) disk else disk)"

definition nextRevealableIndex :: "nat \<Rightarrow> int list \<Rightarrow> int" where
  "nextRevealableIndex n revealed = (case find (\<lambda>i. int i \<notin> set revealed) [0..<n] of Some i \<Rightarrow> int i | None \<Rightarrow> -1)"

text \<open>\<open>hn_request\<close> is the request under way: its index and the set when it was sent.\<close>

record hints_panel =
  hn_slug :: string
  hn_count :: nat
  hn_revealed :: "int list"
  hn_pending :: "int option"
  hn_submitting :: bool
  hn_error :: "string option"
  hn_request :: "(int \<times> int list) option"

definition hints_mounted :: "(string \<Rightarrow> int list option) \<Rightarrow> string \<Rightarrow> nat \<Rightarrow> local_storage \<Rightarrow> hints_panel" where
  "hints_mounted parse slug n disk =
    \<lparr>hn_slug = slug, hn_count = n, hn_revealed = loadRevealed parse slug disk, hn_pending = None, hn_submitting = False,
     hn_error = None, hn_request = None\<rparr>"

datatype hint_look = Open | Next | Locked

definition look_of :: "hints_panel \<Rightarrow> nat \<Rightarrow> hint_look" where
  "look_of h i =
    (if int i \<in> set (hn_revealed h) then Open
     else if int i = nextRevealableIndex (hn_count h) (hn_revealed h) then Next else Locked)"

text \<open>The button of the next hint, the closing of the dialog, its confirmation.\<close>

definition reveal_clicked :: "nat \<Rightarrow> hints_panel \<Rightarrow> hints_panel" where
  "reveal_clicked i h =
    (if i < hn_count h \<and> look_of h i = Next then h\<lparr>hn_pending := Some (int i), hn_error := None\<rparr> else h)"

definition dialog_closed :: "hints_panel \<Rightarrow> hints_panel" where
  "dialog_closed h = (if \<not> hn_submitting h then h\<lparr>hn_pending := None\<rparr> else h)"

definition reveal :: "(int list \<Rightarrow> string) \<Rightarrow> bool \<Rightarrow> int \<Rightarrow> int list \<Rightarrow> hints_panel \<times> local_storage \<Rightarrow> hints_panel \<times> local_storage" where
  "reveal stringify writable i revealed x =
    (case x of (h, disk) \<Rightarrow>
       (let nxt = set_add i revealed
        in (h\<lparr>hn_revealed := nxt, hn_pending := None\<rparr>, saveRevealed stringify (hn_slug h) nxt writable disk)))"

definition confirm_clicked ::
  "(int list \<Rightarrow> string) \<Rightarrow> bool \<Rightarrow> bool \<Rightarrow> hints_panel \<times> local_storage \<Rightarrow> hints_panel \<times> local_storage" where
  "confirm_clicked stringify isAuthenticated writable x =
    (case x of (h, disk) \<Rightarrow>
       (case hn_pending h of
          None \<Rightarrow> x
        | Some i \<Rightarrow>
            if hn_submitting h then x
            else if \<not> isAuthenticated then reveal stringify writable i (hn_revealed h) x
            else (h\<lparr>hn_submitting := True, hn_error := None, hn_request := Some (i, hn_revealed h)\<rparr>, disk)))"

text \<open>The answer: None for a request that fails, else its status and the message of its body.\<close>

definition unlock_answered ::
  "(int list \<Rightarrow> string) \<Rightarrow> bool \<Rightarrow> (nat \<times> string option) option \<Rightarrow> hints_panel \<times> local_storage \<Rightarrow> hints_panel \<times> local_storage" where
  "unlock_answered stringify writable answer x =
    (case hn_request (fst x) of
       None \<Rightarrow> x
     | Some (i, revealed) \<Rightarrow>
         (let done = (\<lambda>(h, disk). (h\<lparr>hn_submitting := False, hn_request := None\<rparr>, disk)); (h, disk) = x
          in case answer of
               None \<Rightarrow> done (h\<lparr>hn_error := Some ''Failed to fetch''\<rparr>, disk)
             | Some (status, msg) \<Rightarrow>
                 if \<not> (200 \<le> status \<and> status < 300) \<and> status \<noteq> 429
                 then done (h\<lparr>hn_error := Some (case msg of Some m \<Rightarrow> m | None \<Rightarrow> ''HTTP '' @ show_nat status)\<rparr>, disk)
                 else done (reveal stringify writable i revealed x)))"

text \<open>What happens to a panel, in any order.\<close>

datatype hint_event =
    RevealClick nat | CloseDialog | ConfirmClick bool bool | UnlockAnswer "(nat \<times> string option) option" bool | Reload

fun hint_step ::
  "(string \<Rightarrow> int list option) \<Rightarrow> (int list \<Rightarrow> string) \<Rightarrow> hint_event \<Rightarrow> hints_panel \<times> local_storage \<Rightarrow> hints_panel \<times> local_storage" where
  "hint_step parse str (RevealClick i) x = (reveal_clicked i (fst x), snd x)"
| "hint_step parse str CloseDialog x = (dialog_closed (fst x), snd x)"
| "hint_step parse str (ConfirmClick auth writable) x = confirm_clicked str auth writable x"
| "hint_step parse str (UnlockAnswer a writable) x = unlock_answered str writable a x"
| "hint_step parse str Reload x = (hints_mounted parse (hn_slug (fst x)) (hn_count (fst x)) (snd x), snd x)"

definition opened_upto :: "nat \<Rightarrow> int list \<Rightarrow> bool" where
  "opened_upto k xs \<longleftrightarrow> distinct xs \<and> set xs = int ` {..<k}"

lemma opened_set_add: "opened_upto k xs \<Longrightarrow> i \<le> k \<Longrightarrow> \<exists>j. opened_upto j (set_add (int i) xs) \<and> k \<le> j \<and> j \<le> max k (Suc i)"
proof (cases "i < k")
  case True
  assume "opened_upto k xs"
  then show ?thesis using True by (auto simp: opened_upto_def set_add_def intro!: exI [of _ k])
next
  case False
  assume "opened_upto k xs" "i \<le> k"
  then have "i = k" "int i \<notin> set xs" using False by (auto simp: opened_upto_def)
  then show ?thesis using \<open>opened_upto k xs\<close>
    by (auto simp: opened_upto_def set_add_def lessThan_Suc intro!: exI [of _ "Suc k"])
qed

lemma next_is_first_closed:
  assumes "opened_upto k xs" "k < n"
  shows "nextRevealableIndex n xs = int k"
proof -
  have "find (\<lambda>i. int i \<notin> set xs) [0..<n] = Some k"
    using assms by (auto simp: find_Some_iff opened_upto_def intro!: exI [of _ k])
  then show ?thesis by (simp add: nextRevealableIndex_def)
qed

lemma no_next: "opened_upto k xs \<Longrightarrow> n \<le> k \<Longrightarrow> nextRevealableIndex n xs = -1"
proof -
  assume "opened_upto k xs" "n \<le> k"
  then have "find (\<lambda>i. int i \<notin> set xs) [0..<n] = None" by (auto simp: opened_upto_def find_None_iff)
  then show ?thesis by (simp add: nextRevealableIndex_def)
qed

text \<open>
  The invariant: an initial stretch of the hints is open, what is pending or under way is at most the
  next one, and what is stored is a sorted initial stretch, no longer than what is open.
\<close>

definition stored_upto :: "(int list \<Rightarrow> string) \<Rightarrow> string \<Rightarrow> nat \<Rightarrow> local_storage \<Rightarrow> bool" where
  "stored_upto str slug k disk \<longleftrightarrow>
    jm_get disk (STORAGE_PREFIX @ slug) = None \<and> k = 0 \<or> jm_get disk (STORAGE_PREFIX @ slug) = Some (str (map int [0..<k]))"

definition hints_ok :: "(int list \<Rightarrow> string) \<Rightarrow> hints_panel \<times> local_storage \<Rightarrow> bool" where
  "hints_ok str x \<longleftrightarrow>
    (\<exists>k m. opened_upto k (hn_revealed (fst x)) \<and> k \<le> hn_count (fst x) \<and> stored_upto str (hn_slug (fst x)) m (snd x) \<and> m \<le> k \<and>
      (\<forall>i. hn_pending (fst x) = Some i \<longrightarrow> (\<exists>j. i = int j \<and> j \<le> k \<and> j < hn_count (fst x))) \<and>
      (hn_submitting (fst x) = (hn_request (fst x) \<noteq> None)) \<and>
      (\<forall>i revealed. hn_request (fst x) = Some (i, revealed) \<longrightarrow>
        (\<exists>j. i = int j \<and> j \<le> k \<and> j < hn_count (fst x)) \<and> revealed = hn_revealed (fst x)))"

lemma hints_okI:
  assumes "opened_upto k (hn_revealed h)" "k \<le> hn_count h" "stored_upto str (hn_slug h) m disk" "m \<le> k"
    "\<And>i. hn_pending h = Some i \<Longrightarrow> \<exists>j. i = int j \<and> j \<le> k \<and> j < hn_count h" "hn_submitting h = (hn_request h \<noteq> None)"
    "\<And>i revealed. hn_request h = Some (i, revealed) \<Longrightarrow> (\<exists>j. i = int j \<and> j \<le> k \<and> j < hn_count h) \<and> revealed = hn_revealed h"
  shows "hints_ok str (h, disk)"
  unfolding hints_ok_def fst_conv snd_conv using assms by blast

lemma opened_sorted: "opened_upto k xs \<Longrightarrow> sort xs = map int [0..<k]"
  by (rule sorted_distinct_set_unique) (auto simp: opened_upto_def distinct_map sorted_map)

lemma reveal_ok:
  assumes "opened_upto k (hn_revealed h)" "k \<le> hn_count h" "stored_upto str (hn_slug h) m disk" "m \<le> k" "j \<le> k" "j < hn_count h"
  shows "\<exists>h' disk'. reveal str writable (int j) (hn_revealed h) (h, disk) = (h', disk') \<and>
    hints_ok str (h'\<lparr>hn_submitting := False, hn_request := None\<rparr>, disk') \<and>
    hn_submitting h' = hn_submitting h \<and> hn_request h' = hn_request h"
proof -
  let ?xs = "set_add (int j) (hn_revealed h)"
  obtain k' where k': "opened_upto k' ?xs" "k \<le> k'" "k' \<le> max k (Suc j)" using opened_set_add [OF assms(1,5)] by blast
  then have le: "k' \<le> hn_count h" using assms(2,6) by simp
  have "\<exists>m'. stored_upto str (hn_slug h) m' (saveRevealed str (hn_slug h) ?xs writable disk) \<and> m' \<le> k'"
    using assms(3,4) k' by (cases writable) (auto simp: saveRevealed_def stored_upto_def opened_sorted jm_get_set)
  then show ?thesis
    using k'(1) le by (auto simp: reveal_def Let_def intro!: hints_okI)
qed

lemma loaded_list:
  assumes "\<And>xs. parse (str xs) = Some xs \<and> str xs \<noteq> []" "stored_upto str slug m disk"
  shows "loadRevealed parse slug disk = map int [0..<m]"
proof -
  have "fold set_add (map int [0..<m]) [] = map int [0..<m]" by (induction m) (auto simp: set_add_def)
  then show ?thesis using assms by (auto simp: loadRevealed_def stored_upto_def)
qed

lemma mounted_ok:
  assumes "\<And>xs. parse (str xs) = Some xs \<and> str xs \<noteq> []" "stored_upto str slug m disk" "m \<le> n"
  shows "hints_ok str (hints_mounted parse slug n disk, disk)"
proof -
  have "loadRevealed parse slug disk = map int [0..<m]" using assms(1,2) by (rule loaded_list)
  then have "opened_upto m (loadRevealed parse slug disk)" by (auto simp: opened_upto_def distinct_map)
  then show ?thesis using assms(2,3) by (intro hints_okI [of m _ _ m]) (simp_all add: hints_mounted_def)
qed

lemma hint_step_ok:
  assumes codec: "\<And>xs. parse (str xs) = Some xs \<and> str xs \<noteq> []" and ok: "hints_ok str x"
  shows "hints_ok str (hint_step parse str e x)"
proof -
  obtain h disk where x: "x = (h, disk)" by (metis prod.exhaust)
  obtain k m where km: "opened_upto k (hn_revealed h)" "k \<le> hn_count h" "stored_upto str (hn_slug h) m disk" "m \<le> k"
    "\<And>i. hn_pending h = Some i \<Longrightarrow> \<exists>j. i = int j \<and> j \<le> k \<and> j < hn_count h" "hn_submitting h = (hn_request h \<noteq> None)"
    "\<And>i revealed. hn_request h = Some (i, revealed) \<Longrightarrow> (\<exists>j. i = int j \<and> j \<le> k \<and> j < hn_count h) \<and> revealed = hn_revealed h"
    using ok unfolding hints_ok_def x fst_conv snd_conv by blast
  have stays: "hints_ok str (g, disk)" if "hn_revealed g = hn_revealed h" "hn_count g = hn_count h" "hn_slug g = hn_slug h"
    "\<And>i. hn_pending g = Some i \<Longrightarrow> \<exists>j. i = int j \<and> j \<le> k \<and> j < hn_count h" "hn_submitting g = (hn_request g \<noteq> None)"
    "\<And>i revealed. hn_request g = Some (i, revealed) \<Longrightarrow> (\<exists>j. i = int j \<and> j \<le> k \<and> j < hn_count h) \<and> revealed = hn_revealed h" for g
    by (rule hints_okI [of k g str m disk]) (use km(1-4) that in auto)
  show ?thesis
  proof (cases e)
    case (RevealClick i)
    have "i \<le> k" if "i < hn_count h" "look_of h i = Next"
      using that next_is_first_closed [OF km(1)] no_next [OF km(1)] by (cases "k < hn_count h") (auto simp: look_of_def split: if_splits)
    then show ?thesis using km(5-7) RevealClick ok by (auto simp: x reveal_clicked_def intro!: stays)
  next
    case CloseDialog
    then show ?thesis using km(6,7) ok by (auto simp: x dialog_closed_def intro!: stays)
  next
    case (ConfirmClick auth writable)
    show ?thesis
    proof (cases "hn_pending h = None \<or> hn_submitting h")
      case True
      then show ?thesis using ok ConfirmClick by (auto simp: x confirm_clicked_def split: option.split)
    next
      case False
      then obtain j where j: "hn_pending h = Some (int j)" "j \<le> k" "j < hn_count h" using km(5) by auto
      show ?thesis
      proof (cases auth)
        case True
        then show ?thesis using False j ConfirmClick
          by (auto simp: x confirm_clicked_def intro!: stays)
      next
        case False': False
        obtain h' disk' where r: "reveal str writable (int j) (hn_revealed h) (h, disk) = (h', disk')"
          "hints_ok str (h'\<lparr>hn_submitting := False, hn_request := None\<rparr>, disk')" "hn_submitting h' = hn_submitting h" "hn_request h' = hn_request h"
          using reveal_ok [OF km(1-4) j(2,3), of writable] by blast
        have "hn_request h' = None" "hn_submitting h' = False" using r(3,4) False km(6) by (cases "hn_request h"; simp)+
        then have "h'\<lparr>hn_submitting := False, hn_request := None\<rparr> = h'" by (cases h') simp
        then show ?thesis using r False False' j ConfirmClick by (simp add: x confirm_clicked_def)
      qed
    qed
  next
    case (UnlockAnswer a writable)
    show ?thesis
    proof (cases "hn_request h")
      case None
      then show ?thesis using ok UnlockAnswer by (simp add: x unlock_answered_def)
    next
      case (Some y)
      then obtain j where j: "hn_request h = Some (int j, hn_revealed h)" "j \<le> k" "j < hn_count h" using km(7) by (cases y) auto
      obtain h' disk' where r: "reveal str writable (int j) (hn_revealed h) (h, disk) = (h', disk')"
        "hints_ok str (h'\<lparr>hn_submitting := False, hn_request := None\<rparr>, disk')"
        using reveal_ok [OF km(1-4) j(2,3), of writable] by blast
      have stay: "hints_ok str (h\<lparr>hn_error := er, hn_submitting := False, hn_request := None\<rparr>, disk)" for er
        using km(5) by (intro stays) auto
      show ?thesis using r stay j(1) UnlockAnswer
        by (auto simp: x unlock_answered_def Let_def split: option.split)
    qed
  next
    case Reload
    then show ?thesis using mounted_ok [OF codec km(3)] km(2,4) by (simp add: x)
  qed
qed

text \<open>
  Hints open in order. When a browser that holds nothing for a problem shows its hints, then after
  any clicks, answers, failed writes and reloads the open hints are the first ones, the next of them is
  the only one that can be opened, all others are locked; and what a reload shows are again the first
  ones, and no more than are open now.
\<close>

theorem hints_open_in_order:
  fixes es :: "hint_event list" and n :: nat
  assumes "\<And>xs. parse (str xs) = Some xs \<and> str xs \<noteq> []" "jm_get disk (STORAGE_PREFIX @ slug) = None"
  defines "t \<equiv> fold (hint_step parse str) es (hints_mounted parse slug n disk, disk)"
  shows "\<exists>k \<le> n. set (hn_revealed (fst t)) = int ` {..<k} \<and>
    (\<forall>i < n. look_of (fst t) i = (if i < k then Open else if i = k then Next else Locked)) \<and>
    (\<exists>m \<le> k. set (loadRevealed parse slug (snd t)) = int ` {..<m})"
proof -
  have start: "hints_ok str (hints_mounted parse slug n disk, disk)"
    using assms(2) by (intro mounted_ok [OF assms(1), of _ 0]) (simp_all add: stored_upto_def)
  have same: "hn_count (fst (hint_step parse str e x)) = hn_count (fst x) \<and> hn_slug (fst (hint_step parse str e x)) = hn_slug (fst x)" for e x
    by (cases e; cases x) (auto simp: reveal_clicked_def dialog_closed_def confirm_clicked_def unlock_answered_def reveal_def
        hints_mounted_def Let_def split: option.splits)
  have "hints_ok str t \<and> hn_count (fst t) = n \<and> hn_slug (fst t) = slug" unfolding t_def
  proof (induction es rule: rev_induct)
    case Nil
    then show ?case using start by (simp add: hints_mounted_def)
  next
    case (snoc e es)
    then show ?case using hint_step_ok [OF assms(1)] same by simp
  qed
  then obtain k m where km: "opened_upto k (hn_revealed (fst t))" "k \<le> n" "stored_upto str slug m (snd t)" "m \<le> k"
    "hn_count (fst t) = n"
    unfolding hints_ok_def by blast
  have look: "look_of (fst t) i = (if i < k then Open else if i = k then Next else Locked)" if "i < n" for i
    using that km(1,2,5) next_is_first_closed [OF km(1), of n] no_next [OF km(1), of n]
    by (cases "k < n") (auto simp: look_of_def opened_upto_def)
  have "set (loadRevealed parse slug (snd t)) = int ` {..<m}"
    using loaded_list [OF assms(1) km(3)] by (simp add: atLeast0LessThan)
  then show ?thesis using km look unfolding opened_upto_def by blast
qed

text \<open>A codec for the example: each number in ones after its sign.\<close>

fun in_ones :: "int list \<Rightarrow> string" where
  "in_ones [] = []"
| "in_ones (i # xs) = (if i < 0 then CHR ''-'' else CHR ''+'') # replicate (nat \<bar>i\<bar>) (CHR ''1'') @ in_ones xs"

function from_ones :: "string \<Rightarrow> int list" where
  "from_ones [] = []"
| "from_ones (c # cs) =
    (let n = int (length (takeWhile (\<lambda>d. d = CHR ''1'') cs))
     in (if c = CHR ''-'' then - n else n) # from_ones (dropWhile (\<lambda>d. d = CHR ''1'') cs))"
  by pat_completeness auto
termination
  by (relation "measure length") (auto simp: length_dropWhile_le less_Suc_eq_le)

lemma from_in_ones: "from_ones (in_ones xs) = xs"
proof (induction xs)
  case (Cons i xs)
  have "takeWhile (\<lambda>d. d = CHR ''1'') (replicate n (CHR ''1'') @ in_ones xs) = replicate n (CHR ''1'') \<and>
      dropWhile (\<lambda>d. d = CHR ''1'') (replicate n (CHR ''1'') @ in_ones xs) = in_ones xs" for n
    by (cases xs) (simp_all add: takeWhile_append dropWhile_append)
  then show ?case using Cons by simp
qed simp

definition sample_parse :: "string \<Rightarrow> int list option" where
  "sample_parse s = (if s \<noteq> [] \<and> hd s = CHR ''['' then Some (from_ones (tl s)) else None)"

definition sample_text :: "int list \<Rightarrow> string" where
  "sample_text xs = CHR ''['' # in_ones xs"

lemma hints_open_in_order_witness:
  "\<exists>k \<le> 3. set (hn_revealed (fst (fold (hint_step sample_parse sample_text) [RevealClick 0, ConfirmClick True True, UnlockAnswer (Some (200, None)) True]
      (hints_mounted sample_parse ''two-sum'' 3 [], [])))) = int ` {..<k} \<and> k = 1"
proof -
  have codec: "\<And>xs. sample_parse (sample_text xs) = Some xs \<and> sample_text xs \<noteq> []"
    by (simp add: sample_parse_def sample_text_def from_in_ones)
  have n: "jm_get ([] :: local_storage) (STORAGE_PREFIX @ ''two-sum'') = None" by simp
  obtain k where k: "k \<le> 3" "set (hn_revealed (fst (fold (hint_step sample_parse sample_text)
      [RevealClick 0, ConfirmClick True True, UnlockAnswer (Some (200, None)) True]
      (hints_mounted sample_parse ''two-sum'' 3 [], [])))) = int ` {..<k}"
    using hints_open_in_order [OF codec n, where n = 3 and es = "[RevealClick 0, ConfirmClick True True, UnlockAnswer (Some (200, None)) True]"] by blast
  have "hn_revealed (fst (fold (hint_step sample_parse sample_text) [RevealClick 0, ConfirmClick True True, UnlockAnswer (Some (200, None)) True]
      (hints_mounted sample_parse ''two-sum'' 3 [], []))) = [0]" by code_simp
  then have "int ` {..<k} = {0}" using k(2) by simp
  then have "card (int ` {..<k}) = 1" by simp
  then have "k = 1" by (simp add: card_image)
  then show ?thesis using k by blast
qed

text \<open>
  An answer with status 429 opens the hint like a success, without an error: the comment speaks of a soft
  error and a retry.
\<close>

lemma refused_for_rate_opens_hint:
  assumes "hn_request h = Some (i, hn_revealed h)"
  shows "fst (unlock_answered str w (Some (429, msg)) (h, disk)) = fst (unlock_answered str w (Some (200, None)) (h, disk))"
    "i \<in> set (hn_revealed (fst (unlock_answered str w (Some (429, msg)) (h, disk))))"
  using assms by (simp_all add: unlock_answered_def reveal_def set_add_def Let_def)

subsection \<open>Toasts\<close>

datatype toast_variant = VDefault | VSuccess | VError | VInfo | VWarning

record toast_row =
  ts_id :: nat
  ts_title :: "string option"
  ts_description :: "string option"
  ts_variant :: toast_variant
  ts_duration :: int

text \<open>
  The list, and the timers of \<^verbatim>\<open>useAutoDismiss\<close>: its effect runs after every change of the list, clears all
  timers and sets one for each toast of the new list.
\<close>

record toaster =
  tst_toasts :: "toast_row list"
  tst_timers :: "(nat \<times> int) list"

definition useAutoDismiss :: "int \<Rightarrow> toaster \<Rightarrow> toaster" where
  "useAutoDismiss now s = s\<lparr>tst_timers := map (\<lambda>t. (ts_id t, now + ts_duration t)) (tst_toasts s)\<rparr>"

definition toast_push ::
  "nat \<Rightarrow> string option \<Rightarrow> string option \<Rightarrow> toast_variant option \<Rightarrow> int option \<Rightarrow> int \<Rightarrow> toaster \<Rightarrow> toaster" where
  "toast_push i title description variant duration now s =
    useAutoDismiss now (s\<lparr>tst_toasts := tst_toasts s @ [\<lparr>ts_id = i, ts_title = title, ts_description = description,
      ts_variant = (case variant of Some v \<Rightarrow> v | None \<Rightarrow> VDefault), ts_duration = (case duration of Some d \<Rightarrow> d | None \<Rightarrow> 4000)\<rparr>]\<rparr>)"

definition toast_dismiss :: "nat \<Rightarrow> int \<Rightarrow> toaster \<Rightarrow> toaster" where
  "toast_dismiss i now s = useAutoDismiss now (s\<lparr>tst_toasts := filter (\<lambda>t. ts_id t \<noteq> i) (tst_toasts s)\<rparr>)"

definition toast_clear :: "int \<Rightarrow> toaster \<Rightarrow> toaster" where
  "toast_clear now s = useAutoDismiss now (s\<lparr>tst_toasts := []\<rparr>)"

definition toast_show :: "toast_variant \<Rightarrow> nat \<Rightarrow> string \<Rightarrow> string option \<Rightarrow> int \<Rightarrow> toaster \<Rightarrow> toaster" where
  "toast_show v i title description now s = toast_push i (Some title) description (Some v) None now s"

text \<open>The first timer that is due at \<open>now\<close> runs.\<close>

definition timer_fires :: "int \<Rightarrow> toaster \<Rightarrow> toaster" where
  "timer_fires now s =
    (case find (\<lambda>(i, due). due \<le> now) (tst_timers s) of None \<Rightarrow> s | Some (i, due) \<Rightarrow> toast_dismiss i now s)"

definition no_toasts :: toaster where "no_toasts = \<lparr>tst_toasts = [], tst_timers = []\<rparr>"

text \<open>Each toast has a timer, so that no toast stays for want of one.\<close>

lemma every_toast_has_a_timer:
  "map fst (tst_timers (toast_push i ti de va du now s)) = map ts_id (tst_toasts (toast_push i ti de va du now s))"
  "map fst (tst_timers (toast_dismiss j now s)) = map ts_id (tst_toasts (toast_dismiss j now s))"
  "map fst (tst_timers (toast_clear now s)) = map ts_id (tst_toasts (toast_clear now s))"
  by (simp_all add: toast_push_def toast_dismiss_def toast_clear_def useAutoDismiss_def comp_def)

text \<open>
  Toasts that keep coming keep the old ones: with one every three seconds no timer ever becomes due,
  and all of them are on the screen.
\<close>

definition shown_every_3s :: "nat \<Rightarrow> toaster" where
  "shown_every_3s n = fold (\<lambda>k s. toast_show VInfo k ''t'' None (3000 * int k) (timer_fires (3000 * int k) s)) [0..<n] no_toasts"

lemma toasts_pile_up:
  "map ts_id (tst_toasts (shown_every_3s n)) = [0..<n] \<and>
   (\<forall>(i, due) \<in> set (tst_timers (shown_every_3s n)). due = 3000 * int n + 1000)"
proof (induction n)
  case (Suc n)
  have "find (\<lambda>(i, due). due \<le> 3000 * int n) (tst_timers (shown_every_3s n)) = None"
    using Suc by (auto simp: find_None_iff)
  then have f: "timer_fires (3000 * int n) (shown_every_3s n) = shown_every_3s n" by (simp add: timer_fires_def)
  have "shown_every_3s (Suc n) = toast_show VInfo n ''t'' None (3000 * int n) (shown_every_3s n)"
    using f by (simp add: shown_every_3s_def)
  moreover have "ts_duration t = 4000" if "t \<in> set (tst_toasts (shown_every_3s n))" for t n
    using that by (induction n)
      (auto simp: shown_every_3s_def no_toasts_def toast_show_def toast_push_def useAutoDismiss_def timer_fires_def toast_dismiss_def
        split: option.splits prod.splits)
  ultimately show ?case using Suc by (auto simp: toast_show_def toast_push_def useAutoDismiss_def)
qed (simp add: shown_every_3s_def no_toasts_def)

text \<open>Toasts shown at the same moment do not leave together: the first to leave starts the others anew.\<close>

lemma dismissal_restarts_the_others:
  "map ts_id (tst_toasts (timer_fires 4000 (toast_show VInfo 2 ''b'' None 0 (toast_show VInfo 1 ''a'' None 0 no_toasts)))) = [2]"
  "tst_timers (timer_fires 4000 (toast_show VInfo 2 ''b'' None 0 (toast_show VInfo 1 ''a'' None 0 no_toasts))) = [(2, 8000)]"
  by code_simp+

subsection \<open>Editor preferences\<close>

record editor_prefs =
  ep_vimMode :: bool
  ep_theme :: string
  ep_fontSize :: int
  ep_tabWidth :: int
  ep_wordWrap :: bool

definition EDITOR_PREFS_KEY :: string where "EDITOR_PREFS_KEY = ''leetrank.editor.prefs''"

definition DEFAULT_EDITOR_PREFS :: editor_prefs where
  "DEFAULT_EDITOR_PREFS = \<lparr>ep_vimMode = False, ep_theme = ''vs-dark'', ep_fontSize = 14, ep_tabWidth = 2, ep_wordWrap = False\<rparr>"

definition FONT_SIZE_MIN :: int where "FONT_SIZE_MIN = 12"
definition FONT_SIZE_MAX :: int where "FONT_SIZE_MAX = 22"

definition VALID_THEMES :: "string list" where "VALID_THEMES = [''vs-dark'', ''vs'', ''hc-black'']"

text \<open>
  A parsed value is None when it is no object, else its fields, by kind; numbers of JSON are finite.
\<close>

datatype pref_value = PBool bool | PNum real | PStr string | POther

type_synonym pref_fields = "(string, pref_value) jsmap"

definition normalizeEditorPrefs :: "pref_fields option \<Rightarrow> editor_prefs" where
  "normalizeEditorPrefs raw =
    (case raw of
       None \<Rightarrow> DEFAULT_EDITOR_PREFS
     | Some r \<Rightarrow>
         \<lparr>ep_vimMode = (jm_get r ''vimMode'' = Some (PBool True)),
          ep_theme = (case jm_get r ''theme'' of Some (PStr t) \<Rightarrow> if t \<in> set VALID_THEMES then t else ''vs-dark'' | _ \<Rightarrow> ''vs-dark''),
          ep_fontSize = (case jm_get r ''fontSize'' of
             Some (PNum x) \<Rightarrow> min FONT_SIZE_MAX (max FONT_SIZE_MIN \<lfloor>x + 1 / 2\<rfloor>) | _ \<Rightarrow> 14),
          ep_tabWidth = (if jm_get r ''tabWidth'' = Some (PNum 4) then 4 else 2),
          ep_wordWrap = (jm_get r ''wordWrap'' = Some (PBool True))\<rparr>)"

text \<open>The object that \<^verbatim>\<open>JSON.stringify\<close> writes.\<close>

definition pref_fields_of :: "editor_prefs \<Rightarrow> pref_fields" where
  "pref_fields_of p =
    [(''vimMode'', PBool (ep_vimMode p)), (''theme'', PStr (ep_theme p)), (''fontSize'', PNum (of_int (ep_fontSize p))),
     (''tabWidth'', PNum (of_int (ep_tabWidth p))), (''wordWrap'', PBool (ep_wordWrap p))]"

text \<open>\<open>parse\<close>: None where \<^verbatim>\<open>JSON.parse\<close> throws.\<close>

definition readEditorPrefs :: "(string \<Rightarrow> pref_fields option option) \<Rightarrow> local_storage \<Rightarrow> editor_prefs" where
  "readEditorPrefs parse disk =
    (case jm_get disk EDITOR_PREFS_KEY of
       None \<Rightarrow> DEFAULT_EDITOR_PREFS
     | Some raw \<Rightarrow> if raw = [] then DEFAULT_EDITOR_PREFS
                  else (case parse raw of None \<Rightarrow> DEFAULT_EDITOR_PREFS | Some x \<Rightarrow> normalizeEditorPrefs x))"

definition writeEditorPrefs :: "(pref_fields \<Rightarrow> string) \<Rightarrow> bool \<Rightarrow> editor_prefs \<Rightarrow> local_storage \<Rightarrow> local_storage" where
  "writeEditorPrefs stringify writable p disk =
    (if writable then jm_set EDITOR_PREFS_KEY (stringify (pref_fields_of p)) disk else disk)"

definition prefs_ok :: "editor_prefs \<Rightarrow> bool" where
  "prefs_ok p \<longleftrightarrow> ep_theme p \<in> set VALID_THEMES \<and> FONT_SIZE_MIN \<le> ep_fontSize p \<and> ep_fontSize p \<le> FONT_SIZE_MAX \<and> ep_tabWidth p \<in> {2, 4}"

lemma default_prefs_ok: "prefs_ok DEFAULT_EDITOR_PREFS"
  by (simp add: prefs_ok_def DEFAULT_EDITOR_PREFS_def VALID_THEMES_def FONT_SIZE_MIN_def FONT_SIZE_MAX_def)

lemma normalized_prefs_ok: "prefs_ok (normalizeEditorPrefs raw)"
proof (cases raw)
  case None
  then show ?thesis by (simp add: normalizeEditorPrefs_def default_prefs_ok)
next
  case (Some r)
  show ?thesis unfolding Some normalizeEditorPrefs_def prefs_ok_def
    by (auto simp: VALID_THEMES_def FONT_SIZE_MIN_def FONT_SIZE_MAX_def split: option.split pref_value.split)
qed

lemma read_prefs_ok: "prefs_ok (readEditorPrefs parse disk)"
  by (simp add: readEditorPrefs_def default_prefs_ok normalized_prefs_ok split: option.split)

lemma prefs_roundtrip: "prefs_ok p \<Longrightarrow> normalizeEditorPrefs (Some (pref_fields_of p)) = p"
proof -
  assume "prefs_ok p"
  moreover have "\<lfloor>real_of_int n + 1 / 2\<rfloor> = n" for n by linarith
  ultimately show ?thesis
    by (cases p) (auto simp: prefs_ok_def normalizeEditorPrefs_def pref_fields_of_def FONT_SIZE_MIN_def FONT_SIZE_MAX_def)
qed

text \<open>The hook: partial updates merge into what a tab has and are written; other tabs hear of the write.\<close>

record prefs_change =
  pc_vimMode :: "bool option"
  pc_theme :: "string option"
  pc_fontSize :: "int option"
  pc_tabWidth :: "int option"
  pc_wordWrap :: "bool option"

definition merged :: "editor_prefs \<Rightarrow> prefs_change \<Rightarrow> editor_prefs" where
  "merged p c =
    \<lparr>ep_vimMode = (case pc_vimMode c of Some x \<Rightarrow> x | None \<Rightarrow> ep_vimMode p),
     ep_theme = (case pc_theme c of Some x \<Rightarrow> x | None \<Rightarrow> ep_theme p),
     ep_fontSize = (case pc_fontSize c of Some x \<Rightarrow> x | None \<Rightarrow> ep_fontSize p),
     ep_tabWidth = (case pc_tabWidth c of Some x \<Rightarrow> x | None \<Rightarrow> ep_tabWidth p),
     ep_wordWrap = (case pc_wordWrap c of Some x \<Rightarrow> x | None \<Rightarrow> ep_wordWrap p)\<rparr>"

record prefs_tabs =
  pt_tabs :: "(nat, editor_prefs) jsmap"
  pt_disk :: local_storage

definition prefs_mount :: "(string \<Rightarrow> pref_fields option option) \<Rightarrow> nat \<Rightarrow> prefs_tabs \<Rightarrow> prefs_tabs" where
  "prefs_mount parse k s = s\<lparr>pt_tabs := jm_set k (readEditorPrefs parse (pt_disk s)) (pt_tabs s)\<rparr>"

definition setPrefs :: "(pref_fields \<Rightarrow> string) \<Rightarrow> bool \<Rightarrow> nat \<Rightarrow> prefs_change \<Rightarrow> prefs_tabs \<Rightarrow> prefs_tabs" where
  "setPrefs stringify writable k c s =
    (case jm_get (pt_tabs s) k of
       None \<Rightarrow> s
     | Some prev \<Rightarrow>
         (let m = merged prev c
          in s\<lparr>pt_tabs := jm_set k m (pt_tabs s), pt_disk := writeEditorPrefs stringify writable m (pt_disk s)\<rparr>))"

definition reset_prefs :: "(pref_fields \<Rightarrow> string) \<Rightarrow> bool \<Rightarrow> nat \<Rightarrow> prefs_tabs \<Rightarrow> prefs_tabs" where
  "reset_prefs stringify writable k s =
    s\<lparr>pt_tabs := jm_set k DEFAULT_EDITOR_PREFS (pt_tabs s),
      pt_disk := writeEditorPrefs stringify writable DEFAULT_EDITOR_PREFS (pt_disk s)\<rparr>"

definition onStorage :: "(string \<Rightarrow> pref_fields option option) \<Rightarrow> string \<Rightarrow> nat \<Rightarrow> prefs_tabs \<Rightarrow> prefs_tabs" where
  "onStorage parse key k s = (if key \<noteq> EDITOR_PREFS_KEY then s else prefs_mount parse k s)"

definition change_ok :: "prefs_change \<Rightarrow> bool" where
  "change_ok c \<longleftrightarrow> (\<forall>t. pc_theme c = Some t \<longrightarrow> t \<in> set VALID_THEMES) \<and>
    (\<forall>x. pc_fontSize c = Some x \<longrightarrow> FONT_SIZE_MIN \<le> x \<and> x \<le> FONT_SIZE_MAX) \<and> (\<forall>x. pc_tabWidth c = Some x \<longrightarrow> x \<in> {2, 4})"

lemma merged_ok: "prefs_ok p \<Longrightarrow> change_ok c \<Longrightarrow> prefs_ok (merged p c)"
  by (auto simp: prefs_ok_def change_ok_def merged_def split: option.split)

text \<open>
  A change within the bounds of the settings that is written arrives in every other tab as it is here.
\<close>

lemma tabs_agree_after_change:
  assumes "\<And>x. parse (stringify x) = Some (Some x) \<and> stringify x \<noteq> []" "jm_get (pt_tabs s) k = Some prev" "prefs_ok prev" "change_ok c"
  shows "jm_get (pt_tabs (onStorage parse EDITOR_PREFS_KEY j (setPrefs stringify True k c s))) j = Some (merged prev c)"
    "jm_get (pt_tabs (setPrefs stringify True k c s)) k = Some (merged prev c)"
  using assms prefs_roundtrip [OF merged_ok [OF assms(3,4)]]
  by (auto simp: onStorage_def prefs_mount_def setPrefs_def readEditorPrefs_def writeEditorPrefs_def Let_def jm_get_set)

end
