(* ===== verification/Json.thy ===== *)
theory Json
  imports JsText
begin

section \<open>JSON values\<close>

text \<open>
  What \<^verbatim>\<open>JSON.parse\<close> gives and \<^verbatim>\<open>JSON.stringify\<close> takes. The fields of an object are a map of theory
  Prelude, in the order of their insertion. \<open>spread\<close> is \<^verbatim>\<open>{ ...a, ...b }\<close>.
\<close>

datatype json =
    JNull
  | JBool bool
  | JNum real
  | JStr string
  | JArr "json list"
  | JObj "(string \<times> json) list"

type_synonym json_fields = "(string, json) jsmap"

definition spread :: "json_fields \<Rightarrow> json_fields \<Rightarrow> json_fields" where
  "spread a b = fold (\<lambda>(k, v) m. jm_set k v m) b a"

lemma spread_Nil [simp]: "spread a [] = a"
  by (simp add: spread_def)

lemma spread_Cons: "spread a ((k, v) # b) = spread (jm_set k v a) b"
  by (simp add: spread_def)

text \<open>In a spread the last object wins.\<close>

lemma jm_get_spread:
  "distinct (map fst b) \<Longrightarrow> jm_get (spread a b) k = (case jm_get b k of Some v \<Rightarrow> Some v | None \<Rightarrow> jm_get a k)"
proof (induction b arbitrary: a)
  case (Cons x b)
  obtain j v where x: "x = (j, v)" by (metis prod.exhaust)
  have "jm_get b j = None" if "j = k" using Cons.prems x by (induction b) auto
  then show ?case using Cons x by (auto simp: spread_Cons jm_get_set split: option.split)
qed simp

lemma spread_ok: "jm_ok a \<Longrightarrow> jm_ok (spread a b)"
proof (induction b arbitrary: a)
  case (Cons x b)
  then show ?case by (cases x) (simp add: spread_Cons jm_ok_set)
qed simp

definition text_or_null :: "string option \<Rightarrow> json" where
  "text_or_null x = (case x of Some t \<Rightarrow> JStr t | None \<Rightarrow> JNull)"

end
