(* ===== verification/Contracts.thy ===== *)
theory Contracts
  imports ApiServer Submissions Json
begin

section \<open>The contracts of the API\<close>

text \<open>
  \<^verbatim>\<open>packages/api-contracts/src/schemas.ts\<close>: zod's schemas as values of a small language with its meaning
  \<open>conforms\<close>, and the JSON bodies of the stand-alone server (theory ApiServer). The package promises that
  the two never drift apart. Ids and times appear in JSON as texts: \<open>idt\<close> and \<open>iso_text\<close> give them.
  Other fields than those of a schema are allowed, as in zod's plain objects.
\<close>

subsection \<open>Schemas\<close>

datatype number_check = AnyNumber | AnyInteger | NonnegativeInteger | PositiveInteger

datatype zod =
    ZString
  | ZNumber number_check
  | ZBoolean
  | ZEnum "string list"
  | ZNullable zod
  | ZArray zod
  | ZObject "(string \<times> bool \<times> zod) list"

fun number_ok :: "number_check \<Rightarrow> real \<Rightarrow> bool" where
  "number_ok AnyNumber x = True"
| "number_ok AnyInteger x = (x = of_int \<lfloor>x\<rfloor>)"
| "number_ok NonnegativeInteger x = (x = of_int \<lfloor>x\<rfloor> \<and> 0 \<le> x)"
| "number_ok PositiveInteger x = (x = of_int \<lfloor>x\<rfloor> \<and> 0 < x)"

definition has_type :: "zod \<Rightarrow> json \<Rightarrow> bool" where
  "has_type z v =
    (case (z, v) of
       (ZString, JStr s) \<Rightarrow> True
     | (ZNumber c, JNum x) \<Rightarrow> number_ok c x
     | (ZBoolean, JBool b) \<Rightarrow> True
     | (ZEnum vs, JStr s) \<Rightarrow> s \<in> set vs
     | _ \<Rightarrow> False)"

text \<open>A field is its key, whether it may be absent, and its schema.\<close>

fun conforms :: "zod \<Rightarrow> json \<Rightarrow> bool" where
  "conforms (ZNullable z) v = (v = JNull \<or> conforms z v)"
| "conforms (ZArray z) v = (case v of JArr xs \<Rightarrow> list_all (conforms z) xs | _ \<Rightarrow> False)"
| "conforms (ZObject fds) v =
    (case v of
       JObj fs \<Rightarrow> list_all (\<lambda>(k, optional, z). case jm_get fs k of None \<Rightarrow> optional | Some w \<Rightarrow> conforms z w) fds
     | _ \<Rightarrow> False)"
| "conforms z v = has_type z v"

abbreviation req :: "string \<Rightarrow> zod \<Rightarrow> string \<times> bool \<times> zod" where "req k z \<equiv> (k, False, z)"
abbreviation opt :: "string \<Rightarrow> zod \<Rightarrow> string \<times> bool \<times> zod" where "opt k z \<equiv> (k, True, z)"

text \<open>\<^verbatim>\<open>extend\<close> and \<^verbatim>\<open>pick\<close>.\<close>

fun extend :: "zod \<Rightarrow> (string \<times> bool \<times> zod) list \<Rightarrow> zod" where
  "extend (ZObject fds) more_fields = ZObject (fds @ more_fields)"
| "extend z more_fields = z"

fun pick :: "string list \<Rightarrow> zod \<Rightarrow> zod" where
  "pick ks (ZObject fds) = ZObject (filter (\<lambda>f. fst f \<in> set ks) fds)"
| "pick ks z = z"

definition z_difficulty :: zod where "z_difficulty = ZEnum [''easy'', ''medium'', ''hard'']"
definition z_role :: zod where "z_role = ZEnum [''user'', ''admin'']"
definition z_contestStatus :: zod where "z_contestStatus = ZEnum [''upcoming'', ''active'', ''ended'']"

definition submissionStatusValues :: "string list" where
  "submissionStatusValues = [''accepted'', ''wrong_answer'', ''runtime_error'', ''time_limit_exceeded'']"

definition languageValues :: "string list" where
  "languageValues = [''python'', ''javascript'', ''typescript'', ''ruby'', ''php'', ''bash'',
     ''go'', ''rust'', ''c'', ''cpp'', ''java'', ''kotlin'', ''csharp'', ''swift'', ''sql'']"

definition publicUserSchema :: zod where
  "publicUserSchema = ZObject [req ''id'' ZString, req ''username'' ZString, req ''avatar'' (ZNullable ZString),
     opt ''bio'' (ZNullable ZString), req ''createdAt'' ZString]"

definition tagSchema :: zod where
  "tagSchema = ZObject [req ''id'' ZString, req ''name'' ZString, req ''slug'' ZString]"

definition problemSummarySchema :: zod where
  "problemSummarySchema = ZObject [req ''id'' ZString, req ''title'' ZString, req ''slug'' ZString, req ''difficulty'' z_difficulty]"

definition leaderboardEntrySchema :: zod where
  "leaderboardEntrySchema = ZObject [req ''rank'' (ZNumber PositiveInteger),
     req ''user'' (pick [''id'', ''username'', ''avatar''] publicUserSchema), req ''solved'' (ZNumber NonnegativeInteger)]"

definition leaderboardTopResponseSchema :: zod where
  "leaderboardTopResponseSchema = ZObject [req ''leaderboard'' (ZArray leaderboardEntrySchema)]"

definition tagsResponseSchema :: zod where
  "tagsResponseSchema = ZObject [req ''tags'' (ZArray tagSchema)]"

definition errorResponseSchema :: zod where
  "errorResponseSchema = ZObject [req ''error'' ZString]"

definition healthResponseSchema :: zod where
  "healthResponseSchema = ZObject [req ''status'' (ZEnum [''ok'', ''degraded'', ''down'']), opt ''service'' ZString, req ''timestamp'' ZString]"

definition problemListItemSchema :: zod where
  "problemListItemSchema = ZObject [req ''id'' ZString, req ''title'' ZString, req ''slug'' ZString, req ''difficulty'' z_difficulty,
     req ''tags'' (ZArray tagSchema), req ''submissionCount'' (ZNumber NonnegativeInteger)]"

definition problemListResponseSchema :: zod where
  "problemListResponseSchema = ZObject [req ''problems'' (ZArray problemListItemSchema), req ''total'' (ZNumber NonnegativeInteger),
     req ''page'' (ZNumber PositiveInteger), req ''limit'' (ZNumber PositiveInteger)]"

definition testCaseSchema :: zod where
  "testCaseSchema = ZObject [req ''id'' ZString, req ''input'' ZString, req ''expected'' ZString, req ''isHidden'' ZBoolean,
     req ''order'' (ZNumber AnyInteger)]"

definition problemDetailSchema :: zod where
  "problemDetailSchema = ZObject [req ''id'' ZString, req ''title'' ZString, req ''slug'' ZString, req ''description'' ZString,
     req ''difficulty'' z_difficulty, req ''constraints'' (ZNullable ZString), req ''hints'' (ZNullable ZString),
     req ''editorial'' (ZNullable ZString), req ''starterCode'' (ZNullable ZString), req ''tags'' (ZArray tagSchema),
     req ''testCases'' (ZArray testCaseSchema)]"

definition problemDetailResponseSchema :: zod where
  "problemDetailResponseSchema = ZObject [req ''problem'' problemDetailSchema]"

definition trendingProblemSchema :: zod where
  "trendingProblemSchema = ZObject [req ''id'' ZString, req ''title'' ZString, req ''slug'' ZString, req ''difficulty'' z_difficulty,
     req ''recentAccepted'' (ZNumber NonnegativeInteger)]"

definition trendingResponseSchema :: zod where
  "trendingResponseSchema = ZObject [req ''problems'' (ZArray trendingProblemSchema)]"

definition randomProblemResponseSchema :: zod where
  "randomProblemResponseSchema = ZObject [req ''problem'' problemSummarySchema]"

definition contestSchema :: zod where
  "contestSchema = ZObject [req ''id'' ZString, req ''slug'' ZString, req ''title'' ZString, req ''description'' (ZNullable ZString),
     req ''startTime'' ZString, req ''endTime'' ZString, req ''status'' z_contestStatus]"

definition contestsListResponseSchema :: zod where
  "contestsListResponseSchema = ZObject [req ''contests'' (ZArray contestSchema)]"

definition contestWithCountsSchema :: zod where
  "contestWithCountsSchema = extend contestSchema
     [req ''_count'' (ZObject [opt ''entries'' (ZNumber AnyNumber), req ''problems'' (ZNumber AnyNumber)])]"

definition contestsWithCountsResponseSchema :: zod where
  "contestsWithCountsResponseSchema = ZObject [req ''contests'' (ZArray contestWithCountsSchema)]"

definition contestProblemEntrySchema :: zod where
  "contestProblemEntrySchema = ZObject [req ''id'' ZString, req ''title'' ZString, req ''slug'' ZString, req ''difficulty'' z_difficulty,
     req ''points'' (ZNumber AnyInteger), req ''order'' (ZNumber AnyInteger), req ''tags'' (ZArray tagSchema)]"

definition contestDetailSchema :: zod where
  "contestDetailSchema = extend contestSchema [req ''problems'' (ZArray contestProblemEntrySchema)]"

definition contestDetailResponseSchema :: zod where
  "contestDetailResponseSchema = ZObject [req ''contest'' contestDetailSchema]"

definition tagProblemSummarySchema :: zod where
  "tagProblemSummarySchema = ZObject [req ''id'' ZString, req ''title'' ZString, req ''slug'' ZString, req ''difficulty'' z_difficulty,
     req ''_count'' (ZObject [req ''submissions'' (ZNumber NonnegativeInteger)])]"

definition tagDetailResponseSchema :: zod where
  "tagDetailResponseSchema = ZObject [req ''tag'' tagSchema, req ''problems'' (ZArray tagProblemSummarySchema),
     req ''total'' (ZNumber NonnegativeInteger), req ''page'' (ZNumber PositiveInteger), req ''limit'' (ZNumber PositiveInteger)]"

definition statsResponseSchema :: zod where
  "statsResponseSchema = ZObject [req ''problems'' (ZNumber NonnegativeInteger), req ''contests'' (ZNumber NonnegativeInteger),
     req ''users'' (ZNumber NonnegativeInteger), req ''accepted'' (ZNumber NonnegativeInteger)]"

subsection \<open>The bodies of the replies\<close>

abbreviation int_json :: "int \<Rightarrow> json" where "int_json n \<equiv> JNum (of_int n)"
abbreviation nat_json :: "nat \<Rightarrow> json" where "nat_json n \<equiv> JNum (of_nat n)"

definition tag_json :: "(nat \<Rightarrow> string) \<Rightarrow> tag_line \<Rightarrow> json" where
  "tag_json idt t = JObj [(''id'', JStr (idt (tl_id t))), (''name'', JStr (tl_name t)), (''slug'', JStr (tl_slug t))]"

definition line_fields :: "(nat \<Rightarrow> string) \<Rightarrow> 'a problem_line_scheme \<Rightarrow> json_fields" where
  "line_fields idt p = [(''id'', JStr (idt (pr_id p))), (''title'', JStr (pr_title p)), (''slug'', JStr (pr_slug p)),
     (''difficulty'', JStr (pr_difficulty p))]"

definition problems_body :: "(nat \<Rightarrow> string) \<Rightarrow> list_result \<Rightarrow> json" where
  "problems_body idt r = JObj
     [(''problems'', JArr (map (\<lambda>p. JObj (line_fields idt p @
         [(''tags'', JArr (map (tag_json idt) (pr_tags p))), (''submissionCount'', nat_json (pr_submissionCount p))])) (ls_problems r))),
      (''total'', nat_json (ls_total r)), (''page'', int_json (ls_page r)), (''limit'', int_json (ls_limit r))]"

definition test_json :: "(nat \<Rightarrow> string) \<Rightarrow> problem_test \<Rightarrow> json" where
  "test_json idt t = JObj [(''id'', JStr (idt (pt_id t))), (''problemId'', JStr (idt (pt_problem t))), (''input'', JStr (pt_input t)),
     (''expected'', JStr (pt_expected t)), (''isHidden'', JBool (pt_hidden t)), (''order'', int_json (pt_order t))]"

definition problem_body :: "(nat \<Rightarrow> string) \<Rightarrow> api_problem \<Rightarrow> json" where
  "problem_body idt p = (let r = ap_row p in JObj [(''problem'', JObj
     [(''id'', JStr (idt (pm_id r))), (''title'', JStr (pm_title r)), (''slug'', JStr (pm_slug r)), (''description'', JStr (pm_description r)),
      (''difficulty'', JStr (pm_difficulty r)), (''constraints'', text_or_null (pm_constraints r)), (''hints'', text_or_null (pm_hints r)),
      (''editorial'', text_or_null (pm_editorial r)), (''starterCode'', text_or_null (pm_starterCode r)),
      (''tags'', JArr (map (tag_json idt) (ap_tags p))), (''testCases'', JArr (map (test_json idt) (ap_testCases p)))])])"

definition trending_body :: "(nat \<Rightarrow> string) \<Rightarrow> trending_problem list \<Rightarrow> json" where
  "trending_body idt ps = JObj [(''problems'', JArr (map (\<lambda>p. JObj (line_fields idt p @
     [(''recentAccepted'', nat_json (pr_recentAccepted p))])) ps))]"

definition random_body :: "(nat \<Rightarrow> string) \<Rightarrow> problem_line \<Rightarrow> json" where
  "random_body idt p = JObj [(''problem'', JObj (line_fields idt p))]"

definition leaderboard_body :: "(nat \<Rightarrow> string) \<Rightarrow> top_entry list \<Rightarrow> json" where
  "leaderboard_body idt es = JObj [(''leaderboard'', JArr (map (\<lambda>e. JObj [(''rank'', nat_json (te_rank e)),
     (''user'', JObj [(''id'', JStr (idt (pe_id (te_user e)))), (''username'', JStr (pe_username (te_user e))),
        (''avatar'', text_or_null (pe_avatar (te_user e)))]), (''solved'', nat_json (te_solved e))]) es))]"

definition tags_body :: "(nat \<Rightarrow> string) \<Rightarrow> tag_row list \<Rightarrow> json" where
  "tags_body idt ts = JObj [(''tags'', JArr (map (\<lambda>t. JObj [(''id'', JStr (idt (tg_id t))), (''name'', JStr (tg_name t)),
     (''slug'', JStr (tg_slug t)), (''category'', JStr (tg_category t))]) ts))]"

definition tag_page_body :: "(nat \<Rightarrow> string) \<Rightarrow> api_tag_page \<Rightarrow> json" where
  "tag_page_body idt r = JObj
     [(''tag'', tag_json idt (at_tag r)),
      (''problems'', JArr (map (\<lambda>(p, ts). JObj (line_fields idt p @ [(''tags'', JArr (map (tag_json idt) ts))])) (at_problems r))),
      (''total'', nat_json (at_total r)), (''page'', int_json (at_page r)), (''limit'', int_json (at_limit r))]"

definition contest_fields :: "(nat \<Rightarrow> string) \<Rightarrow> (int \<Rightarrow> string) \<Rightarrow> contest_info \<Rightarrow> json_fields" where
  "contest_fields idt iso_text c =
     [(''id'', JStr (idt (ci_id c))), (''title'', JStr (ci_title c)), (''slug'', JStr (ci_slug c)), (''description'', text_or_null (ci_description c)),
      (''startTime'', JStr (iso_text (ci_startTime c))), (''endTime'', JStr (iso_text (ci_endTime c))), (''status'', JStr (ci_status c)),
      (''createdAt'', JStr (iso_text (ci_createdAt c)))]"

definition contests_body :: "(nat \<Rightarrow> string) \<Rightarrow> (int \<Rightarrow> string) \<Rightarrow> contest_info list \<Rightarrow> json" where
  "contests_body idt iso_text cs = JObj [(''contests'', JArr (map (\<lambda>c. JObj (contest_fields idt iso_text c)) cs))]"

definition active_body :: "(nat \<Rightarrow> string) \<Rightarrow> (int \<Rightarrow> string) \<Rightarrow> (contest_info \<times> nat \<times> nat) list \<Rightarrow> json" where
  "active_body idt iso_text cs = JObj [(''contests'', JArr (map (\<lambda>(c, entries, problems). JObj (contest_fields idt iso_text c @
     [(''_count'', JObj [(''entries'', nat_json entries), (''problems'', nat_json problems)])])) cs))]"

definition upcoming_body :: "(nat \<Rightarrow> string) \<Rightarrow> (int \<Rightarrow> string) \<Rightarrow> (contest_info \<times> nat) list \<Rightarrow> json" where
  "upcoming_body idt iso_text cs = JObj [(''contests'', JArr (map (\<lambda>(c, problems). JObj (contest_fields idt iso_text c @
     [(''_count'', JObj [(''problems'', nat_json problems)])])) cs))]"

definition contest_body :: "(nat \<Rightarrow> string) \<Rightarrow> (int \<Rightarrow> string) \<Rightarrow> contest_page \<Rightarrow> json" where
  "contest_body idt iso_text c = JObj [(''contest'', JObj
     [(''id'', JStr (idt (cg_id c))), (''title'', JStr (cg_title c)), (''slug'', JStr (cg_slug c)), (''description'', text_or_null (cg_description c)),
      (''startTime'', JStr (iso_text (cg_startTime c))), (''endTime'', JStr (iso_text (cg_endTime c))), (''status'', JStr (cg_status c)),
      (''problems'', JArr (map (\<lambda>g. JObj (line_fields idt (gp_problem g) @ [(''points'', int_json (gp_points g)),
         (''order'', int_json (gp_order g)), (''tags'', JArr (map (tag_json idt) (gp_tags g)))])) (cg_problems c)))])]"

definition stats_body :: "nat \<times> nat \<times> nat \<times> nat \<Rightarrow> json" where
  "stats_body x = (case x of (problems, contests, users, accepted) \<Rightarrow>
     JObj [(''problems'', nat_json problems), (''contests'', nat_json contests), (''users'', nat_json users), (''accepted'', nat_json accepted)])"

definition health_json :: "string \<Rightarrow> real \<Rightarrow> health_body \<Rightarrow> json" where
  "health_json timestamp uptime h = JObj
     [(''status'', JStr (hb_status h)), (''service'', JStr ''leetrank-api''), (''uptimeSeconds'', JNum uptime), (''version'', JStr ''0.1.0''),
      (''timestamp'', JStr timestamp),
      (''services'', JObj [(''database'', JObj ((''status'', JStr (hb_status h)) #
         (if hb_status h = ''ok'' then (case hb_latencyMs h of Some n \<Rightarrow> [(''latencyMs'', int_json n)] | None \<Rightarrow> [])
          else (case hb_error h of Some e \<Rightarrow> [(''error'', JStr e)] | None \<Rightarrow> []))))])]"

definition error_json :: "string \<Rightarrow> json" where
  "error_json msg = JObj [(''error'', JStr msg)]"

text \<open>A reply meets a contract when its body is of the schema, that of an error of the schema for errors.\<close>

definition meets :: "zod \<Rightarrow> ('a \<Rightarrow> json) \<Rightarrow> 'e + 'a reply \<Rightarrow> bool" where
  "meets z body r =
    (case r of
       Inr (Reply status x) \<Rightarrow> conforms z (body x)
     | Inr (Failed status msg) \<Rightarrow> conforms errorResponseSchema (error_json msg)
     | Inl _ \<Rightarrow> False)"

subsection \<open>Which rows conform\<close>

lemma error_conforms: "conforms errorResponseSchema (error_json msg)"
  by (simp add: errorResponseSchema_def error_json_def has_type_def)

lemma text_or_null_conforms: "text_or_null x = JNull \<or> has_type ZString (text_or_null x)"
  by (cases x) (simp_all add: text_or_null_def has_type_def)

lemma numbers_ok [simp]: "number_ok NonnegativeInteger (real n)" "number_ok AnyInteger (real_of_int i)"
  "0 < i \<Longrightarrow> number_ok PositiveInteger (real_of_int i)" "0 < n \<Longrightarrow> number_ok PositiveInteger (real n)"
  by (simp_all add: of_nat_floor)

lemma tag_conforms: "conforms tagSchema (tag_json idt t)"
  by (simp add: tagSchema_def tag_json_def has_type_def)

definition level_ok :: "string \<Rightarrow> bool" where "level_ok d \<longleftrightarrow> d \<in> {''easy'', ''medium'', ''hard''}"
definition status_ok :: "string \<Rightarrow> bool" where "status_ok d \<longleftrightarrow> d \<in> {''upcoming'', ''active'', ''ended''}"

lemma line_get [simp]:
  "jm_get (line_fields idt p @ fs) ''id'' = Some (JStr (idt (pr_id p)))" "jm_get (line_fields idt p @ fs) ''title'' = Some (JStr (pr_title p))"
  "jm_get (line_fields idt p @ fs) ''slug'' = Some (JStr (pr_slug p))" "jm_get (line_fields idt p @ fs) ''difficulty'' = Some (JStr (pr_difficulty p))"
  "k \<notin> {''id'', ''title'', ''slug'', ''difficulty''} \<Longrightarrow> jm_get (line_fields idt p @ fs) k = jm_get fs k"
  by (auto simp: line_fields_def)

lemma types [simp]: "has_type ZString (JStr x)" "has_type ZBoolean (JBool b)" "has_type (ZNumber c) (JNum r) = number_ok c r"
  "has_type z_difficulty (JStr x) = level_ok x" "has_type z_contestStatus (JStr x) = status_ok x"
  "conforms z_difficulty v = has_type z_difficulty v" "conforms z_contestStatus v = has_type z_contestStatus v"
  by (auto simp: has_type_def z_difficulty_def z_contestStatus_def level_ok_def status_ok_def)

lemma conforms_objects: "conforms (ZArray z) (JArr (map f xs)) = list_all (\<lambda>x. conforms z (f x)) xs"
  by (simp add: list.pred_map comp_def)

lemma line_conforms: "level_ok (pr_difficulty p) \<Longrightarrow> conforms problemSummarySchema (JObj (line_fields idt p))"
  using line_get [where idt = idt and p = p and fs = "[]"] by (simp add: problemSummarySchema_def)

lemmas schemas = problemListItemSchema_def testCaseSchema_def trendingProblemSchema_def leaderboardEntrySchema_def publicUserSchema_def
  contestSchema_def contestWithCountsSchema_def contestProblemEntrySchema_def contestDetailSchema_def

lemma tags_conform: "conforms (ZArray tagSchema) (JArr (map (tag_json idt) ts))"
  unfolding conforms_objects by (simp add: tag_conforms list_all_length)

lemma listed_conforms:
  "level_ok (pr_difficulty p) \<Longrightarrow> conforms problemListItemSchema (JObj (line_fields idt p @
     [(''tags'', JArr (map (tag_json idt) ts)), (''submissionCount'', nat_json n)]))"
  using tags_conform [of idt ts] by (simp add: schemas del: conforms.simps(2) number_ok.simps)

lemma trending_conforms:
  "level_ok (pr_difficulty p) \<Longrightarrow> conforms trendingProblemSchema (JObj (line_fields idt p @ [(''recentAccepted'', nat_json n)]))"
  by (simp add: schemas del: number_ok.simps)

lemma entry_conforms:
  "level_ok (pr_difficulty p) \<Longrightarrow> conforms contestProblemEntrySchema (JObj (line_fields idt p @
     [(''points'', int_json i), (''order'', int_json j), (''tags'', JArr (map (tag_json idt) ts))]))"
  using tags_conform [of idt ts] by (simp add: schemas del: conforms.simps(2) number_ok.simps)

lemma test_conforms: "conforms testCaseSchema (test_json idt t)"
  by (simp add: schemas test_json_def del: number_ok.simps)

lemma leader_conforms:
  "0 < te_rank e \<Longrightarrow> conforms leaderboardEntrySchema (JObj [(''rank'', nat_json (te_rank e)),
     (''user'', JObj [(''id'', JStr (idt (pe_id (te_user e)))), (''username'', JStr (pe_username (te_user e))),
        (''avatar'', text_or_null (pe_avatar (te_user e)))]), (''solved'', nat_json (te_solved e))])"
  using text_or_null_conforms [of "pe_avatar (te_user e)"] by (simp add: schemas of_nat_floor)

lemma contest_conforms:
  "status_ok (ci_status c) \<Longrightarrow> conforms contestSchema (JObj (contest_fields idt iso_text c))"
  "status_ok (ci_status c) \<Longrightarrow> conforms contestWithCountsSchema (JObj (contest_fields idt iso_text c @
     [(''_count'', JObj [(''entries'', nat_json n), (''problems'', nat_json m)])]))"
  "status_ok (ci_status c) \<Longrightarrow> conforms contestWithCountsSchema (JObj (contest_fields idt iso_text c @
     [(''_count'', JObj [(''problems'', nat_json m)])]))"
  using text_or_null_conforms [of "ci_description c"] by (simp_all add: schemas contest_fields_def)

subsection \<open>Which replies conform\<close>

definition levels_ok :: "cat_db \<Rightarrow> bool" where
  "levels_ok db \<longleftrightarrow> (\<forall>p \<in> set (ct_problems db). level_ok (pm_difficulty p))"

definition statuses_ok :: "pages_db \<Rightarrow> bool" where
  "statuses_ok db \<longleftrightarrow> (\<forall>c \<in> set (cd_contests db). status_ok (ci_status c)) \<and> levels_ok (cd_catalogue db)"

lemma in_page: "x \<in> set (page_of page limit xs) \<Longrightarrow> x \<in> set xs"
  unfolding page_of_def by (meson in_set_dropD in_set_takeD)

lemmas reply_simps = meets_def result_def catch_def bind_def query_hd Let_def error_conforms

lemma problems_meet: "levels_ok db \<Longrightarrow> meets problemListResponseSchema (problems_body idt) (result (problemsListHandler d t q rp rl) fs db)"
proof -
  assume ok: "levels_ok db"
  have pos: "0 < page_param rp" "0 < limit_param 50 50 rl" using page_param_pos [of rp] limit_param_bounds [of 50 50 rl] by linarith+
  have "conforms (ZArray problemListItemSchema) (JArr (map (\<lambda>p. JObj (line_fields idt p @
      [(''tags'', JArr (map (tag_json idt) (pr_tags p))), (''submissionCount'', nat_json (pr_submissionCount p))]))
      (map (listed_problem_of db) (page_of (page_param rp) (limit_param 50 50 rl) (sort_by by_order (filter (api_where d t q db) (ct_problems db)))))))"
    unfolding conforms_objects list_all_iff
  proof (intro ballI listed_conforms)
    fix x assume "x \<in> set (map (listed_problem_of db) (page_of (page_param rp) (limit_param 50 50 rl) (sort_by by_order (filter (api_where d t q db) (ct_problems db)))))"
    then have "x \<in> listed_problem_of db ` set (ct_problems db)" by (auto dest!: in_page)
    then obtain p where "p \<in> set (ct_problems db)" "x = listed_problem_of db p" by blast
    then show "level_ok (pr_difficulty x)" using ok by (simp add: levels_ok_def listed_problem_of_def)
  qed
  note items = this
  show ?thesis
    using items pos by (simp add: reply_simps problemsListHandler_def problems_body_def problemListResponseSchema_def del: conforms.simps(2) number_ok.simps)
qed

lemma problem_meets: "levels_ok db \<Longrightarrow> meets problemDetailResponseSchema (problem_body idt) (result (problemDetailHandler slug) fs db)"
proof -
  assume ok: "levels_ok db"
  have body: "conforms problemDetailResponseSchema (problem_body idt \<lparr>ap_row = p, ap_tags = ts, ap_testCases = cs\<rparr>)"
    if "level_ok (pm_difficulty p)" for p ts cs
  proof -
    have "conforms (ZArray testCaseSchema) (JArr (map (test_json idt) cs))"
      unfolding conforms_objects by (simp add: list_all_iff test_conforms)
    then show ?thesis
      using that tags_conform [of idt ts] text_or_null_conforms
      by (simp add: problemDetailResponseSchema_def problemDetailSchema_def problem_body_def Let_def del: conforms.simps(2))
  qed
  have "level_ok (pm_difficulty p)" if "problem_by_slug slug db = Some p" for p
    using that ok find_by_in unfolding problem_by_slug_def levels_ok_def by fastforce
  then show ?thesis using body by (auto simp: reply_simps problemDetailHandler_def split: option.split)
qed

lemma trending_meets: "levels_ok db \<Longrightarrow> meets trendingResponseSchema (trending_body idt) (result (trendingHandler rl now) fs db)"
proof -
  assume ok: "levels_ok db"
  have body: "conforms trendingResponseSchema (trending_body idt ps)" if "\<forall>p \<in> set ps. level_ok (pr_difficulty p)" for ps
    using that by (auto simp: trendingResponseSchema_def trending_body_def list_all_iff trending_conforms)
  have "level_ok (pr_difficulty x)" if "x \<in> set (List.map_filter (trending_of (filter P (ct_problems db))) gs)" for x P gs
    using that ok find_by_in by (fastforce simp: List.map_filter_def trending_of_def levels_ok_def)
  then show ?thesis using body by (auto simp: reply_simps trendingHandler_def)
qed

lemma random_meets: "levels_ok db \<Longrightarrow> meets randomProblemResponseSchema (random_body idt) (result (randomHandler d rnd) fs db)"
proof -
  assume ok: "levels_ok db"
  have body: "conforms randomProblemResponseSchema (random_body idt (line_of p))" if "p \<in> set (ct_problems db)" for p
    using that ok line_conforms [of "line_of p" idt] by (auto simp: randomProblemResponseSchema_def random_body_def levels_ok_def line_of_def)
  have found: "p \<in> set (ct_problems db)" if "take (Suc 0) (drop k (filter P (ct_problems db))) = p # r" for k P p r
  proof -
    have "p \<in> set (take (Suc 0) (drop k (filter P (ct_problems db))))" using that by simp
    then have "p \<in> set (filter P (ct_problems db))" by (blast dest: in_set_takeD in_set_dropD)
    then show ?thesis by simp
  qed
  show ?thesis by (simp add: reply_simps randomHandler_def split: list.split) (blast intro: body dest: found)
qed

lemma leaderboard_meets: "meets leaderboardTopResponseSchema (leaderboard_body idt) (result leaderboardTopHandler fs pdb)"
proof -
  have body: "conforms leaderboardTopResponseSchema (leaderboard_body idt es)" if "\<forall>e \<in> set es. 0 < te_rank e" for es
    unfolding leaderboardTopResponseSchema_def leaderboard_body_def using that
    by (simp add: list_all_iff) (blast intro: leader_conforms)
  have "0 < te_rank e" if "e \<in> set (top_entries users m ids)" for e users m ids
    using that by (auto simp: top_entries_def List.map_filter_def)
  then show ?thesis using body by (auto simp: reply_simps leaderboardTopHandler_def api_computeTop_def split: if_splits)
qed

lemma tags_meet: "meets tagsResponseSchema (tags_body idt) (result (tagsHandler name_le) fs db)"
  by (simp add: reply_simps tagsHandler_def tagsResponseSchema_def tags_body_def tagSchema_def list_all_iff)

lemma contests_meet:
  "statuses_ok cdb \<Longrightarrow> meets contestsListResponseSchema (contests_body idt iso_text) (result contestsHandler fs cdb)"
  "statuses_ok cdb \<Longrightarrow> meets contestsWithCountsResponseSchema (active_body idt iso_text) (result contestsActiveHandler fs cdb)"
  "statuses_ok cdb \<Longrightarrow> meets contestsWithCountsResponseSchema (upcoming_body idt iso_text) (result (contestsUpcomingHandler rl) fs cdb)"
  by (auto simp: reply_simps contestsHandler_def contestsActiveHandler_def contestsUpcomingHandler_def contestsListResponseSchema_def
      contestsWithCountsResponseSchema_def contests_body_def active_body_def upcoming_body_def list_all_iff statuses_ok_def status_ok_def
      dest!: in_set_takeD intro!: contest_conforms)

lemma contest_meets: "statuses_ok cdb \<Longrightarrow> meets contestDetailResponseSchema (contest_body idt iso_text) (result (contestDetailHandler slug) fs cdb)"
proof -
  assume ok: "statuses_ok cdb"
  have "conforms contestDetailResponseSchema (contest_body idt iso_text c)" if "page_for slug cdb = Some c" for c
  proof -
    obtain i where i: "info_by_slug slug cdb = Some i" "c = \<lparr>cg_id = ci_id i, cg_title = ci_title i, cg_slug = ci_slug i,
        cg_description = ci_description i, cg_startTime = ci_startTime i, cg_endTime = ci_endTime i, cg_status = ci_status i,
        cg_problems = paged_problems (ci_id i) cdb\<rparr>"
      using \<open>page_for slug cdb = Some c\<close> by (auto simp: page_for_def)
    then have st: "status_ok (ci_status i)"
      using ok find_by_in unfolding info_by_slug_def statuses_ok_def by fastforce
    have "level_ok (pr_difficulty (gp_problem g))" if "g \<in> set (paged_problems (ci_id i) cdb)" for g
      using that ok find_by_in by (fastforce simp: paged_problems_def List.map_filter_def statuses_ok_def levels_ok_def line_of_def)
    then have "conforms (ZArray contestProblemEntrySchema) (JArr (map (\<lambda>g. JObj (line_fields idt (gp_problem g) @
        [(''points'', int_json (gp_points g)), (''order'', int_json (gp_order g)), (''tags'', JArr (map (tag_json idt) (gp_tags g)))]))
        (paged_problems (ci_id i) cdb)))"
      unfolding conforms_objects by (auto simp: list_all_iff intro!: entry_conforms)
    then show ?thesis using st text_or_null_conforms [of "ci_description i"]
      by (simp add: i(2) contestDetailResponseSchema_def contestDetailSchema_def contestSchema_def contest_body_def del: conforms.simps(2))
  qed
  then show ?thesis by (auto simp: reply_simps contestDetailHandler_def split: option.split)
qed

lemma stats_meet: "meets statsResponseSchema stats_body (result stats_handler fs n)"
  by (simp add: reply_simps stats_handler_def statsResponseSchema_def stats_body_def of_nat_floor)

lemma health_meets: "\<exists>status h. healthHandler probe = Reply status h \<and> conforms healthResponseSchema (health_json stamp uptime h)"
  by (cases probe) (simp_all add: healthHandler_def healthResponseSchema_def health_json_def has_type_def)

text \<open>Administration keeps the difficulties within the schema.\<close>

lemma administered_levels_ok: "cat_ok db \<Longrightarrow> levels_ok db"
  by (auto simp: cat_ok_def levels_ok_def list_all_iff row_ok_def difficultyEnum_def level_ok_def)

subsection \<open>Properties\<close>

text \<open>
  C36. The API keeps its contracts, all but one. Over tables whose difficulties and statuses are those of
  the schemas, whatever is asked for and whichever calls fail, every reply of the list, page, trending and
  random routes of problems, of the leaderboard, the tags, the contests, the counters and the health probe
  is of the schema that the package declares for it, error replies of the schema for errors.
\<close>

theorem api_replies_meet_the_contracts:
  fixes idt :: "nat \<Rightarrow> string" and iso_text :: "int \<Rightarrow> string" and fs :: "bool list"
  assumes "levels_ok db" "statuses_ok cdb"
  shows "meets problemListResponseSchema (problems_body idt) (result (problemsListHandler difficulty tag search rawPage rawLimit) fs db) \<and>
    meets problemDetailResponseSchema (problem_body idt) (result (problemDetailHandler slug) fs db) \<and>
    meets trendingResponseSchema (trending_body idt) (result (trendingHandler rawLimit now) fs db) \<and>
    meets randomProblemResponseSchema (random_body idt) (result (randomHandler difficulty rnd) fs db) \<and>
    meets leaderboardTopResponseSchema (leaderboard_body idt) (result leaderboardTopHandler fs pdb) \<and>
    meets tagsResponseSchema (tags_body idt) (result (tagsHandler name_le) fs db) \<and>
    meets contestsListResponseSchema (contests_body idt iso_text) (result contestsHandler fs cdb) \<and>
    meets contestsWithCountsResponseSchema (active_body idt iso_text) (result contestsActiveHandler fs cdb) \<and>
    meets contestsWithCountsResponseSchema (upcoming_body idt iso_text) (result (contestsUpcomingHandler rawLimit) fs cdb) \<and>
    meets contestDetailResponseSchema (contest_body idt iso_text) (result (contestDetailHandler slug) fs cdb) \<and>
    meets statsResponseSchema stats_body (result stats_handler fs counts) \<and>
    (\<exists>status h. healthHandler probe = Reply status h \<and> conforms healthResponseSchema (health_json stamp uptime h))"
  by (intro conjI problems_meet problem_meets trending_meets random_meets leaderboard_meets tags_meet contests_meet contest_meets
      stats_meet health_meets assms)

lemma api_replies_meet_the_contracts_witness:
  "meets problemListResponseSchema (problems_body show_nat) (result (problemsListHandler None None None None None) [] sample_catalogue) \<and>
   meets contestDetailResponseSchema (contest_body show_nat (\<lambda>_. ''t'')) (result (contestDetailHandler ''round-1'') [] sample_pages) \<and>
   result (problemsListHandler None None None None None) [] sample_catalogue \<noteq> Inr (Failed 500 ''Internal server error'')"
proof -
  have l: "levels_ok sample_catalogue" by (simp add: levels_ok_def sample_catalogue_def Problems.sample_problem_def level_ok_def)
  have s: "statuses_ok sample_pages"
    by (simp add: statuses_ok_def sample_pages_def status_ok_def levels_ok_def empty_catalogue_def)
  have "result (problemsListHandler None None None None None) [] sample_catalogue \<noteq> Inr (Failed 500 ''Internal server error'')"
    by (simp add: result_def problemsListHandler_def catch_def bind_def Let_def)
  then show ?thesis
    using api_replies_meet_the_contracts [OF l s, where idt = show_nat and iso_text = "\<lambda>_. ''t''" and fs = "[]" and difficulty = None
        and tag = None and search = None and rawPage = None and rawLimit = None and slug = "''round-1''"] by blast
qed

text \<open>
  The page of a tag does not keep its contract: the schema asks for the number of submissions of each
  problem, the handler sends the tags instead. A page with any problem is refused.
\<close>

lemma tag_pages_break_the_contract:
  assumes "result (tagDetailHandler slug rawPage rawLimit) fs db = Inr (Reply 200 page)" "at_problems page \<noteq> []"
  shows "\<not> conforms tagDetailResponseSchema (tag_page_body idt page)"
proof -
  obtain p ts rest where "at_problems page = (p, ts) # rest" using assms(2) by (metis list.exhaust prod.exhaust)
  then show ?thesis by (simp add: tagDetailResponseSchema_def tagProblemSummarySchema_def tag_page_body_def)
qed

text \<open>
  The enumerations have drifted too: a language that no one accepts, eighteen that are missing, and
  statuses that the judge gives and the contract does not know.
\<close>

lemma contract_languages_differ:
  "''swift'' \<in> set languageValues \<and> ''swift'' \<notin> set LANGUAGE_IDS"
  "length (filter (\<lambda>l. l \<notin> set languageValues) LANGUAGE_IDS) = 18"
  by code_simp+

lemma contract_statuses_miss_verdicts:
  "filter (\<lambda>s. s \<notin> set submissionStatusValues) trusted_judge_statuses = [''compile_error'', ''memory_limit_exceeded'', ''security_error'']"
  "''queued'' \<notin> set submissionStatusValues" "''judging'' \<notin> set submissionStatusValues"
  by code_simp+

end
