(* ===== verification/Loggers.thy ===== *)
theory Loggers
  imports Json
begin

section \<open>The loggers\<close>

text \<open>
  \<^verbatim>\<open>apps/api/src/logger.ts\<close> of the stand-alone server, which redacts the secrets of its fields, and
  \<^verbatim>\<open>src/lib/logger.ts\<close> of the application, which does not. Values are those of JSON. A line is the value that
  is printed; the colours and the padding of the pretty lines are not modelled. The lists of keys are looked
  up as maps, the names that every JavaScript object inherits left aside. A time stamp is its ISO text.
\<close>

datatype log_level = Debug | Info | Warn | Error

fun level_name :: "log_level \<Rightarrow> string" where
  "level_name Debug = ''debug''"
| "level_name Info = ''info''"
| "level_name Warn = ''warn''"
| "level_name Error = ''error''"

subsection \<open>The logger of the server\<close>

fun rank_of_level :: "log_level \<Rightarrow> nat" where
  "rank_of_level Debug = 0"
| "rank_of_level Info = 1"
| "rank_of_level Warn = 2"
| "rank_of_level Error = 3"

definition LEVEL_RANK :: "string \<Rightarrow> nat option" where
  "LEVEL_RANK name = map_of (map (\<lambda>l. (level_name l, rank_of_level l)) [Debug, Info, Warn, Error]) name"

definition REDACT_KEYS :: "string list" where
  "REDACT_KEYS = [''password'', ''passwd'', ''token'', ''authorization'', ''auth'', ''cookie'', ''set-cookie'', ''secret'', ''jwt'',
     ''api_key'', ''apikey'', ''session'']"

text \<open>What the process reads when it starts: whether it is in production, and \<^verbatim>\<open>LOG_LEVEL\<close>.\<close>

record log_env =
  le_production :: bool
  le_logLevel :: "string option"

definition minLevel :: "log_env \<Rightarrow> string" where
  "minLevel env = (case le_logLevel env of None \<Rightarrow> ''info'' | Some l \<Rightarrow> l)"

text \<open>A comparison with the rank of no level is one with undefined, and false.\<close>

definition shouldLog :: "log_env \<Rightarrow> log_level \<Rightarrow> bool" where
  "shouldLog env level = (case LEVEL_RANK (minLevel env) of None \<Rightarrow> False | Some r \<Rightarrow> r \<le> rank_of_level level)"

definition is_secret :: "string \<Rightarrow> bool" where
  "is_secret k \<longleftrightarrow> map lower_char k \<in> set REDACT_KEYS"

function redact :: "nat \<Rightarrow> json \<Rightarrow> json" where
  "redact depth v =
    (if 6 < depth then JStr ''[depth-limit]''
     else case v of
       JArr xs \<Rightarrow> JArr (map (redact (Suc depth)) xs)
     | JObj fs \<Rightarrow> JObj (map (\<lambda>(k, w). (k, if is_secret k then JStr ''[REDACTED]'' else redact (Suc depth) w)) fs)
     | _ \<Rightarrow> v)"
  by pat_completeness auto
termination by (relation "measure (\<lambda>(depth, v). 7 - depth)") auto

declare redact.simps [simp del]

definition redacted_fields :: "json_fields \<Rightarrow> json_fields" where
  "redacted_fields fs = (case redact 0 (JObj fs) of JObj gs \<Rightarrow> gs | _ \<Rightarrow> [])"

datatype log_line =
    Pretty string log_level string json_fields
  | JsonLine json_fields

definition write_line :: "log_env \<Rightarrow> string \<Rightarrow> log_level \<Rightarrow> string \<Rightarrow> json_fields \<Rightarrow> log_line list" where
  "write_line env ts level msg fs =
    (if \<not> shouldLog env level then []
     else let safe = redacted_fields fs in
       if \<not> le_production env then [Pretty ts level msg safe]
       else [JsonLine (spread [(''ts'', JStr ts), (''level'', JStr (level_name level)), (''msg'', JStr msg)] safe)])"

text \<open>
  A program makes loggers out of others, by \<^verbatim>\<open>with\<close>, and calls them. The loggers are numbered, the one that the
  module exports is the first; a call of a logger that was not made does nothing.
\<close>

record log_world =
  lw_loggers :: "json_fields list"
  lw_lines :: "log_line list"

datatype log_op =
    WithFields nat json_fields
  | LogCall nat string log_level string json_fields

definition first_logger :: log_world where
  "first_logger = \<lparr>lw_loggers = [[]], lw_lines = []\<rparr>"

fun log_step :: "log_env \<Rightarrow> log_op \<Rightarrow> log_world \<Rightarrow> log_world" where
  "log_step env (WithFields i fs) w =
    (if i < length (lw_loggers w) then w\<lparr>lw_loggers := lw_loggers w @ [spread (lw_loggers w ! i) fs]\<rparr> else w)"
| "log_step env (LogCall i ts level msg fs) w =
    (if i < length (lw_loggers w) then w\<lparr>lw_lines := lw_lines w @ write_line env ts level msg (spread (lw_loggers w ! i) fs)\<rparr> else w)"

definition log_run :: "log_env \<Rightarrow> log_op list \<Rightarrow> log_line list" where
  "log_run env ops = lw_lines (fold (log_step env) ops first_logger)"

subsection \<open>What redaction hides\<close>

text \<open>The same value, or the same program, with every secret blanked.\<close>

fun hide :: "json \<Rightarrow> json" where
  "hide (JArr xs) = JArr (map hide xs)"
| "hide (JObj fs) = JObj (map (\<lambda>(k, v). (k, if is_secret k then JNull else hide v)) fs)"
| "hide v = v"

definition hide_field :: "string \<Rightarrow> json \<Rightarrow> json" where
  "hide_field k v = (if is_secret k then JNull else hide v)"

definition hide_fields :: "json_fields \<Rightarrow> json_fields" where
  "hide_fields fs = map (\<lambda>(k, v). (k, hide_field k v)) fs"

fun hide_op :: "log_op \<Rightarrow> log_op" where
  "hide_op (WithFields i fs) = WithFields i (hide_fields fs)"
| "hide_op (LogCall i ts level msg fs) = LogCall i ts level msg (hide_fields fs)"

lemma hide_object: "hide (JObj fs) = JObj (hide_fields fs)"
  by (simp add: hide_fields_def hide_field_def)

lemma redact_hide: "redact d (hide v) = redact d v"
proof (induction v arbitrary: d rule: hide.induct)
  case (1 xs)
  then show ?case by (simp add: redact.simps [of d])
next
  case (2 fs)
  have "redact (Suc d) (hide x) = redact (Suc d) x" if "(k, x) \<in> set fs" "\<not> is_secret k" for k x
    using 2 [OF that(1) refl that(2)] by simp
  then show ?case by (simp add: redact.simps [of d]) (auto split: prod.split)
qed (simp_all add: redact.simps)

lemma redacted_hidden: "redacted_fields (hide_fields fs) = redacted_fields fs"
  unfolding redacted_fields_def by (metis hide_object redact_hide)

lemma hide_set: "hide_fields (jm_set k v m) = jm_set k (hide_field k v) (hide_fields m)"
  by (induction k v m rule: jm_set.induct) (simp_all add: hide_fields_def)

lemma hide_spread: "hide_fields (spread a b) = spread (hide_fields a) (hide_fields b)"
proof (induction b arbitrary: a)
  case (Cons x b)
  obtain k v where x: "x = (k, v)" by (metis prod.exhaust)
  have "hide_fields (x # b) = (k, hide_field k v) # hide_fields b" by (simp add: x hide_fields_def)
  then show ?case by (simp add: x spread_Cons Cons.IH hide_set)
qed (simp add: hide_fields_def)

text \<open>Two worlds alike: their loggers differ in secrets only, and they have printed the same.\<close>

definition alike :: "log_world \<Rightarrow> log_world \<Rightarrow> bool" where
  "alike v w \<longleftrightarrow> lw_loggers v = map hide_fields (lw_loggers w) \<and> lw_lines v = lw_lines w"

lemma alike_step: "alike v w \<Longrightarrow> alike (log_step env (hide_op a) v) (log_step env a w)"
  by (cases a) (simp_all add: alike_def write_line_def hide_spread [symmetric] redacted_hidden Let_def)

lemma alike_steps: "alike v w \<Longrightarrow> alike (fold (log_step env) (map hide_op ops) v) (fold (log_step env) ops w)"
  by (induction ops arbitrary: v w) (simp_all add: alike_step)

text \<open>How deep a value goes, and that redaction leaves at most seven levels and nothing more to redact.\<close>

fun deep :: "json \<Rightarrow> nat" where
  "deep (JArr xs) = Suc (foldr max (map deep xs) 0)"
| "deep (JObj fs) = Suc (foldr max (map (\<lambda>(k, v). deep v) fs) 0)"
| "deep v = 0"

lemma foldr_max_le: "(\<forall>x \<in> set xs. x \<le> n) \<Longrightarrow> foldr max xs (0::nat) \<le> n"
  by (induction xs) auto

lemma redact_deep: "deep (redact d v) \<le> 7 - d"
proof (induction d v rule: redact.induct)
  case (1 d v)
  show ?case
  proof (cases "6 < d")
    case False
    then have s: "7 - d = Suc (7 - Suc d)" by simp
    show ?thesis
    proof (cases v)
      case (JArr xs)
      have "\<forall>x \<in> set xs. deep (redact (Suc d) x) \<le> 7 - Suc d" using 1(1) [OF False JArr] by blast
      then have "foldr max (map (deep \<circ> redact (Suc d)) xs) 0 \<le> 7 - Suc d" by (intro foldr_max_le) auto
      then show ?thesis using False s by (simp add: redact.simps [of d] JArr)
    next
      case (JObj fs)
      have "deep (redact (Suc d) x) \<le> 7 - Suc d" if "(k, x) \<in> set fs" "\<not> is_secret k" for k x
        using 1(2) [OF False JObj that(1) refl that(2)] .
      then have "foldr max (map ((\<lambda>(k, v). deep v) \<circ> (\<lambda>(k, w). (k, if is_secret k then JStr ''[REDACTED]'' else redact (Suc d) w))) fs) 0
          \<le> 7 - Suc d"
        by (intro foldr_max_le) auto
      then show ?thesis using False s by (simp add: redact.simps [of d] JObj)
    qed (simp_all add: redact.simps)
  qed (simp add: redact.simps)
qed

lemma redact_again: "redact d (redact d v) = redact d v"
proof (induction d v rule: redact.induct)
  case (1 d v)
  show ?case
  proof (cases "6 < d")
    case False
    show ?thesis
    proof (cases v)
      case (JArr xs)
      have "\<forall>x \<in> set xs. redact (Suc d) (redact (Suc d) x) = redact (Suc d) x" using 1(1) [OF False JArr] by blast
      then show ?thesis using False by (simp add: redact.simps [of d] JArr)
    next
      case (JObj fs)
      have "redact (Suc d) (redact (Suc d) x) = redact (Suc d) x" if "(k, x) \<in> set fs" "\<not> is_secret k" for k x
        using 1(2) [OF False JObj that(1) refl that(2)] .
      then show ?thesis using False by (auto simp: redact.simps [of d] JObj)
    qed (simp_all add: redact.simps)
  qed (simp add: redact.simps)
qed

text \<open>The keys that the documentation promises to strip.\<close>

definition documented_secrets :: "string list" where
  "documented_secrets = [''password'', ''token'', ''authorization'', ''cookie'', ''set-cookie'', ''secret'', ''jwt'']"

text \<open>
  C37. The log keeps secrets. Whatever loggers a program makes and calls, in whatever environment, what
  is printed is what the same program would print with every value under a secret key replaced by null, at
  any depth and in any case of the key, the keys that the documentation names among them; what is printed of a value is at most seven levels deep, and
  redacting it again changes nothing.
\<close>

theorem log_keeps_secrets:
  fixes ops :: "log_op list" and v :: json
  shows "log_run env (map hide_op ops) = log_run env ops \<and> list_all is_secret documented_secrets \<and> deep (redact 0 v) \<le> 7 \<and> redact 0 (redact 0 v) = redact 0 v"
proof -
  have "alike (fold (log_step env) (map hide_op ops) first_logger) (fold (log_step env) ops first_logger)"
    by (intro alike_steps) (simp add: alike_def first_logger_def hide_fields_def)
  then have "log_run env (map hide_op ops) = log_run env ops" by (simp add: log_run_def alike_def)
  moreover have "list_all is_secret documented_secrets" by code_simp
  ultimately show ?thesis using redact_deep [of 0 v] by (simp add: redact_again)
qed

text \<open>
  What is not kept: a secret in the message, or under a key that only contains one of the names.
\<close>

definition leaky_calls :: "log_op list" where
  "leaky_calls = [LogCall 0 ''t'' Error ''token abc'' [], LogCall 0 ''t'' Error ''m'' [(''accessToken'', JStr ''abc'')],
     LogCall 0 ''t'' Error ''m'' [(''Set-Cookie'', JStr ''abc'')]]"

lemma messages_are_not_redacted:
  "log_run \<lparr>le_production = False, le_logLevel = None\<rparr> leaky_calls =
     [Pretty ''t'' Error ''token abc'' [], Pretty ''t'' Error ''m'' [(''accessToken'', JStr ''abc'')],
      Pretty ''t'' Error ''m'' [(''Set-Cookie'', JStr ''[REDACTED]'')]]"
  by code_simp

text \<open>
  A level that is not one of the four, in capitals for instance, silences the logger, errors included.
\<close>

lemma unknown_level_is_silent:
  assumes "le_logLevel env = Some name" "name \<notin> {''debug'', ''info'', ''warn'', ''error''}"
  shows "log_run env ops = []"
proof -
  have "\<not> shouldLog env level" for level
    using assms by (auto simp: shouldLog_def minLevel_def LEVEL_RANK_def split: option.split dest: map_of_SomeD)
  then have "lw_lines (fold (log_step env) ops w) = lw_lines w" for w
  proof (induction ops arbitrary: w)
    case (Cons a ops)
    then show ?case by (cases a) (simp_all add: write_line_def)
  qed simp
  then show ?thesis by (simp add: log_run_def first_logger_def)
qed

text \<open>In production a field of the caller replaces the time, the level or the message of its line.\<close>

lemma fields_replace_the_message:
  "log_run \<lparr>le_production = True, le_logLevel = None\<rparr> [LogCall 0 ''t'' Error ''lost'' [(''msg'', JStr ''found''), (''level'', JStr ''debug'')]] =
     [JsonLine [(''ts'', JStr ''t''), (''level'', JStr ''debug''), (''msg'', JStr ''found'')]]"
  by code_simp

subsection \<open>The logger of the application\<close>

fun level_number :: "log_level \<Rightarrow> nat" where
  "level_number Debug = 10"
| "level_number Info = 20"
| "level_number Warn = 30"
| "level_number Error = 40"

definition LEVELS :: "string \<Rightarrow> nat option" where
  "LEVELS name = map_of (map (\<lambda>l. (level_name l, level_number l)) [Debug, Info, Warn, Error]) name"

definition min_level :: "string option \<Rightarrow> nat" where
  "min_level logLevel =
    (case LEVELS (map lower_char (if truthy logLevel then the logLevel else ''info'')) of Some n \<Rightarrow> n | None \<Rightarrow> level_number Info)"

datatype log_stream = Stdout | Stderr

definition emit :: "string option \<Rightarrow> string \<Rightarrow> log_level \<Rightarrow> string \<Rightarrow> json_fields \<Rightarrow> (log_stream \<times> json_fields) list" where
  "emit logLevel time level msg fs =
    (if level_number level < min_level logLevel then []
     else let entry = spread [(''level'', JStr (level_name level)), (''time'', JStr time), (''msg'', JStr msg)] fs in
       [(if level = Error then Stderr else Stdout, entry)])"

definition with_emit :: "json_fields \<Rightarrow> string option \<Rightarrow> string \<Rightarrow> log_level \<Rightarrow> string \<Rightarrow> json_fields \<Rightarrow> (log_stream \<times> json_fields) list" where
  "with_emit base logLevel time level msg extra = emit logLevel time level msg (spread base extra)"

text \<open>
  Whatever the level that was asked for, an error is printed, on the error stream; a line has the time, the
  level and the message of its call unless a field replaces them, and a call's fields win over those of its logger.
\<close>

lemma errors_are_always_printed: "\<exists>entry. emit logLevel time Error msg fs = [(Stderr, entry)]"
proof -
  have "min_level logLevel \<le> 40"
    by (auto simp: min_level_def LEVELS_def split: option.split dest!: map_of_SomeD)
  then show ?thesis by (simp add: emit_def Let_def)
qed

lemma line_has_its_fields:
  assumes "emit logLevel time level msg fs = [(out, entry)]" "distinct (map fst fs)"
  shows "jm_get entry k =
    (case jm_get fs k of
       Some v \<Rightarrow> Some v
     | None \<Rightarrow> jm_get [(''level'', JStr (level_name level)), (''time'', JStr time), (''msg'', JStr msg)] k)"
  using assms jm_get_spread [of fs "[(''level'', JStr (level_name level)), (''time'', JStr time), (''msg'', JStr msg)]" k]
  by (auto simp: emit_def Let_def split: if_splits)

lemma extra_fields_win:
  assumes "with_emit base logLevel time level msg extra = [(out, entry)]" "distinct (map fst base)" "distinct (map fst extra)"
    and "jm_get extra k = Some v"
  shows "jm_get entry k = Some v"
proof -
  have "jm_get (spread base extra) k = Some v" using assms(3,4) by (simp add: jm_get_spread)
  moreover have "distinct (map fst (spread base extra))" using assms(2) spread_ok by (simp add: jm_ok_def)
  ultimately show ?thesis using assms(1) line_has_its_fields unfolding with_emit_def by fastforce
qed

end
