(* ===== verification/Seeds.thy ===== *)
theory Seeds
  imports JsText "HOL-Library.Word" "HOL-Library.State_Monad" "HOL-Library.Sublist"
begin

section \<open>The seeds\<close>

text \<open>
  \<^verbatim>\<open>prisma/seed-bulk.ts\<close> and \<^verbatim>\<open>prisma/seed-users-submissions.ts\<close>: tables filled from a pseudo-random generator.
  A draw is an action of the state monad over the generator's 32-bit state. The numbers it gives are exact
  multiples of \<open>2\<^sup>-\<^sup>3\<^sup>2\<close>; products with a range below \<open>2\<^sup>2\<^sup>1\<close> are exact in JavaScript too, those with
  the milliseconds of half a year are rounded there and may be one millisecond later.
\<close>

unbundle bit_operations_syntax

type_synonym 'a rand = "(32 word, 'a) state"

subsection \<open>Mulberry32\<close>

definition mulberry :: "32 word \<Rightarrow> 32 word \<times> 32 word" where
  "mulberry s0 =
    (let s = s0 + 0x6d2b79f5;
         t = (s XOR drop_bit 15 s) * (s OR 1);
         u = t XOR (t + (t XOR drop_bit 7 t) * (t OR 61))
     in (u XOR drop_bit 14 u, s))"

definition rng :: "rat rand" where
  "rng = State (\<lambda>s. case mulberry s of (r, s') \<Rightarrow> (of_nat (unat r) / 4294967296, s'))"

definition randInt :: "int \<Rightarrow> int \<Rightarrow> int rand" where
  "randInt lo hi = do { x \<leftarrow> rng; State_Monad.return (\<lfloor>x * of_int (hi - lo + 1)\<rfloor> + lo) }"

definition pick :: "'a list \<Rightarrow> 'a rand" where
  "pick xs = do { x \<leftarrow> rng; State_Monad.return (xs ! nat \<lfloor>x * of_nat (length xs)\<rfloor>) }"

text \<open>\<^verbatim>\<open>Array.from({ length: n }, () => m)\<close>.\<close>

definition many :: "nat \<Rightarrow> 'a rand \<Rightarrow> 'a list rand" where
  "many n m = State_Monad.traverse_list (\<lambda>_. m) [0..<n]"

text \<open>What holds of every result of an action.\<close>

definition ensures :: "('a \<Rightarrow> bool) \<Rightarrow> 'a rand \<Rightarrow> bool" where
  "ensures P m \<longleftrightarrow> (\<forall>g. P (fst (run_state m g)))"

named_theorems ensures_intros \<open>what every result of a draw satisfies\<close>

lemma ensures_return [ensures_intros]: "P x \<Longrightarrow> ensures P (State_Monad.return x)"
  by (simp add: ensures_def)

lemma ensures_bind: "ensures Q m \<Longrightarrow> (\<And>x. Q x \<Longrightarrow> ensures P (f x)) \<Longrightarrow> ensures P (State_Monad.bind m f)"
  unfolding ensures_def by (simp add: case_prod_beta)

lemma ensures_mono: "ensures Q m \<Longrightarrow> (\<And>x. Q x \<Longrightarrow> P x) \<Longrightarrow> ensures P m"
  by (simp add: ensures_def)

lemma ensures_traverse: "(\<And>x. x \<in> set xs \<Longrightarrow> ensures (P x) (f x)) \<Longrightarrow> ensures (\<lambda>ys. list_all2 P xs ys) (State_Monad.traverse_list f xs)"
proof (induction xs)
  case (Cons x xs)
  have "ensures (P x) (f x)" "ensures (list_all2 P xs) (State_Monad.traverse_list f xs)" using Cons by simp_all
  then show ?case by (auto intro!: ensures_bind [OF \<open>ensures (P x) (f x)\<close>] ensures_bind [OF \<open>ensures (list_all2 P xs) _\<close>] ensures_return)
qed (simp add: ensures_return)

lemma ensures_many: "ensures P m \<Longrightarrow> ensures (\<lambda>xs. length xs = n \<and> list_all P xs) (many n m)"
  unfolding many_def
  by (rule ensures_mono [OF ensures_traverse [where P = "\<lambda>_. P"]]) (auto simp: list_all2_conv_all_nth list_all_length)

lemma ensures_rng: "ensures (\<lambda>x. 0 \<le> x \<and> x < 1) rng"
proof -
  have "rat_of_nat (unat r) < 4294967296" for r :: "32 word"
  proof -
    have "unat r < 4294967296" using unsigned_less [of r, where 'a = nat] by simp
    then show ?thesis using of_nat_less_iff [of "unat r" 4294967296, where 'a = rat] by simp
  qed
  moreover have "0 \<le> rat_of_nat (unat r)" for r :: "32 word" by (rule of_nat_0_le_iff)
  ultimately show ?thesis by (simp add: ensures_def rng_def split: prod.split)
qed

lemma floor_times:
  fixes x :: rat
  assumes "0 \<le> x" "x < 1" "0 < n"
  shows "0 \<le> \<lfloor>x * of_int n\<rfloor> \<and> \<lfloor>x * of_int n\<rfloor> < n"
proof -
  have "x * of_int n < 1 * of_int n" using assms by (intro mult_strict_right_mono) simp_all
  then show ?thesis using assms by (simp add: floor_less_iff)
qed

lemma ensures_randInt: "lo \<le> hi \<Longrightarrow> ensures (\<lambda>i. lo \<le> i \<and> i \<le> hi) (randInt lo hi)"
  unfolding randInt_def
  by (rule ensures_bind [OF ensures_rng], rule ensures_return)
    (use floor_times [of _ "hi - lo + 1"] in fastforce)

lemma ensures_pick: "xs \<noteq> [] \<Longrightarrow> ensures (\<lambda>x. x \<in> set xs) (pick xs)"
  unfolding pick_def
proof (rule ensures_bind [OF ensures_rng], rule ensures_return)
  fix x :: rat assume "xs \<noteq> []" "0 \<le> x \<and> x < 1"
  then have "0 \<le> \<lfloor>x * of_int (int (length xs))\<rfloor> \<and> \<lfloor>x * of_int (int (length xs))\<rfloor> < int (length xs)"
    by (intro floor_times) simp_all
  then have "nat \<lfloor>x * of_nat (length xs)\<rfloor> < length xs" unfolding of_int_of_nat_eq by linarith
  then show "xs ! nat \<lfloor>x * of_nat (length xs)\<rfloor> \<in> set xs" by (rule nth_mem)
qed

text \<open>The draws as operations on integers, to evaluate them.\<close>

lemma floor_scaled: "\<lfloor>(of_nat a / 4294967296 :: rat) * of_int n\<rfloor> = (int a * n) div 4294967296"
proof -
  have "(of_nat a / 4294967296 :: rat) * of_int n = of_int (int a * n) / of_int 4294967296" by simp
  then show ?thesis by (metis floor_divide_of_int_eq)
qed

lemma run_randInt: "run_state (randInt lo hi) g = (case mulberry g of (r, g') \<Rightarrow> (int (unat r) * (hi - lo + 1) div 4294967296 + lo, g'))"
  by (simp only: randInt_def rng_def run_state_bind run_state_return state.sel floor_scaled case_prod_beta fst_conv snd_conv)

lemma run_pick: "run_state (pick xs) g = (case mulberry g of (r, g') \<Rightarrow> (xs ! nat (int (unat r) * int (length xs) div 4294967296), g'))"
  using floor_scaled [of _ "int (length xs)"] unfolding of_int_of_nat_eq
  by (simp only: pick_def rng_def run_state_bind run_state_return state.sel case_prod_beta fst_conv snd_conv)

subsection \<open>The tests of the bulk problems\<close>

text \<open>The five templates; their texts and starter codes are not modelled.\<close>

datatype template = MaxSubarray | SumOfInput | ReverseString | CountDistinct | Fibonacci

definition TEMPLATES :: "template list" where
  "TEMPLATES = [MaxSubarray, SumOfInput, ReverseString, CountDistinct, Fibonacci]"

fun template_slug :: "template \<Rightarrow> string" where
  "template_slug MaxSubarray = ''max-subarray-sum''"
| "template_slug SumOfInput = ''sum-of-input''"
| "template_slug ReverseString = ''reverse-string''"
| "template_slug CountDistinct = ''count-distinct''"
| "template_slug Fibonacci = ''fibonacci''"

fun template_titles :: "template \<Rightarrow> string list" where
  "template_titles MaxSubarray = [''Maximum Subarray Sum'', ''Largest Contiguous Sum'', ''Best Window of Numbers'']"
| "template_titles SumOfInput = [''Sum of Numbers'', ''Total Reduction'', ''Cumulative Sum'']"
| "template_titles ReverseString = [''Reverse a String'', ''String Reversal'', ''Mirror Sequence'']"
| "template_titles CountDistinct = [''Count Distinct Elements'', ''Unique Values'', ''Set Cardinality'']"
| "template_titles Fibonacci = [''Nth Fibonacci Number'', ''Fibonacci Sequence'', ''Golden Sum'']"

text \<open>The loop of the first template, over the numbers after the first.\<close>

fun kadane :: "int \<Rightarrow> int \<Rightarrow> int list \<Rightarrow> int" where
  "kadane best cur [] = best"
| "kadane best cur (x # xs) = (let cur' = max x (cur + x) in kadane (max best cur') cur' xs)"

fun fib_loop :: "nat \<Rightarrow> int \<Rightarrow> int \<Rightarrow> int" where
  "fib_loop 0 a b = a"
| "fib_loop (Suc n) a b = fib_loop n b (a + b)"

definition numbers_text :: "int list \<Rightarrow> string" where
  "numbers_text nums = join_with '' '' (map show_int nums)"

definition generate_maximum :: "(string \<times> string) rand" where
  "generate_maximum = do {
     n \<leftarrow> randInt 5 12;
     nums \<leftarrow> many (nat n) (randInt (-10) 10);
     State_Monad.return (numbers_text nums, show_int (kadane (hd nums) (hd nums) (tl nums))) }"

definition generate_sum :: "(string \<times> string) rand" where
  "generate_sum = do {
     n \<leftarrow> randInt 3 10;
     nums \<leftarrow> many (nat n) (randInt 1 100);
     State_Monad.return (numbers_text nums, show_int (foldl (+) 0 nums)) }"

definition generate_reverse :: "(string \<times> string) rand" where
  "generate_reverse = do {
     len \<leftarrow> randInt 3 12;
     s \<leftarrow> many (nat len) (pick ''abcdefghijklmnopqrstuvwxyz'');
     State_Monad.return (s, rev s) }"

definition generate_distinct :: "(string \<times> string) rand" where
  "generate_distinct = do {
     n \<leftarrow> randInt 4 12;
     nums \<leftarrow> many (nat n) (randInt 1 6);
     State_Monad.return (numbers_text nums, show_nat (length (remdups nums))) }"

definition generate_fibonacci :: "(string \<times> string) rand" where
  "generate_fibonacci = do {
     n \<leftarrow> randInt 0 20;
     State_Monad.return (show_int n, show_int (fib_loop (nat n) 0 1)) }"

fun generate :: "template \<Rightarrow> (string \<times> string) rand" where
  "generate MaxSubarray = generate_maximum"
| "generate SumOfInput = generate_sum"
| "generate ReverseString = generate_reverse"
| "generate CountDistinct = generate_distinct"
| "generate Fibonacci = generate_fibonacci"

subsection \<open>What a test promises\<close>

text \<open>The numbers that a solution reads from an input, and the answers that the problems ask for.\<close>

definition reads_numbers :: "string \<Rightarrow> int list \<Rightarrow> bool" where
  "reads_numbers input nums \<longleftrightarrow> map parse_int (split_on (CHR '' '') input) = map Fin nums"

definition segment_sums :: "int list \<Rightarrow> int set" where
  "segment_sums nums = {sum_list ys | ys. ys \<noteq> [] \<and> sublist ys nums}"

fun fib :: "nat \<Rightarrow> nat" where
  "fib 0 = 0"
| "fib (Suc 0) = 1"
| "fib (Suc (Suc n)) = fib n + fib (Suc n)"

fun correct_test :: "template \<Rightarrow> string \<times> string \<Rightarrow> bool" where
  "correct_test MaxSubarray (input, expected) \<longleftrightarrow>
     (\<exists>nums m. reads_numbers input nums \<and> nums \<noteq> [] \<and> list_all (\<lambda>x. - 10000 \<le> x \<and> x \<le> 10000) nums \<and>
        parse_int expected = Fin m \<and> m \<in> segment_sums nums \<and> (\<forall>s \<in> segment_sums nums. s \<le> m))"
| "correct_test SumOfInput (input, expected) \<longleftrightarrow>
     (\<exists>nums. reads_numbers input nums \<and> nums \<noteq> [] \<and> parse_int expected = Fin (sum_list nums))"
| "correct_test ReverseString (input, expected) \<longleftrightarrow> input \<noteq> [] \<and> expected = rev input"
| "correct_test CountDistinct (input, expected) \<longleftrightarrow>
     (\<exists>nums. reads_numbers input nums \<and> nums \<noteq> [] \<and> parse_int expected = Fin (int (card (set nums))))"
| "correct_test Fibonacci (input, expected) \<longleftrightarrow>
     (\<exists>n. parse_int input = Fin (int n) \<and> n \<le> 30 \<and> parse_int expected = Fin (int (fib n)))"

lemma reads_numbers_text: "nums \<noteq> [] \<Longrightarrow> reads_numbers (numbers_text nums) nums"
  using split_join [of "map show_int nums" "CHR '' ''"] show_int_plain [of "CHR '' ''"]
  by (simp add: reads_numbers_def numbers_text_def is_digit_def comp_def parse_show_int)

text \<open>
  Kadane's loop keeps the greatest sum of a segment of what it has read, and the greatest of one that ends there.
\<close>

definition greatest :: "int \<Rightarrow> int set \<Rightarrow> bool" where
  "greatest m S \<longleftrightarrow> m \<in> S \<and> (\<forall>s \<in> S. s \<le> m)"

definition ending_sums :: "int list \<Rightarrow> int set" where
  "ending_sums nums = {sum_list ys | ys. ys \<noteq> [] \<and> suffix ys nums}"

lemma ending_snoc: "nums \<noteq> [] \<Longrightarrow> ending_sums (nums @ [x]) = insert x ((\<lambda>s. s + x) ` ending_sums nums)"
proof (intro equalityI subsetI)
  fix s assume "s \<in> ending_sums (nums @ [x])"
  then obtain ys where ys: "s = sum_list ys" "ys \<noteq> []" "suffix ys (nums @ [x])" by (auto simp: ending_sums_def)
  then obtain zs where "ys = zs @ [x]" "suffix zs nums" by auto
  with ys have "s = sum_list zs + x" "suffix zs nums" by simp_all
  then show "s \<in> insert x ((\<lambda>s. s + x) ` ending_sums nums)" by (cases "zs = []") (auto simp: ending_sums_def)
next
  fix s assume "s \<in> insert x ((\<lambda>s. s + x) ` ending_sums nums)"
  then have "s = x \<or> (\<exists>ys. s = sum_list ys + x \<and> suffix ys nums)" by (auto simp: ending_sums_def)
  then consider "s = x" | ys where "s = sum_list ys + x" "suffix ys nums" by blast
  then show "s \<in> ending_sums (nums @ [x])"
  proof cases
    case 1
    then show ?thesis unfolding ending_sums_def by (intro CollectI exI [of _ "[x]"]) simp
  next
    case (2 ys)
    then show ?thesis unfolding ending_sums_def by (intro CollectI exI [of _ "ys @ [x]"]) simp
  qed
qed

lemma segment_snoc: "segment_sums (nums @ [x]) = segment_sums nums \<union> ending_sums (nums @ [x])"
proof -
  have "sublist ys (nums @ [x]) \<longleftrightarrow> suffix ys (nums @ [x]) \<or> sublist ys nums" for ys by (rule sublist_snoc)
  then show ?thesis unfolding segment_sums_def ending_sums_def by auto
qed

lemma greatest_Un: "greatest a S \<Longrightarrow> greatest b T \<Longrightarrow> greatest (max a b) (S \<union> T)"
  by (auto simp: greatest_def max_def)

lemma greatest_ending: "nums \<noteq> [] \<Longrightarrow> greatest cur (ending_sums nums) \<Longrightarrow> greatest (max x (cur + x)) (ending_sums (nums @ [x]))"
  by (auto simp: ending_snoc greatest_def max_def)

lemma kadane_greatest:
  "nums \<noteq> [] \<Longrightarrow> greatest cur (ending_sums nums) \<Longrightarrow> greatest best (segment_sums nums) \<Longrightarrow>
    greatest (kadane best cur xs) (segment_sums (nums @ xs))"
proof (induction xs arbitrary: nums best cur)
  case (Cons x xs)
  have "greatest (max x (cur + x)) (ending_sums (nums @ [x]))" using Cons.prems by (simp add: greatest_ending)
  moreover from this have "greatest (max best (max x (cur + x))) (segment_sums (nums @ [x]))"
    unfolding segment_snoc using Cons.prems by (simp add: greatest_Un)
  ultimately show ?case using Cons.IH [of "nums @ [x]"] by (simp add: Let_def)
qed simp

lemma one_number: "greatest x (ending_sums [x])" "greatest x (segment_sums [x])"
  by (auto simp: greatest_def ending_sums_def segment_sums_def suffix_Cons sublist_Cons_right prefix_Cons intro!: exI [of _ "[x]"])

lemma fib_loop_fib: "fib_loop n (int (fib k)) (int (fib (Suc k))) = int (fib (k + n))"
proof (induction n arbitrary: k)
  case (Suc n)
  have "fib_loop (Suc n) (int (fib k)) (int (fib (Suc k))) = fib_loop n (int (fib (Suc k))) (int (fib (Suc (Suc k))))" by simp
  then show ?case using Suc [of "Suc k"] by simp
qed simp

lemma foldl_sum: "foldl (+) a xs = a + sum_list (xs :: int list)"
  by (induction xs arbitrary: a) simp_all

lemma generated_correct: "ensures (correct_test t) (generate t)"
proof (cases t)
  case MaxSubarray
  have "correct_test MaxSubarray (numbers_text nums, show_int (kadane (hd nums) (hd nums) (tl nums)))"
    if "0 < length nums" "list_all (\<lambda>x. -10 \<le> x \<and> x \<le> 10) nums" for nums
  proof -
    obtain x xs where n: "nums = x # xs" using \<open>0 < length nums\<close> by (cases nums) auto
    have "greatest (kadane x x xs) (segment_sums nums)" using kadane_greatest [OF _ one_number, of x xs] by (simp add: n)
    moreover have "list_all (\<lambda>x. -10000 \<le> x \<and> x \<le> 10000) nums" using that(2) by (auto simp: list_all_iff)
    ultimately show ?thesis
      using reads_numbers_text [of nums] by (auto simp: parse_show_int greatest_def n)
  qed
  note answer = this
  show ?thesis
    unfolding MaxSubarray generate.simps generate_maximum_def
    by (intro ensures_bind [OF ensures_randInt] ensures_bind [OF ensures_many [OF ensures_randInt]] ensures_return answer) auto
next
  case SumOfInput
  have "correct_test SumOfInput (numbers_text nums, show_int (foldl (+) 0 nums))" if "nums \<noteq> []" for nums
    using reads_numbers_text [OF that] that by (auto simp: parse_show_int foldl_sum)
  note answer = this
  show ?thesis
    unfolding SumOfInput generate.simps generate_sum_def
    by (intro ensures_bind [OF ensures_randInt] ensures_bind [OF ensures_many [OF ensures_randInt]] ensures_return answer) auto
next
  case ReverseString
  show ?thesis
    unfolding ReverseString generate.simps generate_reverse_def
    by (intro ensures_bind [OF ensures_randInt] ensures_bind [OF ensures_many [OF ensures_pick]] ensures_return) auto
next
  case CountDistinct
  have "correct_test CountDistinct (numbers_text nums, show_nat (length (remdups nums)))" if "nums \<noteq> []" for nums
    using reads_numbers_text [OF that] that by (auto simp: parse_show_nat length_remdups_card_conv)
  note answer = this
  show ?thesis
    unfolding CountDistinct generate.simps generate_distinct_def
    by (intro ensures_bind [OF ensures_randInt] ensures_bind [OF ensures_many [OF ensures_randInt]] ensures_return answer) auto
next
  case Fibonacci
  have "correct_test Fibonacci (show_int n, show_int (fib_loop (nat n) 0 1))" if "0 \<le> n" "n \<le> 20" for n
    using that fib_loop_fib [of "nat n" 0] by (auto simp: parse_show_int intro: exI [of _ "nat n"])
  note answer = this
  show ?thesis
    unfolding Fibonacci generate.simps generate_fibonacci_def
    by (intro ensures_bind [OF ensures_randInt] ensures_return answer) auto
qed

end
