(* ===== verification/SeedTables.thy ===== *)
theory SeedTables
  imports Seeds
begin

section \<open>The tables that the seeds fill\<close>

text \<open>
  The problems and contests of \<^verbatim>\<open>prisma/seed-bulk.ts\<close>, with the tests of theory Seeds, and the users and
  submissions of \<^verbatim>\<open>prisma/seed-users-submissions.ts\<close>. Rows are inserted in chunks; a chunk is one
  transaction, which a second row of the same slug makes fail, and then the script ends. Descriptions, hints
  and the code of the submissions are not modelled. Times are milliseconds.
\<close>

subsection \<open>Chunks\<close>

definition CHUNK :: nat where "CHUNK = 500"

definition chunks :: "nat \<Rightarrow> nat list list" where
  "chunks amount = map (\<lambda>k. [k * CHUNK..<min (k * CHUNK + CHUNK) amount]) [0..<(amount + CHUNK - 1) div CHUNK]"

text \<open>
  The rows of a chunk are drawn before the transaction. The result is whether all went in, the table, and the
  generator.
\<close>

fun seed_chunks :: "(nat \<Rightarrow> 'r rand) \<Rightarrow> ('r \<Rightarrow> string) \<Rightarrow> nat list list \<Rightarrow> 'r list \<Rightarrow> 32 word \<Rightarrow> bool \<times> 'r list \<times> 32 word" where
  "seed_chunks row slug [] table g = (True, table, g)"
| "seed_chunks row slug (is # rest) table g =
    (case run_state (State_Monad.traverse_list row is) g of
       (rows, g') \<Rightarrow>
         if distinct (map slug (table @ rows)) then seed_chunks row slug rest (table @ rows) g' else (False, table, g'))"

definition padStart :: "nat \<Rightarrow> string \<Rightarrow> string" where
  "padStart w s = replicate (w - length s) (CHR ''0'') @ s"

subsection \<open>Bulk problems\<close>

definition TOPICS :: "string list" where
  "TOPICS = [''array'', ''string'', ''hash-table'', ''dynamic-programming'', ''math'', ''sorting'', ''greedy'',
     ''depth-first-search'', ''binary-search'', ''tree'', ''breadth-first-search'', ''two-pointers'', ''bit-manipulation'', ''stack'',
     ''design'', ''graph'', ''linked-list'', ''heap'', ''recursion'', ''sliding-window'', ''union-find'',
     ''trie'', ''backtracking'', ''divide-and-conquer'', ''segment-tree'', ''queue'', ''geometry'', ''topological-sort'',
     ''shortest-path'', ''minimum-spanning-tree'', ''matrix'', ''simulation'', ''bit-mask'', ''memoization'', ''monotonic-stack'',
     ''rolling-hash'', ''ordered-set'', ''prefix-sum'', ''suffix-array'', ''knapsack'']"

definition DIFFICULTIES :: "string list" where
  "DIFFICULTIES = [''easy'', ''medium'', ''hard'']"

record seeded_test =
  st_input :: string
  st_expected :: string
  st_hidden :: bool
  st_order :: nat

record seeded_problem =
  sp_template :: template
  sp_title :: string
  sp_slug :: string
  sp_difficulty :: string
  sp_order :: nat
  sp_tests :: "seeded_test list"
  sp_tags :: "string list"

definition seeded_tests :: "template \<Rightarrow> bool \<Rightarrow> nat \<Rightarrow> nat \<Rightarrow> seeded_test list rand" where
  "seeded_tests t hidden first n = State_Monad.traverse_list
     (\<lambda>j. do { tc \<leftarrow> generate t;
       State_Monad.return \<lparr>st_input = fst tc, st_expected = snd tc, st_hidden = hidden, st_order = j + first\<rparr> }) [0..<n]"

text \<open>The members of a \<^verbatim>\<open>Set\<close>, in the order of their first insertion.\<close>

definition js_set :: "'a list \<Rightarrow> 'a list" where
  "js_set xs = rev (remdups (rev xs))"

definition bulk_idx :: "nat \<Rightarrow> nat \<Rightarrow> string" where
  "bulk_idx w i = padStart w (show_nat (i + 1))"

definition bulk_problem :: "nat \<Rightarrow> seeded_problem rand" where
  "bulk_problem i =
    (let t = TEMPLATES ! (i mod length TEMPLATES)
     in do {
       title \<leftarrow> pick (template_titles t);
       difficulty \<leftarrow> pick DIFFICULTIES;
       visibleTests \<leftarrow> seeded_tests t False 0 3;
       hiddenTests \<leftarrow> seeded_tests t True 3 5;
       x \<leftarrow> rng;
       slugs \<leftarrow> many (1 + nat \<lfloor>x * 3\<rfloor>) (pick TOPICS);
       State_Monad.return \<lparr>sp_template = t, sp_title = title @ '' #'' @ bulk_idx 5 i,
         sp_slug = ''bulk-'' @ bulk_idx 5 i @ ''-'' @ template_slug t, sp_difficulty = difficulty, sp_order = i,
         sp_tests = visibleTests @ hiddenTests, sp_tags = js_set slugs\<rparr> })"

definition seedProblems :: "nat \<Rightarrow> seeded_problem list \<Rightarrow> 32 word \<Rightarrow> bool \<times> seeded_problem list \<times> 32 word" where
  "seedProblems amount = seed_chunks bulk_problem sp_slug (chunks amount)"

subsection \<open>Bulk contests\<close>

definition CONTEST_TITLE_PATTERNS :: "string list" where
  "CONTEST_TITLE_PATTERNS = [''Weekly Contest'', ''Biweekly Contest'', ''LeetRank Cup'', ''Daily Challenge'', ''Algorithm Sprint'', ''Speed Round'']"

definition CONTEST_DURATIONS_MIN :: "int list" where
  "CONTEST_DURATIONS_MIN = [60, 90, 120, 180]"

record 'p seeded_contest =
  sc_title :: string
  sc_slug :: string
  sc_startTime :: int
  sc_endTime :: int
  sc_status :: string
  sc_problems :: "('p \<times> nat \<times> nat) list"

text \<open>The status, the start and the duration, the minutes of two years and of thirty days among the bounds.\<close>

definition contest_window :: "int \<Rightarrow> (string \<times> int \<times> int) rand" where
  "contest_window now = do {
     roll \<leftarrow> rng;
     if roll < 1 / 10 then do { m \<leftarrow> randInt 0 60; State_Monad.return (''active'', now - m * 60 * 1000, 60 * 60 * 1000 * 2) }
     else if roll < 3 / 10 then do {
       m \<leftarrow> randInt 60 43200; d \<leftarrow> pick CONTEST_DURATIONS_MIN; State_Monad.return (''upcoming'', now + m * 60000, d * 60000) }
     else do {
       m \<leftarrow> randInt 60 1051200; d \<leftarrow> pick CONTEST_DURATIONS_MIN; State_Monad.return (''ended'', now - m * 60000, d * 60000) } }"

text \<open>At most twenty attempts to draw that many different problems.\<close>

fun draw_problems :: "nat \<Rightarrow> nat \<Rightarrow> 'p list \<Rightarrow> 'p list \<Rightarrow> 'p list rand" where
  "draw_problems 0 numProblems problemIds problemSet = State_Monad.return problemSet"
| "draw_problems (Suc attempts) numProblems problemIds problemSet =
    (if length problemSet < numProblems then do {
       candidate \<leftarrow> pick problemIds;
       draw_problems attempts numProblems problemIds
         (if candidate \<in> set problemSet then problemSet else problemSet @ [candidate]) }
     else State_Monad.return problemSet)"

text \<open>\<^verbatim>\<open>replace(/\s+/g, "-")\<close>.\<close>

function dashed :: "string \<Rightarrow> string" where
  "dashed [] = []"
| "dashed (c # s) = (if is_space c then CHR ''-'' # dashed (dropWhile is_space s) else c # dashed s)"
  by pat_completeness auto
termination by (relation "measure length") (auto simp: less_Suc_eq_le length_dropWhile_le)

definition bulk_contest :: "int \<Rightarrow> 'p list \<Rightarrow> nat \<Rightarrow> 'p seeded_contest rand" where
  "bulk_contest now problemIds i = do {
     w \<leftarrow> contest_window now;
     numProblems \<leftarrow> randInt 4 6;
     problemSet \<leftarrow> draw_problems 20 (nat numProblems) problemIds [];
     titlePattern \<leftarrow> pick CONTEST_TITLE_PATTERNS;
     State_Monad.return \<lparr>sc_title = titlePattern @ '' '' @ bulk_idx 4 i,
       sc_slug = ''bulk-contest-'' @ bulk_idx 4 i @ ''-'' @ dashed (map lower_char titlePattern),
       sc_startTime = fst (snd w), sc_endTime = fst (snd w) + snd (snd w), sc_status = fst w,
       sc_problems = map (\<lambda>(order, p). (p, order, 100 * (order + 1))) (enumerate 0 problemSet)\<rparr> }"

definition seedContests :: "int \<Rightarrow> 'p list \<Rightarrow> nat \<Rightarrow> 'p seeded_contest list \<Rightarrow> 32 word \<Rightarrow> bool \<times> 'p seeded_contest list \<times> 32 word" where
  "seedContests now problemIds amount table g =
    (if problemIds = [] then (True, table, g) else seed_chunks (bulk_contest now problemIds) sc_slug (chunks amount) table g)"

text \<open>
  The script, over the tables of problems and contests: the generator runs on from the problems to the
  contests. The ids of the created problems are named by their slugs here.
\<close>

definition BULK_SEED :: "32 word" where "BULK_SEED = 0xc0dec0de"

definition bulk_main :: "int \<Rightarrow> nat \<Rightarrow> nat \<Rightarrow> bool \<times> seeded_problem list \<times> string seeded_contest list" where
  "bulk_main now problemCount contestCount =
    (case seedProblems problemCount [] BULK_SEED of
       (False, ps, g) \<Rightarrow> (False, ps, [])
     | (True, ps, g) \<Rightarrow> (case seedContests now (map sp_slug ps) contestCount [] g of (ok, cs, _) \<Rightarrow> (ok, ps, cs)))"

subsection \<open>What a chunk leaves\<close>

lemma concat_chunks: "concat (chunks amount) = [0..<amount]"
proof -
  have "concat (map (\<lambda>k. [k * CHUNK..<min (k * CHUNK + CHUNK) amount]) [0..<n]) = [0..<min (n * CHUNK) amount]" for n
  proof (induction n)
    case (Suc n)
    have e: "Suc n * CHUNK = n * CHUNK + CHUNK" by simp
    show ?case
    proof (cases "n * CHUNK \<le> amount")
      case True
      then have "[0..<n * CHUNK] @ [n * CHUNK..<min (n * CHUNK + CHUNK) amount] = [0..<min (n * CHUNK + CHUNK) amount]"
        using upt_add_eq_append [of 0 "n * CHUNK" "min (n * CHUNK + CHUNK) amount - n * CHUNK"] by simp
      then show ?thesis using True Suc unfolding e by simp
    next
      case False
      then show ?thesis using Suc unfolding e by simp
    qed
  qed simp
  moreover have "amount \<le> (amount + CHUNK - 1) div CHUNK * CHUNK"
  proof -
    have "amount + CHUNK - 1 < (amount + CHUNK - 1) div CHUNK * CHUNK + CHUNK"
      using mod_less_divisor [of CHUNK "amount + CHUNK - 1"] div_mult_mod_eq [of "amount + CHUNK - 1" CHUNK] by (simp add: CHUNK_def)
    then show ?thesis by (simp add: CHUNK_def)
  qed
  ultimately show ?thesis unfolding chunks_def by (simp add: min_absorb2)
qed

lemma traverse_slugs:
  assumes "\<And>i. ensures (\<lambda>r. key (slug r) = name i) (row i)"
  shows "map key (map slug (fst (run_state (State_Monad.traverse_list row is) g))) = map name is"
proof -
  have "ensures (\<lambda>rs. list_all2 (\<lambda>i r. key (slug r) = name i) is rs) (State_Monad.traverse_list row is)"
    by (rule ensures_traverse) (rule assms)
  then have "list_all2 (\<lambda>i r. key (slug r) = name i) is (fst (run_state (State_Monad.traverse_list row is) g))"
    by (simp add: ensures_def)
  then show ?thesis by (induction rule: list_all2_induct) simp_all
qed

text \<open>The slugs of a table do not meet when some part of them tells the rows apart.\<close>

lemma seed_chunks_all:
  assumes "\<And>i. ensures (\<lambda>r. key (slug r) = name i) (row i)"
  shows "distinct (map key (map slug table) @ map name (concat cs)) \<Longrightarrow>
    seed_chunks row slug cs table g =
      (case run_state (State_Monad.traverse_list row (concat cs)) g of (rows, g') \<Rightarrow> (True, table @ rows, g'))"
proof (induction cs arbitrary: table g)
  case (Cons c cs)
  obtain rows g' where r: "run_state (State_Monad.traverse_list row c) g = (rows, g')" by (metis prod.exhaust)
  have n: "map key (map slug rows) = map name c" using traverse_slugs [of key slug name row c g] assms by (simp add: r)
  have d: "distinct (map key (map slug (table @ rows)) @ map name (concat cs))" using Cons.prems n by simp
  note rest = Cons.IH [OF this]
  have "distinct (map slug (table @ rows))" using d by (metis distinct_append distinct_map)
  then show ?case using rest by (simp add: r case_prod_beta)
qed simp

lemma seed_chunks_fails:
  assumes "\<And>i. ensures (\<lambda>r. slug r = name i) (row i)" "i \<in> set c" "name i \<in> slug ` set table"
  shows "fst (seed_chunks row slug (c # cs) table g) = False \<and> fst (snd (seed_chunks row slug (c # cs) table g)) = table"
proof -
  obtain rows g' where r: "run_state (State_Monad.traverse_list row c) g = (rows, g')" by (metis prod.exhaust)
  have n: "map slug rows = map name c" using traverse_slugs [of "\<lambda>s. s" slug name row c g] assms(1) by (simp add: r)
  have "name i \<in> slug ` set rows" using arg_cong [OF n, of set] assms(2) by force
  then have "slug ` set table \<inter> slug ` set rows \<noteq> {}" using assms(3) by blast
  then have "\<not> distinct (map slug (table @ rows))" by simp
  then show ?thesis by (simp add: r del: map_append distinct_append)
qed

text \<open>The rows that a table gets, and that more rows begin with the same.\<close>

definition drawn_rows :: "(nat \<Rightarrow> 'r rand) \<Rightarrow> nat \<Rightarrow> 32 word \<Rightarrow> 'r list" where
  "drawn_rows row n g = fst (run_state (State_Monad.traverse_list row [0..<n]) g)"

lemma drawn_rows_length: "length (drawn_rows row n g) = n"
proof -
  have "ensures (\<lambda>rs. list_all2 (\<lambda>_ _. True) [0..<n] rs) (State_Monad.traverse_list row [0..<n])"
    by (rule ensures_traverse) (simp add: ensures_def)
  then have "list_all2 (\<lambda>_ _. True) [0..<n] (drawn_rows row n g)" by (simp add: ensures_def drawn_rows_def)
  then show ?thesis by (auto dest: list_all2_lengthD)
qed

lemma drawn_rows_nth:
  assumes "\<And>i. ensures (P i) (row i)" "i < n"
  shows "P i (drawn_rows row n g ! i)"
proof -
  have "ensures (\<lambda>rs. list_all2 P [0..<n] rs) (State_Monad.traverse_list row [0..<n])"
    by (rule ensures_traverse) (rule assms)
  then have "list_all2 P [0..<n] (drawn_rows row n g)" by (simp add: ensures_def drawn_rows_def)
  then show ?thesis using assms(2) list_all2_nthD [of P "[0..<n]"] by fastforce
qed

lemma drawn_rows_prefix: "take n (drawn_rows row (n + k) g) = drawn_rows row n g"
proof -
  have "drawn_rows row (n + k) g = drawn_rows row n g @ rest" if "rest = fst (run_state (State_Monad.traverse_list row [n..<n + k])
      (snd (run_state (State_Monad.traverse_list row [0..<n]) g)))" for rest
    unfolding that drawn_rows_def upt_add_eq_append [OF le0] by (simp add: case_prod_beta)
  then show ?thesis by (simp add: drawn_rows_length)
qed

text \<open>Numbers, padded or not, name different rows.\<close>

lemma read_padded: "read_nat (padStart w s) = read_nat s"
proof -
  have "foldl (\<lambda>a c. 10 * a + (of_char c - 48 :: nat)) 0 (replicate k (CHR ''0'')) = 0" for k
    by (induction k) simp_all
  then show ?thesis by (simp add: read_nat_def padStart_def)
qed

lemma bulk_idx_inject: "bulk_idx w i = bulk_idx w j \<longleftrightarrow> i = j"
  by (metis Suc_eq_plus1 bulk_idx_def nat.inject read_padded read_show_nat)

lemma bulk_idx_plain: "CHR ''-'' \<notin> set (bulk_idx w i)"
  using digits_show_nat [of "i + 1"] by (auto simp: bulk_idx_def padStart_def list_all_iff is_digit_def)

subsection \<open>The problems\<close>

definition good_tests :: "template \<Rightarrow> bool \<Rightarrow> nat \<Rightarrow> nat \<Rightarrow> seeded_test list \<Rightarrow> bool" where
  "good_tests t hidden first n ts \<longleftrightarrow>
     list_all2 (\<lambda>j x. st_order x = j \<and> st_hidden x = hidden \<and> correct_test t (st_input x, st_expected x)) [first..<first + n] ts"

definition good_problem :: "nat \<Rightarrow> seeded_problem \<Rightarrow> bool" where
  "good_problem i p \<longleftrightarrow>
     sp_template p = TEMPLATES ! (i mod 5) \<and> sp_order p = i \<and> sp_difficulty p \<in> set DIFFICULTIES \<and>
     sp_slug p = ''bulk-'' @ bulk_idx 5 i @ ''-'' @ template_slug (sp_template p) \<and>
     good_tests (sp_template p) False 0 3 (take 3 (sp_tests p)) \<and> good_tests (sp_template p) True 3 5 (drop 3 (sp_tests p)) \<and>
     sp_tags p \<noteq> [] \<and> length (sp_tags p) \<le> 3 \<and> distinct (sp_tags p) \<and> set (sp_tags p) \<subseteq> set TOPICS"

lemma seeded_tests_good: "ensures (good_tests t hidden first n) (seeded_tests t hidden first n)"
proof -
  have "ensures (\<lambda>x. st_order x = j + first \<and> st_hidden x = hidden \<and> correct_test t (st_input x, st_expected x))
      (do { tc \<leftarrow> generate t; State_Monad.return \<lparr>st_input = fst tc, st_expected = snd tc, st_hidden = hidden, st_order = j + first\<rparr> })" for j
    by (rule ensures_bind [OF generated_correct], rule ensures_return) simp
  then have "ensures (\<lambda>ts. list_all2 (\<lambda>j x. st_order x = j + first \<and> st_hidden x = hidden \<and> correct_test t (st_input x, st_expected x)) [0..<n] ts)
      (seeded_tests t hidden first n)"
    unfolding seeded_tests_def by (rule ensures_traverse)
  then show ?thesis
    by (rule ensures_mono) (auto simp: good_tests_def list_all2_conv_all_nth add.commute)
qed

lemma js_set_simps: "set (js_set xs) = set xs" "distinct (js_set xs)" "length (js_set xs) \<le> length xs" "js_set xs = [] \<longleftrightarrow> xs = []"
  by (auto simp: js_set_def intro: order_trans [OF length_remdups_leq])

lemma good_tests_length: "good_tests t h k n ts \<Longrightarrow> length ts = n"
  by (auto simp: good_tests_def dest: list_all2_lengthD)

lemma template_titles_ne: "template_titles t \<noteq> []"
  by (cases t) simp_all

lemma bulk_problem_good: "ensures (good_problem i) (bulk_problem i)"
proof -
  have few: "nat \<lfloor>x * 3\<rfloor> \<le> 2" if "0 \<le> x \<and> x < 1" for x :: rat
  proof -
    have "\<lfloor>x * of_int 3\<rfloor> < 3" using floor_times [of x 3] that by simp
    then show ?thesis unfolding of_int_numeral by linarith
  qed
  show ?thesis
    unfolding bulk_problem_def Let_def
  proof (intro ensures_bind [OF ensures_pick] ensures_bind [OF seeded_tests_good] ensures_bind [OF ensures_rng]
      ensures_bind [OF ensures_many [OF ensures_pick]] ensures_return template_titles_ne)
    fix title difficulty vs hs slugs and x :: rat
    let ?t = "TEMPLATES ! (i mod length TEMPLATES)"
    assume a: "difficulty \<in> set DIFFICULTIES" "good_tests ?t False 0 3 vs" "good_tests ?t True 3 5 hs" "0 \<le> x \<and> x < 1"
      "length slugs = 1 + nat \<lfloor>x * 3\<rfloor> \<and> list_all (\<lambda>t. t \<in> set TOPICS) slugs"
    have "length slugs \<le> 3" "slugs \<noteq> []" using a(5) few [OF a(4)] by auto
    moreover have "length vs = 3" using a(2) by (rule good_tests_length)
    ultimately show "good_problem i \<lparr>sp_template = ?t, sp_title = title @ '' #'' @ bulk_idx 5 i,
        sp_slug = ''bulk-'' @ bulk_idx 5 i @ ''-'' @ template_slug ?t, sp_difficulty = difficulty, sp_order = i, sp_tests = vs @ hs,
        sp_tags = js_set slugs\<rparr>"
      using a js_set_simps [of slugs] by (auto simp: good_problem_def TEMPLATES_def list_all_iff)
  qed (simp_all add: DIFFICULTIES_def TOPICS_def)
qed

definition bulk_name :: "nat \<Rightarrow> string" where
  "bulk_name i = ''bulk-'' @ bulk_idx 5 i @ ''-'' @ template_slug (TEMPLATES ! (i mod 5))"

lemma bulk_name_inject: "bulk_name i = bulk_name j \<longleftrightarrow> i = j"
proof
  assume "bulk_name i = bulk_name j"
  then have "bulk_idx 5 i @ CHR ''-'' # template_slug (TEMPLATES ! (i mod 5)) = bulk_idx 5 j @ CHR ''-'' # template_slug (TEMPLATES ! (j mod 5))"
    by (simp add: bulk_name_def)
  then have "bulk_idx 5 i = bulk_idx 5 j" using split_at_char [OF bulk_idx_plain bulk_idx_plain] by blast
  then show "i = j" by (simp add: bulk_idx_inject)
qed simp

lemma bulk_problem_name: "ensures (\<lambda>p. sp_slug p = bulk_name i) (bulk_problem i)"
  by (rule ensures_mono [OF bulk_problem_good]) (auto simp: good_problem_def bulk_name_def)

lemma bulk_slugs: "map sp_slug (drawn_rows bulk_problem n g) = map bulk_name [0..<n]"
  using traverse_slugs [of "\<lambda>s. s" sp_slug bulk_name bulk_problem] bulk_problem_name by (simp add: drawn_rows_def)

lemma seedProblems_run:
  "seedProblems n [] g = (True, drawn_rows bulk_problem n g, snd (run_state (State_Monad.traverse_list bulk_problem [0..<n]) g))"
proof -
  have "distinct (map bulk_name [0..<n])" by (simp add: distinct_map inj_on_def bulk_name_inject)
  then show ?thesis
    using seed_chunks_all [where key = "\<lambda>s. s" and slug = sp_slug and name = bulk_name and row = bulk_problem and table = "[]" and cs = "chunks n" and g = g]
      bulk_problem_name
    by (simp add: seedProblems_def concat_chunks drawn_rows_def case_prod_beta)
qed

text \<open>
  C38. The bulk problems are sound. On an empty table, whatever the state of the generator and however many
  problems are asked for, all chunks go in, with different slugs; each problem has its template, three visible and
  five hidden tests in order, one to three different tags and a difficulty; the expected output of every test is the
  right answer to its input: the greatest sum of a segment of the numbers that the input spells, their sum, the reverse
  of the text, the number of distinct ones, or the Fibonacci number. Asking for more problems, from the same state of the generator, gives the same
  ones first. The contests of the script are not drawn so: their times are counted from the clock.
\<close>

theorem bulk_problems_are_sound:
  "case seedProblems n [] g of
     (ok, ps, g') \<Rightarrow> ok \<and> list_all2 good_problem [0..<n] ps \<and> distinct (map sp_slug ps) \<and> ps = take n (fst (snd (seedProblems (n + k) [] g)))"
proof -
  let ?ps = "drawn_rows bulk_problem n g"
  have good: "list_all2 good_problem [0..<n] ?ps"
    using drawn_rows_nth [of good_problem bulk_problem, OF bulk_problem_good] by (simp add: list_all2_conv_all_nth drawn_rows_length)
  have "distinct (map sp_slug ?ps)" by (simp add: bulk_slugs distinct_map inj_on_def bulk_name_inject)
  then show ?thesis using good drawn_rows_prefix [of n bulk_problem k g] by (simp add: seedProblems_run)
qed

text \<open>The script cannot run twice: the first problem is there, the first chunk fails, and nothing is inserted.\<close>

lemma bulk_seed_runs_once:
  assumes "fst (snd (seedProblems (Suc n) [] g)) = ps"
  shows "fst (seedProblems (Suc m) ps g') = False \<and> fst (snd (seedProblems (Suc m) ps g')) = ps"
proof -
  have "chunks (Suc m) = [0..<min CHUNK (Suc m)] # tl (chunks (Suc m))"
  proof -
    have "(Suc m + CHUNK - 1) div CHUNK = Suc (m div 500)" by (simp add: CHUNK_def)
    moreover have "[0..<Suc k] = 0 # [1..<Suc k]" for k by (simp add: upt_conv_Cons)
    ultimately show ?thesis unfolding chunks_def by (simp only: list.map list.sel mult_0 add_0)
  qed
  note first = this
  have there: "bulk_name 0 \<in> sp_slug ` set ps"
  proof -
    have "ps = drawn_rows bulk_problem (Suc n) g" using assms by (simp only: seedProblems_run fst_conv snd_conv)
    moreover have "bulk_name 0 \<in> set (map bulk_name [0..<Suc n])" unfolding set_map by (rule imageI, simp, arith)
    ultimately have "bulk_name 0 \<in> set (map sp_slug ps)" by (simp only: bulk_slugs)
    then show ?thesis by simp
  qed
  have "0 \<in> set [0..<min CHUNK (Suc m)]" unfolding CHUNK_def by (simp, arith)
  from seed_chunks_fails [where name = bulk_name, OF bulk_problem_name this there]
  have "fst (seed_chunks bulk_problem sp_slug ([0..<min CHUNK (Suc m)] # tl (chunks (Suc m))) ps g') = False \<and>
      fst (snd (seed_chunks bulk_problem sp_slug ([0..<min CHUNK (Suc m)] # tl (chunks (Suc m))) ps g')) = ps" .
  then show ?thesis unfolding seedProblems_def by (simp only: first [symmetric])
qed

subsection \<open>The contests\<close>

text \<open>What holds of a contest's window: the last case lets an ended contest end in the future.\<close>

definition good_window :: "int \<Rightarrow> string \<Rightarrow> int \<Rightarrow> int \<Rightarrow> bool" where
  "good_window now status start end_time \<longleftrightarrow>
     status = ''active'' \<and> start \<le> now \<and> now + 3600000 \<le> end_time \<and> end_time = start + 7200000 \<or>
     status = ''upcoming'' \<and> now + 3600000 \<le> start \<and> start \<le> now + 2592000000 \<and> start < end_time \<or>
     status = ''ended'' \<and> start \<le> now - 3600000 \<and> start < end_time \<and> end_time \<le> now + 7200000"

definition good_contest :: "int \<Rightarrow> 'p list \<Rightarrow> nat \<Rightarrow> 'p seeded_contest \<Rightarrow> bool" where
  "good_contest now problemIds i c \<longleftrightarrow>
     good_window now (sc_status c) (sc_startTime c) (sc_endTime c) \<and>
     distinct (map fst (sc_problems c)) \<and> set (map fst (sc_problems c)) \<subseteq> set problemIds \<and> length (sc_problems c) \<le> 6 \<and>
     map snd (sc_problems c) = map (\<lambda>k. (k, 100 * (k + 1))) [0..<length (sc_problems c)] \<and>
     (\<exists>title \<in> set CONTEST_TITLE_PATTERNS. sc_title c = title @ '' '' @ bulk_idx 4 i \<and>
        sc_slug c = ''bulk-contest-'' @ bulk_idx 4 i @ ''-'' @ dashed (map lower_char title))"

lemma window_good: "ensures (\<lambda>w. good_window now (fst w) (fst (snd w)) (fst (snd w) + snd (snd w))) (contest_window now)"
proof -
  have d: "d \<in> {60, 90, 120, 180}" if "d \<in> set CONTEST_DURATIONS_MIN" for d using that by (simp add: CONTEST_DURATIONS_MIN_def)
  have "ensures (\<lambda>w. good_window now (fst w) (fst (snd w)) (fst (snd w) + snd (snd w)))
      (do { m \<leftarrow> randInt 0 60; State_Monad.return (''active'', now - m * 60 * 1000, 60 * 60 * 1000 * 2) })"
    by (rule ensures_bind [OF ensures_randInt]) (auto intro!: ensures_return simp: good_window_def)
  moreover have "ensures (\<lambda>w. good_window now (fst w) (fst (snd w)) (fst (snd w) + snd (snd w)))
      (do { m \<leftarrow> randInt 60 43200; d \<leftarrow> pick CONTEST_DURATIONS_MIN; State_Monad.return (''upcoming'', now + m * 60000, d * 60000) })"
    by (intro ensures_bind [OF ensures_randInt] ensures_bind [OF ensures_pick] ensures_return)
      (auto simp: good_window_def CONTEST_DURATIONS_MIN_def)
  moreover have "ensures (\<lambda>w. good_window now (fst w) (fst (snd w)) (fst (snd w) + snd (snd w)))
      (do { m \<leftarrow> randInt 60 1051200; d \<leftarrow> pick CONTEST_DURATIONS_MIN; State_Monad.return (''ended'', now - m * 60000, d * 60000) })"
    by (intro ensures_bind [OF ensures_randInt] ensures_bind [OF ensures_pick] ensures_return)
      (auto simp: good_window_def CONTEST_DURATIONS_MIN_def)
  ultimately show ?thesis
    unfolding contest_window_def by (intro ensures_bind [OF ensures_rng]) simp
qed

lemma drawn_problems_good:
  "problemIds \<noteq> [] \<Longrightarrow> distinct ps \<Longrightarrow> set ps \<subseteq> set problemIds \<Longrightarrow> length ps \<le> m \<Longrightarrow>
    ensures (\<lambda>ps. distinct ps \<and> set ps \<subseteq> set problemIds \<and> length ps \<le> m) (draw_problems attempts m problemIds ps)"
proof (induction attempts m problemIds ps rule: draw_problems.induct)
  case (2 attempts m problemIds ps)
  then show ?case
    by (auto intro!: ensures_bind [OF ensures_pick] ensures_return)
qed (auto intro: ensures_return)

lemma bulk_contest_good: "problemIds \<noteq> [] \<Longrightarrow> ensures (good_contest now problemIds i) (bulk_contest now problemIds i)"
  unfolding bulk_contest_def
proof (intro ensures_bind [OF window_good] ensures_bind [OF ensures_randInt] ensures_bind [OF drawn_problems_good]
    ensures_bind [OF ensures_pick] ensures_return)
  fix w m ps title
  assume a: "good_window now (fst w) (fst (snd w)) (fst (snd w) + snd (snd w))" "4 \<le> m \<and> m \<le> (6::int)"
    "distinct ps \<and> set ps \<subseteq> set problemIds \<and> length ps \<le> nat m" "title \<in> set CONTEST_TITLE_PATTERNS"
  have "map fst (map (\<lambda>(order, p). (p, order, 100 * (order + 1))) (enumerate 0 ps)) = ps"
    "map snd (map (\<lambda>(order, p). (p, order, 100 * (order + 1))) (enumerate 0 ps)) = map (\<lambda>k. (k, 100 * (k + 1))) [0..<length ps]"
    by (auto intro!: nth_equalityI simp: nth_enumerate_eq)
  moreover have "length ps \<le> 6" using a(2,3) by linarith
  ultimately show "good_contest now problemIds i \<lparr>sc_title = title @ '' '' @ bulk_idx 4 i,
      sc_slug = ''bulk-contest-'' @ bulk_idx 4 i @ ''-'' @ dashed (map lower_char title), sc_startTime = fst (snd w),
      sc_endTime = fst (snd w) + snd (snd w), sc_status = fst w,
      sc_problems = map (\<lambda>(order, p). (p, order, 100 * (order + 1))) (enumerate 0 ps)\<rparr>"
    using a unfolding good_contest_def by simp
qed (simp_all add: CONTEST_TITLE_PATTERNS_def)

text \<open>The number in a slug tells the contests apart.\<close>

definition contest_key :: "string \<Rightarrow> string" where
  "contest_key slug = takeWhile (\<lambda>c. c \<noteq> CHR ''-'') (drop 13 slug)"

lemma contest_key_slug: "contest_key (''bulk-contest-'' @ bulk_idx w i @ ''-'' @ rest) = bulk_idx w i"
proof -
  have "takeWhile (\<lambda>c. c \<noteq> CHR ''-'') (a @ CHR ''-'' # b) = a" if "CHR ''-'' \<notin> set a" for a b
    using that by (induction a) auto
  then show ?thesis using bulk_idx_plain by (simp add: contest_key_def)
qed

theorem bulk_contests_are_sound:
  assumes "problemIds \<noteq> []"
  shows "case seedContests now problemIds n [] g of
    (ok, cs, g') \<Rightarrow> ok \<and> list_all2 (good_contest now problemIds) [0..<n] cs \<and> distinct (map sc_slug cs)"
proof -
  let ?row = "bulk_contest now problemIds"
  have key: "ensures (\<lambda>c. contest_key (sc_slug c) = bulk_idx 4 i) (?row i)" for i
  proof (rule ensures_mono [OF bulk_contest_good [OF assms]])
    fix c assume "good_contest now problemIds i c"
    then obtain title where "sc_slug c = ''bulk-contest-'' @ bulk_idx 4 i @ ''-'' @ dashed (map lower_char title)"
      unfolding good_contest_def by blast
    then show "contest_key (sc_slug c) = bulk_idx 4 i" by (simp only: contest_key_slug)
  qed
  have d: "distinct (map (bulk_idx 4) [0..<n])" by (simp add: distinct_map inj_on_def bulk_idx_inject)
  have "seed_chunks ?row sc_slug (chunks n) [] g =
      (case run_state (State_Monad.traverse_list ?row (concat (chunks n))) g of (rows, g') \<Rightarrow> (True, [] @ rows, g'))"
    by (rule seed_chunks_all [where key = contest_key and name = "bulk_idx 4", OF key]) (simp add: concat_chunks d)
  then have r: "seedContests now problemIds n [] g = (True, drawn_rows ?row n g, snd (run_state (State_Monad.traverse_list ?row [0..<n]) g))"
    using assms by (simp add: seedContests_def concat_chunks drawn_rows_def case_prod_beta)
  have "list_all2 (good_contest now problemIds) [0..<n] (drawn_rows ?row n g)"
    using drawn_rows_nth [of "good_contest now problemIds" ?row, OF bulk_contest_good [OF assms]]
    by (simp add: list_all2_conv_all_nth drawn_rows_length)
  moreover have "map contest_key (map sc_slug (drawn_rows ?row n g)) = map (bulk_idx 4) [0..<n]"
    unfolding drawn_rows_def by (rule traverse_slugs [where name = "bulk_idx 4"]) (rule key)
  then have "distinct (map sc_slug (drawn_rows ?row n g))" using d by (metis distinct_map)
  ultimately show ?thesis by (simp add: r)
qed

text \<open>
  The statuses do not always fit the times: a contest that is called ended may still run, here until 58 minutes
  from now.
\<close>

lemma ended_contest_may_still_run:
  "fst (run_state (contest_window 0) 4771) = (''ended'', - 62 * 60000, 120 * 60000)"
proof -
  have "mulberry 4771 = (3761873476, 1831570584)" "mulberry 1831570584 = (10601, 3663136397)"
    "mulberry 3663136397 = (2647235768, 1199734914)"
    by (simp_all add: mulberry_def Let_def)
  then show ?thesis by (simp add: contest_window_def rng_def run_randInt run_pick CONTEST_DURATIONS_MIN_def)
qed

subsection \<open>Users and submissions\<close>

definition USERS_SEED :: "32 word" where "USERS_SEED = 0xfadecafe"

definition FIRST_NAMES :: "string list" where
  "FIRST_NAMES = [''Alex'', ''Jordan'', ''Taylor'', ''Morgan'', ''Casey'', ''Riley'', ''Quinn'', ''Avery'', ''Harper'',
     ''Skyler'', ''Dakota'', ''Reese'', ''Finley'', ''Rowan'', ''Sage'', ''Blake'', ''Cameron'', ''Drew'',
     ''Emery'', ''Hayden'', ''Jamie'', ''Kendall'', ''Logan'', ''Micah'', ''Noel'', ''Parker'', ''River'',
     ''Shawn'', ''Tatum'', ''Val'', ''Wren'', ''Zion'', ''Aiden'', ''Bella'', ''Caleb'', ''Diana'',
     ''Ethan'', ''Fiona'', ''Gavin'', ''Hannah'', ''Isaac'', ''Julia'', ''Kevin'', ''Luna'', ''Mason'',
     ''Nina'', ''Oscar'', ''Priya'']"

definition LAST_NAMES :: "string list" where
  "LAST_NAMES = [''Chen'', ''Kim'', ''Patel'', ''Garcia'', ''Nguyen'', ''Smith'', ''Lee'', ''Johnson'', ''Williams'',
     ''Brown'', ''Jones'', ''Davis'', ''Miller'', ''Wilson'', ''Moore'', ''Taylor'', ''Anderson'', ''Thomas'',
     ''Jackson'', ''White'', ''Harris'', ''Martin'', ''Thompson'', ''Robinson'', ''Clark'', ''Lewis'', ''Walker'',
     ''Hall'', ''Allen'', ''Young'', ''King'', ''Wright'', ''Lopez'', ''Hill'', ''Scott'', ''Green'',
     ''Adams'', ''Baker'', ''Nelson'', ''Carter'', ''Mitchell'', ''Perez'', ''Roberts'', ''Turner'', ''Phillips'',
     ''Campbell'', ''Parker'', ''Evans'', ''Edwards'', ''Collins'', ''Stewart'', ''Sanchez'', ''Morris'']"

definition STATUSES :: "string list" where
  "STATUSES = [''ACCEPTED'', ''WRONG_ANSWER'', ''TIME_LIMIT_EXCEEDED'', ''RUNTIME_ERROR'', ''COMPILE_ERROR'', ''PENDING'']"

definition STATUS_CDF :: "rat list" where
  "STATUS_CDF = [45/100, 75/100, 85/100, 93/100, 98/100, 1]"

fun status_at :: "rat \<Rightarrow> (rat \<times> string) list \<Rightarrow> string" where
  "status_at r [] = ''PENDING''"
| "status_at r ((bound, status) # rest) = (if r < bound then status else status_at r rest)"

definition pickStatus :: "string rand" where
  "pickStatus = do { r \<leftarrow> rng; State_Monad.return (status_at r (zip STATUS_CDF STATUSES)) }"

definition SEED_LANGUAGES :: "string list" where
  "SEED_LANGUAGES = [''python'', ''javascript'', ''typescript'', ''go'', ''java'', ''cpp'']"

definition pickRole :: "string rand" where
  "pickRole = do { r \<leftarrow> rng; State_Monad.return (if r < 1 / 100 then ''admin'' else if r < 5 / 100 then ''moderator'' else ''user'') }"

definition SIX_MONTHS_MS :: int where "SIX_MONTHS_MS = 6 * 30 * 24 * 60 * 60 * 1000"

record seeded_user =
  su_email :: string
  su_username :: string
  su_role :: string
  su_bio :: string
  su_rating :: int
  su_maxRating :: int
  su_ratingDeviation :: int
  su_ratingVolatility :: rat
  su_createdAt :: int

definition seeded_user_row :: "int \<Rightarrow> nat \<Rightarrow> seeded_user rand" where
  "seeded_user_row now i = do {
     firstName \<leftarrow> pick FIRST_NAMES;
     lastName \<leftarrow> pick LAST_NAMES;
     x \<leftarrow> rng;
     role \<leftarrow> pickRole;
     rating \<leftarrow> randInt 800 2800;
     maxRating \<leftarrow> randInt 1200 3000;
     deviation \<leftarrow> randInt 50 350;
     v \<leftarrow> rng;
     State_Monad.return \<lparr>su_email = ''user'' @ show_nat i @ ''@leetrank.test'', su_username = ''user_'' @ show_nat i, su_role = role,
       su_bio = ''Hi, I'' @ [CHR 0x27] @ ''m '' @ firstName @ '' '' @ lastName @ ''. I love solving algorithms!'',
       su_rating = rating, su_maxRating = maxRating, su_ratingDeviation = deviation, su_ratingVolatility = 4 / 100 + v * 4 / 100,
       su_createdAt = now - \<lfloor>x * of_int SIX_MONTHS_MS\<rfloor>\<rparr> }"

record ('u, 'p) seeded_submission =
  ss_user :: 'u
  ss_problem :: 'p
  ss_language :: string
  ss_status :: string
  ss_runtime :: "int option"
  ss_memory :: "int option"
  ss_output :: "string option"
  ss_error :: "string option"
  ss_createdAt :: int

definition drawn_if :: "bool \<Rightarrow> int \<Rightarrow> int \<Rightarrow> int option rand" where
  "drawn_if b lo hi = (if b then do { n \<leftarrow> randInt lo hi; State_Monad.return (Some n) } else State_Monad.return None)"

definition seeded_submission_row :: "int \<Rightarrow> 'p list \<Rightarrow> 'u \<Rightarrow> ('u, 'p) seeded_submission rand" where
  "seeded_submission_row now problemIds userId = do {
     status \<leftarrow> pickStatus;
     language \<leftarrow> pick SEED_LANGUAGES;
     problemId \<leftarrow> pick problemIds;
     x \<leftarrow> rng;
     runtime \<leftarrow> drawn_if (status = ''ACCEPTED'') 10 2000;
     memory \<leftarrow> drawn_if (status = ''ACCEPTED'') 1024 262144;
     State_Monad.return \<lparr>ss_user = userId, ss_problem = problemId, ss_language = language, ss_status = status, ss_runtime = runtime,
       ss_memory = memory, ss_output = (if status = ''ACCEPTED'' then Some ''Accepted'' else None),
       ss_error = (if status = ''COMPILE_ERROR'' then Some ''SyntaxError: unexpected token''
          else if status = ''RUNTIME_ERROR'' then Some ''IndexError: list index out of range'' else None),
       ss_createdAt = now - \<lfloor>x * of_int SIX_MONTHS_MS\<rfloor>\<rparr> }"

definition user_submissions :: "int \<Rightarrow> nat \<Rightarrow> 'p list \<Rightarrow> 'u \<Rightarrow> ('u, 'p) seeded_submission list rand" where
  "user_submissions now avg problemIds userId = do {
     subCount \<leftarrow> randInt (max 1 (int avg div 2)) (3 * int avg div 2);
     many (nat subCount) (seeded_submission_row now problemIds userId) }"

text \<open>
  The script: nothing without problems; then the users in chunks, an address that is taken ending it; then the
  submissions of each user, whose batches always go in. The users are named by their addresses here.
\<close>

definition users_main ::
  "int \<Rightarrow> nat \<Rightarrow> nat \<Rightarrow> 'p list \<Rightarrow> seeded_user list \<Rightarrow> bool \<times> seeded_user list \<times> (string, 'p) seeded_submission list" where
  "users_main now amount avg problemIds table =
    (if problemIds = [] then (False, table, [])
     else case seed_chunks (seeded_user_row now) su_email (chunks amount) table USERS_SEED of
       (False, us, g) \<Rightarrow> (False, us, [])
     | (True, us, g) \<Rightarrow>
         (True, us, concat (fst (run_state (State_Monad.traverse_list (\<lambda>u. user_submissions now avg problemIds (su_email u))
            (drop (length table) us)) g))))"

text \<open>
  Every row of the script is well formed, but what it means by a status is not what the application does: none of
  the seeded submissions is accepted, or anything else that the judge says; one role is unknown; and a rating may
  exceed the best rating.
\<close>

definition good_submission :: "int \<Rightarrow> 'p list \<Rightarrow> 'u \<Rightarrow> ('u, 'p) seeded_submission \<Rightarrow> bool" where
  "good_submission now problemIds u s \<longleftrightarrow>
     ss_user s = u \<and> ss_problem s \<in> set problemIds \<and> ss_language s \<in> set SEED_LANGUAGES \<and> ss_status s \<in> set STATUSES \<and>
     (ss_runtime s \<noteq> None \<longleftrightarrow> ss_status s = ''ACCEPTED'') \<and> (ss_memory s \<noteq> None \<longleftrightarrow> ss_status s = ''ACCEPTED'') \<and>
     ss_createdAt s \<le> now \<and> now - SIX_MONTHS_MS < ss_createdAt s"

lemma status_at_in: "status_at r (zip STATUS_CDF STATUSES) \<in> set STATUSES"
  by (simp add: STATUS_CDF_def STATUSES_def)

lemma drawn_if_good: "lo \<le> hi \<Longrightarrow> ensures (\<lambda>x. x \<noteq> None \<longleftrightarrow> b) (drawn_if b lo hi)"
  unfolding drawn_if_def by (auto intro!: ensures_return ensures_bind [OF ensures_randInt])

lemma time_drawn: "0 \<le> x \<and> x < (1::rat) \<Longrightarrow> 0 \<le> \<lfloor>x * of_int SIX_MONTHS_MS\<rfloor> \<and> \<lfloor>x * of_int SIX_MONTHS_MS\<rfloor> < SIX_MONTHS_MS"
  by (rule floor_times) (simp_all add: SIX_MONTHS_MS_def)

lemma submission_good: "problemIds \<noteq> [] \<Longrightarrow> ensures (good_submission now problemIds u) (seeded_submission_row now problemIds u)"
  unfolding seeded_submission_row_def pickStatus_def bind_assoc State_Monad.bind_left_identity
proof (intro ensures_bind [OF ensures_rng] ensures_bind [OF ensures_pick] ensures_bind [OF drawn_if_good] ensures_return)
  fix r x :: rat and language p and runtime memory :: "int option"
  let ?s = "status_at r (zip STATUS_CDF STATUSES)"
  assume a: "language \<in> set SEED_LANGUAGES" "p \<in> set problemIds" "0 \<le> x \<and> x < 1" "(runtime \<noteq> None) = (?s = ''ACCEPTED'')"
    "(memory \<noteq> None) = (?s = ''ACCEPTED'')"
  show "good_submission now problemIds u \<lparr>ss_user = u, ss_problem = p, ss_language = language, ss_status = ?s, ss_runtime = runtime,
       ss_memory = memory, ss_output = (if ?s = ''ACCEPTED'' then Some ''Accepted'' else None),
       ss_error = (if ?s = ''COMPILE_ERROR'' then Some ''SyntaxError: unexpected token''
          else if ?s = ''RUNTIME_ERROR'' then Some ''IndexError: list index out of range'' else None),
       ss_createdAt = now - \<lfloor>x * of_int SIX_MONTHS_MS\<rfloor>\<rparr>"
    unfolding good_submission_def using a time_drawn [OF a(3)] status_at_in [of r] by simp
qed (simp_all add: SEED_LANGUAGES_def)

lemma user_email: "ensures (\<lambda>u. su_email u = ''user'' @ show_nat i @ ''@leetrank.test'') (seeded_user_row now i)"
  unfolding seeded_user_row_def ensures_def by (simp add: case_prod_beta)

lemma user_submissions_good: "problemIds \<noteq> [] \<Longrightarrow> ensures (list_all (good_submission now problemIds u)) (user_submissions now avg problemIds u)"
  unfolding user_submissions_def
proof (rule ensures_bind [where Q = "\<lambda>_. True"])
  fix k :: int assume "problemIds \<noteq> []"
  then show "ensures (list_all (good_submission now problemIds u)) (many (nat k) (seeded_submission_row now problemIds u))"
    by (intro ensures_mono [OF ensures_many [OF submission_good]]) auto
qed (simp add: ensures_def)

theorem seeded_rows_are_well_formed:
  assumes "problemIds \<noteq> []"
  shows "case users_main now n avg problemIds [] of
    (ok, us, ss) \<Rightarrow> ok \<and> length us = n \<and> distinct (map su_email us) \<and>
      list_all (\<lambda>s. ss_user s \<in> set (map su_email us) \<and> good_submission now problemIds (ss_user s) s) ss"
proof -
  let ?name = "\<lambda>i. ''user'' @ show_nat i @ ''@leetrank.test''" and ?row = "seeded_user_row now"
  have "inj ?name" by (rule injI) simp
  then have d: "distinct (map ?name [0..<n])" unfolding distinct_map by (meson distinct_upt inj_on_subset subset_UNIV)
  have "seed_chunks ?row su_email (chunks n) [] g =
      (case run_state (State_Monad.traverse_list ?row (concat (chunks n))) g of (rows, g') \<Rightarrow> (True, [] @ rows, g'))" for g
    by (rule seed_chunks_all [where key = "\<lambda>s. s" and name = ?name, OF user_email]) (use d in \<open>simp add: concat_chunks\<close>)
  then have r: "seed_chunks ?row su_email (chunks n) [] g =
      (True, drawn_rows ?row n g, snd (run_state (State_Monad.traverse_list ?row [0..<n]) g))" for g
    by (simp add: concat_chunks drawn_rows_def case_prod_beta)
  define us g where "us = drawn_rows ?row n USERS_SEED" and "g = snd (run_state (State_Monad.traverse_list ?row [0..<n]) USERS_SEED)"
  let ?subs = "State_Monad.traverse_list (\<lambda>u. user_submissions now avg problemIds (su_email u)) us"
  have "map su_email us = map ?name [0..<n]"
    using traverse_slugs [of "\<lambda>s. s" su_email ?name ?row] user_email by (simp add: us_def drawn_rows_def)
  then have u: "distinct (map su_email us)" using d by simp
  have "ensures (\<lambda>sss. list_all2 (\<lambda>u ss. list_all (good_submission now problemIds (su_email u)) ss) us sss) ?subs"
    by (rule ensures_traverse) (rule user_submissions_good [OF assms])
  then have "list_all2 (\<lambda>u ss. list_all (good_submission now problemIds (su_email u)) ss) us (fst (run_state ?subs g))"
    by (simp add: ensures_def)
  then have "list_all (\<lambda>s. ss_user s \<in> set (map su_email us) \<and> good_submission now problemIds (ss_user s) s) (concat (fst (run_state ?subs g)))"
  proof -
    assume a: "list_all2 (\<lambda>u ss. list_all (good_submission now problemIds (su_email u)) ss) us (fst (run_state ?subs g))"
    have "\<exists>u \<in> set us. good_submission now problemIds (su_email u) s" if s: "s \<in> set ss" "ss \<in> set (fst (run_state ?subs g))" for s ss
    proof -
      obtain k where "k < length (fst (run_state ?subs g))" "ss = fst (run_state ?subs g) ! k" using s(2) by (metis in_set_conv_nth)
      moreover have "length us = length (fst (run_state ?subs g))" using a by (rule list_all2_lengthD)
      ultimately show ?thesis using list_all2_nthD2 [OF a] s(1) by (fastforce simp: list_all_iff)
    qed
    then show ?thesis by (fastforce simp: list_all_iff good_submission_def)
  qed
  then show ?thesis using assms u by (simp add: users_main_def r us_def g_def drawn_rows_length)
qed

lemma seeded_status_is_unknown:
  "list_all (\<lambda>s. s \<notin> {''accepted'', ''wrong_answer'', ''runtime_error'', ''time_limit_exceeded'', ''compile_error'',
     ''memory_limit_exceeded'', ''security_error'', ''queued'', ''judging''}) STATUSES"
  by code_simp

lemma seeded_users_contradict_themselves:
  "su_maxRating (fst (run_state (seeded_user_row 0 7) 1)) < su_rating (fst (run_state (seeded_user_row 0 7) 1))"
  "su_role (fst (run_state (seeded_user_row 0 7) 13)) = ''moderator''"
proof -
  have "mulberry 1 = (2693262067, 1831565814)" "mulberry 1831565814 = (11749833, 3663131627)" "mulberry 3663131627 = (2265367787, 1199730144)"
    "mulberry 1199730144 = (4213581821, 3031295957)" "mulberry 3031295957 = (4159151403, 567894474)"
    "mulberry 567894474 = (1207330352, 2399460287)" "mulberry 2399460287 = (2632122864, 4231026100)"
    "mulberry 4231026100 = (3095568220, 1767624617)"
    by (simp_all add: mulberry_def Let_def)
  then show "su_maxRating (fst (run_state (seeded_user_row 0 7) 1)) < su_rating (fst (run_state (seeded_user_row 0 7) 1))"
    by (simp add: seeded_user_row_def rng_def run_randInt pick_def pickRole_def)
  have "mulberry 13 = (2432337258, 1831565826)" "mulberry 1831565826 = (1546691432, 3663131639)"
    "mulberry 3663131639 = (303185372, 1199730156)" "mulberry 1199730156 = (206875054, 3031295969)"
    by (simp_all add: mulberry_def Let_def)
  then show "su_role (fst (run_state (seeded_user_row 0 7) 13)) = ''moderator''"
    by (simp add: seeded_user_row_def rng_def run_randInt pick_def pickRole_def case_prod_beta)
qed

end
