(* ===== verification/Browse.thy ===== *)
theory Browse
  imports AdminProblems Contracts
begin

section \<open>The page of the problem list\<close>

text \<open>
  \<^verbatim>\<open>app/problems/page.tsx\<close>: filters, and an effect that asks for the list whenever they change and
  cancels the request before. Requests are numbered from one; an answer is the JSON of the problems, none for
  a failed request or a body without problems. Names of messages stand for their texts. The query is the
  one that the route reads from the URL; the encoding of the parameters is the browser's.
\<close>

subsection \<open>Effects that cancel the request before\<close>

text \<open>
  The contract that several pages share: each has a current request, an answer to any other is dropped, and
  none changes which one is current. So only the answers to the current request matter.
\<close>

locale cancelled_requests =
  fixes current :: "'s \<Rightarrow> nat" and answered :: "nat \<Rightarrow> 'a \<Rightarrow> 's \<Rightarrow> 's"
  assumes stale: "n \<noteq> current s \<Longrightarrow> answered n a s = s"
    and same_current: "current (answered n a s) = current s"
begin

lemma only_current:
  "fold (\<lambda>(n, a). answered n a) as s = fold (\<lambda>(n, a). answered n a) (filter (\<lambda>(n, a). n = current s) as) s"
proof (induction as arbitrary: s)
  case (Cons x as)
  obtain n a where x: "x = (n, a)" by (metis prod.exhaust)
  show ?case using Cons [of "answered n a s"] Cons [of s] by (cases "n = current s") (simp_all add: x stale same_current)
qed simp

lemma late_answer: "n < current s \<Longrightarrow> answered n a s = s"
  by (simp add: stale)

end

subsection \<open>State\<close>

record list_filters =
  fl_difficulty :: string
  fl_tag :: string
  fl_topic :: string
  fl_company :: string
  fl_search :: string

record tag_item =
  ti_slug :: string
  ti_name :: string
  ti_category :: "string option"

record list_page =
  lp_problems :: "json_fields list"
  lp_loading :: bool
  lp_filters :: list_filters
  lp_tags :: "tag_item list"
  lp_topicsOpen :: bool
  lp_companiesOpen :: bool
  lp_requests :: "list_query list"

definition DIFFICULTY_VALUES :: "string list" where
  "DIFFICULTY_VALUES = ['''', ''Easy'', ''Medium'', ''Hard'']"

definition no_filters :: list_filters where
  "no_filters = \<lparr>fl_difficulty = [], fl_tag = [], fl_topic = [], fl_company = [], fl_search = []\<rparr>"

definition param :: "string \<Rightarrow> string option" where
  "param s = (if s \<noteq> [] then Some s else None)"

definition list_params :: "list_filters \<Rightarrow> list_query" where
  "list_params f = \<lparr>lq_difficulty = param (fl_difficulty f), lq_tag = param (fl_tag f), lq_topic = param (fl_topic f),
     lq_company = param (fl_company f), lq_search = param (fl_search f), lq_page = None, lq_limit = None\<rparr>"

text \<open>The effect, which runs when the page mounts and when a filter has changed.\<close>

definition ask_list :: "list_page \<Rightarrow> list_page" where
  "ask_list p = p\<lparr>lp_loading := True, lp_requests := lp_requests p @ [list_params (lp_filters p)]\<rparr>"

definition new_list_page :: list_page where
  "new_list_page = ask_list \<lparr>lp_problems = [], lp_loading = True, lp_filters = no_filters, lp_tags = [], lp_topicsOpen = True,
     lp_companiesOpen = False, lp_requests = []\<rparr>"

definition set_filters :: "(list_filters \<Rightarrow> list_filters) \<Rightarrow> list_page \<Rightarrow> list_page" where
  "set_filters f p = (if f (lp_filters p) = lp_filters p then p else ask_list (p\<lparr>lp_filters := f (lp_filters p)\<rparr>))"

definition picked :: "string \<Rightarrow> string \<Rightarrow> string" where
  "picked selected slug = (if selected = slug then [] else slug)"

datatype list_event =
    DifficultyChosen string
  | TopicClicked string
  | CompanyClicked string
  | SearchTyped string
  | FiltersCleared
  | TopicsToggled
  | CompaniesToggled

fun list_step :: "list_event \<Rightarrow> list_page \<Rightarrow> list_page" where
  "list_step (DifficultyChosen d) p = set_filters (\<lambda>f. f\<lparr>fl_difficulty := d\<rparr>) p"
| "list_step (TopicClicked slug) p = set_filters (\<lambda>f. f\<lparr>fl_topic := picked (fl_topic (lp_filters p)) slug\<rparr>) p"
| "list_step (CompanyClicked slug) p = set_filters (\<lambda>f. f\<lparr>fl_company := picked (fl_company (lp_filters p)) slug\<rparr>) p"
| "list_step (SearchTyped s) p = set_filters (\<lambda>f. f\<lparr>fl_search := s\<rparr>) p"
| "list_step FiltersCleared p = set_filters (\<lambda>_. no_filters) p"
| "list_step TopicsToggled p = p\<lparr>lp_topicsOpen := \<not> lp_topicsOpen p\<rparr>"
| "list_step CompaniesToggled p = p\<lparr>lp_companiesOpen := \<not> lp_companiesOpen p\<rparr>"

definition tags_answered :: "tag_item list option \<Rightarrow> list_page \<Rightarrow> list_page" where
  "tags_answered answer p = (case answer of None \<Rightarrow> p | Some ts \<Rightarrow> p\<lparr>lp_tags := ts\<rparr>)"

definition current_request :: "list_page \<Rightarrow> nat" where
  "current_request p = length (lp_requests p)"

definition list_answered :: "nat \<Rightarrow> json_fields list option \<Rightarrow> list_page \<Rightarrow> list_page" where
  "list_answered n answer p =
    (if n = current_request p then p\<lparr>lp_problems := (case answer of None \<Rightarrow> [] | Some ps \<Rightarrow> ps), lp_loading := False\<rparr> else p)"

interpretation list_requests: cancelled_requests current_request list_answered
  by unfold_locales (simp_all add: list_answered_def current_request_def)

subsection \<open>What is drawn\<close>

definition topics :: "list_page \<Rightarrow> tag_item list" where
  "topics p = filter (\<lambda>t. (case ti_category t of None \<Rightarrow> ''topic'' | Some c \<Rightarrow> c) = ''topic'') (lp_tags p)"

definition companies :: "list_page \<Rightarrow> tag_item list" where
  "companies p = filter (\<lambda>t. ti_category t = Some ''company'') (lp_tags p)"

definition hasFilters :: "list_page \<Rightarrow> bool" where
  "hasFilters p \<longleftrightarrow> (let f = lp_filters p in
     fl_difficulty f \<noteq> [] \<or> fl_tag f \<noteq> [] \<or> fl_topic f \<noteq> [] \<or> fl_company f \<noteq> [] \<or> fl_search f \<noteq> [])"

datatype badge_label = Message string | Plain string

definition tabLabels :: "string \<Rightarrow> string option" where
  "tabLabels k = map_of [('''', ''common.all''), (''Easy'', ''easy''), (''Medium'', ''medium''), (''Hard'', ''hard'')] k"

definition upper_char :: "char \<Rightarrow> char" where
  "upper_char c = (let n = (of_char c :: nat) in if 97 \<le> n \<and> n \<le> 122 \<or> 224 \<le> n \<and> n \<le> 254 \<and> n \<noteq> 247 then char_of (n - 32) else c)"

definition difficulty_label :: "string \<Rightarrow> badge_label" where
  "difficulty_label d =
    (case tabLabels (case d of [] \<Rightarrow> [] | c # cs \<Rightarrow> upper_char c # cs) of Some m \<Rightarrow> Message m | None \<Rightarrow> Plain d)"

text \<open>A field of an answer, and what a row shows of it; an absent field shows nothing.\<close>

definition text_at :: "json_fields \<Rightarrow> string \<Rightarrow> string" where
  "text_at fs k = (case jm_get fs k of Some (JStr s) \<Rightarrow> s | _ \<Rightarrow> [])"

record list_row =
  lr_href :: string
  lr_title :: string
  lr_solved :: bool
  lr_tags :: "string list"
  lr_moreTags :: nat
  lr_submissions :: "real option"
  lr_label :: badge_label

definition tag_names :: "json_fields \<Rightarrow> string list" where
  "tag_names fs = (case jm_get fs ''tags'' of
      Some (JArr ts) \<Rightarrow> map (\<lambda>t. case t of JObj gs \<Rightarrow> text_at gs ''name'' | _ \<Rightarrow> []) ts
    | _ \<Rightarrow> [])"

definition row_of_problem :: "json_fields \<Rightarrow> list_row" where
  "row_of_problem fs =
    \<lparr>lr_href = ''/problems/'' @ text_at fs ''slug'', lr_title = text_at fs ''title'',
     lr_solved = (jm_get fs ''solved'' = Some (JBool True)),
     lr_tags = take 3 (tag_names fs), lr_moreTags = length (tag_names fs) - 3,
     lr_submissions = (case jm_get fs ''_count'' of
        Some (JObj gs) \<Rightarrow> (case jm_get gs ''submissions'' of Some (JNum n) \<Rightarrow> if n > 0 then Some n else None | _ \<Rightarrow> None)
      | _ \<Rightarrow> None),
     lr_label = difficulty_label (text_at fs ''difficulty'')\<rparr>"

datatype list_view = Skeleton | NoProblems bool | Rows "list_row list"

definition list_view_of :: "list_page \<Rightarrow> list_view" where
  "list_view_of p =
    (if lp_loading p then Skeleton
     else if lp_problems p = [] then NoProblems (hasFilters p)
     else Rows (map row_of_problem (lp_problems p)))"

subsection \<open>The page and the route\<close>

text \<open>The problems in the route's answer, as the page reads them; the route sends what the API server sends.\<close>

definition item_json :: "(nat \<Rightarrow> string) \<Rightarrow> listed_problem \<Rightarrow> json_fields" where
  "item_json idt p = line_fields idt p @ [(''tags'', JArr (map (tag_json idt) (pr_tags p))), (''submissionCount'', nat_json (pr_submissionCount p))]"

definition route_problems :: "(nat \<Rightarrow> string) \<Rightarrow> string + list_result reply \<Rightarrow> json_fields list option" where
  "route_problems idt r = (case r of Inr (Reply code body) \<Rightarrow> Some (map (item_json idt) (ls_problems body)) | _ \<Rightarrow> None)"

lemma item_json_body: "problems_body idt r = JObj
    [(''problems'', JArr (map (\<lambda>p. JObj (item_json idt p)) (ls_problems r))),
     (''total'', nat_json (ls_total r)), (''page'', int_json (ls_page r)), (''limit'', int_json (ls_limit r))]"
  by (simp add: problems_body_def item_json_def)

text \<open>
  Events of the page: the user's, and a request that the route has served from the tables of its time, with
  whatever calls failed, answered in any order.
\<close>

datatype page_event =
    Acted list_event
  | Served nat cat_db "bool list" int

fun served_answer :: "(nat \<Rightarrow> string) \<Rightarrow> list_query \<Rightarrow> cat_db \<Rightarrow> bool list \<Rightarrow> int \<Rightarrow> json_fields list option" where
  "served_answer idt q db fs now = route_problems idt (result (problems_GET q now) fs db)"

fun page_event_step :: "(nat \<Rightarrow> string) \<Rightarrow> page_event \<Rightarrow> list_page \<Rightarrow> list_page" where
  "page_event_step idt (Acted e) p = list_step e p"
| "page_event_step idt (Served n db fs now) p =
    (if 0 < n \<and> n \<le> length (lp_requests p) then list_answered n (served_answer idt (lp_requests p ! (n - 1)) db fs now) p else p)"

definition list_page_ok :: "(nat \<Rightarrow> string) \<Rightarrow> page_event list \<Rightarrow> list_page \<Rightarrow> bool" where
  "list_page_ok idt es p \<longleftrightarrow>
     lp_requests p \<noteq> [] \<and> last (lp_requests p) = list_params (lp_filters p) \<and>
     (\<not> lp_loading p \<longrightarrow> (\<exists>db fs now. Served (length (lp_requests p)) db fs now \<in> set es \<and>
        lp_problems p = (case served_answer idt (list_params (lp_filters p)) db fs now of None \<Rightarrow> [] | Some ps \<Rightarrow> ps)))"

lemma set_filters_ok: "list_page_ok idt es p \<Longrightarrow> list_page_ok idt es (set_filters f p)"
  by (auto simp: list_page_ok_def set_filters_def ask_list_def)

lemma list_step_ok: "list_page_ok idt es p \<Longrightarrow> list_page_ok idt es (list_step e p)"
proof (cases e)
  case TopicsToggled
  then show "list_page_ok idt es p \<Longrightarrow> ?thesis" by (simp add: list_page_ok_def)
next
  case CompaniesToggled
  then show "list_page_ok idt es p \<Longrightarrow> ?thesis" by (simp add: list_page_ok_def)
qed (simp_all add: set_filters_ok)

lemma page_event_ok: "list_page_ok idt es p \<Longrightarrow> list_page_ok idt (es @ [e]) (page_event_step idt e p)"
proof (cases e)
  case (Acted a)
  assume "list_page_ok idt es p"
  then have "list_page_ok idt (es @ [e]) p" by (auto simp: list_page_ok_def)
  then show ?thesis by (simp add: Acted list_step_ok)
next
  case (Served n db fs now)
  assume ok: "list_page_ok idt es p"
  then have l: "lp_requests p ! (length (lp_requests p) - 1) = list_params (lp_filters p)"
    unfolding list_page_ok_def by (metis last_conv_nth)
  show ?thesis
  proof (cases "n = length (lp_requests p)")
    case True
    then show ?thesis using ok l by (auto simp: Served list_page_ok_def list_answered_def current_request_def)
  next
    case False
    then show ?thesis using ok by (auto simp: Served list_page_ok_def list_answered_def current_request_def)
  qed
qed

lemma new_list_page_ok: "list_page_ok idt [] new_list_page"
  by (simp add: list_page_ok_def new_list_page_def ask_list_def)

lemma page_events_ok: "list_page_ok idt es (fold (page_event_step idt) es new_list_page)"
proof (induction es rule: rev_induct)
  case (snoc e es)
  then show ?case by (simp add: page_event_ok)
qed (simp add: new_list_page_ok)

text \<open>The route's answer when the cache holds none, for a request that names neither page nor limit.\<close>

lemma answer_of_params:
  "ls_problems (answer_of (list_params f) db) =
    map (listed_problem_of db) (take 50 (sort_by by_order (matching (list_params f) db)))"
  by (simp add: answer_of_def list_of_def list_params_def page_param_def limit_param_def int_param_def page_of_def)

definition cold :: "list_query \<Rightarrow> int \<Rightarrow> cat_db \<Rightarrow> bool" where
  "cold q now db \<longleftrightarrow> truthy (lq_search q) \<or> fst (cache_get (query_key q) now (ct_lists db)) = None"

text \<open>What the chosen filters mean.\<close>

definition matches_filters :: "list_filters \<Rightarrow> cat_db \<Rightarrow> problem_row \<Rightarrow> bool" where
  "matches_filters f db p \<longleftrightarrow>
    (fl_difficulty f = [] \<or> pm_difficulty p = fl_difficulty f) \<and>
    (fl_search f = [] \<or> contains_ci (fl_search f) (pm_title p)) \<and>
    (fl_tag f = [] \<or> fl_tag f \<in> set (map tg_slug (tags_of (pm_id p) db))) \<and>
    (fl_topic f = [] \<or> (fl_topic f, ''topic'') \<in> set (map (\<lambda>t. (tg_slug t, tg_category t)) (tags_of (pm_id p) db))) \<and>
    (fl_company f = [] \<or> (fl_company f, ''company'') \<in> set (map (\<lambda>t. (tg_slug t, tg_category t)) (tags_of (pm_id p) db)))"

lemma param_means: "(truthy (param s) \<longrightarrow> P (the (param s))) \<longleftrightarrow> s = [] \<or> P s"
  by (simp add: param_def truthy_def)

lemma has_tag_means:
  "has_tag (\<lambda>t. tg_slug t = s) db p \<longleftrightarrow> s \<in> set (map tg_slug (tags_of (pm_id p) db))"
  "has_tag (\<lambda>t. tg_slug t = s \<and> tg_category t = c) db p \<longleftrightarrow> (s, c) \<in> set (map (\<lambda>t. (tg_slug t, tg_category t)) (tags_of (pm_id p) db))"
  by (auto simp: has_tag_def list_ex_iff)

lemma where_filters: "where_clause (list_params f) db = matches_filters f db"
proof (rule ext)
  fix p
  show "where_clause (list_params f) db p = matches_filters f db p"
    unfolding where_clause_def matches_filters_def list_params_def list_query.simps
      param_means [of _ "\<lambda>d. pm_difficulty p = d"] param_means [of _ "\<lambda>s. contains_ci s (pm_title p)"]
      param_means [of _ "\<lambda>s. has_tag (\<lambda>t. tg_slug t = s) db p"]
      param_means [of _ "\<lambda>s. has_tag (\<lambda>t. tg_slug t = s \<and> tg_category t = ''topic'') db p"]
      param_means [of _ "\<lambda>s. has_tag (\<lambda>t. tg_slug t = s \<and> tg_category t = ''company'') db p"]
    unfolding has_tag_means ..
qed

text \<open>
  C39. The list shows what its filters ask for. Whatever the user does and in whatever order the requests are
  answered, a page that shows no skeleton shows the answer that the route gave to the request with exactly the
  filters that are chosen now, and nothing when that failed. When no call failed and the cache of the
  route held no answer for these filters, what is shown are the first fifty of the problems that match,
  sorted by their \<open>order\<close>; which of two problems with the same \<open>order\<close> comes first is left open. An
  answer from the cache may be up to a minute old.
\<close>

theorem list_page_shows_its_filters:
  assumes "p = fold (page_event_step idt) es new_list_page" "\<not> lp_loading p"
  shows "\<exists>db fs now. Served (length (lp_requests p)) db fs now \<in> set es \<and>
    lp_problems p = (case served_answer idt (list_params (lp_filters p)) db fs now of None \<Rightarrow> [] | Some ps \<Rightarrow> ps) \<and>
    (fs = [] \<and> cold (list_params (lp_filters p)) now db \<longrightarrow>
      (\<exists>found. mset found = mset (filter (matches_filters (lp_filters p) db) (ct_problems db)) \<and>
         sorted_wrt (\<lambda>a b. pm_order a \<le> pm_order b) found \<and>
         lp_problems p = map (\<lambda>r. item_json idt (listed_problem_of db r)) (take 50 found)))"
proof -
  obtain db fs now where s: "Served (length (lp_requests p)) db fs now \<in> set es"
    "lp_problems p = (case served_answer idt (list_params (lp_filters p)) db fs now of None \<Rightarrow> [] | Some ps \<Rightarrow> ps)"
    using page_events_ok [of idt es] assms unfolding list_page_ok_def by blast
  let ?found = "sort_by by_order (filter (matches_filters (lp_filters p) db) (ct_problems db))"
  have "sorted_wrt (\<lambda>a b. pm_order a \<le> pm_order b) ?found"
    using by_position.sorted_sort_by [of "filter (matches_filters (lp_filters p) db) (ct_problems db)"] by (simp add: by_order_def [abs_def])
  moreover have "mset ?found = mset (filter (matches_filters (lp_filters p) db) (ct_problems db))" by simp
  moreover have "lp_problems p = map (\<lambda>r. item_json idt (listed_problem_of db r)) (take 50 ?found)"
    if "fs = []" "cold (list_params (lp_filters p)) now db"
  proof -
    have "result (problems_GET (list_params (lp_filters p)) now) [] db = Inr (Reply 200 (answer_of (list_params (lp_filters p)) db))"
      using problems_GET_cold that(2) unfolding cold_def by blast
    then show ?thesis using s(2) that(1) by (simp add: route_problems_def answer_of_params matching_def where_filters)
  qed
  ultimately show ?thesis using s by blast
qed

definition sample_events :: "page_event list" where
  "sample_events = [Acted (SearchTyped ''x''), Acted (SearchTyped []), Served 3 sample_catalogue [] 5, Served 2 sample_catalogue [True] 6]"

lemma list_page_shows_its_filters_witness:
  "lp_requests (fold (page_event_step show_nat) sample_events new_list_page) =
     [list_params no_filters, list_params (no_filters\<lparr>fl_search := ''x''\<rparr>), list_params no_filters] \<and>
   (\<exists>db fs now. Served 3 db fs now \<in> set sample_events \<and>
      lp_problems (fold (page_event_step show_nat) sample_events new_list_page) =
        (case served_answer show_nat (list_params no_filters) db fs now of None \<Rightarrow> [] | Some ps \<Rightarrow> ps))"
proof -
  let ?p = "fold (page_event_step show_nat) sample_events new_list_page"
  have s: "lp_requests ?p = [list_params no_filters, list_params (no_filters\<lparr>fl_search := ''x''\<rparr>), list_params no_filters]"
    "lp_filters ?p = no_filters" "\<not> lp_loading ?p"
    by (simp_all add: sample_events_def new_list_page_def ask_list_def set_filters_def no_filters_def list_answered_def current_request_def
        del: served_answer.simps)
  have l: "length (lp_requests ?p) = 3" unfolding s(1) by simp
  from list_page_shows_its_filters [OF refl s(3)] show ?thesis unfolding l s(2) using s(1) by blast
qed

text \<open>
  The tabs ask for difficulties in capitals, which no problem that administration made has: each of them
  empties the list.
\<close>

lemma difficulty_tabs_find_nothing:
  assumes "cat_ok db" "fl_difficulty f \<in> {''Easy'', ''Medium'', ''Hard''}"
  shows "matching (list_params f) db = []"
proof -
  have "pm_difficulty p \<in> {''easy'', ''medium'', ''hard''}" if "p \<in> set (ct_problems db)" for p
    using administered_levels_ok [OF assms(1)] that by (simp add: levels_ok_def level_ok_def)
  moreover have "''Easy'' \<notin> {''easy'', ''medium'', ''hard''}" "''Medium'' \<notin> {''easy'', ''medium'', ''hard''}"
    "''Hard'' \<notin> {''easy'', ''medium'', ''hard''}" by simp_all
  ultimately have no: "pm_difficulty p \<noteq> fl_difficulty f" if "p \<in> set (ct_problems db)" for p
    using that assms(2) by (metis insertE emptyE)
  have "fl_difficulty f \<noteq> []" using assms(2) by force
  then have "lq_difficulty (list_params f) = Some (fl_difficulty f)" "truthy (Some (fl_difficulty f))"
    by (simp_all add: list_params_def param_def truthy_def)
  then show ?thesis unfolding matching_def filter_empty_conv where_clause_def using no by simp
qed

text \<open>And the seeds' own problems, whose difficulties are in capitals, break the contract of the API.\<close>

lemma capital_levels_break_the_contract:
  assumes "result (problemsListHandler d t q rawPage rawLimit) fs db = Inr (Reply 200 r)" "p \<in> set (ls_problems r)"
    "pr_difficulty p \<in> {''Easy'', ''Medium'', ''Hard''}"
  shows "\<not> conforms problemListResponseSchema (problems_body idt r)"
proof -
  have "\<not> conforms problemListItemSchema (JObj (item_json idt p))"
    using assms(3) by (auto simp: problemListItemSchema_def item_json_def level_ok_def)
  then show ?thesis
    using assms(2) unfolding item_json_body by (auto simp: problemListResponseSchema_def list_all_iff)
qed

text \<open>
  The rows show neither what was solved nor how often a problem was tried: the page reads two fields that the
  route does not send. A page never asks for more than the first fifty.
\<close>

lemma rows_show_no_progress:
  "lr_solved (row_of_problem (item_json idt p)) = False" "lr_submissions (row_of_problem (item_json idt p)) = None"
  "lr_title (row_of_problem (item_json idt p)) = pr_title p"
  by (simp_all add: row_of_problem_def item_json_def text_at_def)

lemma never_past_fifty: "list_all (\<lambda>q. lq_page q = None \<and> lq_limit q = None) (lp_requests (fold (page_event_step idt) es new_list_page))"
proof (induction es rule: rev_induct)
  case (snoc e es)
  have "list_all (\<lambda>q. lq_page q = None \<and> lq_limit q = None) (lp_requests (set_filters f p))"
    if "list_all (\<lambda>q. lq_page q = None \<and> lq_limit q = None) (lp_requests p)" for f p
    using that by (simp add: set_filters_def ask_list_def list_params_def)
  then have "list_all (\<lambda>q. lq_page q = None \<and> lq_limit q = None) (lp_requests (list_step a p))"
    if "list_all (\<lambda>q. lq_page q = None \<and> lq_limit q = None) (lp_requests p)" for a p
    using that by (cases a) simp_all
  then show ?case using snoc by (cases e) (simp_all add: list_answered_def)
qed (simp add: new_list_page_def ask_list_def list_params_def)

end
