(* ===== verification/Palette.thy ===== *)
theory Palette
  imports Browse
begin

section \<open>The command palette\<close>

text \<open>
  \<^verbatim>\<open>components/layout/command-palette.tsx\<close>: commands filtered by the query, the search for problems with its
  debounce, and the keyboard. What a command does outside the palette is logged. The two effects of the component
  are run after each event: the search when the query or the visibility has changed, and the reset of the
  highlighted row when the query or the number of hits has.
\<close>

subsection \<open>Commands\<close>

datatype palette_group = Navigation | Account | Theme | ProblemsGroup | AdminGroup

fun group_name :: "palette_group \<Rightarrow> string" where
  "group_name Navigation = ''Navigation''"
| "group_name Account = ''Account''"
| "group_name Theme = ''Theme''"
| "group_name ProblemsGroup = ''Problems''"
| "group_name AdminGroup = ''Admin''"

datatype palette_action = Push string | SetTheme string | LogoutThen string

record command_item =
  cm_id :: string
  cm_group :: palette_group
  cm_label :: string
  cm_keywords :: "string option"
  cm_run :: palette_action

record problem_hit =
  ht_title :: string
  ht_slug :: string
  ht_difficulty :: string

text \<open>The user of the session, as a name and a role.\<close>

definition command :: "string \<Rightarrow> palette_group \<Rightarrow> string \<Rightarrow> string option \<Rightarrow> palette_action \<Rightarrow> command_item" where
  "command i g label keywords run = \<lparr>cm_id = i, cm_group = g, cm_label = label, cm_keywords = keywords, cm_run = run\<rparr>"

definition nav_commands :: "command_item list" where
  "nav_commands =
    [command ''nav-home'' Navigation ''Go to Home'' (Some ''/ landing'') (Push ''/''),
     command ''nav-problems'' Navigation ''Browse Problems'' (Some ''exercises practice'') (Push ''/problems''),
     command ''nav-contests'' Navigation ''View Contests'' (Some ''compete tournament'') (Push ''/contests''),
     command ''nav-leaderboard'' Navigation ''Open Leaderboard'' (Some ''ranking top'') (Push ''/leaderboard''),
     command ''nav-status'' Navigation ''System Status'' (Some ''health uptime'') (Push ''/status''),
     command ''nav-api'' Navigation ''API Docs'' (Some ''openapi swagger reference'') (Push ''/api-docs'')]"

definition account_commands :: "(string \<times> string) option \<Rightarrow> command_item list" where
  "account_commands user =
    (case user of
       Some (name, role) \<Rightarrow>
         [command ''acc-dashboard'' Account ''Dashboard'' None (Push ''/dashboard''),
          command ''acc-submissions'' Account ''My Submissions'' None (Push ''/submissions''),
          command ''acc-bookmarks'' Account ''Bookmarks'' None (Push ''/dashboard/bookmarks''),
          command ''acc-settings'' Account ''Account Settings'' None (Push ''/dashboard/settings''),
          command ''acc-profile'' Account ''View Public Profile'' None (Push (''/users/'' @ name)),
          command ''acc-logout'' Account ''Sign out'' (Some ''logout'') (LogoutThen ''/'')]
     | None \<Rightarrow>
         [command ''acc-login'' Account ''Sign in'' None (Push ''/login''),
          command ''acc-register'' Account ''Create account'' (Some ''signup register'') (Push ''/register'')])"

definition admin_commands :: "(string \<times> string) option \<Rightarrow> command_item list" where
  "admin_commands user =
    (case user of
       Some (name, role) \<Rightarrow> if role = ''admin'' then [command ''admin-console'' AdminGroup ''Admin Console'' None (Push ''/admin'')] else []
     | None \<Rightarrow> [])"

definition theme_commands :: "command_item list" where
  "theme_commands =
    [command ''theme-light'' Theme ''Switch to Light theme'' (Some ''theme light'') (SetTheme ''light''),
     command ''theme-dark'' Theme ''Switch to Dark theme'' (Some ''theme dark'') (SetTheme ''dark''),
     command ''theme-system'' Theme ''Match System theme'' (Some ''theme system auto'') (SetTheme ''system'')]"

definition commands :: "(string \<times> string) option \<Rightarrow> command_item list" where
  "commands user = nav_commands @ account_commands user @ admin_commands user @ theme_commands"

text \<open>\<^verbatim>\<open>split(/\s+/)\<close> of a trimmed text.\<close>

fun words_of :: "string \<Rightarrow> string \<Rightarrow> string list" where
  "words_of acc [] = [rev acc]"
| "words_of acc (c # s) =
    (if is_space c then (case s of d # _ \<Rightarrow> if is_space d then words_of acc s else rev acc # words_of [] s | [] \<Rightarrow> [rev acc, []])
     else words_of (c # acc) s)"

definition command_matches :: "string \<Rightarrow> command_item \<Rightarrow> bool" where
  "command_matches q c \<longleftrightarrow>
    (let hay = map lower_char (cm_label c @ '' '' @ (case cm_keywords c of None \<Rightarrow> [] | Some k \<Rightarrow> k) @ '' '' @ group_name (cm_group c))
     in list_all (\<lambda>tok. str_includes tok hay) (words_of [] q))"

definition filteredCmds :: "(string \<times> string) option \<Rightarrow> string \<Rightarrow> command_item list" where
  "filteredCmds user typed =
    (let q = map lower_char (js_trim typed) in if q = [] then commands user else filter (command_matches q) (commands user))"

subsection \<open>State and effects\<close>

record palette =
  pl_open :: bool
  pl_query :: string
  pl_active :: int
  pl_hits :: "problem_hit list"
  pl_searching :: bool
  pl_effect :: nat
  pl_timer :: "string option"
  pl_asked :: "(nat \<times> string) list"
  pl_log :: "palette_action list"

definition new_palette :: palette where
  "new_palette = \<lparr>pl_open = False, pl_query = [], pl_active = 0, pl_hits = [], pl_searching = False, pl_effect = 0, pl_timer = None,
     pl_asked = [], pl_log = []\<rparr>"

text \<open>The debounced search: cancels what the effect before has started, and starts a timer for a query of two characters.\<close>

definition search_effect :: "palette \<Rightarrow> palette" where
  "search_effect p0 =
    (let p = p0\<lparr>pl_effect := Suc (pl_effect p0), pl_timer := None\<rparr>; q = js_trim (pl_query p)
     in if \<not> pl_open p then p
        else if length q < 2 then p\<lparr>pl_hits := []\<rparr>
        else p\<lparr>pl_searching := True, pl_timer := Some q\<rparr>)"

definition settle :: "palette \<Rightarrow> palette \<Rightarrow> palette" where
  "settle p0 p1 =
    (let p = (if pl_query p1 \<noteq> pl_query p0 \<or> pl_open p1 \<noteq> pl_open p0 then search_effect p1 else p1)
     in if pl_query p \<noteq> pl_query p0 \<or> length (pl_hits p) \<noteq> length (pl_hits p0) then p\<lparr>pl_active := 0\<rparr> else p)"

definition close_palette :: "palette \<Rightarrow> palette" where
  "close_palette p = p\<lparr>pl_open := False, pl_query := [], pl_active := 0, pl_hits := []\<rparr>"

definition search_timer :: "palette \<Rightarrow> palette" where
  "search_timer p = (case pl_timer p of None \<Rightarrow> p | Some q \<Rightarrow> p\<lparr>pl_timer := None, pl_asked := pl_asked p @ [(pl_effect p, q)]\<rparr>)"

text \<open>An answer: the problems that were found, none for a failed request, one that is not ok or one without problems.\<close>

definition found :: "problem_hit list option \<Rightarrow> problem_hit list" where
  "found answer = (case answer of None \<Rightarrow> [] | Some hs \<Rightarrow> take 8 hs)"

definition search_answered :: "nat \<Rightarrow> problem_hit list option \<Rightarrow> palette \<Rightarrow> palette" where
  "search_answered n answer p =
    (if n = pl_effect p then settle p (p\<lparr>pl_hits := found answer, pl_searching := False\<rparr>) else p)"

lemma settle_frame [simp]:
  "pl_query (settle p q) = pl_query q" "pl_open (settle p q) = pl_open q" "pl_asked (settle p q) = pl_asked q" "pl_log (settle p q) = pl_log q"
  by (simp_all add: settle_def search_effect_def Let_def)

lemma settle_same: "pl_query q = pl_query p \<Longrightarrow> pl_open q = pl_open p \<Longrightarrow>
    settle p q = (if length (pl_hits q) \<noteq> length (pl_hits p) then q\<lparr>pl_active := 0\<rparr> else q)"
  by (simp add: settle_def)

interpretation searches: cancelled_requests pl_effect search_answered
  by unfold_locales (simp_all add: search_answered_def settle_same)

subsection \<open>Rows\<close>

datatype palette_row = HitRow problem_hit | CmdRow command_item

definition ordered :: "(string \<times> string) option \<Rightarrow> palette \<Rightarrow> palette_row list" where
  "ordered user p = map HitRow (pl_hits p) @ map CmdRow (filteredCmds user (pl_query p))"

definition groupOrder :: "palette_group list" where
  "groupOrder = [Navigation, ProblemsGroup, Account, AdminGroup, Theme]"

text \<open>The rows as they are drawn, each with its number: the hits, then the commands group by group.\<close>

definition drawn_rows_of :: "(string \<times> string) option \<Rightarrow> palette \<Rightarrow> (nat \<times> palette_row) list" where
  "drawn_rows_of user p =
    enumerate 0 (map HitRow (pl_hits p)) @
    enumerate (length (pl_hits p)) (concat (map (\<lambda>g. map CmdRow (filter (\<lambda>c. cm_group c = g) (filteredCmds user (pl_query p)))) groupOrder))"

fun act :: "palette_row \<Rightarrow> palette \<Rightarrow> palette" where
  "act (HitRow h) p = close_palette (p\<lparr>pl_log := pl_log p @ [Push (''/problems/'' @ ht_slug h)]\<rparr>)"
| "act (CmdRow c) p =
    (let p' = p\<lparr>pl_log := pl_log p @ [cm_run c]\<rparr> in case cm_run c of SetTheme _ \<Rightarrow> p' | _ \<Rightarrow> close_palette p')"

definition runRow :: "(string \<times> string) option \<Rightarrow> int \<Rightarrow> palette \<Rightarrow> palette" where
  "runRow user idx p = (if 0 \<le> idx \<and> idx < int (length (ordered user p)) then act (ordered user p ! nat idx) p else p)"

subsection \<open>Events\<close>

text \<open>Which keys open or close the palette; the key is one of a field of text unless its element says otherwise.\<close>

definition shortcut :: "bool \<Rightarrow> string \<Rightarrow> string option \<Rightarrow> bool \<Rightarrow> bool" where
  "shortcut isMod key tag editable \<longleftrightarrow>
     isMod \<and> (key = ''k'' \<or> key = ''K'') \<or>
     key = ''/'' \<and> \<not> isMod \<and> tag \<notin> {Some ''INPUT'', Some ''TEXTAREA''} \<and> \<not> editable"

datatype palette_event =
    KeyPressed bool string "string option" bool
  | QueryTyped string
  | BackdropClicked
  | RowEntered nat
  | RowClicked nat
  | TimerFired
  | SearchAnswered nat "problem_hit list option"

definition key_in_palette :: "(string \<times> string) option \<Rightarrow> string \<Rightarrow> palette \<Rightarrow> palette" where
  "key_in_palette user key p =
    (if \<not> pl_open p then p
     else if key = ''Escape'' then close_palette p
     else if key = ''ArrowDown'' then p\<lparr>pl_active := min (pl_active p + 1) (int (length (ordered user p)) - 1)\<rparr>
     else if key = ''ArrowUp'' then p\<lparr>pl_active := max (pl_active p - 1) 0\<rparr>
     else if key = ''Enter'' then runRow user (pl_active p) p
     else p)"

fun palette_step :: "(string \<times> string) option \<Rightarrow> palette_event \<Rightarrow> palette \<Rightarrow> palette" where
  "palette_step user (KeyPressed isMod key tag editable) p =
    settle p (if shortcut isMod key tag editable then p\<lparr>pl_open := \<not> pl_open p\<rparr> else key_in_palette user key p)"
| "palette_step user (QueryTyped s) p = (if pl_open p then settle p (p\<lparr>pl_query := s\<rparr>) else p)"
| "palette_step user BackdropClicked p = (if pl_open p then settle p (close_palette p) else p)"
| "palette_step user (RowEntered i) p =
    (if pl_open p \<and> i < length (ordered user p) then p\<lparr>pl_active := int i\<rparr> else p)"
| "palette_step user (RowClicked i) p = (if pl_open p then settle p (runRow user (int i) p) else p)"
| "palette_step user TimerFired p = search_timer p"
| "palette_step user (SearchAnswered n answer) p = (if n \<in> fst ` set (pl_asked p) then search_answered n answer p else p)"

subsection \<open>The keyboard and what is drawn\<close>

lemma command_groups:
  "list_all (\<lambda>c. cm_group c = Navigation) nav_commands" "list_all (\<lambda>c. cm_group c = Account) (account_commands user)"
  "list_all (\<lambda>c. cm_group c = AdminGroup) (admin_commands user)" "list_all (\<lambda>c. cm_group c = Theme) theme_commands"
  by (simp_all add: nav_commands_def account_commands_def admin_commands_def theme_commands_def command_def split: option.split)

lemma one_group: "list_all (\<lambda>c. cm_group c = h) cs \<Longrightarrow> filter (\<lambda>c. cm_group c = g) (filter P cs) = (if g = h then filter P cs else [])"
  by (induction cs) auto

lemma grouped_as_listed:
  "concat (map (\<lambda>g. map CmdRow (filter (\<lambda>c. cm_group c = g) (filteredCmds user s))) groupOrder) = map CmdRow (filteredCmds user s)"
proof -
  obtain P where P: "filteredCmds user s = filter P (commands user)"
  proof (cases "map lower_char (js_trim s) = []")
    case True
    then show ?thesis using that [of "\<lambda>_. True"] by (simp add: filteredCmds_def)
  next
    case False
    then show ?thesis using that [of "command_matches (map lower_char (js_trim s))"] by (simp add: filteredCmds_def Let_def)
  qed
  have "filter (\<lambda>c. cm_group c = g) (filter P (commands user)) =
      (if g = Navigation then filter P nav_commands else []) @ (if g = Account then filter P (account_commands user) else []) @
      (if g = AdminGroup then filter P (admin_commands user) else []) @ (if g = Theme then filter P theme_commands else [])" for g
    unfolding commands_def filter_append
    by (simp only: one_group [OF command_groups(1)] one_group [OF command_groups(2)] one_group [OF command_groups(3)] one_group [OF command_groups(4)])
  then show ?thesis unfolding P by (simp add: groupOrder_def commands_def)
qed

lemma drawn_as_ordered: "drawn_rows_of user p = enumerate 0 (ordered user p)"
  by (simp add: drawn_rows_of_def grouped_as_listed ordered_def enumerate_append_eq)

text \<open>What is true of a palette that has had some events, its user the same.\<close>

definition in_range :: "(string \<times> string) option \<Rightarrow> palette \<Rightarrow> bool" where
  "in_range user p \<longleftrightarrow> ordered user p = [] \<or> 0 \<le> pl_active p \<and> pl_active p < int (length (ordered user p))"

definition asked_ok :: "palette \<Rightarrow> bool" where
  "asked_ok p \<longleftrightarrow>
     list_all (\<lambda>(n, q). n \<le> pl_effect p \<and> (n = pl_effect p \<longrightarrow> pl_open p \<and> q = js_trim (pl_query p))) (pl_asked p) \<and>
     (pl_timer p = None \<or> pl_open p \<and> pl_timer p = Some (js_trim (pl_query p)))"

definition hits_ok :: "palette_event list \<Rightarrow> palette \<Rightarrow> bool" where
  "hits_ok es p \<longleftrightarrow>
     (pl_open p \<and> 2 \<le> length (js_trim (pl_query p)) \<and> \<not> pl_searching p \<longrightarrow>
        (pl_effect p, js_trim (pl_query p)) \<in> set (pl_asked p) \<and> (\<exists>a. SearchAnswered (pl_effect p) a \<in> set es \<and> pl_hits p = found a))"

definition palette_ok :: "(string \<times> string) option \<Rightarrow> palette_event list \<Rightarrow> palette \<Rightarrow> bool" where
  "palette_ok user es p \<longleftrightarrow> in_range user p \<and> asked_ok p \<and> hits_ok es p"

lemma length_ordered: "length (ordered user p) = length (pl_hits p) + length (filteredCmds user (pl_query p))"
  by (simp add: ordered_def)

lemma in_range_length: "in_range user p \<longleftrightarrow> length (ordered user p) = 0 \<or> 0 \<le> pl_active p \<and> pl_active p < int (length (ordered user p))"
  by (simp add: in_range_def)

lemma in_range_reset: "in_range user (p\<lparr>pl_active := 0\<rparr>)"
  by (auto simp: in_range_def)

lemma in_range_cong: "pl_query q = pl_query p \<Longrightarrow> pl_hits q = pl_hits p \<Longrightarrow> pl_active q = pl_active p \<Longrightarrow> in_range user q = in_range user p"
  by (simp add: in_range_length length_ordered)

lemma search_frame:
  "pl_query (search_effect p) = pl_query p" "pl_active (search_effect p) = pl_active p"
  "pl_hits (search_effect p) = pl_hits p \<or> pl_hits (search_effect p) = []"
  by (simp_all add: search_effect_def Let_def)

lemma settle_in_range:
  assumes "pl_query q = pl_query p \<Longrightarrow> length (pl_hits q) = length (pl_hits p) \<Longrightarrow> in_range user q"
    and "pl_query q = pl_query p \<and> pl_open q = pl_open p \<or> pl_hits q = pl_hits p \<or> pl_hits q = []"
  shows "in_range user (settle p q)"
proof -
  define r where "r = (if pl_query q \<noteq> pl_query p \<or> pl_open q \<noteq> pl_open p then search_effect q else q)"
  have r: "pl_query r = pl_query q" "pl_active r = pl_active q" "pl_hits r = pl_hits q \<or> pl_hits r = [] \<and> (pl_hits q = pl_hits p \<or> pl_hits q = [])"
    using search_frame [of q] assms(2) by (auto simp: r_def)
  have "in_range user r" if "pl_query r = pl_query p" "length (pl_hits r) = length (pl_hits p)"
  proof -
    have "pl_hits r = pl_hits q" using r(3) that(2) by auto
    then show ?thesis using assms(1) r(1,2) that in_range_cong [of r q user] by simp
  qed
  then show ?thesis unfolding settle_def Let_def r_def [symmetric] by (simp add: in_range_reset)
qed

lemma settle_asked:
  assumes "asked_ok p" "pl_asked q = pl_asked p" "pl_effect q = pl_effect p"
    "pl_query q = pl_query p \<Longrightarrow> pl_open q = pl_open p \<Longrightarrow> pl_timer q = pl_timer p"
  shows "asked_ok (settle p q)"
proof (cases "pl_query q = pl_query p \<and> pl_open q = pl_open p")
  case True
  then show ?thesis using assms by (simp add: settle_same asked_ok_def)
next
  case False
  have old: "list_all (\<lambda>(n, t). n \<le> pl_effect p) (pl_asked q)" using assms(1,2) by (auto simp: asked_ok_def list_all_iff)
  then have "\<forall>x \<in> set (pl_asked q). fst x < Suc (pl_effect p)" by (auto simp: list_all_iff)
  moreover have "pl_effect (settle p q) = Suc (pl_effect p)"
    "pl_timer (settle p q) = None \<or> pl_open (settle p q) \<and> pl_timer (settle p q) = Some (js_trim (pl_query (settle p q)))"
    using False assms(3) by (auto simp: settle_def search_effect_def Let_def)
  ultimately show ?thesis unfolding asked_ok_def by (auto simp: list_all_iff)
qed

lemma settle_hits:
  assumes "pl_query q = pl_query p \<Longrightarrow> pl_open q = pl_open p \<Longrightarrow> hits_ok es q"
  shows "hits_ok es (settle p q)"
proof (cases "pl_query q = pl_query p \<and> pl_open q = pl_open p")
  case True
  then show ?thesis using assms by (simp add: settle_same hits_ok_def)
next
  case False
  then show ?thesis by (auto simp: settle_def search_effect_def Let_def hits_ok_def)
qed

lemma close_in_range: "in_range user (close_palette p)"
  by (auto simp: in_range_def close_palette_def)

lemma act_cases:
  "(\<exists>lg. act r p = p\<lparr>pl_log := lg\<rparr>) \<or> (\<exists>lg. act r p = close_palette (p\<lparr>pl_log := lg\<rparr>))"
  by (cases r) (auto simp: Let_def split: palette_action.split)

lemma close_ok: "palette_ok user es p \<Longrightarrow> pl_open p \<Longrightarrow> palette_ok user es (settle p (close_palette (p\<lparr>pl_log := lg\<rparr>)))"
  unfolding palette_ok_def
  by (intro conjI settle_in_range settle_asked settle_hits) (simp add: close_in_range | auto simp: close_palette_def)+

lemma same_ok:
  assumes "palette_ok user es p" "in_range user (p\<lparr>pl_active := i\<rparr>)"
  shows "palette_ok user es (p\<lparr>pl_active := i, pl_log := lg\<rparr>)"
  using assms by (simp add: palette_ok_def asked_ok_def hits_ok_def in_range_length length_ordered)

lemma row_ok: "palette_ok user es p \<Longrightarrow> pl_open p \<Longrightarrow> palette_ok user es (settle p (runRow user i p))"
proof -
  assume ok: "palette_ok user es p" "pl_open p"
  have "palette_ok user es (settle p (act r p))" for r
    using act_cases [of r p]
  proof (elim disjE exE)
    fix lg assume a: "act r p = p\<lparr>pl_log := lg\<rparr>"
    have "in_range user (p\<lparr>pl_active := pl_active p\<rparr>)" using ok(1) by (simp add: palette_ok_def)
    then show ?thesis using same_ok [OF ok(1), of "pl_active p" lg] by (simp add: a settle_same)
  next
    fix lg assume "act r p = close_palette (p\<lparr>pl_log := lg\<rparr>)"
    then show ?thesis using close_ok [OF ok] by simp
  qed
  moreover have "settle p p = p" by (simp add: settle_same)
  ultimately show ?thesis using ok by (simp add: runRow_def)
qed

lemma key_ok: "palette_ok user es p \<Longrightarrow> palette_ok user es (settle p (key_in_palette user key p))"
proof -
  assume ok: "palette_ok user es p"
  have same: "settle p p = p" by (simp add: settle_same)
  have close: "palette_ok user es (settle p (close_palette p))" if "pl_open p" using close_ok [OF ok that, of "pl_log p"] by simp
  have down: "in_range user (p\<lparr>pl_active := min (pl_active p + 1) (int (length (ordered user p)) - 1)\<rparr>)"
    and up: "in_range user (p\<lparr>pl_active := max (pl_active p - 1) 0\<rparr>)"
    using ok by (auto simp: palette_ok_def in_range_length length_ordered)
  show ?thesis
    using ok close row_ok [OF ok] same_ok [OF ok down, of "pl_log p"] same_ok [OF ok up, of "pl_log p"]
    by (simp add: key_in_palette_def same settle_same)
qed

lemma palette_ok_more: "palette_ok user es p \<Longrightarrow> palette_ok user (es @ [e]) p"
  by (auto simp: palette_ok_def hits_ok_def)

lemma palette_step_ok: "palette_ok user es p \<Longrightarrow> palette_ok user (es @ [e]) (palette_step user e p)"
proof -
  assume "palette_ok user es p"
  then have ok: "palette_ok user (es @ [e]) p" by (rule palette_ok_more)
  show ?thesis
  proof (cases e)
    case (KeyPressed isMod key tag editable)
    have "palette_ok user (es @ [e]) (settle p (p\<lparr>pl_open := \<not> pl_open p\<rparr>))"
      using ok unfolding palette_ok_def
      by (intro conjI settle_in_range settle_asked settle_hits) (auto simp: in_range_length length_ordered)
    then show ?thesis using key_ok [OF ok] by (simp add: KeyPressed)
  next
    case (QueryTyped s)
    have "palette_ok user (es @ [e]) (settle p (p\<lparr>pl_query := s\<rparr>))"
      using ok unfolding palette_ok_def
      by (intro conjI settle_in_range settle_asked settle_hits) (auto simp: in_range_length length_ordered)
    then show ?thesis using ok by (simp add: QueryTyped)
  next
    case BackdropClicked
    then show ?thesis using close_ok [OF ok, of "pl_log p"] ok by simp
  next
    case (RowEntered i)
    then show ?thesis using ok same_ok [OF ok, of "int i" "pl_log p"] by (auto simp: in_range_length length_ordered)
  next
    case (RowClicked i)
    then show ?thesis using ok row_ok [OF ok] by simp
  next
    case TimerFired
    then show ?thesis using ok
      by (auto simp: search_timer_def palette_ok_def in_range_length length_ordered asked_ok_def hits_ok_def split: option.split)
  next
    case (SearchAnswered n a)
    show ?thesis
    proof (cases "n \<in> fst ` set (pl_asked p) \<and> n = pl_effect p")
      case True
      let ?q = "p\<lparr>pl_hits := found a, pl_searching := False\<rparr>"
      obtain q where "(n, q) \<in> set (pl_asked p)" using True by force
      then have "(pl_effect p, js_trim (pl_query p)) \<in> set (pl_asked p)" using ok True by (fastforce simp: palette_ok_def asked_ok_def list_all_iff)
      then have "hits_ok (es @ [e]) ?q" using True by (auto simp: hits_ok_def SearchAnswered)
      moreover have "asked_ok ?q" using ok by (simp add: palette_ok_def asked_ok_def)
      moreover have "in_range user (settle p ?q)"
        using ok by (intro settle_in_range) (auto simp: palette_ok_def in_range_length length_ordered)
      ultimately have "palette_ok user (es @ [e]) (settle p ?q)"
        by (simp add: palette_ok_def settle_same asked_ok_def hits_ok_def)
      moreover have "pl_effect p \<in> fst ` set (pl_asked p)" "n = pl_effect p" using True by auto
      ultimately show ?thesis by (simp add: SearchAnswered search_answered_def)
    next
      case False
      then show ?thesis using ok by (auto simp: SearchAnswered search_answered_def)
    qed
  qed
qed

lemma palette_run_ok: "palette_ok user es (fold (palette_step user) es new_palette)"
proof (induction es rule: rev_induct)
  case Nil
  show ?case
    by (simp add: palette_ok_def nav_commands_def in_range_length length_ordered asked_ok_def hits_ok_def new_palette_def filteredCmds_def js_trim_def commands_def)
next
  case (snoc e es)
  then show ?case by (simp add: palette_step_ok)
qed

text \<open>
  C40. The palette runs the row that it highlights. After any events, while it is open, its rows are drawn with the
  numbers by which the keyboard and the mouse name them; if there is a row, exactly one is highlighted, and Enter
  does what a click on that row does. Once it says that it is not searching any more, its hits are the answer to
  the query as it stands, however many searches were overtaken. The user of the session is the same
  throughout: when the commands get fewer because a sign-out completes while the palette is open, the
  highlight is not reset.
\<close>

theorem palette_runs_the_highlighted_row:
  assumes "p = fold (palette_step user) es new_palette" "pl_open p"
  shows "map fst (drawn_rows_of user p) = [0..<length (drawn_rows_of user p)] \<and>
    (drawn_rows_of user p = [] \<or>
      (\<exists>i row. (i, row) \<in> set (drawn_rows_of user p) \<and> int i = pl_active p \<and>
        palette_step user (KeyPressed False ''Enter'' tag editable) p = settle p (act row p) \<and>
        palette_step user (RowClicked i) p = settle p (act row p))) \<and>
    (2 \<le> length (js_trim (pl_query p)) \<and> \<not> pl_searching p \<longrightarrow>
      (\<exists>a. SearchAnswered (pl_effect p) a \<in> set es \<and> (pl_effect p, js_trim (pl_query p)) \<in> set (pl_asked p) \<and> pl_hits p = found a))"
proof -
  have ok: "palette_ok user es p" using palette_run_ok assms(1) by simp
  have drawn: "map fst (drawn_rows_of user p) = [0..<length (drawn_rows_of user p)]"
    by (simp add: drawn_as_ordered enumerate_eq_zip)
  have row: "\<exists>i row. (i, row) \<in> set (drawn_rows_of user p) \<and> int i = pl_active p \<and>
        palette_step user (KeyPressed False ''Enter'' tag editable) p = settle p (act row p) \<and>
        palette_step user (RowClicked i) p = settle p (act row p)" if "drawn_rows_of user p \<noteq> []"
  proof -
    have "ordered user p \<noteq> []" using that by (auto simp: drawn_as_ordered)
    then have r: "0 \<le> pl_active p" "pl_active p < int (length (ordered user p))" using ok by (auto simp: palette_ok_def in_range_def)
    then obtain i where i: "pl_active p = int i" "i < length (ordered user p)" by (metis of_nat_less_iff zero_le_imp_eq_int)
    have "drawn_rows_of user p ! i = (i, ordered user p ! i)" "i < length (drawn_rows_of user p)"
      using i(2) by (simp_all add: drawn_as_ordered nth_enumerate_eq)
    then have "(i, ordered user p ! i) \<in> set (drawn_rows_of user p)" by (metis nth_mem)
    moreover have "runRow user (pl_active p) p = act (ordered user p ! i) p" "runRow user (int i) p = act (ordered user p ! i) p"
      using i by (simp_all add: runRow_def)
    ultimately show ?thesis using i(1) assms(2) by (intro exI conjI) (auto simp: shortcut_def key_in_palette_def)
  qed
  have hits: "\<exists>a. SearchAnswered (pl_effect p) a \<in> set es \<and> (pl_effect p, js_trim (pl_query p)) \<in> set (pl_asked p) \<and> pl_hits p = found a"
    if "2 \<le> length (js_trim (pl_query p))" "\<not> pl_searching p"
    using ok assms(2) that unfolding palette_ok_def hits_ok_def by blast
  show ?thesis using drawn row hits by blast
qed

definition two_sum :: problem_hit where
  "two_sum = \<lparr>ht_title = ''Two Sum'', ht_slug = ''two-sum'', ht_difficulty = ''easy''\<rparr>"

definition search_events :: "palette_event list" where
  "search_events = [KeyPressed True ''k'' None False, QueryTyped ''two'', TimerFired, SearchAnswered 2 (Some [two_sum])]"

lemma sample_palette:
  "pl_open (fold (palette_step None) search_events new_palette)" "pl_hits (fold (palette_step None) search_events new_palette) = [two_sum]"
  "\<not> pl_searching (fold (palette_step None) search_events new_palette)" "pl_query (fold (palette_step None) search_events new_palette) = ''two''"
  by code_simp+

lemma palette_runs_the_highlighted_row_witness:
  "\<exists>a. SearchAnswered (pl_effect (fold (palette_step None) search_events new_palette)) a \<in> set search_events \<and>
     pl_hits (fold (palette_step None) search_events new_palette) = found a"
proof -
  have "2 \<le> length (js_trim ''two'')" by (simp add: js_trim_def is_space_def)
  then show ?thesis
    using palette_runs_the_highlighted_row [OF refl sample_palette(1)] sample_palette(3,4) by auto
qed

text \<open>
  Until the next answer the hits of the query before stay on top: Enter, right after the query was replaced, opens
  a problem that has nothing to do with it.
\<close>

lemma stale_hit_is_opened:
  "pl_log (fold (palette_step None) (search_events @ [QueryTyped ''home'', KeyPressed False ''Enter'' (Some ''INPUT'') False]) new_palette) =
     [Push ''/problems/two-sum'']"
  by code_simp

text \<open>Closed by its shortcut the palette keeps the query; closed by Escape it forgets it.\<close>

lemma shortcut_keeps_the_query:
  "pl_query (fold (palette_step None) (search_events @ [KeyPressed True ''k'' None False]) new_palette) = ''two''"
  "pl_query (fold (palette_step None) (search_events @ [KeyPressed False ''Escape'' None False]) new_palette) = []"
  by code_simp+

end
