(* ===== verification/Spec2Isabelle.thy ===== *)
theory Spec2Isabelle
  imports Prelude WorkerQueue TtlCache CacheInvalidate RateLimit Effects Judge DailyChallenge Achievements AcceptanceRate
    Recommendations CodePlayback Glicko2 Contests Solutions Discussions Submissions
    CachedRoutes Guards Analytics Auth Problems Learning
    AdminProblems AdminUsers Profiles ContestPages SubmissionStream ApiServer ApiMetrics Tokens Observability Chat Recorder ServiceWorker ProblemPage ThreadPage Widgets Json Contracts Loggers Seeds SeedTables Browse Palette
begin

text \<open>
  LeetRank is a site for programming problems: a Next.js application (\<^verbatim>\<open>src/src\<close>) whose route
  handlers (\<^verbatim>\<open>src/src/app/api/**/route.ts\<close>) call the libraries of \<^verbatim>\<open>src/src/lib\<close> over a database
  (Prisma), an in-process cache, a rate limiter and a worker queue, and send code to a judge
  service over HTTP. Beside it stand a read-only API server (\<^verbatim>\<open>src/apps/api\<close>), packages the
  services share, a service worker, and the pages and widgets that keep state of their own. This
  development models these programs and proves what makes their parts correct.

  \<^bold>\<open>How the program is rendered.\<close> Objects are records, unions datatypes, \<^verbatim>\<open>Map\<close> an association list in
  insertion order (theory Prelude), strings lists of characters, times integers of milliseconds.
  Prisma's tables are lists of rows; a query is a function of the tables, a statement a function
  that returns an error or new tables. A handler is a program of theory Effects: each awaited database
  call may reject without effect, as a script of booleans says, so that a statement for every script
  covers every pattern of failures; \<^verbatim>\<open>try/catch\<close> is \<open>catch\<close>; a reply is \<open>Reply status body\<close> or
  \<open>Failed status message\<close>. Work that JavaScript interleaves at its awaits is a step relation where that
  matters (WorkerQueue, TtlCache, Judge, SubmissionStream); elsewhere a request is seen whole. A page or a
  widget is a record and a function that takes events (what the user does, what a timer or a
  reply brings) to the next record; runs are folds over lists of events, so that a statement for every list
  covers every order of clicks, timers and late replies.

  \<^bold>\<open>Theories and sources.\<close>
  \<^item> Foundations: Prelude (numbers out of \<^verbatim>\<open>parseInt\<close>, decimal printing, maps, stable sort with the
    locale \<open>comparator\<close>, rows by key, systems that run down), JsText (string methods, \<^verbatim>\<open>parseInt\<close>,
    \<^verbatim>\<open>lib/pagination.ts\<close>), Effects (programs, the locale \<open>evolution\<close> through which relations
    between the states before and after pass), CachedRoutes (\<^verbatim>\<open>cache.remember\<close> as handlers use it,
    locale \<open>cached_part\<close>), Guards (limiter and \<^verbatim>\<open>requireAdmin\<close> in front of handlers, locale \<open>limiter_part\<close>).
  \<^item> Infrastructure: WorkerQueue (\<^verbatim>\<open>lib/queue.ts\<close>: bookkeeping, bounded retries, draining), TtlCache
    (\<^verbatim>\<open>lib/cache.ts\<close>: bounds, order of eviction, one loader per key), CacheInvalidate
    (\<^verbatim>\<open>lib/cache-invalidate.ts\<close>, \<^verbatim>\<open>lib/jobs.ts\<close>: which keys are removed), RateLimit
    (\<^verbatim>\<open>lib/rate-limit.ts\<close>: how many calls are admitted).
  \<^item> Judging: Judge (\<^verbatim>\<open>services/judge.ts\<close>, \<^verbatim>\<open>lib/submission-jobs.ts\<close>: exclusive claims, final rows, the
    outcome of a run), Submissions (\<^verbatim>\<open>api/submissions\<close>, \<^verbatim>\<open>api/run\<close>), SubmissionStream (the event stream of
    a submission and the public feed), AcceptanceRate, Analytics (runtime percentiles and histogram),
    CodePlayback and Recorder (recording in the editor, the routes, and the replay of edits).
  \<^item> Progress: DailyChallenge (streaks), Achievements, Recommendations, Learning (bookmarks and study
    plans), Profiles (leaderboard and public profiles).
  \<^item> Contests: Glicko2 (\<^verbatim>\<open>lib/rating/glicko2.ts\<close>), Contests (taking part, standings, finalising ratings),
    ContestPages (cached pages and their administration).
  \<^item> Community and catalogue: Solutions, Discussions, Problems (lists, pages, search, tags, editorials).
  \<^item> Accounts and staff: Auth (sessions, login, registration, passwords, lockout, middleware),
    AdminProblems, AdminUsers, Tokens (\<^verbatim>\<open>src/packages/auth-verify\<close> and the CSRF helpers).
  \<^item> API server and operations: ApiServer (the stand-alone read API and how it agrees with the routes),
    ApiMetrics (its counters), Observability (metrics, health and the console of the operators),
    Loggers (levels and redaction), Json and Contracts (JSON values, the schemas of
    \<^verbatim>\<open>src/packages/api-contracts\<close> and the bodies that meet them), Chat (the assistant, from the page to the table).
  \<^item> Interface: ProblemPage (running, submitting and polling), ThreadPage (a discussion), Browse (the list
    of problems and its filters), Palette (the command palette), Widgets (bookmark button, hints, toasts,
    editor preferences), ServiceWorker (\<^verbatim>\<open>src/public/sw.js\<close>).
  \<^item> Data: Seeds and SeedTables (the generator and the rows of the two random seed scripts).

  \<^bold>\<open>What the lemmas show.\<close> Each theory proves an invariant of its tables or its state under all its
  operations and all failures of calls (\<open>moves\<close> of a relation, or rule induction on its steps), then
  what each operation does on every branch, then the properties named C1 to C40, which are about
  whole handlers or several of them. Locales are the contracts between parts: a sort is used through
  \<open>comparator\<close>, a cache or a limiter kept inside a component's state through \<open>cached_part\<close> and
  \<open>limiter_part\<close>, a relation on states through \<open>evolution\<close>; each component interprets them on its own
  state.

  \<^bold>\<open>Parameters.\<close> Code that is not in the repository is an argument: what bcrypt, jose, Redis,
  \<^verbatim>\<open>localeCompare\<close>, \<^verbatim>\<open>date_trunc\<close> and the reading of ISO times answer; ids the database makes. Of the editor
  (Monaco) only the meaning of its change reports is used, as the relation \<open>editor_run\<close> of Recorder.
  Hypotheses, where there are any, say that such code answers as documented.

  \<^bold>\<open>Ties and caches.\<close> A query that sorts by a column, or does not sort, leaves the order of rows with
  equal keys to the database. The list of a table stands for the order the database takes, and a
  single request is proved for every order of that list; where several requests are compared (the pages
  of the problem list, the leaderboard, a recording read back) each of them may meet the rows in an
  order of its own, and the properties say what ties leave open. A reply that a route has cached is
  as old as its entry: properties about such routes either start from a cold cache or say how old what is
  served may be.

  \<^bold>\<open>Bounds.\<close> The search for a bracket of Glicko-2 is a loop that is proved to end; the Illinois iteration
  stops after the 100 steps of the source; replay stops after the 10000 frames of the source; the
  tree of comments is built with as many rounds as there are rows, which reaches every row
  (Discussions). Numbers are unbounded integers where the source's values stay far below \<^verbatim>\<open>2^53\<close>, and
  reals for the ratings, rates and percentiles, where rounding of doubles is not modelled.

  \<^bold>\<open>Not modelled.\<close> The order in which concurrent requests interleave inside a handler, except where a step
  relation says so; a single process-wide cache is seen as one cache per kind of value, its keys
  being disjoint, so that one kind does not evict another. Mark-up, styling, focus and scrolling, and
  the React pages and components other than those named above; headers other than those a
  property names; sockets, timeouts and the shutdown of processes; the coercion of query texts by zod
  in the list query of the contracts; the hand-written problems of the canonical seed script, the load and
  end-to-end test scripts; and the services in Go, Rust, Python and Ruby, which are separate
  programs. PROJECT.json lists every part with its status.
\<close>

end
